(* ===== verification/Prelude.thy ===== *)
theory Prelude
  imports Main
begin

section \<open>Prelude: strings, scans and small facts the components share\<close>

text \<open>
  The C++ sources work on \<open>std::string\<close> and \<open>std::string_view\<close> with byte offsets. A string
  is modelled as Isabelle's \<open>string\<close> (a list of 8-bit characters), an offset as a \<open>nat\<close>, and
  \<open>find\<close>'s \<open>npos\<close> as \<open>None\<close>. The loops that advance an offset while a predicate holds
  are all instances of \<open>scan_while\<close>, whose loop equation is \<open>scan_while_loop\<close>.
\<close>

named_theorems scan_simps \<open>bounds of the scanning loops\<close>

subsection \<open>Character classes of the C locale\<close>

text \<open>\<open>std::isspace\<close>, \<open>std::isdigit\<close>: space, tab, newline, vertical tab, form feed, return.\<close>

definition is_space :: "char \<Rightarrow> bool" where
  "is_space c \<longleftrightarrow> c \<in> {CHR 0x20, CHR 0x09, CHR 0x0A, CHR 0x0B, CHR 0x0C, CHR 0x0D}"

definition is_digit :: "char \<Rightarrow> bool" where
  "is_digit c \<longleftrightarrow> c \<in> set ''0123456789''"

text \<open>\<open>std::isupper\<close>, \<open>std::isalnum\<close>.\<close>

definition is_upper :: "char \<Rightarrow> bool" where
  "is_upper c \<longleftrightarrow> c \<in> set ''ABCDEFGHIJKLMNOPQRSTUVWXYZ''"

definition is_alnum :: "char \<Rightarrow> bool" where
  "is_alnum c \<longleftrightarrow> is_digit c \<or> is_upper c \<or> c \<in> set ''abcdefghijklmnopqrstuvwxyz''"

definition digit_val :: "char \<Rightarrow> int" where
  "digit_val c = int (of_char c) - 48"

subsection \<open>Scans, slices and searches\<close>

text \<open>\<open>while (i < s.size() && P(s[i])) ++i;\<close>\<close>

definition scan_while :: "('a \<Rightarrow> bool) \<Rightarrow> 'a list \<Rightarrow> nat \<Rightarrow> nat" where
  "scan_while P s i = i + length (takeWhile P (drop i s))"

text \<open>\<open>s.substr(from, to - from)\<close> for \<open>from \<le> to \<le> s.size()\<close>.\<close>

definition slice :: "'a list \<Rightarrow> nat \<Rightarrow> nat \<Rightarrow> 'a list" where
  "slice s from to = take (to - from) (drop from s)"

text \<open>\<open>s.find(c, pos)\<close>.\<close>

definition find_from :: "'a \<Rightarrow> 'a list \<Rightarrow> nat \<Rightarrow> nat option" where
  "find_from c s pos =
     (let j = scan_while (\<lambda>x. x \<noteq> c) s pos in if j < length s then Some j else None)"

lemma scan_while_loop:
  "scan_while P s i = (if i < length s \<and> P (s ! i) then scan_while P s (Suc i) else i)"
  by (cases "i < length s") (auto simp: scan_while_def Cons_nth_drop_Suc [symmetric])

lemma scan_while_ge [scan_simps, simp]: "i \<le> scan_while P s i"
  by (simp add: scan_while_def)

lemma scan_while_le [scan_simps]: "i \<le> length s \<Longrightarrow> scan_while P s i \<le> length s"
  using length_takeWhile_le [of P "drop i s"] by (simp add: scan_while_def)

lemma scan_while_stop: "scan_while P s i < length s \<Longrightarrow> \<not> P (s ! scan_while P s i)"
  using nth_length_takeWhile [of P "drop i s"]
  by (auto simp: scan_while_def)

lemma slice_scan: "slice s i (scan_while P s i) = takeWhile P (drop i s)"
  by (simp add: slice_def scan_while_def takeWhile_eq_take [symmetric])

lemma drop_scan: "drop (scan_while P s i) s = dropWhile P (drop i s)"
  by (simp add: scan_while_def dropWhile_eq_drop add.commute)

lemma scan_while_0_append [simp]:
  "\<forall>x \<in> set a. P x \<Longrightarrow> \<not> P c \<Longrightarrow> scan_while P (a @ c # b) 0 = length a"
  by (simp add: scan_while_def takeWhile_append1 takeWhile_append2)

lemma length_slice [simp]: "to \<le> length s \<Longrightarrow> length (slice s from to) = to - from"
  by (simp add: slice_def)

lemma slice_drop: "drop from s = slice s from to @ drop to s" if "from \<le> to"
  using that by (simp add: slice_def) (metis append_take_drop_id drop_drop le_add_diff_inverse2)

lemma slice_append: "i \<le> k \<Longrightarrow> k \<le> e \<Longrightarrow> slice s i e = slice s i k @ slice s k e"
  using take_add [of "k - i" "e - k" "drop i s"] by (simp add: slice_def)

lemma find_from_Some:
  "find_from c s pos = Some j \<Longrightarrow> pos \<le> j \<and> j < length s \<and> s ! j = c"
  by (auto simp: find_from_def Let_def scan_while_stop dest: scan_while_stop split: if_splits)

subsection \<open>Substrings\<close>

text \<open>\<open>s.compare(i, p.size(), p) == 0\<close> for \<open>i \<le> s.size()\<close>, and \<open>s.find(p, pos)\<close>.\<close>

definition starts_at :: "'a list \<Rightarrow> 'a list \<Rightarrow> nat \<Rightarrow> bool" where
  "starts_at s p i \<longleftrightarrow> take (length p) (drop i s) = p"

fun find_in :: "'a list \<Rightarrow> nat \<Rightarrow> 'a list \<Rightarrow> nat option" where
  "find_in p n [] = (if p = [] then Some n else None)"
| "find_in p n (c # cs) = (if take (length p) (c # cs) = p then Some n else find_in p (Suc n) cs)"

definition find_str :: "'a list \<Rightarrow> 'a list \<Rightarrow> nat \<Rightarrow> nat option" where
  "find_str p s pos = (if pos \<le> length s then find_in p pos (drop pos s) else None)"

lemma starts_at_length: "starts_at s p i \<Longrightarrow> i \<le> length s \<Longrightarrow> i + length p \<le> length s"
  unfolding starts_at_def by (drule arg_cong [where f = length]) (simp add: min_def split: if_splits)

lemma find_in_Some:
  "find_in p n s = Some j \<Longrightarrow> \<exists>a b. s = a @ p @ b \<and> j = n + length a"
proof (induction p n s rule: find_in.induct)
  case (1 p n) then show ?case by (auto split: if_splits)
next
  case (2 p n c cs)
  show ?case
  proof (cases "take (length p) (c # cs) = p")
    case True
    with 2 have "j = n" by simp
    moreover have "c # cs = [] @ p @ drop (length p) (c # cs)" by (metis True append_Nil append_take_drop_id)
    ultimately show ?thesis by (metis add.right_neutral list.size(3))
  next
    case False
    with 2 obtain a b where "cs = a @ p @ b" "j = Suc n + length a" by auto
    then have "c # cs = (c # a) @ p @ b \<and> j = n + length (c # a)" by simp
    then show ?thesis by blast
  qed
qed

lemma find_str_Some:
  assumes "find_str p s pos = Some j"
  shows "pos \<le> j \<and> j + length p \<le> length s \<and> starts_at s p j"
proof -
  from assms have pos: "pos \<le> length s" and f: "find_in p pos (drop pos s) = Some j"
    by (auto simp: find_str_def split: if_splits)
  from find_in_Some [OF f] obtain a b where d: "drop pos s = a @ p @ b" and j: "j = pos + length a" by blast
  from arg_cong [OF d, of length] pos j have len: "j + length p \<le> length s" by simp
  have "drop j s = p @ b" using arg_cong [OF d, of "drop (length a)"] j by (simp add: add.commute)
  with len j show ?thesis by (simp add: starts_at_def)
qed

subsection \<open>Options and lists\<close>

lemma concat_equal_lengths:
  assumes "\<forall>x \<in> set xs. length (f x) = n"
  shows "length (concat (map f xs)) = length xs * n"
    and "k < length xs \<Longrightarrow> take n (drop (k * n) (concat (map f xs))) = f (xs ! k)"
proof -
  show "length (concat (map f xs)) = length xs * n" using assms by (induction xs) auto
  show "take n (drop (k * n) (concat (map f xs))) = f (xs ! k)" if "k < length xs"
    using assms that
  proof (induction xs arbitrary: k)
    case (Cons x xs)
    then show ?case by (cases k) auto
  qed simp
qed

lemma drop_eq_Cons: "i < length s \<Longrightarrow> drop i s = s ! i # drop (Suc i) s"
  by (simp add: Cons_nth_drop_Suc)

lemma sorted_wrt_mono_mapI:
  "sorted_wrt P xs \<Longrightarrow> (\<And>x y. x \<in> set xs \<Longrightarrow> y \<in> set xs \<Longrightarrow> P x y \<Longrightarrow> Q (f x) (f y)) \<Longrightarrow> sorted_wrt Q (map f xs)"
  by (induction xs) auto

subsection \<open>Decimal text\<close>

text \<open>\<open>std::to_string\<close>.\<close>

fun nat_text :: "nat \<Rightarrow> string" where
  "nat_text n = (if n < 10 then [char_of (48 + n)] else nat_text (n div 10) @ [char_of (48 + n mod 10)])"

declare nat_text.simps [simp del]

definition int_text :: "int \<Rightarrow> string" where
  "int_text i = (if i < 0 then CHR ''-'' # nat_text (nat (- i)) else nat_text (nat i))"

text \<open>Distinct numbers have distinct texts: reading the digits back gives the number.\<close>

definition text_value :: "string \<Rightarrow> nat" where
  "text_value s = fold (\<lambda>c acc. acc * 10 + (of_char c - 48)) s 0"

lemma text_value_nat_text: "text_value (nat_text n) = n"
proof (induction n rule: nat_text.induct)
  case (1 n)
  show ?case
  proof (cases "n < 10")
    case True then show ?thesis by (simp add: nat_text.simps [of n] text_value_def)
  next
    case False
    with 1 show ?thesis by (simp add: nat_text.simps [of n] text_value_def)
  qed
qed

lemma nat_text_inj: "nat_text m = nat_text n \<longleftrightarrow> m = n"
  by (metis text_value_nat_text)

lemma nat_text_digits: "list_all is_digit (nat_text n)"
proof (induction n rule: nat_text.induct)
  case (1 n)
  have d: "is_digit (char_of (48 + k :: nat))" if "k < 10" for k
  proof -
    have "list_all (\<lambda>k. is_digit (char_of (48 + k :: nat))) [0..<10]" by code_simp
    with that show ?thesis by (simp add: list_all_iff)
  qed
  show ?case
  proof (cases "n < 10")
    case True with d show ?thesis by (simp add: nat_text.simps [of n])
  next
    case False
    with 1 d [of "n mod 10"] show ?thesis by (simp add: nat_text.simps [of n])
  qed
qed

end
