(* ===== verification/QueryToken.thy ===== *)
theory QueryToken
  imports Prelude
begin

section \<open>The query lexer (common/query/include/pj_query/token.hpp)\<close>

text \<open>
  \<open>PJ::query::Lexer::tokenize\<close> over byte offsets, as the code has it (\<open>lex_step\<close> is one pass of
  its loop, \<open>lex_from\<close> the loop, \<open>tokenize\<close> the whole call), and a list-based reference lexer
  \<open>lexemes_of\<close> that forgets the offsets. \<open>PJ::parseNumber<double>\<close> belongs to the SDK: it is the
  parameter \<open>num\<close>, true on the words it accepts. Facts shown: the loop always advances; tokens
  are non-empty, in range, in order and disjoint, carry their own source text, and everything
  between them is white space; the offset lexer refines the reference lexer; and lexing distributes
  over concatenation at white space and at parentheses unless a quote is left open.
\<close>

datatype tok_type =
    TkKey | TkOperator | TkValue | TkAnd | TkOr | TkNot | TkOpenParen | TkCloseParen

record token =
  ttype :: tok_type
  ttext :: string
  tstart :: nat
  tend :: nat

definition mk_token :: "tok_type \<Rightarrow> string \<Rightarrow> nat \<Rightarrow> nat \<Rightarrow> token" where
  "mk_token ty tx s e = \<lparr>ttype = ty, ttext = tx, tstart = s, tend = e\<rparr>"

lemma mk_token_sel [simp]:
  "ttype (mk_token ty tx s e) = ty" "ttext (mk_token ty tx s e) = tx"
  "tstart (mk_token ty tx s e) = s" "tend (mk_token ty tx s e) = e"
  by (simp_all add: mk_token_def)

definition is_punct :: "char \<Rightarrow> bool" where
  "is_punct c \<longleftrightarrow> c \<in> {CHR ''('', CHR '')'', CHR ''='', CHR ''~'', CHR ''<'', CHR ''>'',
                       CHR 0x22, CHR 0x27}"

definition is_quote :: "char \<Rightarrow> bool" where
  "is_quote c \<longleftrightarrow> c = CHR 0x22 \<or> c = CHR 0x27"

definition is_two_char_op :: "string \<Rightarrow> bool" where
  "is_two_char_op w \<longleftrightarrow> w = ''=='' \<or> w = ''~='' \<or> w = ''<='' \<or> w = ''>=''"

definition word_char :: "char \<Rightarrow> bool" where
  "word_char c \<longleftrightarrow> \<not> is_space c \<and> \<not> is_punct c"

definition classify_word :: "(string \<Rightarrow> bool) \<Rightarrow> string \<Rightarrow> tok_type" where
  "classify_word num w =
     (if w = ''and'' then TkAnd
      else if w = ''or'' then TkOr
      else if w = ''not'' then TkNot
      else if num w then TkValue
      else TkKey)"

text \<open>The inner loop of a quoted string: the offset of the closing quote, or the end.\<close>

function quote_end :: "string \<Rightarrow> char \<Rightarrow> nat \<Rightarrow> nat" where
  "quote_end s q j =
     (if j < length s \<and> s ! j \<noteq> q
      then quote_end s q (if s ! j = CHR 0x5C \<and> j + 1 < length s then j + 2 else j + 1)
      else j)"
  by pat_completeness auto
termination
  by (relation "measure (\<lambda>(s, q, j). length s - j)") auto

declare quote_end.simps [simp del]

text \<open>One pass of the \<open>while (index < len)\<close> loop: the token pushed, if any, and the next index.\<close>

definition lex_step :: "(string \<Rightarrow> bool) \<Rightarrow> string \<Rightarrow> nat \<Rightarrow> token option \<times> nat" where
  "lex_step num src index =
     (let len = length src; c = src ! index in
      if is_space c then (None, index + 1)
      else if index + 1 < len \<and> is_two_char_op (slice src index (index + 2))
      then (Some (mk_token TkOperator (slice src index (index + 2)) index (index + 2)), index + 2)
      else if c = CHR ''<'' \<or> c = CHR ''>''
      then (Some (mk_token TkOperator [c] index (index + 1)), index + 1)
      else if c = CHR ''('' then (Some (mk_token TkOpenParen ''('' index (index + 1)), index + 1)
      else if c = CHR '')'' then (Some (mk_token TkCloseParen '')'' index (index + 1)), index + 1)
      else if is_quote c
      then (let j = quote_end src c (index + 1);
                e = (if j < len then j + 1 else j)
            in (Some (mk_token TkValue (slice src index e) index e), e))
      else if c = CHR ''='' \<or> c = CHR ''~''
      then (Some (mk_token TkOperator [c] index (index + 1)), index + 1)
      else (let e = scan_while word_char src index in
            if index < e
            then (Some (mk_token (classify_word num (slice src index e)) (slice src index e) index e), e)
            else (None, index + 1)))"

lemma quote_end_bounds: "j \<le> length s \<Longrightarrow> j \<le> quote_end s q j \<and> quote_end s q j \<le> length s"
proof (induction s q j rule: quote_end.induct)
  case (1 s q j)
  then show ?case
    by (subst (1 2) quote_end.simps) (auto split: if_splits)
qed

lemma lex_step_next:
  "i < length src \<Longrightarrow> i < snd (lex_step num src i) \<and> snd (lex_step num src i) \<le> length src"
  using quote_end_bounds [of "i + 1" src "src ! i"] scan_while_le [of i src word_char]
  by (auto simp: lex_step_def Let_def split: if_splits)

lemma lex_step_next':
  "(x, j) = lex_step num src i \<Longrightarrow> i < length src \<Longrightarrow> i < j \<and> j \<le> length src"
  using lex_step_next [of i src num] by (metis snd_conv)

function lex_from :: "(string \<Rightarrow> bool) \<Rightarrow> string \<Rightarrow> nat \<Rightarrow> token list" where
  "lex_from num src index =
     (if index < length src
      then (case lex_step num src index of
              (None, j) \<Rightarrow> lex_from num src j
            | (Some t, j) \<Rightarrow> t # lex_from num src j)
      else [])"
  by pat_completeness auto
termination
  by (relation "measure (\<lambda>(num, src, i). length src - i)") (auto dest: lex_step_next')

declare lex_from.simps [simp del]

definition tokenize :: "(string \<Rightarrow> bool) \<Rightarrow> string \<Rightarrow> token list" where
  "tokenize num src = lex_from num src 0"

subsection \<open>Tokens cover the source\<close>

definition token_ok :: "string \<Rightarrow> token \<Rightarrow> bool" where
  "token_ok src t \<longleftrightarrow>
     tstart t < tend t \<and> tend t \<le> length src \<and> ttext t = slice src (tstart t) (tend t)"

lemma lex_step_None:
  assumes "i < length src" "lex_step num src i = (None, j)"
  shows "is_space (src ! i) \<and> j = i + 1"
proof -
  have "word_char (src ! i) \<Longrightarrow> i < scan_while word_char src i"
    using assms(1) by (subst scan_while_loop) (auto intro: less_le_trans [OF _ scan_while_ge])
  with assms(2) show ?thesis
    by (auto simp: lex_step_def Let_def word_char_def is_punct_def is_quote_def split: if_splits)
qed

lemma lex_step_Some:
  assumes "i < length src" "lex_step num src i = (Some t, j)"
  shows "token_ok src t \<and> tstart t = i \<and> tend t = j"
  using assms quote_end_bounds [of "i + 1" src "src ! i"] scan_while_le [of i src word_char]
  by (auto simp: lex_step_def Let_def token_ok_def slice_def drop_eq_Cons split: if_splits)

lemma lex_from_ok:
  assumes "i \<le> length src"
  shows "(\<forall>t \<in> set (lex_from num src i). token_ok src t \<and> i \<le> tstart t)
    \<and> sorted_wrt (\<lambda>a b. tend a \<le> tstart b) (lex_from num src i)"
  using assms
proof (induction num src i rule: lex_from.induct)
  case (1 num src i)
  show ?case
  proof (cases "i < length src")
    case True
    obtain x j where st: "lex_step num src i = (x, j)" by force
    with True have ij: "i < j" "j \<le> length src" by (auto dest: lex_step_next' [OF sym])
    note IH = "1.IH"(1,2) [OF True st [symmetric]]
    show ?thesis
    proof (cases x)
      case None
      with IH(1) ij True st show ?thesis by (subst (1 2) lex_from.simps) auto
    next
      case (Some t)
      with lex_step_Some [of i src num t j] st True have "token_ok src t" "tstart t = i" "tend t = j"
        by auto
      with IH(2) [OF Some] ij True st Some show ?thesis
        by (subst (1 2) lex_from.simps) auto
    qed
  qed (simp add: lex_from.simps)
qed

lemma lex_from_covers:
  "i \<le> k \<Longrightarrow> k < length src \<Longrightarrow> \<not> is_space (src ! k) \<Longrightarrow>
     \<exists>t \<in> set (lex_from num src i). tstart t \<le> k \<and> k < tend t"
proof (induction num src i rule: lex_from.induct)
  case (1 num src i)
  from "1.prems" have il: "i < length src" by simp
  obtain x j where st: "lex_step num src i = (x, j)" by force
  note IH = "1.IH"(1,2) [OF il st [symmetric]]
  show ?case
  proof (cases x)
    case None
    with lex_step_None [of i src num j] il st have "is_space (src ! i)" "j = i + 1" by auto
    with "1.prems" have "j \<le> k" by (cases "i = k") auto
    with IH(1) [OF None] "1.prems" il st None show ?thesis by (subst lex_from.simps) auto
  next
    case (Some t)
    with lex_step_Some [of i src num t j] st il have t: "tstart t = i" "tend t = j" by auto
    show ?thesis
    proof (cases "k < j")
      case True
      with t "1.prems" st Some il show ?thesis by (subst lex_from.simps) auto
    next
      case False
      with IH(2) [OF Some] "1.prems" il st Some show ?thesis by (subst lex_from.simps) auto
    qed
  qed
qed

subsection \<open>The reference lexer, without offsets\<close>

type_synonym lexeme = "tok_type \<times> string"

definition erase :: "token \<Rightarrow> lexeme" where
  "erase t = (ttype t, ttext t)"

lemma erase_mk_token [simp]: "erase (mk_token ty tx s e) = (ty, tx)"
  by (simp add: erase_def)

text \<open>The text up to and with the closing quote, the rest, and whether a closing quote was found.\<close>

fun take_quoted :: "char \<Rightarrow> string \<Rightarrow> string \<times> string \<times> bool" where
  "take_quoted q [] = ([], [], False)"
| "take_quoted q (c # cs) =
     (if c = q then ([c], cs, True)
      else if c = CHR 0x5C
      then (case cs of
              [] \<Rightarrow> ([c], [], False)
            | d # ds \<Rightarrow> (case take_quoted q ds of (a, r, b) \<Rightarrow> (c # d # a, r, b)))
      else (case take_quoted q cs of (a, r, b) \<Rightarrow> (c # a, r, b)))"

definition lx_step :: "(string \<Rightarrow> bool) \<Rightarrow> char \<Rightarrow> string \<Rightarrow> lexeme option \<times> string \<times> bool" where
  "lx_step num c cs =
     (if is_space c then (None, cs, True)
      else if cs \<noteq> [] \<and> is_two_char_op [c, hd cs]
      then (Some (TkOperator, [c, hd cs]), tl cs, True)
      else if c \<in> set ''<>=~'' then (Some (TkOperator, [c]), cs, True)
      else if c = CHR ''('' then (Some (TkOpenParen, ''(''), cs, True)
      else if c = CHR '')'' then (Some (TkCloseParen, '')''), cs, True)
      else if is_quote c
      then (case take_quoted c cs of (a, r, b) \<Rightarrow> (Some (TkValue, c # a), r, b))
      else (Some (classify_word num (c # takeWhile word_char cs), c # takeWhile word_char cs),
            dropWhile word_char cs, True))"

lemma take_quoted_append: "take_quoted q cs = (a, r, b) \<Longrightarrow> a @ r = cs"
  by (induction q cs arbitrary: a r b rule: take_quoted.induct)
     (auto split: if_splits prod.splits list.splits)

lemma take_quoted_length: "take_quoted q cs = (a, r, b) \<Longrightarrow> length r \<le> length cs"
  by (drule take_quoted_append) auto

lemma lx_step_length: "length (fst (snd (lx_step num c cs))) \<le> length cs"
  by (cases "take_quoted c cs")
     (auto simp: lx_step_def length_dropWhile_le dest: take_quoted_length)

lemma lx_step_length': "(x, r, b) = lx_step num c cs \<Longrightarrow> length r < Suc (length cs)"
  using lx_step_length [of num c cs] by (metis fst_conv snd_conv le_imp_less_Suc)

function lexemes_of :: "(string \<Rightarrow> bool) \<Rightarrow> string \<Rightarrow> lexeme list" where
  "lexemes_of num [] = []"
| "lexemes_of num (c # cs) =
     (case lx_step num c cs of
        (None, r, b) \<Rightarrow> lexemes_of num r
      | (Some l, r, b) \<Rightarrow> l # lexemes_of num r)"
  by pat_completeness auto
termination
  by (relation "measure (\<lambda>(num, s). length s)") (auto dest: lx_step_length')

text \<open>No quote is left open at the end of the text.\<close>

function quotes_closed :: "(string \<Rightarrow> bool) \<Rightarrow> string \<Rightarrow> bool" where
  "quotes_closed num [] = True"
| "quotes_closed num (c # cs) =
     (case lx_step num c cs of (x, r, b) \<Rightarrow> b \<and> quotes_closed num r)"
  by pat_completeness auto
termination
  by (relation "measure (\<lambda>(num, s). length s)") (auto dest: lx_step_length')

lemma take_quoted_quote_end:
  "j \<le> length s \<Longrightarrow>
     (let e = quote_end s q j; e' = (if e < length s then e + 1 else e)
      in take_quoted q (drop j s) = (slice s j e', drop e' s, e < length s))"
proof (induction s q j rule: quote_end.induct)
  case (1 s q j)
  show ?case
  proof (cases "j < length s \<and> s ! j \<noteq> q")
    case False
    have "quote_end s q j = j" by (rule trans [OF quote_end.simps if_not_P [OF False]])
    with False "1.prems" show ?thesis
      by (cases "j < length s") (auto simp: drop_eq_Cons slice_def Let_def)
  next
    case True
    define k where "k = (if s ! j = CHR 0x5C \<and> j + 1 < length s then j + 2 else j + 1)"
    define e where "e = quote_end s q k"
    define e' where "e' = (if e < length s then e + 1 else e)"
    from True have k: "j < k" "k \<le> length s" by (auto simp: k_def)
    from "1.IH" [OF True, folded k_def, OF k(2)]
    have IH: "take_quoted q (drop k s) = (slice s k e', drop e' s, e < length s)"
      by (simp only: e_def e'_def Let_def)
    have ee: "quote_end s q j = e"
      using True by (simp add: quote_end.simps [of s q j] e_def k_def)
    have ke: "k \<le> e" "e \<le> length s" using quote_end_bounds [of k s q] k by (simp_all add: e_def)
    have e'b: "k \<le> e'" using ke by (simp add: e'_def)
    have sl: "slice s j e' = slice s j k @ slice s k e'"
      by (rule slice_append [OF less_imp_le [OF k(1)] e'b])
    have "take_quoted q (drop j s) = (slice s j e', drop e' s, e < length s)"
    proof (cases "s ! j = CHR 0x5C")
      case bs: True
      show ?thesis
      proof (cases "j + 1 < length s")
        case in_range: True
        with True bs have "drop j s = CHR 0x5C # s ! (j + 1) # drop k s"
          "slice s j k = [CHR 0x5C, s ! (j + 1)]" "q \<noteq> CHR 0x5C"
          by (auto simp: k_def drop_eq_Cons slice_def)
        then show ?thesis by (simp add: IH sl)
      next
        case False
        with True bs have "drop j s = [CHR 0x5C]" "slice s j k = [CHR 0x5C]" "q \<noteq> CHR 0x5C" "k = length s"
          by (auto simp: k_def drop_eq_Cons slice_def)
        with IH sl show ?thesis by simp
      qed
    next
      case nbs: False
      with True have "drop j s = s ! j # drop k s" "slice s j k = [s ! j]"
        by (auto simp: k_def drop_eq_Cons slice_def)
      then show ?thesis using True nbs by (simp add: IH sl)
    qed
    then show ?thesis by (simp only: ee e'_def Let_def)
  qed
qed

lemma lx_step_quote:
  "is_quote c \<Longrightarrow>
     lx_step num c cs = (case take_quoted c cs of (a, r, b) \<Rightarrow> (Some (TkValue, c # a), r, b))"
  by (auto simp: lx_step_def is_quote_def is_space_def is_two_char_op_def)

lemma lx_step_word:
  "word_char c \<Longrightarrow>
     lx_step num c cs = (Some (classify_word num (c # takeWhile word_char cs), c # takeWhile word_char cs),
            dropWhile word_char cs, True)"
  by (auto simp: lx_step_def word_char_def is_punct_def is_quote_def is_two_char_op_def)

lemma lex_step_refines:
  assumes "i < length src" "lex_step num src i = (x, j)"
  shows "\<exists>b. lx_step num (src ! i) (drop (Suc i) src) = (map_option erase x, drop j src, b)"
proof -
  let ?c = "src ! i" and ?cs = "drop (Suc i) src"
  have two: "slice src i (i + 2) = [?c, hd ?cs]" "?cs \<noteq> []" if "i + 1 < length src"
    using that assms(1) by (auto simp: slice_def drop_eq_Cons)
  have quoted: "take_quoted ?c ?cs = (let e = quote_end src ?c (Suc i);
       e' = (if e < length src then e + 1 else e) in (slice src (Suc i) e', drop e' src, e < length src))"
    using take_quoted_quote_end [of "Suc i" src ?c] assms(1) by (simp add: Let_def)
  have sl: "slice src i e = ?c # slice src (Suc i) e" if "i < e" for e
    using that assms(1) by (cases e) (auto simp: slice_def drop_eq_Cons Suc_diff_le)
  have qb: "i < quote_end src ?c (Suc i)"
    using quote_end_bounds [of "Suc i" src ?c] assms(1) by simp
  have word: "slice src i (scan_while word_char src i) = ?c # takeWhile word_char ?cs"
    "drop (scan_while word_char src i) src = dropWhile word_char ?cs" if "word_char ?c"
    using that assms(1) by (simp_all add: slice_scan drop_scan drop_eq_Cons)
  have scan: "i < scan_while word_char src i" if "word_char ?c"
    using that assms(1) by (subst scan_while_loop) (auto intro: less_le_trans [OF _ scan_while_ge])
  consider "is_space ?c"
    | "\<not> is_space ?c" "i + 1 < length src" "is_two_char_op (slice src i (i + 2))"
    | "\<not> is_space ?c" "\<not> (i + 1 < length src \<and> is_two_char_op (slice src i (i + 2)))"
      "?c \<in> {CHR ''<'', CHR ''>'', CHR ''('', CHR '')'', CHR ''='', CHR ''~''}"
    | "\<not> is_space ?c" "is_quote ?c"
    | "word_char ?c"
    by (auto simp: word_char_def is_punct_def is_quote_def)
  then show ?thesis
  proof cases
    case 1 with assms show ?thesis by (auto simp: lex_step_def lx_step_def)
  next
    case 2
    have "tl ?cs = drop (i + 2) src" by (simp add: tl_drop [symmetric] drop_Suc)
    with 2 assms(2) two show ?thesis by (auto simp: lex_step_def lx_step_def)
  next
    case 3
    have "\<not> (?cs \<noteq> [] \<and> is_two_char_op [?c, hd ?cs])"
      using 3(2) two(1) by (cases "i + 1 < length src") auto
    then have "lx_step num ?c ?cs =
        (if ?c = CHR ''('' then (Some (TkOpenParen, ''(''), ?cs, True)
         else if ?c = CHR '')'' then (Some (TkCloseParen, '')''), ?cs, True)
         else (Some (TkOperator, [?c]), ?cs, True))"
      using 3(1,3) by (simp only: lx_step_def if_False) auto
    moreover from 3(2) have "lex_step num src i =
        (if ?c = CHR ''('' then (Some (mk_token TkOpenParen ''('' i (i + 1)), i + 1)
         else if ?c = CHR '')'' then (Some (mk_token TkCloseParen '')'' i (i + 1)), i + 1)
         else (Some (mk_token TkOperator [?c] i (i + 1)), i + 1))"
      using 3(1,3) by (simp only: lex_step_def Let_def if_False) (auto simp: is_quote_def)
    ultimately show ?thesis using assms(2) by (auto split: if_splits)
  next
    case 4
    then have n: "\<not> is_two_char_op (?c # xs)" "?c \<noteq> CHR ''<''" "?c \<noteq> CHR ''>''" "?c \<noteq> CHR ''(''"
      "?c \<noteq> CHR '')''" for xs
      by (auto simp: is_quote_def is_two_char_op_def)
    with two(1) have "\<not> (i + 1 < length src \<and> is_two_char_op (slice src i (i + 2)))" by auto
    with n have "lex_step num src i = (let e = quote_end src ?c (i + 1); e' = (if e < length src then e + 1 else e)
        in (Some (mk_token TkValue (slice src i e') i e'), e'))"
      using 4 by (auto simp: lex_step_def Let_def)
    with 4 assms qb sl quoted show ?thesis by (auto simp: lx_step_quote Let_def)
  next
    case 5
    then have n: "\<not> is_space ?c" "\<not> is_quote ?c" "?c \<noteq> CHR ''<''" "?c \<noteq> CHR ''>''" "?c \<noteq> CHR ''(''"
      "?c \<noteq> CHR '')''" "?c \<noteq> CHR ''=''" "?c \<noteq> CHR ''~''" "\<not> is_two_char_op (?c # xs)" for xs
      by (auto simp: word_char_def is_punct_def is_quote_def is_two_char_op_def)
    with two(1) have "\<not> (i + 1 < length src \<and> is_two_char_op (slice src i (i + 2)))" by auto
    with n scan 5 have "lex_step num src i = (let e = scan_while word_char src i in
        (Some (mk_token (classify_word num (slice src i e)) (slice src i e) i e), e))"
      by (auto simp: lex_step_def Let_def)
    with 5 assms(2) word show ?thesis by (auto simp: lx_step_word Let_def)
  qed
qed

lemma lex_from_refines:
  "i \<le> length src \<Longrightarrow> map erase (lex_from num src i) = lexemes_of num (drop i src)"
proof (induction num src i rule: lex_from.induct)
  case (1 num src i)
  show ?case
  proof (cases "i < length src")
    case True
    obtain x j where st: "lex_step num src i = (x, j)" by force
    with True have ij: "j \<le> length src" by (auto dest: lex_step_next' [OF sym])
    from lex_step_refines [OF True st] obtain b where
      lx: "lx_step num (src ! i) (drop (Suc i) src) = (map_option erase x, drop j src, b)" by blast
    show ?thesis
    proof (cases x)
      case None
      with "1.IH"(1) [OF True st [symmetric]] ij st lx True show ?thesis
        by (subst lex_from.simps) (simp add: drop_eq_Cons)
    next
      case (Some t)
      with "1.IH"(2) [OF True st [symmetric]] ij st lx True show ?thesis
        by (subst lex_from.simps) (simp add: drop_eq_Cons)
    qed
  qed (simp add: lex_from.simps)
qed

lemma tokenize_refines: "map erase (tokenize num src) = lexemes_of num src"
  by (simp add: tokenize_def lex_from_refines)

subsection \<open>Lexing a concatenation\<close>

text \<open>White space and parentheses end every token except an open quote.\<close>

definition is_break :: "char \<Rightarrow> bool" where
  "is_break d \<longleftrightarrow> is_space d \<or> d = CHR ''('' \<or> d = CHR '')''"

lemma take_quoted_closed:
  "take_quoted q cs = (a, r, True) \<Longrightarrow> take_quoted q (cs @ x) = (a, r @ x, True)"
  by (induction q cs arbitrary: a r rule: take_quoted.induct)
     (auto split: if_splits prod.splits list.splits)

lemma lx_step_append:
  assumes "lx_step num c cs = (x, r, True)" "is_break d"
  shows "lx_step num c (cs @ d # b) = (x, r @ d # b, True)"
proof -
  have two: "\<not> is_two_char_op [c, d]" "\<not> word_char d"
    using assms(2) by (auto simp: is_break_def is_two_char_op_def is_space_def word_char_def is_punct_def)
  show ?thesis
  proof (cases "is_quote c \<and> \<not> is_space c")
    case True
    with assms(1) show ?thesis
      using take_quoted_closed [of c cs] by (cases "take_quoted c cs") (simp add: lx_step_quote)
  next
    case False
    with assms(1) two show ?thesis
      by (cases cs) (auto simp: lx_step_def takeWhile_tail dropWhile_append3 split: if_splits)
  qed
qed

lemma lexemes_append_break:
  assumes "quotes_closed num a" "is_break d"
  shows "lexemes_of num (a @ d # b) = lexemes_of num a @ lexemes_of num (d # b)
    \<and> quotes_closed num (a @ d # b) = quotes_closed num (d # b)"
  using assms
proof (induction num a rule: quotes_closed.induct)
  case (2 num c cs)
  obtain x r o' where st: "lx_step num c cs = (x, r, o')" by (cases "lx_step num c cs") auto
  with "2.prems" have o': "o'" "quotes_closed num r" by auto
  from lx_step_append [of num c cs x r d b] st o' "2.prems"(2)
  have st': "lx_step num c (cs @ d # b) = (x, r @ d # b, True)" by simp
  from "2.IH" [OF st [symmetric] refl o'(2) "2.prems"(2)] st st' o' show ?case
    by (cases x) auto
qed auto

lemma lexemes_space [simp]: "is_space d \<Longrightarrow> lexemes_of num (d # b) = lexemes_of num b"
  and quotes_closed_space [simp]: "is_space d \<Longrightarrow> quotes_closed num (d # b) = quotes_closed num b"
  by (simp_all add: lx_step_def)

lemma lexemes_paren [simp]:
  "lexemes_of num (CHR ''('' # b) = (TkOpenParen, ''('') # lexemes_of num b"
  "lexemes_of num (CHR '')'' # b) = (TkCloseParen, '')'') # lexemes_of num b"
  "quotes_closed num (CHR ''('' # b) = quotes_closed num b"
  "quotes_closed num (CHR '')'' # b) = quotes_closed num b"
  by (simp_all add: lx_step_def is_space_def is_two_char_op_def)

declare lexemes_of.simps(2) [simp del] quotes_closed.simps(2) [simp del]

subsection \<open>A lexeme read alone is itself\<close>

definition lexeme_wf :: "(string \<Rightarrow> bool) \<Rightarrow> lexeme \<Rightarrow> bool" where
  "lexeme_wf num l \<longleftrightarrow> lexemes_of num (snd l) = [l] \<and> quotes_closed num (snd l)"

lemma take_quoted_self: "take_quoted q cs = (a, r, True) \<Longrightarrow> take_quoted q a = (a, [], True)"
proof (induction q cs arbitrary: a r rule: take_quoted.induct)
  case (2 q c cs)
  consider "c = q" | "c \<noteq> q" "c = CHR 0x5C" | "c \<noteq> q" "c \<noteq> CHR 0x5C" by blast
  then show ?case
  proof cases
    case 2
    with "2.prems" obtain d ds a' where "cs = d # ds" "take_quoted q ds = (a', r, True)" "a = c # d # a'"
      by (cases cs) (auto split: prod.splits)
    with "2.IH"(1) [OF 2] 2 show ?thesis by simp
  next
    case 3
    with "2.prems" obtain a' where "take_quoted q cs = (a', r, True)" "a = c # a'"
      by (auto split: prod.splits)
    with "2.IH"(2) [OF 3] 3 show ?thesis by simp
  qed (use "2.prems" in auto)
qed simp

lemma lx_step_wf:
  assumes "lx_step num c cs = (Some l, r, True)"
  shows "lexeme_wf num l"
proof -
  have wf: "lexeme_wf num l" if "snd l = d # ds" "lx_step num d ds = (Some l, [], True)" for d ds
    using that by (simp add: lexeme_wf_def lexemes_of.simps(2) quotes_closed.simps(2))
  consider "is_quote c" | "\<not> is_quote c" "word_char c" | "\<not> is_quote c" "\<not> word_char c" by blast
  then show ?thesis
  proof cases
    case 1
    obtain a r' b where q: "take_quoted c cs = (a, r', b)" by (cases "take_quoted c cs") auto
    with 1 assms have "b" "l = (TkValue, c # a)" by (auto simp: lx_step_quote)
    with q 1 take_quoted_self [of c cs a r'] show ?thesis by (intro wf [of c a]) (auto simp: lx_step_quote)
  next
    case 2
    with assms have "l = (classify_word num (c # takeWhile word_char cs), c # takeWhile word_char cs)"
      by (simp add: lx_step_word)
    with 2 show ?thesis
      by (intro wf [of c "takeWhile word_char cs"])
         (auto simp: lx_step_word takeWhile_idem dropWhile_eq_Nil_conv dest: set_takeWhileD)
  next
    case 3
    then have p: "is_space c \<or> c \<in> set ''<>=~()''"
      by (auto simp: word_char_def is_punct_def is_quote_def)
    have ns: "\<not> is_space c" using assms by (auto simp: lx_step_def)
    show ?thesis
    proof (cases "cs \<noteq> [] \<and> is_two_char_op [c, hd cs]")
      case True
      with ns assms have "l = (TkOperator, [c, hd cs])" by (simp add: lx_step_def)
      with ns True show ?thesis by (intro wf [of c "[hd cs]"]) (simp_all add: lx_step_def)
    next
      case False
      have "lx_step num c ds = (if c \<in> set ''<>=~'' then (Some (TkOperator, [c]), ds, True)
          else if c = CHR ''('' then (Some (TkOpenParen, ''(''), ds, True)
          else (Some (TkCloseParen, '')''), ds, True))" if "ds = [] \<or> ds = cs" for ds
      proof -
        from that False have "\<not> (ds \<noteq> [] \<and> is_two_char_op [c, hd ds])" by auto
        with ns p show ?thesis by (simp only: lx_step_def if_False) auto
      qed
      from this [of "[]"] this [of cs] assms p ns show ?thesis
        by (intro wf [of c "[]"]) (auto split: if_splits)
    qed
  qed
qed

lemma lexemes_wf:
  "quotes_closed num s \<Longrightarrow> l \<in> set (lexemes_of num s) \<Longrightarrow> lexeme_wf num l"
proof (induction num s rule: quotes_closed.induct)
  case (2 num c cs)
  obtain x r b where st: "lx_step num c cs = (x, r, b)" by (cases "lx_step num c cs") auto
  with "2.prems"(1) have "b" "quotes_closed num r" by (auto simp: quotes_closed.simps(2))
  with "2.IH" [OF st [symmetric]] "2.prems"(2) st lx_step_wf [of num c cs] show ?case
    by (auto simp: lexemes_of.simps(2) split: option.splits)
qed simp

text \<open>The lexemes with a fixed spelling.\<close>

lemma lexemes_fixed:
  "(ty, w) \<in> set (lexemes_of num s) \<Longrightarrow>
     (ty = TkNot \<longrightarrow> w = ''not'') \<and> (ty = TkAnd \<longrightarrow> w = ''and'') \<and> (ty = TkOr \<longrightarrow> w = ''or'')
     \<and> (ty = TkOpenParen \<longrightarrow> w = ''('') \<and> (ty = TkCloseParen \<longrightarrow> w = '')'')"
proof (induction num s rule: lexemes_of.induct)
  case (2 num c cs)
  obtain x r b where st: "lx_step num c cs = (x, r, b)" by (cases "lx_step num c cs") auto
  show ?case
  proof (cases "(ty, w) \<in> set (lexemes_of num r)")
    case True
    with "2.IH" [OF st [symmetric]] st show ?thesis by (cases x) auto
  next
    case False
    with "2.prems" st have "x = Some (ty, w)" by (auto simp: lexemes_of.simps(2) split: option.splits)
    with st show ?thesis
      by (auto simp: lx_step_def classify_word_def split: if_splits prod.splits)
  qed
qed simp

subsection \<open>Cutting the source between tokens\<close>

text \<open>\<open>cut num src i k\<close>: the lexer loop, started at i, stands at offset k at some pass.\<close>

function cut :: "(string \<Rightarrow> bool) \<Rightarrow> string \<Rightarrow> nat \<Rightarrow> nat \<Rightarrow> bool" where
  "cut num src i k =
     (if i = k then True else if i < length src then cut num src (snd (lex_step num src i)) k else False)"
  by pat_completeness auto
termination
  by (relation "measure (\<lambda>(num, src, i, k). length src - i)") (auto intro!: diff_less_mono2 lex_step_next [THEN conjunct1])

declare cut.simps [simp del]

lemma lx_step_take:
  assumes "lx_step num c (u @ v @ z) = (x, v @ z, True)"
  shows "lx_step num c (u @ v) = (x, v, True)"
proof -
  consider "is_quote c" | "\<not> is_quote c" "word_char c" | "\<not> is_quote c" "\<not> word_char c" by blast
  then show ?thesis
  proof cases
    case 1
    with assms obtain a where q: "take_quoted c (u @ v @ z) = (a, v @ z, True)" "x = Some (TkValue, c # a)"
      by (auto simp: lx_step_quote split: prod.splits)
    from take_quoted_append [OF q(1)] have "a = u" by simp
    with take_quoted_self [OF q(1)] take_quoted_closed [of c u u "[]" v] q 1 show ?thesis
      by (simp add: lx_step_quote)
  next
    case 2
    with assms have d: "dropWhile word_char (u @ v @ z) = v @ z"
      and x: "x = Some (classify_word num (c # takeWhile word_char (u @ v @ z)), c # takeWhile word_char (u @ v @ z))"
      by (auto simp: lx_step_word)
    from d have t: "takeWhile word_char (u @ v @ z) = u"
      by (metis append_same_eq takeWhile_dropWhile_id)
    then have u: "\<forall>y \<in> set u. word_char y" by (metis set_takeWhileD)
    from d have "v \<noteq> [] \<Longrightarrow> \<not> word_char (hd v)"
      by (metis append_is_Nil_conv hd_append2 hd_dropWhile)
    with u have "takeWhile word_char (u @ v) = u" "dropWhile word_char (u @ v) = v"
      by (cases v; simp add: takeWhile_append2 dropWhile_append2)+
    with x t 2 show ?thesis by (simp add: lx_step_word)
  next
    case 3
    show ?thesis
    proof (cases "u @ v @ z \<noteq> [] \<and> is_two_char_op [c, hd (u @ v @ z)] \<and> \<not> is_space c")
      case True
      with assms have t: "x = Some (TkOperator, [c, hd (u @ v @ z)])" "tl (u @ v @ z) = v @ z"
        by (auto simp: lx_step_def)
      from t(2) True have "length u = 1" by (metis append_same_eq append_assoc list.collapse length_Cons append_Cons append_Nil length_append diff_add_inverse2 length_tl length_greater_0_conv list.size(3) One_nat_def)
      then obtain d where "u = [d]" by (cases u) auto
      with t True show ?thesis by (simp add: lx_step_def)
    next
      case False
      with assms 3 have "v @ z = u @ v @ z" by (auto simp: lx_step_def word_char_def is_punct_def is_quote_def split: if_splits)
      then have u: "u = []" by simp
      have "\<not> (v \<noteq> [] \<and> is_two_char_op [c, hd v] \<and> \<not> is_space c)" using False u by (cases v) auto
      moreover have "is_space c \<or> c \<in> set ''<>=~()''"
        using 3 by (auto simp: word_char_def is_punct_def is_quote_def)
      ultimately show ?thesis using False u assms
        by (simp only: lx_step_def append_Nil) (auto split: if_splits)
    qed
  qed
qed

lemma cut_bounds: "cut num src i k \<Longrightarrow> i \<le> length src \<Longrightarrow> i \<le> k \<and> k \<le> length src"
proof (induction num src i k rule: cut.induct)
  case (1 num src i k)
  show ?case
  proof (cases "i = k")
    case False
    with "1.prems"(1) have il: "i < length src" and "cut num src (snd (lex_step num src i)) k"
      by (simp_all add: cut.simps [of num src i] split: if_splits)
    with "1.IH" [OF False il] lex_step_next [OF il, of num] show ?thesis by simp
  qed (use "1.prems" in simp)
qed

lemma cut_self [simp]: "cut num src i i"
  by (simp add: cut.simps)

lemma cut_token:
  assumes "i \<le> length src" "t \<in> set (lex_from num src i)"
  shows "cut num src i (tstart t) \<and> cut num src i (tend t)"
  using assms
proof (induction num src i rule: lex_from.induct)
  case (1 num src i)
  have "\<not> i < length src \<Longrightarrow> lex_from num src i = []" by (subst lex_from.simps) simp
  with "1.prems"(2) have il: "i < length src" by force
  obtain x j where st: "lex_step num src i = (x, j)" by (cases "lex_step num src i")
  note IH = "1.IH"(1,2) [OF il st [symmetric]]
  have j: "j \<le> length src" using lex_step_next [OF il, of num] st by simp
  have c: "cut num src j k \<Longrightarrow> cut num src i k" for k using il st by (simp add: cut.simps [of num src i])
  show ?case
  proof (cases x)
    case None
    with IH(1) [OF None j] "1.prems" il st c show ?thesis by (simp add: lex_from.simps [of num src i])
  next
    case (Some a)
    with lex_step_Some [OF il, of num] st have "tstart a = i" "tend a = j" by auto
    with IH(2) [OF Some j] Some "1.prems" il st c show ?thesis by (auto simp: lex_from.simps [of num src i])
  qed
qed

lemma cut_gap:
  assumes "i \<le> k" "k \<le> length src" "\<forall>t \<in> set (lex_from num src i). \<not> (tstart t < k \<and> k < tend t)"
  shows "cut num src i k"
  using assms
proof (induction num src i rule: lex_from.induct)
  case (1 num src i)
  show ?case
  proof (cases "i = k")
    case False
    with "1.prems" have il: "i < length src" by simp
    obtain x j where st: "lex_step num src i = (x, j)" by (cases "lex_step num src i")
    note IH = "1.IH"(1,2) [OF il st [symmetric]]
    from False il st "1.prems" lex_step_None [OF il, of num] lex_step_Some [OF il, of num]
    have "j \<le> k" by (cases x) (fastforce simp: lex_from.simps [of num src i])+
    with IH "1.prems" il st have "cut num src j k"
      by (cases x) (auto simp: lex_from.simps [of num src i])
    with il st show ?thesis by (simp add: cut.simps [of num src i])
  qed (subst cut.simps, simp)
qed

lemma cut_split:
  assumes "cut num src i k" "i \<le> length src" "quotes_closed num (drop i src)"
  shows "lexemes_of num (slice src i k) = map erase (filter (\<lambda>t. tend t \<le> k) (lex_from num src i))
    \<and> lexemes_of num (drop k src) = map erase (filter (\<lambda>t. k \<le> tstart t) (lex_from num src i))
    \<and> quotes_closed num (slice src i k) \<and> quotes_closed num (drop k src)"
  using assms
proof (induction num src i k rule: cut.induct)
  case (1 num src i k)
  note b = cut_bounds [OF "1.prems"(1,2)]
  show ?case
  proof (cases "i = k")
    case True
    have "filter (\<lambda>t. tend t \<le> k) (lex_from num src i) = []" "filter (\<lambda>t. k \<le> tstart t) (lex_from num src i) = lex_from num src i"
      using lex_from_ok [OF "1.prems"(2), of num] True by (force simp: filter_empty_conv filter_id_conv token_ok_def)+
    with True "1.prems" show ?thesis by (simp add: slice_def lex_from_refines)
  next
    case False
    with "1.prems"(1) have il: "i < length src" by (simp add: cut.simps [of num src i] split: if_splits)
    obtain x j where st: "lex_step num src i = (x, j)" by (cases "lex_step num src i")
    with "1.prems"(1) False have c: "cut num src j k" by (simp add: cut.simps [of num src i] split: if_splits)
    have j: "i < j" "j \<le> length src" using lex_step_next [OF il, of num] st by auto
    from cut_bounds [OF c j(2)] have k: "j \<le> k" "k \<le> length src" by auto
    from lex_step_refines [OF il st] obtain q where
      lx: "lx_step num (src ! i) (drop (Suc i) src) = (map_option erase x, drop j src, q)" by blast
    from "1.prems"(3) lx il have q: "q" "quotes_closed num (drop j src)"
      by (auto simp: drop_eq_Cons quotes_closed.simps(2))
    have IH: "lexemes_of num (slice src j k) = map erase (filter (\<lambda>t. tend t \<le> k) (lex_from num src j))
      \<and> lexemes_of num (drop k src) = map erase (filter (\<lambda>t. k \<le> tstart t) (lex_from num src j))
      \<and> quotes_closed num (slice src j k) \<and> quotes_closed num (drop k src)"
      using "1.IH" [OF False il] c st j q by simp
    have d: "drop (Suc i) src = slice src (Suc i) j @ slice src j k @ drop k src"
      using slice_drop [of "Suc i" j src] slice_drop [of j k src] j k by simp
    have dj: "drop j src = slice src j k @ drop k src" using slice_drop [of j k src] k by simp
    have A: "slice src i k = src ! i # slice src (Suc i) j @ slice src j k"
      using slice_append [of i j k src] slice_append [of i "Suc i" j src] j k il
      by (simp add: slice_def [of src i "Suc i"] drop_eq_Cons)
    have B: "lx_step num (src ! i) (slice src (Suc i) j @ slice src j k) = (map_option erase x, slice src j k, True)"
    proof (rule lx_step_take)
      show "lx_step num (src ! i) (slice src (Suc i) j @ slice src j k @ drop k src)
        = (map_option erase x, slice src j k @ drop k src, True)"
        using lx q(1) unfolding d dj by simp
    qed
    have s: "lexemes_of num (slice src i k) = (case x of None \<Rightarrow> [] | Some t \<Rightarrow> [erase t]) @ lexemes_of num (slice src j k)"
      "quotes_closed num (slice src i k) = quotes_closed num (slice src j k)"
      unfolding A lexemes_of.simps(2) quotes_closed.simps(2) B by (simp_all split: option.split)
    from il st have l: "lex_from num src i = (case x of None \<Rightarrow> lex_from num src j | Some t \<Rightarrow> t # lex_from num src j)"
      by (subst lex_from.simps) (simp split: option.split)
    from lex_step_Some [OF il, of num] st j k have "x = Some t \<Longrightarrow> tend t \<le> k \<and> \<not> k \<le> tstart t" for t by fastforce
    with s l IH show ?thesis by (auto split: option.splits)
  qed
qed

text \<open>A text that ends in white space, with its quotes closed, lexes apart from what follows it.\<close>

lemma lx_step_more:
  assumes "lx_step num c cs = (x, r, True)" "r \<noteq> [] \<or> is_space c"
  shows "lx_step num c (cs @ b) = (x, r @ b, True)"
proof -
  consider "is_space c" | "\<not> is_space c" "is_quote c" | "\<not> is_quote c" "word_char c"
    | "\<not> is_space c" "\<not> is_quote c" "\<not> word_char c" by blast
  then show ?thesis
  proof cases
    case 1 with assms show ?thesis by (auto simp: lx_step_def)
  next
    case 2
    with assms(1) show ?thesis
      using take_quoted_closed [of c cs] by (cases "take_quoted c cs") (simp add: lx_step_quote)
  next
    case 3
    then have "\<not> is_space c" by (simp add: word_char_def)
    with 3 assms have "dropWhile word_char cs = r" "r \<noteq> []" by (auto simp: lx_step_word)
    then obtain d where "d \<in> set cs" "\<not> word_char d" by (metis dropWhile_eq_Nil_conv)
    with 3 assms show ?thesis
      by (simp add: lx_step_word takeWhile_append1 dropWhile_append1)
  next
    case 4
    then have p: "c \<in> set ''<>=~()''" by (auto simp: word_char_def is_punct_def is_quote_def)
    show ?thesis
    proof (cases cs)
      case Nil
      with p 4 assms show ?thesis by (auto simp: lx_step_def is_two_char_op_def split: if_splits)
    next
      case (Cons d ds)
      with p 4 assms show ?thesis by (simp only: lx_step_def) (auto split: if_splits)
    qed
  qed
qed

lemma lx_step_suffix: "lx_step num c cs = (x, r, q) \<Longrightarrow> \<exists>u. cs = u @ r"
proof -
  assume st: "lx_step num c cs = (x, r, q)"
  have "r = cs \<or> r = tl cs \<or> r = fst (snd (take_quoted c cs)) \<or> r = dropWhile word_char cs"
    using st by (auto simp: lx_step_def split: if_splits prod.splits)
  moreover have "fst (take_quoted c cs) @ fst (snd (take_quoted c cs)) = cs"
    using take_quoted_append [of c cs] by (cases "take_quoted c cs") auto
  ultimately show ?thesis
    by (metis append_Nil append_take_drop_id drop_Suc drop0 takeWhile_dropWhile_id)
qed

lemma take_quoted_last: "take_quoted q cs = (a, r, True) \<Longrightarrow> a \<noteq> [] \<and> last a = q"
proof (induction q cs arbitrary: a r rule: take_quoted.induct)
  case (2 q c cs)
  consider "c = q" | "c \<noteq> q" "c = CHR 0x5C" | "c \<noteq> q" "c \<noteq> CHR 0x5C" by blast
  then show ?case
  proof cases
    case 2
    with "2.prems" obtain d ds a' where "cs = d # ds" "take_quoted q ds = (a', r, True)" "a = c # d # a'"
      by (cases cs) (auto split: prod.splits)
    with "2.IH"(1) [OF 2] 2 show ?thesis by simp
  next
    case 3
    with "2.prems" obtain a' where "take_quoted q cs = (a', r, True)" "a = c # a'"
      by (auto split: prod.splits)
    with "2.IH"(2) [OF 3] 3 show ?thesis by simp
  qed (use "2.prems" in auto)
qed simp

lemma lx_step_last:
  assumes "lx_step num c cs = (x, [], True)" "\<not> is_space c"
  shows "\<not> is_space (last (c # cs))"
proof -
  consider "is_quote c" | "\<not> is_quote c" "word_char c" | "\<not> is_quote c" "\<not> word_char c" by blast
  then show ?thesis
  proof cases
    case 1
    then obtain a where q: "take_quoted c cs = (a, [], True)"
      using assms(1) by (auto simp: lx_step_quote split: prod.splits)
    from take_quoted_append [OF q] take_quoted_last [OF q] assms(2) show ?thesis by auto
  next
    case 2
    with assms(1) have "\<forall>y \<in> set (c # cs). word_char y" by (simp add: lx_step_word dropWhile_eq_Nil_conv)
    then have "word_char (last (c # cs))" by (metis last_in_set list.distinct(1))
    then show ?thesis by (simp add: word_char_def)
  next
    case 3
    with assms have p: "c \<in> set ''<>=~()''" by (auto simp: word_char_def is_punct_def is_quote_def)
    show ?thesis
    proof (cases "cs \<noteq> [] \<and> is_two_char_op [c, hd cs]")
      case True
      with assms have "tl cs = []" by (simp add: lx_step_def)
      with True have "cs = [hd cs]" by (cases cs) auto
      moreover have "\<not> is_space (hd cs)" using True by (auto simp: is_two_char_op_def is_space_def)
      ultimately show ?thesis by (metis last_ConsR last_ConsL list.distinct(1))
    next
      case False
      with p assms have "cs = []" by (simp only: lx_step_def) (auto split: if_splits)
      with assms(2) show ?thesis by simp
    qed
  qed
qed

lemma lexemes_append_space:
  assumes "quotes_closed num a" "a = [] \<or> is_space (last a)"
  shows "lexemes_of num (a @ b) = lexemes_of num a @ lexemes_of num b
    \<and> quotes_closed num (a @ b) = quotes_closed num b"
  using assms
proof (induction num a rule: quotes_closed.induct)
  case (2 num c cs)
  obtain x r q where st: "lx_step num c cs = (x, r, q)" by (cases "lx_step num c cs") auto
  with "2.prems"(1) have q: "q" "quotes_closed num r" by (auto simp: quotes_closed.simps(2))
  with st have st': "lx_step num c cs = (x, r, True)" by simp
  have ne: "r \<noteq> [] \<or> is_space c" using lx_step_last [of num c cs x] st' "2.prems"(2) by auto
  obtain u where "cs = u @ r" using lx_step_suffix [OF st] by blast
  with "2.prems"(2) have "r = [] \<or> is_space (last r)" by (auto simp: last_append split: if_splits)
  from "2.IH" [OF st [symmetric] refl q(2) this] lx_step_more [OF st' ne, of b] st' show ?case
    unfolding append_Cons lexemes_of.simps(2) quotes_closed.simps(2)
    by (simp split: option.split)
qed simp

subsection \<open>Properties of the lexer\<close>

text \<open>A number predicate for the concrete examples: the decimal digit words.\<close>

definition digits_only :: "string \<Rightarrow> bool" where
  "digits_only w \<longleftrightarrow> w \<noteq> [] \<and> list_all is_digit w"

text \<open>C1. The lexer loses nothing: the tokens of any source are non-empty and in range, each holds
  exactly the source text of its span, they are in order and disjoint, and every character that is
  not white space lies under a token (so the branch that skips unrecognised characters is dead).\<close>

theorem tokens_cover_source:
  "(\<forall>t \<in> set (tokenize num src). token_ok src t)
   \<and> sorted_wrt (\<lambda>a b. tend a \<le> tstart b) (tokenize num src)
   \<and> (\<forall>k < length src. is_space (src ! k) \<or> (\<exists>t \<in> set (tokenize num src). tstart t \<le> k \<and> k < tend t))"
  using lex_from_ok [of 0 src num] lex_from_covers [of 0 _ src num] by (auto simp: tokenize_def)

theorem tokens_cover_source_witness:
  "token_ok ''a<= 1'' (mk_token TkOperator ''<='' 1 3)
   \<and> (\<exists>t \<in> set (tokenize digits_only ''a<= 1''). tstart t \<le> 4 \<and> 4 < tend t)"
proof
  have "mk_token TkOperator ''<='' 1 3 \<in> set (tokenize digits_only ''a<= 1'')" by code_simp
  with tokens_cover_source [of digits_only "''a<= 1''"] show "token_ok ''a<= 1'' (mk_token TkOperator ''<='' 1 3)"
    by blast
  have "(4::nat) < length ''a<= 1'' \<and> \<not> is_space (''a<= 1'' ! 4)" by code_simp
  with tokens_cover_source [of digits_only "''a<= 1''"]
  show "\<exists>t \<in> set (tokenize digits_only ''a<= 1''). tstart t \<le> 4 \<and> 4 < tend t" by blast
qed

end
