(* ===== verification/QueryParser.thy ===== *)
theory QueryParser
  imports QueryToken
begin


datatype expr =
    CompareExpr token token token
  | BinaryExpr expr token expr
  | NotExpr token expr
  | GroupExpr token "expr option" token
  | KeyExpr token
  | PartialExpr token token

record pstate =
  rest :: "token list"
  last_key :: token
  last_op :: token

function (domintros) parse_or :: "pstate \<Rightarrow> expr option \<times> pstate"
  and or_loop :: "expr \<Rightarrow> pstate \<Rightarrow> expr option \<times> pstate"
  and parse_and :: "pstate \<Rightarrow> expr option \<times> pstate"
  and and_loop :: "expr \<Rightarrow> pstate \<Rightarrow> expr option \<times> pstate"
  and parse_unary :: "pstate \<Rightarrow> expr option \<times> pstate"
  and parse_primary :: "pstate \<Rightarrow> expr option \<times> pstate"
where
  "parse_or st =
     (case parse_and st of
        (None, st1) \<Rightarrow> (None, st1)
      | (Some left, st1) \<Rightarrow> or_loop left st1)"
| "or_loop left st =
     (case rest st of
        [] \<Rightarrow> (Some left, st)
      | t # ts \<Rightarrow>
          if ttype t = TkOr
          then (case parse_and (st\<lparr>rest := ts\<rparr>) of
                  (None, st2) \<Rightarrow> (Some left, st2)
                | (Some right, st2) \<Rightarrow> or_loop (BinaryExpr left t right) st2)
          else (Some left, st))"
| "parse_and st =
     (case parse_unary st of
        (None, st1) \<Rightarrow> (None, st1)
      | (Some left, st1) \<Rightarrow> and_loop left st1)"
| "and_loop left st =
     (case rest st of
        [] \<Rightarrow> (Some left, st)
      | t # ts \<Rightarrow>
          if ttype t = TkAnd
          then (case parse_unary (st\<lparr>rest := ts\<rparr>) of
                  (None, st2) \<Rightarrow> (Some left, st2)
                | (Some right, st2) \<Rightarrow> and_loop (BinaryExpr left t right) st2)
          else (Some left, st))"
| "parse_unary st =
     (case rest st of
        t # ts \<Rightarrow>
          if ttype t = TkNot
          then (case parse_unary (st\<lparr>rest := ts\<rparr>) of
                  (None, st1) \<Rightarrow> (None, st1)
                | (Some operand, st1) \<Rightarrow> (Some (NotExpr t operand), st1))
          else parse_primary st
      | [] \<Rightarrow> parse_primary st)"
| "parse_primary st =
     (case rest st of
        [] \<Rightarrow> (None, st)
      | t # ts \<Rightarrow>
          if ttype t = TkOpenParen
          then (case parse_or (st\<lparr>rest := ts\<rparr>) of
                  (inner, st1) \<Rightarrow>
                    (case rest st1 of
                       [] \<Rightarrow> (inner, st1)
                     | c # cs \<Rightarrow>
                         if ttype c = TkCloseParen
                         then (Some (GroupExpr t inner c), st1\<lparr>rest := cs\<rparr>)
                         else (inner, st1)))
          else if ttype t = TkValue \<and> ttext (last_key st) \<noteq> []
          then (Some (CompareExpr (last_key st) (last_op st) t), st\<lparr>rest := ts\<rparr>)
          else if ttype t = TkKey
          then (case ts of
                  [] \<Rightarrow> (Some (KeyExpr t), st\<lparr>rest := ts\<rparr>)
                | p # ps \<Rightarrow>
                    if ttype p = TkOperator
                    then (case ps of
                            v # vs \<Rightarrow>
                              if ttype v = TkValue
                              then (Some (CompareExpr t p v), \<lparr>rest = vs, last_key = t, last_op = p\<rparr>)
                              else (Some (PartialExpr t p), \<lparr>rest = ps, last_key = t, last_op = p\<rparr>)
                          | [] \<Rightarrow> (Some (PartialExpr t p), \<lparr>rest = ps, last_key = t, last_op = p\<rparr>))
                    else (Some (KeyExpr t), st\<lparr>rest := ts\<rparr>))
          else (None, st\<lparr>rest := ts\<rparr>))"
  by pat_completeness auto

abbreviation pdom where "pdom \<equiv> parse_or_or_loop_parse_and_and_loop_parse_unary_parse_primary_dom"

lemma parse_rest_le:
  "pdom (Inl (Inl st)) \<Longrightarrow> length (rest (snd (parse_or st))) \<le> length (rest st)"
  "pdom (Inl (Inr (Inl (e, st)))) \<Longrightarrow> length (rest (snd (or_loop e st))) \<le> length (rest st)"
  "pdom (Inl (Inr (Inr st))) \<Longrightarrow> length (rest (snd (parse_and st))) \<le> length (rest st)"
  "pdom (Inr (Inl (e, st))) \<Longrightarrow> length (rest (snd (and_loop e st))) \<le> length (rest st)"
  "pdom (Inr (Inr (Inl st))) \<Longrightarrow> length (rest (snd (parse_unary st))) \<le> length (rest st)"
  "pdom (Inr (Inr (Inr st))) \<Longrightarrow> length (rest (snd (parse_primary st))) \<le> length (rest st)"
proof (induction st and e st and st and e st and st and st
    rule: parse_or_or_loop_parse_and_and_loop_parse_unary_parse_primary.pinduct)
  case (1 st)
  then show ?case
    by (cases "parse_and st") (force simp: parse_or.psimps split: option.splits)
next
  case (2 left st)
  show ?case
  proof (cases "\<exists>t ts. rest st = t # ts \<and> ttype t = TkOr")
    case True
    then obtain t ts where r: "rest st = t # ts" "ttype t = TkOr" by blast
    obtain x y where pa: "parse_and (st\<lparr>rest := ts\<rparr>) = (x, y)" by force
    with "2.IH"(1) [OF r] have y: "length (rest y) \<le> length ts" by simp
    with "2.IH"(2) [OF r pa [symmetric]] "2.hyps" r pa show ?thesis
      by (cases x) (auto simp: or_loop.psimps)
  qed (auto simp: or_loop.psimps "2.hyps" split: list.splits)
next
  case (3 st)
  then show ?case
    by (cases "parse_unary st") (force simp: parse_and.psimps split: option.splits)
next
  case (4 left st)
  show ?case
  proof (cases "\<exists>t ts. rest st = t # ts \<and> ttype t = TkAnd")
    case True
    then obtain t ts where r: "rest st = t # ts" "ttype t = TkAnd" by blast
    obtain x y where pa: "parse_unary (st\<lparr>rest := ts\<rparr>) = (x, y)" by force
    with "4.IH"(1) [OF r] have y: "length (rest y) \<le> length ts" by simp
    with "4.IH"(2) [OF r pa [symmetric]] "4.hyps" r pa show ?thesis
      by (cases x) (auto simp: and_loop.psimps)
  qed (auto simp: and_loop.psimps "4.hyps" split: list.splits)
next
  case (5 st)
  show ?case
  proof (cases "rest st")
    case Nil
    with "5.IH"(1) "5.hyps" show ?thesis by (simp add: parse_unary.psimps)
  next
    case (Cons t ts)
    with "5.IH"(2,3) [OF Cons] "5.hyps" show ?thesis
      by (cases "ttype t = TkNot"; cases "parse_unary (st\<lparr>rest := ts\<rparr>)")
         (auto simp: parse_unary.psimps split: option.splits)
  qed
next
  case (6 st)
  show ?case
  proof (cases "rest st")
    case Nil
    with "6.hyps" show ?thesis by (simp add: parse_primary.psimps)
  next
    case (Cons t ts)
    obtain x y where po: "parse_or (st\<lparr>rest := ts\<rparr>) = (x, y)" by force
    with "6.IH" [OF Cons] "6.hyps" Cons show ?thesis
      by (auto simp: parse_primary.psimps split: list.splits)
  qed
qed

lemma pdom_all:
  "length (rest st) < n \<Longrightarrow>
     pdom (Inl (Inl st)) \<and> (\<forall>e. pdom (Inl (Inr (Inl (e, st))))) \<and> pdom (Inl (Inr (Inr st))) \<and>
     (\<forall>e. pdom (Inr (Inl (e, st)))) \<and> pdom (Inr (Inr (Inl st))) \<and> pdom (Inr (Inr (Inr st)))"
proof (induction n arbitrary: st)
  case (Suc n)
  note dom = parse_or_or_loop_parse_and_and_loop_parse_unary_parse_primary.domintros
  have tl: "length (rest (st'\<lparr>rest := ts\<rparr>)) < n" if "rest st' = t # ts" "length (rest st') < Suc n"
    for st' t ts using that by simp
  have prim: "pdom (Inr (Inr (Inr st')))" if "length (rest st') < Suc n" for st'
    by (rule dom) (use Suc.IH [OF tl] that in blast)
  have un: "pdom (Inr (Inr (Inl st')))" if "length (rest st') < Suc n" for st'
    by (rule dom) (use Suc.IH [OF tl] that prim in blast)+
  have al: "pdom (Inr (Inl (e, st')))" if l: "length (rest st') < Suc n" for e st'
  proof (rule dom)
    fix x ts ya x2 assume r: "rest st' = x # ts" and p: "(Some x2, ya) = parse_unary (st'\<lparr>rest := ts\<rparr>)"
    from Suc.IH [OF tl [OF r l]] have "pdom (Inr (Inr (Inl (st'\<lparr>rest := ts\<rparr>))))" by blast
    from parse_rest_le(5) [OF this] p have "length (rest ya) \<le> length ts" by (cases "parse_unary (st'\<lparr>rest := ts\<rparr>)") simp
    with tl [OF r l] have "length (rest ya) < n" by simp
    with Suc.IH show "pdom (Inr (Inl (BinaryExpr e x x2, ya)))" by blast
  qed (use Suc.IH [OF tl] l in blast)
  have an: "pdom (Inl (Inr (Inr st')))" if l: "length (rest st') < Suc n" for st'
  proof (rule dom)
    show u: "pdom (Inr (Inr (Inl st')))" by (rule un [OF l])
    fix ya x2 assume p: "(Some x2, ya) = parse_unary st'"
    from parse_rest_le(5) [OF u] p l have "length (rest ya) < Suc n" by (cases "parse_unary st'") simp
    then show "pdom (Inr (Inl (x2, ya)))" by (rule al)
  qed
  have ol: "pdom (Inl (Inr (Inl (e, st'))))" if l: "length (rest st') < Suc n" for e st'
  proof (rule dom)
    fix x ts ya x2 assume r: "rest st' = x # ts" and p: "(Some x2, ya) = parse_and (st'\<lparr>rest := ts\<rparr>)"
    from Suc.IH [OF tl [OF r l]] have "pdom (Inl (Inr (Inr (st'\<lparr>rest := ts\<rparr>))))" by blast
    from parse_rest_le(3) [OF this] p have "length (rest ya) \<le> length ts" by (cases "parse_and (st'\<lparr>rest := ts\<rparr>)") simp
    with tl [OF r l] have "length (rest ya) < n" by simp
    with Suc.IH show "pdom (Inl (Inr (Inl (BinaryExpr e x x2, ya))))" by blast
  qed (use Suc.IH [OF tl] l in blast)
  have "pdom (Inl (Inl st'))" if l: "length (rest st') < Suc n" for st'
  proof (rule dom)
    show u: "pdom (Inl (Inr (Inr st')))" by (rule an [OF l])
    fix ya x2 assume p: "(Some x2, ya) = parse_and st'"
    from parse_rest_le(3) [OF u] p l have "length (rest ya) < Suc n" by (cases "parse_and st'") simp
    then show "pdom (Inl (Inr (Inl (x2, ya))))" by (rule ol)
  qed
  with prim un al an ol Suc.prems show ?case by blast
qed simp

termination parse_or
proof -
  have "pdom x" for x
  proof -
    consider a where "x = Inl (Inl a)" | e a where "x = Inl (Inr (Inl (e, a)))" | a where "x = Inl (Inr (Inr a))"
      | e a where "x = Inr (Inl (e, a))" | a where "x = Inr (Inr (Inl a))" | a where "x = Inr (Inr (Inr a))"
      by (metis (no_types, opaque_lifting) old.sum.exhaust surj_pair)
    then show ?thesis by cases (use pdom_all [OF lessI] in blast)+
  qed
  then show "All pdom" by blast
qed

declare parse_or.simps [simp del] or_loop.simps [simp del] parse_and.simps [simp del]
  and_loop.simps [simp del] parse_unary.simps [simp del] parse_primary.simps [simp del]

subsection \<open>Spans, completeness and serialization\<close>

fun expr_start :: "expr \<Rightarrow> nat" where
  "expr_start (CompareExpr k p v) = tstart k"
| "expr_start (BinaryExpr l c r) = expr_start l"
| "expr_start (NotExpr t e) = tstart t"
| "expr_start (GroupExpr p inner c) = tstart p"
| "expr_start (KeyExpr k) = tstart k"
| "expr_start (PartialExpr k p) = tstart k"

fun expr_end :: "expr \<Rightarrow> nat" where
  "expr_end (CompareExpr k p v) = tend v"
| "expr_end (BinaryExpr l c r) = expr_end r"
| "expr_end (NotExpr t e) = expr_end e"
| "expr_end (GroupExpr p inner c) = tend c"
| "expr_end (KeyExpr k) = tend k"
| "expr_end (PartialExpr k p) = tend p"

fun check_complete :: "expr \<Rightarrow> bool" where
  "check_complete (CompareExpr k p v) = True"
| "check_complete (BinaryExpr l c r) = (check_complete l \<and> check_complete r)"
| "check_complete (NotExpr t e) = check_complete e"
| "check_complete (GroupExpr p inner c) =
     (case inner of None \<Rightarrow> False | Some e \<Rightarrow> check_complete e)"
| "check_complete (KeyExpr k) = False"
| "check_complete (PartialExpr k p) = False"

fun serialize :: "expr \<Rightarrow> string" where
  "serialize (CompareExpr k p v) = ttext k @ '' '' @ ttext p @ '' '' @ ttext v"
| "serialize (BinaryExpr l c r) = serialize l @ '' '' @ ttext c @ '' '' @ serialize r"
| "serialize (NotExpr t e) = ''not '' @ serialize e"
| "serialize (GroupExpr p inner c) =
     ''('' @ (case inner of None \<Rightarrow> [] | Some e \<Rightarrow> serialize e) @ '')''"
| "serialize (KeyExpr k) = ttext k"
| "serialize (PartialExpr k p) = ttext k @ '' '' @ ttext p"

record parse_result =
  pr_ast :: "expr option"
  pr_complete :: bool
  pr_error :: string

text \<open>The default \<open>Token\<close> of \<open>last_key_\<close> and \<open>last_op_\<close>: \<open>kKey\<close>, no text, offsets 0.\<close>

definition default_token :: token where
  "default_token = mk_token TkKey [] 0 0"

definition initial_pstate :: "token list \<Rightarrow> pstate" where
  "initial_pstate toks = \<lparr>rest = toks, last_key = default_token, last_op = default_token\<rparr>"

definition parse :: "token list \<Rightarrow> parse_result" where
  "parse toks =
     (if toks = [] then \<lparr>pr_ast = None, pr_complete = False, pr_error = ''empty''\<rparr>
      else (case parse_or (initial_pstate toks) of
              (e, st) \<Rightarrow>
                let leftover = rest st \<noteq> [];
                    all_complete = (case e of None \<Rightarrow> False | Some x \<Rightarrow> check_complete x)
                in \<lparr>pr_ast = e, pr_complete = all_complete \<and> \<not> leftover,
                    pr_error = (if leftover then ''unexpected tokens'' else [])\<rparr>))"

subsection \<open>What the grammar generates\<close>

definition tok_wf :: "(string \<Rightarrow> bool) \<Rightarrow> token \<Rightarrow> bool" where
  "tok_wf num t \<longleftrightarrow> lexemes_of num (ttext t) = [erase t] \<and> quotes_closed num (ttext t)"

text \<open>\<open>canon num n e\<close>: e is a complete tree as the grammar reads it at level n (2: or, 1: and, 0: unary).\<close>

fun canon :: "(string \<Rightarrow> bool) \<Rightarrow> nat \<Rightarrow> expr \<Rightarrow> bool" where
  "canon num n (CompareExpr k p v) =
     (tok_wf num k \<and> tok_wf num p \<and> tok_wf num v \<and> ttype k = TkKey \<and> ttype p = TkOperator \<and> ttype v = TkValue)"
| "canon num n (BinaryExpr l c r) =
     (tok_wf num c \<and> (if ttype c = TkOr then n = 2 \<and> canon num 2 l \<and> canon num 1 r
                      else ttype c = TkAnd \<and> n \<noteq> 0 \<and> canon num 1 l \<and> canon num 0 r))"
| "canon num n (NotExpr t e) = (ttype t = TkNot \<and> tok_wf num t \<and> canon num 0 e)"
| "canon num n (GroupExpr p inner c) =
     (ttype p = TkOpenParen \<and> tok_wf num p \<and> ttype c = TkCloseParen \<and> tok_wf num c \<and>
      (case inner of None \<Rightarrow> False | Some e \<Rightarrow> canon num 2 e))"
| "canon num n (KeyExpr k) = False"
| "canon num n (PartialExpr k p) = False"

text \<open>The same shape over tokens of any kind \<open>P\<close>.\<close>

fun grammatical :: "(token \<Rightarrow> bool) \<Rightarrow> nat \<Rightarrow> expr \<Rightarrow> bool" where
  "grammatical P n (CompareExpr k p v) = (P k \<and> P p \<and> P v \<and> ttype k = TkKey \<and> ttype p = TkOperator \<and> ttype v = TkValue)"
| "grammatical P n (BinaryExpr l c r) =
     (P c \<and> (if ttype c = TkOr then n = 2 \<and> grammatical P 2 l \<and> grammatical P 1 r
             else ttype c = TkAnd \<and> n \<noteq> 0 \<and> grammatical P 1 l \<and> grammatical P 0 r))"
| "grammatical P n (NotExpr t e) = (ttype t = TkNot \<and> P t \<and> grammatical P 0 e)"
| "grammatical P n (GroupExpr p inner c) =
     (ttype p = TkOpenParen \<and> P p \<and> ttype c = TkCloseParen \<and> P c \<and>
      (case inner of None \<Rightarrow> False | Some e \<Rightarrow> grammatical P 2 e))"
| "grammatical P n (KeyExpr k) = False"
| "grammatical P n (PartialExpr k p) = False"

lemma canon_grammatical: "canon num n e = grammatical (tok_wf num) n e"
  by (induction num n e rule: canon.induct) (auto split: option.splits)

lemma grammatical_mono: "grammatical P 0 e \<Longrightarrow> grammatical P n e" "grammatical P 1 e \<Longrightarrow> grammatical P 2 e"
  by (cases e; auto split: if_splits)+

fun lexs :: "expr \<Rightarrow> lexeme list" where
  "lexs (CompareExpr k p v) = [erase k, erase p, erase v]"
| "lexs (BinaryExpr l c r) = lexs l @ erase c # lexs r"
| "lexs (NotExpr t e) = erase t # lexs e"
| "lexs (GroupExpr p inner c) =
     erase p # (case inner of None \<Rightarrow> [] | Some e \<Rightarrow> lexs e) @ [erase c]"
| "lexs (KeyExpr k) = [erase k]"
| "lexs (PartialExpr k p) = [erase k, erase p]"

text \<open>The tree without its offsets.\<close>

definition unplace :: "token \<Rightarrow> token" where
  "unplace t = t\<lparr>tstart := 0, tend := 0\<rparr>"

fun strip :: "expr \<Rightarrow> expr" where
  "strip (CompareExpr k p v) = CompareExpr (unplace k) (unplace p) (unplace v)"
| "strip (BinaryExpr l c r) = BinaryExpr (strip l) (unplace c) (strip r)"
| "strip (NotExpr t e) = NotExpr (unplace t) (strip e)"
| "strip (GroupExpr p inner c) =
     GroupExpr (unplace p) (case inner of None \<Rightarrow> None | Some e \<Rightarrow> Some (strip e)) (unplace c)"
| "strip (KeyExpr k) = KeyExpr (unplace k)"
| "strip (PartialExpr k p) = PartialExpr (unplace k) (unplace p)"

lemma unplace_eq_iff: "unplace a = unplace b \<longleftrightarrow> erase a = erase b"
  by (cases a; cases b) (auto simp: unplace_def erase_def)

lemma canon_mono: "canon num 0 e \<Longrightarrow> canon num n e" "canon num 1 e \<Longrightarrow> canon num 2 e"
  by (cases e; auto split: if_splits)+

lemma canon_complete: "canon num n e \<Longrightarrow> check_complete e"
  by (induction num n e rule: canon.induct) (auto split: if_splits option.splits)

lemma erase_eq: "erase a = erase b \<longleftrightarrow> ttype a = ttype b \<and> ttext a = ttext b"
  by (simp add: erase_def)

lemma map_erase_append:
  "map erase xs = a @ b \<Longrightarrow> \<exists>ys zs. xs = ys @ zs \<and> map erase ys = a \<and> map erase zs = b"
  by (simp add: map_eq_append_conv) blast

definition not_head :: "tok_type set \<Rightarrow> token list \<Rightarrow> bool" where
  "not_head A ts \<longleftrightarrow> (case ts of [] \<Rightarrow> True | t # _ \<Rightarrow> ttype t \<notin> A)"

lemma or_loop_stop: "not_head {TkOr} (rest st) \<Longrightarrow> or_loop e st = (Some e, st)"
  by (subst or_loop.simps) (auto simp: not_head_def split: list.splits)

lemma and_loop_stop: "not_head {TkAnd} (rest st) \<Longrightarrow> and_loop e st = (Some e, st)"
  by (subst and_loop.simps) (auto simp: not_head_def split: list.splits)

text \<open>Reading a canonical tree back: at each level the parser rebuilds the tree and stops after it.\<close>

definition reads_unary where
  "reads_unary e \<longleftrightarrow> (\<forall>st ts. map erase (rest st) = lexs e @ ts \<longrightarrow>
     (\<exists>e' st'. parse_unary st = (Some e', st') \<and> strip e' = strip e \<and> map erase (rest st') = ts))"

definition reads_and where
  "reads_and e \<longleftrightarrow> (\<forall>st ts. map erase (rest st) = lexs e @ ts \<longrightarrow>
     (\<exists>e' st'. parse_and st = and_loop e' st' \<and> strip e' = strip e \<and> map erase (rest st') = ts))"

definition reads_or where
  "reads_or e \<longleftrightarrow> (\<forall>st ts. map erase (rest st) = lexs e @ ts \<longrightarrow> (ts = [] \<or> fst (hd ts) \<noteq> TkAnd) \<longrightarrow>
     (\<exists>e' st'. parse_or st = or_loop e' st' \<and> strip e' = strip e \<and> map erase (rest st') = ts))"

lemma reads_unaryD:
  "reads_unary e \<Longrightarrow> map erase zs = lexs e @ ts \<Longrightarrow>
     \<exists>e' st'. parse_unary (st\<lparr>rest := zs\<rparr>) = (Some e', st') \<and> strip e' = strip e \<and> map erase (rest st') = ts"
  by (simp add: reads_unary_def)

lemma reads_andD:
  "reads_and e \<Longrightarrow> map erase zs = lexs e @ ts \<Longrightarrow>
     \<exists>e' st'. parse_and (st\<lparr>rest := zs\<rparr>) = and_loop e' st' \<and> strip e' = strip e \<and> map erase (rest st') = ts"
  by (simp add: reads_and_def)

lemma reads_orD:
  "reads_or e \<Longrightarrow> map erase (rest st) = lexs e @ ts \<Longrightarrow> ts = [] \<or> fst (hd ts) \<noteq> TkAnd \<Longrightarrow>
     \<exists>e' st'. parse_or st = or_loop e' st' \<and> strip e' = strip e \<and> map erase (rest st') = ts"
  unfolding reads_or_def by blast

lemma reads_unary_and: "reads_unary e \<Longrightarrow> reads_and e"
  unfolding reads_unary_def reads_and_def by (subst parse_and.simps) fastforce

lemma not_head_erase:
  "map erase xs = ts \<Longrightarrow> ts = [] \<or> fst (hd ts) \<noteq> a \<Longrightarrow> not_head {a} xs"
  by (auto simp: not_head_def erase_def split: list.splits)

lemma reads_and_or: "reads_and e \<Longrightarrow> reads_or e"
  unfolding reads_or_def
proof (intro allI impI)
  fix st :: pstate and ts
  assume "reads_and e" and m: "map erase (rest st) = lexs e @ ts"
    and nt: "ts = [] \<or> fst (hd ts) \<noteq> TkAnd"
  then obtain e' st' where p: "parse_and st = and_loop e' st'" "strip e' = strip e" "map erase (rest st') = ts"
    unfolding reads_and_def by blast
  with nt have "not_head {TkAnd} (rest st')" by (auto intro: not_head_erase)
  with p show "\<exists>e' st'. parse_or st = or_loop e' st' \<and> strip e' = strip e \<and> map erase (rest st') = ts"
    by (subst parse_or.simps) (auto simp: and_loop_stop)
qed

lemma reads_compare:
  assumes "ttype k = TkKey" "ttype p = TkOperator" "ttype v = TkValue"
  shows "reads_unary (CompareExpr k p v)"
  unfolding reads_unary_def
proof (intro allI impI)
  fix st :: pstate and ts assume "map erase (rest st) = lexs (CompareExpr k p v) @ ts"
  then obtain k' p' v' zs where r: "rest st = k' # p' # v' # zs" "erase k' = erase k" "erase p' = erase p"
    "erase v' = erase v" "map erase zs = ts" by auto
  then have "ttype k' = TkKey" "ttype p' = TkOperator" "ttype v' = TkValue"
    using assms by (auto simp: erase_eq)
  with r show "\<exists>e' st'. parse_unary st = (Some e', st') \<and> strip e' = strip (CompareExpr k p v) \<and> map erase (rest st') = ts"
    by (subst parse_unary.simps) (simp add: parse_primary.simps unplace_eq_iff)
qed

lemma reads_not:
  assumes "reads_unary e" "ttype t = TkNot"
  shows "reads_unary (NotExpr t e)"
  unfolding reads_unary_def
proof (intro allI impI)
  fix st :: pstate and ts assume "map erase (rest st) = lexs (NotExpr t e) @ ts"
  then obtain t' zs where r: "rest st = t' # zs" "erase t' = erase t" "map erase zs = lexs e @ ts" by auto
  from reads_unaryD [OF assms(1) r(3), of st] obtain e' st' where
    "parse_unary (st\<lparr>rest := zs\<rparr>) = (Some e', st')" "strip e' = strip e" "map erase (rest st') = ts"
    by blast
  with r assms(2) show "\<exists>e' st'. parse_unary st = (Some e', st') \<and> strip e' = strip (NotExpr t e) \<and> map erase (rest st') = ts"
    by (subst parse_unary.simps) (simp add: erase_eq unplace_eq_iff)
qed

lemma reads_group:
  assumes "reads_or e" "ttype p = TkOpenParen" "ttype c = TkCloseParen"
  shows "reads_unary (GroupExpr p (Some e) c)"
  unfolding reads_unary_def
proof (intro allI impI)
  fix st :: pstate and ts assume "map erase (rest st) = lexs (GroupExpr p (Some e) c) @ ts"
  then obtain p' zs where r: "rest st = p' # zs" "erase p' = erase p" "map erase zs = lexs e @ erase c # ts" by auto
  from r(3) have m: "map erase (rest (st\<lparr>rest := zs\<rparr>)) = lexs e @ erase c # ts" by simp
  from reads_orD [OF assms(1) m] assms(3) obtain e' st' where
    q: "parse_or (st\<lparr>rest := zs\<rparr>) = or_loop e' st'" "strip e' = strip e" "map erase (rest st') = erase c # ts"
    by (auto simp: erase_def)
  from q(3) obtain c' cs where c: "rest st' = c' # cs" "erase c' = erase c" "map erase cs = ts" by auto
  with assms(3) have "or_loop e' st' = (Some e', st')"
    by (auto simp: not_head_def erase_eq intro!: or_loop_stop)
  with r q c assms(2,3) show "\<exists>e' st'. parse_unary st = (Some e', st') \<and> strip e' = strip (GroupExpr p (Some e) c) \<and> map erase (rest st') = ts"
    by (subst parse_unary.simps) (auto simp: parse_primary.simps erase_eq unplace_eq_iff)
qed

lemma reads_and_step:
  assumes "reads_and l" "reads_unary r" "ttype c = TkAnd"
  shows "reads_and (BinaryExpr l c r)"
  unfolding reads_and_def
proof (intro allI impI)
  fix st :: pstate and ts assume "map erase (rest st) = lexs (BinaryExpr l c r) @ ts"
  with assms(1) obtain l' st1 where
    q: "parse_and st = and_loop l' st1" "strip l' = strip l" "map erase (rest st1) = erase c # lexs r @ ts"
    unfolding reads_and_def by force
  from q(3) obtain c' zs where c: "rest st1 = c' # zs" "erase c' = erase c" "map erase zs = lexs r @ ts" by auto
  from reads_unaryD [OF assms(2) c(3), of st1] obtain r' st2 where
    "parse_unary (st1\<lparr>rest := zs\<rparr>) = (Some r', st2)" "strip r' = strip r" "map erase (rest st2) = ts"
    by blast
  with c assms(3) q show "\<exists>e' st'. parse_and st = and_loop e' st' \<and> strip e' = strip (BinaryExpr l c r) \<and> map erase (rest st') = ts"
    by (intro exI [of _ "BinaryExpr l' c' r'"] exI [of _ st2]) (simp add: and_loop.simps [of l'] erase_eq unplace_eq_iff)
qed

lemma reads_or_step:
  assumes "reads_or l" "reads_and r" "ttype c = TkOr"
  shows "reads_or (BinaryExpr l c r)"
  unfolding reads_or_def
proof (intro allI impI)
  fix st :: pstate and ts assume m: "map erase (rest st) = lexs (BinaryExpr l c r) @ ts"
    and nt: "ts = [] \<or> fst (hd ts) \<noteq> TkAnd"
  from m have "map erase (rest st) = lexs l @ erase c # lexs r @ ts" by simp
  with assms(1,3) obtain l' st1 where
    q: "parse_or st = or_loop l' st1" "strip l' = strip l" "map erase (rest st1) = erase c # lexs r @ ts"
    unfolding reads_or_def by (force simp: erase_def)
  from q(3) obtain c' zs where c: "rest st1 = c' # zs" "erase c' = erase c" "map erase zs = lexs r @ ts" by auto
  from reads_andD [OF assms(2) c(3), of st1] obtain r' st2 where
    r: "parse_and (st1\<lparr>rest := zs\<rparr>) = and_loop r' st2" "strip r' = strip r" "map erase (rest st2) = ts"
    by blast
  with nt have "not_head {TkAnd} (rest st2)" by (auto intro: not_head_erase)
  with c assms(3) q r show "\<exists>e' st'. parse_or st = or_loop e' st' \<and> strip e' = strip (BinaryExpr l c r) \<and> map erase (rest st') = ts"
    by (intro exI [of _ "BinaryExpr l' c' r'"] exI [of _ st2])
       (simp add: or_loop.simps [of l'] and_loop_stop erase_eq unplace_eq_iff)
qed

lemma canon_reads:
  "canon num n e \<Longrightarrow>
     (n = 0 \<longrightarrow> reads_unary e) \<and> (n = 1 \<longrightarrow> reads_and e) \<and> (n = 2 \<longrightarrow> reads_or e)"
proof (induction num n e rule: canon.induct)
  case (1 num n k p v)
  then show ?case using reads_compare reads_unary_and reads_and_or by simp
next
  case (2 num n l c r)
  then show ?case using reads_and_step [of l r c] reads_or_step [of l r c] reads_and_or
    by (cases "ttype c = TkOr") auto
next
  case (3 num n t e)
  then show ?case using reads_not reads_unary_and reads_and_or by simp
next
  case (4 num n p inner c)
  then show ?case using reads_group [of _ p c] reads_unary_and reads_and_or by (cases inner) auto
qed auto

lemma check_complete_strip: "check_complete (strip e) = check_complete e"
  by (induction e rule: check_complete.induct) (auto split: option.splits)

lemma parse_lexs:
  assumes "canon num 2 e" "map erase toks = lexs e"
  shows "\<exists>e'. parse toks = \<lparr>pr_ast = Some e', pr_complete = True, pr_error = []\<rparr> \<and> strip e' = strip e"
proof -
  have ne: "lexs e \<noteq> []" by (cases e) auto
  from canon_reads [OF assms(1)] have "reads_or e" by simp
  from reads_orD [OF this, of "initial_pstate toks" "[]"] assms(2) obtain e' st' where
    q: "parse_or (initial_pstate toks) = or_loop e' st'" "strip e' = strip e" "rest st' = []"
    by (auto simp: initial_pstate_def)
  with check_complete_strip canon_complete [OF assms(1)] have "check_complete e'" by metis
  with q ne assms(2) show ?thesis
    by (auto simp: parse_def or_loop_stop not_head_def)
qed

subsection \<open>The text of a canonical tree lexes to its lexemes\<close>

lemma lex_join:
  assumes "quotes_closed num a" "quotes_closed num b"
  shows "lexemes_of num (a @ CHR '' '' # b) = lexemes_of num a @ lexemes_of num b
    \<and> quotes_closed num (a @ CHR '' '' # b)"
  using lexemes_append_break [of num a "CHR '' ''" b] assms by (simp add: is_break_def is_space_def)

lemma lex_not_kw: "quotes_closed num b \<Longrightarrow>
   lexemes_of num (''not '' @ b) = (TkNot, ''not'') # lexemes_of num b \<and> quotes_closed num (''not '' @ b)"
proof -
  assume b: "quotes_closed num b"
  have w: "word_char (CHR ''n'')" "word_char (CHR ''o'')" "word_char (CHR ''t'')"
    by (simp_all add: word_char_def is_punct_def is_space_def)
  have "lexemes_of num ''not'' = [(TkNot, ''not'')] \<and> quotes_closed num ''not''"
    by (simp add: lexemes_of.simps(2) quotes_closed.simps(2) lx_step_word w classify_word_def)
  with lex_join [of num "''not''" b] b show ?thesis by simp
qed

lemma tok_wf_fixed:
  "tok_wf num t \<Longrightarrow> ttype t = TkNot \<Longrightarrow> ttext t = ''not''"
  "tok_wf num t \<Longrightarrow> ttype t = TkOpenParen \<Longrightarrow> ttext t = ''(''"
  "tok_wf num t \<Longrightarrow> ttype t = TkCloseParen \<Longrightarrow> ttext t = '')''"
  using lexemes_fixed [of "ttype t" "ttext t" num "ttext t"] by (auto simp: tok_wf_def erase_def)

lemma serialize_lexes:
  "canon num n e \<Longrightarrow> lexemes_of num (serialize e) = lexs e \<and> quotes_closed num (serialize e)"
proof (induction num n e rule: canon.induct)
  case (1 num n k p v)
  then show ?case using lex_join by (simp add: tok_wf_def)
next
  case (2 num n l c r)
  then show ?case using lex_join by (auto simp: tok_wf_def split: if_splits)
next
  case (3 num n t e)
  then show ?case using lex_not_kw tok_wf_fixed(1) by (auto simp: erase_def)
next
  case (4 num n p inner c)
  then obtain e where e: "inner = Some e" "canon num 2 e" by (auto split: option.splits)
  with 4 lexemes_append_break [of num "serialize e" "CHR '')''" "[]"] tok_wf_fixed(2,3)
  show ?case by (auto simp: is_break_def erase_def)
qed auto

text \<open>Serializing a canonical tree and parsing the text gives the tree back, offsets apart.\<close>

lemma serialize_parse:
  assumes "canon num 2 e"
  shows "\<exists>e'. parse (tokenize num (serialize e)) = \<lparr>pr_ast = Some e', pr_complete = True, pr_error = []\<rparr>
    \<and> strip e' = strip e"
  using parse_lexs [OF assms] serialize_lexes [OF assms] by (simp add: tokenize_refines)

lemma serialize_strip: "serialize (strip e) = serialize e"
  by (induction e rule: serialize.induct) (auto simp: unplace_def split: option.splits)

subsection \<open>What the parser returns\<close>

text \<open>
  Every open parenthesis the parser consumes yields at most one group; when it yields exactly one
  each, a complete result is canonical (an unclosed parenthesis is dropped from the tree).
\<close>

definition opens :: "token list \<Rightarrow> nat" where
  "opens ts = length (filter (\<lambda>t. ttype t = TkOpenParen) ts)"

fun groups :: "expr \<Rightarrow> nat" where
  "groups (BinaryExpr l c r) = groups l + groups r"
| "groups (NotExpr t e) = groups e"
| "groups (GroupExpr p inner c) = Suc (case inner of None \<Rightarrow> 0 | Some e \<Rightarrow> groups e)"
| "groups _ = 0"

definition st_ok :: "(token \<Rightarrow> bool) \<Rightarrow> pstate \<Rightarrow> bool" where
  "st_ok P st \<longleftrightarrow> (\<forall>t \<in> set (rest st). P t) \<and>
     (ttext (last_key st) \<noteq> [] \<longrightarrow> P (last_key st) \<and> ttype (last_key st) = TkKey \<and>
        P (last_op st) \<and> ttype (last_op st) = TkOperator)"

definition tree_ok :: "(token \<Rightarrow> bool) \<Rightarrow> nat \<Rightarrow> nat \<Rightarrow> expr \<Rightarrow> bool" where
  "tree_ok P n k e \<longleftrightarrow> groups e \<le> k \<and> (check_complete e \<and> groups e = k \<longrightarrow> grammatical P n e)"

definition res_ok :: "(token \<Rightarrow> bool) \<Rightarrow> nat \<Rightarrow> nat \<Rightarrow> pstate \<Rightarrow> expr option \<times> pstate \<Rightarrow> bool" where
  "res_ok P n k st res \<longleftrightarrow> st_ok P (snd res) \<and> opens (rest (snd res)) \<le> opens (rest st) \<and>
     (\<forall>e. fst res = Some e \<longrightarrow> tree_ok P n (k + opens (rest st) - opens (rest (snd res))) e)"

lemma opens_simps [simp]:
  "opens [] = 0" "opens (t # ts) = (if ttype t = TkOpenParen then Suc (opens ts) else opens ts)"
  by (simp_all add: opens_def)

lemma tree_ok_mono: "tree_ok P n k e \<Longrightarrow> k \<le> k' \<Longrightarrow> tree_ok P n k' e"
  by (auto simp: tree_ok_def)

lemma tree_ok_level: "tree_ok P 0 k e \<Longrightarrow> tree_ok P 1 k e" "tree_ok P 1 k e \<Longrightarrow> tree_ok P 2 k e"
  using grammatical_mono by (auto simp: tree_ok_def)

lemma tree_ok_or:
  "tree_ok P 2 k l \<Longrightarrow> tree_ok P 1 k' r \<Longrightarrow> P t \<Longrightarrow> ttype t = TkOr \<Longrightarrow>
     tree_ok P 2 (k + k') (BinaryExpr l t r)"
  by (auto simp: tree_ok_def)

lemma tree_ok_and:
  "tree_ok P 1 k l \<Longrightarrow> tree_ok P 0 k' r \<Longrightarrow> P t \<Longrightarrow> ttype t = TkAnd \<Longrightarrow>
     tree_ok P 1 (k + k') (BinaryExpr l t r)"
  by (auto simp: tree_ok_def)

lemma st_ok_tl: "st_ok P st \<Longrightarrow> rest st = t # ts \<Longrightarrow> st_ok P (st\<lparr>rest := ts\<rparr>) \<and> P t"
  by (simp add: st_ok_def)

lemma parse_res_ok:
  "st_ok P st \<Longrightarrow> res_ok P 2 0 st (parse_or st)"
  "st_ok P st \<Longrightarrow> tree_ok P 2 k e \<Longrightarrow> res_ok P 2 k st (or_loop e st)"
  "st_ok P st \<Longrightarrow> res_ok P 1 0 st (parse_and st)"
  "st_ok P st \<Longrightarrow> tree_ok P 1 k e \<Longrightarrow> res_ok P 1 k st (and_loop e st)"
  "st_ok P st \<Longrightarrow> res_ok P 0 0 st (parse_unary st)"
  "st_ok P st \<Longrightarrow> res_ok P 0 0 st (parse_primary st)"
proof (induction st and e st and st and e st and st and st arbitrary: and k and and k and and
    rule: parse_or_or_loop_parse_and_and_loop_parse_unary_parse_primary.induct)
  case (1 st)
  obtain x y where p: "parse_and st = (x, y)" by force
  with 1 have a: "res_ok P 1 0 st (x, y)" by simp
  show ?case
  proof (cases x)
    case None
    with p a show ?thesis by (simp add: parse_or.simps res_ok_def)
  next
    case (Some l)
    with a have "st_ok P y" "tree_ok P 2 (opens (rest st) - opens (rest y)) l" "opens (rest y) \<le> opens (rest st)"
      using tree_ok_level(2) by (auto simp: res_ok_def)
    with "1.IH"(2) [OF p [symmetric] Some] have "res_ok P 2 (opens (rest st) - opens (rest y)) y (or_loop l y)" by blast
    with p Some \<open>opens (rest y) \<le> opens (rest st)\<close> show ?thesis by (simp add: parse_or.simps [of st] res_ok_def)
  qed
next
  case (2 left st)
  show ?case
  proof (cases "\<exists>t ts. rest st = t # ts \<and> ttype t = TkOr")
    case True
    then obtain t ts where r: "rest st = t # ts" "ttype t = TkOr" by blast
    from st_ok_tl [OF "2.prems"(1) r(1)] have tl: "st_ok P (st\<lparr>rest := ts\<rparr>)" "P t" by auto
    obtain x y where p: "parse_and (st\<lparr>rest := ts\<rparr>) = (x, y)" by force
    with "2.IH"(1) [OF r tl(1)] have a: "res_ok P 1 0 (st\<lparr>rest := ts\<rparr>) (x, y)" by simp
    show ?thesis
    proof (cases x)
      case None
      with p a r "2.prems"(2) show ?thesis
        by (subst or_loop.simps) (auto simp: res_ok_def intro: tree_ok_mono)
    next
      case (Some e)
      with a have y: "st_ok P y" "tree_ok P 1 (opens ts - opens (rest y)) e" "opens (rest y) \<le> opens ts"
        by (auto simp: res_ok_def)
      from "2.IH"(2) [OF r p [symmetric] Some y(1) tree_ok_or [OF "2.prems"(2) y(2) tl(2) r(2)]] y r p Some
      show ?thesis by (subst or_loop.simps) (simp add: res_ok_def)
    qed
  next
    case False
    then have "or_loop left st = (Some left, st)" by (subst or_loop.simps) (auto split: list.splits)
    with "2.prems" show ?thesis by (simp add: res_ok_def)
  qed
next
  case (3 st)
  obtain x y where p: "parse_unary st = (x, y)" by force
  with 3 have a: "res_ok P 0 0 st (x, y)" by simp
  show ?case
  proof (cases x)
    case None
    with p a show ?thesis by (simp add: parse_and.simps res_ok_def)
  next
    case (Some l)
    with a have "st_ok P y" "tree_ok P 1 (opens (rest st) - opens (rest y)) l" "opens (rest y) \<le> opens (rest st)"
      using tree_ok_level(1) by (auto simp: res_ok_def)
    with "3.IH"(2) [OF p [symmetric] Some] have "res_ok P 1 (opens (rest st) - opens (rest y)) y (and_loop l y)" by blast
    with p Some \<open>opens (rest y) \<le> opens (rest st)\<close> show ?thesis by (simp add: parse_and.simps [of st] res_ok_def)
  qed
next
  case (4 left st)
  show ?case
  proof (cases "\<exists>t ts. rest st = t # ts \<and> ttype t = TkAnd")
    case True
    then obtain t ts where r: "rest st = t # ts" "ttype t = TkAnd" by blast
    from st_ok_tl [OF "4.prems"(1) r(1)] have tl: "st_ok P (st\<lparr>rest := ts\<rparr>)" "P t" by auto
    obtain x y where p: "parse_unary (st\<lparr>rest := ts\<rparr>) = (x, y)" by force
    with "4.IH"(1) [OF r tl(1)] have a: "res_ok P 0 0 (st\<lparr>rest := ts\<rparr>) (x, y)" by simp
    show ?thesis
    proof (cases x)
      case None
      with p a r "4.prems"(2) show ?thesis
        by (subst and_loop.simps) (auto simp: res_ok_def intro: tree_ok_mono)
    next
      case (Some e)
      with a have y: "st_ok P y" "tree_ok P 0 (opens ts - opens (rest y)) e" "opens (rest y) \<le> opens ts"
        by (auto simp: res_ok_def)
      from "4.IH"(2) [OF r p [symmetric] Some y(1) tree_ok_and [OF "4.prems"(2) y(2) tl(2) r(2)]] y r p Some
      show ?thesis by (subst and_loop.simps) (simp add: res_ok_def)
    qed
  next
    case False
    then have "and_loop left st = (Some left, st)" by (subst and_loop.simps) (auto split: list.splits)
    with "4.prems" show ?thesis by (simp add: res_ok_def)
  qed
next
  case (5 st)
  show ?case
  proof (cases "\<exists>t ts. rest st = t # ts \<and> ttype t = TkNot")
    case True
    then obtain t ts where r: "rest st = t # ts" "ttype t = TkNot" by blast
    from st_ok_tl [OF "5.prems"(1) r(1)] have tl: "st_ok P (st\<lparr>rest := ts\<rparr>)" "P t" by auto
    obtain x y where p: "parse_unary (st\<lparr>rest := ts\<rparr>) = (x, y)" by force
    with "5.IH"(2) [OF r tl(1)] have "res_ok P 0 0 (st\<lparr>rest := ts\<rparr>) (x, y)" by simp
    with p r tl(2) show ?thesis
      by (subst parse_unary.simps) (auto simp: res_ok_def tree_ok_def split: option.splits)
  next
    case False
    then have "parse_unary st = parse_primary st" by (subst parse_unary.simps) (auto split: list.splits)
    with "5.IH"(1,3) "5.prems" False show ?thesis by (cases "rest st") auto
  qed
next
  case (6 st)
  show ?case
  proof (cases "rest st")
    case Nil
    with "6.prems" show ?thesis by (simp add: parse_primary.simps res_ok_def)
  next
    case r: (Cons t ts)
    from st_ok_tl [OF "6.prems" r] have tl: "st_ok P (st\<lparr>rest := ts\<rparr>)" "P t" by auto
    show ?thesis
    proof (cases "ttype t = TkOpenParen")
      case True
      obtain x y where p: "parse_or (st\<lparr>rest := ts\<rparr>) = (x, y)" by force
      with "6.IH" [OF r True tl(1)] have a: "res_ok P 2 0 (st\<lparr>rest := ts\<rparr>) (x, y)" by simp
      then have y: "st_ok P y" "opens (rest y) \<le> opens ts" by (auto simp: res_ok_def)
      show ?thesis
      proof (cases "\<exists>c cs. rest y = c # cs \<and> ttype c = TkCloseParen")
        case close: True
        then obtain c cs where c: "rest y = c # cs" "ttype c = TkCloseParen" by blast
        from st_ok_tl [OF y(1) c(1)] have "st_ok P (y\<lparr>rest := cs\<rparr>)" "P c" by auto
        with p r True c a tl(2) show ?thesis
          by (subst parse_primary.simps) (auto simp: res_ok_def tree_ok_def Suc_diff_le split: option.splits)
      next
        case False
        with p r True have "parse_primary st = (x, y)"
          by (subst parse_primary.simps) (auto split: list.splits)
        with a r True y show ?thesis by (auto simp: res_ok_def tree_ok_def)
      qed
    next
      case False
      show ?thesis
        using "6.prems" r False tl
        by (subst parse_primary.simps) (auto simp: st_ok_def res_ok_def tree_ok_def split: list.splits)
    qed
  qed
qed


text \<open>The whole parse: as many groups as open parentheses, and complete, means canonical.\<close>

lemma tokenize_wf: "quotes_closed num src \<Longrightarrow> t \<in> set (tokenize num src) \<Longrightarrow> tok_wf num t"
  using lexemes_wf [of num src "erase t"]
  by (auto simp: tokenize_refines [symmetric] tok_wf_def lexeme_wf_def erase_def)

lemma parse_grammatical:
  assumes "list_all P toks" "parse toks = \<lparr>pr_ast = Some e, pr_complete = True, pr_error = err\<rparr>"
  shows "groups e \<le> opens toks \<and> (groups e = opens toks \<longrightarrow> grammatical P 2 e)"
proof -
  let ?st = "initial_pstate toks"
  have "st_ok P ?st" using assms(1) by (simp add: st_ok_def initial_pstate_def default_token_def list_all_iff)
  from parse_res_ok(1) [OF this] assms(2) show ?thesis
    by (auto simp: parse_def res_ok_def tree_ok_def initial_pstate_def Let_def split: if_splits prod.splits)
qed

lemma parse_canon:
  assumes "quotes_closed num src" "pr_complete (parse (tokenize num src))"
    and "pr_ast (parse (tokenize num src)) = Some e" "groups e = opens (tokenize num src)"
  shows "canon num 2 e"
proof -
  have "list_all (tok_wf num) (tokenize num src)" using assms(1) by (simp add: list_all_iff tokenize_wf)
  from parse_grammatical [OF this, of e "pr_error (parse (tokenize num src))"] assms(2-4) show ?thesis
    by (simp add: canon_grammatical)
qed

subsection \<open>Properties of the parser\<close>

definition example_tree :: expr where
  "example_tree =
     BinaryExpr (CompareExpr (mk_token TkKey ''a'' 0 1) (mk_token TkOperator ''=='' 2 4) (mk_token TkValue ''1'' 5 6))
       (mk_token TkOr ''or'' 7 9)
       (NotExpr (mk_token TkNot ''not'' 10 13)
         (GroupExpr (mk_token TkOpenParen ''('' 14 15)
           (Some (CompareExpr (mk_token TkKey ''b'' 15 16) (mk_token TkOperator ''<'' 16 17) (mk_token TkValue ''2'' 17 18)))
           (mk_token TkCloseParen '')'' 18 19)))"

text \<open>C2. Serialize and parse are inverse on the trees of the grammar: for every complete tree in which
  or binds weaker than and, and weaker than not, the text \<open>serialize\<close> writes is lexed and parsed back
  to the same tree (source offsets apart), complete and without error.\<close>

theorem parse_serialize:
  assumes "canon num 2 e"
  shows "\<exists>e'. parse (tokenize num (serialize e)) = \<lparr>pr_ast = Some e', pr_complete = True, pr_error = []\<rparr>
    \<and> strip e' = strip e"
  by (rule serialize_parse [OF assms])

theorem parse_serialize_witness:
  "\<exists>e'. parse (tokenize digits_only (serialize example_tree)) = \<lparr>pr_ast = Some e', pr_complete = True, pr_error = []\<rparr>
    \<and> strip e' = strip example_tree"
proof (rule parse_serialize)
  show "canon digits_only 2 example_tree" by code_simp
qed

text \<open>C3. A complete parse of any source, one that ends inside an unclosed quote included, keeps at most one group per
  open parenthesis. When it keeps one for each (no parenthesis was left unclosed) the tree it returns is one of
  the grammar: leaves full comparisons, or and and nested by precedence, repeated keys and operators supplied, and every
  token in it one of the source's own. When moreover every quote of the source is closed, the tree is
  canonical: each of its tokens is lexed back, alone, as itself. (An unclosed quote gives a value whose text is not.)\<close>

theorem complete_parse_canonical:
  assumes "parse (tokenize num src) = \<lparr>pr_ast = Some e, pr_complete = True, pr_error = err\<rparr>"
  shows "groups e \<le> opens (tokenize num src)
    \<and> (groups e = opens (tokenize num src) \<longrightarrow> grammatical (\<lambda>t. t \<in> set (tokenize num src)) 2 e)
    \<and> (groups e = opens (tokenize num src) \<and> quotes_closed num src \<longrightarrow> canon num 2 e)"
  using parse_grammatical [OF _ assms, of "\<lambda>t. t \<in> set (tokenize num src)"] parse_canon [of num src e] assms
  by (simp add: list_all_iff)

theorem complete_parse_canonical_witness:
  "\<exists>e. pr_ast (parse (tokenize digits_only ''a == 1 or (2)'')) = Some e \<and> canon digits_only 2 e"
proof -
  define r where "r = parse (tokenize digits_only ''a == 1 or (2)'')"
  have "pr_ast r \<noteq> None \<and> pr_complete r \<and> groups (the (pr_ast r)) = opens (tokenize digits_only ''a == 1 or (2)'')"
    unfolding r_def by code_simp
  then obtain e where e: "pr_ast r = Some e" "pr_complete r" "groups e = opens (tokenize digits_only ''a == 1 or (2)'')"
    by auto
  have q: "quotes_closed digits_only ''a == 1 or (2)''" by code_simp
  from e have "parse (tokenize digits_only ''a == 1 or (2)'') = \<lparr>pr_ast = Some e, pr_complete = True, pr_error = pr_error r\<rparr>"
    by (simp add: r_def [symmetric])
  from complete_parse_canonical [OF this] q e show ?thesis by (auto simp: r_def)
qed

text \<open>A value that starts with a quote nothing closes is kept as it is: a complete parse, grammatical but not canonical.\<close>

lemma unclosed_quote_not_canonical:
  "let src = ''a == '' @ CHR 0x22 # ''b''; r = parse (tokenize digits_only src); e = the (pr_ast r)
   in pr_complete r \<and> pr_error r = [] \<and> groups e = opens (tokenize digits_only src)
      \<and> grammatical (\<lambda>t. t \<in> set (tokenize digits_only src)) 2 e \<and> \<not> canon digits_only 2 e"
  by code_simp

text \<open>An unclosed parenthesis is dropped silently: the parse of \<open>a == 1 and (a == 1 or b == 2\<close> is
  complete and without error, and its expansion is \<open>a == 1 and a == 1 or b == 2\<close>, which reads back as
  an or at the top instead of an and.\<close>

theorem unclosed_paren_regroups:
  "let src = ''a == 1 and (a == 1 or b == 2''; r = parse (tokenize digits_only src); e = the (pr_ast r);
       e' = the (pr_ast (parse (tokenize digits_only (serialize e))))
   in pr_complete r \<and> pr_error r = [] \<and> serialize e = ''a == 1 and a == 1 or b == 2''
      \<and> (case e of BinaryExpr l c x \<Rightarrow> ttype c = TkAnd | _ \<Rightarrow> False)
      \<and> (case e' of BinaryExpr l c x \<Rightarrow> ttype c = TkOr | _ \<Rightarrow> False)"
  by code_simp

end
