(* ===== verification/QueryDoc.thy ===== *)
theory QueryDoc
  imports QueryParser
begin

section \<open>The query document (common/query/include/pj_query/query.hpp)\<close>

text \<open>
  \<open>PJ::query::Query\<close>: the immutable result of lexing and parsing one query string, and its
  cursor lookups. Offsets are \<open>int\<close> as in the code, so a caller may pass a negative one; the
  token offsets themselves are \<open>nat\<close>. Facts shown: the expansion of a well-parenthesised complete
  query is a fixed point of parsing and expanding; the two cursor lookups agree and return the
  unique token over the cursor; only white space is under no token.
\<close>

record query =
  q_source :: string
  q_tokens :: "token list"
  q_ast :: "expr option"
  q_complete :: bool
  q_error :: string
  q_expanded :: string

definition mk_query :: "(string \<Rightarrow> bool) \<Rightarrow> string \<Rightarrow> query" where
  "mk_query num source =
     (let toks = tokenize num source; result = parse toks in
      \<lparr>q_source = source, q_tokens = toks, q_ast = pr_ast result, q_complete = pr_complete result,
       q_error = pr_error result,
       q_expanded = (if pr_complete result
                     then (case pr_ast result of None \<Rightarrow> [] | Some e \<Rightarrow> serialize e)
                     else source)\<rparr>)"

definition query_empty :: "query \<Rightarrow> bool" where
  "query_empty q \<longleftrightarrow> q_tokens q = []"

fun token_at :: "token list \<Rightarrow> int \<Rightarrow> token option" where
  "token_at [] pos = None"
| "token_at (t # ts) pos =
     (if pos \<ge> int (tstart t) \<and> pos < int (tend t) then Some t else token_at ts pos)"

fun token_index_from :: "token list \<Rightarrow> int \<Rightarrow> int \<Rightarrow> int" where
  "token_index_from [] index pos = -1"
| "token_index_from (t # ts) index pos =
     (if pos \<ge> int (tstart t) \<and> pos < int (tend t) then index else token_index_from ts (index + 1) pos)"

definition token_index_at :: "token list \<Rightarrow> int \<Rightarrow> int" where
  "token_index_at toks pos = token_index_from toks 0 pos"

fun key_before_nat :: "token list \<Rightarrow> nat \<Rightarrow> string" where
  "key_before_nat toks 0 = []"
| "key_before_nat toks (Suc i) =
     (if ttype (toks ! i) = TkKey then ttext (toks ! i) else key_before_nat toks i)"

definition key_before :: "token list \<Rightarrow> int \<Rightarrow> string" where
  "key_before toks token_index = key_before_nat toks (nat token_index)"

text \<open>The scan of \<open>expectedAt\<close>: the last token, from the left, that starts at or before the cursor.\<close>

fun last_started :: "token list \<Rightarrow> int \<Rightarrow> token option \<Rightarrow> token option" where
  "last_started [] pos acc = acc"
| "last_started (t # ts) pos acc =
     (if int (tstart t) \<le> pos then last_started ts pos (Some t) else acc)"

definition expected_after :: "tok_type \<Rightarrow> tok_type" where
  "expected_after ty =
     (case ty of
        TkKey \<Rightarrow> TkOperator
      | TkOperator \<Rightarrow> TkValue
      | TkValue \<Rightarrow> TkAnd
      | TkAnd \<Rightarrow> TkKey | TkOr \<Rightarrow> TkKey | TkNot \<Rightarrow> TkKey | TkOpenParen \<Rightarrow> TkKey
      | TkCloseParen \<Rightarrow> TkAnd)"

definition expected_at :: "token list \<Rightarrow> int \<Rightarrow> tok_type" where
  "expected_at toks pos =
     (case last_started toks pos None of
        None \<Rightarrow> TkKey
      | Some t \<Rightarrow> if pos < int (tend t) then ttype t else expected_after (ttype t))"

subsection \<open>Expansion\<close>

lemma q_complete_ast:
  "q_complete (mk_query num src) \<Longrightarrow>
     \<exists>e. q_ast (mk_query num src) = Some e \<and> q_expanded (mk_query num src) = serialize e"
  by (auto simp: mk_query_def Let_def parse_def split: option.splits prod.splits if_splits)

lemma expand_canon:
  assumes "quotes_closed num src" "q_complete (mk_query num src)"
    and "q_ast (mk_query num src) = Some e" "groups e = opens (q_tokens (mk_query num src))"
  shows "canon num 2 e \<and> q_expanded (mk_query num src) = serialize e"
  using parse_canon [of num src e] q_complete_ast [OF assms(2)] assms
  by (auto simp: mk_query_def Let_def)

lemma query_of_canon:
  assumes "canon num 2 e"
  shows "\<exists>e'. mk_query num (serialize e) =
     \<lparr>q_source = serialize e, q_tokens = tokenize num (serialize e), q_ast = Some e', q_complete = True,
      q_error = [], q_expanded = serialize e\<rparr> \<and> strip e' = strip e"
proof -
  obtain e' where p: "parse (tokenize num (serialize e)) = \<lparr>pr_ast = Some e', pr_complete = True, pr_error = []\<rparr>"
    "strip e' = strip e" using serialize_parse [OF assms] by blast
  with serialize_strip [of e] serialize_strip [of e'] show ?thesis by (auto simp: mk_query_def Let_def)
qed

subsection \<open>Cursor lookups\<close>

abbreviation covers :: "token \<Rightarrow> int \<Rightarrow> bool" where
  "covers t pos \<equiv> int (tstart t) \<le> pos \<and> pos < int (tend t)"

abbreviation ordered :: "token list \<Rightarrow> bool" where
  "ordered toks \<equiv> sorted_wrt (\<lambda>a b. tend a \<le> tstart b) toks \<and> (\<forall>t \<in> set toks. tstart t < tend t)"

lemma tokens_ordered: "ordered (tokenize num src)"
  using lex_from_ok [of 0 src num] by (auto simp: tokenize_def token_ok_def)

lemma token_at_iff:
  "ordered toks \<Longrightarrow> token_at toks pos = Some t \<longleftrightarrow> t \<in> set toks \<and> covers t pos"
  by (induction toks) force+

lemma token_index_from_at:
  "(token_at toks pos = None \<longrightarrow> token_index_from toks (int i) pos = -1) \<and>
   (\<forall>t. token_at toks pos = Some t \<longrightarrow>
      (\<exists>j < length toks. token_index_from toks (int i) pos = int (i + j) \<and> toks ! j = t))"
proof (induction toks arbitrary: i)
  case (Cons a toks)
  show ?case
  proof (cases "covers a pos")
    case False
    with Cons.IH [of "Suc i"] show ?thesis by (auto simp: add.commute) (force intro: exI [of _ "Suc _"])+
  qed auto
qed simp

lemma last_started_eq:
  "ordered toks \<Longrightarrow> last_started toks pos acc =
     (case filter (\<lambda>t. int (tstart t) \<le> pos) toks of [] \<Rightarrow> acc | ts \<Rightarrow> Some (last ts))"
proof (induction toks arbitrary: acc)
  case (Cons a toks)
  show ?case
  proof (cases "int (tstart a) \<le> pos")
    case True with Cons show ?thesis by (auto split: list.splits)
  next
    case False
    with Cons.prems have "filter (\<lambda>t. int (tstart t) \<le> pos) toks = []" by (force simp: filter_empty_conv)
    with False show ?thesis by simp
  qed
qed simp

lemma expected_at_covered:
  assumes "ordered toks" "t \<in> set toks" "covers t pos"
  shows "expected_at toks pos = ttype t"
proof -
  obtain a b where s: "toks = a @ t # b" using assms(2) by (auto simp: in_set_conv_decomp)
  with assms have "filter (\<lambda>t. int (tstart t) \<le> pos) b = []"
    by (force simp: filter_empty_conv sorted_wrt_append)
  with s assms(3) obtain c where "filter (\<lambda>t. int (tstart t) \<le> pos) toks = c @ [t]" by auto
  then have "last_started toks pos None = Some t"
    by (cases c) (simp_all add: last_started_eq [OF assms(1)])
  with assms(3) show ?thesis by (simp add: expected_at_def)
qed

subsection \<open>Properties of the document\<close>

text \<open>Expanding is idempotent: when a query is complete, its quotes are closed and each open
  parenthesis became a group, parsing its expansion gives a complete query with the same tree (source
  offsets apart) whose expansion is that same text.\<close>

theorem expansion_fixed_point:
  assumes "quotes_closed num src" "q_complete (mk_query num src)"
    and "q_ast (mk_query num src) = Some e" "groups e = opens (q_tokens (mk_query num src))"
  shows "\<exists>e'. mk_query num (q_expanded (mk_query num src)) =
     \<lparr>q_source = serialize e, q_tokens = tokenize num (serialize e), q_ast = Some e', q_complete = True,
      q_error = [], q_expanded = q_expanded (mk_query num src)\<rparr> \<and> strip e' = strip e"
  using expand_canon [OF assms] query_of_canon [of num e] by auto

theorem expansion_fixed_point_witness:
  "q_expanded (mk_query digits_only (q_expanded (mk_query digits_only ''a == 1 or (2)'')))
   = q_expanded (mk_query digits_only ''a == 1 or (2)'')"
proof -
  have c: "quotes_closed digits_only ''a == 1 or (2)''" "q_complete (mk_query digits_only ''a == 1 or (2)'')"
    "q_ast (mk_query digits_only ''a == 1 or (2)'') \<noteq> None
     \<and> groups (the (q_ast (mk_query digits_only ''a == 1 or (2)''))) = opens (q_tokens (mk_query digits_only ''a == 1 or (2)''))"
    by code_simp+
  then obtain e where e: "q_ast (mk_query digits_only ''a == 1 or (2)'') = Some e"
    "groups e = opens (q_tokens (mk_query digits_only ''a == 1 or (2)''))" by auto
  from expansion_fixed_point [OF c(1,2) e] show ?thesis by auto
qed

text \<open>The cursor lookups of a query agree and are exact: \<open>tokenAt\<close> returns the token covering the
  position when there is one (it is unique) and null otherwise, \<open>tokenIndexAt\<close> its index or -1, and
  \<open>expectedAt\<close> on a covered position is that token's own type.\<close>

theorem cursor_lookups_agree:
  "let toks = q_tokens (mk_query num src) in
   (token_at toks pos = Some t \<longleftrightarrow> t \<in> set toks \<and> int (tstart t) \<le> pos \<and> pos < int (tend t))
   \<and> (token_at toks pos = None \<longrightarrow> token_index_at toks pos = -1)
   \<and> (token_at toks pos = Some t \<longrightarrow>
        (\<exists>j < length toks. token_index_at toks pos = int j \<and> toks ! j = t) \<and> expected_at toks pos = ttype t)"
  using token_at_iff [OF tokens_ordered, of num src pos] token_index_from_at [of "tokenize num src" pos 0]
    expected_at_covered [OF tokens_ordered, of t num src pos]
  by (simp add: mk_query_def Let_def token_index_at_def)

theorem cursor_lookups_agree_witness:
  "expected_at (q_tokens (mk_query digits_only ''ab == 7'')) 1 = TkKey
   \<and> token_index_at (q_tokens (mk_query digits_only ''ab == 7'')) 2 = -1"
proof
  have a: "token_at (q_tokens (mk_query digits_only ''ab == 7'')) 1 = Some (mk_token TkKey ''ab'' 0 2)"
    "token_at (q_tokens (mk_query digits_only ''ab == 7'')) 2 = None"
    by code_simp+
  from cursor_lookups_agree [of digits_only "''ab == 7''" 1 "mk_token TkKey ''ab'' 0 2"] a(1)
  show "expected_at (q_tokens (mk_query digits_only ''ab == 7'')) 1 = TkKey" by (simp add: Let_def)
  from cursor_lookups_agree [of digits_only "''ab == 7''" 2] a(2)
  show "token_index_at (q_tokens (mk_query digits_only ''ab == 7'')) 2 = -1" by (simp add: Let_def)
qed

end
