(* ===== verification/QueryEdit.thy ===== *)
theory QueryEdit
  imports QueryDoc
begin

section \<open>Completion and editing (common/query/include/pj_query/complete.hpp, edit.hpp)\<close>

text \<open>
  \<open>PJ::query::complete\<close>, \<open>findActiveToken\<close>, \<open>analyze\<close>, \<open>quoteValueForQuery\<close> and
  \<open>applyCompletion\<close>. A schema is a \<open>std::map\<close>, modelled as its association list in key order; it
  is only iterated and searched. Positions are \<open>int\<close>. Facts shown: quoting any value yields one
  Value token; an edit replaces, or adds, exactly one lexeme at the token boundary the cursor
  context names and leaves every other lexeme of the query as it was.
\<close>

type_synonym schema = "(string \<times> string list) list"

datatype expect = ExKey | ExOperator | ExValue | ExConnective | ExAny

record completions =
  cm_expect :: expect
  cm_current_key :: string
  cm_suggestions :: "string list"

definition operators :: "string list" where
  "operators = [''=='', ''~='', ''<'', ''>'', ''<='', ''>='']"

definition connectives :: "string list" where
  "connectives = [''and'', ''or'', ''not'']"

definition schema_keys :: "schema \<Rightarrow> string list" where
  "schema_keys sch = map fst sch"

definition complete :: "token list \<Rightarrow> schema \<Rightarrow> bool \<Rightarrow> completions" where
  "complete toks sch last_token_complete =
     (if toks = [] then \<lparr>cm_expect = ExAny, cm_current_key = [], cm_suggestions = schema_keys sch\<rparr>
      else let t = last toks; n = length toks in
      if ttype t = TkAnd \<or> ttype t = TkOr \<or> ttype t = TkNot \<or> ttype t = TkOpenParen
      then \<lparr>cm_expect = ExKey, cm_current_key = [], cm_suggestions = schema_keys sch\<rparr>
      else if ttype t = TkOperator
      then (if n \<ge> 2
            then let key = ttext (toks ! (n - 2)) in
              \<lparr>cm_expect = ExValue, cm_current_key = key,
               cm_suggestions = (case map_of sch key of None \<Rightarrow> [] | Some vs \<Rightarrow> vs)\<rparr>
            else \<lparr>cm_expect = ExValue, cm_current_key = [], cm_suggestions = []\<rparr>)
      else if n \<ge> 3 \<and> ttype (toks ! (n - 2)) = TkOperator
      then \<lparr>cm_expect = ExConnective,
            cm_current_key = (if ttype (toks ! (n - 3)) = TkKey then ttext (toks ! (n - 3)) else []),
            cm_suggestions = [''and'', ''or'']\<rparr>
      else if ttype t = TkCloseParen \<or> (ttype t = TkValue \<and> last_token_complete)
      then \<lparr>cm_expect = ExConnective, cm_current_key = [], cm_suggestions = [''and'', ''or'']\<rparr>
      else if last_token_complete
      then \<lparr>cm_expect = ExOperator, cm_current_key = ttext t, cm_suggestions = operators\<rparr>
      else (case map_of sch (ttext t) of
              Some _ \<Rightarrow> \<lparr>cm_expect = ExOperator, cm_current_key = ttext t, cm_suggestions = operators\<rparr>
            | None \<Rightarrow> \<lparr>cm_expect = ExKey, cm_current_key = [],
                       cm_suggestions = filter (\<lambda>k. take (length (ttext t)) k = ttext t) (schema_keys sch)\<rparr>))"

definition complete_text :: "(string \<Rightarrow> bool) \<Rightarrow> string \<Rightarrow> nat \<Rightarrow> schema \<Rightarrow> completions" where
  "complete_text num text cursor sch =
     complete (tokenize num (take (min cursor (length text)) text)) sch False"

datatype action = ActDisabled | ActInsert | ActReplace

record cursor_context =
  cx_cursor :: int
  cx_token_index :: int
  cx_active :: token
  cx_expect :: expect
  cx_key :: string
  cx_suggestion_count :: nat
  cx_key_action :: action
  cx_op_action :: action
  cx_val_action :: action

definition can_pick_key :: "cursor_context \<Rightarrow> bool" where
  "can_pick_key ctx \<longleftrightarrow> cx_key_action ctx \<noteq> ActDisabled"

definition can_pick_op :: "cursor_context \<Rightarrow> bool" where
  "can_pick_op ctx \<longleftrightarrow> cx_op_action ctx \<noteq> ActDisabled"

definition can_pick_value :: "cursor_context \<Rightarrow> bool" where
  "can_pick_value ctx \<longleftrightarrow> cx_val_action ctx \<noteq> ActDisabled"

fun active_from :: "token list \<Rightarrow> int \<Rightarrow> int \<Rightarrow> int" where
  "active_from [] index cursor = -1"
| "active_from (t # ts) index cursor =
     (if cursor \<ge> int (tstart t) \<and> cursor \<le> int (tend t) then index else active_from ts (index + 1) cursor)"

definition find_active_token :: "token list \<Rightarrow> int \<Rightarrow> int" where
  "find_active_token toks cursor = active_from toks 0 cursor"

definition analyze :: "(string \<Rightarrow> bool) \<Rightarrow> string \<Rightarrow> int \<Rightarrow> schema \<Rightarrow> cursor_context" where
  "analyze num text cursor sch =
     (let toks = tokenize num text;
          idx = find_active_token toks cursor;
          active = (if idx \<ge> 0 then toks ! nat idx else default_token);
          before = (if idx \<ge> 0 then take (nat idx + 1) toks
                    else filter (\<lambda>t. int (tend t) < cursor) toks);
          comp = complete before sch (idx \<ge> 0);
          on_key = (idx \<ge> 0 \<and> ttype active = TkKey);
          on_op = (idx \<ge> 0 \<and> ttype active = TkOperator);
          on_value = (idx \<ge> 0 \<and> ttype active = TkValue);
          ex = cm_expect comp
      in \<lparr>cx_cursor = cursor, cx_token_index = idx, cx_active = active, cx_expect = ex,
          cx_key = cm_current_key comp, cx_suggestion_count = length (cm_suggestions comp),
          cx_key_action = (if on_key then ActReplace
                           else if ex = ExKey \<or> ex = ExAny \<or> ex = ExConnective then ActInsert
                           else ActDisabled),
          cx_op_action = (if on_op then ActReplace else if ex = ExOperator then ActInsert else ActDisabled),
          cx_val_action = (if on_value then ActReplace else if ex = ExValue then ActInsert else ActDisabled)\<rparr>)"

record edit_result =
  er_text :: string
  er_cursor :: int

definition is_query_space :: "char \<Rightarrow> bool" where
  "is_query_space c \<longleftrightarrow> c = CHR '' '' \<or> c = CHR 0x09 \<or> c = CHR 0x0A \<or> c = CHR 0x0D"

definition quote_char :: "char \<Rightarrow> string" where
  "quote_char c = (if c = CHR 0x22 \<or> c = CHR 0x5C then [CHR 0x5C, c] else [c])"

definition quote_value :: "(string \<Rightarrow> bool) \<Rightarrow> string \<Rightarrow> string" where
  "quote_value num v = (if num v then v else CHR 0x22 # concat (map quote_char v) @ [CHR 0x22])"

text \<open>The span an action edits, before it is clamped to the text.\<close>

definition edit_span :: "cursor_context \<Rightarrow> action \<Rightarrow> int \<times> int" where
  "edit_span ctx act =
     (if act = ActReplace \<and> cx_token_index ctx \<ge> 0
      then (int (tstart (cx_active ctx)), int (tend (cx_active ctx)))
      else if cx_token_index ctx \<ge> 0 then (int (tend (cx_active ctx)), int (tend (cx_active ctx)))
      else (cx_cursor ctx, cx_cursor ctx))"

definition splice :: "string \<Rightarrow> bool \<Rightarrow> int \<Rightarrow> int \<Rightarrow> string \<Rightarrow> edit_result" where
  "splice src replace from to item =
     (let piece = (if from > 0 \<and> \<not> is_query_space (src ! nat (from - 1)) then '' '' else []) @ item @
                  (if \<not> replace \<or> to \<ge> int (length src) \<or> \<not> is_query_space (src ! nat to) then '' '' else [])
      in \<lparr>er_text = take (nat from) src @ piece @ drop (nat to) src,
          er_cursor = from + int (length piece)\<rparr>)"

definition apply_completion :: "string \<Rightarrow> cursor_context \<Rightarrow> action \<Rightarrow> string \<Rightarrow> edit_result" where
  "apply_completion src ctx act item =
     (let len = int (length src);
          replace = (act = ActReplace \<and> cx_token_index ctx \<ge> 0);
          from0 = fst (edit_span ctx act);
          to0 = snd (edit_span ctx act);
          from = (if from0 < 0 then 0 else if from0 > len then len else from0);
          to = (if to0 < from then from else if to0 > len then len else to0)
      in splice src replace from to item)"

subsection \<open>A quoted value is one Value token\<close>

text \<open>What the lexer relies on \<open>PJ::parseNumber\<close> for: a number is a word, and not a keyword.\<close>

definition number_words :: "(string \<Rightarrow> bool) \<Rightarrow> bool" where
  "number_words num \<longleftrightarrow>
     (\<forall>w. num w \<longrightarrow> w \<noteq> [] \<and> list_all word_char w \<and> w \<noteq> ''and'' \<and> w \<noteq> ''or'' \<and> w \<noteq> ''not'')"

lemma take_quoted_escaped:
  "take_quoted (CHR 0x22) (concat (map quote_char v) @ CHR 0x22 # b) = (concat (map quote_char v) @ [CHR 0x22], b, True)"
  by (induction v) (auto simp: quote_char_def)

lemma lexemes_quote_value:
  assumes "number_words num"
  shows "lexemes_of num (quote_value num v) = [(TkValue, quote_value num v)] \<and> quotes_closed num (quote_value num v)"
proof (cases "num v")
  case True
  with assms obtain c cs where v: "v = c # cs" "word_char c" "\<forall>x \<in> set cs. word_char x"
    and k: "v \<noteq> ''and'' \<and> v \<noteq> ''or'' \<and> v \<noteq> ''not''"
    by (cases v) (auto simp: number_words_def list_all_iff)
  from v(3) have w: "takeWhile word_char cs = cs" "dropWhile word_char cs = []"
    by (simp_all add: takeWhile_eq_all_conv dropWhile_eq_Nil_conv)
  have "classify_word num (c # cs) = TkValue" using True k v(1) by (simp add: classify_word_def)
  with v(1,2) True show ?thesis
    by (simp add: quote_value_def lexemes_of.simps(2) quotes_closed.simps(2) lx_step_word w)
next
  case False
  then show ?thesis
    using take_quoted_escaped [of v "[]"]
    by (simp add: quote_value_def lexemes_of.simps(2) quotes_closed.simps(2) lx_step_quote is_quote_def)
qed

subsection \<open>Splicing at token boundaries\<close>

lemma query_space: "is_query_space c \<Longrightarrow> is_space c"
  by (auto simp: is_query_space_def is_space_def)

lemma lex_join_space:
  "quotes_closed num a \<Longrightarrow> is_space d \<Longrightarrow>
     lexemes_of num (a @ d # b) = lexemes_of num a @ lexemes_of num b \<and> quotes_closed num (a @ d # b) = quotes_closed num b"
  using lexemes_append_break [of num a d b] by (simp add: is_break_def)

lemma splice_lexemes:
  assumes q: "quotes_closed num a" "quotes_closed num item"
    and pre: "pre = '' '' \<or> pre = [] \<and> (a = [] \<or> is_space (last a))"
    and post: "post = '' '' \<or> post = [] \<and> b \<noteq> [] \<and> is_space (hd b)"
  shows "lexemes_of num (a @ (pre @ item @ post) @ b) = lexemes_of num a @ lexemes_of num item @ lexemes_of num b"
proof -
  let ?m = "item @ post @ b"
  have m: "lexemes_of num ?m = lexemes_of num item @ lexemes_of num b"
    using post
  proof
    assume "post = '' ''"
    then show ?thesis using lex_join_space [OF q(2), of "CHR '' ''" b] by (simp add: is_space_def)
  next
    assume p: "post = [] \<and> b \<noteq> [] \<and> is_space (hd b)"
    then obtain d ds where b: "b = d # ds" "is_space d" by (cases b) auto
    from lex_join_space [OF q(2) b(2), of ds] lexemes_space [OF b(2), of num ds] p b(1) show ?thesis by simp
  qed
  from pre consider "pre = '' ''" | "pre = []" "a = [] \<or> is_space (last a)" by blast
  then show ?thesis
  proof cases
    case 1
    with lex_join_space [OF q(1), of "CHR '' ''" ?m] m show ?thesis by (simp add: is_space_def)
  next
    case 2
    with lexemes_append_space [OF q(1), of ?m] m show ?thesis by simp
  qed
qed

lemma apply_completion_lexemes:
  assumes src: "quotes_closed num src" and item: "quotes_closed num item"
    and cuts: "cut num src 0 f" "cut num src 0 t" "f \<le> t"
    and span: "edit_span ctx act = (int f, int t)"
  shows "lexemes_of num (er_text (apply_completion src ctx act item)) =
     map erase (filter (\<lambda>x. tend x \<le> f) (tokenize num src)) @ lexemes_of num item @
     map erase (filter (\<lambda>x. t \<le> tstart x) (tokenize num src))"
proof -
  have ft: "f \<le> length src" "t \<le> length src" using cut_bounds [of num src 0] cuts by auto
  define rep where "rep = (act = ActReplace \<and> cx_token_index ctx \<ge> 0)"
  define pre where "pre = (if f > 0 \<and> \<not> is_query_space (src ! (f - 1)) then '' '' else [])"
  define post where "post = (if \<not> rep \<or> t \<ge> length src \<or> \<not> is_query_space (src ! t) then '' '' else [])"
  have "apply_completion src ctx act item = splice src rep (int f) (int t) item"
    using ft cuts(3) by (simp add: apply_completion_def span rep_def)
  moreover have "nat (int f - 1) = f - 1" by linarith
  ultimately have e: "er_text (apply_completion src ctx act item) = take f src @ (pre @ item @ post) @ drop t src"
    by (simp add: splice_def pre_def post_def)
  have f: "slice src 0 f = take f src" and t: "slice src 0 t = take t src" by (simp_all add: slice_def)
  note sf = cut_split [OF cuts(1), unfolded f] and st = cut_split [OF cuts(2), unfolded t]
  show ?thesis
    unfolding e tokenize_def
  proof (subst splice_lexemes)
    show "pre = '' '' \<or> pre = [] \<and> (take f src = [] \<or> is_space (last (take f src)))"
    proof (cases "f = 0")
      case False
      with ft have "take f src \<noteq> []" by auto
      then have "last (take f src) = src ! (f - 1)" using False ft by (subst last_conv_nth) (simp_all add: min_def)
      then show ?thesis by (auto simp: pre_def query_space)
    qed (simp add: pre_def)
    show "post = '' '' \<or> post = [] \<and> drop t src \<noteq> [] \<and> is_space (hd (drop t src))"
      using ft by (auto simp: post_def hd_drop_conv_nth query_space)
  qed (use sf st src item in simp_all)
qed

subsection \<open>The token under the cursor\<close>

abbreviation touches :: "token \<Rightarrow> int \<Rightarrow> bool" where
  "touches t cursor \<equiv> int (tstart t) \<le> cursor \<and> cursor \<le> int (tend t)"

lemma active_from_cases:
  "active_from toks i cursor = -1 \<and> (\<forall>t \<in> set toks. \<not> touches t cursor)
   \<or> (\<exists>j < length toks. active_from toks i cursor = i + int j \<and> touches (toks ! j) cursor)"
proof (induction toks arbitrary: i)
  case (Cons a toks)
  show ?case
  proof (cases "touches a cursor")
    case False
    show ?thesis
    proof (cases "active_from toks (i + 1) cursor = -1 \<and> (\<forall>t \<in> set toks. \<not> touches t cursor)")
      case True with False show ?thesis by auto
    next
      case none: False
      with Cons.IH [of "i + 1"] obtain j where
        "j < length toks" "active_from toks (i + 1) cursor = i + 1 + int j" "touches (toks ! j) cursor" by blast
      with False show ?thesis by (intro disjI2 exI [of _ "Suc j"]) simp
    qed
  qed auto
qed simp

lemmas find_active_token_cases = active_from_cases [of _ 0, folded find_active_token_def, simplified]

lemma filter_before_nth:
  "ordered toks \<Longrightarrow> i < length toks \<Longrightarrow>
     filter (\<lambda>x. tend x \<le> tstart (toks ! i)) toks = take i toks
     \<and> filter (\<lambda>x. tend x \<le> tend (toks ! i)) toks = take (Suc i) toks
     \<and> filter (\<lambda>x. tend (toks ! i) \<le> tstart x) toks = drop (Suc i) toks"
proof -
  assume o: "ordered toks" and i: "i < length toks"
  define t where "t = toks ! i"
  have s: "toks = take i toks @ t # drop (Suc i) toks" using i by (simp add: t_def id_take_nth_drop)
  from o have w: "sorted_wrt (\<lambda>a b. tend a \<le> tstart b) (take i toks @ t # drop (Suc i) toks)"
    "\<forall>x \<in> set (take i toks @ t # drop (Suc i) toks). tstart x < tend x" using s by metis+
  then have a: "\<forall>x \<in> set (take i toks). tend x \<le> tstart t \<and> tstart x < tend x"
    and b: "\<forall>x \<in> set (drop (Suc i) toks). tend t \<le> tstart x \<and> tstart x < tend x" and c: "tstart t < tend t"
    by (auto simp: sorted_wrt_append)
  from a c have A: "filter (\<lambda>x. tend x \<le> tstart t) (take i toks) = take i toks"
    "filter (\<lambda>x. tend x \<le> tend t) (take i toks) = take i toks"
    "filter (\<lambda>x. tend t \<le> tstart x) (take i toks) = []"
    by (auto simp: filter_id_conv filter_empty_conv)
  from b c have B: "filter (\<lambda>x. tend x \<le> tstart t) (drop (Suc i) toks) = []"
    "filter (\<lambda>x. tend x \<le> tend t) (drop (Suc i) toks) = []"
    "filter (\<lambda>x. tend t \<le> tstart x) (drop (Suc i) toks) = drop (Suc i) toks"
    by (auto simp: filter_id_conv filter_empty_conv)
  have "filter (\<lambda>x. tend x \<le> tstart t) (take i toks @ t # drop (Suc i) toks) = take i toks"
    "filter (\<lambda>x. tend x \<le> tend t) (take i toks @ t # drop (Suc i) toks) = take i toks @ [t]"
    "filter (\<lambda>x. tend t \<le> tstart x) (take i toks @ t # drop (Suc i) toks) = drop (Suc i) toks"
    unfolding filter_append filter.simps A B using c by auto
  with s i show ?thesis by (simp add: t_def take_Suc_conv_app_nth)
qed


lemma analyze_simps:
  "cx_cursor (analyze num src cursor sch) = cursor"
  "cx_token_index (analyze num src cursor sch) = find_active_token (tokenize num src) cursor"
  "find_active_token (tokenize num src) cursor = int i \<Longrightarrow> cx_active (analyze num src cursor sch) = tokenize num src ! i"
  by (simp_all add: analyze_def Let_def)

lemma closed_cut: "quotes_closed num src \<Longrightarrow> t \<in> set (tokenize num src) \<Longrightarrow> cut num src 0 (tstart t) \<and> cut num src 0 (tend t)"
  by (simp add: tokenize_def cut_token)

text \<open>On a token: Replace overwrites its lexeme, any other action adds the item after it.\<close>

lemma edit_on_token:
  assumes "quotes_closed num src" "quotes_closed num item"
    and i: "cx_token_index (analyze num src cursor sch) = int i"
  shows "lexemes_of num (er_text (apply_completion src (analyze num src cursor sch) act item)) =
     map erase (take (if act = ActReplace then i else Suc i) (tokenize num src)) @ lexemes_of num item @
     map erase (drop (Suc i) (tokenize num src))"
proof -
  let ?ts = "tokenize num src" and ?ctx = "analyze num src cursor sch"
  have il: "i < length ?ts"
    using find_active_token_cases [of ?ts cursor] i by (auto simp: analyze_simps)
  have act: "cx_active ?ctx = ?ts ! i" using i by (simp add: analyze_simps)
  from il have m: "?ts ! i \<in> set ?ts" by simp
  note c = closed_cut [OF assms(1) m]
  from m tokens_ordered [of num src] have le: "tstart (?ts ! i) < tend (?ts ! i)" by blast
  note f = filter_before_nth [OF tokens_ordered il]
  show ?thesis
  proof (cases "act = ActReplace")
    case True
    have "edit_span ?ctx act = (int (tstart (?ts ! i)), int (tend (?ts ! i)))"
      using True i act by (simp add: edit_span_def)
    from apply_completion_lexemes [OF assms(1,2) c [THEN conjunct1] c [THEN conjunct2] _ this] le f True
    show ?thesis by simp
  next
    case False
    have "edit_span ?ctx act = (int (tend (?ts ! i)), int (tend (?ts ! i)))"
      using False i act by (simp add: edit_span_def)
    from apply_completion_lexemes [OF assms(1,2) c [THEN conjunct2] c [THEN conjunct2] _ this] f False
    show ?thesis by simp
  qed
qed

text \<open>In white space: the item goes between the tokens before and the tokens after the cursor.\<close>

lemma edit_in_space:
  assumes "quotes_closed num src" "quotes_closed num item" "k \<le> length src"
    and "cx_token_index (analyze num src (int k) sch) = -1"
  shows "lexemes_of num (er_text (apply_completion src (analyze num src (int k) sch) act item)) =
     map erase (filter (\<lambda>t. tend t < k) (tokenize num src)) @ lexemes_of num item @
     map erase (filter (\<lambda>t. k < tstart t) (tokenize num src))"
proof -
  let ?ts = "tokenize num src" and ?ctx = "analyze num src (int k) sch"
  have n: "\<forall>t \<in> set ?ts. \<not> touches t (int k)"
    using find_active_token_cases [of ?ts "int k"] assms(4) by (auto simp: analyze_simps)
  then have "cut num src 0 k" using assms(3) by (intro cut_gap) (auto simp: tokenize_def)
  moreover have "edit_span ?ctx act = (int k, int k)" using assms(4) by (simp add: edit_span_def analyze_simps)
  ultimately have e: "lexemes_of num (er_text (apply_completion src ?ctx act item)) =
     map erase (filter (\<lambda>t. tend t \<le> k) ?ts) @ lexemes_of num item @ map erase (filter (\<lambda>t. k \<le> tstart t) ?ts)"
    by (intro apply_completion_lexemes [OF assms(1,2)]) auto
  have "filter (\<lambda>t. tend t \<le> k) ?ts = filter (\<lambda>t. tend t < k) ?ts"
    "filter (\<lambda>t. k \<le> tstart t) ?ts = filter (\<lambda>t. k < tstart t) ?ts"
    using n tokens_ordered [of num src] by (force intro: filter_cong)+
  with e show ?thesis by simp
qed

subsection \<open>Properties of quoting and editing\<close>

lemma digits_only_words: "number_words digits_only"
proof -
  have a: "\<forall>c \<in> set ''0123456789''. word_char c" by code_simp
  have "list_all word_char w" if "digits_only w" for w
    using that a unfolding digits_only_def list_all_iff is_digit_def by blast
  moreover have "\<not> digits_only ''and''" "\<not> digits_only ''or''" "\<not> digits_only ''not''" "\<not> digits_only []"
    by code_simp+
  ultimately show ?thesis unfolding number_words_def by metis
qed

text \<open>Whatever the value, also with quotes, backslashes, white space or parentheses in it,
  \<open>quoteValueForQuery\<close> returns a text that lexes to a single Value token holding all of it, provided
  the number parser accepts only words that are not keywords.\<close>

theorem quoted_value_one_token:
  assumes "number_words num"
  shows "map erase (tokenize num (quote_value num v)) = [(TkValue, quote_value num v)]"
  using lexemes_quote_value [OF assms] by (simp add: tokenize_refines)

theorem quoted_value_one_token_witness:
  "map erase (tokenize digits_only (quote_value digits_only [CHR 0x22, CHR ''a'', CHR 0x5C, CHR '' '']))
   = [(TkValue, quote_value digits_only [CHR 0x22, CHR ''a'', CHR 0x5C, CHR '' ''])]"
  by (rule quoted_value_one_token [OF digits_only_words])

text \<open>Picking a completion with the cursor on a token changes one lexeme and no other: Replace puts
  the item in the place of the active token, any other action puts it right after the active token,
  also when the cursor is in the middle of it. The source's quotes must be closed and the item lex
  on its own with its quotes closed.\<close>

theorem completion_on_token:
  assumes "quotes_closed num src" "quotes_closed num item"
    and "cx_token_index (analyze num src cursor sch) = int i"
  shows "map erase (tokenize num (er_text (apply_completion src (analyze num src cursor sch) act item))) =
     map erase (take (if act = ActReplace then i else Suc i) (tokenize num src)) @ map erase (tokenize num item) @
     map erase (drop (Suc i) (tokenize num src))"
  using edit_on_token [OF assms, of act] by (simp add: tokenize_refines)

theorem completion_on_token_witness:
  "map erase (tokenize digits_only (er_text (apply_completion ''ab==7 '' (analyze digits_only ''ab==7 '' 1 []) ActReplace ''c'')))
   = [(TkKey, ''c''), (TkOperator, ''==''), (TkValue, ''7'')]"
proof -
  have c: "quotes_closed digits_only ''ab==7 ''" "quotes_closed digits_only ''c''"
    "cx_token_index (analyze digits_only ''ab==7 '' 1 []) = int 0"
    "map erase (tokenize digits_only ''c'') = [(TkKey, ''c'')]"
    "map erase (drop (Suc 0) (tokenize digits_only ''ab==7 '')) = [(TkOperator, ''==''), (TkValue, ''7'')]"
    by code_simp+
  from completion_on_token [OF c(1-3), of ActReplace] show ?thesis by (simp add: c(4,5))
qed

text \<open>Picking a completion with the cursor in white space, touching no token, inserts the item's
  lexemes between the tokens that end before the cursor and those that start after it.\<close>

theorem completion_in_space:
  assumes "quotes_closed num src" "quotes_closed num item" "k \<le> length src"
    and "cx_token_index (analyze num src (int k) sch) = -1"
  shows "map erase (tokenize num (er_text (apply_completion src (analyze num src (int k) sch) act item))) =
     map erase (filter (\<lambda>t. tend t < k) (tokenize num src)) @ map erase (tokenize num item) @
     map erase (filter (\<lambda>t. k < tstart t) (tokenize num src))"
  using edit_in_space [OF assms, of act] by (simp add: tokenize_refines)

theorem completion_in_space_witness:
  "map erase (tokenize digits_only (er_text (apply_completion ''a   b'' (analyze digits_only ''a   b'' 2 []) ActInsert ''and'')))
   = [(TkKey, ''a''), (TkAnd, ''and''), (TkKey, ''b'')]"
proof -
  have c: "quotes_closed digits_only ''a   b''" "quotes_closed digits_only ''and''" "2 \<le> length ''a   b''"
    "cx_token_index (analyze digits_only ''a   b'' (int 2) []) = -1"
    "map erase (tokenize digits_only ''and'') = [(TkAnd, ''and'')]"
    "map erase (filter (\<lambda>t. tend t < 2) (tokenize digits_only ''a   b'')) = [(TkKey, ''a'')]"
    "map erase (filter (\<lambda>t. 2 < tstart t) (tokenize digits_only ''a   b'')) = [(TkKey, ''b'')]"
    by code_simp+
  from completion_in_space [OF c(1-4), of ActInsert] show ?thesis by (simp add: c(5-7))
qed

text \<open>What \<open>complete\<close> suggests fits what it expects: operators where an operator goes, only
  connectives where a connective goes, only keys of the schema where a key goes, and where a value
  goes exactly the schema's values of the key before the operator.\<close>

theorem complete_sound:
  "let c = complete toks sch b in
   (cm_expect c = ExOperator \<longrightarrow> cm_suggestions c = operators \<and> cm_current_key c = ttext (last toks)) \<and>
   (cm_expect c = ExConnective \<longrightarrow> set (cm_suggestions c) \<subseteq> set connectives) \<and>
   (cm_expect c = ExKey \<or> cm_expect c = ExAny \<longrightarrow> set (cm_suggestions c) \<subseteq> fst ` set sch) \<and>
   (cm_expect c = ExValue \<longrightarrow>
      toks \<noteq> [] \<and> ttype (last toks) = TkOperator \<and>
      (2 \<le> length toks \<longrightarrow> cm_current_key c = ttext (toks ! (length toks - 2)) \<and>
         cm_suggestions c = (case map_of sch (cm_current_key c) of None \<Rightarrow> [] | Some vs \<Rightarrow> vs)))"
  unfolding Let_def complete_def schema_keys_def connectives_def
  by (auto split: option.splits if_splits)

theorem complete_sound_witness:
  "cm_suggestions (complete (tokenize digits_only ''k =='') [(''k'', [''v'', ''w''])] True) = [''v'', ''w'']"
proof -
  let ?toks = "tokenize digits_only ''k ==''" and ?s = "[(''k'', [''v'', ''w''])]"
  have "cm_expect (complete ?toks ?s True) = ExValue" "2 \<le> length ?toks" "ttext (?toks ! (length ?toks - 2)) = ''k''"
    by code_simp+
  with complete_sound [of ?toks ?s True] show ?thesis by (simp add: Let_def)
qed

text \<open>Inserting after a quote that was left open puts the item inside the string: on the source
  a == followed by an unclosed quote, picking \<open>and\<close> after the value adds no token at all.\<close>

theorem insert_after_open_quote_swallowed:
  "let src = ''a == '' @ [CHR 0x22, CHR ''x'']; ctx = analyze digits_only src 7 [] in
   cx_token_index ctx = 2 \<and> map ttype (tokenize digits_only (er_text (apply_completion src ctx ActInsert ''and'')))
     = map ttype (tokenize digits_only src)"
  by code_simp

end
