(* ===== verification/QueryFilter.thy ===== *)
theory QueryFilter
  imports QueryEdit
begin

section \<open>Evaluators and the visible rows (common/query/include/pj_query/filter.hpp, evaluator.hpp, types.hpp)\<close>

text \<open>
  \<open>computeVisibleSequences\<close> drives a stateful evaluator over the rows; the only evaluator of the
  repository is \<open>mosaico::Engine\<close> (toolbox_mosaico/src/query_engine.h), whose state is the global
  table of a Lua interpreter. Code outside the repository enters as parameters: \<open>run\<close> (one Lua
  chunk: its value, if it has one, and the globals after it), \<open>load_error\<close> (the message of a chunk
  that does not load), \<open>parse_num\<close> (\<open>PJ::parseNumber\<close>), \<open>lower\<close> (\<open>lowerAscii\<close>), \<open>regex\<close>
  (compiling a pattern and searching with it). The locale \<open>row_evaluator\<close> is the contract the
  filter needs: on admissible rows the verdict does not depend on the state and the state stays
  good. Engine keeps it for queries that do not assign globals and metadata keys that are not
  globals already, so the visible rows are exactly those whose own data pass the three tests.
\<close>

type_synonym metadata = "(string \<times> string) list"

record validation =
  v_valid :: bool
  v_error :: string
  v_line :: int
  v_column :: int

record filter_sequence =
  fs_name :: string
  fs_min_ts :: "int option"
  fs_max_ts :: "int option"
  fs_metadata :: metadata

record filter_params =
  fp_name_filter :: string
  fp_name_regex :: bool
  fp_query_text :: string
  fp_date_from :: "int option"
  fp_date_to :: "int option"

fun contains_sub :: "string \<Rightarrow> string \<Rightarrow> bool" where
  "contains_sub p [] = (p = [])"
| "contains_sub p (c # cs) = (take (length p) (c # cs) = p \<or> contains_sub p cs)"

definition name_passes ::
  "(string \<Rightarrow> string) \<Rightarrow> (string \<Rightarrow> bool) option \<Rightarrow> filter_params \<Rightarrow> string \<Rightarrow> bool" where
  "name_passes lower re params name =
     (case re of
        Some search \<Rightarrow> search name
      | None \<Rightarrow> \<not> (lower (fp_name_filter params) \<noteq> [] \<and>
                    \<not> contains_sub (lower (fp_name_filter params)) (lower name)))"

definition opt_less :: "int option \<Rightarrow> int option \<Rightarrow> bool" where
  "opt_less a b = (case (a, b) of (Some x, Some y) \<Rightarrow> x < y | _ \<Rightarrow> False)"

definition date_excluded :: "filter_params \<Rightarrow> filter_sequence \<Rightarrow> bool" where
  "date_excluded params seq \<longleftrightarrow>
     (fs_min_ts seq = None \<and> fs_max_ts seq = None \<and> (fp_date_from params \<noteq> None \<or> fp_date_to params \<noteq> None))
     \<or> opt_less (fs_max_ts seq) (fp_date_from params)
     \<or> opt_less (fp_date_to params) (fs_min_ts seq)"

fun visible_loop ::
  "(string \<Rightarrow> string) \<Rightarrow> (string \<Rightarrow> bool) option \<Rightarrow> ('s \<Rightarrow> query \<Rightarrow> metadata \<Rightarrow> bool \<times> 's) \<Rightarrow>
   filter_params \<Rightarrow> query option \<Rightarrow> filter_sequence list \<Rightarrow> int \<Rightarrow> 's \<Rightarrow> int list \<times> 's" where
  "visible_loop lower re evaluate params q [] index st = ([], st)"
| "visible_loop lower re evaluate params q (seq # seqs) index st =
     (if \<not> name_passes lower re params (fs_name seq)
      then visible_loop lower re evaluate params q seqs (index + 1) st
      else if date_excluded params seq
      then visible_loop lower re evaluate params q seqs (index + 1) st
      else (case (case q of None \<Rightarrow> (True, st) | Some query \<Rightarrow> evaluate st query (fs_metadata seq)) of
              (False, st') \<Rightarrow> visible_loop lower re evaluate params q seqs (index + 1) st'
            | (True, st') \<Rightarrow>
                (case visible_loop lower re evaluate params q seqs (index + 1) st' of
                   (vis, st'') \<Rightarrow> (index # vis, st''))))"

text \<open>\<open>regex p\<close> is \<open>None\<close> where constructing \<open>std::regex\<close> throws, else the search it performs.\<close>

definition compute_visible ::
  "(string \<Rightarrow> string) \<Rightarrow> (string \<Rightarrow> (string \<Rightarrow> bool) option) \<Rightarrow> (string \<Rightarrow> bool) \<Rightarrow>
   ('s \<Rightarrow> string \<Rightarrow> validation \<times> 's) \<Rightarrow> ('s \<Rightarrow> query \<Rightarrow> metadata \<Rightarrow> bool \<times> 's) \<Rightarrow>
   filter_sequence list \<Rightarrow> filter_params \<Rightarrow> 's \<Rightarrow> int list \<times> 's" where
  "compute_visible lower regex num validate evaluate seqs params st =
     (case (if fp_query_text params \<noteq> [] then validate st (fp_query_text params)
            else (\<lparr>v_valid = False, v_error = [], v_line = 0, v_column = 0\<rparr>, st)) of
        (v, st1) \<Rightarrow>
          let q = (if v_valid v then Some (mk_query num (fp_query_text params)) else None) in
          if fp_name_regex params \<and> fp_name_filter params \<noteq> []
          then (case regex (fp_name_filter params) of
                  None \<Rightarrow> ([], st1)
                | Some search \<Rightarrow> visible_loop lower (Some search) evaluate params q seqs 0 st1)
          else visible_loop lower None evaluate params q seqs 0 st1)"

text \<open>The rows the filter is meant to keep, given the verdict on a row's metadata.\<close>

definition row_visible ::
  "(string \<Rightarrow> string) \<Rightarrow> (string \<Rightarrow> bool) option \<Rightarrow> filter_params \<Rightarrow> (metadata \<Rightarrow> bool) \<Rightarrow> filter_sequence \<Rightarrow> bool" where
  "row_visible lower re params v seq \<longleftrightarrow>
     name_passes lower re params (fs_name seq) \<and> \<not> date_excluded params seq \<and> v (fs_metadata seq)"

definition optional_verdict :: "(query \<Rightarrow> metadata \<Rightarrow> bool) \<Rightarrow> query option \<Rightarrow> metadata \<Rightarrow> bool" where
  "optional_verdict verdict q md = (case q of None \<Rightarrow> True | Some qq \<Rightarrow> verdict qq md)"

subsection \<open>The contract of an evaluator\<close>

locale row_evaluator =
  fixes evaluate :: "'s \<Rightarrow> query \<Rightarrow> metadata \<Rightarrow> bool \<times> 's"
    and good :: "'s \<Rightarrow> bool"
    and admissible :: "query \<Rightarrow> metadata \<Rightarrow> bool"
    and verdict :: "query \<Rightarrow> metadata \<Rightarrow> bool"
  assumes verdict: "good s \<Longrightarrow> admissible q md \<Longrightarrow> fst (evaluate s q md) = verdict q md"
    and keeps: "good s \<Longrightarrow> admissible q md \<Longrightarrow> good (snd (evaluate s q md))"
begin

lemma optional_step:
  assumes "good s" "\<forall>qq. q = Some qq \<longrightarrow> admissible qq md"
  shows "\<exists>s'. (case q of None \<Rightarrow> (True, s) | Some qq \<Rightarrow> evaluate s qq md) = (optional_verdict verdict q md, s') \<and> good s'"
proof (cases q)
  case None with assms(1) show ?thesis by (simp add: optional_verdict_def)
next
  case (Some qq)
  with assms verdict [OF assms(1), of qq md] keeps [OF assms(1), of qq md] show ?thesis
    by (cases "evaluate s qq md") (simp add: optional_verdict_def)
qed

lemma visible_loop_eq:
  assumes "good s" "\<forall>seq \<in> set seqs. \<forall>qq. q = Some qq \<longrightarrow> admissible qq (fs_metadata seq)"
  shows "fst (visible_loop lower re evaluate params q seqs i s) =
     map (\<lambda>j. i + int j) (filter (\<lambda>j. row_visible lower re params (optional_verdict verdict q) (seqs ! j)) [0..<length seqs])
     \<and> good (snd (visible_loop lower re evaluate params q seqs i s))"
  using assms
proof (induction seqs arbitrary: i s)
  case (Cons a seqs)
  have u: "[0..<length (a # seqs)] = 0 # map Suc [0..<length seqs]"
    by (simp add: upt_conv_Cons map_Suc_upt del: upt_Suc)
  from optional_step [OF Cons.prems(1), of q "fs_metadata a"] Cons.prems(2) obtain s' where
    e: "(case q of None \<Rightarrow> (True, s) | Some qq \<Rightarrow> evaluate s qq (fs_metadata a))
        = (optional_verdict verdict q (fs_metadata a), s')" "good s'" by auto
  have IH: "fst (visible_loop lower re evaluate params q seqs (i + 1) t) =
     map (\<lambda>j. i + (1 + int j)) (filter (\<lambda>j. row_visible lower re params (optional_verdict verdict q) (seqs ! j)) [0..<length seqs])
     \<and> good (snd (visible_loop lower re evaluate params q seqs (i + 1) t))" if "good t" for t
    using Cons.IH [OF that, of "i + 1"] Cons.prems(2) by (simp add: add.assoc)
  show ?case
    unfolding u using IH [OF Cons.prems(1)] IH [OF e(2)]
    by (cases "visible_loop lower re evaluate params q seqs (i + 1) s'")
       (simp add: e(1) row_visible_def filter_map o_def split: bool.split)
qed simp

end

subsection \<open>The Lua engine (toolbox_mosaico/src/query_engine.h)\<close>

datatype 'd lua = LNil | LBool bool | LNum 'd | LStr string | LOther nat

type_synonym 'd globals = "string \<Rightarrow> 'd lua option"

definition engine_set :: "(string \<Rightarrow> 'd option) \<Rightarrow> metadata \<Rightarrow> 'd globals \<Rightarrow> 'd globals" where
  "engine_set parse_num md g =
     fold (\<lambda>(key, value) g. case parse_num value of
              Some n \<Rightarrow> g(key \<mapsto> LNum n)
            | None \<Rightarrow> g(key \<mapsto> LStr value)) md g"

text \<open>Assigning nil removes the global.\<close>

definition engine_clear :: "metadata \<Rightarrow> 'd globals \<Rightarrow> 'd globals" where
  "engine_clear md g = fold (\<lambda>(key, value) g. g(key := None)) md g"

definition truthy :: "'d lua \<Rightarrow> bool" where
  "truthy v = (case v of LBool b \<Rightarrow> b | LNil \<Rightarrow> False | _ \<Rightarrow> True)"

definition wrap_lua :: "string \<Rightarrow> string" where
  "wrap_lua s = ''return ('' @ s @ '')''"

definition engine_eval ::
  "('d globals \<Rightarrow> string \<Rightarrow> 'd lua option \<times> 'd globals) \<Rightarrow> query \<Rightarrow> 'd globals \<Rightarrow> bool \<times> 'd globals" where
  "engine_eval run q g =
     (if q_expanded q = [] then (False, g)
      else (case run g (wrap_lua (q_expanded q)) of
              (None, g') \<Rightarrow> (False, g')
            | (Some v, g') \<Rightarrow> (truthy v, g')))"

definition engine_eval_text ::
  "(string \<Rightarrow> bool) \<Rightarrow> ('d globals \<Rightarrow> string \<Rightarrow> 'd lua option \<times> 'd globals) \<Rightarrow> string \<Rightarrow> 'd globals \<Rightarrow> bool \<times> 'd globals" where
  "engine_eval_text num run src g = (if src = [] then (False, g) else engine_eval run (mk_query num src) g)"

definition engine_evaluate ::
  "(string \<Rightarrow> 'd option) \<Rightarrow> ('d globals \<Rightarrow> string \<Rightarrow> 'd lua option \<times> 'd globals) \<Rightarrow>
   'd globals \<Rightarrow> query \<Rightarrow> metadata \<Rightarrow> bool \<times> 'd globals" where
  "engine_evaluate parse_num run g q md =
     (case engine_eval run q (engine_set parse_num md g) of (b, g') \<Rightarrow> (b, engine_clear md g'))"

text \<open>\<open>std::strtol(s, &end, 10)\<close> on a 64-bit long: the value, saturated, and whether a digit was read.\<close>

definition strtol10 :: "string \<Rightarrow> int \<times> bool" where
  "strtol10 s =
     (let t = dropWhile is_space s;
          neg = (t \<noteq> [] \<and> hd t = CHR ''-'');
          u = (if t \<noteq> [] \<and> (hd t = CHR ''-'' \<or> hd t = CHR ''+'') then tl t else t);
          ds = takeWhile is_digit u;
          v = fold (\<lambda>d acc. acc * 10 + digit_val d) ds 0
      in (if ds = [] then (0, False)
          else (max (- (2 ^ 63)) (min (2 ^ 63 - 1) (if neg then - v else v)), True)))"

definition cast_int32 :: "int \<Rightarrow> int" where
  "cast_int32 x = (x + 2 ^ 31) mod 2 ^ 32 - 2 ^ 31"

definition parse_lua_error :: "string \<Rightarrow> validation" where
  "parse_lua_error msg =
     (let r = \<lparr>v_valid = False, v_error = msg, v_line = 0, v_column = 0\<rparr> in
      case find_from (CHR '':'') msg 0 of
        None \<Rightarrow> r
      | Some colon1 \<Rightarrow>
          (case find_from (CHR '':'') msg (colon1 + 1) of
             None \<Rightarrow> r
           | Some colon2 \<Rightarrow>
               (case strtol10 (slice msg (colon1 + 1) colon2) of
                  (line, digits) \<Rightarrow> if digits then r\<lparr>v_line := cast_int32 line\<rparr> else r)))"

definition validate_text :: "(string \<Rightarrow> bool) \<Rightarrow> (string \<Rightarrow> string option) \<Rightarrow> string \<Rightarrow> validation" where
  "validate_text num load_error src =
     (if src = [] then \<lparr>v_valid = False, v_error = ''empty query'', v_line = 0, v_column = 0\<rparr>
      else let expanded = q_expanded (mk_query num src);
               lua_str = (if expanded = [] then src else expanded)
           in case load_error (wrap_lua lua_str) of
                Some err \<Rightarrow> parse_lua_error err
              | None \<Rightarrow> \<lparr>v_valid = True, v_error = [], v_line = 0, v_column = 0\<rparr>)"

definition engine_validate ::
  "(string \<Rightarrow> bool) \<Rightarrow> (string \<Rightarrow> string option) \<Rightarrow> 'd globals \<Rightarrow> string \<Rightarrow> validation \<times> 'd globals" where
  "engine_validate num load_error g src = (validate_text num load_error src, g)"

subsection \<open>Engine is a row evaluator\<close>

lemma engine_set_other: "k \<notin> fst ` set md \<Longrightarrow> engine_set pn md g k = g k"
  unfolding engine_set_def by (induction md arbitrary: g) (auto split: option.splits)

lemma engine_clear_eq: "engine_clear md g k = (if k \<in> fst ` set md then None else g k)"
  unfolding engine_clear_def by (induction md arbitrary: g) auto

lemma engine_clear_set: "dom g \<inter> fst ` set md = {} \<Longrightarrow> engine_clear md (engine_set pn md g) = g"
proof (rule ext)
  fix k assume "dom g \<inter> fst ` set md = {}"
  then have "k \<in> fst ` set md \<Longrightarrow> g k = None" by (metis disjoint_iff domIff)
  then show "engine_clear md (engine_set pn md g) k = g k"
    using engine_set_other [of k md pn g] unfolding engine_clear_eq by presburger
qed

text \<open>No assignment to a global while the query's chunk runs.\<close>

definition reads_only :: "('d globals \<Rightarrow> string \<Rightarrow> 'd lua option \<times> 'd globals) \<Rightarrow> string \<Rightarrow> bool" where
  "reads_only run chunk \<longleftrightarrow> (\<forall>g. snd (run g chunk) = g)"

definition engine_admissible ::
  "('d globals \<Rightarrow> string \<Rightarrow> 'd lua option \<times> 'd globals) \<Rightarrow> 'd globals \<Rightarrow> query \<Rightarrow> metadata \<Rightarrow> bool" where
  "engine_admissible run base q md \<longleftrightarrow>
     dom base \<inter> fst ` set md = {} \<and> reads_only run (wrap_lua (q_expanded q))"

definition engine_verdict ::
  "(string \<Rightarrow> 'd option) \<Rightarrow> ('d globals \<Rightarrow> string \<Rightarrow> 'd lua option \<times> 'd globals) \<Rightarrow> 'd globals \<Rightarrow>
   query \<Rightarrow> metadata \<Rightarrow> bool" where
  "engine_verdict parse_num run base q md = fst (engine_eval run q (engine_set parse_num md base))"

lemma engine_eval_keeps: "reads_only run (wrap_lua (q_expanded q)) \<Longrightarrow> snd (engine_eval run q g) = g"
  by (auto simp: engine_eval_def reads_only_def split: prod.splits option.splits) (metis snd_conv)+

interpretation engine: row_evaluator "engine_evaluate pn run" "\<lambda>g. g = base" "engine_admissible run base"
    "engine_verdict pn run base" for pn run base
proof unfold_locales
  fix s q md
  assume s: "s = base" and a: "engine_admissible run base q md"
  then show "fst (engine_evaluate pn run s q md) = engine_verdict pn run base q md"
    by (simp add: engine_evaluate_def engine_verdict_def split: prod.split)
  from a engine_eval_keeps [of run q "engine_set pn md base"] engine_clear_set [of base md pn]
  show "snd (engine_evaluate pn run s q md) = base"
    by (cases "engine_eval run q (engine_set pn md base)") (simp add: engine_evaluate_def engine_admissible_def s)
qed

subsection \<open>Properties of the filter with the Lua engine\<close>

text \<open>A small evaluator for the concrete examples: a chunk is true when the global \<open>k\<close> is a string.\<close>

definition example_run :: "'d globals \<Rightarrow> string \<Rightarrow> 'd lua option \<times> 'd globals" where
  "example_run g chunk = (Some (LBool (case g ''k'' of Some (LStr _) \<Rightarrow> True | _ \<Rightarrow> False)), g)"

text \<open>C4. The visible rows are exactly those whose own name, dates and metadata pass, in row order, and
  the Lua globals after the call are those before it: no row's metadata leaks into another row's
  verdict. This holds with a valid query text and a compiled name filter (if any) for every
  interpreter, when the chunk assigns no global and no metadata key is already a global.\<close>

theorem engine_visible_rows:
  fixes base :: "'d globals" and parse_num :: "string \<Rightarrow> 'd option"
  assumes "if fp_name_regex params \<and> fp_name_filter params \<noteq> []
           then regex (fp_name_filter params) = Some search \<and> re = Some search else re = None"
    and "fp_query_text params \<noteq> []" "v_valid (validate_text num load_error (fp_query_text params))"
    and "q = mk_query num (fp_query_text params)"
    and "reads_only run (wrap_lua (q_expanded q))"
    and "\<forall>seq \<in> set seqs. dom base \<inter> fst ` set (fs_metadata seq) = {}"
  shows "compute_visible lower regex num (engine_validate num load_error) (engine_evaluate parse_num run) seqs params base =
     (map int (filter (\<lambda>j. row_visible lower re params (engine_verdict parse_num run base q) (seqs ! j)) [0..<length seqs]), base)"
proof -
  have ov: "optional_verdict (engine_verdict parse_num run base) (Some q) = engine_verdict parse_num run base q"
    by (rule ext) (simp add: optional_verdict_def)
  have "\<forall>seq \<in> set seqs. \<forall>qq. Some q = Some qq \<longrightarrow> engine_admissible run base qq (fs_metadata seq)"
    using assms(5,6) by (simp add: engine_admissible_def)
  note loop = engine.visible_loop_eq [OF refl this, where pn = parse_num and lower = lower and re = re
      and params = params and i = 0, unfolded ov]
  have "compute_visible lower regex num (engine_validate num load_error) (engine_evaluate parse_num run) seqs params base
      = visible_loop lower re (engine_evaluate parse_num run) params (Some q) seqs 0 base"
    using assms(1-4) by (auto simp: compute_visible_def engine_validate_def Let_def split: if_splits)
  with loop show ?thesis by (simp add: prod_eq_iff)
qed

theorem engine_visible_rows_witness:
  "fst (compute_visible id (\<lambda>p. None) digits_only (engine_validate digits_only (\<lambda>c. None))
      (engine_evaluate (\<lambda>v. if digits_only v then Some () else None) example_run)
      [\<lparr>fs_name = ''s'', fs_min_ts = Some 5, fs_max_ts = None, fs_metadata = [(''k'', ''v'')]\<rparr>,
       \<lparr>fs_name = ''s'', fs_min_ts = Some 5, fs_max_ts = None, fs_metadata = []\<rparr>]
      \<lparr>fp_name_filter = [], fp_name_regex = False, fp_query_text = ''k == 1'', fp_date_from = None, fp_date_to = None\<rparr>
      (\<lambda>k. None)) = [0]"
proof -
  let ?seqs = "[\<lparr>fs_name = ''s'', fs_min_ts = Some 5, fs_max_ts = None, fs_metadata = [(''k'', ''v'')]\<rparr>,
       \<lparr>fs_name = ''s'', fs_min_ts = Some 5, fs_max_ts = None, fs_metadata = []\<rparr>]"
  let ?params = "\<lparr>fp_name_filter = [], fp_name_regex = False, fp_query_text = ''k == 1'', fp_date_from = None, fp_date_to = None\<rparr>"
  let ?pn = "\<lambda>v. if digits_only v then Some () else None"
  define q where "q = mk_query digits_only ''k == 1''"
  have qq: "q = mk_query digits_only (fp_query_text ?params)" by (simp add: q_def)
  have x: "q_expanded q \<noteq> []" unfolding q_def by code_simp
  have n: "\<not> digits_only ''v''" by code_simp
  have r: "reads_only example_run c" for c :: string by (simp add: reads_only_def example_run_def)
  have v: "v_valid (validate_text digits_only (\<lambda>c. None) (fp_query_text ?params))" by (simp add: validate_text_def)
  have e: "engine_verdict ?pn example_run (\<lambda>k. None) q [(''k'', ''v'')]"
    "\<not> engine_verdict ?pn example_run (\<lambda>k. None) q []"
    using x n by (simp_all add: engine_verdict_def engine_eval_def example_run_def engine_set_def truthy_def)
  have f: "filter (\<lambda>j. row_visible id None ?params (engine_verdict ?pn example_run (\<lambda>k. None) q) (?seqs ! j)) [0..<length ?seqs] = [0]"
    using e by (simp add: upt_rec row_visible_def name_passes_def date_excluded_def opt_less_def)
  show ?thesis
    by (subst engine_visible_rows [where re = None, OF _ _ v qq r]) (simp_all add: f [simplified])
qed

text \<open>The date test intersects intervals: with both row dates known and the row's interval in order,
  a row survives an active date constraint exactly when some instant of the row lies in the constraint's
  range; a row with no date at all survives only when there is no constraint.\<close>

theorem date_test_intersects:
  "(fs_min_ts seq = Some lo \<and> fs_max_ts seq = Some hi \<and> lo \<le> hi
      \<and> fp_date_from params = Some from \<and> fp_date_to params = Some to \<and> from \<le> to \<longrightarrow>
      (\<not> date_excluded params seq \<longleftrightarrow> (\<exists>t. lo \<le> t \<and> t \<le> hi \<and> from \<le> t \<and> t \<le> to)))
   \<and> (fs_min_ts seq = None \<and> fs_max_ts seq = None \<longrightarrow>
      (\<not> date_excluded params seq \<longleftrightarrow> fp_date_from params = None \<and> fp_date_to params = None))"
  by (auto simp: date_excluded_def opt_less_def intro: exI [of _ "max lo from"])

theorem date_test_intersects_witness:
  "\<not> date_excluded \<lparr>fp_name_filter = [], fp_name_regex = False, fp_query_text = [], fp_date_from = Some 5, fp_date_to = Some 9\<rparr>
      \<lparr>fs_name = [], fs_min_ts = Some 1, fs_max_ts = Some 5, fs_metadata = []\<rparr>"
  using date_test_intersects [of "\<lparr>fs_name = [], fs_min_ts = Some 1, fs_max_ts = Some 5, fs_metadata = []\<rparr>" 1 5
      "\<lparr>fp_name_filter = [], fp_name_regex = False, fp_query_text = [], fp_date_from = Some 5, fp_date_to = Some 9\<rparr>" 5 9]
  by auto

end
