(* ===== verification/CandumpLine.thy ===== *)
theory CandumpLine
  imports Prelude "HOL-Library.Word"
begin

unbundle bit_operations_syntax

section \<open>One candump line (data_load_candump/candump_parser.cpp, candump_parser.hpp)\<close>

text \<open>
  The classification and decoding of one line of candump output. The code walks a line with a
  position \<open>pos\<close>; every routine only reads the text from \<open>pos\<close> on, so a position is modelled by
  that remaining text. A C++ \<open>int64_t\<close> is an \<open>int\<close> with \<open>wrap64\<close> at every sum and product (the
  two's complement result), an id is a \<open>32 word\<close>, a payload byte an \<open>8 word\<close>, the drop count a
  \<open>64 word\<close>. Facts shown: what a data line guarantees its callers; \<open>parseLine\<close> is the log parser
  with the screen parser as its fallback; a classic frame printed in log format is read back exactly;
  the combination of seconds and fraction saturates.
\<close>

definition wrap64 :: "int \<Rightarrow> int" where
  "wrap64 x = (x + 2 ^ 63) mod 2 ^ 64 - 2 ^ 63"

abbreviation int64_max :: int where "int64_max \<equiv> 2 ^ 63 - 1"
abbreviation int64_min :: int where "int64_min \<equiv> - (2 ^ 63)"

definition ascii :: "char \<Rightarrow> nat" where
  "ascii c = of_char c"

subsection \<open>Hex digits\<close>

text \<open>The lookup table \<open>kHexTable\<close>; \<open>None\<close> is its -1.\<close>

definition hex_val :: "char \<Rightarrow> nat option" where
  "hex_val c =
     (if ascii (CHR ''0'') \<le> ascii c \<and> ascii c \<le> ascii (CHR ''9'') then Some (ascii c - ascii (CHR ''0''))
      else if ascii (CHR ''a'') \<le> ascii c \<and> ascii c \<le> ascii (CHR ''f'') then Some (ascii c - ascii (CHR ''a'') + 10)
      else if ascii (CHR ''A'') \<le> ascii c \<and> ascii c \<le> ascii (CHR ''F'') then Some (ascii c - ascii (CHR ''A'') + 10)
      else None)"

definition is_hex_char :: "char \<Rightarrow> bool" where
  "is_hex_char c \<longleftrightarrow> hex_val c \<noteq> None"

fun hex_fold :: "string \<Rightarrow> 32 word \<Rightarrow> 32 word option" where
  "hex_fold [] v = Some v"
| "hex_fold (c # cs) v =
     (case hex_val c of
        None \<Rightarrow> None
      | Some nibble \<Rightarrow> hex_fold cs (push_bit 4 v OR of_nat nibble))"

definition parse_hex_u32 :: "string \<Rightarrow> 32 word option" where
  "parse_hex_u32 s = (if s = [] \<or> length s > 8 then None else hex_fold s 0)"

fun parse_hex_bytes :: "string \<Rightarrow> 8 word list option" where
  "parse_hex_bytes [] = Some []"
| "parse_hex_bytes [c] = None"
| "parse_hex_bytes (c # d # cs) =
     (case (hex_val c, hex_val d) of
        (Some hi, Some lo) \<Rightarrow>
          map_option (\<lambda>bs. (push_bit 4 (of_nat hi) OR of_nat lo) # bs) (parse_hex_bytes cs)
      | _ \<Rightarrow> None)"

definition parse_byte_token :: "string \<Rightarrow> 8 word option" where
  "parse_byte_token tok =
     (if length tok \<noteq> 2 \<or> \<not> is_hex_char (tok ! 0) \<or> \<not> is_hex_char (tok ! 1) then None
      else (case parse_hex_u32 tok of Some v \<Rightarrow> Some (ucast v) | None \<Rightarrow> Some 0))"

subsection \<open>Tokens\<close>

definition not_blank :: "char \<Rightarrow> bool" where
  "not_blank c \<longleftrightarrow> c \<noteq> CHR '' ''"

definition skip_spaces :: "string \<Rightarrow> string" where
  "skip_spaces s = dropWhile (\<lambda>c. c = CHR '' '') s"

definition next_token :: "string \<Rightarrow> string \<times> string" where
  "next_token s = (let t = skip_spaces s in (takeWhile not_blank t, skip_spaces (dropWhile not_blank t)))"

record ts_token =
  ts_present :: bool
  ts_numeric :: bool
  ts_secs :: int
  ts_frac :: int

definition dec_fold :: "string \<Rightarrow> int" where
  "dec_fold ds = fold (\<lambda>d acc. wrap64 (acc * 10 + digit_val d)) ds 0"

text \<open>Scaling the fraction's value to nanoseconds by its number of digits.\<close>

fun scale_up :: "nat \<Rightarrow> int \<Rightarrow> int" where
  "scale_up 0 v = v"
| "scale_up (Suc n) v = scale_up n (wrap64 (v * 10))"

text \<open>C++ division truncates toward zero.\<close>

definition cdiv :: "int \<Rightarrow> int \<Rightarrow> int" where
  "cdiv a b = (if (a < 0) = (b < 0) then \<bar>a\<bar> div \<bar>b\<bar> else - (\<bar>a\<bar> div \<bar>b\<bar>))"

fun scale_down :: "nat \<Rightarrow> int \<Rightarrow> int" where
  "scale_down 0 v = v"
| "scale_down (Suc n) v = scale_down n (cdiv v 10)"

definition fraction_ns :: "string \<Rightarrow> int" where
  "fraction_ns ds =
     (if length ds \<le> 9 then scale_up (9 - length ds) (dec_fold ds)
      else scale_down (length ds - 9) (dec_fold ds))"

text \<open>The text between the parentheses: seconds and nanoseconds, if it is a plain number.\<close>

definition parse_ts_inner :: "string \<Rightarrow> (int \<times> int) option" where
  "parse_ts_inner inner =
     (let signed = (inner \<noteq> [] \<and> (hd inner = CHR ''+'' \<or> hd inner = CHR ''-''));
          neg = (inner \<noteq> [] \<and> hd inner = CHR ''-'');
          s = (if signed then tl inner else inner);
          ints = takeWhile is_digit s;
          r = dropWhile is_digit s;
          seconds = (if neg then wrap64 (- dec_fold ints) else dec_fold ints)
      in if ints = [] then None
         else if r = [] then Some (seconds, 0)
         else if hd r \<noteq> CHR ''.'' then None
         else let frac = takeWhile is_digit (tl r) in
              if dropWhile is_digit (tl r) \<noteq> [] then None
              else Some (seconds, fraction_ns frac))"

definition no_ts :: ts_token where
  "no_ts = \<lparr>ts_present = False, ts_numeric = False, ts_secs = 0, ts_frac = 0\<rparr>"

definition parse_ts_token :: "string \<Rightarrow> ts_token \<times> string" where
  "parse_ts_token s =
     (if s = [] \<or> hd s \<noteq> CHR ''('' then (no_ts, s)
      else let t = no_ts\<lparr>ts_present := True\<rparr> in
        (case find_from (CHR '')'') s 1 of
           None \<Rightarrow> (t, [])
         | Some close \<Rightarrow>
             (let s' = skip_spaces (drop (close + 1) s) in
              (case parse_ts_inner (Prelude.slice s 1 close) of
                 None \<Rightarrow> (t, s')
               | Some (secs, frac) \<Rightarrow> (t\<lparr>ts_numeric := True, ts_secs := secs, ts_frac := frac\<rparr>, s')))))"

subsection \<open>Ids\<close>

record id_class =
  ic_error :: bool
  ic_extended :: bool
  ic_id :: "32 word"

definition err_flag :: "32 word" where "err_flag = 0x20000000"
definition ext_id_mask :: "32 word" where "ext_id_mask = 0x1FFFFFFF"

definition max_classic_bytes :: nat where "max_classic_bytes = 8"

definition classify_id :: "string \<Rightarrow> id_class option" where
  "classify_id hex =
     (case parse_hex_u32 hex of
        None \<Rightarrow> None
      | Some raw \<Rightarrow>
          if length hex \<ge> 8 \<and> raw AND err_flag \<noteq> 0
          then Some \<lparr>ic_error = True, ic_extended = False, ic_id = raw\<rparr>
          else Some \<lparr>ic_error = False, ic_extended = (length hex > 3 \<or> raw > 0x7FF), ic_id = raw AND ext_id_mask\<rparr>)"

subsection \<open>Lines\<close>

datatype line_kind =
    LkData | LkRtr | LkFd | LkXl | LkError | LkErrorDetail | LkDropCount | LkWallClockTs | LkMalformed

datatype grammar = GUnknown | GLog | GScreen

record parsed_line =
  pl_kind :: line_kind
  pl_grammar :: grammar
  pl_has_timestamp :: bool
  pl_seconds :: int
  pl_fraction_ns :: int
  pl_interface :: string
  pl_can_id :: "32 word"
  pl_extended :: bool
  pl_data :: "8 word list"
  pl_direction_known :: bool
  pl_is_tx :: bool
  pl_dropped :: "64 word"

definition new_line :: parsed_line where
  "new_line = \<lparr>pl_kind = LkMalformed, pl_grammar = GUnknown, pl_has_timestamp = False, pl_seconds = 0,
     pl_fraction_ns = 0, pl_interface = [], pl_can_id = 0, pl_extended = False, pl_data = [],
     pl_direction_known = False, pl_is_tx = False, pl_dropped = 0\<rparr>"

text \<open>\<open>parseCommonPrefix\<close> on a fresh line: the line, whether the body should be parsed, the text after the interface.\<close>

definition parse_common_prefix :: "string \<Rightarrow> parsed_line \<Rightarrow> parsed_line \<times> bool \<times> string" where
  "parse_common_prefix line out0 =
     (case parse_ts_token (skip_spaces line) of
        (ts, s) \<Rightarrow>
          let out = out0\<lparr>pl_has_timestamp := ts_present ts\<rparr> in
          if \<not> ts_present ts then (out\<lparr>pl_kind := LkMalformed\<rparr>, False, s)
          else if \<not> ts_numeric ts then (out\<lparr>pl_kind := LkWallClockTs\<rparr>, False, s)
          else (case next_token s of
                  (iface, s') \<Rightarrow>
                    let out2 = out\<lparr>pl_seconds := ts_secs ts, pl_fraction_ns := ts_frac ts\<rparr> in
                    if iface = [] then (out2\<lparr>pl_kind := LkMalformed\<rparr>, False, s')
                    else (out2\<lparr>pl_interface := iface\<rparr>, True, s')))"

text \<open>The kind and payload of a log body whose id is no error id; \<open>None\<close> where it is malformed.\<close>

definition log_payload :: "string \<Rightarrow> (line_kind \<times> 8 word list) option" where
  "log_payload r =
     (if r \<noteq> [] \<and> hd r = CHR ''#'' then Some (LkFd, [])
      else if r \<noteq> [] \<and> (hd r = CHR ''R'' \<or> hd r = CHR ''r'') then Some (LkRtr, [])
      else if find_from (CHR '':'') r 0 \<noteq> None then Some (LkXl, [])
      else (case (case find_from (CHR ''_'') r 0 of
                    None \<Rightarrow> Some r
                  | Some u \<Rightarrow> if u + 2 \<noteq> length r \<or> \<not> is_hex_char (r ! (u + 1)) then None else Some (take u r)) of
              None \<Rightarrow> None
            | Some data_hex \<Rightarrow>
                (case parse_hex_bytes data_hex of
                   None \<Rightarrow> None
                 | Some bytes \<Rightarrow> if length bytes > max_classic_bytes then None else Some (LkData, bytes))))"

definition log_direction :: "string \<Rightarrow> parsed_line \<Rightarrow> parsed_line" where
  "log_direction s out =
     (let dir = fst (next_token s) in
      if dir = ''R'' then out\<lparr>pl_direction_known := True, pl_is_tx := False\<rparr>
      else if dir = ''T'' then out\<lparr>pl_direction_known := True, pl_is_tx := True\<rparr>
      else out)"

definition parse_log_body :: "string \<Rightarrow> parsed_line \<Rightarrow> parsed_line" where
  "parse_log_body s out0 =
     (case next_token s of
        (body, s') \<Rightarrow>
          (case find_from (CHR ''#'') body 0 of
             None \<Rightarrow> out0\<lparr>pl_kind := LkMalformed\<rparr>
           | Some hash \<Rightarrow>
               if hash = 0 then out0\<lparr>pl_kind := LkMalformed\<rparr>
               else (case classify_id (take hash body) of
                       None \<Rightarrow> out0\<lparr>pl_kind := LkMalformed\<rparr>
                     | Some ic \<Rightarrow>
                         let out = out0\<lparr>pl_can_id := ic_id ic, pl_extended := ic_extended ic\<rparr> in
                         if ic_error ic then log_direction s' (out\<lparr>pl_kind := LkError\<rparr>)
                         else (case log_payload (drop (hash + 1) body) of
                                 None \<Rightarrow> out\<lparr>pl_kind := LkMalformed\<rparr>
                               | Some (kind, bytes) \<Rightarrow>
                                   log_direction s' (out\<lparr>pl_kind := kind,
                                     pl_data := (if kind = LkData then bytes else pl_data out)\<rparr>)))))"

text \<open>Exactly \<open>n\<close> byte tokens, or fewer up to a limit: the two payload loops of \<open>parseScreenBody\<close>.\<close>

fun screen_bytes_exact :: "nat \<Rightarrow> string \<Rightarrow> 8 word list option" where
  "screen_bytes_exact 0 s = Some []"
| "screen_bytes_exact (Suc n) s =
     (case next_token s of
        (tok, s') \<Rightarrow>
          (case parse_byte_token tok of
             None \<Rightarrow> None
           | Some b \<Rightarrow> map_option (\<lambda>bs. b # bs) (screen_bytes_exact n s')))"

fun screen_bytes_upto :: "nat \<Rightarrow> string \<Rightarrow> 8 word list" where
  "screen_bytes_upto 0 s = []"
| "screen_bytes_upto (Suc n) s =
     (case next_token s of
        (tok, s') \<Rightarrow>
          (case parse_byte_token tok of
             None \<Rightarrow> []
           | Some b \<Rightarrow> b # screen_bytes_upto n s'))"

datatype marker = MkBad | MkBrace | MkBracket string

text \<open>The shape test of the length marker: \<open>{H}\<close> with one hex digit, or \<open>[N...]\<close> with decimal digits.\<close>

definition screen_marker :: "string \<Rightarrow> marker" where
  "screen_marker mk =
     (let brace = (length mk \<ge> 3 \<and> hd mk = CHR 0x7B \<and> last mk = CHR 0x7D);
          bracket = (length mk \<ge> 3 \<and> hd mk = CHR ''['' \<and> last mk = CHR '']'');
          digits = butlast (tl mk)
      in if \<not> brace \<and> \<not> bracket then MkBad
         else if \<not> list_all (\<lambda>c. \<not> (brace \<and> \<not> is_hex_char c) \<and> \<not> (bracket \<and> \<not> is_digit c)) digits then MkBad
         else if digits = [] \<or> (brace \<and> length digits \<noteq> 1) then MkBad
         else if brace then MkBrace else MkBracket digits)"

text \<open>From the marker on: the kind and payload, \<open>None\<close> where the line is malformed.\<close>

definition screen_classic :: "string option \<Rightarrow> string \<Rightarrow> (line_kind \<times> 8 word list) option" where
  "screen_classic digits s =
     (case next_token s of
        (w1, s1) \<Rightarrow>
          if w1 = ''remote'' \<and> fst (next_token s1) = ''request'' then Some (LkRtr, [])
          else (case digits of
                  Some ds \<Rightarrow>
                    let dlc = nat (digit_val (ds ! 0)) in
                    if dlc > max_classic_bytes then None
                    else map_option (\<lambda>bs. (LkData, bs)) (screen_bytes_exact dlc s)
                | None \<Rightarrow> Some (LkData, screen_bytes_upto max_classic_bytes s)))"

definition screen_payload :: "string \<Rightarrow> (line_kind \<times> 8 word list) option" where
  "screen_payload s =
     (case next_token s of
        (mk, s') \<Rightarrow>
          (case screen_marker mk of
             MkBad \<Rightarrow> None
           | MkBrace \<Rightarrow> screen_classic None s'
           | MkBracket digits \<Rightarrow>
               if length digits = 4
               then (let g = fst (next_token s') in
                     if length g < 2 \<or> hd g \<noteq> CHR ''('' \<or> last g \<noteq> CHR '')'' then None else Some (LkXl, []))
               else if length digits = 2 then Some (LkFd, [])
               else if length digits \<noteq> 1 then None
               else screen_classic (Some digits) s'))"

definition parse_screen_body :: "string \<Rightarrow> parsed_line \<Rightarrow> parsed_line" where
  "parse_screen_body s0 out0 =
     (case next_token s0 of
        (w, s1) \<Rightarrow>
          let rxtx = (w = ''RX'' \<or> w = ''TX'');
              out1 = (if rxtx then out0\<lparr>pl_direction_known := True, pl_is_tx := (w = ''TX'')\<rparr> else out0);
              s = (if rxtx then snd (next_token (snd (next_token s1))) else s0)
          in (case next_token s of
                (id_hex, s') \<Rightarrow>
                  if id_hex = [] then out1\<lparr>pl_kind := LkMalformed\<rparr>
                  else (case classify_id id_hex of
                          None \<Rightarrow> out1\<lparr>pl_kind := LkMalformed\<rparr>
                        | Some ic \<Rightarrow>
                            let out = out1\<lparr>pl_can_id := ic_id ic, pl_extended := ic_extended ic\<rparr> in
                            if ic_error ic then out\<lparr>pl_kind := LkError\<rparr>
                            else (case screen_payload s' of
                                    None \<Rightarrow> out\<lparr>pl_kind := LkMalformed\<rparr>
                                  | Some (kind, bytes) \<Rightarrow>
                                      out\<lparr>pl_kind := kind, pl_data := (if kind = LkData then bytes else pl_data out)\<rparr>))))"

definition drop_prefix :: string where "drop_prefix = ''DROPCOUNT:''"

definition parse_drop_count :: "string \<Rightarrow> parsed_line" where
  "parse_drop_count line =
     (let out = new_line\<lparr>pl_kind := LkDropCount\<rparr>;
          s = skip_spaces (drop (length drop_prefix) line);
          counted = (take 8 s = ''dropped '');
          ds = takeWhile is_digit (drop 8 s);
          out2 = (if counted
                  then out\<lparr>pl_dropped := fold (\<lambda>d acc. acc * 10 + of_int (digit_val d)) ds 0\<rparr> else out);
          s2 = (if counted then dropWhile is_digit (drop 8 s) else s)
      in (case find_from (CHR 0x27) s2 0 of
            None \<Rightarrow> out2
          | Some q \<Rightarrow>
              (case find_from (CHR 0x27) s2 (q + 1) of
                 None \<Rightarrow> out2
               | Some q2 \<Rightarrow> out2\<lparr>pl_interface := Prelude.slice s2 (q + 1) q2\<rparr>)))"

definition parse_log_line :: "string \<Rightarrow> parsed_line" where
  "parse_log_line line =
     (case parse_common_prefix line new_line of
        (out, go, s) \<Rightarrow>
          if \<not> go then out
          else let r = parse_log_body s out in
               if pl_kind r \<noteq> LkMalformed then r\<lparr>pl_grammar := GLog\<rparr> else r)"

definition parse_screen_line :: "string \<Rightarrow> parsed_line" where
  "parse_screen_line line =
     (case parse_common_prefix line new_line of
        (out, go, s) \<Rightarrow>
          if \<not> go then out
          else let r = parse_screen_body s out in
               if pl_kind r \<noteq> LkMalformed then r\<lparr>pl_grammar := GScreen\<rparr> else r)"

definition parse_line :: "string \<Rightarrow> parsed_line" where
  "parse_line line =
     (if line \<noteq> [] \<and> hd line = CHR 0x09 then new_line\<lparr>pl_kind := LkErrorDetail\<rparr>
      else if take (length drop_prefix) line = drop_prefix then parse_drop_count line
      else (case parse_common_prefix line new_line of
              (out, go, s) \<Rightarrow>
                if \<not> go then out
                else let r = parse_log_body s out in
                  if pl_kind r \<noteq> LkMalformed then r\<lparr>pl_grammar := GLog\<rparr>
                  else let scr = parse_screen_body s
                             (new_line\<lparr>pl_has_timestamp := pl_has_timestamp r, pl_seconds := pl_seconds r,
                                pl_fraction_ns := pl_fraction_ns r, pl_interface := pl_interface r\<rparr>) in
                       if pl_kind scr \<noteq> LkMalformed then scr\<lparr>pl_grammar := GScreen\<rparr> else r))"

subsection \<open>Raw timestamps\<close>

definition combine_raw_ns :: "int \<Rightarrow> int \<Rightarrow> int" where
  "combine_raw_ns seconds frac =
     (if seconds > 0 \<and> seconds > cdiv (wrap64 (int64_max - frac)) 1000000000 then int64_max
      else if seconds < 0 \<and> seconds < cdiv (wrap64 (int64_min - frac)) 1000000000 then int64_min
      else wrap64 (wrap64 (seconds * 1000000000) + frac))"

definition raw_timestamp_ns :: "parsed_line \<Rightarrow> int" where
  "raw_timestamp_ns line = combine_raw_ns (pl_seconds line) (pl_fraction_ns line)"

definition has_numeric_timestamp :: "parsed_line \<Rightarrow> bool" where
  "has_numeric_timestamp line \<longleftrightarrow> pl_has_timestamp line \<and> pl_kind line \<noteq> LkWallClockTs"


subsection \<open>What a parsed data line guarantees\<close>

lemma classify_id_bounds:
  assumes "classify_id hex = Some ic" "\<not> ic_error ic"
  shows "ic_id ic \<le> ext_id_mask \<and> (\<not> ic_extended ic \<longrightarrow> ic_id ic \<le> 0x7FF)"
proof -
  have le: "raw AND ext_id_mask \<le> raw" "raw AND ext_id_mask \<le> ext_id_mask" for raw
    by (rule word_and_le2, rule word_and_le1)
  then have "raw \<le> 0x7FF \<Longrightarrow> raw AND ext_id_mask \<le> 0x7FF" for raw
    by (meson order_trans)
  with le assms show ?thesis
    by (auto simp: classify_id_def not_less split: option.splits if_splits)
qed

lemma log_payload_bytes: "log_payload r = Some (k, bs) \<Longrightarrow> length bs \<le> 8 \<and> k \<in> {LkData, LkRtr, LkFd, LkXl}"
  by (auto simp: log_payload_def max_classic_bytes_def split: if_splits option.splits)

lemma screen_exact_length: "screen_bytes_exact n s = Some bs \<Longrightarrow> length bs = n"
  by (induction n s arbitrary: bs rule: screen_bytes_exact.induct) (auto split: prod.splits option.splits)

lemma screen_upto_length: "length (screen_bytes_upto n s) \<le> n"
  by (induction n s rule: screen_bytes_upto.induct) (auto split: prod.splits option.splits)

lemma screen_payload_bytes:
  "screen_payload s = Some (k, bs) \<Longrightarrow> length bs \<le> 8 \<and> k \<in> {LkData, LkRtr, LkFd, LkXl}"
  using screen_upto_length [of 8]
  by (auto simp: screen_payload_def screen_classic_def max_classic_bytes_def Let_def
      dest!: screen_exact_length split: if_splits option.splits prod.splits marker.splits)

text \<open>The fields a frame line carries on from the shared prefix.\<close>

definition prefix_ok :: "parsed_line \<Rightarrow> bool" where
  "prefix_ok out \<longleftrightarrow> pl_has_timestamp out \<and> pl_interface out \<noteq> [] \<and> CHR '' '' \<notin> set (pl_interface out)
     \<and> pl_dropped out = 0"

definition frame_ok :: "parsed_line \<Rightarrow> bool" where
  "frame_ok out \<longleftrightarrow> prefix_ok out \<and> length (pl_data out) \<le> 8
     \<and> pl_kind out \<in> {LkData, LkRtr, LkFd, LkXl, LkError, LkMalformed}
     \<and> (pl_kind out \<in> {LkData, LkRtr, LkFd, LkXl} \<longrightarrow>
          pl_can_id out \<le> ext_id_mask \<and> (\<not> pl_extended out \<longrightarrow> pl_can_id out \<le> 0x7FF))"

lemma next_token_blank: "CHR '' '' \<notin> set (fst (next_token s))"
  by (auto simp: next_token_def Let_def not_blank_def dest: set_takeWhileD)

lemma common_prefix_ok:
  assumes "parse_common_prefix line new_line = (out, go, s)"
  shows "(go \<longrightarrow> prefix_ok out \<and> pl_kind out = LkMalformed \<and> pl_data out = [] \<and> out = new_line\<lparr>pl_has_timestamp := pl_has_timestamp out, pl_seconds := pl_seconds out,
            pl_fraction_ns := pl_fraction_ns out, pl_interface := pl_interface out\<rparr>)
     \<and> (\<not> go \<longrightarrow> pl_kind out \<in> {LkMalformed, LkWallClockTs} \<and> pl_grammar out = GUnknown)"
proof -
  obtain ts s1 where t: "parse_ts_token (skip_spaces line) = (ts, s1)" by (cases "parse_ts_token (skip_spaces line)")
  obtain iface s2 where n: "next_token s1 = (iface, s2)" by (cases "next_token s1")
  from next_token_blank [of s1] n assms t show ?thesis
    by (auto simp: parse_common_prefix_def Let_def prefix_ok_def new_line_def split: if_splits)
qed

lemma log_direction_fields:
  "pl_kind (log_direction s r) = pl_kind r" "pl_has_timestamp (log_direction s r) = pl_has_timestamp r"
  "pl_interface (log_direction s r) = pl_interface r" "pl_dropped (log_direction s r) = pl_dropped r"
  "pl_data (log_direction s r) = pl_data r" "pl_can_id (log_direction s r) = pl_can_id r"
  "pl_extended (log_direction s r) = pl_extended r" "pl_seconds (log_direction s r) = pl_seconds r"
  "pl_fraction_ns (log_direction s r) = pl_fraction_ns r" "pl_grammar (log_direction s r) = pl_grammar r"
  by (simp_all add: log_direction_def Let_def)

lemma log_body_ok:
  assumes "prefix_ok out" "pl_kind out = LkMalformed" "pl_data out = []"
  shows "frame_ok (parse_log_body s out) \<and> pl_grammar (parse_log_body s out) = pl_grammar out
    \<and> pl_seconds (parse_log_body s out) = pl_seconds out \<and> pl_fraction_ns (parse_log_body s out) = pl_fraction_ns out
    \<and> pl_interface (parse_log_body s out) = pl_interface out
    \<and> pl_has_timestamp (parse_log_body s out) = pl_has_timestamp out"
proof -
  obtain body s1 where n: "next_token s = (body, s1)" by (cases "next_token s")
  show ?thesis
    unfolding parse_log_body_def n
    using assms
    by (auto dest: classify_id_bounds log_payload_bytes simp: frame_ok_def prefix_ok_def log_direction_fields Let_def split: option.split)
qed

lemma screen_body_ok:
  assumes "prefix_ok out" "pl_kind out = LkMalformed" "pl_data out = []"
  shows "frame_ok (parse_screen_body s out) \<and> pl_grammar (parse_screen_body s out) = pl_grammar out
    \<and> pl_seconds (parse_screen_body s out) = pl_seconds out \<and> pl_fraction_ns (parse_screen_body s out) = pl_fraction_ns out
    \<and> pl_interface (parse_screen_body s out) = pl_interface out
    \<and> pl_has_timestamp (parse_screen_body s out) = pl_has_timestamp out"
proof -
  obtain w s1 where n: "next_token s = (w, s1)" by (cases "next_token s")
  define t where "t = (if w = ''RX'' \<or> w = ''TX'' then snd (next_token (snd (next_token s1))) else s)"
  obtain id_hex s2 where m: "next_token t = (id_hex, s2)" by (cases "next_token t")
  show ?thesis
    unfolding parse_screen_body_def n Let_def prod.case t_def [symmetric] m
    using assms
    by (auto dest: classify_id_bounds screen_payload_bytes simp: frame_ok_def prefix_ok_def Let_def split: option.split)
qed


subsection \<open>Printing numbers, for the round trip\<close>

definition dec_digit :: "nat \<Rightarrow> char" where
  "dec_digit d = char_of (48 + d)"

fun dec_pad :: "nat \<Rightarrow> nat \<Rightarrow> string" where
  "dec_pad 0 n = []"
| "dec_pad (Suc w) n = dec_pad w (n div 10) @ [dec_digit (n mod 10)]"

definition hex_digit :: "nat \<Rightarrow> char" where
  "hex_digit d = (if d < 10 then char_of (48 + d) else char_of (55 + d))"

fun hex_pad :: "nat \<Rightarrow> nat \<Rightarrow> string" where
  "hex_pad 0 n = []"
| "hex_pad (Suc w) n = hex_pad w (n div 16) @ [hex_digit (n mod 16)]"

lemma dec_digit_facts: "d < 10 \<Longrightarrow> is_digit (dec_digit d) \<and> digit_val (dec_digit d) = int d"
proof -
  assume d: "d < 10"
  have "\<forall>d \<in> set [0..<10]. is_digit (dec_digit d) \<and> digit_val (dec_digit d) = int d" by code_simp
  then show ?thesis using d by (metis atLeastLessThan_iff le0 set_upt)
qed

lemma hex_digit_facts: "d < 16 \<Longrightarrow> hex_val (hex_digit d) = Some d"
  by (cases "d < 10") (auto simp: hex_val_def hex_digit_def ascii_def)

lemma dec_pad_digits: "c \<in> set (dec_pad w n) \<Longrightarrow> is_digit c"
  by (induction w arbitrary: n) (auto simp: dec_digit_facts)

lemma length_dec_pad [simp]: "length (dec_pad w n) = w"
  by (induction w arbitrary: n) auto

lemma length_hex_pad [simp]: "length (hex_pad w n) = w"
  by (induction w arbitrary: n) auto

lemma wrap64_id: "int64_min \<le> x \<Longrightarrow> x \<le> int64_max \<Longrightarrow> wrap64 x = x"
  by (simp add: wrap64_def)

lemma dec_fold_pad: "n < 10 ^ w \<Longrightarrow> w \<le> 18 \<Longrightarrow> dec_fold (dec_pad w n) = int n"
proof (induction w arbitrary: n)
  case (Suc w)
  from Suc.prems have d: "n div 10 < 10 ^ w" by (simp add: less_mult_imp_div_less mult.commute)
  with Suc have IH: "dec_fold (dec_pad w (n div 10)) = int (n div 10)" by simp
  have "n < 10 ^ 18" using Suc.prems power_increasing [of "Suc w" 18 "10::nat"] by linarith
  then have "int n < 10 ^ 18" by (simp add: of_nat_less_iff [symmetric] del: of_nat_less_iff)
  then have "wrap64 (int n) = int n" by (intro wrap64_id) simp_all
  moreover have "int (n div 10) * 10 + int (n mod 10) = int n" by presburger
  ultimately have "wrap64 (int (n div 10) * 10 + int (n mod 10)) = int n" by simp
  with IH show ?case by (simp add: dec_fold_def dec_digit_facts)
qed (simp add: dec_fold_def)

lemma nibble_or: "b < 16 \<Longrightarrow> push_bit 4 (of_nat a :: 'a::len word) OR of_nat b = of_nat (16 * a + b)"
proof -
  assume b: "b < 16"
  have "push_bit 4 a OR b = 16 * a + b"
  proof -
    have "push_bit 4 a + b = push_bit 4 a OR b"
    proof (rule disjunctive_add)
      fix n
      show "\<not> bit (push_bit 4 a) n \<or> \<not> bit b n"
      proof (cases "n < 4")
        case False
        then have "b < 2 ^ n" using b power_increasing [of 4 n "2::nat"] by simp
        then show ?thesis by (simp add: bit_iff_odd)
      qed (simp add: bit_push_bit_iff)
    qed
    then show ?thesis by (simp add: push_bit_eq_mult mult.commute)
  qed
  then have "of_nat (push_bit 4 a OR b) = (of_nat (16 * a + b) :: 'a word)" by simp
  then show ?thesis by (simp only: of_nat_or_eq of_nat_push_bit)
qed

lemma hex_fold_append: "hex_fold (a @ b) v = (case hex_fold a v of None \<Rightarrow> None | Some u \<Rightarrow> hex_fold b u)"
  by (induction a arbitrary: v) (auto split: option.splits)

lemma hex_fold_pad: "n < 16 ^ w \<Longrightarrow> hex_fold (hex_pad w n) 0 = Some (of_nat n)"
proof (induction w arbitrary: n)
  case (Suc w)
  from Suc.prems have d: "n div 16 < 16 ^ w" by (simp add: less_mult_imp_div_less mult.commute)
  have "16 * (n div 16) + n mod 16 = n" by simp
  with Suc.IH [OF d] show ?case
    by (simp add: hex_fold_append hex_digit_facts nibble_or del: of_nat_add of_nat_mult)
qed simp

lemma hex_pad_chars: "c \<in> set (hex_pad w n) \<Longrightarrow> is_hex_char c"
  by (induction w arbitrary: n) (auto simp: hex_digit_facts is_hex_char_def)

definition hex_bytes :: "8 word list \<Rightarrow> string" where
  "hex_bytes bs = concat (map (\<lambda>b. hex_pad 2 (unat b)) bs)"

lemma unat8: "unat (b :: 8 word) < 256"
proof -
  have "unat b < 2 ^ LENGTH(8)" by (rule unsigned_less)
  then show ?thesis by simp
qed

lemma hex_pad2: "n < 256 \<Longrightarrow> hex_pad 2 n = [hex_digit (n div 16), hex_digit (n mod 16)]"
  by (simp add: numeral_2_eq_2)

lemma byte_of_nibbles: "push_bit 4 (of_nat (unat b div 16)) OR of_nat (unat b mod 16) = (b :: 8 word)"
  by (simp add: nibble_or del: of_nat_add of_nat_mult)

lemma parse_hex_bytes_print: "parse_hex_bytes (hex_bytes bs) = Some bs"
proof (induction bs)
  case (Cons b bs)
  have "unat b div 16 < 16" using unat8 [of b] by linarith
  with Cons show ?case
    by (simp add: hex_bytes_def hex_pad2 [OF unat8] hex_digit_facts byte_of_nibbles)
qed (simp add: hex_bytes_def)

lemma hex_bytes_chars: "c \<in> set (hex_bytes bs) \<Longrightarrow> is_hex_char c"
  by (auto simp: hex_bytes_def hex_pad_chars)

lemma length_hex_bytes [simp]: "length (hex_bytes bs) = 2 * length bs"
  by (induction bs) (auto simp: hex_bytes_def)

subsection \<open>Reading back a printed frame\<close>

lemma skip_spaces_simps [simp]:
  "skip_spaces [] = []" "skip_spaces (CHR '' '' # s) = skip_spaces s"
  "w \<noteq> [] \<Longrightarrow> CHR '' '' \<notin> set w \<Longrightarrow> skip_spaces (w @ s) = w @ s"
  "w \<noteq> [] \<Longrightarrow> CHR '' '' \<notin> set w \<Longrightarrow> skip_spaces w = w"
  by (cases w; auto simp: skip_spaces_def)+

lemma next_token_word:
  assumes "w \<noteq> []" "CHR '' '' \<notin> set w"
  shows "next_token (w @ CHR '' '' # s) = (w, skip_spaces s)" "next_token w = (w, [])"
proof -
  have tw: "takeWhile not_blank (w @ CHR '' '' # s) = w" "dropWhile not_blank (w @ CHR '' '' # s) = CHR '' '' # s"
    "takeWhile not_blank w = w" "dropWhile not_blank w = []"
    using assms(2) by (induction w) (auto simp: not_blank_def)
  show "next_token (w @ CHR '' '' # s) = (w, skip_spaces s)" "next_token w = (w, [])"
    by (simp_all only: next_token_def Let_def skip_spaces_simps assms tw not_False_eq_True)
qed

lemma find_from_at: "c \<notin> set m \<Longrightarrow> find_from c (p @ m @ c # r) (length p) = Some (length p + length m)"
proof -
  assume c: "c \<notin> set m"
  then have "takeWhile (\<lambda>x. x \<noteq> c) (m @ c # r) = m" by (subst takeWhile_append2) auto
  then show ?thesis by (simp add: find_from_def scan_while_def)
qed

lemma find_from_none: "c \<notin> set s \<Longrightarrow> find_from c s 0 = None"
proof -
  assume "c \<notin> set s"
  then have "takeWhile (\<lambda>x. x \<noteq> c) s = s" by (auto simp: takeWhile_eq_all_conv)
  then show ?thesis by (simp only: find_from_def scan_while_def drop_0 Let_def) simp
qed

lemma hex_char_not: "is_hex_char c \<Longrightarrow> c \<notin> {CHR ''#'', CHR ''R'', CHR ''r'', CHR '':'', CHR ''_'', CHR '' '', CHR ''X'', CHR ''T''}"
  by (auto simp: is_hex_char_def hex_val_def ascii_def)

lemma digit_not: "is_digit c \<Longrightarrow> c \<notin> {CHR '')'', CHR ''.'', CHR '' '', CHR ''+'', CHR ''-'', CHR ''(''}"
  by (auto simp: is_digit_def)

lemma dec_pad_not: "c \<in> {CHR '')'', CHR ''.'', CHR '' '', CHR ''+'', CHR ''-'', CHR ''(''} \<Longrightarrow> c \<notin> set (dec_pad w n)"
  using dec_pad_digits digit_not by blast

lemma takeWhile_dec_pad:
  "\<not> is_digit c \<Longrightarrow> takeWhile is_digit (dec_pad w n @ c # s) = dec_pad w n \<and> dropWhile is_digit (dec_pad w n @ c # s) = c # s"
  "takeWhile is_digit (dec_pad w n) = dec_pad w n \<and> dropWhile is_digit (dec_pad w n) = []"
  using dec_pad_digits by (simp_all add: takeWhile_append2 dropWhile_append2 takeWhile_eq_all_conv dropWhile_eq_Nil_conv)

lemma fraction_micro: "u < 10 ^ 6 \<Longrightarrow> fraction_ns (dec_pad 6 u) = int u * 1000"
proof -
  assume u: "u < 10 ^ 6"
  then have "dec_fold (dec_pad 6 u) = int u" by (simp add: dec_fold_pad)
  moreover have "wrap64 (int u * 10) = int u * 10" "wrap64 (int u * 100) = int u * 100" "wrap64 (int u * 1000) = int u * 1000"
    using u by (simp_all add: wrap64_id)
  ultimately show ?thesis by (simp add: fraction_ns_def numeral_3_eq_3 mult.commute)
qed

lemma parse_ts_inner_print:
  assumes "n < 10 ^ 10" "u < 10 ^ 6"
  shows "parse_ts_inner (dec_pad 10 n @ CHR ''.'' # dec_pad 6 u) = Some (int n, int u * 1000)"
proof -
  have ne: "dec_pad 10 n \<noteq> []" using length_dec_pad [of 10 n] by (metis list.size(3) zero_neq_numeral)
  then obtain d ds where d: "dec_pad 10 n = d # ds" by (cases "dec_pad 10 n") auto
  with dec_pad_not [of _ 10 n] have h: "d \<noteq> CHR ''+''" "d \<noteq> CHR ''-''" by auto
  have nd: "\<not> is_digit CHR ''.''" by (simp add: is_digit_def)
  note t = takeWhile_dec_pad(1) [OF nd, of 10 n "dec_pad 6 u"]
  have f: "dec_fold (dec_pad 10 n) = int n" using assms by (simp add: dec_fold_pad)
  show ?thesis
    unfolding parse_ts_inner_def Let_def
    using h t f fraction_micro [OF assms(2)] takeWhile_dec_pad(2) [of 6 u, THEN conjunct1]
      takeWhile_dec_pad(2) [of 6 u, THEN conjunct2]
    by (simp only: d) (simp add: d del: takeWhile_eq_all_conv dropWhile_eq_Nil_conv)
qed

lemma parse_ts_token_print:
  assumes "n < 10 ^ 10" "u < 10 ^ 6"
  shows "parse_ts_token (CHR ''('' # dec_pad 10 n @ CHR ''.'' # dec_pad 6 u @ CHR '')'' # s) =
     (\<lparr>ts_present = True, ts_numeric = True, ts_secs = int n, ts_frac = int u * 1000\<rparr>, skip_spaces s)"
proof -
  let ?m = "dec_pad 10 n @ CHR ''.'' # dec_pad 6 u"
  have "CHR '')'' \<notin> set ?m" using dec_pad_not by auto
  from find_from_at [OF this, of "''(''" s]
  have f: "find_from (CHR '')'') (CHR ''('' # ?m @ CHR '')'' # s) 1 = Some 18" by simp
  have "Prelude.slice (CHR ''('' # ?m @ CHR '')'' # s) 1 18 = ?m" by (simp add: Prelude.slice_def)
  moreover have "drop 19 (CHR ''('' # ?m @ CHR '')'' # s) = s" by simp
  ultimately show ?thesis
    using f parse_ts_inner_print [OF assms] by (simp add: parse_ts_token_def no_ts_def)
qed

definition id_text :: "bool \<Rightarrow> 32 word \<Rightarrow> string" where
  "id_text ext cid = hex_pad (if ext then 8 else 3) (unat cid)"

definition id_fits :: "bool \<Rightarrow> 32 word \<Rightarrow> bool" where
  "id_fits ext cid \<longleftrightarrow> cid \<le> (if ext then ext_id_mask else 0x7FF)"

lemma ext_mask_and: "cid \<le> ext_id_mask \<Longrightarrow> cid AND ext_id_mask = cid"
proof -
  assume "cid \<le> ext_id_mask"
  then have "cid < 2 ^ 29" by (simp add: ext_id_mask_def word_le_nat_alt word_less_nat_alt)
  from less_mask_eq [OF this] have "cid AND mask 29 = cid" .
  moreover have "ext_id_mask = mask 29" by (simp add: ext_id_mask_def mask_eq_exp_minus_1)
  ultimately show ?thesis by simp
qed

lemma classify_id_print:
  assumes "id_fits ext cid"
  shows "classify_id (id_text ext cid) = Some \<lparr>ic_error = False, ic_extended = ext, ic_id = cid\<rparr>"
proof -
  have le: "cid \<le> ext_id_mask"
    using assms by (auto simp: id_fits_def ext_id_mask_def word_le_nat_alt split: if_splits)
  have "cid AND err_flag = (cid AND ext_id_mask) AND err_flag" using ext_mask_and [OF le] by simp
  also have "\<dots> = cid AND (ext_id_mask AND err_flag)" by (simp add: and.assoc)
  finally have e: "cid AND err_flag = 0" by (simp add: ext_id_mask_def err_flag_def)
  have "unat cid < 16 ^ (if ext then 8 else 3)"
    using assms unsigned_less [of cid] by (auto simp: id_fits_def word_le_nat_alt split: if_splits)
  then have "parse_hex_u32 (id_text ext cid) = Some cid"
    by (auto simp: parse_hex_u32_def id_text_def hex_fold_pad length_0_conv [symmetric] simp del: length_0_conv)
  with e ext_mask_and [OF le] assms show ?thesis
    by (auto simp: classify_id_def id_text_def id_fits_def)
qed

lemma id_text_facts: "id_text ext cid \<noteq> [] \<and> CHR '' '' \<notin> set (id_text ext cid) \<and> CHR ''#'' \<notin> set (id_text ext cid)
   \<and> id_text ext cid \<noteq> ''RX'' \<and> id_text ext cid \<noteq> ''TX''"
proof -
  have "c \<in> set (id_text ext cid) \<Longrightarrow> c \<notin> {CHR ''#'', CHR ''R'', CHR ''r'', CHR '':'', CHR ''_'', CHR '' '', CHR ''X'', CHR ''T''}" for c
    using hex_pad_chars hex_char_not by (auto simp: id_text_def)
  moreover have "length (id_text ext cid) \<noteq> 0" by (simp add: id_text_def)
  ultimately show ?thesis by fastforce
qed

lemma hex_bytes_nil: "hex_bytes bs = [] \<longleftrightarrow> bs = []"
  using length_hex_bytes [of bs] by (cases bs) (auto simp del: length_hex_bytes)

lemma log_payload_print: "length bytes \<le> 8 \<Longrightarrow> log_payload (hex_bytes bytes) = Some (LkData, bytes)"
proof -
  assume l: "length bytes \<le> 8"
  have c: "c \<in> set (hex_bytes bytes) \<Longrightarrow> c \<notin> {CHR ''#'', CHR ''R'', CHR ''r'', CHR '':'', CHR ''_'', CHR '' '', CHR ''X'', CHR ''T''}" for c
    using hex_bytes_chars hex_char_not by blast
  then have h: "hex_bytes bytes \<noteq> [] \<Longrightarrow> hd (hex_bytes bytes) \<notin> {CHR ''#'', CHR ''R'', CHR ''r''}"
    using hd_in_set by blast
  have "CHR '':'' \<notin> set (hex_bytes bytes)" "CHR ''_'' \<notin> set (hex_bytes bytes)" using c by blast+
  with h l show ?thesis
    by (cases "bytes = []")
       (simp_all add: log_payload_def find_from_none parse_hex_bytes_print max_classic_bytes_def hex_bytes_nil)
qed


subsection \<open>The two formats as candump prints a classic frame\<close>

definition print_prefix :: "nat \<Rightarrow> nat \<Rightarrow> string" where
  "print_prefix secs micros = CHR ''('' # dec_pad 10 secs @ CHR ''.'' # dec_pad 6 micros @ CHR '')'' # []"

definition print_direction :: "bool option \<Rightarrow> string" where
  "print_direction dir = (case dir of None \<Rightarrow> [] | Some tx \<Rightarrow> if tx then '' T'' else '' R'')"

definition print_log :: "nat \<Rightarrow> nat \<Rightarrow> string \<Rightarrow> bool \<Rightarrow> 32 word \<Rightarrow> 8 word list \<Rightarrow> bool option \<Rightarrow> string" where
  "print_log secs micros iface ext cid bytes dir =
     print_prefix secs micros @ '' '' @ iface @ '' '' @ id_text ext cid @ ''#'' @ hex_bytes bytes @ print_direction dir"

definition print_screen :: "nat \<Rightarrow> nat \<Rightarrow> string \<Rightarrow> bool \<Rightarrow> 32 word \<Rightarrow> 8 word list \<Rightarrow> string" where
  "print_screen secs micros iface ext cid bytes =
     '' '' @ print_prefix secs micros @ ''  '' @ iface @ ''  '' @ id_text ext cid @ ''   ['' @ dec_pad 1 (length bytes) @ ''] ''
       @ concat (map (\<lambda>b. '' '' @ hex_pad 2 (unat b)) bytes)"

definition data_line ::
  "grammar \<Rightarrow> nat \<Rightarrow> nat \<Rightarrow> string \<Rightarrow> bool \<Rightarrow> 32 word \<Rightarrow> 8 word list \<Rightarrow> bool option \<Rightarrow> parsed_line" where
  "data_line g secs micros iface ext cid bytes dir =
     new_line\<lparr>pl_kind := LkData, pl_grammar := g, pl_has_timestamp := True, pl_seconds := int secs,
       pl_fraction_ns := int micros * 1000, pl_interface := iface, pl_can_id := cid, pl_extended := ext,
       pl_data := bytes, pl_direction_known := (dir \<noteq> None), pl_is_tx := (dir = Some True)\<rparr>"

definition prefix_line :: "nat \<Rightarrow> nat \<Rightarrow> string \<Rightarrow> parsed_line" where
  "prefix_line secs micros iface =
     new_line\<lparr>pl_has_timestamp := True, pl_seconds := int secs, pl_fraction_ns := int micros * 1000, pl_interface := iface\<rparr>"

lemma common_prefix_print:
  assumes "secs < 10 ^ 10" "micros < 10 ^ 6" "iface \<noteq> []" "CHR '' '' \<notin> set iface"
    and "pad \<in> {[], '' ''}" "s1 \<in> {'' '', ''  ''}"
  shows "parse_common_prefix (pad @ print_prefix secs micros @ s1 @ iface @ CHR '' '' # s) new_line
     = (prefix_line secs micros iface, True, skip_spaces s)"
proof -
  have k: "skip_spaces (pad @ print_prefix secs micros @ r) = print_prefix secs micros @ r" for r
    using assms(5) by (auto simp: print_prefix_def skip_spaces_def)
  have "skip_spaces (s1 @ iface @ CHR '' '' # s) = iface @ CHR '' '' # s" using assms(3,4,6) by auto
  with parse_ts_token_print [OF assms(1,2), of "s1 @ iface @ CHR '' '' # s"]
  have "parse_ts_token (print_prefix secs micros @ s1 @ iface @ CHR '' '' # s) =
     (\<lparr>ts_present = True, ts_numeric = True, ts_secs = int secs, ts_frac = int micros * 1000\<rparr>, iface @ CHR '' '' # s)"
    by (simp add: print_prefix_def)
  with next_token_word(1) [OF assms(3,4), of s] assms(3) show ?thesis
    unfolding parse_common_prefix_def k by (simp add: prefix_line_def new_line_def)
qed

lemma parse_line_dispatch:
  "take 1 s = ''('' \<or> take 2 s = '' ('' \<Longrightarrow> parse_line s =
     (case parse_common_prefix s new_line of
        (out, go, s') \<Rightarrow>
          if \<not> go then out
          else let r = parse_log_body s' out in
            if pl_kind r \<noteq> LkMalformed then r\<lparr>pl_grammar := GLog\<rparr>
            else let scr = parse_screen_body s'
                       (new_line\<lparr>pl_has_timestamp := pl_has_timestamp r, pl_seconds := pl_seconds r,
                          pl_fraction_ns := pl_fraction_ns r, pl_interface := pl_interface r\<rparr>) in
                 if pl_kind scr \<noteq> LkMalformed then scr\<lparr>pl_grammar := GScreen\<rparr> else r)"
  by (cases s) (auto simp: parse_line_def drop_prefix_def)

lemma log_body_print:
  assumes "id_fits ext cid" "length bytes \<le> 8"
  shows "parse_log_body (id_text ext cid @ ''#'' @ hex_bytes bytes @ print_direction dir) (prefix_line secs micros iface)
    = (data_line GUnknown secs micros iface ext cid bytes dir)"
proof -
  let ?body = "id_text ext cid @ CHR ''#'' # hex_bytes bytes"
  have nb: "CHR '' '' \<notin> set ?body"
    using id_text_facts [of ext cid] hex_bytes_chars [of "CHR '' ''" bytes] hex_char_not by auto
  have n: "next_token (?body @ print_direction dir) = (?body, skip_spaces (print_direction dir))"
    using next_token_word [of ?body] nb by (auto simp: print_direction_def skip_spaces_def split: option.split)
  have f: "find_from (CHR ''#'') ?body 0 = Some (length (id_text ext cid))"
    using find_from_at [of "CHR ''#''" "id_text ext cid" "[]" "hex_bytes bytes"] id_text_facts [of ext cid] by simp
  have d: "log_direction (skip_spaces (print_direction dir)) r =
      (case dir of None \<Rightarrow> r | Some tx \<Rightarrow> r\<lparr>pl_direction_known := True, pl_is_tx := tx\<rparr>)" for r
    by (cases dir) (auto simp: print_direction_def log_direction_def next_token_def skip_spaces_def not_blank_def)
  have "length (id_text ext cid) > 0" using id_text_facts [of ext cid] by simp
  with n f d classify_id_print [OF assms(1)] log_payload_print [OF assms(2)] show ?thesis
    by (auto simp: parse_log_body_def Let_def prefix_line_def data_line_def new_line_def split: option.split)
qed

lemma parse_print_log:
  assumes "secs < 10 ^ 10" "micros < 10 ^ 6" "iface \<noteq> []" "CHR '' '' \<notin> set iface"
    and "id_fits ext cid" "length bytes \<le> 8"
  shows "parse_line (print_log secs micros iface ext cid bytes dir) = data_line GLog secs micros iface ext cid bytes dir"
proof -
  let ?b = "id_text ext cid @ ''#'' @ hex_bytes bytes @ print_direction dir"
  have ne: "id_text ext cid \<noteq> []" "CHR '' '' \<notin> set (id_text ext cid)" using id_text_facts by blast+
  have "skip_spaces ?b = ?b" using ne by simp
  with common_prefix_print [OF assms(1-4), of "[]" "'' ''" ?b]
  have p: "parse_common_prefix (print_log secs micros iface ext cid bytes dir) new_line = (prefix_line secs micros iface, True, ?b)"
    by (simp add: print_log_def)
  have t: "take 1 (print_log secs micros iface ext cid bytes dir) = ''(''"
    by (simp add: print_log_def print_prefix_def)
  show ?thesis
    unfolding parse_line_dispatch [OF disjI1, OF t] p
    using log_body_print [OF assms(5,6)] by (simp add: data_line_def new_line_def Let_def)
qed

declare hex_pad.simps(2) [simp del]

definition screen_bytes_text :: "8 word list \<Rightarrow> string" where
  "screen_bytes_text bs = concat (map (\<lambda>b. '' '' @ hex_pad 2 (unat b)) bs)"

lemma hex_pad_token: "hex_pad 2 n \<noteq> [] \<and> CHR '' '' \<notin> set (hex_pad 2 n)"
  using hex_pad_chars [of _ 2 n] hex_char_not length_hex_pad [of 2 n] by (metis insertCI list.size(3) zero_neq_numeral)

lemma next_token_byte:
  "next_token (hex_pad 2 (unat b) @ screen_bytes_text bs) = (hex_pad 2 (unat b), skip_spaces (screen_bytes_text bs))"
  using next_token_word [of "hex_pad 2 (unat b)"] hex_pad_token [of "unat b"]
  by (cases bs) (simp_all add: screen_bytes_text_def)

lemma parse_byte_print: "parse_byte_token (hex_pad 2 (unat b)) = Some b"
proof -
  have c: "is_hex_char (hex_pad 2 (unat b) ! i)" if "i < 2" for i
    using that hex_pad_chars [of _ 2 "unat b"] by (simp add: nth_mem)
  have "hex_fold (hex_pad 2 (unat b)) 0 = Some (of_nat (unat b))"
    by (rule hex_fold_pad) (use unat8 [of b] in simp)
  then have "parse_hex_u32 (hex_pad 2 (unat b)) = Some (of_nat (unat b))"
    using hex_pad_token [of "unat b"] by (simp add: parse_hex_u32_def)
  then show ?thesis using c [of 0] c [of 1] by (simp add: parse_byte_token_def ucast_up_ucast_id is_up)
qed

lemma screen_exact_print:
  "screen_bytes_exact (length bs) (skip_spaces (screen_bytes_text bs)) = Some bs"
proof (induction bs)
  case (Cons b bs)
  have "screen_bytes_text (b # bs) = CHR '' '' # hex_pad 2 (unat b) @ screen_bytes_text bs"
    by (simp add: screen_bytes_text_def)
  then have "skip_spaces (screen_bytes_text (b # bs)) = hex_pad 2 (unat b) @ screen_bytes_text bs"
    using hex_pad_token [of "unat b"] by simp
  with Cons next_token_byte [of b bs] parse_byte_print [of b] show ?case by simp
qed simp

lemma screen_first_word: "fst (next_token (skip_spaces (screen_bytes_text bs))) \<noteq> ''remote''"
proof (cases bs)
  case (Cons b bs')
  have "skip_spaces (screen_bytes_text bs) = hex_pad 2 (unat b) @ screen_bytes_text bs'"
    using Cons hex_pad_token [of "unat b"] by (simp add: screen_bytes_text_def)
  moreover have "hex_pad 2 (unat b) \<noteq> ''remote''" using length_hex_pad [of 2 "unat b"] by (intro notI) simp
  ultimately show ?thesis using next_token_byte [of b bs'] by simp
qed (simp add: screen_bytes_text_def next_token_def)

lemma screen_payload_print:
  assumes "length bytes \<le> 8"
  shows "screen_payload (CHR ''['' # dec_pad 1 (length bytes) @ ''] '' @ screen_bytes_text bytes) = Some (LkData, bytes)"
proof -
  let ?mk = "CHR ''['' # dec_pad 1 (length bytes) @ '']''"
  have d: "dec_pad 1 (length bytes) = [dec_digit (length bytes)]" using assms by simp
  have l: "length bytes < 10" using assms by simp
  have nd: "dec_digit (length bytes) \<noteq> CHR '' ''" using dec_digit_facts [OF l] digit_not by blast
  have n: "next_token (?mk @ CHR '' '' # screen_bytes_text bytes) = (?mk, skip_spaces (screen_bytes_text bytes))"
    using next_token_word(1) [of ?mk "screen_bytes_text bytes"] nd unfolding d by simp
  have m: "screen_marker ?mk = MkBracket (dec_pad 1 (length bytes))"
    unfolding d using dec_digit_facts [OF l] by (simp add: screen_marker_def)
  have v: "nat (digit_val (dec_pad 1 (length bytes) ! 0)) = length bytes"
    unfolding d using dec_digit_facts [OF l] by simp
  have "screen_classic (Some (dec_pad 1 (length bytes))) (skip_spaces (screen_bytes_text bytes)) = Some (LkData, bytes)"
    using screen_first_word [of bytes] screen_exact_print [of bytes] assms v
    by (cases "next_token (skip_spaces (screen_bytes_text bytes))")
       (simp add: screen_classic_def max_classic_bytes_def del: dec_pad.simps)
  with n m show ?thesis by (simp add: screen_payload_def del: dec_pad.simps)
qed

lemma screen_body_print:
  assumes "id_fits ext cid" "length bytes \<le> 8"
  shows "parse_screen_body (id_text ext cid @ ''   ['' @ dec_pad 1 (length bytes) @ ''] '' @ screen_bytes_text bytes)
      (prefix_line secs micros iface) = data_line GUnknown secs micros iface ext cid bytes None"
    and "pl_kind (parse_log_body (id_text ext cid @ ''   ['' @ s) (prefix_line secs micros iface)) = LkMalformed
      \<and> parse_log_body (id_text ext cid @ ''   ['' @ s) (prefix_line secs micros iface) = prefix_line secs micros iface"
proof -
  have f: "id_text ext cid \<noteq> []" "CHR '' '' \<notin> set (id_text ext cid)" "CHR ''#'' \<notin> set (id_text ext cid)"
    "id_text ext cid \<noteq> ''RX''" "id_text ext cid \<noteq> ''TX''" using id_text_facts by blast+
  have n: "next_token (id_text ext cid @ CHR '' '' # CHR '' '' # CHR '' '' # CHR ''['' # r) = (id_text ext cid, CHR ''['' # r)" for r
    using next_token_word(1) [OF f(1,2), of "CHR '' '' # CHR '' '' # CHR ''['' # r"] by (simp add: skip_spaces_def)
  show "parse_screen_body (id_text ext cid @ ''   ['' @ dec_pad 1 (length bytes) @ ''] '' @ screen_bytes_text bytes)
      (prefix_line secs micros iface) = data_line GUnknown secs micros iface ext cid bytes None"
    using f classify_id_print [OF assms(1)] screen_payload_print [OF assms(2)]
    by (simp add: parse_screen_body_def n Let_def prefix_line_def data_line_def new_line_def del: dec_pad.simps)
  show "pl_kind (parse_log_body (id_text ext cid @ ''   ['' @ s) (prefix_line secs micros iface)) = LkMalformed
      \<and> parse_log_body (id_text ext cid @ ''   ['' @ s) (prefix_line secs micros iface) = prefix_line secs micros iface"
    using find_from_none [OF f(3)]
    by (simp add: parse_log_body_def n prefix_line_def new_line_def)
qed

lemma parse_print_screen:
  assumes "secs < 10 ^ 10" "micros < 10 ^ 6" "iface \<noteq> []" "CHR '' '' \<notin> set iface"
    and "id_fits ext cid" "length bytes \<le> 8"
  shows "parse_line (print_screen secs micros iface ext cid bytes) = data_line GScreen secs micros iface ext cid bytes None"
proof -
  let ?b = "id_text ext cid @ ''   ['' @ dec_pad 1 (length bytes) @ ''] '' @ screen_bytes_text bytes"
  have ne: "id_text ext cid \<noteq> []" "CHR '' '' \<notin> set (id_text ext cid)" using id_text_facts by blast+
  have sk: "skip_spaces (CHR '' '' # ?b) = ?b" using ne by simp
  have e: "print_screen secs micros iface ext cid bytes = '' '' @ print_prefix secs micros @ ''  '' @ iface @ CHR '' '' # CHR '' '' # ?b"
    by (simp add: print_screen_def screen_bytes_text_def del: dec_pad.simps)
  from common_prefix_print [OF assms(1-4), of "'' ''" "''  ''" "CHR '' '' # ?b"]
  have p: "parse_common_prefix (print_screen secs micros iface ext cid bytes) new_line = (prefix_line secs micros iface, True, ?b)"
    unfolding e sk by simp
  have t: "take 2 (print_screen secs micros iface ext cid bytes) = '' (''"
    by (simp add: print_screen_def print_prefix_def del: dec_pad.simps)
  have q: "new_line\<lparr>pl_has_timestamp := pl_has_timestamp (prefix_line secs micros iface), pl_seconds := pl_seconds (prefix_line secs micros iface),
      pl_fraction_ns := pl_fraction_ns (prefix_line secs micros iface), pl_interface := pl_interface (prefix_line secs micros iface)\<rparr>
      = prefix_line secs micros iface"
    by (simp add: prefix_line_def new_line_def)
  have k: "pl_kind (prefix_line secs micros iface) = LkMalformed"
    "pl_kind (data_line GUnknown secs micros iface ext cid bytes None) = LkData"
    "data_line GUnknown secs micros iface ext cid bytes None\<lparr>pl_grammar := GScreen\<rparr>
      = data_line GScreen secs micros iface ext cid bytes None"
    by (simp_all add: prefix_line_def data_line_def new_line_def)
  show ?thesis
    unfolding parse_line_dispatch [OF disjI2, OF t] p
    using screen_body_print(2) [OF assms(5,6), of "dec_pad 1 (length bytes) @ ''] '' @ screen_bytes_text bytes" secs micros iface]
      screen_body_print(1) [OF assms(5,6), of secs micros iface]
    by (simp add: q k Let_def del: dec_pad.simps)
qed

subsection \<open>Properties of a line\<close>

lemma parse_line_cases:
  "pl_kind (parse_line l) \<in> {LkErrorDetail, LkDropCount, LkWallClockTs} \<or> pl_kind (parse_line l) = LkMalformed
   \<or> (frame_ok (parse_line l) \<and> pl_grammar (parse_line l) \<in> {GLog, GScreen})"
proof -
  obtain out go s where p: "parse_common_prefix l new_line = (out, go, s)" by (metis surj_pair)
  have init: "go \<Longrightarrow> prefix_ok out \<and> pl_kind out = LkMalformed \<and> pl_data out = []"
    using common_prefix_ok [OF p] by blast
  let ?scr = "new_line\<lparr>pl_has_timestamp := pl_has_timestamp (parse_log_body s out), pl_seconds := pl_seconds (parse_log_body s out),
      pl_fraction_ns := pl_fraction_ns (parse_log_body s out), pl_interface := pl_interface (parse_log_body s out)\<rparr>"
  have scr: "go \<Longrightarrow> prefix_ok ?scr \<and> pl_kind ?scr = LkMalformed \<and> pl_data ?scr = []"
    using log_body_ok [of out s] init by (simp add: frame_ok_def prefix_ok_def new_line_def)
  have fr: "frame_ok (r\<lparr>pl_grammar := g\<rparr>) = frame_ok r" for r g
    by (simp add: frame_ok_def prefix_ok_def)
  have dc: "pl_kind (parse_drop_count l') = LkDropCount" for l'
    by (simp add: parse_drop_count_def Let_def new_line_def split: option.split)
  define r where "r = parse_log_body s out"
  define scr where "scr = parse_screen_body s ?scr"
  have pl: "parse_line l = (if l \<noteq> [] \<and> hd l = CHR 0x09 then new_line\<lparr>pl_kind := LkErrorDetail\<rparr>
      else if take (length drop_prefix) l = drop_prefix then parse_drop_count l
      else if \<not> go then out else if pl_kind r \<noteq> LkMalformed then r\<lparr>pl_grammar := GLog\<rparr>
      else if pl_kind scr \<noteq> LkMalformed then scr\<lparr>pl_grammar := GScreen\<rparr> else r)"
    unfolding parse_line_def p r_def scr_def Let_def prod.case by (rule refl)
  have "\<not> go \<Longrightarrow> pl_kind out \<in> {LkMalformed, LkWallClockTs}" using common_prefix_ok [OF p] by blast
  moreover have "go \<Longrightarrow> frame_ok r \<and> frame_ok scr"
    using log_body_ok [of out s] screen_body_ok [of ?scr s] init scr by (simp add: r_def scr_def)
  ultimately show ?thesis by (auto simp: pl fr dc)
qed

text \<open>A line the importer may decode is safe to decode: when \<open>parseLine\<close> says kData, the line has a
  numeric timestamp, an interface name with no blank in it, at most 8 payload bytes, an id within 29
  bits (within 11 bits when it is not extended), and the grammar it came from is recorded.\<close>

theorem data_line_guarantees:
  assumes "pl_kind (parse_line l) = LkData"
  shows "has_numeric_timestamp (parse_line l) \<and> pl_interface (parse_line l) \<noteq> []
    \<and> CHR '' '' \<notin> set (pl_interface (parse_line l)) \<and> length (pl_data (parse_line l)) \<le> 8
    \<and> pl_can_id (parse_line l) \<le> 0x1FFFFFFF \<and> (\<not> pl_extended (parse_line l) \<longrightarrow> pl_can_id (parse_line l) \<le> 0x7FF)
    \<and> pl_grammar (parse_line l) \<noteq> GUnknown"
  using parse_line_cases [of l] assms
  by (auto simp: frame_ok_def prefix_ok_def has_numeric_timestamp_def ext_id_mask_def)

theorem data_line_guarantees_witness:
  "length (pl_data (parse_line (print_log 1 2 ''can0'' False 0x123 [1, 2, 3] None))) \<le> 8"
proof -
  have "pl_kind (parse_line (print_log 1 2 ''can0'' False 0x123 [1, 2, 3] None)) = LkData"
    by (subst parse_print_log) (auto simp: id_fits_def data_line_def new_line_def)
  from data_line_guarantees [OF this] show ?thesis by blast
qed

text \<open>Parsing the shared prefix once changes nothing: outside the two special shapes, \<open>parseLine\<close>
  returns what \<open>parseLogLine\<close> alone returns when that recognises the line, else what
  \<open>parseScreenLine\<close> alone returns when that does, else the log parser's malformed line.\<close>

theorem parse_line_is_log_then_screen:
  assumes "\<not> (l \<noteq> [] \<and> hd l = CHR 0x09)" "take (length drop_prefix) l \<noteq> drop_prefix"
  shows "parse_line l =
     (if pl_kind (parse_log_line l) \<noteq> LkMalformed then parse_log_line l
      else if pl_kind (parse_screen_line l) \<noteq> LkMalformed then parse_screen_line l
      else parse_log_line l)"
proof -
  obtain out go s where p: "parse_common_prefix l new_line = (out, go, s)" by (metis surj_pair)
  show ?thesis
  proof (cases go)
    case True
    with common_prefix_ok [OF p] have o: "prefix_ok out"
      "out = new_line\<lparr>pl_has_timestamp := pl_has_timestamp out, pl_seconds := pl_seconds out,
            pl_fraction_ns := pl_fraction_ns out, pl_interface := pl_interface out\<rparr>" by auto
    have i: "pl_kind out = LkMalformed" "pl_data out = []" using common_prefix_ok [OF p] True by blast+
    have e: "new_line\<lparr>pl_has_timestamp := pl_has_timestamp (parse_log_body s out), pl_seconds := pl_seconds (parse_log_body s out),
        pl_fraction_ns := pl_fraction_ns (parse_log_body s out), pl_interface := pl_interface (parse_log_body s out)\<rparr> = out"
      using log_body_ok [OF o(1) i, of s] o(2) by simp
    show ?thesis
      unfolding parse_line_def parse_log_line_def parse_screen_line_def p
      using True assms e by (auto simp: Let_def)
  next
    case False
    with common_prefix_ok [OF p] assms show ?thesis
      unfolding parse_line_def parse_log_line_def parse_screen_line_def p by (auto simp: Let_def)
  qed
qed

theorem parse_line_is_log_then_screen_witness:
  "parse_line ''nonsense'' = parse_log_line ''nonsense''"
  using parse_line_is_log_then_screen [of "''nonsense''"]
  by (simp add: drop_prefix_def parse_log_line_def parse_screen_line_def parse_common_prefix_def parse_ts_token_def
      skip_spaces_def no_ts_def new_line_def)

text \<open>C5. Reading back what candump prints: a classic frame with 10-digit seconds and 6-digit
  microseconds, any interface name without blanks, a 3-digit standard or 8-digit extended id and up to
  8 bytes is parsed to exactly those values, from the \<open>candump -l\<close> log format (with or without a
  direction suffix) and from the screen format.\<close>

theorem printed_frames_read_back:
  assumes "secs < 10 ^ 10" "micros < 10 ^ 6" "iface \<noteq> []" "CHR '' '' \<notin> set iface"
    and "id_fits ext cid" "length bytes \<le> 8"
  shows "parse_line (print_log secs micros iface ext cid bytes dir) = data_line GLog secs micros iface ext cid bytes dir
    \<and> parse_line (print_screen secs micros iface ext cid bytes) = data_line GScreen secs micros iface ext cid bytes None"
  using parse_print_log [OF assms] parse_print_screen [OF assms] by blast

theorem printed_frames_read_back_witness:
  "pl_data (parse_line (print_screen 1700000000 250000 ''vcan0'' True 0x18FF0001 [0xDE, 0xAD])) = [0xDE, 0xAD]
   \<and> pl_is_tx (parse_line (print_log 1700000000 250000 ''vcan0'' True 0x18FF0001 [0xDE, 0xAD] (Some True)))"
proof -
  have "id_fits True 0x18FF0001" by (simp add: id_fits_def ext_id_mask_def)
  from printed_frames_read_back [of 1700000000 250000 "''vcan0''" True "0x18FF0001" "[0xDE, 0xAD]", OF _ _ _ _ this] show ?thesis
    by (simp add: data_line_def new_line_def)
qed

text \<open>For a timestamp that is not negative, the raw nanoseconds are the exact sum, clipped to the
  largest 64-bit value.\<close>

theorem raw_ns_saturates:
  assumes "0 \<le> secs" "secs \<le> int64_max" "0 \<le> frac" "frac < 1000000000"
  shows "combine_raw_ns secs frac = min int64_max (secs * 1000000000 + frac)"
proof -
  have w: "wrap64 (int64_max - frac) = int64_max - frac" using assms by (intro wrap64_id) auto
  have d: "cdiv (int64_max - frac) 1000000000 = (int64_max - frac) div 1000000000" using assms by (simp add: cdiv_def)
  show ?thesis
  proof (cases "secs > (int64_max - frac) div 1000000000")
    case True
    then have big: "secs * 1000000000 + frac > int64_max" by linarith
    have "0 \<le> (int64_max - frac) div 1000000000" using assms by (intro div_int_pos_iff [THEN iffD2]) auto
    then have "secs > 0" using True by linarith
    with big show ?thesis using True by (simp add: combine_raw_ns_def w [simplified] d [simplified])
  next
    case False
    then have le: "secs * 1000000000 + frac \<le> int64_max" using assms by linarith
    then have "wrap64 (secs * 1000000000) = secs * 1000000000"
      "wrap64 (secs * 1000000000 + frac) = secs * 1000000000 + frac"
      using assms by (auto intro!: wrap64_id)
    with False le assms show ?thesis by (simp add: combine_raw_ns_def w [simplified] d [simplified])
  qed
qed

theorem raw_ns_saturates_witness: "combine_raw_ns 9223372036854775807 5 = int64_max"
  using raw_ns_saturates [of 9223372036854775807 5] by simp

text \<open>A negative timestamp with a fraction is not clipped but lost: -1.000000001 s, which is well in
  range, comes out as the smallest 64-bit value because the overflow guard itself overflows.\<close>

theorem negative_fraction_guard_overflows:
  "combine_raw_ns (-1) 1 = int64_min"
  by (simp add: combine_raw_ns_def wrap64_def cdiv_def)

end
