(* ===== verification/CandumpScan.thy ===== *)
theory CandumpScan
  imports CandumpLine
begin

section \<open>Scanning a capture (data_load_candump/candump_parser.cpp)\<close>

text \<open>
  The timeline clock, the time-mode detection and the bounded prescan. A stream is the list of the
  lines \<open>std::getline\<close> delivers. Counters of lines are \<open>nat\<close> (they are bounded by the number of
  lines); the sum of dropped frames comes from the file and is a \<open>64 word\<close>. The interface index of
  the prescan is the code's map from names to positions beside the parallel vector of id sets.
  Facts shown: the clock is a saturating running sum; every scanned line is in exactly one counter;
  the interface table accounts for every frame; the prescan's time mode is \<open>detectTimeMode\<close>'s on
  captures whose lines all parse.
\<close>

subsection \<open>The clock\<close>

datatype time_mode = TmAbsolute | TmRelativeMonotonic | TmRelativeDelta

record clock =
  ck_mode :: time_mode
  ck_cumulative :: int

definition new_clock :: "time_mode \<Rightarrow> clock" where
  "new_clock mode = \<lparr>ck_mode = mode, ck_cumulative = 0\<rparr>"

definition clock_advance :: "clock \<Rightarrow> parsed_line \<Rightarrow> int option \<times> clock" where
  "clock_advance ck line =
     (if \<not> has_numeric_timestamp line then (None, ck)
      else let raw = raw_timestamp_ns line in
        if ck_mode ck = TmRelativeDelta
        then let c = (if raw > 0 \<and> ck_cumulative ck > wrap64 (int64_max - raw) then int64_max
                      else if raw < 0 \<and> ck_cumulative ck < wrap64 (int64_min - raw) then int64_min
                      else wrap64 (ck_cumulative ck + raw))
             in (Some c, ck\<lparr>ck_cumulative := c\<rparr>)
        else (Some raw, ck))"

fun clock_run :: "clock \<Rightarrow> parsed_line list \<Rightarrow> int option list \<times> clock" where
  "clock_run ck [] = ([], ck)"
| "clock_run ck (l # ls) =
     (case clock_advance ck l of
        (out, ck') \<Rightarrow> (case clock_run ck' ls of (outs, ck'') \<Rightarrow> (out # outs, ck'')))"

subsection \<open>Time-mode detection\<close>

record time_mode_detection =
  td_mode :: time_mode
  td_saw_numeric :: bool

definition absolute_threshold :: int where "absolute_threshold = 1000000000"

definition decide_time_mode :: "bool \<Rightarrow> int \<Rightarrow> bool \<Rightarrow> time_mode_detection" where
  "decide_time_mode saw first_seconds monotonic =
     (if \<not> saw then \<lparr>td_mode = TmAbsolute, td_saw_numeric = False\<rparr>
      else \<lparr>td_mode = (if first_seconds \<ge> absolute_threshold then TmAbsolute
                       else if monotonic then TmRelativeMonotonic else TmRelativeDelta),
            td_saw_numeric = True\<rparr>)"

record timestamp_prefix =
  tp_has_timestamp :: bool
  tp_is_wall_clock :: bool
  tp_seconds :: int
  tp_fraction_ns :: int

definition parse_timestamp_prefix :: "string \<Rightarrow> timestamp_prefix" where
  "parse_timestamp_prefix line =
     (let ts = fst (parse_ts_token (skip_spaces line));
          r = \<lparr>tp_has_timestamp = ts_present ts, tp_is_wall_clock = False, tp_seconds = 0, tp_fraction_ns = 0\<rparr>
      in if \<not> ts_present ts then r
         else if \<not> ts_numeric ts then r\<lparr>tp_is_wall_clock := True\<rparr>
         else r\<lparr>tp_seconds := ts_secs ts, tp_fraction_ns := ts_frac ts\<rparr>)"

text \<open>The bookkeeping both scans keep: what was seen so far.\<close>

record ts_track =
  tk_have_prev :: bool
  tk_prev_ns :: int
  tk_first_seconds :: int
  tk_monotonic :: bool
  tk_saw :: bool

definition new_track :: ts_track where
  "new_track = \<lparr>tk_have_prev = False, tk_prev_ns = 0, tk_first_seconds = 0, tk_monotonic = True, tk_saw = False\<rparr>"

definition track :: "int \<Rightarrow> int \<Rightarrow> ts_track \<Rightarrow> ts_track" where
  "track seconds frac k =
     (let ns = combine_raw_ns seconds frac in
      \<lparr>tk_have_prev = True, tk_prev_ns = ns,
       tk_first_seconds = (if \<not> tk_have_prev k then seconds else tk_first_seconds k),
       tk_monotonic = (if tk_have_prev k \<and> ns < tk_prev_ns k then False else tk_monotonic k),
       tk_saw = True\<rparr>)"

definition track_decision :: "ts_track \<Rightarrow> time_mode_detection" where
  "track_decision k = decide_time_mode (tk_saw k) (tk_first_seconds k) (tk_monotonic k)"

definition detect_line :: "string \<Rightarrow> ts_track \<Rightarrow> ts_track" where
  "detect_line line k =
     (if line = [] then k
      else let p = parse_timestamp_prefix line in
        if \<not> tp_has_timestamp p \<or> tp_is_wall_clock p then k
        else track (tp_seconds p) (tp_fraction_ns p) k)"

definition detect_time_mode :: "string list \<Rightarrow> nat \<Rightarrow> time_mode_detection" where
  "detect_time_mode stream max_lines = track_decision (fold detect_line (take max_lines stream) new_track)"

subsection \<open>The prescan\<close>

record recognized =
  rc_rtr :: nat
  rc_fd :: nat
  rc_xl :: nat
  rc_error :: nat
  rc_error_detail :: nat
  rc_dropcount :: nat
  rc_dropped_total :: "64 word"
  rc_wall_clock :: nat

definition no_recognized :: recognized where
  "no_recognized = \<lparr>rc_rtr = 0, rc_fd = 0, rc_xl = 0, rc_error = 0, rc_error_detail = 0, rc_dropcount = 0,
     rc_dropped_total = 0, rc_wall_clock = 0\<rparr>"

definition unsupported :: "recognized \<Rightarrow> nat" where
  "unsupported c = rc_rtr c + rc_fd c + rc_xl c + rc_error c"

definition append_drop_count :: "recognized \<Rightarrow> string \<Rightarrow> string" where
  "append_drop_count c out =
     (if rc_dropcount c = 0 then out
      else out @ ''; '' @ nat_text (rc_dropcount c) @ '' DROPCOUNT notification(s)'' @
        (if rc_dropped_total c > 0
         then '' ('' @ nat_text (unat (rc_dropped_total c)) @ '' frame(s) dropped total)'' else []))"

definition append_error_detail :: "recognized \<Rightarrow> string \<Rightarrow> string" where
  "append_error_detail c out =
     (if rc_error_detail c = 0 then out
      else out @ ''; '' @ nat_text (rc_error_detail c) @ '' `-e` error-detail line(s)'')"

definition append_wall_clock :: "recognized \<Rightarrow> string \<Rightarrow> string" where
  "append_wall_clock c out =
     (if rc_wall_clock c = 0 then out
      else out @ ''; '' @ nat_text (rc_wall_clock c) @ '' wall-clock (`-t a`) line(s), unsupported'')"

record iface_stats =
  is_interface :: string
  is_frames :: nat
  is_distinct_ids :: nat

record prescan =
  ps_lines_scanned :: nat
  ps_truncated :: bool
  ps_malformed :: nat
  ps_log_shaped :: nat
  ps_screen_shaped :: nat
  ps_recognized :: recognized
  ps_interfaces :: "iface_stats list"
  ps_time_mode :: time_mode_detection
  ps_have_first :: bool
  ps_first_ns :: int

record prescan_state =
  st_result :: prescan
  st_index_of :: "string \<Rightarrow> nat option"
  st_id_sets :: "32 word set list"
  st_track :: ts_track

definition prescan_init :: prescan_state where
  "prescan_init =
     \<lparr>st_result = \<lparr>ps_lines_scanned = 0, ps_truncated = False, ps_malformed = 0, ps_log_shaped = 0,
        ps_screen_shaped = 0, ps_recognized = no_recognized, ps_interfaces = [],
        ps_time_mode = \<lparr>td_mode = TmAbsolute, td_saw_numeric = False\<rparr>, ps_have_first = False, ps_first_ns = 0\<rparr>,
      st_index_of = (\<lambda>k. None), st_id_sets = [], st_track = new_track\<rparr>"

definition count_kind :: "line_kind \<Rightarrow> recognized \<Rightarrow> recognized" where
  "count_kind kind c =
     (case kind of
        LkRtr \<Rightarrow> c\<lparr>rc_rtr := rc_rtr c + 1\<rparr>
      | LkFd \<Rightarrow> c\<lparr>rc_fd := rc_fd c + 1\<rparr>
      | LkXl \<Rightarrow> c\<lparr>rc_xl := rc_xl c + 1\<rparr>
      | LkError \<Rightarrow> c\<lparr>rc_error := rc_error c + 1\<rparr>
      | _ \<Rightarrow> c)"

text \<open>The interface table: find or append the entry, then count the frame and its id.\<close>

definition prescan_interface :: "string \<Rightarrow> 32 word \<Rightarrow> prescan_state \<Rightarrow> prescan_state" where
  "prescan_interface iface cid st =
     (let r = st_result st;
          (idx, st1) =
            (case st_index_of st iface of
               Some i \<Rightarrow> (i, st)
             | None \<Rightarrow>
                 (let n = length (ps_interfaces r) in
                  (n, st\<lparr>st_index_of := (st_index_of st)(iface \<mapsto> n),
                         st_result := r\<lparr>ps_interfaces := ps_interfaces r @ [\<lparr>is_interface = iface, is_frames = 0, is_distinct_ids = 0\<rparr>]\<rparr>,
                         st_id_sets := st_id_sets st @ [{}]\<rparr>)));
          r1 = st_result st1;
          entry = ps_interfaces r1 ! idx
      in st1\<lparr>st_result := r1\<lparr>ps_interfaces := (ps_interfaces r1)[idx := entry\<lparr>is_frames := is_frames entry + 1\<rparr>]\<rparr>,
             st_id_sets := (st_id_sets st1)[idx := insert cid (st_id_sets st1 ! idx)]\<rparr>)"

text \<open>Counting the grammar, and the timestamp of a frame line.\<close>

definition prescan_shape :: "grammar \<Rightarrow> prescan \<Rightarrow> prescan" where
  "prescan_shape g r =
     (case g of
        GLog \<Rightarrow> r\<lparr>ps_log_shaped := ps_log_shaped r + 1\<rparr>
      | GScreen \<Rightarrow> r\<lparr>ps_screen_shaped := ps_screen_shaped r + 1\<rparr>
      | GUnknown \<Rightarrow> r)"

definition prescan_timestamp :: "parsed_line \<Rightarrow> prescan_state \<Rightarrow> prescan_state" where
  "prescan_timestamp p st =
     (if pl_has_timestamp p
      then st\<lparr>st_result := (if \<not> tk_have_prev (st_track st)
                            then (st_result st)\<lparr>ps_have_first := True, ps_first_ns := raw_timestamp_ns p\<rparr>
                            else st_result st),
              st_track := track (pl_seconds p) (pl_fraction_ns p) (st_track st)\<rparr>
      else st)"

definition prescan_parsed :: "parsed_line \<Rightarrow> prescan_state \<Rightarrow> prescan_state" where
  "prescan_parsed p st =
     (let r = st_result st; c = ps_recognized r in
      if pl_kind p = LkMalformed then st\<lparr>st_result := r\<lparr>ps_malformed := ps_malformed r + 1\<rparr>\<rparr>
      else if pl_kind p = LkErrorDetail
      then st\<lparr>st_result := r\<lparr>ps_recognized := c\<lparr>rc_error_detail := rc_error_detail c + 1\<rparr>\<rparr>\<rparr>
      else if pl_kind p = LkWallClockTs
      then st\<lparr>st_result := r\<lparr>ps_recognized := c\<lparr>rc_wall_clock := rc_wall_clock c + 1\<rparr>\<rparr>\<rparr>
      else if pl_kind p = LkDropCount
      then st\<lparr>st_result := r\<lparr>ps_recognized := c\<lparr>rc_dropcount := rc_dropcount c + 1,
                rc_dropped_total := rc_dropped_total c + pl_dropped p\<rparr>\<rparr>\<rparr>
      else let st1 = prescan_timestamp p (st\<lparr>st_result := prescan_shape (pl_grammar p) r\<rparr>);
               r1 = st_result st1;
               st2 = st1\<lparr>st_result := r1\<lparr>ps_recognized := count_kind (pl_kind p) (ps_recognized r1)\<rparr>\<rparr>
           in if pl_interface p = [] then st2 else prescan_interface (pl_interface p) (pl_can_id p) st2)"

fun prescan_loop :: "nat \<Rightarrow> string list \<Rightarrow> prescan_state \<Rightarrow> prescan_state" where
  "prescan_loop max_lines [] st = st"
| "prescan_loop max_lines (line # lines) st =
     (if ps_lines_scanned (st_result st) < max_lines
      then if line = [] then prescan_loop max_lines lines st
           else prescan_loop max_lines lines
             (prescan_parsed (parse_line line)
               (st\<lparr>st_result := (st_result st)\<lparr>ps_lines_scanned := ps_lines_scanned (st_result st) + 1\<rparr>\<rparr>))
      else st)"

definition prescan_candump :: "string list \<Rightarrow> nat \<Rightarrow> prescan" where
  "prescan_candump stream max_lines =
     (let st = prescan_loop max_lines stream prescan_init; r = st_result st in
      r\<lparr>ps_interfaces := map2 (\<lambda>e ids. e\<lparr>is_distinct_ids := card ids\<rparr>) (ps_interfaces r) (st_id_sets st),
        ps_truncated := (ps_lines_scanned r \<ge> max_lines),
        ps_time_mode := track_decision (st_track st)\<rparr>)"

definition scan_cap :: nat where "scan_cap = 200000"

subsection \<open>The clock is a saturating sum\<close>

definition clip64 :: "int \<Rightarrow> int" where
  "clip64 x = max int64_min (min int64_max x)"

abbreviation in64 :: "int \<Rightarrow> bool" where
  "in64 x \<equiv> int64_min \<le> x \<and> x \<le> int64_max"

lemma wrap64_in64: "in64 (wrap64 x)"
proof -
  have "0 \<le> (x + 2 ^ 63) mod 2 ^ 64 \<and> (x + 2 ^ 63) mod 2 ^ 64 < 2 ^ 64" by simp
  then show ?thesis unfolding wrap64_def by (simp add: algebra_simps)
qed

lemma raw_in64: "in64 (raw_timestamp_ns line)"
  using wrap64_in64 by (simp add: raw_timestamp_ns_def combine_raw_ns_def)

lemma clock_sum:
  assumes "in64 c" "in64 r"
  shows "(if r > 0 \<and> c > wrap64 (int64_max - r) then int64_max
          else if r < 0 \<and> c < wrap64 (int64_min - r) then int64_min
          else wrap64 (c + r)) = clip64 (c + r)"
proof -
  have a: "0 < r \<Longrightarrow> wrap64 (int64_max - r) = int64_max - r" using assms by (intro wrap64_id) auto
  have b: "r < 0 \<Longrightarrow> wrap64 (int64_min - r) = int64_min - r" using assms by (intro wrap64_id) auto
  consider "c + r > int64_max" | "c + r < int64_min" | "in64 (c + r)" by linarith
  then show ?thesis
  proof cases
    case 1
    with assms have "0 < r" by linarith
    with 1 a show ?thesis by (simp add: clip64_def)
  next
    case 2
    with assms have "r < 0" by linarith
    with 2 b show ?thesis by (simp add: clip64_def)
  next
    case 3
    from 3 have "wrap64 (c + r) = c + r" by (intro wrap64_id) auto
    with 3 a b show ?thesis by (auto simp: clip64_def)
  qed
qed

text \<open>The timeline in delta mode, as its documentation has it.\<close>

fun running_sum :: "int \<Rightarrow> parsed_line list \<Rightarrow> int option list" where
  "running_sum c [] = []"
| "running_sum c (l # ls) =
     (if has_numeric_timestamp l
      then Some (clip64 (c + raw_timestamp_ns l)) # running_sum (clip64 (c + raw_timestamp_ns l)) ls
      else None # running_sum c ls)"

lemma clip64_in64: "in64 (clip64 x)"
  by (simp add: clip64_def)

lemma clock_run_delta:
  "in64 c \<Longrightarrow> fst (clock_run \<lparr>ck_mode = TmRelativeDelta, ck_cumulative = c\<rparr> ls) = running_sum c ls"
proof (induction ls arbitrary: c)
  case (Cons l ls)
  show ?case
  proof (cases "has_numeric_timestamp l")
    case True
    have "clock_advance \<lparr>ck_mode = TmRelativeDelta, ck_cumulative = c\<rparr> l
        = (Some (clip64 (c + raw_timestamp_ns l)), \<lparr>ck_mode = TmRelativeDelta, ck_cumulative = clip64 (c + raw_timestamp_ns l)\<rparr>)"
      unfolding clock_advance_def Let_def clock.simps clock_sum [OF Cons.prems raw_in64, of l] using True by simp
    with True Cons.IH [OF clip64_in64, of "c + raw_timestamp_ns l"] show ?thesis
      by (cases "clock_run \<lparr>ck_mode = TmRelativeDelta, ck_cumulative = clip64 (c + raw_timestamp_ns l)\<rparr> ls") simp
  next
    case False
    with Cons.IH [OF Cons.prems] show ?thesis
      by (cases "clock_run \<lparr>ck_mode = TmRelativeDelta, ck_cumulative = c\<rparr> ls") (simp add: clock_advance_def)
  qed
qed simp

lemma clock_run_plain:
  "mode \<noteq> TmRelativeDelta \<Longrightarrow> fst (clock_run \<lparr>ck_mode = mode, ck_cumulative = c\<rparr> ls)
     = map (\<lambda>l. if has_numeric_timestamp l then Some (raw_timestamp_ns l) else None) ls"
  by (induction ls) (auto simp: clock_advance_def split: prod.split)

lemma running_sum_ge:
  "\<forall>l \<in> set ls. raw_timestamp_ns l \<ge> 0 \<Longrightarrow> in64 c \<Longrightarrow> Some t \<in> set (running_sum c ls) \<Longrightarrow> c \<le> t"
proof (induction ls arbitrary: c)
  case (Cons l ls)
  show ?case
  proof (cases "has_numeric_timestamp l")
    case True
    have ge: "c \<le> clip64 (c + raw_timestamp_ns l)" using Cons.prems by (simp add: clip64_def)
    from Cons.prems(3) True consider "t = clip64 (c + raw_timestamp_ns l)"
      | "Some t \<in> set (running_sum (clip64 (c + raw_timestamp_ns l)) ls)" by auto
    then show ?thesis
    proof cases
      case 2
      from Cons.IH [OF _ clip64_in64 2] Cons.prems(1) have "clip64 (c + raw_timestamp_ns l) \<le> t" by simp
      with ge show ?thesis by simp
    qed (use ge in simp)
  qed (use Cons in auto)
qed simp

lemma running_sum_sorted:
  "\<forall>l \<in> set ls. raw_timestamp_ns l \<ge> 0 \<Longrightarrow> in64 c \<Longrightarrow> sorted (map the (filter (\<lambda>x. x \<noteq> None) (running_sum c ls)))"
proof (induction ls arbitrary: c)
  case (Cons l ls)
  show ?case
  proof (cases "has_numeric_timestamp l")
    case True
    let ?c = "clip64 (c + raw_timestamp_ns l)"
    have "\<forall>t \<in> set (map the (filter (\<lambda>x. x \<noteq> None) (running_sum ?c ls))). ?c \<le> t"
      using running_sum_ge [of ls ?c] Cons.prems(1) clip64_in64 [of "c + raw_timestamp_ns l"] by auto
    with Cons.IH [OF _ clip64_in64] Cons.prems(1) True show ?thesis by simp
  qed (use Cons in auto)
qed simp

subsection \<open>The prescan as counting\<close>

definition is_frame_kind :: "line_kind \<Rightarrow> bool" where
  "is_frame_kind k \<longleftrightarrow> k \<in> {LkData, LkRtr, LkFd, LkXl, LkError}"

definition count :: "('a \<Rightarrow> bool) \<Rightarrow> 'a list \<Rightarrow> nat" where
  "count P xs = length (filter P xs)"

lemma count_simps [simp]: "count P [] = 0" "count P (xs @ [x]) = count P xs + (if P x then 1 else 0)"
  by (simp_all add: count_def)

definition kinds :: "line_kind \<Rightarrow> parsed_line list \<Rightarrow> nat" where
  "kinds k ps = count (\<lambda>p. pl_kind p = k) ps"

definition frames_of :: "parsed_line list \<Rightarrow> (string \<times> 32 word) list" where
  "frames_of ps = map (\<lambda>p. (pl_interface p, pl_can_id p)) (filter (\<lambda>p. is_frame_kind (pl_kind p)) ps)"

definition prescan_step :: "string \<Rightarrow> prescan_state \<Rightarrow> prescan_state" where
  "prescan_step line st = prescan_parsed (parse_line line)
     (st\<lparr>st_result := (st_result st)\<lparr>ps_lines_scanned := ps_lines_scanned (st_result st) + 1\<rparr>\<rparr>)"

lemma prescan_interface_fields:
  "ps_lines_scanned (st_result (prescan_interface i c st)) = ps_lines_scanned (st_result st)"
  "ps_malformed (st_result (prescan_interface i c st)) = ps_malformed (st_result st)"
  "ps_log_shaped (st_result (prescan_interface i c st)) = ps_log_shaped (st_result st)"
  "ps_screen_shaped (st_result (prescan_interface i c st)) = ps_screen_shaped (st_result st)"
  "ps_recognized (st_result (prescan_interface i c st)) = ps_recognized (st_result st)"
  "st_track (prescan_interface i c st) = st_track st"
  by (simp_all add: prescan_interface_def Let_def split: option.split)

lemma prescan_step_scanned:
  "ps_lines_scanned (st_result (prescan_step line st)) = ps_lines_scanned (st_result st) + 1"
  by (simp add: prescan_step_def prescan_parsed_def Let_def prescan_interface_fields prescan_timestamp_def
      prescan_shape_def split: grammar.split)

lemma prescan_loop_fold:
  "prescan_loop m lines st =
     fold prescan_step (take (m - ps_lines_scanned (st_result st)) (filter (\<lambda>l. l \<noteq> []) lines)) st"
proof (induction lines arbitrary: st)
  case (Cons l lines)
  show ?case
  proof (cases "ps_lines_scanned (st_result st) < m \<and> l \<noteq> []")
    case True
    then have "m - ps_lines_scanned (st_result st) = Suc (m - ps_lines_scanned (st_result (prescan_step l st)))"
      by (simp add: prescan_step_scanned Suc_diff_Suc)
    moreover have "prescan_loop m (l # lines) st = prescan_loop m lines (prescan_step l st)"
      using True unfolding prescan_step_def by simp
    ultimately show ?thesis using True Cons.IH [of "prescan_step l st"] by simp
  next
    case False with Cons.IH [of st] show ?thesis by auto
  qed
qed simp


text \<open>The state after the lines parsed so far.\<close>

definition table_ok :: "(string \<times> 32 word) list \<Rightarrow> prescan_state \<Rightarrow> bool" where
  "table_ok fs st \<longleftrightarrow>
     (let ifs = ps_interfaces (st_result st) in
      length (st_id_sets st) = length ifs \<and> distinct (map is_interface ifs) \<and> set (map is_interface ifs) = fst ` set fs
      \<and> (\<forall>name i. st_index_of st name = Some i \<longleftrightarrow> i < length ifs \<and> is_interface (ifs ! i) = name)
      \<and> (\<forall>i < length ifs. is_frames (ifs ! i) = count (\<lambda>f. fst f = is_interface (ifs ! i)) fs
            \<and> st_id_sets st ! i = snd ` {f \<in> set fs. fst f = is_interface (ifs ! i)}))"

lemma table_step:
  assumes "table_ok fs st"
  shows "table_ok (fs @ [(name, cid)]) (prescan_interface name cid st)"
proof -
  define ifs where "ifs = ps_interfaces (st_result st)"
  have t: "length (st_id_sets st) = length ifs" "distinct (map is_interface ifs)" "set (map is_interface ifs) = fst ` set fs"
    "\<And>name i. st_index_of st name = Some i \<longleftrightarrow> i < length ifs \<and> is_interface (ifs ! i) = name"
    "\<And>i. i < length ifs \<Longrightarrow> is_frames (ifs ! i) = count (\<lambda>f. fst f = is_interface (ifs ! i)) fs
            \<and> st_id_sets st ! i = snd ` {f \<in> set fs. fst f = is_interface (ifs ! i)}"
    using assms by (auto simp: table_ok_def Let_def ifs_def)
  show ?thesis
  proof (cases "st_index_of st name")
    case (Some k)
    then have k: "k < length ifs" "is_interface (ifs ! k) = name" using t(4) by auto
    have other: "is_interface (ifs ! i) = name \<Longrightarrow> i < length ifs \<Longrightarrow> i = k" for i
      using t(2) k by (auto simp: distinct_conv_nth)
    define ifs' where "ifs' = ifs[k := (ifs ! k)\<lparr>is_frames := is_frames (ifs ! k) + 1\<rparr>]"
    have nm: "is_interface (ifs' ! i) = is_interface (ifs ! i)" for i
      using k by (cases "i = k") (auto simp: ifs'_def)
    have l: "length ifs' = length ifs" by (simp add: ifs'_def)
    have mp: "map is_interface ifs' = map is_interface ifs"
      by (rule nth_equalityI) (use nm l in auto)
    have r: "ps_interfaces (st_result (prescan_interface name cid st)) = ifs'"
      "st_id_sets (prescan_interface name cid st) = (st_id_sets st)[k := insert cid (st_id_sets st ! k)]"
      "st_index_of (prescan_interface name cid st) = st_index_of st"
      using Some by (simp_all add: prescan_interface_def Let_def ifs_def ifs'_def)
    have nin: "name \<in> fst ` set fs" using k t(3) nth_mem [OF k(1)] by auto
    show ?thesis
      unfolding table_ok_def Let_def r mp l
    proof (intro conjI allI impI)
      show "(st_index_of st n = Some i) = (i < length ifs \<and> is_interface (ifs' ! i) = n)" for n i
        using t(4) nm by simp
    next
      fix i assume i: "i < length ifs"
      show "is_frames (ifs' ! i) = count (\<lambda>f. fst f = is_interface (ifs' ! i)) (fs @ [(name, cid)])"
      proof (cases "i = k")
        case True with t(5) [OF i] k i show ?thesis by (simp add: nm) (simp add: ifs'_def)
      next
        case False with t(5) [OF i] other [of i] i show ?thesis by (auto simp: nm) (simp add: ifs'_def)
      qed
      show "(st_id_sets st)[k := insert cid (st_id_sets st ! k)] ! i = snd ` {f \<in> set (fs @ [(name, cid)]). fst f = is_interface (ifs' ! i)}"
      proof (cases "i = k")
        case True with t(1) t(5) [OF i] k i show ?thesis unfolding nm by force
      next
        case False with t(5) [OF i] other [of i] i show ?thesis unfolding nm by force
      qed
    qed (use t nin in auto)
  next
    case None
    then have "\<forall>i < length ifs. is_interface (ifs ! i) \<noteq> name" using t(4) [of name] by simp
    then have new: "name \<notin> fst ` set fs"
      unfolding t(3) [symmetric] by (metis in_set_conv_nth length_map nth_map)
    define e where "e = \<lparr>is_interface = name, is_frames = 1, is_distinct_ids = 0\<rparr>"
    have r: "ps_interfaces (st_result (prescan_interface name cid st)) = ifs @ [e]"
      "st_id_sets (prescan_interface name cid st) = st_id_sets st @ [{cid}]"
      "st_index_of (prescan_interface name cid st) = (st_index_of st)(name \<mapsto> length ifs)"
      using None t(1) by (simp_all add: prescan_interface_def Let_def ifs_def [symmetric] e_def nth_append list_update_append)
    have c0: "count (\<lambda>f. fst f = name) fs = 0" "{f \<in> set fs. fst f = name} = {}"
      using new by (auto simp: count_def filter_empty_conv image_iff)
    have nn: "i < length ifs \<Longrightarrow> is_interface (ifs ! i) \<noteq> name" for i
      using new unfolding t(3) [symmetric] by auto
    show ?thesis
      unfolding table_ok_def Let_def r
    proof (intro conjI allI impI)
      fix n i
      show "((st_index_of st)(name \<mapsto> length ifs)) n = Some i \<longleftrightarrow> i < length (ifs @ [e]) \<and> is_interface ((ifs @ [e]) ! i) = n"
        using t(4) nn by (auto simp: nth_append e_def less_Suc_eq)
    next
      fix i assume "i < length (ifs @ [e])"
      then consider "i < length ifs" | "i = length ifs" by fastforce
      then show "is_frames ((ifs @ [e]) ! i) = count (\<lambda>f. fst f = is_interface ((ifs @ [e]) ! i)) (fs @ [(name, cid)])"
        by cases (use t(5) nn c0 in \<open>auto simp: nth_append e_def\<close>)
      show "(st_id_sets st @ [{cid}]) ! i = snd ` {f \<in> set (fs @ [(name, cid)]). fst f = is_interface ((ifs @ [e]) ! i)}"
        using \<open>i < length (ifs @ [e])\<close> t(1) t(5) [of i] nn [of i] c0(2)
        by (cases "i < length ifs") (force simp: nth_append e_def)+
    qed (use t new in \<open>auto simp: e_def\<close>)
  qed
qed


definition track_of :: "parsed_line list \<Rightarrow> ts_track" where
  "track_of ps = fold (\<lambda>p k. if is_frame_kind (pl_kind p) then track (pl_seconds p) (pl_fraction_ns p) k else k) ps new_track"

definition counts_ok :: "parsed_line list \<Rightarrow> prescan \<Rightarrow> bool" where
  "counts_ok ps r \<longleftrightarrow>
     ps_lines_scanned r = length ps \<and> ps_malformed r = kinds LkMalformed ps
     \<and> ps_log_shaped r = count (\<lambda>p. is_frame_kind (pl_kind p) \<and> pl_grammar p = GLog) ps
     \<and> ps_screen_shaped r = count (\<lambda>p. is_frame_kind (pl_kind p) \<and> pl_grammar p = GScreen) ps
     \<and> rc_error_detail (ps_recognized r) = kinds LkErrorDetail ps
     \<and> rc_wall_clock (ps_recognized r) = kinds LkWallClockTs ps
     \<and> rc_dropcount (ps_recognized r) = kinds LkDropCount ps
     \<and> rc_dropped_total (ps_recognized r) = sum_list (map pl_dropped (filter (\<lambda>p. pl_kind p = LkDropCount) ps))
     \<and> rc_rtr (ps_recognized r) = kinds LkRtr ps \<and> rc_fd (ps_recognized r) = kinds LkFd ps
     \<and> rc_xl (ps_recognized r) = kinds LkXl ps \<and> rc_error (ps_recognized r) = kinds LkError ps"

text \<open>What is known of a line \<open>parseLine\<close> returned.\<close>

lemma parse_line_frame:
  "is_frame_kind (pl_kind (parse_line l)) \<Longrightarrow>
     pl_has_timestamp (parse_line l) \<and> pl_interface (parse_line l) \<noteq> [] \<and> pl_grammar (parse_line l) \<in> {GLog, GScreen}"
  using parse_line_cases [of l] by (auto simp: is_frame_kind_def frame_ok_def prefix_ok_def)

lemma kind_cases:
  "is_frame_kind k \<or> k \<in> {LkMalformed, LkErrorDetail, LkWallClockTs, LkDropCount}"
  by (cases k) (auto simp: is_frame_kind_def)

lemma prescan_parsed_frame:
  assumes "is_frame_kind (pl_kind p)" "pl_has_timestamp p" "pl_interface p \<noteq> []"
  shows "prescan_parsed p st = prescan_interface (pl_interface p) (pl_can_id p)
     (let st1 = prescan_timestamp p (st\<lparr>st_result := prescan_shape (pl_grammar p) (st_result st)\<rparr>)
      in st1\<lparr>st_result := (st_result st1)\<lparr>ps_recognized := count_kind (pl_kind p) (ps_recognized (st_result st1))\<rparr>\<rparr>)"
  using assms by (auto simp: prescan_parsed_def Let_def is_frame_kind_def)

lemma prescan_step_inv:
  assumes "counts_ok ps (st_result st)" "table_ok (frames_of ps) st" "st_track st = track_of ps"
  shows "counts_ok (ps @ [parse_line l]) (st_result (prescan_step l st))
    \<and> table_ok (frames_of (ps @ [parse_line l])) (prescan_step l st)
    \<and> st_track (prescan_step l st) = track_of (ps @ [parse_line l])"
proof (cases "is_frame_kind (pl_kind (parse_line l))")
  case True
  let ?p = "parse_line l"
  note f = parse_line_frame [OF True]
  define st0 where "st0 = st\<lparr>st_result := (st_result st)\<lparr>ps_lines_scanned := ps_lines_scanned (st_result st) + 1\<rparr>\<rparr>"
  define st1 where "st1 = prescan_timestamp ?p (st0\<lparr>st_result := prescan_shape (pl_grammar ?p) (st_result st0)\<rparr>)"
  define st2 where "st2 = st1\<lparr>st_result := (st_result st1)\<lparr>ps_recognized := count_kind (pl_kind ?p) (ps_recognized (st_result st1))\<rparr>\<rparr>"
  have s: "prescan_step l st = prescan_interface (pl_interface ?p) (pl_can_id ?p) st2"
    unfolding prescan_step_def st0_def [symmetric] st2_def st1_def
    by (subst prescan_parsed_frame [OF True]) (use f in \<open>simp_all add: Let_def\<close>)
  have "table_ok (frames_of ps) st2 = table_ok (frames_of ps) st"
    by (simp add: table_ok_def st2_def st1_def st0_def prescan_timestamp_def prescan_shape_def Let_def split: grammar.split)
  with table_step [of "frames_of ps" st2 "pl_interface ?p" "pl_can_id ?p"] assms(2) True
  have "table_ok (frames_of (ps @ [?p])) (prescan_step l st)" by (simp add: s frames_of_def)
  moreover have "st_track (prescan_step l st) = track_of (ps @ [?p])"
    using f True assms(3)
    by (simp add: s prescan_interface_fields st2_def st1_def st0_def prescan_timestamp_def track_of_def)
  moreover have "counts_ok (ps @ [?p]) (st_result (prescan_step l st))"
  proof -
    have fields: "ps_lines_scanned (st_result st2) = ps_lines_scanned (st_result st) + 1"
      "ps_malformed (st_result st2) = ps_malformed (st_result st)"
      "ps_log_shaped (st_result st2) = ps_log_shaped (st_result st) + (if pl_grammar ?p = GLog then 1 else 0)"
      "ps_screen_shaped (st_result st2) = ps_screen_shaped (st_result st) + (if pl_grammar ?p = GScreen then 1 else 0)"
      "ps_recognized (st_result st2) = count_kind (pl_kind ?p) (ps_recognized (st_result st))"
      by (simp_all add: st2_def st1_def st0_def prescan_timestamp_def prescan_shape_def split: grammar.split)
    from True consider "pl_kind ?p = LkData" | "pl_kind ?p = LkRtr" | "pl_kind ?p = LkFd" | "pl_kind ?p = LkXl" | "pl_kind ?p = LkError"
      by (auto simp: is_frame_kind_def)
    then show ?thesis
      using assms(1) unfolding s counts_ok_def prescan_interface_fields fields
      by cases (simp_all add: count_kind_def kinds_def is_frame_kind_def)
  qed
  ultimately show ?thesis by blast
next
  case False
  with kind_cases consider "pl_kind (parse_line l) = LkMalformed" | "pl_kind (parse_line l) = LkErrorDetail"
    | "pl_kind (parse_line l) = LkWallClockTs" | "pl_kind (parse_line l) = LkDropCount" by blast
  then show ?thesis
    by cases (use assms in \<open>simp_all add: prescan_step_def prescan_parsed_def Let_def counts_ok_def kinds_def
        table_ok_def frames_of_def track_of_def is_frame_kind_def\<close>)
qed

lemma prescan_fold_inv:
  "counts_ok (map parse_line ls) (st_result (fold prescan_step ls prescan_init))
   \<and> table_ok (frames_of (map parse_line ls)) (fold prescan_step ls prescan_init)
   \<and> st_track (fold prescan_step ls prescan_init) = track_of (map parse_line ls)"
proof (induction ls rule: rev_induct)
  case Nil
  show ?case by (simp add: prescan_init_def counts_ok_def kinds_def table_ok_def frames_of_def track_of_def no_recognized_def)
next
  case (snoc l ls)
  then show ?case using prescan_step_inv [of "map parse_line ls" "fold prescan_step ls prescan_init" l] by simp
qed

definition scanned_lines :: "string list \<Rightarrow> nat \<Rightarrow> parsed_line list" where
  "scanned_lines stream max_lines = map parse_line (take max_lines (filter (\<lambda>l. l \<noteq> []) stream))"

lemma prescan_candump_counts:
  "counts_ok (scanned_lines stream m) (prescan_candump stream m)"
  using prescan_fold_inv [of "take m (filter (\<lambda>l. l \<noteq> []) stream)"]
  by (simp add: prescan_candump_def Let_def prescan_loop_fold scanned_lines_def counts_ok_def prescan_init_def)

lemma prescan_candump_table:
  "distinct (map is_interface (ps_interfaces (prescan_candump stream m)))
   \<and> set (map is_interface (ps_interfaces (prescan_candump stream m))) = fst ` set (frames_of (scanned_lines stream m))
   \<and> (\<forall>e \<in> set (ps_interfaces (prescan_candump stream m)).
        is_frames e = count (\<lambda>f. fst f = is_interface e) (frames_of (scanned_lines stream m))
        \<and> is_distinct_ids e = card (snd ` {f \<in> set (frames_of (scanned_lines stream m)). fst f = is_interface e}))"
proof -
  define st where "st = fold prescan_step (take m (filter (\<lambda>l. l \<noteq> []) stream)) prescan_init"
  define ifs where "ifs = ps_interfaces (st_result st)"
  have t: "table_ok (frames_of (scanned_lines stream m)) st"
    using prescan_fold_inv by (simp add: st_def scanned_lines_def)
  have r: "ps_interfaces (prescan_candump stream m) = map2 (\<lambda>e ids. e\<lparr>is_distinct_ids := card ids\<rparr>) ifs (st_id_sets st)"
    by (simp add: prescan_candump_def Let_def prescan_loop_fold st_def ifs_def prescan_init_def)
  have l: "length (st_id_sets st) = length ifs" using t by (simp add: table_ok_def Let_def ifs_def)
  have m: "map is_interface (ps_interfaces (prescan_candump stream m)) = map is_interface ifs"
    unfolding r by (rule nth_equalityI) (use l in auto)
  show ?thesis
    unfolding m
  proof (intro conjI ballI)
    fix e assume "e \<in> set (ps_interfaces (prescan_candump stream m))"
    then obtain i where i: "i < length ifs" "e = (ifs ! i)\<lparr>is_distinct_ids := card (st_id_sets st ! i)\<rparr>"
      unfolding r using l by (auto simp: in_set_conv_nth)
    with t show "is_frames e = count (\<lambda>f. fst f = is_interface e) (frames_of (scanned_lines stream m))"
      "is_distinct_ids e = card (snd ` {f \<in> set (frames_of (scanned_lines stream m)). fst f = is_interface e})"
      by (simp_all add: table_ok_def Let_def ifs_def [symmetric])
  qed (use t in \<open>simp_all add: table_ok_def Let_def ifs_def\<close>)
qed

subsection \<open>The two time-mode scans\<close>

lemma no_paren_no_ts:
  "skip_spaces l = [] \<or> hd (skip_spaces l) \<noteq> CHR ''('' \<Longrightarrow> detect_line l k = k"
  by (auto simp: detect_line_def parse_timestamp_prefix_def parse_ts_token_def no_ts_def Let_def)

lemma go_line:
  assumes p: "parse_common_prefix l new_line = (out, True, s)" and k: "pl_kind (parse_line l) \<noteq> LkMalformed"
    and "\<not> (l \<noteq> [] \<and> hd l = CHR 0x09)" "take (length drop_prefix) l \<noteq> drop_prefix"
  shows "is_frame_kind (pl_kind (parse_line l)) \<and> pl_seconds (parse_line l) = pl_seconds out
    \<and> pl_fraction_ns (parse_line l) = pl_fraction_ns out"
proof -
  note o = common_prefix_ok [OF p]
  let ?scr = "new_line\<lparr>pl_has_timestamp := pl_has_timestamp (parse_log_body s out), pl_seconds := pl_seconds (parse_log_body s out),
      pl_fraction_ns := pl_fraction_ns (parse_log_body s out), pl_interface := pl_interface (parse_log_body s out)\<rparr>"
  have lg: "frame_ok (parse_log_body s out)" "pl_seconds (parse_log_body s out) = pl_seconds out"
    "pl_fraction_ns (parse_log_body s out) = pl_fraction_ns out"
    using log_body_ok [of out s] o by auto
  then have "prefix_ok ?scr" by (simp add: frame_ok_def prefix_ok_def new_line_def)
  then have sc: "frame_ok (parse_screen_body s ?scr)" "pl_seconds (parse_screen_body s ?scr) = pl_seconds out"
    "pl_fraction_ns (parse_screen_body s ?scr) = pl_fraction_ns out"
    using screen_body_ok [of ?scr s] lg by (auto simp: new_line_def)
  have e: "parse_line l = (if pl_kind (parse_log_body s out) \<noteq> LkMalformed then (parse_log_body s out)\<lparr>pl_grammar := GLog\<rparr>
      else if pl_kind (parse_screen_body s ?scr) \<noteq> LkMalformed then (parse_screen_body s ?scr)\<lparr>pl_grammar := GScreen\<rparr>
      else parse_log_body s out)"
    unfolding parse_line_def p Let_def prod.case if_not_P [OF assms(3)] if_not_P [OF assms(4)]
    by (simp only: not_True_eq_False if_False)
  define r where "r = parse_log_body s out"
  define scr where "scr = parse_screen_body s ?scr"
  have "parse_line l = r\<lparr>pl_grammar := GLog\<rparr> \<and> pl_kind r \<noteq> LkMalformed
      \<or> parse_line l = scr\<lparr>pl_grammar := GScreen\<rparr> \<and> pl_kind scr \<noteq> LkMalformed \<or> parse_line l = r \<and> pl_kind r = LkMalformed"
    unfolding e scr_def [symmetric] unfolding r_def [symmetric] by simp
  with k lg [folded r_def] sc [folded scr_def] show ?thesis
    by (elim disjE conjE) (auto simp: frame_ok_def is_frame_kind_def)
qed

lemma timestamp_prefix_frame:
  assumes "pl_kind (parse_line l) \<noteq> LkMalformed"
  shows "detect_line l k = (if is_frame_kind (pl_kind (parse_line l))
     then track (pl_seconds (parse_line l)) (pl_fraction_ns (parse_line l)) k else k)"
proof -
  obtain ts s1 where t: "parse_ts_token (skip_spaces l) = (ts, s1)" by (cases "parse_ts_token (skip_spaces l)")
  obtain iface s2 where n: "next_token s1 = (iface, s2)" by (cases "next_token s1")
  consider "l \<noteq> [] \<and> hd l = CHR 0x09" | "take (length drop_prefix) l = drop_prefix" "\<not> (l \<noteq> [] \<and> hd l = CHR 0x09)"
    | "\<not> (l \<noteq> [] \<and> hd l = CHR 0x09)" "take (length drop_prefix) l \<noteq> drop_prefix" by blast
  then show ?thesis
  proof cases
    case 1
    then have "hd (skip_spaces l) \<noteq> CHR ''(''" "pl_kind (parse_line l) = LkErrorDetail"
      by (cases l; simp add: skip_spaces_def parse_line_def new_line_def)+
    then show ?thesis by (simp add: no_paren_no_ts is_frame_kind_def)
  next
    case 2
    then have "hd l = CHR ''D'' \<and> l \<noteq> []" by (cases l) (auto simp: drop_prefix_def)
    then have "hd (skip_spaces l) \<noteq> CHR ''(''" by (cases l) (auto simp: skip_spaces_def)
    moreover have "pl_kind (parse_line l) = LkDropCount"
      using 2 by (auto simp: parse_line_def parse_drop_count_def Let_def new_line_def split: option.split)
    ultimately show ?thesis by (simp add: no_paren_no_ts is_frame_kind_def)
  next
    case 3
    have pc: "parse_common_prefix l new_line = (if \<not> ts_present ts then (new_line\<lparr>pl_has_timestamp := False, pl_kind := LkMalformed\<rparr>, False, s1)
       else if \<not> ts_numeric ts then (new_line\<lparr>pl_has_timestamp := True, pl_kind := LkWallClockTs\<rparr>, False, s1)
       else if iface = [] then (new_line\<lparr>pl_has_timestamp := True, pl_seconds := ts_secs ts, pl_fraction_ns := ts_frac ts, pl_kind := LkMalformed\<rparr>, False, s2)
       else (new_line\<lparr>pl_has_timestamp := True, pl_seconds := ts_secs ts, pl_fraction_ns := ts_frac ts, pl_interface := iface\<rparr>, True, s2))"
      by (simp add: parse_common_prefix_def t n Let_def)
    have nogo: "parse_common_prefix l new_line = (out, False, s) \<Longrightarrow> parse_line l = out" for out s
      unfolding parse_line_def if_not_P [OF 3(1)] if_not_P [OF 3(2)] by simp
    have "ts_present ts"
    proof (rule ccontr)
      assume "\<not> ts_present ts"
      with pc have "parse_common_prefix l new_line = (new_line\<lparr>pl_has_timestamp := False, pl_kind := LkMalformed\<rparr>, False, s1)" by simp
      from nogo [OF this] assms show False by simp
    qed
    moreover have "iface \<noteq> []" if "ts_numeric ts"
    proof
      assume "iface = []"
      with pc that \<open>ts_present ts\<close> have "parse_common_prefix l new_line = (new_line\<lparr>pl_has_timestamp := True, pl_seconds := ts_secs ts,
          pl_fraction_ns := ts_frac ts, pl_kind := LkMalformed\<rparr>, False, s2)" by simp
      from nogo [OF this] assms show False by simp
    qed
    ultimately consider "ts_present ts" "\<not> ts_numeric ts" | "ts_present ts" "ts_numeric ts" "iface \<noteq> []"
      by blast
    then show ?thesis
    proof cases
      case 1
      with pc nogo have "pl_kind (parse_line l) = LkWallClockTs" by simp
      with 1 t show ?thesis by (simp add: detect_line_def parse_timestamp_prefix_def Let_def is_frame_kind_def)
    next
      case 2
      with pc have "parse_common_prefix l new_line = (new_line\<lparr>pl_has_timestamp := True, pl_seconds := ts_secs ts,
          pl_fraction_ns := ts_frac ts, pl_interface := iface\<rparr>, True, s2)" by simp
      from go_line [OF this assms 3] 2 t show ?thesis
        by (auto simp: detect_line_def parse_timestamp_prefix_def Let_def skip_spaces_def parse_ts_token_def no_ts_def)
    qed
  qed
qed

lemma detect_as_track:
  "\<forall>l \<in> set ls. pl_kind (parse_line l) \<noteq> LkMalformed \<Longrightarrow> fold detect_line ls new_track = track_of (map parse_line ls)"
  by (induction ls rule: rev_induct) (simp_all add: track_of_def timestamp_prefix_frame)

subsection \<open>Properties of the scans\<close>

text \<open>The clock: in absolute and in monotonic mode each line with a numeric timestamp gets its raw
  nanoseconds; in delta mode it gets the saturating sum of all deltas up to it, whatever the kinds of
  the lines between; and with no negative delta the timeline never goes back.\<close>

theorem clock_is_running_sum:
  "(mode \<noteq> TmRelativeDelta \<longrightarrow> fst (clock_run (new_clock mode) ls)
      = map (\<lambda>l. if has_numeric_timestamp l then Some (raw_timestamp_ns l) else None) ls)
   \<and> fst (clock_run (new_clock TmRelativeDelta) ls) = running_sum 0 ls
   \<and> ((\<forall>l \<in> set ls. raw_timestamp_ns l \<ge> 0) \<longrightarrow>
        sorted (map the (filter (\<lambda>x. x \<noteq> None) (fst (clock_run (new_clock TmRelativeDelta) ls)))))"
  using clock_run_plain [of mode 0 ls] clock_run_delta [of 0 ls] running_sum_sorted [of ls 0]
  by (simp add: new_clock_def)

definition example_delta :: "int \<Rightarrow> parsed_line" where
  "example_delta s = new_line\<lparr>pl_kind := LkRtr, pl_has_timestamp := True, pl_seconds := s\<rparr>"

theorem clock_is_running_sum_witness:
  "fst (clock_run (new_clock TmAbsolute) [example_delta 2, new_line]) = [Some 2000000000, None]
   \<and> sorted (map the (filter (\<lambda>x. x \<noteq> None) (fst (clock_run (new_clock TmRelativeDelta) [example_delta 2, example_delta 9000000000]))))"
proof
  have r: "raw_timestamp_ns (example_delta 2) = 2000000000" "raw_timestamp_ns (example_delta 9000000000) = 9000000000000000000"
    by (simp_all add: raw_timestamp_ns_def example_delta_def combine_raw_ns_def new_line_def wrap64_def cdiv_def)
  show "fst (clock_run (new_clock TmAbsolute) [example_delta 2, new_line]) = [Some 2000000000, None]"
    using clock_is_running_sum [of TmAbsolute "[example_delta 2, new_line]"] r(1)
    by (simp add: has_numeric_timestamp_def example_delta_def new_line_def)
  show "sorted (map the (filter (\<lambda>x. x \<noteq> None) (fst (clock_run (new_clock TmRelativeDelta) [example_delta 2, example_delta 9000000000]))))"
    by (rule clock_is_running_sum [of TmAbsolute, THEN conjunct2, THEN conjunct2, THEN mp]) (simp add: r)
qed

lemma kinds_total:
  "\<forall>p \<in> set ps. is_frame_kind (pl_kind p) \<longrightarrow> pl_grammar p \<in> {GLog, GScreen} \<Longrightarrow>
   length ps = kinds LkMalformed ps + kinds LkErrorDetail ps + kinds LkWallClockTs ps + kinds LkDropCount ps
     + count (\<lambda>p. is_frame_kind (pl_kind p) \<and> pl_grammar p = GLog) ps
     + count (\<lambda>p. is_frame_kind (pl_kind p) \<and> pl_grammar p = GScreen) ps
   \<and> count (\<lambda>p. is_frame_kind (pl_kind p) \<and> pl_grammar p = GLog) ps
     + count (\<lambda>p. is_frame_kind (pl_kind p) \<and> pl_grammar p = GScreen) ps
     = kinds LkData ps + kinds LkRtr ps + kinds LkFd ps + kinds LkXl ps + kinds LkError ps"
proof (induction ps rule: rev_induct)
  case (snoc p ps)
  then have IH: "length ps = kinds LkMalformed ps + kinds LkErrorDetail ps + kinds LkWallClockTs ps + kinds LkDropCount ps
     + count (\<lambda>p. is_frame_kind (pl_kind p) \<and> pl_grammar p = GLog) ps
     + count (\<lambda>p. is_frame_kind (pl_kind p) \<and> pl_grammar p = GScreen) ps"
    "count (\<lambda>p. is_frame_kind (pl_kind p) \<and> pl_grammar p = GLog) ps
     + count (\<lambda>p. is_frame_kind (pl_kind p) \<and> pl_grammar p = GScreen) ps
     = kinds LkData ps + kinds LkRtr ps + kinds LkFd ps + kinds LkXl ps + kinds LkError ps" by auto
  have g: "is_frame_kind (pl_kind p) \<Longrightarrow> pl_grammar p = GLog \<or> pl_grammar p = GScreen" using snoc.prems by auto
  show ?case
    using IH g unfolding kinds_def is_frame_kind_def by (cases "pl_kind p") auto
qed (simp add: kinds_def)

text \<open>The prescan loses no line: the lines it counted are the first non-blank ones up to the cap, and
  they are exactly the malformed, error-detail, wall-clock, drop-count, log-shaped and screen-shaped
  ones; the log- and screen-shaped ones are exactly the data, RTR, FD, XL and error frames; and the
  total of dropped frames is the sum over the drop-count lines.\<close>

theorem prescan_partitions_lines:
  "let r = prescan_candump stream m; c = ps_recognized r; ps = scanned_lines stream m in
   ps_lines_scanned r = length ps \<and> length ps \<le> m
   \<and> ps_lines_scanned r = ps_malformed r + rc_error_detail c + rc_wall_clock c + rc_dropcount c
       + ps_log_shaped r + ps_screen_shaped r
   \<and> ps_log_shaped r + ps_screen_shaped r = kinds LkData ps + unsupported c
   \<and> rc_dropped_total c = sum_list (map pl_dropped (filter (\<lambda>p. pl_kind p = LkDropCount) ps))"
proof -
  have "\<forall>p \<in> set (scanned_lines stream m). is_frame_kind (pl_kind p) \<longrightarrow> pl_grammar p \<in> {GLog, GScreen}"
    using parse_line_frame by (auto simp: scanned_lines_def)
  note k = kinds_total [OF this]
  have le: "length (scanned_lines stream m) \<le> m" by (simp add: scanned_lines_def)
  show ?thesis
    unfolding Let_def
    using le k prescan_candump_counts [of stream m] unfolding counts_ok_def unsupported_def by linarith
qed

text \<open>The prescan's interface table is exact: it has one entry per interface on which a frame was
  seen, with the number of frames on that interface and the number of distinct ids among them.\<close>

theorem prescan_table_exact:
  "let ifs = ps_interfaces (prescan_candump stream m); fs = frames_of (scanned_lines stream m) in
   distinct (map is_interface ifs) \<and> set (map is_interface ifs) = fst ` set fs
   \<and> (\<forall>e \<in> set ifs. is_frames e = length (filter (\<lambda>f. fst f = is_interface e) fs)
        \<and> is_distinct_ids e = card (snd ` {f \<in> set fs. fst f = is_interface e}))"
  using prescan_candump_table [of stream m] by (simp add: Let_def count_def)

theorem prescan_table_exact_witness:
  "is_frames ` set (ps_interfaces (prescan_candump [print_log 1 2 ''can0'' False 0x123 [1] None] 10)) \<subseteq> {1}"
proof -
  define s where "s = print_log 1 2 ''can0'' False 0x123 [1] None"
  have "id_fits False 0x123" by (simp add: id_fits_def)
  from parse_print_log [of 1 2 "''can0''" False "0x123" "[1]" None, OF _ _ _ _ this]
  have p: "parse_line s = data_line GLog 1 2 ''can0'' False 0x123 [1] None"
    by (simp add: s_def)
  have "s \<noteq> []" by (simp add: s_def print_log_def print_prefix_def)
  with p have f: "frames_of (scanned_lines [s] 10) = [(''can0'', 0x123)]"
    by (simp add: scanned_lines_def frames_of_def is_frame_kind_def data_line_def new_line_def)
  show ?thesis
    unfolding s_def [symmetric]
  proof (rule image_subsetI)
    fix e assume e: "e \<in> set (ps_interfaces (prescan_candump [s] 10))"
    note t = prescan_table_exact [of "[s]" 10, unfolded Let_def f]
    have c: "is_frames e = length (filter (\<lambda>f. fst f = is_interface e) [(''can0'', 0x123 :: 32 word)])"
      using t [THEN conjunct2, THEN conjunct2, rule_format, OF e] by (rule conjunct1)
    have "is_interface e \<in> set (map is_interface (ps_interfaces (prescan_candump [s] 10)))" using e by simp
    then have n: "is_interface e \<in> fst ` set [(''can0'', 0x123 :: 32 word)]"
      using t [THEN conjunct2, THEN conjunct1] by simp
    from n have "is_interface e = ''can0''" by simp
    with c show "is_frames e \<in> {1}" by simp
  qed
qed

text \<open>The preview and the import agree on the time mode: on a capture within the cap whose lines are
  all recognised, the prescan's decision is the one of \<open>detectTimeMode\<close>.\<close>

theorem prescan_mode_is_detected_mode:
  assumes "length stream \<le> m" "\<forall>l \<in> set stream. l \<noteq> [] \<longrightarrow> pl_kind (parse_line l) \<noteq> LkMalformed"
  shows "ps_time_mode (prescan_candump stream m) = detect_time_mode stream m"
proof -
  let ?ls = "filter (\<lambda>l. l \<noteq> []) stream"
  have blank: "fold detect_line ls k = fold detect_line (filter (\<lambda>l. l \<noteq> []) ls) k" for ls k
    by (induction ls arbitrary: k) (auto simp: detect_line_def)
  have t: "take m ?ls = ?ls" using assms(1) le_trans [OF length_filter_le] by simp
  have "st_track (fold prescan_step ?ls prescan_init) = track_of (map parse_line ?ls)"
    using prescan_fold_inv by blast
  also have "\<dots> = fold detect_line stream new_track"
    using assms(2) by (subst detect_as_track [symmetric]) (auto simp: blank [symmetric])
  finally show ?thesis
    using assms(1) t by (simp add: prescan_candump_def Let_def prescan_loop_fold detect_time_mode_def prescan_init_def)
qed

theorem prescan_mode_is_detected_mode_witness:
  "ps_time_mode (prescan_candump [''DROPCOUNT: x''] 5) = detect_time_mode [''DROPCOUNT: x''] 5"
proof (rule prescan_mode_is_detected_mode)
  show "\<forall>l \<in> set [''DROPCOUNT: x'']. l \<noteq> [] \<longrightarrow> pl_kind (parse_line l) \<noteq> LkMalformed"
    by (simp add: parse_line_def drop_prefix_def parse_drop_count_def Let_def new_line_def split: option.split)
qed simp

text \<open>Where a line with a numeric timestamp has an unparsable body the two scans differ: the prescan
  skips it, \<open>detectTimeMode\<close> does not, so the capture's mode depends on which one is asked.\<close>

theorem prescan_mode_differs_on_malformed:
  "let stream = [''(9) can0 zz'', ''(1) can0 123#11''] in
   td_mode (ps_time_mode (prescan_candump stream 10)) = TmRelativeMonotonic
   \<and> td_mode (detect_time_mode stream 10) = TmRelativeDelta"
  by code_simp

end
