(* ===== verification/CanDecode.thy ===== *)
theory CanDecode
  imports Prelude "HOL-Library.Word" "HOL-Library.Multiset"
begin

unbundle bit_operations_syntax

section \<open>CAN dictionaries (common/can_dbc)\<close>

text \<open>
  \<open>CanDecoder\<close> (can_decoder.cpp), the topic names (can_topic.cpp) and the row builder
  (signal_row.cpp). The DBC parser (dbc_parser_cpp) is outside the repository: \<open>dbc_signal\<close> and
  \<open>dbc_message\<close> are its types as this code reads them, \<open>dm_parse\<close> its \<open>parse_signals\<close>, and the
  parameter \<open>parse_dbc\<close> its \<open>parse_file\<close>. Physical values are of a type 'd; \<open>dbl_zero\<close> is
  \<open>factor == 0.0\<close> and \<open>dbl_raw v off fac\<close> is \<open>std::llround((v - off) / fac)\<close>. Facts shown: a value
  table keeps the first text of each normalised key, and the binary search on it is that lookup;
  label names never collide, so a row has no two fields of one name; an id resolves to a message of
  that id under the extended-frame rules; every frame is matched, decoded or refused exactly as
  documented.
\<close>

record 'd dbc_signal =
  ds_name :: string
  ds_unit :: string
  ds_factor :: 'd
  ds_offset :: 'd
  ds_signed :: bool
  ds_size :: "32 word"
  ds_start_bit :: "32 word"
  ds_values :: "(32 word \<times> string) list"

record 'd dbc_message =
  dm_id :: "32 word"
  dm_name :: string
  dm_size :: nat
  dm_signals :: "'d dbc_signal list"
  dm_parse :: "8 word list \<Rightarrow> 'd list option"

subsection \<open>Value tables\<close>

definition normalize_value_key :: "32 word \<Rightarrow> bool \<Rightarrow> 32 word \<Rightarrow> int" where
  "normalize_value_key raw_key is_signed bits =
     (if \<not> is_signed then uint raw_key
      else let key = sint raw_key in
        if bits < 32
        then let width = 2 ^ unat bits; half = 2 ^ (unat bits - 1) in
             if key \<ge> half \<and> key < width then key - width else key
        else key)"

definition extended_flag :: "32 word" where "extended_flag = 0x80000000"
definition max_standard_id :: "32 word" where "max_standard_id = 0x7FF"
definition max_signal_bits :: "32 word" where "max_signal_bits = 64"

definition signal_layout_in_range :: "'d dbc_signal \<Rightarrow> bool" where
  "signal_layout_in_range sig \<longleftrightarrow>
     ds_size sig \<ge> 1 \<and> ds_size sig \<le> max_signal_bits \<and> ds_start_bit sig < max_signal_bits"

definition message_layout_in_range :: "'d dbc_message \<Rightarrow> bool" where
  "message_layout_in_range msg \<longleftrightarrow> list_all signal_layout_in_range (dm_signals msg)"

record 'd signal_meta =
  sm_name :: string
  sm_unit :: string
  sm_factor :: 'd
  sm_offset :: 'd
  sm_labels :: "(int \<times> string) list"
  sm_label_name :: string

text \<open>\<open>std::unique\<close> on the keys: the first of each run of equal keys.\<close>

fun unique_keys :: "(int \<times> string) list \<Rightarrow> (int \<times> string) list" where
  "unique_keys [] = []"
| "unique_keys [a] = [a]"
| "unique_keys (a # b # xs) = (if fst a = fst b then unique_keys (a # xs) else a # unique_keys (b # xs))"

definition build_labels :: "('d \<Rightarrow> bool) \<Rightarrow> 'd dbc_signal \<Rightarrow> (int \<times> string) list" where
  "build_labels dbl_zero sig =
     (if dbl_zero (ds_factor sig) \<or> ds_values sig = [] then []
      else unique_keys (sort_key fst
        (map (\<lambda>(v, txt). (normalize_value_key v (ds_signed sig) (ds_size sig), txt)) (ds_values sig))))"

subsection \<open>Label names\<close>

definition label_candidate :: "string \<Rightarrow> nat \<Rightarrow> string" where
  "label_candidate base n = base @ ''_'' @ nat_text n"

lemma label_candidate_inj: "label_candidate base m = label_candidate base n \<longleftrightarrow> m = n"
  by (simp add: label_candidate_def nat_text_inj)

lemma finite_candidates: "finite {k. n \<le> k \<and> label_candidate base k \<in> set taken}"
proof -
  have "finite (label_candidate base -` set taken)"
    by (rule finite_vimageI) (auto simp: inj_def label_candidate_inj)
  then show ?thesis by (rule rev_finite_subset) auto
qed

function next_free :: "string list \<Rightarrow> string \<Rightarrow> nat \<Rightarrow> string" where
  "next_free taken base n =
     (if label_candidate base n \<in> set taken then next_free taken base (n + 1) else label_candidate base n)"
  by pat_completeness auto
termination
proof (relation "measure (\<lambda>(taken, base, n). card {k. n \<le> k \<and> label_candidate base k \<in> set taken})")
  fix taken base n
  assume a: "label_candidate base n \<in> set taken"
  let ?s = "{k. n \<le> k \<and> label_candidate base k \<in> set taken}"
  have "{k. n + 1 \<le> k \<and> label_candidate base k \<in> set taken} \<subset> ?s"
  proof (rule psubsetI)
    have "n \<in> ?s" "n \<notin> {k. n + 1 \<le> k \<and> label_candidate base k \<in> set taken}" using a by auto
    then show "{k. n + 1 \<le> k \<and> label_candidate base k \<in> set taken} \<noteq> ?s" by blast
  qed auto
  then show "((taken, base, n + 1), taken, base, n)
      \<in> measure (\<lambda>(taken, base, n). card {k. n \<le> k \<and> label_candidate base k \<in> set taken})"
    by (simp add: psubset_card_mono [OF finite_candidates])
qed auto

declare next_free.simps [simp del]

definition free_label :: "string list \<Rightarrow> string \<Rightarrow> string" where
  "free_label taken base = (if base \<in> set taken then next_free taken base 2 else base)"

fun name_labels :: "string list \<Rightarrow> 'd signal_meta list \<Rightarrow> 'd signal_meta list" where
  "name_labels taken [] = []"
| "name_labels taken (sm # sms) =
     (if sm_labels sm = [] then sm # name_labels taken sms
      else let candidate = free_label taken (sm_name sm @ ''_label'') in
           sm\<lparr>sm_label_name := candidate\<rparr> # name_labels (candidate # taken) sms)"

definition assign_label_names :: "'d signal_meta list \<Rightarrow> 'd signal_meta list" where
  "assign_label_names metas =
     (if list_all (\<lambda>sm. sm_labels sm = []) metas then metas
      else name_labels (map sm_name metas) metas)"

subsection \<open>The decoder\<close>

record 'd message_entry =
  me_message :: "'d dbc_message"
  me_signals :: "'d signal_meta list"

record 'd can_decoder =
  cd_messages :: "'d message_entry list"
  cd_index :: "32 word \<Rightarrow> nat option"

definition new_decoder :: "'d can_decoder" where
  "new_decoder = \<lparr>cd_messages = [], cd_index = (\<lambda>k. None)\<rparr>"

definition signal_meta_of :: "('d \<Rightarrow> bool) \<Rightarrow> 'd dbc_signal \<Rightarrow> 'd signal_meta" where
  "signal_meta_of dbl_zero sig =
     \<lparr>sm_name = ds_name sig, sm_unit = ds_unit sig, sm_factor = ds_factor sig, sm_offset = ds_offset sig,
      sm_labels = build_labels dbl_zero sig, sm_label_name = []\<rparr>"

definition add_message :: "('d \<Rightarrow> bool) \<Rightarrow> 'd dbc_message \<Rightarrow> 'd can_decoder \<Rightarrow> 'd can_decoder" where
  "add_message dbl_zero msg d =
     (if \<not> message_layout_in_range msg then d
      else \<lparr>cd_messages = cd_messages d @ [\<lparr>me_message = msg,
               me_signals = assign_label_names (map (signal_meta_of dbl_zero) (dm_signals msg))\<rparr>],
            cd_index = (cd_index d)(dm_id msg \<mapsto> length (cd_messages d))\<rparr>)"

definition add_from :: "('d \<Rightarrow> bool) \<Rightarrow> 'd dbc_message list \<Rightarrow> 'd can_decoder \<Rightarrow> 'd can_decoder" where
  "add_from dbl_zero msgs d = fold (add_message dbl_zero) msgs d"

definition find_message :: "'d can_decoder \<Rightarrow> 32 word \<Rightarrow> bool \<Rightarrow> 'd message_entry option" where
  "find_message d can_id extended =
     (let resolve = map_option (\<lambda>i. cd_messages d ! i) in
      if extended
      then (let it = cd_index d (can_id OR extended_flag) in
            resolve (if it = None \<and> can_id > max_standard_id then cd_index d can_id else it))
      else resolve (cd_index d can_id))"

text \<open>Loading: the state after, and the error message if it fails.\<close>

definition load_dbc_string ::
  "('d \<Rightarrow> bool) \<Rightarrow> (string \<Rightarrow> string + 'd dbc_message list) \<Rightarrow> string \<Rightarrow> 'd can_decoder \<Rightarrow> string option \<times> 'd can_decoder" where
  "load_dbc_string dbl_zero parse_dbc dbc_text d =
     (case parse_dbc dbc_text of
        Inl what \<Rightarrow> (Some (''can_dbc: DBC parse error: '' @ what), d)
      | Inr msgs \<Rightarrow> (None, add_from dbl_zero msgs d))"

datatype file_content = FileMissing | FileUnreadable | FileText string

text \<open>\<open>readAuxFile\<close> (dictionary_paths.cpp); \<open>fs\<close> is the file system.\<close>

definition read_aux_file :: "(string \<Rightarrow> file_content) \<Rightarrow> string \<Rightarrow> string \<Rightarrow> string + string" where
  "read_aux_file fs path kind =
     (case fs path of
        FileMissing \<Rightarrow> Inl (kind @ '' file not found: '' @ path)
      | FileUnreadable \<Rightarrow> Inl (''cannot read '' @ kind @ '' file: '' @ path)
      | FileText txt \<Rightarrow> Inr txt)"

text \<open>The text from the last dot on; empty without a dot.\<close>

definition last_dot_suffix :: "string \<Rightarrow> string" where
  "last_dot_suffix path =
     (if CHR ''.'' \<in> set path then CHR ''.'' # rev (takeWhile (\<lambda>c. c \<noteq> CHR ''.'') (rev path)) else [])"

definition load_dbc_file ::
  "('d \<Rightarrow> bool) \<Rightarrow> (string \<Rightarrow> string + 'd dbc_message list) \<Rightarrow> (string \<Rightarrow> string \<Rightarrow> string) \<Rightarrow> (string \<Rightarrow> file_content) \<Rightarrow>
   string \<Rightarrow> 'd can_decoder \<Rightarrow> string option \<times> 'd can_decoder" where
  "load_dbc_file dbl_zero parse_dbc non_dbc_error fs path d =
     (if last_dot_suffix path \<noteq> ''.dbc''
      then (Some (''can_dbc: DBC parse error ('' @ path @ ''): '' @ non_dbc_error path (last_dot_suffix path)), d)
      else (case read_aux_file fs path ''DBC'' of
              Inl err \<Rightarrow> (Some err, d)
            | Inr txt \<Rightarrow>
                (case parse_dbc txt of
                   Inl what \<Rightarrow> (Some (''can_dbc: DBC parse error ('' @ path @ ''): '' @ what), d)
                 | Inr msgs \<Rightarrow> (None, add_from dbl_zero msgs d))))"

definition message_count :: "'d can_decoder \<Rightarrow> nat" where
  "message_count d = length (cd_messages d)"

definition value_table_count :: "'d can_decoder \<Rightarrow> nat" where
  "value_table_count d =
     sum_list (map (\<lambda>e. length (filter (\<lambda>s. sm_labels s \<noteq> []) (me_signals e))) (cd_messages d))"

definition message_name :: "'d can_decoder \<Rightarrow> 32 word \<Rightarrow> bool \<Rightarrow> string" where
  "message_name d can_id extended =
     (case find_message d can_id extended of None \<Rightarrow> [] | Some e \<Rightarrow> dm_name (me_message e))"

record 'd decoded_signal =
  dg_name :: string
  dg_value :: 'd
  dg_unit :: string
  dg_label_name :: string
  dg_raw :: "int option"
  dg_label :: "string option"

datatype decode_result = NoMatch | Decoded | Undecodable

text \<open>\<open>std::lower_bound\<close> on the sorted table, then the equality test.\<close>

definition label_of :: "(int \<times> string) list \<Rightarrow> int \<Rightarrow> string option" where
  "label_of labels raw =
     (case dropWhile (\<lambda>e. fst e < raw) labels of
        [] \<Rightarrow> None
      | e # _ \<Rightarrow> if fst e = raw then Some (snd e) else None)"

definition decode_signal :: "('d \<Rightarrow> 'd \<Rightarrow> 'd \<Rightarrow> int) \<Rightarrow> 'd signal_meta \<Rightarrow> 'd \<Rightarrow> 'd decoded_signal" where
  "decode_signal dbl_raw sm v =
     (if sm_labels sm = []
      then \<lparr>dg_name = sm_name sm, dg_value = v, dg_unit = sm_unit sm, dg_label_name = [], dg_raw = None, dg_label = None\<rparr>
      else let raw = dbl_raw v (sm_offset sm) (sm_factor sm) in
        \<lparr>dg_name = sm_name sm, dg_value = v, dg_unit = sm_unit sm, dg_label_name = sm_label_name sm,
         dg_raw = Some raw, dg_label = label_of (sm_labels sm) raw\<rparr>)"

definition decode ::
  "('d \<Rightarrow> 'd \<Rightarrow> 'd \<Rightarrow> int) \<Rightarrow> 'd can_decoder \<Rightarrow> 32 word \<Rightarrow> bool \<Rightarrow> 8 word list \<Rightarrow> decode_result \<times> 'd decoded_signal list" where
  "decode dbl_raw d can_id extended bytes =
     (case find_message d can_id extended of
        None \<Rightarrow> (NoMatch, [])
      | Some e \<Rightarrow>
          if length bytes < dm_size (me_message e) then (Undecodable, [])
          else (case dm_parse (me_message e) bytes of
                  None \<Rightarrow> (Undecodable, [])
                | Some values \<Rightarrow> (Decoded, map2 (decode_signal dbl_raw) (me_signals e) values)))"

subsection \<open>Topic names and rows\<close>

fun hex_nibbles :: "nat \<Rightarrow> 32 word \<Rightarrow> bool \<Rightarrow> string" where
  "hex_nibbles 0 i started = []"
| "hex_nibbles (Suc k) i started =
     (let nibble = unat (drop_bit (4 * k) i AND 0xF) in
      if nibble \<noteq> 0 \<or> started \<or> k = 0
      then ''0123456789ABCDEF'' ! nibble # hex_nibbles k i True
      else hex_nibbles k i started)"

text \<open>\<open>shift\<close> runs 28, 24, ..., 0: the nibbles 7, 6, ..., 0.\<close>

definition hex_id :: "32 word \<Rightarrow> string" where
  "hex_id i = ''0x'' @ hex_nibbles 8 i False"

definition can_topic_name :: "string \<Rightarrow> string \<Rightarrow> 32 word \<Rightarrow> string" where
  "can_topic_name bus name can_id =
     ''CAN/'' @ (if bus \<noteq> [] then bus @ ''/'' else []) @ (if name = [] then hex_id can_id else name)"

definition can_channel_topic_name :: "16 word \<Rightarrow> string \<Rightarrow> 32 word \<Rightarrow> string" where
  "can_channel_topic_name chan name can_id =
     can_topic_name (if chan = 0 then [] else ''ch'' @ nat_text (unat chan)) name can_id"

datatype 'd field_value = FDouble 'd | FText string | FInt int

type_synonym 'd row = "(string \<times> 'd field_value) list"

definition signal_fields :: "'d decoded_signal \<Rightarrow> 'd row" where
  "signal_fields sig =
     (dg_name sig, FDouble (dg_value sig)) #
     (case dg_raw sig of
        None \<Rightarrow> []
      | Some raw \<Rightarrow>
          [(dg_label_name sig, FText (case dg_label sig of Some txt \<Rightarrow> txt | None \<Rightarrow> int_text raw))])"

definition build_row :: "'d decoded_signal list \<Rightarrow> 'd row" where
  "build_row sigs = concat (map signal_fields sigs)"

subsection \<open>Value tables are first-wins maps\<close>

lemma unique_keys_map_of: "map_of (unique_keys xs) k = map_of xs k"
  by (induction xs rule: unique_keys.induct) auto

lemma unique_keys_set: "fst ` set (unique_keys xs) = fst ` set xs"
  by (induction xs rule: unique_keys.induct) auto

lemma unique_keys_sorted:
  "sorted (map fst xs) \<Longrightarrow> sorted_wrt (<) (map fst (unique_keys xs))"
proof (induction xs rule: unique_keys.induct)
  case (3 a b xs)
  show ?case
  proof (cases "fst a = fst b")
    case False
    have "\<forall>y \<in> fst ` set (unique_keys (b # xs)). fst a < y"
      using 3(3) False unfolding unique_keys_set by force
    with 3(2) 3(3) False show ?thesis by auto
  qed (use 3 in auto)
qed auto

lemma map_of_filter_key: "map_of xs k = map_of (filter (\<lambda>e. fst e = k) xs) k"
  by (induction xs) auto

lemma map_of_sort_key: "map_of (sort_key fst xs) k = map_of xs k"
proof -
  have "filter (\<lambda>e. fst e = k) (sort_key fst xs) = filter (\<lambda>e. fst e = k) xs"
    using sort_key_stable [of fst k xs] by simp
  then show ?thesis by (metis map_of_filter_key)
qed

lemma build_labels_map:
  "\<not> dbl_zero (ds_factor sig) \<Longrightarrow> map_of (build_labels dbl_zero sig) k =
     map_of (map (\<lambda>(v, txt). (normalize_value_key v (ds_signed sig) (ds_size sig), txt)) (ds_values sig)) k"
  by (simp add: build_labels_def unique_keys_map_of map_of_sort_key)

lemma build_labels_sorted: "sorted_wrt (<) (map fst (build_labels dbl_zero sig))"
  by (simp add: build_labels_def unique_keys_sorted)

lemma label_of_map: "sorted_wrt (<) (map fst labels) \<Longrightarrow> label_of labels k = map_of labels k"
proof (induction labels)
  case (Cons e labels)
  consider "fst e < k" | "fst e = k" | "k < fst e" by linarith
  then show ?case
  proof cases
    case 3
    with Cons.prems have "k \<notin> fst ` set labels" by auto
    then have "map_of labels k = None" by (simp add: map_of_eq_None_iff)
    with 3 show ?thesis by (cases e) (simp add: label_of_def)
  qed (use Cons in \<open>cases e; simp add: label_of_def\<close>)+
qed (simp add: label_of_def)

text \<open>Signed keys: both spellings of a negative value give that value.\<close>

lemma normalize_signed_spellings:
  assumes "0 < b" "b < 32" "- (2 ^ (b - 1)) \<le> i" "i < 2 ^ (b - 1)"
  shows "normalize_value_key (word_of_int i) True (of_nat b) = i"
    and "normalize_value_key (word_of_int (i mod 2 ^ b)) True (of_nat b) = i"
proof -
  have ub: "unat (of_nat b :: 32 word) = b" using assms(2) by (simp add: unat_of_nat take_bit_nat_eq_self_iff)
  have lb: "(of_nat b :: 32 word) < 32" using assms(2) by (simp add: word_less_nat_alt ub)
  have half: "(2::int) ^ b = 2 * 2 ^ (b - 1)" using assms(1) by (cases b) auto
  have pow: "(2::int) ^ (b - 1) \<le> 2 ^ 30" using assms(2) by (intro power_increasing) auto
  have s: "sint (word_of_int j :: 32 word) = j" if "- (2 ^ 31) \<le> j" "j < 2 ^ 31" for j
    using that by (simp add: signed_of_int signed_take_bit_int_eq_self)
  have si: "sint (word_of_int i :: 32 word) = i" using assms pow by (intro s) auto
  show "normalize_value_key (word_of_int i) True (of_nat b) = i"
    using assms lb si by (simp add: normalize_value_key_def ub Let_def)
  have m: "i mod 2 ^ b = (if i < 0 then i + 2 ^ b else i)"
  proof (cases "i < 0")
    case True
    have "(i + 2 ^ b) mod 2 ^ b = i + 2 ^ b" using True assms half by (intro mod_pos_pos_trivial) auto
    with True show ?thesis by simp
  next
    case False
    have "i mod 2 ^ b = i" using False assms half by (intro mod_pos_pos_trivial) auto
    with False show ?thesis by simp
  qed
  have sm: "sint (word_of_int (i mod 2 ^ b) :: 32 word) = i mod 2 ^ b"
    using assms pow half m by (intro s) auto
  show "normalize_value_key (word_of_int (i mod 2 ^ b)) True (of_nat b) = i"
    unfolding normalize_value_key_def ub Let_def sm using assms lb half m by simp
qed

subsection \<open>Label names are free\<close>

lemma next_free_fresh: "next_free taken base n \<notin> set taken"
proof (induction taken base n rule: next_free.induct)
  case (1 taken base n)
  then show ?case by (subst next_free.simps) auto
qed

lemma free_label_fresh: "free_label taken base \<notin> set taken"
  by (simp add: free_label_def next_free_fresh)

lemma name_labels_names [simp]: "map sm_name (name_labels taken sms) = map sm_name sms"
  by (induction taken sms rule: name_labels.induct) (auto simp: Let_def)

lemma name_labels_labels [simp]: "map sm_labels (name_labels taken sms) = map sm_labels sms"
  by (induction taken sms rule: name_labels.induct) (auto simp: Let_def)

abbreviation label_names :: "'d signal_meta list \<Rightarrow> string list" where
  "label_names sms \<equiv> map sm_label_name (filter (\<lambda>s. sm_labels s \<noteq> []) sms)"

lemma name_labels_fresh:
  "distinct (label_names (name_labels taken sms)) \<and> set (label_names (name_labels taken sms)) \<inter> set taken = {}"
proof (induction taken sms rule: name_labels.induct)
  case (2 taken sm sms)
  show ?case
  proof (cases "sm_labels sm = []")
    case False
    let ?c = "free_label taken (sm_name sm @ ''_label'')"
    have "distinct (label_names (name_labels (?c # taken) sms))
        \<and> set (label_names (name_labels (?c # taken) sms)) \<inter> set (?c # taken) = {}"
      using 2(2) False by blast
    with False free_label_fresh [of taken "sm_name sm @ ''_label''"] show ?thesis by (auto simp: Let_def)
  qed (use 2(1) in simp)
qed simp

lemma assign_label_names_fresh:
  "distinct (label_names (assign_label_names sms))
     \<and> set (label_names (assign_label_names sms)) \<inter> set (map sm_name sms) = {}"
proof (cases "list_all (\<lambda>sm. sm_labels sm = []) sms")
  case True
  then have "filter (\<lambda>s. sm_labels s \<noteq> []) sms = []" by (simp add: list_all_iff filter_empty_conv)
  with True show ?thesis by (simp add: assign_label_names_def)
qed (simp add: assign_label_names_def name_labels_fresh del: set_map)

lemma assign_label_names_keeps [simp]:
  "map sm_name (assign_label_names sms) = map sm_name sms"
  "map sm_labels (assign_label_names sms) = map sm_labels sms"
  by (simp_all add: assign_label_names_def)

lemma assign_label_names_length [simp]: "length (assign_label_names sms) = length sms"
  by (metis assign_label_names_keeps(1) length_map)

subsection \<open>Rows\<close>

lemma signal_fields_names:
  "map fst (signal_fields (decode_signal dbl_raw sm v))
     = sm_name sm # (if sm_labels sm = [] then [] else [sm_label_name sm])"
  by (simp add: signal_fields_def decode_signal_def Let_def)

abbreviation field_names :: "'d signal_meta list \<Rightarrow> string list" where
  "field_names sms \<equiv> concat (map (\<lambda>sm. sm_name sm # (if sm_labels sm = [] then [] else [sm_label_name sm])) sms)"

lemma build_row_names:
  "map fst (build_row (map2 (decode_signal dbl_raw) sms vs)) = field_names (take (length vs) sms)"
proof (induction sms arbitrary: vs)
  case (Cons sm sms)
  then show ?case by (cases vs) (auto simp: build_row_def signal_fields_names simp del: map_map)
qed (simp add: build_row_def)

lemma field_names_mset: "mset (field_names sms) = mset (map sm_name sms @ label_names sms)"
  by (induction sms) auto

lemma field_names_distinct:
  assumes "distinct (map sm_name sms)"
  shows "distinct (field_names (assign_label_names sms))"
proof -
  have "distinct (map sm_name (assign_label_names sms) @ label_names (assign_label_names sms))"
    using assms assign_label_names_fresh [of sms] by (simp only: distinct_append assign_label_names_keeps) blast
  then show ?thesis using mset_eq_imp_distinct_iff [OF field_names_mset [of "assign_label_names sms"]] by blast
qed

lemma field_names_take: "distinct (field_names sms) \<Longrightarrow> distinct (field_names (take n sms))"
  using arg_cong [OF append_take_drop_id [of n sms], of field_names]
  by (metis (no_types, lifting) concat_append distinct_append map_append)

subsection \<open>The loaded dictionary\<close>

definition loaded_entry :: "('d \<Rightarrow> bool) \<Rightarrow> 'd dbc_message \<Rightarrow> 'd message_entry" where
  "loaded_entry dbl_zero msg =
     \<lparr>me_message = msg, me_signals = assign_label_names (map (signal_meta_of dbl_zero) (dm_signals msg))\<rparr>"

text \<open>The specification of the index: the last usable message of an id.\<close>

definition last_message :: "'d dbc_message list \<Rightarrow> 32 word \<Rightarrow> 'd dbc_message option" where
  "last_message msgs i = find (\<lambda>m. dm_id m = i) (rev (filter message_layout_in_range msgs))"

lemma add_from_messages:
  "cd_messages (add_from dbl_zero msgs d)
     = cd_messages d @ map (loaded_entry dbl_zero) (filter message_layout_in_range msgs)"
  by (induction msgs arbitrary: d) (auto simp: add_from_def add_message_def loaded_entry_def)

lemma add_from_snoc: "add_from dbl_zero (msgs @ [m]) d = add_message dbl_zero m (add_from dbl_zero msgs d)"
  by (simp add: add_from_def)

lemma index_entry:
  "map_option (\<lambda>i. cd_messages (add_from dbl_zero msgs new_decoder) ! i) (cd_index (add_from dbl_zero msgs new_decoder) k)
     = map_option (loaded_entry dbl_zero) (last_message msgs k)
   \<and> (\<forall>i. cd_index (add_from dbl_zero msgs new_decoder) k = Some i
        \<longrightarrow> i < length (cd_messages (add_from dbl_zero msgs new_decoder)))"
proof (induction msgs rule: rev_induct)
  case Nil
  then show ?case by (simp add: add_from_def new_decoder_def last_message_def)
next
  case (snoc m msgs)
  define d where "d = add_from dbl_zero msgs new_decoder"
  show ?case
  proof (cases "message_layout_in_range m")
    case False
    with snoc show ?thesis by (simp add: add_from_snoc add_message_def last_message_def)
  next
    case True
    show ?thesis
    proof (cases "cd_index d k")
      case None
      with True snoc show ?thesis
        unfolding add_from_snoc d_def [symmetric]
        by (auto simp: add_message_def last_message_def loaded_entry_def nth_append)
    next
      case (Some i)
      with True snoc show ?thesis
        unfolding add_from_snoc d_def [symmetric]
        by (auto simp: add_message_def last_message_def loaded_entry_def nth_append)
    qed
  qed
qed

text \<open>The resolution rule for standard and extended frames, on the messages themselves.\<close>

definition resolve_message :: "'d dbc_message list \<Rightarrow> 32 word \<Rightarrow> bool \<Rightarrow> 'd dbc_message option" where
  "resolve_message msgs i extended =
     (if \<not> extended then last_message msgs i
      else case last_message msgs (i OR extended_flag) of
             Some m \<Rightarrow> Some m
           | None \<Rightarrow> if i > max_standard_id then last_message msgs i else None)"

lemma find_message_resolves:
  "find_message (add_from dbl_zero msgs new_decoder) i extended
     = map_option (loaded_entry dbl_zero) (resolve_message msgs i extended)"
proof -
  let ?d = "add_from dbl_zero msgs new_decoder"
  have e: "map_option (\<lambda>i. cd_messages ?d ! i) (cd_index ?d k) = map_option (loaded_entry dbl_zero) (last_message msgs k)" for k
    using index_entry by blast
  then have n: "cd_index ?d k = None \<longleftrightarrow> last_message msgs k = None" for k
    by (metis map_option_is_None)
  show ?thesis
    by (auto simp: find_message_def resolve_message_def Let_def e n split: option.splits)
qed

lemma last_message_props:
  "last_message msgs i = Some m \<Longrightarrow> m \<in> set msgs \<and> message_layout_in_range m \<and> dm_id m = i"
proof -
  assume "last_message msgs i = Some m"
  then have "m \<in> set (rev (filter message_layout_in_range msgs))" "dm_id m = i"
    by (auto simp: last_message_def find_Some_iff simp del: set_rev set_filter)
  then show ?thesis by simp
qed

lemma flagged_above_standard: "max_standard_id < i OR extended_flag"
proof -
  have "\<not> i OR extended_flag \<le> max_standard_id"
  proof
    assume a: "i OR extended_flag \<le> max_standard_id"
    have "extended_flag \<le> i OR extended_flag" by (metis le_word_or2 or.commute)
    with a have "extended_flag \<le> max_standard_id" by (rule order_trans [rotated])
    then show False by (simp add: extended_flag_def max_standard_id_def)
  qed
  then show ?thesis by simp
qed

lemma resolve_message_props:
  assumes "resolve_message msgs i extended = Some m"
  shows "m \<in> set msgs" "message_layout_in_range m"
    "if extended then max_standard_id < dm_id m \<and> dm_id m \<in> {i OR extended_flag, i} else dm_id m = i"
  using assms flagged_above_standard [of i]
  by (auto simp: resolve_message_def split: if_splits option.splits dest!: last_message_props)

subsection \<open>Properties\<close>

lemma label_lookup_facts:
  assumes "\<not> dbl_zero (ds_factor sig)"
  shows "label_of (build_labels dbl_zero sig) k
      = map_option snd (find (\<lambda>(v, txt). normalize_value_key v (ds_signed sig) (ds_size sig) = k) (ds_values sig))"
    and "\<lbrakk>ds_signed sig; ds_size sig = of_nat b; 0 < b; b < 32; - (2 ^ (b - 1)) \<le> i; i < 2 ^ (b - 1);
          ds_values sig = (v, tx) # vs; v \<in> {word_of_int i, word_of_int (i mod 2 ^ b)}\<rbrakk>
        \<Longrightarrow> label_of (build_labels dbl_zero sig) i = Some tx"
proof -
  have f: "map_of (map (\<lambda>(v, txt). (g v, txt)) xs) j = map_option snd (find (\<lambda>(v, txt). g v = j) xs)"
    for g :: "32 word \<Rightarrow> int" and xs :: "(32 word \<times> string) list" and j
    by (induction xs) auto
  show lookup: "label_of (build_labels dbl_zero sig) k
      = map_option snd (find (\<lambda>(v, txt). normalize_value_key v (ds_signed sig) (ds_size sig) = k) (ds_values sig))" for k
    by (simp add: label_of_map build_labels_sorted build_labels_map assms f)
  show "label_of (build_labels dbl_zero sig) i = Some tx"
    if "ds_signed sig" "ds_size sig = of_nat b" "0 < b" "b < 32" "- (2 ^ (b - 1)) \<le> i" "i < 2 ^ (b - 1)"
      "ds_values sig = (v, tx) # vs" "v \<in> {word_of_int i, word_of_int (i mod 2 ^ b)}"
  proof -
    have "normalize_value_key v True (of_nat b) = i"
      using that normalize_signed_spellings [of b i] by auto
    with that show ?thesis by (simp add: lookup)
  qed
qed

text \<open>The label of a raw value is the text of the first value-table entry whose normalised key is
  the value; a negative value of a signed signal is found under both of its spellings in the file.\<close>

theorem value_label_lookup:
  assumes "\<not> dbl_zero (ds_factor sig)"
  shows "label_of (build_labels dbl_zero sig) k
      = map_option snd (find (\<lambda>(v, txt). normalize_value_key v (ds_signed sig) (ds_size sig) = k) (ds_values sig))
    \<and> (\<forall>b i v tx vs. ds_signed sig \<and> ds_size sig = of_nat b \<and> 0 < b \<and> b < 32 \<and> - (2 ^ (b - 1)) \<le> i \<and> i < 2 ^ (b - 1)
        \<and> ds_values sig = (v, tx) # vs \<and> v \<in> {word_of_int i, word_of_int (i mod 2 ^ b)}
        \<longrightarrow> label_of (build_labels dbl_zero sig) i = Some tx)"
  using label_lookup_facts [where dbl_zero = dbl_zero and sig = sig] assms by blast

text \<open>A decoded frame gives a row without two fields of one name: label fields never collide with
  a signal of the message or with another label.\<close>

theorem row_fields_distinct:
  assumes "\<forall>m \<in> set msgs. distinct (map ds_name (dm_signals m))"
    and "decode dbl_raw (add_from dbl_zero msgs new_decoder) i extended bytes = (Decoded, sigs)"
  shows "distinct (map fst (build_row sigs))"
proof -
  obtain m vs where m: "resolve_message msgs i extended = Some m"
    and s: "sigs = map2 (decode_signal dbl_raw) (me_signals (loaded_entry dbl_zero m)) vs"
    using assms(2) by (auto simp: decode_def find_message_resolves loaded_entry_def split: option.splits if_splits)
  have "map sm_name (map (signal_meta_of dbl_zero) (dm_signals m)) = map ds_name (dm_signals m)"
    by (simp add: signal_meta_of_def)
  then have "distinct (map sm_name (map (signal_meta_of dbl_zero) (dm_signals m)))"
    using assms(1) resolve_message_props(1) [OF m] by (simp del: map_map)
  then show ?thesis
    unfolding s build_row_names loaded_entry_def message_entry.simps
    by (intro field_names_take field_names_distinct)
qed

text \<open>C6. A frame is decoded by the message its id resolves to: the last usable message of the flagged
  id first for an extended frame, an unflagged id only above the 11-bit range, the exact id for a
  standard frame; a frame shorter than its message is never decoded.\<close>

theorem decode_resolves:
  "decode dbl_raw (add_from dbl_zero msgs new_decoder) i extended bytes =
      (case resolve_message msgs i extended of
         None \<Rightarrow> (NoMatch, [])
       | Some m \<Rightarrow>
           (case (if length bytes < dm_size m then None else dm_parse m bytes) of
              None \<Rightarrow> (Undecodable, [])
            | Some vs \<Rightarrow> (Decoded, map2 (decode_signal dbl_raw) (me_signals (loaded_entry dbl_zero m)) vs)))
   \<and> (\<forall>m. resolve_message msgs i extended = Some m \<longrightarrow>
      m \<in> set msgs \<and> message_layout_in_range m
      \<and> (if extended then max_standard_id < dm_id m \<and> dm_id m \<in> {i OR extended_flag, i} else dm_id m = i))"
proof (intro conjI allI impI)
  fix m assume "resolve_message msgs i extended = Some m"
  from resolve_message_props [OF this] show "m \<in> set msgs" "message_layout_in_range m"
    "if extended then max_standard_id < dm_id m \<and> dm_id m \<in> {i OR extended_flag, i} else dm_id m = i" .
qed (auto simp: decode_def find_message_resolves loaded_entry_def split: option.splits)

subsection \<open>Witnesses\<close>

definition sample_signal :: "string \<Rightarrow> (32 word \<times> string) list \<Rightarrow> int dbc_signal" where
  "sample_signal name vals =
     \<lparr>ds_name = name, ds_unit = ''V'', ds_factor = 1, ds_offset = 0, ds_signed = True, ds_size = 8,
      ds_start_bit = 0, ds_values = vals\<rparr>"

definition sample_message :: "32 word \<Rightarrow> int dbc_message" where
  "sample_message i =
     \<lparr>dm_id = i, dm_name = ''Msg'', dm_size = 2,
      dm_signals = [sample_signal ''Foo'' [(0xFF, ''neg''), (0xFFFFFFFF, ''dup'')], sample_signal ''Foo_label'' []],
      dm_parse = (\<lambda>bs. Some (map (\<lambda>b. int (unat b) - 2) bs))\<rparr>"

definition raw_int :: "int \<Rightarrow> int \<Rightarrow> int \<Rightarrow> int" where
  "raw_int v off fac = (v - off) div fac"

lemma value_label_lookup_witness:
  "label_of (build_labels (\<lambda>d. d = 0) (sample_signal ''Foo'' [(0xFF, ''neg''), (0xFFFFFFFF, ''dup'')])) (-1) = Some ''neg''"
proof -
  let ?sig = "sample_signal ''Foo'' [(0xFF, ''neg''), (0xFFFFFFFF, ''dup'')]"
  have "\<not> ds_factor ?sig = 0" by (simp add: sample_signal_def)
  from value_label_lookup [where dbl_zero = "\<lambda>d. d = 0", OF this, THEN conjunct2, rule_format, of 8 "-1" "0xFF" "''neg''" "[(0xFFFFFFFF, ''dup'')]"]
  show ?thesis by (simp add: sample_signal_def)
qed

lemma row_fields_distinct_witness:
  "distinct (map fst (build_row (snd (decode raw_int (add_from (\<lambda>d. d = 0) [sample_message 5] new_decoder) 5 False [1, 7]))))"
proof (rule row_fields_distinct [where msgs = "[sample_message 5]" and dbl_zero = "\<lambda>d. d = 0" and dbl_raw = raw_int
      and i = 5 and extended = False and bytes = "[1, 7]"])
  show "\<forall>m \<in> set [sample_message 5]. distinct (map ds_name (dm_signals m))"
    by (simp add: sample_message_def sample_signal_def)
  show "decode raw_int (add_from (\<lambda>d. d = 0) [sample_message 5] new_decoder) 5 False [1, 7]
      = (Decoded, snd (decode raw_int (add_from (\<lambda>d. d = 0) [sample_message 5] new_decoder) 5 False [1, 7]))"
    by code_simp
qed

lemma decode_resolves_witness:
  "resolve_message [sample_message 0x80000005, sample_message 5] 5 True = Some (sample_message 0x80000005)
     \<and> max_standard_id < dm_id (sample_message 0x80000005)"
proof -
  have "resolve_message [sample_message 0x80000005, sample_message 5] 5 True = Some (sample_message 0x80000005)"
    by (simp add: resolve_message_def last_message_def message_layout_in_range_def sample_message_def
        sample_signal_def signal_layout_in_range_def max_signal_bits_def extended_flag_def)
  with decode_resolves [of raw_int "\<lambda>d. d = 0" "[sample_message 0x80000005, sample_message 5]" 5 True "[]"] show ?thesis by simp
qed

end
