(* ===== verification/CsvDictionary.thy ===== *)
theory CsvDictionary
  imports CandumpLine CanDecode
begin

unbundle bit_operations_syntax

section \<open>CSV dictionaries (data_load_candump/csv_dictionary.cpp)\<close>

text \<open>
  The translation of an ARUS-style CSV dictionary into DBC text. \<open>PJ::parseNumber\<close> and
  \<open>PJ::sdk::lowerAscii\<close> belong to the SDK and are the parameters \<open>parse_int\<close>, \<open>parse_dbl\<close> and
  \<open>lower\<close>; a double is of a type 'd, printed at a precision by \<open>print_dbl\<close> and compared by
  \<open>dbl_eq\<close>. The two \<open>std::map\<close>s are an association list in key order (messages, which the code
  iterates) and a function (used names, which it only looks up). Facts shown: lines read back for
  every line ending; the rows are grouped by base id, ascending, in file order, and every other row
  is counted as skipped; every signal fits its message and the 64-bit frame; the message of a base id
  is the one the decoder resolves for that id; signal names are distinct unless a name of the file
  looks like a generated one.
\<close>

record 'd csv_row =
  cr_bit_in :: int
  cr_bit_fin :: int
  cr_signed :: bool
  cr_scale :: 'd
  cr_offset :: 'd
  cr_name :: string

subsection \<open>Text\<close>

definition trim_char :: "char \<Rightarrow> bool" where
  "trim_char c \<longleftrightarrow> c \<in> {CHR '' '', CHR 0x09, CHR 0x0D, CHR 0x0A}"

definition trim :: "string \<Rightarrow> string" where
  "trim s = rev (dropWhile trim_char (rev (dropWhile trim_char s)))"

function split_csv_line :: "string \<Rightarrow> string list" where
  "split_csv_line line =
     (let field = takeWhile (\<lambda>c. c \<noteq> CHR '','') line in
      if field = line then [trim line]
      else trim field # split_csv_line (drop (length field + 1) line))"
  by pat_completeness auto
termination
proof (relation "measure length")
  fix line :: string and field
  assume "field = takeWhile (\<lambda>c. c \<noteq> CHR '','') line" "field \<noteq> line"
  then have "line \<noteq> []" by auto
  then show "(drop (length field + 1) line, line) \<in> measure length" by simp
qed simp

declare split_csv_line.simps [simp del]

definition strip_bom :: "string \<Rightarrow> string" where
  "strip_bom s =
     (if length s \<ge> 3 \<and> s ! 0 = CHR 0xEF \<and> s ! 1 = CHR 0xBB \<and> s ! 2 = CHR 0xBF then drop 3 s else s)"

text \<open>The character loop; \<open>cur\<close> is the line being collected.\<close>

fun split_loop :: "string \<Rightarrow> string \<Rightarrow> string list" where
  "split_loop cur [] = (if cur \<noteq> [] then [cur] else [])"
| "split_loop cur (c # cs) =
     (if c = CHR 0x0A then cur # split_loop [] cs
      else if c = CHR 0x0D
      then (if cs = [] \<or> hd cs \<noteq> CHR 0x0A then cur # split_loop [] cs else split_loop cur cs)
      else split_loop (cur @ [c]) cs)"

definition split_lines :: "string \<Rightarrow> string list" where
  "split_lines s = split_loop [] (strip_bom s)"

text \<open>The value and the number of hexadecimal digits.\<close>

definition parse_hex_id :: "string \<Rightarrow> (32 word \<times> nat) option" where
  "parse_hex_id s =
     (let t = (if length s \<ge> 2 \<and> s ! 0 = CHR ''0'' \<and> (s ! 1 = CHR ''x'' \<or> s ! 1 = CHR ''X'') then drop 2 s else s) in
      map_option (\<lambda>v. (v, length t)) (parse_hex_u32 t))"

definition parse_signed :: "(string \<Rightarrow> string) \<Rightarrow> string \<Rightarrow> bool option" where
  "parse_signed lower s =
     (let lowered = lower s in
      if lowered \<in> {''true'', ''1'', ''yes''} then Some True
      else if lowered \<in> {''false'', ''0'', ''no''} then Some False
      else None)"

subsection \<open>Signal names\<close>

definition between :: "char \<Rightarrow> char \<Rightarrow> char \<Rightarrow> bool" where
  "between lo hi c \<longleftrightarrow> ascii lo \<le> ascii c \<and> ascii c \<le> ascii hi"

definition name_char :: "char \<Rightarrow> bool" where
  "name_char c \<longleftrightarrow> between CHR ''A'' CHR ''Z'' c \<or> between CHR ''a'' CHR ''z'' c \<or> between CHR ''0'' CHR ''9'' c
     \<or> c = CHR ''_''"

definition sanitized_base :: "string \<Rightarrow> string" where
  "sanitized_base raw_name =
     (let s = map (\<lambda>c. if name_char c then c else CHR ''_'') raw_name;
          s = (if s = [] then ''SIGNAL'' else s)
      in if between CHR ''0'' CHR ''9'' (hd s) then CHR ''_'' # s else s)"

type_synonym used_names = "string \<Rightarrow> nat option"

definition sanitize_signal_name :: "string \<Rightarrow> used_names \<Rightarrow> string \<times> used_names" where
  "sanitize_signal_name raw_name used =
     (let base = sanitized_base raw_name in
      case used base of
        None \<Rightarrow> (base, used(base \<mapsto> 1))
      | Some n \<Rightarrow> (base @ ''_'' @ nat_text (n + 1), used(base \<mapsto> n + 1)))"

definition format_dbc_number ::
  "(nat \<Rightarrow> 'd \<Rightarrow> string) \<Rightarrow> (string \<Rightarrow> 'd option) \<Rightarrow> ('d \<Rightarrow> 'd \<Rightarrow> bool) \<Rightarrow> 'd \<Rightarrow> string" where
  "format_dbc_number print_dbl parse_dbl dbl_eq v =
     (let good = (\<lambda>p. case parse_dbl (print_dbl p v) of Some w \<Rightarrow> dbl_eq w v | None \<Rightarrow> False) in
      print_dbl (if good 15 then 15 else if good 16 then 16 else 17) v)"

subsection \<open>Rows\<close>

definition find_column :: "(string \<Rightarrow> string) \<Rightarrow> string list \<Rightarrow> string \<Rightarrow> nat option" where
  "find_column lower header name =
     (let i = length (takeWhile (\<lambda>h. lower h \<noteq> lower name) header) in
      if i < length header then Some i else None)"

record columns =
  co_id :: nat
  co_bit_in :: nat
  co_bit_fin :: nat
  co_signed :: nat
  co_scale :: nat
  co_offset :: nat
  co_name :: nat

definition find_columns :: "(string \<Rightarrow> string) \<Rightarrow> string list \<Rightarrow> columns option" where
  "find_columns lower header =
     (let f = find_column lower header in
      case (f ''ID'', f ''bitIn'', f ''bitFin'', f ''Signed'', f ''Scale'', f ''Offset'', f ''Name'') of
        (Some a, Some b, Some c, Some d, Some e, Some g, Some h) \<Rightarrow>
          Some \<lparr>co_id = a, co_bit_in = b, co_bit_fin = c, co_signed = d, co_scale = e, co_offset = g, co_name = h\<rparr>
      | _ \<Rightarrow> None)"

definition max_col :: "columns \<Rightarrow> nat" where
  "max_col co = Max {co_id co, co_bit_in co, co_bit_fin co, co_signed co, co_scale co, co_offset co, co_name co}"

definition base_id_of :: "32 word \<Rightarrow> nat \<Rightarrow> 32 word" where
  "base_id_of id_value hex_digits = (if hex_digits = 4 then drop_bit 4 id_value else id_value)"

text \<open>One data row: the reason it is skipped, or its base id and row.\<close>

definition parse_row ::
  "(string \<Rightarrow> string) \<Rightarrow> (string \<Rightarrow> int option) \<Rightarrow> (string \<Rightarrow> 'd option) \<Rightarrow> columns \<Rightarrow> string list \<Rightarrow>
   string + (32 word \<times> 'd csv_row)" where
  "parse_row lower parse_int parse_dbl co fs =
     (if length fs \<le> max_col co then Inl ''too few columns, skipped''
      else case parse_hex_id (fs ! co_id co) of
        None \<Rightarrow> Inl (''invalid hex ID '' @ [CHR 0x27] @ fs ! co_id co @ [CHR 0x27] @ '', skipped'')
      | Some (id_value, digits) \<Rightarrow>
          (case (parse_int (fs ! co_bit_in co), parse_int (fs ! co_bit_fin co)) of
             (Some bin, Some bfin) \<Rightarrow>
               if bin < 0 \<or> bfin > 7 \<or> bin > bfin then Inl ''invalid bitIn/bitFin, skipped''
               else (case parse_signed lower (fs ! co_signed co) of
                       None \<Rightarrow> Inl ''invalid Signed value, skipped''
                     | Some neg \<Rightarrow>
                         (case (parse_dbl (fs ! co_scale co), parse_dbl (fs ! co_offset co)) of
                            (Some sc, Some off) \<Rightarrow>
                              Inr (base_id_of id_value digits,
                                   \<lparr>cr_bit_in = bin, cr_bit_fin = bfin, cr_signed = neg, cr_scale = sc,
                                    cr_offset = off, cr_name = fs ! co_name co\<rparr>)
                          | _ \<Rightarrow> Inl ''invalid Scale/Offset, skipped''))
           | _ \<Rightarrow> Inl ''invalid bitIn/bitFin, skipped''))"

text \<open>\<open>messages[base_id].push_back(row)\<close>.\<close>

fun group_push :: "32 word \<Rightarrow> 'r \<Rightarrow> (32 word \<times> 'r list) list \<Rightarrow> (32 word \<times> 'r list) list" where
  "group_push k r [] = [(k, [r])]"
| "group_push k r ((k', rs) # gs) =
     (if k < k' then (k, [r]) # (k', rs) # gs
      else if k = k' then (k', rs @ [r]) # gs
      else (k', rs) # group_push k r gs)"

record 'd csv_state =
  cs_messages :: "(32 word \<times> 'd csv_row list) list"
  cs_warnings :: string
  cs_skipped :: nat

definition newline :: string where "newline = [CHR 0x0A]"

definition csv_line ::
  "(string \<Rightarrow> string) \<Rightarrow> (string \<Rightarrow> int option) \<Rightarrow> (string \<Rightarrow> 'd option) \<Rightarrow> columns \<Rightarrow> nat \<times> string \<Rightarrow>
   'd csv_state \<Rightarrow> 'd csv_state" where
  "csv_line lower parse_int parse_dbl co numbered st =
     (case numbered of (line_no, raw_line) \<Rightarrow>
        if trim raw_line = [] then st
        else case parse_row lower parse_int parse_dbl co (split_csv_line raw_line) of
               Inl reason \<Rightarrow>
                 st\<lparr>cs_warnings := cs_warnings st @ ''line '' @ nat_text (line_no + 1) @ '': '' @ reason @ newline,
                    cs_skipped := cs_skipped st + 1\<rparr>
             | Inr (base, row) \<Rightarrow> st\<lparr>cs_messages := group_push base row (cs_messages st)\<rparr>)"

definition read_rows ::
  "(string \<Rightarrow> string) \<Rightarrow> (string \<Rightarrow> int option) \<Rightarrow> (string \<Rightarrow> 'd option) \<Rightarrow> columns \<Rightarrow> string list \<Rightarrow> 'd csv_state" where
  "read_rows lower parse_int parse_dbl co lines =
     fold (csv_line lower parse_int parse_dbl co) (enumerate 1 (tl lines))
       \<lparr>cs_messages = [], cs_warnings = [], cs_skipped = 0\<rparr>"

subsection \<open>DBC text\<close>

definition dlc_of :: "'d csv_row list \<Rightarrow> int" where
  "dlc_of rows = fold (\<lambda>row m. max m (cr_bit_fin row)) rows 0 + 1"

definition dbc_id_of :: "32 word \<Rightarrow> 32 word" where
  "dbc_id_of base = (if base > 0x7FF then base OR 0x80000000 else base)"

definition start_bit_of :: "'d csv_row \<Rightarrow> int" where
  "start_bit_of row = cr_bit_in row * 8"

definition length_of :: "'d csv_row \<Rightarrow> int" where
  "length_of row = (cr_bit_fin row - cr_bit_in row + 1) * 8"

definition signal_line :: "('d \<Rightarrow> string) \<Rightarrow> string \<Rightarrow> 'd csv_row \<Rightarrow> string" where
  "signal_line fmt name row =
     '' SG_ '' @ name @ '' : '' @ int_text (start_bit_of row) @ ''|'' @ int_text (length_of row) @ ''@1'' @
     (if cr_signed row then ''-'' else ''+'') @ '' ('' @ fmt (cr_scale row) @ '','' @ fmt (cr_offset row) @
     '') [0|0] '' @ [CHR 0x22, CHR 0x22] @ '' PJ'' @ newline"

fun signal_lines :: "('d \<Rightarrow> string) \<Rightarrow> 'd csv_row list \<Rightarrow> used_names \<Rightarrow> string \<times> used_names" where
  "signal_lines fmt [] used = ([], used)"
| "signal_lines fmt (row # rows) used =
     (case sanitize_signal_name (cr_name row) used of
        (name, used1) \<Rightarrow>
          (case signal_lines fmt rows used1 of (out, used2) \<Rightarrow> (signal_line fmt name row @ out, used2)))"

fun message_blocks :: "('d \<Rightarrow> string) \<Rightarrow> (32 word \<times> 'd csv_row list) list \<Rightarrow> used_names \<Rightarrow> string" where
  "message_blocks fmt [] used = []"
| "message_blocks fmt ((base, rows) # gs) used =
     (case signal_lines fmt rows used of
        (sigs, used1) \<Rightarrow>
          ''BO_ '' @ nat_text (unat (dbc_id_of base)) @ '' MSG_'' @ drop 2 (hex_id base) @ '': '' @
          int_text (dlc_of rows) @ '' PJ'' @ newline @ sigs @ newline @ message_blocks fmt gs used1)"

definition dbc_header :: string where
  "dbc_header = ''VERSION '' @ [CHR 0x22, CHR 0x22] @ newline @ newline @ ''NS_ :'' @ newline @ newline @
     ''BS_:'' @ newline @ newline @ ''BU_: PJ'' @ newline @ newline"

record csv_result =
  rs_error :: "string option"
  rs_dbc :: string
  rs_warnings :: string

definition arus_csv_to_dbc ::
  "(string \<Rightarrow> string) \<Rightarrow> (string \<Rightarrow> int option) \<Rightarrow> (string \<Rightarrow> 'd option) \<Rightarrow> ('d \<Rightarrow> string) \<Rightarrow> string \<Rightarrow> csv_result" where
  "arus_csv_to_dbc lower parse_int parse_dbl fmt csv_text =
     (let fail = (\<lambda>e w. \<lparr>rs_error = Some (''csv dictionary: '' @ e), rs_dbc = [], rs_warnings = w\<rparr>);
          lines = split_lines csv_text
      in if lines = [] then fail ''empty file'' []
         else case find_columns lower (split_csv_line (hd lines)) of
           None \<Rightarrow> fail ''missing required column (need ID, bitIn, bitFin, Signed, Scale, Offset, Name)'' []
         | Some co \<Rightarrow>
             (let st = read_rows lower parse_int parse_dbl co lines in
              if cs_messages st = [] then fail ''no valid rows'' (cs_warnings st)
                 else \<lparr>rs_error = None, rs_dbc = dbc_header @ message_blocks fmt (cs_messages st) (\<lambda>n. None),
                       rs_warnings = (if cs_skipped st > 0
                          then nat_text (cs_skipped st) @ '' row(s) skipped:'' @ newline @ cs_warnings st
                          else cs_warnings st)\<rparr>))"

subsection \<open>Lines\<close>

abbreviation (input) is_eol :: "char \<Rightarrow> bool" where
  "is_eol c \<equiv> c = CHR 0x0A \<or> c = CHR 0x0D"

lemma split_loop_plain:
  "\<forall>c \<in> set l. \<not> is_eol c \<Longrightarrow> split_loop cur (l @ rest) = split_loop (cur @ l) rest"
  by (induction l arbitrary: cur) auto

lemma split_loop_eol:
  "eol \<in> {[CHR 0x0A], [CHR 0x0D, CHR 0x0A], [CHR 0x0D]} \<Longrightarrow> (eol = [CHR 0x0D] \<longrightarrow> r = [] \<or> hd r \<noteq> CHR 0x0A) \<Longrightarrow>
     split_loop cur (eol @ r) = cur # split_loop [] r"
  by auto

lemma split_loop_lines:
  assumes "eol \<in> {[CHR 0x0A], [CHR 0x0D, CHR 0x0A], [CHR 0x0D]}"
    and "\<forall>c \<in> set (concat ls @ l). \<not> is_eol c"
  shows "split_loop [] (concat (map (\<lambda>l. l @ eol) ls) @ l) = ls @ (if l = [] then [] else [l])"
  using assms(2)
proof (induction ls)
  case Nil
  then show ?case using split_loop_plain [of l "[]" "[]"] by simp
next
  case (Cons k ls)
  let ?r = "concat (map (\<lambda>l. l @ eol) ls) @ l"
  have h: "?r = [] \<or> hd ?r \<noteq> CHR 0x0A" if "eol = [CHR 0x0D]"
    using that Cons.prems by (cases ls; cases l; cases "hd ls") auto
  have "split_loop [] (k @ eol @ ?r) = split_loop k (eol @ ?r)"
    using split_loop_plain [of k "[]"] Cons.prems by simp
  also have "\<dots> = k # split_loop [] ?r"
    using split_loop_eol [OF assms(1)] h by blast
  finally show ?case using Cons by simp
qed

subsection \<open>Grouping\<close>

text \<open>The rows of one key, in their order.\<close>

definition rows_of :: "32 word \<Rightarrow> (32 word \<times> 'r) list \<Rightarrow> 'r list" where
  "rows_of k ps = map snd (filter (\<lambda>p. fst p = k) ps)"

definition grouped :: "(32 word \<times> 'r) list \<Rightarrow> (32 word \<times> 'r list) list \<Rightarrow> bool" where
  "grouped ps gs \<longleftrightarrow> sorted_wrt (<) (map fst gs)
     \<and> (\<forall>k. map_of gs k = (if rows_of k ps = [] then None else Some (rows_of k ps)))"

lemma group_push_keys: "fst ` set (group_push k r gs) = insert k (fst ` set gs)"
  by (induction k r gs rule: group_push.induct) auto

lemma group_push_sorted: "sorted_wrt (<) (map fst gs) \<Longrightarrow> sorted_wrt (<) (map fst (group_push k r gs))"
proof (induction k r gs rule: group_push.induct)
  case (2 k r k' rs gs)
  consider "k < k'" | "k = k'" | "k' < k" by fastforce
  then show ?case
  proof cases
    case 1
    with 2 show ?thesis by (auto intro: order_less_trans)
  next
    case 3
    then have "\<not> k < k'" "k \<noteq> k'" by auto
    with 2 3 have "sorted_wrt (<) (map fst (group_push k r gs))" by simp
    moreover have "\<forall>y \<in> fst ` set (group_push k r gs). k' < y"
      using 2 3 by (auto simp: group_push_keys)
    ultimately show ?thesis using \<open>\<not> k < k'\<close> \<open>k \<noteq> k'\<close> by auto
  qed (use 2 in auto)
qed simp

lemma map_of_absent: "\<forall>y \<in> fst ` set gs. k < y \<Longrightarrow> map_of gs k = None" for k :: "32 word"
  by (force simp: map_of_eq_None_iff)

lemma group_push_map:
  "sorted_wrt (<) (map fst gs) \<Longrightarrow> map_of (group_push k r gs) j =
     (if j = k then Some ((case map_of gs k of None \<Rightarrow> [] | Some rs \<Rightarrow> rs) @ [r]) else map_of gs j)"
proof (induction k r gs rule: group_push.induct)
  case (2 k r k' rs gs)
  consider "k < k'" | "k = k'" | "\<not> k < k'" "k \<noteq> k'" by blast
  then show ?case
  proof cases
    case 1
    have "\<forall>y \<in> fst ` set gs. k < y" using 1 2(2) by (auto intro: order_less_trans)
    then have "map_of gs k = None" by (rule map_of_absent)
    with 1 show ?thesis by auto
  qed (use 2 in auto)
qed simp

lemma grouped_push: "grouped ps gs \<Longrightarrow> grouped (ps @ [(k, r)]) (group_push k r gs)"
  by (auto simp: grouped_def group_push_sorted group_push_map rows_of_def)

subsection \<open>Reading the rows\<close>

text \<open>What each non-blank data line parses to.\<close>

definition row_results ::
  "(string \<Rightarrow> string) \<Rightarrow> (string \<Rightarrow> int option) \<Rightarrow> (string \<Rightarrow> 'd option) \<Rightarrow> columns \<Rightarrow> string list \<Rightarrow>
   (string + (32 word \<times> 'd csv_row)) list" where
  "row_results lower parse_int parse_dbl co lines =
     map (\<lambda>l. parse_row lower parse_int parse_dbl co (split_csv_line l)) (filter (\<lambda>l. trim l \<noteq> []) (tl lines))"

definition accepted :: "('e + 'r) list \<Rightarrow> 'r list" where
  "accepted rs = concat (map (\<lambda>x. case x of Inl e \<Rightarrow> [] | Inr r \<Rightarrow> [r]) rs)"

lemma csv_fold_groups:
  assumes "grouped ps (cs_messages st)"
  shows "grouped (ps @ accepted (map (\<lambda>l. parse_row lower parse_int parse_dbl co (split_csv_line l)) (filter (\<lambda>l. trim l \<noteq> []) (map snd xs))))
      (cs_messages (fold (csv_line lower parse_int parse_dbl co) xs st))
    \<and> cs_skipped (fold (csv_line lower parse_int parse_dbl co) xs st)
        + length (accepted (map (\<lambda>l. parse_row lower parse_int parse_dbl co (split_csv_line l)) (filter (\<lambda>l. trim l \<noteq> []) (map snd xs))))
      = cs_skipped st + length (filter (\<lambda>l. trim l \<noteq> []) (map snd xs))"
  using assms
proof (induction xs arbitrary: ps st)
  case Nil
  then show ?case by (simp add: accepted_def)
next
  case (Cons x xs)
  obtain n l where x: "x = (n, l)" by (cases x)
  show ?case
  proof (cases "trim l = []")
    case True
    then have "csv_line lower parse_int parse_dbl co x st = st" by (simp add: csv_line_def x)
    with True Cons show ?thesis by (simp add: x)
  next
    case False
    define p where "p = parse_row lower parse_int parse_dbl co (split_csv_line l)"
    show ?thesis
    proof (cases p)
      case (Inl e)
      let ?s = "csv_line lower parse_int parse_dbl co x st"
      have s: "cs_messages ?s = cs_messages st" "cs_skipped ?s = cs_skipped st + 1"
        using False Inl by (simp_all add: csv_line_def x p_def [symmetric])
      with Cons.prems have "grouped ps (cs_messages ?s)" by simp
      from Cons.IH [OF this] s Inl False show ?thesis by (simp add: x accepted_def p_def [symmetric])
    next
      case (Inr kr)
      obtain k r where kr: "kr = (k, r)" by (cases kr)
      let ?s = "csv_line lower parse_int parse_dbl co x st"
      have s: "cs_messages ?s = group_push k r (cs_messages st)" "cs_skipped ?s = cs_skipped st"
        using False Inr kr by (simp_all add: csv_line_def x p_def [symmetric])
      with grouped_push [OF Cons.prems] have "grouped (ps @ [(k, r)]) (cs_messages ?s)" by simp
      from Cons.IH [OF this] s Inr kr False show ?thesis by (simp add: x accepted_def p_def [symmetric])
    qed
  qed
qed

lemma read_rows_groups:
  "grouped (accepted (row_results lower parse_int parse_dbl co lines)) (cs_messages (read_rows lower parse_int parse_dbl co lines))
   \<and> cs_skipped (read_rows lower parse_int parse_dbl co lines) + length (accepted (row_results lower parse_int parse_dbl co lines))
      = length (filter (\<lambda>l. trim l \<noteq> []) (tl lines))"
proof -
  have g: "grouped [] (cs_messages \<lparr>cs_messages = [], cs_warnings = [], cs_skipped = 0\<rparr>)"
    by (simp add: grouped_def rows_of_def)
  have "map snd (enumerate 1 (tl lines)) = tl lines" by simp
  with csv_fold_groups [OF g, of lower parse_int parse_dbl co "enumerate 1 (tl lines)"] show ?thesis
    by (simp add: read_rows_def row_results_def)
qed

subsection \<open>Signals fit their message\<close>

lemma parse_row_bits:
  "parse_row lower parse_int parse_dbl co fs = Inr (k, row) \<Longrightarrow>
     0 \<le> cr_bit_in row \<and> cr_bit_in row \<le> cr_bit_fin row \<and> cr_bit_fin row \<le> 7"
  by (auto simp: parse_row_def split: if_splits option.splits)

lemma fold_max_ge:
  fixes f :: "'r \<Rightarrow> int"
  shows "m \<le> fold (\<lambda>row m. max m (f row)) rows m \<and> (\<forall>row \<in> set rows. f row \<le> fold (\<lambda>row m. max m (f row)) rows m)
     \<and> (m \<le> b \<longrightarrow> (\<forall>row \<in> set rows. f row \<le> b) \<longrightarrow> fold (\<lambda>row m. max m (f row)) rows m \<le> b)"
proof (induction rows arbitrary: m)
  case (Cons r rows)
  from Cons [of "max m (f r)"] show ?case by auto
qed simp

lemma accepted_Inr: "r \<in> set (accepted rs) \<longleftrightarrow> Inr r \<in> set rs"
  by (force simp: accepted_def split: sum.splits)

lemma grouped_member:
  assumes "grouped ps gs" "(k, rows) \<in> set gs"
  shows "rows = rows_of k ps" "rows \<noteq> []"
proof -
  have "distinct (map fst gs)"
    using assms(1) by (simp add: grouped_def strict_sorted_iff)
  then have "map_of gs k = Some rows" using assms(2) by (simp add: map_of_is_SomeI)
  with assms(1) show "rows = rows_of k ps" "rows \<noteq> []" by (auto simp: grouped_def split: if_splits)
qed

lemma rows_of_member: "row \<in> set (rows_of k ps) \<Longrightarrow> (k, row) \<in> set ps"
  by (force simp: rows_of_def)

subsection \<open>Signal names\<close>

text \<open>The names one after the other, as \<open>signal_lines\<close> makes them.\<close>

fun sanitize_all :: "string list \<Rightarrow> used_names \<Rightarrow> string list \<times> used_names" where
  "sanitize_all [] used = ([], used)"
| "sanitize_all (raw # raws) used =
     (case sanitize_signal_name raw used of
        (name, used1) \<Rightarrow> (case sanitize_all raws used1 of (names, used2) \<Rightarrow> (name # names, used2)))"

lemma signal_lines_names:
  "signal_lines fmt rows used =
     (concat (map2 (signal_line fmt) (fst (sanitize_all (map cr_name rows) used)) rows),
      snd (sanitize_all (map cr_name rows) used))"
  by (induction rows arbitrary: used) (auto split: prod.splits)

definition numbered_name :: "string \<Rightarrow> nat \<Rightarrow> string" where
  "numbered_name b c = (if c = 1 then b else b @ ''_'' @ nat_text c)"

lemma nat_text_chars: "CHR ''_'' \<notin> set (nat_text n)"
proof (induction n rule: nat_text.induct)
  case (1 n)
  have d: "CHR ''_'' \<noteq> char_of (48 + d)" if "d < 10" for d :: nat
  proof
    assume "CHR ''_'' = char_of (48 + d)"
    from arg_cong [OF this, of "of_char :: char \<Rightarrow> nat"] that show False by (simp add: take_bit_nat_eq_self)
  qed
  show ?case using 1 d [of n] d [of "n mod 10"] by (subst nat_text.simps) (simp del: char_of_mod_256)
qed

lemma last_underscore:
  assumes "x @ CHR ''_'' # a = y @ CHR ''_'' # b" "CHR ''_'' \<notin> set a" "CHR ''_'' \<notin> set b"
  shows "x = y \<and> a = b"
proof -
  have "rev a @ CHR ''_'' # rev x = rev b @ CHR ''_'' # rev y"
    using arg_cong [OF assms(1), of rev] by simp
  moreover have "takeWhile (\<lambda>c. c \<noteq> CHR ''_'') (rev a @ CHR ''_'' # rev x) = rev a"
    "takeWhile (\<lambda>c. c \<noteq> CHR ''_'') (rev b @ CHR ''_'' # rev y) = rev b"
    using assms(2,3) by (intro takeWhile_tail [THEN trans]; auto simp: takeWhile_append2)+
  ultimately have "rev a = rev b" by metis
  with assms(1) show ?thesis by simp
qed

lemma numbered_name_inj:
  assumes sep: "\<forall>a \<in> B. \<forall>b \<in> B. \<forall>n \<ge> 2. a \<noteq> b @ ''_'' @ nat_text n"
    and "a \<in> B" "b \<in> B" "0 < c" "0 < d" "numbered_name a c = numbered_name b d"
  shows "a = b \<and> c = d"
proof -
  consider "c = 1" "d = 1" | "c = 1" "2 \<le> d" | "2 \<le> c" "d = 1" | "2 \<le> c" "2 \<le> d" using assms(4,5) by linarith
  then show ?thesis
  proof cases
    case 4
    then have "a @ CHR ''_'' # nat_text c = b @ CHR ''_'' # nat_text d"
      using assms(6) by (simp add: numbered_name_def)
    from last_underscore [OF this nat_text_chars nat_text_chars] show ?thesis by (simp add: nat_text_inj)
  next
    case 2
    then have "a = b @ ''_'' @ nat_text d" using assms(6) by (simp add: numbered_name_def)
    with sep assms(2,3) 2 show ?thesis by blast
  next
    case 3
    then have "b = a @ ''_'' @ nat_text c" using assms(6) by (simp add: numbered_name_def)
    with sep assms(2,3) 3 show ?thesis by blast
  qed (use assms(6) in \<open>simp add: numbered_name_def\<close>)
qed

definition times_used :: "used_names \<Rightarrow> string \<Rightarrow> nat" where
  "times_used used b = (case used b of None \<Rightarrow> 0 | Some n \<Rightarrow> n)"

lemma sanitize_step:
  assumes "\<forall>b. used b \<noteq> Some 0" and "sanitize_signal_name raw used = (name, used1)"
  shows "name = numbered_name (sanitized_base raw) (times_used used (sanitized_base raw) + 1)"
    and "times_used used1 b = times_used used b + (if b = sanitized_base raw then 1 else 0)"
    and "\<forall>b. used1 b \<noteq> Some 0"
  using assms by (auto simp: sanitize_signal_name_def Let_def times_used_def numbered_name_def split: option.splits if_splits)

lemma sanitize_all_names:
  assumes "\<forall>a \<in> B. \<forall>b \<in> B. \<forall>n \<ge> 2. a \<noteq> b @ ''_'' @ nat_text n"
    and "sanitized_base ` set raws \<subseteq> B" "\<forall>b. used b \<noteq> Some 0"
  shows "distinct (fst (sanitize_all raws used)) \<and>
    (\<forall>x \<in> set (fst (sanitize_all raws used)). \<exists>b \<in> B. \<exists>c > times_used used b. x = numbered_name b c)"
  using assms(2,3)
proof (induction raws arbitrary: used)
  case (Cons raw raws)
  let ?b = "sanitized_base raw"
  obtain name used1 where s: "sanitize_signal_name raw used = (name, used1)" by (cases "sanitize_signal_name raw used")
  note st = sanitize_step [OF Cons.prems(2) s]
  have ih: "distinct (fst (sanitize_all raws used1))"
    "\<forall>x \<in> set (fst (sanitize_all raws used1)). \<exists>b \<in> B. \<exists>c > times_used used1 b. x = numbered_name b c"
    using Cons.IH [OF _ st(3)] Cons.prems(1) by auto
  have "name \<notin> set (fst (sanitize_all raws used1))"
  proof
    assume "name \<in> set (fst (sanitize_all raws used1))"
    then obtain b c where bc: "b \<in> B" "times_used used1 b < c" "name = numbered_name b c" using ih(2) by blast
    have "?b \<in> B" "0 < c" using Cons.prems(1) bc by auto
    have e: "numbered_name ?b (times_used used ?b + 1) = numbered_name b c" using bc(3) st(1) by simp
    have "?b = b \<and> times_used used ?b + 1 = c"
      by (rule numbered_name_inj [OF assms(1) \<open>?b \<in> B\<close> bc(1) _ \<open>0 < c\<close> e]) simp
    with bc(2) st(2) [of b] show False by auto
  qed
  moreover have "\<forall>x \<in> set (fst (sanitize_all raws used1)). \<exists>b \<in> B. \<exists>c > times_used used b. x = numbered_name b c"
  proof
    fix x assume "x \<in> set (fst (sanitize_all raws used1))"
    then obtain b c where "b \<in> B" "times_used used1 b < c" "x = numbered_name b c" using ih(2) by blast
    moreover have "times_used used b \<le> times_used used1 b" using st(2) [of b] by simp
    ultimately show "\<exists>b \<in> B. \<exists>c > times_used used b. x = numbered_name b c" by (metis le_less_trans)
  qed
  moreover have "?b \<in> B" using Cons.prems(1) by simp
  ultimately show ?case using ih(1) st(1) s by (auto split: prod.splits)
qed simp

subsection \<open>Message ids\<close>

lemma unflag: "k < 0x80000000 \<Longrightarrow> (k OR 0x80000000) AND 0x7FFFFFFF = k" for k :: "32 word"
proof -
  assume "k < 0x80000000"
  then have "k < 2 ^ 31" by simp
  then have "k AND mask 31 = k" by (rule less_mask_eq)
  moreover have "(mask 31 :: 32 word) = 0x7FFFFFFF" by (simp add: mask_eq_exp_minus_1)
  ultimately show ?thesis by (simp add: word_ao_dist)
qed

lemma dbc_id_inj:
  assumes "k < 0x80000000" "k' < 0x80000000" "dbc_id_of k = dbc_id_of k'"
  shows "k = k'"
proof -
  have big: "\<not> (i OR 0x80000000 \<le> 0x7FF)" for i :: "32 word"
    using flagged_above_standard [of i] by (simp add: extended_flag_def max_standard_id_def not_le)
  consider "k > 0x7FF" "k' > 0x7FF" | "k > 0x7FF" "k' \<le> 0x7FF" | "k \<le> 0x7FF" "k' > 0x7FF" | "k \<le> 0x7FF" "k' \<le> 0x7FF"
    by fastforce
  then show ?thesis
  proof cases
    case 1
    with assms(3) have "k OR 0x80000000 = k' OR 0x80000000" by (simp add: dbc_id_of_def)
    with unflag [OF assms(1)] unflag [OF assms(2)] show ?thesis by metis
  qed (use assms(3) big in \<open>auto simp: dbc_id_of_def not_less [symmetric]\<close>)
qed

lemma find_rev_nth:
  assumes "distinct (map f xs)" "j < length xs"
  shows "find (\<lambda>m. f m = f (xs ! j)) (rev xs) = Some (xs ! j)"
proof -
  have "find (\<lambda>m. f m = f (xs ! j)) (rev xs) \<noteq> None"
    using nth_mem [OF assms(2)] by (auto simp: find_None_iff)
  then obtain m where m: "find (\<lambda>m. f m = f (xs ! j)) (rev xs) = Some m" by blast
  then have "m \<in> set xs" "f m = f (xs ! j)" by (auto simp: find_Some_iff) (metis length_rev nth_mem set_rev)
  with assms have "m = xs ! j" by (simp add: distinct_map inj_on_def)
  with m show ?thesis by simp
qed

subsection \<open>Properties\<close>

text \<open>A dictionary text reads back as its lines for LF, CRLF and CR endings, with or without a
  byte-order mark and a final line ending.\<close>

theorem csv_lines_read_back:
  assumes "eol \<in> {[CHR 0x0A], [CHR 0x0D, CHR 0x0A], [CHR 0x0D]}"
    and "\<forall>c \<in> set (concat ls @ l). c \<noteq> CHR 0x0A \<and> c \<noteq> CHR 0x0D"
    and "bom = [CHR 0xEF, CHR 0xBB, CHR 0xBF] \<or> bom = [] \<and> CHR 0xEF \<notin> set (concat ls @ l)"
  shows "split_lines (bom @ concat (map (\<lambda>l. l @ eol) ls) @ l) = ls @ (if l = [] then [] else [l])"
proof -
  let ?t = "concat (map (\<lambda>l. l @ eol) ls) @ l"
  have "strip_bom (bom @ ?t) = ?t"
    using assms(3)
  proof
    assume "bom = [] \<and> CHR 0xEF \<notin> set (concat ls @ l)"
    with assms(1) have "bom = []" "CHR 0xEF \<notin> set ?t" by auto
    have "strip_bom t = t" if "CHR 0xEF \<notin> set t" for t 
      using that by (cases t) (auto simp: strip_bom_def)
    with \<open>bom = []\<close> \<open>CHR 0xEF \<notin> set ?t\<close> show ?thesis by simp
  qed (simp add: strip_bom_def)
  then show ?thesis using split_loop_lines [OF assms(1), of ls l] assms(2) by (simp add: split_lines_def)
qed

lemma csv_rows_facts:
  fixes parse_dbl :: "string \<Rightarrow> 'd option" and lower :: "string \<Rightarrow> string" and parse_int :: "string \<Rightarrow> int option"
    and co :: columns and lines :: "string list"
  defines "ps \<equiv> accepted (row_results lower parse_int parse_dbl co lines)"
    and "st \<equiv> read_rows lower parse_int parse_dbl co lines"
  shows "sorted_wrt (<) (map fst (cs_messages st))"
    and "map_of (cs_messages st) k = (if rows_of k ps = [] then None else Some (rows_of k ps))"
    and "cs_skipped st + length ps = length (filter (\<lambda>l. trim l \<noteq> []) (tl lines))"
    and "\<lbrakk>(base, rows) \<in> set (cs_messages st); row \<in> set rows\<rbrakk> \<Longrightarrow>
      0 \<le> start_bit_of row \<and> start_bit_of row < 64 \<and> 8 \<le> length_of row
      \<and> start_bit_of row + length_of row \<le> 8 * dlc_of rows \<and> dlc_of rows \<le> 8"
    and "\<lbrakk>lines = split_lines csv_text; lines \<noteq> []; find_columns lower (split_csv_line (hd lines)) = Some co\<rbrakk> \<Longrightarrow>
      rs_error (arus_csv_to_dbc lower parse_int parse_dbl fmt csv_text) = None \<longleftrightarrow> ps \<noteq> []"
proof -
  have g: "grouped ps (cs_messages st)" and n: "cs_skipped st + length ps = length (filter (\<lambda>l. trim l \<noteq> []) (tl lines))"
    unfolding ps_def st_def using read_rows_groups by blast+
  show "sorted_wrt (<) (map fst (cs_messages st))" using g by (simp add: grouped_def)
  show "map_of (cs_messages st) k = (if rows_of k ps = [] then None else Some (rows_of k ps))"
    using g unfolding grouped_def by blast
  show "cs_skipped st + length ps = length (filter (\<lambda>l. trim l \<noteq> []) (tl lines))" by (rule n)
  have e: "cs_messages st = [] \<longleftrightarrow> ps = []"
  proof
    assume "cs_messages st = []"
    with g have "\<forall>k. rows_of k ps = []" unfolding grouped_def by (metis map_of.simps(1) option.distinct(1))
    then have "rows_of (fst (hd ps)) ps = []" by blast
    then show "ps = []" by (cases ps) (auto simp: rows_of_def filter_empty_conv)
  next
    assume "ps = []"
    with g have "\<forall>k. map_of (cs_messages st) k = None" by (simp add: grouped_def rows_of_def)
    then show "cs_messages st = []" by (metis list.set_intros(1) map_of_eq_None_iff imageI neq_Nil_conv)
  qed
  show "rs_error (arus_csv_to_dbc lower parse_int parse_dbl fmt csv_text) = None \<longleftrightarrow> ps \<noteq> []"
    if "lines = split_lines csv_text" "lines \<noteq> []" "find_columns lower (split_csv_line (hd lines)) = Some co"
    using that e by (simp add: arus_csv_to_dbc_def Let_def st_def [symmetric] flip: that(1))
  assume m: "(base, rows) \<in> set (cs_messages st)" and r: "row \<in> set rows"
  have bits: "0 \<le> cr_bit_in x \<and> cr_bit_in x \<le> cr_bit_fin x \<and> cr_bit_fin x \<le> 7" if "x \<in> set rows" for x
  proof -
    from that grouped_member(1) [OF g m] have "(base, x) \<in> set ps" by (auto dest: rows_of_member)
    then obtain fs where "parse_row lower parse_int parse_dbl co fs = Inr (base, x)"
      unfolding ps_def accepted_Inr row_results_def by auto
    then show ?thesis by (rule parse_row_bits)
  qed
  have "cr_bit_fin row < dlc_of rows" "dlc_of rows \<le> 8"
    using fold_max_ge [of 0 cr_bit_fin rows 7] r bits unfolding dlc_of_def by fastforce+
  with bits [OF r] show "0 \<le> start_bit_of row \<and> start_bit_of row < 64 \<and> 8 \<le> length_of row
      \<and> start_bit_of row + length_of row \<le> 8 * dlc_of rows \<and> dlc_of rows \<le> 8"
    by (simp add: start_bit_of_def length_of_def)
qed

text \<open>The conversion's messages are the base ids of the accepted rows in ascending order, each
  with its rows in file order; accepted and skipped rows are together all non-blank data lines. Every
  signal lies within its message's DLC, which is at most eight bytes.\<close>

theorem csv_rows_grouped:
  "let ps = accepted (row_results lower parse_int parse_dbl co lines);
       st = read_rows lower parse_int parse_dbl co lines
   in sorted_wrt (<) (map fst (cs_messages st))
    \<and> (\<forall>k. map_of (cs_messages st) k = (if rows_of k ps = [] then None else Some (rows_of k ps)))
    \<and> cs_skipped st + length ps = length (filter (\<lambda>l. trim l \<noteq> []) (tl lines))
    \<and> (\<forall>(base, rows) \<in> set (cs_messages st). \<forall>row \<in> set rows.
        0 \<le> start_bit_of row \<and> start_bit_of row < 64 \<and> 8 \<le> length_of row
        \<and> start_bit_of row + length_of row \<le> 8 * dlc_of rows \<and> dlc_of rows \<le> 8)
    \<and> (\<forall>csv_text. lines = split_lines csv_text \<and> lines \<noteq> [] \<and> find_columns lower (split_csv_line (hd lines)) = Some co \<longrightarrow>
        (rs_error (arus_csv_to_dbc lower parse_int parse_dbl fmt csv_text) = None \<longleftrightarrow> ps \<noteq> []))"
proof -
  have "\<forall>(base, rows) \<in> set (cs_messages (read_rows lower parse_int parse_dbl co lines)). \<forall>row \<in> set rows.
        0 \<le> start_bit_of row \<and> start_bit_of row < 64 \<and> 8 \<le> length_of row
        \<and> start_bit_of row + length_of row \<le> 8 * dlc_of rows \<and> dlc_of rows \<le> 8"
    using csv_rows_facts(4) by blast
  then show ?thesis
    unfolding Let_def
    by (intro conjI allI impI csv_rows_facts(1) csv_rows_facts(2) csv_rows_facts(3) csv_rows_facts(5)) auto
qed

text \<open>The decoder resolves every base id of a converted dictionary to that id's own message, for
  the frame format (standard or extended) that the id implies.\<close>

theorem csv_ids_resolve:
  assumes "map dm_id msgs = map (\<lambda>g. dbc_id_of (fst g)) (cs_messages (read_rows lower parse_int parse_dbl co lines))"
    and "\<forall>m \<in> set msgs. message_layout_in_range m"
    and "\<forall>g \<in> set (cs_messages (read_rows lower parse_int parse_dbl co lines)). fst g < 0x80000000"
    and "j < length msgs" "base = fst (cs_messages (read_rows lower parse_int parse_dbl co lines) ! j)"
  shows "resolve_message msgs base (base > 0x7FF) = Some (msgs ! j)"
proof -
  define gs where "gs = cs_messages (read_rows lower parse_int parse_dbl co lines)"
  note a = assms [unfolded gs_def [symmetric]]
  have len: "length gs = length msgs" using arg_cong [OF a(1), of length] by simp
  have "grouped (accepted (row_results lower parse_int parse_dbl co lines)) gs"
    using read_rows_groups gs_def by blast
  then have "distinct (map fst gs)" by (simp add: grouped_def strict_sorted_iff)
  then have "distinct (map (\<lambda>g. dbc_id_of (fst g)) gs)"
    using a(3) by (auto simp: distinct_map inj_on_def dest!: dbc_id_inj [rotated 2])
  then have d: "distinct (map dm_id msgs)" using a(1) by simp
  have id: "dm_id (msgs ! j) = dbc_id_of base"
    using arg_cong [OF a(1), of "\<lambda>l. l ! j"] a(4,5) len by simp
  have f: "filter message_layout_in_range msgs = msgs" using a(2) by (simp add: filter_True)
  have "last_message msgs (dbc_id_of base) = Some (msgs ! j)"
    using find_rev_nth [OF d a(4)] by (simp add: last_message_def f id)
  then show ?thesis
    by (auto simp: resolve_message_def dbc_id_of_def extended_flag_def split: if_splits)
qed

text \<open>The signal names written to the DBC text are pairwise distinct, unless a sanitised name of
  the file is another one with a generated suffix.\<close>

theorem csv_names_distinct:
  assumes "\<forall>a \<in> set raws. \<forall>b \<in> set raws. \<forall>n \<ge> 2. sanitized_base a \<noteq> sanitized_base b @ ''_'' @ nat_text n"
  shows "distinct (fst (sanitize_all raws (\<lambda>n. None)))"
proof (rule sanitize_all_names [THEN conjunct1])
  show "\<forall>a \<in> sanitized_base ` set raws. \<forall>b \<in> sanitized_base ` set raws. \<forall>n \<ge> 2. a \<noteq> b @ ''_'' @ nat_text n"
    using assms by (simp only: ball_simps)
qed simp_all

text \<open>The suffix is not checked against the names already given: the names Foo, Foo and Foo_2 of
  one message are written as Foo, Foo_2 and Foo_2.\<close>

theorem csv_names_clash:
  "fst (sanitize_all [''Foo'', ''Foo'', ''Foo_2''] (\<lambda>n. None)) = [''Foo'', ''Foo_2'', ''Foo_2'']"
  by code_simp

subsection \<open>Witnesses\<close>

lemma csv_lines_read_back_witness:
  "split_lines ([CHR 0xEF, CHR 0xBB, CHR 0xBF] @ concat (map (\<lambda>l. l @ [CHR 0x0D, CHR 0x0A]) [''ID,Name'', []]) @ ''10,a'')
     = [''ID,Name'', []] @ (if ''10,a'' = [] then [] else [''10,a''])"
  by (rule csv_lines_read_back) simp_all

definition sample_lower :: "string \<Rightarrow> string" where
  "sample_lower s = map (\<lambda>c. if ascii CHR ''A'' \<le> ascii c \<and> ascii c \<le> ascii CHR ''Z'' then char_of (ascii c + 32) else c) s"

definition sample_number :: "string \<Rightarrow> int option" where
  "sample_number s = (if s \<noteq> [] \<and> list_all is_digit s then Some (fold (\<lambda>c a. 10 * a + digit_val c) s 0) else None)"

definition sample_columns :: columns where
  "sample_columns = \<lparr>co_id = 0, co_bit_in = 1, co_bit_fin = 2, co_signed = 3, co_scale = 4, co_offset = 5, co_name = 6\<rparr>"

definition sample_lines :: "string list" where
  "sample_lines = [''ID,bitIn,bitFin,Signed,Scale,Offset,Name'', ''0x1801,2,3,True,1,0,B'', ''12,0,8,no,1,0,C'', ''  '',
     ''0x1800,0,1,no,1,0,A'', ''900,0,7,1,1,0,D'']"

lemma sample_rows:
  "map (\<lambda>g. (fst g, map cr_name (snd g))) (cs_messages (read_rows sample_lower sample_number sample_number sample_columns sample_lines))
     = [(0x180, [''B'', ''A'']), (0x900, [''D''])]"
  by code_simp

definition sample_groups :: "(32 word \<times> int csv_row list) list" where
  "sample_groups = cs_messages (read_rows sample_lower sample_number sample_number sample_columns sample_lines)"

lemma csv_rows_grouped_witness:
  "start_bit_of (hd (snd (sample_groups ! 0))) + length_of (hd (snd (sample_groups ! 0)))
     \<le> 8 * dlc_of (snd (sample_groups ! 0))"
proof -
  have "sample_groups \<noteq> []" "snd (sample_groups ! 0) \<noteq> []" by code_simp+
  then have m: "sample_groups ! 0 \<in> set sample_groups"
    "hd (snd (sample_groups ! 0)) \<in> set (snd (sample_groups ! 0))" by simp_all
  note csv_rows_grouped [of sample_lower sample_number sample_number sample_columns sample_lines, unfolded Let_def,
      folded sample_groups_def, THEN conjunct2, THEN conjunct2, THEN conjunct2, THEN conjunct1]
  with m show ?thesis by fastforce
qed

definition group_message :: "32 word \<times> int csv_row list \<Rightarrow> int dbc_message" where
  "group_message g = \<lparr>dm_id = dbc_id_of (fst g), dm_name = drop 2 (hex_id (fst g)), dm_size = nat (dlc_of (snd g)),
     dm_signals = map (\<lambda>r. \<lparr>ds_name = cr_name r, ds_unit = [], ds_factor = cr_scale r, ds_offset = cr_offset r,
       ds_signed = cr_signed r, ds_size = word_of_int (length_of r), ds_start_bit = word_of_int (start_bit_of r),
       ds_values = []\<rparr>) (snd g),
     dm_parse = (\<lambda>bs. None)\<rparr>"

lemma csv_ids_resolve_witness:
  "resolve_message (map group_message sample_groups) (fst (sample_groups ! 1)) (fst (sample_groups ! 1) > 0x7FF)
     = Some (map group_message sample_groups ! 1)"
proof (rule csv_ids_resolve [where lower = sample_lower and parse_int = sample_number and parse_dbl = sample_number
      and co = sample_columns and lines = sample_lines])
  show "map dm_id (map group_message sample_groups) = map (\<lambda>g. dbc_id_of (fst g))
      (cs_messages (read_rows sample_lower sample_number sample_number sample_columns sample_lines))"
    by (simp add: sample_groups_def group_message_def)
  have "list_all message_layout_in_range (map group_message sample_groups)" by code_simp
  then show "\<forall>m \<in> set (map group_message sample_groups). message_layout_in_range m" by (simp add: list_all_iff)
  have "list_all (\<lambda>g. fst g < 0x80000000) sample_groups" by code_simp
  then show "\<forall>g \<in> set (cs_messages (read_rows sample_lower sample_number sample_number sample_columns sample_lines)).
      fst g < 0x80000000" by (simp add: list_all_iff sample_groups_def)
  show "1 < length (map group_message sample_groups)" by code_simp
qed (simp add: sample_groups_def)

lemma csv_names_distinct_witness:
  "distinct (fst (sanitize_all [''Speed'', ''Speed'', ''wheel speed''] (\<lambda>n. None)))"
proof (rule csv_names_distinct)
  have s: "sanitized_base ''Speed'' = ''Speed''" "sanitized_base ''wheel speed'' = ''wheel_speed''" by code_simp+
  show "\<forall>a \<in> set [''Speed'', ''Speed'', ''wheel speed'']. \<forall>b \<in> set [''Speed'', ''Speed'', ''wheel speed''].
      \<forall>n \<ge> 2. sanitized_base a \<noteq> sanitized_base b @ ''_'' @ nat_text n"
    by (auto simp: s)
qed

end
