(* ===== verification/CandumpImport.thy ===== *)
theory CandumpImport
  imports CandumpScan CsvDictionary "HOL-Library.Sublist"
begin

unbundle bit_operations_syntax

section \<open>Importing a capture (data_load_candump/candump_source.cpp)\<close>

text \<open>
  \<open>CandumpSource::importData\<close>: the time mode, the dictionaries, the import loop with its per-interface
  topic caches, and the summary. The write and runtime hosts are outside the repository. Every call to
  them is an entry of a log, in call order, and their answers (\<open>ensureTopic\<close>, \<open>isStopRequested\<close>,
  \<open>progressUpdate\<close>) are functions of the log so far, the parameters of the record \<open>host\<close>. The map of
  interfaces owns its buckets at stable addresses, so the pointer \<open>current_topics\<close> is the key of the
  bucket it points to. Counters of lines are \<open>nat\<close>. Facts shown: every line is counted exactly once;
  the cached loop makes the calls of a reference loop that looks topics up by interface, id and frame
  format; record timestamps are those of the timeline clock, in file order.
\<close>

datatype ('h, 'd) host_call =
    ProgressStart nat
  | Report string string
  | EnsureTopic string
  | AppendRecord 'h int "'d row"
  | AskStop
  | ProgressUpdate nat

type_synonym ('h, 'd) call_log = "('h, 'd) host_call list"

record ('h, 'd) host =
  h_topic :: "('h, 'd) call_log \<Rightarrow> string \<Rightarrow> 'h option"
  h_stop :: "('h, 'd) call_log \<Rightarrow> bool"
  h_progress :: "('h, 'd) call_log \<Rightarrow> nat \<Rightarrow> bool"

definition frame_key :: "32 word \<Rightarrow> bool \<Rightarrow> 64 word" where
  "frame_key can_id extended = push_bit 1 (ucast can_id) OR (if extended then 1 else 0)"

record ('h, 'd) topics =
  it_decoder :: "'d can_decoder option"
  it_decoded :: "64 word \<Rightarrow> 'h option"
  it_raw :: "64 word \<Rightarrow> 'h option"

record ('h, 'd) import_state =
  im_topics :: "string \<Rightarrow> ('h, 'd) topics option"
  im_current :: "string option"
  im_last :: string
  im_topic_count :: nat
  im_seen :: nat
  im_line_no :: nat
  im_bytes_read :: nat
  im_decoded :: nat
  im_unmatched :: nat
  im_undecodable :: nat
  im_no_dictionary :: nat
  im_counters :: recognized
  im_malformed :: nat
  im_first_malformed :: "nat list"
  im_clock :: clock
  im_cancelled :: bool
  im_log :: "('h, 'd) call_log"

definition import_init :: "time_mode \<Rightarrow> ('h, 'd) call_log \<Rightarrow> ('h, 'd) import_state" where
  "import_init mode log =
     \<lparr>im_topics = (\<lambda>i. None), im_current = None, im_last = [], im_topic_count = 0, im_seen = 0, im_line_no = 0,
      im_bytes_read = 0, im_decoded = 0, im_unmatched = 0, im_undecodable = 0, im_no_dictionary = 0,
      im_counters = no_recognized, im_malformed = 0, im_first_malformed = [], im_clock = new_clock mode,
      im_cancelled = False, im_log = log\<rparr>"

definition logged :: "('h, 'd) host_call \<Rightarrow> ('h, 'd) import_state \<Rightarrow> ('h, 'd) import_state" where
  "logged c st = st\<lparr>im_log := im_log st @ [c]\<rparr>"

subsection \<open>The loop body\<close>

text \<open>The cancellation poll, once every 4096 non-empty lines.\<close>

definition poll :: "('h, 'd) host \<Rightarrow> nat \<Rightarrow> ('h, 'd) import_state \<Rightarrow> ('h, 'd) import_state" where
  "poll host total_bytes st =
     (if im_seen st mod 4096 \<noteq> 0 then st
      else if h_stop host (im_log st) then (logged AskStop st)\<lparr>im_cancelled := True\<rparr>
      else let st1 = logged AskStop st; sent = min (im_bytes_read st1) total_bytes in
        if total_bytes > 0
        then (logged (ProgressUpdate sent) st1)\<lparr>im_cancelled := \<not> h_progress host (im_log st1) sent\<rparr>
        else st1)"

definition select_bucket ::
  "(string \<Rightarrow> 'd can_decoder option) \<Rightarrow> string \<Rightarrow> ('h, 'd) import_state \<Rightarrow> ('h, 'd) import_state" where
  "select_bucket decoders iface st =
     (if im_current st = None \<or> iface \<noteq> im_last st
      then st\<lparr>im_last := iface, im_current := Some iface,
              im_topics := (if im_topics st iface = None
                then (im_topics st)(iface \<mapsto> \<lparr>it_decoder = decoders iface, it_decoded = (\<lambda>k. None), it_raw = (\<lambda>k. None)\<rparr>)
                else im_topics st)\<rparr>
      else st)"

text \<open>\<open>*current_topics\<close>, set before every use.\<close>

definition current_topics :: "('h, 'd) import_state \<Rightarrow> ('h, 'd) topics" where
  "current_topics st = the (im_topics st (the (im_current st)))"

definition set_current :: "('h, 'd) topics \<Rightarrow> ('h, 'd) import_state \<Rightarrow> ('h, 'd) import_state" where
  "set_current t st = st\<lparr>im_topics := (im_topics st)(the (im_current st) \<mapsto> t)\<rparr>"

definition decoded_frame ::
  "('h, 'd) host \<Rightarrow> 'd can_decoder \<Rightarrow> parsed_line \<Rightarrow> int \<Rightarrow> 'd decoded_signal list \<Rightarrow>
   ('h, 'd) import_state \<Rightarrow> ('h, 'd) import_state" where
  "decoded_frame host decoder p ts sigs st0 =
     (let st = st0\<lparr>im_decoded := im_decoded st0 + 1\<rparr>;
          key = frame_key (pl_can_id p) (pl_extended p)
      in case it_decoded (current_topics st) key of
           Some h \<Rightarrow> logged (AppendRecord h ts (build_row sigs)) st
         | None \<Rightarrow>
             (let name = can_topic_name (pl_interface p) (message_name decoder (pl_can_id p) (pl_extended p)) (pl_can_id p);
                  st1 = logged (EnsureTopic name) st
              in case h_topic host (im_log st) name of
                   None \<Rightarrow> st1
                 | Some h \<Rightarrow>
                     (let t = current_topics st1;
                          st2 = set_current (t\<lparr>it_decoded := (it_decoded t)(key \<mapsto> h)\<rparr>) st1
                      in logged (AppendRecord h ts (build_row sigs))
                           (st2\<lparr>im_topic_count := im_topic_count st2 + 1\<rparr>))))"

definition byte_field_names :: "string list" where
  "byte_field_names = map (\<lambda>i. ''byte'' @ nat_text i) [0..<8]"

definition raw_row :: "8 word list \<Rightarrow> 'd row" where
  "raw_row bytes = map (\<lambda>(i, b). (byte_field_names ! i, FInt (uint b))) (enumerate 0 bytes)"

definition raw_frame ::
  "('h, 'd) host \<Rightarrow> parsed_line \<Rightarrow> int \<Rightarrow> ('h, 'd) import_state \<Rightarrow> ('h, 'd) import_state" where
  "raw_frame host p ts st =
     (let key = frame_key (pl_can_id p) (pl_extended p)
      in case it_raw (current_topics st) key of
           Some h \<Rightarrow> logged (AppendRecord h ts (raw_row (pl_data p))) st
         | None \<Rightarrow>
             (let name = can_topic_name (pl_interface p) [] (pl_can_id p);
                  st1 = logged (EnsureTopic name) st
              in case h_topic host (im_log st) name of
                   None \<Rightarrow> st1
                 | Some h \<Rightarrow>
                     (let t = current_topics st1
                      in logged (AppendRecord h ts (raw_row (pl_data p)))
                           (set_current (t\<lparr>it_raw := (it_raw t)(key \<mapsto> h)\<rparr>) st1))))"

definition count_undecoded :: "bool \<Rightarrow> decode_result \<Rightarrow> ('h, 'd) import_state \<Rightarrow> ('h, 'd) import_state" where
  "count_undecoded has_decoder result st =
     (if \<not> has_decoder then st\<lparr>im_no_dictionary := im_no_dictionary st + 1\<rparr>
      else if result = Undecodable then st\<lparr>im_undecodable := im_undecodable st + 1\<rparr>
      else st\<lparr>im_unmatched := im_unmatched st + 1\<rparr>)"

definition import_frame ::
  "('h, 'd) host \<Rightarrow> ('d \<Rightarrow> 'd \<Rightarrow> 'd \<Rightarrow> int) \<Rightarrow> (string \<Rightarrow> 'd can_decoder option) \<Rightarrow> bool \<Rightarrow> parsed_line \<Rightarrow> int \<Rightarrow>
   ('h, 'd) import_state \<Rightarrow> ('h, 'd) import_state" where
  "import_frame host dbl_raw decoders raw_unassigned p ts st0 =
     (let st = select_bucket decoders (pl_interface p) st0;
          undecoded = (\<lambda>has result. let st1 = count_undecoded has result st in
                         if raw_unassigned then raw_frame host p ts st1 else st1)
      in case it_decoder (current_topics st) of
           None \<Rightarrow> undecoded False NoMatch
         | Some decoder \<Rightarrow>
             (case decode dbl_raw decoder (pl_can_id p) (pl_extended p) (pl_data p) of
                (result, sigs) \<Rightarrow>
                  if result = Decoded \<and> sigs \<noteq> [] then decoded_frame host decoder p ts sigs st
                  else undecoded True result))"

text \<open>The switch on the line kind.\<close>

definition import_parsed ::
  "('h, 'd) host \<Rightarrow> ('d \<Rightarrow> 'd \<Rightarrow> 'd \<Rightarrow> int) \<Rightarrow> (string \<Rightarrow> 'd can_decoder option) \<Rightarrow> bool \<Rightarrow> parsed_line \<Rightarrow> int option \<Rightarrow>
   ('h, 'd) import_state \<Rightarrow> ('h, 'd) import_state" where
  "import_parsed host dbl_raw decoders raw_unassigned p timeline_ns st =
     (let c = im_counters st in
      case pl_kind p of
        LkMalformed \<Rightarrow> st\<lparr>im_malformed := im_malformed st + 1,
          im_first_malformed := (if length (im_first_malformed st) < 3 then im_first_malformed st @ [im_line_no st]
                                 else im_first_malformed st)\<rparr>
      | LkWallClockTs \<Rightarrow> st\<lparr>im_counters := c\<lparr>rc_wall_clock := rc_wall_clock c + 1\<rparr>\<rparr>
      | LkDropCount \<Rightarrow> st\<lparr>im_counters := c\<lparr>rc_dropcount := rc_dropcount c + 1,
          rc_dropped_total := rc_dropped_total c + pl_dropped p\<rparr>\<rparr>
      | LkErrorDetail \<Rightarrow> st\<lparr>im_counters := c\<lparr>rc_error_detail := rc_error_detail c + 1\<rparr>\<rparr>
      | LkRtr \<Rightarrow> st\<lparr>im_counters := c\<lparr>rc_rtr := rc_rtr c + 1\<rparr>\<rparr>
      | LkFd \<Rightarrow> st\<lparr>im_counters := c\<lparr>rc_fd := rc_fd c + 1\<rparr>\<rparr>
      | LkXl \<Rightarrow> st\<lparr>im_counters := c\<lparr>rc_xl := rc_xl c + 1\<rparr>\<rparr>
      | LkError \<Rightarrow> st\<lparr>im_counters := c\<lparr>rc_error := rc_error c + 1\<rparr>\<rparr>
      | LkData \<Rightarrow> import_frame host dbl_raw decoders raw_unassigned p (the timeline_ns) st)"

definition import_line ::
  "('h, 'd) host \<Rightarrow> ('d \<Rightarrow> 'd \<Rightarrow> 'd \<Rightarrow> int) \<Rightarrow> (string \<Rightarrow> 'd can_decoder option) \<Rightarrow> bool \<Rightarrow> nat \<Rightarrow> string \<Rightarrow>
   ('h, 'd) import_state \<Rightarrow> ('h, 'd) import_state" where
  "import_line host dbl_raw decoders raw_unassigned total_bytes line st0 =
     (let st1 = st0\<lparr>im_line_no := im_line_no st0 + 1, im_bytes_read := im_bytes_read st0 + length line + 1\<rparr> in
      if line = [] then st1
      else let st2 = poll host total_bytes (st1\<lparr>im_seen := im_seen st1 + 1\<rparr>) in
        if im_cancelled st2 then st2
        else let p = parse_line line in
          (case clock_advance (im_clock st2) p of
             (timeline_ns, ck) \<Rightarrow>
               import_parsed host dbl_raw decoders raw_unassigned p timeline_ns (st2\<lparr>im_clock := ck\<rparr>)))"

fun import_loop ::
  "('h, 'd) host \<Rightarrow> ('d \<Rightarrow> 'd \<Rightarrow> 'd \<Rightarrow> int) \<Rightarrow> (string \<Rightarrow> 'd can_decoder option) \<Rightarrow> bool \<Rightarrow> nat \<Rightarrow> string list \<Rightarrow>
   ('h, 'd) import_state \<Rightarrow> ('h, 'd) import_state" where
  "import_loop host dbl_raw decoders raw_unassigned total_bytes [] st = st"
| "import_loop host dbl_raw decoders raw_unassigned total_bytes (line # lines) st =
     (let st1 = import_line host dbl_raw decoders raw_unassigned total_bytes line st in
      if im_cancelled st1 then st1
      else import_loop host dbl_raw decoders raw_unassigned total_bytes lines st1)"

subsection \<open>Dictionaries\<close>

text \<open>\<open>std::filesystem::path::extension\<close>: the file name's text from its last dot, empty for a name that
  starts with its only dot.\<close>

definition path_extension :: "string \<Rightarrow> string" where
  "path_extension path =
     (let file = rev (takeWhile (\<lambda>c. c \<noteq> CHR ''/'') (rev path)) in
      if file = ''..'' \<or> CHR ''.'' \<notin> set (tl file) then [] else last_dot_suffix file)"

definition ends_with_csv :: "(string \<Rightarrow> string) \<Rightarrow> string \<Rightarrow> bool" where
  "ends_with_csv lower path \<longleftrightarrow> lower (path_extension path) = ''.csv''"

text \<open>What the dictionaries are read with: the SDK's text functions, the DBC library, the file system.\<close>

record 'd dict_env =
  de_lower :: "string \<Rightarrow> string"
  de_parse_int :: "string \<Rightarrow> int option"
  de_parse_dbl :: "string \<Rightarrow> 'd option"
  de_fmt :: "'d \<Rightarrow> string"
  de_zero :: "'d \<Rightarrow> bool"
  de_parse_dbc :: "string \<Rightarrow> string + 'd dbc_message list"
  de_non_dbc :: "string \<Rightarrow> string \<Rightarrow> string"
  de_fs :: "string \<Rightarrow> file_content"

definition warn :: "string \<Rightarrow> ('h, 'd) call_log \<Rightarrow> ('h, 'd) call_log" where
  "warn msg log = log @ [Report ''warning'' msg]"

definition load_path ::
  "'d dict_env \<Rightarrow> string \<Rightarrow> 'd can_decoder \<times> ('h, 'd) call_log \<Rightarrow> 'd can_decoder \<times> ('h, 'd) call_log" where
  "load_path env path acc =
     (case acc of (decoder, log) \<Rightarrow>
        let (status, decoder1, log1) =
          (if ends_with_csv (de_lower env) path
           then (case read_aux_file (de_fs env) path ''dictionary'' of
                   Inl err \<Rightarrow> (Some err, decoder, log)
                 | Inr csv_text \<Rightarrow>
                     (let r = arus_csv_to_dbc (de_lower env) (de_parse_int env) (de_parse_dbl env) (de_fmt env) csv_text;
                          (status, decoder1) =
                            (if rs_error r = None then load_dbc_string (de_zero env) (de_parse_dbc env) (rs_dbc r) decoder
                             else (rs_error r, decoder));
                          log1 = (if rs_warnings r \<noteq> [] then warn (path @ '': '' @ rs_warnings r) log else log)
                      in (status, decoder1, log1)))
           else (case load_dbc_file (de_zero env) (de_parse_dbc env) (de_non_dbc env) (de_fs env) path decoder of
                   (status, decoder1) \<Rightarrow> (status, decoder1, log)))
        in (decoder1, case status of None \<Rightarrow> log1 | Some err \<Rightarrow> warn err log1))"

definition load_interface ::
  "'d dict_env \<Rightarrow> string \<times> string list \<Rightarrow> (string \<Rightarrow> 'd can_decoder option) \<times> ('h, 'd) call_log \<Rightarrow>
   (string \<Rightarrow> 'd can_decoder option) \<times> ('h, 'd) call_log" where
  "load_interface env entry acc =
     (case (entry, acc) of ((iface, paths), (decoders, log)) \<Rightarrow>
        (case fold (load_path env) paths (new_decoder, log) of
           (decoder, log1) \<Rightarrow> (decoders(iface \<mapsto> decoder), log1)))"

definition load_dictionaries ::
  "'d dict_env \<Rightarrow> (string \<times> string list) list \<Rightarrow> ('h, 'd) call_log \<Rightarrow>
   (string \<Rightarrow> 'd can_decoder option) \<times> ('h, 'd) call_log" where
  "load_dictionaries env dicts log =
     (case fold (load_interface env) dicts (\<lambda>i. None, log) of
        (decoders, log1) \<Rightarrow>
          (decoders, if dicts = []
             then warn ''no dictionary assigned to any interface; nothing will be decoded'' log1 else log1))"

subsection \<open>The import\<close>

definition optional_part :: "nat \<Rightarrow> string \<Rightarrow> string" where
  "optional_part n what = (if n > 0 then ''; '' @ nat_text n @ what else [])"

fun comma_separated :: "nat list \<Rightarrow> string" where
  "comma_separated [] = []"
| "comma_separated [n] = nat_text n"
| "comma_separated (n # ns) = nat_text n @ '', '' @ comma_separated ns"

definition import_summary :: "('h, 'd) import_state \<Rightarrow> string" where
  "import_summary st =
     (let c = im_counters st;
          s = ''Decoded '' @ nat_text (im_decoded st) @ '' CAN frame(s) into '' @ nat_text (im_topic_count st) @
              '' message topic(s)'' @
              optional_part (im_no_dictionary st) '' frame(s) on interfaces with no dictionary'' @
              optional_part (im_unmatched st) '' frame(s) had no dictionary match'' @
              optional_part (im_undecodable st) '' matched frame(s) could not be decoded (truncated frame)'' @
              optional_part (rc_rtr c) '' RTR frame(s) (recognized, not decoded)'' @
              optional_part (rc_fd c) '' CAN FD frame(s) (recognized, not decoded)'' @
              optional_part (rc_xl c) '' CAN XL frame(s) (recognized, not decoded)'' @
              optional_part (rc_error c) '' error frame(s) (recognized, not decoded)''
      in append_wall_clock c (append_drop_count c (append_error_detail c s)) @
         (if im_malformed st > 0
          then ''; '' @ nat_text (im_malformed st) @ '' malformed line(s) (first: '' @
               comma_separated (im_first_malformed st) @ '')''
          else []))"

definition mode_warning :: "time_mode \<Rightarrow> string option" where
  "mode_warning mode =
     (let tail = ''and do not carry wall-clock information; align this dataset against others in the Source Timeline manually'' in
      case mode of
        TmRelativeDelta \<Rightarrow> Some (''timestamps look like `-t d` (delta since previous frame) '' @ tail)
      | TmRelativeMonotonic \<Rightarrow> Some (''timestamps look relative (`-t z`, seconds since capture start) '' @ tail)
      | TmAbsolute \<Rightarrow> None)"

text \<open>The file is opened twice: \<open>cf_prescan\<close> and \<open>cf_lines\<close> are the lines each opening delivers.\<close>

record capture =
  cf_path :: string
  cf_size :: "nat option"
  cf_prescan :: "string list option"
  cf_lines :: "string list option"

record import_config =
  ic_dicts :: "(string \<times> string list) list"
  ic_override :: "time_mode option"
  ic_raw_unassigned :: bool

definition import_data ::
  "('h, 'd) host \<Rightarrow> 'd dict_env \<Rightarrow> ('d \<Rightarrow> 'd \<Rightarrow> 'd \<Rightarrow> int) \<Rightarrow> capture \<Rightarrow> import_config \<Rightarrow>
   string option \<times> ('h, 'd) call_log" where
  "import_data host env dbl_raw cap cfg =
     (if cf_path cap = [] then (Some ''no filepath configured'', [])
      else let total_bytes = (case cf_size cap of None \<Rightarrow> 0 | Some n \<Rightarrow> n);
               log0 = [ProgressStart total_bytes] in
        case cf_prescan cap of
          None \<Rightarrow> (Some (''cannot open file: '' @ cf_path cap), log0)
        | Some stream \<Rightarrow>
            let scan = prescan_candump stream scan_cap in
            if \<not> td_saw_numeric (ps_time_mode scan) \<and> ic_override cfg = None
            then (Some (''no timestamps found in this file -- record with `candump -l` (or `-t z`/`-t d`); ''
                        @ ''wall-clock `-t a` timestamps are not supported in this version''), log0)
            else
              let mode = (case ic_override cfg of Some m \<Rightarrow> m | None \<Rightarrow> td_mode (ps_time_mode scan));
                  log1 = (case mode_warning mode of None \<Rightarrow> log0 | Some msg \<Rightarrow> warn msg log0);
                  (decoders, log2) = load_dictionaries env (ic_dicts cfg) log1
              in case cf_lines cap of
                   None \<Rightarrow> (Some (''cannot open file: '' @ cf_path cap), log2)
                 | Some lines \<Rightarrow>
                     let st = import_loop host dbl_raw decoders (ic_raw_unassigned cfg) total_bytes lines (import_init mode log2)
                     in if im_cancelled st then (Some ''import cancelled'', im_log st)
                        else if h_stop host (im_log st) then (Some ''import cancelled'', im_log st @ [AskStop])
                        else (None, im_log st @ [AskStop, ProgressUpdate total_bytes, Report ''info'' (import_summary st)]))"

subsection \<open>What a frame changes\<close>

text \<open>The fields the counting and the clock rest on.\<close>

definition frame_total :: "('h, 'd) import_state \<Rightarrow> nat" where
  "frame_total st = im_decoded st + im_unmatched st + im_undecodable st + im_no_dictionary st"

definition side :: "('h, 'd) import_state \<Rightarrow> nat \<times> nat \<times> nat \<times> recognized \<times> nat \<times> nat list \<times> clock \<times> bool" where
  "side st = (im_seen st, im_line_no st, im_bytes_read st, im_counters st, im_malformed st, im_first_malformed st,
     im_clock st, im_cancelled st)"

lemma side_small [simp]:
  "side (logged c st) = side st" "frame_total (logged c st) = frame_total st"
  "side (set_current t st) = side st" "frame_total (set_current t st) = frame_total st"
  "side (select_bucket decoders iface st) = side st" "frame_total (select_bucket decoders iface st) = frame_total st"
  "side (count_undecoded has result st) = side st" "frame_total (count_undecoded has result st) = frame_total st + 1"
  "side (st\<lparr>im_topic_count := n\<rparr>) = side st" "frame_total (st\<lparr>im_topic_count := n\<rparr>) = frame_total st"
  "side (st\<lparr>im_decoded := n\<rparr>) = side st" "frame_total (st\<lparr>im_decoded := im_decoded st + 1\<rparr>) = frame_total st + 1"
  by (simp_all add: side_def frame_total_def logged_def set_current_def select_bucket_def count_undecoded_def)

lemma side_raw [simp]: "side (raw_frame host p ts st) = side st" "frame_total (raw_frame host p ts st) = frame_total st"
  by (simp_all add: raw_frame_def Let_def split: option.split)

lemma side_decoded [simp]:
  "side (decoded_frame host d p ts sigs st) = side st"
  "frame_total (decoded_frame host d p ts sigs st) = frame_total st + 1"
  unfolding decoded_frame_def Let_def
  by (simp_all del: One_nat_def add_Suc_right split: option.split)

lemma side_frame:
  "side (import_frame host dbl_raw decoders raw p ts st) = side st"
  "frame_total (import_frame host dbl_raw decoders raw p ts st) = frame_total st + 1"
  unfolding import_frame_def Let_def by (simp_all split: option.split prod.split)

lemma side_poll:
  "side (poll host total_bytes st) =
     (im_seen st, im_line_no st, im_bytes_read st, im_counters st, im_malformed st, im_first_malformed st, im_clock st,
      im_cancelled (poll host total_bytes st))"
  "frame_total (poll host total_bytes st) = frame_total st"
  "im_topics (poll host total_bytes st) = im_topics st" "im_current (poll host total_bytes st) = im_current st"
  "im_last (poll host total_bytes st) = im_last st"
  by (auto simp: poll_def Let_def logged_def side_def frame_total_def)

subsection \<open>Counting\<close>

text \<open>The counters after the parsed lines \<open>ps\<close>.\<close>

definition accounted :: "parsed_line list \<Rightarrow> ('h, 'd) import_state \<Rightarrow> bool" where
  "accounted ps st \<longleftrightarrow> frame_total st = kinds LkData ps \<and> im_malformed st = kinds LkMalformed ps
     \<and> im_seen st = length ps
     \<and> rc_wall_clock (im_counters st) = kinds LkWallClockTs ps \<and> rc_dropcount (im_counters st) = kinds LkDropCount ps
     \<and> rc_error_detail (im_counters st) = kinds LkErrorDetail ps \<and> rc_rtr (im_counters st) = kinds LkRtr ps
     \<and> rc_fd (im_counters st) = kinds LkFd ps \<and> rc_xl (im_counters st) = kinds LkXl ps
     \<and> rc_error (im_counters st) = kinds LkError ps \<and> length (im_first_malformed st) = min 3 (kinds LkMalformed ps)"

lemma accounted_parsed:
  assumes "accounted ps (st\<lparr>im_seen := im_seen st - 1\<rparr>)" "0 < im_seen st"
  shows "accounted (ps @ [p]) (import_parsed host dbl_raw decoders raw p ts st)"
proof (cases "pl_kind p")
  case LkData
  have "import_parsed host dbl_raw decoders raw p ts st = import_frame host dbl_raw decoders raw p (the ts) st"
    using LkData by (simp add: import_parsed_def Let_def)
  with assms side_frame [of host dbl_raw decoders raw p "the ts" st] LkData show ?thesis
    by (auto simp: accounted_def side_def frame_total_def kinds_def)
qed (use assms in \<open>auto simp: accounted_def import_parsed_def Let_def frame_total_def kinds_def min_def\<close>)

lemma side_parsed:
  "im_cancelled (import_parsed host dbl_raw decoders raw p ts st) = im_cancelled st"
  "im_clock (import_parsed host dbl_raw decoders raw p ts st) = im_clock st"
  "im_seen (import_parsed host dbl_raw decoders raw p ts st) = im_seen st"
  "im_bytes_read (import_parsed host dbl_raw decoders raw p ts st) = im_bytes_read st"
  "im_line_no (import_parsed host dbl_raw decoders raw p ts st) = im_line_no st"
  using side_frame(1) [of host dbl_raw decoders raw p "the ts" st]
  by (auto simp: import_parsed_def Let_def side_def split: line_kind.splits)

lemma accounted_line:
  assumes "accounted ps st" "\<not> im_cancelled (import_line host dbl_raw decoders raw total_bytes line st)"
  shows "accounted (ps @ map parse_line (filter (\<lambda>l. l \<noteq> []) [line]))
      (import_line host dbl_raw decoders raw total_bytes line st)
    \<and> im_line_no (import_line host dbl_raw decoders raw total_bytes line st) = im_line_no st + 1"
proof (cases "line = []")
  case True
  with assms show ?thesis by (simp add: import_line_def accounted_def frame_total_def)
next
  case False
  let ?st = "st\<lparr>im_line_no := im_line_no st + 1, im_bytes_read := im_bytes_read st + length line + 1, im_seen := im_seen st + 1\<rparr>"
  define st2 where "st2 = poll host total_bytes ?st"
  obtain t ck where ck: "clock_advance (im_clock st2) (parse_line line) = (t, ck)" by (metis surj_pair)
  have il: "import_line host dbl_raw decoders raw total_bytes line st =
      (if im_cancelled st2 then st2 else import_parsed host dbl_raw decoders raw (parse_line line) t (st2\<lparr>im_clock := ck\<rparr>))"
    using False ck by (simp add: import_line_def Let_def st2_def)
  with assms(2) have nc: "\<not> im_cancelled st2" by auto
  have f: "im_seen st2 = im_seen st + 1" "im_line_no st2 = im_line_no st + 1" "im_counters st2 = im_counters st"
    "im_malformed st2 = im_malformed st" "im_first_malformed st2 = im_first_malformed st" "frame_total st2 = frame_total st"
    using side_poll(1,2) [of host total_bytes ?st, folded st2_def]
    by (simp_all add: side_def) (simp add: frame_total_def)
  then have "accounted ps ((st2\<lparr>im_clock := ck\<rparr>)\<lparr>im_seen := im_seen (st2\<lparr>im_clock := ck\<rparr>) - 1\<rparr>)"
    using assms(1) by (simp add: accounted_def frame_total_def)
  with il nc f False show ?thesis by (simp add: accounted_parsed side_parsed)
qed

lemma accounted_loop:
  assumes "accounted ps st" "\<not> im_cancelled (import_loop host dbl_raw decoders raw total_bytes lines st)"
  shows "accounted (ps @ map parse_line (filter (\<lambda>l. l \<noteq> []) lines)) (import_loop host dbl_raw decoders raw total_bytes lines st)
    \<and> im_line_no (import_loop host dbl_raw decoders raw total_bytes lines st) = im_line_no st + length lines"
  using assms
proof (induction lines arbitrary: ps st)
  case (Cons line lines)
  let ?s = "import_line host dbl_raw decoders raw total_bytes line st"
  have nc: "\<not> im_cancelled ?s" using Cons.prems(2) by (auto simp: Let_def split: if_splits)
  from accounted_line [OF Cons.prems(1) this] Cons.IH [of _ ?s] Cons.prems(2) nc show ?case
    by (fastforce simp: Let_def)
qed simp

subsection \<open>The reference loop\<close>

text \<open>
  What the loop means without its caches: a topic handle per interface, id, frame format and kind
  (decoded or raw), the log, and nothing else.
\<close>

type_synonym 'h handles = "string \<times> 32 word \<times> bool \<times> bool \<Rightarrow> 'h option"

definition ref_target ::
  "('d \<Rightarrow> 'd \<Rightarrow> 'd \<Rightarrow> int) \<Rightarrow> (string \<Rightarrow> 'd can_decoder option) \<Rightarrow> bool \<Rightarrow> parsed_line \<Rightarrow> (bool \<times> string \<times> 'd row) option" where
  "ref_target dbl_raw decoders raw p =
     (let fallback = (if raw then Some (False, can_topic_name (pl_interface p) [] (pl_can_id p), raw_row (pl_data p)) else None)
      in case decoders (pl_interface p) of
           None \<Rightarrow> fallback
         | Some d \<Rightarrow>
             (case decode dbl_raw d (pl_can_id p) (pl_extended p) (pl_data p) of
                (result, sigs) \<Rightarrow>
                  if result = Decoded \<and> sigs \<noteq> []
                  then Some (True, can_topic_name (pl_interface p) (message_name d (pl_can_id p) (pl_extended p)) (pl_can_id p),
                             build_row sigs)
                  else fallback))"

definition ref_frame ::
  "('h, 'd) host \<Rightarrow> ('d \<Rightarrow> 'd \<Rightarrow> 'd \<Rightarrow> int) \<Rightarrow> (string \<Rightarrow> 'd can_decoder option) \<Rightarrow> bool \<Rightarrow> parsed_line \<Rightarrow> int \<Rightarrow>
   'h handles \<times> ('h, 'd) call_log \<Rightarrow> 'h handles \<times> ('h, 'd) call_log" where
  "ref_frame host dbl_raw decoders raw p ts s =
     (case s of (handles, log) \<Rightarrow>
        case ref_target dbl_raw decoders raw p of
          None \<Rightarrow> (handles, log)
        | Some (dec, name, rw) \<Rightarrow>
            (let key = (pl_interface p, pl_can_id p, pl_extended p, dec) in
             case handles key of
               Some h \<Rightarrow> (handles, log @ [AppendRecord h ts rw])
             | None \<Rightarrow>
                 (case h_topic host log name of
                    None \<Rightarrow> (handles, log @ [EnsureTopic name])
                  | Some h \<Rightarrow> (handles(key \<mapsto> h), log @ [EnsureTopic name, AppendRecord h ts rw]))))"

definition ref_poll :: "('h, 'd) host \<Rightarrow> nat \<Rightarrow> nat \<Rightarrow> nat \<Rightarrow> ('h, 'd) call_log \<Rightarrow> bool \<times> ('h, 'd) call_log" where
  "ref_poll host total_bytes seen bytes log =
     (if seen mod 4096 \<noteq> 0 then (False, log)
      else if h_stop host log then (True, log @ [AskStop])
      else if total_bytes > 0
      then (\<not> h_progress host (log @ [AskStop]) (min bytes total_bytes), log @ [AskStop, ProgressUpdate (min bytes total_bytes)])
      else (False, log @ [AskStop]))"

fun ref_loop ::
  "('h, 'd) host \<Rightarrow> ('d \<Rightarrow> 'd \<Rightarrow> 'd \<Rightarrow> int) \<Rightarrow> (string \<Rightarrow> 'd can_decoder option) \<Rightarrow> bool \<Rightarrow> nat \<Rightarrow> nat \<Rightarrow> nat \<Rightarrow> clock \<Rightarrow>
   string list \<Rightarrow> 'h handles \<times> ('h, 'd) call_log \<Rightarrow> 'h handles \<times> ('h, 'd) call_log" where
  "ref_loop host dbl_raw decoders raw total_bytes seen bytes ck [] s = s"
| "ref_loop host dbl_raw decoders raw total_bytes seen bytes ck (line # lines) s =
     (let bytes1 = bytes + length line + 1 in
      if line = [] then ref_loop host dbl_raw decoders raw total_bytes seen bytes1 ck lines s
      else (case ref_poll host total_bytes (seen + 1) bytes1 (snd s) of
              (stop, log) \<Rightarrow>
                if stop then (fst s, log)
                else (case clock_advance ck (parse_line line) of
                        (ts, ck1) \<Rightarrow>
                          ref_loop host dbl_raw decoders raw total_bytes (seen + 1) bytes1 ck1 lines
                            (if pl_kind (parse_line line) = LkData
                             then ref_frame host dbl_raw decoders raw (parse_line line) (the ts) (fst s, log)
                             else (fst s, log)))))"

subsection \<open>The caches implement it\<close>

lemma frame_key_inj: "frame_key i e = frame_key j f \<longleftrightarrow> i = j \<and> e = f"
proof
  assume a: "frame_key i e = frame_key j f"
  have b0: "bit (frame_key k g) 0 \<longleftrightarrow> g" for k :: "32 word" and g
    unfolding frame_key_def bit_or_iff bit_push_bit_iff by simp
  have bs: "bit (frame_key k g) (Suc n) \<longleftrightarrow> bit k n" if "n < 32" for k :: "32 word" and g n
    using that unfolding frame_key_def bit_or_iff bit_push_bit_iff by (simp add: bit_ucast_iff)
  from a b0 have "e = f" by metis
  moreover have "i = j"
  proof (rule bit_word_eqI)
    fix n assume "n < LENGTH(32)"
    then have "n < 32" by simp
    from a bs [OF this, of i e] bs [OF this, of j f] show "bit i n \<longleftrightarrow> bit j n" by simp
  qed
  ultimately show "i = j \<and> e = f" by simp
qed auto

definition handles_of :: "('h, 'd) import_state \<Rightarrow> 'h handles" where
  "handles_of st = (\<lambda>(iface, i, e, dec). case im_topics st iface of
     None \<Rightarrow> None
   | Some t \<Rightarrow> (if dec then it_decoded t else it_raw t) (frame_key i e))"

definition cache_inv :: "(string \<Rightarrow> 'd can_decoder option) \<Rightarrow> ('h, 'd) import_state \<Rightarrow> bool" where
  "cache_inv decoders st \<longleftrightarrow>
     (\<forall>i t. im_topics st i = Some t \<longrightarrow> it_decoder t = decoders i)
     \<and> (\<forall>k. im_current st = Some k \<longrightarrow> k = im_last st \<and> im_topics st k \<noteq> None)"

lemma select_bucket_facts:
  assumes "cache_inv decoders st"
  shows "cache_inv decoders (select_bucket decoders iface st)"
    and "im_current (select_bucket decoders iface st) = Some iface"
    and "im_topics (select_bucket decoders iface st) iface \<noteq> None"
    and "handles_of (select_bucket decoders iface st) = handles_of st"
    and "im_log (select_bucket decoders iface st) = im_log st"
  using assms by (auto simp: cache_inv_def select_bucket_def handles_of_def fun_eq_iff split: option.splits)

lemma handles_update:
  assumes "im_current st = Some iface" "im_topics st iface = Some t"
  shows "handles_of (set_current (t\<lparr>it_decoded := (it_decoded t)(frame_key i e \<mapsto> h)\<rparr>) st)
      = (handles_of st)((iface, i, e, True) \<mapsto> h)"
    and "handles_of (set_current (t\<lparr>it_raw := (it_raw t)(frame_key i e \<mapsto> h)\<rparr>) st)
      = (handles_of st)((iface, i, e, False) \<mapsto> h)"
  using assms by (auto simp: handles_of_def set_current_def fun_eq_iff frame_key_inj)

lemma cache_inv_set:
  "cache_inv decoders st \<Longrightarrow> im_current st = Some iface \<Longrightarrow> it_decoder t = decoders iface \<Longrightarrow> cache_inv decoders (set_current t st)"
  by (auto simp: cache_inv_def set_current_def)

lemma cache_logged [simp]:
  "cache_inv decoders (logged c st) = cache_inv decoders st" "handles_of (logged c st) = handles_of st"
  "im_log (logged c st) = im_log st @ [c]" "current_topics (logged c st) = current_topics st"
  "im_current (logged c st) = im_current st" "im_topics (logged c st) = im_topics st"
  by (simp_all add: cache_inv_def handles_of_def current_topics_def logged_def)

lemma cache_counters [simp]:
  "cache_inv decoders (st\<lparr>im_topic_count := n\<rparr>) = cache_inv decoders st" "handles_of (st\<lparr>im_topic_count := n\<rparr>) = handles_of st"
  "cache_inv decoders (st\<lparr>im_decoded := n\<rparr>) = cache_inv decoders st" "handles_of (st\<lparr>im_decoded := n\<rparr>) = handles_of st"
  "current_topics (st\<lparr>im_decoded := n\<rparr>) = current_topics st"
  "cache_inv decoders (count_undecoded has result st) = cache_inv decoders st"
  "handles_of (count_undecoded has result st) = handles_of st"
  "current_topics (count_undecoded has result st) = current_topics st"
  "im_log (count_undecoded has result st) = im_log st" "im_current (count_undecoded has result st) = im_current st"
  "im_topics (count_undecoded has result st) = im_topics st"
  "im_log (set_current t st) = im_log st"
  by (simp_all add: cache_inv_def handles_of_def current_topics_def count_undecoded_def set_current_def)

lemma decoded_frame_refines:
  fixes d :: "'d can_decoder"
  assumes inv: "cache_inv decoders st" and cur: "im_current st = Some (pl_interface p)"
    and t: "im_topics st (pl_interface p) = Some t"
  defines "key \<equiv> (pl_interface p, pl_can_id p, pl_extended p, True)"
    and "name \<equiv> can_topic_name (pl_interface p) (message_name d (pl_can_id p) (pl_extended p)) (pl_can_id p)"
  shows "cache_inv decoders (decoded_frame host d p ts sigs st)
    \<and> (handles_of (decoded_frame host d p ts sigs st), im_log (decoded_frame host d p ts sigs st)) =
       (case handles_of st key of
          Some h \<Rightarrow> (handles_of st, im_log st @ [AppendRecord h ts (build_row sigs)])
        | None \<Rightarrow> (case h_topic host (im_log st) name of
             None \<Rightarrow> (handles_of st, im_log st @ [EnsureTopic name])
           | Some h \<Rightarrow> ((handles_of st)(key \<mapsto> h), im_log st @ [EnsureTopic name, AppendRecord h ts (build_row sigs)])))"
proof -
  have ct: "current_topics st = t" using cur t by (simp add: current_topics_def)
  have hk: "handles_of st key = it_decoded t (frame_key (pl_can_id p) (pl_extended p))"
    by (simp add: handles_of_def key_def t)
  have dt: "it_decoder t = decoders (pl_interface p)" using inv t by (simp add: cache_inv_def)
  show ?thesis
    unfolding decoded_frame_def Let_def cache_counters ct hk name_def
    by (auto simp: ct dt key_def cur t inv handles_update cache_inv_set split: option.split)
qed

lemma raw_frame_refines:
  fixes st :: "('h, 'd) import_state"
  assumes inv: "cache_inv decoders st" and cur: "im_current st = Some (pl_interface p)"
    and t: "im_topics st (pl_interface p) = Some t"
  defines "key \<equiv> (pl_interface p, pl_can_id p, pl_extended p, False)"
    and "name \<equiv> can_topic_name (pl_interface p) [] (pl_can_id p)"
  shows "cache_inv decoders (raw_frame host p ts st)
    \<and> (handles_of (raw_frame host p ts st), im_log (raw_frame host p ts st)) =
       (case handles_of st key of
          Some h \<Rightarrow> (handles_of st, im_log st @ [AppendRecord h ts (raw_row (pl_data p))])
        | None \<Rightarrow> (case h_topic host (im_log st) name of
             None \<Rightarrow> (handles_of st, im_log st @ [EnsureTopic name])
           | Some h \<Rightarrow> ((handles_of st)(key \<mapsto> h), im_log st @ [EnsureTopic name, AppendRecord h ts (raw_row (pl_data p))])))"
proof -
  have ct: "current_topics st = t" using cur t by (simp add: current_topics_def)
  have hk: "handles_of st key = it_raw t (frame_key (pl_can_id p) (pl_extended p))"
    by (simp add: handles_of_def key_def t)
  have dt: "it_decoder t = decoders (pl_interface p)" using inv t by (simp add: cache_inv_def)
  show ?thesis
    unfolding raw_frame_def Let_def cache_counters ct hk name_def
    by (auto simp: ct dt key_def cur t inv handles_update cache_inv_set split: option.split)
qed

lemma import_frame_refines:
  assumes "cache_inv decoders st"
  shows "cache_inv decoders (import_frame host dbl_raw decoders raw p ts st)
    \<and> (handles_of (import_frame host dbl_raw decoders raw p ts st), im_log (import_frame host dbl_raw decoders raw p ts st))
      = ref_frame host dbl_raw decoders raw p ts (handles_of st, im_log st)"
proof -
  define s where "s = select_bucket decoders (pl_interface p) st"
  note b = select_bucket_facts [OF assms, of "pl_interface p", folded s_def]
  obtain t where t: "im_topics s (pl_interface p) = Some t" using b(3) by blast
  have ct: "current_topics s = t" using b(2) t by (simp add: current_topics_def)
  have dt: "it_decoder t = decoders (pl_interface p)" using b(1) t by (simp add: cache_inv_def)
  define u where "u has result = count_undecoded has result s" for has result
  have plain: "cache_inv decoders (u has result)" "handles_of (u has result) = handles_of st" "im_log (u has result) = im_log st"
    for has result using b by (simp_all add: u_def)
  have ucur: "im_current (u has result) = Some (pl_interface p)" and utop: "im_topics (u has result) (pl_interface p) = Some t"
    for has result using b t by (simp_all add: u_def)
  have raw: "cache_inv decoders (raw_frame host p ts (u has result))
    \<and> (handles_of (raw_frame host p ts (u has result)), im_log (raw_frame host p ts (u has result))) =
       (case handles_of st (pl_interface p, pl_can_id p, pl_extended p, False) of
          Some h \<Rightarrow> (handles_of st, im_log st @ [AppendRecord h ts (raw_row (pl_data p))])
        | None \<Rightarrow> (case h_topic host (im_log st) (can_topic_name (pl_interface p) [] (pl_can_id p)) of
             None \<Rightarrow> (handles_of st, im_log st @ [EnsureTopic (can_topic_name (pl_interface p) [] (pl_can_id p))])
           | Some h \<Rightarrow> ((handles_of st)((pl_interface p, pl_can_id p, pl_extended p, False) \<mapsto> h),
               im_log st @ [EnsureTopic (can_topic_name (pl_interface p) [] (pl_can_id p)), AppendRecord h ts (raw_row (pl_data p))])))"
    for has result
    using raw_frame_refines [OF plain(1) ucur utop, of host ts has result]
    by (simp only: plain)
  have imp: "import_frame host dbl_raw decoders raw p ts st =
      (case decoders (pl_interface p) of
         None \<Rightarrow> if raw then raw_frame host p ts (u False NoMatch) else u False NoMatch
       | Some d \<Rightarrow> (case decode dbl_raw d (pl_can_id p) (pl_extended p) (pl_data p) of
           (result, sigs) \<Rightarrow> if result = Decoded \<and> sigs \<noteq> [] then decoded_frame host d p ts sigs s
                             else if raw then raw_frame host p ts (u True result) else u True result))"
    unfolding import_frame_def Let_def s_def [symmetric] ct dt u_def by (auto split: option.split prod.split)
  have undec: ?thesis
    if i: "import_frame host dbl_raw decoders raw p ts st = (if raw then raw_frame host p ts (u has result) else u has result)"
      and rt: "ref_target dbl_raw decoders raw p =
          (if raw then Some (False, can_topic_name (pl_interface p) [] (pl_can_id p), raw_row (pl_data p)) else None)"
    for has result
  proof (cases raw)
    case True
    with i rt raw [of has result] show ?thesis by (simp add: ref_frame_def Let_def)
  next
    case False
    with i rt plain [of has result] show ?thesis by (simp add: ref_frame_def Let_def)
  qed
  show ?thesis
  proof (cases "decoders (pl_interface p)")
    case None
    show ?thesis by (rule undec [of False NoMatch]) (simp_all add: imp None ref_target_def)
  next
    case (Some d)
    obtain result sigs where d: "decode dbl_raw d (pl_can_id p) (pl_extended p) (pl_data p) = (result, sigs)" by (metis surj_pair)
    show ?thesis
    proof (cases "result = Decoded \<and> sigs \<noteq> []")
      case True
      with Some d decoded_frame_refines [OF b(1) b(2) t, of host d ts sigs, unfolded b(4,5)] show ?thesis
        by (simp add: imp ref_frame_def ref_target_def Let_def)
    next
      case False
      then show ?thesis by (intro undec [of True result]) (auto simp: imp Some d ref_target_def)
    qed
  qed
qed

lemma poll_refines:
  assumes "\<not> im_cancelled st"
  shows "ref_poll host total_bytes (im_seen st) (im_bytes_read st) (im_log st)
    = (im_cancelled (poll host total_bytes st), im_log (poll host total_bytes st))"
  using assms by (simp add: ref_poll_def poll_def Let_def logged_def)

lemma cache_same_topics:
  "im_topics st' = im_topics st \<Longrightarrow> handles_of st' = handles_of st"
  "\<lbrakk>im_topics st' = im_topics st; im_current st' = im_current st; im_last st' = im_last st\<rbrakk>
     \<Longrightarrow> cache_inv decoders st' = cache_inv decoders st"
  by (simp_all add: handles_of_def cache_inv_def)

lemma parsed_refines:
  assumes "cache_inv decoders st"
  shows "cache_inv decoders (import_parsed host dbl_raw decoders raw p ts st)
    \<and> (handles_of (import_parsed host dbl_raw decoders raw p ts st), im_log (import_parsed host dbl_raw decoders raw p ts st))
      = (if pl_kind p = LkData then ref_frame host dbl_raw decoders raw p (the ts) (handles_of st, im_log st)
         else (handles_of st, im_log st))"
proof (cases "pl_kind p")
  case LkData
  then have "import_parsed host dbl_raw decoders raw p ts st = import_frame host dbl_raw decoders raw p (the ts) st"
    by (simp add: import_parsed_def Let_def)
  with LkData import_frame_refines [OF assms] show ?thesis by simp
qed (use assms in \<open>simp_all add: import_parsed_def Let_def cache_inv_def handles_of_def\<close>)

lemma import_loop_refines:
  assumes "cache_inv decoders st" "\<not> im_cancelled st"
  shows "(handles_of (import_loop host dbl_raw decoders raw total_bytes lines st),
          im_log (import_loop host dbl_raw decoders raw total_bytes lines st))
    = ref_loop host dbl_raw decoders raw total_bytes (im_seen st) (im_bytes_read st) (im_clock st) lines
        (handles_of st, im_log st)"
  using assms
proof (induction lines arbitrary: st)
  case (Cons line lines)
  let ?st = "st\<lparr>im_line_no := im_line_no st + 1, im_bytes_read := im_bytes_read st + length line + 1\<rparr>"
  show ?case
  proof (cases "line = []")
    case True
    have "cache_inv decoders ?st" "handles_of ?st = handles_of st"
      using Cons.prems(1) by (simp_all add: cache_inv_def handles_of_def)
    with Cons.IH [of ?st] Cons.prems(2) True show ?thesis by (simp add: import_line_def Let_def)
  next
    case False
    define st1 where "st1 = ?st\<lparr>im_seen := im_seen st + 1\<rparr>"
    define st2 where "st2 = poll host total_bytes st1"
    obtain t ck where ck: "clock_advance (im_clock st2) (parse_line line) = (t, ck)" by (metis surj_pair)
    define st3 where "st3 = import_parsed host dbl_raw decoders raw (parse_line line) t (st2\<lparr>im_clock := ck\<rparr>)"
    have il: "import_line host dbl_raw decoders raw total_bytes line st = (if im_cancelled st2 then st2 else st3)"
      using False ck by (simp add: import_line_def Let_def st1_def st2_def st3_def)
    have nc1: "\<not> im_cancelled st1" using Cons.prems(2) by (simp add: st1_def)
    have rp: "ref_poll host total_bytes (im_seen st + 1) (im_bytes_read st + length line + 1) (im_log st)
        = (im_cancelled st2, im_log st2)"
      using poll_refines [OF nc1, of host total_bytes] by (simp add: st2_def) (simp add: st1_def)
    have f: "im_topics st2 = im_topics st" "im_current st2 = im_current st" "im_last st2 = im_last st"
      "im_seen st2 = im_seen st + 1" "im_bytes_read st2 = im_bytes_read st + length line + 1" "im_clock st2 = im_clock st"
      using side_poll [of host total_bytes st1, folded st2_def] by (simp_all add: side_def st1_def)
    have inv: "cache_inv decoders (st2\<lparr>im_clock := ck\<rparr>)" "handles_of (st2\<lparr>im_clock := ck\<rparr>) = handles_of st"
      using Cons.prems(1) f by (simp_all add: cache_inv_def handles_of_def)
    note pr = parsed_refines [OF inv(1), of host dbl_raw raw "parse_line line" t, folded st3_def, unfolded inv(2)]
    show ?thesis
    proof (cases "im_cancelled st2")
      case True
      have "ref_loop host dbl_raw decoders raw total_bytes (im_seen st) (im_bytes_read st) (im_clock st) (line # lines) (handles_of st, im_log st)
          = (handles_of st, im_log st2)"
        using False rp True by (simp only: ref_loop.simps Let_def snd_conv fst_conv prod.case if_False if_True)
      moreover have "import_loop host dbl_raw decoders raw total_bytes (line # lines) st = st2"
        using True by (simp add: il Let_def)
      ultimately show ?thesis by (simp add: cache_same_topics(1) [OF f(1)])
    next
      case nc: False
      then have nc3: "\<not> im_cancelled st3" by (simp add: st3_def side_parsed)
      have "im_seen st3 = im_seen st + 1" "im_bytes_read st3 = im_bytes_read st + length line + 1" "im_clock st3 = ck"
        by (simp_all add: st3_def side_parsed f)
      note s3 = this
      define s where "s = (if pl_kind (parse_line line) = LkData
          then ref_frame host dbl_raw decoders raw (parse_line line) (the t) (handles_of st, im_log st2) else (handles_of st, im_log st2))"
      have s: "cache_inv decoders st3" "(handles_of st3, im_log st3) = s"
        using pr by (simp_all add: s_def)
      have "ref_loop host dbl_raw decoders raw total_bytes (im_seen st) (im_bytes_read st) (im_clock st) (line # lines) (handles_of st, im_log st)
          = ref_loop host dbl_raw decoders raw total_bytes (im_seen st3) (im_bytes_read st3) (im_clock st3) lines s"
        using False rp nc ck [unfolded f] by (simp only: ref_loop.simps Let_def snd_conv fst_conv prod.case if_False s3 s_def)
      moreover have "import_loop host dbl_raw decoders raw total_bytes (line # lines) st
          = import_loop host dbl_raw decoders raw total_bytes lines st3"
        using nc nc3 by (simp add: il Let_def)
      ultimately show ?thesis using Cons.IH [OF s(1) nc3] s(2) by simp
    qed
  qed
qed simp

lemma cache_inv_init: "cache_inv decoders (import_init mode log)" "handles_of (import_init mode log) = (\<lambda>k. None)"
  by (auto simp: cache_inv_def handles_of_def import_init_def)

lemma import_loop_log:
  "im_log (import_loop host dbl_raw decoders raw total_bytes lines (import_init mode log))
     = snd (ref_loop host dbl_raw decoders raw total_bytes 0 0 (new_clock mode) lines (\<lambda>k. None, log))"
proof -
  have "\<not> im_cancelled (import_init mode log)" and f: "im_seen (import_init mode log) = 0" "im_bytes_read (import_init mode log) = 0"
    "im_clock (import_init mode log) = new_clock mode" "im_log (import_init mode log) = log"
    by (simp_all add: import_init_def)
  from import_loop_refines [OF cache_inv_init(1) this(1), of host dbl_raw decoders raw total_bytes lines]
  have "(handles_of (import_loop host dbl_raw decoders raw total_bytes lines (import_init mode log)),
      im_log (import_loop host dbl_raw decoders raw total_bytes lines (import_init mode log)))
      = ref_loop host dbl_raw decoders raw total_bytes 0 0 (new_clock mode) lines (\<lambda>k. None, log)"
    unfolding f cache_inv_init(2) .
  from arg_cong [OF this, of snd] show ?thesis by (simp only: snd_conv)
qed


subsection \<open>Timestamps\<close>

fun appended :: "('h, 'd) call_log \<Rightarrow> int list" where
  "appended [] = []"
| "appended (AppendRecord h ts rw # log) = ts # appended log"
| "appended (c # log) = appended log"

lemma appended_append [simp]: "appended (a @ b) = appended a @ appended b"
  by (induction a rule: appended.induct) simp_all

text \<open>The timeline times of the data lines.\<close>

definition timed_lines :: "clock \<Rightarrow> parsed_line list \<Rightarrow> (parsed_line \<times> int option) list" where
  "timed_lines ck ps = filter (\<lambda>(p, t). pl_kind p = LkData) (zip ps (fst (clock_run ck ps)))"

lemma timed_lines_Cons:
  "clock_advance ck p = (t, ck1) \<Longrightarrow>
     timed_lines ck (p # ps) = (if pl_kind p = LkData then [(p, t)] else []) @ timed_lines ck1 ps"
  by (simp add: timed_lines_def split: prod.split)

lemma data_time: "pl_kind (parse_line l) = LkData \<Longrightarrow> clock_advance ck (parse_line l) = (t, ck1) \<Longrightarrow> t \<noteq> None"
  using parse_line_cases [of l]
  by (auto simp: clock_advance_def has_numeric_timestamp_def frame_ok_def prefix_ok_def Let_def split: if_splits)

lemma timed_lines_Some: "(p, t) \<in> set (timed_lines ck (map parse_line ls)) \<Longrightarrow> t \<noteq> None"
proof (induction ls arbitrary: ck)
  case (Cons l ls)
  obtain u ck1 where c: "clock_advance ck (parse_line l) = (u, ck1)" by (metis surj_pair)
  from Cons.prems Cons.IH [of ck1] data_time [OF _ c] show ?case
    by (auto simp: timed_lines_Cons [OF c] simp del: not_None_eq split: if_splits)
qed (simp add: timed_lines_def)

lemma ref_frame_appends:
  "\<exists>zs. appended (snd (ref_frame host dbl_raw decoders raw p ts s)) = appended (snd s) @ zs \<and> subseq zs [ts]"
  by (cases s) (auto simp: ref_frame_def Let_def split: option.split)

lemma ref_poll_appends: "ref_poll host total_bytes seen bytes log = (stop, log') \<Longrightarrow> appended log' = appended log"
  by (auto simp: ref_poll_def split: if_splits)

lemma ref_loop_times:
  "\<exists>zs. appended (snd (ref_loop host dbl_raw decoders raw total_bytes seen bytes ck lines s)) = appended (snd s) @ zs
     \<and> subseq zs (map (the \<circ> snd) (timed_lines ck (map parse_line (filter (\<lambda>l. l \<noteq> []) lines))))"
proof (induction lines arbitrary: seen bytes ck s)
  case (Cons line lines)
  show ?case
  proof (cases "line = []")
    case True
    then show ?thesis using Cons.IH by (simp add: Let_def)
  next
    case False
    obtain stop log where rp: "ref_poll host total_bytes (seen + 1) (bytes + length line + 1) (snd s) = (stop, log)"
      by (metis surj_pair)
    obtain t ck1 where c: "clock_advance ck (parse_line line) = (t, ck1)" by (metis surj_pair)
    note app = ref_poll_appends [OF rp]
    show ?thesis
    proof (cases stop)
      case True
      with False rp app show ?thesis by (simp add: Let_def)
    next
      case go: False
      define s1 where "s1 = (if pl_kind (parse_line line) = LkData
          then ref_frame host dbl_raw decoders raw (parse_line line) (the t) (fst s, log) else (fst s, log))"
      have s1: "\<exists>zs. appended (snd s1) = appended (snd s) @ zs
          \<and> subseq zs (if pl_kind (parse_line line) = LkData then [the t] else [])"
        using ref_frame_appends [of host dbl_raw decoders raw "parse_line line" "the t" "(fst s, log)"] app
        by (auto simp: s1_def)
      have r: "ref_loop host dbl_raw decoders raw total_bytes seen bytes ck (line # lines) s
          = ref_loop host dbl_raw decoders raw total_bytes (seen + 1) (bytes + length line + 1) ck1 lines s1"
        using False go rp c by (simp add: Let_def s1_def)
      obtain a where a: "appended (snd s1) = appended (snd s) @ a"
        "subseq a (if pl_kind (parse_line line) = LkData then [the t] else [])" using s1 by blast
      obtain b where b: "appended (snd (ref_loop host dbl_raw decoders raw total_bytes (seen + 1) (bytes + length line + 1) ck1 lines s1))
          = appended (snd s1) @ b"
        "subseq b (map (the \<circ> snd) (timed_lines ck1 (map parse_line (filter (\<lambda>l. l \<noteq> []) lines))))"
        using Cons.IH by blast
      have "subseq (a @ b) (map (the \<circ> snd) (timed_lines ck (map parse_line (filter (\<lambda>l. l \<noteq> []) (line # lines)))))"
        using list_emb_append_mono [OF a(2) b(2)] False by (simp add: timed_lines_Cons [OF c] split: if_splits)
      moreover have "appended (snd (ref_loop host dbl_raw decoders raw total_bytes seen bytes ck (line # lines) s))
          = appended (snd s) @ (a @ b)" unfolding r b(1) a(1) by simp
      ultimately show ?thesis by blast
    qed
  qed
qed simp

subsection \<open>Properties\<close>

text \<open>C8. A finished import has counted every line exactly once: the four frame counters add up to the
  data lines, every other counter is the number of lines of its kind, and the summary it reports last
  is built from them.\<close>

theorem import_counts_every_line:
  assumes "import_data host env dbl_raw cap cfg = (None, log)"
  shows "\<exists>lines mode decoders log0 total_bytes. cf_lines cap = Some lines \<and>
    (let st = import_loop host dbl_raw decoders (ic_raw_unassigned cfg) total_bytes lines (import_init mode log0)
     in accounted (map parse_line (filter (\<lambda>l. l \<noteq> []) lines)) st
        \<and> im_decoded st + im_unmatched st + im_undecodable st + im_no_dictionary st
          = kinds LkData (map parse_line (filter (\<lambda>l. l \<noteq> []) lines))
        \<and> im_line_no st = length lines
        \<and> last log = Report ''info'' (import_summary st))"
proof -
  obtain lines mode decoders log0 total_bytes where l: "cf_lines cap = Some lines"
    and nc: "\<not> im_cancelled (import_loop host dbl_raw decoders (ic_raw_unassigned cfg) total_bytes lines (import_init mode log0))"
    and log: "last log = Report ''info'' (import_summary
        (import_loop host dbl_raw decoders (ic_raw_unassigned cfg) total_bytes lines (import_init mode log0)))"
    using assms by (auto simp: import_data_def Let_def split: if_splits option.splits prod.splits)
  have "accounted [] (import_init mode log0)"
    by (simp add: accounted_def import_init_def frame_total_def kinds_def no_recognized_def)
  from accounted_loop [OF this nc] have a: "accounted (map parse_line (filter (\<lambda>l. l \<noteq> []) lines))
      (import_loop host dbl_raw decoders (ic_raw_unassigned cfg) total_bytes lines (import_init mode log0))"
    and n: "im_line_no (import_loop host dbl_raw decoders (ic_raw_unassigned cfg) total_bytes lines (import_init mode log0)) = length lines"
    by (simp_all add: import_init_def)
  from a have "frame_total (import_loop host dbl_raw decoders (ic_raw_unassigned cfg) total_bytes lines (import_init mode log0))
      = kinds LkData (map parse_line (filter (\<lambda>l. l \<noteq> []) lines))" by (simp add: accounted_def)
  with a l n log show ?thesis unfolding Let_def frame_total_def by blast
qed

text \<open>C7. The per-interface caches change nothing: the import loop makes the host calls, in order, of
  the loop that keeps one handle per interface, id, frame format and kind of topic.\<close>

theorem import_caches_transparent:
  "im_log (import_loop host dbl_raw decoders raw total_bytes lines (import_init mode log))
     = snd (ref_loop host dbl_raw decoders raw total_bytes 0 0 (new_clock mode) lines (\<lambda>k. None, log))"
  by (rule import_loop_log)

text \<open>Every record carries the timeline time of its line, in file order: the appended timestamps
  are a subsequence of the clock's times of the data lines, and every data line has such a time.\<close>

theorem import_times_from_clock:
  "subseq (appended (im_log (import_loop host dbl_raw decoders raw total_bytes lines (import_init mode []))))
     (map (the \<circ> snd) (timed_lines (new_clock mode) (map parse_line (filter (\<lambda>l. l \<noteq> []) lines))))
   \<and> None \<notin> snd ` set (timed_lines (new_clock mode) (map parse_line (filter (\<lambda>l. l \<noteq> []) lines)))"
  using ref_loop_times [of host dbl_raw decoders raw total_bytes 0 0 "new_clock mode" lines "(\<lambda>k. None, [])"]
  unfolding import_loop_log by (force dest: timed_lines_Some)

subsection \<open>Witness\<close>

definition sample_env :: "int dict_env" where
  "sample_env = \<lparr>de_lower = sample_lower, de_parse_int = sample_number, de_parse_dbl = sample_number, de_fmt = int_text,
     de_zero = (\<lambda>d. d = 0), de_parse_dbc = (\<lambda>s. Inr [sample_message 0x12]), de_non_dbc = (\<lambda>p e. e),
     de_fs = (\<lambda>p. FileText ''dbc'')\<rparr>"

definition sample_host :: "(nat, int) host" where
  "sample_host = \<lparr>h_topic = (\<lambda>log name. Some (length log)), h_stop = (\<lambda>log. False), h_progress = (\<lambda>log n. True)\<rparr>"

definition sample_capture_lines :: "string list" where
  "sample_capture_lines = [''(1600000000.000001) can0 012#0105'', [], ''(1600000000.000002) can1 123#AB'', ''junk'']"

definition sample_decoders :: "string \<Rightarrow> int can_decoder option" where
  "sample_decoders = [''can0'' \<mapsto> add_from (\<lambda>d. d = 0) [sample_message 0x12] new_decoder]"

definition sample_capture :: capture where
  "sample_capture = \<lparr>cf_path = ''log'', cf_size = Some 150, cf_prescan = Some sample_capture_lines,
     cf_lines = Some sample_capture_lines\<rparr>"

definition sample_config :: import_config where
  "sample_config = \<lparr>ic_dicts = [(''can0'', [''a.dbc''])], ic_override = Some TmAbsolute, ic_raw_unassigned = True\<rparr>"

definition sample_log :: "(nat, int) call_log" where
  "sample_log = snd (import_data sample_host sample_env raw_int sample_capture sample_config)"

lemma sample_dictionaries:
  "load_dictionaries sample_env [(''can0'', [''a.dbc''])] log = (sample_decoders, log)"
proof -
  have "\<not> ends_with_csv sample_lower ''a.dbc''" "last_dot_suffix ''a.dbc'' = ''.dbc''" by code_simp+
  then show ?thesis
    by (simp add: load_dictionaries_def load_interface_def load_path_def load_dbc_file_def read_aux_file_def
        sample_env_def sample_decoders_def)
qed

lemma sample_import:
  "import_data sample_host sample_env raw_int sample_capture sample_config = (None, sample_log)"
proof -
  define st where "st = import_loop sample_host raw_int sample_decoders True 150 sample_capture_lines (import_init TmAbsolute [ProgressStart 150])"
  have "\<not> im_cancelled st" unfolding st_def by code_simp
  then have "fst (import_data sample_host sample_env raw_int sample_capture sample_config) = None"
    by (simp add: import_data_def sample_capture_def sample_config_def mode_warning_def sample_dictionaries st_def)
       (simp add: sample_host_def Let_def)
  then show ?thesis by (simp add: sample_log_def prod_eq_iff)
qed

lemma import_counts_every_line_witness:
  "\<exists>lines. cf_lines sample_capture = Some lines
     \<and> (\<exists>st :: (nat, int) import_state. last sample_log = Report ''info'' (import_summary st) \<and> im_line_no st = length lines)"
  using import_counts_every_line [OF sample_import] by (auto simp: Let_def)

end
