(* ===== verification/BridgeQueue.thy ===== *)
theory BridgeQueue
  imports Prelude "HOL-Library.Sublist"
begin

section \<open>The bridge's transport queue (data_stream_pj_bridge/pj_bridge_websocket.hpp)\<close>

text \<open>
  \<open>BridgeEventQueue\<close>, the bounded queue between the transport's thread and the owner's, and the URL
  test. Every method holds the mutex from start to end, so a concurrent history is a sequence of whole
  operations; byte counts are \<open>nat\<close> (\<open>size_t\<close> sums of payloads in memory). The drop loop's iterator
  is the point up to which the list is already known to hold no data frame. Facts shown: the byte
  counter is the cost of the pending data frames; the budget is exceeded only by a single newest
  frame; no control event is ever lost or reordered and every data frame is delivered, pending or
  counted as dropped; a closed queue stays empty.
\<close>

datatype ws_type = WsOpen | WsText | WsBinary | WsClosed | WsError

record ws_event =
  we_type :: ws_type
  we_payload :: string

record bridge_queue =
  bq_max :: nat
  bq_events :: "ws_event list"
  bq_bytes :: nat
  bq_closed :: bool
  bq_dropped_frames :: nat
  bq_dropped_bytes :: nat

definition default_max_bytes :: nat where "default_max_bytes = 512 * 1024 * 1024"

definition new_queue :: "nat \<Rightarrow> bridge_queue" where
  "new_queue max_bytes =
     \<lparr>bq_max = max_bytes, bq_events = [], bq_bytes = 0, bq_closed = False, bq_dropped_frames = 0, bq_dropped_bytes = 0\<rparr>"

definition frame_overhead :: nat where "frame_overhead = 64"

definition cost :: "ws_event \<Rightarrow> nat" where
  "cost e = length (we_payload e) + frame_overhead"

definition is_data :: "ws_event \<Rightarrow> bool" where
  "is_data e \<longleftrightarrow> we_type e = WsBinary"

text \<open>
  \<open>dropOldestDataPastBudget\<close> on the events from the candidate on: while over budget, skip to the next
  data frame before the newest event and erase it. Returns the events kept, the bytes queued and the
  frames erased.
\<close>

fun drop_past_budget :: "nat \<Rightarrow> ws_event list \<Rightarrow> nat \<Rightarrow> ws_event list \<times> nat \<times> ws_event list" where
  "drop_past_budget max_bytes [] bytes = ([], bytes, [])"
| "drop_past_budget max_bytes [newest] bytes = ([newest], bytes, [])"
| "drop_past_budget max_bytes (e # e' # es) bytes =
     (if bytes \<le> max_bytes then (e # e' # es, bytes, [])
      else if is_data e
      then (case drop_past_budget max_bytes (e' # es) (bytes - cost e) of
              (kept, left, erased) \<Rightarrow> (kept, left, e # erased))
      else (case drop_past_budget max_bytes (e' # es) bytes of
              (kept, left, erased) \<Rightarrow> (e # kept, left, erased)))"

definition push :: "ws_event \<Rightarrow> bridge_queue \<Rightarrow> bridge_queue" where
  "push event q =
     (if bq_closed q then q
      else if is_data event
      then (case drop_past_budget (bq_max q) (bq_events q @ [event]) (bq_bytes q + cost event) of
              (kept, left, erased) \<Rightarrow>
                q\<lparr>bq_events := kept, bq_bytes := left,
                  bq_dropped_frames := bq_dropped_frames q + length erased,
                  bq_dropped_bytes := bq_dropped_bytes q + sum_list (map (\<lambda>e. length (we_payload e)) erased)\<rparr>)
      else q\<lparr>bq_events := bq_events q @ [event]\<rparr>)"

definition drain :: "bridge_queue \<Rightarrow> ws_event list \<times> bridge_queue" where
  "drain q = (bq_events q, q\<lparr>bq_events := [], bq_bytes := 0\<rparr>)"

definition close_queue :: "bridge_queue \<Rightarrow> bridge_queue" where
  "close_queue q = q\<lparr>bq_closed := True, bq_events := [], bq_bytes := 0\<rparr>"

definition dropped :: "bridge_queue \<Rightarrow> nat \<times> nat" where
  "dropped q = (bq_dropped_frames q, bq_dropped_bytes q)"

definition is_web_socket_url :: "string \<Rightarrow> bool" where
  "is_web_socket_url url =
     (let host = (if take 6 url = ''wss://'' then drop 6 url
                  else if take 5 url = ''ws://'' then drop 5 url else [])
      in host \<noteq> [] \<and> hd host \<noteq> CHR ''/'')"

text \<open>Histories: what the transport's and the owner's threads do, one whole operation at a time.\<close>

datatype queue_op = OpPush ws_event | OpDrain | OpClose

fun queue_step :: "queue_op \<Rightarrow> bridge_queue \<Rightarrow> ws_event list \<times> bridge_queue" where
  "queue_step (OpPush e) q = ([], push e q)"
| "queue_step OpDrain q = drain q"
| "queue_step OpClose q = ([], close_queue q)"

fun queue_run :: "queue_op list \<Rightarrow> bridge_queue \<Rightarrow> ws_event list \<times> bridge_queue" where
  "queue_run [] q = ([], q)"
| "queue_run (c # cs) q =
     (case queue_step c q of (out, q1) \<Rightarrow> (case queue_run cs q1 of (outs, q2) \<Rightarrow> (out @ outs, q2)))"

definition pushed :: "queue_op list \<Rightarrow> ws_event list" where
  "pushed cs = concat (map (\<lambda>c. case c of OpPush e \<Rightarrow> [e] | _ \<Rightarrow> []) cs)"

subsection \<open>The drop loop\<close>

abbreviation data_cost :: "ws_event list \<Rightarrow> nat" where
  "data_cost es \<equiv> sum_list (map cost (filter is_data es))"

abbreviation payload_bytes :: "ws_event list \<Rightarrow> nat" where
  "payload_bytes es \<equiv> sum_list (map (\<lambda>e. length (we_payload e)) (filter is_data es))"

lemma cost_pos: "0 < cost e"
  by (simp add: cost_def frame_overhead_def)

text \<open>What it keeps, what it erases and when it stops.\<close>

lemma drop_past_budget_spec:
  assumes "drop_past_budget m es bytes = (kept, left, erased)" "bytes = data_cost es" "es \<noteq> []" "is_data (last es)"
  shows "left = data_cost kept
    \<and> kept \<noteq> [] \<and> last kept = last es \<and> subseq kept es \<and> (\<forall>e \<in> set erased. is_data e)
    \<and> filter (\<lambda>e. \<not> is_data e) kept = filter (\<lambda>e. \<not> is_data e) es
    \<and> filter is_data es = erased @ filter is_data kept
    \<and> (left \<le> m \<or> filter is_data kept = [last es])"
  using assms
proof (induction m es bytes arbitrary: kept left erased rule: drop_past_budget.induct)
  case (3 m e e' es bytes)
  show ?case
  proof (cases "bytes \<le> m")
    case True
    with 3(3,4) show ?thesis by auto
  next
    case over: False
    show ?thesis
    proof (cases "is_data e")
      case True
      obtain k l r where d: "drop_past_budget m (e' # es) (bytes - cost e) = (k, l, r)" by (metis prod_cases3)
      have "bytes - cost e = data_cost (e' # es)" using 3(4) True by simp
      from 3(1) [OF over True d this] 3(3,6) over True d show ?thesis by auto
    next
      case False
      obtain k l r where d: "drop_past_budget m (e' # es) bytes = (k, l, r)" by (metis prod_cases3)
      have "bytes = data_cost (e' # es)" using 3(4) False by simp
      from 3(2) [OF over False d this] 3(3,6) over False d show ?thesis by auto
    qed
  qed
qed auto

subsection \<open>Invariant and history\<close>

definition queue_ok :: "bridge_queue \<Rightarrow> bool" where
  "queue_ok q \<longleftrightarrow> bq_bytes q = data_cost (bq_events q)
     \<and> (bq_bytes q \<le> bq_max q \<or> length (filter is_data (bq_events q)) = 1)
     \<and> (bq_closed q \<longrightarrow> bq_events q = [])"

text \<open>What one operation does to the pending events and to the drop counters.\<close>

lemma push_spec:
  assumes "queue_ok q" "\<not> bq_closed q"
  shows "\<exists>erased. queue_ok (push e q) \<and> \<not> bq_closed (push e q) \<and> bq_max (push e q) = bq_max q
    \<and> subseq (bq_events (push e q)) (bq_events q @ [e])
    \<and> filter (\<lambda>e. \<not> is_data e) (bq_events (push e q)) = filter (\<lambda>e. \<not> is_data e) (bq_events q @ [e])
    \<and> filter is_data (bq_events q @ [e]) = erased @ filter is_data (bq_events (push e q))
    \<and> last (bq_events (push e q)) = e
    \<and> bq_dropped_frames (push e q) = bq_dropped_frames q + length erased
    \<and> bq_dropped_bytes (push e q) = bq_dropped_bytes q + payload_bytes erased"
proof (cases "is_data e")
  case True
  obtain k l r where d: "drop_past_budget (bq_max q) (bq_events q @ [e]) (bq_bytes q + cost e) = (k, l, r)"
    by (metis prod_cases3)
  have "bq_bytes q + cost e = data_cost (bq_events q @ [e])" using assms(1) True by (simp add: queue_ok_def)
  from drop_past_budget_spec [OF d this] True
  have s: "l = data_cost k" "subseq k (bq_events q @ [e])" "last k = e" "\<forall>x \<in> set r. is_data x"
    "filter (\<lambda>e. \<not> is_data e) k = filter (\<lambda>e. \<not> is_data e) (bq_events q @ [e])"
    "filter is_data (bq_events q @ [e]) = r @ filter is_data k" "l \<le> bq_max q \<or> filter is_data k = [e]"
    by auto
  then have "filter is_data r = r" by (simp add: filter_True)
  with s d True assms show ?thesis
    by (intro exI [of _ r]) (auto simp: push_def queue_ok_def)
next
  case False
  with assms show ?thesis by (intro exI [of _ "[]"]) (auto simp: push_def queue_ok_def)
qed

lemma queue_step_ok: "queue_ok q \<Longrightarrow> queue_ok (snd (queue_step c q))"
proof (cases c)
  case (OpPush e)
  assume "queue_ok q"
  with push_spec [of q e] OpPush show ?thesis by (cases "bq_closed q") (auto simp: push_def)
qed (simp_all add: drain_def close_queue_def queue_ok_def)

lemma queue_run_ok: "queue_ok q \<Longrightarrow> queue_ok (snd (queue_run cs q))"
proof (induction cs arbitrary: q)
  case (Cons c cs)
  from Cons.IH [OF queue_step_ok [OF Cons.prems, of c]] show ?case by (auto split: prod.split)
qed simp

lemma new_queue_ok: "queue_ok (new_queue m)"
  by (simp add: queue_ok_def new_queue_def)

lemma subseq_append_mid: "subseq a (x @ y) \<Longrightarrow> subseq b (a @ z) \<Longrightarrow> subseq b (x @ y @ z)"
proof -
  assume a: "subseq a (x @ y)" and b: "subseq b (a @ z)"
  have "subseq (a @ z) ((x @ y) @ z)" by (rule list_emb_append_mono [OF a subseq_order.refl])
  with b show ?thesis by (metis append.assoc subseq_order.trans)
qed

lemma queue_history:
  assumes "OpClose \<notin> set cs" "queue_ok q" "\<not> bq_closed q" "queue_run cs q = (out, q')"
  shows "subseq (out @ bq_events q') (bq_events q @ pushed cs)
    \<and> filter (\<lambda>e. \<not> is_data e) (out @ bq_events q') = filter (\<lambda>e. \<not> is_data e) (bq_events q @ pushed cs)
    \<and> length (filter is_data (out @ bq_events q')) + bq_dropped_frames q'
       = length (filter is_data (bq_events q @ pushed cs)) + bq_dropped_frames q
    \<and> payload_bytes (out @ bq_events q') + bq_dropped_bytes q' = payload_bytes (bq_events q @ pushed cs) + bq_dropped_bytes q"
  using assms
proof (induction cs arbitrary: q out q')
  case (Cons c cs)
  obtain o1 q1 where s: "queue_step c q = (o1, q1)" by (metis surj_pair)
  obtain o2 where r: "queue_run cs q1 = (o2, q')" and out: "out = o1 @ o2"
    using Cons.prems(4) s by (auto split: prod.splits)
  have ok: "queue_ok q1" using queue_step_ok [OF Cons.prems(2), of c] s by simp
  have noclose: "OpClose \<notin> set cs" using Cons.prems(1) by simp
  show ?case
  proof (cases c)
    case (OpPush e)
    obtain erased where p: "\<not> bq_closed q1" "subseq (bq_events q1) (bq_events q @ [e])"
      "filter (\<lambda>e. \<not> is_data e) (bq_events q1) = filter (\<lambda>e. \<not> is_data e) (bq_events q @ [e])"
      "filter is_data (bq_events q @ [e]) = erased @ filter is_data (bq_events q1)"
      "bq_dropped_frames q1 = bq_dropped_frames q + length erased"
      "bq_dropped_bytes q1 = bq_dropped_bytes q + payload_bytes erased"
      using push_spec [OF Cons.prems(2,3), of e] s OpPush by auto
    have "filter is_data erased = erased"
      using arg_cong [OF p(4), of "filter is_data"] p(4) by simp
    note p = p this
    have o1: "o1 = []" "pushed (c # cs) = e # pushed cs" using s OpPush by (auto simp: pushed_def)
    note ih = Cons.IH [OF noclose ok p(1) r]
    have "subseq (out @ bq_events q') (bq_events q @ e # pushed cs)"
      using subseq_append_mid [OF p(2)] ih out o1 by fastforce
    moreover have "length (filter is_data (bq_events q @ e # pushed cs))
        = length erased + length (filter is_data (bq_events q1 @ pushed cs))"
      using arg_cong [OF p(4), of length] by (simp split: if_splits)
    moreover have "payload_bytes (bq_events q @ e # pushed cs) = payload_bytes erased + payload_bytes (bq_events q1 @ pushed cs)"
      using arg_cong [OF p(4), of "\<lambda>es. sum_list (map (\<lambda>e. length (we_payload e)) es)"] p(7)
      by (simp split: if_splits)
    ultimately show ?thesis using ih out o1 p(3,5,6) by simp
  next
    case OpDrain
    with s have q1: "o1 = bq_events q" "bq_events q1 = []" "\<not> bq_closed q1" "pushed (c # cs) = pushed cs"
      "bq_dropped_frames q1 = bq_dropped_frames q" "bq_dropped_bytes q1 = bq_dropped_bytes q"
      using Cons.prems(3) by (auto simp: drain_def pushed_def)
    from Cons.IH [OF noclose ok q1(3) r] q1 out show ?thesis by (simp add: list_emb_append_mono)
  next
    case OpClose
    with Cons.prems(1) show ?thesis by simp
  qed
qed (simp add: pushed_def)

lemma closed_run: "bq_closed q \<Longrightarrow> queue_ok q \<Longrightarrow> queue_run cs q = ([], snd (queue_run cs q)) \<and> bq_closed (snd (queue_run cs q))"
proof (induction cs arbitrary: q)
  case (Cons c cs)
  have s: "queue_step c q = ([], snd (queue_step c q)) \<and> bq_closed (snd (queue_step c q))"
    using Cons.prems by (cases c) (auto simp: push_def drain_def close_queue_def queue_ok_def)
  with Cons.IH [of "snd (queue_step c q)"] queue_step_ok [OF Cons.prems(2), of c] show ?case
    by (metis (no_types, lifting) append_Nil prod.case queue_run.simps(2) snd_conv)
qed simp

subsection \<open>Properties\<close>

text \<open>C9. The queue loses nothing silently: over any sequence of pushes and drains the delivered and
  pending events are a subsequence of the pushed ones with every control event, and every data frame
  is delivered, pending or counted, with its bytes, in the drop counters.\<close>

theorem queue_accounts_for_every_event:
  assumes "OpClose \<notin> set cs" "queue_run cs (new_queue m) = (out, q)"
  shows "subseq (out @ bq_events q) (pushed cs)
    \<and> filter (\<lambda>e. \<not> is_data e) (out @ bq_events q) = filter (\<lambda>e. \<not> is_data e) (pushed cs)
    \<and> length (filter is_data (out @ bq_events q)) + fst (dropped q) = length (filter is_data (pushed cs))
    \<and> payload_bytes (out @ bq_events q) + snd (dropped q) = payload_bytes (pushed cs)"
proof -
  have "\<not> bq_closed (new_queue m)" "bq_events (new_queue m) = []" "dropped (new_queue m) = (0, 0)"
    by (simp_all add: new_queue_def dropped_def)
  with queue_history [OF assms(1) new_queue_ok _ assms(2)] show ?thesis by (simp add: dropped_def)
qed

text \<open>After any history the byte counter is the cost of the pending data frames, and it is within
  the budget unless one frame, the newest, is all that is left. After a close nothing is delivered,
  whatever the transport still pushes.\<close>

theorem queue_within_budget:
  "let q = snd (queue_run cs (new_queue m)) in
   bq_bytes q = sum_list (map cost (filter is_data (bq_events q)))
   \<and> (bq_bytes q \<le> m \<or> length (filter is_data (bq_events q)) = 1)
   \<and> fst (queue_run (OpClose # late) q) = [] \<and> bq_events (snd (queue_run (OpClose # late) q)) = []"
proof -
  define q where "q = snd (queue_run cs (new_queue m))"
  have ok: "queue_ok q" unfolding q_def by (rule queue_run_ok [OF new_queue_ok])
  have step_max: "bq_max (snd (queue_step c p)) = bq_max p" for c p
    by (cases c) (auto simp: push_def drain_def close_queue_def split: prod.split)
  have "bq_max (snd (queue_run cs p)) = bq_max p" for p
  proof (induction cs arbitrary: p)
    case (Cons c cs)
    from Cons.IH [of "snd (queue_step c p)"] step_max [of c p] show ?case by (auto split: prod.split)
  qed simp
  then have m: "bq_max q = m" by (simp add: q_def new_queue_def)
  have c: "queue_ok (close_queue q)" "bq_closed (close_queue q)" by (simp_all add: queue_ok_def close_queue_def)
  have r: "queue_run late (close_queue q) = ([], snd (queue_run late (close_queue q)))"
    "bq_closed (snd (queue_run late (close_queue q)))" using closed_run [OF c(2,1)] by auto
  have e: "bq_events (snd (queue_run late (close_queue q))) = []"
    using queue_run_ok [OF c(1), of late] r(2) by (simp add: queue_ok_def)
  have l: "queue_run (OpClose # late) q = queue_run late (close_queue q)" by (auto split: prod.split)
  show ?thesis
    unfolding q_def [symmetric] Let_def l using ok m e r(1) by (metis fst_conv queue_ok_def)
qed

subsection \<open>Witness\<close>

definition sample_history :: "queue_op list" where
  "sample_history =
     [OpPush \<lparr>we_type = WsOpen, we_payload = []\<rparr>, OpPush \<lparr>we_type = WsBinary, we_payload = ''aaaa''\<rparr>,
      OpPush \<lparr>we_type = WsText, we_payload = ''t''\<rparr>, OpPush \<lparr>we_type = WsBinary, we_payload = ''bbbb''\<rparr>, OpDrain,
      OpPush \<lparr>we_type = WsBinary, we_payload = ''cc''\<rparr>]"

lemma queue_accounts_for_every_event_witness:
  "fst (dropped (snd (queue_run sample_history (new_queue 100)))) = 1
   \<and> length (filter is_data (fst (queue_run sample_history (new_queue 100)) @ bq_events (snd (queue_run sample_history (new_queue 100))))) + 1
     = length (filter is_data (pushed sample_history))"
proof -
  have n: "OpClose \<notin> set sample_history" by (simp add: sample_history_def)
  have d: "fst (dropped (snd (queue_run sample_history (new_queue 100)))) = 1" by code_simp
  from queue_accounts_for_every_event [OF n surjective_pairing, of 100] d show ?thesis by simp
qed

end
