(* ===== verification/BridgeFrame.thy ===== *)
theory BridgeFrame
  imports Prelude "HOL-Library.Word" "HOL-Library.Sublist"
begin

unbundle bit_operations_syntax

section \<open>The bridge's wire format (data_stream_pj_bridge/pj_bridge_protocol.cpp)\<close>

text \<open>
  \<open>parseBinaryFrame\<close> and the request texts. A buffer is a list of bytes and a pointer into it the rest
  of the list; \<open>memcpy\<close> into an integer reads little-endian, as on every platform the plugin is built
  for. ZSTD is a library: the parameters \<open>zstd_size\<close> (\<open>ZSTD_getFrameContentSize\<close>) and \<open>zstd_decompress\<close>
  (\<open>None\<close> when \<open>ZSTD_isError\<close>). Facts shown: frames read back; whatever the bytes are, the messages
  are disjoint consecutive pieces of the decompressed buffer, which never exceeds 256 MiB.
\<close>

type_synonym bytes = "8 word list"

definition magic :: nat where "magic = 0x42524A50"

definition max_decompressed_size :: nat where "max_decompressed_size = 256 * 1024 * 1024"

record raw_message =
  rm_topic :: bytes
  rm_timestamp :: int
  rm_cdr :: bytes

text \<open>The little-endian integer in the first bytes.\<close>

fun le_nat :: "bytes \<Rightarrow> nat" where
  "le_nat [] = 0"
| "le_nat (b # bs) = unat b + 256 * le_nat bs"

definition signed64 :: "nat \<Rightarrow> int" where
  "signed64 n = (if n < 2 ^ 63 then int n else int n - 2 ^ 64)"

definition checked_decompressed_size :: "64 word \<Rightarrow> nat option" where
  "checked_decompressed_size content_size =
     (if unat content_size > max_decompressed_size then None else Some (unat content_size))"

text \<open>One field of \<open>n\<close> bytes: the bytes and what follows, or \<open>None\<close> when they reach past the end.\<close>

definition take_field :: "nat \<Rightarrow> bytes \<Rightarrow> (bytes \<times> bytes) option" where
  "take_field n bs = (if length bs < n then None else Some (take n bs, drop n bs))"

definition parse_message :: "bytes \<Rightarrow> (raw_message \<times> bytes) option" where
  "parse_message ptr =
     (case take_field 2 ptr of
        None \<Rightarrow> None
      | Some (topic_len, p1) \<Rightarrow>
     (case take_field (le_nat topic_len) p1 of
        None \<Rightarrow> None
      | Some (topic, p2) \<Rightarrow>
     (case take_field 8 p2 of
        None \<Rightarrow> None
      | Some (ts, p3) \<Rightarrow>
     (case take_field 4 p3 of
        None \<Rightarrow> None
      | Some (cdr_len, p4) \<Rightarrow>
     (case take_field (le_nat cdr_len) p4 of
        None \<Rightarrow> None
      | Some (cdr, p5) \<Rightarrow>
          Some (\<lparr>rm_topic = topic, rm_timestamp = signed64 (le_nat ts), rm_cdr = cdr\<rparr>, p5))))))"

text \<open>The message loop: whether all messages were read, and the messages pushed by then.\<close>

fun parse_messages :: "nat \<Rightarrow> bytes \<Rightarrow> bool \<times> raw_message list" where
  "parse_messages 0 ptr = (True, [])"
| "parse_messages (Suc n) ptr =
     (case parse_message ptr of
        None \<Rightarrow> (False, [])
      | Some (msg, ptr') \<Rightarrow> (case parse_messages n ptr' of (ok, msgs) \<Rightarrow> (ok, msg # msgs)))"

definition parse_binary_frame ::
  "(bytes \<Rightarrow> 64 word) \<Rightarrow> (nat \<Rightarrow> bytes \<Rightarrow> bytes option) \<Rightarrow> bytes \<Rightarrow> bool \<times> raw_message list" where
  "parse_binary_frame zstd_size zstd_decompress frame =
     (if length frame < 16 then (False, [])
      else if le_nat (take 4 frame) \<noteq> magic then (False, [])
      else if le_nat (take 4 (drop 12 frame)) \<noteq> 0 then (False, [])
      else let compressed = drop 16 frame in
        case checked_decompressed_size (zstd_size compressed) of
          None \<Rightarrow> (False, [])
        | Some decompressed_size \<Rightarrow>
            (case zstd_decompress decompressed_size compressed of
               None \<Rightarrow> (False, [])
             | Some payload \<Rightarrow> parse_messages (le_nat (take 4 (drop 4 frame))) payload))"

definition quote :: string where "quote = [CHR 0x22]"

definition build_request :: "string \<Rightarrow> string \<Rightarrow> string" where
  "build_request command uuid =
     ''{'' @ quote @ ''command'' @ quote @ '':'' @ quote @ command @ quote @ '','' @ quote @ ''id'' @ quote @ '':'' @
     quote @ uuid @ quote @ '','' @ quote @ ''protocol_version'' @ quote @ '':1}''"

subsection \<open>Integers\<close>

fun le_bytes :: "nat \<Rightarrow> nat \<Rightarrow> bytes" where
  "le_bytes 0 n = []"
| "le_bytes (Suc k) n = of_nat (n mod 256) # le_bytes k (n div 256)"

lemma length_le_bytes [simp]: "length (le_bytes k n) = k"
  by (induction k arbitrary: n) auto

lemma le_nat_bytes: "n < 256 ^ k \<Longrightarrow> le_nat (le_bytes k n) = n"
proof (induction k arbitrary: n)
  case (Suc k)
  have "n div 256 < 256 ^ k" using Suc.prems by (simp add: less_mult_imp_div_less mult.commute)
  moreover have "unat (of_nat (n mod 256) :: 8 word) = n mod 256" by (simp add: unat_of_nat take_bit_nat_eq_self_iff)
  ultimately show ?case using Suc.IH by simp
qed simp

definition ts_nat :: "int \<Rightarrow> nat" where
  "ts_nat t = nat (if t < 0 then t + 2 ^ 64 else t)"

lemma signed64_ts: "- (2 ^ 63) \<le> t \<Longrightarrow> t < 2 ^ 63 \<Longrightarrow> signed64 (ts_nat t) = t \<and> ts_nat t < 2 ^ 64"
  by (auto simp: signed64_def ts_nat_def nat_less_iff)

subsection \<open>Round trip\<close>

definition encode_message :: "raw_message \<Rightarrow> bytes" where
  "encode_message m = le_bytes 2 (length (rm_topic m)) @ rm_topic m @ le_bytes 8 (ts_nat (rm_timestamp m)) @
     le_bytes 4 (length (rm_cdr m)) @ rm_cdr m"

definition message_fits :: "raw_message \<Rightarrow> bool" where
  "message_fits m \<longleftrightarrow> length (rm_topic m) < 2 ^ 16 \<and> length (rm_cdr m) < 2 ^ 32
     \<and> - (2 ^ 63) \<le> rm_timestamp m \<and> rm_timestamp m < 2 ^ 63"

definition encode_frame :: "(bytes \<Rightarrow> bytes) \<Rightarrow> raw_message list \<Rightarrow> nat \<Rightarrow> bytes" where
  "encode_frame compress msgs info =
     le_bytes 4 magic @ le_bytes 4 (length msgs) @ le_bytes 4 info @ le_bytes 4 0 @ compress (concat (map encode_message msgs))"

lemma take_field_append [simp]: "length a = n \<Longrightarrow> take_field n (a @ b) = Some (a, b)"
  by (simp add: take_field_def)

lemma parse_message_encode: "message_fits m \<Longrightarrow> parse_message (encode_message m @ tail) = Some (m, tail)"
  using signed64_ts [of "rm_timestamp m"]
  by (simp add: parse_message_def encode_message_def message_fits_def le_nat_bytes)

lemma parse_messages_encode:
  "\<forall>m \<in> set msgs. message_fits m \<Longrightarrow> parse_messages (length msgs) (concat (map encode_message msgs)) = (True, msgs)"
  by (induction msgs) (auto simp: parse_message_encode)

subsection \<open>Any bytes\<close>

definition message_bytes :: "raw_message \<Rightarrow> nat" where
  "message_bytes m = 14 + length (rm_topic m) + length (rm_cdr m)"

lemma take_field_Some: "take_field n bs = Some (a, b) \<longleftrightarrow> bs = a @ b \<and> length a = n"
  by (auto simp: take_field_def split: if_splits)

lemma parse_message_piece:
  assumes "parse_message ptr = Some (m, ptr')"
  shows "\<exists>h t. ptr = h @ rm_topic m @ t @ rm_cdr m @ ptr' \<and> length h = 2 \<and> length t = 12"
proof -
  obtain a b c d where "ptr = a @ rm_topic m @ b @ c @ rm_cdr m @ ptr'" "length a = 2" "length b = 8" "length c = 4"
    using assms by (auto simp: parse_message_def take_field_Some split: option.splits prod.splits)
  then show ?thesis by (intro exI [of _ a] exI [of _ "b @ c"]) simp
qed

lemma parse_messages_pieces:
  "parse_messages n ptr = (ok, msgs) \<Longrightarrow>
     sum_list (map message_bytes msgs) \<le> length ptr \<and> (ok \<longleftrightarrow> length msgs = n) \<and> length msgs \<le> n
     \<and> (\<forall>m \<in> set msgs. sublist (rm_cdr m) ptr \<and> sublist (rm_topic m) ptr)"
proof (induction n arbitrary: ptr ok msgs)
  case (Suc n)
  show ?case
  proof (cases "parse_message ptr")
    case None with Suc.prems show ?thesis by auto
  next
    case (Some mp)
    obtain m p where mp: "mp = (m, p)" by (cases mp)
    obtain ok' ms where r: "parse_messages n p = (ok', ms)" by (metis surj_pair)
    have o: "ok = ok'" "msgs = m # ms" using Suc.prems Some mp r by auto
    obtain h t where ptr: "ptr = h @ rm_topic m @ t @ rm_cdr m @ p" and l: "length h = 2" "length t = 12"
      using parse_message_piece [of ptr m p] Some mp by blast
    have "sublist p ptr" "sublist (rm_topic m) ptr" "sublist (rm_cdr m) ptr"
      unfolding ptr by (metis append.assoc sublist_appendI sublist_append_rightI append_Nil2)+
    with Suc.IH [OF r] o ptr l show ?thesis
      by (auto simp: message_bytes_def intro: sublist_order.order_trans)
  qed
qed auto

subsection \<open>Properties\<close>

lemma frame_reads_back:
  assumes "\<forall>m \<in> set msgs. message_fits m" "length msgs < 2 ^ 32"
    and "zstd_size (compress (concat (map encode_message msgs))) = size_word"
    and "unat size_word = length (concat (map encode_message msgs))"
    and "unat size_word \<le> max_decompressed_size"
    and "zstd_decompress (unat size_word) (compress (concat (map encode_message msgs))) = Some (concat (map encode_message msgs))"
  shows "parse_binary_frame zstd_size zstd_decompress (encode_frame compress msgs info) = (True, msgs)"
proof -
  have m: "le_nat (le_bytes 4 magic) = magic" by (rule le_nat_bytes) (simp add: magic_def)
  have n: "le_nat (le_bytes 4 (length msgs)) = length msgs" by (rule le_nat_bytes) (use assms(2) in simp)
  have z: "le_nat (le_bytes 4 0) = 0" by (rule le_nat_bytes) simp
  have c: "checked_decompressed_size size_word = Some (unat size_word)"
    using assms(5) by (simp add: checked_decompressed_size_def)
  have t: "take k (le_bytes k x @ y) = le_bytes k x" "drop k (le_bytes k x @ y) = y" for k x y by simp_all
  have d: "drop 12 (encode_frame compress msgs info) = le_bytes 4 0 @ compress (concat (map encode_message msgs))"
    "drop 16 (encode_frame compress msgs info) = compress (concat (map encode_message msgs))"
    by (simp_all add: encode_frame_def)
  show ?thesis
    using assms m n z c d parse_messages_encode [OF assms(1)]
    by (simp add: parse_binary_frame_def) (simp add: encode_frame_def t)
qed

text \<open>C10. A data frame reads back: with a codec that restores what it compressed, the messages encoded
  in a frame of at most 256 MiB are the messages parsed from it, in order, with topics, signed 64-bit
  timestamps and payloads.\<close>

theorem bridge_frames_read_back:
  assumes "\<forall>m \<in> set msgs. message_fits m" "length msgs < 2 ^ 32"
    and "zstd_size (compress (concat (map encode_message msgs))) = size_word"
    and "unat size_word = length (concat (map encode_message msgs))"
    and "unat size_word \<le> max_decompressed_size"
    and "zstd_decompress (unat size_word) (compress (concat (map encode_message msgs))) = Some (concat (map encode_message msgs))"
  shows "parse_binary_frame zstd_size zstd_decompress (encode_frame compress msgs info) = (True, msgs)"
  using assms by (rule frame_reads_back)

text \<open>Whatever arrives, parsing is safe: at most the declared number of messages comes out, each
  topic and payload is a contiguous piece of the decompressed payload, together they fit in it, success
  means exactly the declared number, and a declared size above 256 MiB, with ZSTD's two sentinels, is
  refused before anything is allocated.\<close>

theorem bridge_frame_bounds:
  assumes "parse_binary_frame zstd_size zstd_decompress frame = (ok, msgs)" "ok \<or> msgs \<noteq> []"
  shows "\<exists>payload. unat (zstd_size (drop 16 frame)) \<le> 268435456
    \<and> zstd_size (drop 16 frame) \<noteq> 0xFFFFFFFFFFFFFFFF \<and> zstd_size (drop 16 frame) \<noteq> 0xFFFFFFFFFFFFFFFE
    \<and> zstd_decompress (unat (zstd_size (drop 16 frame))) (drop 16 frame) = Some payload
    \<and> length msgs \<le> le_nat (take 4 (drop 4 frame)) \<and> (ok \<longleftrightarrow> length msgs = le_nat (take 4 (drop 4 frame)))
    \<and> sum_list (map message_bytes msgs) \<le> length payload
    \<and> (\<forall>m \<in> set msgs. sublist (rm_cdr m) payload \<and> sublist (rm_topic m) payload)"
proof -
  obtain payload where le: "unat (zstd_size (drop 16 frame)) \<le> max_decompressed_size"
    and d: "zstd_decompress (unat (zstd_size (drop 16 frame))) (drop 16 frame) = Some payload"
    and p: "parse_messages (le_nat (take 4 (drop 4 frame))) payload = (ok, msgs)"
    using assms by (auto simp: parse_binary_frame_def checked_decompressed_size_def Let_def split: if_splits option.splits)
  have "zstd_size (drop 16 frame) \<noteq> 0xFFFFFFFFFFFFFFFF \<and> zstd_size (drop 16 frame) \<noteq> 0xFFFFFFFFFFFFFFFE"
    using le by (auto simp: max_decompressed_size_def)
  with le d parse_messages_pieces [OF p] show ?thesis by (auto simp: max_decompressed_size_def)
qed

subsection \<open>Witnesses\<close>

definition sample_messages :: "raw_message list" where
  "sample_messages = [\<lparr>rm_topic = [47, 97], rm_timestamp = - 5, rm_cdr = [1, 2, 3]\<rparr>, \<lparr>rm_topic = [47], rm_timestamp = 7, rm_cdr = []\<rparr>]"

definition stored_size :: "bytes \<Rightarrow> 64 word" where
  "stored_size bs = of_nat (length bs)"

definition stored_payload :: "nat \<Rightarrow> bytes \<Rightarrow> bytes option" where
  "stored_payload n bs = (if length bs = n then Some bs else None)"

lemma sample_size: "length (concat (map encode_message sample_messages)) = 34"
  by (simp add: sample_messages_def encode_message_def)

lemma bridge_frames_read_back_witness:
  "parse_binary_frame stored_size stored_payload (encode_frame id sample_messages 0) = (True, sample_messages)"
  by (rule bridge_frames_read_back [where size_word = 34])
    (simp_all add: stored_size_def stored_payload_def sample_size max_decompressed_size_def,
     simp_all add: sample_messages_def message_fits_def)

lemma bridge_frame_bounds_witness:
  "sum_list (map message_bytes sample_messages) \<le> 34"
proof -
  have "parse_binary_frame stored_size stored_payload (encode_frame id sample_messages 0) = (True, sample_messages)"
    by (rule frame_reads_back [where size_word = 34])
      (simp_all add: stored_size_def stored_payload_def sample_size max_decompressed_size_def,
       simp_all add: sample_messages_def message_fits_def)
  from bridge_frame_bounds [OF this] show ?thesis
    by (auto simp: stored_size_def stored_payload_def encode_frame_def sample_size split: if_splits)
qed

end
