(* ===== verification/OrdMap.thy ===== *)
theory OrdMap
  imports Prelude "HOL-Library.List_Lexorder" "HOL-Library.Char_ord"
begin

section \<open>Ordered maps and sets\<close>

text \<open>
  \<open>std::map\<close> and \<open>std::set\<close> as the lists their iterators walk: entries in strictly ascending key order.
  Lookup is \<open>map_of\<close> and membership the list's; strings compare as lists of bytes, as \<open>std::string\<close>
  does. The operations keep the order, and two ordered maps with the same lookups are equal, so the
  code's \<open>operator==\<close> on maps is equality here.
\<close>

type_synonym ('k, 'v) omap = "('k \<times> 'v) list"

named_theorems omap_simps \<open>lookups and order of the map operations\<close>

abbreviation om_ok :: "('k::linorder, 'v) omap \<Rightarrow> bool" where
  "om_ok m \<equiv> sorted_wrt (<) (map fst m)"

abbreviation os_ok :: "'k::linorder list \<Rightarrow> bool" where
  "os_ok xs \<equiv> sorted_wrt (<) xs"

text \<open>\<open>m[k] = v\<close>, \<open>m.erase(k)\<close>, \<open>s.insert(k)\<close>, \<open>s.erase(k)\<close>.\<close>

fun om_put :: "'k::linorder \<Rightarrow> 'v \<Rightarrow> ('k, 'v) omap \<Rightarrow> ('k, 'v) omap" where
  "om_put k v [] = [(k, v)]"
| "om_put k v ((k', v') # m) =
     (if k < k' then (k, v) # (k', v') # m
      else if k = k' then (k, v) # m
      else (k', v') # om_put k v m)"

definition om_erase :: "'k \<Rightarrow> ('k, 'v) omap \<Rightarrow> ('k, 'v) omap" where
  "om_erase k m = filter (\<lambda>e. fst e \<noteq> k) m"

fun os_add :: "'k::linorder \<Rightarrow> 'k list \<Rightarrow> 'k list" where
  "os_add x [] = [x]"
| "os_add x (y # ys) = (if x < y then x # y # ys else if x = y then y # ys else y # os_add x ys)"

definition os_del :: "'k \<Rightarrow> 'k list \<Rightarrow> 'k list" where
  "os_del x xs = filter (\<lambda>y. y \<noteq> x) xs"

lemma om_put_keys: "fst ` set (om_put k v m) = insert k (fst ` set m)"
  by (induction k v m rule: om_put.induct) auto

lemma om_put_ok [omap_simps]: "om_ok m \<Longrightarrow> om_ok (om_put k v m)"
proof (induction k v m rule: om_put.induct)
  case (2 k v k' v' m)
  have keys: "\<forall>y \<in> set (map fst (om_put k v m)). k' < y" if "k' < k"
    using that 2(2) by (simp only: set_map om_put_keys) auto
  show ?case
  proof (cases "k < k' \<or> k = k'")
    case True with 2(2) show ?thesis by (auto intro: less_trans)
  next
    case False
    then have "k' < k" by auto
    with 2 keys False show ?thesis by auto
  qed
qed simp

lemma map_of_below: "om_ok ((k', v') # m) \<Longrightarrow> k < k' \<Longrightarrow> map_of m k = None"
  by (force simp: map_of_eq_None_iff)

lemma map_of_om_put [omap_simps]: "om_ok m \<Longrightarrow> map_of (om_put k v m) = (map_of m)(k \<mapsto> v)"
  by (induction k v m rule: om_put.induct) (auto simp: fun_eq_iff)

lemma om_erase_ok [omap_simps]: "om_ok m \<Longrightarrow> om_ok (om_erase k m)"
  by (induction m) (auto simp: om_erase_def)

lemma map_of_om_erase [omap_simps]: "map_of (om_erase k m) = (map_of m)(k := None)"
  by (induction m) (auto simp: om_erase_def fun_eq_iff)

lemma om_ok_distinct: "om_ok m \<Longrightarrow> distinct (map fst m)"
  by (simp add: strict_sorted_iff)

lemma os_ok_distinct: "os_ok xs \<Longrightarrow> distinct xs"
  by (simp add: strict_sorted_iff)

lemma set_os_add [simp]: "set (os_add x xs) = insert x (set xs)"
  by (induction x xs rule: os_add.induct) auto

lemma os_add_ok [omap_simps]: "os_ok xs \<Longrightarrow> os_ok (os_add x xs)"
  by (induction x xs rule: os_add.induct) (auto intro: less_trans)

lemma set_os_del [simp]: "set (os_del x xs) = set xs - {x}"
  by (auto simp: os_del_def)

lemma os_del_ok [omap_simps]: "os_ok xs \<Longrightarrow> os_ok (os_del x xs)"
  by (induction xs) (auto simp: os_del_def)

lemma om_eqI: "om_ok m \<Longrightarrow> om_ok n \<Longrightarrow> map_of m = map_of n \<Longrightarrow> m = n"
proof -
  assume a: "om_ok m" "om_ok n" and e: "map_of m = map_of n"
  have s: "set m = set n"
    using e a by (metis om_ok_distinct map_of_eq_Some_iff subrelI subset_antisym)
  have "inj_on fst (set m \<union> set n)" using om_ok_distinct [OF a(1)] s by (simp add: distinct_map)
  with a s show "m = n" by (intro map_sorted_distinct_set_unique [of fst m n]) (auto simp: strict_sorted_iff)
qed

lemma os_eqI: "os_ok xs \<Longrightarrow> os_ok ys \<Longrightarrow> set xs = set ys \<Longrightarrow> xs = ys"
  by (simp add: strict_sorted_iff sorted_distinct_set_unique)

end
