(* ===== verification/Json.thy ===== *)
theory Json
  imports Prelude "HOL-Library.Word"
begin

section \<open>JSON values\<close>

text \<open>
  The values of nlohmann::json (a library), as the code inspects them: the tree, \<open>find\<close>, the type
  tests, and the throwing accessor \<open>value(key, default)\<close>, whose exception is \<open>None\<close>. An object is the
  list of its members in map order; a floating-point number is its 64 bits, and what casts make of it a
  parameter. Parsing and printing JSON text are parameters of the components.
\<close>

datatype json =
    JNull
  | JBool bool
  | JInt int
  | JFloat "64 word"
  | JString string
  | JArray "json list"
  | JObject "(string \<times> json) list"

text \<open>\<open>entry.find(key)\<close>: \<open>None\<close> is \<open>end()\<close>, also for a value that is no object.\<close>

fun json_find :: "string \<Rightarrow> json \<Rightarrow> json option" where
  "json_find key (JObject ms) = map_of ms key"
| "json_find key j = None"

fun is_object :: "json \<Rightarrow> bool" where
  "is_object (JObject ms) = True"
| "is_object j = False"

text \<open>The elements a range-for over the member \<open>key\<close> visits, when it is an array.\<close>

definition json_array :: "string \<Rightarrow> json \<Rightarrow> json list option" where
  "json_array key j = (case json_find key j of Some (JArray xs) \<Rightarrow> Some xs | _ \<Rightarrow> None)"

text \<open>\<open>value(key, default)\<close> for a string and a bool: throws on a non-object and on a member of another
  type.\<close>

definition value_string :: "string \<Rightarrow> string \<Rightarrow> json \<Rightarrow> string option" where
  "value_string key dflt j =
     (if \<not> is_object j then None
      else case json_find key j of None \<Rightarrow> Some dflt | Some (JString s) \<Rightarrow> Some s | Some v \<Rightarrow> None)"

definition value_bool :: "string \<Rightarrow> bool \<Rightarrow> json \<Rightarrow> bool option" where
  "value_bool key dflt j =
     (if \<not> is_object j then None
      else case json_find key j of None \<Rightarrow> Some dflt | Some (JBool b) \<Rightarrow> Some b | Some v \<Rightarrow> None)"

text \<open>\<open>get<uint64_t>()\<close>: any number, cast; \<open>cast\<close> is the cast of a double. \<open>get<int>()\<close> keeps the low 32 bits of an
  integer and takes a bool for 0 or 1.\<close>

definition get_u64 :: "(64 word \<Rightarrow> 64 word) \<Rightarrow> json \<Rightarrow> 64 word option" where
  "get_u64 cast j = (case j of JInt i \<Rightarrow> Some (word_of_int i) | JFloat d \<Rightarrow> Some (cast d) | _ \<Rightarrow> None)"

definition get_int :: "(64 word \<Rightarrow> int) \<Rightarrow> json \<Rightarrow> int option" where
  "get_int cast j =
     (case j of JInt i \<Rightarrow> Some (signed_take_bit 31 i) | JFloat d \<Rightarrow> Some (cast d)
      | JBool b \<Rightarrow> Some (if b then 1 else 0) | _ \<Rightarrow> None)"

definition value_u64 :: "(64 word \<Rightarrow> 64 word) \<Rightarrow> string \<Rightarrow> 64 word \<Rightarrow> json \<Rightarrow> 64 word option" where
  "value_u64 cast key dflt j =
     (if \<not> is_object j then None else case json_find key j of None \<Rightarrow> Some dflt | Some v \<Rightarrow> get_u64 cast v)"

definition value_int :: "(64 word \<Rightarrow> int) \<Rightarrow> string \<Rightarrow> int \<Rightarrow> json \<Rightarrow> int option" where
  "value_int cast key dflt j =
     (if \<not> is_object j then None else case json_find key j of None \<Rightarrow> Some dflt | Some v \<Rightarrow> get_int cast v)"

text \<open>The values a range-for visits; of a value that is no container, itself.\<close>

definition json_elements :: "json \<Rightarrow> json list" where
  "json_elements j = (case j of JArray xs \<Rightarrow> xs | JObject ms \<Rightarrow> map snd ms | JNull \<Rightarrow> [] | _ \<Rightarrow> [j])"

end
