(* ===== verification/TopicControl.thy ===== *)
theory TopicControl
  imports OrdMap Json "HOL-Library.Word"
begin

section \<open>Topic subscription control\<close>

text \<open>
  The control-plane functions of the three demand-driven streamers: pj_bridge
  (pj_bridge_topic_subscription.hpp), foxglove (foxglove_topic_subscription.hpp, foxglove_protocol.hpp)
  and ROS 2 (ros2_topic_subscription.hpp). Each has a diff of what is live against what is wanted; the
  locale \<open>reconciler\<close> states what a diff and the execution of its commands owe their caller, and proves
  once what the callers rely on: one pass reaches the target, a second pass sends nothing, no wanted
  live subscription is touched, and the order in which demands and advertisements arrive does not
  matter. \<open>passes\<close> is the SDK's selection filter.
\<close>

record topic_info =
  ti_name :: string
  ti_encoding :: string
  ti_schema_name :: string
  ti_schema :: string

type_synonym catalog = "(string, topic_info) omap"

subsection \<open>The PlotJuggler bridge\<close>

text \<open>\<open>computeSubscriptionDiff\<close>: the names to unsubscribe and to subscribe.\<close>

definition bridge_diff :: "string list \<Rightarrow> string list \<times> string list \<Rightarrow> string list \<times> string list" where
  "bridge_diff applied want =
     (case want of (advertised, desired) \<Rightarrow>
        (filter (\<lambda>t. t \<notin> set desired \<or> t \<notin> set advertised) applied,
         filter (\<lambda>t. t \<in> set desired \<and> t \<notin> set applied) advertised))"

definition filtered_advertised :: "(string \<Rightarrow> string list \<Rightarrow> bool) \<Rightarrow> catalog \<Rightarrow> string list \<Rightarrow> string list" where
  "filtered_advertised passes advertised selection =
     map fst (filter (\<lambda>e. passes (fst e) selection) advertised)"

definition string_field :: "string \<Rightarrow> json \<Rightarrow> string" where
  "string_field key entry = (case json_find key entry of Some (JString s) \<Rightarrow> s | _ \<Rightarrow> [])"

definition parse_topic_entry :: "json \<Rightarrow> topic_info option" where
  "parse_topic_entry entry =
     (if \<not> is_object entry then None
      else let name = string_field ''name'' entry in
        if name = [] then None
        else let schema_name = string_field ''schema_name'' entry in
          Some \<lparr>ti_name = name, ti_encoding = string_field ''encoding'' entry,
                ti_schema_name = (if schema_name = [] then string_field ''type'' entry else schema_name),
                ti_schema = string_field ''definition'' entry\<rparr>)"

definition retyped_topics :: "catalog \<Rightarrow> catalog \<Rightarrow> string list \<Rightarrow> string list" where
  "retyped_topics before after applied =
     filter (\<lambda>name. case (map_of before name, map_of after name) of
                      (Some old, Some new) \<Rightarrow> old \<noteq> new
                    | _ \<Rightarrow> False) applied"

definition supported_version :: int where "supported_version = 1"

text \<open>\<open>get<int>()\<close> keeps the low 32 bits of a 64-bit integer.\<close>

definition to_int32 :: "int \<Rightarrow> int" where
  "to_int32 i = signed_take_bit 31 i"

definition unsupported_protocol_version :: "json \<Rightarrow> int \<Rightarrow> int option" where
  "unsupported_protocol_version response supported =
     (case json_find ''protocol_version'' response of
        Some (JInt i) \<Rightarrow> if to_int32 i > supported then Some (to_int32 i) else None
      | _ \<Rightarrow> None)"

record server_info =
  si_name :: string
  si_version :: string
  si_capabilities :: "string list"

definition has_capability :: "server_info \<Rightarrow> string \<Rightarrow> bool" where
  "has_capability info capability \<longleftrightarrow> capability \<in> set (si_capabilities info)"

fun insert_strings :: "json list \<Rightarrow> string list \<Rightarrow> string list" where
  "insert_strings [] acc = acc"
| "insert_strings (JString s # js) acc = insert_strings js (os_add s acc)"
| "insert_strings (j # js) acc = insert_strings js acc"

definition parse_server_info :: "json \<Rightarrow> server_info option" where
  "parse_server_info response =
     (case json_find ''server'' response of
        Some (JObject ms) \<Rightarrow>
          Some \<lparr>si_name = string_field ''name'' (JObject ms), si_version = string_field ''version'' (JObject ms),
                si_capabilities = (case json_array ''capabilities'' (JObject ms) of
                   None \<Rightarrow> [] | Some caps \<Rightarrow> insert_strings caps [])\<rparr>
      | _ \<Rightarrow> None)"

definition failure_is_stale :: "(string \<Rightarrow> string option) \<Rightarrow> string \<Rightarrow> string \<Rightarrow> bool" where
  "failure_is_stale last_id topic response_id \<longleftrightarrow>
     response_id \<noteq> [] \<and> last_id topic \<noteq> None \<and> last_id topic \<noteq> Some response_id"

text \<open>\<open>applyAdvertiseDelta\<close>: the upserts, then the removals; whether anything changed.\<close>

fun upsert_all :: "topic_info list \<Rightarrow> catalog \<Rightarrow> bool \<times> catalog" where
  "upsert_all [] m = (False, m)"
| "upsert_all (info # infos) m =
     (let same = (map_of m (ti_name info) = Some info);
          m1 = (if same then m else om_put (ti_name info) info m)
      in case upsert_all infos m1 of (changed, m2) \<Rightarrow> (changed \<or> \<not> same, m2))"

fun erase_all :: "string list \<Rightarrow> catalog \<Rightarrow> bool \<times> catalog" where
  "erase_all [] m = (False, m)"
| "erase_all (name # names) m =
     (case erase_all names (om_erase name m) of (changed, m2) \<Rightarrow> (changed \<or> map_of m name \<noteq> None, m2))"

definition apply_advertise_delta :: "topic_info list \<Rightarrow> string list \<Rightarrow> catalog \<Rightarrow> bool \<times> catalog" where
  "apply_advertise_delta added removed m =
     (case upsert_all added m of (c1, m1) \<Rightarrow> (case erase_all removed m1 of (c2, m2) \<Rightarrow> (c1 \<or> c2, m2)))"

subsection \<open>Foxglove\<close>

record channel_info =
  ci_id :: "64 word"
  ci_topic :: string
  ci_encoding :: string
  ci_schema_name :: string
  ci_schema :: string
  ci_schema_encoding :: string

record channel_route =
  cr_supported :: bool
  cr_parser_encoding :: string
  cr_base64 :: bool
  cr_label_keyed :: bool

definition no_route :: channel_route where
  "no_route = \<lparr>cr_supported = False, cr_parser_encoding = [], cr_base64 = False, cr_label_keyed = False\<rparr>"

definition classify_channel :: "channel_info \<Rightarrow> channel_route" where
  "classify_channel ch =
     (if ci_topic ch = [] then no_route
      else if ci_encoding ch = ''cdr'' \<and> (ci_schema_encoding ch = ''ros2msg'' \<or> ci_schema_encoding ch = ''omgidl'')
              \<and> ci_schema_name ch \<noteq> [] \<and> ci_schema ch \<noteq> []
      then no_route\<lparr>cr_supported := True, cr_parser_encoding := ci_schema_encoding ch\<rparr>
      else if ci_encoding ch = ''protobuf'' \<and> ci_schema_encoding ch = ''protobuf'' \<and> ci_schema_name ch \<noteq> []
      then no_route\<lparr>cr_supported := True, cr_parser_encoding := ''protobuf'', cr_base64 := True\<rparr>
      else if ci_encoding ch = ''json'' \<and> (ci_schema_encoding ch = ''jsonschema'' \<or> ci_schema_encoding ch = [])
      then no_route\<lparr>cr_supported := True, cr_parser_encoding := ''json'', cr_label_keyed := True\<rparr>
      else no_route)"

text \<open>Subscriptions: id to channel. An id is the value of a counter that starts at 1 and grows by one per
  subscription sent; it is a \<open>nat\<close>, not the code's \<open>uint32_t\<close>, since a session never sends 2^32 of them. The diff gives the ids to drop and the channels to subscribe.\<close>

type_synonym subscriptions = "(nat, 64 word) omap"

definition foxglove_diff ::
  "subscriptions \<Rightarrow> (64 word, string) omap \<times> string list \<Rightarrow> nat list \<times> 64 word list" where
  "foxglove_diff current want =
     (case want of (advertised, desired) \<Rightarrow>
        (map fst (filter (\<lambda>(sub_id, channel_id). \<not> (case map_of advertised channel_id of
                             Some topic \<Rightarrow> topic \<in> set desired | None \<Rightarrow> False)) current),
         map fst (filter (\<lambda>(channel_id, topic). topic \<in> set desired \<and> channel_id \<notin> snd ` set current) advertised)))"

definition filtered_channels ::
  "(string \<Rightarrow> string list \<Rightarrow> bool) \<Rightarrow> (64 word, channel_info) omap \<Rightarrow> channel_info list \<Rightarrow> (64 word, string) omap" where
  "filtered_channels passes advertised selection =
     map (\<lambda>(channel_id, ch). (channel_id, ci_topic ch))
       (filter (\<lambda>(channel_id, ch). cr_supported (classify_channel ch) \<and> passes (ci_topic ch) (map ci_topic selection)) advertised)"

subsection \<open>ROS 2\<close>

text \<open>Topic to type, for what is subscribed and for what can be.\<close>

type_synonym typed_topics = "(string, string) omap"

definition ros2_diff :: "typed_topics \<Rightarrow> typed_topics \<times> string list \<Rightarrow> string list \<times> (string \<times> string) list" where
  "ros2_diff current want =
     (case want of (subscribable, desired) \<Rightarrow>
        (map fst (filter (\<lambda>(topic, ty). \<not> (topic \<in> set desired \<and> map_of subscribable topic = Some ty)) current),
         filter (\<lambda>(topic, ty). topic \<in> set desired \<and> map_of current topic \<noteq> Some ty) subscribable))"

definition filtered_discovered ::
  "(string \<Rightarrow> string list \<Rightarrow> bool) \<Rightarrow> typed_topics \<Rightarrow> (string \<times> string) list \<Rightarrow> typed_topics" where
  "filtered_discovered passes discovered selection =
     filter (\<lambda>(topic, ty). passes topic (map fst selection)) discovered"

text \<open>\<open>splitTopicTypes\<close>: topics of one type, and the names of those with several.\<close>

definition split_topic_types :: "(string, string list) omap \<Rightarrow> typed_topics \<times> string list" where
  "split_topic_types raw =
     (map (\<lambda>(name, types). (name, hd types)) (filter (\<lambda>(name, types). length types = 1) raw),
      map fst (filter (\<lambda>(name, types). length types > 1) raw))"

subsection \<open>The contract\<close>

text \<open>
  \<open>live a\<close> are the keys subscribed in \<open>a\<close>, \<open>goal w\<close> the keys a demand \<open>w\<close> asks for, and \<open>drop_all\<close> and
  \<open>add_all\<close> execute the two command lists of \<open>diff a w\<close>.
\<close>

locale reconciler =
  fixes diff :: "'a \<Rightarrow> 'w \<Rightarrow> 'x list \<times> 'y list"
    and ok :: "'a \<Rightarrow> bool" and ok_want :: "'w \<Rightarrow> bool"
    and live :: "'a \<Rightarrow> 'k set" and goal :: "'w \<Rightarrow> 'k set"
    and drop_key :: "'a \<Rightarrow> 'x \<Rightarrow> 'k" and add_key :: "'y \<Rightarrow> 'k"
    and drop_all :: "'x list \<Rightarrow> 'a \<Rightarrow> 'a" and add_all :: "'y list \<Rightarrow> 'a \<Rightarrow> 'a"
  assumes dropped_keys: "ok a \<Longrightarrow> ok_want w \<Longrightarrow> drop_key a ` set (fst (diff a w)) = live a - goal w"
    and added_keys: "ok a \<Longrightarrow> ok_want w \<Longrightarrow> add_key ` set (snd (diff a w)) = goal w - live a"
    and drop_live: "ok a \<Longrightarrow> ok_want w \<Longrightarrow> live (drop_all (fst (diff a w)) a) = live a - drop_key a ` set (fst (diff a w))"
    and drop_ok: "ok a \<Longrightarrow> ok_want w \<Longrightarrow> ok (drop_all (fst (diff a w)) a)"
    and add_live: "ok a \<Longrightarrow> ok_want w \<Longrightarrow> live a \<subseteq> goal w \<Longrightarrow> add_key ` set ys = goal w - live a \<Longrightarrow> live (add_all ys a) = live a \<union> add_key ` set ys"
    and add_ok: "ok a \<Longrightarrow> ok_want w \<Longrightarrow> ys = snd (diff a0 w) \<Longrightarrow> add_key ` set ys \<inter> live a = {} \<Longrightarrow> ok (add_all ys a)"
begin

definition reconcile :: "'w \<Rightarrow> 'a \<Rightarrow> 'a" where
  "reconcile w a = add_all (snd (diff a w)) (drop_all (fst (diff a w)) a)"

lemma reconcile_live:
  assumes "ok a" "ok_want w"
  shows "live (reconcile w a) = goal w"
proof -
  have d: "live (drop_all (fst (diff a w)) a) = live a \<inter> goal w"
    using drop_live [OF assms] dropped_keys [OF assms] by auto
  then have "add_key ` set (snd (diff a w)) = goal w - live (drop_all (fst (diff a w)) a)"
    using added_keys [OF assms] by auto
  with add_live [OF drop_ok [OF assms] assms(2)] d added_keys [OF assms] show ?thesis
    by (auto simp: reconcile_def)
qed

lemma reconcile_ok:
  assumes "ok a" "ok_want w"
  shows "ok (reconcile w a)"
  unfolding reconcile_def
proof (rule add_ok [OF drop_ok [OF assms] assms(2) refl])
  show "add_key ` set (snd (diff a w)) \<inter> live (drop_all (fst (diff a w)) a) = {}"
    using drop_live [OF assms] dropped_keys [OF assms] added_keys [OF assms] by auto
qed

lemma settled_diff: "ok a \<Longrightarrow> ok_want w \<Longrightarrow> live a = goal w \<Longrightarrow> diff a w = ([], [])"
  using dropped_keys [of a w] added_keys [of a w] by (auto intro: prod_eqI)

lemma second_pass_silent: "ok a \<Longrightarrow> ok_want w \<Longrightarrow> diff (reconcile w a) w = ([], [])"
  by (simp add: settled_diff reconcile_live reconcile_ok)

lemma wanted_live_untouched:
  assumes "ok a" "ok_want w" "k \<in> live a" "k \<in> goal w"
  shows "k \<notin> drop_key a ` set (fst (diff a w)) \<and> k \<notin> add_key ` set (snd (diff a w))"
  using assms by (simp add: dropped_keys added_keys)

text \<open>Whatever demands came before, the last one decides.\<close>

lemma reconcile_last:
  assumes "ok a" "list_all ok_want (ws @ [w])"
  shows "live (fold reconcile (ws @ [w]) a) = goal w"
proof -
  have "ok (fold reconcile ws a)"
    using assms by (induction ws arbitrary: a) (auto intro: reconcile_ok)
  then show ?thesis using assms(2) by (simp add: reconcile_live)
qed

end

subsection \<open>The bridge fulfils it\<close>

definition bridge_goal :: "string list \<times> string list \<Rightarrow> string set" where
  "bridge_goal want = set (fst want) \<inter> set (snd want)"

definition drop_names :: "string list \<Rightarrow> string list \<Rightarrow> string list" where
  "drop_names names applied = fold os_del names applied"

definition add_names :: "string list \<Rightarrow> string list \<Rightarrow> string list" where
  "add_names names applied = fold os_add names applied"

lemma set_drop_names [simp]: "set (drop_names names applied) = set applied - set names"
  by (induction names arbitrary: applied) (auto simp: drop_names_def)

lemma set_add_names [simp]: "set (add_names names applied) = set applied \<union> set names"
  by (induction names arbitrary: applied) (auto simp: add_names_def)

lemma drop_names_ok: "os_ok applied \<Longrightarrow> os_ok (drop_names names applied)"
  by (induction names arbitrary: applied) (auto simp: drop_names_def omap_simps)

lemma add_names_ok: "os_ok applied \<Longrightarrow> os_ok (add_names names applied)"
  by (induction names arbitrary: applied) (auto simp: add_names_def omap_simps)

interpretation pjb: reconciler bridge_diff os_ok "\<lambda>w. True" set bridge_goal "\<lambda>a x. x" "\<lambda>y. y" drop_names add_names
  by unfold_locales
    (auto simp: bridge_diff_def bridge_goal_def drop_names_ok add_names_ok split: prod.splits)

subsection \<open>Foxglove fulfils it\<close>

text \<open>The subscriptions beside the next id, as \<open>registerSubscription\<close> grows them.\<close>

type_synonym sub_state = "subscriptions \<times> nat"

definition foxglove_ok :: "sub_state \<Rightarrow> bool" where
  "foxglove_ok st \<longleftrightarrow> om_ok (fst st) \<and> distinct (map snd (fst st)) \<and> (\<forall>i \<in> fst ` set (fst st). i < snd st)"

definition foxglove_goal :: "(64 word, string) omap \<times> string list \<Rightarrow> 64 word set" where
  "foxglove_goal want = {c. \<exists>t. map_of (fst want) c = Some t \<and> t \<in> set (snd want)}"

definition drop_subs :: "nat list \<Rightarrow> sub_state \<Rightarrow> sub_state" where
  "drop_subs ids st = (fold om_erase ids (fst st), snd st)"

definition add_sub :: "64 word \<Rightarrow> sub_state \<Rightarrow> sub_state" where
  "add_sub channel st = (om_put (snd st) channel (fst st), snd st + 1)"

definition add_subs :: "64 word list \<Rightarrow> sub_state \<Rightarrow> sub_state" where
  "add_subs channels st = fold add_sub channels st"

lemma fold_om_erase: "fold om_erase ks m = filter (\<lambda>e. fst e \<notin> set ks) m"
  by (induction ks arbitrary: m) (auto simp: om_erase_def conj_commute intro: filter_cong)

lemma om_put_above: "\<forall>i \<in> fst ` set m. i < k \<Longrightarrow> om_put k v m = m @ [(k, v)]" for k :: "'k::linorder"
proof (induction m)
  case (Cons e m)
  have "\<not> k < fst e" "k \<noteq> fst e" using Cons.prems by auto
  with Cons show ?case by (cases e) simp
qed simp

lemma add_sub_ok:
  assumes "foxglove_ok st" "c \<notin> snd ` set (fst st)"
  shows "foxglove_ok (add_sub c st) \<and> snd ` set (fst (add_sub c st)) = insert c (snd ` set (fst st))"
proof -
  have p: "om_put (snd st) c (fst st) = fst st @ [(snd st, c)]"
    using assms(1) by (intro om_put_above) (simp add: foxglove_ok_def)
  show ?thesis using assms by (auto simp: foxglove_ok_def add_sub_def p sorted_wrt_append less_Suc_eq)
qed

lemma add_subs_ok:
  "foxglove_ok st \<Longrightarrow> distinct cs \<Longrightarrow> set cs \<inter> snd ` set (fst st) = {} \<Longrightarrow>
     foxglove_ok (add_subs cs st) \<and> snd ` set (fst (add_subs cs st)) = snd ` set (fst st) \<union> set cs"
proof (induction cs arbitrary: st)
  case (Cons c cs)
  then show ?case using add_sub_ok [of st c] Cons.IH [of "add_sub c st"] by (auto simp: add_subs_def)
qed (simp add: add_subs_def)

text \<open>Without the distinctness the live channels still grow by what is added.\<close>

lemma add_subs_live:
  "foxglove_ok st \<or> (om_ok (fst st) \<and> (\<forall>i \<in> fst ` set (fst st). i < snd st)) \<Longrightarrow>
     snd ` set (fst (add_subs cs st)) = snd ` set (fst st) \<union> set cs"
proof (induction cs arbitrary: st)
  case (Cons c cs)
  have o: "om_ok (fst st)" "\<forall>i \<in> fst ` set (fst st). i < snd st" using Cons.prems by (auto simp: foxglove_ok_def)
  have p: "om_put (snd st) c (fst st) = fst st @ [(snd st, c)]" using o(2) by (rule om_put_above)
  have "om_ok (fst (add_sub c st)) \<and> (\<forall>i \<in> fst ` set (fst (add_sub c st)). i < snd (add_sub c st))"
    using o by (auto simp: add_sub_def p sorted_wrt_append less_Suc_eq)
  with Cons.IH [of "add_sub c st"] p show ?case by (auto simp: add_subs_def add_sub_def)
qed (simp add: add_subs_def)

interpretation fox: reconciler "\<lambda>st. foxglove_diff (fst st)" foxglove_ok "\<lambda>w. om_ok (fst w)"
  "\<lambda>st. snd ` set (fst st)" foxglove_goal "\<lambda>st i. the (map_of (fst st) i)" "\<lambda>c. c" drop_subs add_subs
proof (unfold_locales, goal_cases)
  case (1 a w)
  obtain adv des where w: "w = (adv, des)" by (cases w)
  have m: "map_of (fst a) i = Some c" if "(i, c) \<in> set (fst a)" for i c
    using 1(1) that by (simp add: foxglove_ok_def om_ok_distinct)
  show ?case
    by (force simp: w foxglove_diff_def foxglove_goal_def image_iff m split: option.splits)
next
  case (2 a w)
  obtain adv des where w: "w = (adv, des)" by (cases w)
  have m: "map_of adv c = Some t \<longleftrightarrow> (c, t) \<in> set adv" for c t
    using 2(2) by (simp add: w om_ok_distinct)
  show ?case by (force simp: w foxglove_diff_def foxglove_goal_def m)
next
  case (3 a w)
  let ?ids = "fst (foxglove_diff (fst a) w)"
  have m: "map_of (fst a) i = Some c" if "(i, c) \<in> set (fst a)" for i c
    using 3(1) that by (simp add: foxglove_ok_def om_ok_distinct)
  have inj: "i = j" if "(i, c) \<in> set (fst a)" "(j, c) \<in> set (fst a)" for i j c
    
  proof -
    have "inj_on snd (set (fst a))" using 3(1) by (simp add: foxglove_ok_def distinct_map)
    from inj_onD [OF this, of "(i, c)" "(j, c)"] that show ?thesis by simp
  qed
  have ids: "set ?ids \<subseteq> fst ` set (fst a)" by (auto simp: foxglove_diff_def split: prod.splits)
  show ?case
  proof (intro set_eqI iffI)
    fix c assume "c \<in> snd ` set (fst (drop_subs ?ids a))"
    then obtain i where i: "(i, c) \<in> set (fst a)" "i \<notin> set ?ids" by (auto simp: drop_subs_def fold_om_erase)
    have "c \<notin> (\<lambda>i. the (map_of (fst a) i)) ` set ?ids"
    proof
      assume "c \<in> (\<lambda>i. the (map_of (fst a) i)) ` set ?ids"
      then obtain j where "j \<in> set ?ids" "the (map_of (fst a) j) = c" by auto
      then have "(j, c) \<in> set (fst a)" using ids m by fastforce
      with i inj \<open>j \<in> set ?ids\<close> show False by blast
    qed
    with i(1) show "c \<in> snd ` set (fst a) - (\<lambda>i. the (map_of (fst a) i)) ` set ?ids" by force
  next
    fix c assume c: "c \<in> snd ` set (fst a) - (\<lambda>i. the (map_of (fst a) i)) ` set ?ids"
    then obtain i where i: "(i, c) \<in> set (fst a)" by auto
    with c m have "i \<notin> set ?ids" by force
    with i show "c \<in> snd ` set (fst (drop_subs ?ids a))" by (force simp: drop_subs_def fold_om_erase)
  qed
next
  case (4 a w)
  have "om_ok (filter P (fst a))" "distinct (map snd (filter P (fst a)))" for P
    using 4(1) by (auto simp: foxglove_ok_def sorted_wrt_filter sorted_wrt_map distinct_map_filter)
  with 4(1) show ?case by (auto simp: foxglove_ok_def drop_subs_def fold_om_erase)
next
  case (5 a w ys)
  then show ?case by (simp add: add_subs_live)
next
  case (6 a w ys a0)
  obtain adv des where w: "w = (adv, des)" by (cases w)
  have "distinct (map fst adv)" using 6(2) by (simp add: w om_ok_distinct)
  then have "distinct ys" unfolding 6(3) w foxglove_diff_def prod.case snd_conv by (rule distinct_map_filter)
  with add_subs_ok [OF 6(1)] 6(4) show ?case by auto
qed

subsection \<open>ROS 2 fulfils it\<close>

definition ros2_goal :: "typed_topics \<times> string list \<Rightarrow> (string \<times> string) set" where
  "ros2_goal want = {(t, ty). map_of (fst want) t = Some ty \<and> t \<in> set (snd want)}"

definition drop_typed :: "string list \<Rightarrow> typed_topics \<Rightarrow> typed_topics" where
  "drop_typed names current = fold om_erase names current"

definition add_typed :: "(string \<times> string) list \<Rightarrow> typed_topics \<Rightarrow> typed_topics" where
  "add_typed tys current = fold (\<lambda>(t, ty). om_put t ty) tys current"

lemma add_typed_ok: "om_ok m \<Longrightarrow> om_ok (add_typed tys m)"
  by (induction tys arbitrary: m) (auto simp: add_typed_def omap_simps)

lemma add_typed_set:
  "om_ok m \<Longrightarrow> (\<forall>(t, ty) \<in> set tys. \<forall>ty'. (t, ty') \<in> set m \<union> set tys \<longrightarrow> ty' = ty) \<Longrightarrow> set (add_typed tys m) = set m \<union> set tys"
proof (induction tys arbitrary: m)
  case (Cons e tys)
  obtain t ty where e: "e = (t, ty)" by (cases e)
  have o: "om_ok (om_put t ty m)" using Cons.prems(1) by (rule om_put_ok)
  have s: "set (om_put t ty m) = insert (t, ty) (set m)"
  proof -
    have mem: "(a, b) \<in> set n \<longleftrightarrow> map_of n a = Some b" if "om_ok n" for n :: typed_topics and a b
      using that by (simp add: om_ok_distinct)
    have "(a, b) \<in> set (om_put t ty m) \<longleftrightarrow> (a, b) \<in> insert (t, ty) (set m)" for a b
      unfolding mem [OF o] map_of_om_put [OF Cons.prems(1)] using Cons.prems e mem [OF Cons.prems(1)] by auto
    then show ?thesis by auto
  qed
  have "\<forall>(t', ty') \<in> set tys. \<forall>ty''. (t', ty'') \<in> set (om_put t ty m) \<union> set tys \<longrightarrow> ty'' = ty'"
    using Cons.prems(2) by (auto simp: s e)
  from Cons.IH [OF o this] s show ?case by (auto simp: add_typed_def e)
qed (simp add: add_typed_def)

interpretation ros: reconciler ros2_diff om_ok "\<lambda>w. om_ok (fst w)" set ros2_goal "\<lambda>a t. (t, the (map_of a t))" "\<lambda>y. y"
  drop_typed add_typed
proof (unfold_locales, goal_cases)
  case (1 a w)
  have m: "map_of a t = Some ty" if "(t, ty) \<in> set a" for t ty using 1(1) that by (simp add: om_ok_distinct)
  show ?case by (cases w) (force simp: ros2_diff_def ros2_goal_def image_iff m)
next
  case (2 a w)
  have m: "map_of a t = Some ty \<longleftrightarrow> (t, ty) \<in> set a" for t ty using 2(1) by (simp add: om_ok_distinct)
  show ?case
    using 2(2) by (cases w) (auto simp: ros2_diff_def ros2_goal_def m om_ok_distinct)
next
  case (3 a w)
  have m: "map_of a t = Some ty" if "(t, ty) \<in> set a" for t ty using 3(1) that by (simp add: om_ok_distinct)
  have "(t, ty) \<in> (\<lambda>t. (t, the (map_of a t))) ` set ks \<longleftrightarrow> t \<in> set ks" if "(t, ty) \<in> set a" for t ty ks
    using m [OF that] by (auto simp: image_iff)
  then show ?case by (auto simp: drop_typed_def fold_om_erase)
next
  case (4 a w)
  then show ?case by (auto simp: drop_typed_def fold_om_erase sorted_wrt_filter sorted_wrt_map)
next
  case (5 a w ys)
  have g: "\<And>t ty ty'. (t, ty) \<in> ros2_goal w \<Longrightarrow> (t, ty') \<in> ros2_goal w \<Longrightarrow> ty = ty'" by (auto simp: ros2_goal_def)
  have "set a \<union> set ys \<subseteq> ros2_goal w" using 5(3,4) by auto
  then have "\<forall>(t, ty) \<in> set ys. \<forall>ty'. (t, ty') \<in> set a \<union> set ys \<longrightarrow> ty' = ty" using g by blast
  from add_typed_set [OF 5(1) this] show ?case by simp
qed (simp add: add_typed_ok)

subsection \<open>Passes\<close>

text \<open>One pass of each streamer: the diff, its drops, then its additions.\<close>

definition bridge_pass :: "string list \<times> string list \<Rightarrow> string list \<Rightarrow> string list" where
  "bridge_pass want applied = (case bridge_diff applied want of (unsub, sub) \<Rightarrow> add_names sub (drop_names unsub applied))"

definition foxglove_pass :: "(64 word, string) omap \<times> string list \<Rightarrow> sub_state \<Rightarrow> sub_state" where
  "foxglove_pass want st = (case foxglove_diff (fst st) want of (unsub, sub) \<Rightarrow> add_subs sub (drop_subs unsub st))"

definition ros2_pass :: "typed_topics \<times> string list \<Rightarrow> typed_topics \<Rightarrow> typed_topics" where
  "ros2_pass want current = (case ros2_diff current want of (unsub, sub) \<Rightarrow> add_typed sub (drop_typed unsub current))"

lemma passes_reconcile:
  "bridge_pass = pjb.reconcile" "foxglove_pass = fox.reconcile" "ros2_pass = ros.reconcile"
  by (simp_all add: fun_eq_iff bridge_pass_def pjb.reconcile_def foxglove_pass_def fox.reconcile_def ros2_pass_def
      ros.reconcile_def split: prod.split)



end
