(* ===== verification/BridgeSource.thy ===== *)
theory BridgeSource
  imports BridgeQueue BridgeFrame TopicControl
begin

section \<open>The bridge source (data_stream_pj_bridge/pj_bridge_source.cpp)\<close>

text \<open>
  \<open>PjBridgeSource\<close> as a state machine: start, poll, stop, pause and resume of the host, the transport
  pushing events into the shared queue, and the host's set of active topics. A step is one such call;
  the two surfaces other threads write, the queue and the latest-value slot, are locked by their own
  operations, and a delivery during a poll is ordered before or after it. Every call to the outside (host,
  socket, clock, id generator) is an action of a log, and its answer a function of the log that ends
  with it, in the record \<open>env\<close> with the libraries (JSON parsing, ZSTD, the SDK). No JSON access on these
  paths throws after the parse except in \<open>onStart\<close>, where it is modelled. Facts shown: in every reachable
  state a set phase has a socket, subscriptions are a subset of what is advertised and wanted unless a
  reconcile is due, each has its request id, legacy hosts have none; a failure is final until stop;
  deadlines end the waiting phases.
\<close>

datatype wire = Raw string | Dump json

datatype 'h action =
    ReadClock
  | NewId
  | AskOpen
  | StartSocket string
  | StopSocket
  | SendText wire
  | ReportMsg string string
  | Notify "topic_info list"
  | EnsureBinding string string string string json
  | PushMessage 'h int bytes

type_synonym 'h log = "'h action list"

record 'h env =
  en_now :: "'h log \<Rightarrow> int"
  en_id :: "'h log \<Rightarrow> string"
  en_open :: "'h log \<Rightarrow> bool"
  en_start :: "'h log \<Rightarrow> string option"
  en_notify :: "'h log \<Rightarrow> string option"
  en_bind :: "'h log \<Rightarrow> string + 'h"
  en_push :: "'h log \<Rightarrow> string option"
  en_json :: "string \<Rightarrow> json option"
  en_passes :: "string \<Rightarrow> string list \<Rightarrow> bool"
  en_limit :: "json \<Rightarrow> (string, json) omap"
  en_zstd_size :: "bytes \<Rightarrow> 64 word"
  en_zstd :: "nat \<Rightarrow> bytes \<Rightarrow> bytes option"
  en_mib :: "nat \<Rightarrow> string"
  en_connect_timeout :: int
  en_subscribe_timeout :: int
  en_queue_bytes :: nat

datatype phase = Connecting | Discovery | Streaming

record 'h bridge =
  br_endpoint :: string
  br_array_limit :: "(string, json) omap"
  br_use_timestamp :: bool
  br_selected :: "topic_info list"
  br_socket :: bool
  br_events :: "bridge_queue option"
  br_bindings :: "string \<Rightarrow> 'h option"
  br_phase :: phase
  br_connect_deadline :: int
  br_subscribe_deadline :: int
  br_heartbeat :: nat
  br_paused :: bool
  br_response :: bool
  br_demand :: bool
  br_dirty :: bool
  br_catalog :: catalog
  br_applied :: "string list"
  br_fatal :: string
  br_info_logged :: bool
  br_reported_frames :: nat
  br_last_warning :: int
  br_last_id :: "string \<Rightarrow> string option"
  br_desired :: "string list"
  br_slot :: "string list option"
  br_log :: "'h log"

definition new_bridge :: "'h bridge" where
  "new_bridge =
     \<lparr>br_endpoint = [], br_array_limit = [], br_use_timestamp = False, br_selected = [], br_socket = False,
      br_events = None, br_bindings = (\<lambda>t. None), br_phase = Connecting, br_connect_deadline = 0,
      br_subscribe_deadline = 0, br_heartbeat = 0, br_paused = False, br_response = False, br_demand = False,
      br_dirty = False, br_catalog = [], br_applied = [], br_fatal = [], br_info_logged = False,
      br_reported_frames = 0, br_last_warning = 0, br_last_id = (\<lambda>t. None), br_desired = [], br_slot = None,
      br_log = []\<rparr>"

subsection \<open>Calls to the outside\<close>

definition act :: "'h action \<Rightarrow> 'h bridge \<Rightarrow> 'h bridge" where
  "act a st = st\<lparr>br_log := br_log st @ [a]\<rparr>"

definition read_now :: "'h env \<Rightarrow> 'h bridge \<Rightarrow> int \<times> 'h bridge" where
  "read_now env st = (en_now env (br_log (act ReadClock st)), act ReadClock st)"

definition new_id :: "'h env \<Rightarrow> 'h bridge \<Rightarrow> string \<times> 'h bridge" where
  "new_id env st = (en_id env (br_log (act NewId st)), act NewId st)"

definition warning :: "string \<Rightarrow> 'h bridge \<Rightarrow> 'h bridge" where
  "warning msg st = act (ReportMsg ''warning'' msg) st"

definition send_request :: "'h env \<Rightarrow> string \<Rightarrow> 'h bridge \<Rightarrow> 'h bridge" where
  "send_request env command st =
     (case new_id env st of (i, st1) \<Rightarrow> act (SendText (Raw (build_request command i))) st1)"

definition subscribe_message :: "string list \<Rightarrow> string \<Rightarrow> json" where
  "subscribe_message topics request_id =
     JObject [(''command'', JString ''subscribe''), (''id'', JString request_id), (''protocol_version'', JInt 1),
              (''topics'', JArray (map JString topics))]"

definition unsubscribe_message :: "string list \<Rightarrow> json" where
  "unsubscribe_message topics =
     JObject [(''command'', JString ''unsubscribe''), (''topics'', JArray (map JString topics))]"

definition discovery_request :: "string \<Rightarrow> string \<Rightarrow> json" where
  "discovery_request command i =
     JObject [(''command'', JString command), (''id'', JString i), (''include_schemas'', JBool True),
              (''protocol_version'', JInt 1)]"

definition send_discovery :: "'h env \<Rightarrow> string \<Rightarrow> 'h bridge \<Rightarrow> 'h bridge" where
  "send_discovery env command st =
     (case new_id env st of (i, st1) \<Rightarrow> act (SendText (Dump (discovery_request command i))) st1)"

subsection \<open>Discovery and failure\<close>

definition begin_discovery :: "'h env \<Rightarrow> 'h bridge \<Rightarrow> 'h bridge" where
  "begin_discovery env st0 =
     (let st1 = st0\<lparr>br_phase := Discovery\<rparr>;
          st2 = (if br_demand st1
                 then send_discovery env ''get_topics'' (send_discovery env ''subscribe_topic_updates'' st1)
                 else (case new_id env (st1\<lparr>br_response := False\<rparr>) of (i, s1) \<Rightarrow>
                        (case read_now env (act (SendText (Dump (subscribe_message (map ti_name (br_selected s1)) i))) s1) of
                           (now, s2) \<Rightarrow> s2\<lparr>br_subscribe_deadline := now + en_subscribe_timeout env\<rparr>)))
      in if br_paused st2 then send_request env ''pause'' st2 else st2)"

definition fail :: "string \<Rightarrow> 'h bridge \<Rightarrow> 'h bridge" where
  "fail msg st = (if br_fatal st = [] then st\<lparr>br_fatal := msg\<rparr> else st)"

definition fail_connection :: "string \<Rightarrow> 'h bridge \<Rightarrow> 'h bridge" where
  "fail_connection reason st =
     fail ((if br_phase st = Connecting then ''failed to connect to PJ bridge at '' else ''lost connection to PJ bridge at '')
           @ br_endpoint st @ (if reason = [] then [] else '': '' @ reason)) st"

subsection \<open>Inbound frames\<close>

definition text_of_bytes :: "bytes \<Rightarrow> string" where
  "text_of_bytes bs = map (\<lambda>b. char_of (unat b)) bs"

definition bytes_of_text :: "string \<Rightarrow> bytes" where
  "bytes_of_text s = map (\<lambda>c. of_nat (of_char c)) s"

definition push_message :: "'h env \<Rightarrow> raw_message \<Rightarrow> 'h bridge \<Rightarrow> 'h bridge" where
  "push_message env msg st =
     (case br_bindings st (text_of_bytes (rm_topic msg)) of
        None \<Rightarrow> st
      | Some h \<Rightarrow>
          (let st1 = act (PushMessage h (rm_timestamp msg) (rm_cdr msg)) st in
           case en_push env (br_log st1) of
             None \<Rightarrow> st1
           | Some err \<Rightarrow> warning (''Failed to push message: '' @ err) st1))"

definition on_binary_frame :: "'h env \<Rightarrow> string \<Rightarrow> 'h bridge \<Rightarrow> 'h bridge" where
  "on_binary_frame env frame st =
     (case parse_binary_frame (en_zstd_size env) (en_zstd env) (bytes_of_text frame) of
        (ok, msgs) \<Rightarrow> if ok then fold (push_message env) msgs st else st)"

definition resolve_schema_name :: "'h bridge \<Rightarrow> string \<Rightarrow> string" where
  "resolve_schema_name st topic =
     (let saved = (case find (\<lambda>info. ti_name info = topic) (br_selected st) of
                     Some info \<Rightarrow> ti_schema_name info | None \<Rightarrow> [])
      in case map_of (br_catalog st) topic of
           Some info \<Rightarrow> if ti_schema_name info \<noteq> [] then ti_schema_name info else saved
         | None \<Rightarrow> saved)"

definition string_field_or :: "json \<Rightarrow> string \<Rightarrow> string \<Rightarrow> string" where
  "string_field_or entry key fallback = (if string_field key entry = [] then fallback else string_field key entry)"

definition bind_schema :: "'h env \<Rightarrow> string \<times> json \<Rightarrow> 'h bridge \<Rightarrow> 'h bridge" where
  "bind_schema env schema st =
     (case schema of (topic, obj) \<Rightarrow>
        if br_demand st \<and> topic \<notin> set (br_applied st) then st
        else let encoding = string_field_or obj ''encoding'' ''cdr'';
                 cfg = om_put ''schema_encoding'' (JString encoding)
                         (om_put ''use_embedded_timestamp'' (JBool (br_use_timestamp st))
                           (om_put ''use_timestamp'' (JBool (br_use_timestamp st)) (br_array_limit st)));
                 st1 = act (EnsureBinding topic encoding (resolve_schema_name st topic) (string_field ''definition'' obj) (JObject cfg)) st
             in case en_bind env (br_log st1) of
                  Inr h \<Rightarrow> st1\<lparr>br_bindings := (br_bindings st1)(topic \<mapsto> h)\<rparr>
                | Inl err \<Rightarrow> warning (''Failed to create parser for '' @ topic @ '': '' @ err) st1)"

definition dash :: string where "dash = [CHR 0xE2, CHR 0x80, CHR 0x94]"

definition strip_failure :: "string \<Rightarrow> json \<Rightarrow> 'h bridge \<Rightarrow> 'h bridge" where
  "strip_failure response_id f st =
     (if \<not> is_object f then st
      else let topic = string_field ''topic'' f in
        if topic = [] \<or> failure_is_stale (br_last_id st) topic response_id then st
        else warning (''Subscription failed: '' @ topic @ '' '' @ dash @ '' '' @ string_field_or f ''reason'' ''unknown'')
               (st\<lparr>br_applied := os_del topic (br_applied st)\<rparr>))"

definition handle_subscribe_response :: "'h env \<Rightarrow> json \<Rightarrow> 'h bridge \<Rightarrow> 'h bridge" where
  "handle_subscribe_response env j st =
     (let st1 = (case json_find ''schemas'' j of Some (JObject ms) \<Rightarrow> fold (bind_schema env) ms st | _ \<Rightarrow> st);
          st2 = (case json_array ''failures'' j of
                   Some fs \<Rightarrow> fold (strip_failure (string_field ''id'' j)) fs st1 | None \<Rightarrow> st1)
      in st2\<lparr>br_response := True\<rparr>)"

definition drop_retyped :: "catalog \<Rightarrow> 'h bridge \<Rightarrow> 'h bridge" where
  "drop_retyped before st =
     (let topics = retyped_topics before (br_catalog st) (br_applied st) in
      st\<lparr>br_applied := drop_names topics (br_applied st),
         br_bindings := (\<lambda>t. if t \<in> set topics then None else br_bindings st t),
         br_last_id := (\<lambda>t. if t \<in> set topics then None else br_last_id st t)\<rparr>)"

definition handle_topics_changed :: "json \<Rightarrow> 'h bridge \<Rightarrow> 'h bridge" where
  "handle_topics_changed j st =
     (let added = List.map_filter parse_topic_entry (case json_array ''added'' j of Some xs \<Rightarrow> xs | None \<Rightarrow> []);
          removed = List.map_filter (\<lambda>x. case x of JString s \<Rightarrow> Some s | _ \<Rightarrow> None)
                      (case json_array ''removed'' j of Some xs \<Rightarrow> xs | None \<Rightarrow> []);
          before = filter (\<lambda>e. fst e \<in> set (br_applied st)) (br_catalog st)
      in case apply_advertise_delta added removed (br_catalog st) of
           (changed, cat) \<Rightarrow>
             let st1 = st\<lparr>br_catalog := cat\<rparr> in
             if changed then (drop_retyped before st1)\<lparr>br_dirty := True\<rparr> else st1)"

definition join_caps :: "string list \<Rightarrow> string" where
  "join_caps capabilities = fold (\<lambda>c caps. caps @ (if caps = [] then [] else '', '') @ c) capabilities []"

definition degraded_warning :: string where
  "degraded_warning = ''Server does not support schema advertisement (include_schemas): topic classification is degraded ''
     @ dash @ '' TF may not auto-subscribe and 3D topics lose their icons until first subscribe. ''
     @ ''Upgrade plotjuggler_bridge to restore full functionality.''"

definition log_server_info :: "json \<Rightarrow> 'h bridge \<Rightarrow> 'h bridge" where
  "log_server_info j st =
     (if br_info_logged st then st
      else let info = parse_server_info j;
               st1 = st\<lparr>br_info_logged := True\<rparr>;
               st2 = (case info of
                        None \<Rightarrow> st1
                      | Some i \<Rightarrow> act (ReportMsg ''info'' (''Connected to '' @ si_name i @ '' '' @ si_version i @
                          '' (capabilities: '' @ join_caps (si_capabilities i) @ '')'')) st1)
           in if br_demand st2 \<and> (case info of None \<Rightarrow> True | Some i \<Rightarrow> \<not> has_capability i ''include_schemas'')
              then warning degraded_warning st2 else st2)"

definition handle_get_topics :: "json list \<Rightarrow> json \<Rightarrow> 'h bridge \<Rightarrow> 'h bridge" where
  "handle_get_topics topics j st0 =
     (let st = log_server_info j st0;
          fresh = fold (\<lambda>entry m. case parse_topic_entry entry of
                          None \<Rightarrow> m | Some info \<Rightarrow> om_put (ti_name info) info m) topics []
      in if fresh \<noteq> br_catalog st
         then (drop_retyped (br_catalog st) (st\<lparr>br_catalog := fresh\<rparr>))\<lparr>br_dirty := True\<rparr>
         else st)"

definition upgrade_message :: "int \<Rightarrow> string" where
  "upgrade_message newer = ''server speaks protocol_version '' @ int_text newer @ '' but this plugin supports ''
     @ int_text supported_version @ '' '' @ dash @ '' upgrade PlotJuggler (or run an older plotjuggler_bridge)''"

definition on_text_message :: "'h env \<Rightarrow> string \<Rightarrow> 'h bridge \<Rightarrow> 'h bridge" where
  "on_text_message env msg st =
     (case en_json env msg of
        None \<Rightarrow> st
      | Some j \<Rightarrow>
          if \<not> is_object j then st
          else case unsupported_protocol_version j supported_version of
            Some newer \<Rightarrow> fail (upgrade_message newer) (act (ReportMsg ''error'' (upgrade_message newer)) st)
          | None \<Rightarrow>
              (case json_find ''notification'' j of
                 Some n \<Rightarrow> if n = JString ''topics_changed'' then handle_topics_changed j st else st
               | None \<Rightarrow>
                   if json_find ''schemas'' j \<noteq> None then handle_subscribe_response env j st
                   else (case json_array ''topics'' j of
                           Some topics \<Rightarrow> handle_get_topics topics j st
                         | None \<Rightarrow> st)))"

definition apply_event :: "'h env \<Rightarrow> ws_event \<Rightarrow> 'h bridge \<Rightarrow> 'h bridge" where
  "apply_event env event st =
     (case we_type event of
        WsOpen \<Rightarrow> if br_phase st = Connecting then begin_discovery env st else st
      | WsText \<Rightarrow> on_text_message env (we_payload event) st
      | WsBinary \<Rightarrow> on_binary_frame env (we_payload event) st
      | WsClosed \<Rightarrow> fail_connection (if we_payload event = [] then ''closed by the server'' else we_payload event) st
      | WsError \<Rightarrow> fail_connection (we_payload event) st)"

definition drop_warning_interval :: int where "drop_warning_interval = 5000000000"

definition report_dropped :: "'h env \<Rightarrow> 'h bridge \<Rightarrow> 'h bridge" where
  "report_dropped env st =
     (case br_events st of
        None \<Rightarrow> st
      | Some q \<Rightarrow>
          (case dropped q of (frames, dropped_bytes) \<Rightarrow>
             if frames = br_reported_frames st then st
             else (case read_now env st of (now, st1) \<Rightarrow>
                if br_reported_frames st1 > 0 \<and> now - br_last_warning st1 < drop_warning_interval then st1
                else warning (''PlotJuggler fell behind the PJ bridge stream at '' @ br_endpoint st1 @
                              '' and dropped the oldest '' @ nat_text frames @ '' data frames ('' @ en_mib env dropped_bytes @
                              '' MiB) so far; the plots have gaps where they were.'')
                       (st1\<lparr>br_reported_frames := frames, br_last_warning := now\<rparr>))))"

definition pump_events :: "'h env \<Rightarrow> 'h bridge \<Rightarrow> 'h bridge" where
  "pump_events env st =
     (case br_events st of
        None \<Rightarrow> st
      | Some q \<Rightarrow>
          (case drain q of (pending, q1) \<Rightarrow>
             report_dropped env (fold (apply_event env) pending (st\<lparr>br_events := Some q1\<rparr>))))"

subsection \<open>Advertising and reconciling\<close>

definition available_topics :: "'h env \<Rightarrow> 'h bridge \<Rightarrow> topic_info list" where
  "available_topics env st =
     map (\<lambda>(name, info). info\<lparr>ti_name := name\<rparr>)
       (filter (\<lambda>e. en_passes env (fst e) (map ti_name (br_selected st))) (br_catalog st))"

definition refresh_advertised :: "'h env \<Rightarrow> 'h bridge \<Rightarrow> string option \<times> 'h bridge" where
  "refresh_advertised env st =
     (let st1 = act (Notify (available_topics env st)) st in (en_notify env (br_log st1), st1))"

definition refresh_and_warn :: "'h env \<Rightarrow> 'h bridge \<Rightarrow> 'h bridge" where
  "refresh_and_warn env st =
     (case refresh_advertised env st of
        (None, st1) \<Rightarrow> st1
      | (Some err, st1) \<Rightarrow> warning (''Failed to advertise topics: '' @ err) st1)"

definition wanted :: "'h env \<Rightarrow> 'h bridge \<Rightarrow> string list \<times> string list" where
  "wanted env st = (filtered_advertised (en_passes env) (br_catalog st) (map ti_name (br_selected st)), br_desired st)"

definition send_unsubscribe :: "string list \<Rightarrow> 'h bridge \<Rightarrow> 'h bridge" where
  "send_unsubscribe topics st =
     (if topics = [] then st
      else (act (SendText (Dump (unsubscribe_message topics))) st)
        \<lparr>br_applied := drop_names topics (br_applied st),
         br_bindings := (\<lambda>t. if t \<in> set topics then None else br_bindings st t),
         br_last_id := (\<lambda>t. if t \<in> set topics then None else br_last_id st t)\<rparr>)"

definition send_subscribe :: "'h env \<Rightarrow> string list \<Rightarrow> 'h bridge \<Rightarrow> 'h bridge" where
  "send_subscribe env topics st =
     (if topics = [] then st
      else (case new_id env st of (i, st1) \<Rightarrow>
              (act (SendText (Dump (subscribe_message topics i))) st1)
                \<lparr>br_applied := add_names topics (br_applied st1),
                 br_last_id := (\<lambda>t. if t \<in> set topics then Some i else br_last_id st1 t)\<rparr>))"

definition reconcile_subscriptions :: "'h env \<Rightarrow> 'h bridge \<Rightarrow> 'h bridge" where
  "reconcile_subscriptions env st =
     (case bridge_diff (br_applied st) (wanted env st) of
        (unsub, sub) \<Rightarrow> send_subscribe env sub (send_unsubscribe unsub st))"

definition apply_desired :: "'h env \<Rightarrow> 'h bridge \<Rightarrow> 'h bridge" where
  "apply_desired env st =
     (case br_slot st of
        None \<Rightarrow> st
      | Some desired \<Rightarrow> reconcile_subscriptions env (st\<lparr>br_slot := None, br_desired := desired\<rparr>))"

subsection \<open>Poll\<close>

definition check_connect :: "'h env \<Rightarrow> 'h bridge \<Rightarrow> 'h bridge" where
  "check_connect env st =
     (if br_phase st = Connecting
      then (case read_now env st of (now, st1) \<Rightarrow>
              if now \<ge> br_connect_deadline st1 then fail_connection ''timed out'' st1 else st1)
      else st)"

definition check_subscribe :: "'h env \<Rightarrow> 'h bridge \<Rightarrow> 'h bridge" where
  "check_subscribe env st =
     (if br_phase st = Discovery \<and> \<not> br_demand st
      then if br_response st then st\<lparr>br_phase := Streaming\<rparr>
           else (case read_now env st of (now, st1) \<Rightarrow>
                   if now \<ge> br_subscribe_deadline st1
                   then (warning ''Subscribe response not received; parsers may lack schemas'' st1)\<lparr>br_phase := Streaming\<rparr>
                   else st1)
      else st)"

definition heartbeat :: "'h env \<Rightarrow> 'h bridge \<Rightarrow> 'h bridge" where
  "heartbeat env st =
     (if br_heartbeat st + 1 \<ge> 30 then send_request env ''heartbeat'' (st\<lparr>br_heartbeat := 0\<rparr>)
      else st\<lparr>br_heartbeat := br_heartbeat st + 1\<rparr>)"

definition demand_pass :: "'h env \<Rightarrow> 'h bridge \<Rightarrow> 'h bridge" where
  "demand_pass env st =
     (if br_demand st
      then apply_desired env
             (if br_dirty st then reconcile_subscriptions env (refresh_and_warn env (st\<lparr>br_dirty := False\<rparr>)) else st)
      else st)"

definition on_poll :: "'h env \<Rightarrow> 'h bridge \<Rightarrow> string option \<times> 'h bridge" where
  "on_poll env st0 =
     (let st = check_connect env (pump_events env st0) in
      if br_fatal st \<noteq> [] then (Some (br_fatal st), st)
      else if br_phase st = Connecting then (None, st)
      else (None, demand_pass env (heartbeat env (check_subscribe env st))))"

subsection \<open>The host's calls\<close>

datatype start_result = Started | StartFailed string | StartThrew

text \<open>The saved selection: an entry of the wrong shape throws and leaves the ones before it.\<close>

fun read_selected :: "json list \<Rightarrow> topic_info list \<Rightarrow> bool \<times> topic_info list" where
  "read_selected [] acc = (True, acc)"
| "read_selected (t # ts) acc =
     (case (value_string ''name'' [] t, value_string ''schema_encoding'' ''cdr'' t,
            value_string ''schema_name'' [] t, value_string ''schema_definition'' [] t) of
        (Some name, Some encoding, Some schema_name, Some schema) \<Rightarrow>
          read_selected ts
            (if name = [] then acc
             else acc @ [\<lparr>ti_name = name, ti_encoding = encoding, ti_schema_name = schema_name, ti_schema = schema\<rparr>])
      | _ \<Rightarrow> (False, acc))"

definition legacy_warning :: string where
  "legacy_warning = ''No topics selected '' @ dash @ '' connected to a legacy PlotJuggler host, which cannot advertise ''
     @ ''topics on demand. Nothing will stream until the connection dialog is reopened and topics are selected.''"

text \<open>From the decision of the mode on.\<close>

definition start_mode :: "'h env \<Rightarrow> bool \<Rightarrow> 'h bridge \<Rightarrow> 'h bridge" where
  "start_mode env adopted st =
     (case refresh_advertised env st of
        (answer, st1) \<Rightarrow>
          let st2 = st1\<lparr>br_demand := (answer = None)\<rparr>;
              st3 = (if br_demand st2 then st2
                     else let cleared = st2\<lparr>br_catalog := []\<rparr>
                          in if br_selected cleared = [] then warning legacy_warning cleared else cleared)
          in if adopted then begin_discovery env st3 else st3)"

definition start_fresh :: "'h env \<Rightarrow> 'h bridge \<Rightarrow> start_result \<times> 'h bridge" where
  "start_fresh env st =
     (let st1 = act (StartSocket (br_endpoint st))
                  (st\<lparr>br_events := Some (new_queue (en_queue_bytes env)), br_socket := True\<rparr>)
      in case en_start env (br_log st1) of
           Some err \<Rightarrow> (StartFailed (''failed to connect to PJ bridge at '' @ br_endpoint st1 @ '': '' @ err), st1)
         | None \<Rightarrow> (case read_now env st1 of (now, st2) \<Rightarrow>
             (Started, start_mode env False (st2\<lparr>br_connect_deadline := now + en_connect_timeout env\<rparr>))))"

definition start_adopted :: "'h env \<Rightarrow> bridge_queue \<Rightarrow> topic_info list \<Rightarrow> 'h bridge \<Rightarrow> 'h bridge" where
  "start_adopted env q discovered st =
     start_mode env True
       (st\<lparr>br_socket := True, br_events := Some q,
           br_catalog := fold (\<lambda>info. om_put (ti_name info) info) discovered (br_catalog st)\<rparr>)"

text \<open>The dialog hands over its saved configuration (\<open>None\<close>: not JSON), the endpoint, the queue of a
  connection it holds with its socket, and the topics it discovered.\<close>

definition read_config :: "'h env \<Rightarrow> json \<Rightarrow> 'h bridge \<Rightarrow> bool \<times> 'h bridge" where
  "read_config env cfg st0 =
     (let st = st0\<lparr>br_array_limit := en_limit env cfg\<rparr> in
      case value_bool ''use_timestamp'' False cfg of
        None \<Rightarrow> (False, st)
      | Some use \<Rightarrow>
          (case read_selected (case json_array ''topics'' cfg of Some ts \<Rightarrow> ts | None \<Rightarrow> []) [] of
             (ok, selected) \<Rightarrow> (ok, st\<lparr>br_use_timestamp := use, br_selected := selected\<rparr>)))"

definition on_start ::
  "'h env \<Rightarrow> json option \<Rightarrow> string \<Rightarrow> bridge_queue option \<Rightarrow> topic_info list \<Rightarrow> 'h bridge \<Rightarrow> start_result \<times> 'h bridge" where
  "on_start env config endpoint handoff discovered st0 =
     (case config of
        None \<Rightarrow> (StartFailed ''invalid dialog config'', st0)
      | Some cfg \<Rightarrow>
          (case read_config env cfg (st0\<lparr>br_endpoint := endpoint\<rparr>) of
             (False, st1) \<Rightarrow> (StartThrew, st1)
           | (True, st1) \<Rightarrow>
               let st2 = st1\<lparr>br_phase := Connecting\<rparr> in
               (case handoff of
                  None \<Rightarrow> start_fresh env st2
                | Some q \<Rightarrow>
                    let st3 = act AskOpen st2 in
                    if en_open env (br_log st3) then (Started, start_adopted env q discovered st3)
                    else start_fresh env st3)))"

definition on_stop :: "'h bridge \<Rightarrow> 'h bridge" where
  "on_stop st =
     (if br_socket st then act StopSocket (st\<lparr>br_socket := False\<rparr>) else st)
       \<lparr>br_events := None, br_phase := Connecting, br_bindings := (\<lambda>t. None), br_selected := [], br_catalog := [],
        br_applied := [], br_last_id := (\<lambda>t. None), br_desired := [], br_demand := False, br_dirty := False,
        br_fatal := [], br_info_logged := False, br_reported_frames := 0, br_paused := False, br_slot := None\<rparr>"

text \<open>\<open>pause\<close> and \<open>resume\<close>: the flag, and the request when the socket is open.\<close>

definition send_if_open :: "'h env \<Rightarrow> string \<Rightarrow> 'h bridge \<Rightarrow> 'h bridge" where
  "send_if_open env command st =
     (if br_socket st
      then let st1 = act AskOpen st in if en_open env (br_log st1) then send_request env command st1 else st1
      else st)"

definition pause :: "'h env \<Rightarrow> 'h bridge \<Rightarrow> 'h bridge" where
  "pause env st = send_if_open env ''pause'' (st\<lparr>br_paused := True\<rparr>)"

definition resume :: "'h env \<Rightarrow> 'h bridge \<Rightarrow> 'h bridge" where
  "resume env st = send_if_open env ''resume'' (st\<lparr>br_paused := False\<rparr>)"

text \<open>The other threads: the transport pushes an event, the host sets the active topics.\<close>

definition deliver :: "ws_event \<Rightarrow> 'h bridge \<Rightarrow> 'h bridge" where
  "deliver event st = st\<lparr>br_events := map_option (push event) (br_events st)\<rparr>"

definition set_active :: "string list \<Rightarrow> 'h bridge \<Rightarrow> 'h bridge" where
  "set_active names st = st\<lparr>br_slot := Some names\<rparr>"

text \<open>A session: the host starts only a stopped source, and otherwise calls in any order.\<close>

inductive bridge_step :: "'h env \<Rightarrow> 'h bridge \<Rightarrow> 'h bridge \<Rightarrow> bool" for env where
  Start: "\<not> br_socket st \<Longrightarrow> pred_option queue_ok handoff \<Longrightarrow>
            bridge_step env st (snd (on_start env config endpoint handoff discovered st))"
| Poll: "bridge_step env st (snd (on_poll env st))"
| Stop: "bridge_step env st (on_stop st)"
| Pause: "bridge_step env st (pause env st)"
| Resume: "bridge_step env st (resume env st)"
| Deliver: "bridge_step env st (deliver event st)"
| SetActive: "bridge_step env st (set_active names st)"

inductive reachable :: "'h env \<Rightarrow> 'h bridge \<Rightarrow> bool" for env where
  New: "reachable env new_bridge"
| Next: "reachable env st \<Longrightarrow> bridge_step env st st' \<Longrightarrow> reachable env st'"

subsection \<open>The session invariant\<close>

text \<open>Subscriptions: ordered and with a request id, none on a legacy host, and within what is advertised
  and wanted unless a reconcile is due.\<close>

definition subs_ok :: "'h env \<Rightarrow> 'h bridge \<Rightarrow> bool" where
  "subs_ok env st \<longleftrightarrow> os_ok (br_applied st) \<and> om_ok (br_catalog st)
     \<and> (\<not> br_demand st \<longrightarrow> br_applied st = [])
     \<and> set (br_applied st) \<subseteq> dom (br_last_id st)
     \<and> (\<not> br_dirty st \<longrightarrow> set (br_applied st) \<subseteq> bridge_goal (wanted env st))"

text \<open>The connection: a queue with every socket, the phases, the heartbeat counter.\<close>

definition conn_ok :: "'h bridge \<Rightarrow> bool" where
  "conn_ok st \<longleftrightarrow> (br_events st = None \<longleftrightarrow> \<not> br_socket st) \<and> pred_option queue_ok (br_events st)
     \<and> (br_phase st \<noteq> Connecting \<longrightarrow> br_socket st) \<and> (br_phase st = Streaming \<longrightarrow> \<not> br_demand st)
     \<and> (\<not> br_socket st \<longrightarrow> br_applied st = [] \<and> \<not> br_demand st) \<and> br_heartbeat st < 30"

abbreviation bridge_inv :: "'h env \<Rightarrow> 'h bridge \<Rightarrow> bool" where
  "bridge_inv env st \<equiv> subs_ok env st \<and> conn_ok st"

lemmas call_defs = act_def read_now_def new_id_def warning_def send_request_def send_discovery_def
  refresh_advertised_def

lemmas inv_defs = subs_ok_def conn_ok_def wanted_def

lemma inv_act [simp]: "subs_ok env (act a st) = subs_ok env st" "conn_ok (act a st) = conn_ok st"
  by (simp_all add: inv_defs act_def)

lemma act_fields [simp]:
  "br_phase (act a st) = br_phase st" "br_socket (act a st) = br_socket st" "br_events (act a st) = br_events st"
  "br_demand (act a st) = br_demand st" "br_dirty (act a st) = br_dirty st" "br_applied (act a st) = br_applied st"
  "br_catalog (act a st) = br_catalog st" "br_selected (act a st) = br_selected st" "br_desired (act a st) = br_desired st"
  "br_last_id (act a st) = br_last_id st" "br_fatal (act a st) = br_fatal st" "br_heartbeat (act a st) = br_heartbeat st"
  "br_slot (act a st) = br_slot st" "br_connect_deadline (act a st) = br_connect_deadline st"
  "br_subscribe_deadline (act a st) = br_subscribe_deadline st" "br_bindings (act a st) = br_bindings st"
  "br_response (act a st) = br_response st" "br_paused (act a st) = br_paused st"
  "br_reported_frames (act a st) = br_reported_frames st" "br_last_warning (act a st) = br_last_warning st"
  "br_endpoint (act a st) = br_endpoint st" "br_info_logged (act a st) = br_info_logged st"
  by (simp_all add: act_def)

text \<open>A part of the state that the invariants and the latch look at.\<close>

definition same_core :: "'h bridge \<Rightarrow> 'h bridge \<Rightarrow> bool" where
  "same_core st st' \<longleftrightarrow> br_socket st' = br_socket st \<and> br_events st' = br_events st \<and> br_demand st' = br_demand st
     \<and> br_selected st' = br_selected st \<and> br_desired st' = br_desired st \<and> br_slot st' = br_slot st
     \<and> br_heartbeat st' = br_heartbeat st"

lemma same_core_refl [simp]: "same_core st st"
  and same_core_trans [trans]: "same_core a b \<Longrightarrow> same_core b c \<Longrightarrow> same_core a c"
  and same_core_act [simp]: "same_core st (act act1 st') = same_core st st'"
  by (simp_all add: same_core_def)

lemma inv_upd [simp]:
  "subs_ok env (st\<lparr>br_bindings := x0\<rparr>) = subs_ok env st" "conn_ok (st\<lparr>br_bindings := x0\<rparr>) = conn_ok st"
  "subs_ok env (st\<lparr>br_response := x1\<rparr>) = subs_ok env st" "conn_ok (st\<lparr>br_response := x1\<rparr>) = conn_ok st"
  "subs_ok env (st\<lparr>br_fatal := x2\<rparr>) = subs_ok env st" "conn_ok (st\<lparr>br_fatal := x2\<rparr>) = conn_ok st"
  "subs_ok env (st\<lparr>br_info_logged := x3\<rparr>) = subs_ok env st" "conn_ok (st\<lparr>br_info_logged := x3\<rparr>) = conn_ok st"
  "subs_ok env (st\<lparr>br_reported_frames := x4\<rparr>) = subs_ok env st" "conn_ok (st\<lparr>br_reported_frames := x4\<rparr>) = conn_ok st"
  "subs_ok env (st\<lparr>br_last_warning := x5\<rparr>) = subs_ok env st" "conn_ok (st\<lparr>br_last_warning := x5\<rparr>) = conn_ok st"
  "subs_ok env (st\<lparr>br_subscribe_deadline := x6\<rparr>) = subs_ok env st" "conn_ok (st\<lparr>br_subscribe_deadline := x6\<rparr>) = conn_ok st"
  "subs_ok env (st\<lparr>br_connect_deadline := x7\<rparr>) = subs_ok env st" "conn_ok (st\<lparr>br_connect_deadline := x7\<rparr>) = conn_ok st"
  "subs_ok env (st\<lparr>br_slot := x8\<rparr>) = subs_ok env st" "conn_ok (st\<lparr>br_slot := x8\<rparr>) = conn_ok st"
  "subs_ok env (st\<lparr>br_paused := x9\<rparr>) = subs_ok env st" "conn_ok (st\<lparr>br_paused := x9\<rparr>) = conn_ok st"
  "subs_ok env (st\<lparr>br_endpoint := x10\<rparr>) = subs_ok env st" "conn_ok (st\<lparr>br_endpoint := x10\<rparr>) = conn_ok st"
  by (simp_all add: inv_defs)

lemma core_upd [simp]:
  "same_core a0 (st\<lparr>br_bindings := x0\<rparr>) = same_core a0 st"
  "same_core a0 (st\<lparr>br_response := x1\<rparr>) = same_core a0 st"
  "same_core a0 (st\<lparr>br_fatal := x2\<rparr>) = same_core a0 st"
  "same_core a0 (st\<lparr>br_info_logged := x3\<rparr>) = same_core a0 st"
  "same_core a0 (st\<lparr>br_reported_frames := x4\<rparr>) = same_core a0 st"
  "same_core a0 (st\<lparr>br_last_warning := x5\<rparr>) = same_core a0 st"
  "same_core a0 (st\<lparr>br_subscribe_deadline := x6\<rparr>) = same_core a0 st"
  "same_core a0 (st\<lparr>br_applied := x7\<rparr>) = same_core a0 st"
  "same_core a0 (st\<lparr>br_last_id := x8\<rparr>) = same_core a0 st"
  "same_core a0 (st\<lparr>br_catalog := x9\<rparr>) = same_core a0 st"
  "same_core a0 (st\<lparr>br_dirty := x10\<rparr>) = same_core a0 st"
  "same_core a0 (st\<lparr>br_phase := x11\<rparr>) = same_core a0 st"
  by (simp_all add: same_core_def)

lemma inv_warning [simp]: "subs_ok env (warning msg st) = subs_ok env st" "conn_ok (warning msg st) = conn_ok st"
    "same_core a0 (warning msg st) = same_core a0 st"
  by (simp_all add: warning_def)

lemma same_core_fold: "(\<And>x st. same_core st (f x st)) \<Longrightarrow> same_core st (fold f xs st)"
proof (induction xs arbitrary: st)
  case (Cons x xs)
  from same_core_trans [OF Cons.prems [of st x] Cons.IH [OF Cons.prems]] show ?case by simp
qed simp

lemma fold_invariant: "P st \<Longrightarrow> (\<And>x st. P st \<Longrightarrow> P (f x st)) \<Longrightarrow> P (fold f xs st)"
  by (induction xs arbitrary: st) auto

lemma begin_discovery_core: "same_core st (begin_discovery env st)"
  by (simp add: begin_discovery_def call_defs same_core_def Let_def)

lemma begin_discovery_fatal [simp]: "br_fatal (begin_discovery env st) = br_fatal st"
  by (simp add: begin_discovery_def call_defs Let_def)

lemma inv_discovery: "bridge_inv env st \<Longrightarrow> br_socket st \<Longrightarrow> bridge_inv env (st\<lparr>br_phase := Discovery\<rparr>)"
  by (simp add: inv_defs)

lemma begin_discovery_inv: "bridge_inv env st \<Longrightarrow> br_socket st \<Longrightarrow> bridge_inv env (begin_discovery env st)"
  using inv_discovery [of env st]
  by (simp add: begin_discovery_def new_id_def read_now_def send_request_def send_discovery_def Let_def)

lemma fail_inv [simp]: "subs_ok env (fail msg st) = subs_ok env st" "conn_ok (fail msg st) = conn_ok st"
  by (simp_all add: fail_def)

lemma fail_core [simp]: "same_core a0 (fail msg st) = same_core a0 st"
  by (simp add: fail_def same_core_def)

lemma push_message_inv: "bridge_inv env st \<Longrightarrow> bridge_inv env (push_message env m st)"
  by (simp add: push_message_def Let_def split: option.splits)

lemma push_message_core: "same_core st (push_message env m st)"
  by (simp add: push_message_def Let_def split: option.splits)

lemma on_binary_frame_inv: "bridge_inv env st \<Longrightarrow> bridge_inv env (on_binary_frame env frame st)"
  by (auto simp: on_binary_frame_def intro!: fold_invariant [where P = "bridge_inv env"] push_message_inv split: prod.splits)

lemma on_binary_frame_core: "same_core st (on_binary_frame env frame st)"
  by (auto simp: on_binary_frame_def intro: same_core_fold push_message_core split: prod.splits)

lemma bind_schema_inv: "bridge_inv env st \<Longrightarrow> bridge_inv env (bind_schema env e st)"
  by (simp add: bind_schema_def Let_def split: prod.splits sum.splits)

lemma bind_schema_core: "same_core st (bind_schema env e st)"
  by (simp add: bind_schema_def Let_def split: prod.splits sum.splits)

lemma wanted_upd [simp]:
  "wanted env (st\<lparr>br_applied := x0\<rparr>) = wanted env st" "wanted env (st\<lparr>br_last_id := x1\<rparr>) = wanted env st"
  "wanted env (st\<lparr>br_dirty := x2\<rparr>) = wanted env st" "wanted env (st\<lparr>br_bindings := x3\<rparr>) = wanted env st"
  "wanted env (act a st) = wanted env st" "wanted env (warning msg st) = wanted env st"
  by (simp_all add: wanted_def warning_def)

lemma inv_del:
  assumes "bridge_inv env st"
  shows "bridge_inv env (st\<lparr>br_applied := os_del topic (br_applied st)\<rparr>)"
proof
  from assms show "conn_ok (st\<lparr>br_applied := os_del topic (br_applied st)\<rparr>)"
    by (simp add: conn_ok_def os_del_def)
  from assms have "subs_ok env st" ..
  then show "subs_ok env (st\<lparr>br_applied := os_del topic (br_applied st)\<rparr>)"
    unfolding subs_ok_def by (simp add: os_del_ok) (simp add: os_del_def, blast)
qed

lemma strip_failure_inv: "bridge_inv env st \<Longrightarrow> bridge_inv env (strip_failure i f st)"
  by (auto simp: strip_failure_def Let_def inv_del)

lemma strip_failure_core: "same_core st (strip_failure i f st)"
  by (simp add: strip_failure_def Let_def)

lemma drop_retyped_core [simp]: "same_core a0 (drop_retyped before st) = same_core a0 st"
  by (simp add: drop_retyped_def Let_def)

lemma handle_subscribe_response_inv:
  assumes "bridge_inv env st"
  shows "bridge_inv env (handle_subscribe_response env j st)"
proof -
  have b: "bridge_inv env (fold (bind_schema env) ms st)" for ms
    using assms bind_schema_inv by (rule fold_invariant [where P = "bridge_inv env"])
  have s: "bridge_inv env (fold (strip_failure i) fs st')" if "bridge_inv env st'" for i fs st'
    using that strip_failure_inv by (rule fold_invariant [where P = "bridge_inv env"])
  show ?thesis
    using assms b s by (simp add: handle_subscribe_response_def Let_def split: option.split json.split)
qed

lemma handle_subscribe_response_core: "same_core st (handle_subscribe_response env j st)"
proof -
  have b: "same_core st (fold (bind_schema env) ms st)" for ms
    by (rule same_core_fold) (rule bind_schema_core)
  have s: "same_core st' (fold (strip_failure i) fs st')" for i fs and st' :: "'a bridge"
    by (rule same_core_fold) (rule strip_failure_core)
  show ?thesis
    using b s same_core_trans [OF b s] by (simp add: handle_subscribe_response_def Let_def split: option.split json.split)
qed


subsection \<open>Catalog changes\<close>

lemma upsert_all_ok: "om_ok m \<Longrightarrow> om_ok (snd (upsert_all added m))"
  by (induction added m rule: upsert_all.induct) (auto simp: Let_def om_put_ok split: prod.splits)

lemma erase_all_ok: "om_ok m \<Longrightarrow> om_ok (snd (erase_all names m))"
  by (induction names m rule: erase_all.induct) (auto simp: om_erase_ok split: prod.splits)

lemma advertise_delta_ok: "om_ok m \<Longrightarrow> om_ok (snd (apply_advertise_delta added removed m))"
  using upsert_all_ok [of m added] erase_all_ok [of "snd (upsert_all added m)" removed]
  by (cases "upsert_all added m"; cases "erase_all removed (snd (upsert_all added m))") (simp add: apply_advertise_delta_def)

lemma om_erase_absent: "map_of m k = None \<Longrightarrow> om_erase k m = m"
  by (force simp: om_erase_def map_of_eq_None_iff filter_id_conv)

lemma upsert_all_same: "\<not> fst (upsert_all added m) \<Longrightarrow> snd (upsert_all added m) = m"
  by (induction added m rule: upsert_all.induct) (auto simp: Let_def split: prod.splits if_splits)

lemma erase_all_same: "\<not> fst (erase_all names m) \<Longrightarrow> snd (erase_all names m) = m"
  by (induction names m rule: erase_all.induct) (auto simp: om_erase_absent split: prod.splits)

text \<open>A delta that reports no change changed nothing.\<close>

lemma advertise_delta_same: "\<not> fst (apply_advertise_delta added removed m) \<Longrightarrow> snd (apply_advertise_delta added removed m) = m"
  using upsert_all_same [of added m] erase_all_same [of removed m]
  by (auto simp: apply_advertise_delta_def split: prod.splits)

lemma inv_new_catalog:
  assumes "bridge_inv env st" "om_ok cat"
  shows "bridge_inv env ((drop_retyped before (st\<lparr>br_catalog := cat\<rparr>))\<lparr>br_dirty := True\<rparr>)"
proof
  from assms show "conn_ok ((drop_retyped before (st\<lparr>br_catalog := cat\<rparr>))\<lparr>br_dirty := True\<rparr>)"
    by (simp add: conn_ok_def drop_retyped_def Let_def drop_names_def retyped_topics_def)
  have d: "drop_names xs [] = []" for xs by (induction xs) (auto simp: drop_names_def os_del_def)
  from assms show "subs_ok env ((drop_retyped before (st\<lparr>br_catalog := cat\<rparr>))\<lparr>br_dirty := True\<rparr>)"
    by (auto simp: subs_ok_def drop_retyped_def Let_def drop_names_ok d dest: subsetD)
qed

lemma handle_topics_changed_inv:
  assumes "bridge_inv env st"
  shows "bridge_inv env (handle_topics_changed j st)"
proof -
  have u: "st\<lparr>br_catalog := br_catalog st\<rparr> = st" by simp
  have o: "om_ok (snd (apply_advertise_delta a r (br_catalog st)))" for a r
    using assms advertise_delta_ok by (auto simp: subs_ok_def)
  show ?thesis
    using assms o advertise_delta_same inv_new_catalog [OF assms]
    unfolding handle_topics_changed_def Let_def
    by (auto split: prod.splits simp: u) (metis fst_conv snd_conv u)+
qed

lemma handle_topics_changed_core: "same_core st (handle_topics_changed j st)"
  by (simp add: handle_topics_changed_def Let_def split: prod.splits)


lemma log_server_info_core [simp]: "same_core a0 (log_server_info j st) = same_core a0 st"
  by (simp add: log_server_info_def Let_def split: option.split)

lemma log_server_info_inv: "bridge_inv env (log_server_info j st) = bridge_inv env st"
  by (simp add: log_server_info_def Let_def split: option.split)

lemma handle_get_topics_inv:
  assumes "bridge_inv env st"
  shows "bridge_inv env (handle_get_topics topics j st)"
proof -
  have i: "bridge_inv env (log_server_info j st)" using assms by (simp add: log_server_info_inv)
  have "om_ok (fold (\<lambda>entry m. case parse_topic_entry entry of
          None \<Rightarrow> m | Some info \<Rightarrow> om_put (ti_name info) info m) topics [])"
    by (rule fold_invariant) (auto simp: om_put_ok split: option.split)
  from inv_new_catalog [OF i this] i show ?thesis by (simp add: handle_get_topics_def Let_def)
qed

lemma handle_get_topics_core: "same_core st (handle_get_topics topics j st)"
  by (simp add: handle_get_topics_def Let_def)

lemma on_text_message_inv: "bridge_inv env st \<Longrightarrow> bridge_inv env (on_text_message env msg st)"
  using handle_topics_changed_inv [of env st] handle_subscribe_response_inv [of env st] handle_get_topics_inv [of env st]
  by (simp add: on_text_message_def split: option.split)

lemma on_text_message_core: "same_core st (on_text_message env msg st)"
  by (simp add: on_text_message_def handle_topics_changed_core handle_subscribe_response_core handle_get_topics_core
        split: option.split)

subsection \<open>Events and polls\<close>

lemma apply_event_core: "same_core st (apply_event env e st)"
  by (simp add: apply_event_def begin_discovery_core on_text_message_core on_binary_frame_core fail_connection_def
        split: ws_type.split)

lemma apply_event_inv: "bridge_inv env st \<and> br_socket st \<Longrightarrow> bridge_inv env (apply_event env e st) \<and> br_socket (apply_event env e st)"
  using apply_event_core [of st env e] begin_discovery_inv [of env st] on_text_message_inv [of env st] on_binary_frame_inv [of env st]
  by (simp add: apply_event_def fail_connection_def same_core_def split: ws_type.split)

lemma report_dropped_inv: "bridge_inv env (report_dropped env st) = bridge_inv env st"
  by (simp add: report_dropped_def read_now_def split: option.split prod.split)

lemma report_dropped_core: "same_core st (report_dropped env st)"
  by (simp add: report_dropped_def read_now_def split: option.split prod.split)

lemma pump_events_inv:
  assumes "bridge_inv env st"
  shows "bridge_inv env (pump_events env st)"
proof (cases "br_events st")
  case (Some q)
  let ?st = "st\<lparr>br_events := Some (q\<lparr>bq_events := [], bq_bytes := 0\<rparr>)\<rparr>"
  have "bridge_inv env ?st \<and> br_socket ?st"
    using assms Some by (auto simp: inv_defs queue_ok_def)
  then have "bridge_inv env (fold (apply_event env) (bq_events q) ?st) \<and> br_socket (fold (apply_event env) (bq_events q) ?st)"
    by (rule fold_invariant) (rule apply_event_inv)
  with Some show ?thesis by (simp add: pump_events_def drain_def report_dropped_inv)
qed (use assms in \<open>simp add: pump_events_def\<close>)

lemma bridge_diff_live:
  "set (fst (bridge_diff applied want)) = set applied - bridge_goal want"
  "set (snd (bridge_diff applied want)) = bridge_goal want - set applied"
  by (auto simp: bridge_diff_def bridge_goal_def split: prod.splits)

text \<open>A pass of \<open>reconcileSubscriptions\<close> executes the diff: the pass of the locale.\<close>

lemma reconcile_applied: "br_applied (reconcile_subscriptions env st) = pjb.reconcile (wanted env st) (br_applied st)"
proof (cases "bridge_diff (br_applied st) (wanted env st)")
  case (Pair unsub sub)
  then show ?thesis
    by (simp add: reconcile_subscriptions_def pjb.reconcile_def send_unsubscribe_def send_subscribe_def new_id_def
        drop_names_def add_names_def)
qed

lemma reconcile_core [simp]: "same_core a0 (reconcile_subscriptions env st) = same_core a0 st"
  by (simp add: reconcile_subscriptions_def send_unsubscribe_def send_subscribe_def new_id_def split: prod.split)

lemma reconcile_fields [simp]:
  "br_phase (reconcile_subscriptions env st) = br_phase st" "br_catalog (reconcile_subscriptions env st) = br_catalog st"
  "br_dirty (reconcile_subscriptions env st) = br_dirty st" "br_fatal (reconcile_subscriptions env st) = br_fatal st"
  "br_demand (reconcile_subscriptions env st) = br_demand st" "br_events (reconcile_subscriptions env st) = br_events st"
  "br_socket (reconcile_subscriptions env st) = br_socket st" "br_heartbeat (reconcile_subscriptions env st) = br_heartbeat st"
  "br_slot (reconcile_subscriptions env st) = br_slot st" "wanted env (reconcile_subscriptions env st) = wanted env st"
  "br_subscribe_deadline (reconcile_subscriptions env st) = br_subscribe_deadline st"
  "br_connect_deadline (reconcile_subscriptions env st) = br_connect_deadline st"
  by (simp_all add: reconcile_subscriptions_def send_unsubscribe_def send_subscribe_def new_id_def split: prod.split)

lemma reconcile_ids: "set (br_applied st) \<subseteq> dom (br_last_id st) \<Longrightarrow>
    set (br_applied (reconcile_subscriptions env st)) \<subseteq> dom (br_last_id (reconcile_subscriptions env st))"
  by (auto simp: reconcile_subscriptions_def send_unsubscribe_def send_subscribe_def new_id_def split: prod.split if_splits)

text \<open>It reaches the target from any ordered state of a demand session, whatever was live.\<close>

definition demand_ok :: "'h bridge \<Rightarrow> bool" where
  "demand_ok st \<longleftrightarrow> os_ok (br_applied st) \<and> om_ok (br_catalog st) \<and> br_demand st \<and> br_socket st
     \<and> set (br_applied st) \<subseteq> dom (br_last_id st) \<and> conn_ok st"

lemma inv_demand_ok: "bridge_inv env st \<Longrightarrow> br_demand st \<Longrightarrow> br_socket st \<Longrightarrow> demand_ok st"
  by (simp add: demand_ok_def subs_ok_def)

lemma reconcile_inv:
  assumes "demand_ok st"
  shows "bridge_inv env (reconcile_subscriptions env st)
    \<and> set (br_applied (reconcile_subscriptions env st)) = bridge_goal (wanted env st)"
proof -
  have o: "os_ok (br_applied st)" using assms by (simp add: demand_ok_def)
  have l: "set (br_applied (reconcile_subscriptions env st)) = bridge_goal (wanted env st)"
    and k: "os_ok (br_applied (reconcile_subscriptions env st))"
    unfolding reconcile_applied using pjb.reconcile_live [OF o] pjb.reconcile_ok [OF o] by simp_all
  have "subs_ok env (reconcile_subscriptions env st)"
    using assms reconcile_ids [of st env] l k unfolding subs_ok_def demand_ok_def by simp
  moreover have "conn_ok (reconcile_subscriptions env st)"
    using assms by (auto simp: conn_ok_def demand_ok_def)
  ultimately show ?thesis using l by blast
qed

lemma demand_ok_upd [simp]:
  "demand_ok (st\<lparr>br_dirty := x0\<rparr>) = demand_ok st" "demand_ok (st\<lparr>br_desired := x1\<rparr>) = demand_ok st"
  "demand_ok (st\<lparr>br_slot := x2\<rparr>) = demand_ok st" "demand_ok (st\<lparr>br_log := x3\<rparr>) = demand_ok st"
  by (simp_all add: demand_ok_def conn_ok_def)

lemma refresh_and_warn_log: "\<exists>l. refresh_and_warn env st = st\<lparr>br_log := l\<rparr>"
  by (auto simp: refresh_and_warn_def refresh_advertised_def Let_def act_def warning_def split: option.split)

lemma refresh_and_reconcile:
  fixes env :: "'h env" and st :: "'h bridge"
  assumes "demand_ok st"
  defines "s1 \<equiv> reconcile_subscriptions env (refresh_and_warn env (st\<lparr>br_dirty := False\<rparr>))"
  shows "bridge_inv env s1 \<and> demand_ok s1 \<and> \<not> br_dirty s1 \<and> br_slot s1 = br_slot st
    \<and> set (br_applied s1) = bridge_goal (wanted env s1)"
proof -
  obtain l where l: "refresh_and_warn env (st\<lparr>br_dirty := False\<rparr>) = st\<lparr>br_dirty := False, br_log := l\<rparr>"
    using refresh_and_warn_log [of env "st\<lparr>br_dirty := False\<rparr>"] by auto
  have d: "demand_ok (st\<lparr>br_dirty := False, br_log := l\<rparr>)" using assms(1) by simp
  from reconcile_inv [OF this, of env] have
    r: "bridge_inv env s1" "set (br_applied s1) = bridge_goal (wanted env s1)"
    unfolding s1_def l by simp_all
  moreover have "br_demand s1" "br_socket s1" "\<not> br_dirty s1" "br_slot s1 = br_slot st"
    using d unfolding s1_def l by (simp_all add: demand_ok_def)
  ultimately show ?thesis using inv_demand_ok by blast
qed

text \<open>The demand part of a poll: what it leaves, and that it reaches the target when anything was due.\<close>

lemma apply_desired_inv:
  assumes "demand_ok st" "bridge_inv env st"
  shows "bridge_inv env (apply_desired env st) \<and> br_slot (apply_desired env st) = None
    \<and> br_dirty (apply_desired env st) = br_dirty st
    \<and> (br_slot st \<noteq> None \<or> set (br_applied st) = bridge_goal (wanted env st)
         \<longrightarrow> set (br_applied (apply_desired env st)) = bridge_goal (wanted env (apply_desired env st)))"
proof (cases "br_slot st")
  case (Some d)
  have "demand_ok (st\<lparr>br_slot := None, br_desired := d\<rparr>)" using assms(1) by simp
  from reconcile_inv [OF this, of env] show ?thesis by (simp add: apply_desired_def Some)
qed (use assms in \<open>simp add: apply_desired_def\<close>)

lemma demand_pass_inv:
  assumes "bridge_inv env st" "br_socket st"
  shows "bridge_inv env (demand_pass env st)
    \<and> (br_demand st \<longrightarrow> \<not> br_dirty (demand_pass env st) \<and> br_slot (demand_pass env st) = None
        \<and> (br_dirty st \<or> br_slot st \<noteq> None
             \<longrightarrow> set (br_applied (demand_pass env st)) = bridge_goal (wanted env (demand_pass env st))))"
proof (cases "br_demand st")
  case False
  with assms show ?thesis by (simp add: demand_pass_def)
next
  case True
  note ok = inv_demand_ok [OF assms(1) True assms(2)]
  show ?thesis
  proof (cases "br_dirty st")
    case True
    from refresh_and_reconcile [OF ok, of env] apply_desired_inv [of _ env] \<open>br_demand st\<close> True
    show ?thesis by (simp add: demand_pass_def)
  next
    case False
    with apply_desired_inv [OF ok assms(1)] \<open>br_demand st\<close> show ?thesis by (simp add: demand_pass_def)
  qed
qed

lemma check_connect_inv: "bridge_inv env (check_connect env st) = bridge_inv env st"
  by (simp add: check_connect_def read_now_def fail_connection_def)

lemma check_connect_core: "same_core a0 (check_connect env st) = same_core a0 st"
  by (simp add: check_connect_def read_now_def fail_connection_def)

lemma inv_streaming: "bridge_inv env st \<Longrightarrow> br_phase st = Discovery \<Longrightarrow> \<not> br_demand st \<Longrightarrow>
    bridge_inv env (st\<lparr>br_phase := Streaming\<rparr>)"
  by (simp add: inv_defs)

lemma check_subscribe_inv: "bridge_inv env st \<Longrightarrow> bridge_inv env (check_subscribe env st)"
  using inv_streaming [of env st] inv_streaming [of env "warning m (act ReadClock st)" for m]
  by (simp add: check_subscribe_def read_now_def) (simp add: warning_def)

lemma check_subscribe_core: "same_core st (check_subscribe env st)"
  by (simp add: check_subscribe_def read_now_def)

lemma heartbeat_inv: "bridge_inv env st \<Longrightarrow> bridge_inv env (heartbeat env st)"
  by (simp add: heartbeat_def send_request_def new_id_def inv_defs)

lemma heartbeat_fields [simp]:
  "br_socket (heartbeat env st) = br_socket st" "br_demand (heartbeat env st) = br_demand st"
  "br_dirty (heartbeat env st) = br_dirty st" "br_slot (heartbeat env st) = br_slot st"
  "br_phase (heartbeat env st) = br_phase st" "br_fatal (heartbeat env st) = br_fatal st"
  by (simp_all add: heartbeat_def send_request_def new_id_def)

lemma check_subscribe_fields [simp]:
  "br_dirty (check_subscribe env st) = br_dirty st" "br_fatal (check_subscribe env st) = br_fatal st"
  "br_socket (check_subscribe env st) = br_socket st" "br_demand (check_subscribe env st) = br_demand st"
  "br_slot (check_subscribe env st) = br_slot st" "br_phase (check_subscribe env st) = Connecting \<longleftrightarrow> br_phase st = Connecting"
  by (simp_all add: check_subscribe_def read_now_def warning_def)

lemma poll_front_inv: "bridge_inv env st \<Longrightarrow> bridge_inv env (check_connect env (pump_events env st))"
  by (simp add: check_connect_inv pump_events_inv)

lemma poll_back_inv:
  assumes "bridge_inv env st" "br_phase st \<noteq> Connecting"
  defines "s1 \<equiv> demand_pass env (heartbeat env (check_subscribe env st))"
  shows "bridge_inv env s1 \<and> (br_demand st \<longrightarrow> \<not> br_dirty s1 \<and> br_slot s1 = None
        \<and> (br_dirty st \<or> br_slot st \<noteq> None \<longrightarrow> set (br_applied s1) = bridge_goal (wanted env s1)))"
proof -
  have "br_socket st" using assms(1,2) by (simp add: conn_ok_def)
  from demand_pass_inv [OF heartbeat_inv [OF check_subscribe_inv [OF assms(1)]]] this show ?thesis
    unfolding s1_def by simp
qed

lemma on_poll_inv: "bridge_inv env st \<Longrightarrow> bridge_inv env (snd (on_poll env st))"
  using poll_front_inv [of env st] poll_back_inv [of env "check_connect env (pump_events env st)"]
  by (simp add: on_poll_def Let_def)

text \<open>A source about to decide its mode: connected, nothing subscribed.\<close>

definition start_ok :: "'h bridge \<Rightarrow> bool" where
  "start_ok st \<longleftrightarrow> br_applied st = [] \<and> om_ok (br_catalog st) \<and> br_socket st \<and> br_events st \<noteq> None
     \<and> pred_option queue_ok (br_events st) \<and> br_phase st = Connecting \<and> br_heartbeat st < 30"

lemma start_ok_inv: "start_ok st \<Longrightarrow> bridge_inv env st"
  by (simp add: start_ok_def inv_defs)

lemma start_ok_upd [simp]:
  "start_ok (st\<lparr>br_demand := x0\<rparr>) = start_ok st" "start_ok (act a st) = start_ok st"
  "start_ok (warning m st) = start_ok st" "start_ok (st\<lparr>br_connect_deadline := x1\<rparr>) = start_ok st"
  by (simp_all add: start_ok_def warning_def)

lemma start_ok_clear: "start_ok st \<Longrightarrow> start_ok (st\<lparr>br_catalog := []\<rparr>)"
  by (simp add: start_ok_def)

lemma begin_discovery_start: "start_ok st \<Longrightarrow> bridge_inv env (begin_discovery env st)"
  by (rule begin_discovery_inv [OF start_ok_inv]) (simp_all add: start_ok_def)

lemma start_mode_inv:
  assumes "start_ok st"
  shows "bridge_inv env (start_mode env adopted st)"
proof -
  have "start_ok (st\<lparr>br_demand := d, br_catalog := []\<rparr>)" for d
    using assms by (simp add: start_ok_def)
  moreover have "act a st\<lparr>br_demand := d, br_catalog := []\<rparr> = act a (st\<lparr>br_demand := d, br_catalog := []\<rparr>)" for a d
    by (simp add: act_def)
  ultimately show ?thesis
    unfolding start_mode_def refresh_advertised_def Let_def
    using assms by (simp add: begin_discovery_start start_ok_inv)
qed

lemma start_fresh_inv:
  assumes "\<not> br_socket st" "conn_ok st" "om_ok (br_catalog st)" "br_phase st = Connecting"
  shows "bridge_inv env (snd (start_fresh env st))"
proof -
  have "start_ok (act (StartSocket (br_endpoint st)) (st\<lparr>br_events := Some (new_queue (en_queue_bytes env)), br_socket := True\<rparr>))"
    using assms by (simp add: start_ok_def conn_ok_def new_queue_ok)
  then show ?thesis
    unfolding start_fresh_def read_now_def Let_def
    by (simp add: start_mode_inv start_ok_inv split: option.split del: inv_act)
qed

lemma start_adopted_inv:
  assumes "\<not> br_socket st" "conn_ok st" "om_ok (br_catalog st)" "br_phase st = Connecting" "queue_ok q"
  shows "bridge_inv env (start_adopted env q discovered st)"
proof -
  have "om_ok (fold (\<lambda>info. om_put (ti_name info) info) discovered (br_catalog st))"
    using assms(3) om_put_ok by (rule fold_invariant)
  then show ?thesis
    unfolding start_adopted_def by (intro start_mode_inv) (use assms in \<open>simp add: start_ok_def conn_ok_def\<close>)
qed

lemma on_start_inv:
  assumes "bridge_inv env st" "\<not> br_socket st" "pred_option queue_ok handoff"
  shows "bridge_inv env (snd (on_start env config endpoint handoff discovered st))"
proof (cases config)
  case (Some cfg)
  have r: "bridge_inv env (snd (read_config env cfg (st\<lparr>br_endpoint := endpoint\<rparr>)))
      \<and> \<not> br_socket (snd (read_config env cfg (st\<lparr>br_endpoint := endpoint\<rparr>)))
      \<and> br_phase (snd (read_config env cfg (st\<lparr>br_endpoint := endpoint\<rparr>))) = Connecting"
    using assms(1,2) by (auto simp: read_config_def inv_defs Let_def split: option.split prod.split)
  obtain ok s1 where c: "read_config env cfg (st\<lparr>br_endpoint := endpoint\<rparr>) = (ok, s1)" by (cases "read_config env cfg (st\<lparr>br_endpoint := endpoint\<rparr>)")
  have u: "s1\<lparr>br_phase := Connecting\<rparr> = s1" using r c by simp
  have o: "om_ok (br_catalog s1)" "conn_ok s1" "\<not> br_socket s1" "br_phase s1 = Connecting" using r c by (auto simp: subs_ok_def)
  show ?thesis
    using r c o start_fresh_inv [of s1 env] start_fresh_inv [of "act AskOpen s1" env]
      start_adopted_inv [of "act AskOpen s1" "the handoff" env discovered] assms(3)
    by (cases handoff) (simp_all add: on_start_def Some u Let_def split: bool.split)
qed (use assms in \<open>simp add: on_start_def\<close>)

lemma on_stop_inv: "bridge_inv env st \<Longrightarrow> bridge_inv env (on_stop st)"
  by (simp add: on_stop_def inv_defs act_def)

lemma send_if_open_inv: "bridge_inv env (send_if_open env command st) = bridge_inv env st"
  by (simp add: send_if_open_def send_request_def new_id_def Let_def)

lemma deliver_inv:
  assumes "bridge_inv env st"
  shows "bridge_inv env (deliver event st)"
proof -
  have "queue_ok (push event q)" if "queue_ok q" for q using queue_step_ok [OF that, of "OpPush event"] by simp
  then show ?thesis using assms by (auto simp: deliver_def inv_defs option.pred_map option.pred_mono_strong comp_def)
qed

lemma bridge_step_inv:
  assumes "bridge_step env st st'" "bridge_inv env st"
  shows "bridge_inv env st'"
  using assms(1)
proof cases
  case Pause
  with assms(2) show ?thesis by (simp add: pause_def send_if_open_inv)
next
  case Resume
  with assms(2) show ?thesis by (simp add: resume_def send_if_open_inv)
next
  case SetActive
  with assms(2) show ?thesis by (simp add: set_active_def)
qed (use assms(2) on_start_inv on_poll_inv on_stop_inv deliver_inv in blast)+

lemma reachable_inv: "reachable env st \<Longrightarrow> bridge_inv env st"
proof (induction rule: reachable.induct)
  case New
  show ?case by (simp add: new_bridge_def inv_defs)
qed (rule bridge_step_inv)

subsection \<open>How a session evolves\<close>

text \<open>The frames sent and the messages pushed to the host, in a log.\<close>

fun sent :: "'h log \<Rightarrow> wire list" where
  "sent [] = []"
| "sent (SendText w # l) = w # sent l"
| "sent (a # l) = sent l"

fun pushed_messages :: "'h log \<Rightarrow> ('h \<times> int \<times> bytes) list" where
  "pushed_messages [] = []"
| "pushed_messages (PushMessage h ts cdr # l) = (h, ts, cdr) # pushed_messages l"
| "pushed_messages (a # l) = pushed_messages l"

lemma sent_append [simp]: "sent (l @ m) = sent l @ sent m"
  by (induction l rule: sent.induct) auto

lemma pushed_messages_append [simp]: "pushed_messages (l @ m) = pushed_messages l @ pushed_messages m"
  by (induction l rule: pushed_messages.induct) auto

text \<open>What every piece of a poll guarantees: the log grows, by nothing sent while connecting, deadlines stand, the phase only leaves
  \<open>Connecting\<close>, a failure is final, and a changed catalog is marked.\<close>

definition evolves :: "'h bridge \<Rightarrow> 'h bridge \<Rightarrow> bool" where
  "evolves st st' \<longleftrightarrow> (\<exists>l. br_log st' = br_log st @ l \<and> (br_phase st' = Connecting \<longrightarrow> sent l = [])) \<and> br_connect_deadline st' = br_connect_deadline st
     \<and> (br_phase st' = br_phase st \<and> br_subscribe_deadline st' = br_subscribe_deadline st \<or> br_phase st = Connecting)
     \<and> (br_phase st' = Connecting \<longrightarrow> br_phase st = Connecting)
     \<and> (br_fatal st \<noteq> [] \<longrightarrow> br_fatal st' = br_fatal st)
     \<and> (br_dirty st \<longrightarrow> br_dirty st') \<and> (br_catalog st' = br_catalog st \<or> br_dirty st')"

lemma evolves_refl [simp]: "evolves st st"
  by (simp add: evolves_def)

lemma evolves_trans [trans]: "evolves a b \<Longrightarrow> evolves b c \<Longrightarrow> evolves a c"
  unfolding evolves_def by (elim conjE exE) (intro conjI; force)

lemma evolves_act [simp]: "sent [a] = [] \<Longrightarrow> evolves st st' \<Longrightarrow> evolves st (act a st')" "evolves st st' \<Longrightarrow> evolves st (warning m st')"
  by (auto simp: evolves_def act_def warning_def)

lemma evolves_upd [simp]:
  "evolves st (st'\<lparr>br_bindings := x0\<rparr>) = evolves st st'" "evolves st (st'\<lparr>br_response := x1\<rparr>) = evolves st st'"
  "evolves st (st'\<lparr>br_applied := x2\<rparr>) = evolves st st'" "evolves st (st'\<lparr>br_last_id := x3\<rparr>) = evolves st st'"
  "evolves st (st'\<lparr>br_info_logged := x4\<rparr>) = evolves st st'" "evolves st (st'\<lparr>br_reported_frames := x5\<rparr>) = evolves st st'"
  "evolves st (st'\<lparr>br_last_warning := x6\<rparr>) = evolves st st'" "evolves st (st'\<lparr>br_events := x7\<rparr>) = evolves st st'"
  "evolves st (st'\<lparr>br_heartbeat := x8\<rparr>) = evolves st st'"
  by (simp_all add: evolves_def)

lemma evolves_fold: "(\<And>x st. evolves st (f x st)) \<Longrightarrow> evolves st (fold f xs st)"
proof (induction xs arbitrary: st)
  case (Cons x xs)
  from evolves_trans [OF Cons.prems [of st x] Cons.IH [OF Cons.prems]] show ?case by simp
qed simp

lemma evolves_fail [simp]: "evolves st st' \<Longrightarrow> evolves st (fail m st')"
  by (auto simp: evolves_def fail_def)

lemma begin_discovery_evolves: "br_phase st = Connecting \<Longrightarrow> evolves st (begin_discovery env st)"
  by (auto simp: begin_discovery_def evolves_def call_defs Let_def)

lemma push_message_evolves: "evolves st (push_message env m st)"
  by (simp add: push_message_def Let_def split: option.split)

lemma on_binary_frame_evolves: "evolves st (on_binary_frame env frame st)"
  by (simp add: on_binary_frame_def evolves_fold push_message_evolves split: prod.split)

lemma bind_schema_evolves: "evolves st (bind_schema env e st)"
  by (simp add: bind_schema_def Let_def split: prod.splits sum.splits)

lemma strip_failure_evolves: "evolves st (strip_failure i f st)"
  by (simp add: strip_failure_def Let_def)

lemma handle_subscribe_response_evolves: "evolves st (handle_subscribe_response env j st)"
proof -
  have b: "evolves st (fold (bind_schema env) ms st)" for ms
    by (rule evolves_fold) (rule bind_schema_evolves)
  have s: "evolves st' (fold (strip_failure i) fs st')" for i fs and st' :: "'a bridge"
    by (rule evolves_fold) (rule strip_failure_evolves)
  show ?thesis
    using b s evolves_trans [OF b s] by (simp add: handle_subscribe_response_def Let_def split: option.split json.split)
qed

lemma new_catalog_evolves: "evolves st ((drop_retyped before (st\<lparr>br_catalog := cat\<rparr>))\<lparr>br_dirty := True\<rparr>)"
  by (simp add: evolves_def drop_retyped_def Let_def)

lemma handle_topics_changed_evolves: "evolves st (handle_topics_changed j st)"
proof -
  have u: "st\<lparr>br_catalog := br_catalog st\<rparr> = st" by simp
  show ?thesis
    using advertise_delta_same new_catalog_evolves [of st]
    unfolding handle_topics_changed_def Let_def
    by (auto split: prod.splits simp: u) (metis evolves_refl fst_conv snd_conv u)+
qed

lemma log_server_info_evolves: "evolves st (log_server_info j st)"
  by (simp add: log_server_info_def Let_def split: option.split)

lemma handle_get_topics_evolves: "evolves st (handle_get_topics topics j st)"
  using log_server_info_evolves [of st j] evolves_trans [OF log_server_info_evolves [of st j] new_catalog_evolves]
  by (simp add: handle_get_topics_def Let_def)

lemma on_text_message_evolves: "evolves st (on_text_message env msg st)"
  by (simp add: on_text_message_def handle_topics_changed_evolves handle_subscribe_response_evolves
      handle_get_topics_evolves split: option.split)

lemma apply_event_evolves: "evolves st (apply_event env e st)"
  by (simp add: apply_event_def begin_discovery_evolves on_text_message_evolves on_binary_frame_evolves
      fail_connection_def split: ws_type.split)

lemma report_dropped_evolves: "evolves st (report_dropped env st)"
  by (simp add: report_dropped_def read_now_def split: option.split prod.split)

lemma pump_events_evolves: "evolves st (pump_events env st)"
proof -
  have "evolves st (fold (apply_event env) es (st\<lparr>br_events := q\<rparr>))" for es q
    using evolves_fold [of "apply_event env" "st\<lparr>br_events := q\<rparr>" es, OF apply_event_evolves]
    by (simp add: evolves_def)
  from evolves_trans [OF this report_dropped_evolves] show ?thesis
    by (simp add: pump_events_def drain_def split: option.split)
qed

lemma check_connect_evolves: "evolves st (check_connect env st)"
  by (simp add: check_connect_def read_now_def fail_connection_def)

lemma pump_events_core: "br_slot (pump_events env st) = br_slot st \<and> br_demand (pump_events env st) = br_demand st"
proof -
  have "same_core (st\<lparr>br_events := q\<rparr>) (fold (apply_event env) es (st\<lparr>br_events := q\<rparr>))" for es q
    by (rule same_core_fold) (rule apply_event_core)
  from same_core_trans [OF this report_dropped_core] show ?thesis
    by (simp add: pump_events_def drain_def same_core_def split: option.split)
qed

lemma poll_catalog: "br_phase st \<noteq> Connecting \<Longrightarrow>
    br_catalog (demand_pass env (heartbeat env (check_subscribe env st))) = br_catalog st"
  by (simp add: demand_pass_def apply_desired_def heartbeat_def check_subscribe_def send_request_def new_id_def read_now_def
      refresh_and_warn_def refresh_advertised_def Let_def warning_def split: option.split prod.split)

lemma poll_fields: 
  "br_phase (demand_pass env st) = br_phase st" "br_fatal (demand_pass env st) = br_fatal st"
  "br_demand (demand_pass env st) = br_demand st"
  by (simp_all add: demand_pass_def apply_desired_def
      refresh_and_warn_def refresh_advertised_def Let_def warning_def split: option.split prod.split)

subsection \<open>Properties\<close>

lemma poll_cases:
  obtains (Failed) "br_fatal (check_connect env (pump_events env st)) \<noteq> []"
      "on_poll env st = (Some (br_fatal (check_connect env (pump_events env st))), check_connect env (pump_events env st))"
  | (Waiting) "br_fatal (check_connect env (pump_events env st)) = []" "br_phase (check_connect env (pump_events env st)) = Connecting"
      "on_poll env st = (None, check_connect env (pump_events env st))"
  | (Running) "br_fatal (check_connect env (pump_events env st)) = []" "br_phase (check_connect env (pump_events env st)) \<noteq> Connecting"
      "on_poll env st = (None, demand_pass env (heartbeat env (check_subscribe env (check_connect env (pump_events env st)))))"
  by (cases "br_fatal (check_connect env (pump_events env st)) = []";
      cases "br_phase (check_connect env (pump_events env st)) = Connecting")
    (auto simp: on_poll_def Let_def)

lemma front_evolves: "evolves st (check_connect env (pump_events env st))"
  by (rule evolves_trans [OF pump_events_evolves check_connect_evolves])

text \<open>C12. In every state a session reaches: a phase after connecting has a socket, a socket has its queue,
  only a legacy session streams without demand and it subscribes to nothing by demand; every topic
  subscribed has the id of its request; and unless a reconcile is due, every subscribed topic is advertised
  by the server, passes the saved selection and is wanted by the host.\<close>

theorem session_invariant:
  assumes "reachable env st"
  shows "(br_phase st \<noteq> Connecting \<longrightarrow> br_socket st) \<and> (br_events st = None \<longleftrightarrow> \<not> br_socket st)
    \<and> (br_phase st = Streaming \<longrightarrow> \<not> br_demand st) \<and> (\<not> br_demand st \<longrightarrow> br_applied st = [])
    \<and> (\<forall>t \<in> set (br_applied st). br_last_id st t \<noteq> None)
    \<and> (\<not> br_dirty st \<longrightarrow> (\<forall>t \<in> set (br_applied st). t \<in> fst ` set (br_catalog st)
          \<and> en_passes env t (map ti_name (br_selected st)) \<and> t \<in> set (br_desired st)))"
  using reachable_inv [OF assms] by (auto simp: inv_defs bridge_goal_def filtered_advertised_def)

text \<open>C13. A poll that runs in demand mode leaves no reconcile due and no command of the host waiting; and
  when the host had set its topics, or the catalog changed, or a reconcile was due, the topics
  subscribed are then exactly those advertised, selected and wanted.\<close>

theorem demand_poll_converges:
  assumes "reachable env st" "on_poll env st = (None, st')" "br_demand st'" "br_phase st' \<noteq> Connecting"
  shows "\<not> br_dirty st' \<and> br_slot st' = None
    \<and> (br_slot st \<noteq> None \<or> br_dirty st \<or> br_catalog st' \<noteq> br_catalog st \<longrightarrow>
         set (br_applied st') = bridge_goal (wanted env st'))"
proof (cases rule: poll_cases [of env st])
  case Running
  let ?s = "check_connect env (pump_events env st)"
  have i: "bridge_inv env ?s" using assms(1) by (intro poll_front_inv reachable_inv)
  have st': "st' = demand_pass env (heartbeat env (check_subscribe env ?s))" using Running assms(2) by simp
  have d: "br_demand ?s" using assms(3) by (simp add: st' poll_fields)
  have s: "br_slot ?s = br_slot st" using pump_events_core [of env st] check_connect_core [of "pump_events env st" env "pump_events env st"]
    by (simp add: same_core_def)
  have e: "br_dirty st \<longrightarrow> br_dirty ?s" "br_catalog st' = br_catalog st \<or> br_dirty ?s"
    using front_evolves [of st env] poll_catalog [OF Running(2), of env] by (auto simp: evolves_def st')
  from poll_back_inv [OF i Running(2)] d s e show ?thesis unfolding st' by auto
qed (use assms in auto)

text \<open>While the socket is connecting a poll sends nothing and leaves the host's command waiting; and the
  waiting phases end: with a clock that never goes back, a poll that begins at or after the connect deadline
  does not report success and keep connecting, and one that begins at or after the subscribe deadline of a
  legacy session leaves it streaming or failed.\<close>

theorem waiting_ends_at_deadline:
  assumes "\<forall>l a. en_now env l \<le> en_now env (l @ [a])" "on_poll env st = (answer, st')"
  shows "(br_phase st' = Connecting \<longrightarrow> sent (br_log st') = sent (br_log st) \<and> br_slot st' = br_slot st)
    \<and> (br_connect_deadline st \<le> en_now env (br_log st) \<longrightarrow> answer \<noteq> None \<or> br_phase st' \<noteq> Connecting)
    \<and> (br_phase st = Discovery \<and> \<not> br_demand st \<and> br_subscribe_deadline st \<le> en_now env (br_log st) \<longrightarrow>
         answer \<noteq> None \<or> br_phase st' = Streaming)"
proof -
  let ?p = "pump_events env st"
  let ?s = "check_connect env ?p"
  have mono: "en_now env l \<le> en_now env (l @ m)" for l m
  proof (induction m rule: rev_induct)
    case (snoc x m)
    from order_trans [OF snoc assms(1) [THEN spec, THEN spec, of "l @ m" x]] show ?case by simp
  qed simp
  have late: "en_now env (br_log st) \<le> en_now env (br_log s)" if "evolves st s" for s
    using that mono by (auto simp: evolves_def)
  have p: "br_phase ?s = br_phase ?p" "br_demand ?p = br_demand st" "br_slot ?s = br_slot st"
    using pump_events_core [of env st] by (simp_all add: check_connect_def read_now_def fail_connection_def fail_def)
  have e: "evolves st ?p" "evolves st ?s" by (rule pump_events_evolves) (rule front_evolves)
  have quiet: "br_phase ?s = Connecting \<Longrightarrow> sent (br_log ?s) = sent (br_log st)"
    using e(2) by (auto simp: evolves_def)
  show ?thesis
  proof (cases rule: poll_cases [of env st])
    case Failed
    with assms(2) quiet p(3) show ?thesis by auto
  next
    case Waiting
    have "evolves st (act ReadClock ?p)" using e(1) by simp
    from late [OF this] e(1) have
      "br_connect_deadline ?p = br_connect_deadline st" "en_now env (br_log st) \<le> en_now env (br_log (act ReadClock ?p))"
      by (simp_all add: evolves_def)
    moreover have "br_phase ?p = Connecting" using Waiting(2) p(1) by simp
    ultimately have "\<not> br_connect_deadline st \<le> en_now env (br_log st)"
      using Waiting(1) by (auto simp: check_connect_def read_now_def fail_connection_def fail_def split: if_splits)
    moreover have "br_phase st = Connecting" using e(2) Waiting(2) by (simp add: evolves_def)
    ultimately show ?thesis using Waiting assms(2) quiet p(3) by auto
  next
    case Running
    have st': "answer = None" "br_phase st' = br_phase (check_subscribe env ?s)"
      using Running(3) assms(2) by (auto simp: poll_fields)
    have n: "br_phase st' \<noteq> Connecting" using Running(2) by (simp add: st'(2))
    have "br_phase st' = Streaming"
      if d: "br_phase st = Discovery" "\<not> br_demand st" "br_subscribe_deadline st \<le> en_now env (br_log st)"
    proof -
      have s: "br_phase ?s = Discovery" "br_subscribe_deadline ?s = br_subscribe_deadline st"
        using e(2) d(1) by (auto simp: evolves_def)
      have "br_demand ?s = br_demand st" using p(2) check_connect_core [of ?p env ?p] by (simp add: same_core_def)
      moreover have "en_now env (br_log st) \<le> en_now env (br_log (act ReadClock ?s))" using e(2) by (intro late) simp
      ultimately show ?thesis using s d(2,3) st'(2) by (simp add: check_subscribe_def read_now_def)
    qed
    with n show ?thesis by blast
  qed
qed

lemma on_start_fatal: "br_fatal (snd (on_start env config endpoint handoff discovered st)) = br_fatal st"
  by (simp add: on_start_def read_config_def start_fresh_def start_adopted_def start_mode_def read_now_def warning_def
      refresh_advertised_def Let_def split: option.split prod.split bool.split)

lemma on_poll_fatal:
  assumes "br_fatal st \<noteq> []"
  shows "br_fatal (snd (on_poll env st)) = br_fatal st \<and> fst (on_poll env st) = Some (br_fatal st)"
proof -
  have "br_fatal (check_connect env (pump_events env st)) = br_fatal st"
    using front_evolves [of st env] assms by (simp add: evolves_def)
  with assms show ?thesis by (cases rule: poll_cases [of env st]) auto
qed

text \<open>C14. A failure is final: once the source has failed, every poll returns the same message, and no step
  but stop takes it away.\<close>

theorem failure_latched:
  assumes "br_fatal st \<noteq> []" "bridge_step env st st'" "st' \<noteq> on_stop st"
  shows "br_fatal st' = br_fatal st \<and> fst (on_poll env st) = Some (br_fatal st)"
  using assms(2)
proof cases
  case Poll
  with on_poll_fatal [OF assms(1)] show ?thesis by blast
qed (use on_poll_fatal [OF assms(1)] assms(3) in
  \<open>simp_all add: on_start_fatal pause_def resume_def send_if_open_def send_request_def new_id_def Let_def deliver_def set_active_def\<close>)

subsection \<open>Routing\<close>

lemma text_of_bytes_of_text: "bytes_of_text (text_of_bytes bs) = bs"
proof -
  have "of_nat (of_char (char_of (unat b) :: char)) = b" for b :: "8 word"
    using unsigned_less [of b, where ?'a = nat] by simp
  then show ?thesis by (simp add: bytes_of_text_def text_of_bytes_def comp_def)
qed

definition routed :: "'h bridge \<Rightarrow> raw_message \<Rightarrow> ('h \<times> int \<times> bytes) option" where
  "routed st m = map_option (\<lambda>h. (h, rm_timestamp m, rm_cdr m)) (br_bindings st (text_of_bytes (rm_topic m)))"

lemma push_message_log:
  "pushed_messages (br_log (push_message env m st)) = pushed_messages (br_log st) @ (case routed st m of None \<Rightarrow> [] | Some p \<Rightarrow> [p])
    \<and> br_bindings (push_message env m st) = br_bindings st"
  by (simp add: push_message_def routed_def act_def warning_def Let_def split: option.split)

lemma push_messages_log:
  "pushed_messages (br_log (fold (push_message env) ms st)) = pushed_messages (br_log st) @ List.map_filter (routed st) ms
    \<and> br_bindings (fold (push_message env) ms st) = br_bindings st"
proof (induction ms arbitrary: st)
  case (Cons m ms)
  have "routed (push_message env m st) = routed st" using push_message_log [of env m st] by (simp add: routed_def fun_eq_iff)
  with Cons.IH [of "push_message env m st"] push_message_log [of env m st] show ?case
    by (simp add: map_filter_simps split: option.split)
qed (simp add: map_filter_simps)

text \<open>A data frame reaches the host: the messages encoded in a frame are pushed to the parsers bound to
  their topics, in order, with their timestamps and payloads, whatever the host answers; messages of topics without a
  parser are dropped.\<close>

theorem frames_routed_to_parsers:
  assumes "\<forall>m \<in> set msgs. message_fits m" "length msgs < 2 ^ 32"
    and "unat (en_zstd_size env (compress (concat (map encode_message msgs)))) = length (concat (map encode_message msgs))"
    and "length (concat (map encode_message msgs)) \<le> max_decompressed_size"
    and "en_zstd env (length (concat (map encode_message msgs))) (compress (concat (map encode_message msgs)))
           = Some (concat (map encode_message msgs))"
  shows "pushed_messages (br_log (apply_event env \<lparr>we_type = WsBinary, we_payload = text_of_bytes (encode_frame compress msgs info)\<rparr> st))
      = pushed_messages (br_log st)
        @ List.map_filter (\<lambda>m. map_option (\<lambda>h. (h, rm_timestamp m, rm_cdr m)) (br_bindings st (text_of_bytes (rm_topic m)))) msgs"
proof -
  have "parse_binary_frame (en_zstd_size env) (en_zstd env) (encode_frame compress msgs info) = (True, msgs)"
    using assms by (intro frame_reads_back [OF _ _ refl]) simp_all
  with push_messages_log [of env msgs st] show ?thesis
    by (simp add: apply_event_def on_binary_frame_def text_of_bytes_of_text routed_def [abs_def])
qed

subsection \<open>A sample session\<close>

text \<open>A server advertising one topic, a host that wants it, a clock that ticks with every call.\<close>

definition sample_env :: "nat env" where
  "sample_env =
     \<lparr>en_now = (\<lambda>l. int (length l)), en_id = (\<lambda>l. ''id''), en_open = (\<lambda>l. True), en_start = (\<lambda>l. None),
      en_notify = (\<lambda>l. None), en_bind = (\<lambda>l. Inr 0), en_push = (\<lambda>l. None),
      en_json = (\<lambda>s. if s = ''topics'' then Some (JObject [(''topics'', JArray [JObject [(''name'', JString ''a'')]])]) else None),
      en_passes = (\<lambda>name selection. True), en_limit = (\<lambda>j. []), en_zstd_size = stored_size, en_zstd = stored_payload,
      en_mib = (\<lambda>n. []), en_connect_timeout = 10, en_subscribe_timeout = 5, en_queue_bytes = 1000\<rparr>"

definition sample_started :: "nat bridge" where
  "sample_started = snd (on_start sample_env (Some (JObject [])) ''ws://h'' None [] new_bridge)"

definition sample_waiting :: "nat bridge" where
  "sample_waiting = set_active [''a'']
     (deliver \<lparr>we_type = WsText, we_payload = ''topics''\<rparr> (deliver \<lparr>we_type = WsOpen, we_payload = []\<rparr> sample_started))"

lemma sample_started_reachable: "reachable sample_env sample_started"
  unfolding sample_started_def by (rule reachable.Next [OF reachable.New bridge_step.Start]) (simp_all add: new_bridge_def)

lemma sample_waiting_reachable: "reachable sample_env sample_waiting"
  unfolding sample_waiting_def
  by (intro reachable.Next [OF _ bridge_step.SetActive] reachable.Next [OF _ bridge_step.Deliver] sample_started_reachable)

lemma sample_poll: "fst (on_poll sample_env sample_waiting) = None \<and> br_applied (snd (on_poll sample_env sample_waiting)) = [''a'']
   \<and> br_phase (snd (on_poll sample_env sample_waiting)) = Discovery \<and> br_demand (snd (on_poll sample_env sample_waiting))
   \<and> \<not> br_dirty (snd (on_poll sample_env sample_waiting))"
  by code_simp


definition sample_polled :: "nat bridge" where
  "sample_polled = snd (on_poll sample_env sample_waiting)"

lemma sample_polled_reachable: "reachable sample_env sample_polled"
  unfolding sample_polled_def by (rule reachable.Next [OF sample_waiting_reachable bridge_step.Poll])

lemma session_invariant_witness:
  "br_socket sample_polled \<and> br_last_id sample_polled ''a'' \<noteq> None
     \<and> ''a'' \<in> fst ` set (br_catalog sample_polled) \<and> ''a'' \<in> set (br_desired sample_polled)"
  using session_invariant [OF sample_polled_reachable] sample_poll by (simp add: sample_polled_def)

lemma demand_poll_converges_witness:
  "br_slot sample_polled = None \<and> bridge_goal (wanted sample_env sample_polled) = {''a''}"
proof -
  have "on_poll sample_env sample_waiting = (None, sample_polled)"
    using sample_poll by (simp add: sample_polled_def prod_eq_iff)
  from demand_poll_converges [OF sample_waiting_reachable this] sample_poll show ?thesis
    by (simp add: sample_polled_def sample_waiting_def set_active_def)
qed

definition hurried_started :: "nat bridge" where
  "hurried_started = snd (on_start (sample_env\<lparr>en_connect_timeout := 0\<rparr>) (Some (JObject [])) ''ws://h'' None [] new_bridge)"

lemma waiting_ends_at_deadline_witness:
  "fst (on_poll sample_env hurried_started) \<noteq> None"
proof -
  have "br_phase (snd (on_poll sample_env hurried_started)) = Connecting" by code_simp
  moreover have "br_connect_deadline hurried_started \<le> en_now sample_env (br_log hurried_started)" by code_simp
  moreover have "\<forall>l a. en_now sample_env l \<le> en_now sample_env (l @ [a])" by (simp add: sample_env_def)
  ultimately show ?thesis
    using waiting_ends_at_deadline [of sample_env hurried_started "fst (on_poll sample_env hurried_started)" "snd (on_poll sample_env hurried_started)"]
    by simp
qed

definition sample_failed :: "nat bridge" where
  "sample_failed = apply_event sample_env \<lparr>we_type = WsClosed, we_payload = []\<rparr> sample_polled"

lemma failure_latched_witness:
  "br_fatal (set_active [''a''] sample_failed) = br_fatal sample_failed \<and> fst (on_poll sample_env sample_failed) = Some (br_fatal sample_failed)"
proof (rule failure_latched [OF _ bridge_step.SetActive])
  show "br_fatal sample_failed \<noteq> []"
    by (simp add: sample_failed_def apply_event_def fail_connection_def fail_def)
  have "br_slot (set_active [''a''] sample_failed) \<noteq> br_slot (on_stop sample_failed)"
    by (simp add: set_active_def on_stop_def)
  then show "set_active [''a''] sample_failed \<noteq> on_stop sample_failed" by metis
qed

definition sample_bound :: "nat bridge" where
  "sample_bound = new_bridge\<lparr>br_bindings := (\<lambda>t. if t = ''/a'' then Some 7 else None)\<rparr>"

lemma frames_routed_to_parsers_witness:
  "pushed_messages (br_log (apply_event sample_env
      \<lparr>we_type = WsBinary, we_payload = text_of_bytes (encode_frame id sample_messages 0)\<rparr> sample_bound)) = [(7, - 5, [1, 2, 3])]"
proof -
  have "pushed_messages (br_log (apply_event sample_env
      \<lparr>we_type = WsBinary, we_payload = text_of_bytes (encode_frame id sample_messages 0)\<rparr> sample_bound))
    = pushed_messages (br_log sample_bound) @ List.map_filter (\<lambda>m. map_option (\<lambda>h. (h, rm_timestamp m, rm_cdr m))
        (br_bindings sample_bound (text_of_bytes (rm_topic m)))) sample_messages"
    by (rule frames_routed_to_parsers)
      (simp_all add: sample_env_def stored_size_def stored_payload_def sample_size max_decompressed_size_def,
       simp_all add: sample_messages_def message_fits_def)
  moreover have "pushed_messages (br_log sample_bound) @ List.map_filter (\<lambda>m. map_option (\<lambda>h. (h, rm_timestamp m, rm_cdr m))
        (br_bindings sample_bound (text_of_bytes (rm_topic m)))) sample_messages = [(7, - 5, [1, 2, 3])]"
    by code_simp
  ultimately show ?thesis by simp
qed

end
