(* ===== verification/FoxgloveWire.thy ===== *)
theory FoxgloveWire
  imports BridgeFrame
begin

section \<open>The foxglove wire format (data_stream_foxglove_bridge/foxglove_protocol.hpp)\<close>

text \<open>
  The binary message frame and the texts of the subscribe and unsubscribe requests. Little-endian fields
  as in the bridge's frames. Facts shown: frames read back, and exactly the frames with the opcode and a
  full header are accepted.
\<close>

record fox_frame =
  ff_subscription :: nat
  ff_log_time :: nat
  ff_payload :: bytes

definition message_data_opcode :: "8 word" where "message_data_opcode = 1"

definition frame_header_size :: nat where "frame_header_size = 1 + 4 + 8"

text \<open>\<open>None\<close> where the code returns false.\<close>

definition parse_fox_frame :: "bytes \<Rightarrow> fox_frame option" where
  "parse_fox_frame msg =
     (if length msg < frame_header_size then None
      else if msg ! 0 \<noteq> message_data_opcode then None
      else Some \<lparr>ff_subscription = le_nat (take 4 (drop 1 msg)), ff_log_time = le_nat (take 8 (drop 5 msg)),
                 ff_payload = drop frame_header_size msg\<rparr>)"

fun comma_list :: "string list \<Rightarrow> string" where
  "comma_list [] = []"
| "comma_list [s] = s"
| "comma_list (s # ss) = s @ '','' @ comma_list ss"

definition quoted :: "string \<Rightarrow> string" where "quoted s = quote @ s @ quote"

definition fox_subscribe_text :: "(nat \<times> 64 word) list \<Rightarrow> string" where
  "fox_subscribe_text subs =
     ''{'' @ quoted ''op'' @ '':'' @ quoted ''subscribe'' @ '','' @ quoted ''subscriptions'' @ '':['' @
     comma_list (map (\<lambda>(sub_id, channel_id).
       ''{'' @ quoted ''id'' @ '':'' @ nat_text sub_id @ '','' @ quoted ''channelId'' @ '':'' @ nat_text (unat channel_id) @ ''}'') subs)
     @ '']}''"

definition fox_unsubscribe_text :: "nat list \<Rightarrow> string" where
  "fox_unsubscribe_text ids =
     ''{'' @ quoted ''op'' @ '':'' @ quoted ''unsubscribe'' @ '','' @ quoted ''subscriptionIds'' @ '':['' @
     comma_list (map nat_text ids) @ '']}''"

text \<open>What a server writes.\<close>

definition encode_fox_frame :: "nat \<Rightarrow> nat \<Rightarrow> bytes \<Rightarrow> bytes" where
  "encode_fox_frame sub_id ts payload = [message_data_opcode] @ le_bytes 4 sub_id @ le_bytes 8 ts @ payload"

lemma fox_frame_reads_back:
  "sub_id < 2 ^ 32 \<Longrightarrow> ts < 2 ^ 64 \<Longrightarrow>
     parse_fox_frame (encode_fox_frame sub_id ts payload) = Some \<lparr>ff_subscription = sub_id, ff_log_time = ts, ff_payload = payload\<rparr>"
  by (simp add: parse_fox_frame_def encode_fox_frame_def frame_header_size_def le_nat_bytes)

lemma fox_frame_accepted: "parse_fox_frame msg \<noteq> None \<longleftrightarrow> 13 \<le> length msg \<and> msg ! 0 = 1"
  by (simp add: parse_fox_frame_def frame_header_size_def message_data_opcode_def)

end
