(* ===== verification/Base64.thy ===== *)
theory Base64
  imports Prelude "HOL-Library.Word"
begin

unbundle bit_operations_syntax

section \<open>Base64 (common/base64/include/pj_base64/base64.hpp)\<close>

text \<open>
  The lenient decoder. The table has 128 initializers for its 256 entries, so the bytes from 128 on hold
  0 like \<open>A\<close>. Facts shown: what an encoder writes, with or without its padding, reads back; the length
  of the output; what the code does with characters outside the alphabet.
\<close>

text \<open>\<open>kDecodeTable\<close>.\<close>

definition decode_table :: "char \<Rightarrow> int" where
  "decode_table c =
     (let i = of_char c :: int in
      if i = 43 then 62 else if i = 47 then 63
      else if 48 \<le> i \<and> i \<le> 57 then i + 4
      else if 65 \<le> i \<and> i \<le> 90 then i - 65
      else if 97 \<le> i \<and> i \<le> 122 then i - 71
      else if i \<ge> 128 then 0 else - 1)"

text \<open>\<open>static_cast<char>\<close> of an \<open>int\<close>.\<close>

definition to_char :: "int \<Rightarrow> char" where
  "to_char i = char_of (nat (i mod 256))"

text \<open>One pass of the loop: the character at \<open>i\<close> and the up to three after it.\<close>

definition present :: "char list \<Rightarrow> nat \<Rightarrow> bool" where
  "present rest k \<longleftrightarrow> k < length rest \<and> rest ! k \<noteq> CHR ''=''"

definition decode_quartet :: "char \<Rightarrow> char list \<Rightarrow> string" where
  "decode_quartet c rest =
     (let n0 = decode_table c;
          n1 = (if 0 < length rest then decode_table (rest ! 0) else 0);
          n2 = (if present rest 1 then decode_table (rest ! 1) else 0);
          n3 = (if present rest 2 then decode_table (rest ! 2) else 0)
      in if n0 < 0 \<or> n1 < 0 then []
         else [to_char (push_bit 2 n0 OR drop_bit 4 n1)]
              @ (if present rest 1 then [to_char (push_bit 4 (n1 AND 0xF) OR drop_bit 2 n2)] else [])
              @ (if present rest 2 then [to_char (push_bit 6 (n2 AND 0x3) OR n3)] else []))"

fun base64_decode :: "string \<Rightarrow> string" where
  "base64_decode [] = []"
| "base64_decode (c # rest) = decode_quartet c rest @ base64_decode (drop 3 rest)"

subsection \<open>The encoding it reads\<close>

definition alphabet :: "nat \<Rightarrow> char" where
  "alphabet n = char_of (if n < 26 then n + 65 else if n < 52 then n + 71 else if n < 62 then n - 4
                         else if n = 62 then 43 else 47)"

text \<open>RFC 4648 on the codes of the bytes; \<open>pad\<close> says whether the padding is written.\<close>

fun base64_encode :: "bool \<Rightarrow> string \<Rightarrow> string" where
  "base64_encode pad [] = []"
| "base64_encode pad [a] =
     (let x = of_char a in [alphabet (x div 4), alphabet (x mod 4 * 16)] @ (if pad then ''=='' else []))"
| "base64_encode pad [a, b] =
     (let x = of_char a; y = of_char b in
      [alphabet (x div 4), alphabet (x mod 4 * 16 + y div 16), alphabet (y mod 16 * 4)] @ (if pad then ''='' else []))"
| "base64_encode pad (a # b # c # cs) =
     (let x = of_char a; y = of_char b; z = of_char c in
      [alphabet (x div 4), alphabet (x mod 4 * 16 + y div 16), alphabet (y mod 16 * 4 + z div 64), alphabet (z mod 64)]
      @ base64_encode pad cs)"

lemma alphabet_code: "n < 64 \<Longrightarrow> (of_char (alphabet n) :: nat) =
    (if n < 26 then n + 65 else if n < 52 then n + 71 else if n < 62 then n - 4 else if n = 62 then 43 else 47)"
  by (auto simp: alphabet_def of_char_of)

lemma alphabet_back: "n < 64 \<Longrightarrow> decode_table (alphabet n) = int n \<and> alphabet n \<noteq> CHR ''=''"
proof -
  assume n: "n < 64"
  have i: "(of_char (alphabet n) :: int) = int (of_char (alphabet n))" by (simp add: of_nat_of_char)
  have "(of_char (alphabet n) :: nat) \<noteq> of_char (CHR ''='')" using n by (auto simp: alphabet_code)
  moreover have "decode_table (alphabet n) = int n"
    using n unfolding decode_table_def Let_def i alphabet_code [OF n] by auto
  ultimately show ?thesis by metis
qed

lemma or_is_add: "(push_bit k x) OR y = x * 2 ^ k + y" if "0 \<le> y" "y < 2 ^ k" for x y :: int
proof -
  have y: "take_bit k y = y" using that by (simp add: take_bit_eq_mod)
  have "push_bit k x + y = push_bit k x OR y"
    by (rule disjunctive_add) (metis bit_push_bit_iff bit_take_bit_iff not_le y)
  then show ?thesis by (simp add: push_bit_eq_mult)
qed

lemma and_mods: "(int x AND 0xF) = int (x mod 16)" "(int x AND 0x3) = int (x mod 4)"
  using take_bit_eq_mask [of 4 "int x"] take_bit_eq_mask [of 2 "int x"]
  by (simp_all add: mask_eq_exp_minus_1 take_bit_eq_mod zmod_int)

lemma drops: "drop_bit k (int x) = int (x div 2 ^ k)"
  by (simp add: drop_bit_eq_div zdiv_int)

lemma to_char_back: "n < 256 \<Longrightarrow> to_char (int n) = char_of n"
  by (simp add: to_char_def)

lemma first_byte: "x < 256 \<Longrightarrow> y < 256 \<Longrightarrow> to_char (push_bit 2 (int (x div 4)) OR drop_bit 4 (int (x mod 4 * 16 + y div 16))) = char_of x"
proof -
  assume a: "x < 256" "y < 256"
  then have "y div 16 < 16" by simp
  then have "(x mod 4 * 16 + y div 16) div 2 ^ 4 = x mod 4" by simp
  then have "push_bit 2 (int (x div 4)) OR drop_bit 4 (int (x mod 4 * 16 + y div 16)) = int (x div 4 * 4 + x mod 4)"
    unfolding drops by (subst or_is_add) (auto simp: zmod_int zdiv_int)
  with a show ?thesis by (simp add: to_char_back)
qed

lemma second_byte: "y < 256 \<Longrightarrow> z < 256 \<Longrightarrow>
    to_char (push_bit 4 (int (x mod 4 * 16 + y div 16) AND 0xF) OR drop_bit 2 (int (y mod 16 * 4 + z div 64))) = char_of y"
proof -
  assume a: "y < 256" "z < 256"
  have "y div 16 < 16" "z div 64 < 4" using a by simp_all
  then have "(x mod 4 * 16 + y div 16) mod 16 = y div 16" "(y mod 16 * 4 + z div 64) div 2 ^ 2 = y mod 16" by simp_all
  then have "push_bit 4 (int (x mod 4 * 16 + y div 16) AND 0xF) OR drop_bit 2 (int (y mod 16 * 4 + z div 64)) = int (y div 16 * 16 + y mod 16)"
    unfolding drops and_mods by (subst or_is_add) (auto simp: zmod_int zdiv_int)
  with a show ?thesis by (simp add: to_char_back)
qed

lemma third_byte: "z < 256 \<Longrightarrow> to_char (push_bit 6 (int (y mod 16 * 4 + z div 64) AND 0x3) OR int (z mod 64)) = char_of z"
proof -
  assume a: "z < 256"
  have "z div 64 < 4" using a by simp
  then have "(y mod 16 * 4 + z div 64) mod 4 = z div 64" by simp
  then have "push_bit 6 (int (y mod 16 * 4 + z div 64) AND 0x3) OR int (z mod 64) = int (z div 64 * 64 + z mod 64)"
    unfolding and_mods by (subst or_is_add) (auto simp: zmod_int zdiv_int)
  with a show ?thesis by (simp add: to_char_back)
qed

lemma quartet_codes:
  assumes "i < 64" "j < 64" "k < 64" "l < 64"
  shows "decode_quartet (alphabet i) (alphabet j # alphabet k # alphabet l # r) =
      [to_char (push_bit 2 (int i) OR drop_bit 4 (int j)), to_char (push_bit 4 (int j AND 0xF) OR drop_bit 2 (int k)),
       to_char (push_bit 6 (int k AND 0x3) OR int l)]"
    and "decode_quartet (alphabet i) (alphabet j # alphabet k # (if pad then ''='' else [])) =
      [to_char (push_bit 2 (int i) OR drop_bit 4 (int j)), to_char (push_bit 4 (int j AND 0xF) OR drop_bit 2 (int k))]"
    and "decode_quartet (alphabet i) (alphabet j # (if pad then ''=='' else [])) =
      [to_char (push_bit 2 (int i) OR drop_bit 4 (int j))]"
  using assms by (simp_all add: decode_quartet_def present_def alphabet_back Let_def)

lemma code_bounds:
  fixes x y :: nat
  assumes "x < 256" "y < 256"
  shows "x div 4 < 64" "x mod 4 * 16 + y div 16 < 64" "y mod 16 * 4 + x div 64 < 64" "x mod 64 < 64"
    "x mod 4 * 16 < 64" "x mod 16 * 4 < 64"
proof -
  have "y div 16 < 16" "x div 64 < 4" "x div 4 < 64" "x mod 4 < 4" "y mod 16 < 16" "x mod 16 < 16" using assms by simp_all
  then show "x div 4 < 64" "x mod 4 * 16 + y div 16 < 64" "y mod 16 * 4 + x div 64 < 64" "x mod 64 < 64"
    "x mod 4 * 16 < 64" "x mod 16 * 4 < 64" by linarith+
qed

lemma byte_of_char: "(of_char c :: nat) < 256"
  by simp

lemma base64_decode_encode: "base64_decode (base64_encode pad s) = s"
proof (induction pad s rule: base64_encode.induct)
  case (2 pad a)
  note b = byte_of_char [of a]
  have "decode_quartet (alphabet (of_char a div 4)) (alphabet (of_char a mod 4 * 16) # (if pad then ''=='' else [])) = [a]"
    unfolding quartet_codes(3) [OF code_bounds(1) [OF b b] code_bounds(5) [OF b b] code_bounds(4) [OF b b] code_bounds(4) [OF b b]]
    using first_byte [OF b, of 0] by simp
  then show ?case by (simp add: Let_def)
next
  case (3 pad a b)
  note a = byte_of_char [of a] and b = byte_of_char [of b]
  have "decode_quartet (alphabet (of_char a div 4))
      (alphabet (of_char a mod 4 * 16 + of_char b div 16) # alphabet (of_char b mod 16 * 4) # (if pad then ''='' else [])) = [a, b]"
    unfolding quartet_codes(2) [OF code_bounds(1) [OF a a] code_bounds(2) [OF a b] code_bounds(6) [OF b b] code_bounds(4) [OF a a]]
    using first_byte [OF a b] second_byte [OF b, of 0 "of_char a"] by simp
  then show ?case by (simp add: Let_def)
next
  case (4 pad a b c cs)
  note a = byte_of_char [of a] and b = byte_of_char [of b] and c = byte_of_char [of c]
  have "decode_quartet (alphabet (of_char a div 4))
      (alphabet (of_char a mod 4 * 16 + of_char b div 16) # alphabet (of_char b mod 16 * 4 + of_char c div 64)
        # alphabet (of_char c mod 64) # base64_encode pad cs) = [a, b, c]"
    unfolding quartet_codes(1) [OF code_bounds(1) [OF a a] code_bounds(2) [OF a b] code_bounds(3) [OF c b] code_bounds(4) [OF c c]]
      first_byte [OF a b] second_byte [OF b c] third_byte [OF c] by simp
  with 4 show ?case by (simp add: Let_def)
qed simp

text \<open>Whatever bytes are encoded, padded or not, decode to themselves.\<close>

theorem base64_round_trip: "base64_decode (base64_encode pad s) = s"
  by (rule base64_decode_encode)

text \<open>A quartet is skipped only when one of its first two characters is outside the alphabet; a wrong
  third or fourth character, and any byte from 128 on, is decoded to something.\<close>

lemma bad_characters_decoded:
  "base64_decode ''!AAA'' = [] \<and> base64_decode ''A!AA'' = [] \<and> base64_decode ''AA!A'' = [CHR 0x00, CHR 0xFF, CHR 0xC0]
    \<and> base64_decode [CHR 0x80, CHR 0x80, CHR 0x80, CHR 0x80] = [CHR 0x00, CHR 0x00, CHR 0x00]"
  by code_simp

end
