(* ===== verification/FoxgloveSource.thy ===== *)
theory FoxgloveSource
  imports TopicControl FoxgloveWire Base64
begin

section \<open>The foxglove source (data_stream_foxglove_bridge/foxglove_source.cpp)\<close>

text \<open>
  \<open>FoxgloveSource\<close> as a state machine: start, poll, stop, the socket's callback, and the host's set of
  active topics. As for the bridge, calls to the outside are actions of a log and their answers functions
  of it, in \<open>fox_env\<close>; a callback during a poll is ordered before or after it. Unlike there, a JSON
  accessor may throw out of a poll: such a poll keeps what it did and loses the texts it had taken. The
  callbacks that run while \<open>onStart\<close> does are its argument: they touch the queues and \<open>connected_\<close>, which
  it only sets at its end. Subscription ids are \<open>nat\<close>: a connection makes fewer than 2^32 subscriptions.
  Facts shown: the tables agree in every reachable state; in demand mode the subscribed channels are at
  all times exactly those advertised, selected and wanted, unless a malformed message cut a batch short;
  a lost connection is retried every 150 polls; data are routed by subscription id.
\<close>

datatype ready_state = RsConnecting | RsOpen | RsClosing | RsClosed

type_synonym available_topic = "string \<times> string \<times> string \<times> string"

datatype 'h fox_action =
    FxReadState
  | FxConnect string
  | FxRestart
  | FxStopSocket
  | FxSend string
  | FxReport string string
  | FxNotify "available_topic list"
  | FxEnsureBinding string string string string json
  | FxPush 'h int bytes

type_synonym 'h fox_log = "'h fox_action list"

record 'h fox_env =
  fe_state :: "'h fox_log \<Rightarrow> ready_state"
  fe_wait :: "'h fox_log \<Rightarrow> ready_state list \<times> ready_state"
  fe_notify :: "'h fox_log \<Rightarrow> string option"
  fe_bind :: "'h fox_log \<Rightarrow> string + 'h"
  fe_push :: "'h fox_log \<Rightarrow> string option"
  fe_json :: "string \<Rightarrow> json option"
  fe_cast_u64 :: "64 word \<Rightarrow> 64 word"
  fe_cast_int :: "64 word \<Rightarrow> int"
  fe_passes :: "string \<Rightarrow> string list \<Rightarrow> bool"
  fe_limit :: "json \<Rightarrow> (string, json) omap"
  fe_endpoint :: "string \<Rightarrow> 16 word \<Rightarrow> string"
  fe_host_port :: "string \<Rightarrow> 16 word \<Rightarrow> string"

record 'h fox =
  fx_address :: string
  fx_port :: int
  fx_array_limit :: "(string, json) omap"
  fx_use_timestamp :: bool
  fx_selected :: "channel_info list"
  fx_socket :: bool
  fx_connected :: bool
  fx_subscriptions :: subscriptions
  fx_bindings :: "nat \<Rightarrow> 'h option"
  fx_advertised :: "(64 word, channel_info) omap"
  fx_next_id :: nat
  fx_messages :: "(nat \<times> int \<times> bytes) list"
  fx_texts :: "string list"
  fx_tick :: nat
  fx_pending :: bool
  fx_demand :: bool
  fx_desired :: "string list"
  fx_slot :: "string list option"
  fx_log :: "'h fox_log"

definition new_fox :: "'h fox" where
  "new_fox =
     \<lparr>fx_address = ''localhost'', fx_port = 8765, fx_array_limit = [], fx_use_timestamp = False, fx_selected = [],
      fx_socket = False, fx_connected = False, fx_subscriptions = [], fx_bindings = (\<lambda>i. None), fx_advertised = [],
      fx_next_id = 1, fx_messages = [], fx_texts = [], fx_tick = 0, fx_pending = False, fx_demand = False,
      fx_desired = [], fx_slot = None, fx_log = []\<rparr>"

definition fox_act :: "'h fox_action \<Rightarrow> 'h fox \<Rightarrow> 'h fox" where
  "fox_act a st = st\<lparr>fx_log := fx_log st @ [a]\<rparr>"

definition read_state :: "'h fox_env \<Rightarrow> 'h fox \<Rightarrow> ready_state \<times> 'h fox" where
  "read_state env st = (let st1 = fox_act FxReadState st in (fe_state env (fx_log st1), st1))"

text \<open>\<open>startAndWaitForOpen\<close> on the states it reads before its deadline and the one it reads after.\<close>

fun wait_for_open :: "ready_state list \<Rightarrow> ready_state \<Rightarrow> bool \<Rightarrow> bool" where
  "wait_for_open [] final attempt_started \<longleftrightarrow> final = RsOpen"
| "wait_for_open (s # ss) final attempt_started \<longleftrightarrow>
     s = RsOpen
     \<or> (if s = RsConnecting then wait_for_open ss final True
        else \<not> (s = RsClosed \<and> attempt_started) \<and> wait_for_open ss final attempt_started)"

subsection \<open>Parsers and subscriptions\<close>

definition resolve_schema_bytes :: "channel_info \<Rightarrow> channel_route \<Rightarrow> string" where
  "resolve_schema_bytes ch route = (if cr_base64 route then base64_decode (ci_schema ch) else ci_schema ch)"

definition bind_channel :: "'h fox_env \<Rightarrow> channel_info \<Rightarrow> nat \<Rightarrow> 'h fox \<Rightarrow> string option \<times> 'h fox" where
  "bind_channel env ch sub_id st =
     (let route = classify_channel ch;
          cfg0 = om_put ''schema_encoding'' (JString (cr_parser_encoding route))
                   (om_put ''use_embedded_timestamp'' (JBool (fx_use_timestamp st))
                     (om_put ''use_timestamp'' (JBool (fx_use_timestamp st)) (fx_array_limit st)));
          cfg = (if cr_label_keyed route then om_put ''label_keyed_arrays'' (JBool True) cfg0 else cfg0);
          st1 = fox_act (FxEnsureBinding (ci_topic ch) (cr_parser_encoding route) (ci_schema_name ch)
                   (resolve_schema_bytes ch route) (JObject cfg)) st
      in case fe_bind env (fx_log st1) of
           Inl err \<Rightarrow> (Some (ci_topic ch @ '' ('' @ cr_parser_encoding route @ ''): '' @ err), st1)
         | Inr h \<Rightarrow> (None, st1\<lparr>fx_bindings := (fx_bindings st1)(sub_id \<mapsto> h)\<rparr>))"

definition newline :: string where "newline = [CHR 0x0A]"

definition report_parser_errors :: "string list \<Rightarrow> 'h fox \<Rightarrow> 'h fox" where
  "report_parser_errors errors st =
     (if errors = [] then st
      else fox_act (FxReport ''warning'' (''Skipped '' @ nat_text (length errors) @ '' channel(s):'' @ newline @
             concat (map (\<lambda>e. ''  - '' @ e @ newline) errors))) st)"

text \<open>The subscription id, the errors grown, and the state.\<close>

definition register_subscription :: "'h fox_env \<Rightarrow> channel_info \<Rightarrow> string list \<Rightarrow> 'h fox \<Rightarrow> nat \<times> string list \<times> 'h fox" where
  "register_subscription env ch errors st =
     (let sub_id = fx_next_id st;
          st1 = st\<lparr>fx_next_id := sub_id + 1, fx_subscriptions := om_put sub_id (ci_id ch) (fx_subscriptions st)\<rparr>
      in case bind_channel env ch sub_id st1 of
           (err, st2) \<Rightarrow> (sub_id, errors @ (case err of None \<Rightarrow> [] | Some e \<Rightarrow> [e]), st2))"

definition fox_available :: "'h fox_env \<Rightarrow> 'h fox \<Rightarrow> available_topic list" where
  "fox_available env st =
     map (\<lambda>(i, ch). (ci_topic ch, cr_parser_encoding (classify_channel ch), ci_schema_name ch,
                     resolve_schema_bytes ch (classify_channel ch)))
       (filter (\<lambda>(i, ch). fe_passes env (ci_topic ch) (map ci_topic (fx_selected st)) \<and> cr_supported (classify_channel ch))
         (fx_advertised st))"

definition fox_refresh :: "'h fox_env \<Rightarrow> 'h fox \<Rightarrow> string option \<times> 'h fox" where
  "fox_refresh env st = (let st1 = fox_act (FxNotify (fox_available env st)) st in (fe_notify env (fx_log st1), st1))"

definition fox_refresh_and_warn :: "'h fox_env \<Rightarrow> 'h fox \<Rightarrow> 'h fox" where
  "fox_refresh_and_warn env st =
     (case fox_refresh env st of
        (None, st1) \<Rightarrow> st1
      | (Some err, st1) \<Rightarrow> fox_act (FxReport ''warning'' (''Failed to advertise topics: '' @ err)) st1)"

subsection \<open>Reconciling\<close>

definition fox_wanted :: "'h fox_env \<Rightarrow> 'h fox \<Rightarrow> (64 word, string) omap \<times> string list" where
  "fox_wanted env st = (filtered_channels (fe_passes env) (fx_advertised st) (fx_selected st), fx_desired st)"

definition fox_unsubscribe :: "nat list \<Rightarrow> 'h fox \<Rightarrow> 'h fox" where
  "fox_unsubscribe ids st =
     (if ids = [] then st
      else (fox_act (FxSend (fox_unsubscribe_text ids)) st)
        \<lparr>fx_subscriptions := fold om_erase ids (fx_subscriptions st),
         fx_bindings := (\<lambda>i. if i \<in> set ids then None else fx_bindings st i)\<rparr>)"

text \<open>The loop over the channels to subscribe: what to send, the errors, the state.\<close>

fun subscribe_loop ::
  "'h fox_env \<Rightarrow> 64 word list \<Rightarrow> (nat \<times> 64 word) list \<Rightarrow> string list \<Rightarrow> 'h fox
   \<Rightarrow> (nat \<times> 64 word) list \<times> string list \<times> 'h fox" where
  "subscribe_loop env [] to_send errors st = (to_send, errors, st)"
| "subscribe_loop env (channel_id # channel_ids) to_send errors st =
     (case map_of (fx_advertised st) channel_id of
        None \<Rightarrow> subscribe_loop env channel_ids to_send errors st
      | Some ch \<Rightarrow>
          (case register_subscription env ch errors st of
             (sub_id, errors1, st1) \<Rightarrow> subscribe_loop env channel_ids (to_send @ [(sub_id, channel_id)]) errors1 st1))"

definition fox_subscribe :: "'h fox_env \<Rightarrow> 64 word list \<Rightarrow> 'h fox \<Rightarrow> 'h fox" where
  "fox_subscribe env channel_ids st =
     (if channel_ids = [] then st
      else (case subscribe_loop env channel_ids [] [] st of
              (to_send, errors, st1) \<Rightarrow>
                report_parser_errors errors
                  (if to_send = [] then st1 else fox_act (FxSend (fox_subscribe_text to_send)) st1)))"

definition fox_reconcile :: "'h fox_env \<Rightarrow> 'h fox \<Rightarrow> 'h fox" where
  "fox_reconcile env st =
     (case foxglove_diff (fx_subscriptions st) (fox_wanted env st) of
        (to_unsubscribe, to_subscribe) \<Rightarrow> fox_subscribe env to_subscribe (fox_unsubscribe to_unsubscribe st))"

definition fox_apply_desired :: "'h fox_env \<Rightarrow> 'h fox \<Rightarrow> 'h fox" where
  "fox_apply_desired env st =
     (case fx_slot st of
        None \<Rightarrow> st
      | Some desired \<Rightarrow> fox_reconcile env (st\<lparr>fx_slot := None, fx_desired := desired\<rparr>))"

definition unsupported_channel :: "channel_info \<Rightarrow> string" where
  "unsupported_channel ch = ci_topic ch @ '' ('' @ ci_schema_encoding ch @ ''): unsupported encoding''"

fun selected_loop :: "'h fox_env \<Rightarrow> channel_info list \<Rightarrow> string list \<Rightarrow> 'h fox \<Rightarrow> string list \<times> 'h fox" where
  "selected_loop env [] errors st = (errors, st)"
| "selected_loop env (ch # chs) errors st =
     (if \<not> cr_supported (classify_channel ch) then selected_loop env chs (errors @ [unsupported_channel ch]) st
      else (case register_subscription env ch errors (st\<lparr>fx_advertised := om_put (ci_id ch) ch (fx_advertised st)\<rparr>) of
              (sub_id, errors1, st1) \<Rightarrow>
                selected_loop env chs errors1 (fox_act (FxSend (fox_subscribe_text [(sub_id, ci_id ch)])) st1)))"

definition subscribe_to_selected :: "'h fox_env \<Rightarrow> 'h fox \<Rightarrow> 'h fox" where
  "subscribe_to_selected env st =
     (case selected_loop env (fx_selected st) [] st of (errors, st1) \<Rightarrow> report_parser_errors errors st1)"

subsection \<open>Text messages\<close>

text \<open>A channel of the server's message or, with other keys, of the saved configuration.\<close>

definition read_channel :: "'h fox_env \<Rightarrow> string \<Rightarrow> string \<Rightarrow> json \<Rightarrow> channel_info option" where
  "read_channel env name_key encoding_key j =
     (case (value_u64 (fe_cast_u64 env) ''id'' 0 j, value_string ''topic'' [] j, value_string ''encoding'' [] j,
            value_string name_key [] j, value_string ''schema'' [] j, value_string encoding_key [] j) of
        (Some i, Some topic, Some encoding, Some schema_name, Some schema, Some schema_encoding) \<Rightarrow>
          Some \<lparr>ci_id = i, ci_topic = topic, ci_encoding = encoding, ci_schema_name = schema_name,
                ci_schema = schema, ci_schema_encoding = schema_encoding\<rparr>
      | _ \<Rightarrow> None)"

text \<open>\<open>value(key, array())\<close>.\<close>

definition value_json :: "string \<Rightarrow> json \<Rightarrow> json" where
  "value_json key j = (case json_find key j of Some v \<Rightarrow> v | None \<Rightarrow> JArray [])"

text \<open>The loop over the advertised channels: whether it ended (or threw), the errors, the state.\<close>

fun advertise_loop :: "'h fox_env \<Rightarrow> json list \<Rightarrow> string list \<Rightarrow> 'h fox \<Rightarrow> bool \<times> string list \<times> 'h fox" where
  "advertise_loop env [] errors st = (True, errors, st)"
| "advertise_loop env (j # js) errors st =
     (case read_channel env ''schemaName'' ''schemaEncoding'' j of
        None \<Rightarrow> (False, errors, st)
      | Some ch \<Rightarrow>
          (let st1 = st\<lparr>fx_advertised := om_put (ci_id ch) ch (fx_advertised st)\<rparr> in
           if fx_demand st1 then advertise_loop env js errors st1
           else if ci_topic ch \<notin> set (map ci_topic (fx_selected st1)) then advertise_loop env js errors st1
           else if \<not> cr_supported (classify_channel ch) then advertise_loop env js (errors @ [unsupported_channel ch]) st1
           else (case register_subscription env ch errors st1 of
                   (sub_id, errors1, st2) \<Rightarrow>
                     advertise_loop env js errors1 (fox_act (FxSend (fox_subscribe_text [(sub_id, ci_id ch)])) st2))))"

definition on_advertise :: "'h fox_env \<Rightarrow> json \<Rightarrow> 'h fox \<Rightarrow> bool \<times> 'h fox" where
  "on_advertise env channels st =
     (case advertise_loop env (json_elements channels) [] st of
        (False, errors, st1) \<Rightarrow> (False, st1)
      | (True, errors, st1) \<Rightarrow>
          (let st2 = report_parser_errors errors st1 in
           (True, if fx_demand st2 \<and> json_elements channels \<noteq> [] then fox_refresh_and_warn env (fox_reconcile env st2) else st2)))"

definition remove_channel :: "64 word \<Rightarrow> 'h fox \<Rightarrow> 'h fox" where
  "remove_channel removed st =
     st\<lparr>fx_advertised := om_erase removed (fx_advertised st),
        fx_bindings := (\<lambda>i. if map_of (fx_subscriptions st) i = Some removed then None else fx_bindings st i),
        fx_subscriptions := filter (\<lambda>e. snd e \<noteq> removed) (fx_subscriptions st)\<rparr>"

fun unadvertise_loop :: "'h fox_env \<Rightarrow> json list \<Rightarrow> string list \<Rightarrow> 'h fox \<Rightarrow> bool \<times> string list \<times> 'h fox" where
  "unadvertise_loop env [] removed st = (True, removed, st)"
| "unadvertise_loop env (j # js) removed st =
     (case get_u64 (fe_cast_u64 env) j of
        None \<Rightarrow> (False, removed, st)
      | Some i \<Rightarrow>
          unadvertise_loop env js
            (removed @ (case map_of (fx_advertised st) i of Some ch \<Rightarrow> [ci_topic ch] | None \<Rightarrow> []))
            (remove_channel i st))"

definition on_unadvertise :: "'h fox_env \<Rightarrow> json \<Rightarrow> 'h fox \<Rightarrow> bool \<times> 'h fox" where
  "on_unadvertise env ids st =
     (case unadvertise_loop env (json_elements ids) [] st of
        (False, removed, st1) \<Rightarrow> (False, st1)
      | (True, removed, st1) \<Rightarrow>
          (True,
           if removed = [] then st1
           else let st2 = fox_act (FxReport ''warning'' (''Server removed '' @ nat_text (length removed) @ '' channel(s):'' @
                             concat (map (\<lambda>t. '' '' @ t) removed))) st1
                in if fx_demand st2 then fox_refresh_and_warn env st2 else st2))"

definition on_status :: "'h fox_env \<Rightarrow> json \<Rightarrow> 'h fox \<Rightarrow> bool \<times> 'h fox" where
  "on_status env j st =
     (case (value_int (fe_cast_int env) ''level'' 0 j, value_string ''message'' [] j) of
        (Some level, Some msg) \<Rightarrow>
          (True, fox_act (FxReport (if level \<ge> 2 then ''error'' else if level = 1 then ''warning'' else ''info'')
                            (''Foxglove server: '' @ msg)) st)
      | _ \<Rightarrow> (False, st))"

definition fox_on_text :: "'h fox_env \<Rightarrow> string \<Rightarrow> 'h fox \<Rightarrow> bool \<times> 'h fox" where
  "fox_on_text env msg st =
     (case fe_json env msg of
        None \<Rightarrow> (True, st)
      | Some j \<Rightarrow>
          if \<not> is_object j then (True, st)
          else (case value_string ''op'' [] j of
                  None \<Rightarrow> (False, st)
                | Some operation \<Rightarrow>
                    if operation = ''advertise'' then on_advertise env (value_json ''channels'' j) st
                    else if operation = ''unadvertise'' then on_unadvertise env (value_json ''channelIds'' j) st
                    else if operation = ''status'' then on_status env j st
                    else (True, st)))"

fun fox_run_texts :: "'h fox_env \<Rightarrow> string list \<Rightarrow> 'h fox \<Rightarrow> bool \<times> 'h fox" where
  "fox_run_texts env [] st = (True, st)"
| "fox_run_texts env (t # ts) st =
     (case fox_on_text env t st of (ok, st1) \<Rightarrow> if ok then fox_run_texts env ts st1 else (False, st1))"

subsection \<open>Poll\<close>

definition fox_reconnect :: "'h fox_env \<Rightarrow> 'h fox \<Rightarrow> 'h fox" where
  "fox_reconnect env st =
     (if fx_connected st \<or> \<not> fx_socket st then st
      else if fx_pending st
      then (case read_state env st of
              (s, st1) \<Rightarrow>
                if s = RsOpen
                then fox_act (FxReport ''info'' ''Reconnected to Foxglove bridge'')
                       (st1\<lparr>fx_connected := True, fx_pending := False, fx_tick := 0, fx_subscriptions := [],
                            fx_bindings := (\<lambda>i. None), fx_advertised := [], fx_next_id := 1\<rparr>)
                else (case read_state env st1 of
                        (s', st2) \<Rightarrow> if s' = RsClosed then st2\<lparr>fx_pending := False\<rparr> else st2))
      else if fx_tick st + 1 \<ge> 150
      then fox_act FxRestart (st\<lparr>fx_tick := 0, fx_pending := True\<rparr>)
      else st\<lparr>fx_tick := fx_tick st + 1\<rparr>)"

definition fox_push :: "'h fox_env \<Rightarrow> nat \<times> int \<times> bytes \<Rightarrow> 'h fox \<Rightarrow> 'h fox" where
  "fox_push env msg st =
     (case msg of (sub_id, ts, payload) \<Rightarrow>
        (case fx_bindings st sub_id of
           None \<Rightarrow> st
         | Some h \<Rightarrow>
             (let st1 = fox_act (FxPush h ts payload) st in
              case fe_push env (fx_log st1) of
                None \<Rightarrow> st1
              | Some err \<Rightarrow> fox_act (FxReport ''warning'' (''Failed to push message: '' @ err)) st1)))"

text \<open>False: an exception left the poll.\<close>

definition fox_on_poll :: "'h fox_env \<Rightarrow> 'h fox \<Rightarrow> bool \<times> 'h fox" where
  "fox_on_poll env st0 =
     (let st1 = fox_reconnect env st0 in
      case fox_run_texts env (fx_texts st1) (st1\<lparr>fx_texts := []\<rparr>) of
        (False, st2) \<Rightarrow> (False, st2)
      | (True, st2) \<Rightarrow>
          (let st3 = (if fx_demand st2 \<and> fx_connected st2 then fox_apply_desired env st2 else st2)
           in (True, fold (fox_push env) (fx_messages st3) (st3\<lparr>fx_messages := []\<rparr>))))"

subsection \<open>The socket's callback, start and stop\<close>

datatype fox_event = FxText string | FxBinary bytes | FxClose

definition fox_deliver :: "fox_event \<Rightarrow> 'h fox \<Rightarrow> 'h fox" where
  "fox_deliver event st =
     (case event of
        FxText s \<Rightarrow> st\<lparr>fx_texts := fx_texts st @ [s]\<rparr>
      | FxBinary bs \<Rightarrow>
          (case parse_fox_frame bs of
             None \<Rightarrow> st
           | Some f \<Rightarrow> st\<lparr>fx_messages := fx_messages st @ [(ff_subscription f, signed64 (ff_log_time f), ff_payload f)]\<rparr>)
      | FxClose \<Rightarrow>
          (if fx_connected st
           then fox_act (FxReport ''warning'' ''Foxglove bridge connection lost'') (st\<lparr>fx_connected := False\<rparr>)
           else st))"

fun read_channels :: "'h fox_env \<Rightarrow> json list \<Rightarrow> channel_info list \<Rightarrow> bool \<times> channel_info list" where
  "read_channels env [] acc = (True, acc)"
| "read_channels env (j # js) acc =
     (case read_channel env ''schema_name'' ''schema_encoding'' j of
        None \<Rightarrow> (False, acc)
      | Some ch \<Rightarrow> read_channels env js (if ci_topic ch = [] then acc else acc @ [ch]))"

datatype fox_result = FoxStarted | FoxFailed string | FoxThrew

definition fox_read_config :: "'h fox_env \<Rightarrow> json \<Rightarrow> 'h fox \<Rightarrow> bool \<times> 'h fox" where
  "fox_read_config env cfg st =
     (case value_string ''address'' ''localhost'' cfg of
        None \<Rightarrow> (False, st)
      | Some address \<Rightarrow>
     (case value_int (fe_cast_int env) ''port'' 8765 cfg of
        None \<Rightarrow> (False, st\<lparr>fx_address := address\<rparr>)
      | Some port \<Rightarrow>
          (let st1 = st\<lparr>fx_address := address, fx_port := port, fx_array_limit := fe_limit env cfg\<rparr> in
           case value_bool ''use_timestamp'' False cfg of
             None \<Rightarrow> (False, st1)
           | Some use \<Rightarrow>
               (case read_channels env (case json_array ''channels'' cfg of Some js \<Rightarrow> js | None \<Rightarrow> []) [] of
                  (ok, selected) \<Rightarrow> (ok, st1\<lparr>fx_use_timestamp := use, fx_selected := selected\<rparr>)))))"

definition no_channels_warning :: string where
  "no_channels_warning = ''No channels selected '' @ [CHR 0xE2, CHR 0x80, CHR 0x94] @ '' connected to a legacy PlotJuggler host, ''
     @ ''which cannot advertise topics on demand. Nothing will stream until the connection dialog is reopened and ''
     @ ''channels are selected.''"

text \<open>From the connected socket on.\<close>

definition fox_start_mode :: "'h fox_env \<Rightarrow> channel_info list \<Rightarrow> 'h fox \<Rightarrow> 'h fox" where
  "fox_start_mode env discovered st =
     (let st1 = st\<lparr>fx_advertised := fold (\<lambda>ch. om_put (ci_id ch) ch) discovered (fx_advertised st)\<rparr> in
      case fox_refresh env st1 of
        (answer, st2) \<Rightarrow>
          let st3 = st2\<lparr>fx_demand := (answer = None)\<rparr>;
              st4 = (if fx_demand st3 then st3
                     else subscribe_to_selected env
                            (if fx_selected st3 = [] then fox_act (FxReport ''warning'' no_channels_warning) st3 else st3))
          in st4\<lparr>fx_connected := True\<rparr>)"

definition fox_start_fresh :: "'h fox_env \<Rightarrow> fox_event list \<Rightarrow> channel_info list \<Rightarrow> 'h fox \<Rightarrow> fox_result \<times> 'h fox" where
  "fox_start_fresh env during discovered st =
     (let port = word_of_int (fx_port st);
          st1 = fox_act (FxConnect (fe_endpoint env (fx_address st) port)) (st\<lparr>fx_socket := True\<rparr>);
          st2 = fold fox_deliver during st1
      in case fe_wait env (fx_log st1) of
           (states, final) \<Rightarrow>
             if wait_for_open states final False
             then (FoxStarted, fox_start_mode env discovered st2)
             else (FoxFailed (''failed to connect to Foxglove bridge at '' @ fe_host_port env (fx_address st) port),
                   fox_act FxStopSocket st2))"

text \<open>\<open>handoff\<close>: the dialog has a socket.\<close>

definition fox_on_start ::
  "'h fox_env \<Rightarrow> json option \<Rightarrow> bool \<Rightarrow> channel_info list \<Rightarrow> fox_event list \<Rightarrow> 'h fox \<Rightarrow> fox_result \<times> 'h fox" where
  "fox_on_start env config handoff discovered during st0 =
     (case config of
        None \<Rightarrow> (FoxFailed ''invalid dialog config'', st0)
      | Some cfg \<Rightarrow>
          (case fox_read_config env cfg st0 of
             (False, st1) \<Rightarrow> (FoxThrew, st1)
           | (True, st1) \<Rightarrow>
               if \<not> handoff then fox_start_fresh env during discovered st1
               else (case read_state env (st1\<lparr>fx_socket := True\<rparr>) of
                       (s, st2) \<Rightarrow>
                         if s = RsOpen then (FoxStarted, fox_start_mode env discovered (fold fox_deliver during st2))
                         else fox_start_fresh env during discovered st2)))"

definition fox_on_stop :: "'h fox \<Rightarrow> 'h fox" where
  "fox_on_stop st =
     (if fx_socket st
      then (fox_act FxStopSocket
             (if fx_connected st \<and> fx_subscriptions st \<noteq> []
              then fox_act (FxSend (fox_unsubscribe_text (map fst (fx_subscriptions st)))) st else st))\<lparr>fx_socket := False\<rparr>
      else st)
       \<lparr>fx_connected := False, fx_selected := [], fx_subscriptions := [], fx_bindings := (\<lambda>i. None), fx_advertised := [],
        fx_next_id := 1, fx_demand := False, fx_desired := [], fx_slot := None\<rparr>"

definition fox_set_active :: "string list \<Rightarrow> 'h fox \<Rightarrow> 'h fox" where
  "fox_set_active names st = st\<lparr>fx_slot := Some names\<rparr>"

subsection \<open>The tables\<close>

text \<open>Subscriptions have fresh ids and advertised channels, bindings have subscriptions, in demand mode a
  channel has one subscription.\<close>

definition fox_tables :: "'h fox \<Rightarrow> bool" where
  "fox_tables st \<longleftrightarrow> om_ok (fx_subscriptions st) \<and> (\<forall>i \<in> fst ` set (fx_subscriptions st). i < fx_next_id st)
     \<and> dom (fx_bindings st) \<subseteq> fst ` set (fx_subscriptions st)
     \<and> om_ok (fx_advertised st) \<and> (\<forall>e \<in> set (fx_advertised st). ci_id (snd e) = fst e)
     \<and> snd ` set (fx_subscriptions st) \<subseteq> fst ` set (fx_advertised st)
     \<and> (fx_demand st \<longrightarrow> distinct (map snd (fx_subscriptions st)))"

definition fox_synced :: "'h fox_env \<Rightarrow> 'h fox \<Rightarrow> bool" where
  "fox_synced env st \<longleftrightarrow> (fx_demand st \<longrightarrow> snd ` set (fx_subscriptions st) = foxglove_goal (fox_wanted env st))"

fun restarts :: "'h fox_log \<Rightarrow> nat" where
  "restarts [] = 0"
| "restarts (FxRestart # l) = restarts l + 1"
| "restarts (a # l) = restarts l"

lemma restarts_append [simp]: "restarts (l @ m) = restarts l + restarts m"
  by (induction l rule: restarts.induct) auto

text \<open>What the handling of a text leaves alone.\<close>

definition fox_same :: "'h fox \<Rightarrow> 'h fox \<Rightarrow> bool" where
  "fox_same st st' \<longleftrightarrow> fx_selected st' = fx_selected st \<and> fx_socket st' = fx_socket st \<and> fx_connected st' = fx_connected st
     \<and> fx_messages st' = fx_messages st \<and> fx_texts st' = fx_texts st \<and> fx_tick st' = fx_tick st
     \<and> fx_pending st' = fx_pending st \<and> fx_demand st' = fx_demand st \<and> fx_desired st' = fx_desired st
     \<and> fx_slot st' = fx_slot st \<and> restarts (fx_log st') = restarts (fx_log st)"

lemma fox_same_refl [simp]: "fox_same st st"
  by (simp add: fox_same_def)

lemma fox_same_trans [trans]: "fox_same a b \<Longrightarrow> fox_same b c \<Longrightarrow> fox_same a c"
  by (simp add: fox_same_def)

lemma fox_act_simps [simp]:
  "fox_tables (fox_act a st) = fox_tables st" "restarts [a] = 0 \<Longrightarrow> fox_same st0 (fox_act a st) = fox_same st0 st"
  "restarts [a] = 0 \<Longrightarrow> fox_same (fox_act a st) st0 = fox_same st st0"
  "fox_wanted env (fox_act a st) = fox_wanted env st" "fox_synced env (fox_act a st) = fox_synced env st"
  "fx_subscriptions (fox_act a st) = fx_subscriptions st" "fx_bindings (fox_act a st) = fx_bindings st"
  "fx_advertised (fox_act a st) = fx_advertised st" "fx_next_id (fox_act a st) = fx_next_id st"
  "fx_demand (fox_act a st) = fx_demand st" "fx_selected (fox_act a st) = fx_selected st"
  "fx_desired (fox_act a st) = fx_desired st" "fx_connected (fox_act a st) = fx_connected st"
  "fx_socket (fox_act a st) = fx_socket st" "fx_messages (fox_act a st) = fx_messages st"
  "fx_texts (fox_act a st) = fx_texts st" "fx_tick (fox_act a st) = fx_tick st"
  "fx_pending (fox_act a st) = fx_pending st" "fx_slot (fox_act a st) = fx_slot st"
  by (simp_all add: fox_act_def fox_tables_def fox_same_def fox_wanted_def fox_synced_def)

lemma fox_same_upd [simp]:
  "fox_same st0 (st\<lparr>fx_subscriptions := x0\<rparr>) = fox_same st0 st" "fox_same st0 (st\<lparr>fx_bindings := x1\<rparr>) = fox_same st0 st"
  "fox_same st0 (st\<lparr>fx_advertised := x2\<rparr>) = fox_same st0 st" "fox_same st0 (st\<lparr>fx_next_id := x3\<rparr>) = fox_same st0 st"
  by (simp_all add: fox_same_def)

lemma report_parser_errors_simps [simp]:
  "fox_tables (report_parser_errors errors st) = fox_tables st" "fox_same st0 (report_parser_errors errors st) = fox_same st0 st"
  "fox_wanted env (report_parser_errors errors st) = fox_wanted env st"
  "fox_synced env (report_parser_errors errors st) = fox_synced env st"
  "fx_subscriptions (report_parser_errors errors st) = fx_subscriptions st"
  "fx_next_id (report_parser_errors errors st) = fx_next_id st" "fx_demand (report_parser_errors errors st) = fx_demand st"
  "fx_bindings (report_parser_errors errors st) = fx_bindings st" "fx_advertised (report_parser_errors errors st) = fx_advertised st"
  by (simp_all add: report_parser_errors_def)

lemma fox_refresh_simps [simp]:
  "fox_tables (fox_refresh_and_warn env st) = fox_tables st" "fox_same st0 (fox_refresh_and_warn env st) = fox_same st0 st"
  "fox_synced env0 (fox_refresh_and_warn env st) = fox_synced env0 st"
  by (simp_all add: fox_refresh_and_warn_def fox_refresh_def Let_def split: option.split)

text \<open>A registration: its id, its table entry, a binding for no other id.\<close>

lemma register_subscription_spec:
  assumes "register_subscription env ch errors st = (sub_id, errors1, st1)"
  shows "sub_id = fx_next_id st \<and> fx_next_id st1 = fx_next_id st + 1
    \<and> fx_subscriptions st1 = om_put (fx_next_id st) (ci_id ch) (fx_subscriptions st)
    \<and> dom (fx_bindings st1) \<subseteq> insert (fx_next_id st) (dom (fx_bindings st))
    \<and> fx_advertised st1 = fx_advertised st \<and> fox_same st st1"
  using assms
  by (auto simp: register_subscription_def bind_channel_def Let_def fox_act_def fox_same_def split: sum.splits if_splits prod.splits)

lemma register_tables:
  assumes "register_subscription env ch errors st = (sub_id, errors1, st1)" "fox_tables st"
    and "ci_id ch \<in> fst ` set (fx_advertised st)" "fx_demand st \<longrightarrow> ci_id ch \<notin> snd ` set (fx_subscriptions st)"
  shows "fox_tables st1 \<and> fx_subscriptions st1 = fx_subscriptions st @ [(fx_next_id st, ci_id ch)]"
proof -
  note r = register_subscription_spec [OF assms(1)]
  have p: "om_put (fx_next_id st) (ci_id ch) (fx_subscriptions st) = fx_subscriptions st @ [(fx_next_id st, ci_id ch)]"
    using assms(2) by (intro om_put_above) (simp add: fox_tables_def)
  have d: "fx_demand st1 = fx_demand st" using r by (simp add: fox_same_def)
  have b: "dom (fx_bindings st1) \<subseteq> fst ` set (fx_subscriptions st @ [(fx_next_id st, ci_id ch)])"
  proof -
    have "dom (fx_bindings st1) \<subseteq> insert (fx_next_id st) (dom (fx_bindings st))" using r by blast
    moreover have "dom (fx_bindings st) \<subseteq> fst ` set (fx_subscriptions st)" using assms(2) unfolding fox_tables_def by blast
    moreover have "fst ` set (fx_subscriptions st @ [(fx_next_id st, ci_id ch)]) = insert (fx_next_id st) (fst ` set (fx_subscriptions st))"
      by simp
    ultimately show ?thesis by blast
  qed
  have s: "fx_subscriptions st1 = fx_subscriptions st @ [(fx_next_id st, ci_id ch)]" "fx_next_id st1 = fx_next_id st + 1"
    "fx_advertised st1 = fx_advertised st" using r p by simp_all
  have "om_ok (fx_subscriptions st @ [(fx_next_id st, ci_id ch)])"
    "\<forall>i \<in> fst ` set (fx_subscriptions st @ [(fx_next_id st, ci_id ch)]). i < fx_next_id st + 1"
    using assms(2) by (auto simp: fox_tables_def sorted_wrt_append less_Suc_eq)
  moreover have "snd ` set (fx_subscriptions st @ [(fx_next_id st, ci_id ch)]) \<subseteq> fst ` set (fx_advertised st)"
    using assms(2,3) by (simp add: fox_tables_def)
  moreover have "fx_demand st \<longrightarrow> distinct (map snd (fx_subscriptions st @ [(fx_next_id st, ci_id ch)]))"
    using assms(2,4) by (simp add: fox_tables_def)
  ultimately show ?thesis using b assms(2) unfolding fox_tables_def s d by blast
qed

text \<open>The loops of the reconcile execute the pass of the locale.\<close>

lemma subscribe_loop_spec:
  assumes "subscribe_loop env cs to_send errors st = (to_send1, errors1, st1)" "fox_tables st"
    and "set cs \<subseteq> fst ` set (fx_advertised st)" "distinct cs" "fx_demand st" "set cs \<inter> snd ` set (fx_subscriptions st) = {}"
  shows "fox_tables st1 \<and> fox_same st st1 \<and> fx_advertised st1 = fx_advertised st
    \<and> (fx_subscriptions st1, fx_next_id st1) = add_subs cs (fx_subscriptions st, fx_next_id st)
    \<and> length to_send1 = length to_send + length cs"
  using assms
proof (induction env cs to_send errors st arbitrary: to_send1 errors1 st1 rule: subscribe_loop.induct)
  case (2 env c cs to_send errors st)
  have "om_ok (fx_advertised st)" and k: "\<forall>e \<in> set (fx_advertised st). ci_id (snd e) = fst e"
    using 2(4) by (simp_all add: fox_tables_def)
  with 2(5) obtain ch where ch: "map_of (fx_advertised st) c = Some ch"
    by (metis insert_subset list.simps(15) map_of_eq_None_iff option.exhaust set_map)
  with k have i: "ci_id ch = c" by (fastforce dest: map_of_SomeD)
  obtain sub_id e2 st2 where r: "register_subscription env ch errors st = (sub_id, e2, st2)" by (metis prod_cases3)
  note spec = register_subscription_spec [OF r]
  have t: "fox_tables st2" "fx_subscriptions st2 = fx_subscriptions st @ [(fx_next_id st, c)]"
    using register_tables [OF r 2(4)] 2(5,8) i by auto
  have "fx_demand st2" using spec 2(7) by (simp add: fox_same_def)
  then have "fox_tables st1 \<and> fox_same st2 st1 \<and> fx_advertised st1 = fx_advertised st2
      \<and> (fx_subscriptions st1, fx_next_id st1) = add_subs cs (fx_subscriptions st2, fx_next_id st2)
      \<and> length to_send1 = length (to_send @ [(sub_id, c)]) + length cs"
    using 2(3-) ch r t spec by (intro 2(2) [OF ch r [symmetric] refl]) auto
  then show ?case using spec i fox_same_trans [of st st2 st1] by (auto simp: add_subs_def add_sub_def)
qed (simp_all add: add_subs_def)

lemma fox_unsubscribe_spec:
  "fx_advertised (fox_unsubscribe ids st) = fx_advertised st \<and> fox_same st (fox_unsubscribe ids st)
    \<and> (fx_subscriptions (fox_unsubscribe ids st), fx_next_id (fox_unsubscribe ids st)) = drop_subs ids (fx_subscriptions st, fx_next_id st)
    \<and> (fox_tables st \<longrightarrow> fox_tables (fox_unsubscribe ids st))"
proof -
  have "fox_tables (fox_unsubscribe ids st)" if t: "fox_tables st"
  proof -
    let ?s = "fox_unsubscribe ids st"
    have s: "fx_subscriptions ?s = filter (\<lambda>e. fst e \<notin> set ids) (fx_subscriptions st)" "fx_next_id ?s = fx_next_id st"
      "fx_advertised ?s = fx_advertised st" "fx_demand ?s = fx_demand st"
      by (simp_all add: fox_unsubscribe_def fold_om_erase)
    have "dom (fx_bindings ?s) \<subseteq> dom (fx_bindings st) - set ids" by (auto simp: fox_unsubscribe_def split: if_splits)
    with t have "dom (fx_bindings ?s) \<subseteq> fst ` set (filter (\<lambda>e. fst e \<notin> set ids) (fx_subscriptions st))"
      unfolding fox_tables_def by force
    moreover have "om_ok (filter (\<lambda>e. fst e \<notin> set ids) (fx_subscriptions st))"
      using t by (simp add: fox_tables_def sorted_wrt_filter sorted_wrt_map)
    ultimately show ?thesis using t unfolding fox_tables_def s by (auto simp: distinct_map_filter)
  qed
  then show ?thesis by (simp add: fox_unsubscribe_def drop_subs_def)
qed

lemma wanted_same: "fox_same st st' \<Longrightarrow> fx_advertised st' = fx_advertised st \<Longrightarrow> fox_wanted env st' = fox_wanted env st"
  by (simp add: fox_same_def fox_wanted_def)

lemma filtered_ok: "om_ok m \<Longrightarrow> om_ok (filtered_channels passes m selection)"
proof -
  have "map fst (filtered_channels passes m selection) =
    map fst (filter (\<lambda>(channel_id, ch). cr_supported (classify_channel ch) \<and> passes (ci_topic ch) (map ci_topic selection)) m)"
    by (simp add: filtered_channels_def comp_def case_prod_beta)
  then show "om_ok m \<Longrightarrow> ?thesis" by (simp only: sorted_wrt_map) (simp add: sorted_wrt_map sorted_wrt_filter)
qed

text \<open>One reconcile in demand mode: the live channels are exactly the wanted ones.\<close>

lemma foxglove_goal_advertised: "om_ok (fx_advertised st) \<Longrightarrow> foxglove_goal (fox_wanted env st) \<subseteq> fst ` set (fx_advertised st)"
  by (auto simp: foxglove_goal_def fox_wanted_def filtered_channels_def dest!: map_of_SomeD) force

lemma fox_reconcile_spec:
  assumes "fox_tables st" "fx_demand st"
  shows "fox_tables (fox_reconcile env st) \<and> fox_same st (fox_reconcile env st) \<and> fox_synced env (fox_reconcile env st)
    \<and> fx_advertised (fox_reconcile env st) = fx_advertised st
    \<and> (fx_subscriptions (fox_reconcile env st), fx_next_id (fox_reconcile env st))
        = foxglove_pass (fox_wanted env st) (fx_subscriptions st, fx_next_id st)"
proof -
  let ?w = "fox_wanted env st"
  obtain un sub where d: "foxglove_diff (fx_subscriptions st) ?w = (un, sub)" by (cases "foxglove_diff (fx_subscriptions st) ?w")
  let ?s1 = "fox_unsubscribe un st"
  let ?s2 = "fox_subscribe env sub ?s1"
  have ok: "foxglove_ok (fx_subscriptions st, fx_next_id st)" using assms by (simp add: foxglove_ok_def fox_tables_def)
  have adv: "om_ok (fx_advertised st)" using assms(1) by (simp add: fox_tables_def)
  then have wok: "om_ok (fst ?w)" by (simp add: fox_wanted_def filtered_ok)
  note u = fox_unsubscribe_spec [of un st]
  have live1: "snd ` set (fx_subscriptions ?s1) = snd ` set (fx_subscriptions st) - (\<lambda>i. the (map_of (fx_subscriptions st) i)) ` set un"
    using fox.drop_live [OF ok wok] u d by (simp add: prod_eq_iff)
  have goal: "set sub = foxglove_goal ?w - snd ` set (fx_subscriptions st)"
    using fox.added_keys [OF ok wok] d by simp
  have dis: "distinct sub"
  proof -
    have "sub = snd (foxglove_diff (fx_subscriptions st) ?w)" using d by simp
    also have "distinct \<dots>"
      using om_ok_distinct [OF wok] unfolding foxglove_diff_def case_prod_beta snd_conv by (rule distinct_map_filter)
    finally show ?thesis .
  qed
  have new: "set sub \<subseteq> fst ` set (fx_advertised ?s1)" "set sub \<inter> snd ` set (fx_subscriptions ?s1) = {}"
    using goal live1 foxglove_goal_advertised [OF adv, of env] u by auto
  have dem: "fx_demand ?s1" using u assms(2) by (simp add: fox_same_def)
  have sub: "fox_tables ?s2 \<and> fox_same ?s1 ?s2 \<and> fx_advertised ?s2 = fx_advertised ?s1
      \<and> (fx_subscriptions ?s2, fx_next_id ?s2) = add_subs sub (fx_subscriptions ?s1, fx_next_id ?s1)"
  proof (cases "sub = []")
    case True
    with u assms(1) show ?thesis by (simp add: fox_subscribe_def add_subs_def)
  next
    case False
    obtain a b c where l: "subscribe_loop env sub [] [] ?s1 = (a, b, c)" by (metis prod_cases3)
    have t: "fox_tables ?s1" using u assms(1) by blast
    from subscribe_loop_spec [OF l t new(1) dis dem new(2)] l False show ?thesis
      by (simp add: fox_subscribe_def)
  qed
  have r: "fox_reconcile env st = ?s2" by (simp add: fox_reconcile_def d)
  have p: "(fx_subscriptions ?s2, fx_next_id ?s2) = foxglove_pass ?w (fx_subscriptions st, fx_next_id st)"
    using sub u d by (simp add: foxglove_pass_def)
  have same: "fox_same st ?s2" using fox_same_trans [of st ?s1 ?s2] u sub by blast
  moreover have a: "fx_advertised ?s2 = fx_advertised st" using sub u by simp
  moreover have "fox_synced env ?s2"
  proof -
    have "snd ` set (fx_subscriptions ?s2) = foxglove_goal ?w"
      using fox.reconcile_live [OF ok wok] p by (metis fst_conv passes_reconcile(2))
    then show ?thesis by (simp add: fox_synced_def wanted_same [OF same a])
  qed
  ultimately show ?thesis using sub p unfolding r by blast
qed

text \<open>Reading texts.\<close>

definition fox_good :: "'h fox_env \<Rightarrow> bool \<Rightarrow> 'h fox \<Rightarrow> bool" where
  "fox_good env calm st \<longleftrightarrow> fox_tables st \<and> (calm \<longrightarrow> fox_synced env st)"

lemma tables_put:
  assumes "fox_tables st"
  shows "fox_tables (st\<lparr>fx_advertised := om_put (ci_id ch) ch (fx_advertised st)\<rparr>)"
proof -
  let ?m = "om_put (ci_id ch) ch (fx_advertised st)"
  have o: "om_ok (fx_advertised st)" and k: "\<forall>e \<in> set (fx_advertised st). ci_id (snd e) = fst e"
    using assms by (simp_all add: fox_tables_def)
  have o': "om_ok ?m" using o by (rule om_put_ok)
  have "ci_id (snd e) = fst e" if "e \<in> set ?m" for e
  proof -
    have "map_of ?m (fst e) = Some (snd e)" using that o' by (simp add: om_ok_distinct)
    then show ?thesis using k map_of_SomeD [of "fx_advertised st" "fst e" "snd e"]
      by (auto simp: map_of_om_put [OF o] split: if_splits)
  qed
  then show ?thesis using assms o' unfolding fox_tables_def by (auto simp: om_put_keys)
qed

lemma advertise_loop_spec:
  assumes "advertise_loop env js errors st = (ok, errors1, st1)" "fox_tables st"
  shows "fox_tables st1 \<and> fox_same st st1 \<and> (fx_demand st \<longrightarrow> fx_subscriptions st1 = fx_subscriptions st)
    \<and> (js = [] \<longrightarrow> st1 = st)"
  using assms
proof (induction js arbitrary: errors st)
  case (Cons j js)
  show ?case
  proof (cases "read_channel env ''schemaName'' ''schemaEncoding'' j")
    case None
    with Cons.prems show ?thesis by simp
  next
    case (Some ch)
    let ?s = "st\<lparr>fx_advertised := om_put (ci_id ch) ch (fx_advertised st)\<rparr>"
    have t: "fox_tables ?s" using Cons.prems(2) by (rule tables_put)
    show ?thesis
    proof (cases "\<not> fx_demand ?s \<and> ci_topic ch \<in> set (map ci_topic (fx_selected ?s)) \<and> cr_supported (classify_channel ch)")
      case True
      obtain i e2 s2 where r: "register_subscription env ch errors ?s = (i, e2, s2)" by (metis prod_cases3)
      have "fox_tables s2" using register_tables [OF r t] True by (simp add: om_put_keys)
      moreover have "fox_same st s2" using register_subscription_spec [OF r] by (simp add: fox_same_def)
      moreover from this True have "\<not> fx_demand s2" "\<not> fx_demand st" by (simp_all add: fox_same_def)
      ultimately show ?thesis
        using Cons.IH [of e2 "fox_act (FxSend (fox_subscribe_text [(i, ci_id ch)])) s2"] Cons.prems(1) True Some r
          fox_same_trans [of st s2 st1]
        by auto
    next
      case False
      have "\<exists>errs. advertise_loop env js errs ?s = (ok, errors1, st1)"
        using Cons.prems(1) False Some by (auto simp: Let_def split: if_splits)
      then obtain errs where "advertise_loop env js errs ?s = (ok, errors1, st1)" ..
      from Cons.IH [OF this t] show ?thesis by (simp add: fox_same_def)
    qed
  qed
qed simp

lemma on_advertise_good:
  assumes "fox_good env calm st" "on_advertise env channels st = (ok, st1)" "calm \<longrightarrow> ok"
  shows "fox_good env calm st1 \<and> fox_same st st1"
proof -
  obtain ok0 errs s1 where l: "advertise_loop env (json_elements channels) [] st = (ok0, errs, s1)" by (metis prod_cases3)
  have t: "fox_tables st" using assms(1) by (simp add: fox_good_def)
  note a = advertise_loop_spec [OF l t]
  have d: "fx_demand s1 = fx_demand st" using a by (simp add: fox_same_def)
  show ?thesis
  proof (cases "ok0 \<and> fx_demand st \<and> json_elements channels \<noteq> []")
    case True
    let ?r = "report_parser_errors errs s1"
    have "fox_tables ?r" "fx_demand ?r" using a d True by simp_all
    note r = fox_reconcile_spec [OF this, of env]
    have "st1 = fox_refresh_and_warn env (fox_reconcile env ?r)" using assms(2) l True d by (simp add: on_advertise_def Let_def)
    moreover have "fox_same st ?r" using a by simp
    ultimately show ?thesis using r fox_same_trans [of st ?r "fox_reconcile env ?r"] by (simp add: fox_good_def)
  next
    case False
    have e: "st1 = (if ok0 then report_parser_errors errs s1 else s1) \<and> ok = ok0"
      using assms(2) l False d by (auto simp: on_advertise_def Let_def)
    have "fox_synced env st1" if c: calm
    proof (cases "fx_demand st")
      case True
      with False c assms(3) e have "json_elements channels = []" by blast
      with a l e assms(1) c show ?thesis by (simp add: fox_good_def)
    qed (use e d in \<open>simp add: fox_synced_def\<close>)
    with a e show ?thesis by (simp add: fox_good_def)
  qed
qed

lemma remove_channel_good:
  assumes "fox_good env calm st"
  shows "fox_good env calm (remove_channel i st) \<and> fox_same st (remove_channel i st)"
proof -
  have t: "fox_tables st" using assms by (simp add: fox_good_def)
  let ?s = "remove_channel i st"
  have m: "map_of (fx_subscriptions st) k = Some c \<longleftrightarrow> (k, c) \<in> set (fx_subscriptions st)" for k c
    using t by (simp add: fox_tables_def om_ok_distinct)
  have o: "om_ok (filter (\<lambda>e. snd e \<noteq> i) (fx_subscriptions st))" "om_ok (om_erase i (fx_advertised st))"
    using t by (simp_all add: fox_tables_def sorted_wrt_filter sorted_wrt_map om_erase_def)
  have b: "dom (fx_bindings ?s) \<subseteq> fst ` set (filter (\<lambda>e. snd e \<noteq> i) (fx_subscriptions st))"
  proof
    fix k assume "k \<in> dom (fx_bindings ?s)"
    then have k: "k \<in> dom (fx_bindings st)" "(k, i) \<notin> set (fx_subscriptions st)"
      using m [of k i] by (auto simp: remove_channel_def split: if_splits)
    have "dom (fx_bindings st) \<subseteq> fst ` set (fx_subscriptions st)" using t unfolding fox_tables_def by blast
    with k(1) obtain c where "(k, c) \<in> set (fx_subscriptions st)" by force
    with k(2) show "k \<in> fst ` set (filter (\<lambda>e. snd e \<noteq> i) (fx_subscriptions st))" by force
  qed
  have s: "fx_subscriptions ?s = filter (\<lambda>e. snd e \<noteq> i) (fx_subscriptions st)" "fx_advertised ?s = om_erase i (fx_advertised st)"
    "fx_next_id ?s = fx_next_id st" "fx_demand ?s = fx_demand st" "fx_selected ?s = fx_selected st" "fx_desired ?s = fx_desired st"
    by (simp_all add: remove_channel_def)
  have "fox_tables ?s"
    using t o b unfolding fox_tables_def s by (auto simp: distinct_map_filter om_erase_def)
  moreover have "fox_synced env ?s" if "fox_synced env st"
  proof -
    have "fst (fox_wanted env ?s) = om_erase i (fst (fox_wanted env st))" "snd (fox_wanted env ?s) = snd (fox_wanted env st)"
      unfolding fox_wanted_def s filtered_channels_def
      by (simp_all add: om_erase_def filter_map comp_def case_prod_beta conj_commute)
    then have "foxglove_goal (fox_wanted env ?s) = foxglove_goal (fox_wanted env st) - {i}"
      by (auto simp: foxglove_goal_def map_of_om_erase)
    then show ?thesis using that unfolding fox_synced_def s by auto
  qed
  ultimately show ?thesis using assms by (simp add: fox_good_def fox_same_def remove_channel_def)
qed

lemma unadvertise_loop_good:
  assumes "fox_good env calm st" "unadvertise_loop env js removed st = (ok, removed1, st1)"
  shows "fox_good env calm st1 \<and> fox_same st st1"
  using assms
proof (induction js arbitrary: removed st)
  case (Cons j js)
  show ?case
  proof (cases "get_u64 (fe_cast_u64 env) j")
    case None
    with Cons.prems show ?thesis by simp
  next
    case (Some i)
    note r = remove_channel_good [OF Cons.prems(1), of i]
    with Cons.IH [OF conjunct1 [OF r]] Cons.prems(2) Some fox_same_trans [of st "remove_channel i st" st1]
    show ?thesis by auto
  qed
qed simp

lemma on_unadvertise_good:
  assumes "fox_good env calm st" "on_unadvertise env ids st = (ok, st1)"
  shows "fox_good env calm st1 \<and> fox_same st st1"
proof -
  obtain ok0 removed s1 where l: "unadvertise_loop env (json_elements ids) [] st = (ok0, removed, s1)" by (metis prod_cases3)
  from unadvertise_loop_good [OF assms(1) l] assms(2) l show ?thesis
    by (auto simp: on_unadvertise_def fox_good_def Let_def split: bool.splits if_splits)
qed

lemma fox_on_text_good:
  assumes "fox_good env calm st" "fox_on_text env msg st = (ok, st1)" "calm \<longrightarrow> ok"
  shows "fox_good env calm st1 \<and> fox_same st st1"
proof (cases "fe_json env msg")
  case (Some j)
  show ?thesis
  proof (cases "is_object j")
    case True
    show ?thesis
    proof (cases "value_string ''op'' [] j")
      case op: (Some x)
      consider "x = ''advertise''" | "x = ''unadvertise''" | "x = ''status''" | "x \<notin> {''advertise'', ''unadvertise'', ''status''}" by blast
      then show ?thesis
      proof cases
        case 1
        with on_advertise_good [OF assms(1) _ assms(3), of "value_json ''channels'' j" st1] assms(2) Some True op show ?thesis
          by (simp add: fox_on_text_def)
      next
        case 2
        with on_unadvertise_good [OF assms(1), of "value_json ''channelIds'' j" ok st1] assms(2) Some True op show ?thesis
          by (simp add: fox_on_text_def)
      next
        case 3
        with assms(1,2) Some True op show ?thesis
          by (auto simp: fox_on_text_def on_status_def fox_good_def split: option.splits)
      qed (use assms Some True op in \<open>simp add: fox_on_text_def\<close>)
    qed (use assms Some True in \<open>simp add: fox_on_text_def\<close>)
  qed (use assms Some in \<open>simp add: fox_on_text_def\<close>)
qed (use assms in \<open>simp add: fox_on_text_def\<close>)

lemma fox_run_texts_good:
  assumes "fox_good env calm st" "fox_run_texts env ts st = (ok, st1)" "calm \<longrightarrow> ok"
  shows "fox_good env calm st1 \<and> fox_same st st1"
  using assms
proof (induction ts arbitrary: st)
  case (Cons t ts)
  obtain ok0 s1 where t: "fox_on_text env t st = (ok0, s1)" by (cases "fox_on_text env t st")
  have c: "calm \<longrightarrow> ok0" using Cons.prems(2,3) t by (cases ok0) auto
  note g = fox_on_text_good [OF Cons.prems(1) t c]
  show ?case
  proof (cases ok0)
    case True
    with Cons.IH [OF conjunct1 [OF g]] Cons.prems(2,3) t g fox_same_trans [of st s1 st1] show ?thesis by auto
  next
    case False
    with Cons.prems t g show ?thesis by auto
  qed
qed simp

subsection \<open>Sessions\<close>

text \<open>The state between the host's calls: \<open>calm\<close> when no poll threw.\<close>

definition fox_inv :: "'h fox_env \<Rightarrow> bool \<Rightarrow> 'h fox \<Rightarrow> bool" where
  "fox_inv env calm st \<longleftrightarrow> fox_good env calm st \<and> fx_tick st < 150
     \<and> (\<not> fx_socket st \<longrightarrow> fx_subscriptions st = [] \<and> fx_advertised st = [] \<and> fx_bindings st = (\<lambda>i. None)
          \<and> \<not> fx_demand st \<and> \<not> fx_connected st \<and> fx_desired st = [])"

lemma fox_good_upd [simp]:
  "fox_good env calm (st\<lparr>fx_texts := x0\<rparr>) = fox_good env calm st" "fox_good env calm (st\<lparr>fx_messages := x1\<rparr>) = fox_good env calm st"
  "fox_good env calm (st\<lparr>fx_connected := x2\<rparr>) = fox_good env calm st" "fox_good env calm (st\<lparr>fx_tick := x3\<rparr>) = fox_good env calm st"
  "fox_good env calm (st\<lparr>fx_pending := x4\<rparr>) = fox_good env calm st" "fox_good env calm (st\<lparr>fx_slot := x5\<rparr>) = fox_good env calm st"
  "fox_good env calm (fox_act a st) = fox_good env calm st" "fox_good env calm (st\<lparr>fx_socket := x6\<rparr>) = fox_good env calm st"
  by (simp_all add: fox_good_def fox_tables_def fox_synced_def fox_wanted_def fox_act_def)

lemma fox_push_same: "fox_same st (fox_push env m st) \<and> fox_tables (fox_push env m st) = fox_tables st
    \<and> fox_synced env (fox_push env m st) = fox_synced env st"
  by (cases m) (simp add: fox_push_def Let_def split: option.split)

lemma fox_pushes_same: "fox_same st (fold (fox_push env) ms st) \<and> fox_tables (fold (fox_push env) ms st) = fox_tables st
    \<and> fox_synced env (fold (fox_push env) ms st) = fox_synced env st"
proof (induction ms arbitrary: st)
  case (Cons m ms)
  with fox_push_same [of st env m] fox_same_trans [of st "fox_push env m st" "fold (fox_push env) ms (fox_push env m st)"]
  show ?case by simp
qed simp

lemma messages_upd [simp]: "fox_tables (st\<lparr>fx_messages := x0\<rparr>) = fox_tables st" "fox_synced env (st\<lparr>fx_messages := x0\<rparr>) = fox_synced env st"
  by (simp_all add: fox_tables_def fox_synced_def fox_wanted_def)

lemma fox_apply_desired_good:
  assumes "fox_good env calm st" "fx_demand st"
  shows "fox_good env calm (fox_apply_desired env st) \<and> fx_slot (fox_apply_desired env st) = None
    \<and> (fx_slot st \<noteq> None \<longrightarrow> fox_synced env (fox_apply_desired env st))
    \<and> fx_socket (fox_apply_desired env st) = fx_socket st \<and> fx_tick (fox_apply_desired env st) = fx_tick st
    \<and> fx_connected (fox_apply_desired env st) = fx_connected st \<and> fx_demand (fox_apply_desired env st)
    \<and> fx_messages (fox_apply_desired env st) = fx_messages st"
proof (cases "fx_slot st")
  case None
  with assms show ?thesis by (simp add: fox_apply_desired_def)
next
  case (Some d)
  let ?s = "st\<lparr>fx_slot := None, fx_desired := d\<rparr>"
  have "fox_tables ?s" "fx_demand ?s" using assms by (simp_all add: fox_good_def fox_tables_def)
  from fox_reconcile_spec [OF this, of env] assms(2) show ?thesis
    by (simp add: fox_apply_desired_def Some fox_good_def fox_same_def)
qed

lemma reset_good: "fox_good env calm (st\<lparr>fx_connected := x0, fx_pending := x1, fx_tick := x2, fx_subscriptions := [],
      fx_bindings := (\<lambda>i. None), fx_advertised := [], fx_next_id := Suc 0\<rparr>)"
  by (simp add: fox_good_def fox_tables_def fox_synced_def fox_wanted_def filtered_channels_def foxglove_goal_def)

lemma fox_reconnect_good: "fox_good env calm st \<Longrightarrow> fox_good env calm (fox_reconnect env st)"
  by (simp add: fox_reconnect_def read_state_def Let_def reset_good)

lemma fox_reconnect_fields [simp]:
  "fx_socket (fox_reconnect env st) = fx_socket st" "fx_demand (fox_reconnect env st) = fx_demand st"
  "fx_slot (fox_reconnect env st) = fx_slot st" "fx_messages (fox_reconnect env st) = fx_messages st"
  "fx_texts (fox_reconnect env st) = fx_texts st" "fx_tick st < 150 \<Longrightarrow> fx_tick (fox_reconnect env st) < 150"
  by (simp_all add: fox_reconnect_def read_state_def Let_def)

text \<open>A poll on a started source.\<close>

lemma fox_on_poll_good:
  assumes "fox_inv env calm st" "fx_socket st" "fox_on_poll env st = (ok, st1)" "calm \<longrightarrow> ok"
  shows "fox_inv env calm st1 \<and> fx_socket st1
    \<and> (ok \<and> fx_demand st1 \<and> fx_connected st1 \<longrightarrow> fx_slot st1 = None \<and> (fx_slot st \<noteq> None \<longrightarrow> fox_synced env st1))"
proof -
  let ?r = "fox_reconnect env st"
  have g: "fox_good env calm (?r\<lparr>fx_texts := []\<rparr>)" using assms(1) fox_reconnect_good [of env calm st] by (simp add: fox_inv_def)
  have tick: "fx_tick ?r < 150" using assms(1) by (simp add: fox_inv_def)
  obtain ok0 s2 where t: "fox_run_texts env (fx_texts ?r) (?r\<lparr>fx_texts := []\<rparr>) = (ok0, s2)"
    by (cases "fox_run_texts env (fx_texts ?r) (?r\<lparr>fx_texts := []\<rparr>)")
  have ok: "ok0 = ok" using assms(3) t by (cases ok0) (auto simp: fox_on_poll_def Let_def)
  with fox_run_texts_good [OF g t] assms(4) have s2: "fox_good env calm s2" "fox_same (?r\<lparr>fx_texts := []\<rparr>) s2" by auto
  have f2: "fx_socket s2" "fx_tick s2 < 150" "fx_slot s2 = fx_slot st"
    using s2(2) assms(2) tick by (simp_all add: fox_same_def)
  show ?thesis
  proof (cases ok)
    case False
    then show ?thesis using assms(3) t ok s2(1) f2 by (simp add: fox_on_poll_def fox_inv_def)
  next
    case True
    define s3 where "s3 = (if fx_demand s2 \<and> fx_connected s2 then fox_apply_desired env s2 else s2)"
    have s3: "fox_good env calm s3 \<and> fx_socket s3 \<and> fx_tick s3 < 150
      \<and> (fx_demand s3 \<and> fx_connected s3 \<longrightarrow> fx_slot s3 = None \<and> (fx_slot st \<noteq> None \<longrightarrow> fox_synced env s3))"
      using fox_apply_desired_good [OF s2(1)] s2(1) f2 by (auto simp: s3_def)
    let ?s4 = "fold (fox_push env) (fx_messages s3) (s3\<lparr>fx_messages := []\<rparr>)"
    have st1: "st1 = ?s4" using assms(3) t ok True by (simp add: fox_on_poll_def Let_def s3_def)
    note p = fox_pushes_same [of "s3\<lparr>fx_messages := []\<rparr>" env "fx_messages s3"]
    with s3 show ?thesis
      unfolding st1 fox_inv_def fox_good_def by (simp add: fox_same_def)
  qed
qed

lemma selected_loop_spec:
  assumes "selected_loop env chs errors st = (errors1, st1)" "fox_tables st" "\<not> fx_demand st"
  shows "fox_tables st1 \<and> fox_same st st1"
  using assms
proof (induction chs arbitrary: errors st)
  case (Cons ch chs)
  show ?case
  proof (cases "cr_supported (classify_channel ch)")
    case False
    with Cons show ?thesis by simp
  next
    case True
    let ?s = "st\<lparr>fx_advertised := om_put (ci_id ch) ch (fx_advertised st)\<rparr>"
    obtain i e2 s2 where r: "register_subscription env ch errors ?s = (i, e2, s2)" by (metis prod_cases3)
    have t: "fox_tables s2" using register_tables [OF r tables_put [OF Cons.prems(2)]] Cons.prems(3) by (simp add: om_put_keys)
    have s: "fox_same st s2" using register_subscription_spec [OF r] by (simp add: fox_same_def)
    with Cons.prems(3) have "\<not> fx_demand s2" by (simp add: fox_same_def)
    with Cons.IH [of e2 "fox_act (FxSend (fox_subscribe_text [(i, ci_id ch)])) s2"] Cons.prems(1) r t True fox_same_trans [OF s, of st1]
    show ?thesis by simp
  qed
qed simp

text \<open>A source that has a socket and nothing else of a session.\<close>

definition fox_fresh :: "'h fox \<Rightarrow> bool" where
  "fox_fresh st \<longleftrightarrow> fx_subscriptions st = [] \<and> fx_advertised st = [] \<and> fx_bindings st = (\<lambda>i. None) \<and> \<not> fx_demand st
     \<and> \<not> fx_connected st \<and> fx_desired st = [] \<and> fx_tick st < 150"

lemma fresh_act [simp]: "fox_fresh (fox_act a st) = fox_fresh st"
  by (simp add: fox_fresh_def)

lemma fresh_socket [simp]: "fox_fresh (st\<lparr>fx_socket := b\<rparr>) = fox_fresh st"
  by (simp add: fox_fresh_def)

lemma fresh_deliver: "fox_fresh st \<Longrightarrow> fox_fresh (fox_deliver e st) \<and> fx_socket (fox_deliver e st) = fx_socket st"
  by (cases e) (simp_all add: fox_deliver_def fox_fresh_def split: option.split)

lemma fresh_delivers: "fox_fresh st \<Longrightarrow> fox_fresh (fold fox_deliver es st) \<and> fx_socket (fold fox_deliver es st) = fx_socket st"
  by (induction es arbitrary: st) (simp_all add: fresh_deliver)

lemma fresh_inv: "fox_fresh st \<Longrightarrow> fox_inv env calm st"
  by (simp add: fox_fresh_def fox_inv_def fox_good_def fox_tables_def fox_synced_def)

lemma fox_start_mode_inv:
  assumes "fox_fresh st" "fx_socket st"
  shows "fox_inv env calm (fox_start_mode env discovered st)"
proof -
  let ?m = "fold (\<lambda>ch. om_put (ci_id ch) ch) discovered (fx_advertised st)"
  let ?s1 = "st\<lparr>fx_advertised := ?m\<rparr>"
  have put: "fox_tables s \<Longrightarrow> fox_tables (s\<lparr>fx_advertised := fold (\<lambda>ch. om_put (ci_id ch) ch) chs (fx_advertised s)\<rparr>)" for chs and s :: "'a fox"
  proof (induction chs arbitrary: s)
    case (Cons ch chs)
    from Cons.IH [OF tables_put [OF Cons.prems, of ch]] show ?case by simp
  qed simp
  have "fox_tables st" using fresh_inv [OF assms(1), of env calm] by (simp add: fox_inv_def fox_good_def)
  then have t1: "fox_tables ?s1" by (rule put)
  obtain ans s2 where r: "fox_refresh env ?s1 = (ans, s2)" by (cases "fox_refresh env ?s1")
  then have s2: "s2 = fox_act (FxNotify (fox_available env ?s1)) ?s1" by (simp add: fox_refresh_def Let_def)
  let ?s3 = "s2\<lparr>fx_demand := (ans = None)\<rparr>"
  have sub: "fx_subscriptions ?s3 = []" "fx_socket ?s3" "fx_desired ?s3 = []" "fx_tick ?s3 < 150"
    using assms by (simp_all add: s2 fox_fresh_def)
  have t3: "fox_tables ?s3" using t1 sub by (simp add: s2 fox_tables_def)
  have fin: "fox_inv env calm (s\<lparr>fx_connected := True\<rparr>)" if "fox_good env calm s" "fx_tick s < 150" "fx_socket s" for s
    using that by (simp add: fox_inv_def)
  show ?thesis
  proof (cases "ans = None")
    case True
    have "fox_good env calm ?s3"
      using t3 sub True by (simp add: fox_good_def fox_synced_def fox_wanted_def foxglove_goal_def)
    with fin [OF this] sub True r show ?thesis by (simp add: fox_start_mode_def Let_def)
  next
    case False
    define s4 where "s4 = (if fx_selected ?s3 = [] then fox_act (FxReport ''warning'' no_channels_warning) ?s3 else ?s3)"
    have s4: "fox_tables s4" "\<not> fx_demand s4" "fx_tick s4 < 150" "fx_socket s4" proof -
      have d: "fx_demand (s2\<lparr>fx_demand := (ans = None)\<rparr>) = False" using False by simp
      show "fox_tables s4" "\<not> fx_demand s4" "fx_tick s4 < 150" "fx_socket s4"
        unfolding s4_def using t3 sub d by (auto split: if_splits)
    qed
    obtain e5 s5 where l: "selected_loop env (fx_selected s4) [] s4 = (e5, s5)" by (cases "selected_loop env (fx_selected s4) [] s4")
    note l5 = selected_loop_spec [OF l s4(1,2)]
    then have "fox_good env calm (report_parser_errors e5 s5)" "fx_tick (report_parser_errors e5 s5) < 150" "fx_socket (report_parser_errors e5 s5)"
      using s4 by (simp_all add: fox_good_def fox_synced_def fox_same_def report_parser_errors_def)
    from fin [OF this] have "fox_inv env calm (report_parser_errors e5 s5\<lparr>fx_connected := True\<rparr>)" .
    moreover obtain err where "ans = Some err" using False by auto
    ultimately show ?thesis using r l
      by (simp add: fox_start_mode_def Let_def subscribe_to_selected_def s4_def split: if_splits)
  qed
qed

lemma fox_start_fresh_inv:
  assumes "fox_fresh st"
  shows "fox_inv env calm (snd (fox_start_fresh env during discovered st))"
proof -
  define s1 where "s1 = fox_act (FxConnect (fe_endpoint env (fx_address st) (word_of_int (fx_port st)))) (st\<lparr>fx_socket := True\<rparr>)"
  have s1: "fox_fresh s1" "fx_socket s1" using assms by (simp_all add: s1_def)
  note d = fresh_delivers [OF s1(1), of during]
  have m: "fox_inv env calm (fox_start_mode env discovered (fold fox_deliver during s1))"
    using d s1(2) by (intro fox_start_mode_inv) auto
  have f: "fox_inv env calm (fox_act FxStopSocket (fold fox_deliver during s1))"
    using d by (intro fresh_inv) simp
  show ?thesis using m f unfolding fox_start_fresh_def Let_def s1_def by (simp split: prod.split)
qed

lemma read_config_fresh: "fox_fresh (snd (fox_read_config env cfg st)) = fox_fresh st"
  "fx_socket (snd (fox_read_config env cfg st)) = fx_socket st"
  by (simp_all add: fox_read_config_def fox_fresh_def Let_def split: option.split prod.split)

lemma fox_on_start_inv:
  assumes "fox_inv env calm st" "\<not> fx_socket st"
  shows "fox_inv env calm (snd (fox_on_start env config handoff discovered during st))"
proof (cases config)
  case (Some cfg)
  have f: "fox_fresh st" using assms by (simp add: fox_inv_def fox_fresh_def)
  obtain ok s1 where c: "fox_read_config env cfg st = (ok, s1)" by (cases "fox_read_config env cfg st")
  have s1: "fox_fresh s1" using f read_config_fresh [of env cfg st] c by simp
  let ?s2 = "fox_act FxReadState (s1\<lparr>fx_socket := True\<rparr>)"
  have s2: "fox_fresh ?s2" "fx_socket ?s2" using s1 by simp_all
  have m: "fox_inv env calm (fox_start_mode env discovered (fold fox_deliver during ?s2))"
    using fresh_delivers [OF s2(1), of during] s2(2) by (intro fox_start_mode_inv) auto
  show ?thesis
    using fresh_inv [OF s1, of env calm] m fox_start_fresh_inv [OF s1, of env calm during discovered]
      fox_start_fresh_inv [OF s2(1), of env calm during discovered]
    by (simp add: fox_on_start_def Some c read_state_def Let_def split: bool.split)
qed (use assms in \<open>simp add: fox_on_start_def\<close>)

lemma fox_on_stop_inv: "fox_inv env calm st \<Longrightarrow> fox_inv env calm (fox_on_stop st)"
  by (simp add: fox_on_stop_def fox_inv_def fox_good_def fox_tables_def fox_synced_def)

lemma fox_deliver_inv: "fox_inv env calm st \<Longrightarrow> fox_inv env calm (fox_deliver e st)"
  by (cases e) (simp_all add: fox_deliver_def fox_inv_def split: option.split)

text \<open>The host starts a stopped source and polls a started one; callbacks and demands come at any time.
  In a calm session no poll throws.\<close>

inductive fox_step :: "'h fox_env \<Rightarrow> bool \<Rightarrow> 'h fox \<Rightarrow> 'h fox \<Rightarrow> bool" for env calm where
  FoxStart: "\<not> fx_socket st \<Longrightarrow> fox_step env calm st (snd (fox_on_start env config handoff discovered during st))"
| FoxPoll: "fx_socket st \<Longrightarrow> fox_on_poll env st = (ok, st') \<Longrightarrow> calm \<longrightarrow> ok \<Longrightarrow> fox_step env calm st st'"
| FoxStop: "fox_step env calm st (fox_on_stop st)"
| FoxCallback: "fox_step env calm st (fox_deliver event st)"
| FoxSetActive: "fox_step env calm st (fox_set_active names st)"

inductive fox_reachable :: "'h fox_env \<Rightarrow> bool \<Rightarrow> 'h fox \<Rightarrow> bool" for env calm where
  FoxNew: "fox_reachable env calm new_fox"
| FoxNext: "fox_reachable env calm st \<Longrightarrow> fox_step env calm st st' \<Longrightarrow> fox_reachable env calm st'"

lemma fox_step_inv:
  assumes "fox_step env calm st st'" "fox_inv env calm st"
  shows "fox_inv env calm st'"
  using assms(1)
proof cases
  case FoxPoll
  with fox_on_poll_good [OF assms(2)] show ?thesis by blast
next
  case FoxSetActive
  with assms(2) show ?thesis by (simp add: fox_set_active_def fox_inv_def)
qed (use assms(2) fox_on_start_inv fox_on_stop_inv fox_deliver_inv in blast)+

lemma fox_reachable_inv: "fox_reachable env calm st \<Longrightarrow> fox_inv env calm st"
proof (induction rule: fox_reachable.induct)
  case FoxNew
  have "fox_fresh new_fox" by (simp add: new_fox_def fox_fresh_def)
  then show ?case by (rule fresh_inv)
qed (rule fox_step_inv)

subsection \<open>Properties\<close>

lemma foxglove_goal_wanted:
  assumes "om_ok (fx_advertised st)"
  shows "foxglove_goal (fox_wanted env st) =
    {c. \<exists>ch. map_of (fx_advertised st) c = Some ch \<and> cr_supported (classify_channel ch)
          \<and> fe_passes env (ci_topic ch) (map ci_topic (fx_selected st)) \<and> ci_topic ch \<in> set (fx_desired st)}"
proof -
  have d: "distinct (map fst (fx_advertised st))" using assms by (rule om_ok_distinct)
  have f: "om_ok (filtered_channels (fe_passes env) (fx_advertised st) (fx_selected st))" using assms by (rule filtered_ok)
  have "map_of (filtered_channels (fe_passes env) (fx_advertised st) (fx_selected st)) c = Some t \<longleftrightarrow>
      (\<exists>ch. map_of (fx_advertised st) c = Some ch \<and> cr_supported (classify_channel ch)
          \<and> fe_passes env (ci_topic ch) (map ci_topic (fx_selected st)) \<and> ci_topic ch = t)" for c t
    unfolding map_of_eq_Some_iff [OF om_ok_distinct [OF f]] map_of_eq_Some_iff [OF d]
    by (force simp: filtered_channels_def)
  then show ?thesis by (auto simp: foxglove_goal_def fox_wanted_def)
qed

text \<open>C15. In every state a foxglove session reaches, ids are fresh, every subscription is to an advertised
  channel, every parser binding belongs to a subscription, and in demand mode no channel is subscribed
  twice; and as long as no poll threw, the channels subscribed in demand mode are exactly those advertised
  with a supported encoding, selected and wanted by the host, whatever the order in which server and host
  spoke and however often the connection was lost.\<close>

theorem fox_session_invariant:
  assumes "fox_reachable env calm st"
  shows "(\<forall>(i, c) \<in> set (fx_subscriptions st). i < fx_next_id st \<and> c \<in> fst ` set (fx_advertised st))
    \<and> dom (fx_bindings st) \<subseteq> fst ` set (fx_subscriptions st)
    \<and> (fx_demand st \<longrightarrow> distinct (map snd (fx_subscriptions st)))
    \<and> (calm \<and> fx_demand st \<longrightarrow> snd ` set (fx_subscriptions st) =
         {c. \<exists>ch. map_of (fx_advertised st) c = Some ch \<and> cr_supported (classify_channel ch)
               \<and> fe_passes env (ci_topic ch) (map ci_topic (fx_selected st)) \<and> ci_topic ch \<in> set (fx_desired st)})"
proof -
  have t: "fox_tables st" and s: "calm \<Longrightarrow> fox_synced env st"
    using fox_reachable_inv [OF assms] by (simp_all add: fox_inv_def fox_good_def)
  have g: "om_ok (fx_advertised st)" using t by (simp add: fox_tables_def)
  from t have "\<forall>(i, c) \<in> set (fx_subscriptions st). i < fx_next_id st \<and> c \<in> fst ` set (fx_advertised st)"
    unfolding fox_tables_def by force
  moreover have "dom (fx_bindings st) \<subseteq> fst ` set (fx_subscriptions st)" "fx_demand st \<longrightarrow> distinct (map snd (fx_subscriptions st))"
    using t unfolding fox_tables_def by blast+
  moreover have "calm \<and> fx_demand st \<longrightarrow> snd ` set (fx_subscriptions st) = foxglove_goal (fox_wanted env st)"
    using s by (simp add: fox_synced_def)
  ultimately show ?thesis unfolding foxglove_goal_wanted [OF g] by blast
qed

text \<open>Polls one after the other, whether they throw or not.\<close>

fun fox_polls :: "'h fox_env \<Rightarrow> nat \<Rightarrow> 'h fox \<Rightarrow> 'h fox" where
  "fox_polls env 0 st = st"
| "fox_polls env (Suc n) st = fox_polls env n (snd (fox_on_poll env st))"

lemma fox_polls_Suc: "fox_polls env (Suc n) st = snd (fox_on_poll env (fox_polls env n st))"
  by (induction n arbitrary: st) simp_all

text \<open>After its reconnect part a poll neither touches the connection nor restarts the socket.\<close>

lemma fox_on_poll_connection:
  assumes "fox_inv env False st"
  defines "st1 \<equiv> snd (fox_on_poll env st)" and "r \<equiv> fox_reconnect env st"
  shows "fx_connected st1 = fx_connected r \<and> fx_pending st1 = fx_pending r \<and> fx_tick st1 = fx_tick r
    \<and> fx_socket st1 = fx_socket r \<and> restarts (fx_log st1) = restarts (fx_log r)"
proof -
  have g: "fox_good env False (r\<lparr>fx_texts := []\<rparr>)" using assms(1) fox_reconnect_good [of env False st] by (simp add: r_def fox_inv_def)
  obtain ok s2 where t: "fox_run_texts env (fx_texts r) (r\<lparr>fx_texts := []\<rparr>) = (ok, s2)"
    by (cases "fox_run_texts env (fx_texts r) (r\<lparr>fx_texts := []\<rparr>)")
  note s2 = fox_run_texts_good [OF g t]
  define s3 where "s3 = (if fx_demand s2 \<and> fx_connected s2 then fox_apply_desired env s2 else s2)"
  have "fx_connected s3 = fx_connected s2 \<and> fx_pending s3 = fx_pending s2 \<and> fx_tick s3 = fx_tick s2 \<and> fx_socket s3 = fx_socket s2
      \<and> restarts (fx_log s3) = restarts (fx_log s2)"
  proof (cases "fx_demand s2 \<and> fx_connected s2 \<and> fx_slot s2 \<noteq> None")
    case True
    then obtain d where d: "fx_slot s2 = Some d" by auto
    let ?s = "s2\<lparr>fx_slot := None, fx_desired := d\<rparr>"
    have "fox_tables ?s" "fx_demand ?s" using s2 True by (simp_all add: fox_good_def fox_tables_def)
    from fox_reconcile_spec [OF this, of env] True d show ?thesis
      by (simp add: s3_def fox_apply_desired_def fox_same_def)
  qed (auto simp: s3_def fox_apply_desired_def)
  moreover have "fox_same (s3\<lparr>fx_messages := []\<rparr>) (fold (fox_push env) (fx_messages s3) (s3\<lparr>fx_messages := []\<rparr>))"
    using fox_pushes_same by blast
  moreover have "st1 = (if ok then fold (fox_push env) (fx_messages s3) (s3\<lparr>fx_messages := []\<rparr>) else s2)"
    unfolding st1_def fox_on_poll_def Let_def r_def [symmetric] t s3_def by simp
  ultimately show ?thesis using s2 by (cases ok) (simp_all add: fox_same_def)
qed


text \<open>What the polls push to the host.\<close>

fun fox_pushed :: "'h fox_log \<Rightarrow> ('h \<times> int \<times> bytes) list" where
  "fox_pushed [] = []"
| "fox_pushed (FxPush h ts payload # l) = (h, ts, payload) # fox_pushed l"
| "fox_pushed (a # l) = fox_pushed l"

lemma fox_pushed_append [simp]: "fox_pushed (l @ m) = fox_pushed l @ fox_pushed m"
  by (induction l rule: fox_pushed.induct) auto

definition fox_routed :: "'h fox \<Rightarrow> nat \<times> int \<times> bytes \<Rightarrow> ('h \<times> int \<times> bytes) option" where
  "fox_routed st m = map_option (\<lambda>h. (h, snd m)) (fx_bindings st (fst m))"

lemma fox_pushes_log:
  "fox_pushed (fx_log (fold (fox_push env) ms st)) = fox_pushed (fx_log st) @ List.map_filter (fox_routed st) ms"
proof (induction ms arbitrary: st)
  case (Cons m ms)
  have "fx_bindings (fox_push env m st) = fx_bindings st"
    "fox_pushed (fx_log (fox_push env m st)) = fox_pushed (fx_log st) @ (case fox_routed st m of None \<Rightarrow> [] | Some p \<Rightarrow> [p])"
    by (cases m; simp add: fox_push_def fox_routed_def fox_act_def Let_def split: option.split)+
  moreover from this(1) have "fox_routed (fox_push env m st) = fox_routed st" by (simp add: fun_eq_iff fox_routed_def)
  ultimately show ?case using Cons.IH [of "fox_push env m st"] by (simp add: map_filter_simps split: option.split)
qed (simp add: map_filter_simps)

lemma deliver_frames:
  assumes "list_all (\<lambda>(i, ts, payload). i < 2 ^ 32 \<and> ts < 2 ^ 64) frames"
  shows "fold fox_deliver (map (\<lambda>(i, ts, payload). FxBinary (encode_fox_frame i ts payload)) frames) st
    = st\<lparr>fx_messages := fx_messages st @ map (\<lambda>(i, ts, payload). (i, signed64 ts, payload)) frames\<rparr>"
  using assms
proof (induction frames arbitrary: st)
  case (Cons f frames)
  obtain i ts p where f: "f = (i, ts, p)" by (metis prod_cases3)
  have "fox_deliver (FxBinary (encode_fox_frame i ts p)) st = st\<lparr>fx_messages := fx_messages st @ [(i, signed64 ts, p)]\<rparr>"
    using fox_frame_reads_back [of i ts p] Cons.prems f by (simp add: fox_deliver_def)
  with Cons f show ?case by simp
qed simp


subsection \<open>Sample sessions\<close>

text \<open>A server that can advertise the channels \<open>a\<close> (5) and \<open>b\<close> (6), and sends a message whose \<open>op\<close> is no string.\<close>

definition sample_channel :: "string \<Rightarrow> int \<Rightarrow> json" where
  "sample_channel topic i = JObject [(''encoding'', JString ''json''), (''id'', JInt i), (''topic'', JString topic)]"

definition fox_sample :: "bool \<Rightarrow> nat fox_env" where
  "fox_sample demand =
     \<lparr>fe_state = (\<lambda>l. RsClosed), fe_wait = (\<lambda>l. ([RsConnecting, RsOpen], RsOpen)),
      fe_notify = (\<lambda>l. if demand then None else Some ''no slot''), fe_bind = (\<lambda>l. Inr (length l)), fe_push = (\<lambda>l. None),
      fe_json = (\<lambda>s. if s = ''a'' then Some (JObject [(''channels'', JArray [sample_channel ''a'' 5]), (''op'', JString ''advertise'')])
                     else if s = ''b'' then Some (JObject [(''channels'', JArray [sample_channel ''b'' 6]), (''op'', JString ''advertise'')])
                     else Some (JObject [(''op'', JInt 5)])),
      fe_cast_u64 = (\<lambda>d. d), fe_cast_int = (\<lambda>d. 0), fe_passes = (\<lambda>name selection. True), fe_limit = (\<lambda>j. []),
      fe_endpoint = (\<lambda>a p. a), fe_host_port = (\<lambda>a p. a)\<rparr>"

definition fox_started :: "bool \<Rightarrow> fox_event list \<Rightarrow> nat fox" where
  "fox_started demand during =
     snd (fox_on_start (fox_sample demand)
            (Some (JObject [(''channels'', JArray [sample_channel ''a'' 5])])) False [] during new_fox)"

lemma fox_started_reachable: "fox_reachable (fox_sample demand) calm (fox_started demand during)"
  unfolding fox_started_def by (rule fox_reachable.FoxNext [OF fox_reachable.FoxNew fox_step.FoxStart]) (simp add: new_fox_def)

definition fox_demanding :: "nat fox" where
  "fox_demanding = snd (fox_on_poll (fox_sample True) (fox_set_active [''a''] (fox_started True [FxText ''a''])))"

text \<open>A view of a state that evaluates once.\<close>

definition fox_view :: "'h fox \<Rightarrow> bool \<times> bool \<times> bool \<times> nat \<times> bool \<times> subscriptions \<times> bool \<times> bool \<times> string list \<times> bool \<times> bool" where
  "fox_view st = (fx_socket st, fx_connected st, fx_pending st, fx_tick st, fx_demand st, fx_subscriptions st,
     fx_bindings st 1 = None, fx_bindings st 2 = None, fx_texts st, fx_messages st = [], fx_slot st = None)"

lemma fox_demanding_view: "fox_view fox_demanding = (True, True, False, 0, True, [(1, 5)], False, True, [], True, True)"
  by code_simp

lemma fox_demanding_polled: "fst (fox_on_poll (fox_sample True) (fox_set_active [''a''] (fox_started True [FxText ''a''])))"
  by code_simp

lemma fox_started_socket: "fx_socket (fox_started True [FxText ''a''])"
  by code_simp

lemma fox_demanding_state:
  "fx_subscriptions fox_demanding = [(1, 5)] \<and> fx_demand fox_demanding \<and> fx_bindings fox_demanding 1 \<noteq> None
    \<and> fx_bindings fox_demanding 2 = None \<and> fx_connected fox_demanding \<and> fx_socket fox_demanding \<and> \<not> fx_pending fox_demanding
    \<and> fx_tick fox_demanding = 0 \<and> fx_texts fox_demanding = [] \<and> fx_slot fox_demanding = None \<and> fx_messages fox_demanding = []"
  using fox_demanding_view by (simp add: fox_view_def)

lemma fox_set_active_simp: "fx_socket (fox_set_active names st) = fx_socket st"
  by (simp add: fox_set_active_def)

lemma fox_demanding_reachable: "fox_reachable (fox_sample True) calm fox_demanding"
proof -
  let ?st = "fox_set_active [''a''] (fox_started True [FxText ''a''])"
  have r: "fox_reachable (fox_sample True) calm ?st"
    by (rule fox_reachable.FoxNext [OF fox_started_reachable fox_step.FoxSetActive])
  have p: "fox_on_poll (fox_sample True) ?st = (True, fox_demanding)"
    using fox_demanding_polled by (simp add: fox_demanding_def prod_eq_iff)
  have "fx_socket ?st" using fox_started_socket by (simp only: fox_set_active_simp)
  from fox_step.FoxPoll [OF this p] show ?thesis by (intro fox_reachable.FoxNext [OF r]) simp
qed

lemma fox_session_invariant_witness:
  "1 < fx_next_id fox_demanding \<and> dom (fx_bindings fox_demanding) \<subseteq> {1}
    \<and> {c. \<exists>ch. map_of (fx_advertised fox_demanding) c = Some ch \<and> cr_supported (classify_channel ch)
          \<and> fe_passes (fox_sample True) (ci_topic ch) (map ci_topic (fx_selected fox_demanding)) \<and> ci_topic ch \<in> set (fx_desired fox_demanding)} = {5}"
proof -
  note i = fox_session_invariant [OF fox_demanding_reachable [of True]]
  have s: "fx_subscriptions fox_demanding = [(1, 5)]" "fx_demand fox_demanding" using fox_demanding_state by simp_all
  show ?thesis using i unfolding s(1) by (intro conjI) (use s(2) in auto)
qed

definition fox_lost :: "nat fox" where
  "fox_lost = fox_deliver FxClose fox_demanding"



subsection \<open>What goes wrong\<close>

text \<open>\<open>onStop\<close> leaves both queues: a data frame still queued at stop is pushed, in the next session, to the
  parser of another topic that got the same subscription id.\<close>

definition fox_stopped :: "nat fox" where
  "fox_stopped = fox_on_stop (fox_demanding\<lparr>fx_messages := [(1, 9, [3])]\<rparr>)"

definition fox_second :: "nat fox" where
  "fox_second = snd (fox_on_poll (fox_sample True)
     (fox_set_active [''b''] (snd (fox_on_start (fox_sample True) (Some (JObject [])) False [] [FxText ''b''] fox_stopped))))"

lemma frame_before_stop: "fox_on_stop (fox_deliver (FxBinary (encode_fox_frame 1 9 [3])) fox_demanding) = fox_stopped"
  using deliver_frames [of "[(1, 9, [3])]" fox_demanding] fox_demanding_state by (simp add: fox_stopped_def signed64_def)

definition route_view :: "nat fox \<Rightarrow> string option \<times> subscriptions \<times> bool" where
  "route_view st = (map_option ci_topic (map_of (fx_advertised st) 6), fx_subscriptions st,
     fox_pushed (fx_log st) = [(the (fx_bindings st 1), 9, [3])])"

lemma fox_second_view: "route_view fox_second = (Some ''b'', [(1, 6)], True)"
  by code_simp

lemma stale_frames_reach_next_session:
  "fx_messages (fox_on_stop (fox_deliver (FxBinary (encode_fox_frame 1 9 [3])) fox_demanding)) = [(1, 9, [3])]
    \<and> map_option ci_topic (map_of (fx_advertised fox_second) 6) = Some ''b''
    \<and> fx_subscriptions fox_second = [(1, 6)] \<and> fox_pushed (fx_log fox_second) = [(the (fx_bindings fox_second 1), 9, [3])]"
  using fox_second_view unfolding frame_before_stop
  by (simp add: route_view_def) (simp add: fox_stopped_def fox_on_stop_def)

text \<open>On a legacy host a fresh connection subscribes each selected channel at start and again when the
  advertise message of the connection is read: every message then arrives twice.\<close>

lemma legacy_subscribes_twice:
  "fx_subscriptions (snd (fox_on_poll (fox_sample False) (fox_started False [FxText ''a'']))) = [(1, 5), (2, 5)]"
  by code_simp

text \<open>A connection that closes while the source starts is taken for connected, so it is never retried.\<close>

lemma close_during_start_unnoticed:
  "fx_connected (fox_started True [FxText ''a'', FxClose])
    \<and> fx_tick (fox_polls (fox_sample True) 3 (fox_started True [FxText ''a'', FxClose])) = 0"
  by (intro conjI; code_simp)

text \<open>A message of the wrong shape throws out of the poll, and the texts after it are lost.\<close>

lemma malformed_text_loses_batch:
  "\<not> fst (fox_on_poll (fox_sample True) (fox_started True [FxText ''bad'', FxText ''a'']))
    \<and> fx_texts (snd (fox_on_poll (fox_sample True) (fox_started True [FxText ''bad'', FxText ''a'']))) = []
    \<and> fx_advertised (snd (fox_on_poll (fox_sample True) (fox_started True [FxText ''bad'', FxText ''a'']))) = []"
  by (intro conjI; code_simp)

end
