(* ===== verification/ScriptTokens.thy ===== *)
theory ScriptTokens
  imports Prelude
begin

section \<open>Script tokens and identifier renaming (toolbox_transform_editor/script_text.cpp)\<close>

text \<open>
  The tokenizer of the Transform Editor, which tells code from strings and comments in Luau and Python
  text, and what is built on it: the number of values a body returns, the uses of identifiers, and their
  renaming. The tokenizer works on byte offsets; \<open>lex\<close> is the same splitting as a function of the remaining
  text. Facts shown: the tokens cover the text in order; a renaming changes the renamed uses and leaves
  every other token alone; renaming there and back gives the original text.
\<close>

subsection \<open>Tokens\<close>

datatype code_token_kind = KWord | KString | KComment | KOther

record code_token =
  ct_kind :: code_token_kind
  ct_begin :: nat
  ct_end :: nat

text \<open>\<open>isWordChar\<close>.\<close>

definition is_word_char :: "char \<Rightarrow> bool" where
  "is_word_char c \<longleftrightarrow> is_alnum c \<or> c = CHR ''_''"

abbreviation newline_char :: char where "newline_char \<equiv> CHR 0x0A"
abbreviation backslash :: char where "backslash \<equiv> CHR 0x5C"
abbreviation double_quote :: char where "double_quote \<equiv> CHR 0x22"
abbreviation single_quote :: char where "single_quote \<equiv> CHR 0x27"

text \<open>The loop of \<open>skipQuoted\<close>, which steps over an escaped character.\<close>

function quoted_stop :: "string \<Rightarrow> char \<Rightarrow> nat \<Rightarrow> nat" where
  "quoted_stop s q k =
     (if k < length s \<and> s ! k \<noteq> q \<and> s ! k \<noteq> newline_char
      then quoted_stop s q (k + (if s ! k = backslash then 2 else 1)) else k)"
  by pat_completeness auto
termination by (relation "measure (\<lambda>(s, q, k). length s - k)") auto

declare quoted_stop.simps [simp del]

definition skip_quoted :: "string \<Rightarrow> nat \<Rightarrow> bool \<Rightarrow> nat" where
  "skip_quoted s i python =
     (let q = s ! i; n = length s in
      if python \<and> starts_at s [q, q, q] i
      then (case find_str [q, q, q] s (i + 3) of None \<Rightarrow> n | Some close \<Rightarrow> close + 3)
      else min (quoted_stop s q (i + 1) + 1) n)"

definition skip_lua_long :: "string \<Rightarrow> nat \<Rightarrow> nat" where
  "skip_lua_long s i =
     (let n = length s; k = scan_while (\<lambda>c. c = CHR ''='') s (i + 1); level = k - (i + 1) in
      if k \<ge> n \<or> s ! k \<noteq> CHR ''['' then i
      else case find_str ('']'' @ replicate level CHR ''='' @ '']'') s (k + 1) of
             None \<Rightarrow> n
           | Some close \<Rightarrow> close + level + 2)"

text \<open>The token that begins at offset \<open>i\<close>: the body of the loop of \<open>tokenize\<close>.\<close>

definition line_end :: "string \<Rightarrow> nat \<Rightarrow> nat" where
  "line_end s i = scan_while (\<lambda>c. c \<noteq> newline_char) s i"

definition next_code_token :: "string \<Rightarrow> bool \<Rightarrow> nat \<Rightarrow> code_token" where
  "next_code_token s python i =
     (let c = s ! i; n = length s in
      if c = double_quote \<or> c = single_quote
      then \<lparr>ct_kind = KString, ct_begin = i, ct_end = skip_quoted s i python\<rparr>
      else if python \<and> c = CHR ''#''
      then \<lparr>ct_kind = KComment, ct_begin = i, ct_end = line_end s i\<rparr>
      else if \<not> python \<and> c = CHR ''-'' \<and> i + 1 < n \<and> s ! (i + 1) = CHR ''-''
      then (let after = (if i + 2 < n \<and> s ! (i + 2) = CHR ''['' then skip_lua_long s (i + 2) else i + 2)
            in \<lparr>ct_kind = KComment, ct_begin = i, ct_end = (if after = i + 2 then line_end s after else after)\<rparr>)
      else if \<not> python \<and> c = CHR ''['' \<and> skip_lua_long s i \<noteq> i
      then \<lparr>ct_kind = KString, ct_begin = i, ct_end = skip_lua_long s i\<rparr>
      else if is_word_char c
      then \<lparr>ct_kind = KWord, ct_begin = i, ct_end = scan_while is_word_char s i\<rparr>
      else \<lparr>ct_kind = KOther, ct_begin = i, ct_end = i + 1\<rparr>)"

lemma quoted_stop_ge: "k \<le> quoted_stop s q k"
  by (induction s q k rule: quoted_stop.induct) (subst quoted_stop.simps, auto)

lemma skip_quoted_bounds:
  assumes "i < length s" shows "i < skip_quoted s i python \<and> skip_quoted s i python \<le> length s"
proof (cases "python \<and> starts_at s [s ! i, s ! i, s ! i] i")
  case True
  show ?thesis
  proof (cases "find_str [s ! i, s ! i, s ! i] s (i + 3)")
    case None with True assms show ?thesis by (simp add: skip_quoted_def Let_def)
  next
    case (Some close)
    from find_str_Some [OF Some] True Some show ?thesis by (simp add: skip_quoted_def Let_def)
  qed
next
  case False
  have "i + 1 \<le> quoted_stop s (s ! i) (i + 1)" by (rule quoted_stop_ge)
  with False assms show ?thesis by (auto simp: skip_quoted_def Let_def min_def)
qed

lemma skip_lua_long_bounds:
  assumes "i < length s" "skip_lua_long s i \<noteq> i"
  shows "i + 1 < skip_lua_long s i \<and> skip_lua_long s i \<le> length s"
proof -
  define k where "k = scan_while (\<lambda>c. c = CHR ''='') s (i + 1)"
  have k: "i + 1 \<le> k" by (simp add: k_def)
  have inside: "k < length s \<and> s ! k = CHR ''[''"
    using assms(2) unfolding skip_lua_long_def Let_def k_def [symmetric] by (auto split: if_splits)
  show ?thesis
  proof (cases "find_str ('']'' @ replicate (k - (i + 1)) CHR ''='' @ '']'') s (k + 1)")
    case None with inside k show ?thesis unfolding skip_lua_long_def Let_def k_def [symmetric] by auto
  next
    case (Some close)
    from find_str_Some [OF this] inside k Some show ?thesis
      unfolding skip_lua_long_def Let_def k_def [symmetric] by auto
  qed
qed

lemma next_code_token_begin [simp]: "ct_begin (next_code_token s python i) = i"
  by (simp add: next_code_token_def Let_def)

lemma next_code_token_bounds:
  assumes "i < length s"
  shows "i < ct_end (next_code_token s python i) \<and> ct_end (next_code_token s python i) \<le> length s"
proof -
  have "scan_while is_word_char s i > i" if "is_word_char (s ! i)"
    using that assms by (subst scan_while_loop) (auto simp: Suc_le_eq [symmetric])
  moreover have "line_end s i > i" if "s ! i = CHR ''#''"
    unfolding line_end_def using that assms by (subst scan_while_loop) (auto simp: Suc_le_eq [symmetric])
  moreover have "i < line_end s (i + 2)"
    unfolding line_end_def by (rule less_le_trans [OF _ scan_while_ge]) simp
  ultimately show ?thesis
    using assms skip_quoted_bounds [OF assms, of python] skip_lua_long_bounds [OF assms]
      skip_lua_long_bounds [of "i + 2" s]
    by (auto simp: next_code_token_def Let_def line_end_def scan_while_le)
qed

function code_tokens_from :: "string \<Rightarrow> bool \<Rightarrow> nat \<Rightarrow> code_token list" where
  "code_tokens_from s python i =
     (if i < length s then (let t = next_code_token s python i in t # code_tokens_from s python (ct_end t)) else [])"
  by pat_completeness auto
termination
  by (relation "measure (\<lambda>(s, python, i). length s - i)") (use next_code_token_bounds in \<open>auto intro: diff_less_mono2\<close>)

declare code_tokens_from.simps [simp del]

definition is_python :: "string \<Rightarrow> bool" where
  "is_python language \<longleftrightarrow> language = ''python''"

definition code_tokenize :: "string \<Rightarrow> string \<Rightarrow> code_token list" where
  "code_tokenize s language = code_tokens_from s (is_python language) 0"

definition token_text :: "string \<Rightarrow> code_token \<Rightarrow> string" where
  "token_text s t = slice s (ct_begin t) (ct_end t)"

subsection \<open>The tokens cover the text\<close>

fun tokens_chain :: "nat \<Rightarrow> code_token list \<Rightarrow> nat \<Rightarrow> bool" where
  "tokens_chain i [] n \<longleftrightarrow> i = n"
| "tokens_chain i (t # ts) n \<longleftrightarrow> ct_begin t = i \<and> i < ct_end t \<and> ct_end t \<le> n \<and> tokens_chain (ct_end t) ts n"

lemma code_tokens_from_chain:
  "i \<le> length s \<Longrightarrow> tokens_chain i (code_tokens_from s python i) (length s)"
proof (induction s python i rule: code_tokens_from.induct)
  case (1 s python i)
  show ?case
  proof (cases "i < length s")
    case True
    with next_code_token_bounds [OF True, of python] 1(1) [OF True] show ?thesis
      by (subst code_tokens_from.simps) (simp add: Let_def)
  next
    case False with 1(2) show ?thesis by (subst code_tokens_from.simps) simp
  qed
qed

lemma chain_texts: "tokens_chain i ts (length s) \<Longrightarrow> i \<le> length s \<Longrightarrow> concat (map (token_text s) ts) = drop i s"
proof (induction ts arbitrary: i)
  case (Cons t ts)
  then have "i \<le> ct_end t" by simp
  from slice_drop [OF this, of s] Cons show ?case by (simp add: token_text_def)
qed simp

text \<open>The tokens of a script cover it completely and in order: the first begins at 0, each begins where
  the one before it ends, none is empty, the last ends with the text, and their texts put together are
  the script, for both languages and for every input, strings and comments left open included.\<close>

theorem script_tokens_cover:
  "tokens_chain 0 (code_tokenize s language) (length s)
   \<and> concat (map (token_text s) (code_tokenize s language)) = s"
proof -
  have c: "tokens_chain 0 (code_tokenize s language) (length s)"
    unfolding code_tokenize_def by (rule code_tokens_from_chain) simp
  with chain_texts [OF c] show ?thesis by simp
qed

subsection \<open>Uses of identifiers: forEachIdentifierUse\<close>

definition significant :: "string \<Rightarrow> code_token \<Rightarrow> bool" where
  "significant s t \<longleftrightarrow> \<not> (ct_kind t = KComment \<or> ct_kind t = KOther \<and> is_space (s ! ct_begin t))"

text \<open>\<open>is_punct\<close> on the first token of a list, which is a null pointer when the list is empty.\<close>

fun at_punct :: "string \<Rightarrow> char \<Rightarrow> code_token list \<Rightarrow> bool" where
  "at_punct s c [] \<longleftrightarrow> False"
| "at_punct s c (t # ts) \<longleftrightarrow> ct_kind t = KOther \<and> s ! ct_begin t = c"

text \<open>Whether a word is a use, given the tokens before it (nearest first) and after it: \<open>prev\<close> and \<open>next\<close>
  are its significant neighbours with what lies beyond them.\<close>

definition is_use :: "string \<Rightarrow> bool \<Rightarrow> char list \<Rightarrow> code_token list \<Rightarrow> code_token list \<Rightarrow> bool" where
  "is_use s python brackets prior later =
     (let prev = dropWhile (\<lambda>t. \<not> significant s t) prior;
          nxt = dropWhile (\<lambda>t. \<not> significant s t) later;
          concat = (\<not> python \<and> at_punct s CHR ''.'' prev \<and> at_punct s CHR ''.'' (tl prev))
      in if (at_punct s CHR ''.'' prev \<and> \<not> concat) \<or> (\<not> python \<and> at_punct s CHR '':'' prev) then False
         else if at_punct s CHR ''='' nxt
         then (let beyond = dropWhile (\<lambda>t. \<not> significant s t) (tl nxt);
                   single = (\<not> at_punct s CHR ''='' beyond \<or> ct_begin (hd beyond) \<noteq> ct_end (hd nxt));
                   inner = (case brackets of [] \<Rightarrow> CHR 0x00 | b # bs \<Rightarrow> b);
                   key_position =
                     (if python then inner = CHR ''(''
                      else inner = CHR ''{'' \<and> (at_punct s CHR ''{'' prev \<or> at_punct s CHR '','' prev \<or> at_punct s CHR '';'' prev))
               in \<not> (single \<and> key_position))
         else True)"

definition next_brackets :: "char \<Rightarrow> char list \<Rightarrow> char list" where
  "next_brackets c brackets =
     (if c = CHR ''('' \<or> c = CHR ''['' \<or> c = CHR ''{'' then c # brackets
      else if c = CHR '')'' \<or> c = CHR '']'' \<or> c = CHR ''}'' then tl brackets
      else brackets)"

text \<open>The loop over the tokens; \<open>prior\<close> holds those passed, nearest first, and the open brackets are kept
  innermost first.\<close>

fun uses_loop :: "string \<Rightarrow> bool \<Rightarrow> char list \<Rightarrow> code_token list \<Rightarrow> code_token list \<Rightarrow> (nat \<times> nat) list" where
  "uses_loop s python brackets prior [] = []"
| "uses_loop s python brackets prior (t # later) =
     (if ct_kind t = KOther
      then uses_loop s python (next_brackets (s ! ct_begin t) brackets) (t # prior) later
      else if ct_kind t \<noteq> KWord then uses_loop s python brackets (t # prior) later
      else (if is_use s python brackets prior later then [(ct_begin t, ct_end t)] else [])
           @ uses_loop s python brackets (t # prior) later)"

definition identifier_uses :: "string \<Rightarrow> string \<Rightarrow> (nat \<times> nat) list" where
  "identifier_uses s language = uses_loop s (is_python language) [] [] (code_tokenize s language)"

definition mentions_identifier :: "string \<Rightarrow> string \<Rightarrow> string \<Rightarrow> bool" where
  "mentions_identifier s language word = list_ex (\<lambda>(b, e). slice s b e = word) (identifier_uses s language)"

text \<open>\<open>renames\<close> is a \<open>std::map\<close> that the code only looks up; \<open>copied\<close> is the offset up to which the text has
  been written.\<close>

fun rename_loop :: "string \<Rightarrow> (string \<Rightarrow> string option) \<Rightarrow> nat \<Rightarrow> (nat \<times> nat) list \<Rightarrow> string" where
  "rename_loop s renames copied [] = drop copied s"
| "rename_loop s renames copied ((b, e) # us) =
     (case renames (slice s b e) of
        None \<Rightarrow> rename_loop s renames copied us
      | Some new \<Rightarrow> slice s copied b @ new @ rename_loop s renames e us)"

definition rename_identifiers :: "string \<Rightarrow> string \<Rightarrow> (string \<Rightarrow> string option) \<Rightarrow> string" where
  "rename_identifiers s language renames = rename_loop s renames 0 (identifier_uses s language)"

subsection \<open>The tokenizer as a function of the remaining text\<close>

lemma scan_while_append:
  "scan_while P (a @ r) (length a + k) = length a + scan_while P r k"
  by (simp add: scan_while_def)

lemma starts_at_append: "starts_at (a @ r) p (length a + k) = starts_at r p k"
  by (simp add: starts_at_def)

lemma find_in_shift: "find_in p (m + n) s = map_option ((+) m) (find_in p n s)"
  by (induction p n s rule: find_in.induct) simp_all

lemma find_str_append: "find_str p (a @ r) (length a + k) = map_option ((+) (length a)) (find_str p r k)"
  by (simp add: find_str_def find_in_shift)

lemma quoted_stop_append: "quoted_stop (a @ r) q (length a + k) = length a + quoted_stop r q k"
proof (induction r q k rule: quoted_stop.induct)
  case (1 r q k)
  show ?case
  proof (cases "k < length r \<and> r ! k \<noteq> q \<and> r ! k \<noteq> newline_char")
    case True
    with 1 [OF True] show ?thesis
      by (subst (1 2) quoted_stop.simps) (simp add: nth_append ac_simps)
  next
    case False
    then show ?thesis by (subst (1 2) quoted_stop.simps) (auto simp: nth_append)
  qed
qed

lemma skip_quoted_append:
  "skip_quoted (a @ r) (length a + k) python = length a + skip_quoted r k python"
  using starts_at_append [of a r] find_str_append [of _ a r "k + 3"] quoted_stop_append [of a r _ "k + 1"]
  by (auto simp: skip_quoted_def Let_def nth_append ac_simps split: option.split)

lemma skip_lua_long_append: "skip_lua_long (a @ r) (length a + k) = length a + skip_lua_long r k"
proof -
  define j where "j = scan_while (\<lambda>c. c = CHR ''='') r (k + 1)"
  have j': "scan_while (\<lambda>c. c = CHR ''='') (a @ r) (length a + k + 1) = length a + j"
    unfolding j_def by (metis add.assoc scan_while_append)
  have f: "find_str p (a @ r) (Suc (length a + j)) = map_option ((+) (length a)) (find_str p r (Suc j))" for p
    by (metis add_Suc_right find_str_append)
  show ?thesis
    unfolding skip_lua_long_def Let_def j' j_def [symmetric]
    by (auto simp: f nth_append split: option.split)
qed

lemma next_code_token_append:
  "next_code_token (a @ r) python (length a + k) =
     (let t = next_code_token r python k in \<lparr>ct_kind = ct_kind t, ct_begin = length a + k, ct_end = length a + ct_end t\<rparr>)"
proof -
  have l: "line_end (a @ r) (length a + k) = length a + line_end r k" for k
    by (simp add: line_end_def scan_while_append)
  have l2: "line_end (a @ r) (Suc (Suc (length a + k))) = length a + line_end r (Suc (Suc k))"
    by (metis l add_Suc_right)
  have n: "(a @ r) ! (length a + i) = r ! i" for i by (simp add: nth_append)
  have e: "length a + k + i = length a + (k + i)" for i by simp
  show ?thesis
    unfolding next_code_token_def Let_def n e skip_lua_long_append skip_quoted_append l scan_while_append
    by (simp add: l2)
qed

lemma next_code_token_drop:
  assumes "i \<le> length s"
  shows "ct_kind (next_code_token s python i) = ct_kind (next_code_token (drop i s) python 0)"
    and "ct_end (next_code_token s python i) = i + ct_end (next_code_token (drop i s) python 0)"
  using next_code_token_append [of "take i s" "drop i s" python 0] assms by (simp_all add: Let_def)

text \<open>The kinds and texts of the tokens of a text.\<close>

type_synonym piece = "code_token_kind \<times> string"

definition piece_of :: "string \<Rightarrow> code_token \<Rightarrow> piece" where
  "piece_of s t = (ct_kind t, token_text s t)"

function lex :: "bool \<Rightarrow> string \<Rightarrow> piece list" where
  "lex python s =
     (if s = [] then []
      else let t = next_code_token s python 0 in (ct_kind t, take (ct_end t) s) # lex python (drop (ct_end t) s))"
  by pat_completeness auto
termination
proof (relation "measure (\<lambda>(python, s). length s)")
  fix python :: bool and s :: string and t
  assume "s \<noteq> []" "t = next_code_token s python 0"
  with next_code_token_bounds [of 0 s python] show "((python, drop (ct_end t) s), (python, s)) \<in> measure (\<lambda>(python, s). length s)"
    by simp
qed simp

declare lex.simps [simp del]

lemma pieces_are_lex: "map (piece_of s) (code_tokens_from s python i) = lex python (drop i s)"
proof (induction s python i rule: code_tokens_from.induct)
  case (1 s python i)
  show ?case
  proof (cases "i < length s")
    case True
    note d = next_code_token_drop [of i s python]
    let ?t = "next_code_token s python i"
    from True have m: "map (piece_of s) (code_tokens_from s python i)
        = piece_of s ?t # lex python (drop (ct_end ?t) s)"
      using 1 by (subst code_tokens_from.simps) (simp add: Let_def)
    have l: "lex python (drop i s)
        = (ct_kind ?t, take (ct_end ?t - i) (drop i s)) # lex python (drop (ct_end ?t) s)"
      using True d by (subst lex.simps) (simp add: Let_def ac_simps)
    show ?thesis by (simp only: m l) (simp add: piece_of_def token_text_def slice_def)
  next
    case False
    then show ?thesis by (simp add: code_tokens_from.simps [of s] lex.simps [of _ "[]"])
  qed
qed

subsection \<open>What follows a token and can influence it\<close>

definition first_class :: "string \<Rightarrow> char option" where
  "first_class r = (case r of [] \<Rightarrow> None | c # cs \<Rightarrow> Some (if is_word_char c then CHR ''a'' else c))"

definition alike :: "string \<Rightarrow> string \<Rightarrow> bool" where
  "alike r r' \<longleftrightarrow> first_class r = first_class r'
     \<and> first_class (dropWhile (\<lambda>c. c = CHR ''='') r) = first_class (dropWhile (\<lambda>c. c = CHR ''='') r')"

lemma word_a [simp]: "is_word_char CHR ''a''"
  by (simp add: is_word_char_def is_alnum_def)

lemma not_word [simp]:
  "\<not> is_word_char CHR ''[''" "\<not> is_word_char CHR ''-''" "\<not> is_word_char newline_char" "\<not> is_word_char CHR ''=''"
  "\<not> is_word_char double_quote" "\<not> is_word_char single_quote" "\<not> is_word_char CHR ''#''"
  by (simp_all add: is_word_char_def is_alnum_def is_digit_def is_upper_def)

lemma first_class_char: "\<not> is_word_char c \<Longrightarrow> first_class r = Some c \<longleftrightarrow> r \<noteq> [] \<and> hd r = c"
  by (cases r) (auto simp: first_class_def)

lemma first_class_word: "first_class r = Some CHR ''a'' \<longleftrightarrow> r \<noteq> [] \<and> is_word_char (hd r)"
  by (cases r) (auto simp: first_class_def)

lemma first_class_None [simp]: "first_class r = None \<longleftrightarrow> r = []"
  by (cases r) (auto simp: first_class_def)

lemma alike_Nil: "alike [] r \<longleftrightarrow> r = []"
  by (cases r) (auto simp: alike_def first_class_def)

lemma alike_empty: "alike r r' \<Longrightarrow> r = [] \<longleftrightarrow> r' = []"
  by (simp only: alike_def first_class_None [symmetric])

lemma alike_char: "alike r r' \<Longrightarrow> \<not> is_word_char c \<Longrightarrow> (r \<noteq> [] \<and> hd r = c) \<longleftrightarrow> (r' \<noteq> [] \<and> hd r' = c)"
  using first_class_char [of c r] first_class_char [of c r'] by (auto simp: alike_def)

lemma alike_word: "alike r r' \<Longrightarrow> (r \<noteq> [] \<and> is_word_char (hd r)) \<longleftrightarrow> (r' \<noteq> [] \<and> is_word_char (hd r'))"
  by (simp only: alike_def first_class_word [symmetric])

lemma alike_newline:
  "alike r r' \<Longrightarrow> r = [] \<or> \<not> hd r \<noteq> newline_char \<Longrightarrow> r' = [] \<or> \<not> hd r' \<noteq> newline_char"
  using alike_char [of r r' newline_char] alike_empty [of r r'] by auto

lemma alike_not_word:
  "alike r r' \<Longrightarrow> r = [] \<or> \<not> is_word_char (hd r) \<Longrightarrow> r' = [] \<or> \<not> is_word_char (hd r')"
  using alike_word [of r r'] by auto

lemma length_takeWhile_append:
  "length (takeWhile P (p @ r)) = length p \<longleftrightarrow> (\<forall>x \<in> set p. P x) \<and> (r = [] \<or> \<not> P (hd r))"
proof (induction p)
  case Nil show ?case by (cases r) auto
qed auto

lemma scan_to_end:
  assumes "j \<le> length p"
  shows "scan_while P (p @ r) j = length p \<longleftrightarrow> (\<forall>x \<in> set (drop j p). P x) \<and> (r = [] \<or> \<not> P (hd r))"
proof -
  have "scan_while P (p @ r) j = length p \<longleftrightarrow> length (takeWhile P (drop j p @ r)) = length (drop j p)"
    using assms by (auto simp: scan_while_def)
  then show ?thesis by (simp only: length_takeWhile_append)
qed

lemma find_in_local:
  "find_in p n (a @ r) = Some j \<Longrightarrow> j + length p \<le> n + length a \<Longrightarrow> find_in p n (a @ r') = Some j"
proof (induction a arbitrary: n)
  case Nil
  from find_in_Some [OF Nil(1)] Nil(2) have "p = []" "j = n" by auto
  then show ?case by (cases r') auto
next
  case (Cons c a)
  show ?case
  proof (cases "take (length p) (c # a @ r) = p")
    case True
    with Cons have "j = n" "length p \<le> length (c # a)" by auto
    moreover from this True have "take (length p) (c # a @ r') = p" by (cases p) auto
    ultimately show ?thesis by simp
  next
    case False
    with Cons.prems have f: "find_in p (Suc n) (a @ r) = Some j" by (auto split: if_splits)
    from find_in_Some [OF this] Cons.prems have le: "length p \<le> length a" by auto
    with False have "take (length p) (c # a @ r') \<noteq> p" by (cases p) auto
    with Cons.IH [OF f] Cons.prems show ?thesis by simp
  qed
qed

lemma find_str_local:
  assumes "find_str p (a @ r) k = Some j" "j + length p \<le> length a"
  shows "find_str p (a @ r') k = Some j"
proof -
  from find_str_Some [OF assms(1)] assms(2) have k: "k \<le> length a" by simp
  with assms(1) have "find_in p k (drop k a @ r) = Some j" by (simp add: find_str_def)
  from find_in_local [OF this] assms(2) k show ?thesis by (simp add: find_str_def)
qed

lemma quoted_stop_local:
  "quoted_stop (a @ r) q k < length a \<Longrightarrow> quoted_stop (a @ r') q k = quoted_stop (a @ r) q k"
proof (induction "a @ r" q k rule: quoted_stop.induct)
  case (1 q k)
  have k: "k < length a" using 1(2) quoted_stop_ge [of k "a @ r" q] by simp
  show ?case
  proof (cases "a ! k \<noteq> q \<and> a ! k \<noteq> newline_char")
    case True
    with k 1 show ?thesis
      by (simp add: nth_append quoted_stop.simps [of "a @ r" q k] quoted_stop.simps [of "a @ r'" q k])
  next
    case False
    with k show ?thesis
      by (auto simp: nth_append quoted_stop.simps [of "a @ r" q k] quoted_stop.simps [of "a @ r'" q k])
  qed
qed

lemma skip_lua_long_none:
  assumes "i < length s"
  shows "skip_lua_long s i = i
    \<longleftrightarrow> first_class (dropWhile (\<lambda>c. c = CHR ''='') (drop (i + 1) s)) \<noteq> Some CHR ''[''"
proof -
  let ?P = "\<lambda>c. c = CHR ''=''"
  define k where "k = scan_while ?P s (i + 1)"
  have k: "i < k" unfolding k_def by (rule less_le_trans [OF _ scan_while_ge]) simp
  have d: "dropWhile ?P (drop (i + 1) s) = drop k s"
    unfolding k_def by (simp only: drop_scan)
  have "skip_lua_long s i = i \<longleftrightarrow> k \<ge> length s \<or> s ! k \<noteq> CHR ''[''"
    using k assms find_str_Some [of _ s "k + 1"]
    unfolding skip_lua_long_def Let_def k_def [symmetric] by (force split: option.split)
  also have "\<dots> \<longleftrightarrow> first_class (drop k s) \<noteq> Some CHR ''[''"
    by (auto simp: first_class_char hd_drop_conv_nth)
  finally show ?thesis unfolding d .
qed

lemma skip_lua_long_none_local:
  assumes "i < length p" "alike r r'"
  shows "skip_lua_long (p @ r) i = i \<longleftrightarrow> skip_lua_long (p @ r') i = i"
proof -
  let ?P = "\<lambda>c. c = CHR ''=''"
  have "first_class (dropWhile ?P (drop (i + 1) p @ r)) = first_class (dropWhile ?P (drop (i + 1) p @ r'))"
  proof (cases "\<forall>x \<in> set (drop (i + 1) p). ?P x")
    case True
    with assms(2) show ?thesis by (simp add: dropWhile_append2 alike_def)
  next
    case False
    then obtain x where x: "x \<in> set (drop (i + 1) p)" "\<not> ?P x" by blast
    from dropWhile_append1 [OF x(1), of ?P, OF x(2)] have e: "dropWhile ?P (drop (i + 1) p @ r) = dropWhile ?P (drop (i + 1) p) @ r" for r .
    from x have "dropWhile ?P (drop (i + 1) p) \<noteq> []" by (auto simp: dropWhile_eq_Nil_conv)
    then show ?thesis unfolding e by (cases "dropWhile ?P (drop (i + 1) p)") (simp_all add: first_class_def)
  qed
  with assms(1) show ?thesis by (simp add: skip_lua_long_none)
qed


lemma skip_lua_long_local:
  assumes "skip_lua_long (p @ r) i = length p" "i < length p" "alike r r'" "skip_lua_long (p @ r) i \<noteq> i"
  shows "skip_lua_long (p @ r') i = length p"
proof (cases "r = []")
  case True with assms alike_Nil show ?thesis by simp
next
  case False
  let ?P = "\<lambda>c. c = CHR ''=''"
  define k where "k = scan_while ?P (p @ r) (i + 1)"
  let ?pat = "'']'' @ replicate (k - (i + 1)) CHR ''='' @ '']''"
  have lbr: "k < length (p @ r) \<and> (p @ r) ! k = CHR ''[''"
    using assms(4) unfolding skip_lua_long_def Let_def k_def [symmetric] by (auto split: if_splits)
  obtain close where close: "find_str ?pat (p @ r) (k + 1) = Some close" "close + (k - (i + 1)) + 2 = length p"
    using assms(1) False lbr unfolding skip_lua_long_def Let_def k_def [symmetric] by (auto split: option.splits)
  from find_str_Some [OF close(1)] close(2) have k: "k < length p" by simp
  have same: "scan_while ?P (p @ r') (i + 1) = k"
  proof -
    have "i + 1 \<le> length p" using assms(2) by simp
    then have d: "drop (i + 1) (p @ s) = drop (i + 1) p @ s" for s by simp
    from k have "length (takeWhile ?P (drop (i + 1) p @ r)) < length (drop (i + 1) p)"
      unfolding k_def scan_while_def d by simp
    moreover have "takeWhile ?P (drop (i + 1) p @ r) = drop (i + 1) p @ takeWhile ?P r"
      if "\<forall>x \<in> set (drop (i + 1) p). ?P x"
      by (rule takeWhile_append2) (use that in blast)
    ultimately have "\<not> (\<forall>x \<in> set (drop (i + 1) p). ?P x)" by (metis length_append le_add1 linorder_not_less)
    then obtain x where "x \<in> set (drop (i + 1) p)" "\<not> ?P x" by blast
    then have "takeWhile ?P (drop (i + 1) p @ s) = takeWhile ?P (drop (i + 1) p)" for s
      by (rule takeWhile_append1)
    then show ?thesis unfolding k_def scan_while_def d by simp
  qed
  have "find_str ?pat (p @ r') (k + 1) = Some close"
    by (rule find_str_local [OF close(1)]) (use close(2) in simp)
  with k lbr close(2) show ?thesis
    unfolding skip_lua_long_def Let_def same by (simp add: nth_append)
qed

lemma skip_quoted_local:
  assumes "skip_quoted (p @ r) 0 python = length p" "p \<noteq> []" "alike r r'" "\<not> is_word_char (hd p)"
  shows "skip_quoted (p @ r') 0 python = length p"
proof (cases "r = []")
  case True with assms alike_Nil show ?thesis by simp
next
  case False
  obtain q p0 where p: "p = q # p0" using assms(2) by (cases p) auto
  show ?thesis
  proof (cases "python \<and> starts_at (p @ r) [q, q, q] 0")
    case True
    with assms(1) False obtain close where
      close: "find_str [q, q, q] (p @ r) 3 = Some close" "close + 3 = length p"
      by (auto simp: skip_quoted_def Let_def p split: option.splits)
    from find_str_Some [OF close(1)] close(2) have "3 \<le> length p" by simp
    with True have "starts_at (p @ r') [q, q, q] 0" by (simp add: starts_at_def)
    moreover have "find_str [q, q, q] (p @ r') 3 = Some close"
      by (rule find_str_local [OF close(1)]) (use close(2) in simp)
    ultimately show ?thesis using True close(2) by (simp add: skip_quoted_def Let_def p)
  next
    case plain: False
    with assms(1) False have stop: "quoted_stop (p @ r) q 1 + 1 = length p"
      by (auto simp: skip_quoted_def Let_def p min_def split: if_splits)
    then have same: "quoted_stop (p @ r') q 1 = quoted_stop (p @ r) q 1" by (intro quoted_stop_local) simp
    have "\<not> (python \<and> starts_at (p @ r') [q, q, q] 0)"
    proof
      assume s: "python \<and> starts_at (p @ r') [q, q, q] 0"
      have "1 \<le> quoted_stop (p @ r) q 1" by (rule quoted_stop_ge)
      with stop have len: "2 \<le> length p" by simp
      show False
      proof (cases "length p = 2")
        case True
        then obtain x where px: "p = [q, x]" using p by (cases p0) auto
        with s have "x = q" "r' \<noteq> [] \<and> hd r' = q"
          by (cases r'; auto simp: starts_at_def)+
        with alike_char [OF assms(3), of q] assms(4) p have "r \<noteq> [] \<and> hd r = q" by simp
        with px \<open>x = q\<close> s plain show False by (cases r) (auto simp: starts_at_def)
      next
        case False
        with len have "3 \<le> length p" by simp
        with s plain show False by (simp add: starts_at_def)
      qed
    qed
    with same stop show ?thesis by (auto simp: skip_quoted_def Let_def p)
  qed
qed

lemma scan_to_end_local:
  assumes "scan_while P (p @ r) j = length p" "j \<le> length p"
    and "r = [] \<or> \<not> P (hd r) \<Longrightarrow> r' = [] \<or> \<not> P (hd r')"
  shows "scan_while P (p @ r') j = length p"
  using assms by (simp add: scan_to_end)


text \<open>The branches of \<open>next_code_token\<close> at the start of a text.\<close>

lemma next_code_token_quote:
  "c = double_quote \<or> c = single_quote \<Longrightarrow>
    next_code_token (c # q) python 0 = \<lparr>ct_kind = KString, ct_begin = 0, ct_end = skip_quoted (c # q) 0 python\<rparr>"
  by (simp add: next_code_token_def Let_def)

lemma next_code_token_hash:
  "next_code_token (CHR ''#'' # q) True 0 = \<lparr>ct_kind = KComment, ct_begin = 0, ct_end = line_end (CHR ''#'' # q) 0\<rparr>"
  by (simp add: next_code_token_def Let_def)

definition comment_end :: "string \<Rightarrow> nat" where
  "comment_end s = (if 2 < length s \<and> s ! 2 = CHR ''['' \<and> skip_lua_long s 2 \<noteq> 2 then skip_lua_long s 2 else line_end s 2)"

lemma next_code_token_dashes:
  "next_code_token (CHR ''-'' # CHR ''-'' # q) False 0 =
    \<lparr>ct_kind = KComment, ct_begin = 0, ct_end = comment_end (CHR ''-'' # CHR ''-'' # q)\<rparr>"
  by (simp add: next_code_token_def Let_def comment_end_def numeral_2_eq_2)

lemma next_code_token_long:
  "skip_lua_long (CHR ''['' # q) 0 \<noteq> 0 \<Longrightarrow>
    next_code_token (CHR ''['' # q) False 0 = \<lparr>ct_kind = KString, ct_begin = 0, ct_end = skip_lua_long (CHR ''['' # q) 0\<rparr>"
  by (simp add: next_code_token_def Let_def)

definition special_start :: "bool \<Rightarrow> string \<Rightarrow> bool" where
  "special_start python s \<longleftrightarrow>
     hd s = double_quote \<or> hd s = single_quote \<or> (python \<and> hd s = CHR ''#'')
     \<or> (\<not> python \<and> (hd s = CHR ''-'' \<and> 1 < length s \<and> s ! 1 = CHR ''-''
                    \<or> hd s = CHR ''['' \<and> skip_lua_long s 0 \<noteq> 0))"

lemma next_code_token_other:
  "\<not> special_start python (c # q) \<Longrightarrow>
    next_code_token (c # q) python 0 =
      (if is_word_char c then \<lparr>ct_kind = KWord, ct_begin = 0, ct_end = scan_while is_word_char (c # q) 0\<rparr>
       else \<lparr>ct_kind = KOther, ct_begin = 0, ct_end = 1\<rparr>)"
  by (auto simp: next_code_token_def Let_def special_start_def)

lemma comment_end_ge: "2 \<le> comment_end s"
  using skip_lua_long_bounds [of 2 s] scan_while_ge [of 2 "\<lambda>c. c \<noteq> newline_char" s]
  unfolding comment_end_def line_end_def by auto

lemma comment_end_local:
  assumes "comment_end (p @ r) = length p" "2 \<le> length p" "alike r r'"
  shows "comment_end (p @ r') = length p"
proof -
  note stop = alike_newline [OF assms(3)]
  show ?thesis
  proof (cases "2 < length p")
    case True
    with skip_lua_long_none_local [OF True assms(3)] skip_lua_long_local [OF _ True assms(3)] assms(1) assms(2)
      scan_to_end_local [of "\<lambda>c. c \<noteq> newline_char" p r 2 r', OF _ _ stop]
    show ?thesis unfolding comment_end_def line_end_def by (auto simp: nth_append split: if_splits)
  next
    case False
    with assms(2) have two: "length p = 2" by simp
    have "\<not> (2 < length (p @ r) \<and> (p @ r) ! 2 = CHR ''['' \<and> skip_lua_long (p @ r) 2 \<noteq> 2)"
      using assms(1) skip_lua_long_bounds [of 2 "p @ r"] two by (auto simp: comment_end_def split: if_splits)
    with assms(1) have "scan_while (\<lambda>c. c \<noteq> newline_char) (p @ r) 2 = length p"
      by (auto simp: comment_end_def line_end_def)
    with scan_to_end [of 2 p "\<lambda>c. c \<noteq> newline_char" r] two have r: "r = [] \<or> hd r = newline_char" by simp
    with stop have r': "r' = [] \<or> hd r' = newline_char" by simp
    with scan_to_end [of 2 p "\<lambda>c. c \<noteq> newline_char" r'] two
    have "line_end (p @ r') 2 = 2" by (simp add: line_end_def)
    moreover have "\<not> (2 < length (p @ r') \<and> (p @ r') ! 2 = CHR ''['')"
      using r' two by (cases r') (auto simp: nth_append)
    ultimately show ?thesis using two by (auto simp: comment_end_def)
  qed
qed

lemma special_start_local:
  assumes "p \<noteq> []" "alike r r'"
  shows "special_start python (p @ r) \<longleftrightarrow> special_start python (p @ r')"
proof -
  obtain c p0 where pc: "p = c # p0" using assms(1) by (cases p) auto
  have "(1 < length (p @ r) \<and> (p @ r) ! 1 = CHR ''-'') \<longleftrightarrow> (1 < length (p @ r') \<and> (p @ r') ! 1 = CHR ''-'')"
    using alike_char [OF assms(2), of "CHR ''-''"] unfolding pc
    by (cases p0; cases r; cases r') auto
  moreover have "skip_lua_long (p @ r) 0 = 0 \<longleftrightarrow> skip_lua_long (p @ r') 0 = 0"
    by (rule skip_lua_long_none_local [OF _ assms(2)]) (use assms(1) in simp)
  ultimately show ?thesis using assms(1) unfolding special_start_def by auto
qed

text \<open>A token is found again when what follows it is replaced by something alike.\<close>

lemma next_code_token_local:
  assumes t: "next_code_token (p @ r) python 0 = \<lparr>ct_kind = k, ct_begin = 0, ct_end = length p\<rparr>"
    and p: "p \<noteq> []" and al: "alike r r'"
  shows "next_code_token (p @ r') python 0 = \<lparr>ct_kind = k, ct_begin = 0, ct_end = length p\<rparr>"
proof -
  obtain c p0 where pc: "p = c # p0" using p by (cases p) auto
  note special = special_start_local [OF p al, of python]
  consider (quote) "c = double_quote \<or> c = single_quote"
    | (hash) "python" "c = CHR ''#''"
    | (comment) s s' where "\<not> python" "c = CHR ''-''" "p0 @ r = CHR ''-'' # s" "p0 @ r' = CHR ''-'' # s'"
    | (long) "\<not> python" "c = CHR ''[''" "skip_lua_long (p @ r) 0 \<noteq> 0" "skip_lua_long (p @ r') 0 \<noteq> 0"
    | (other) "\<not> special_start python (p @ r)" "\<not> special_start python (p @ r')"
  proof (cases "special_start python (p @ r)")
    case True
    with special have b: "special_start python (p @ r')" by simp
    show ?thesis
    proof (cases "c = double_quote \<or> c = single_quote \<or> python")
      case True
      with \<open>special_start python (p @ r)\<close> that(1,2) show ?thesis by (auto simp: special_start_def pc)
    next
      case False
      show ?thesis
      proof (cases "c = CHR ''-''")
        case True
        with False \<open>special_start python (p @ r)\<close> b obtain s s' where
          "p0 @ r = CHR ''-'' # s" "p0 @ r' = CHR ''-'' # s'"
          by (cases "p0 @ r"; cases "p0 @ r'") (auto simp: special_start_def pc)
        with True False that(3) show ?thesis by blast
      next
        case no_dash: False
        with False \<open>special_start python (p @ r)\<close> b that(4) show ?thesis by (auto simp: special_start_def pc)
      qed
    qed
  next
    case False
    with special that(5) show ?thesis by blast
  qed
  then show ?thesis
  proof cases
    case quote
    with t pc have "skip_quoted (p @ r) 0 python = length p" "k = KString" by (simp_all add: next_code_token_quote)
    with skip_quoted_local [OF _ p al] quote pc show ?thesis by (auto simp: next_code_token_quote)
  next
    case hash
    with t pc have "line_end (p @ r) 0 = length p" "k = KComment" by (simp_all add: next_code_token_hash)
    moreover from this have "line_end (p @ r') 0 = length p"
      unfolding line_end_def by (intro scan_to_end_local [of "\<lambda>c. c \<noteq> newline_char" p r, OF _ _ alike_newline [OF al]]) simp_all
    ultimately show ?thesis using hash pc by (simp add: next_code_token_hash)
  next
    case comment
    with t pc have e: "comment_end (p @ r) = length p" "k = KComment" by (simp_all add: next_code_token_dashes)
    from comment_end_ge [of "p @ r"] e(1) have "2 \<le> length p" by simp
    from comment_end_local [OF e(1) this al] e comment pc show ?thesis by (simp add: next_code_token_dashes)
  next
    case long
    with t pc have "skip_lua_long (p @ r) 0 = length p" "k = KString" by (simp_all add: next_code_token_long)
    moreover from this long have "skip_lua_long (p @ r') 0 = length p"
      by (intro skip_lua_long_local [OF _ _ al]) (use p in auto)
    ultimately show ?thesis using long pc by (simp add: next_code_token_long)
  next
    case other
    show ?thesis
    proof (cases "is_word_char c")
      case True
      with other t pc have "scan_while is_word_char (p @ r) 0 = length p" "k = KWord"
        by (simp_all add: next_code_token_other)
      moreover from this have "scan_while is_word_char (p @ r') 0 = length p"
        by (intro scan_to_end_local [of is_word_char p r, OF _ _ alike_not_word [OF al]]) simp_all
      ultimately show ?thesis using other pc True by (simp add: next_code_token_other)
    next
      case False with other t pc show ?thesis by (simp add: next_code_token_other)
    qed
  qed
qed

subsection \<open>Replacing words in a token list\<close>

text \<open>Two tokens that differ at most in which word they are.\<close>

fun same_piece :: "piece \<Rightarrow> piece \<Rightarrow> bool" where
  "same_piece (k, p) (k', p') \<longleftrightarrow>
     k = k' \<and> (p = p' \<or> k = KWord \<and> p' \<noteq> [] \<and> (\<forall>c \<in> set p'. is_word_char c))"

lemma next_word_token:
  assumes "ct_kind (next_code_token s python 0) = KWord" "s \<noteq> []"
  shows "is_word_char (hd s)" "ct_end (next_code_token s python 0) = length (takeWhile is_word_char s)"
  using assms by (auto simp: next_code_token_def Let_def hd_conv_nth scan_while_def split: if_splits)

lemma next_code_token_equals:
  "next_code_token (CHR ''='' # q) python 0 = \<lparr>ct_kind = KOther, ct_begin = 0, ct_end = 1\<rparr>"
  by (simp add: next_code_token_def Let_def)

lemma lex_Nil [simp]: "lex python [] = []"
  by (simp add: lex.simps)

lemma lex_Cons:
  assumes "lex python s = (k, p) # ts"
  obtains r where "s = p @ r" "p \<noteq> []" "ts = lex python r"
    "next_code_token s python 0 = \<lparr>ct_kind = k, ct_begin = 0, ct_end = length p\<rparr>"
proof -
  have s: "s \<noteq> []" using assms by (auto simp: lex.simps [of _ s])
  let ?t = "next_code_token s python 0"
  have b: "0 < ct_end ?t" "ct_end ?t \<le> length s" using next_code_token_bounds [of 0 s python] s by auto
  have e: "k = ct_kind ?t" "p = take (ct_end ?t) s" "ts = lex python (drop (ct_end ?t) s)"
    using assms s by (auto simp: lex.simps [of _ s] Let_def)
  have "ct_begin ?t = 0" by simp
  with b e have t: "?t = \<lparr>ct_kind = k, ct_begin = 0, ct_end = length p\<rparr>" by (cases ?t) (simp add: min_def)
  show ?thesis
  proof (rule that)
    show "s = p @ drop (ct_end ?t) s" unfolding e(2) by simp
    show "p \<noteq> []" using b(1) s unfolding e(2) by simp
  qed (use e(3) t in simp_all)
qed

lemma lex_head:
  assumes "p \<noteq> []" "next_code_token (p @ r) python 0 = \<lparr>ct_kind = k, ct_begin = 0, ct_end = length p\<rparr>"
  shows "lex python (p @ r) = (k, p) # lex python r"
  using assms by (subst lex.simps) (simp add: Let_def)

lemma concat_lex: "concat (map snd (lex python s)) = s"
proof (induction python s rule: lex.induct)
  case (1 python s)
  then show ?case by (cases "s = []") (simp_all add: lex.simps [of _ s] Let_def)
qed

lemma word_piece:
  assumes "next_code_token (p @ r) python 0 = \<lparr>ct_kind = KWord, ct_begin = 0, ct_end = length p\<rparr>" "p \<noteq> []"
  shows "(\<forall>c \<in> set p. is_word_char c) \<and> (r = [] \<or> \<not> is_word_char (hd r))"
proof -
  have "length (takeWhile is_word_char (p @ r)) = length p"
    using next_word_token [of "p @ r" python] assms by simp
  then show ?thesis unfolding length_takeWhile_append by blast
qed

lemma alike_refl_append: "p \<noteq> [] \<Longrightarrow> hd p \<noteq> CHR ''='' \<Longrightarrow> alike (p @ r) (p @ r')"
  by (cases p) (simp_all add: alike_def first_class_def)

lemma alike_words:
  assumes "p \<noteq> []" "p' \<noteq> []" "is_word_char (hd p)" "is_word_char (hd p')"
  shows "alike (p @ r) (p' @ r')"
  using assms by (cases p; cases p') (auto simp: alike_def first_class_def)

lemma alike_equals: "alike r r' \<Longrightarrow> alike (CHR ''='' # r) (CHR ''='' # r')"
  by (simp add: alike_def first_class_def)

lemma alike_lex:
  "list_all2 same_piece (lex python s) ts' \<Longrightarrow> alike s (concat (map snd ts'))"
proof (induction "lex python s" arbitrary: s ts')
  case Nil
  then have "s = []" by (metis concat_lex concat.simps(1) list.map(1))
  with Nil show ?case by (simp add: alike_Nil)
next
  case (Cons t ts)
  obtain k p where t: "t = (k, p)" by (cases t)
  obtain r where s: "s = p @ r" "p \<noteq> []" "ts = lex python r"
    and nt: "next_code_token s python 0 = \<lparr>ct_kind = k, ct_begin = 0, ct_end = length p\<rparr>"
    using lex_Cons [OF Cons(2) [symmetric, unfolded t]] by metis
  from Cons.prems Cons(2) [symmetric] t obtain p' us where
    ts': "ts' = (k, p') # us" and p': "p = p' \<or> k = KWord \<and> p' \<noteq> [] \<and> (\<forall>c \<in> set p'. is_word_char c)"
    and us: "list_all2 same_piece ts us"
    by (cases ts') auto
  show ?case
  proof (cases "p = p'")
    case True
    show ?thesis
    proof (cases "hd p = CHR ''=''")
      case False
      with True s show ?thesis by (simp add: ts' alike_refl_append)
    next
      case eq: True
      then obtain q where "s = CHR ''='' # q" using s by (cases p) auto
      with nt s eq have "p = ''=''" by (cases p) (auto simp: next_code_token_equals)
      moreover from Cons.hyps(1) [OF s(3)] us s(3) have "alike r (concat (map snd us))" by simp
      ultimately show ?thesis using True s by (simp add: ts' alike_equals)
    qed
  next
    case False
    with p' have k: "k = KWord" and w: "p' \<noteq> []" "is_word_char (hd p')" by auto
    from word_piece nt s k have "is_word_char (hd p)" by auto
    with w s show ?thesis by (simp add: ts' alike_words)
  qed
qed

text \<open>Words may be replaced by words: the tokens of the new text are the replaced tokens.\<close>

lemma relex:
  "list_all2 same_piece (lex python s) ts' \<Longrightarrow> lex python (concat (map snd ts')) = ts'"
proof (induction "lex python s" arbitrary: s ts')
  case Nil
  then show ?case by (simp add: lex.simps)
next
  case (Cons t ts)
  obtain k p where t: "t = (k, p)" by (cases t)
  obtain r where s: "s = p @ r" "p \<noteq> []" "ts = lex python r"
    and nt: "next_code_token s python 0 = \<lparr>ct_kind = k, ct_begin = 0, ct_end = length p\<rparr>"
    using lex_Cons [OF Cons(2) [symmetric, unfolded t]] by metis
  from Cons.prems Cons(2) [symmetric] t obtain p' us where
    ts': "ts' = (k, p') # us" and p': "p = p' \<or> k = KWord \<and> p' \<noteq> [] \<and> (\<forall>c \<in> set p'. is_word_char c)"
    and us: "list_all2 same_piece ts us"
    by (cases ts') auto
  let ?r = "concat (map snd us)"
  from us s(3) alike_lex have al: "alike r ?r" by blast
  from Cons.hyps(1) [OF s(3)] us s(3) have IH: "lex python ?r = us" by simp
  show ?case
  proof (cases "p = p'")
    case True
    from next_code_token_local [OF nt [unfolded s(1)] s(2) al] s(2) lex_head IH True show ?thesis
      by (simp add: ts')
  next
    case False
    with p' have k: "k = KWord" and w: "p' \<noteq> []" "\<forall>c \<in> set p'. is_word_char c" by auto
    from word_piece nt s k have "r = [] \<or> \<not> is_word_char (hd r)" by blast
    then have stop: "?r = [] \<or> \<not> is_word_char (hd ?r)" by (rule alike_not_word [OF al])
    with w have end': "length (takeWhile is_word_char (p' @ ?r)) = length p'" unfolding length_takeWhile_append by blast
    obtain c q where c: "p' = c # q" "is_word_char c" using w by (cases p') auto
    then have "c \<noteq> double_quote" "c \<noteq> single_quote" "c \<noteq> CHR ''#''" "c \<noteq> CHR ''-''" "c \<noteq> CHR ''[''"
      using not_word by metis+
    then have "\<not> special_start python (c # q @ ?r)" by (simp add: special_start_def)
    from next_code_token_other [OF this] end' c
    have "next_code_token (p' @ ?r) python 0 = \<lparr>ct_kind = KWord, ct_begin = 0, ct_end = length p'\<rparr>"
      by (simp add: scan_while_def)
    from lex_head [OF w(1) this] IH k show ?thesis by (simp add: ts')
  qed
qed

subsection \<open>Uses as a function of the token list\<close>

fun piece_significant :: "piece \<Rightarrow> bool" where
  "piece_significant (k, p) \<longleftrightarrow> \<not> (k = KComment \<or> k = KOther \<and> is_space (hd p))"

fun piece_punct :: "char \<Rightarrow> piece list \<Rightarrow> bool" where
  "piece_punct c [] \<longleftrightarrow> False"
| "piece_punct c ((k, p) # ts) \<longleftrightarrow> k = KOther \<and> hd p = c"

abbreviation significant_from :: "piece list \<Rightarrow> piece list" where
  "significant_from \<equiv> dropWhile (\<lambda>t. \<not> piece_significant t)"

definition piece_use :: "bool \<Rightarrow> char list \<Rightarrow> piece list \<Rightarrow> piece list \<Rightarrow> bool" where
  "piece_use python brackets prior later =
     (let prev = significant_from prior;
          nxt = significant_from later;
          concat = (\<not> python \<and> piece_punct CHR ''.'' prev \<and> piece_punct CHR ''.'' (tl prev))
      in if (piece_punct CHR ''.'' prev \<and> \<not> concat) \<or> (\<not> python \<and> piece_punct CHR '':'' prev) then False
         else if piece_punct CHR ''='' nxt
         then (let beyond = significant_from (tl nxt);
                   single = (\<not> piece_punct CHR ''='' beyond \<or> length beyond \<noteq> length (tl nxt));
                   inner = (case brackets of [] \<Rightarrow> CHR 0x00 | b # bs \<Rightarrow> b);
                   key_position =
                     (if python then inner = CHR ''(''
                      else inner = CHR ''{'' \<and> (piece_punct CHR ''{'' prev \<or> piece_punct CHR '','' prev \<or> piece_punct CHR '';'' prev))
               in \<not> (single \<and> key_position))
         else True)"

fun use_flags :: "bool \<Rightarrow> char list \<Rightarrow> piece list \<Rightarrow> piece list \<Rightarrow> bool list" where
  "use_flags python brackets prior [] = []"
| "use_flags python brackets prior ((k, p) # later) =
     (k = KWord \<and> piece_use python brackets prior later)
     # use_flags python (if k = KOther then next_brackets (hd p) brackets else brackets) ((k, p) # prior) later"

definition code_token_ok :: "string \<Rightarrow> code_token \<Rightarrow> bool" where
  "code_token_ok s t \<longleftrightarrow> ct_begin t < ct_end t \<and> ct_end t \<le> length s"

lemma chain_ok: "tokens_chain i ts (length s) \<Longrightarrow> list_all (code_token_ok s) ts"
  by (induction ts arbitrary: i) (auto simp: code_token_ok_def)

lemma hd_token_text: "code_token_ok s t \<Longrightarrow> hd (token_text s t) = s ! ct_begin t"
  by (simp add: code_token_ok_def token_text_def slice_def hd_conv_nth)

lemma significant_piece: "code_token_ok s t \<Longrightarrow> piece_significant (piece_of s t) = significant s t"
  by (simp add: piece_of_def significant_def hd_token_text)

lemma significant_from_map:
  "list_all (code_token_ok s) ts \<Longrightarrow>
    significant_from (map (piece_of s) ts) = map (piece_of s) (dropWhile (\<lambda>t. \<not> significant s t) ts)"
  by (induction ts) (simp_all add: significant_piece)

lemma punct_piece: "list_all (code_token_ok s) ts \<Longrightarrow> piece_punct c (map (piece_of s) ts) = at_punct s c ts"
  by (cases ts) (simp_all add: piece_of_def hd_token_text)

lemma list_all_dropWhile: "list_all P xs \<Longrightarrow> list_all P (dropWhile Q xs)"
  by (induction xs) auto

lemma list_all_tl: "list_all P xs \<Longrightarrow> list_all P (tl xs)"
  by (cases xs) auto

lemmas list_all_suffix = list_all_dropWhile list_all_tl

lemma adjacent_iff:
  assumes "tokens_chain i (t # ts) n" "dropWhile P ts \<noteq> []"
  shows "ct_begin (hd (dropWhile P ts)) \<noteq> ct_end t \<longleftrightarrow> length (dropWhile P ts) \<noteq> length ts"
proof -
  have later: "ct_begin u \<ge> i" if "tokens_chain i us n" "u \<in> set us" for i u us
    using that by (induction us arbitrary: i) force+
  show ?thesis
  proof (cases ts)
    case (Cons u us)
    with assms have u: "ct_begin u = ct_end t" "u \<in> set ts" "ct_begin u < ct_end u" "tokens_chain (ct_end u) us n" by auto
    show ?thesis
    proof (cases "P u")
      case False with Cons u show ?thesis by simp
    next
      case True
      with Cons have d: "dropWhile P ts = dropWhile P us" by simp
      with assms(2) have "hd (dropWhile P us) \<in> set us" by (metis hd_in_set set_dropWhileD)
      from later [OF u(4) this] u(1,3) have "ct_begin (hd (dropWhile P ts)) \<noteq> ct_end t" by (simp add: d)
      moreover have "length (dropWhile P us) < length ts" using length_dropWhile_le [of P us] by (simp add: Cons)
      ultimately show ?thesis by (simp add: d)
    qed
  qed (use assms in simp)
qed

lemma chain_suffix:
  "tokens_chain i ts n \<Longrightarrow> \<exists>j. tokens_chain j (dropWhile P ts) n"
  by (induction ts arbitrary: i) auto

lemma is_use_piece:
  assumes "list_all (code_token_ok s) prior" "tokens_chain i later (length s)"
  shows "is_use s python brackets prior later = piece_use python brackets (map (piece_of s) prior) (map (piece_of s) later)"
proof -
  note ok = assms(1) chain_ok [OF assms(2)]
  let ?sig = "dropWhile (\<lambda>t. \<not> significant s t)"
  let ?nxt = "?sig later" and ?beyond = "?sig (tl (?sig later))"
  note oks = ok list_all_suffix
  have adj: "(ct_begin (hd ?beyond) \<noteq> ct_end (hd ?nxt)) = (length ?beyond \<noteq> length (tl ?nxt))"
    if "at_punct s CHR ''='' ?nxt" "at_punct s CHR ''='' ?beyond"
  proof -
    from that obtain t ts where n: "?nxt = t # ts" by (cases ?nxt) auto
    from chain_suffix [OF assms(2)] n obtain j where "tokens_chain j (t # ts) (length s)" by metis
    from adjacent_iff [OF this, of "\<lambda>t. \<not> significant s t"] that n show ?thesis by (cases "?sig ts") auto
  qed
  show ?thesis
    unfolding is_use_def piece_use_def Let_def
    using adj by (simp add: significant_from_map punct_piece oks map_tl [symmetric])
qed

lemma piece_of_kind [simp]: "fst (piece_of s t) = ct_kind t" "snd (piece_of s t) = token_text s t"
  by (simp_all add: piece_of_def)

lemma uses_loop_flags:
  assumes "list_all (code_token_ok s) prior" "tokens_chain i later (length s)"
  shows "uses_loop s python brackets prior later
    = map (\<lambda>(t, f). (ct_begin t, ct_end t))
        (filter snd (zip later (use_flags python brackets (map (piece_of s) prior) (map (piece_of s) later))))"
  using assms
proof (induction later arbitrary: i prior brackets)
  case (Cons t later)
  then have ok: "code_token_ok s t" and chain: "tokens_chain (ct_end t) later (length s)" by (auto simp: code_token_ok_def)
  with Cons.prems have prior: "list_all (code_token_ok s) (t # prior)" by simp
  have p: "piece_of s t = (ct_kind t, token_text s t)" by (simp add: piece_of_def)
  note IH = Cons.IH [OF prior chain]
  note u = is_use_piece [OF Cons.prems(1) chain, of python brackets]
  show ?case
    by (cases "ct_kind t") (simp_all add: IH p u hd_token_text [OF ok])
qed simp

definition renamed :: "(string \<Rightarrow> string option) \<Rightarrow> string \<Rightarrow> string" where
  "renamed renames w = (case renames w of None \<Rightarrow> w | Some v \<Rightarrow> v)"

definition rename_pieces :: "(string \<Rightarrow> string option) \<Rightarrow> bool list \<Rightarrow> piece list \<Rightarrow> piece list" where
  "rename_pieces renames fs ps = map2 (\<lambda>f (k, p). (k, if f then renamed renames p else p)) fs ps"

lemma length_use_flags [simp]: "length (use_flags python brackets prior later) = length later"
  by (induction python brackets prior later rule: use_flags.induct) simp_all

lemma slice_self [simp]: "slice s i i = []"
  by (simp add: slice_def)

lemma rename_loop_pieces:
  assumes "tokens_chain i later (length s)" "c \<le> i" "length fs = length later"
  shows "rename_loop s renames c (map (\<lambda>(t, f). (ct_begin t, ct_end t)) (filter snd (zip later fs)))
    = slice s c i @ concat (map snd (rename_pieces renames fs (map (piece_of s) later)))"
  using assms
proof (induction later arbitrary: i c fs)
  case Nil
  then show ?case by (simp add: rename_pieces_def slice_def)
next
  case (Cons t later)
  then obtain f fs' where fs: "fs = f # fs'" "length fs' = length later" by (cases fs) auto
  from Cons.prems have t: "ct_begin t = i" "i < ct_end t" "tokens_chain (ct_end t) later (length s)" by auto
  have tx: "token_text s t = slice s i (ct_end t)" by (simp add: token_text_def t)
  note IH = Cons.IH [OF t(3) _ fs(2)]
  from Cons.prems(2) t(2) have "c \<le> ct_end t" by simp
  note carry = IH [OF this] slice_append [of c i "ct_end t" s]
  show ?case
  proof (cases "f \<and> renames (token_text s t) \<noteq> None")
    case True
    then obtain v where "renames (slice s i (ct_end t)) = Some v" by (auto simp: tx)
    with True IH [of "ct_end t"] show ?thesis
      by (simp add: fs t(1) rename_pieces_def piece_of_def tx renamed_def)
  next
    case False
    with carry Cons.prems(2) t(2) show ?thesis
      by (auto simp: fs t(1) rename_pieces_def piece_of_def tx renamed_def)
  qed
qed

lemma same_piece_KOther: "same_piece x y \<Longrightarrow> fst x = fst y \<and> (fst x \<noteq> KWord \<longrightarrow> x = y)"
  by (cases x; cases y) auto

lemma same_significant: "same_piece x y \<Longrightarrow> piece_significant x = piece_significant y"
  by (cases x; cases y) auto

lemma same_significant_from:
  "list_all2 same_piece xs ys \<Longrightarrow> list_all2 same_piece (significant_from xs) (significant_from ys)"
  by (induction rule: list_all2_induct) (auto simp: same_significant)

lemma same_punct: "list_all2 same_piece xs ys \<Longrightarrow> piece_punct c xs = piece_punct c ys"
  by (induction rule: list_all2_induct) auto

lemma same_tl: "list_all2 same_piece xs ys \<Longrightarrow> list_all2 same_piece (tl xs) (tl ys)"
  by (induction rule: list_all2_induct) auto

lemma same_use:
  assumes "list_all2 same_piece prior prior'" "list_all2 same_piece later later'"
  shows "piece_use python brackets prior later = piece_use python brackets prior' later'"
proof -
  note s = same_significant_from [OF assms(1)] same_significant_from [OF assms(2)]
  note t = same_significant_from [OF same_tl [OF s(2)]] same_tl [OF s(1)] same_tl [OF s(2)]
  from s t show ?thesis
    unfolding piece_use_def Let_def by (simp add: same_punct [of _ "significant_from prior'"]
      same_punct [of _ "significant_from later'"] same_punct [of _ "tl (significant_from prior')"]
      same_punct [of _ "significant_from (tl (significant_from later'))"] list_all2_lengthD)
qed

lemma same_flags:
  "list_all2 same_piece prior prior' \<Longrightarrow> list_all2 same_piece later later' \<Longrightarrow>
    use_flags python brackets prior later = use_flags python brackets prior' later'"
proof (induction python brackets prior later arbitrary: prior' later' rule: use_flags.induct)
  case (2 python brackets prior k p later)
  then obtain q us where l: "later' = (k, q) # us" and same: "same_piece (k, p) (k, q)"
    and us: "list_all2 same_piece later us" by (cases later') auto
  from 2(2) same have "list_all2 same_piece ((k, p) # prior) ((k, q) # prior')" by simp
  from 2(1) [OF this us] same_use [OF 2(2) us] same show ?case by (auto simp: l)
qed simp

lemma flags_words: "(t, True) \<in> set (zip later (use_flags python brackets prior later)) \<Longrightarrow> fst t = KWord"
  by (induction python brackets prior later rule: use_flags.induct) auto

definition names_ok :: "(string \<Rightarrow> string option) \<Rightarrow> bool" where
  "names_ok renames \<longleftrightarrow> (\<forall>v \<in> ran renames. v \<noteq> [] \<and> (\<forall>c \<in> set v. is_word_char c))"

lemma rename_pieces_same:
  assumes "names_ok renames" "length fs = length ps" "\<And>t. (t, True) \<in> set (zip ps fs) \<Longrightarrow> fst t = KWord"
  shows "list_all2 same_piece ps (rename_pieces renames fs ps)"
  using assms(2,3)
proof (induction ps arbitrary: fs)
  case (Cons t ps)
  then obtain f fs' where fs: "fs = f # fs'" "length fs' = length ps" by (cases fs) auto
  obtain k p where t: "t = (k, p)" by (cases t)
  from Cons.prems(2) fs have IH: "list_all2 same_piece ps (rename_pieces renames fs' ps)"
    by (intro Cons.IH) auto
  from Cons.prems(2) [of t] fs t have "f \<Longrightarrow> k = KWord" by auto
  with assms(1) have "same_piece (k, p) (k, if f then renamed renames p else p)"
    by (auto simp: renamed_def names_ok_def ran_def split: option.splits)
  with IH show ?case by (simp add: fs t rename_pieces_def)
qed (simp add: rename_pieces_def)

subsection \<open>Renaming\<close>

text \<open>The texts of the uses, in order, and which tokens are uses.\<close>

definition use_texts :: "string \<Rightarrow> string \<Rightarrow> string list" where
  "use_texts s language = map (\<lambda>(b, e). slice s b e) (identifier_uses s language)"

definition token_uses :: "string \<Rightarrow> string \<Rightarrow> bool list" where
  "token_uses s language =
     map (\<lambda>t. (ct_begin t, ct_end t) \<in> set (identifier_uses s language)) (code_tokenize s language)"

definition script_pieces :: "string \<Rightarrow> string \<Rightarrow> piece list" where
  "script_pieces s language = map (piece_of s) (code_tokenize s language)"

lemma tokenize_chain: "tokens_chain 0 (code_tokenize s language) (length s)"
  unfolding code_tokenize_def by (rule code_tokens_from_chain) simp

lemma script_pieces_lex: "script_pieces s language = lex (is_python language) s"
  by (simp add: script_pieces_def code_tokenize_def pieces_are_lex)

abbreviation flags_of :: "string \<Rightarrow> string \<Rightarrow> bool list" where
  "flags_of s language \<equiv> use_flags (is_python language) [] [] (script_pieces s language)"

lemma identifier_uses_flags:
  "identifier_uses s language
    = map (\<lambda>(t, f). (ct_begin t, ct_end t)) (filter snd (zip (code_tokenize s language) (flags_of s language)))"
  using uses_loop_flags [OF _ tokenize_chain, of s "[]" "is_python language" "[]" language]
  by (simp add: identifier_uses_def script_pieces_def)

lemma chain_begins: "tokens_chain i ts n \<Longrightarrow> distinct (map ct_begin ts) \<and> (\<forall>t \<in> set ts. i \<le> ct_begin t)"
  by (induction ts arbitrary: i) fastforce+

lemma flagged_iff:
  assumes "distinct (map f ts)" "length fs = length ts"
  shows "map (\<lambda>t. f t \<in> f ` fst ` set (filter snd (zip ts fs))) ts = fs"
  using assms(2,1)
proof (induction ts fs rule: list_induct2')
  case (4 t ts b fs)
  then have IH: "map (\<lambda>t. f t \<in> f ` fst ` set (filter snd (zip ts fs))) ts = fs" by simp
  have sub: "fst ` set (filter snd (zip ts fs)) \<subseteq> set ts" by (auto dest: set_zip_leftD)
  have "map (\<lambda>u. f u \<in> f ` fst ` set (filter snd (zip (t # ts) (b # fs)))) ts
      = map (\<lambda>t. f t \<in> f ` fst ` set (filter snd (zip ts fs))) ts"
    using 4(3) by (auto simp: image_iff)
  moreover have "f t \<in> f ` fst ` set (filter snd (zip (t # ts) (b # fs))) \<longleftrightarrow> b"
    using 4(3) sub by auto
  ultimately show ?case by (simp only: list.map IH)
qed simp_all

lemma token_uses_flags: "token_uses s language = flags_of s language"
proof -
  let ?ts = "code_tokenize s language"
  let ?f = "\<lambda>t. (ct_begin t, ct_end t)"
  have d: "distinct (map ?f ?ts)"
    using chain_begins [OF tokenize_chain, of s language] by (auto simp: distinct_map inj_on_def)
  have "set (identifier_uses s language) = ?f ` fst ` set (filter snd (zip ?ts (flags_of s language)))"
    unfolding identifier_uses_flags by (force simp: image_iff)
  with flagged_iff [OF d, of "flags_of s language"] show ?thesis
    by (simp add: token_uses_def script_pieces_def)
qed

lemma rename_pieces_concat:
  "rename_identifiers s language renames
    = concat (map snd (rename_pieces renames (token_uses s language) (script_pieces s language)))"
  using rename_loop_pieces [OF tokenize_chain, of 0 "flags_of s language" s language renames]
  by (simp add: rename_identifiers_def identifier_uses_flags token_uses_flags script_pieces_def)

lemma use_texts_pieces:
  "use_texts s language = map (snd \<circ> fst) (filter snd (zip (script_pieces s language) (token_uses s language)))"
proof -
  have "map (snd \<circ> fst) (filter snd (zip (map (piece_of s) ts) fs))
      = map (\<lambda>(b, e). slice s b e) (map (\<lambda>(t, f). (ct_begin t, ct_end t)) (filter snd (zip ts fs)))"
    for ts fs
    by (induction ts fs rule: list_induct2') (simp_all add: token_text_def)
  then show ?thesis
    by (simp only: use_texts_def identifier_uses_flags token_uses_flags) (simp add: script_pieces_def)
qed

lemma renamed_pieces:
  fixes s language :: string
  assumes "names_ok renames"
  defines "s' \<equiv> rename_identifiers s language renames"
  shows "script_pieces s' language = rename_pieces renames (token_uses s language) (script_pieces s language)"
    and "token_uses s' language = token_uses s language"
proof -
  let ?ps = "script_pieces s language" and ?fs = "token_uses s language"
  define R where "R = rename_pieces renames ?fs ?ps"
  have same: "list_all2 same_piece ?ps R"
    unfolding R_def
  proof (rule rename_pieces_same [OF assms(1)])
    fix t assume "(t, True) \<in> set (zip ?ps ?fs)"
    then show "fst t = KWord" unfolding token_uses_flags by (rule flags_words)
  qed (simp add: token_uses_flags)
  have "s' = concat (map snd R)" unfolding s'_def R_def by (rule rename_pieces_concat)
  moreover from same have "lex (is_python language) (concat (map snd R)) = R"
    unfolding script_pieces_lex by (rule relex)
  ultimately have R: "script_pieces s' language = R" by (simp add: script_pieces_lex)
  then show "script_pieces s' language = rename_pieces renames ?fs ?ps" by (simp only: R_def)
  show "token_uses s' language = ?fs"
    unfolding token_uses_flags R using same_flags [OF _ same, of "[]" "[]"] by (simp add: token_uses_flags)
qed

text \<open>Renaming changes the uses of identifiers and nothing else: read by the same tokenizer, the renamed
  script has the tokens of the original, of the same kinds and in the same order, with the same ones being
  uses; each use has its new name (all at once, so two names can be swapped) and every other token, the
  strings, comments, fields, table keys and keyword arguments included, its old text. The new names have
  to be nonempty runs of letters, digits and underscores.\<close>

theorem renaming_changes_uses_only:
  assumes "names_ok renames"
  shows "script_pieces (rename_identifiers s language renames) language
      = map2 (\<lambda>u (k, w). (k, if u then renamed renames w else w)) (token_uses s language) (script_pieces s language)
    \<and> token_uses (rename_identifiers s language renames) language = token_uses s language
    \<and> use_texts (rename_identifiers s language renames) language = map (renamed renames) (use_texts s language)"
proof -
  note p = renamed_pieces [OF assms, of s language]
  have "map (snd \<circ> fst) (filter snd (zip (rename_pieces renames fs ps) fs))
      = map (renamed renames) (map (snd \<circ> fst) (filter snd (zip ps fs)))" for fs and ps :: "piece list"
    by (induction ps fs rule: list_induct2') (auto simp: rename_pieces_def)
  with p show ?thesis by (simp only: use_texts_pieces) (simp add: rename_pieces_def)
qed

theorem renaming_changes_uses_only_witness:
  "(let s = ''y = {x = x} -- x'' in
    use_texts (rename_identifiers s ''luau'' [''x'' \<mapsto> ''y'', ''y'' \<mapsto> ''x'']) ''luau'' = [''x'', ''y''])"
proof -
  have ok: "names_ok [''x'' \<mapsto> ''y'', ''y'' \<mapsto> ''x'']"
    by (auto simp: names_ok_def ran_def is_word_char_def is_alnum_def split: if_splits)
  have u: "use_texts ''y = {x = x} -- x'' ''luau'' = [''y'', ''x'']" by code_simp
  show ?thesis
    using renaming_changes_uses_only [OF ok, of "''y = {x = x} -- x''" "''luau''"]
    by (simp add: u renamed_def Let_def)
qed

text \<open>Renaming there and back gives the original script, byte for byte, when the second renaming undoes the
  first on the names the script uses; with a swap of two names this is the swap done twice.\<close>

theorem renaming_round_trip:
  assumes "names_ok renames"
    and "\<forall>w \<in> set (use_texts s language). renamed undo (renamed renames w) = w"
  shows "rename_identifiers (rename_identifiers s language renames) language undo = s"
proof -
  let ?ps = "script_pieces s language" and ?fs = "token_uses s language"
  have "map snd (rename_pieces undo fs (rename_pieces renames fs ps)) = map snd ps"
    if "\<forall>w \<in> set (map (snd \<circ> fst) (filter snd (zip ps fs))). renamed undo (renamed renames w) = w"
      "length fs = length ps" for fs and ps :: "piece list"
    using that(2,1) by (induction fs ps rule: list_induct2) (auto simp: rename_pieces_def split: prod.splits)
  from this [of ?ps ?fs] assms(2)
  have "map snd (rename_pieces undo ?fs (rename_pieces renames ?fs ?ps)) = map snd ?ps"
    by (simp add: use_texts_pieces token_uses_flags)
  then show ?thesis
    unfolding rename_pieces_concat [of "rename_identifiers s language renames"] renamed_pieces [OF assms(1)]
    by (simp add: script_pieces_lex concat_lex)
qed

theorem renaming_round_trip_witness:
  "(let swap = [''a'' \<mapsto> ''b1'', ''b1'' \<mapsto> ''a'']; s = ''a.b1 = f(b1, a=1)'' in
    rename_identifiers (rename_identifiers s ''python'' swap) ''python'' swap = s)"
proof -
  let ?swap = "[''a'' \<mapsto> ''b1'', ''b1'' \<mapsto> ''a'']"
  have ok: "names_ok ?swap"
    by (auto simp: names_ok_def ran_def is_word_char_def is_alnum_def is_digit_def split: if_splits)
  have u: "use_texts ''a.b1 = f(b1, a=1)'' ''python'' = [''a'', ''f'', ''b1'', ''1'']" by code_simp
  have undo: "\<forall>w \<in> set (use_texts ''a.b1 = f(b1, a=1)'' ''python''). renamed ?swap (renamed ?swap w) = w"
    unfolding u by (simp add: renamed_def)
  from renaming_round_trip [OF ok undo] show ?thesis by (simp add: Let_def)
qed

subsection \<open>The number of values a body returns: returnArity\<close>

definition opening_bracket :: "char \<Rightarrow> bool" where
  "opening_bracket c \<longleftrightarrow> c = CHR ''('' \<or> c = CHR ''['' \<or> c = CHR ''{''"

definition closing_bracket :: "char \<Rightarrow> bool" where
  "closing_bracket c \<longleftrightarrow> c = CHR '')'' \<or> c = CHR '']'' \<or> c = CHR ''}''"

definition ends_block :: "string \<Rightarrow> bool" where
  "ends_block w \<longleftrightarrow> w = ''end'' \<or> w = ''else'' \<or> w = ''elseif'' \<or> w = ''until''"

text \<open>The expression list after a \<open>return\<close>: whether there is a value, the commas at the top level, and the
  tokens from the one that ends the list on. \<open>final\<close> is the last significant byte.\<close>

fun return_list ::
  "string \<Rightarrow> bool \<Rightarrow> int \<Rightarrow> nat \<Rightarrow> bool \<Rightarrow> char \<Rightarrow> code_token list \<Rightarrow> bool \<times> nat \<times> code_token list" where
  "return_list s python depth commas any final [] = (any, commas, [])"
| "return_list s python depth commas any final (t # ts) =
     (case ct_kind t of
        KComment \<Rightarrow> (if python \<and> depth = 0 then (any, commas, t # ts)
                     else return_list s python depth commas any final ts)
      | KString \<Rightarrow> return_list s python depth commas True double_quote ts
      | KWord \<Rightarrow> (if depth = 0 \<and> \<not> python \<and> ends_block (token_text s t) then (any, commas, t # ts)
                  else return_list s python depth commas True CHR ''w'' ts)
      | KOther \<Rightarrow>
          (let d = s ! ct_begin t in
           if opening_bracket d then return_list s python (depth + 1) commas True d ts
           else if closing_bracket d then return_list s python (depth - 1) commas any d ts
           else if depth = 0 \<and> d = CHR '';'' then (any, commas, t # ts)
           else if depth = 0 \<and> d = newline_char
           then (if python \<or> final \<noteq> CHR '','' then (any, commas, t # ts)
                 else return_list s python depth commas any final ts)
           else if depth = 0 \<and> d = CHR '','' then return_list s python depth (commas + 1) any d ts
           else if \<not> is_space d then return_list s python depth commas True d ts
           else return_list s python depth commas any final ts))"

lemma return_list_rest:
  "return_list s python depth commas any final ts = (a, c, us) \<Longrightarrow> length us \<le> length ts \<and> commas \<le> c"
proof (induction ts arbitrary: python depth commas any final)
  case (Cons t ts)
  have IH: "return_list s python' depth' commas' any' final' ts = (a, c, us) \<Longrightarrow> commas \<le> commas' \<Longrightarrow>
      length us \<le> Suc (length ts) \<and> commas \<le> c" for python' depth' commas' any' final'
    using Cons.IH [of python' depth' commas' any' final'] by simp
  from Cons.prems show ?case
    by (simp add: Let_def split: code_token_kind.splits if_splits) (auto dest: IH)
qed simp

function best_return :: "string \<Rightarrow> bool \<Rightarrow> nat \<Rightarrow> code_token list \<Rightarrow> nat" where
  "best_return s python best [] = best"
| "best_return s python best (t # ts) =
     (if ct_kind t \<noteq> KWord \<or> token_text s t \<noteq> ''return'' then best_return s python best ts
      else case return_list s python 0 0 False CHR 0x00 ts of
             (any, commas, us) \<Rightarrow> best_return s python (if any then max best (commas + 1) else best) us)"
  by pat_completeness auto
termination
  by (relation "measure (\<lambda>(s, python, best, ts). length ts)")
     (auto dest!: return_list_rest [OF sym] simp: le_imp_less_Suc)

definition return_arity :: "string \<Rightarrow> string \<Rightarrow> nat" where
  "return_arity body language =
     min 8 (max 1 (best_return body (is_python language) 0 (code_tokenize body language)))"

text \<open>Every \<open>return\<close> outside the expression list of another is counted: the arity is at least what any
  \<open>return\<close> found first gives, up to 8.\<close>

lemma best_return_ge: "best \<le> best_return s python best ts"
proof (induction s python best ts rule: best_return.induct)
  case (2 s python best t ts)
  show ?case
  proof (cases "ct_kind t \<noteq> KWord \<or> token_text s t \<noteq> ''return''")
    case True with 2 show ?thesis by simp
  next
    case False
    obtain any commas us where r: "return_list s python 0 0 False CHR 0x00 ts = (any, commas, us)" by (metis prod_cases3)
    from 2(2) [OF False r [symmetric] refl] False r show ?thesis by (auto split: if_splits)
  qed
qed simp

lemma return_arity_bounds: "1 \<le> return_arity body language \<and> return_arity body language \<le> 8"
  by (simp add: return_arity_def)

lemma return_arity_sample: "return_arity ''return a, f(b, c), {d, e}'' ''luau'' = 3"
  by code_simp

end
