(* ===== verification/ScriptNames.thy ===== *)
theory ScriptNames
  imports ScriptTokens
begin

section \<open>Variable names and output types of scripts (toolbox_transform_editor/script_text.cpp)\<close>

text \<open>
  The name an input gets by default, the check of a name typed by the user, the reserved names, and the
  labels of output types. Fact shown: the default name is accepted by the check, for either language and
  whatever names are taken; the search for it ends, its bound being the number of taken names (the
  code's counter is an \<open>int\<close>, so more than \<open>2 ^ 31\<close> taken names are out of its reach).
\<close>

subsection \<open>Reserved names\<close>

definition luau_keywords :: "string list" where
  "luau_keywords =
     [''and'', ''break'', ''continue'', ''do'', ''else'', ''elseif'', ''end'', ''export'', ''false'', ''for'', ''function'',
      ''if'', ''in'', ''local'', ''nil'', ''not'', ''or'', ''repeat'', ''return'', ''then'', ''true'', ''until'', ''while'',
      ''type'']"

definition python_keywords :: "string list" where
  "python_keywords =
     [''False'', ''None'', ''True'', ''and'', ''as'', ''assert'', ''async'', ''await'', ''break'', ''class'',
      ''continue'', ''def'', ''del'', ''elif'', ''else'', ''except'', ''finally'', ''for'', ''from'', ''global'',
      ''if'', ''import'', ''in'', ''is'', ''lambda'', ''nonlocal'', ''not'', ''or'', ''pass'', ''raise'',
      ''return'', ''try'', ''while'', ''with'', ''yield'', ''match'', ''case'']"

definition shared_names :: "string list" where
  "shared_names =
     [''inputs'', ''params'', ''pj'', ''math'', ''string'', ''table'', ''print'', ''pairs'', ''ipairs'', ''tostring'',
      ''tonumber'', ''select'', ''error'', ''os'', ''bit32'', ''utf8'', ''buffer'', ''coroutine'', ''vector'', ''len'',
      ''range'', ''str'', ''int'', ''float'', ''list'', ''dict'', ''min'', ''max'', ''abs'']"

definition is_reserved :: "string \<Rightarrow> string \<Rightarrow> bool" where
  "is_reserved name language \<longleftrightarrow>
     name \<in> set shared_names
     \<or> (language \<noteq> ''python'' \<and> name \<in> set luau_keywords)
     \<or> (language \<noteq> ''luau'' \<and> name \<in> set python_keywords)"

subsection \<open>The check of a name\<close>

definition quoted_name :: "string \<Rightarrow> string" where
  "quoted_name name = single_quote # name @ [single_quote]"

definition var_name_error :: "string \<Rightarrow> string \<Rightarrow> string list \<Rightarrow> string" where
  "var_name_error name language other_vars =
     (let identifier = (name \<noteq> [] \<and> \<not> is_digit (hd name) \<and> list_all is_word_char name) in
      if \<not> identifier
      then quoted_name name @ '' is not a valid name: use letters, digits and _, and do not start with a digit.''
      else if is_reserved name language
      then quoted_name name @ '' is reserved by the language or by the script; pick another name.''
      else if name \<in> set other_vars then quoted_name name @ '' is already the name of another input.''
      else [])"

subsection \<open>The default name of an input\<close>

definition strip_last :: "char \<Rightarrow> string \<Rightarrow> string" where
  "strip_last c s = rev (dropWhile (\<lambda>x. x = c) (rev s))"

definition after_last :: "char \<Rightarrow> string \<Rightarrow> string" where
  "after_last c s = rev (takeWhile (\<lambda>x. x \<noteq> c) (rev s))"

definition topic_leaf :: "string \<Rightarrow> string" where
  "topic_leaf topic =
     (let leaf = strip_last CHR ''/'' topic in
      if CHR ''/'' \<in> set leaf then after_last CHR ''/'' leaf
      else if CHR '':'' \<in> set leaf then after_last CHR '':'' leaf
      else leaf)"

text \<open>One underscore for a run of separators.\<close>

definition name_step :: "string \<Rightarrow> char \<Rightarrow> string" where
  "name_step name c =
     (let mapped = (if is_word_char c then c else CHR ''_'') in
      if mapped = CHR ''_'' \<and> name \<noteq> [] \<and> last name = CHR ''_'' then name else name @ [mapped])"

definition sanitized_name :: "string \<Rightarrow> string" where
  "sanitized_name leaf =
     (let name = strip_last CHR ''_'' (foldl name_step [] leaf);
          name = (if name = [] then ''input'' else if is_digit (hd name) then ''input_'' @ name else name)
      in if is_reserved name [] then name @ ''_'' else name)"

text \<open>The loop \<open>for (n = 2; taken.count(candidate); ++n)\<close>.\<close>

definition numbered :: "string \<Rightarrow> nat \<Rightarrow> string" where
  "numbered name n = name @ ''_'' @ nat_text n"

lemma numbered_inj [simp]: "numbered name m = numbered name n \<longleftrightarrow> m = n"
  by (simp add: numbered_def nat_text_inj)

function free_name :: "string \<Rightarrow> string list \<Rightarrow> string \<Rightarrow> nat \<Rightarrow> string" where
  "free_name name taken candidate n =
     (if candidate \<in> set taken then free_name name taken (numbered name n) (n + 1) else candidate)"
  by pat_completeness auto
termination
proof (relation "measures
    [\<lambda>(name, taken, candidate, n). card {m. n \<le> m \<and> numbered name m \<in> set taken},
     \<lambda>(name, taken, candidate, n). if candidate \<in> set taken then 1 else 0]")
  fix name candidate :: string and taken and n :: nat
  let ?later = "\<lambda>k. {m. k \<le> m \<and> numbered name m \<in> set taken}"
  have fin: "finite (?later k)" for k
    by (rule finite_imageD [of "numbered name"]) (auto intro: finite_subset [of _ "set taken"] simp: inj_on_def)
  have sub: "?later (n + 1) \<subseteq> ?later n" by auto
  assume "candidate \<in> set taken"
  show "((name, taken, numbered name n, n + 1), (name, taken, candidate, n))
    \<in> measures
        [\<lambda>(name, taken, candidate, n). card {m. n \<le> m \<and> numbered name m \<in> set taken},
         \<lambda>(name, taken, candidate, n). if candidate \<in> set taken then 1 else 0]"
  proof (cases "numbered name n \<in> set taken")
    case True
    then have "n \<in> ?later n" "n \<notin> ?later (n + 1)" by auto
    with sub have "?later (n + 1) \<subset> ?later n" by blast
    from psubset_card_mono [OF fin this] show ?thesis by simp
  next
    case False
    with \<open>candidate \<in> set taken\<close> card_mono [OF fin sub] show ?thesis by auto
  qed
qed simp

declare free_name.simps [simp del]

definition inferred_name :: "string \<Rightarrow> string list \<Rightarrow> string" where
  "inferred_name topic taken =
     (let name = sanitized_name (topic_leaf topic) in free_name name taken name 2)"

subsection \<open>Output types\<close>

text \<open>What the code distinguishes of the SDK's builtin object types; the SDK's \<open>parseBuiltinObjectType\<close> is a
  parameter.\<close>

datatype object_type = BNone | BImage | BImageAnnotations | BDepthImage | BVideoFrame | BOther string

definition to_lower_char :: "char \<Rightarrow> char" where
  "to_lower_char c = (if is_upper c then char_of (of_char c + (32 :: nat)) else c)"

definition object_type_label :: "(string \<Rightarrow> object_type option) \<Rightarrow> string \<Rightarrow> string" where
  "object_type_label parse_type type =
     (if type = ''kSceneEntities'' then ''scene''
      else if type = ''kFrameTransforms'' then ''transforms''
      else if parse_type type = None \<or> parse_type type = Some BNone \<or> length type < 2 \<or> hd type \<noteq> CHR ''k'' then type
      else concat (map (\<lambda>i. let c = type ! i in
             if is_upper c then (if i > 1 then '' '' else []) @ [to_lower_char c] else [c]) [1..<length type]))"

definition is_object_output_type :: "(string \<Rightarrow> object_type option) \<Rightarrow> string \<Rightarrow> bool" where
  "is_object_output_type parse_type type \<longleftrightarrow> parse_type type \<noteq> None \<and> parse_type type \<noteq> Some BNone"

definition scene_kind :: "(string \<Rightarrow> object_type option) \<Rightarrow> string \<Rightarrow> string" where
  "scene_kind parse_type type =
     (if parse_type type \<in> {Some BImage, Some BImageAnnotations, Some BDepthImage, Some BVideoFrame} then ''2d'' else ''3d'')"


subsection \<open>The default name is a valid name\<close>

lemma is_word_underscore [simp]: "is_word_char CHR ''_''"
  by (simp add: is_word_char_def)

lemma digit_is_word: "is_digit c \<Longrightarrow> is_word_char c"
  by (simp add: is_word_char_def is_alnum_def)

lemma name_step_words: "list_all is_word_char name \<Longrightarrow> list_all is_word_char (foldl name_step name leaf)"
  by (induction leaf arbitrary: name) (simp_all add: name_step_def Let_def)

lemma strip_last_words: "list_all P s \<Longrightarrow> list_all P (strip_last c s)"
  by (auto simp: strip_last_def list_all_iff dest: set_dropWhileD)

lemma reserved_no_underscore: "is_reserved name language \<Longrightarrow> CHR ''_'' \<notin> set name"
  unfolding is_reserved_def shared_names_def luau_keywords_def python_keywords_def by auto

lemma reserved_any: "is_reserved name language \<Longrightarrow> is_reserved name []"
  by (auto simp: is_reserved_def)

definition valid_identifier :: "string \<Rightarrow> bool" where
  "valid_identifier name \<longleftrightarrow> name \<noteq> [] \<and> \<not> is_digit (hd name) \<and> list_all is_word_char name"

lemma sanitized_valid: "valid_identifier (sanitized_name leaf) \<and> \<not> is_reserved (sanitized_name leaf) language"
proof -
  define name where "name = strip_last CHR ''_'' (foldl name_step [] leaf)"
  define named where "named = (if name = [] then ''input'' else if is_digit (hd name) then ''input_'' @ name else name)"
  have w: "list_all is_word_char name" unfolding name_def by (intro strip_last_words name_step_words) simp
  then have v: "valid_identifier named"
    by (auto simp: named_def valid_identifier_def is_word_char_def is_alnum_def is_digit_def)
  have s: "sanitized_name leaf = (if is_reserved named [] then named @ ''_'' else named)"
    by (simp add: sanitized_name_def Let_def name_def named_def)
  show ?thesis
  proof (cases "is_reserved named []")
    case True
    then have "\<not> is_reserved (named @ ''_'') language" using reserved_no_underscore by fastforce
    with True v show ?thesis by (simp add: s valid_identifier_def)
  next
    case False
    with v show ?thesis using reserved_any by (auto simp: s)
  qed
qed

lemma numbered_valid: "valid_identifier name \<Longrightarrow> valid_identifier (numbered name n) \<and> \<not> is_reserved (numbered name n) language"
  using nat_text_digits [of n] reserved_no_underscore [of "numbered name n" language]
  by (auto simp: numbered_def valid_identifier_def list_all_iff digit_is_word)

lemma free_name_result:
  "free_name name taken candidate n \<notin> set taken
    \<and> (free_name name taken candidate n = candidate \<or> (\<exists>m \<ge> n. free_name name taken candidate n = numbered name m))"
proof (induction name taken candidate n rule: free_name.induct)
  case (1 name taken candidate n)
  show ?case
  proof (cases "candidate \<in> set taken")
    case True
    with 1 [OF True] show ?thesis
      by (subst (1 2 3) free_name.simps) (auto intro: Suc_leD order_refl)
  next
    case False
    then show ?thesis by (subst (1 2 3) free_name.simps) simp
  qed
qed

text \<open>The name an input gets by default is never taken, and the check for names accepts it, in either
  language (or an unknown one) and against any variables among the taken ones: it is an identifier and no
  reserved name, whatever the topic is called. In particular the search for a free name ends.\<close>

theorem inferred_name_accepted:
  assumes "set other_vars \<subseteq> set taken"
  shows "inferred_name topic taken \<notin> set taken \<and> var_name_error (inferred_name topic taken) language other_vars = []"
proof -
  let ?base = "sanitized_name (topic_leaf topic)"
  let ?name = "inferred_name topic taken"
  have n: "?name \<notin> set taken" "?name = ?base \<or> (\<exists>m \<ge> 2. ?name = numbered ?base m)"
    using free_name_result [of ?base taken ?base 2] by (auto simp: inferred_name_def Let_def)
  from n(2) sanitized_valid [of "topic_leaf topic"] numbered_valid [of ?base]
  have "valid_identifier ?name \<and> \<not> is_reserved ?name language" by metis
  with n(1) assms show ?thesis by (auto simp: var_name_error_def valid_identifier_def Let_def)
qed

theorem inferred_name_accepted_witness:
  "inferred_name ''run1:/lidar/end/'' [''end_'', ''end__2''] = ''end__3''
   \<and> var_name_error (inferred_name ''run1:/lidar/end/'' [''end_'', ''end__2'']) ''luau'' [''end_''] = []"
proof
  show "inferred_name ''run1:/lidar/end/'' [''end_'', ''end__2''] = ''end__3''" by code_simp
  show "var_name_error (inferred_name ''run1:/lidar/end/'' [''end_'', ''end__2'']) ''luau'' [''end_''] = []"
    using inferred_name_accepted [of "[''end_'']" "[''end_'', ''end__2'']" "''run1:/lidar/end/''" "''luau''"] by simp
qed

end
