(* ===== verification/SeriesPaths.thy ===== *)
theory SeriesPaths
  imports OrdMap "HOL-Library.Word"
begin

section \<open>Series paths and recipe inputs (common/derived_recipes/recipes.cpp)\<close>

text \<open>
  How the recipes of derived series find their inputs in the host's catalog: the "dataset:" qualifier, the
  match of a path against the catalog, object topics, and the resolution of a list of inputs with the
  aliases a script may use for them. The catalog is the SDK's plain data, its indices 32-bit words. Facts
  shown: a lookup is its specification (a unique exact match, else a unique abbreviation, else the near
  misses); a qualified path finds the series it names; resolved inputs belong to one dataset and every key
  a script may use means one input.
\<close>

subsection \<open>The catalog\<close>

record data_source =
  ds_id :: nat
  ds_name :: string
  ds_first_topic :: "32 word"
  ds_topic_count :: "32 word"

record topic_row =
  tr_name :: string
  tr_first_field :: "32 word"
  tr_field_count :: "32 word"

record field_row =
  fr_handle :: nat
  fr_name :: string

record object_row =
  ob_name :: string
  ob_type :: string
  ob_source :: nat
  ob_entries :: "64 word"
  ob_time_min :: int
  ob_time_max :: int

record host_catalog =
  ca_sources :: "data_source list"
  ca_topics :: "topic_row list"
  ca_fields :: "field_row list"

text \<open>The map from topic indices to dataset names, which the code only looks up.\<close>

type_synonym topic_dataset_map = "32 word \<Rightarrow> string option"

definition dataset_by_topic_index :: "data_source list \<Rightarrow> topic_dataset_map" where
  "dataset_by_topic_index sources =
     (if length sources < 2 then Map.empty
      else fold (\<lambda>src m. fold (\<lambda>i m. m(ds_first_topic src + of_nat i \<mapsto> ds_name src)) [0..<unat (ds_topic_count src)] m)
             sources Map.empty)"

text \<open>\<open>kMarkerObjectTopicPrefix\<close> of the SDK is the parameter \<open>marker_prefix\<close>.\<close>

definition is_marker_topic :: "string \<Rightarrow> string \<Rightarrow> bool" where
  "is_marker_topic marker_prefix name \<longleftrightarrow> take (length marker_prefix) name = marker_prefix"

fun object_topic_dataset :: "data_source list \<Rightarrow> nat \<Rightarrow> string" where
  "object_topic_dataset [] source = []"
| "object_topic_dataset (src # srcs) source = (if ds_id src = source then ds_name src else object_topic_dataset srcs source)"

definition qualify :: "string \<Rightarrow> string \<Rightarrow> string" where
  "qualify dataset name = (if dataset = [] then name else dataset @ '':'' @ name)"

subsection \<open>The dataset qualifier of a path\<close>

record qualifier_match =
  qm_bare :: string
  qm_lo :: "32 word"
  qm_hi :: "32 word"

text \<open>The longest source name so far that is followed by a colon; \<open>qualified_by\<close> is the code's test.\<close>

definition qualified_by :: "string \<Rightarrow> string \<Rightarrow> bool" where
  "qualified_by series name \<longleftrightarrow>
     name \<noteq> [] \<and> length name < length series \<and> series ! length name = CHR '':'' \<and> take (length name) series = name"

fun longest_qualifier :: "string \<Rightarrow> data_source option \<Rightarrow> data_source list \<Rightarrow> data_source option" where
  "longest_qualifier series best [] = best"
| "longest_qualifier series best (src # srcs) =
     longest_qualifier series
       (if qualified_by series (ds_name src)
           \<and> (case best of None \<Rightarrow> 0 | Some b \<Rightarrow> length (ds_name b)) < length (ds_name src)
        then Some src else best) srcs"

definition match_qualifier :: "host_catalog \<Rightarrow> string \<Rightarrow> qualifier_match" where
  "match_qualifier cat series =
     (let size = of_nat (length (ca_topics cat)) in
      case longest_qualifier series None (ca_sources cat) of
        None \<Rightarrow> \<lparr>qm_bare = series, qm_lo = 0, qm_hi = size\<rparr>
      | Some src \<Rightarrow>
          \<lparr>qm_bare = drop (length (ds_name src) + 1) series,
           qm_lo = ds_first_topic src,
           qm_hi = min (ds_first_topic src + ds_topic_count src) size\<rparr>)"

subsection \<open>Paths\<close>

definition join_path :: "string \<Rightarrow> string \<Rightarrow> string" where
  "join_path topic field =
     (if field = [] then topic else if hd field \<noteq> CHR ''/'' then topic @ ''/'' @ field else topic @ field)"

fun collapse_slashes :: "string \<Rightarrow> string \<Rightarrow> string" where
  "collapse_slashes out [] = out"
| "collapse_slashes out (c # cs) =
     collapse_slashes (if c = CHR ''/'' \<and> out \<noteq> [] \<and> last out = CHR ''/'' then out else out @ [c]) cs"

definition canonical_path :: "string \<Rightarrow> string" where
  "canonical_path s = collapse_slashes [] s"

function path_segments :: "string \<Rightarrow> string list" where
  "path_segments path =
     (let s = dropWhile (\<lambda>c. c = CHR ''/'') path; seg = takeWhile (\<lambda>c. c \<noteq> CHR ''/'') s in
      if s = [] then [] else seg # path_segments (drop (length seg) s))"
  by pat_completeness auto
termination
proof (relation "measure length")
  fix path s seg :: string
  assume s: "s = dropWhile (\<lambda>c. c = CHR ''/'') path" "seg = takeWhile (\<lambda>c. c \<noteq> CHR ''/'') s" "s \<noteq> []"
  then have h: "hd s \<noteq> CHR ''/''" using hd_dropWhile [of "\<lambda>c. c = CHR ''/''" path] by simp
  from s(3) obtain c r where cr: "s = c # r" by (cases s) auto
  with h s(2) have "seg \<noteq> []" by simp
  moreover have "length s \<le> length path" using s length_dropWhile_le by metis
  moreover from calculation s(3) have "length s - length seg < length s" by (simp add: diff_less)
  ultimately show "(drop (length seg) s, path) \<in> measure length" by simp
qed simp

declare path_segments.simps [simp del]

definition segments_contain :: "string list \<Rightarrow> string list \<Rightarrow> bool" where
  "segments_contain have want \<longleftrightarrow>
     want \<noteq> [] \<and> length want \<le> length have
     \<and> list_ex (\<lambda>off. take (length want) (drop off have) = want) [0..<length have - length want + 1]"

subsection \<open>Looking up a series\<close>

record resolved_series =
  rs_handle :: nat
  rs_topic :: string
  rs_path :: string
  rs_host_path :: string
  rs_dataset :: string

record series_lookup =
  sl_resolved :: "resolved_series option"
  sl_candidates :: "string list"
  sl_ambiguous :: bool

definition max_candidates :: nat where "max_candidates = 10"

text \<open>The fields the loops visit: those of a topic up to the first index past the field table.\<close>

definition topic_fields :: "host_catalog \<Rightarrow> topic_row \<Rightarrow> nat list" where
  "topic_fields cat t =
     takeWhile (\<lambda>idx. idx < length (ca_fields cat))
       (map (\<lambda>fi. unat (tr_first_field t + of_nat fi)) [0..<unat (tr_field_count t)])"

definition series_at :: "host_catalog \<Rightarrow> topic_dataset_map \<Rightarrow> nat \<Rightarrow> nat \<Rightarrow> resolved_series" where
  "series_at cat datasets ti idx =
     (let t = ca_topics cat ! ti; f = ca_fields cat ! idx;
          dataset = (case datasets (of_nat ti) of None \<Rightarrow> [] | Some d \<Rightarrow> d);
          full = join_path (tr_name t) (fr_name f)
      in \<lparr>rs_handle = fr_handle f, rs_topic = tr_name t, rs_path = qualify dataset full,
          rs_host_path = full, rs_dataset = dataset\<rparr>)"

definition catalog_series :: "host_catalog \<Rightarrow> topic_dataset_map \<Rightarrow> 32 word \<Rightarrow> 32 word \<Rightarrow> resolved_series list" where
  "catalog_series cat datasets lo hi =
     concat (map (\<lambda>ti. map (series_at cat datasets ti) (topic_fields cat (ca_topics cat ! ti))) [unat lo..<unat hi])"

text \<open>The variables of the loop, and its body for one series.\<close>

record lookup_state =
  lk_exact :: "resolved_series option"
  lk_exact_ambiguous :: bool
  lk_exact_candidates :: "string list"
  lk_fuzzy :: "resolved_series option"
  lk_candidates :: "string list"
  lk_ambiguous :: bool

definition capped_push :: "string \<Rightarrow> string list \<Rightarrow> string list" where
  "capped_push x xs = (if length xs < max_candidates then xs @ [x] else xs)"

definition lookup_step :: "string \<Rightarrow> string list \<Rightarrow> resolved_series \<Rightarrow> lookup_state \<Rightarrow> lookup_state" where
  "lookup_step bare want s st =
     (if rs_host_path s = bare
      then (let st = (if lk_exact st = None then st\<lparr>lk_exact := Some s\<rparr> else st\<lparr>lk_exact_ambiguous := True\<rparr>)
            in st\<lparr>lk_exact_candidates := capped_push (rs_path s) (lk_exact_candidates st)\<rparr>)
      else if segments_contain (path_segments (rs_host_path s)) want
      then (let st = st\<lparr>lk_candidates := capped_push (rs_path s) (lk_candidates st)\<rparr>
            in if lk_fuzzy st = None then st\<lparr>lk_fuzzy := Some s\<rparr> else st\<lparr>lk_ambiguous := True\<rparr>)
      else st)"

definition lookup_result :: "lookup_state \<Rightarrow> series_lookup" where
  "lookup_result st =
     (case lk_exact st of
        Some e \<Rightarrow>
          if lk_exact_ambiguous st
          then \<lparr>sl_resolved = None, sl_candidates = lk_exact_candidates st, sl_ambiguous = True\<rparr>
          else \<lparr>sl_resolved = Some e, sl_candidates = [], sl_ambiguous = False\<rparr>
      | None \<Rightarrow>
          if \<not> lk_ambiguous st \<and> lk_fuzzy st \<noteq> None
          then \<lparr>sl_resolved = lk_fuzzy st, sl_candidates = [], sl_ambiguous = False\<rparr>
          else \<lparr>sl_resolved = None, sl_candidates = lk_candidates st, sl_ambiguous = lk_ambiguous st\<rparr>)"

definition initial_lookup :: lookup_state where
  "initial_lookup = \<lparr>lk_exact = None, lk_exact_ambiguous = False, lk_exact_candidates = [], lk_fuzzy = None,
     lk_candidates = [], lk_ambiguous = False\<rparr>"

definition resolve_series_in :: "host_catalog \<Rightarrow> string \<Rightarrow> topic_dataset_map \<Rightarrow> series_lookup" where
  "resolve_series_in cat series datasets =
     (let qm = match_qualifier cat series; want = path_segments (qm_bare qm) in
      lookup_result (fold (lookup_step (qm_bare qm) want) (catalog_series cat datasets (qm_lo qm) (qm_hi qm)) initial_lookup))"

definition resolve_series :: "host_catalog \<Rightarrow> string \<Rightarrow> series_lookup" where
  "resolve_series cat series = resolve_series_in cat series (dataset_by_topic_index (ca_sources cat))"

text \<open>\<open>seriesLookupError\<close>; the audience is the model or the user.\<close>

definition quote_marks :: "string \<Rightarrow> string" where
  "quote_marks s = CHR 0x27 # s @ [CHR 0x27]"

fun comma_quoted :: "string list \<Rightarrow> string" where
  "comma_quoted [] = []"
| "comma_quoted [c] = quote_marks c"
| "comma_quoted (c # cs) = quote_marks c @ '', '' @ comma_quoted cs"

definition series_lookup_error :: "string \<Rightarrow> series_lookup \<Rightarrow> bool \<Rightarrow> string" where
  "series_lookup_error series lookup for_user =
     (if sl_ambiguous lookup
      then quote_marks series @ '' is ambiguous; it matches '' @ comma_quoted (sl_candidates lookup) @ ''. Use the full path.''
      else if for_user
      then ''unknown series '' @ quote_marks series @ ''; pick a series or object topic from the list.''
      else ''unknown series '' @ quote_marks series @
           ''. If you expected it to exist, call list_topics (with a filter) or describe_topic once to check before ''
           @ ''concluding it is missing.'')"

definition data_source_handle_for :: "host_catalog \<Rightarrow> string \<Rightarrow> nat option" where
  "data_source_handle_for cat dataset_name =
     (if dataset_name \<noteq> []
      then map_option ds_id (find (\<lambda>src. ds_name src = dataset_name) (ca_sources cat))
      else case ca_sources cat of [src] \<Rightarrow> Some (ds_id src) | _ \<Rightarrow> None)"


subsection \<open>The lookup meets its specification\<close>

definition exact_series :: "string \<Rightarrow> resolved_series list \<Rightarrow> resolved_series list" where
  "exact_series bare ss = filter (\<lambda>s. rs_host_path s = bare) ss"

definition near_series :: "string \<Rightarrow> resolved_series list \<Rightarrow> resolved_series list" where
  "near_series bare ss =
     filter (\<lambda>s. rs_host_path s \<noteq> bare \<and> segments_contain (path_segments (rs_host_path s)) (path_segments bare)) ss"

definition lookup_spec :: "string \<Rightarrow> resolved_series list \<Rightarrow> series_lookup" where
  "lookup_spec bare ss =
     (let hits = (if exact_series bare ss \<noteq> [] then exact_series bare ss else near_series bare ss) in
      case hits of
        [] \<Rightarrow> \<lparr>sl_resolved = None, sl_candidates = [], sl_ambiguous = False\<rparr>
      | [s] \<Rightarrow> \<lparr>sl_resolved = Some s, sl_candidates = [], sl_ambiguous = False\<rparr>
      | _ \<Rightarrow> \<lparr>sl_resolved = None, sl_candidates = take max_candidates (map rs_path hits), sl_ambiguous = True\<rparr>)"

text \<open>What the loop's variables hold after the series \<open>ss\<close>.\<close>

definition lookup_inv :: "string \<Rightarrow> resolved_series list \<Rightarrow> lookup_state \<Rightarrow> bool" where
  "lookup_inv bare ss st \<longleftrightarrow>
     (let es = exact_series bare ss; ns = near_series bare ss in
      lk_exact st = (case es of [] \<Rightarrow> None | e # r \<Rightarrow> Some e)
      \<and> lk_exact_ambiguous st = (length es \<ge> 2)
      \<and> lk_exact_candidates st = take max_candidates (map rs_path es)
      \<and> lk_fuzzy st = (case ns of [] \<Rightarrow> None | e # r \<Rightarrow> Some e)
      \<and> lk_ambiguous st = (length ns \<ge> 2)
      \<and> lk_candidates st = take max_candidates (map rs_path ns))"

lemma capped_push_take: "capped_push x (take max_candidates xs) = take max_candidates (xs @ [x])"
  by (auto simp: capped_push_def min_def)

lemma lookup_inv_step:
  assumes "lookup_inv bare ss st"
  shows "lookup_inv bare (ss @ [s]) (lookup_step bare (path_segments bare) s st)"
proof -
  consider (exact) "rs_host_path s = bare"
    | (near) "rs_host_path s \<noteq> bare" "segments_contain (path_segments (rs_host_path s)) (path_segments bare)"
    | (none) "rs_host_path s \<noteq> bare" "\<not> segments_contain (path_segments (rs_host_path s)) (path_segments bare)"
    by blast
  then show ?thesis
  proof cases
    case exact
    with assms show ?thesis
      by (cases "exact_series bare ss")
         (auto simp: lookup_inv_def lookup_step_def Let_def exact_series_def near_series_def capped_push_take
           capped_push_take [where xs = "[]", simplified])
  next
    case near
    with assms show ?thesis
      by (cases "near_series bare ss")
         (auto simp: lookup_inv_def lookup_step_def Let_def exact_series_def near_series_def capped_push_take
           capped_push_take [where xs = "[]", simplified])
  next
    case none
    with assms show ?thesis by (simp add: lookup_inv_def lookup_step_def Let_def exact_series_def near_series_def)
  qed
qed

lemma lookup_inv_fold:
  "lookup_inv bare ps st \<Longrightarrow> lookup_inv bare (ps @ ss) (fold (lookup_step bare (path_segments bare)) ss st)"
proof (induction ss arbitrary: ps st)
  case (Cons s ss)
  from Cons.IH [OF lookup_inv_step [OF Cons.prems]] show ?case by simp
qed simp

lemma lookup_inv_result: "lookup_inv bare ss st \<Longrightarrow> lookup_result st = lookup_spec bare ss"
  by (auto simp: lookup_inv_def lookup_result_def lookup_spec_def Let_def split: list.splits)

text \<open>C18. A lookup finds exactly what it should: among the series of the searched topics, the one whose path
  is the given one, if there is exactly one; when there is none, the one the path abbreviates (its
  segments a run of the series' segments), if exactly one; several of either kind are refused as ambiguous
  with the first ten as candidates, and nothing is ever guessed.\<close>

theorem lookup_meets_spec:
  "resolve_series_in cat series datasets =
     (let qm = match_qualifier cat series in
      lookup_spec (qm_bare qm) (catalog_series cat datasets (qm_lo qm) (qm_hi qm)))"
proof -
  have "lookup_inv bare [] initial_lookup" for bare
    by (simp add: lookup_inv_def initial_lookup_def exact_series_def near_series_def)
  from lookup_inv_fold [OF this] lookup_inv_result show ?thesis
    by (simp add: resolve_series_in_def Let_def)
qed

subsection \<open>Object topics\<close>

record eval_input =
  ei_host_path :: string
  ei_display_path :: string
  ei_request_path :: string
  ei_aliases :: "string list"
  ei_is_object :: bool
  ei_object_type :: string
  ei_source :: nat
  ei_has_source :: bool
  ei_entry_count :: "64 word"
  ei_time_min :: int
  ei_time_max :: int

definition new_input :: eval_input where
  "new_input = \<lparr>ei_host_path = [], ei_display_path = [], ei_request_path = [], ei_aliases = [], ei_is_object = False,
     ei_object_type = [], ei_source = 0, ei_has_source = False, ei_entry_count = 0, ei_time_min = 0, ei_time_max = 0\<rparr>"

record object_entry =
  oe_name :: string
  oe_type :: string
  oe_dataset :: string
  oe_qualified :: string
  oe_info :: object_row

definition list_object_topics :: "string \<Rightarrow> data_source list \<Rightarrow> object_row list \<Rightarrow> object_entry list" where
  "list_object_topics marker_prefix sources objects =
     map (\<lambda>obj. let dataset = object_topic_dataset sources (ob_source obj) in
            \<lparr>oe_name = ob_name obj, oe_type = ob_type obj, oe_dataset = dataset,
             oe_qualified = qualify (if length sources \<ge> 2 then dataset else []) (ob_name obj), oe_info = obj\<rparr>)
       (filter (\<lambda>obj. \<not> is_marker_topic marker_prefix (ob_name obj)) objects)"

record object_lookup =
  ol_resolved :: "eval_input option"
  ol_candidates :: "string list"
  ol_ambiguous :: bool

definition object_input :: "data_source list \<Rightarrow> object_row \<Rightarrow> eval_input" where
  "object_input sources obj = new_input\<lparr>
     ei_host_path := ob_name obj,
     ei_display_path := qualify (object_topic_dataset sources (ob_source obj)) (ob_name obj),
     ei_is_object := True,
     ei_object_type := ob_type obj,
     ei_source := ob_source obj,
     ei_has_source := True,
     ei_entry_count := ob_entries obj,
     ei_time_min := ob_time_min obj,
     ei_time_max := ob_time_max obj\<rparr>"

text \<open>The loop over the object topics; its variables are \<open>found\<close>, \<open>ambiguous\<close> and the candidates.\<close>

definition object_wanted :: "string \<Rightarrow> string \<Rightarrow> nat option \<Rightarrow> object_row \<Rightarrow> bool" where
  "object_wanted marker_prefix bare qual obj \<longleftrightarrow>
     \<not> is_marker_topic marker_prefix (ob_name obj) \<and> ob_name obj = bare \<and> (qual = None \<or> qual = Some (ob_source obj))"

definition object_step ::
  "string \<Rightarrow> data_source list \<Rightarrow> string \<Rightarrow> nat option \<Rightarrow> object_row \<Rightarrow>
   eval_input option \<times> bool \<times> string list \<Rightarrow> eval_input option \<times> bool \<times> string list" where
  "object_step marker_prefix sources bare qual obj st =
     (if \<not> object_wanted marker_prefix bare qual obj then st
      else case st of (found, ambiguous, candidates) \<Rightarrow>
        let r = object_input sources obj; candidates = capped_push (ei_display_path r) candidates in
        if found = None then (Some r, ambiguous, candidates) else (found, True, candidates))"

definition resolve_object_topic ::
  "string \<Rightarrow> data_source list \<Rightarrow> object_row list \<Rightarrow> string \<Rightarrow> object_lookup" where
  "resolve_object_topic marker_prefix sources objects want =
     (let q = longest_qualifier want None sources;
          bare = (case q of None \<Rightarrow> want | Some src \<Rightarrow> drop (length (ds_name src) + 1) want)
      in case fold (object_step marker_prefix sources bare (map_option ds_id q)) objects (None, False, []) of
           (found, ambiguous, candidates) \<Rightarrow>
             if ambiguous then \<lparr>ol_resolved = None, ol_candidates = candidates, ol_ambiguous = True\<rparr>
             else if found \<noteq> None then \<lparr>ol_resolved = found, ol_candidates = [], ol_ambiguous = False\<rparr>
             else \<lparr>ol_resolved = None, ol_candidates = candidates, ol_ambiguous = False\<rparr>)"

definition object_lookup_error :: "string \<Rightarrow> object_lookup \<Rightarrow> string" where
  "object_lookup_error want lookup =
     quote_marks want @ '' is ambiguous; it matches '' @ comma_quoted (ol_candidates lookup) @ ''. Use the full path.''"

subsection \<open>Resolving the inputs of a recipe\<close>

record eval_inputs =
  ev_inputs :: "eval_input list"
  ev_anchor :: "nat option"
  ev_aliases :: "(string, string) omap"
  ev_error :: string

text \<open>One input: an object topic first, then a series. \<open>snapshot\<close> is what the host's \<open>catalogSnapshot\<close> answers
  for it.\<close>

definition resolve_input ::
  "string \<Rightarrow> data_source list \<Rightarrow> object_row list \<Rightarrow> bool \<Rightarrow> string + host_catalog \<Rightarrow> string \<Rightarrow> string + eval_input" where
  "resolve_input marker_prefix sources objects for_user snapshot want =
     (let obj = resolve_object_topic marker_prefix sources objects want in
      if ol_ambiguous obj then Inl (object_lookup_error want obj)
      else case ol_resolved obj of
        Some r \<Rightarrow> Inr (r\<lparr>ei_aliases := [want, ei_host_path r]\<rparr>)
      | None \<Rightarrow>
          (case snapshot of
             Inl e \<Rightarrow> Inl (''catalog unavailable: '' @ e)
           | Inr cat \<Rightarrow>
               (let lookup = resolve_series cat want in
                case sl_resolved lookup of
                  None \<Rightarrow> Inl (series_lookup_error want lookup for_user)
                | Some s \<Rightarrow>
                    let r = new_input\<lparr>ei_host_path := rs_host_path s, ei_display_path := rs_path s,
                              ei_aliases := [want, rs_host_path s]\<rparr>
                    in Inr (case data_source_handle_for cat (rs_dataset s) of
                              None \<Rightarrow> r
                            | Some h \<Rightarrow> r\<lparr>ei_source := h, ei_has_source := True\<rparr>))))"

fun resolve_loop ::
  "string \<Rightarrow> data_source list \<Rightarrow> object_row list \<Rightarrow> bool \<Rightarrow> (nat \<Rightarrow> string + host_catalog) \<Rightarrow> nat \<Rightarrow> eval_inputs \<Rightarrow>
   string list \<Rightarrow> eval_inputs" where
  "resolve_loop marker_prefix sources objects for_user snapshots i out [] = out"
| "resolve_loop marker_prefix sources objects for_user snapshots i out (want # wants) =
     (case resolve_input marker_prefix sources objects for_user (snapshots i) want of
        Inl e \<Rightarrow> out\<lparr>ev_error := e\<rparr>
      | Inr r \<Rightarrow>
          resolve_loop marker_prefix sources objects for_user snapshots (i + 1)
            (out\<lparr>ev_anchor := (if ei_has_source r \<and> ev_anchor out = None then Some (ei_source r) else ev_anchor out),
                 ev_inputs := ev_inputs out @ [r]\<rparr>) wants)"

text \<open>\<open>out.aliases.emplace\<close> for the aliases of an input; the error is the alias already bound to another key.\<close>

fun add_aliases :: "string \<Rightarrow> string list \<Rightarrow> (string, string) omap \<Rightarrow> (string, string) omap \<times> string option" where
  "add_aliases request [] m = (m, None)"
| "add_aliases request (alias # names) m =
     (case map_of m alias of
        None \<Rightarrow> add_aliases request names (om_put alias request m)
      | Some key \<Rightarrow> if key \<noteq> request then (m, Some alias) else add_aliases request names m)"

definition with_request :: "data_source list \<Rightarrow> eval_input \<Rightarrow> eval_input" where
  "with_request sources r =
     (let request = qualify (object_topic_dataset sources (ei_source r)) (ei_host_path r)
      in r\<lparr>ei_request_path := request, ei_aliases := ei_aliases r @ [request]\<rparr>)"

fun bind_loop :: "data_source list \<Rightarrow> eval_inputs \<Rightarrow> eval_input list \<Rightarrow> eval_input list \<Rightarrow> eval_inputs" where
  "bind_loop sources out past [] = out\<lparr>ev_inputs := past\<rparr>"
| "bind_loop sources out past (r # rs) =
     (if ei_has_source r \<and> ev_anchor out \<noteq> None \<and> ev_anchor out \<noteq> Some (ei_source r)
      then out\<lparr>ev_inputs := past @ r # rs,
               ev_error := ''on-demand inputs must belong to one dataset; cannot combine different datasets''\<rparr>
      else let r = with_request sources r in
           case add_aliases (ei_request_path r) (ei_aliases r) (ev_aliases out) of
             (m, Some alias) \<Rightarrow>
               out\<lparr>ev_inputs := past @ r # rs, ev_aliases := m,
                   ev_error := ''ambiguous input alias '' @ quote_marks alias @ ''; use distinct input paths''\<rparr>
           | (m, None) \<Rightarrow> bind_loop sources (out\<lparr>ev_aliases := m\<rparr>) (past @ [r]) rs)"

definition resolve_eval_inputs ::
  "string \<Rightarrow> data_source list \<Rightarrow> object_row list \<Rightarrow> bool \<Rightarrow> (nat \<Rightarrow> string + host_catalog) \<Rightarrow> string list \<Rightarrow> eval_inputs" where
  "resolve_eval_inputs marker_prefix sources objects for_user snapshots raw_inputs =
     (let out = resolve_loop marker_prefix sources objects for_user snapshots 0
                  \<lparr>ev_inputs = [], ev_anchor = None, ev_aliases = [], ev_error = []\<rparr> raw_inputs
      in if ev_error out \<noteq> [] then out else bind_loop sources out [] (ev_inputs out))"

lemma resolve_input_facts:
  assumes "resolve_input marker_prefix sources objects for_user snapshot want = Inr r"
  shows "ei_aliases r = [want, ei_host_path r]"
  using assms by (auto simp: resolve_input_def Let_def split: if_splits option.splits sum.splits)

lemma resolve_input_error:
  assumes "resolve_input marker_prefix sources objects for_user snapshot want = Inl e"
  shows "e \<noteq> []"
  using assms
  by (auto simp: resolve_input_def Let_def object_lookup_error_def series_lookup_error_def quote_marks_def
      split: if_splits option.splits sum.splits)

definition anchored :: "eval_inputs \<Rightarrow> bool" where
  "anchored out \<longleftrightarrow> (ev_anchor out = None \<longrightarrow> (\<forall>r \<in> set (ev_inputs out). \<not> ei_has_source r))"

lemma resolve_loop_facts:
  assumes "ev_error (resolve_loop mp sources objects for_user snapshots i out wants) = []"
    and "anchored out" "ev_error out = []"
  defines "res \<equiv> resolve_loop mp sources objects for_user snapshots i out wants"
  shows "anchored res \<and> ev_aliases res = ev_aliases out
    \<and> (\<exists>rs. ev_inputs res = ev_inputs out @ rs \<and> list_all2 (\<lambda>want r. ei_aliases r = [want, ei_host_path r]) wants rs)"
  using assms(1-3) unfolding res_def
proof (induction wants arbitrary: i out)
  case (Cons want wants)
  show ?case
  proof (cases "resolve_input mp sources objects for_user (snapshots i) want")
    case (Inl e)
    with Cons.prems(1) resolve_input_error [OF Inl] show ?thesis by simp
  next
    case (Inr r)
    let ?out = "out\<lparr>ev_anchor := (if ei_has_source r \<and> ev_anchor out = None then Some (ei_source r) else ev_anchor out),
                 ev_inputs := ev_inputs out @ [r]\<rparr>"
    have a: "anchored ?out" using Cons.prems(2) by (auto simp: anchored_def)
    from Cons.IH [of "i + 1" ?out] Cons.prems a Inr obtain rs where
      "anchored (resolve_loop mp sources objects for_user snapshots (i + 1) ?out wants)"
      "ev_aliases (resolve_loop mp sources objects for_user snapshots (i + 1) ?out wants) = ev_aliases out"
      "ev_inputs (resolve_loop mp sources objects for_user snapshots (i + 1) ?out wants) = ev_inputs out @ r # rs"
      "list_all2 (\<lambda>want r. ei_aliases r = [want, ei_host_path r]) wants rs"
      by auto
    with Inr resolve_input_facts [OF Inr] show ?thesis by auto
  qed
qed auto

lemma add_aliases_facts:
  assumes "add_aliases request names m = (m', None)" "om_ok m"
  shows "om_ok m' \<and> (\<forall>a \<in> set names. map_of m' a = Some request) \<and> map_of m \<subseteq>\<^sub>m map_of m'"
  using assms
proof (induction request names m rule: add_aliases.induct)
  case (2 request al names m)
  show ?case
  proof (cases "map_of m al")
    case None
    from 2(3,4) None have "add_aliases request names (om_put al request m) = (m', None)" by simp
    note IH = 2(1) [OF None this om_put_ok [OF 2(4)]]
    have "map_of m \<subseteq>\<^sub>m map_of (om_put al request m)"
      using None by (auto simp: map_of_om_put [OF 2(4)] map_le_def)
    with IH have "map_of m \<subseteq>\<^sub>m map_of m'" using map_le_trans by blast
    moreover have "map_of (om_put al request m) al = Some request" by (simp add: map_of_om_put [OF 2(4)])
    then have "map_of m' al = Some request" using IH by (metis map_le_def domI)
    ultimately show ?thesis using IH by simp
  next
    case (Some key)
    with 2(3) have k: "key = request" "add_aliases request names m = (m', None)" by (auto split: if_splits)
    from 2(2) [OF Some] k 2(4) have IH: "om_ok m' \<and> (\<forall>a \<in> set names. map_of m' a = Some request) \<and> map_of m \<subseteq>\<^sub>m map_of m'"
      by simp
    then have "map_of m' al = Some request" using Some k(1) by (metis map_le_def domI)
    with IH show ?thesis by simp
  qed
qed (simp add: map_le_refl)

lemma bind_loop_facts:
  assumes "ev_error (bind_loop sources out past rs) = []" "om_ok (ev_aliases out)"
  defines "res \<equiv> bind_loop sources out past rs"
  shows "ev_inputs res = past @ map (with_request sources) rs \<and> ev_anchor res = ev_anchor out
    \<and> map_of (ev_aliases out) \<subseteq>\<^sub>m map_of (ev_aliases res)
    \<and> (\<forall>r \<in> set rs. ei_has_source r \<longrightarrow> ev_anchor out \<in> {None, Some (ei_source r)})
    \<and> (\<forall>r \<in> set rs. \<forall>a \<in> set (ei_aliases (with_request sources r)).
        map_of (ev_aliases res) a = Some (ei_request_path (with_request sources r)))"
  using assms(1,2) unfolding res_def
proof (induction rs arbitrary: out past)
  case (Cons r rs)
  let ?r = "with_request sources r"
  have anchor: "ei_has_source r \<longrightarrow> ev_anchor out \<in> {None, Some (ei_source r)}"
  proof (rule ccontr)
    assume "\<not> ?thesis"
    then have "ei_has_source r \<and> ev_anchor out \<noteq> None \<and> ev_anchor out \<noteq> Some (ei_source r)" by auto
    with Cons.prems(1) show False by simp
  qed
  then have go: "\<not> (ei_has_source r \<and> ev_anchor out \<noteq> None \<and> ev_anchor out \<noteq> Some (ei_source r))" by auto
  obtain m where m: "add_aliases (ei_request_path ?r) (ei_aliases ?r) (ev_aliases out) = (m, None)"
    using Cons.prems(1) go
    by (cases "add_aliases (ei_request_path ?r) (ei_aliases ?r) (ev_aliases out)")
       (auto simp: Let_def split: option.splits)
  note f = add_aliases_facts [OF m Cons.prems(2)]
  from go m have step: "bind_loop sources out past (r # rs) = bind_loop sources (out\<lparr>ev_aliases := m\<rparr>) (past @ [?r]) rs"
    by (simp only: bind_loop.simps if_False Let_def prod.case option.case)
  let ?res = "bind_loop sources (out\<lparr>ev_aliases := m\<rparr>) (past @ [?r]) rs"
  from Cons.IH [of "out\<lparr>ev_aliases := m\<rparr>" "past @ [?r]"] Cons.prems(1) f step
  have IH: "ev_inputs ?res = (past @ [?r]) @ map (with_request sources) rs" "ev_anchor ?res = ev_anchor out"
    "map_of m \<subseteq>\<^sub>m map_of (ev_aliases ?res)"
    "\<forall>r \<in> set rs. ei_has_source r \<longrightarrow> ev_anchor out \<in> {None, Some (ei_source r)}"
    "\<forall>r \<in> set rs. \<forall>a \<in> set (ei_aliases (with_request sources r)).
        map_of (ev_aliases ?res) a = Some (ei_request_path (with_request sources r))"
    by auto
  have "\<forall>a \<in> set (ei_aliases ?r). map_of (ev_aliases ?res) a = Some (ei_request_path ?r)"
    using f IH(3) by (metis map_le_def domI)
  moreover have "map_of (ev_aliases out) \<subseteq>\<^sub>m map_of (ev_aliases ?res)" using f IH(3) map_le_trans by blast
  ultimately show ?case using IH anchor unfolding step by auto
qed auto

lemma with_request_simps [simp]:
  "ei_has_source (with_request sources r) = ei_has_source r" "ei_source (with_request sources r) = ei_source r"
  "ei_host_path (with_request sources r) = ei_host_path r"
  "ei_aliases (with_request sources r) = ei_aliases r @ [ei_request_path (with_request sources r)]"
  "ei_request_path (with_request sources r) = qualify (object_topic_dataset sources (ei_source r)) (ei_host_path r)"
  by (simp_all add: with_request_def Let_def)

text \<open>When the inputs of a recipe resolve, there is one resolved input per requested one, in order; all
  those with a dataset have the same dataset; and every key under which a script may read an input, the
  name names requested, the bare path and the qualified path, stands in the alias table for that input's key
  and no other. Otherwise the error text says which input is at fault.\<close>

theorem resolved_inputs_unambiguous:
  assumes "ev_error (resolve_eval_inputs marker_prefix sources objects for_user snapshots wants) = []"
  defines "res \<equiv> resolve_eval_inputs marker_prefix sources objects for_user snapshots wants"
  shows "list_all2 (\<lambda>want r.
      (\<forall>alias \<in> {want, ei_host_path r, ei_request_path r}. map_of (ev_aliases res) alias = Some (ei_request_path r))
      \<and> ei_request_path r = qualify (object_topic_dataset sources (ei_source r)) (ei_host_path r)
      \<and> (ei_has_source r \<longrightarrow> ev_anchor res = Some (ei_source r))) wants (ev_inputs res)"
proof -
  let ?out = "resolve_loop marker_prefix sources objects for_user snapshots 0
                  \<lparr>ev_inputs = [], ev_anchor = None, ev_aliases = [], ev_error = []\<rparr> wants"
  have ok: "ev_error ?out = []" using assms(1) by (auto simp: resolve_eval_inputs_def Let_def split: if_splits)
  from resolve_loop_facts [OF ok] obtain rs where
    out: "anchored ?out" "ev_aliases ?out = []" "ev_inputs ?out = rs"
    and rs: "list_all2 (\<lambda>want r. ei_aliases r = [want, ei_host_path r]) wants rs"
    by (auto simp: anchored_def)
  have res: "res = bind_loop sources ?out [] rs"
    using ok out(3) by (simp add: res_def resolve_eval_inputs_def Let_def)
  have "ev_error (bind_loop sources ?out [] rs) = []" using assms(1) res by (simp add: res_def)
  from bind_loop_facts [OF this] out(2) have b: "ev_inputs res = map (with_request sources) rs"
    "ev_anchor res = ev_anchor ?out"
    "\<forall>r \<in> set rs. ei_has_source r \<longrightarrow> ev_anchor ?out \<in> {None, Some (ei_source r)}"
    "\<forall>r \<in> set rs. \<forall>a \<in> set (ei_aliases (with_request sources r)).
        map_of (ev_aliases res) a = Some (ei_request_path (with_request sources r))"
    by (auto simp: res)
  have anchor: "ei_has_source r \<Longrightarrow> ev_anchor res = Some (ei_source r)" if "r \<in> set rs" for r
    using b(2,3) out(1,3) that by (auto simp: anchored_def)
  have "(\<forall>alias \<in> {wants ! i, ei_host_path (rs ! i), ei_request_path (with_request sources (rs ! i))}.
      map_of (ev_aliases res) alias = Some (ei_request_path (with_request sources (rs ! i))))
      \<and> (ei_has_source (rs ! i) \<longrightarrow> ev_anchor res = Some (ei_source (rs ! i)))" if "i < length rs" for i
  proof -
    have r: "rs ! i \<in> set rs" using that by simp
    have "ei_aliases (rs ! i) = [wants ! i, ei_host_path (rs ! i)]" using list_all2_nthD2 [OF rs that] .
    with r b(4) anchor [OF r] show ?thesis by (simp del: with_request_simps(5))
  qed
  with rs show ?thesis unfolding b(1) list_all2_map2 by (simp add: list_all2_conv_all_nth)
qed

text \<open>A catalog of two runs of one robot, for examples.\<close>

definition two_runs :: host_catalog where
  "two_runs = \<lparr>
     ca_sources = [\<lparr>ds_id = 7, ds_name = ''run1'', ds_first_topic = 0, ds_topic_count = 1\<rparr>,
                   \<lparr>ds_id = 8, ds_name = ''run2'', ds_first_topic = 1, ds_topic_count = 1\<rparr>],
     ca_topics = [\<lparr>tr_name = ''/pose'', tr_first_field = 0, tr_field_count = 2\<rparr>,
                  \<lparr>tr_name = ''/pose'', tr_first_field = 2, tr_field_count = 2\<rparr>],
     ca_fields = [\<lparr>fr_handle = 1, fr_name = ''x''\<rparr>, \<lparr>fr_handle = 2, fr_name = ''y''\<rparr>,
                  \<lparr>fr_handle = 3, fr_name = ''/x''\<rparr>, \<lparr>fr_handle = 4, fr_name = ''/y''\<rparr>]\<rparr>"

definition two_clouds :: "object_row list" where
  "two_clouds =
     [\<lparr>ob_name = ''/cloud'', ob_type = ''kPointCloud'', ob_source = 7, ob_entries = 5, ob_time_min = 0, ob_time_max = 9\<rparr>]"

lemma two_runs_ambiguous: "sl_ambiguous (resolve_series two_runs ''pose/x'')"
  by code_simp

theorem resolved_inputs_unambiguous_witness:
  "(let res = resolve_eval_inputs ''__markers__/'' (ca_sources two_runs) two_clouds True (\<lambda>_. Inr two_runs)
                [''/cloud'', ''run1:pose/y''] in
    map_of (ev_aliases res) ''/pose/y'' = Some ''run1:/pose/y'' \<and> ev_anchor res = Some 7)"
proof -
  let ?res = "resolve_eval_inputs ''__markers__/'' (ca_sources two_runs) two_clouds True (\<lambda>_. Inr two_runs)
                [''/cloud'', ''run1:pose/y'']"
  have ok: "ev_error ?res = []" by code_simp
  have rows: "map (\<lambda>r. (ei_host_path r, ei_request_path r, ei_has_source r, ei_source r)) (ev_inputs ?res)
      = [(''/cloud'', ''run1:/cloud'', True, 7), (''/pose/y'', ''run1:/pose/y'', True, 7)]" by code_simp
  then obtain a b where ab: "ev_inputs ?res = [a, b]" "ei_host_path b = ''/pose/y''" "ei_request_path b = ''run1:/pose/y''"
    "ei_has_source b" "ei_source b = 7" by (auto simp: map_eq_Cons_conv)
  from resolved_inputs_unambiguous [OF ok] ab show ?thesis by (simp add: Let_def)
qed

subsection \<open>A qualified path names its series\<close>

definition in_source :: "data_source \<Rightarrow> nat \<Rightarrow> bool" where
  "in_source src ti \<longleftrightarrow>
     unat (ds_first_topic src) \<le> ti \<and> ti < unat (ds_first_topic src) + unat (ds_topic_count src)"

text \<open>What the host guarantees of a catalog of several datasets: every topic belongs to one dataset, the
  names are distinct and none extends another by a colon, and within a dataset paths are distinct.\<close>

definition well_formed_catalog :: "host_catalog \<Rightarrow> bool" where
  "well_formed_catalog cat \<longleftrightarrow>
     length (ca_sources cat) \<ge> 2 \<and> length (ca_topics cat) < 2 ^ 32
     \<and> (\<forall>a \<in> set (ca_sources cat). ds_name a \<noteq> []
          \<and> unat (ds_first_topic a) + unat (ds_topic_count a) \<le> length (ca_topics cat))
     \<and> (\<forall>a \<in> set (ca_sources cat). \<forall>b \<in> set (ca_sources cat). a \<noteq> b \<longrightarrow>
          ds_name a \<noteq> ds_name b
          \<and> take (length (ds_name a) + 1) (ds_name b) \<noteq> ds_name a @ '':''
          \<and> (\<forall>ti < length (ca_topics cat). \<not> (in_source a ti \<and> in_source b ti)))
     \<and> (\<forall>ti < length (ca_topics cat). \<exists>a \<in> set (ca_sources cat). in_source a ti)
     \<and> (\<forall>a \<in> set (ca_sources cat). \<forall>datasets.
          distinct (map rs_host_path (catalog_series cat datasets (ds_first_topic a) (ds_first_topic a + ds_topic_count a))))"

lemma fold_put_range:
  "fold (\<lambda>i m. m(f i \<mapsto> v)) xs = (\<lambda>m k. if k \<in> f ` set xs then Some v else m k)"
proof (rule ext)
  show "fold (\<lambda>i m. m(f i \<mapsto> v)) xs m = (\<lambda>k. if k \<in> f ` set xs then Some v else m k)" for m
    by (induction xs arbitrary: m) (auto simp: fun_eq_iff)
qed

lemma in_source_image:
  assumes "unat (ds_first_topic src) + unat (ds_topic_count src) < 2 ^ 32" "ti < 2 ^ 32"
  shows "of_nat ti \<in> (\<lambda>i. ds_first_topic src + of_nat i) ` set [0..<unat (ds_topic_count src)] \<longleftrightarrow> in_source src ti"
proof -
  have u: "unat (ds_first_topic src + of_nat i) = unat (ds_first_topic src) + i" if "i < unat (ds_topic_count src)" for i
  proof -
    have "unat (of_nat i :: 32 word) = i" using that assms(1) by (simp add: unat_of_nat)
    with that assms(1) show ?thesis by (subst unat_add_lem [THEN iffD1]) simp_all
  qed
  have t: "unat (of_nat ti :: 32 word) = ti" using assms(2) by (simp add: unat_of_nat)
  show ?thesis
  proof
    assume "of_nat ti \<in> (\<lambda>i. ds_first_topic src + of_nat i) ` set [0..<unat (ds_topic_count src)]"
    then obtain i where "i < unat (ds_topic_count src)" "of_nat ti = ds_first_topic src + of_nat i" by auto
    with u t show "in_source src ti" by (metis in_source_def le_add1 nat_add_left_cancel_less)
  next
    assume "in_source src ti"
    then have "ti - unat (ds_first_topic src) < unat (ds_topic_count src)"
      "of_nat ti = ds_first_topic src + of_nat (ti - unat (ds_first_topic src))"
      by (auto simp: in_source_def of_nat_diff)
    then show "of_nat ti \<in> (\<lambda>i. ds_first_topic src + of_nat i) ` set [0..<unat (ds_topic_count src)]" by force
  qed
qed

lemma fold_owner:
  "(a \<in> set srcs \<and> P a k) \<or> m k = Some (nm a) \<Longrightarrow> \<forall>b \<in> set srcs. P b k \<longrightarrow> b = a \<Longrightarrow>
    fold (\<lambda>src m k. if P src k then Some (nm src) else m k) srcs m k = Some (nm a)"
proof (induction srcs arbitrary: m)
  case (Cons b srcs)
  show ?case
  proof (cases "P b k")
    case True with Cons show ?thesis by simp
  next
    case False with Cons show ?thesis by auto
  qed
qed simp

lemma dataset_of_topic:
  assumes "well_formed_catalog cat" "a \<in> set (ca_sources cat)" "in_source a ti" "ti < length (ca_topics cat)"
  shows "dataset_by_topic_index (ca_sources cat) (of_nat ti) = Some (ds_name a)"
proof -
  let ?P = "\<lambda>src k. k \<in> (\<lambda>i. ds_first_topic src + of_nat i) ` set [0..<unat (ds_topic_count src)]"
  have P: "?P b (of_nat ti) \<longleftrightarrow> in_source b ti" if "b \<in> set (ca_sources cat)" for b
    using assms(1,4) that by (intro in_source_image) (auto simp: well_formed_catalog_def)
  have unique: "\<forall>b \<in> set (ca_sources cat). ?P b (of_nat ti) \<longrightarrow> b = a"
    using assms P unfolding well_formed_catalog_def by metis
  have e: "dataset_by_topic_index (ca_sources cat)
      = fold (\<lambda>src m k. if ?P src k then Some (ds_name src) else m k) (ca_sources cat) Map.empty"
    using assms(1) by (simp add: dataset_by_topic_index_def fold_put_range [abs_def] well_formed_catalog_def)
  have "?P a (of_nat ti)" using P [OF assms(2)] assms(3) by simp
  with assms(2) have owner: "a \<in> set (ca_sources cat) \<and> ?P a (of_nat ti) \<or> Map.empty (of_nat ti) = Some (ds_name a)" by blast
  show ?thesis unfolding e by (rule fold_owner [of a "ca_sources cat" ?P "of_nat ti" Map.empty ds_name, OF owner unique])
qed

lemma longest_qualifier_result:
  "(a \<in> set srcs \<and> qualified_by s (ds_name a) \<and> (case best of None \<Rightarrow> True | Some b \<Rightarrow> length (ds_name b) < length (ds_name a)))
      \<or> best = Some a \<Longrightarrow>
    \<forall>b \<in> set srcs. qualified_by s (ds_name b) \<longrightarrow> b = a \<or> length (ds_name b) < length (ds_name a) \<Longrightarrow>
    ds_name a \<noteq> [] \<Longrightarrow> longest_qualifier s best srcs = Some a"
proof (induction srcs arbitrary: best)
  case (Cons b srcs)
  show ?case
  proof (cases "b = a \<or> best = Some a")
    case True
    with Cons.prems have "longest_qualifier s best (b # srcs) = longest_qualifier s (Some a) srcs"
      by (auto split: option.splits)
    with Cons show ?thesis by simp
  next
    case False
    with Cons.prems have "a \<in> set srcs" "qualified_by s (ds_name a)" by auto
    with False Cons show ?thesis by (auto split: option.splits)
  qed
qed simp

lemma filter_key_single:
  "distinct (map f xs) \<Longrightarrow> x \<in> set xs \<Longrightarrow> filter (\<lambda>y. f y = f x) xs = [x]"
  by (induction xs) (auto simp: image_iff filter_empty_conv)

lemma catalog_series_member:
  "s \<in> set (catalog_series cat datasets lo hi) \<longleftrightarrow>
    (\<exists>ti \<in> {unat lo..<unat hi}. \<exists>idx \<in> set (topic_fields cat (ca_topics cat ! ti)). s = series_at cat datasets ti idx)"
  by (auto simp: catalog_series_def)

lemma lookup_spec_member:
  "sl_resolved (lookup_spec bare ss) = Some s \<Longrightarrow> s \<in> set ss"
proof -
  assume a: "sl_resolved (lookup_spec bare ss) = Some s"
  then have "s \<in> set (exact_series bare ss) \<or> s \<in> set (near_series bare ss)"
    by (auto simp: lookup_spec_def Let_def split: list.splits if_splits)
  then show ?thesis by (auto simp: exact_series_def near_series_def)
qed

lemma match_qualifier_hi:
  "length (ca_topics cat) < 2 ^ 32 \<Longrightarrow> unat (qm_hi (match_qualifier cat series)) \<le> length (ca_topics cat)"
  by (auto simp: match_qualifier_def Let_def unat_of_nat min_def word_le_nat_alt split: option.splits)

lemma qualified_match:
  assumes wf: "well_formed_catalog cat" and a: "a \<in> set (ca_sources cat)"
  shows "match_qualifier cat (ds_name a @ CHR '':'' # bare)
    = \<lparr>qm_bare = bare, qm_lo = ds_first_topic a, qm_hi = ds_first_topic a + ds_topic_count a\<rparr>"
proof -
  let ?s = "ds_name a @ CHR '':'' # bare"
  have "b = a \<or> length (ds_name b) < length (ds_name a)" if b: "b \<in> set (ca_sources cat)" "qualified_by ?s (ds_name b)" for b
  proof (rule ccontr)
    assume no: "\<not> ?thesis"
    then have ne: "b \<noteq> a" and len: "length (ds_name a) \<le> length (ds_name b)" by auto
    from b(2) have t: "take (length (ds_name b)) ?s = ds_name b" by (simp add: qualified_by_def)
    show False
    proof (cases "length (ds_name a) = length (ds_name b)")
      case True
      with t have "ds_name b = ds_name a" by simp
      with wf a b(1) ne show False unfolding well_formed_catalog_def by metis
    next
      case False
      with len have "length (ds_name a) + 1 \<le> length (ds_name b)" by simp
      then have "take (length (ds_name a) + 1) (ds_name b) = take (length (ds_name a) + 1) ?s"
        by (metis t take_take min.absorb1)
      then have "take (length (ds_name a) + 1) (ds_name b) = ds_name a @ '':''" by simp
      with wf a b(1) ne show False unfolding well_formed_catalog_def by metis
    qed
  qed
  moreover have n: "ds_name a \<noteq> []" using wf a by (simp add: well_formed_catalog_def)
  moreover have "qualified_by ?s (ds_name a)" using n by (simp add: qualified_by_def)
  ultimately have l: "longest_qualifier ?s None (ca_sources cat) = Some a"
    using a by (intro longest_qualifier_result) auto
  have "unat (ds_first_topic a) + unat (ds_topic_count a) \<le> length (ca_topics cat)" "length (ca_topics cat) < 2 ^ 32"
    using wf a by (simp_all add: well_formed_catalog_def)
  then have "min (ds_first_topic a + ds_topic_count a) (of_nat (length (ca_topics cat))) = ds_first_topic a + ds_topic_count a"
    by (subst min.absorb1) (auto simp: word_le_nat_alt unat_of_nat unat_add_lem [THEN iffD1])
  with l show ?thesis by (simp add: match_qualifier_def Let_def)
qed

text \<open>With several datasets loaded, the path a lookup reports for a series can be given back: looked up
  again it resolves to the same series, however it was abbreviated the first time. The catalog has to be
  well formed: its datasets partition the topics, no dataset name is another one or begins with another and
  a colon, and the paths within a dataset are distinct.\<close>

theorem reported_path_resolves_again:
  assumes wf: "well_formed_catalog cat" and found: "sl_resolved (resolve_series cat series) = Some s"
  shows "resolve_series cat (rs_path s) = \<lparr>sl_resolved = Some s, sl_candidates = [], sl_ambiguous = False\<rparr>"
proof -
  let ?ds = "dataset_by_topic_index (ca_sources cat)"
  let ?qm = "match_qualifier cat series"
  from found have "s \<in> set (catalog_series cat ?ds (qm_lo ?qm) (qm_hi ?qm))"
    by (auto simp: resolve_series_def lookup_meets_spec Let_def dest: lookup_spec_member)
  then obtain ti idx where ti: "ti < unat (qm_hi ?qm)" "idx \<in> set (topic_fields cat (ca_topics cat ! ti))"
    and s: "s = series_at cat ?ds ti idx" by (auto simp: catalog_series_member)
  have size: "length (ca_topics cat) < 2 ^ 32" using wf by (simp add: well_formed_catalog_def)
  with ti(1) match_qualifier_hi [of cat series] have t: "ti < length (ca_topics cat)" by simp
  obtain a where a: "a \<in> set (ca_sources cat)" "in_source a ti" using wf t unfolding well_formed_catalog_def by metis
  have n: "ds_name a \<noteq> []" using wf a(1) by (simp add: well_formed_catalog_def)
  have path: "rs_path s = ds_name a @ CHR '':'' # rs_host_path s"
    using dataset_of_topic [OF wf a t] n by (simp add: s series_at_def Let_def qualify_def)
  have "unat (ds_first_topic a + ds_topic_count a) = unat (ds_first_topic a) + unat (ds_topic_count a)"
    using wf a(1) size by (subst unat_add_lem [THEN iffD1]) (auto simp: well_formed_catalog_def)
  with a(2) ti(2) s have mem: "s \<in> set (catalog_series cat ?ds (ds_first_topic a) (ds_first_topic a + ds_topic_count a))"
    by (auto simp: catalog_series_member in_source_def)
  have "distinct (map rs_host_path (catalog_series cat ?ds (ds_first_topic a) (ds_first_topic a + ds_topic_count a)))"
    using wf a(1) by (simp add: well_formed_catalog_def)
  from filter_key_single [OF this mem]
  have "exact_series (rs_host_path s) (catalog_series cat ?ds (ds_first_topic a) (ds_first_topic a + ds_topic_count a)) = [s]"
    by (simp add: exact_series_def)
  then show ?thesis
    by (simp add: resolve_series_def lookup_meets_spec path qualified_match [OF wf a(1)] lookup_spec_def Let_def)
qed


theorem reported_path_resolves_again_witness:
  "resolve_series two_runs ''run2:/pose/y'' = \<lparr>sl_resolved = Some \<lparr>rs_handle = 4, rs_topic = ''/pose'',
      rs_path = ''run2:/pose/y'', rs_host_path = ''/pose/y'', rs_dataset = ''run2''\<rparr>,
    sl_candidates = [], sl_ambiguous = False\<rparr>"
proof -
  have two: "ti < 2 \<longleftrightarrow> ti = 0 \<or> ti = 1" for ti :: nat by auto
  have cs: "map rs_host_path (catalog_series two_runs datasets 0 1) = [''/pose/x'', ''/pose/y'']"
    "map rs_host_path (catalog_series two_runs datasets 1 2) = [''/pose/x'', ''/pose/y'']" for datasets
    by (simp_all add: catalog_series_def topic_fields_def two_runs_def series_at_def Let_def join_path_def upt_conv_Cons)
  have wf: "well_formed_catalog two_runs"
    using cs unfolding well_formed_catalog_def in_source_def by (auto simp: two_runs_def two)
  have "sl_resolved (resolve_series two_runs ''run2:y'') = Some \<lparr>rs_handle = 4, rs_topic = ''/pose'',
      rs_path = ''run2:/pose/y'', rs_host_path = ''/pose/y'', rs_dataset = ''run2''\<rparr>" by code_simp
  from reported_path_resolves_again [OF wf this] show ?thesis by simp
qed


text \<open>Two datasets of one name, as when a file is loaded twice: the second cannot be named.\<close>

lemma same_name_hides_second_run:
  "(let again = two_runs\<lparr>ca_sources := map (\<lambda>src. src\<lparr>ds_name := ''run''\<rparr>) (ca_sources two_runs)\<rparr> in
    sl_candidates (resolve_series again ''/pose/x'') = [''run:/pose/x'', ''run:/pose/x'']
    \<and> map_option rs_handle (sl_resolved (resolve_series again ''run:/pose/x'')) = Some 1)"
  by code_simp

end
