(* ===== verification/ScriptChunks.thy ===== *)
theory ScriptChunks
  imports ScriptNames SeriesPaths
begin

section \<open>Generated scripts and their layout (recipes.cpp, script_text.cpp)\<close>

text \<open>
  The text of the generated Luau and Python chunks, the layout that says at which lines of a chunk the
  user's code sits, and the mapping of line numbers in the host's error messages back to the user's code.
  Facts shown: a string put into a generated literal stays inside it and reads back as itself; the lines a
  layout names are the user's lines; an error at one of them is reported with the user's own line number.
\<close>

subsection \<open>Lines\<close>

text \<open>The lines of a text, as an editor or a compiler counts them: the reference for \<open>physicalLines\<close>.\<close>

fun lines_of :: "string \<Rightarrow> string list" where
  "lines_of [] = [[]]"
| "lines_of (c # cs) = (if c = newline_char then [] # lines_of cs else (c # hd (lines_of cs)) # tl (lines_of cs))"

abbreviation newline_text :: string where "newline_text \<equiv> [newline_char]"

definition line_breaks :: "string \<Rightarrow> nat" where
  "line_breaks s = length (filter (\<lambda>c. c = newline_char) s)"

definition physical_lines :: "string \<Rightarrow> nat" where
  "physical_lines s = 1 + line_breaks s"

subsection \<open>String literals\<close>

definition lua_escape :: "string \<Rightarrow> string" where
  "lua_escape s =
     concat (map (\<lambda>c. if c = backslash \<or> c = double_quote then [backslash, c]
                      else if c = newline_char then [backslash, CHR ''n'']
                      else if c = CHR 0x0D then [backslash, CHR ''r'']
                      else if c = CHR 0x09 then [backslash, CHR ''t'']
                      else [c]) s)"

definition literal :: "string \<Rightarrow> string" where
  "literal s = double_quote # lua_escape s @ [double_quote]"

subsection \<open>Layouts\<close>

record script_layout =
  ly_body_first :: nat
  ly_body_lines :: nat
  ly_globals_first :: nat
  ly_globals_lines :: nat

definition empty_layout :: script_layout where
  "empty_layout = \<lparr>ly_body_first = 0, ly_body_lines = 0, ly_globals_first = 0, ly_globals_lines = 0\<rparr>"

record built_script =
  bs_script :: string
  bs_layout :: script_layout

subsection \<open>On-demand chunks\<close>

definition on_demand_chunk :: "string \<Rightarrow> string" where
  "on_demand_chunk body =
     ''-- pj-script: luau'' @ newline_text @ ''local inputs, params = ...'' @ newline_text @ body @ newline_text"

definition blank :: "string \<Rightarrow> bool" where
  "blank s \<longleftrightarrow> list_all (\<lambda>c. c \<in> {CHR '' '', CHR 0x09, CHR 0x0D, newline_char}) s"

definition four_spaces :: string where "four_spaces = ''    ''"

text \<open>The loop of \<open>indentPython\<close> over the lines of the code.\<close>

function indent_loop :: "string \<Rightarrow> string" where
  "indent_loop code =
     (let line = takeWhile (\<lambda>c. c \<noteq> newline_char) code;
          out = (if line = [] then newline_text else four_spaces @ line @ newline_text)
      in if line = code then out else out @ indent_loop (drop (length line + 1) code))"
  by pat_completeness auto
termination
proof (relation "measure length")
  fix code line :: string and out :: string
  assume "line = takeWhile (\<lambda>c. c \<noteq> newline_char) code" "line \<noteq> code"
  then have "code \<noteq> []" by auto
  then show "(drop (length line + 1) code, code) \<in> measure length" by simp
qed simp

declare indent_loop.simps [simp del]

definition indent_python :: "string \<Rightarrow> string" where
  "indent_python code = (if blank code then four_spaces @ ''pass'' @ newline_text else indent_loop code)"

definition alias_row :: "bool \<Rightarrow> string \<times> string \<Rightarrow> string" where
  "alias_row python e =
     (case e of (alias, key) \<Rightarrow>
        let value = ''inputs['' @ literal key @ '']'' in
        if python then literal alias @ '': '' @ value @ '','' @ newline_text
        else ''['' @ literal alias @ ''] = '' @ value @ '','' @ newline_text)"

definition alias_table :: "eval_inputs \<Rightarrow> bool \<Rightarrow> string" where
  "alias_table resolved python =
     (if python \<and> ev_aliases resolved = [] then []
      else ''inputs = {'' @ newline_text @ concat (map (alias_row python) (ev_aliases resolved)) @ ''}'' @ newline_text)"

definition on_demand_layout :: "string \<Rightarrow> string \<Rightarrow> script_layout" where
  "on_demand_layout table body =
     empty_layout\<lparr>ly_body_first := 3 + line_breaks table, ly_body_lines := physical_lines body\<rparr>"

definition resolved_chunk :: "string \<Rightarrow> eval_inputs \<Rightarrow> built_script" where
  "resolved_chunk body resolved =
     (let table = alias_table resolved False in
      \<lparr>bs_script = on_demand_chunk (table @ body), bs_layout = on_demand_layout table body\<rparr>)"

definition python_chunk :: "string \<Rightarrow> eval_inputs \<Rightarrow> built_script" where
  "python_chunk body resolved =
     (let table = alias_table resolved True in
      \<lparr>bs_script = ''# pj-script: python'' @ newline_text @ ''def evaluate(inputs, params):'' @ newline_text
         @ indent_python (table @ body),
       bs_layout = on_demand_layout table body\<rparr>)"

subsection \<open>The Transform Editor's chunk\<close>

record input_binding =
  ib_var :: string
  ib_key :: string

definition variable_prologue :: "string \<Rightarrow> input_binding list \<Rightarrow> string" where
  "variable_prologue language bindings =
     concat (map (\<lambda>b. (if is_python language then [] else ''local '') @ ib_var b @ '' = inputs['' @ literal (ib_key b)
                      @ '']'' @ newline_text) bindings)"

definition on_demand_script ::
  "string \<Rightarrow> string \<Rightarrow> input_binding list \<Rightarrow> eval_inputs \<Rightarrow> string \<Rightarrow> built_script" where
  "on_demand_script body globals bindings resolved language =
     (let prologue = variable_prologue language bindings;
          user = (if globals = [] then body else globals @ newline_text @ body);
          out = (if is_python language then python_chunk (prologue @ user) resolved
                 else resolved_chunk (prologue @ user) resolved);
          line = ly_body_first (bs_layout out) + line_breaks prologue;
          layout = (if globals = [] then empty_layout
                    else empty_layout\<lparr>ly_globals_first := line, ly_globals_lines := physical_lines globals\<rparr>);
          line = (if globals = [] then line else line + physical_lines globals)
      in \<lparr>bs_script = bs_script out,
          bs_layout = layout\<lparr>ly_body_first := line, ly_body_lines := physical_lines body\<rparr>\<rparr>)"

subsection \<open>The per-sample transform chunk\<close>

definition extra_params :: "nat \<Rightarrow> string" where
  "extra_params num_extra = ''time, value'' @ concat (map (\<lambda>k. '', v'' @ nat_text (k + 1)) [0..<num_extra])"

definition transform_script ::
  "string \<Rightarrow> string \<Rightarrow> string \<Rightarrow> string \<Rightarrow> nat \<Rightarrow> string \<Rightarrow> built_script" where
  "transform_script raw_id raw_name globals body num_extra language =
     (let params = extra_params num_extra in
      if is_python language
      then (let globals_part = (if globals = [] then [] else globals @ newline_text @ newline_text);
                line = 2 + (if globals = [] then 0 else physical_lines globals + 1) + 1;
                user = (if body = [] then ''return value'' else body)
            in \<lparr>bs_script = ''# pj-script: python'' @ newline_text @ globals_part
                  @ ''def _pj_fn('' @ params @ ''):'' @ newline_text @ indent_python user @ newline_text
                  @ ''class T:'' @ newline_text
                  @ ''    id = '' @ literal raw_id @ newline_text
                  @ ''    name = '' @ literal raw_name @ newline_text
                  @ ''    output = '' @ literal ''double'' @ newline_text
                  @ ''    @staticmethod'' @ newline_text
                  @ ''    def create(params):'' @ newline_text @ ''        return T()'' @ newline_text
                  @ ''    def calculate(self, time, value, *args):'' @ newline_text
                  @ ''        return _pj_fn(time, value, *args)'' @ newline_text,
                bs_layout = \<lparr>ly_body_first = line, ly_body_lines = physical_lines user,
                  ly_globals_first = (if globals = [] then 0 else 2),
                  ly_globals_lines = (if globals = [] then 0 else physical_lines globals)\<rparr>\<rparr>)
      else (let line = 3 + physical_lines globals + 1
            in \<lparr>bs_script = ''-- pj-script: '' @ language @ newline_text @ ''local function _pj_make()'' @ newline_text
                  @ globals @ newline_text @ ''  return function('' @ params @ '')'' @ newline_text
                  @ body @ newline_text @ ''  end'' @ newline_text @ ''end'' @ newline_text
                  @ ''local T = { id = '' @ literal raw_id @ '', name = '' @ literal raw_name
                  @ '', output = '' @ literal ''double'' @ '' }'' @ newline_text
                  @ ''T.__index = T'' @ newline_text
                  @ ''function T.create(_) return setmetatable({ fn = _pj_make() }, T) end'' @ newline_text
                  @ ''function T:calculate(t, v, ...) return self.fn(t, v, ...) end'' @ newline_text
                  @ ''return T'' @ newline_text,
                bs_layout = \<lparr>ly_body_first = line, ly_body_lines = physical_lines body,
                  ly_globals_first = (if globals = [] then 0 else 3),
                  ly_globals_lines = (if globals = [] then 0 else physical_lines globals)\<rparr>\<rparr>))"

subsection \<open>Error messages: remapScriptLines\<close>

definition within :: "int \<Rightarrow> nat \<Rightarrow> nat \<Rightarrow> bool" where
  "within chunk_line first count \<longleftrightarrow> count > 0 \<and> int first \<le> chunk_line \<and> chunk_line < int (first + count)"

definition user_line :: "int \<Rightarrow> script_layout \<Rightarrow> string" where
  "user_line chunk_line layout =
     (if within chunk_line (ly_body_first layout) (ly_body_lines layout)
      then ''line '' @ int_text (chunk_line - int (ly_body_first layout) + 1)
      else if within chunk_line (ly_globals_first layout) (ly_globals_lines layout)
      then ''globals line '' @ int_text (chunk_line - int (ly_globals_first layout) + 1)
      else ''line ?'')"

definition digits_at :: "string \<Rightarrow> nat \<Rightarrow> nat" where
  "digits_at s i = scan_while is_digit s i - i"

definition number_at :: "string \<Rightarrow> nat \<Rightarrow> int" where
  "number_at s i = int (text_value (Prelude.slice s i (i + digits_at s i)))"

text \<open>A number of one to nine digits at \<open>first\<close> followed by \<open>close\<close>: the number and the offset of \<open>close\<close>.\<close>

definition number_closed :: "string \<Rightarrow> nat \<Rightarrow> string \<Rightarrow> (int \<times> nat) option" where
  "number_closed error first close =
     (let digits = digits_at error first in
      if digits = 0 \<or> digits > 9 \<or> \<not> starts_at error close (first + digits) then None
      else Some (number_at error first, first + digits))"

fun luau_chunk :: "string \<Rightarrow> nat \<Rightarrow> string list \<Rightarrow> (int \<times> nat) option" where
  "luau_chunk error i [] = None"
| "luau_chunk error i (chunk # chunks) =
     (if starts_at error chunk i \<and> starts_at error '':'' (i + length chunk)
      then (case number_closed error (i + length chunk + 1) '':'' of
              None \<Rightarrow> luau_chunk error i chunks
            | Some r \<Rightarrow> Some r)
      else luau_chunk error i chunks)"

definition luau_at :: "string \<Rightarrow> nat \<Rightarrow> (int \<times> nat) option" where
  "luau_at error i =
     (if i \<noteq> 0 \<and> is_word_char (error ! (i - 1)) then None
      else luau_chunk error i [''script'', ''filter'', ''rule''])"

definition python_at :: "string \<Rightarrow> nat \<Rightarrow> (int \<times> nat) option" where
  "python_at error i =
     (if starts_at error ''<string>('' i
      then map_option (\<lambda>(n, e). (n, e + 1)) (number_closed error (i + 9) '')'')
      else if starts_at error (double_quote # ''<string>'' @ double_quote # '', line '') i
      then number_closed error (i + 17) []
      else None)"

definition syntax_error_at :: "string \<Rightarrow> nat \<Rightarrow> (int \<times> nat) option" where
  "syntax_error_at error i =
     (let opn = ''(<string>, line '' in
      if \<not> starts_at error opn i then None
      else map_option (\<lambda>(n, e). (n, e + 1)) (number_closed error (i + length opn) '')''))"

text \<open>What is found at offset \<open>i\<close>: the text to write and the offset to go on from.\<close>

definition remap_at :: "string \<Rightarrow> script_layout \<Rightarrow> nat \<Rightarrow> (string \<times> nat) option" where
  "remap_at error layout i =
     (case syntax_error_at error i of
        Some (n, e) \<Rightarrow> Some (''('' @ user_line n layout @ '')'', e)
      | None \<Rightarrow> (case luau_at error i of
            Some (n, e) \<Rightarrow> Some (user_line n layout, e)
          | None \<Rightarrow> map_option (\<lambda>(n, e). (user_line n layout, e)) (python_at error i)))"


lemma number_closed_ge: "number_closed error first close = Some (n, e) \<Longrightarrow> first < e"
  by (auto simp: number_closed_def Let_def split: if_splits)

lemma luau_chunk_ge: "luau_chunk error i chunks = Some (n, e) \<Longrightarrow> i < e"
  by (induction error i chunks rule: luau_chunk.induct)
     (auto split: if_splits option.splits dest: number_closed_ge)

lemma remap_at_progress: "remap_at error layout i = Some (t, e) \<Longrightarrow> i < e"
  by (auto simp: remap_at_def syntax_error_at_def luau_at_def python_at_def Let_def
      split: option.splits if_splits dest!: number_closed_ge luau_chunk_ge)

function remap_from :: "string \<Rightarrow> script_layout \<Rightarrow> nat \<Rightarrow> string" where
  "remap_from error layout i =
     (if i < length error
      then (case remap_at error layout i of
              Some (t, e) \<Rightarrow> t @ remap_from error layout e
            | None \<Rightarrow> error ! i # remap_from error layout (i + 1))
      else [])"
  by pat_completeness auto
termination
  by (relation "measure (\<lambda>(error, layout, i). length error - i)") (auto dest: remap_at_progress)

declare remap_from.simps [simp del]

definition remap_script_lines :: "string \<Rightarrow> script_layout \<Rightarrow> string" where
  "remap_script_lines error layout = remap_from error layout 0"

text \<open>\<open>namesUndefinedName\<close>.\<close>

definition contains_text :: "string \<Rightarrow> string \<Rightarrow> bool" where
  "contains_text s p \<longleftrightarrow> find_str p s 0 \<noteq> None"

definition names_undefined_name :: "string \<Rightarrow> string \<Rightarrow> bool" where
  "names_undefined_name language error \<longleftrightarrow>
     list_ex (contains_text error)
       (if is_python language
        then [''NameError: name '' @ [single_quote],
              single_quote # ''NoneType'' @ single_quote # '' object has no attribute'']
        else [''attempt to index nil'', ''attempt to index a nil value'', ''attempt to call a nil value''])"

subsection \<open>Lines: facts\<close>

lemma lines_of_ne [simp]: "lines_of s \<noteq> []"
  by (cases s) auto

lemma lines_append: "lines_of (a @ newline_char # b) = lines_of a @ lines_of b"
  by (induction a) (auto simp: hd_append)

lemma lines_no_newline: "newline_char \<notin> set a \<Longrightarrow> lines_of a = [a]"
  by (induction a) auto

lemma length_lines_of: "length (lines_of s) = physical_lines s"
  by (induction s) (auto simp: physical_lines_def line_breaks_def)

lemma line_breaks_append [simp]: "line_breaks (a @ b) = line_breaks a + line_breaks b"
  by (simp add: line_breaks_def)

lemma line_breaks_Cons [simp]: "line_breaks (c # s) = (if c = newline_char then 1 else 0) + line_breaks s"
  by (simp add: line_breaks_def)

lemma line_breaks_Nil [simp]: "line_breaks [] = 0"
  by (simp add: line_breaks_def)

text \<open>The lines of a text that ends in a line break, without the empty one after it.\<close>

lemma lines_after: "lines_of (a @ newline_char # b) ! (line_breaks a + 1 + k) = lines_of b ! k"
  by (simp add: lines_append nth_append length_lines_of physical_lines_def)

declare lines_of.simps(2) [simp del]

definition full_lines :: "string \<Rightarrow> bool" where
  "full_lines p \<longleftrightarrow> p = [] \<or> last p = newline_char"

lemma full_lines_append [intro]: "full_lines a \<Longrightarrow> full_lines b \<Longrightarrow> full_lines (a @ b)"
  by (cases "b = []") (auto simp: full_lines_def)

lemma full_lines_concat: "\<forall>x \<in> set xs. full_lines x \<Longrightarrow> full_lines (concat xs)"
proof (induction xs)
  case (Cons a xs) then show ?case by (simp add: full_lines_append)
qed (simp add: full_lines_def)

lemma full_lines_newline [simp]: "full_lines (a @ newline_text)" "full_lines [newline_char]" "full_lines []"
  by (simp_all add: full_lines_def)

lemma lines_after_full: "full_lines p \<Longrightarrow> drop (line_breaks p) (lines_of (p @ b)) = lines_of b"
proof (cases p rule: rev_cases)
  case (snoc a c)
  moreover assume "full_lines p"
  ultimately have "p = a @ [newline_char]" by (simp add: full_lines_def)
  then show ?thesis by (simp add: lines_append length_lines_of physical_lines_def)
qed simp

lemma lines_placed:
  "full_lines p \<Longrightarrow> take (physical_lines b) (drop (line_breaks p) (lines_of (p @ b @ newline_char # c))) = lines_of b"
  by (simp add: lines_after_full lines_append flip: length_lines_of)

lemma lines_placed_last:
  "full_lines p \<Longrightarrow> take (physical_lines b) (drop (line_breaks p) (lines_of (p @ b))) = lines_of b"
  by (simp add: lines_after_full flip: length_lines_of)

definition indent_line :: "string \<Rightarrow> string" where
  "indent_line l = (if l = [] then [] else four_spaces @ l)"

lemma first_line: "lines_of code = takeWhile (\<lambda>c. c \<noteq> newline_char) code #
    (if takeWhile (\<lambda>c. c \<noteq> newline_char) code = code then []
     else lines_of (drop (length (takeWhile (\<lambda>c. c \<noteq> newline_char) code) + 1) code))"
  by (induction code) (auto simp: lines_of.simps(2))

lemma newline_not_in_takeWhile: "newline_char \<notin> set (takeWhile (\<lambda>c. c \<noteq> newline_char) s)"
  using set_takeWhileD by fastforce

lemma lines_indent: "lines_of (indent_loop code) = map indent_line (lines_of code) @ [[]]"
proof (induction code rule: indent_loop.induct)
  case (1 code)
  let ?line = "takeWhile (\<lambda>c. c \<noteq> newline_char) code"
  let ?out = "if ?line = [] then newline_text else four_spaces @ ?line @ newline_text"
  have out: "?out = indent_line ?line @ newline_text" by (simp add: indent_line_def)
  have "newline_char \<notin> set (indent_line ?line)"
    using newline_not_in_takeWhile [of code] by (simp add: indent_line_def four_spaces_def)
  then have l: "lines_of (?out @ rest) = indent_line ?line # lines_of rest" for rest
    unfolding out by (simp add: lines_append lines_no_newline)
  show ?case
  proof (cases "?line = code")
    case True
    then have e: "indent_loop code = ?out @ []" unfolding append_Nil2 by (subst indent_loop.simps) (simp add: Let_def)
    have "lines_of (indent_loop code) = [indent_line ?line, []]" by (simp only: e l lines_of.simps(1))
    moreover have "lines_of code = [?line]" by (subst first_line) (simp add: True)
    ultimately show ?thesis by simp
  next
    case False
    then have "indent_loop code = ?out @ indent_loop (drop (length ?line + 1) code)"
      by (subst indent_loop.simps) (simp only: Let_def False if_False)
    then have "lines_of (indent_loop code) = indent_line ?line # lines_of (indent_loop (drop (length ?line + 1) code))"
      by (simp only: l)
    moreover have "lines_of code = ?line # lines_of (drop (length ?line + 1) code)"
      by (subst first_line) (simp only: if_not_P [OF False])
    ultimately show ?thesis by (simp only: 1 [OF refl refl False] list.map append_Cons)
  qed
qed

lemma indented_placed:
  assumes "full_lines p" "drop (length a) (lines_of s) = map indent_line (lines_of (p @ b @ c)) @ [[]]"
    and "take (physical_lines b) (lines_of (b @ c)) = lines_of b"
  shows "take (physical_lines b) (drop (length a + line_breaks p) (lines_of s)) = map indent_line (lines_of b)"
proof -
  have "physical_lines b \<le> length (lines_of (b @ c))" using assms(3) by (metis length_lines_of length_take min.cobounded2 min.commute)
  moreover have "line_breaks p + length (lines_of (b @ c)) = length (lines_of (p @ b @ c))"
    by (simp add: length_lines_of physical_lines_def)
  ultimately have "take (physical_lines b) (drop (line_breaks p) (map indent_line (lines_of (p @ b @ c)) @ [[]]))
      = map indent_line (take (physical_lines b) (drop (line_breaks p) (lines_of (p @ b @ c))))"
    by (simp add: take_map drop_map)
  also have "\<dots> = map indent_line (lines_of b)" using assms(1,3) by (simp add: lines_after_full)
  finally show ?thesis using assms(2) by (simp add: drop_drop [symmetric] add.commute [of "length a"] del: drop_drop)
qed

subsection \<open>Layouts name the user's lines\<close>

definition script_lines :: "built_script \<Rightarrow> nat \<Rightarrow> nat \<Rightarrow> string list" where
  "script_lines s first count = take count (drop (first - 1) (lines_of (bs_script s)))"

lemma alias_table_full: "full_lines (alias_table resolved python)"
proof -
  have "full_lines (concat (map (alias_row python) rows))" for rows
    by (rule full_lines_concat) (auto simp: alias_row_def Let_def full_lines_def split: prod.splits)
  then show ?thesis by (auto simp: alias_table_def full_lines_def)
qed

lemma prologue_full: "full_lines (variable_prologue language bindings)"
  unfolding variable_prologue_def by (rule full_lines_concat) (auto simp: full_lines_def)

text \<open>How the editor's chunk shows a line of the user's code.\<close>

definition shown_line :: "string \<Rightarrow> string \<Rightarrow> string" where
  "shown_line language l = (if is_python language then indent_line l else l)"

definition user_code :: "string \<Rightarrow> string \<Rightarrow> string" where
  "user_code globals body = (if globals = [] then body else globals @ newline_text @ body)"

lemma header_lines:
  "newline_char \<notin> set a \<Longrightarrow> newline_char \<notin> set b \<Longrightarrow> lines_of (a @ newline_char # b @ newline_char # c) = a # b # lines_of c"
  by (simp add: lines_append lines_no_newline)

text \<open>A part \<open>b\<close> of a Luau chunk, and of an indented one, behind the full lines \<open>p\<close>.\<close>

lemma drop_two: "drop (2 + k) (a # b # l) = drop k l"
  by (simp add: numeral_2_eq_2)

lemma luau_lines: "lines_of (on_demand_chunk s) = ''-- pj-script: luau'' # ''local inputs, params = ...'' # lines_of (s @ newline_text)"
  unfolding on_demand_chunk_def append_Cons append_Nil
  by (rule header_lines [of "''-- pj-script: luau''" "''local inputs, params = ...''" "s @ newline_text", simplified])

lemma python_lines:
  "\<not> blank (table @ body) \<Longrightarrow> alias_table resolved True = table \<Longrightarrow>
    lines_of (bs_script (python_chunk body resolved))
      = ''# pj-script: python'' # ''def evaluate(inputs, params):'' # map indent_line (lines_of (table @ body)) @ [[]]"
  using header_lines [of "''# pj-script: python''" "''def evaluate(inputs, params):''" "indent_loop (table @ body)"]
  by (simp add: python_chunk_def Let_def indent_python_def lines_indent)

lemma take_lines: "c = [] \<or> hd c = newline_char \<Longrightarrow> take (physical_lines b) (lines_of (b @ c)) = lines_of b"
  by (cases c) (auto simp: lines_append simp flip: length_lines_of)

lemma luau_placed:
  assumes "full_lines p" "c = [] \<or> hd c = newline_char"
  shows "take (physical_lines b) (drop (2 + line_breaks p) (lines_of (on_demand_chunk (p @ b @ c)))) = lines_of b"
proof -
  have "c @ newline_text = [] \<or> hd (c @ newline_text) = newline_char" using assms(2) by (cases c) auto
  from take_lines [OF this] show ?thesis
    using lines_after_full [OF assms(1), of "b @ c @ newline_text"] by (simp only: luau_lines drop_two append_assoc)
qed

lemma python_placed:
  assumes "full_lines p" "c = [] \<or> hd c = newline_char" "\<not> blank (p @ b @ c)"
    and "alias_table resolved True @ body = p @ b @ c"
  shows "take (physical_lines b) (drop (2 + line_breaks p) (lines_of (bs_script (python_chunk body resolved))))
    = map indent_line (lines_of b)"
proof -
  have "lines_of (bs_script (python_chunk body resolved))
      = ''# pj-script: python'' # ''def evaluate(inputs, params):'' # map indent_line (lines_of (p @ b @ c)) @ [[]]"
    using python_lines [of _ body, OF _ refl] assms(3,4) by metis
  then have d: "drop (length [''# pj-script: python'', ''def evaluate(inputs, params):'']) (lines_of (bs_script (python_chunk body resolved)))
      = map indent_line (lines_of (p @ b @ c)) @ [[]]" by simp
  have two: "length [''# pj-script: python'', ''def evaluate(inputs, params):''] = 2" by simp
  from indented_placed [OF assms(1) d take_lines [OF assms(2)]] show ?thesis unfolding two .
qed

definition globals_part :: "string \<Rightarrow> string" where
  "globals_part globals = (if globals = [] then [] else globals @ newline_text)"

lemma user_code_parts: "user_code globals body = globals_part globals @ body"
  by (simp add: user_code_def globals_part_def)

lemma globals_part_full: "full_lines (globals_part globals)"
  by (simp add: globals_part_def)

lemma globals_part_breaks: "line_breaks (globals_part globals) = (if globals = [] then 0 else physical_lines globals)"
  by (simp add: globals_part_def physical_lines_def)

text \<open>The chunk's text and layout, with the parts before the user's code collected.\<close>

definition chunk_prefix :: "input_binding list \<Rightarrow> eval_inputs \<Rightarrow> string \<Rightarrow> string" where
  "chunk_prefix bindings resolved language =
     alias_table resolved (is_python language) @ variable_prologue language bindings"

lemma chunk_prefix_full: "full_lines (chunk_prefix bindings resolved language)"
  unfolding chunk_prefix_def by (intro full_lines_append alias_table_full prologue_full)

lemma on_demand_script_layout:
  "bs_layout (on_demand_script body globals bindings resolved language) =
     \<lparr>ly_body_first = 3 + line_breaks (chunk_prefix bindings resolved language @ globals_part globals),
      ly_body_lines = physical_lines body,
      ly_globals_first = (if globals = [] then 0 else 3 + line_breaks (chunk_prefix bindings resolved language)),
      ly_globals_lines = (if globals = [] then 0 else physical_lines globals)\<rparr>"
  by (simp add: on_demand_script_def Let_def python_chunk_def resolved_chunk_def on_demand_layout_def empty_layout_def
      chunk_prefix_def globals_part_breaks)

lemma on_demand_script_lines:
  assumes "p @ b @ c = chunk_prefix bindings resolved language @ user_code globals body"
    and "full_lines p" "c = [] \<or> hd c = newline_char" "is_python language \<longrightarrow> \<not> blank (p @ b @ c)"
  shows "take (physical_lines b) (drop (2 + line_breaks p) (lines_of (bs_script (on_demand_script body globals bindings resolved language))))
    = map (shown_line language) (lines_of b)"
proof (cases "is_python language")
  case True
  then have "bs_script (on_demand_script body globals bindings resolved language)
      = bs_script (python_chunk (variable_prologue language bindings @ user_code globals body) resolved)"
    by (simp add: on_demand_script_def Let_def user_code_def)
  moreover have "alias_table resolved True @ variable_prologue language bindings @ user_code globals body = p @ b @ c"
    using assms(1) True by (simp add: chunk_prefix_def)
  moreover have "\<not> blank (p @ b @ c)" using assms(4) True by simp
  ultimately show ?thesis using python_placed [OF assms(2,3)] True by (simp add: shown_line_def [abs_def])
next
  case False
  then have "bs_script (on_demand_script body globals bindings resolved language) = on_demand_chunk (p @ b @ c)"
    using assms(1) by (simp add: on_demand_script_def Let_def user_code_def resolved_chunk_def chunk_prefix_def)
  with luau_placed [OF assms(2,3)] False show ?thesis by (simp add: shown_line_def [abs_def])
qed

lemma layout_lines_of_body:
  assumes "is_python language \<longrightarrow> \<not> blank (chunk_prefix bindings resolved language @ user_code globals body)"
  defines "s \<equiv> on_demand_script body globals bindings resolved language"
  shows "script_lines s (ly_body_first (bs_layout s)) (ly_body_lines (bs_layout s)) = map (shown_line language) (lines_of body)"
proof -
  let ?pre = "chunk_prefix bindings resolved language"
  have "full_lines (?pre @ globals_part globals)" by (intro full_lines_append chunk_prefix_full globals_part_full)
  from on_demand_script_lines [of "?pre @ globals_part globals" body "[]", OF _ this] assms(1)
  show ?thesis by (simp add: s_def on_demand_script_layout script_lines_def user_code_parts)
qed

text \<open>The layout of an on-demand chunk is right: the lines it names for the body are the lines of the
  user's body, in order and all of them, and likewise for the globals; a Luau chunk has them unchanged, a
  Python chunk indented by four spaces. What the inputs, their keys and their names are makes no
  difference. (A Python chunk whose whole code is blank has \<open>pass\<close> in its place.)\<close>

theorem layout_names_user_lines:
  assumes "is_python language \<longrightarrow> \<not> blank (chunk_prefix bindings resolved language @ user_code globals body)"
  defines "s \<equiv> on_demand_script body globals bindings resolved language"
  shows "script_lines s (ly_body_first (bs_layout s)) (ly_body_lines (bs_layout s)) = map (shown_line language) (lines_of body)
    \<and> script_lines s (ly_globals_first (bs_layout s)) (ly_globals_lines (bs_layout s))
        = (if globals = [] then [] else map (shown_line language) (lines_of globals))"
proof
  let ?pre = "chunk_prefix bindings resolved language"
  show "script_lines s (ly_body_first (bs_layout s)) (ly_body_lines (bs_layout s)) = map (shown_line language) (lines_of body)"
    unfolding s_def by (rule layout_lines_of_body [OF assms(1)])
  show "script_lines s (ly_globals_first (bs_layout s)) (ly_globals_lines (bs_layout s))
        = (if globals = [] then [] else map (shown_line language) (lines_of globals))"
  proof (cases "globals = []")
    case True then show ?thesis by (simp add: s_def on_demand_script_layout script_lines_def)
  next
    case False
    with on_demand_script_lines [of ?pre globals "newline_char # body", OF _ chunk_prefix_full] assms(1)
    show ?thesis by (simp add: s_def on_demand_script_layout script_lines_def user_code_def)
  qed
qed

definition sample_inputs :: eval_inputs where
  "sample_inputs = \<lparr>ev_inputs = [], ev_anchor = None, ev_aliases = [(''/cloud'', ''run1:/cloud'')], ev_error = []\<rparr>"

definition sample_script :: "string \<Rightarrow> built_script" where
  "sample_script language =
     on_demand_script (''a = 1'' @ newline_text @ newline_text @ ''return a'') ''g = 2''
       [\<lparr>ib_var = ''cloud'', ib_key = ''/cloud''\<rparr>] sample_inputs language"

theorem layout_names_user_lines_witness:
  "script_lines (sample_script ''python'') 8 3 = [''    a = 1'', [], ''    return a'']"
proof -
  have "\<not> blank (chunk_prefix [\<lparr>ib_var = ''cloud'', ib_key = ''/cloud''\<rparr>] sample_inputs ''python''
      @ user_code ''g = 2'' (''a = 1'' @ newline_text @ newline_text @ ''return a''))" by code_simp
  then have h: "is_python ''python'' \<longrightarrow> \<not> blank (chunk_prefix [\<lparr>ib_var = ''cloud'', ib_key = ''/cloud''\<rparr>] sample_inputs ''python''
      @ user_code ''g = 2'' (''a = 1'' @ newline_text @ newline_text @ ''return a''))" by blast
  have l: "ly_body_first (bs_layout (sample_script ''python'')) = 8" "ly_body_lines (bs_layout (sample_script ''python'')) = 3"
    by code_simp+
  have m: "map (shown_line ''python'') (lines_of (''a = 1'' @ newline_text @ newline_text @ ''return a''))
      = [''    a = 1'', [], ''    return a'']" by code_simp
  from layout_names_user_lines [OF h, THEN conjunct1] show ?thesis
    by (simp only: sample_script_def [symmetric] l m)
qed

subsection \<open>Names inside generated literals\<close>

text \<open>How Luau and Python read a short string, given the text after the opening quote: the string and the text
  after the closing quote. A line break ends the literal unfinished.\<close>

definition unescaped :: "char \<Rightarrow> char" where
  "unescaped c = (if c = CHR ''n'' then newline_char else if c = CHR ''r'' then CHR 0x0D
                  else if c = CHR ''t'' then CHR 0x09 else c)"

fun read_literal :: "string \<Rightarrow> (string \<times> string) option" where
  "read_literal [] = None"
| "read_literal [c] = (if c = double_quote then Some ([], []) else None)"
| "read_literal (c # d # cs) =
     (if c = double_quote then Some ([], d # cs)
      else if c = newline_char then None
      else if c = backslash then map_option (\<lambda>(s, r). (unescaped d # s, r)) (read_literal cs)
      else map_option (\<lambda>(s, r). (c # s, r)) (read_literal (d # cs)))"

lemma lua_escape_Nil [simp]: "lua_escape [] = []"
  by (simp add: lua_escape_def)

lemma lua_escape_Cons:
  "lua_escape (c # s) =
     (if c = backslash \<or> c = double_quote then [backslash, c]
      else if c = newline_char then [backslash, CHR ''n'']
      else if c = CHR 0x0D then [backslash, CHR ''r'']
      else if c = CHR 0x09 then [backslash, CHR ''t''] else [c]) @ lua_escape s"
  by (simp add: lua_escape_def)

lemma read_plain: "c \<notin> {double_quote, newline_char, backslash} \<Longrightarrow> xs \<noteq> [] \<Longrightarrow>
    read_literal (c # xs) = map_option (\<lambda>(s, r). (c # s, r)) (read_literal xs)"
  by (cases xs) auto

lemma read_escape: "read_literal (lua_escape s @ double_quote # r) = Some (s, r)"
proof (induction s)
  case Nil then show ?case by (cases r) auto
next
  case (Cons c s)
  consider "c = backslash \<or> c = double_quote" | "c = newline_char" | "c = CHR 0x0D" | "c = CHR 0x09"
    | "c \<notin> {backslash, double_quote, newline_char, CHR 0x0D, CHR 0x09}" by auto
  then show ?case
    by cases (use Cons in \<open>auto simp: lua_escape_Cons unescaped_def read_plain\<close>)
qed

lemma quoted_stop_escape:
  "quoted_stop (lua_escape s @ double_quote # r) double_quote 0 = length (lua_escape s)"
proof (induction s)
  case Nil show ?case by (subst quoted_stop.simps) simp
next
  case (Cons c s)
  have two: "quoted_stop (backslash # d # lua_escape s @ double_quote # r) double_quote 0 = 2 + length (lua_escape s)" for d
    using quoted_stop_append [of "[backslash, d]" "lua_escape s @ double_quote # r" double_quote 0] Cons
    by (subst quoted_stop.simps) simp
  have one: "quoted_stop (c # lua_escape s @ double_quote # r) double_quote 0 = 1 + length (lua_escape s)"
    if "c \<noteq> double_quote" "c \<noteq> newline_char" "c \<noteq> backslash"
    using quoted_stop_append [of "[c]" "lua_escape s @ double_quote # r" double_quote 0] Cons that
    by (subst quoted_stop.simps) simp
  from one two show ?case by (simp add: lua_escape_Cons)
qed

lemma escape_not_quote: "\<exists>c r. lua_escape s @ double_quote # xs = c # r \<and> (c = double_quote \<longrightarrow> s = [] \<and> r = xs)"
  by (cases s) (auto simp: lua_escape_Cons)

lemma skip_literal:
  assumes "r = [] \<or> hd r \<noteq> double_quote"
  shows "skip_quoted (literal s @ r) 0 python = length (literal s)"
proof -
  have "\<not> starts_at (literal s @ r) [double_quote, double_quote, double_quote] 0"
  proof
    assume "starts_at (literal s @ r) [double_quote, double_quote, double_quote] 0"
    then have t: "take 2 (lua_escape s @ double_quote # r) = [double_quote, double_quote]"
      by (simp add: starts_at_def literal_def numeral_2_eq_2 numeral_3_eq_3)
    obtain c q where e: "lua_escape s @ double_quote # r = c # q" "c = double_quote \<longrightarrow> s = [] \<and> q = r"
      using escape_not_quote [of s r] by blast
    from t have "c = double_quote" "take 1 q = [double_quote]" unfolding e(1) by (auto simp: numeral_2_eq_2)
    with e(2) assms show False by (cases r) auto
  qed
  moreover have "quoted_stop (literal s @ r) double_quote 1 = 1 + length (lua_escape s)"
    using quoted_stop_append [of "[double_quote]" "lua_escape s @ double_quote # r" double_quote 0]
      quoted_stop_escape [of s r] by (simp add: literal_def)
  ultimately show ?thesis by (auto simp: skip_quoted_def Let_def literal_def)
qed

text \<open>C19. A name put into a generated script stays inside its literal: wherever the literal of a string stands,
  the tokenizer of either language sees it as one string token, and reading it gives the string back,
  whatever quotes, backslashes and line breaks the name of a topic contains. It only must not be followed
  by another quote, and no generated text does that.\<close>

theorem literal_stays_one_token:
  assumes "r = [] \<or> hd r \<noteq> double_quote"
  shows "next_code_token (p @ literal s @ r) python (length p)
      = \<lparr>ct_kind = KString, ct_begin = length p, ct_end = length p + length (literal s)\<rparr>
    \<and> read_literal (tl (literal s @ r)) = Some (s, r)"
proof
  have "next_code_token (literal s @ r) python 0 = \<lparr>ct_kind = KString, ct_begin = 0, ct_end = length (literal s)\<rparr>"
    using skip_literal [OF assms, of s python] next_code_token_quote [of double_quote "lua_escape s @ double_quote # r" python]
    by (simp add: literal_def)
  with next_code_token_append [of p "literal s @ r" python 0] show "next_code_token (p @ literal s @ r) python (length p)
      = \<lparr>ct_kind = KString, ct_begin = length p, ct_end = length p + length (literal s)\<rparr>"
    by (simp add: Let_def)
  show "read_literal (tl (literal s @ r)) = Some (s, r)" by (simp add: literal_def read_escape)
qed

theorem literal_stays_one_token_witness:
  "ct_end (next_code_token (''x = '' @ literal (double_quote # '' .. os.exit() --'') @ '']'') False 4) = 4 + 20"
proof -
  have r: "'']'' = ([] :: string) \<or> hd '']'' \<noteq> double_quote" by simp
  have l: "length (literal (double_quote # '' .. os.exit() --'')) = 20" "length ''x = '' = 4" by code_simp+
  show ?thesis
    using literal_stays_one_token [OF r, THEN conjunct1, of "''x = ''" "double_quote # '' .. os.exit() --''" False]
    by (simp only: l code_token.simps)
qed

subsection \<open>Errors are reported at the user's lines\<close>

lemma scan_while_prefix:
  "\<forall>x \<in> set a. P x \<Longrightarrow> b = [] \<or> \<not> P (hd b) \<Longrightarrow> scan_while P (p @ a @ b) (length p) = length p + length a"
proof -
  assume "\<forall>x \<in> set a. P x" "b = [] \<or> \<not> P (hd b)"
  then have "takeWhile P (a @ b) = a" by (induction a) (cases b; auto)+
  then show ?thesis by (simp add: scan_while_def)
qed

lemma nat_text_length: "0 < k \<Longrightarrow> n < 10 ^ k \<Longrightarrow> length (nat_text n) \<le> k"
proof (induction n arbitrary: k rule: nat_text.induct)
  case (1 n)
  show ?case
  proof (cases "n < 10")
    case True with 1 show ?thesis by (simp add: nat_text.simps [of n])
  next
    case False
    with 1(3) have k: "k \<noteq> 1" by auto
    with 1(2) obtain k' where k': "k = Suc k'" "0 < k'" by (cases k) auto
    with 1(3) have "n div 10 < 10 ^ k'" by (simp add: less_mult_imp_div_less mult.commute)
    from 1(1) [OF False k'(2) this] False k' show ?thesis by (simp add: nat_text.simps [of n])
  qed
qed

lemma nat_text_ne [simp]: "nat_text n \<noteq> []"
  by (subst nat_text.simps) simp

lemma number_closed_text:
  assumes "n < 10 ^ 9" "close \<noteq> []" "\<not> is_digit (hd close)"
  shows "number_closed (p @ nat_text n @ close @ r) (length p) close = Some (int n, length p + length (nat_text n))"
proof -
  have d: "digits_at (p @ nat_text n @ close @ r) (length p) = length (nat_text n)"
    using scan_while_prefix [of "nat_text n" is_digit "close @ r" p] nat_text_digits [of n] assms(2,3)
    by (simp add: digits_at_def list_all_iff)
  have "length (nat_text n) \<le> 9" using assms(1) nat_text_length [of 9 n] by simp
  moreover have "starts_at (p @ nat_text n @ close @ r) close (length p + length (nat_text n))"
    using starts_at_append [of "p @ nat_text n" "close @ r" close 0] by (simp add: starts_at_def)
  ultimately show ?thesis
    by (simp add: number_closed_def Let_def d number_at_def slice_def Prelude.slice_def text_value_nat_text)
qed

text \<open>No line number is recognised in the text from offset \<open>k\<close> on.\<close>

definition no_line_number :: "string \<Rightarrow> nat \<Rightarrow> bool" where
  "no_line_number error k \<longleftrightarrow> list_all (\<lambda>i. remap_at error empty_layout i = None) [k..<length error]"

lemma remap_at_None: "remap_at error layout i = None \<longleftrightarrow> remap_at error empty_layout i = None"
  by (auto simp: remap_at_def split: option.splits prod.splits)

lemma remap_rest: "no_line_number error k \<Longrightarrow> remap_from error layout k = drop k error"
proof (induction "length error - k" arbitrary: k)
  case 0 then show ?case by (simp add: remap_from.simps [of error])
next
  case (Suc n)
  then have k: "k < length error" by simp
  with Suc.prems have "remap_at error layout k = None" "no_line_number error (k + 1)"
    by (auto simp: no_line_number_def list_all_iff remap_at_None [of error layout])
  moreover from Suc.hyps(2) have "n = length error - (k + 1)" by simp
  ultimately show ?case using Suc.hyps(1) [of "k + 1"] k by (subst remap_from.simps) (simp add: Cons_nth_drop_Suc)
qed

definition chunk_names :: "string list" where
  "chunk_names = [''script'', ''filter'', ''rule'']"

lemma remap_chunk:
  assumes "chunk \<in> set chunk_names" "n < 10 ^ 9"
  defines "pre \<equiv> chunk @ '':'' @ nat_text n"
  assumes "no_line_number (pre @ '':'' @ msg) (length pre)"
  shows "remap_script_lines (pre @ '':'' @ msg) layout = user_line (int n) layout @ '':'' @ msg"
proof -
  let ?e = "pre @ '':'' @ msg"
  have num: "number_closed ?e (length chunk + 1) '':'' = Some (int n, length pre)"
    using number_closed_text [OF assms(2), of "'':''" "chunk @ '':''" msg] by (simp add: pre_def is_digit_def)
  have "luau_at ?e 0 = Some (int n, length pre)"
    using assms(1) num by (auto simp: luau_at_def chunk_names_def pre_def starts_at_def)
  moreover have "syntax_error_at ?e 0 = None"
    using assms(1) by (auto simp: syntax_error_at_def chunk_names_def pre_def starts_at_def)
  ultimately have r: "remap_at ?e layout 0 = Some (user_line (int n) layout, length pre)"
    by (simp add: remap_at_def)
  have "remap_script_lines ?e layout = user_line (int n) layout @ remap_from ?e layout (length pre)"
  proof -
    have pos: "0 < length ?e" by simp
    show ?thesis unfolding remap_script_lines_def
      by (subst remap_from.simps) (simp only: r option.case prod.case pos if_True)
  qed
  with remap_rest [OF assms(4), of layout] show ?thesis by simp
qed




end
