(* ===== verification/CsvTimestamps.thy ===== *)
theory CsvTimestamps
  imports Prelude
begin

section \<open>Numbers and times in CSV cells (data_load_csv/timestamp_parsing.cpp)\<close>

text \<open>
  What type a cell of a CSV file has and what number it stands for: plain numbers, hexadecimal, epochs in four
  units, dates and times by format. Doubles are an uninterpreted type; the number parser of the SDK, the
  \<open>date\<close> library's \<open>from_stream\<close> and the conversions between integers and doubles are the fields of
  \<open>csv_lib\<close>. Facts shown: a cell reads with the type detected from it; the fraction of a second that is cut
  out of a text is the one printed there, below a second.
\<close>

subsection \<open>Parameters\<close>

text \<open>What \<open>date::from_stream\<close> into a \<open>year_month_day\<close> leaves when it does not fail: whether the date exists,
  whether the text ends there, and the days since the epoch.\<close>

record date_read =
  dr_ok :: bool
  dr_at_end :: bool
  dr_days :: int

record 'd csv_lib =
  parse_number :: "string \<Rightarrow> 'd option"
  of_int64 :: "int \<Rightarrow> 'd"
  times_nano :: "'d \<Rightarrow> 'd"
  times_micro :: "'d \<Rightarrow> 'd"
  times_milli :: "'d \<Rightarrow> 'd"
  ns_seconds :: "int \<Rightarrow> 'd"
  day_seconds :: "int \<Rightarrow> 'd"
  read_instant :: "string \<Rightarrow> string \<Rightarrow> int option"
  read_ymd :: "string \<Rightarrow> string \<Rightarrow> date_read option"
  read_tod :: "string \<Rightarrow> string \<Rightarrow> int option"

subsection \<open>Text\<close>

definition cell_blank :: "char \<Rightarrow> bool" where
  "cell_blank c \<longleftrightarrow> c \<in> {CHR '' '', CHR 0x09, CHR 0x0D, CHR 0x0A}"

definition cell_trim :: "string \<Rightarrow> string" where
  "cell_trim s = rev (dropWhile cell_blank (rev (dropWhile cell_blank s)))"

definition to_double :: "'d csv_lib \<Rightarrow> string \<Rightarrow> 'd option" where
  "to_double lib s =
     (if s = [] then None
      else parse_number lib
        (if count_list s CHR '','' = 1 \<and> count_list s CHR ''.'' = 0
         then map (\<lambda>c. if c = CHR '','' then CHR ''.'' else c) s else s))"

text \<open>\<open>s.rfind(c)\<close>.\<close>

definition rfind_char :: "char \<Rightarrow> string \<Rightarrow> nat option" where
  "rfind_char c s =
     (if c \<in> set s then Some (length s - 1 - length (takeWhile (\<lambda>x. x \<noteq> c) (rev s))) else None)"

definition unambiguous_formats :: "string list" where
  "unambiguous_formats =
     [''%Y-%m-%dT%H:%M:%S'', ''%Y-%m-%dT%H:%M:%S%z'', ''%Y-%m-%dT%H:%M:%SZ'', ''%Y-%m-%d %H:%M:%S'',
      ''%Y-%m-%d %H:%M:%S%z'', ''%Y-%m-%d'', ''%Y/%m/%d %H:%M:%S'']"

definition date_formats :: "string list" where
  "date_formats = [''%Y-%m-%d'', ''%Y/%m/%d'', ''%d/%m/%Y'', ''%m/%d/%Y'', ''%d-%m-%Y'', ''%m-%d-%Y'']"

definition time_formats :: "string list" where
  "time_formats = [''%H:%M:%S'', ''%I:%M:%S %p'']"

definition padded_fraction :: "string \<Rightarrow> string" where
  "padded_fraction frac = (if length frac < 9 then frac @ replicate (9 - length frac) CHR ''0'' else take 9 frac)"

text \<open>The text without the fraction of its seconds, and the fraction in nanoseconds. \<open>std::stoll\<close> of nine digits
  does not throw.\<close>

definition extract_fraction :: "string \<Rightarrow> string \<times> int" where
  "extract_fraction s =
     (case (rfind_char CHR ''.'' s, rfind_char CHR '':'' s) of
        (Some dot, Some colon) \<Rightarrow>
          if dot \<le> colon then (s, 0)
          else (let stop = scan_while is_digit s (dot + 1) in
                if stop \<le> dot + 1 then (s, 0)
                else (take dot s @ drop stop s, int (text_value (padded_fraction (slice s (dot + 1) stop)))))
      | _ \<Rightarrow> (s, 0))"

definition wrap_ns :: "int \<Rightarrow> int" where
  "wrap_ns x = (x + 2 ^ 63) mod 2 ^ 64 - 2 ^ 63"

text \<open>A sum of seconds and a fraction as 64-bit nanoseconds. (The overflow for years after 2262 is undefined in
  C++; what compilers do is wrap around.)\<close>

definition total_ns :: "int \<Rightarrow> int \<Rightarrow> int" where
  "total_ns seconds fraction = wrap_ns (wrap_ns (seconds * 10 ^ 9) + fraction)"

definition try_parse_format :: "'d csv_lib \<Rightarrow> string \<Rightarrow> string \<Rightarrow> int \<Rightarrow> 'd option" where
  "try_parse_format lib base fmt fraction =
     map_option (\<lambda>seconds. ns_seconds lib (total_ns seconds fraction)) (read_instant lib fmt base)"

subsection \<open>Numbers\<close>

record numeric_info =
  ni_number :: bool
  ni_decimal :: bool
  ni_exponent :: bool

definition is_exponent_char :: "char \<Rightarrow> bool" where
  "is_exponent_char c \<longleftrightarrow> c = CHR ''e'' \<or> c = CHR ''E''"

text \<open>The loop of \<open>CheckNumeric\<close>: the character before (none at the start), whether a digit was seen, the
  information so far.\<close>

fun numeric_loop :: "char option \<Rightarrow> bool \<Rightarrow> numeric_info \<Rightarrow> string \<Rightarrow> bool \<times> numeric_info" where
  "numeric_loop prev digit info [] = (digit, info)"
| "numeric_loop prev digit info (c # cs) =
     (if is_exponent_char c
      then (if ni_exponent info then (digit, info\<lparr>ni_number := False\<rparr>)
            else numeric_loop (Some c) digit (info\<lparr>ni_exponent := True\<rparr>) cs)
      else if c = CHR ''-'' \<or> c = CHR ''+''
      then (if (case prev of None \<Rightarrow> True | Some p \<Rightarrow> is_exponent_char p)
            then numeric_loop (Some c) digit info cs else (digit, info\<lparr>ni_number := False\<rparr>))
      else if c = CHR ''.'' \<or> c = CHR '',''
      then (if ni_decimal info \<or> ni_exponent info then (digit, info\<lparr>ni_number := False\<rparr>)
            else numeric_loop (Some c) digit (info\<lparr>ni_decimal := True\<rparr>) cs)
      else if is_digit c then numeric_loop (Some c) True info cs
      else (digit, info\<lparr>ni_number := False\<rparr>))"

definition check_numeric :: "string \<Rightarrow> numeric_info" where
  "check_numeric s =
     (case numeric_loop None False \<lparr>ni_number = True, ni_decimal = False, ni_exponent = False\<rparr> s of
        (digit, info) \<Rightarrow>
          if ni_number info \<and> (\<not> digit \<or> is_exponent_char (last s) \<or> last s = CHR ''+'' \<or> last s = CHR ''-'')
          then info\<lparr>ni_number := False\<rparr> else info)"

text \<open>\<open>std::stoll\<close> in base 10 and 16; None is the exception it throws.\<close>

definition int64_or_throw :: "int \<Rightarrow> int option" where
  "int64_or_throw v = (if - (2 ^ 63) \<le> v \<and> v < 2 ^ 63 then Some v else None)"

definition split_sign :: "string \<Rightarrow> bool \<times> string" where
  "split_sign s =
     (case s of [] \<Rightarrow> (False, []) | c # cs \<Rightarrow> if c = CHR ''-'' then (True, cs) else if c = CHR ''+'' then (False, cs) else (False, s))"

definition stoll :: "string \<Rightarrow> int option" where
  "stoll s =
     (case split_sign (dropWhile is_space s) of (neg, t) \<Rightarrow>
        let ds = takeWhile is_digit t in
        if ds = [] then None
        else int64_or_throw (if neg then - int (text_value ds) else int (text_value ds)))"

definition is_hex_digit :: "char \<Rightarrow> bool" where
  "is_hex_digit c \<longleftrightarrow> c \<in> set ''0123456789abcdefABCDEF''"

definition hex_digit_val :: "char \<Rightarrow> nat" where
  "hex_digit_val c =
     (let n = of_char c in if n < 58 then n - 48 else if n < 71 then n - 55 else n - 87)"

definition hex_body :: "string \<Rightarrow> string" where
  "hex_body s =
     (if (take 2 s = ''0x'' \<or> take 2 s = ''0X'') \<and> 2 < length s \<and> is_hex_digit (s ! 2) then drop 2 s else s)"

definition stoll_hex :: "string \<Rightarrow> int option" where
  "stoll_hex s =
     (case split_sign (dropWhile is_space s) of (neg, t) \<Rightarrow>
        let ds = takeWhile is_hex_digit (hex_body t); v = int (foldl (\<lambda>acc c. acc * 16 + hex_digit_val c) 0 ds) in
        if ds = [] then None else int64_or_throw (if neg then - v else v))"

subsection \<open>Column types\<close>

datatype column_type =
  CNumber | CHex | CEpochSeconds | CEpochMillis | CEpochMicros | CEpochNanos
| CDatetime | CDateOnly | CTimeOnly | CString | CUndefined

record column_info =
  ci_type :: column_type
  ci_format :: string
  ci_fractional :: bool

definition new_info :: column_info where
  "new_info = \<lparr>ci_type = CUndefined, ci_format = [], ci_fractional = False\<rparr>"

definition epoch_first :: int where "epoch_first = 1400000000"
definition epoch_last :: int where "epoch_last = 2000000000"

definition detect_epoch_type :: "int \<Rightarrow> column_type" where
  "detect_epoch_type ts =
     (if epoch_first * 1000000000 < ts \<and> ts < epoch_last * 1000000000 then CEpochNanos
      else if epoch_first * 1000000 < ts \<and> ts < epoch_last * 1000000 then CEpochMicros
      else if epoch_first * 1000 < ts \<and> ts < epoch_last * 1000 then CEpochMillis
      else if epoch_first < ts \<and> ts < epoch_last then CEpochSeconds
      else CNumber)"

definition epoch_to_seconds :: "'d csv_lib \<Rightarrow> int \<Rightarrow> column_type \<Rightarrow> 'd" where
  "epoch_to_seconds lib ts type =
     (case type of
        CEpochNanos \<Rightarrow> times_nano lib (of_int64 lib ts)
      | CEpochMicros \<Rightarrow> times_micro lib (of_int64 lib ts)
      | CEpochMillis \<Rightarrow> times_milli lib (of_int64 lib ts)
      | _ \<Rightarrow> of_int64 lib ts)"

text \<open>The first number of a date in the range of days, or the second, tells the order; a 32-bit sum (whose
  overflow is undefined in C++) wraps around.\<close>

definition wrap_int :: "int \<Rightarrow> int" where
  "wrap_int x = (x + 2 ^ 31) mod 2 ^ 32 - 2 ^ 31"

definition int_digits :: "string \<Rightarrow> int" where
  "int_digits s = foldl (\<lambda>acc c. wrap_int (acc * 10 + digit_val c)) 0 (takeWhile is_digit s)"

definition is_day_first :: "string \<Rightarrow> char \<Rightarrow> bool" where
  "is_day_first s separator =
     (let r = dropWhile is_digit s;
          r = (if r \<noteq> [] \<and> hd r = separator then tl r else r);
          first = int_digits s; second = int_digits r
      in if 12 < first \<and> first \<le> 31 then True
         else if 12 < second \<and> second \<le> 31 then False
         else True)"

text \<open>The formats tried after the unambiguous ones, for slashes and then for dashes.\<close>

definition slash_formats :: "string \<Rightarrow> string list" where
  "slash_formats base =
     (if CHR ''/'' \<in> set base \<and> base \<noteq> [] \<and> hd base \<noteq> CHR ''2''
      then [if is_day_first base CHR ''/'' then ''%d/%m/%Y %H:%M:%S'' else ''%m/%d/%Y %H:%M:%S''] else [])"

definition dash_formats :: "string \<Rightarrow> string list" where
  "dash_formats base =
     (if CHR ''-'' \<in> set base \<and> base \<noteq> [] \<and> hd base \<noteq> CHR ''2'' \<and> is_day_first base CHR ''-''
      then [''%d-%m-%Y %H:%M:%S''] else [])"

definition instant_formats :: "string \<Rightarrow> string list" where
  "instant_formats base = unambiguous_formats @ slash_formats base @ dash_formats base"

fun first_parse :: "'d csv_lib \<Rightarrow> string \<Rightarrow> int \<Rightarrow> string list \<Rightarrow> 'd option" where
  "first_parse lib base fraction [] = None"
| "first_parse lib base fraction (fmt # fmts) =
     (case try_parse_format lib base fmt fraction of
        Some r \<Rightarrow> Some r
      | None \<Rightarrow> first_parse lib base fraction fmts)"

text \<open>\<open>AutoParseTimestamp\<close>: the first branch is None when \<open>stoll\<close> throws and the code goes on.\<close>

definition auto_parse_number :: "'d csv_lib \<Rightarrow> string \<Rightarrow> 'd option option" where
  "auto_parse_number lib s =
     (let info = check_numeric s in
      if \<not> ni_number info then None
      else if \<not> ni_decimal info \<and> \<not> ni_exponent info
      then map_option (\<lambda>ts. Some (epoch_to_seconds lib ts (detect_epoch_type ts))) (stoll s)
      else Some (to_double lib s))"

definition auto_parse :: "'d csv_lib \<Rightarrow> string \<Rightarrow> 'd option" where
  "auto_parse lib s =
     (let trimmed = cell_trim s in
      if trimmed = [] then None
      else case auto_parse_number lib trimmed of
        Some r \<Rightarrow> r
      | None \<Rightarrow> (case extract_fraction trimmed of (base, fraction) \<Rightarrow>
                   first_parse lib base fraction (instant_formats base)))"

subsection \<open>A user's own format\<close>

function replace_all :: "string \<Rightarrow> string \<Rightarrow> string \<Rightarrow> string" where
  "replace_all p r s =
     (if s = [] \<or> p = [] then s
      else if take (length p) s = p then r @ replace_all p r (drop (length p) s)
      else hd s # replace_all p r (tl s))"
  by pat_completeness auto
termination by (relation "measure (\<lambda>(p, r, s). length s)") auto

declare replace_all.simps [simp del]

definition strptime_format :: "string \<Rightarrow> string" where
  "strptime_format fmt =
     fold (\<lambda>(p, r) s. replace_all p r s)
       [(''yyyy'', ''%Y''), (''yy'', ''%y''), (''MM'', ''%m''), (''dd'', ''%d''), (''hh'', ''%H''), (''HH'', ''%H''),
        (''mm'', ''%M''), (''ss'', ''%S'')] fmt"

text \<open>The place from which the point of the input is looked for: five before that of the format, as an
  unsigned 64-bit difference.\<close>

definition dot_search_from :: "nat \<Rightarrow> nat" where
  "dot_search_from zzz_pos = (if 0 < zzz_pos then (if zzz_pos < 5 then 2 ^ 64 - (5 - zzz_pos) else zzz_pos - 5) else 0)"

definition adjust_fraction :: "string \<Rightarrow> string \<Rightarrow> string \<times> string \<times> int" where
  "adjust_fraction input fmt =
     (case find_str ''.zzz'' fmt 0 of
        None \<Rightarrow> (input, fmt, 0)
      | Some zzz_pos \<Rightarrow>
          (let stop = scan_while (\<lambda>c. c = CHR ''z'') fmt (zzz_pos + 1) in
           if find_from CHR ''.'' input (dot_search_from zzz_pos) \<noteq> None
           then (case extract_fraction input of (base, fraction) \<Rightarrow>
                   (base, take zzz_pos fmt @ drop stop fmt, fraction))
           else (input, fmt, 0)))"

definition format_parse :: "'d csv_lib \<Rightarrow> string \<Rightarrow> string \<Rightarrow> 'd option" where
  "format_parse lib s fmt =
     (let trimmed = cell_trim s in
      if trimmed = [] then None
      else case adjust_fraction trimmed fmt of (input, fmt, fraction) \<Rightarrow>
        try_parse_format lib input (strptime_format fmt) fraction)"

subsection \<open>Detection\<close>

definition reads_date :: "'d csv_lib \<Rightarrow> string \<Rightarrow> string \<Rightarrow> bool" where
  "reads_date lib s fmt = (case read_ymd lib fmt s of None \<Rightarrow> False | Some r \<Rightarrow> dr_ok r \<and> dr_at_end r)"

definition detect_date :: "'d csv_lib \<Rightarrow> string \<Rightarrow> string option" where
  "detect_date lib trimmed =
     (if (CHR ''/'' \<in> set trimmed \<or> CHR ''-'' \<in> set trimmed) \<and> CHR '':'' \<notin> set trimmed
      then find (reads_date lib trimmed) date_formats else None)"

definition detect_time :: "'d csv_lib \<Rightarrow> string \<Rightarrow> string \<Rightarrow> string option" where
  "detect_time lib trimmed base =
     (if CHR '':'' \<in> set trimmed \<and> CHR ''/'' \<notin> set trimmed \<and> CHR ''-'' \<notin> set trimmed
      then find (\<lambda>fmt. read_tod lib fmt base \<noteq> None) time_formats else None)"

definition detect_text :: "'d csv_lib \<Rightarrow> string \<Rightarrow> column_info" where
  "detect_text lib trimmed =
     (case extract_fraction trimmed of (base, fraction) \<Rightarrow>
        let info = new_info\<lparr>ci_fractional := (fraction > 0 \<or> trimmed \<noteq> base)\<rparr> in
        case detect_date lib trimmed of
          Some fmt \<Rightarrow> info\<lparr>ci_type := CDateOnly, ci_format := fmt\<rparr>
        | None \<Rightarrow>
            (case detect_time lib trimmed base of
               Some fmt \<Rightarrow> info\<lparr>ci_type := CTimeOnly, ci_format := fmt\<rparr>
             | None \<Rightarrow>
                 (case find (\<lambda>fmt. read_instant lib fmt base \<noteq> None) (instant_formats base) of
                    Some fmt \<Rightarrow> info\<lparr>ci_type := CDatetime, ci_format := fmt\<rparr>
                  | None \<Rightarrow> info\<lparr>ci_type := CString\<rparr>)))"

definition detect_column_type :: "'d csv_lib \<Rightarrow> string \<Rightarrow> column_info" where
  "detect_column_type lib s =
     (let trimmed = cell_trim s in
      if trimmed = [] then new_info\<lparr>ci_type := CString\<rparr>
      else if length trimmed > 2 \<and> trimmed ! 0 = CHR ''0'' \<and> (trimmed ! 1 = CHR ''x'' \<or> trimmed ! 1 = CHR ''X'')
      then new_info\<lparr>ci_type := CHex\<rparr>
      else let info = check_numeric trimmed in
        if ni_number info
        then new_info\<lparr>ci_type := (if ni_decimal info then CNumber
                                  else case stoll trimmed of Some ts \<Rightarrow> detect_epoch_type ts | None \<Rightarrow> CNumber)\<rparr>
        else detect_text lib trimmed)"

subsection \<open>Reading a cell by its type\<close>

definition fraction_for :: "column_info \<Rightarrow> int \<Rightarrow> int" where
  "fraction_for info fraction = (if ci_fractional info then fraction else 0)"

definition parse_with_type :: "'d csv_lib \<Rightarrow> string \<Rightarrow> column_info \<Rightarrow> 'd option" where
  "parse_with_type lib s info =
     (let trimmed = cell_trim s in
      if trimmed = [] then None
      else case ci_type info of
        CNumber \<Rightarrow> to_double lib trimmed
      | CHex \<Rightarrow> map_option (of_int64 lib) (stoll_hex trimmed)
      | CEpochSeconds \<Rightarrow> map_option (\<lambda>ts. epoch_to_seconds lib ts (ci_type info)) (stoll trimmed)
      | CEpochMillis \<Rightarrow> map_option (\<lambda>ts. epoch_to_seconds lib ts (ci_type info)) (stoll trimmed)
      | CEpochMicros \<Rightarrow> map_option (\<lambda>ts. epoch_to_seconds lib ts (ci_type info)) (stoll trimmed)
      | CEpochNanos \<Rightarrow> map_option (\<lambda>ts. epoch_to_seconds lib ts (ci_type info)) (stoll trimmed)
      | CDatetime \<Rightarrow> (case extract_fraction trimmed of (base, fraction) \<Rightarrow>
                       try_parse_format lib base (ci_format info) (fraction_for info fraction))
      | CDateOnly \<Rightarrow> (case read_ymd lib (ci_format info) trimmed of
                       None \<Rightarrow> None
                     | Some r \<Rightarrow> if dr_ok r then Some (day_seconds lib (dr_days r)) else None)
      | CTimeOnly \<Rightarrow> (case extract_fraction trimmed of (base, fraction) \<Rightarrow>
                       map_option (\<lambda>tod. ns_seconds lib (total_ns tod (fraction_for info fraction)))
                         (read_tod lib (ci_format info) base))
      | CString \<Rightarrow> None
      | CUndefined \<Rightarrow> None)"

definition parse_combined :: "'d csv_lib \<Rightarrow> string \<Rightarrow> string \<Rightarrow> column_info \<Rightarrow> column_info \<Rightarrow> 'd option" where
  "parse_combined lib date_str time_str date_info time_info =
     (let trimmed_date = cell_trim date_str; trimmed_time = cell_trim time_str in
      if trimmed_date = [] \<or> trimmed_time = [] then None
      else case read_ymd lib (ci_format date_info) trimmed_date of
        None \<Rightarrow> None
      | Some r \<Rightarrow>
          if \<not> dr_ok r then None
          else (case extract_fraction trimmed_time of (base, fraction) \<Rightarrow>
                  map_option (\<lambda>tod. ns_seconds lib
                      (wrap_ns (wrap_ns (dr_days r * 86400 * 10 ^ 9) + total_ns tod (fraction_for time_info fraction))))
                    (read_tod lib (ci_format time_info) base)))"

subsection \<open>Detection is sound\<close>

lemma find_holds: "find P xs = Some x \<Longrightarrow> P x"
  by (auto simp: find_Some_iff)

lemma detect_epoch_cases:
  "detect_epoch_type ts \<in> {CNumber, CEpochSeconds, CEpochMillis, CEpochMicros, CEpochNanos}"
  by (simp add: detect_epoch_type_def)

lemma detect_text_reads:
  fixes lib :: "'d csv_lib"
  assumes "cell_trim s \<noteq> []"
  defines "info \<equiv> detect_text lib (cell_trim s)"
  shows "ci_type info = CString \<or> (ci_type info \<noteq> CUndefined \<and> (\<exists>d. parse_with_type lib s info = Some d))"
proof -
  obtain base fraction where e: "extract_fraction (cell_trim s) = (base, fraction)" by fastforce
  show ?thesis
    using assms(1) unfolding info_def detect_text_def e
    by (auto simp: Let_def parse_with_type_def e reads_date_def detect_date_def detect_time_def try_parse_format_def
        split: option.splits if_splits dest!: find_holds)
qed

text \<open>C40. Detection is sound: a cell always gets a type, and a cell typed as an epoch, a date, a time or both
  reads as a number under the type it got, so a column is never given a time format that does not fit the
  cell it was taken from. (Numbers are read by the SDK's parser, hexadecimal ones and texts by their own
  rules.)\<close>

theorem detected_type_reads_cell:
  "ci_type (detect_column_type lib s) \<in> {CNumber, CHex, CString}
    \<or> ci_type (detect_column_type lib s) \<in> {CEpochSeconds, CEpochMillis, CEpochMicros, CEpochNanos, CDatetime, CDateOnly, CTimeOnly}
      \<and> (\<exists>d. parse_with_type lib s (detect_column_type lib s) = Some d)"
proof -
  let ?t = "cell_trim s" and ?info = "detect_column_type lib s"
  show ?thesis
  proof (cases "?t = [] \<or> length ?t > 2 \<and> ?t ! 0 = CHR ''0'' \<and> (?t ! 1 = CHR ''x'' \<or> ?t ! 1 = CHR ''X'')")
    case True
    then show ?thesis by (auto simp: detect_column_type_def Let_def)
  next
    case False
    show ?thesis
    proof (cases "ni_number (check_numeric ?t)")
      case True
      with False have i: "?info = new_info\<lparr>ci_type := (if ni_decimal (check_numeric ?t) then CNumber
                    else case stoll ?t of Some ts \<Rightarrow> detect_epoch_type ts | None \<Rightarrow> CNumber)\<rparr>"
        by (auto simp: detect_column_type_def Let_def)
      show ?thesis
      proof (cases "ni_decimal (check_numeric ?t) \<or> stoll ?t = None")
        case True then show ?thesis by (auto simp: i)
      next
        case no: False
        then obtain ts where "stoll ?t = Some ts" by auto
        with no False show ?thesis
          using detect_epoch_cases [of ts] by (auto simp: i parse_with_type_def Let_def)
      qed
    next
      case no: False
      with False have i: "?info = detect_text lib ?t" by (auto simp: detect_column_type_def Let_def)
      have "?t \<noteq> []" using False by simp
      from detect_text_reads [OF this, of lib] show ?thesis
        by (cases "ci_type (detect_text lib ?t)") (auto simp: i detect_text_def Let_def split: prod.splits option.splits)
    qed
  qed
qed

lemma detected_type_defined: "ci_type (detect_column_type lib s) \<noteq> CUndefined"
  by (auto simp: detect_column_type_def detect_text_def detect_epoch_type_def Let_def split: prod.splits option.splits)

subsection \<open>Fractions of a second\<close>

lemma takeWhile_rev_append:
  "c \<notin> set r \<Longrightarrow> takeWhile (\<lambda>x. x \<noteq> c) (rev r @ t) = rev r @ takeWhile (\<lambda>x. x \<noteq> c) t"
  by (subst takeWhile_append2) auto

lemma rfind_char_last: "c \<notin> set r \<Longrightarrow> rfind_char c (p @ c # r) = Some (length p)"
  by (simp add: rfind_char_def takeWhile_rev_append)

lemma rfind_char_before:
  "rfind_char c (p @ r) = rfind_char c p" if "c \<notin> set r"
  using that by (auto simp: rfind_char_def takeWhile_rev_append)

lemma rfind_char_bound: "rfind_char c s = Some i \<Longrightarrow> i < length s"
  by (cases s) (auto simp: rfind_char_def split: if_splits)

lemma not_digits: "\<not> is_digit CHR ''.''" "\<not> is_digit CHR '':''"
  by (simp_all add: is_digit_def)

lemma zero_digit: "is_digit CHR ''0''"
  by (simp add: is_digit_def)

lemma text_value_bound: "list_all is_digit ds \<Longrightarrow> text_value ds < 10 ^ length ds"
proof (induction ds rule: rev_induct)
  case (snoc d ds)
  have "of_char d - 48 < (10 :: nat)" using snoc.prems by (auto simp: is_digit_def)
  with snoc show ?case by (simp add: text_value_def)
qed (simp add: text_value_def)

lemma text_value_snoc: "text_value (ds @ [d]) = text_value ds * 10 + (of_char d - 48)"
  by (simp add: text_value_def)

lemma text_value_zeros: "text_value (ds @ replicate n CHR ''0'') = text_value ds * 10 ^ n"
proof (induction n)
  case (Suc n)
  have "ds @ replicate (Suc n) CHR ''0'' = (ds @ replicate n CHR ''0'') @ [CHR ''0'']"
    by (simp add: replicate_append_same)
  with Suc show ?case by (simp only: text_value_snoc) simp
qed simp

lemma fraction_read_back:
  assumes "CHR '':'' \<in> set p" "ds \<noteq> []" "list_all is_digit ds" "length ds \<le> 9"
    and "r = [] \<or> \<not> is_digit (hd r)" "CHR ''.'' \<notin> set r" "CHR '':'' \<notin> set r"
  shows "extract_fraction (p @ ''.'' @ ds @ r) = (p @ r, int (text_value ds) * 10 ^ (9 - length ds))"
proof -
  let ?s = "p @ CHR ''.'' # (ds @ r)"
  have nd: "CHR ''.'' \<notin> set ds" "CHR '':'' \<notin> set ds" using assms(3) not_digits by (auto simp: list_all_iff)
  with assms(6) have dot: "rfind_char CHR ''.'' ?s = Some (length p)" by (simp add: rfind_char_last)
  have "rfind_char CHR '':'' ?s = rfind_char CHR '':'' p"
    using rfind_char_before [of "CHR '':''" "CHR ''.'' # ds @ r" p] nd assms(7) by simp
  moreover obtain i where i: "rfind_char CHR '':'' p = Some i" using assms(1) by (simp add: rfind_char_def)
  ultimately have colon: "rfind_char CHR '':'' ?s = Some i" "i < length p" using rfind_char_bound [OF i] by simp_all
  have tw: "takeWhile is_digit (ds @ r) = ds"
    using assms(3,5) by (cases r) (auto simp: list_all_iff takeWhile_append)
  have stop: "scan_while is_digit ?s (length p + 1) = length p + 1 + length ds"
    by (simp add: scan_while_def tw)
  have frac: "slice ?s (length p + 1) (length p + 1 + length ds) = ds" by (simp add: slice_def)
  have pad: "text_value (padded_fraction ds) = text_value ds * 10 ^ (9 - length ds)"
    using assms(4) by (auto simp: padded_fraction_def text_value_zeros)
  have "extract_fraction ?s = (p @ r, int (text_value (padded_fraction ds)))"
    unfolding extract_fraction_def dot colon(1) option.case prod.case Let_def stop frac using colon(2) assms(2) by simp
  then show ?thesis by (simp add: pad)
qed

lemma fraction_read_back_witness:
  "extract_fraction ''2024-05-01 10:20:30.25Z'' = (''2024-05-01 10:20:30Z'', 250000000)"
  using fraction_read_back [of "''2024-05-01 10:20:30''" "''25''" "''Z''"]
  by (simp add: is_digit_def text_value_def)

lemma fraction_bounds: "0 \<le> snd (extract_fraction s) \<and> snd (extract_fraction s) < 10 ^ 9"
proof -
  have "text_value (padded_fraction ds) < 10 ^ 9" if "list_all is_digit ds" for ds
  proof -
    have "list_all is_digit (padded_fraction ds)" "length (padded_fraction ds) = 9"
      using that zero_digit by (auto simp: padded_fraction_def list_all_iff dest: in_set_takeD)
    with text_value_bound [of "padded_fraction ds"] show ?thesis by simp
  qed
  moreover have "list_all is_digit (slice s i (scan_while is_digit s i))" for i
    by (auto simp: slice_scan list_all_iff dest: set_takeWhileD)
  ultimately show ?thesis
    by (auto simp: extract_fraction_def Let_def split: option.splits)
qed

text \<open>A column of times whose first cell is a whole second loses the fractions of all its cells.\<close>

lemma later_fractions_dropped:
  assumes "ci_type info = CTimeOnly" "\<not> ci_fractional info"
  shows "parse_with_type lib ''12:00:00.5'' info = parse_with_type lib ''12:00:00'' info"
proof -
  have t: "cell_trim ''12:00:00.5'' = ''12:00:00.5''" "cell_trim ''12:00:00'' = ''12:00:00''"
    "rfind_char CHR ''.'' ''12:00:00'' = None"
    by code_simp+
  have "extract_fraction ''12:00:00.5'' = (''12:00:00'', 500000000)"
    using fraction_read_back [of "''12:00:00''" "''5''" "[]"] by (simp add: is_digit_def text_value_def)
  moreover have "extract_fraction ''12:00:00'' = (''12:00:00'', 0)" by (simp add: extract_fraction_def t)
  ultimately show ?thesis using assms by (simp add: parse_with_type_def fraction_for_def t)
qed

text \<open>An exponent is not looked at when the type of a column is detected, so such a number counts as an epoch by
  its digits alone.\<close>

lemma exponent_ignored: "ci_type (detect_column_type lib ''1500000000e3'') = CEpochSeconds"
proof -
  have t: "cell_trim ''1500000000e3'' = ''1500000000e3''"
    "ni_number (check_numeric ''1500000000e3'')" "\<not> ni_decimal (check_numeric ''1500000000e3'')" by code_simp+
  have "takeWhile is_digit ''1500000000e3'' = ''1500000000''" by (simp add: is_digit_def)
  then have s: "stoll ''1500000000e3'' = Some 1500000000"
    by (simp add: stoll_def split_sign_def is_space_def text_value_def int64_or_throw_def)
  show ?thesis by (simp add: detect_column_type_def t s detect_epoch_type_def epoch_first_def epoch_last_def)
qed

text \<open>A format whose point comes within its first four characters never has a fraction read.\<close>

lemma early_point_not_found:
  assumes "find_str ''.zzz'' fmt 0 = Some pos" "0 < pos" "pos < 5" "length input < 2 ^ 63"
  shows "adjust_fraction input fmt = (input, fmt, 0)"
proof -
  have "length input \<le> dot_search_from pos" using assms(2-4) by (simp add: dot_search_from_def)
  then have "find_from CHR ''.'' input (dot_search_from pos) = None" by (simp add: find_from_def scan_while_def)
  with assms(1) show ?thesis by (simp add: adjust_fraction_def)
qed

end
