(* ===== verification/CsvParser.thy ===== *)
theory CsvParser
  imports CsvTimestamps
begin

section \<open>Reading a CSV file (data_load_csv/csv_parser.cpp)\<close>

text \<open>
  The delimiter of a file, the cells of a line, the names of the columns, and the one pass over the lines that
  detects the types of the columns while it collects their points. Facts shown: quoted cells read back; the
  names of the columns are distinct under a condition the code does not check; every line is accounted for;
  the one pass gives what a first pass for the types and a second for the points would give.
\<close>

subsection \<open>The delimiter\<close>

definition cell_quote :: char where "cell_quote = CHR 0x22"

fun count_outside :: "char \<Rightarrow> bool \<Rightarrow> string \<Rightarrow> nat" where
  "count_outside delim inside [] = 0"
| "count_outside delim inside (c # cs) =
     (if c = cell_quote then count_outside delim (\<not> inside) cs
      else (if \<not> inside \<and> c = delim then 1 else 0) + count_outside delim inside cs)"

text \<open>Runs of spaces count once.\<close>

fun count_spaces :: "bool \<Rightarrow> bool \<Rightarrow> string \<Rightarrow> nat" where
  "count_spaces inside prev_space [] = 0"
| "count_spaces inside prev_space (c # cs) =
     (if c = cell_quote then count_spaces (\<not> inside) False cs
      else if \<not> inside \<and> c = CHR '' '' then (if prev_space then 0 else 1) + count_spaces inside True cs
      else count_spaces inside False cs)"

record candidate =
  cd_delim :: char
  cd_count :: nat
  cd_priority :: nat

definition better :: "candidate option \<Rightarrow> candidate \<Rightarrow> candidate option" where
  "better best c =
     (if cd_count c \<ge> (if cd_delim c = CHR '' '' then 2 else 1)
      then (case best of
              None \<Rightarrow> Some c
            | Some b \<Rightarrow>
                if cd_count c > cd_count b then Some c
                else if cd_count c = cd_count b \<and> cd_priority c > cd_priority b then Some c
                else best)
      else best)"

definition candidates :: "string \<Rightarrow> candidate list" where
  "candidates line =
     [\<lparr>cd_delim = CHR 0x09, cd_count = count_outside CHR 0x09 False line, cd_priority = 4\<rparr>,
      \<lparr>cd_delim = CHR '';'', cd_count = count_outside CHR '';'' False line, cd_priority = 3\<rparr>,
      \<lparr>cd_delim = CHR '','', cd_count = count_outside CHR '','' False line, cd_priority = 2\<rparr>,
      \<lparr>cd_delim = CHR '' '', cd_count = count_spaces False False line, cd_priority = 1\<rparr>]"

text \<open>The delimiter and whether two of the hard ones occur.\<close>

definition detect_delimiter_ex :: "string \<Rightarrow> char \<times> bool" where
  "detect_delimiter_ex line =
     ((case foldl better None (candidates line) of None \<Rightarrow> CHR '','' | Some b \<Rightarrow> cd_delim b),
      length (filter (\<lambda>d. count_outside d False line \<ge> 1) [CHR '','', CHR '';'', CHR 0x09]) \<ge> 2)"

definition detect_delimiter :: "string \<Rightarrow> char" where
  "detect_delimiter line = fst (detect_delimiter_ex line)"

subsection \<open>The cells of a line\<close>

fun split_cells :: "char \<Rightarrow> string list \<Rightarrow> string \<Rightarrow> bool \<Rightarrow> string \<Rightarrow> string list" where
  "split_cells separator parts field inside [] = parts @ [cell_trim field]"
| "split_cells separator parts field inside (c # cs) =
     (if c = cell_quote
      then (if inside \<and> cs \<noteq> [] \<and> hd cs = cell_quote
            then split_cells separator parts (field @ [cell_quote]) inside (tl cs)
            else split_cells separator parts field (\<not> inside) cs)
      else if c = separator \<and> \<not> inside then split_cells separator (parts @ [cell_trim field]) [] inside cs
      else split_cells separator parts (field @ [c]) inside cs)"

definition split_line :: "string \<Rightarrow> char \<Rightarrow> string list" where
  "split_line line separator = split_cells separator [] [] False line"

subsection \<open>The names of the columns\<close>

definition column_default :: "nat \<Rightarrow> string" where
  "column_default i = ''_Column_'' @ nat_text i"

definition first_names :: "'d csv_lib \<Rightarrow> string list \<Rightarrow> string list" where
  "first_names lib parts =
     (if length (filter (\<lambda>field. to_double lib (cell_trim field) \<noteq> None) parts) = length parts
      then map column_default [0..<length parts]
      else map (\<lambda>(i, part). if cell_trim part = [] then column_default i else cell_trim part)
             (zip [0..<length parts] parts))"

text \<open>\<open>std::setw(2) << std::setfill('0')\<close>.\<close>

definition index_suffix :: "nat \<Rightarrow> string" where
  "index_suffix i = ''_'' @ (if i < 10 then ''0'' else []) @ nat_text i"

definition repeated_from :: "string list \<Rightarrow> nat \<Rightarrow> nat list" where
  "repeated_from names i = i # filter (\<lambda>j. names ! i = names ! j) [i + 1..<length names]"

definition suffix_step :: "nat \<Rightarrow> string list \<Rightarrow> string list" where
  "suffix_step i names =
     (let repeated = repeated_from names i in
      if length repeated > 1
      then fold (\<lambda>index names. names[index := names ! index @ index_suffix index]) repeated names
      else names)"

definition unique_names :: "string list \<Rightarrow> string list" where
  "unique_names names =
     (if card (set names) < length names then fold suffix_step [0..<length names] names else names)"

definition parse_header_line :: "'d csv_lib \<Rightarrow> string \<Rightarrow> char \<Rightarrow> string list" where
  "parse_header_line lib header delimiter = unique_names (first_names lib (split_line header delimiter))"

record column_pair =
  cp_date :: int
  cp_time :: int
  cp_name :: string

definition column_pair_of :: "string list \<Rightarrow> nat \<Rightarrow> nat \<Rightarrow> column_pair" where
  "column_pair_of names d t = \<lparr>cp_date = int d, cp_time = int t, cp_name = names ! d @ '' + '' @ names ! t\<rparr>"

text \<open>The loop over neighbouring columns, from column \<open>i\<close> on.\<close>

fun combined_from :: "string list \<Rightarrow> nat \<Rightarrow> column_info list \<Rightarrow> column_pair list" where
  "combined_from names i (a # b # ts) =
     (if ci_type a = CDateOnly \<and> ci_type b = CTimeOnly
      then column_pair_of names i (i + 1) # combined_from names (i + 2) ts
      else if ci_type a = CTimeOnly \<and> ci_type b = CDateOnly
      then column_pair_of names (i + 1) i # combined_from names (i + 2) ts
      else combined_from names (i + 1) (b # ts))"
| "combined_from names i ts = []"

definition detect_combined :: "string list \<Rightarrow> column_info list \<Rightarrow> column_pair list" where
  "detect_combined names types = combined_from names 0 types"

subsection \<open>Configuration and result\<close>

record csv_config =
  cf_delimiter :: char
  cf_time_column :: int
  cf_format :: string
  cf_skip_rows :: nat
  cf_total_lines :: int
  cf_pairs :: "column_pair list"
  cf_pair :: int

record 'd csv_column =
  cc_name :: string
  cc_numeric :: "('d \<times> 'd) list"
  cc_strings :: "('d \<times> string) list"
  cc_type :: column_info

datatype warning_type = WrongColumnCount | InvalidTimestamp | NonMonotonicTime | DuplicateColumnNames

record csv_warning =
  cw_type :: warning_type
  cw_line :: nat
  cw_detail :: string

record 'd csv_outcome =
  cr_success :: bool
  cr_columns :: "'d csv_column list"
  cr_names :: "string list"
  cr_warnings :: "csv_warning list"
  cr_non_monotonic :: bool
  cr_processed :: nat
  cr_skipped :: nat
  cr_combined :: "int set"

definition empty_result :: "'d csv_outcome" where
  "empty_result = \<lparr>cr_success = False, cr_columns = [], cr_names = [], cr_warnings = [], cr_non_monotonic = False,
     cr_processed = 0, cr_skipped = 0, cr_combined = {}\<rparr>"

text \<open>\<open>prev_time\<close> starts at the lowest double and times are compared as doubles: parameters here, with the
  doubles' own.\<close>

record 'd csv_clock =
  lowest :: 'd
  later :: "'d \<Rightarrow> 'd \<Rightarrow> bool"

text \<open>The variables of the loop: the columns' types so far, the columns' points, warnings and counters.\<close>

record 'd csv_progress =
  cs_types :: "column_info list"
  cs_columns :: "'d csv_column list"
  cs_warnings :: "csv_warning list"
  cs_non_monotonic :: bool
  cs_skipped :: nat
  cs_prev :: 'd
  cs_line :: nat
  cs_samples :: nat

subsection \<open>One line\<close>

definition strip_return :: "string \<Rightarrow> string" where
  "strip_return line = (if line \<noteq> [] \<and> last line = CHR 0x0D then butlast line else line)"

definition detect_types :: "'d csv_lib \<Rightarrow> string list \<Rightarrow> column_info list \<Rightarrow> column_info list" where
  "detect_types lib parts types =
     map (\<lambda>(part, info). if ci_type info = CUndefined \<and> part \<noteq> [] then detect_column_type lib part else info)
       (zip parts types)"

text \<open>The pair of columns that makes the time axis, if one is chosen.\<close>

definition chosen_pair :: "csv_config \<Rightarrow> column_pair option" where
  "chosen_pair cfg =
     (if 0 \<le> cf_pair cfg \<and> cf_pair cfg < int (length (cf_pairs cfg)) then Some (cf_pairs cfg ! nat (cf_pair cfg)) else None)"

text \<open>The time of a row. The columns of the chosen pair are not checked against the row; reading past it is
  undefined in C++ and \<open>OutsideRow\<close> here.\<close>

datatype 'd cell_time = NoTimeColumn | TimeAt 'd | BadTime string | OutsideRow

definition quoted_cell :: "string \<Rightarrow> string" where
  "quoted_cell s = cell_quote # s @ [cell_quote]"

definition pair_time :: "'d csv_lib \<Rightarrow> column_pair \<Rightarrow> column_info list \<Rightarrow> string list \<Rightarrow> 'd cell_time" where
  "pair_time lib p types parts =
     (if cp_date p < 0 \<or> int (length parts) \<le> cp_date p \<or> cp_time p < 0 \<or> int (length parts) \<le> cp_time p then OutsideRow
      else let date_val = cell_trim (parts ! nat (cp_date p)); time_val = cell_trim (parts ! nat (cp_time p)) in
        case parse_combined lib date_val time_val (types ! nat (cp_date p)) (types ! nat (cp_time p)) of
          Some ts \<Rightarrow> TimeAt ts
        | None \<Rightarrow> BadTime (''Invalid combined timestamp: '' @ quoted_cell date_val @ '' + '' @ quoted_cell time_val))"

definition column_time :: "'d csv_lib \<Rightarrow> csv_config \<Rightarrow> column_info list \<Rightarrow> string list \<Rightarrow> 'd cell_time" where
  "column_time lib cfg types parts =
     (let t = cell_trim (parts ! nat (cf_time_column cfg)); info = types ! nat (cf_time_column cfg) in
      case (if cf_format cfg \<noteq> [] then format_parse lib t (cf_format cfg)
            else if ci_type info \<noteq> CString then parse_with_type lib t info else None) of
        Some ts \<Rightarrow> TimeAt ts
      | None \<Rightarrow> BadTime (''Invalid timestamp: '' @ quoted_cell t))"

definition row_time :: "'d csv_lib \<Rightarrow> csv_config \<Rightarrow> column_info list \<Rightarrow> string list \<Rightarrow> 'd cell_time" where
  "row_time lib cfg types parts =
     (case chosen_pair cfg of
        Some p \<Rightarrow> pair_time lib p types parts
      | None \<Rightarrow>
          if 0 \<le> cf_time_column cfg \<and> cf_time_column cfg < int (length parts)
          then column_time lib cfg types parts else NoTimeColumn)"

definition pair_columns :: "csv_config \<Rightarrow> int set" where
  "pair_columns cfg = (case chosen_pair cfg of None \<Rightarrow> {} | Some p \<Rightarrow> {cp_date p, cp_time p})"

text \<open>A data cell: epochs count as plain numbers.\<close>

definition value_info :: "column_info \<Rightarrow> column_info" where
  "value_info info =
     (if ci_type info \<in> {CEpochSeconds, CEpochMillis, CEpochMicros, CEpochNanos} then info\<lparr>ci_type := CNumber\<rparr> else info)"

definition add_cell :: "'d csv_lib \<Rightarrow> 'd \<Rightarrow> string \<Rightarrow> column_info \<Rightarrow> 'd csv_column \<Rightarrow> 'd csv_column" where
  "add_cell lib ts str info col =
     (if str = [] \<or> ci_type info = CUndefined then col
      else if ci_type info \<noteq> CString
      then (case parse_with_type lib str (value_info info) of
              Some v \<Rightarrow> col\<lparr>cc_numeric := cc_numeric col @ [(ts, v)]\<rparr>
            | None \<Rightarrow> col\<lparr>cc_strings := cc_strings col @ [(ts, str)]\<rparr>)
      else col\<lparr>cc_strings := cc_strings col @ [(ts, str)]\<rparr>)"

definition add_row ::
  "'d csv_lib \<Rightarrow> csv_config \<Rightarrow> 'd \<Rightarrow> string list \<Rightarrow> column_info list \<Rightarrow> 'd csv_column list \<Rightarrow> 'd csv_column list" where
  "add_row lib cfg ts parts types columns =
     map (\<lambda>i. if int i \<in> pair_columns cfg then columns ! i
              else add_cell lib ts (parts ! i) (types ! i) (columns ! i)) [0..<length columns]"

definition warn_line :: "warning_type \<Rightarrow> string \<Rightarrow> 'd csv_progress \<Rightarrow> 'd csv_progress" where
  "warn_line type detail st = st\<lparr>cs_warnings := cs_warnings st @ [\<lparr>cw_type = type, cw_line = cs_line st, cw_detail = detail\<rparr>]\<rparr>"

definition skip_line :: "warning_type \<Rightarrow> string \<Rightarrow> 'd csv_progress \<Rightarrow> 'd csv_progress" where
  "skip_line type detail st = (warn_line type detail st)\<lparr>cs_skipped := cs_skipped st + 1\<rparr>"

definition check_order :: "'d csv_clock \<Rightarrow> 'd \<Rightarrow> 'd csv_progress \<Rightarrow> 'd csv_progress" where
  "check_order clock ts st =
     (let st = (if later clock (cs_prev st) ts \<and> \<not> cs_non_monotonic st
                then warn_line NonMonotonicTime ''Time is not monotonically increasing'' (st\<lparr>cs_non_monotonic := True\<rparr>) else st)
      in st\<lparr>cs_prev := ts\<rparr>)"

definition accept_row ::
  "'d csv_lib \<Rightarrow> csv_config \<Rightarrow> 'd \<Rightarrow> string list \<Rightarrow> 'd csv_progress \<Rightarrow> 'd csv_progress" where
  "accept_row lib cfg ts parts st =
     st\<lparr>cs_columns := add_row lib cfg ts parts (cs_types st) (cs_columns st), cs_samples := cs_samples st + 1\<rparr>"

definition wrong_count :: "nat \<Rightarrow> nat \<Rightarrow> string" where
  "wrong_count expected got = ''Expected '' @ nat_text expected @ '' columns, got '' @ nat_text got"

text \<open>The body of the loop: the new state and whether the row was accepted, or None where it reads past the row.\<close>

definition csv_row_step ::
  "'d csv_lib \<Rightarrow> 'd csv_clock \<Rightarrow> csv_config \<Rightarrow> string \<Rightarrow> 'd csv_progress \<Rightarrow> ('d csv_progress \<times> bool) option" where
  "csv_row_step lib clock cfg line st =
     (let st = st\<lparr>cs_line := cs_line st + 1\<rparr>;
          parts = split_line (strip_return line) (cf_delimiter cfg);
          num = length (cs_columns st)
      in if parts = [] then Some (st, False)
         else if length parts \<noteq> num then Some (skip_line WrongColumnCount (wrong_count num (length parts)) st, False)
         else let st = st\<lparr>cs_types := detect_types lib parts (cs_types st)\<rparr> in
           case row_time lib cfg (cs_types st) parts of
             OutsideRow \<Rightarrow> None
           | BadTime detail \<Rightarrow> Some (skip_line InvalidTimestamp detail st, False)
           | TimeAt ts \<Rightarrow> Some (accept_row lib cfg ts parts (check_order clock ts st), True)
           | NoTimeColumn \<Rightarrow> Some (accept_row lib cfg (of_int64 lib (int (cs_samples st))) parts st, True))"

subsection \<open>The whole file\<close>

text \<open>The lines \<open>std::getline\<close> gives.\<close>

function stream_lines :: "string \<Rightarrow> string list" where
  "stream_lines s =
     (if s = [] then []
      else let line = takeWhile (\<lambda>c. c \<noteq> CHR 0x0A) s in line # stream_lines (drop (length line + 1) s))"
  by pat_completeness auto
termination by (relation "measure length") auto

declare stream_lines.simps [simp del]

text \<open>The progress callback, called on every hundredth line after an accepted row, gets the line number and the
  total; False stops the import.\<close>

type_synonym progress = "(nat \<Rightarrow> int \<Rightarrow> bool) option"

definition stops :: "progress \<Rightarrow> int \<Rightarrow> nat \<Rightarrow> bool" where
  "stops progress line_total line =
     (case progress of None \<Rightarrow> False | Some f \<Rightarrow> line mod 100 = 0 \<and> \<not> f line line_total)"

text \<open>The last component says whether the loop ran to the end of the file.\<close>

fun csv_lines ::
  "'d csv_lib \<Rightarrow> 'd csv_clock \<Rightarrow> csv_config \<Rightarrow> progress \<Rightarrow> int \<Rightarrow> string list \<Rightarrow> 'd csv_progress \<Rightarrow> ('d csv_progress \<times> bool) option" where
  "csv_lines lib clock cfg progress line_total [] st = Some (st, True)"
| "csv_lines lib clock cfg progress line_total (line # lines) st =
     (case csv_row_step lib clock cfg line st of
        None \<Rightarrow> None
      | Some (st, accepted) \<Rightarrow>
          if accepted \<and> stops progress line_total (cs_line st) then Some (st, False)
          else csv_lines lib clock cfg progress line_total lines st)"

definition header_warnings :: "csv_config \<Rightarrow> string \<Rightarrow> csv_warning list" where
  "header_warnings cfg header =
     (let raw = split_line header (cf_delimiter cfg) in
      if card (set raw) < length raw
      then [\<lparr>cw_type = DuplicateColumnNames, cw_line = cf_skip_rows cfg + 1,
             cw_detail = ''Duplicate column names detected; suffixes added''\<rparr>]
      else [])"

definition start_state :: "'d csv_lib \<Rightarrow> 'd csv_clock \<Rightarrow> csv_config \<Rightarrow> string \<Rightarrow> 'd csv_progress" where
  "start_state lib clock cfg header =
     (let names = parse_header_line lib header (cf_delimiter cfg) in
      \<lparr>cs_types = replicate (length names) new_info,
       cs_columns = map (\<lambda>name. \<lparr>cc_name = name, cc_numeric = [], cc_strings = [], cc_type = new_info\<rparr>) names,
       cs_warnings = header_warnings cfg header, cs_non_monotonic = False, cs_skipped = 0,
       cs_prev = lowest clock, cs_line = cf_skip_rows cfg + 1, cs_samples = 0\<rparr>)"

definition result_of :: "csv_config \<Rightarrow> 'd csv_progress \<times> bool \<Rightarrow> 'd csv_outcome" where
  "result_of cfg r =
     (case r of (st, complete) \<Rightarrow>
        \<lparr>cr_success = complete,
         cr_columns = (if complete then map (\<lambda>(col, info). col\<lparr>cc_type := info\<rparr>) (zip (cs_columns st) (cs_types st))
                       else cs_columns st),
         cr_names = map cc_name (cs_columns st), cr_warnings = cs_warnings st, cr_non_monotonic = cs_non_monotonic st,
         cr_processed = (if complete then cs_samples st else 0), cr_skipped = cs_skipped st,
         cr_combined = pair_columns cfg\<rparr>)"

definition parse_csv ::
  "'d csv_lib \<Rightarrow> 'd csv_clock \<Rightarrow> csv_config \<Rightarrow> progress \<Rightarrow> string \<Rightarrow> 'd csv_outcome option" where
  "parse_csv lib clock cfg progress content =
     (case drop (cf_skip_rows cfg) (stream_lines content) of
        [] \<Rightarrow> Some empty_result
      | header # lines \<Rightarrow>
          (let line_total = (if progress \<noteq> None \<and> cf_total_lines cfg \<le> 0
                             then cf_total_lines cfg + int (length lines) else cf_total_lines cfg)
           in map_option (result_of cfg)
                (csv_lines lib clock cfg progress line_total lines (start_state lib clock cfg (strip_return header)))))"

subsection \<open>Cells read back\<close>

text \<open>A cell as a writer of CSV shows it, in quotes with its quotes doubled, or plain.\<close>

definition double_quotes :: "string \<Rightarrow> string" where
  "double_quotes s = concat (map (\<lambda>c. if c = cell_quote then [cell_quote, cell_quote] else [c]) s)"

definition shown_cell :: "bool \<times> string \<Rightarrow> string" where
  "shown_cell e = (if fst e then cell_quote # double_quotes (snd e) @ [cell_quote] else snd e)"

fun shown_cells :: "char \<Rightarrow> (bool \<times> string) list \<Rightarrow> string" where
  "shown_cells separator [] = []"
| "shown_cells separator [e] = shown_cell e"
| "shown_cells separator (e # es) = shown_cell e @ separator # shown_cells separator es"

definition cell_ok :: "char \<Rightarrow> bool \<times> string \<Rightarrow> bool" where
  "cell_ok separator e \<longleftrightarrow> cell_trim (snd e) = snd e \<and> (fst e \<or> cell_quote \<notin> set (snd e) \<and> separator \<notin> set (snd e))"

lemma double_quotes_simps [simp]:
  "double_quotes [] = []"
  "double_quotes (c # s) = (if c = cell_quote then [cell_quote, cell_quote] else [c]) @ double_quotes s"
  by (simp_all add: double_quotes_def)

lemma split_cells_quoted:
  assumes "r = [] \<or> hd r \<noteq> cell_quote"
  shows "split_cells separator parts field True (double_quotes s @ cell_quote # r)
    = split_cells separator parts (field @ s) False r"
  using assms by (induction s arbitrary: field) auto

lemma split_cells_plain:
  assumes "cell_quote \<notin> set s" "separator \<notin> set s"
  shows "split_cells separator parts field False (s @ r) = split_cells separator parts (field @ s) False r"
  using assms by (induction s arbitrary: field) auto

lemma split_cells_shown:
  assumes "cell_ok separator e" "r = [] \<or> hd r \<noteq> cell_quote"
  shows "split_cells separator parts [] False (shown_cell e @ r) = split_cells separator parts (snd e) False r"
  using assms split_cells_quoted [of r separator parts "[]" "snd e"] split_cells_plain [of "snd e" separator parts "[]" r]
  by (auto simp: shown_cell_def cell_ok_def)

lemma split_cells_line:
  assumes "separator \<noteq> cell_quote" "es \<noteq> []" "\<forall>e \<in> set es. cell_ok separator e"
  shows "split_cells separator parts [] False (shown_cells separator es) = parts @ map snd es"
  using assms(2,3)
proof (induction es arbitrary: parts rule: induct_list012)
  case (2 e)
  then show ?case using split_cells_shown [of separator e "[]" parts] by (simp add: cell_ok_def)
next
  case (3 e e' es)
  from 3(3,4) have "split_cells separator parts [] False (shown_cell e @ separator # shown_cells separator (e' # es))
    = split_cells separator parts (snd e) False (separator # shown_cells separator (e' # es))"
    using assms(1) by (intro split_cells_shown) auto
  with 3 assms(1) show ?case by (simp add: cell_ok_def)
qed simp

text \<open>A line of cells reads back as the cells, whether a cell is written plainly or in quotes with its
  quotes doubled: quotes and separators inside a quoted cell are part of it. Cells have no blanks at their
  ends (the reader trims them), and a plain one has no quote and no separator.\<close>

theorem cells_read_back:
  assumes "separator \<noteq> cell_quote" "es \<noteq> []" "\<forall>e \<in> set es. cell_ok separator e"
  shows "split_line (shown_cells separator es) separator = map snd es"
  using split_cells_line [OF assms, of "[]"] by (simp add: split_line_def)

theorem cells_read_back_witness:
  "split_line (shown_cells CHR '','' [(True, cell_quote # ''a,b'' @ [cell_quote]), (False, ''12.5''), (False, [])]) CHR '',''
    = [cell_quote # ''a,b'' @ [cell_quote], ''12.5'', []]"
proof -
  have "\<forall>e \<in> set [(True, cell_quote # ''a,b'' @ [cell_quote]), (False, ''12.5''), (False, [])]. cell_ok CHR '','' e"
    by (simp add: cell_ok_def cell_trim_def cell_blank_def cell_quote_def)
  from cells_read_back [OF _ _ this] show ?thesis by (simp add: cell_quote_def)
qed

subsection \<open>The names of the columns\<close>

lemma length_suffix_fold [simp]:
  "length (fold (\<lambda>index names. names[index := names ! index @ index_suffix index]) is names) = length names"
  by (induction "is" arbitrary: names) simp_all

lemma length_suffix_step [simp]: "length (suffix_step i names) = length names"
  by (simp add: suffix_step_def Let_def)

lemma length_suffix_steps [simp]: "length (fold suffix_step is names) = length names"
  by (induction "is" arbitrary: names) simp_all

lemma length_split_cells: "1 \<le> length (split_cells separator parts field inside cs)"
  by (induction separator parts field inside cs rule: split_cells.induct) auto

lemma length_first_names [simp]: "length (first_names lib parts) = length parts"
  by (simp add: first_names_def)

lemma length_unique_names [simp]: "length (unique_names names) = length names"
  by (simp add: unique_names_def)

lemma header_length: "length (parse_header_line lib header delimiter) = length (split_line header delimiter)"
  by (simp add: parse_header_line_def)

lemma suffix_fold_nth:
  assumes "distinct is" "k < length names"
  shows "fold (\<lambda>index names. names[index := names ! index @ index_suffix index]) is names ! k
    = (if k \<in> set is then names ! k @ index_suffix k else names ! k)"
  using assms
proof (induction "is" arbitrary: names)
  case (Cons i "is")
  then show ?case by (cases "k = i") auto
qed simp

lemma distinct_repeated: "distinct (repeated_from names i)"
  by (simp add: repeated_from_def)

text \<open>The names after the first \<open>i\<close> steps: a name that occurs at one of the first \<open>i\<close> columns and again
  has its index appended, wherever it occurs, and the others are as they were.\<close>

definition repeats :: "string list \<Rightarrow> nat \<Rightarrow> nat \<Rightarrow> bool" where
  "repeats names i k \<longleftrightarrow> (\<exists>a b. a < i \<and> a < b \<and> b < length names \<and> names ! a = names ! b \<and> names ! k = names ! a)"

definition suffixed :: "string list \<Rightarrow> nat \<Rightarrow> nat \<Rightarrow> string" where
  "suffixed names i k = (if repeats names i k then names ! k @ index_suffix k else names ! k)"

text \<open>No name is another one with an index.\<close>

definition suffix_free :: "string list \<Rightarrow> bool" where
  "suffix_free names \<longleftrightarrow> (\<forall>x \<in> set names. \<forall>k < length names. x @ index_suffix k \<notin> set names)"

lemma suffix_free_list:
  "suffix_free names \<longleftrightarrow> list_all (\<lambda>x. list_all (\<lambda>k. \<not> List.member names (x @ index_suffix k)) [0..<length names]) names"
  by (auto simp: suffix_free_def list_all_iff)

lemma nat_text_no_underscore: "CHR ''_'' \<notin> set (nat_text n)"
  using nat_text_digits [of n] by (auto simp: list_all_iff is_digit_def)

lemma last_underscore_split:
  "a @ CHR ''_'' # x = b @ CHR ''_'' # y \<Longrightarrow> CHR ''_'' \<notin> set x \<Longrightarrow> CHR ''_'' \<notin> set y \<Longrightarrow> a = b \<and> x = y"
  by (auto simp: append_eq_append_conv2 append_eq_Cons_conv Cons_eq_append_conv)

lemma nat_text_value_zero: "text_value (CHR ''0'' # s) = text_value s"
  by (simp add: text_value_def)

lemma index_suffix_inj: "x @ index_suffix j = y @ index_suffix k \<longleftrightarrow> x = y \<and> j = k"
proof
  let ?d = "\<lambda>i. (if i < 10 then ''0'' else []) @ nat_text i"
  assume "x @ index_suffix j = y @ index_suffix k"
  then have "x @ CHR ''_'' # ?d j = y @ CHR ''_'' # ?d k" by (simp add: index_suffix_def)
  from last_underscore_split [OF this] have e: "x = y \<and> ?d j = ?d k"
    using nat_text_no_underscore by auto
  moreover have "text_value (?d i) = i" for i by (simp add: nat_text_value_zero text_value_nat_text)
  ultimately show "x = y \<and> j = k" by metis
qed simp

lemma repeats_cong: "names ! k = names ! j \<Longrightarrow> repeats names i k = repeats names i j"
  by (simp add: repeats_def)

lemma suffixed_eq:
  assumes "suffix_free names" "j < length names" "k < length names" "suffixed names i j = suffixed names i k"
  shows "j = k \<or> names ! j = names ! k \<and> \<not> repeats names i j"
proof -
  have "names ! j @ index_suffix j \<noteq> names ! k" "names ! k @ index_suffix k \<noteq> names ! j"
    using assms(1-3) unfolding suffix_free_def by (metis nth_mem)+
  with assms(4) show ?thesis by (auto simp: suffixed_def index_suffix_inj split: if_splits)
qed

lemma suffix_step_invariant:
  assumes "suffix_free names" "i < length names"
  defines "now \<equiv> map (suffixed names i) [0..<length names]"
  shows "suffix_step i now = map (suffixed names (i + 1)) [0..<length names]"
proof (rule nth_equalityI)
  show "length (suffix_step i now) = length (map (suffixed names (i + 1)) [0..<length names])" by (simp add: now_def)
  fix k assume "k < length (suffix_step i now)"
  then have k: "k < length names" by (simp add: now_def)
  have same: "now ! i = now ! j \<longleftrightarrow> names ! i = names ! j \<and> \<not> repeats names i i" if "i < j" "j < length names" for j
  proof
    assume "now ! i = now ! j"
    then have "suffixed names i i = suffixed names i j" using that assms(2) by (simp add: now_def)
    from suffixed_eq [OF assms(1,2) that(2) this] that(1)
    show "names ! i = names ! j \<and> \<not> repeats names i i" by simp
  next
    assume "names ! i = names ! j \<and> \<not> repeats names i i"
    then show "now ! i = now ! j" using repeats_cong [of names i j i] that assms(2) by (simp add: now_def suffixed_def)
  qed
  have mem: "k \<in> set (repeated_from now i) \<longleftrightarrow> k = i \<or> i < k \<and> names ! i = names ! k \<and> \<not> repeats names i i"
    using k same [of k] by (auto simp: repeated_from_def now_def)
  have len: "length (repeated_from now i) > 1 \<longleftrightarrow> (\<exists>j. i < j \<and> j < length names \<and> names ! i = names ! j) \<and> \<not> repeats names i i"
    using same by (auto simp: repeated_from_def now_def filter_empty_conv Suc_le_eq)
  have "suffix_step i now ! k
      = (if length (repeated_from now i) > 1 \<and> k \<in> set (repeated_from now i) then now ! k @ index_suffix k else now ! k)"
    using k by (simp add: suffix_step_def Let_def suffix_fold_nth distinct_repeated now_def)
  also have "\<dots> = suffixed names (i + 1) k"
  proof -
    have r: "repeats names (i + 1) k \<longleftrightarrow> repeats names i k \<or> (\<exists>j. i < j \<and> j < length names \<and> names ! i = names ! j) \<and> names ! k = names ! i"
      by (auto simp: repeats_def less_Suc_eq)
    have up: "repeats names i i" if "names ! k = names ! i" "k < i"
      using that assms(2) unfolding repeats_def by metis
    have eq: "repeats names i k \<longleftrightarrow> repeats names i i" if "names ! k = names ! i" using that by (simp add: repeats_def)
    show ?thesis
      using k up eq unfolding len mem r suffixed_def
      by (cases "names ! k = names ! i"; cases "k < i"; cases "k = i") (auto simp: now_def suffixed_def r)
  qed
  finally show "suffix_step i now ! k = map (suffixed names (i + 1)) [0..<length names] ! k" using k by simp
qed

lemma suffix_steps:
  assumes "suffix_free names" "i \<le> length names"
  shows "fold suffix_step [0..<i] names = map (suffixed names i) [0..<length names]"
  using assms(2)
proof (induction i)
  case 0 show ?case by (auto simp: suffixed_def repeats_def intro: nth_equalityI)
next
  case (Suc i)
  then show ?case using suffix_step_invariant [OF assms(1), of i] by simp
qed

text \<open>The names of the columns are distinct, and there is one for each cell of the header, provided that no
  name of the header is another one with an underscore and a column's index. The code does not check that,
  and \<open>suffix_clash\<close> shows two columns of one name.\<close>

theorem column_names_distinct:
  assumes "suffix_free (first_names lib (split_line header delimiter))"
  shows "distinct (parse_header_line lib header delimiter)
    \<and> length (parse_header_line lib header delimiter) = length (split_line header delimiter)"
proof -
  define names where "names = first_names lib (split_line header delimiter)"
  have "distinct (unique_names names)"
  proof (cases "card (set names) < length names")
    case False
    then show ?thesis using card_distinct [of names] card_length [of names] by (simp add: unique_names_def)
  next
    case True
    have "suffixed names (length names) j \<noteq> suffixed names (length names) k" if "j < k" "k < length names" for j k
    proof
      assume "suffixed names (length names) j = suffixed names (length names) k"
      with suffixed_eq [OF assms [folded names_def], of j k "length names"] that
      have "names ! j = names ! k" "\<not> repeats names (length names) j" by auto
      with that show False unfolding repeats_def by (metis order.strict_trans)
    qed
    then have "distinct (map (suffixed names (length names)) [0..<length names])"
      by (auto simp: distinct_conv_nth) (metis linorder_neqE_nat)
    with True suffix_steps [OF assms [folded names_def], of "length names"] show ?thesis by (simp add: unique_names_def)
  qed
  then show ?thesis by (simp add: parse_header_line_def names_def)
qed

text \<open>A reader of numbers that knows none, for the names below.\<close>

definition no_numbers :: "nat csv_lib" where
  "no_numbers = \<lparr>parse_number = (\<lambda>s. None), of_int64 = nat, times_nano = id, times_micro = id, times_milli = id,
     ns_seconds = nat, day_seconds = nat, read_instant = (\<lambda>f s. None), read_ymd = (\<lambda>f s. None), read_tod = (\<lambda>f s. None)\<rparr>"

theorem column_names_distinct_witness:
  "distinct (parse_header_line no_numbers ''t,x,x,,x'' CHR '','')
    \<and> parse_header_line no_numbers ''t,x,x,,x'' CHR '','' = [''t'', ''x_01'', ''x_02'', ''_Column_3'', ''x_04'']"
proof -
  have "suffix_free (first_names no_numbers (split_line ''t,x,x,,x'' CHR '',''))"
    unfolding suffix_free_list by code_simp
  from column_names_distinct [OF this] have "distinct (parse_header_line no_numbers ''t,x,x,,x'' CHR '','')" by simp
  moreover have "parse_header_line no_numbers ''t,x,x,,x'' CHR '','' = [''t'', ''x_01'', ''x_02'', ''_Column_3'', ''x_04'']"
    by code_simp
  ultimately show ?thesis by simp
qed

lemma suffix_clash: "parse_header_line no_numbers ''a_01,a,a'' CHR '','' = [''a_01'', ''a_01'', ''a_02'']"
  by code_simp

subsection \<open>Two passes: the reference\<close>

text \<open>The rows of the right width; the type of a column is that of the first cell in it; then the rows whose
  time reads, with their times, and the points of each column.\<close>

definition table_rows :: "csv_config \<Rightarrow> nat \<Rightarrow> string list \<Rightarrow> string list list" where
  "table_rows cfg num lines =
     filter (\<lambda>parts. length parts = num) (map (\<lambda>line. split_line (strip_return line) (cf_delimiter cfg)) lines)"

definition type_from :: "'d csv_lib \<Rightarrow> column_info \<Rightarrow> nat \<Rightarrow> string list list \<Rightarrow> column_info" where
  "type_from lib known i rows =
     (if ci_type known \<noteq> CUndefined then known
      else case find (\<lambda>parts. parts ! i \<noteq> []) rows of None \<Rightarrow> known | Some parts \<Rightarrow> detect_column_type lib (parts ! i))"

fun timed_rows ::
  "'d csv_lib \<Rightarrow> csv_config \<Rightarrow> column_info list \<Rightarrow> nat \<Rightarrow> string list list \<Rightarrow> ('d \<times> string list) list" where
  "timed_rows lib cfg types k [] = []"
| "timed_rows lib cfg types k (parts # rows) =
     (case row_time lib cfg types parts of
        TimeAt ts \<Rightarrow> (ts, parts) # timed_rows lib cfg types (k + 1) rows
      | NoTimeColumn \<Rightarrow> (of_int64 lib (int k), parts) # timed_rows lib cfg types (k + 1) rows
      | _ \<Rightarrow> timed_rows lib cfg types k rows)"

text \<open>What a cell adds to its column: a number, a text, or nothing.\<close>

definition read_cell :: "'d csv_lib \<Rightarrow> column_info \<Rightarrow> string \<Rightarrow> ('d + string) option" where
  "read_cell lib info str =
     (if str = [] \<or> ci_type info = CUndefined then None
      else if ci_type info = CString then Some (Inr str)
      else Some (case parse_with_type lib str (value_info info) of Some v \<Rightarrow> Inl v | None \<Rightarrow> Inr str))"

definition numbers_of :: "'d csv_lib \<Rightarrow> column_info \<Rightarrow> nat \<Rightarrow> ('d \<times> string list) list \<Rightarrow> ('d \<times> 'd) list" where
  "numbers_of lib info i rows =
     concat (map (\<lambda>(ts, parts). case read_cell lib info (parts ! i) of Some (Inl v) \<Rightarrow> [(ts, v)] | _ \<Rightarrow> []) rows)"

definition texts_of :: "'d csv_lib \<Rightarrow> column_info \<Rightarrow> nat \<Rightarrow> ('d \<times> string list) list \<Rightarrow> ('d \<times> string) list" where
  "texts_of lib info i rows =
     concat (map (\<lambda>(ts, parts). case read_cell lib info (parts ! i) of Some (Inr s) \<Rightarrow> [(ts, s)] | _ \<Rightarrow> []) rows)"

definition column_points ::
  "'d csv_lib \<Rightarrow> csv_config \<Rightarrow> column_info list \<Rightarrow> ('d \<times> string list) list \<Rightarrow> nat \<Rightarrow> 'd csv_column \<Rightarrow> 'd csv_column" where
  "column_points lib cfg types rows i col =
     (if int i \<in> pair_columns cfg then col
      else col\<lparr>cc_numeric := cc_numeric col @ numbers_of lib (types ! i) i rows,
               cc_strings := cc_strings col @ texts_of lib (types ! i) i rows\<rparr>)"

text \<open>The configuration reads times from the file.\<close>

definition timed :: "csv_config \<Rightarrow> nat \<Rightarrow> bool" where
  "timed cfg num \<longleftrightarrow> chosen_pair cfg \<noteq> None \<or> 0 \<le> cf_time_column cfg \<and> cf_time_column cfg < int num"

fun in_order :: "'d csv_clock \<Rightarrow> 'd \<Rightarrow> 'd list \<Rightarrow> bool" where
  "in_order clock prev [] = True"
| "in_order clock prev (t # ts) = (\<not> later clock prev t \<and> in_order clock t ts)"

definition csv_two_pass :: "'d csv_lib \<Rightarrow> 'd csv_clock \<Rightarrow> csv_config \<Rightarrow> string \<Rightarrow> string list \<Rightarrow> 'd csv_outcome" where
  "csv_two_pass lib clock cfg header lines =
     (let names = parse_header_line lib header (cf_delimiter cfg);
          rows = table_rows cfg (length names) lines;
          types = map (\<lambda>i. type_from lib new_info i rows) [0..<length names];
          accepted = timed_rows lib cfg types 0 rows
      in \<lparr>cr_success = True,
          cr_columns = map (\<lambda>i. column_points lib cfg types accepted i
              \<lparr>cc_name = names ! i, cc_numeric = [], cc_strings = [], cc_type = types ! i\<rparr>) [0..<length names],
          cr_names = names, cr_warnings = [],
          cr_non_monotonic = (timed cfg (length names) \<and> \<not> in_order clock (lowest clock) (map fst accepted)),
          cr_processed = length accepted, cr_skipped = length lines - length accepted,
          cr_combined = pair_columns cfg\<rparr>)"

subsection \<open>The one pass gives the same\<close>

text \<open>A row does not depend on the types of the columns in which it has no cell.\<close>

definition agree_on :: "string list \<Rightarrow> column_info list \<Rightarrow> column_info list \<Rightarrow> bool" where
  "agree_on parts t u \<longleftrightarrow> (\<forall>i < length parts. parts ! i = [] \<or> t ! i = u ! i)"

lemma trim_Nil [simp]: "cell_trim [] = []"
  by (simp add: cell_trim_def)

lemma parse_empty [simp]: "parse_with_type lib [] info = None" "format_parse lib [] fmt = None"
  "parse_combined lib [] t a b = None" "parse_combined lib d [] a b = None"
  by (simp_all add: parse_with_type_def format_parse_def parse_combined_def Let_def)

lemma pair_time_agree:
  assumes "agree_on parts t u"
  shows "pair_time lib p t parts = pair_time lib p u parts"
proof (cases "cp_date p < 0 \<or> int (length parts) \<le> cp_date p \<or> cp_time p < 0 \<or> int (length parts) \<le> cp_time p")
  case False
  then have "nat (cp_date p) < length parts" "nat (cp_time p) < length parts" by auto
  with assms have a: "parts ! nat (cp_date p) = [] \<or> t ! nat (cp_date p) = u ! nat (cp_date p)"
    "parts ! nat (cp_time p) = [] \<or> t ! nat (cp_time p) = u ! nat (cp_time p)" by (simp_all add: agree_on_def)
  from a show ?thesis by (auto simp: pair_time_def)
qed (simp add: pair_time_def)

lemma row_time_agree:
  assumes "agree_on parts t u"
  shows "row_time lib cfg t parts = row_time lib cfg u parts"
proof -
  have "column_time lib cfg t parts = column_time lib cfg u parts"
    if "0 \<le> cf_time_column cfg" "cf_time_column cfg < int (length parts)"
  proof -
    have "parts ! nat (cf_time_column cfg) = [] \<or> t ! nat (cf_time_column cfg) = u ! nat (cf_time_column cfg)"
      using assms that by (simp add: agree_on_def)
    then show ?thesis by (auto simp: column_time_def Let_def)
  qed
  with pair_time_agree [OF assms] show ?thesis by (auto simp: row_time_def split: option.splits)
qed

lemma add_row_agree:
  assumes "agree_on parts t u" "length parts = length columns"
  shows "add_row lib cfg ts parts t columns = add_row lib cfg ts parts u columns"
  using assms by (auto simp: add_row_def agree_on_def add_cell_def)

lemma add_cell_read:
  "add_cell lib ts str info col =
     (case read_cell lib info str of
        None \<Rightarrow> col
      | Some (Inl v) \<Rightarrow> col\<lparr>cc_numeric := cc_numeric col @ [(ts, v)]\<rparr>
      | Some (Inr s) \<Rightarrow> col\<lparr>cc_strings := cc_strings col @ [(ts, s)]\<rparr>)"
  by (auto simp: add_cell_def read_cell_def split: option.splits)

lemma column_points_Cons:
  "column_points lib cfg types ((ts, parts) # rows) i col =
     column_points lib cfg types rows i
       (if int i \<in> pair_columns cfg then col else add_cell lib ts (parts ! i) (types ! i) col)"
  by (auto simp: column_points_def add_cell_read numbers_of_def texts_of_def split: option.splits sum.splits)

lemma column_points_Nil [simp]: "column_points lib cfg types [] i col = col"
  by (simp add: column_points_def numbers_of_def texts_of_def)

lemma length_add_row [simp]: "length (add_row lib cfg ts parts types columns) = length columns"
  by (simp add: add_row_def)

text \<open>The final type of a column, seen from any line on.\<close>

lemma length_detect_types [simp]: "length (detect_types lib parts types) = min (length parts) (length types)"
  by (simp add: detect_types_def)

lemma type_from_step:
  assumes "i < length parts" "i < length types"
  shows "type_from lib (detect_types lib parts types ! i) i rows = type_from lib (types ! i) i (parts # rows)"
  using assms detected_type_defined by (auto simp: detect_types_def type_from_def)

definition final_types :: "'d csv_lib \<Rightarrow> string list list \<Rightarrow> column_info list \<Rightarrow> column_info list" where
  "final_types lib rows types = map (\<lambda>i. type_from lib (types ! i) i rows) [0..<length types]"

lemma detect_types_agree:
  assumes "length parts = length types"
  shows "agree_on parts (detect_types lib parts types) (final_types lib rows (detect_types lib parts types))"
  using assms detected_type_defined by (auto simp: agree_on_def detect_types_def final_types_def type_from_def)

lemma final_types_Nil [simp]: "final_types lib [] types = types"
  by (auto simp: final_types_def type_from_def intro: nth_equalityI)

lemma final_types_step:
  "length parts = length types \<Longrightarrow> final_types lib rows (detect_types lib parts types) = final_types lib (parts # rows) types"
  by (auto simp: final_types_def type_from_step)

text \<open>The state of the loop by its parts: what one line does to it.\<close>

lemma skip_line_simps [simp]:
  "cs_types (skip_line w d st) = cs_types st" "cs_columns (skip_line w d st) = cs_columns st"
  "cs_samples (skip_line w d st) = cs_samples st" "cs_skipped (skip_line w d st) = cs_skipped st + 1"
  "cs_prev (skip_line w d st) = cs_prev st" "cs_non_monotonic (skip_line w d st) = cs_non_monotonic st"
  by (simp_all add: skip_line_def warn_line_def)

lemma check_order_simps [simp]:
  "cs_types (check_order clock ts st) = cs_types st" "cs_columns (check_order clock ts st) = cs_columns st"
  "cs_samples (check_order clock ts st) = cs_samples st" "cs_skipped (check_order clock ts st) = cs_skipped st"
  "cs_prev (check_order clock ts st) = ts"
  "cs_non_monotonic (check_order clock ts st) \<longleftrightarrow> cs_non_monotonic st \<or> later clock (cs_prev st) ts"
  by (auto simp: check_order_def warn_line_def Let_def)

lemma accept_row_simps [simp]:
  "cs_types (accept_row lib cfg ts parts st) = cs_types st"
  "cs_columns (accept_row lib cfg ts parts st) = add_row lib cfg ts parts (cs_types st) (cs_columns st)"
  "cs_samples (accept_row lib cfg ts parts st) = cs_samples st + 1"
  "cs_skipped (accept_row lib cfg ts parts st) = cs_skipped st"
  "cs_prev (accept_row lib cfg ts parts st) = cs_prev st"
  "cs_non_monotonic (accept_row lib cfg ts parts st) = cs_non_monotonic st"
  by (simp_all add: accept_row_def)

lemma split_line_ne [simp]: "split_line line separator \<noteq> []"
  using length_split_cells [of separator "[]" "[]" False line] by (auto simp: split_line_def)

text \<open>The loop against the reference, from any state on; the rows without a time of their own have that
  of their number.\<close>

definition loop_spec ::
  "'d csv_lib \<Rightarrow> 'd csv_clock \<Rightarrow> csv_config \<Rightarrow> string list \<Rightarrow> 'd csv_progress \<Rightarrow> 'd csv_progress \<Rightarrow> bool" where
  "loop_spec lib clock cfg lines st st' \<longleftrightarrow>
     (let num = length (cs_columns st); rows = table_rows cfg num lines; types = final_types lib rows (cs_types st);
          accepted = timed_rows lib cfg types (cs_samples st) rows
      in cs_types st' = types
         \<and> cs_columns st' = map (\<lambda>i. column_points lib cfg types accepted i (cs_columns st ! i)) [0..<num]
         \<and> cs_samples st' = cs_samples st + length accepted
         \<and> cs_samples st' + cs_skipped st' = cs_samples st + cs_skipped st + length lines
         \<and> (cs_non_monotonic st' \<longleftrightarrow>
              cs_non_monotonic st \<or> timed cfg num \<and> \<not> in_order clock (cs_prev st) (map fst accepted)))"

lemma row_time_timed:
  "row_time lib cfg types parts = TimeAt ts \<Longrightarrow> timed cfg (length parts)"
  "row_time lib cfg types parts = NoTimeColumn \<Longrightarrow> \<not> timed cfg (length parts)"
  by (auto simp: row_time_def timed_def pair_time_def column_time_def Let_def split: option.splits if_splits)

lemma csv_lines_meets_spec:
  assumes "csv_lines lib clock cfg progress line_total lines st = Some (st', True)"
    and "length (cs_types st) = length (cs_columns st)"
  shows "loop_spec lib clock cfg lines st st'"
  using assms
proof (induction lines arbitrary: st)
  case Nil
  then show ?case
    by (simp add: loop_spec_def table_rows_def map_nth)
next
  case (Cons line lines)
  let ?parts = "split_line (strip_return line) (cf_delimiter cfg)" and ?num = "length (cs_columns st)"
  obtain st1 accepted where one: "csv_row_step lib clock cfg line st = Some (st1, accepted)"
    and later: "csv_lines lib clock cfg progress line_total lines st1 = Some (st', True)"
    using Cons.prems(1) by (auto split: option.splits if_splits)
  show ?case
  proof (cases "length ?parts = ?num")
    case False
    with one have st1: "st1 = skip_line WrongColumnCount (wrong_count ?num (length ?parts)) (st\<lparr>cs_line := cs_line st + 1\<rparr>)"
      by (auto simp: csv_row_step_def Let_def)
    with Cons.IH [OF later] Cons.prems(2) False show ?thesis
      by (auto simp: loop_spec_def Let_def table_rows_def)
  next
    case True
    let ?types = "detect_types lib ?parts (cs_types st)"
    let ?rows = "table_rows cfg ?num lines"
    let ?final = "final_types lib (?parts # ?rows) (cs_types st)"
    have rows: "table_rows cfg ?num (line # lines) = ?parts # ?rows" using True by (simp add: table_rows_def)
    have len: "length ?parts = length (cs_types st)" using True Cons.prems(2) by simp
    have final: "final_types lib ?rows ?types = ?final" by (rule final_types_step [OF len])
    have agree: "agree_on ?parts ?types ?final"
      using detect_types_agree [OF len, of lib ?rows] unfolding final .
    note time = row_time_agree [OF agree, of lib cfg]
    have cell: "map (\<lambda>i. column_points lib cfg ?final acc i (add_row lib cfg ts ?parts ?types (cs_columns st) ! i)) [0..<?num]
        = map (\<lambda>i. column_points lib cfg ?final ((ts, ?parts) # acc) i (cs_columns st ! i)) [0..<?num]" for ts acc
      unfolding add_row_agree [OF agree True] by (auto simp: column_points_Cons add_row_def)
    show ?thesis
    proof (cases "row_time lib cfg ?final ?parts")
      case NoTimeColumn
      with one True len time have st1: "st1 = accept_row lib cfg (of_int64 lib (int (cs_samples st))) ?parts
          (st\<lparr>cs_line := cs_line st + 1, cs_types := ?types\<rparr>)"
        by (auto simp: csv_row_step_def Let_def)
      have "\<not> timed cfg ?num" using row_time_timed(2) [OF NoTimeColumn] True by simp
      moreover have "loop_spec lib clock cfg lines st1 st'" using Cons.IH [OF later] len True by (simp add: st1)
      ultimately show ?thesis using NoTimeColumn cell unfolding loop_spec_def Let_def rows by (simp add: st1 final)
    next
      case (TimeAt ts)
      with one True len time have st1: "st1 = accept_row lib cfg ts ?parts
          (check_order clock ts (st\<lparr>cs_line := cs_line st + 1, cs_types := ?types\<rparr>))"
        by (auto simp: csv_row_step_def Let_def)
      have "timed cfg ?num" using row_time_timed(1) [OF TimeAt] True by simp
      moreover have "loop_spec lib clock cfg lines st1 st'" using Cons.IH [OF later] len True by (simp add: st1)
      ultimately show ?thesis using TimeAt cell unfolding loop_spec_def Let_def rows by (simp add: st1 final)
    next
      case (BadTime d)
      with one True len time have st1: "st1 = skip_line InvalidTimestamp d
          (st\<lparr>cs_line := cs_line st + 1, cs_types := ?types\<rparr>)"
        by (auto simp: csv_row_step_def Let_def)
      have "loop_spec lib clock cfg lines st1 st'" using Cons.IH [OF later] len True by (simp add: st1)
      then show ?thesis using BadTime unfolding loop_spec_def Let_def rows by (simp add: st1 final)
    next
      case OutsideRow
      with one True time show ?thesis by (auto simp: csv_row_step_def Let_def)
    qed
  qed
qed


lemma start_state_simps [simp]:
  "cs_types (start_state lib clock cfg header) = replicate (length (parse_header_line lib header (cf_delimiter cfg))) new_info"
  "cs_columns (start_state lib clock cfg header) =
     map (\<lambda>name. \<lparr>cc_name = name, cc_numeric = [], cc_strings = [], cc_type = new_info\<rparr>)
       (parse_header_line lib header (cf_delimiter cfg))"
  "cs_samples (start_state lib clock cfg header) = 0" "cs_skipped (start_state lib clock cfg header) = 0"
  "cs_prev (start_state lib clock cfg header) = lowest clock" "cs_non_monotonic (start_state lib clock cfg header) = False"
  "cs_warnings (start_state lib clock cfg header) = header_warnings cfg header"
  "cs_line (start_state lib clock cfg header) = cf_skip_rows cfg + 1"
  by (simp_all add: start_state_def Let_def)

lemma column_points_type:
  "(column_points lib cfg types rows i col)\<lparr>cc_type := t\<rparr> = column_points lib cfg types rows i (col\<lparr>cc_type := t\<rparr>)"
  "cc_name (column_points lib cfg types rows i col) = cc_name col"
  by (simp_all add: column_points_def)

lemma length_timed_rows: "length (timed_rows lib cfg types k rows) \<le> length rows"
  by (induction lib cfg types k rows rule: timed_rows.induct) (auto split: cell_time.splits intro: le_SucI)

lemma complete_result:
  assumes "loop_spec lib clock cfg lines (start_state lib clock cfg header) st"
  shows "(result_of cfg (st, True))\<lparr>cr_warnings := []\<rparr> = csv_two_pass lib clock cfg header lines"
proof -
  let ?names = "parse_header_line lib header (cf_delimiter cfg)" and ?start = "start_state lib clock cfg header"
  let ?num = "length ?names" and ?rows = "table_rows cfg (length ?names) lines"
  let ?types = "map (\<lambda>i. type_from lib new_info i ?rows) [0..<?num]"
  have types: "final_types lib ?rows (replicate ?num new_info) = ?types" by (simp add: final_types_def)
  let ?acc = "timed_rows lib cfg ?types 0 ?rows"
  from assms have st: "cs_types st = ?types"
      "cs_columns st = map (\<lambda>i. column_points lib cfg ?types ?acc i (cs_columns ?start ! i)) [0..<?num]"
      "cs_samples st = length ?acc" "cs_samples st + cs_skipped st = length lines"
      "cs_non_monotonic st \<longleftrightarrow> timed cfg ?num \<and> \<not> in_order clock (lowest clock) (map fst ?acc)"
    unfolding loop_spec_def Let_def by (simp_all add: types)
  from st(2) have columns: "cs_columns st = map (\<lambda>i. column_points lib cfg ?types ?acc i
      \<lparr>cc_name = ?names ! i, cc_numeric = [], cc_strings = [], cc_type = new_info\<rparr>) [0..<?num]" by simp
  have final: "map (\<lambda>(col, info). col\<lparr>cc_type := info\<rparr>) (zip (cs_columns st) (cs_types st))
    = map (\<lambda>i. column_points lib cfg ?types ?acc i
        \<lparr>cc_name = ?names ! i, cc_numeric = [], cc_strings = [], cc_type = ?types ! i\<rparr>) [0..<?num]"
    unfolding columns st(1) by (rule nth_equalityI) (simp_all add: column_points_type)
  have names: "map cc_name (cs_columns st) = ?names" unfolding columns by (simp add: column_points_type comp_def map_nth)
  from st(3,4) have "cs_skipped st = length lines - length ?acc" by simp
  with st(3,5) final names show ?thesis by (simp add: result_of_def csv_two_pass_def Let_def)
qed

text \<open>C20. The single pass over the file, which detects the type of a column from its first cell while it is
  already collecting points, gives exactly what two passes would: first the types, then the rows with these
  types. So the columns' types and points, the rows kept with their times, the counts and the check of the
  order of time are those of the reference, whatever the order of the rows, as long as the user did not
  stop the import. (Warnings are the subject of the next property.)\<close>

theorem one_pass_is_two_pass:
  assumes "drop (cf_skip_rows cfg) (stream_lines content) = header # lines"
    and "parse_csv lib clock cfg progress content = Some res" and "cr_success res"
  shows "res\<lparr>cr_warnings := []\<rparr> = csv_two_pass lib clock cfg (strip_return header) lines"
proof -
  from assms obtain st line_total where run: "csv_lines lib clock cfg progress line_total lines
      (start_state lib clock cfg (strip_return header)) = Some (st, True)" and res: "res = result_of cfg (st, True)"
    by (auto simp: parse_csv_def Let_def result_of_def split: prod.splits)
  from csv_lines_meets_spec [OF run] complete_result [of lib clock cfg lines "strip_return header" st] show ?thesis
    by (simp add: res)
qed

subsection \<open>Warnings and counts\<close>

definition skip_warning :: "csv_warning \<Rightarrow> bool" where
  "skip_warning w \<longleftrightarrow> cw_type w = WrongColumnCount \<or> cw_type w = InvalidTimestamp"

definition order_warning :: "csv_warning \<Rightarrow> bool" where
  "order_warning w \<longleftrightarrow> cw_type w = NonMonotonicTime"

text \<open>The reference: the warning owed to a line by its number, when it has not the cells of the columns or its time does
  not read as one of its column's final type, and the number of the first line whose time is before that of the
  accepted line before it.\<close>

definition line_warning ::
  "'d csv_lib \<Rightarrow> csv_config \<Rightarrow> column_info list \<Rightarrow> nat \<times> string \<Rightarrow> csv_warning option" where
  "line_warning lib cfg types nl =
     (let parts = split_line (strip_return (snd nl)) (cf_delimiter cfg) in
      if length parts \<noteq> length types
      then Some \<lparr>cw_type = WrongColumnCount, cw_line = fst nl,
                 cw_detail = ''Expected '' @ nat_text (length types) @ '' columns, got '' @ nat_text (length parts)\<rparr>
      else case row_time lib cfg types parts of
        BadTime detail \<Rightarrow> Some \<lparr>cw_type = InvalidTimestamp, cw_line = fst nl, cw_detail = detail\<rparr>
      | _ \<Rightarrow> None)"

definition line_time :: "'d csv_lib \<Rightarrow> csv_config \<Rightarrow> column_info list \<Rightarrow> string \<Rightarrow> 'd option" where
  "line_time lib cfg types line =
     (let parts = split_line (strip_return line) (cf_delimiter cfg) in
      if length parts \<noteq> length types then None
      else case row_time lib cfg types parts of TimeAt ts \<Rightarrow> Some ts | _ \<Rightarrow> None)"

fun first_back :: "'d csv_lib \<Rightarrow> 'd csv_clock \<Rightarrow> csv_config \<Rightarrow> column_info list \<Rightarrow> 'd \<Rightarrow> (nat \<times> string) list \<Rightarrow> nat option" where
  "first_back lib clock cfg types prev [] = None"
| "first_back lib clock cfg types prev ((n, line) # lines) =
     (case line_time lib cfg types line of
        None \<Rightarrow> first_back lib clock cfg types prev lines
      | Some ts \<Rightarrow> if later clock prev ts then Some n else first_back lib clock cfg types ts lines)"

text \<open>One line of the loop, by the final types of the columns.\<close>

lemma csv_row_step_final:
  fixes st :: "'d csv_progress" and lines :: "string list"
  assumes "csv_row_step lib clock cfg line st = Some (st1, accepted)" "length (cs_types st) = length (cs_columns st)"
  defines "parts \<equiv> split_line (strip_return line) (cf_delimiter cfg)" and "num \<equiv> length (cs_columns st)"
  defines "final \<equiv> final_types lib (table_rows cfg num (line # lines)) (cs_types st)"
  shows "length parts \<noteq> num \<Longrightarrow> st1 = skip_line WrongColumnCount (wrong_count num (length parts)) (st\<lparr>cs_line := cs_line st + 1\<rparr>)"
    and "length parts = num \<Longrightarrow> (let st2 = st\<lparr>cs_line := cs_line st + 1, cs_types := detect_types lib parts (cs_types st)\<rparr> in
           case row_time lib cfg final parts of
             NoTimeColumn \<Rightarrow> st1 = accept_row lib cfg (of_int64 lib (int (cs_samples st))) parts st2
           | TimeAt ts \<Rightarrow> st1 = accept_row lib cfg ts parts (check_order clock ts st2)
           | BadTime d \<Rightarrow> st1 = skip_line InvalidTimestamp d st2
           | OutsideRow \<Rightarrow> False)"
    and "length (cs_columns st1) = num" and "length (cs_types st1) = num"
    and "final_types lib (table_rows cfg num lines) (cs_types st1) = final"
proof -
  note step = assms(1) [unfolded csv_row_step_def Let_def, folded parts_def num_def]
  show one: "length parts \<noteq> num \<Longrightarrow> st1 = skip_line WrongColumnCount (wrong_count num (length parts)) (st\<lparr>cs_line := cs_line st + 1\<rparr>)"
    using step by (auto simp: parts_def num_def)
  have agree: "agree_on parts (detect_types lib parts (cs_types st)) final"
    and same: "final_types lib (table_rows cfg num lines) (detect_types lib parts (cs_types st)) = final" if "length parts = num"
  proof -
    have len: "length parts = length (cs_types st)" using that assms(2) by (simp add: num_def)
    have rows: "table_rows cfg num (line # lines) = parts # table_rows cfg num lines" using that by (simp add: table_rows_def parts_def)
    from final_types_step [OF len, of lib "table_rows cfg num lines"]
    show "final_types lib (table_rows cfg num lines) (detect_types lib parts (cs_types st)) = final" by (simp add: final_def rows)
    with detect_types_agree [OF len, of lib "table_rows cfg num lines"]
    show "agree_on parts (detect_types lib parts (cs_types st)) final" by simp
  qed
  show two: "length parts = num \<Longrightarrow> (let st2 = st\<lparr>cs_line := cs_line st + 1, cs_types := detect_types lib parts (cs_types st)\<rparr> in
           case row_time lib cfg final parts of
             NoTimeColumn \<Rightarrow> st1 = accept_row lib cfg (of_int64 lib (int (cs_samples st))) parts st2
           | TimeAt ts \<Rightarrow> st1 = accept_row lib cfg ts parts (check_order clock ts st2)
           | BadTime d \<Rightarrow> st1 = skip_line InvalidTimestamp d st2
           | OutsideRow \<Rightarrow> False)"
    using step row_time_agree [OF agree, of lib cfg] by (auto simp: parts_def num_def Let_def split: cell_time.splits)
  have rows: "table_rows cfg num (line # lines) = table_rows cfg num lines" if "length parts \<noteq> num"
    using that by (simp add: table_rows_def parts_def)
  show "length (cs_columns st1) = num" "length (cs_types st1) = num"
    using one two assms(2) by (cases "length parts = num"; auto simp: num_def Let_def split: cell_time.splits)+
  show "final_types lib (table_rows cfg num lines) (cs_types st1) = final"
    using one two same rows by (cases "length parts = num"; auto simp: final_def Let_def split: cell_time.splits)
qed

lemma warning_simps [simp]:
  "cs_line (skip_line w d st) = cs_line st" "cs_line (check_order clock ts st) = cs_line st"
  "cs_line (accept_row lib cfg ts parts st) = cs_line st" "cs_warnings (accept_row lib cfg ts parts st) = cs_warnings st"
  "cs_warnings (skip_line w d st) = cs_warnings st @ [\<lparr>cw_type = w, cw_line = cs_line st, cw_detail = d\<rparr>]"
  by (simp_all add: skip_line_def warn_line_def check_order_def accept_row_def Let_def)

definition back_warning :: "nat \<Rightarrow> csv_warning" where
  "back_warning n = \<lparr>cw_type = NonMonotonicTime, cw_line = n, cw_detail = ''Time is not monotonically increasing''\<rparr>"

lemma check_order_warnings:
  "cs_warnings (check_order clock ts st) =
     cs_warnings st @ (if later clock (cs_prev st) ts \<and> \<not> cs_non_monotonic st then [back_warning (cs_line st)] else [])"
  by (simp add: check_order_def warn_line_def back_warning_def Let_def)

text \<open>The warnings of the loop, from any state on.\<close>

definition warnings_spec ::
  "'d csv_lib \<Rightarrow> 'd csv_clock \<Rightarrow> csv_config \<Rightarrow> string list \<Rightarrow> 'd csv_progress \<Rightarrow> 'd csv_progress \<Rightarrow> bool" where
  "warnings_spec lib clock cfg lines st st' \<longleftrightarrow>
     (let types = final_types lib (table_rows cfg (length (cs_columns st)) lines) (cs_types st);
          numbered = List.enumerate (cs_line st + 1) lines; back = first_back lib clock cfg types (cs_prev st) numbered
      in filter skip_warning (cs_warnings st') = filter skip_warning (cs_warnings st) @ List.map_filter (line_warning lib cfg types) numbered
       \<and> cs_skipped st' = cs_skipped st + length (List.map_filter (line_warning lib cfg types) numbered)
       \<and> filter order_warning (cs_warnings st') = filter order_warning (cs_warnings st)
           @ (if cs_non_monotonic st then [] else case back of None \<Rightarrow> [] | Some n \<Rightarrow> [back_warning n])
       \<and> (cs_non_monotonic st' \<longleftrightarrow> cs_non_monotonic st \<or> back \<noteq> None))"

lemma csv_lines_warnings:
  assumes "csv_lines lib clock cfg progress line_total lines st = Some (st', True)"
    and "length (cs_types st) = length (cs_columns st)"
  shows "warnings_spec lib clock cfg lines st st'"
  using assms
proof (induction lines arbitrary: st)
  case Nil
  then show ?case by (simp add: warnings_spec_def map_filter_simps)
next
  case (Cons line lines)
  let ?parts = "split_line (strip_return line) (cf_delimiter cfg)" and ?num = "length (cs_columns st)"
  let ?final = "final_types lib (table_rows cfg ?num (line # lines)) (cs_types st)"
  obtain st1 accepted where one: "csv_row_step lib clock cfg line st = Some (st1, accepted)"
    and later: "csv_lines lib clock cfg progress line_total lines st1 = Some (st', True)"
    using Cons.prems(1) by (auto split: option.splits if_splits)
  note wrong = csv_row_step_final(1) [OF one Cons.prems(2)] and right = csv_row_step_final(2) [OF one Cons.prems(2), where lines = lines]
  note widths = csv_row_step_final(3,4) [OF one Cons.prems(2)] and final = csv_row_step_final(5) [OF one Cons.prems(2), where lines = lines]
  have rest: "warnings_spec lib clock cfg lines st1 st'" using Cons.IH [OF later] widths by simp
  have num: "length ?final = ?num" using Cons.prems(2) by (simp add: final_types_def)
  note spec = rest [unfolded warnings_spec_def Let_def widths(1) final]
  show ?case
  proof (cases "length ?parts = ?num")
    case False
    with num have "line_warning lib cfg ?final (cs_line st + 1, line)
        = Some \<lparr>cw_type = WrongColumnCount, cw_line = cs_line st + 1, cw_detail = wrong_count ?num (length ?parts)\<rparr>"
      "line_time lib cfg ?final line = None"
      by (simp_all add: line_warning_def line_time_def wrong_count_def)
    with spec wrong [OF False] show ?thesis
      by (simp add: warnings_spec_def Let_def map_filter_simps skip_warning_def order_warning_def)
  next
    case True
    let ?st2 = "st\<lparr>cs_line := cs_line st + 1, cs_types := detect_types lib ?parts (cs_types st)\<rparr>"
    note at = right [OF True, unfolded Let_def]
    have w: "line_warning lib cfg ?final (cs_line st + 1, line) = (case row_time lib cfg ?final ?parts of
        BadTime detail \<Rightarrow> Some \<lparr>cw_type = InvalidTimestamp, cw_line = cs_line st + 1, cw_detail = detail\<rparr> | _ \<Rightarrow> None)"
      and t: "line_time lib cfg ?final line = (case row_time lib cfg ?final ?parts of TimeAt ts \<Rightarrow> Some ts | _ \<Rightarrow> None)"
      using True num by (simp_all add: line_warning_def line_time_def Let_def split: cell_time.split)
    show ?thesis
    proof (cases "row_time lib cfg ?final ?parts")
      case NoTimeColumn
      with at have st1: "st1 = accept_row lib cfg (of_int64 lib (int (cs_samples st))) ?parts ?st2" by simp
      from spec w t NoTimeColumn show ?thesis by (simp add: st1 warnings_spec_def Let_def map_filter_simps)
    next
      case (TimeAt ts)
      with at have st1: "st1 = accept_row lib cfg ts ?parts (check_order clock ts ?st2)" by simp
      from spec w t TimeAt show ?thesis
        by (auto simp: st1 warnings_spec_def Let_def map_filter_simps check_order_warnings skip_warning_def order_warning_def back_warning_def)
    next
      case (BadTime d)
      with at have st1: "st1 = skip_line InvalidTimestamp d ?st2" by simp
      from spec w t BadTime show ?thesis
        by (simp add: st1 warnings_spec_def Let_def map_filter_simps skip_warning_def order_warning_def)
    next
      case OutsideRow
      with at show ?thesis by simp
    qed
  qed
qed

lemma header_warnings_other [simp]:
  "filter skip_warning (header_warnings cfg header) = []" "filter order_warning (header_warnings cfg header) = []"
  by (simp_all add: header_warnings_def skip_warning_def order_warning_def Let_def)

lemma complete_types: "map cc_type (cr_columns (result_of cfg (st, True))) = cs_types st" if "length (cs_types st) = length (cs_columns st)"
  using that by (auto simp: result_of_def intro: nth_equalityI)

text \<open>C21. When a file is read to its end, every line after the header is a sample or was skipped. The skipped lines
  are exactly those with a wrong number of cells and those whose time does not read by the final type of its
  column, and the warnings of these two kinds are one for each of them, in order, naming that very line by its number in the
  file and saying what is wrong with it. Time is flagged as going back exactly when some accepted line is before
  the accepted line before it, and then one warning, never more, names the first such line.\<close>

theorem csv_lines_accounted:
  assumes "drop (cf_skip_rows cfg) (stream_lines content) = header # lines"
    and "parse_csv lib clock cfg progress content = Some res" and "cr_success res"
  defines "numbered \<equiv> List.enumerate (cf_skip_rows cfg + 2) lines" and "types \<equiv> map cc_type (cr_columns res)"
  shows "cr_processed res + cr_skipped res = length lines
    \<and> filter skip_warning (cr_warnings res) = List.map_filter (line_warning lib cfg types) numbered
    \<and> cr_skipped res = length (filter (\<lambda>nl. line_warning lib cfg types nl \<noteq> None) numbered)
    \<and> filter order_warning (cr_warnings res)
        = (case first_back lib clock cfg types (lowest clock) numbered of
             None \<Rightarrow> []
           | Some n \<Rightarrow> [\<lparr>cw_type = NonMonotonicTime, cw_line = n, cw_detail = ''Time is not monotonically increasing''\<rparr>])
    \<and> (cr_non_monotonic res \<longleftrightarrow> first_back lib clock cfg types (lowest clock) numbered \<noteq> None)"
proof -
  let ?start = "start_state lib clock cfg (strip_return header)"
  from assms obtain st line_total where run: "csv_lines lib clock cfg progress line_total lines ?start = Some (st, True)"
    and res: "res = result_of cfg (st, True)"
    by (auto simp: parse_csv_def Let_def result_of_def split: prod.splits)
  have len: "length (cs_types ?start) = length (cs_columns ?start)" by simp
  note loop = csv_lines_meets_spec [OF run len, unfolded loop_spec_def Let_def]
    and warn = csv_lines_warnings [OF run len, unfolded warnings_spec_def Let_def]
  from loop have "length (cs_types st) = length (cs_columns st)" by (simp add: final_types_def)
  from complete_types [OF this] loop
  have types: "types = final_types lib (table_rows cfg (length (cs_columns ?start)) lines) (cs_types ?start)"
    by (simp add: types_def res)
  have "length (List.map_filter (line_warning lib cfg types) numbered) = length (filter (\<lambda>nl. line_warning lib cfg types nl \<noteq> None) numbered)"
    by (simp add: List.map_filter_def)
  moreover have "cs_line ?start + 1 = cf_skip_rows cfg + 2" by simp
  ultimately show ?thesis
    using loop warn unfolding types [symmetric] numbered_def by (simp add: res result_of_def back_warning_def split: option.splits)
qed

text \<open>Doubles as integers and decimal numbers only, for a small file.\<close>

definition sample_lib :: "int csv_lib" where
  "sample_lib = \<lparr>parse_number = (\<lambda>s. if s \<noteq> [] \<and> list_all is_digit s then Some (int (text_value s)) else None),
     of_int64 = id, times_nano = id, times_micro = id, times_milli = id, ns_seconds = id, day_seconds = id,
     read_instant = (\<lambda>f s. None), read_ymd = (\<lambda>f s. None), read_tod = (\<lambda>f s. None)\<rparr>"

definition sample_clock :: "int csv_clock" where
  "sample_clock = \<lparr>lowest = - 1, later = (\<lambda>a b. a > b)\<rparr>"

definition csv_sample_config :: csv_config where
  "csv_sample_config = \<lparr>cf_delimiter = CHR '','', cf_time_column = 0, cf_format = [], cf_skip_rows = 1, cf_total_lines = 0,
     cf_pairs = [], cf_pair = - 1\<rparr>"

definition sample_file :: string where
  "sample_file = ''log'' @ [CHR 0x0A] @ ''t,v'' @ [CHR 0x0A] @ ''5,7'' @ [CHR 0x0A] @ ''3,up'' @ [CHR 0x0A] @ ''9'' @ [CHR 0x0A]"

definition csv_sample :: "int csv_outcome option" where
  "csv_sample = parse_csv sample_lib sample_clock csv_sample_config None sample_file"

lemma csv_sample_lines:
  "drop (cf_skip_rows csv_sample_config) (stream_lines sample_file) = ''t,v'' # [''5,7'', ''3,up'', ''9'']"
  by code_simp

lemma sample_complete:
  "parse_csv sample_lib sample_clock csv_sample_config None sample_file = Some (the csv_sample)"
  "cr_success (the csv_sample)"
proof -
  have "csv_sample \<noteq> None" by code_simp
  then show "parse_csv sample_lib sample_clock csv_sample_config None sample_file = Some (the csv_sample)"
    by (auto simp: csv_sample_def)
  show "cr_success (the csv_sample)" by code_simp
qed

theorem one_pass_is_two_pass_witness:
  "(the csv_sample)\<lparr>cr_warnings := []\<rparr>
    = csv_two_pass sample_lib sample_clock csv_sample_config (strip_return ''t,v'') [''5,7'', ''3,up'', ''9'']"
  by (rule one_pass_is_two_pass [OF csv_sample_lines sample_complete])

theorem csv_lines_accounted_witness:
  "cr_processed (the csv_sample) + cr_skipped (the csv_sample) = 3
    \<and> filter skip_warning (cr_warnings (the csv_sample))
        = List.map_filter (line_warning sample_lib csv_sample_config (map cc_type (cr_columns (the csv_sample))))
            [(3, ''5,7''), (4, ''3,up''), (5, ''9'')]
    \<and> map cw_line (filter skip_warning (cr_warnings (the csv_sample))) = [5]
    \<and> map cw_line (filter order_warning (cr_warnings (the csv_sample))) = [4]"
proof -
  have "map cw_line (filter skip_warning (cr_warnings (the csv_sample))) = [5]" by code_simp
  moreover have "map cw_line (filter order_warning (cr_warnings (the csv_sample))) = [4]" by code_simp
  moreover have e: "List.enumerate (cf_skip_rows csv_sample_config + 2) [''5,7'', ''3,up'', ''9''] = [(3, ''5,7''), (4, ''3,up''), (5, ''9'')]"
    by (simp add: csv_sample_config_def)
  moreover have "length [''5,7'', ''3,up'', ''9''] = 3" by simp
  ultimately show ?thesis using csv_lines_accounted [OF csv_sample_lines sample_complete, unfolded e] by metis
qed

subsection \<open>Parsing is defined\<close>

text \<open>With the columns of the chosen pair among those of the file no row is read past its end.\<close>

definition pair_within :: "csv_config \<Rightarrow> nat \<Rightarrow> bool" where
  "pair_within cfg num \<longleftrightarrow>
     (case chosen_pair cfg of None \<Rightarrow> True
      | Some p \<Rightarrow> 0 \<le> cp_date p \<and> cp_date p < int num \<and> 0 \<le> cp_time p \<and> cp_time p < int num)"

lemma csv_row_step_defined:
  assumes "pair_within cfg (length (cs_columns st))"
  shows "\<exists>st' accepted. csv_row_step lib clock cfg line st = Some (st', accepted) \<and> length (cs_columns st') = length (cs_columns st)"
proof -
  have "row_time lib cfg types parts \<noteq> OutsideRow" if "length parts = length (cs_columns st)" for types parts
    using assms that
    by (auto simp: row_time_def pair_within_def pair_time_def column_time_def Let_def split: option.splits)
  then show ?thesis by (auto simp: csv_row_step_def Let_def split: cell_time.splits)
qed

lemma parse_csv_defined:
  assumes "drop (cf_skip_rows cfg) (stream_lines content) = header # lines"
    and "pair_within cfg (length (split_line (strip_return header) (cf_delimiter cfg)))"
  shows "parse_csv lib clock cfg progress content \<noteq> None"
proof -
  have "csv_lines lib clock cfg progress line_total lines st \<noteq> None"
    if "pair_within cfg (length (cs_columns st))" for line_total lines and st :: "'a csv_progress"
    using that
  proof (induction lines arbitrary: st)
    case (Cons line lines)
    with csv_row_step_defined [OF Cons.prems, of lib clock line] show ?case by (auto split: option.splits)
  qed simp
  with assms show ?thesis by (simp add: parse_csv_def header_length Let_def)
qed

end
