(* ===== verification/CsvImport.thy ===== *)
theory CsvImport
  imports CsvParser
begin

section \<open>Importing a CSV file (data_load_csv/csv_source.cpp)\<close>

text \<open>
  What the plugin does with a parsed file: the questions to the user, the classification of the columns, the
  registration of the fields, and the records that merge the columns' points by time. The host's answers
  are parameters and its calls a log. Fact shown: an import that succeeds writes one record for each time at
  which some column has a value, in order of time, with all the values of that time, and warns of every text it
  leaves out of a column that has numbers.
\<close>

subsection \<open>The host\<close>

datatype ('t, 'f, 'd) csv_call =
  ProgressStart string nat
| AskContinue string string
| EnsureTopic string
| ShowWarning string string
| EnsureField 't string bool
| AppendRecord 't int "('f \<times> ('d + string)) list"
| ReportInfo string

text \<open>\<open>isStopRequested\<close> and \<open>progressUpdate\<close> while line \<open>n\<close> is parsed, \<open>isStopRequested\<close> afterwards, the
  answer to a question by its title, and those to the registrations and to the nth record. \<open>ch_ns\<close> is the
  cast of seconds times 1e9 to a 64-bit integer.\<close>

record ('t, 'f, 'd) csv_host =
  ch_stop :: "nat \<Rightarrow> bool"
  ch_update :: "nat \<Rightarrow> bool"
  ch_stopped :: bool
  ch_ask :: "string \<Rightarrow> bool"
  ch_topic :: "string \<Rightarrow> string + 't"
  ch_field :: "'t \<Rightarrow> string \<Rightarrow> bool \<Rightarrow> string + 'f"
  ch_append :: "nat \<Rightarrow> string option"
  ch_ns :: "'d \<Rightarrow> int"

subsection \<open>Names and questions\<close>

definition is_path_slash :: "char \<Rightarrow> bool" where
  "is_path_slash c \<longleftrightarrow> c = CHR ''/'' \<or> c = CHR 0x5C"

definition basename_without_ext :: "string \<Rightarrow> string" where
  "basename_without_ext path =
     (let start = length path - length (takeWhile (\<lambda>c. \<not> is_path_slash c) (rev path)) in
      case rfind_char CHR ''.'' path of
        Some dot \<Rightarrow> if dot > start then slice path start dot else drop start path
      | None \<Rightarrow> drop start path)"

definition line_feed :: string where "line_feed = [CHR 0x0A]"

definition order_question :: string where
  "order_question = ''The time column is not monotonically increasing.'' @ line_feed
     @ ''Data will be sorted automatically after loading.'' @ line_feed @ line_feed @ ''Continue?''"

definition skipped_detail :: "csv_warning list \<Rightarrow> string" where
  "skipped_detail ws =
     concat (map (\<lambda>w. ''Line '' @ nat_text (cw_line w) @ '': '' @ cw_detail w @ line_feed) (filter skip_warning ws))"

definition skipped_question :: "string \<Rightarrow> string" where
  "skipped_question detail =
     ''Some rows have an incorrect number of columns and will be skipped:'' @ line_feed @ line_feed @ detail
     @ line_feed @ ''Continue loading?''"

text \<open>The questions asked, up to the first one answered with no, and whether all were answered with yes.\<close>

fun ask_all :: "('t, 'f, 'd) csv_host \<Rightarrow> (string \<times> string) list \<Rightarrow> ('t, 'f, 'd) csv_call list \<Rightarrow> bool \<times> ('t, 'f, 'd) csv_call list" where
  "ask_all host [] log = (True, log)"
| "ask_all host ((title, question) # qs) log =
     (if ch_ask host title then ask_all host qs (log @ [AskContinue title question])
      else (False, log @ [AskContinue title question]))"

definition questions :: "'d csv_outcome \<Rightarrow> (string \<times> string) list" where
  "questions res =
     (if cr_non_monotonic res then [(''Non-monotonic Timestamps'', order_question)] else [])
     @ (let detail = skipped_detail (cr_warnings res) in
        if detail \<noteq> [] then [(''Rows Skipped'', skipped_question detail)] else [])"

subsection \<open>Columns\<close>

definition is_data_column :: "csv_config \<Rightarrow> 'd csv_outcome \<Rightarrow> nat \<Rightarrow> bool" where
  "is_data_column cfg res i \<longleftrightarrow>
     \<not> (0 \<le> cf_time_column cfg \<and> nat (cf_time_column cfg) = i) \<and> int i \<notin> cr_combined res"

definition data_columns :: "csv_config \<Rightarrow> 'd csv_outcome \<Rightarrow> nat list" where
  "data_columns cfg res = filter (is_data_column cfg res) [0..<length (cr_columns res)]"

definition is_text_column :: "'d csv_outcome \<Rightarrow> nat \<Rightarrow> bool" where
  "is_text_column res i \<longleftrightarrow> cc_numeric (cr_columns res ! i) = [] \<and> cc_strings (cr_columns res ! i) \<noteq> []"

definition number_columns :: "csv_config \<Rightarrow> 'd csv_outcome \<Rightarrow> nat list" where
  "number_columns cfg res = filter (\<lambda>i. \<not> is_text_column res i) (data_columns cfg res)"

definition text_columns :: "csv_config \<Rightarrow> 'd csv_outcome \<Rightarrow> nat list" where
  "text_columns cfg res = filter (is_text_column res) (data_columns cfg res)"

definition mixed_warnings :: "csv_config \<Rightarrow> 'd csv_outcome \<Rightarrow> ('t, 'f, 'd) csv_call list" where
  "mixed_warnings cfg res =
     concat (map (\<lambda>i. let col = cr_columns res ! i in
         if cc_numeric col \<noteq> [] \<and> cc_strings col \<noteq> []
         then [ShowWarning ''Mixed Column Type''
                 (''Column '' @ [CHR 0x27] @ cc_name col @ [CHR 0x27] @ '' has '' @ nat_text (length (cc_strings col))
                  @ '' non-numeric cells that were skipped.'')]
         else []) (data_columns cfg res))"

text \<open>The handles are those registered so far, by column.\<close>

fun ensure_fields ::
  "('t, 'f, 'd) csv_host \<Rightarrow> 't \<Rightarrow> 'd csv_outcome \<Rightarrow> bool \<Rightarrow> nat list \<Rightarrow> (nat \<Rightarrow> 'f option) \<Rightarrow> ('t, 'f, 'd) csv_call list \<Rightarrow>
   string option \<times> (nat \<Rightarrow> 'f option) \<times> ('t, 'f, 'd) csv_call list" where
  "ensure_fields host topic res is_text [] handles log = (None, handles, log)"
| "ensure_fields host topic res is_text (i # is) handles log =
     (let name = cc_name (cr_columns res ! i); log = log @ [EnsureField topic name is_text] in
      case ch_field host topic name is_text of
        Inl e \<Rightarrow> (Some e, handles, log)
      | Inr h \<Rightarrow> ensure_fields host topic res is_text is (handles(i \<mapsto> h)) log)"

subsection \<open>Records\<close>

record 'd data_point =
  dp_ts :: int
  dp_col :: nat
  dp_value :: "'d + string"

definition import_points :: "('t, 'f, 'd) csv_host \<Rightarrow> csv_config \<Rightarrow> 'd csv_outcome \<Rightarrow> 'd data_point list" where
  "import_points host cfg res =
     concat (map (\<lambda>i. map (\<lambda>(t, v). \<lparr>dp_ts = ch_ns host t, dp_col = i, dp_value = Inl v\<rparr>) (cc_numeric (cr_columns res ! i)))
       (number_columns cfg res))
     @ concat (map (\<lambda>i. map (\<lambda>(t, s). \<lparr>dp_ts = ch_ns host t, dp_col = i, dp_value = Inr s\<rparr>) (cc_strings (cr_columns res ! i)))
       (text_columns cfg res))"

text \<open>The loop that collects all points at the time of the first.\<close>

function group_points :: "'d data_point list \<Rightarrow> (int \<times> 'd data_point list) list" where
  "group_points [] = []"
| "group_points (p # ps) =
     (let now = takeWhile (\<lambda>q. dp_ts q = dp_ts p) (p # ps) in
      (dp_ts p, now) # group_points (drop (length now) (p # ps)))"
  by pat_completeness auto
termination by (relation "measure length") auto

declare group_points.simps(2) [simp del]

definition bound_fields :: "(nat \<Rightarrow> 'f option) \<Rightarrow> 'd data_point list \<Rightarrow> ('f \<times> ('d + string)) list" where
  "bound_fields handles ps = map (\<lambda>p. (the (handles (dp_col p)), dp_value p)) ps"

fun append_records ::
  "('t, 'f, 'd) csv_host \<Rightarrow> 't \<Rightarrow> (nat \<Rightarrow> 'f option) \<Rightarrow> nat \<Rightarrow> (int \<times> 'd data_point list) list \<Rightarrow> ('t, 'f, 'd) csv_call list \<Rightarrow>
   string option \<times> ('t, 'f, 'd) csv_call list" where
  "append_records host topic handles k [] log = (None, log)"
| "append_records host topic handles k ((ts, ps) # gs) log =
     (let log = log @ [AppendRecord topic ts (bound_fields handles ps)] in
      case ch_append host k of
        Some e \<Rightarrow> (Some e, log)
      | None \<Rightarrow> append_records host topic handles (k + 1) gs log)"

subsection \<open>The import\<close>

text \<open>What follows once the topic is there. The result is the error, if any, and the log.\<close>

definition write_columns ::
  "('t, 'f, 'd) csv_host \<Rightarrow> csv_config \<Rightarrow> 'd csv_outcome \<Rightarrow> 't \<Rightarrow> ('t, 'f, 'd) csv_call list \<Rightarrow>
   string option \<times> ('t, 'f, 'd) csv_call list" where
  "write_columns host cfg res topic log =
     (case ensure_fields host topic res False (number_columns cfg res) Map.empty (log @ mixed_warnings cfg res) of
        (Some e, handles, log) \<Rightarrow> (Some e, log)
      | (None, handles, log) \<Rightarrow>
          (case ensure_fields host topic res True (text_columns cfg res) handles log of
             (Some e, handles, log) \<Rightarrow> (Some e, log)
           | (None, handles, log) \<Rightarrow>
               (case append_records host topic handles 0 (group_points (sort_key dp_ts (import_points host cfg res))) log of
                  (Some e, log) \<Rightarrow> (Some e, log)
                | (None, log) \<Rightarrow>
                    (None, log @ [ReportInfo (''Imported '' @ nat_text (cr_processed res) @ '' rows, ''
                                    @ nat_text (cr_skipped res) @ '' skipped'')]))))"

definition topic_for :: "string \<Rightarrow> string" where
  "topic_for path = (let name = basename_without_ext path in if name = [] then ''data'' else name)"

definition import_result ::
  "('t, 'f, 'd) csv_host \<Rightarrow> csv_config \<Rightarrow> string \<Rightarrow> 'd csv_outcome \<Rightarrow> ('t, 'f, 'd) csv_call list \<Rightarrow>
   string option \<times> ('t, 'f, 'd) csv_call list" where
  "import_result host cfg path res log =
     (if \<not> cr_success res \<and> \<not> ch_stopped host then (Some ''CSV parsing failed'', log)
      else case (if ch_stopped host then (True, log) else ask_all host (questions res) log) of
        (False, log) \<Rightarrow> (Some ''Loading aborted by user'', log)
      | (True, log) \<Rightarrow>
          (let log = log @ [EnsureTopic (topic_for path)] in
           case ch_topic host (topic_for path) of
             Inl e \<Rightarrow> (Some e, log)
           | Inr topic \<Rightarrow> write_columns host cfg res topic log))"

text \<open>\<open>importData\<close>: \<open>filepath\<close> is None when the dialog's configuration is not JSON, \<open>file\<close> the files that
  open. The parser's row offset stays 0 and its line count is that of the file. None is the undefined read
  of \<open>parse_csv\<close>.\<close>

definition csv_import_config :: "csv_config \<Rightarrow> string \<Rightarrow> csv_config" where
  "csv_import_config cfg content = cfg\<lparr>cf_skip_rows := 0, cf_total_lines := int (length (stream_lines content))\<rparr>"

definition import_progress :: "('t, 'f, 'd) csv_host \<Rightarrow> progress" where
  "import_progress host = Some (\<lambda>line line_total. if ch_stop host line then False else ch_update host line)"

definition csv_import_data ::
  "'d csv_lib \<Rightarrow> 'd csv_clock \<Rightarrow> ('t, 'f, 'd) csv_host \<Rightarrow> csv_config \<Rightarrow> string option \<Rightarrow> (string \<Rightarrow> string option) \<Rightarrow>
   (string option \<times> ('t, 'f, 'd) csv_call list) option" where
  "csv_import_data lib clock host cfg filepath file =
     (case filepath of
        None \<Rightarrow> Some (Some ''invalid config'', [])
      | Some path \<Rightarrow>
          if path = [] then Some (Some ''no filepath configured'', [])
          else case file path of
            None \<Rightarrow> Some (Some (''cannot open file: '' @ path), [])
          | Some content \<Rightarrow>
              map_option (\<lambda>res. import_result host cfg path res
                  [ProgressStart ''Importing CSV'' (length (stream_lines content))])
                (parse_csv lib clock (csv_import_config cfg content) (import_progress host) content))"

subsection \<open>One record for each time\<close>

definition record_spec :: "'d data_point list \<Rightarrow> (int \<times> 'd data_point list) list" where
  "record_spec ps = map (\<lambda>t. (t, filter (\<lambda>p. dp_ts p = t) ps)) (sorted_list_of_set (dp_ts ` set ps))"

lemma split_at_time:
  assumes "sorted (map dp_ts ps)" "\<forall>q \<in> set ps. t \<le> dp_ts q"
  shows "takeWhile (\<lambda>q. dp_ts q = t) ps = filter (\<lambda>q. dp_ts q = t) ps
    \<and> dropWhile (\<lambda>q. dp_ts q = t) ps = filter (\<lambda>q. dp_ts q \<noteq> t) ps"
  using assms
proof (induction ps)
  case (Cons q ps)
  show ?case
  proof (cases "dp_ts q = t")
    case True with Cons show ?thesis by simp
  next
    case False
    with Cons.prems have "\<forall>r \<in> set (q # ps). dp_ts r \<noteq> t" by force
    then show ?thesis using False by (simp add: filter_empty_conv)
  qed
qed simp

lemma record_spec_first:
  assumes "p \<in> set ps" "\<forall>q \<in> set ps. dp_ts p \<le> dp_ts q"
  shows "record_spec ps = (dp_ts p, filter (\<lambda>q. dp_ts q = dp_ts p) ps) # record_spec (filter (\<lambda>q. dp_ts q \<noteq> dp_ts p) ps)"
proof -
  let ?times = "dp_ts ` set ps" and ?later = "dp_ts ` set (filter (\<lambda>q. dp_ts q \<noteq> dp_ts p) ps)"
  have least: "Min ?times = dp_ts p" using assms by (intro Min_eqI) auto
  have later: "?later = ?times - {dp_ts p}" by auto
  have times: "sorted_list_of_set ?times = dp_ts p # sorted_list_of_set ?later"
    using sorted_list_of_set_nonempty [of ?times] assms(1) unfolding least later by (cases ps) auto
  have same: "filter (\<lambda>q. dp_ts q = t) (filter (\<lambda>q. dp_ts q \<noteq> dp_ts p) ps) = filter (\<lambda>q. dp_ts q = t) ps"
    if "t \<in> ?later" for t
  proof -
    have "t \<noteq> dp_ts p" using that by auto
    then show ?thesis unfolding filter_filter by (intro filter_cong refl) metis
  qed
  have "map (\<lambda>t. (t, filter (\<lambda>q. dp_ts q = t) ps)) (sorted_list_of_set ?later)
      = record_spec (filter (\<lambda>q. dp_ts q \<noteq> dp_ts p) ps)"
    unfolding record_spec_def
  proof (rule map_cong [OF refl])
    fix t assume "t \<in> set (sorted_list_of_set ?later)"
    then have "t \<in> ?later" by (metis List.finite_set finite_imageI set_sorted_list_of_set)
    from same [OF this] show "(t, filter (\<lambda>q. dp_ts q = t) ps)
        = (t, filter (\<lambda>q. dp_ts q = t) (filter (\<lambda>q. dp_ts q \<noteq> dp_ts p) ps))" by simp
  qed
  then show ?thesis by (simp only: record_spec_def [of ps] times list.map)
qed

lemma group_points_sorted: "sorted (map dp_ts ps) \<Longrightarrow> group_points ps = record_spec ps"
proof (induction ps rule: group_points.induct)
  case (2 p ps)
  have least: "\<forall>q \<in> set (p # ps). dp_ts p \<le> dp_ts q" using 2(2) by simp
  note parts = split_at_time [OF 2(2) least]
  let ?now = "takeWhile (\<lambda>q. dp_ts q = dp_ts p) (p # ps)"
  have d: "drop (length ?now) (p # ps) = filter (\<lambda>q. dp_ts q \<noteq> dp_ts p) (p # ps)"
    using parts by (metis dropWhile_eq_drop)
  have "sorted (map dp_ts (filter (\<lambda>q. dp_ts q \<noteq> dp_ts p) (p # ps)))" using 2(2) by (intro sorted_filter)
  with 2(1) [OF refl] d have "group_points (drop (length ?now) (p # ps)) = record_spec (filter (\<lambda>q. dp_ts q \<noteq> dp_ts p) (p # ps))"
    by simp
  with parts d show ?case
    using record_spec_first [OF _ least, OF list.set_intros(1)] by (simp only: group_points.simps(2) [of p ps] Let_def)
qed (simp add: record_spec_def)

lemma record_spec_sort: "record_spec (sort_key dp_ts ps) = record_spec ps"
  by (simp add: record_spec_def sort_key_stable)

definition appended_records :: "('t, 'f, 'd) csv_call list \<Rightarrow> (int \<times> ('f \<times> ('d + string)) list) list" where
  "appended_records log = concat (map (\<lambda>c. case c of AppendRecord topic ts fs \<Rightarrow> [(ts, fs)] | _ \<Rightarrow> []) log)"

lemma appended_records_append [simp]:
  "appended_records (a @ b) = appended_records a @ appended_records b"
  "appended_records [] = []"
  "appended_records (c # log) = (case c of AppendRecord topic ts fs \<Rightarrow> [(ts, fs)] | _ \<Rightarrow> []) @ appended_records log"
  by (simp_all add: appended_records_def)

lemma ask_all_appended: "ask_all host qs log = (ok, log') \<Longrightarrow> appended_records log' = appended_records log"
  by (induction host qs log rule: ask_all.induct) (auto split: if_splits)

lemma ensure_fields_appended:
  "ensure_fields host topic res is_text is handles log = (e, handles', log') \<Longrightarrow> appended_records log' = appended_records log"
  by (induction "is" arbitrary: handles log) (auto simp: Let_def split: sum.splits)

lemma ensure_fields_handles:
  "ensure_fields host topic res is_text is handles log = (None, handles', log') \<Longrightarrow>
     handles' j = (if j \<in> set is then Some (projr (ch_field host topic (cc_name (cr_columns res ! j)) is_text)) else handles j)"
  by (induction "is" arbitrary: handles log) (auto simp: Let_def split: sum.splits if_splits)

lemma append_records_appended:
  "append_records host topic handles k gs log = (None, log') \<Longrightarrow>
     appended_records log' = appended_records log @ map (\<lambda>(ts, ps). (ts, bound_fields handles ps)) gs"
  by (induction gs arbitrary: k log) (auto simp: Let_def split: option.splits)

lemma mixed_warnings_appended [simp]: "appended_records (mixed_warnings cfg res) = []"
proof -
  have "list_all (\<lambda>c. \<exists>a b. c = ShowWarning a b) (mixed_warnings cfg res)"
    by (auto simp: mixed_warnings_def list_all_iff Let_def split: if_splits)
  then show ?thesis by (induction "mixed_warnings cfg res") (auto simp: appended_records_def list_all_iff)
qed

text \<open>The handle the host gave for a column.\<close>

definition column_handle :: "('t, 'f, 'd) csv_host \<Rightarrow> 't \<Rightarrow> 'd csv_outcome \<Rightarrow> nat \<Rightarrow> 'f" where
  "column_handle host topic res i = projr (ch_field host topic (cc_name (cr_columns res ! i)) (is_text_column res i))"

lemma import_points_columns:
  "p \<in> set (import_points host cfg res) \<Longrightarrow> dp_col p \<in> set (number_columns cfg res) \<union> set (text_columns cfg res)"
  by (auto simp: import_points_def)

subsection \<open>The data of the columns, column by column\<close>

text \<open>The reference, written from the result of the parser alone. The columns are those that are not the time axis. One
  with a number is a column of numbers, and only its numbers are written; one without is a column of texts. A record of a time
  has the values at that time, the columns of numbers first, in the order of the columns and then of the rows.\<close>

definition value_columns :: "csv_config \<Rightarrow> 'd csv_outcome \<Rightarrow> nat list" where
  "value_columns cfg res =
     [i \<leftarrow> [0..<length (cr_columns res)]. int i \<noteq> cf_time_column cfg \<and> int i \<notin> cr_combined res]"

definition column_values :: "'d csv_column \<Rightarrow> ('d \<times> ('d + string)) list" where
  "column_values col =
     (if cc_numeric col \<noteq> [] then map (\<lambda>(t, v). (t, Inl v)) (cc_numeric col) else map (\<lambda>(t, s). (t, Inr s)) (cc_strings col))"

definition record_order :: "csv_config \<Rightarrow> 'd csv_outcome \<Rightarrow> nat list" where
  "record_order cfg res =
     filter (\<lambda>i. cc_numeric (cr_columns res ! i) \<noteq> []) (value_columns cfg res)
     @ filter (\<lambda>i. cc_numeric (cr_columns res ! i) = []) (value_columns cfg res)"

definition record_times :: "('t, 'f, 'd) csv_host \<Rightarrow> csv_config \<Rightarrow> 'd csv_outcome \<Rightarrow> int set" where
  "record_times host cfg res =
     (\<Union>i \<in> set (value_columns cfg res). (\<lambda>(t, x). ch_ns host t) ` set (column_values (cr_columns res ! i)))"

definition record_at ::
  "('t, 'f, 'd) csv_host \<Rightarrow> csv_config \<Rightarrow> 'd csv_outcome \<Rightarrow> 't \<Rightarrow> int \<Rightarrow> ('f \<times> ('d + string)) list" where
  "record_at host cfg res topic now =
     concat (map (\<lambda>i. map (\<lambda>(t, x). (column_handle host topic res i, x))
                    (filter (\<lambda>(t, x). ch_ns host t = now) (column_values (cr_columns res ! i)))) (record_order cfg res))"

text \<open>The texts that are dropped, and the warnings owed for them.\<close>

definition dropped_texts :: "csv_config \<Rightarrow> 'd csv_outcome \<Rightarrow> (string \<times> nat) list" where
  "dropped_texts cfg res =
     [(cc_name col, length (cc_strings col)). col \<leftarrow> map ((!) (cr_columns res)) (value_columns cfg res), cc_numeric col \<noteq> [] \<and> cc_strings col \<noteq> []]"

definition shown_warnings :: "('t, 'f, 'd) csv_call list \<Rightarrow> (string \<times> string) list" where
  "shown_warnings log = concat (map (\<lambda>c. case c of ShowWarning title detail \<Rightarrow> [(title, detail)] | _ \<Rightarrow> []) log)"

definition dropped_warning :: "string \<times> nat \<Rightarrow> string \<times> string" where
  "dropped_warning e =
     (''Mixed Column Type'', ''Column '' @ [CHR 0x27] @ fst e @ [CHR 0x27] @ '' has '' @ nat_text (snd e)
        @ '' non-numeric cells that were skipped.'')"

lemma value_columns_data: "value_columns cfg res = data_columns cfg res"
  unfolding value_columns_def data_columns_def by (rule filter_cong [OF refl]) (auto simp: is_data_column_def)

text \<open>The points of the model are the values of the columns in that order.\<close>

definition value_points :: "('t, 'f, 'd) csv_host \<Rightarrow> 'd csv_outcome \<Rightarrow> nat \<Rightarrow> 'd data_point list" where
  "value_points host res i =
     map (\<lambda>(t, x). \<lparr>dp_ts = ch_ns host t, dp_col = i, dp_value = x\<rparr>) (column_values (cr_columns res ! i))"

lemma number_columns_values:
  "concat (map (\<lambda>i. map (\<lambda>(t, v). \<lparr>dp_ts = ch_ns host t, dp_col = i, dp_value = Inl v\<rparr>) (cc_numeric (cr_columns res ! i))) (number_columns cfg res))
    = concat (map (value_points host res) (filter (\<lambda>i. cc_numeric (cr_columns res ! i) \<noteq> []) (value_columns cfg res)))"
proof -
  have "concat (map (\<lambda>i. map (\<lambda>(t, v). \<lparr>dp_ts = ch_ns host t, dp_col = i, dp_value = Inl v\<rparr>) (cc_numeric (cr_columns res ! i)))
          (filter (\<lambda>i. \<not> is_text_column res i) is))
      = concat (map (value_points host res) (filter (\<lambda>i. cc_numeric (cr_columns res ! i) \<noteq> []) is))" for "is"
    by (induction "is") (auto simp: is_text_column_def value_points_def column_values_def)
  then show ?thesis by (simp add: number_columns_def value_columns_data)
qed

lemma text_columns_values:
  "concat (map (\<lambda>i. map (\<lambda>(t, s). \<lparr>dp_ts = ch_ns host t, dp_col = i, dp_value = Inr s\<rparr>) (cc_strings (cr_columns res ! i))) (text_columns cfg res))
    = concat (map (value_points host res) (filter (\<lambda>i. cc_numeric (cr_columns res ! i) = []) (value_columns cfg res)))"
proof -
  have "concat (map (\<lambda>i. map (\<lambda>(t, s). \<lparr>dp_ts = ch_ns host t, dp_col = i, dp_value = Inr s\<rparr>) (cc_strings (cr_columns res ! i)))
          (filter (is_text_column res) is))
      = concat (map (value_points host res) (filter (\<lambda>i. cc_numeric (cr_columns res ! i) = []) is))" for "is"
    by (induction "is") (auto simp: is_text_column_def value_points_def column_values_def)
  then show ?thesis by (simp add: text_columns_def value_columns_data)
qed

lemma import_points_values: "import_points host cfg res = concat (map (value_points host res) (record_order cfg res))"
  by (simp add: import_points_def number_columns_values text_columns_values record_order_def)

lemma import_points_times: "dp_ts ` set (import_points host cfg res) = record_times host cfg res"
proof -
  have "dp_ts ` set (value_points host res i) = (\<lambda>(t, x). ch_ns host t) ` set (column_values (cr_columns res ! i))" for i
    by (force simp: value_points_def)
  moreover have "set (record_order cfg res) = set (value_columns cfg res)" by (auto simp: record_order_def)
  ultimately show ?thesis by (simp add: import_points_values record_times_def image_UN)
qed

lemma import_points_at:
  "map (\<lambda>p. (column_handle host topic res (dp_col p), dp_value p)) (filter (\<lambda>p. dp_ts p = now) (import_points host cfg res))
    = record_at host cfg res topic now"
proof -
  have "map (\<lambda>p. (column_handle host topic res (dp_col p), dp_value p)) (filter (\<lambda>p. dp_ts p = now) (value_points host res i))
      = map (\<lambda>(t, x). (column_handle host topic res i, x)) (filter (\<lambda>(t, x). ch_ns host t = now) (column_values (cr_columns res ! i)))" for i
    unfolding value_points_def by (induction "column_values (cr_columns res ! i)") (auto simp: filter_map comp_def case_prod_beta)
  then have "map (\<lambda>p. (column_handle host topic res (dp_col p), dp_value p)) (filter (\<lambda>p. dp_ts p = now) (concat (map (value_points host res) is)))
      = concat (map (\<lambda>i. map (\<lambda>(t, x). (column_handle host topic res i, x))
                    (filter (\<lambda>(t, x). ch_ns host t = now) (column_values (cr_columns res ! i)))) is)" for "is"
    by (induction "is") simp_all
  then show ?thesis by (simp add: import_points_values record_at_def)
qed

lemma shown_warnings_append [simp]:
  "shown_warnings (a @ b) = shown_warnings a @ shown_warnings b" "shown_warnings [] = []"
  "shown_warnings (c # log) = (case c of ShowWarning title detail \<Rightarrow> [(title, detail)] | _ \<Rightarrow> []) @ shown_warnings log"
  by (simp_all add: shown_warnings_def)

lemma ask_all_shown: "ask_all host qs log = (ok, log') \<Longrightarrow> shown_warnings log' = shown_warnings log"
  by (induction host qs log rule: ask_all.induct) (auto split: if_splits)

lemma ensure_fields_shown:
  "ensure_fields host topic res is_text is handles log = (e, handles', log') \<Longrightarrow> shown_warnings log' = shown_warnings log"
  by (induction "is" arbitrary: handles log) (auto simp: Let_def split: sum.splits)

lemma append_records_shown: "append_records host topic handles k gs log = (e, log') \<Longrightarrow> shown_warnings log' = shown_warnings log"
  by (induction gs arbitrary: k log) (auto simp: Let_def split: option.splits)

lemma mixed_warnings_shown: "shown_warnings (mixed_warnings cfg res) = map dropped_warning (dropped_texts cfg res)"
proof -
  have "shown_warnings (concat (map (\<lambda>i. let col = cr_columns res ! i in
         if cc_numeric col \<noteq> [] \<and> cc_strings col \<noteq> []
         then [ShowWarning ''Mixed Column Type''
                 (''Column '' @ [CHR 0x27] @ cc_name col @ [CHR 0x27] @ '' has '' @ nat_text (length (cc_strings col))
                  @ '' non-numeric cells that were skipped.'')]
         else []) is))
      = map dropped_warning [(cc_name col, length (cc_strings col)). col \<leftarrow> map ((!) (cr_columns res)) is, cc_numeric col \<noteq> [] \<and> cc_strings col \<noteq> []]" for "is"
    by (induction "is") (simp_all add: Let_def dropped_warning_def)
  then show ?thesis by (simp add: mixed_warnings_def dropped_texts_def value_columns_data)
qed

text \<open>C22. An import that succeeds writes its data completely and in order: one record, with strictly increasing times, for each
  time at which a column that is not the time axis has a value, holding all the values of that time under the handles
  the host gave for their columns, and nothing else. The values of a column are its numbers, or its texts when it has
  no number; the texts of a column that has both are not written, and then one warning, in the order of the columns,
  names the column and the number of texts left out. No other warning is shown.\<close>

theorem import_writes_every_point:
  assumes "csv_import_data lib clock host cfg (Some path) file = Some (None, log)"
  shows "\<exists>content res topic.
      file path = Some content
    \<and> parse_csv lib clock (csv_import_config cfg content) (import_progress host) content = Some res
    \<and> ch_topic host (topic_for path) = Inr topic
    \<and> appended_records log = map (\<lambda>now. (now, record_at host cfg res topic now)) (sorted_list_of_set (record_times host cfg res))
    \<and> shown_warnings log = map dropped_warning (dropped_texts cfg res)"
proof -
  from assms obtain content res where c: "file path = Some content"
    "parse_csv lib clock (csv_import_config cfg content) (import_progress host) content = Some res"
    and r: "import_result host cfg path res [ProgressStart ''Importing CSV'' (length (stream_lines content))] = (None, log)"
    by (auto simp: csv_import_data_def split: option.splits if_splits)
  obtain ok log0 where q: "(if ch_stopped host then (True, [ProgressStart ''Importing CSV'' (length (stream_lines content))])
      else ask_all host (questions res) [ProgressStart ''Importing CSV'' (length (stream_lines content))]) = (ok, log0)"
    by fastforce
  then have l0: "appended_records log0 = [] \<and> shown_warnings log0 = []"
    using ask_all_appended ask_all_shown by (fastforce split: if_splits)
  from r have "ok" unfolding import_result_def q by (cases ok) (auto split: if_splits)
  with r obtain topic where t: "ch_topic host (topic_for path) = Inr topic"
    and w: "write_columns host cfg res topic (log0 @ [EnsureTopic (topic_for path)]) = (None, log)"
    unfolding import_result_def q by (auto simp: Let_def split: if_splits sum.splits)
  let ?log1 = "log0 @ [EnsureTopic (topic_for path)]"
  have l1: "appended_records ?log1 = []" "shown_warnings ?log1 = []" using l0 by simp_all
  from w obtain h1 log2 h2 log3 log4 where
    e1: "ensure_fields host topic res False (number_columns cfg res) Map.empty (?log1 @ mixed_warnings cfg res) = (None, h1, log2)"
    and e2: "ensure_fields host topic res True (text_columns cfg res) h1 log2 = (None, h2, log3)"
    and a: "append_records host topic h2 0 (group_points (sort_key dp_ts (import_points host cfg res))) log3 = (None, log4)"
    and l: "appended_records log = appended_records log4" "shown_warnings log = shown_warnings log4"
    by (auto simp: write_columns_def split: prod.splits option.splits)
  have handles: "the (h2 (dp_col p)) = column_handle host topic res (dp_col p)" if "p \<in> set (import_points host cfg res)" for p
    using import_points_columns [OF that] ensure_fields_handles [OF e1, of "dp_col p"] ensure_fields_handles [OF e2, of "dp_col p"]
    by (auto simp: column_handle_def number_columns_def text_columns_def)
  have groups: "group_points (sort_key dp_ts (import_points host cfg res)) = record_spec (import_points host cfg res)"
    by (simp add: group_points_sorted record_spec_sort)
  have "appended_records log = map (\<lambda>(ts, ps). (ts, bound_fields h2 ps)) (record_spec (import_points host cfg res))"
    using l(1) append_records_appended [OF a] ensure_fields_appended [OF e1] ensure_fields_appended [OF e2] l1 by (simp add: groups)
  also have "\<dots> = map (\<lambda>(t, ps). (t, map (\<lambda>p. (column_handle host topic res (dp_col p), dp_value p)) ps))
      (record_spec (import_points host cfg res))"
    using handles by (auto simp: record_spec_def bound_fields_def)
  also have "\<dots> = map (\<lambda>now. (now, record_at host cfg res topic now)) (sorted_list_of_set (record_times host cfg res))"
    by (simp add: record_spec_def import_points_times import_points_at)
  finally have "appended_records log = map (\<lambda>now. (now, record_at host cfg res topic now)) (sorted_list_of_set (record_times host cfg res))" .
  moreover have "shown_warnings log = map dropped_warning (dropped_texts cfg res)"
    using l append_records_shown [OF a] ensure_fields_shown [OF e1] ensure_fields_shown [OF e2] l1 by (simp add: mixed_warnings_shown)
  ultimately show ?thesis using c t by blast
qed

text \<open>A host that answers yes, and the import of the sample file.\<close>

definition sample_csv_host :: "(string, string, int) csv_host" where
  "sample_csv_host = \<lparr>ch_stop = (\<lambda>n. False), ch_update = (\<lambda>n. True), ch_stopped = False, ch_ask = (\<lambda>q. True),
     ch_topic = Inr, ch_field = (\<lambda>t n k. Inr n), ch_append = (\<lambda>n. None), ch_ns = (\<lambda>t. t * 1000)\<rparr>"

definition sample_csv_log :: "(string, string, int) csv_call list" where
  "sample_csv_log = snd (the (csv_import_data sample_lib sample_clock sample_csv_host (csv_sample_config\<lparr>cf_skip_rows := 0\<rparr>)
     (Some ''/data/run.csv'') (\<lambda>path. Some (drop 4 sample_file))))"

text \<open>The sample file has a number and a text in its second column: the text is left out, and the warning says so.\<close>

theorem import_writes_every_point_witness:
  "appended_records sample_csv_log = [(5000, [(''v'', Inl 7)])]
    \<and> map fst (shown_warnings sample_csv_log) = [''Mixed Column Type'']
    \<and> (\<exists>res. appended_records sample_csv_log
        = map (\<lambda>now. (now, record_at sample_csv_host (csv_sample_config\<lparr>cf_skip_rows := 0\<rparr>) res ''run'' now))
            (sorted_list_of_set (record_times sample_csv_host (csv_sample_config\<lparr>cf_skip_rows := 0\<rparr>) res))
        \<and> shown_warnings sample_csv_log = map dropped_warning (dropped_texts (csv_sample_config\<lparr>cf_skip_rows := 0\<rparr>) res))"
proof -
  let ?cfg = "csv_sample_config\<lparr>cf_skip_rows := 0\<rparr>"
  have "fst (the (csv_import_data sample_lib sample_clock sample_csv_host ?cfg
     (Some ''/data/run.csv'') (\<lambda>path. Some (drop 4 sample_file)))) = None"
    "csv_import_data sample_lib sample_clock sample_csv_host ?cfg
     (Some ''/data/run.csv'') (\<lambda>path. Some (drop 4 sample_file)) \<noteq> None"
    by code_simp+
  then have "csv_import_data sample_lib sample_clock sample_csv_host ?cfg
     (Some ''/data/run.csv'') (\<lambda>path. Some (drop 4 sample_file)) = Some (None, sample_csv_log)"
    by (auto simp: sample_csv_log_def)
  from import_writes_every_point [OF this] obtain res topic where
    t: "ch_topic sample_csv_host (topic_for ''/data/run.csv'') = Inr topic"
    and r: "appended_records sample_csv_log
        = map (\<lambda>now. (now, record_at sample_csv_host ?cfg res topic now)) (sorted_list_of_set (record_times sample_csv_host ?cfg res))
      \<and> shown_warnings sample_csv_log = map dropped_warning (dropped_texts ?cfg res)" by blast
  have "ch_topic sample_csv_host (topic_for ''/data/run.csv'') = Inr ''run''" by code_simp
  with t have "topic = ''run''" by simp
  moreover have "appended_records sample_csv_log = [(5000, [(''v'', Inl 7)])]" by code_simp
  moreover have "map fst (shown_warnings sample_csv_log) = [''Mixed Column Type'']" by code_simp
  ultimately show ?thesis using r by blast
qed

end
