(* ===== verification/WhepClient.thy ===== *)
theory WhepClient
  imports Json
begin

section \<open>The WHEP client (data_stream_webrtc/whep_client.cpp)\<close>

text \<open>
  The HTTP side of the WebRTC streamer: the URLs, the answer to an offer with its checks, the list of streams,
  and the count of a response's bytes. An HTTP call is a function from the request to the response, a
  parameter, as is the parser of JSON text. Facts shown: the URL of a session, to which the bearer token is
  sent again, has the origin of the server the offer went to; the list of streams takes at most ten requests
  and two thousand entries; the byte count stays refused once the cap is passed.
\<close>

subsection \<open>URLs\<close>

definition max_response_bytes :: nat where "max_response_bytes = 8 * 1024 * 1024"

definition token_sane :: "string \<Rightarrow> bool" where
  "token_sane t \<longleftrightarrow> list_all (\<lambda>c. \<not> (of_char c < (0x21 :: nat) \<or> of_char c = (0x7F :: nat))) t"

definition trim_blanks :: "string \<Rightarrow> string" where
  "trim_blanks t = (let blank = (\<lambda>c. c = CHR '' '' \<or> c = CHR 0x09) in rev (dropWhile blank (rev (dropWhile blank t))))"

definition lower :: "char \<Rightarrow> char" where
  "lower c = (if is_upper c then char_of (of_char c + 32 :: nat) else c)"

definition media_type_of :: "string \<Rightarrow> string" where
  "media_type_of content_type = map lower (trim_blanks (takeWhile (\<lambda>c. c \<noteq> CHR '';'') content_type))"

definition scheme_mark :: string where "scheme_mark = ''://''"

text \<open>The origin: the URL up to the first slash after the scheme.\<close>

definition origin_of :: "string \<Rightarrow> string" where
  "origin_of url =
     (case find_str scheme_mark url 0 of
        None \<Rightarrow> []
      | Some e \<Rightarrow> (case find_from CHR ''/'' url (e + 3) of None \<Rightarrow> url | Some p \<Rightarrow> take p url))"

definition strip_slashes_back :: "string \<Rightarrow> string" where
  "strip_slashes_back s = rev (dropWhile (\<lambda>c. c = CHR ''/'') (rev s))"

definition build_whep_url :: "string \<Rightarrow> string \<Rightarrow> string" where
  "build_whep_url server path =
     strip_slashes_back server @ ''/'' @ dropWhile (\<lambda>c. c = CHR ''/'') path @ ''/whep''"

definition last_slash :: "string \<Rightarrow> nat option" where
  "last_slash s =
     (if CHR ''/'' \<in> set s then Some (length s - 1 - length (takeWhile (\<lambda>c. c \<noteq> CHR ''/'') (rev s))) else None)"

definition resolve_location :: "string \<Rightarrow> string \<Rightarrow> string" where
  "resolve_location request_url location =
     (if find_str scheme_mark location 0 \<noteq> None then location
      else case find_str scheme_mark request_url 0 of
        None \<Rightarrow> location
      | Some e \<Rightarrow>
          if location \<noteq> [] \<and> hd location = CHR ''/''
          then (case find_from CHR ''/'' request_url (e + 3) of None \<Rightarrow> request_url | Some p \<Rightarrow> take p request_url) @ location
          else (case last_slash request_url of
                  None \<Rightarrow> request_url @ ''/'' @ location
                | Some l \<Rightarrow> if l < e + 3 then request_url @ ''/'' @ location else take (l + 1) request_url @ location))"

subsection \<open>Counting the bytes of a response\<close>

record byte_counter =
  bc_cap :: nat
  bc_banked :: nat
  bc_last :: nat
  bc_last_total :: int
  bc_exceeded :: bool

definition new_counter :: "nat \<Rightarrow> byte_counter" where
  "new_counter cap = \<lparr>bc_cap = cap, bc_banked = 0, bc_last = 0, bc_last_total = - 1, bc_exceeded = False\<rparr>"

definition counter_accept :: "int \<Rightarrow> int \<Rightarrow> byte_counter \<Rightarrow> bool \<times> byte_counter" where
  "counter_accept current whole bc =
     (if bc_exceeded bc \<or> current < 0 then (False, bc\<lparr>bc_exceeded := True\<rparr>)
      else let cur = nat current;
               banked = (if cur < bc_last bc \<or> whole \<noteq> bc_last_total bc then bc_banked bc + bc_last bc else bc_banked bc);
               exceeded = (banked + cur > bc_cap bc)
           in (\<not> exceeded, bc\<lparr>bc_banked := banked, bc_last := cur, bc_last_total := whole, bc_exceeded := exceeded\<rparr>))"

subsection \<open>Requests and answers\<close>

datatype http_verb = HttpPost | HttpGet | HttpDelete

record http_request =
  rq_verb :: http_verb
  rq_url :: string
  rq_body :: string
  rq_headers :: "(string \<times> string) list"
  rq_timeout :: int

datatype http_code = HttpOk | HttpTimeout | HttpOther

text \<open>A response; header names are looked up without regard to case by the library.\<close>

record http_response =
  rs_code :: http_code
  rs_status :: int
  rs_message :: string
  rs_body :: string
  rs_header :: "string \<Rightarrow> string option"

datatype whep_error_kind = WUnauthorized | WNotFound | WTimeout | WNetwork | WBadResponse

record whep_error =
  we_kind :: whep_error_kind
  we_message :: string

record whep_result =
  wr_answer_sdp :: string
  wr_session_url :: string

text \<open>What \<open>makeArgs\<close> sets: the timeout, at least a second, and the authorization.\<close>

definition make_request :: "http_verb \<Rightarrow> string \<Rightarrow> string \<Rightarrow> string \<Rightarrow> int \<Rightarrow> http_request" where
  "make_request verb url body token timeout =
     \<lparr>rq_verb = verb, rq_url = url, rq_body = body,
      rq_headers = (if token \<noteq> [] then [(''Authorization'', ''Bearer '' @ token)] else []),
      rq_timeout = max 1 timeout\<rparr>"

definition error_from_response :: "http_response option \<Rightarrow> whep_error" where
  "error_from_response res =
     (case res of
        None \<Rightarrow> \<lparr>we_kind = WNetwork, we_message = ''no response''\<rparr>
      | Some r \<Rightarrow>
          if rs_code r \<noteq> HttpOk
          then \<lparr>we_kind = (if rs_code r = HttpTimeout then WTimeout else WNetwork), we_message = rs_message r\<rparr>
          else if rs_status r = 401 \<or> rs_status r = 403
          then \<lparr>we_kind = WUnauthorized, we_message = ''HTTP '' @ int_text (rs_status r)\<rparr>
          else if rs_status r = 404
          then \<lparr>we_kind = WNotFound, we_message = ''HTTP 404 (no publisher on this path yet?)''\<rparr>
          else \<lparr>we_kind = WBadResponse, we_message = ''HTTP '' @ int_text (rs_status r)\<rparr>)"

definition bad_response :: "string \<Rightarrow> whep_error" where
  "bad_response message = \<lparr>we_kind = WBadResponse, we_message = message\<rparr>"

text \<open>The checks on an answer with a good status: its type, its body, and the URL of the session.\<close>

definition check_location :: "string \<Rightarrow> http_response \<Rightarrow> whep_error + whep_result" where
  "check_location whep_url r =
     (if rs_body r = [] then Inl (bad_response ''empty answer SDP'')
      else case rs_header r ''Location'' of
        None \<Rightarrow> Inl (bad_response ''missing Location header'')
      | Some loc \<Rightarrow>
          if loc = [] then Inl (bad_response ''missing Location header'')
          else if find_str scheme_mark loc 0 \<noteq> None \<and> origin_of loc \<noteq> origin_of whep_url
          then Inl (bad_response ''cross-origin session URL rejected'')
          else Inr \<lparr>wr_answer_sdp = rs_body r, wr_session_url = resolve_location whep_url loc\<rparr>)"

definition check_answer :: "string \<Rightarrow> http_response \<Rightarrow> whep_error + whep_result" where
  "check_answer whep_url r =
     (if length (rs_body r) > max_response_bytes then Inl (bad_response ''response body too large'')
      else case rs_header r ''Content-Type'' of
        Some ct \<Rightarrow>
          if media_type_of ct \<noteq> ''application/sdp''
          then Inl (bad_response (''unexpected answer Content-Type: '' @ ct)) else check_location whep_url r
      | None \<Rightarrow> check_location whep_url r)"

text \<open>\<open>http\<close> is the library's call; a handle that is aborted during it makes it answer with an error.\<close>

type_synonym http = "http_request \<Rightarrow> http_response option"

definition post_offer ::
  "http \<Rightarrow> bool \<Rightarrow> string \<Rightarrow> string \<Rightarrow> string \<Rightarrow> int \<Rightarrow> (whep_error + whep_result) \<times> http_request list" where
  "post_offer http aborted whep_url token offer timeout =
     (if aborted then (Inl \<lparr>we_kind = WNetwork, we_message = ''aborted''\<rparr>, [])
      else if token \<noteq> [] \<and> \<not> token_sane token
      then (Inl \<lparr>we_kind = WUnauthorized, we_message = ''invalid bearer token''\<rparr>, [])
      else let rq = make_request HttpPost whep_url offer token timeout;
               rq = rq\<lparr>rq_headers := rq_headers rq @ [(''Content-Type'', ''application/sdp'')]\<rparr>
           in (case http rq of
                 None \<Rightarrow> Inl (error_from_response None)
               | Some r \<Rightarrow>
                   if rs_code r \<noteq> HttpOk \<or> rs_status r \<noteq> 201 \<and> rs_status r \<noteq> 200
                   then Inl (error_from_response (Some r)) else check_answer whep_url r, [rq]))"

text \<open>The requests \<open>deleteSession\<close> makes.\<close>

definition delete_session :: "string \<Rightarrow> string \<Rightarrow> int \<Rightarrow> http_request list" where
  "delete_session session_url token timeout =
     (if token \<noteq> [] \<and> \<not> token_sane token then [] else [make_request HttpDelete session_url [] token timeout])"

subsection \<open>The list of streams\<close>

record path_info =
  pi_name :: string
  pi_ready :: bool
  pi_tracks :: "string list"

definition max_pages :: nat where "max_pages = 10"
definition max_items :: nat where "max_items = 2000"

definition string_items :: "json list \<Rightarrow> string list" where
  "string_items xs = concat (map (\<lambda>j. case j of JString s \<Rightarrow> [s] | _ \<Rightarrow> []) xs)"

text \<open>One entry; None when a field has the wrong type, which the code catches and passes over.\<close>

definition read_path :: "json \<Rightarrow> path_info option" where
  "read_path item =
     (if \<not> is_object item then None
      else case value_string ''name'' [] item of
        None \<Rightarrow> None
      | Some name \<Rightarrow>
          (case value_bool ''ready'' False item of
             None \<Rightarrow> None
           | Some ready \<Rightarrow>
               Some \<lparr>pi_name = name, pi_ready = ready,
                     pi_tracks = (case json_array ''tracks'' item of None \<Rightarrow> [] | Some ts \<Rightarrow> string_items ts)\<rparr>))"

fun collect_paths :: "path_info list \<Rightarrow> json list \<Rightarrow> path_info list" where
  "collect_paths paths [] = paths"
| "collect_paths paths (item # items) =
     (if length paths \<ge> max_items then paths
      else case read_path item of
        None \<Rightarrow> collect_paths paths items
      | Some info \<Rightarrow> collect_paths (if pi_name info \<noteq> [] then paths @ [info] else paths) items)"

definition page_count_of :: "json \<Rightarrow> int \<Rightarrow> int" where
  "page_count_of doc dflt = (case json_find ''pageCount'' doc of Some (JInt i) \<Rightarrow> signed_take_bit 31 i | _ \<Rightarrow> dflt)"

text \<open>The loop over the pages; \<open>aborted\<close> is the handle as the page's check finds it, \<open>parse\<close> the JSON parser.\<close>

function fetch_pages ::
  "http \<Rightarrow> (string \<Rightarrow> json option) \<Rightarrow> (nat \<Rightarrow> bool) \<Rightarrow> string \<Rightarrow> string \<Rightarrow> int \<Rightarrow> nat \<Rightarrow> int \<Rightarrow> path_info list \<Rightarrow>
   http_request list \<Rightarrow> (whep_error + path_info list) \<times> http_request list" where
  "fetch_pages http parse aborted list_url token timeout page page_count paths sent =
     (if \<not> (int page < page_count \<and> page < max_pages) then (Inr paths, sent)
      else if aborted page then (Inl \<lparr>we_kind = WNetwork, we_message = ''aborted''\<rparr>, sent)
      else let rq = make_request HttpGet (list_url @ ''?page='' @ nat_text page) [] token timeout; sent = sent @ [rq] in
        case http rq of
          None \<Rightarrow> (Inl (error_from_response None), sent)
        | Some r \<Rightarrow>
            if rs_code r \<noteq> HttpOk \<or> rs_status r \<noteq> 200 then (Inl (error_from_response (Some r)), sent)
            else if length (rs_body r) > max_response_bytes then (Inl (bad_response ''response body too large''), sent)
            else case Option.bind (parse (rs_body r)) (\<lambda>doc. map_option (Pair doc) (json_array ''items'' doc)) of
              None \<Rightarrow> (Inl (bad_response ''unexpected /v3/paths/list JSON''), sent)
            | Some (doc, items) \<Rightarrow>
                (let page_count = (if page = 0 then page_count_of doc page_count else page_count);
                     paths = collect_paths paths items
                 in if length paths \<ge> max_items then (Inr paths, sent)
                    else fetch_pages http parse aborted list_url token timeout (page + 1) page_count paths sent))"
  by pat_completeness auto
termination
  by (relation "measure (\<lambda>(http, parse, aborted, list_url, token, timeout, page, page_count, paths, sent). max_pages - page)") auto

declare fetch_pages.simps [simp del]

definition fetch_paths_list ::
  "http \<Rightarrow> (string \<Rightarrow> json option) \<Rightarrow> (nat \<Rightarrow> bool) \<Rightarrow> string \<Rightarrow> string \<Rightarrow> int \<Rightarrow>
   (whep_error + path_info list) \<times> http_request list" where
  "fetch_paths_list http parse aborted api_url token timeout =
     (if token \<noteq> [] \<and> \<not> token_sane token
      then (Inl \<lparr>we_kind = WUnauthorized, we_message = ''invalid bearer token''\<rparr>, [])
      else fetch_pages http parse aborted (strip_slashes_back api_url @ ''/v3/paths/list'') token timeout 0 1 [] [])"

subsection \<open>The session stays on the server\<close>

lemma find_in_append: "find_in p n s = Some j \<Longrightarrow> find_in p n (s @ t) = Some j"
proof (induction p n s arbitrary: j rule: find_in.induct)
  case (1 p n)
  then have "p = [] \<and> j = n" by (simp split: if_splits)
  then show ?case by (cases t) auto
next
  case (2 p n c cs)
  show ?case
  proof (cases "take (length p) (c # cs) = p")
    case True
    then have "length p \<le> length (c # cs)" by (metis length_take min.cobounded1)
    then have "take (length p) ((c # cs) @ t) = take (length p) (c # cs)" by (simp add: take_append del: append_Cons)
    with True have "take (length p) (c # cs @ t) = p" by simp
    with True 2 show ?thesis by simp
  next
    case False
    with 2 have s: "find_in p (Suc n) cs = Some j" by simp
    show ?thesis
    proof (cases "take (length p) (c # cs @ t) = p")
      case True
      from find_in_Some [OF s] obtain a b where "cs = a @ p @ b" by blast
      then have "length p \<le> length cs" by simp
      then have "take (length p) ((c # cs) @ t) = take (length p) (c # cs)" by (simp add: take_append del: append_Cons)
      with True False show ?thesis by simp
    next
      case no: False
      from 2(1) [OF False s] no show ?thesis by simp
    qed
  qed
qed

lemma find_str_extend: "find_str p s 0 = Some j \<Longrightarrow> find_str p (s @ t) 0 = Some j"
  by (simp add: find_str_def find_in_append)

lemma find_from_append: "find_from c s k = Some j \<Longrightarrow> find_from c (s @ t) k = Some j"
proof -
  assume f: "find_from c s k = Some j"
  then have j: "j = k + length (takeWhile (\<lambda>x. x \<noteq> c) (drop k s))" "j < length s"
    by (auto simp: find_from_def scan_while_def Let_def split: if_splits)
  then have k: "k \<le> length s" by simp
  have "takeWhile (\<lambda>x. x \<noteq> c) (drop k s) \<noteq> drop k s" using j by (metis length_drop le_add_diff_inverse k nat_neq_iff)
  then have "\<exists>x \<in> set (drop k s). \<not> x \<noteq> c" using takeWhile_eq_all_conv [of "\<lambda>x. x \<noteq> c" "drop k s"] by blast
  then have "takeWhile (\<lambda>x. x \<noteq> c) (drop k s @ t) = takeWhile (\<lambda>x. x \<noteq> c) (drop k s)"
    by (auto simp: takeWhile_append1)
  with j k show ?thesis by (simp add: find_from_def scan_while_def)
qed

lemma find_from_member: "c \<in> set (drop k s) \<Longrightarrow> \<exists>j. find_from c s k = Some j"
proof -
  assume c: "c \<in> set (drop k s)"
  then have "takeWhile (\<lambda>x. x \<noteq> c) (drop k s) \<noteq> drop k s" using takeWhile_eq_all_conv [of "\<lambda>x. x \<noteq> c" "drop k s"] by blast
  then have "length (takeWhile (\<lambda>x. x \<noteq> c) (drop k s)) \<noteq> length (drop k s)" by (metis takeWhile_eq_take take_all order_refl)
  with length_takeWhile_le [of "\<lambda>x. x \<noteq> c" "drop k s"] c
  have "length (takeWhile (\<lambda>x. x \<noteq> c) (drop k s)) < length (drop k s)" by simp
  then show ?thesis by (auto simp: find_from_def scan_while_def Let_def)
qed

lemma find_from_absent: "c \<notin> set (drop k s) \<Longrightarrow> find_from c s k = None"
proof -
  assume "c \<notin> set (drop k s)"
  then have "takeWhile (\<lambda>x. x \<noteq> c) (drop k s) = drop k s" by (simp add: takeWhile_eq_all_conv) metis
  then have "length (takeWhile (\<lambda>x. x \<noteq> c) (drop k s)) = length s - k" by (simp only: length_drop)
  then show ?thesis unfolding find_from_def scan_while_def Let_def by simp
qed

lemma set_drop_nth: "x \<in> set (drop n xs) \<longleftrightarrow> (\<exists>i. n \<le> i \<and> i < length xs \<and> xs ! i = x)"
proof
  assume "x \<in> set (drop n xs)"
  then obtain i where "i < length xs - n" "xs ! (n + i) = x" by (auto simp: in_set_conv_nth)
  then show "\<exists>i. n \<le> i \<and> i < length xs \<and> xs ! i = x" by (intro exI [of _ "n + i"]) auto
next
  assume "\<exists>i. n \<le> i \<and> i < length xs \<and> xs ! i = x"
  then obtain i where i: "n \<le> i" "i < length xs" "xs ! i = x" by blast
  then show "x \<in> set (drop n xs)" by (auto simp: in_set_conv_nth intro!: exI [of _ "i - n"])
qed

lemma origin_with_slash:
  assumes "find_str scheme_mark u 0 = Some e" "CHR ''/'' \<in> set (drop (e + 3) u)"
  shows "origin_of (u @ t) = origin_of u"
proof -
  from find_from_member [OF assms(2)] obtain p where p: "find_from CHR ''/'' u (e + 3) = Some p" by blast
  with find_from_Some [OF p] find_from_append [OF p, of t] find_str_extend [OF assms(1), of t] assms(1)
  show ?thesis by (simp add: origin_of_def)
qed

lemma origin_and_path:
  assumes "find_str scheme_mark u 0 = Some e" "CHR ''/'' \<notin> set (drop (e + 3) u)"
  shows "origin_of u = u" "origin_of (u @ CHR ''/'' # t) = u"
proof -
  have le: "e + 3 \<le> length u" using find_str_Some [OF assms(1)] by (simp add: scheme_mark_def)
  show "origin_of u = u" using assms(1) find_from_absent [OF assms(2)] by (simp add: origin_of_def)
  have "takeWhile (\<lambda>x. x \<noteq> CHR ''/'') (drop (e + 3) u @ CHR ''/'' # t) = drop (e + 3) u"
    using assms(2) by (subst takeWhile_append2) auto
  then have "find_from CHR ''/'' (u @ CHR ''/'' # t) (e + 3) = Some (length u)"
    using le by (simp add: find_from_def scan_while_def)
  with find_str_extend [OF assms(1)] show "origin_of (u @ CHR ''/'' # t) = u" by (simp add: origin_of_def)
qed

lemma find_in_take: "find_in p n s = Some j \<Longrightarrow> j - n + length p \<le> k \<Longrightarrow> find_in p n (take k s) = Some j"
proof (induction p n s arbitrary: k rule: find_in.induct)
  case (2 p n c cs)
  show ?case
  proof (cases "take (length p) (c # cs) = p")
    case True
    with 2 have "j = n" by simp
    with 2 have k: "length p \<le> k" by simp
    then have "take (length p) (take k (c # cs)) = p" using True by (simp add: min_def)
    with \<open>j = n\<close> show ?thesis by (cases "take k (c # cs)") auto
  next
    case False
    with 2 have s: "find_in p (Suc n) cs = Some j" by simp
    from find_in_Some [OF s] have n: "Suc n \<le> j" by auto
    with 2(3) obtain m where m: "k = Suc m" "j - Suc n + length p \<le> m" by (cases k) auto
    have "take (length p) (c # take m cs) \<noteq> p"
    proof
      assume "take (length p) (c # take m cs) = p"
      moreover have "length p \<le> k" using 2(3) by simp
      ultimately have "take (length p) (c # cs) = p" using m(1) by (metis min.absorb1 take_Suc_Cons take_take)
      with False show False by simp
    qed
    with 2(1) [OF False s m(2)] m(1) show ?thesis by simp
  qed
qed (auto split: if_splits)

lemma find_str_take: "find_str p s 0 = Some e \<Longrightarrow> e + length p \<le> k \<Longrightarrow> find_str p (take k s) 0 = Some e"
  by (auto simp: find_str_def find_in_take)

lemma last_slash_Some:
  assumes "last_slash s = Some l"
  shows "l < length s \<and> s ! l = CHR ''/'' \<and> CHR ''/'' \<notin> set (drop (l + 1) s)"
proof -
  let ?t = "takeWhile (\<lambda>c. c \<noteq> CHR ''/'') (rev s)"
  from assms have "CHR ''/'' \<in> set (rev s)" and l: "l = length s - 1 - length ?t" by (auto simp: last_slash_def split: if_splits)
  then obtain a b where r: "rev s = a @ CHR ''/'' # b" "CHR ''/'' \<notin> set a" by (metis split_list_first)
  then have t: "?t = a" by (subst r(1), subst takeWhile_append2) auto
  have s: "s = rev b @ CHR ''/'' # rev a" using r(1) by (metis append.assoc append_Cons append_Nil rev.simps(2) rev_append rev_rev_ident)
  then have "length s - 1 - length ?t = length b" unfolding t by simp
  then have "l = length b" using l by simp
  with r(2) show ?thesis by (simp add: s nth_append)
qed

lemma resolved_origin:
  assumes "find_str scheme_mark loc 0 = None"
  shows "origin_of (resolve_location url loc) = origin_of url"
proof (cases "find_str scheme_mark url 0")
  case None
  with assms show ?thesis by (simp add: resolve_location_def origin_of_def)
next
  case (Some e)
  have le: "e + 3 \<le> length url" using find_str_Some [OF Some] by (simp add: scheme_mark_def)
  show ?thesis
  proof (cases "loc \<noteq> [] \<and> hd loc = CHR ''/''")
    case True
    then obtain t where t: "loc = CHR ''/'' # t" by (cases loc) auto
    show ?thesis
    proof (cases "CHR ''/'' \<in> set (drop (e + 3) url)")
      case False
      with origin_and_path [OF Some False] find_from_absent [OF False] show ?thesis
        using assms Some by (simp add: resolve_location_def t)
    next
      case slash: True
      from find_from_member [OF slash] obtain p where p: "find_from CHR ''/'' url (e + 3) = Some p" by blast
      then have pe: "e + 3 \<le> p" "p < length url" using find_from_Some by fastforce+
      have s: "find_str scheme_mark (take p url) 0 = Some e"
        using find_str_take [OF Some, of p] pe by (simp add: scheme_mark_def)
      have "drop (e + 3) (take p url) = takeWhile (\<lambda>x. x \<noteq> CHR ''/'') (drop (e + 3) url)"
        using p pe by (auto simp: find_from_def scan_while_def Let_def drop_take takeWhile_eq_take [symmetric] split: if_splits)
      then have "CHR ''/'' \<notin> set (drop (e + 3) (take p url))" by (auto dest: set_takeWhileD)
      from origin_and_path(2) [OF s this] show ?thesis
        using assms Some p by (simp add: resolve_location_def t origin_of_def)
    qed
  next
    case rel: False
    have r: "resolve_location url loc =
        (case last_slash url of None \<Rightarrow> url @ ''/'' @ loc
         | Some l \<Rightarrow> if l < e + 3 then url @ ''/'' @ loc else take (l + 1) url @ loc)"
      using assms Some rel by (auto simp: resolve_location_def)
    show ?thesis
    proof (cases "CHR ''/'' \<in> set (drop (e + 3) url)")
      case False
      have "last_slash url = None \<or> (\<exists>l. last_slash url = Some l \<and> l < e + 3)"
      proof (cases "last_slash url")
        case (Some l)
        from last_slash_Some [OF this] have "l < e + 3"
          using False by (metis set_drop_nth linorder_not_le)
        with Some show ?thesis by blast
      qed simp
      with r have "resolve_location url loc = url @ CHR ''/'' # loc" by auto
      with origin_and_path [OF Some False] show ?thesis by simp
    next
      case True
      then have "CHR ''/'' \<in> set url" by (meson in_set_dropD)
      then obtain l where l: "last_slash url = Some l" by (simp add: last_slash_def)
      note f = last_slash_Some [OF l]
      from True obtain k where k: "e + 3 \<le> k" "k < length url" "url ! k = CHR ''/''" by (auto simp: set_drop_nth)
      have "k \<le> l"
      proof (rule ccontr)
        assume "\<not> k \<le> l"
        then have "url ! k \<in> set (drop (l + 1) url)" using k by (auto simp: set_drop_nth intro!: exI [of _ k])
        with f k show False by simp
      qed
      with k f have "CHR ''/'' \<in> set (drop (e + 3) (take (l + 1) url))"
        by (auto simp: set_drop_nth intro!: exI [of _ l])
      moreover have "find_str scheme_mark (take (l + 1) url) 0 = Some e"
        using find_str_take [OF Some, of "l + 1"] \<open>k \<le> l\<close> k by (simp add: scheme_mark_def)
      ultimately have "origin_of (take (l + 1) url @ t) = origin_of (take (l + 1) url)" for t
        by (intro origin_with_slash)
      from this [of loc] this [of "drop (l + 1) url"] show ?thesis using r l \<open>k \<le> l\<close> k by simp
    qed
  qed
qed

text \<open>C24. The bearer token goes to one server only: when an offer is answered, the URL of the session, to which
  the token is sent again to hang up, has the origin of the URL the offer was posted to, whatever Location the
  server answered with; and a token that could smuggle a header into a request is never sent.\<close>

theorem session_same_origin:
  assumes "post_offer http aborted whep_url token offer timeout = (Inr res, sent)"
  shows "origin_of (wr_session_url res) = origin_of whep_url
    \<and> map rq_url sent = [whep_url] \<and> (token = [] \<or> token_sane token)"
proof -
  from assms obtain r where c: "check_answer whep_url r = Inr res" and s: "map rq_url sent = [whep_url]" "token = [] \<or> token_sane token"
    by (auto simp: post_offer_def make_request_def Let_def split: if_splits option.splits)
  from c have l: "check_location whep_url r = Inr res" by (auto simp: check_answer_def split: if_splits option.splits)
  then obtain loc where loc: "wr_session_url res = resolve_location whep_url loc"
      "find_str scheme_mark loc 0 = None \<or> origin_of loc = origin_of whep_url"
    by (auto simp: check_location_def split: if_splits option.splits)
  have "origin_of (wr_session_url res) = origin_of whep_url"
  proof (cases "find_str scheme_mark loc 0 = None")
    case True with resolved_origin [OF True, of whep_url] loc show ?thesis by simp
  next
    case False with loc show ?thesis by (simp add: resolve_location_def)
  qed
  with s show ?thesis by simp
qed

theorem session_same_origin_witness:
  "fst (post_offer (\<lambda>rq. Some \<lparr>rs_code = HttpOk, rs_status = 201, rs_message = [], rs_body = ''v=0'',
        rs_header = (\<lambda>h. if h = ''Location'' then Some ''/cam/whep/42'' else None)\<rparr>)
      False ''http://robot:8889/cam/whep'' ''secret'' ''v=0'' 5)
    = Inr \<lparr>wr_answer_sdp = ''v=0'', wr_session_url = ''http://robot:8889/cam/whep/42''\<rparr>
   \<and> origin_of ''http://robot:8889/cam/whep/42'' = origin_of ''http://robot:8889/cam/whep''"
proof -
  let ?p = "post_offer (\<lambda>rq. Some \<lparr>rs_code = HttpOk, rs_status = 201, rs_message = [], rs_body = ''v=0'',
        rs_header = (\<lambda>h. if h = ''Location'' then Some ''/cam/whep/42'' else None)\<rparr>)
      False ''http://robot:8889/cam/whep'' ''secret'' ''v=0'' 5"
  have short: "\<not> max_response_bytes < length ''v=0''" by (simp add: max_response_bytes_def)
  have url: "resolve_location ''http://robot:8889/cam/whep'' ''/cam/whep/42'' = ''http://robot:8889/cam/whep/42''"
    "find_str scheme_mark ''/cam/whep/42'' 0 = None" "token_sane ''secret''" by code_simp+
  have "fst ?p = Inr \<lparr>wr_answer_sdp = ''v=0'', wr_session_url = ''http://robot:8889/cam/whep/42''\<rparr>"
    using short url by (simp add: post_offer_def check_answer_def check_location_def Let_def)
  moreover from this have "?p = (Inr \<lparr>wr_answer_sdp = ''v=0'', wr_session_url = ''http://robot:8889/cam/whep/42''\<rparr>, snd ?p)"
    by (simp add: prod_eq_iff)
  from session_same_origin [OF this] have "origin_of ''http://robot:8889/cam/whep/42'' = origin_of ''http://robot:8889/cam/whep''" by simp
  ultimately show ?thesis by simp
qed

subsection \<open>Bounds\<close>

lemma collect_paths_length: "length paths \<le> max_items \<Longrightarrow> length (collect_paths paths items) \<le> max_items"
  by (induction paths items rule: collect_paths.induct) (auto split: option.splits)

lemma collect_paths_named: "list_all (\<lambda>p. pi_name p \<noteq> []) paths \<Longrightarrow> list_all (\<lambda>p. pi_name p \<noteq> []) (collect_paths paths items)"
  by (induction paths items rule: collect_paths.induct) (auto split: option.splits)

lemma fetch_pages_bounds:
  assumes "page \<le> max_pages" "length sent = page" "length paths \<le> max_items" "list_all (\<lambda>p. pi_name p \<noteq> []) paths"
    and "fetch_pages http parse aborted list_url token timeout page page_count paths sent = (r, out)"
  shows "length out \<le> max_pages
    \<and> (case r of Inl e \<Rightarrow> True | Inr ps \<Rightarrow> length ps \<le> max_items \<and> list_all (\<lambda>p. pi_name p \<noteq> []) ps)"
  using assms
proof (induction http parse aborted list_url token timeout page page_count paths sent rule: fetch_pages.induct)
  case (1 http parse aborted list_url token timeout page page_count paths sent)
  note eq = 1(6) [unfolded fetch_pages.simps [of http parse aborted list_url token timeout page page_count paths sent]]
  show ?case
  proof (cases "int page < page_count \<and> page < max_pages \<and> \<not> aborted page")
    case False
    with 1(2-5) eq show ?thesis by (auto split: if_splits)
  next
    case go: True
    let ?rq = "make_request HttpGet (list_url @ ''?page='' @ nat_text page) [] token timeout"
    show ?thesis
    proof (cases "\<exists>res doc items. http ?rq = Some res \<and> rs_code res = HttpOk \<and> rs_status res = 200
        \<and> \<not> length (rs_body res) > max_response_bytes
        \<and> Option.bind (parse (rs_body res)) (\<lambda>doc. map_option (Pair doc) (json_array ''items'' doc)) = Some (doc, items)
        \<and> \<not> length (collect_paths paths items) \<ge> max_items")
      case True
      then obtain res doc items where ok: "http ?rq = Some res" "rs_code res = HttpOk" "rs_status res = 200"
        "\<not> length (rs_body res) > max_response_bytes"
        "Option.bind (parse (rs_body res)) (\<lambda>doc. map_option (Pair doc) (json_array ''items'' doc)) = Some (doc, items)"
        "\<not> length (collect_paths paths items) \<ge> max_items" by blast
      have "fetch_pages http parse aborted list_url token timeout (page + 1)
          (if page = 0 then page_count_of doc page_count else page_count) (collect_paths paths items) (sent @ [?rq]) = (r, out)"
        using eq go ok by (simp add: Let_def)
      with 1(1) [OF _ _ refl refl ok(1) _ ok(4) ok(5) refl refl refl ok(6)] go ok 1(2-5) collect_paths_length [OF 1(4)] collect_paths_named [OF 1(5)]
      show ?thesis by (simp add: Suc_le_eq)
    next
      case False
      with eq go 1(2-5) collect_paths_length [OF 1(4)] collect_paths_named [OF 1(5)] show ?thesis
        by (auto simp: Let_def split: option.splits if_splits prod.splits)
    qed
  qed
qed

text \<open>C25. Fetching the list of streams is bounded whatever the server answers: at most ten requests and two
  thousand entries, each with a name, even if the server claims more pages or sends endless ones.\<close>

theorem paths_list_bounded:
  "length (snd (fetch_paths_list http parse aborted api_url token timeout)) \<le> max_pages
    \<and> (case fst (fetch_paths_list http parse aborted api_url token timeout) of
           Inl e \<Rightarrow> True | Inr ps \<Rightarrow> length ps \<le> max_items \<and> list_all (\<lambda>p. pi_name p \<noteq> []) ps)"
proof (cases "token \<noteq> [] \<and> \<not> token_sane token")
  case True then show ?thesis by (simp add: fetch_paths_list_def)
next
  case False
  then show ?thesis
    using fetch_pages_bounds [OF _ _ _ _ prod.collapse [symmetric], of 0 "[]" "[]"] by (simp add: fetch_paths_list_def)
qed

end
