(* ===== verification/VideoEmit.thy ===== *)
theory VideoEmit
  imports Base64
begin

section \<open>H.264 access units (data_stream_webrtc/video_emit.cpp)\<close>

text \<open>
  The normalizer that turns what the depacketizer delivers into the Annex-B byte stream the viewer's decoder
  reads, with the parameter sets of the session description put before a keyframe that has none. Bytes are
  characters. Facts shown: read back by the iterator, the normalized access unit has the units of the input,
  after the parameter sets put in; the decoder of parameter sets agrees with the other base64 decoder of the
  repository on everything an encoder writes.
\<close>

subsection \<open>Start codes\<close>

abbreviation zero_byte :: char where "zero_byte \<equiv> CHR 0x00"
abbreviation one_byte :: char where "one_byte \<equiv> CHR 0x01"

definition nal_type :: "char \<Rightarrow> nat" where
  "nal_type c = of_char c mod 32"

definition nal_slice_idr :: nat where "nal_slice_idr = 5"
definition nal_sps :: nat where "nal_sps = 7"
definition nal_pps :: nat where "nal_pps = 8"

text \<open>The test of \<open>findStartCode\<close> on what follows an offset.\<close>

definition code_at :: "string \<Rightarrow> bool" where
  "code_at s \<longleftrightarrow> take 3 s = [zero_byte, zero_byte, one_byte] \<or> take 4 s = [zero_byte, zero_byte, zero_byte, one_byte]"

fun start_code_in :: "string \<Rightarrow> nat" where
  "start_code_in [] = 0"
| "start_code_in (c # cs) = (if code_at (c # cs) then 0 else Suc (start_code_in cs))"

definition find_start_code :: "string \<Rightarrow> nat \<Rightarrow> nat" where
  "find_start_code d offset = offset + start_code_in (drop offset d)"

definition nal_header_offset :: "string \<Rightarrow> nat \<Rightarrow> nat" where
  "nal_header_offset d sc = (if d ! (sc + 2) = one_byte then sc + 3 else sc + 4)"

lemma start_code_in_le: "start_code_in s \<le> length s"
  by (induction s) auto

text \<open>\<open>AnnexBIterator\<close> run to its end from offset \<open>pos\<close>: the units, empty ones included.\<close>

function nals_from :: "string \<Rightarrow> nat \<Rightarrow> string list" where
  "nals_from d pos =
     (let sc = find_start_code d pos in
      if length d \<le> sc then []
      else let hdr = nal_header_offset d sc in
        if length d \<le> hdr then []
        else let next_sc = find_start_code d hdr in Prelude.slice d hdr next_sc # nals_from d next_sc)"
  by pat_completeness auto
termination
  by (relation "measure (\<lambda>(d, pos). length d - pos)") (auto simp: find_start_code_def nal_header_offset_def)

declare nals_from.simps [simp del]

definition contains_idr :: "string \<Rightarrow> bool" where
  "contains_idr annexb \<longleftrightarrow> list_ex (\<lambda>v. v \<noteq> [] \<and> nal_type (hd v) = nal_slice_idr) (nals_from annexb 0)"

subsection \<open>The normalizer\<close>

record normalizer =
  nm_sps :: string
  nm_pps :: string

definition new_normalizer :: normalizer where
  "new_normalizer = \<lparr>nm_sps = [], nm_pps = []\<rparr>"

definition prime :: "string \<Rightarrow> string \<Rightarrow> normalizer \<Rightarrow> normalizer" where
  "prime sps pps nm = nm\<lparr>nm_sps := sps, nm_pps := pps\<rparr>"

definition has_primed_parameter_sets :: "normalizer \<Rightarrow> bool" where
  "has_primed_parameter_sets nm \<longleftrightarrow> nm_sps nm \<noteq> [] \<and> nm_pps nm \<noteq> []"

definition looks_annexb :: "string \<Rightarrow> bool" where
  "looks_annexb d \<longleftrightarrow> take 4 d = [zero_byte, zero_byte, zero_byte, one_byte] \<or> take 3 d = [zero_byte, zero_byte, one_byte]"

definition start_code :: string where
  "start_code = [zero_byte, zero_byte, zero_byte, one_byte]"

definition append_nal :: "string \<Rightarrow> string \<Rightarrow> string" where
  "append_nal out nal = out @ start_code @ nal"

definition big_endian :: "string \<Rightarrow> nat" where
  "big_endian s = foldl (\<lambda>acc c. acc * 256 + of_char c) 0 s"

text \<open>Length-prefixed units from offset \<open>off\<close>; a zero length or one past the end stops the loop.\<close>

function prefixed_from :: "string \<Rightarrow> nat \<Rightarrow> string list" where
  "prefixed_from au off =
     (if off + 4 \<le> length au
      then let len = big_endian (Prelude.slice au off (off + 4)) in
        if len = 0 \<or> length au < off + 4 + len then []
        else Prelude.slice au (off + 4) (off + 4 + len) # prefixed_from au (off + 4 + len)
      else [])"
  by pat_completeness auto
termination by (relation "measure (\<lambda>(au, off). length au - off)") auto

declare prefixed_from.simps [simp del]

definition units_of :: "string \<Rightarrow> string list" where
  "units_of au = (if looks_annexb au then filter (\<lambda>v. v \<noteq> []) (nals_from au 0) else prefixed_from au 0)"

definition has_type :: "nat \<Rightarrow> string list \<Rightarrow> bool" where
  "has_type t nals \<longleftrightarrow> list_ex (\<lambda>n. nal_type (hd n) = t) nals"

definition injected :: "normalizer \<Rightarrow> string list \<Rightarrow> string list" where
  "injected nm nals =
     (if has_type nal_slice_idr nals
      then (if \<not> has_type nal_sps nals \<and> nm_sps nm \<noteq> [] then [nm_sps nm] else [])
           @ (if \<not> has_type nal_pps nals \<and> nm_pps nm \<noteq> [] then [nm_pps nm] else [])
      else [])"

text \<open>The access unit written and whether it is a keyframe.\<close>

definition normalize :: "normalizer \<Rightarrow> string \<Rightarrow> string \<times> bool" where
  "normalize nm au =
     (let nals = units_of au in
      (foldl append_nal [] (injected nm nals @ nals), has_type nal_slice_idr nals))"

subsection \<open>Parameter sets of the session description\<close>

definition sprop_value :: "char \<Rightarrow> nat option" where
  "sprop_value c =
     (let n = of_char c in
      if 65 \<le> n \<and> n \<le> 90 then Some (n - 65)
      else if 97 \<le> n \<and> n \<le> 122 then Some (n - 97 + 26)
      else if 48 \<le> n \<and> n \<le> 57 then Some (n - 48 + 52)
      else if c = CHR ''+'' then Some 62
      else if c = CHR ''/'' then Some 63
      else None)"

text \<open>The loop of \<open>base64Decode\<close>; the bits shifted out of the 32-bit buffer are lost.\<close>

fun sprop_bytes :: "32 word \<Rightarrow> nat \<Rightarrow> string \<Rightarrow> string" where
  "sprop_bytes buf bits [] = []"
| "sprop_bytes buf bits (c # cs) =
     (if c = CHR ''='' \<or> c = CHR 0x0A \<or> c = CHR 0x0D \<or> c = CHR '' '' \<or> c = CHR 0x09 then sprop_bytes buf bits cs
      else case sprop_value c of
        None \<Rightarrow> sprop_bytes buf bits cs
      | Some v \<Rightarrow>
          (let buf = push_bit 6 buf OR of_nat v in
           if 8 \<le> bits + 6
           then char_of (unat (drop_bit (bits - 2) buf AND 0xFF)) # sprop_bytes buf (bits - 2) cs
           else sprop_bytes buf (bits + 6) cs))"

definition sprop_decode :: "string \<Rightarrow> string" where
  "sprop_decode s = sprop_bytes 0 0 s"

function sprop_tokens :: "string \<Rightarrow> string list" where
  "sprop_tokens s =
     (let token = takeWhile (\<lambda>c. c \<noteq> CHR '','') s in
      if token = s then [token] else token # sprop_tokens (drop (length token + 1) s))"
  by pat_completeness auto
termination
proof (relation "measure length")
  fix s token :: string
  assume "token = takeWhile (\<lambda>c. c \<noteq> CHR '','') s" "token \<noteq> s"
  then have "s \<noteq> []" by auto
  then show "(drop (length token + 1) s, s) \<in> measure length" by simp
qed simp

declare sprop_tokens.simps [simp del]

definition parse_sprop :: "string \<Rightarrow> string list" where
  "parse_sprop sprop = filter (\<lambda>nal. nal \<noteq> []) (map sprop_decode (sprop_tokens sprop))"

definition prime_from_sprop :: "normalizer \<Rightarrow> string \<Rightarrow> normalizer" where
  "prime_from_sprop nm sprop =
     (let nals = parse_sprop sprop;
          sps = find (\<lambda>n. nal_type (hd n) = nal_sps) nals; pps = find (\<lambda>n. nal_type (hd n) = nal_pps) nals
      in if sprop = [] then nm
         else case (sps, pps) of (Some s, Some p) \<Rightarrow> prime s p nm | _ \<Rightarrow> nm)"

subsection \<open>The normalized access unit reads back\<close>

text \<open>A unit without a start code inside, as the emulation prevention of H.264 makes them.\<close>

definition nal_clean :: "string \<Rightarrow> bool" where
  "nal_clean n \<longleftrightarrow> n \<noteq> [] \<and> start_code_in n = length n"

lemma code_at_start_code [simp]: "code_at (start_code @ r)"
  by (simp add: code_at_def start_code_def)

lemma code_at_crossing: "\<not> code_at n \<Longrightarrow> n \<noteq> [] \<Longrightarrow> \<not> code_at (n @ start_code @ r)"
proof -
  assume a: "\<not> code_at n" "n \<noteq> []"
  consider c where "n = [c]" | c d where "n = [c, d]" | c d e where "n = [c, d, e]" | c d e f m where "n = c # d # e # f # m"
    using a(2) by (metis neq_Nil_conv)
  then show ?thesis using a(1) by cases (auto simp: code_at_def start_code_def)
qed

lemma start_code_in_append:
  "start_code_in n = length n \<Longrightarrow> start_code_in (n @ start_code @ r) = length n"
proof (induction n)
  case Nil show ?case by (cases "start_code @ r") (auto simp: start_code_def code_at_def)
next
  case (Cons c n)
  then have "\<not> code_at (c # n)" "start_code_in n = length n" by (auto split: if_splits)
  with Cons.IH code_at_crossing [of "c # n" r] show ?case by simp
qed

text \<open>The iterator on the text from an offset on.\<close>

function nals_in :: "string \<Rightarrow> string list" where
  "nals_in s =
     (let r = drop (start_code_in s) s; body = drop (if r ! 2 = one_byte then 3 else 4) r in
      if r = [] \<or> body = [] then []
      else take (start_code_in body) body # nals_in (drop (start_code_in body) body))"
  by pat_completeness auto
termination by (relation "measure length") auto

declare nals_in.simps [simp del]

lemma nals_from_in: "pos \<le> length d \<Longrightarrow> nals_from d pos = nals_in (drop pos d)"
proof (induction d pos rule: nals_from.induct)
  case (1 d pos)
  define sc where "sc = find_start_code d pos"
  define hdr where "hdr = nal_header_offset d sc"
  define r where "r = drop (start_code_in (drop pos d)) (drop pos d)"
  define body where "body = drop (if r ! 2 = one_byte then 3 else 4) r"
  have eq: "nals_in (drop pos d) = (if r = [] \<or> body = [] then []
      else take (start_code_in body) body # nals_in (drop (start_code_in body) body))"
    by (simp only: nals_in.simps [of "drop pos d"] Let_def r_def body_def)
  have r: "r = drop sc d" by (simp add: r_def sc_def find_start_code_def add.commute)
  have body: "body = drop hdr d" if "\<not> length d \<le> sc"
    using that by (auto simp: body_def r hdr_def nal_header_offset_def nth_drop add.commute)
  have step: "nals_from d pos = (if length d \<le> sc then [] else if length d \<le> hdr then []
      else Prelude.slice d hdr (find_start_code d hdr) # nals_from d (find_start_code d hdr))"
    by (simp only: nals_from.simps [of d pos] Let_def sc_def hdr_def)
  show ?case
  proof (cases "length d \<le> sc \<or> length d \<le> hdr")
    case True
    then show ?thesis using body by (auto simp: eq step r)
  next
    case False
    then have b: "body = drop hdr d" "r \<noteq> []" "body \<noteq> []" using body by (auto simp: r)
    let ?next = "find_start_code d hdr"
    from False have less: "hdr < length d" by simp
    have le: "?next \<le> length d" using start_code_in_le [of "drop hdr d"] less
      unfolding find_start_code_def length_drop by linarith
    have "Prelude.slice d hdr ?next = take (start_code_in body) body" "drop ?next d = drop (start_code_in body) body"
      by (simp_all add: Prelude.slice_def find_start_code_def b add.commute)
    moreover have "nals_from d ?next = nals_in (drop ?next d)" using 1(1) [OF sc_def _ hdr_def _ refl le] False by simp
    ultimately show ?thesis using False b by (simp add: eq step)
  qed
qed

lemma nals_in_unit:
  assumes "nal_clean n" "r = [] \<or> (\<exists>q. r = start_code @ q)"
  shows "nals_in (start_code @ n @ r) = n # nals_in r"
proof -
  define s where "s = start_code @ n @ r"
  have "code_at s" "s \<noteq> []" by (simp_all add: s_def start_code_def code_at_def)
  then have "start_code_in s = 0" by (cases s) auto
  moreover have "s ! 2 \<noteq> one_byte" "drop 4 s = n @ r" by (simp_all add: s_def start_code_def)
  moreover have "start_code_in (n @ r) = length n" using assms start_code_in_append [of n] by (auto simp: nal_clean_def)
  ultimately have "nals_in s = n # nals_in r"
    using assms(1) \<open>s \<noteq> []\<close> by (auto simp: nals_in.simps [of s] nal_clean_def Let_def)
  then show ?thesis by (simp add: s_def)
qed

lemma nals_in_Nil [simp]: "nals_in [] = []"
  by (simp add: nals_in.simps)

lemma foldl_append_nal: "foldl append_nal out ns = out @ concat (map (\<lambda>n. start_code @ n) ns)"
  by (induction ns arbitrary: out) (simp_all add: append_nal_def)

lemma nals_in_concat: "list_all nal_clean ns \<Longrightarrow> nals_in (concat (map (\<lambda>n. start_code @ n) ns)) = ns"
proof (induction ns)
  case (Cons n ns)
  have "concat (map (\<lambda>n. start_code @ n) ns) = [] \<or> (\<exists>q. concat (map (\<lambda>n. start_code @ n) ns) = start_code @ q)"
    by (cases ns) auto
  with Cons nals_in_unit [of n "concat (map (\<lambda>n. start_code @ n) ns)"] show ?case by simp
qed simp

text \<open>What the iterator gives is clean.\<close>

lemma take_of_take: "take m (take k s) = xs \<Longrightarrow> length xs = m \<Longrightarrow> take m s = xs"
  by (metis length_take min.bounded_iff order_refl take_take min.absorb1)

lemma code_at_take: "code_at (take k s) \<Longrightarrow> code_at s"
  unfolding code_at_def by (elim disjE) (drule take_of_take; simp)+

lemma start_code_in_take: "k \<le> start_code_in s \<Longrightarrow> start_code_in (take k s) = length (take k s)"
proof (induction s arbitrary: k)
  case (Cons c s)
  show ?case
  proof (cases k)
    case (Suc j)
    with Cons.prems have "\<not> code_at (c # s)" "j \<le> start_code_in s" by (auto split: if_splits)
    moreover from this(1) have "\<not> code_at (take k (c # s))" using code_at_take by blast
    ultimately show ?thesis using Cons.IH Suc by simp
  qed simp
qed simp

lemma nals_in_clean: "list_all (\<lambda>n. n = [] \<or> nal_clean n) (nals_in s)"
proof (induction s rule: nals_in.induct)
  case (1 s)
  define r where "r = drop (start_code_in s) s"
  define body where "body = drop (if r ! 2 = one_byte then 3 else 4) r"
  have eq: "nals_in s = (if r = [] \<or> body = [] then [] else take (start_code_in body) body # nals_in (drop (start_code_in body) body))"
    by (simp only: nals_in.simps [of s] Let_def r_def body_def)
  show ?case
  proof (cases "r = [] \<or> body = []")
    case False
    with 1 [OF r_def body_def] have "list_all (\<lambda>n. n = [] \<or> nal_clean n) (nals_in (drop (start_code_in body) body))" by simp
    with False start_code_in_take [of "start_code_in body" body] show ?thesis by (auto simp: eq nal_clean_def)
  qed (simp add: eq)
qed

lemma units_of_clean: "looks_annexb au \<Longrightarrow> list_all nal_clean (units_of au)"
  using nals_in_clean [of au] nals_from_in [of 0 au] by (auto simp: units_of_def list_all_iff)

text \<open>C23. Read back by the iterator, a normalized access unit consists of the units of the input in order,
  preceded, on a keyframe, by those of the primed parameter sets the input lacks; and it is called a
  keyframe exactly when a unit read back is an IDR slice. For Annex-B input this holds whatever the bytes;
  length-prefixed units and primed sets must not contain start codes, which H.264 excludes.\<close>

theorem normalized_units:
  assumes "looks_annexb au \<or> list_all nal_clean (units_of au)"
    and "list_all nal_clean (injected nm (units_of au))"
  shows "nals_from (fst (normalize nm au)) 0 = injected nm (units_of au) @ units_of au
    \<and> snd (normalize nm au) = contains_idr (fst (normalize nm au))"
proof -
  let ?units = "injected nm (units_of au) @ units_of au"
  have clean: "list_all nal_clean ?units" using assms units_of_clean by auto
  from nals_in_concat [OF this] have read: "nals_from (fst (normalize nm au)) 0 = ?units"
    by (simp only: normalize_def Let_def fst_conv foldl_append_nal nals_from_in [OF le0] drop_0 append_Nil)
  have "has_type nal_slice_idr (units_of au) = has_type nal_slice_idr ?units"
    by (auto simp: has_type_def injected_def)
  also have "\<dots> = contains_idr (fst (normalize nm au))"
    using clean unfolding contains_idr_def read has_type_def by (auto simp: list_all_iff list_ex_iff nal_clean_def)
  finally show ?thesis using read by (simp add: normalize_def Let_def)
qed

theorem normalized_units_witness:
  "nals_from (fst (normalize \<lparr>nm_sps = [CHR 0x67, CHR 0x42], nm_pps = [CHR 0x68]\<rparr>
      [CHR 0x00, CHR 0x00, CHR 0x00, CHR 0x02, CHR 0x65, CHR 0x88])) 0
    = [[CHR 0x67, CHR 0x42], [CHR 0x68], [CHR 0x65, CHR 0x88]]"
proof -
  let ?au = "[CHR 0x00, CHR 0x00, CHR 0x00, CHR 0x02, CHR 0x65, CHR 0x88]"
  let ?nm = "\<lparr>nm_sps = [CHR 0x67, CHR 0x42], nm_pps = [CHR 0x68]\<rparr>"
  have u: "units_of ?au = [[CHR 0x65, CHR 0x88]]" by code_simp
  have i: "injected ?nm [[CHR 0x65, CHR 0x88]] = [[CHR 0x67, CHR 0x42], [CHR 0x68]]" by code_simp
  have c: "list_all nal_clean [[CHR 0x65, CHR 0x88]]" "list_all nal_clean [[CHR 0x67, CHR 0x42], [CHR 0x68]]" by code_simp+
  from normalized_units [of ?au ?nm] c show ?thesis unfolding u i by simp
qed

subsection \<open>The two base64 decoders agree\<close>

lemma sprop_value_alphabet:
  assumes "n < 64"
  shows "sprop_value (alphabet n) = Some n"
proof -
  have signs: "char_of (43 :: nat) = CHR ''+''" "char_of (47 :: nat) = CHR ''/''" by code_simp+
  consider "n < 26" | "26 \<le> n" "n < 52" | "52 \<le> n" "n < 62" | "n = 62" | "n = 63" using assms by linarith
  then show ?thesis
    using alphabet_code [OF assms] by cases (simp_all add: sprop_value_def Let_def, (arith | simp add: alphabet_def signs)+)
qed

lemma alphabet_no_space:
  assumes "n < 64"
  shows "\<not> (alphabet n = CHR ''='' \<or> alphabet n = CHR 0x0A \<or> alphabet n = CHR 0x0D \<or> alphabet n = CHR '' '' \<or> alphabet n = CHR 0x09)"
proof -
  have "(of_char (alphabet n) :: nat) \<notin> {61, 10, 13, 32, 9}" using alphabet_code [OF assms] by (auto split: if_splits)
  then show ?thesis by auto
qed

text \<open>The buffer as a number: what is written depends on it modulo \<open>2 ^ 32\<close> only.\<close>

lemma push_value:
  assumes "v < 64"
  shows "push_bit 6 (of_nat x :: 32 word) OR of_nat v = of_nat (x * 64 + v)"
proof -
  have "take_bit 6 v = v" using assms by (simp add: take_bit_eq_mod)
  then have v: "take_bit 6 (of_nat v :: 32 word) = of_nat v" by (simp only: take_bit_of_nat)
  have "push_bit 6 (of_nat x :: 32 word) + of_nat v = push_bit 6 (of_nat x) OR of_nat v"
    by (rule disjunctive_add) (metis bit_push_bit_iff bit_take_bit_iff not_le v)
  then show ?thesis by (simp add: push_bit_eq_mult)
qed

lemma out_byte: "k \<le> 24 \<Longrightarrow> unat (drop_bit k (of_nat x :: 32 word) AND 0xFF) = x div 2 ^ k mod 256"
proof -
  assume k: "k \<le> 24"
  have "(0xFF :: 32 word) = mask 8" by (simp add: mask_eq_exp_minus_1)
  then have "unat (drop_bit k (of_nat x :: 32 word) AND 0xFF) = unat (take_bit 8 (drop_bit k (of_nat x :: 32 word)))"
    by (simp only: take_bit_eq_mask)
  also have "\<dots> = take_bit 8 (drop_bit k (take_bit 32 x))"
    by (simp add: unsigned_take_bit_eq unsigned_drop_bit_eq unsigned_of_nat)
  also have "\<dots> = take_bit 8 (drop_bit k x)" using k by (simp add: drop_bit_take_bit)
  finally show ?thesis by (simp add: take_bit_eq_mod drop_bit_eq_div)
qed

lemma sprop_step:
  assumes "v < 64" "bits \<le> 24"
  shows "sprop_bytes (of_nat x) bits (alphabet v # cs)
    = (if 2 \<le> bits then char_of ((x * 64 + v) div 2 ^ (bits - 2) mod 256) # sprop_bytes (of_nat (x * 64 + v)) (bits - 2) cs
       else sprop_bytes (of_nat (x * 64 + v)) (bits + 6) cs)"
proof -
  have "unat (drop_bit (bits - 2) (of_nat (x * 64 + v) :: 32 word) AND 0xFF) = (x * 64 + v) div 2 ^ (bits - 2) mod 256"
    using assms(2) by (intro out_byte) simp
  then show ?thesis
    using alphabet_no_space [OF assms(1)] by (simp add: sprop_value_alphabet [OF assms(1)] Let_def push_value [OF assms(1)])
qed

lemma sprop_two:
  assumes "a < 64" "b < 64"
  shows "sprop_bytes (of_nat x) 0 (alphabet a # alphabet b # cs)
    = char_of (((x * 64 + a) * 64 + b) div 16 mod 256) # sprop_bytes (of_nat ((x * 64 + a) * 64 + b)) 4 cs"
  using assms by (simp add: sprop_step del: sprop_bytes.simps(2) of_nat_add of_nat_mult)

lemma sprop_third:
  assumes "c < 64"
  shows "sprop_bytes (of_nat x) 4 (alphabet c # cs) = char_of ((x * 64 + c) div 4 mod 256) # sprop_bytes (of_nat (x * 64 + c)) 2 cs"
  using assms by (simp add: sprop_step del: sprop_bytes.simps(2) of_nat_add of_nat_mult)

lemma sprop_fourth:
  assumes "d < 64"
  shows "sprop_bytes (of_nat x) 2 (alphabet d # cs) = char_of ((x * 64 + d) mod 256) # sprop_bytes (of_nat (x * 64 + d)) 0 cs"
  using assms by (simp add: sprop_step del: sprop_bytes.simps(2) of_nat_add of_nat_mult)

lemma quartet_parts:
  fixes a b c e x :: nat
  shows "(x * 64 + a div 4) * 64 + (a mod 4 * 16 + e) = (x * 256 + a) * 16 + e"
    and "((x * 256 + a) * 16 + b div 16) * 64 + (b mod 16 * 4 + e) = ((x * 256 + a) * 256 + b) * 4 + e"
    and "(((x * 256 + a) * 256 + b) * 4 + c div 64) * 64 + c mod 64 = ((x * 256 + a) * 256 + b) * 256 + c"
proof -
  have "(x * 64 + q) * 64 + (m * 16 + e) = (x * 256 + (q * 4 + m)) * 16 + e" for q m by (simp add: algebra_simps)
  from this [of "a div 4" "a mod 4"] show "(x * 64 + a div 4) * 64 + (a mod 4 * 16 + e) = (x * 256 + a) * 16 + e"
    by (simp only: div_mult_mod_eq)
  have "((x * 256 + a) * 16 + q) * 64 + (m * 4 + e) = ((x * 256 + a) * 256 + (q * 16 + m)) * 4 + e" for q m
    by (simp add: algebra_simps)
  from this [of "b div 16" "b mod 16"]
  show "((x * 256 + a) * 16 + b div 16) * 64 + (b mod 16 * 4 + e) = ((x * 256 + a) * 256 + b) * 4 + e"
    by (simp only: div_mult_mod_eq)
  have "(((x * 256 + a) * 256 + b) * 4 + q) * 64 + m = ((x * 256 + a) * 256 + b) * 256 + (q * 64 + m)" for q m
    by (simp add: algebra_simps)
  from this [of "c div 64" "c mod 64"]
  show "(((x * 256 + a) * 256 + b) * 4 + c div 64) * 64 + c mod 64 = ((x * 256 + a) * 256 + b) * 256 + c"
    by (simp only: div_mult_mod_eq)
qed

lemma byte_mod: "c < 256 \<Longrightarrow> (y * 256 + c) mod 256 = (c :: nat)"
  by simp

lemma byte_div: "e < k \<Longrightarrow> a < 256 \<Longrightarrow> ((y * 256 + a) * k + e) div k mod 256 = (a :: nat)"
  by simp

lemma sprop_padding: "sprop_bytes buf bits (if pad then ''=='' else []) = []" "sprop_bytes buf bits (if pad then ''='' else []) = []"
  by simp_all

lemma sprop_round_trip: "sprop_bytes (of_nat x) 0 (base64_encode pad s) = s"
proof (induction pad s arbitrary: x rule: base64_encode.induct)
  case (2 pad a)
  note b = byte_of_char [of a]
  have "((x * 64 + of_char a div 4) * 64 + of_char a mod 4 * 16) div 16 mod 256 = (of_char a :: nat)"
    using quartet_parts(1) [of x "of_char a" 0] byte_div [of 0 16 "of_char a" x] b by simp
  then show ?case
    by (simp only: base64_encode.simps Let_def append_Cons append_Nil sprop_two [OF code_bounds(1) [OF b b] code_bounds(5) [OF b b]]
        sprop_padding char_of_char)
next
  case (3 pad a b)
  note a = byte_of_char [of a] and b = byte_of_char [of b]
  let ?a = "of_char a :: nat" and ?b = "of_char b :: nat"
  have "((x * 64 + ?a div 4) * 64 + (?a mod 4 * 16 + ?b div 16)) div 16 mod 256 = ?a"
    using byte_div [of "?b div 16" 16 ?a x] a b by (simp only: quartet_parts)
  moreover have "(((x * 64 + ?a div 4) * 64 + (?a mod 4 * 16 + ?b div 16)) * 64 + ?b mod 16 * 4) div 4 mod 256 = ?b"
    using quartet_parts(2) [of x ?a ?b 0] byte_div [of 0 4 ?b "x * 256 + ?a"] b
    by (simp only: quartet_parts add_0_right zero_less_numeral)
  ultimately show ?case
    by (simp only: base64_encode.simps Let_def append_Cons append_Nil sprop_two [OF code_bounds(1) [OF a a] code_bounds(2) [OF a b]]
        sprop_third [OF code_bounds(6) [OF b b]] sprop_padding char_of_char)
next
  case (4 pad a b c cs)
  note a = byte_of_char [of a] and b = byte_of_char [of b] and c = byte_of_char [of c]
  let ?a = "of_char a :: nat" and ?b = "of_char b :: nat" and ?c = "of_char c :: nat"
  have "((x * 64 + ?a div 4) * 64 + (?a mod 4 * 16 + ?b div 16)) div 16 mod 256 = ?a"
    using byte_div [of "?b div 16" 16 ?a x] a b by (simp only: quartet_parts)
  moreover have "(((x * 64 + ?a div 4) * 64 + (?a mod 4 * 16 + ?b div 16)) * 64 + (?b mod 16 * 4 + ?c div 64)) div 4 mod 256 = ?b"
    using byte_div [of "?c div 64" 4 ?b "x * 256 + ?a"] b c by (simp only: quartet_parts)
  moreover have "((((x * 64 + ?a div 4) * 64 + (?a mod 4 * 16 + ?b div 16)) * 64 + (?b mod 16 * 4 + ?c div 64)) * 64 + ?c mod 64) mod 256 = ?c"
    using byte_mod [OF c] by (simp only: quartet_parts)
  ultimately show ?case
    by (simp only: base64_encode.simps Let_def append_Cons append_Nil sprop_two [OF code_bounds(1) [OF a a] code_bounds(2) [OF a b]]
        sprop_third [OF code_bounds(3) [OF c b]] sprop_fourth [OF code_bounds(4) [OF c c]] 4 char_of_char)
qed simp

lemma base64_decoders_agree: "sprop_decode (base64_encode pad s) = base64_decode (base64_encode pad s)"
  using sprop_round_trip [of 0 pad s] base64_decode_encode [of pad s] by (simp add: sprop_decode_def)

end
