(* ===== verification/WhepConnection.thy ===== *)
theory WhepConnection
  imports WhepClient VideoEmit
begin

section \<open>A WHEP connection (data_stream_webrtc/whep_connection.cpp)\<close>

text \<open>
  One camera's connection: \<open>open\<close> makes the peer connection and starts the worker, which waits for the ICE
  candidates, posts the offer, keeps the URL of the session, primes the normalizer and applies the answer;
  \<open>close\<close> stops the worker and hangs the session up. The owner's thread, the worker and the callbacks of the
  peer-connection library interleave: each action below is what one of them does between two points where
  another may run, with the locks of the code. The library and the HTTP calls appear as the outcomes the
  actions carry. Facts shown: once close has finished, every session a server granted has been asked to end;
  the queue of frames keeps at most 256, the newest; a closed connection reports nothing.
\<close>

subsection \<open>The parameter sets of an answer\<close>

definition video_mark :: string where "video_mark = ''m=video''"
definition sprop_key :: string where "sprop_key = ''sprop-parameter-sets=''"

definition sprop_ends :: "char \<Rightarrow> bool" where
  "sprop_ends c \<longleftrightarrow> c = CHR '';'' \<or> c = CHR 0x0D \<or> c = CHR 0x0A \<or> c = CHR '' ''"

definition extract_first_sprop :: "string \<Rightarrow> string" where
  "extract_first_sprop sdp =
     (case find_str video_mark sdp 0 of
        None \<Rightarrow> []
      | Some v \<Rightarrow>
          (case find_str sprop_key sdp v of
             None \<Rightarrow> []
           | Some k \<Rightarrow> takeWhile (\<lambda>c. \<not> sprop_ends c) (drop (k + length sprop_key) sdp)))"

definition prime_from_answer :: "string \<Rightarrow> normalizer \<Rightarrow> normalizer" where
  "prime_from_answer sdp nm =
     (let sprop = extract_first_sprop sdp in if sprop \<noteq> [] then prime_from_sprop nm sprop else nm)"

subsection \<open>The state of a connection\<close>

datatype connection_state = CNew | CConnecting | CConnected | CDisconnected | CFailed | CClosed

datatype peer_state = PNew | PConnecting | PConnected | PDisconnected | PFailed | PClosed

fun to_connection_state :: "peer_state \<Rightarrow> connection_state" where
  "to_connection_state PNew = CNew"
| "to_connection_state PConnecting = CConnecting"
| "to_connection_state PConnected = CConnected"
| "to_connection_state PDisconnected = CDisconnected"
| "to_connection_state PFailed = CFailed"
| "to_connection_state PClosed = CClosed"

record ice_server =
  is_url :: string
  is_username :: string
  is_credential :: string

record connection_config =
  cc_whep_url :: string
  cc_token :: string
  cc_ice_servers :: "ice_server list"
  cc_connect_timeout :: int
  cc_delete_timeout :: int

definition default_config :: connection_config where
  "default_config = \<lparr>cc_whep_url = [], cc_token = [], cc_ice_servers = [], cc_connect_timeout = 5, cc_delete_timeout = 2\<rparr>"

record encoded_frame =
  ef_ts :: int
  ef_keyframe :: bool
  ef_annexb :: string

text \<open>Where the worker stands: at the wait of \<open>runConnect\<close>, at the offer, in the post, back from it, in the
  hang-up of an orphan, before the store of the session, at the priming, at the answer, or done.\<close>

datatype worker =
    NoWorker | Waiting | MakingOffer | Posting string | Posted "whep_error + whep_result" | HangingUp string
  | Storing whep_result | Priming string | Answering string | WorkerDone

text \<open>Where \<open>close\<close> stands.\<close>

datatype closer = NotClosing | Aborting | Joining | TakingSession | Deleting string | Detaching | Clearing | Resetting

datatype notice = StateNotice connection_state | ErrorNotice whep_error_kind string

record connection =
  cn_config :: connection_config
  cn_peer :: bool
  cn_worker :: worker
  cn_closer :: closer
  cn_gathered :: bool
  cn_closing :: bool
  cn_aborted :: bool
  cn_session :: string
  cn_normalizer :: normalizer
  cn_queue :: "encoded_frame list"
  cn_state :: connection_state
  cn_listening :: bool
  cn_notices :: "notice list"
  cn_granted :: "string list"
  cn_hung_up :: "string list"

text \<open>\<open>cn_listening\<close> is that the owner's callbacks are set; the last three fields record what the connection has
  done: the notices it gave, the sessions granted to its posts, and those it asked to end.\<close>

definition new_connection :: connection where
  "new_connection =
     \<lparr>cn_config = default_config, cn_peer = False, cn_worker = NoWorker, cn_closer = NotClosing,
      cn_gathered = False, cn_closing = False, cn_aborted = False, cn_session = [],
      cn_normalizer = new_normalizer, cn_queue = [], cn_state = CNew, cn_listening = False,
      cn_notices = [], cn_granted = [], cn_hung_up = []\<rparr>"

definition notify :: "notice \<Rightarrow> connection \<Rightarrow> connection" where
  "notify n c = (if cn_listening c then c\<lparr>cn_notices := cn_notices c @ [n]\<rparr> else c)"

definition report_state :: "connection_state \<Rightarrow> connection \<Rightarrow> connection" where
  "report_state s c = notify (StateNotice s) (c\<lparr>cn_state := s\<rparr>)"

definition fail_connect :: "whep_error_kind \<Rightarrow> string \<Rightarrow> connection \<Rightarrow> connection" where
  "fail_connect kind reason c = notify (ErrorNotice kind reason) (c\<lparr>cn_state := CFailed\<rparr>)"

definition hang_up :: "string \<Rightarrow> connection \<Rightarrow> connection" where
  "hang_up url c =
     c\<lparr>cn_hung_up := cn_hung_up c
         @ map rq_url (delete_session url (cc_token (cn_config c)) (cc_delete_timeout (cn_config c)))\<rparr>"

subsection \<open>Opening\<close>

text \<open>What the library answers while a connection opens: the peer connection is made or an exception is
  thrown, then the offer is set up or not, then the worker thread starts or not.\<close>

record open_outcome =
  oo_peer :: "string option"
  oo_offer :: "string option"
  oo_worker :: "string option"

definition em_dash :: string where "em_dash = [CHR 0xE2, CHR 0x80, CHR 0x94]"

definition teardown_peer :: "connection \<Rightarrow> connection" where
  "teardown_peer c = c\<lparr>cn_peer := False\<rparr>"

definition set_callbacks :: "connection \<Rightarrow> connection" where
  "set_callbacks c = c\<lparr>cn_listening := True\<rparr>"

definition open_connection :: "open_outcome \<Rightarrow> connection_config \<Rightarrow> connection \<Rightarrow> string option \<times> connection" where
  "open_connection oo config c =
     (if cn_peer c \<or> cn_worker c \<noteq> NoWorker then (Some (''already open '' @ em_dash @ '' call close() first''), c)
      else let c = c\<lparr>cn_config := config\<rparr> in
        if cc_whep_url config = [] then (Some ''empty WHEP URL'', c)
        else case oo_peer oo of
          Some e \<Rightarrow> (Some (''PeerConnection creation failed: '' @ e), c)
        | None \<Rightarrow>
            (let c = c\<lparr>cn_peer := True\<rparr> in
             case oo_offer oo of
               Some e \<Rightarrow> (Some (''offer setup failed: '' @ e), teardown_peer c)
             | None \<Rightarrow>
                 (let c = report_state CConnecting (c\<lparr>cn_aborted := False\<rparr>) in
                  case oo_worker oo of
                    Some e \<Rightarrow> (Some (''worker start failed: '' @ e), teardown_peer c)
                  | None \<Rightarrow> (None, c\<lparr>cn_worker := Waiting\<rparr>))))"

text \<open>The servers handed to the library: those with a URL it accepts (\<open>accepts\<close>), credentials kept.\<close>

definition ice_servers_used :: "(string \<Rightarrow> bool) \<Rightarrow> ice_server list \<Rightarrow> ice_server list" where
  "ice_servers_used accepts servers = filter (\<lambda>s. is_url s \<noteq> [] \<and> accepts (is_url s)) servers"

subsection \<open>Frames\<close>

definition max_queued_frames :: nat where "max_queued_frames = 256"

text \<open>The pops that make room.\<close>

definition make_room :: "'a list \<Rightarrow> 'a list" where
  "make_room q = drop (Suc (length q) - max_queued_frames) q"

definition on_frame :: "int \<Rightarrow> string \<Rightarrow> connection \<Rightarrow> connection" where
  "on_frame now au c =
     (if au = [] then c
      else let (annexb, keyframe) = normalize (cn_normalizer c) au in
        if annexb = [] then c
        else c\<lparr>cn_queue := make_room (cn_queue c) @ [\<lparr>ef_ts = now, ef_keyframe = keyframe, ef_annexb = annexb\<rparr>]\<rparr>)"

definition drain_frames :: "connection \<Rightarrow> encoded_frame list \<times> connection" where
  "drain_frames c = (cn_queue c, c\<lparr>cn_queue := []\<rparr>)"

definition normalize_access_unit :: "string \<Rightarrow> int \<Rightarrow> string \<Rightarrow> encoded_frame" where
  "normalize_access_unit au ts sprop =
     (let (annexb, keyframe) = normalize (prime_from_sprop new_normalizer sprop) au
      in \<lparr>ef_ts = ts, ef_keyframe = keyframe, ef_annexb = annexb\<rparr>)"

subsection \<open>The worker\<close>

text \<open>The answers its calls get: that the wait timed out, the local description (an exception, nothing or the
  offer), the HTTP call, and the exception of the remote description, if any.\<close>

record work_outcome =
  wo_timed_out :: bool
  wo_local :: "string + string option"
  wo_http :: http
  wo_remote :: "string option"

definition finish :: "connection \<Rightarrow> connection" where
  "finish c = c\<lparr>cn_worker := WorkerDone\<rparr>"

fun worker_step :: "worker \<Rightarrow> work_outcome \<Rightarrow> connection \<Rightarrow> connection option" where
  "worker_step Waiting wo c =
     (if cn_closing c then Some (finish c)
      else if cn_gathered c then Some (c\<lparr>cn_worker := MakingOffer\<rparr>)
      else if wo_timed_out wo then Some (finish (fail_connect WTimeout ''ICE gathering timed out'' c))
      else None)"
| "worker_step MakingOffer wo c =
     (case wo_local wo of
        Inl e \<Rightarrow> Some (finish (fail_connect WBadResponse (''local description: '' @ e) c))
      | Inr None \<Rightarrow> Some (finish (fail_connect WBadResponse ''no local description after gathering'' c))
      | Inr (Some offer) \<Rightarrow> Some (c\<lparr>cn_worker := Posting offer\<rparr>))"
| "worker_step (Posting offer) wo c =
     (case fst (post_offer (wo_http wo) (cn_aborted c) (cc_whep_url (cn_config c)) (cc_token (cn_config c)) offer
                  (cc_connect_timeout (cn_config c))) of
        Inl e \<Rightarrow> Some (c\<lparr>cn_worker := Posted (Inl e)\<rparr>)
      | Inr r \<Rightarrow> Some (c\<lparr>cn_worker := Posted (Inr r), cn_granted := cn_granted c @ [wr_session_url r]\<rparr>))"
| "worker_step (Posted (Inl e)) wo c =
     Some (finish (if cn_closing c then c else fail_connect (we_kind e) (''WHEP POST failed: '' @ we_message e) c))"
| "worker_step (Posted (Inr r)) wo c =
     Some (c\<lparr>cn_worker := (if cn_closing c then HangingUp (wr_session_url r) else Storing r)\<rparr>)"
| "worker_step (HangingUp url) wo c = Some (finish (hang_up url c))"
| "worker_step (Storing r) wo c = Some (c\<lparr>cn_session := wr_session_url r, cn_worker := Priming (wr_answer_sdp r)\<rparr>)"
| "worker_step (Priming sdp) wo c =
     Some (c\<lparr>cn_normalizer := prime_from_answer sdp (cn_normalizer c), cn_worker := Answering sdp\<rparr>)"
| "worker_step (Answering sdp) wo c =
     Some (finish (case wo_remote wo of None \<Rightarrow> c | Some e \<Rightarrow> fail_connect WBadResponse (''answer rejected: '' @ e) c))"
| "worker_step NoWorker wo c = None"
| "worker_step WorkerDone wo c = None"

subsection \<open>Closing\<close>

fun close_step :: "closer \<Rightarrow> connection \<Rightarrow> connection option" where
  "close_step NotClosing c = Some (c\<lparr>cn_closing := True, cn_closer := Aborting\<rparr>)"
| "close_step Aborting c = Some (c\<lparr>cn_aborted := True, cn_closer := Joining\<rparr>)"
| "close_step Joining c =
     (if cn_worker c = NoWorker \<or> cn_worker c = WorkerDone
      then Some (c\<lparr>cn_worker := NoWorker, cn_closer := TakingSession\<rparr>) else None)"
| "close_step TakingSession c =
     Some (c\<lparr>cn_session := [], cn_closer := (if cn_session c \<noteq> [] then Deleting (cn_session c) else Detaching)\<rparr>)"
| "close_step (Deleting url) c = Some ((hang_up url c)\<lparr>cn_closer := Detaching\<rparr>)"
| "close_step Detaching c = Some ((teardown_peer c)\<lparr>cn_listening := False, cn_closer := Clearing\<rparr>)"
| "close_step Clearing c = Some (c\<lparr>cn_queue := [], cn_normalizer := new_normalizer, cn_closer := Resetting\<rparr>)"
| "close_step Resetting c =
     Some (c\<lparr>cn_closing := False, cn_gathered := False, cn_state := CClosed, cn_closer := NotClosing\<rparr>)"

subsection \<open>All the actions\<close>

text \<open>The owner's actions come from one thread, so not while it closes; the library calls back only while the
  peer connection exists.\<close>

datatype conn_action =
    SetCallbacks | Open open_outcome connection_config | Close | Drain
  | Work work_outcome
  | PeerState peer_state | GatheringComplete | Frame int string

fun conn_act :: "conn_action \<Rightarrow> connection \<Rightarrow> connection option" where
  "conn_act SetCallbacks c = (if cn_closer c = NotClosing then Some (set_callbacks c) else None)"
| "conn_act (Open oo config) c = (if cn_closer c = NotClosing then Some (snd (open_connection oo config c)) else None)"
| "conn_act Close c = close_step (cn_closer c) c"
| "conn_act Drain c = (if cn_closer c = NotClosing then Some (snd (drain_frames c)) else None)"
| "conn_act (Work wo) c = worker_step (cn_worker c) wo c"
| "conn_act (PeerState s) c = (if cn_peer c then Some (report_state (to_connection_state s) c) else None)"
| "conn_act GatheringComplete c = (if cn_peer c then Some (c\<lparr>cn_gathered := True\<rparr>) else None)"
| "conn_act (Frame now au) c = (if cn_peer c then Some (on_frame now au c) else None)"

fun conn_acts :: "conn_action list \<Rightarrow> connection \<Rightarrow> connection option" where
  "conn_acts [] c = Some c"
| "conn_acts (a # as') c = (case conn_act a c of None \<Rightarrow> None | Some c' \<Rightarrow> conn_acts as' c')"

inductive conn_reachable :: "connection \<Rightarrow> bool" where
  conn_reachable_new: "conn_reachable new_connection"
| conn_reachable_act: "conn_reachable c \<Longrightarrow> conn_act a c = Some c' \<Longrightarrow> conn_reachable c'"

subsection \<open>The sessions a connection holds\<close>

fun worker_session :: "worker \<Rightarrow> string list" where
  "worker_session (Posted (Inr r)) = [wr_session_url r]"
| "worker_session (HangingUp url) = [url]"
| "worker_session (Storing r) = [wr_session_url r]"
| "worker_session w = []"

fun closer_session :: "closer \<Rightarrow> string list" where
  "closer_session (Deleting url) = [url]"
| "closer_session cl = []"

definition held :: "connection \<Rightarrow> string list" where
  "held c = worker_session (cn_worker c) @ filter (\<lambda>s. s \<noteq> []) [cn_session c] @ closer_session (cn_closer c)"

definition stored_by :: "worker \<Rightarrow> bool" where
  "stored_by w \<longleftrightarrow> (case w of Priming sdp \<Rightarrow> True | Answering sdp \<Rightarrow> True | WorkerDone \<Rightarrow> True | _ \<Rightarrow> False)"

definition joined :: "closer \<Rightarrow> bool" where
  "joined cl \<longleftrightarrow> cl \<noteq> NotClosing \<and> cl \<noteq> Aborting \<and> cl \<noteq> Joining"

definition sendable :: "connection \<Rightarrow> bool" where
  "sendable c \<longleftrightarrow> cc_token (cn_config c) = [] \<or> token_sane (cc_token (cn_config c))"

definition sessions_accounted :: "connection \<Rightarrow> bool" where
  "sessions_accounted c \<longleftrightarrow> set (cn_granted c) \<subseteq> set (cn_hung_up c) \<union> set (held c)"

definition in_step :: "connection \<Rightarrow> bool" where
  "in_step c \<longleftrightarrow>
     (joined (cn_closer c) \<longrightarrow> cn_worker c = NoWorker)
     \<and> (cn_session c \<noteq> [] \<longrightarrow> stored_by (cn_worker c) \<or> cn_closer c = TakingSession)
     \<and> (held c \<noteq> [] \<longrightarrow> sendable c)
     \<and> list_all (\<lambda>s. s \<noteq> []) (worker_session (cn_worker c))
     \<and> (cn_closer c \<noteq> NotClosing \<longrightarrow> cn_closing c)
     \<and> length (cn_queue c) \<le> max_queued_frames"

lemma fail_connect_simps [simp]:
  "cn_config (fail_connect k m c) = cn_config c" "cn_worker (fail_connect k m c) = cn_worker c"
  "cn_closer (fail_connect k m c) = cn_closer c" "cn_session (fail_connect k m c) = cn_session c"
  "cn_granted (fail_connect k m c) = cn_granted c" "cn_hung_up (fail_connect k m c) = cn_hung_up c"
  "cn_closing (fail_connect k m c) = cn_closing c" "cn_queue (fail_connect k m c) = cn_queue c"
  "cn_peer (fail_connect k m c) = cn_peer c"
  by (simp_all add: fail_connect_def notify_def)

lemma report_state_simps [simp]:
  "cn_config (report_state s c) = cn_config c" "cn_worker (report_state s c) = cn_worker c"
  "cn_closer (report_state s c) = cn_closer c" "cn_session (report_state s c) = cn_session c"
  "cn_granted (report_state s c) = cn_granted c" "cn_hung_up (report_state s c) = cn_hung_up c"
  "cn_closing (report_state s c) = cn_closing c" "cn_queue (report_state s c) = cn_queue c"
  "cn_peer (report_state s c) = cn_peer c"
  by (simp_all add: report_state_def notify_def)

lemma hang_up_simps [simp]:
  "cn_config (hang_up u c) = cn_config c" "cn_worker (hang_up u c) = cn_worker c"
  "cn_closer (hang_up u c) = cn_closer c" "cn_session (hang_up u c) = cn_session c"
  "cn_granted (hang_up u c) = cn_granted c" "cn_closing (hang_up u c) = cn_closing c"
  "cn_queue (hang_up u c) = cn_queue c" "cn_peer (hang_up u c) = cn_peer c"
  by (simp_all add: hang_up_def)

lemma hang_up_sent: "sendable c \<Longrightarrow> cn_hung_up (hang_up u c) = cn_hung_up c @ [u]"
  by (auto simp: hang_up_def delete_session_def sendable_def make_request_def)

lemma posted_sendable: "fst (post_offer http ab url token offer t) = Inr r \<Longrightarrow> token = [] \<or> token_sane token"
  by (auto simp: post_offer_def split: if_splits)

lemma resolve_location_nonempty: "loc \<noteq> [] \<Longrightarrow> resolve_location url loc \<noteq> []"
  by (auto simp: resolve_location_def split: option.splits)

lemma posted_session: "fst (post_offer http ab url token offer t) = Inr r \<Longrightarrow> wr_session_url r \<noteq> []"
  by (auto simp: post_offer_def check_answer_def check_location_def Let_def resolve_location_nonempty
      split: if_splits option.splits)

lemma in_stepI:
  "(joined (cn_closer c) \<Longrightarrow> cn_worker c = NoWorker) \<Longrightarrow>
   (cn_session c \<noteq> [] \<Longrightarrow> stored_by (cn_worker c) \<or> cn_closer c = TakingSession) \<Longrightarrow>
   (held c \<noteq> [] \<Longrightarrow> sendable c) \<Longrightarrow> list_all (\<lambda>s. s \<noteq> []) (worker_session (cn_worker c)) \<Longrightarrow>
   (cn_closer c \<noteq> NotClosing \<Longrightarrow> cn_closing c) \<Longrightarrow> length (cn_queue c) \<le> max_queued_frames \<Longrightarrow> in_step c"
  by (simp add: in_step_def)

lemma in_stepD:
  assumes "in_step c"
  shows "joined (cn_closer c) \<Longrightarrow> cn_worker c = NoWorker"
    and "cn_session c \<noteq> [] \<Longrightarrow> stored_by (cn_worker c) \<or> cn_closer c = TakingSession"
    and "held c \<noteq> [] \<Longrightarrow> sendable c"
    and "list_all (\<lambda>s. s \<noteq> []) (worker_session (cn_worker c))"
    and "cn_closer c \<noteq> NotClosing \<Longrightarrow> cn_closing c"
    and "length (cn_queue c) \<le> max_queued_frames"
  using assms by (simp_all add: in_step_def)

lemma in_step_no_session:
  "in_step c \<Longrightarrow> cn_worker c \<noteq> NoWorker \<Longrightarrow> \<not> stored_by (cn_worker c) \<Longrightarrow> cn_session c = []"
  by (auto simp: in_step_def joined_def)

lemma in_step_url: "in_step c \<Longrightarrow> cn_worker c = Storing r \<Longrightarrow> wr_session_url r \<noteq> []"
  using in_stepD(4) [of c] by simp

lemma in_step_sendable:
  "in_step c \<Longrightarrow> cn_worker c = HangingUp u \<Longrightarrow> sendable c"
  "in_step c \<Longrightarrow> cn_closer c = Deleting u \<Longrightarrow> sendable c"
  using in_stepD(3) [of c] by (simp_all add: held_def)

lemma worker_step_accounts:
  "cn_worker c = w \<Longrightarrow> in_step c \<Longrightarrow> sessions_accounted c \<Longrightarrow> pred_option sessions_accounted (worker_step w wo c)"
  by (induction w wo c rule: worker_step.induct)
    (auto simp: sessions_accounted_def held_def finish_def hang_up_sent in_step_sendable in_step_no_session in_step_url stored_by_def
      split: sum.splits option.splits)

lemma close_step_accounts:
  "cn_closer c = cl \<Longrightarrow> in_step c \<Longrightarrow> sessions_accounted c \<Longrightarrow> pred_option sessions_accounted (close_step cl c)"
  by (induction cl c rule: close_step.induct)
    (auto simp: sessions_accounted_def held_def hang_up_sent in_step_sendable teardown_peer_def)

lemma worker_step_in_step:
  "cn_worker c = w \<Longrightarrow> in_step c \<Longrightarrow> pred_option in_step (worker_step w wo c)"
proof (induction w wo c rule: worker_step.induct)
  case (1 wo c)
  then show ?case by (auto simp: in_step_def held_def finish_def sendable_def stored_by_def)
next
  case (2 wo c)
  then show ?case by (auto simp: in_step_def held_def finish_def sendable_def stored_by_def split: sum.splits option.splits)
next
  case (3 offer wo c)
  then show ?case
    by (auto simp: in_step_def held_def sendable_def stored_by_def posted_session split: sum.splits dest: posted_sendable)
next
  case (5 r wo c)
  then show ?case by (auto simp: in_step_def held_def sendable_def stored_by_def)
qed (auto simp: in_step_def held_def finish_def sendable_def stored_by_def split: option.splits)

lemma close_step_in_step:
  "cn_closer c = cl \<Longrightarrow> in_step c \<Longrightarrow> pred_option in_step (close_step cl c)"
proof (induction cl c rule: close_step.induct)
  case (4 c)
  then show ?case by (simp add: in_step_def held_def sendable_def joined_def)
next
  case (3 c)
  then show ?case by (auto simp: in_step_def held_def sendable_def joined_def)
qed (auto simp: in_step_def held_def sendable_def joined_def stored_by_def teardown_peer_def)

lemma open_in_step:
  assumes "in_step c" "sessions_accounted c" "cn_closer c = NotClosing"
  shows "in_step (snd (open_connection oo config c)) \<and> sessions_accounted (snd (open_connection oo config c))"
proof (cases "cn_peer c \<or> cn_worker c \<noteq> NoWorker")
  case True
  with assms show ?thesis by (simp add: open_connection_def)
next
  case False
  with assms have "cn_worker c = NoWorker" "cn_session c = []" by (auto simp: in_step_def stored_by_def)
  with False assms show ?thesis
    by (auto simp: open_connection_def in_step_def sessions_accounted_def held_def sendable_def stored_by_def joined_def Let_def
        teardown_peer_def split: option.splits)
qed

lemma make_room_length: "length (make_room q) < max_queued_frames"
  by (auto simp: make_room_def max_queued_frames_def)

lemma on_frame_simps [simp]:
  "cn_config (on_frame t au c) = cn_config c" "cn_worker (on_frame t au c) = cn_worker c"
  "cn_closer (on_frame t au c) = cn_closer c" "cn_session (on_frame t au c) = cn_session c"
  "cn_granted (on_frame t au c) = cn_granted c" "cn_hung_up (on_frame t au c) = cn_hung_up c"
  "cn_closing (on_frame t au c) = cn_closing c" "cn_peer (on_frame t au c) = cn_peer c"
  by (simp_all add: on_frame_def split: prod.splits)

lemma on_frame_queue: "length (cn_queue c) \<le> max_queued_frames \<Longrightarrow> length (cn_queue (on_frame t au c)) \<le> max_queued_frames"
  using make_room_length [of "cn_queue c"] by (auto simp: on_frame_def Suc_le_eq split: prod.splits)

lemma on_frame_keeps: "in_step c \<Longrightarrow> sessions_accounted c \<Longrightarrow> in_step (on_frame t au c) \<and> sessions_accounted (on_frame t au c)"
  using on_frame_queue [of c t au] by (simp add: in_step_def sessions_accounted_def held_def sendable_def)

lemma act_keeps:
  assumes "conn_act a c = Some c'" "in_step c" "sessions_accounted c"
  shows "in_step c' \<and> sessions_accounted c'"
proof (cases a)
  case (Frame now au)
  with assms on_frame_keeps [of c now au] show ?thesis by (auto split: if_splits)
next
  case (Open oo config)
  with assms open_in_step [of c oo config] show ?thesis by (auto split: if_splits)
next
  case (Work wo)
  with assms worker_step_in_step [of c "cn_worker c" wo] worker_step_accounts [of c "cn_worker c" wo] show ?thesis by simp
next
  case Close
  with assms close_step_in_step [of c "cn_closer c"] close_step_accounts [of c "cn_closer c"] show ?thesis by simp
next
  case SetCallbacks
  with assms show ?thesis by (auto simp: in_step_def sessions_accounted_def held_def sendable_def set_callbacks_def split: if_splits)
next
  case Drain
  with assms show ?thesis by (auto simp: in_step_def sessions_accounted_def held_def sendable_def drain_frames_def split: if_splits)
next
  case (PeerState st)
  with assms have "c' = report_state (to_connection_state st) c" by (simp split: if_splits)
  with assms show ?thesis by (simp add: in_step_def sessions_accounted_def held_def sendable_def)
next
  case GatheringComplete
  with assms have "c' = c\<lparr>cn_gathered := True\<rparr>" by (simp split: if_splits)
  with assms show ?thesis by (simp add: in_step_def sessions_accounted_def held_def sendable_def)
qed

lemma conn_reachable_in_step: "conn_reachable c \<Longrightarrow> in_step c \<and> sessions_accounted c"
proof (induction rule: conn_reachable.induct)
  case conn_reachable_new
  show ?case by (simp add: in_step_def sessions_accounted_def held_def new_connection_def joined_def max_queued_frames_def)
next
  case (conn_reachable_act c a c')
  then show ?case using act_keeps by blast
qed

lemma conn_reachable_acts: "conn_reachable c \<Longrightarrow> conn_acts as' c = Some c' \<Longrightarrow> conn_reachable c'"
  by (induction as' arbitrary: c) (auto split: option.splits intro: conn_reachable_act)

subsection \<open>Sessions are hung up\<close>

text \<open>C26. No session leaks: in whatever order the owner, the worker and the library's callbacks run, once the
  connection is closed (nothing closes it and no worker is left) every session a server granted to one of its
  posts, the post that raced the close included, has been asked to end.\<close>

theorem sessions_hung_up:
  assumes "conn_reachable c" "cn_closer c = NotClosing" "cn_worker c = NoWorker"
  shows "set (cn_granted c) \<subseteq> set (cn_hung_up c)"
proof -
  from conn_reachable_in_step [OF assms(1)] have "in_step c" "sessions_accounted c" by blast+
  moreover from this assms have "held c = []" by (auto simp: in_step_def held_def stored_by_def)
  ultimately show ?thesis by (simp add: sessions_accounted_def)
qed

definition whep_site :: http where
  "whep_site rq = Some \<lparr>rs_code = HttpOk, rs_status = 201, rs_message = [], rs_body = ''v=0'',
     rs_header = (\<lambda>h. if h = ''Location'' then Some ''/cam/42'' else None)\<rparr>"

definition raced_close :: "conn_action list" where
  "raced_close =
     [SetCallbacks, Open \<lparr>oo_peer = None, oo_offer = None, oo_worker = None\<rparr> (default_config\<lparr>cc_whep_url := ''http://r/cam/whep''\<rparr>),
      GatheringComplete]
     @ replicate 3 (Work \<lparr>wo_timed_out = False, wo_local = Inr (Some ''v=0''), wo_http = whep_site, wo_remote = None\<rparr>)
     @ replicate 2 Close
     @ replicate 2 (Work \<lparr>wo_timed_out = False, wo_local = Inr (Some ''v=0''), wo_http = whep_site, wo_remote = None\<rparr>)
     @ replicate 5 Close"

lemma whep_site_posts:
  "fst (post_offer whep_site False ''http://r/cam/whep'' [] ''v=0'' t)
    = Inr \<lparr>wr_answer_sdp = ''v=0'', wr_session_url = ''http://r/cam/42''\<rparr>"
proof -
  have "resolve_location ''http://r/cam/whep'' ''/cam/42'' = ''http://r/cam/42''" "find_str scheme_mark ''/cam/42'' 0 = None"
    by code_simp+
  moreover have "\<not> max_response_bytes < length ''v=0''" by (simp add: max_response_bytes_def)
  ultimately show ?thesis by (simp add: post_offer_def whep_site_def check_answer_def check_location_def Let_def)
qed

theorem sessions_hung_up_witness:
  "\<exists>c. conn_acts raced_close new_connection = Some c \<and> cn_granted c = [''http://r/cam/42'']
     \<and> set (cn_granted c) \<subseteq> set (cn_hung_up c)"
proof -
  obtain c where c: "conn_acts raced_close new_connection = Some c" "cn_granted c = [''http://r/cam/42'']"
    "cn_closer c = NotClosing" "cn_worker c = NoWorker"
    by (simp add: raced_close_def numeral_eq_Suc new_connection_def set_callbacks_def open_connection_def default_config_def
        report_state_def notify_def whep_site_posts [simplified numeral_eq_Suc] hang_up_def delete_session_def make_request_def finish_def
        teardown_peer_def)
  from sessions_hung_up [OF conn_reachable_acts [OF conn_reachable_new c(1)] c(3,4)] c show ?thesis by blast
qed

subsection \<open>Closing ends\<close>

fun worker_rank :: "worker \<Rightarrow> nat" where
  "worker_rank Waiting = 7"
| "worker_rank MakingOffer = 6"
| "worker_rank (Posting offer) = 5"
| "worker_rank (Posted out) = 4"
| "worker_rank (Storing r) = 3"
| "worker_rank (Priming sdp) = 2"
| "worker_rank (Answering sdp) = 1"
| "worker_rank (HangingUp url) = 1"
| "worker_rank w = 0"

fun closer_rank :: "closer \<Rightarrow> nat" where
  "closer_rank NotClosing = 0"
| "closer_rank Aborting = 7"
| "closer_rank Joining = 6"
| "closer_rank TakingSession = 5"
| "closer_rank (Deleting url) = 4"
| "closer_rank Detaching = 3"
| "closer_rank Clearing = 2"
| "closer_rank Resetting = 1"

definition close_rank :: "connection \<Rightarrow> nat" where
  "close_rank c = worker_rank (cn_worker c) + closer_rank (cn_closer c)"

definition of_close :: "conn_action \<Rightarrow> bool" where
  "of_close a \<longleftrightarrow> (case a of Close \<Rightarrow> True | Work wo \<Rightarrow> True | _ \<Rightarrow> False)"

lemma worker_step_rank:
  "cn_worker c = w \<Longrightarrow> worker_step w wo c = Some c' \<Longrightarrow>
    worker_rank (cn_worker c') < worker_rank w \<and> cn_closer c' = cn_closer c"
  by (induction w wo c rule: worker_step.induct) (auto simp: finish_def split: if_splits sum.splits option.splits)

lemma worker_step_enabled:
  "cn_closing c \<Longrightarrow> w \<noteq> NoWorker \<Longrightarrow> w \<noteq> WorkerDone \<Longrightarrow> worker_step w wo c \<noteq> None"
  by (induction w wo c rule: worker_step.induct) (auto split: sum.splits option.splits)

lemma close_step_rank:
  "cn_closer c = cl \<Longrightarrow> cl \<noteq> NotClosing \<Longrightarrow> close_step cl c = Some c' \<Longrightarrow>
    closer_rank (cn_closer c') < closer_rank cl \<and> worker_rank (cn_worker c') \<le> worker_rank (cn_worker c)"
  by (induction cl c rule: close_step.induct) (auto simp: teardown_peer_def split: if_splits)

lemma close_step_enabled: "cl \<noteq> Joining \<or> cn_worker c = NoWorker \<or> cn_worker c = WorkerDone \<Longrightarrow> close_step cl c \<noteq> None"
  by (induction cl c rule: close_step.induct) auto

lemma act_rank:
  assumes "conn_act a c = Some c'" "cn_closer c \<noteq> NotClosing"
  shows "close_rank c' \<le> close_rank c \<and> (\<not> of_close a \<or> close_rank c' < close_rank c)"
proof (cases a)
  case (Work wo)
  with assms worker_step_rank [of c "cn_worker c" wo c'] show ?thesis by (simp add: close_rank_def)
next
  case Close
  with assms close_step_rank [of c "cn_closer c" c'] show ?thesis by (simp add: close_rank_def)
qed (use assms in \<open>auto simp: close_rank_def of_close_def split: if_splits\<close>)

text \<open>C27. Closing always ends: while a connection closes, the worker or the closer can go on whatever its
  calls return, each such action brings the end nearer, no callback of the library puts it off, and at most
  fourteen of them are left.\<close>

theorem closing_ends:
  assumes "conn_reachable c" "cn_closer c \<noteq> NotClosing"
  shows "close_rank c \<le> 14
    \<and> (conn_act Close c \<noteq> None \<or> (\<forall>wo. conn_act (Work wo) c \<noteq> None))
    \<and> (\<forall>a c'. conn_act a c = Some c' \<longrightarrow> close_rank c' \<le> close_rank c \<and> (\<not> of_close a \<or> close_rank c' < close_rank c))"
proof (intro conjI allI impI)
  have "worker_rank (cn_worker c) \<le> 7" by (cases "cn_worker c" rule: worker_rank.cases) auto
  moreover have "closer_rank (cn_closer c) \<le> 7" by (cases "cn_closer c") auto
  ultimately show "close_rank c \<le> 14" by (simp add: close_rank_def)
  from conn_reachable_in_step [OF assms(1)] assms(2) have "cn_closing c" by (simp add: in_step_def)
  then show "conn_act Close c \<noteq> None \<or> (\<forall>wo. conn_act (Work wo) c \<noteq> None)"
    using worker_step_enabled [of c "cn_worker c"] close_step_enabled [of "cn_closer c" c] by auto
qed (use act_rank [OF _ assms(2)] in blast)+

theorem closing_ends_witness:
  "close_rank (new_connection\<lparr>cn_closing := True, cn_closer := Aborting\<rparr>) \<le> 14"
proof -
  have "conn_reachable (new_connection\<lparr>cn_closing := True, cn_closer := Aborting\<rparr>)"
    by (rule conn_reachable_act [OF conn_reachable_new, of Close]) (simp add: new_connection_def)
  from closing_ends [OF this] show ?thesis by simp
qed

subsection \<open>A closed connection is silent\<close>

lemma closed_is_silent:
  assumes "cn_worker c = NoWorker" "\<not> cn_peer c"
  shows "conn_act (Work wo) c = None" "conn_act (PeerState s) c = None" "conn_act GatheringComplete c = None" "conn_act (Frame t au) c = None"
  using assms by simp_all

text \<open>A connection whose worker thread did not start is left in the state it announced, not closed.\<close>

theorem failed_start_stays_connecting:
  assumes "\<not> cn_peer c" "cn_worker c = NoWorker" "cc_whep_url config \<noteq> []"
  shows "fst (open_connection \<lparr>oo_peer = None, oo_offer = None, oo_worker = Some e\<rparr> config c) \<noteq> None
    \<and> cn_state (snd (open_connection \<lparr>oo_peer = None, oo_offer = None, oo_worker = Some e\<rparr> config c)) = CConnecting"
  using assms by (simp add: open_connection_def teardown_peer_def report_state_def notify_def Let_def)

subsection \<open>Frames\<close>

lemma make_room_newest: "\<exists>dropped. q = dropped @ make_room q"
  unfolding make_room_def by (metis append_take_drop_id)

lemma drain_all: "drain_frames c = (q, c') \<Longrightarrow> q = cn_queue c \<and> cn_queue c' = []"
  by (auto simp: drain_frames_def)

text \<open>A parameter set taken from an answer has none of the characters that end it.\<close>

lemma sprop_clean: "list_all (\<lambda>c. \<not> sprop_ends c) (extract_first_sprop sdp)"
  by (auto simp: extract_first_sprop_def list_all_iff dest: set_takeWhileD split: option.splits)

end
