(* ===== verification/WebrtcSource.thy ===== *)
theory WebrtcSource
  imports WhepConnection OrdMap
begin

section \<open>The WebRTC source (data_stream_webrtc/webrtc_source.cpp)\<close>

text \<open>
  The cameras of the source: start, poll and stop, the callbacks of a camera's connection, the retries with
  growing delays, and the frames handed to the host. The poll thread and the threads behind a connection
  interleave: between two stages of a poll a camera's connection makes the moves its environment lists, and
  the notices it gives reach the camera at once. A connection that closes makes the moves of a schedule of its
  worker and closer. Facts shown: a camera without a connection is refused for good or has a retry due within
  242 polls, its delay stays between 500 and 8000 ms, and the error of the fifth failure is reported once.
\<close>

subsection \<open>Cameras\<close>

definition min_backoff_ms :: int where "min_backoff_ms = 500"
definition max_backoff_ms :: int where "max_backoff_ms = 8000"
definition poll_period_ms :: int where "poll_period_ms = 33"
definition stable_connection_polls :: nat where "stable_connection_polls = nat (10000 div poll_period_ms)"
definition escalate_after_attempts :: int where "escalate_after_attempts = 5"

record camera =
  cm_path :: string
  cm_topic :: string
  cm_frame_id :: string
  cm_binding :: "nat option"
  cm_conn :: "connection option"
  cm_backoff_ms :: int
  cm_reconnect_at :: nat
  cm_connected_at :: nat
  cm_failed_attempts :: int
  cm_escalated :: bool
  cm_lost :: bool
  cm_terminal :: bool
  cm_connected :: bool

datatype severity = SevInfo | SevWarning | SevError

datatype webrtc_call = Report severity string | PushFrame nat encoded_frame string

record webrtc =
  ws_server_url :: string
  ws_token :: string
  ws_prefix :: string
  ws_ice :: "ice_server list"
  ws_cameras :: "(string, camera) omap"
  ws_pending :: "string list"
  ws_polls :: nat

definition make_topic :: "string \<Rightarrow> string \<Rightarrow> string" where
  "make_topic prefix leaf =
     (let p = strip_slashes_back prefix in if p = [] then leaf else p @ ''/'' @ leaf)"

definition new_camera :: "string \<Rightarrow> string \<Rightarrow> camera" where
  "new_camera prefix path =
     \<lparr>cm_path = path, cm_topic = make_topic prefix path, cm_frame_id = path, cm_binding = None, cm_conn = None,
      cm_backoff_ms = min_backoff_ms, cm_reconnect_at = 0, cm_connected_at = 0, cm_failed_attempts = 0,
      cm_escalated = False, cm_lost = False, cm_terminal = False, cm_connected = False\<rparr>"

definition backoff_polls :: "int \<Rightarrow> nat" where
  "backoff_polls ms = nat (max 1 (ms div poll_period_ms))"

definition note_failed_attempt :: "camera \<Rightarrow> camera \<times> webrtc_call list" where
  "note_failed_attempt cam =
     (let n = cm_failed_attempts cam + 1; cam = cam\<lparr>cm_failed_attempts := n\<rparr> in
      if n \<ge> escalate_after_attempts \<and> \<not> cm_escalated cam
      then (cam\<lparr>cm_escalated := True\<rparr>,
            [Report SevError (''WHEP '' @ [CHR 0x27] @ cm_path cam @ [CHR 0x27] @ '': still failing after '' @ int_text n
              @ '' attempts (check server URL / that the path is published).'')])
      else (cam, [Report SevInfo (''WHEP '' @ [CHR 0x27] @ cm_path cam @ [CHR 0x27] @ '' disconnected; reconnecting...'')]))"

subsection \<open>The callbacks and the moves of a connection\<close>

text \<open>A camera with the diagnostics queued by the callbacks, which the cameras share.\<close>

type_synonym runtime = "camera \<times> string list"

fun deliver_notice :: "notice \<Rightarrow> runtime \<Rightarrow> runtime" where
  "deliver_notice (StateNotice s) (cam, pending) =
     (if s = CDisconnected \<or> s = CFailed \<or> s = CClosed then (cam\<lparr>cm_lost := True\<rparr>, pending)
      else if s = CConnected then (cam\<lparr>cm_connected := True\<rparr>, pending)
      else (cam, pending))"
| "deliver_notice (ErrorNotice kind reason) (cam, pending) =
     (cam\<lparr>cm_terminal := cm_terminal cam \<or> kind = WUnauthorized, cm_lost := True\<rparr>,
      pending @ [''WHEP '' @ [CHR 0x27] @ cm_path cam @ [CHR 0x27] @ '': '' @ reason])"

definition camera_act :: "conn_action \<Rightarrow> runtime \<Rightarrow> runtime" where
  "camera_act a rt =
     (case cm_conn (fst rt) of
        None \<Rightarrow> rt
      | Some c \<Rightarrow>
          (case conn_act a c of
             None \<Rightarrow> rt
           | Some c' \<Rightarrow> fold deliver_notice (drop (length (cn_notices c)) (cn_notices c')) ((fst rt)\<lparr>cm_conn := Some c'\<rparr>, snd rt)))"

text \<open>What other threads than the poll's do.\<close>

fun external :: "conn_action \<Rightarrow> bool" where
  "external (Work wo) = True"
| "external (PeerState s) = True"
| "external GatheringComplete = True"
| "external (Frame now au) = True"
| "external a = False"

definition camera_moves :: "conn_action list \<Rightarrow> runtime \<Rightarrow> runtime" where
  "camera_moves as' rt = fold camera_act (filter external as') rt"

definition teardown_camera :: "conn_action list \<Rightarrow> runtime \<Rightarrow> runtime" where
  "teardown_camera schedule rt =
     (let rt = fold camera_act (Close # filter (\<lambda>a. external a \<or> a = Close) schedule) rt
      in ((fst rt)\<lparr>cm_conn := None, cm_lost := False\<rparr>, snd rt))"

definition connect_camera :: "webrtc \<Rightarrow> open_outcome \<Rightarrow> runtime \<Rightarrow> runtime \<times> webrtc_call list" where
  "connect_camera ws oo rt =
     (let cam = fst rt;
          config = default_config\<lparr>cc_whep_url := build_whep_url (ws_server_url ws) (cm_path cam),
                                  cc_token := ws_token ws, cc_ice_servers := ws_ice ws\<rparr>
      in case open_connection oo config (set_callbacks new_connection) of
           (None, c) \<Rightarrow> (fold deliver_notice (cn_notices c) (cam\<lparr>cm_conn := Some c\<rparr>, snd rt), [])
         | (Some e, c) \<Rightarrow>
             (let rt = fold deliver_notice (cn_notices c) rt; cam = fst rt;
                  pending = snd rt @ [''WHEP open failed ('' @ [CHR 0x27] @ cm_path cam @ [CHR 0x27] @ ''): '' @ e];
                  (cam, calls) = note_failed_attempt
                    (cam\<lparr>cm_conn := None, cm_reconnect_at := ws_polls ws + backoff_polls (cm_backoff_ms cam)\<rparr>)
              in ((cam, pending), calls)))"

subsection \<open>One camera in a poll\<close>

text \<open>What a camera's environment does in a poll: the moves of its connection before each stage, the schedule
  of a close, and the answers of the host and of the library.\<close>

record camera_turn =
  ct_before :: "conn_action list"
  ct_before_drain :: "conn_action list"
  ct_before_lost :: "conn_action list"
  ct_closing :: "conn_action list"
  ct_before_retry :: "conn_action list"
  ct_bind :: "string + nat"
  ct_push :: "encoded_frame \<Rightarrow> string option"
  ct_open :: open_outcome

definition ensure_binding :: "camera_turn \<Rightarrow> camera \<Rightarrow> camera \<times> webrtc_call list" where
  "ensure_binding t cam =
     (if cm_binding cam \<noteq> None then (cam, [])
      else case ct_bind t of
        Inl e \<Rightarrow> (cam, [Report SevWarning (''failed to bind PJ.VideoFrame for '' @ [CHR 0x27] @ cm_path cam @ [CHR 0x27] @ '': '' @ e)])
      | Inr h \<Rightarrow> (cam\<lparr>cm_binding := Some h\<rparr>, []))"

fun push_frames :: "camera_turn \<Rightarrow> encoded_frame list \<Rightarrow> camera \<Rightarrow> camera \<times> webrtc_call list" where
  "push_frames t [] cam = (cam, [])"
| "push_frames t (ef # efs) cam =
     (case ensure_binding t cam of
        (cam, calls) \<Rightarrow>
          (case cm_binding cam of
             None \<Rightarrow> (cam, calls)
           | Some h \<Rightarrow>
               (let more = (case ct_push t ef of None \<Rightarrow> []
                    | Some e \<Rightarrow> [Report SevWarning (''video frame push failed ('' @ cm_path cam @ ''): '' @ e)]);
                    (cam, later) = push_frames t efs cam
                in (cam, calls @ PushFrame h ef (cm_frame_id cam) # more @ later))))"

definition watch_stability :: "nat \<Rightarrow> camera \<Rightarrow> camera" where
  "watch_stability polls cam =
     (let cam = (if cm_connected cam then cam\<lparr>cm_connected := False, cm_connected_at := polls\<rparr> else cam) in
      if cm_connected_at cam \<noteq> 0 \<and> polls - cm_connected_at cam \<ge> stable_connection_polls
      then cam\<lparr>cm_backoff_ms := min_backoff_ms, cm_failed_attempts := 0, cm_escalated := False, cm_connected_at := 0\<rparr>
      else cam)"

definition push_queued_frames :: "camera_turn \<Rightarrow> camera \<Rightarrow> camera \<times> webrtc_call list" where
  "push_queued_frames t cam =
     (case cm_conn cam of
        None \<Rightarrow> (cam, [])
      | Some c \<Rightarrow> (case drain_frames c of (frames, c') \<Rightarrow> push_frames t frames (cam\<lparr>cm_conn := Some c'\<rparr>)))"

definition handle_loss :: "nat \<Rightarrow> camera_turn \<Rightarrow> runtime \<Rightarrow> runtime \<times> webrtc_call list" where
  "handle_loss polls t rt =
     (if \<not> cm_lost (fst rt) then (rt, [])
      else let rt = teardown_camera (ct_closing t) ((fst rt)\<lparr>cm_lost := False, cm_connected_at := 0\<rparr>, snd rt); cam = fst rt in
        if cm_terminal cam
        then ((cam\<lparr>cm_reconnect_at := 0\<rparr>, snd rt),
              [Report SevError (''WHEP '' @ [CHR 0x27] @ cm_path cam @ [CHR 0x27]
                 @ '' stopped: authorization rejected. Fix the Bearer token and Start again.'')])
        else let (cam, calls) = note_failed_attempt
                 (cam\<lparr>cm_reconnect_at := polls + backoff_polls (cm_backoff_ms cam)\<rparr>)
             in ((cam, snd rt), calls))"

definition retry_due :: "nat \<Rightarrow> camera \<Rightarrow> bool" where
  "retry_due polls cam \<longleftrightarrow> cm_conn cam = None \<and> cm_reconnect_at cam \<noteq> 0 \<and> polls \<ge> cm_reconnect_at cam"

definition retry :: "webrtc \<Rightarrow> camera_turn \<Rightarrow> runtime \<Rightarrow> runtime \<times> webrtc_call list" where
  "retry ws t rt =
     (if retry_due (ws_polls ws) (fst rt)
      then connect_camera ws (ct_open t)
             ((fst rt)\<lparr>cm_reconnect_at := 0, cm_backoff_ms := min (cm_backoff_ms (fst rt) * 2) max_backoff_ms\<rparr>, snd rt)
      else (rt, []))"

definition poll_camera :: "webrtc \<Rightarrow> camera_turn \<Rightarrow> runtime \<Rightarrow> runtime \<times> webrtc_call list" where
  "poll_camera ws t rt =
     (let rt0 = camera_moves (ct_before t) rt;
          rt1 = camera_moves (ct_before_drain t) (watch_stability (ws_polls ws) (fst rt0), snd rt0);
          (cam2, calls2) = push_queued_frames t (fst rt1);
          rt3 = camera_moves (ct_before_lost t) (cam2, snd rt1);
          (rt4, calls4) = handle_loss (ws_polls ws) t rt3;
          (rt6, calls6) = retry ws t (camera_moves (ct_before_retry t) rt4)
      in (rt6, calls2 @ calls4 @ calls6))"

subsection \<open>Start, poll and stop\<close>

text \<open>The loop over the cameras; \<open>step\<close> is what is done to each.\<close>

fun each_camera ::
  "(string \<Rightarrow> runtime \<Rightarrow> runtime \<times> webrtc_call list) \<Rightarrow> (string, camera) omap \<Rightarrow> string list \<Rightarrow>
   ((string, camera) omap \<times> string list) \<times> webrtc_call list" where
  "each_camera step [] pending = (([], pending), [])"
| "each_camera step ((path, cam) # cams) pending =
     (case step path (cam, pending) of
        ((cam, pending), calls) \<Rightarrow>
          (case each_camera step cams pending of
             ((cams, pending), later) \<Rightarrow> (((path, cam) # cams, pending), calls @ later)))"

definition webrtc_on_poll :: "(string \<Rightarrow> camera_turn) \<Rightarrow> webrtc \<Rightarrow> webrtc \<times> webrtc_call list" where
  "webrtc_on_poll turns ws0 =
     (let ws = ws0\<lparr>ws_polls := ws_polls ws0 + 1, ws_pending := []\<rparr>;
          ((cams, pending), calls) = each_camera (\<lambda>path. poll_camera ws (turns path)) (ws_cameras ws) []
      in (ws\<lparr>ws_cameras := cams, ws_pending := pending\<rparr>, map (Report SevWarning) (ws_pending ws0) @ calls))"

text \<open>The cameras go once their connections are closed; the diagnostics of the closes stay queued.\<close>

definition webrtc_on_stop :: "(string \<Rightarrow> conn_action list) \<Rightarrow> webrtc \<Rightarrow> webrtc" where
  "webrtc_on_stop schedules ws =
     (let ((cams, pending), calls) =
            each_camera (\<lambda>path rt. (teardown_camera (schedules path) rt, [])) (ws_cameras ws) (ws_pending ws)
      in ws\<lparr>ws_cameras := [], ws_pending := pending\<rparr>)"

text \<open>Reading the configuration of the dialog; the flag is False when the JSON library threw, the servers read
  until then are kept.\<close>

fun read_ice_servers :: "json list \<Rightarrow> ice_server list \<times> bool" where
  "read_ice_servers [] = ([], True)"
| "read_ice_servers (e # es) =
     (case (value_string ''url'' [] e, value_string ''username'' [] e, value_string ''credential'' [] e) of
        (Some u, Some n, Some p) \<Rightarrow>
          (case read_ice_servers es of
             (servers, fine) \<Rightarrow>
               ((if u \<noteq> [] then \<lparr>is_url = u, is_username = n, is_credential = p\<rparr> # servers else servers), fine))
      | _ \<Rightarrow> ([], False))"

definition selected_paths :: "json \<Rightarrow> string list" where
  "selected_paths cfg =
     (case json_array ''selected'' cfg of
        None \<Rightarrow> []
      | Some es \<Rightarrow> concat (map (\<lambda>e. case e of JString s \<Rightarrow> if s \<noteq> [] then [s] else [] | _ \<Rightarrow> []) es))"

fun add_cameras :: "string \<Rightarrow> string list \<Rightarrow> (string, camera) omap \<Rightarrow> (string, camera) omap" where
  "add_cameras prefix [] m = m"
| "add_cameras prefix (path # paths) m =
     add_cameras prefix paths (if map_of m path = None then om_put path (new_camera prefix path) m else m)"

datatype webrtc_result = WebrtcStarted | WebrtcFailed string | WebrtcThrew

definition start_cameras ::
  "(string \<Rightarrow> conn_action list) \<Rightarrow> (string \<Rightarrow> open_outcome) \<Rightarrow> string list \<Rightarrow> webrtc \<Rightarrow> webrtc \<times> webrtc_call list" where
  "start_cameras schedules opens paths ws0 =
     (let ws = (webrtc_on_stop schedules ws0)\<lparr>ws_polls := 0, ws_cameras := add_cameras (ws_prefix ws0) paths []\<rparr>;
          ((cams, pending), calls) = each_camera (\<lambda>path. connect_camera ws (opens path)) (ws_cameras ws) (ws_pending ws)
      in (ws\<lparr>ws_cameras := cams, ws_pending := pending\<rparr>, calls))"

definition webrtc_on_start ::
  "json option \<Rightarrow> (string \<Rightarrow> conn_action list) \<Rightarrow> (string \<Rightarrow> open_outcome) \<Rightarrow> webrtc \<Rightarrow> (webrtc_result \<times> webrtc) \<times> webrtc_call list" where
  "webrtc_on_start config schedules opens ws =
     (case config of
        None \<Rightarrow> ((WebrtcFailed ''invalid dialog config'', ws), [])
      | Some cfg \<Rightarrow>
          (case value_string ''server_url'' ''http://127.0.0.1:8889'' cfg of
             None \<Rightarrow> ((WebrtcThrew, ws), [])
           | Some url \<Rightarrow>
               (let ws = ws\<lparr>ws_server_url := url\<rparr> in
                if url = [] then ((WebrtcFailed (''WHEP server URL is empty '' @ em_dash @ '' set it in the connection dialog''), ws), [])
                else case value_string ''bearer_token'' [] cfg of
                  None \<Rightarrow> ((WebrtcThrew, ws), [])
                | Some token \<Rightarrow>
                    (let ws = ws\<lparr>ws_token := token\<rparr> in
                     case value_string ''topic_prefix'' ''webrtc'' cfg of
                       None \<Rightarrow> ((WebrtcThrew, ws), [])
                     | Some prefix \<Rightarrow>
                         (case read_ice_servers (case json_array ''ice_servers'' cfg of None \<Rightarrow> [] | Some es \<Rightarrow> es) of
                            (ice, fine) \<Rightarrow>
                              (let ws = ws\<lparr>ws_prefix := prefix, ws_ice := ice\<rparr>; paths = selected_paths cfg in
                               if \<not> fine then ((WebrtcThrew, ws), [])
                               else if paths = [] then ((WebrtcFailed ''no stream paths selected'', ws), [])
                               else case start_cameras schedules opens paths ws of
                                      (ws, calls) \<Rightarrow> ((WebrtcStarted, ws), calls)))))))"

subsection \<open>Retries\<close>

definition max_wait :: nat where "max_wait = 242"

text \<open>The parts of a camera that its connection's callbacks leave alone, and what holds of one without a
  connection.\<close>

definition counters_ok :: "nat \<Rightarrow> camera \<Rightarrow> bool" where
  "counters_ok polls cam \<longleftrightarrow>
     min_backoff_ms \<le> cm_backoff_ms cam \<and> cm_backoff_ms cam \<le> max_backoff_ms
     \<and> cm_reconnect_at cam \<le> polls + max_wait
     \<and> cm_escalated cam = (cm_failed_attempts cam \<ge> escalate_after_attempts)"

definition idle_ok :: "camera \<Rightarrow> bool" where
  "idle_ok cam \<longleftrightarrow>
     (cm_conn cam = None \<longrightarrow> \<not> cm_lost cam \<and> cm_terminal cam = (cm_reconnect_at cam = 0))"

definition camera_ok :: "nat \<Rightarrow> camera \<Rightarrow> bool" where
  "camera_ok polls cam \<longleftrightarrow> counters_ok polls cam \<and> idle_ok cam"

lemma backoff_polls_bounds:
  "min_backoff_ms \<le> ms \<Longrightarrow> ms \<le> max_backoff_ms \<Longrightarrow> 0 < backoff_polls ms \<and> backoff_polls ms \<le> max_wait"
  using zdiv_mono1 [of ms 8000 33]
  by (auto simp: backoff_polls_def min_backoff_ms_def max_backoff_ms_def poll_period_ms_def max_wait_def)

lemma counters_frame [simp]:
  "counters_ok polls (cam\<lparr>cm_conn := c\<rparr>) = counters_ok polls cam"
  "counters_ok polls (cam\<lparr>cm_lost := b\<rparr>) = counters_ok polls cam"
  "counters_ok polls (cam\<lparr>cm_terminal := b\<rparr>) = counters_ok polls cam"
  "counters_ok polls (cam\<lparr>cm_connected := b\<rparr>) = counters_ok polls cam"
  "counters_ok polls (cam\<lparr>cm_connected_at := n\<rparr>) = counters_ok polls cam"
  "counters_ok polls (cam\<lparr>cm_binding := h\<rparr>) = counters_ok polls cam"
  by (simp_all add: counters_ok_def)

lemma counters_later: "counters_ok polls cam \<Longrightarrow> counters_ok (Suc polls) cam"
  by (simp add: counters_ok_def)

lemma deliver_counters: "counters_ok polls (fst (deliver_notice n rt)) = counters_ok polls (fst rt)"
  by (cases "(n, rt)" rule: deliver_notice.cases) (auto simp: counters_ok_def cong: conj_cong)

lemma deliver_conn: "cm_conn (fst (deliver_notice n rt)) = cm_conn (fst rt)"
  by (cases "(n, rt)" rule: deliver_notice.cases) auto

lemma fold_deliver:
  "counters_ok polls (fst (fold deliver_notice ns rt)) = counters_ok polls (fst rt)"
  "cm_conn (fst (fold deliver_notice ns rt)) = cm_conn (fst rt)"
  by (induction ns arbitrary: rt) (auto simp: deliver_counters deliver_conn)

lemma camera_act_keeps:
  "counters_ok polls (fst (camera_act a rt)) = counters_ok polls (fst rt)"
  "(cm_conn (fst (camera_act a rt)) = None) = (cm_conn (fst rt) = None)"
  "cm_conn (fst rt) = None \<Longrightarrow> camera_act a rt = rt"
  by (auto simp: camera_act_def fold_deliver split: option.splits)

lemma fold_camera_act:
  "counters_ok polls (fst (fold camera_act as' rt)) = counters_ok polls (fst rt)"
  "(cm_conn (fst (fold camera_act as' rt)) = None) = (cm_conn (fst rt) = None)"
  "cm_conn (fst rt) = None \<Longrightarrow> fold camera_act as' rt = rt"
  by (induction as' arbitrary: rt) (auto simp: camera_act_keeps)

lemma camera_moves_ok: "camera_ok polls (fst rt) \<Longrightarrow> camera_ok polls (fst (camera_moves as' rt))"
  by (cases "cm_conn (fst rt) = None") (auto simp: camera_ok_def idle_ok_def camera_moves_def fold_camera_act)

lemma note_failed_attempt_ok:
  "counters_ok polls cam \<Longrightarrow> counters_ok polls (fst (note_failed_attempt cam))"
  "cm_conn (fst (note_failed_attempt cam)) = cm_conn cam"
  "cm_lost (fst (note_failed_attempt cam)) = cm_lost cam"
  "cm_terminal (fst (note_failed_attempt cam)) = cm_terminal cam"
  "cm_reconnect_at (fst (note_failed_attempt cam)) = cm_reconnect_at cam"
  by (auto simp: note_failed_attempt_def counters_ok_def Let_def)

lemma schedule_retry_ok:
  "counters_ok polls cam \<Longrightarrow> counters_ok polls (cam\<lparr>cm_reconnect_at := polls + backoff_polls (cm_backoff_ms cam)\<rparr>)"
  using backoff_polls_bounds [of "cm_backoff_ms cam"] by (simp add: counters_ok_def)

lemma watch_stability_ok: "camera_ok polls cam \<Longrightarrow> camera_ok polls (watch_stability polls cam)"
  by (auto simp: camera_ok_def counters_ok_def idle_ok_def watch_stability_def Let_def min_backoff_ms_def max_backoff_ms_def
      escalate_after_attempts_def)

lemma ensure_binding_ok: "camera_ok polls cam \<Longrightarrow> camera_ok polls (fst (ensure_binding t cam))"
  by (auto simp: ensure_binding_def camera_ok_def idle_ok_def split: sum.splits)

lemma push_frames_ok: "camera_ok polls cam \<Longrightarrow> camera_ok polls (fst (push_frames t efs cam))"
proof (induction t efs cam rule: push_frames.induct)
  case (2 t ef efs cam)
  obtain cam' calls where b: "ensure_binding t cam = (cam', calls)" by fastforce
  with ensure_binding_ok [OF 2(2), of t] have "camera_ok polls cam'" by simp
  with 2(1) [OF b [symmetric]] b show ?case by (auto simp: Let_def split: option.splits prod.splits)
qed simp

lemma deliver_frames_ok:
  assumes "camera_ok polls cam"
  shows "camera_ok polls (fst (push_queued_frames t cam))"
proof (cases "cm_conn cam")
  case None
  with assms show ?thesis by (simp add: push_queued_frames_def)
next
  case (Some c)
  have "camera_ok polls (cam\<lparr>cm_conn := Some c'\<rparr>)" for c' using assms by (simp add: camera_ok_def idle_ok_def)
  with Some show ?thesis by (simp add: push_queued_frames_def drain_frames_def push_frames_ok)
qed

lemma teardown_camera_ok:
  "counters_ok polls (fst rt) \<Longrightarrow> counters_ok polls (fst (teardown_camera schedule rt))"
  "cm_conn (fst (teardown_camera schedule rt)) = None"
  "\<not> cm_lost (fst (teardown_camera schedule rt))"
  by (simp_all add: teardown_camera_def Let_def fold_camera_act camera_act_keeps)

lemma note_failed_camera_ok:
  assumes "counters_ok polls cam" "cm_conn cam = None" "\<not> cm_lost cam" "\<not> cm_terminal cam"
  shows "camera_ok polls (fst (note_failed_attempt (cam\<lparr>cm_reconnect_at := polls + backoff_polls (cm_backoff_ms cam)\<rparr>)))"
proof -
  have "0 < backoff_polls (cm_backoff_ms cam)" using assms(1) backoff_polls_bounds by (simp add: counters_ok_def)
  then show ?thesis
    using assms note_failed_attempt_ok(1) [OF schedule_retry_ok [OF assms(1)]]
    by (simp add: camera_ok_def idle_ok_def note_failed_attempt_ok)
qed

lemma handle_loss_ok:
  assumes "camera_ok polls (fst rt)"
  shows "camera_ok polls (fst (fst (handle_loss polls t rt)))"
proof (cases "cm_lost (fst rt)")
  case False
  with assms show ?thesis by (simp add: handle_loss_def)
next
  case True
  define torn where "torn = teardown_camera (ct_closing t) ((fst rt)\<lparr>cm_lost := False, cm_connected_at := 0\<rparr>, snd rt)"
  have torn_ok: "counters_ok polls (fst torn)" "cm_conn (fst torn) = None" "\<not> cm_lost (fst torn)"
    using assms by (simp_all add: torn_def camera_ok_def teardown_camera_ok)
  show ?thesis
  proof (cases "cm_terminal (fst torn)")
    case t: True
    have "counters_ok polls ((fst torn)\<lparr>cm_reconnect_at := 0\<rparr>)" using torn_ok by (simp add: counters_ok_def)
    with True t torn_ok show ?thesis
      by (simp add: handle_loss_def torn_def [symmetric] Let_def camera_ok_def idle_ok_def)
  next
    case False
    from note_failed_camera_ok [OF torn_ok False] True False show ?thesis
      by (simp add: handle_loss_def torn_def [symmetric] Let_def split_def)
  qed
qed

lemma connect_camera_ok:
  assumes "counters_ok (ws_polls ws) (fst rt)" "cm_conn (fst rt) = None" "\<not> cm_lost (fst rt)" "\<not> cm_terminal (fst rt)"
  shows "camera_ok (ws_polls ws) (fst (fst (connect_camera ws oo rt)))"
proof -
  define config where "config = default_config\<lparr>cc_whep_url := build_whep_url (ws_server_url ws) (cm_path (fst rt)),
                                  cc_token := ws_token ws, cc_ice_servers := ws_ice ws\<rparr>"
  obtain e c where o: "open_connection oo config (set_callbacks new_connection) = (e, c)" by fastforce
  have quiet: "fold deliver_notice (cn_notices c) rt = rt" for rt
    using o by (cases rt) (auto simp: open_connection_def set_callbacks_def new_connection_def report_state_def notify_def
        teardown_peer_def Let_def split: if_splits option.splits)
  show ?thesis
  proof (cases e)
    case None
    with o assms show ?thesis by (simp add: connect_camera_def config_def [symmetric] quiet camera_ok_def idle_ok_def)
  next
    case (Some m)
    from note_failed_camera_ok [of "ws_polls ws" "(fst rt)\<lparr>cm_conn := None\<rparr>"] assms Some o show ?thesis
      by (simp add: connect_camera_def config_def [symmetric] quiet Let_def split_def)
  qed
qed

lemma retry_ok:
  assumes "camera_ok (ws_polls ws) (fst rt)"
  shows "camera_ok (ws_polls ws) (fst (fst (retry ws t rt)))"
proof (cases "retry_due (ws_polls ws) (fst rt)")
  case False
  with assms show ?thesis by (simp add: retry_def)
next
  case True
  with assms have idle: "cm_conn (fst rt) = None" "\<not> cm_lost (fst rt)" "\<not> cm_terminal (fst rt)"
    by (auto simp: camera_ok_def idle_ok_def retry_due_def)
  have "counters_ok (ws_polls ws) ((fst rt)\<lparr>cm_reconnect_at := 0, cm_backoff_ms := min (cm_backoff_ms (fst rt) * 2) max_backoff_ms\<rparr>)"
    using assms by (auto simp: camera_ok_def counters_ok_def min_backoff_ms_def max_backoff_ms_def)
  with True idle show ?thesis by (simp add: retry_def connect_camera_ok)
qed

lemma poll_camera_ok:
  assumes "camera_ok (ws_polls ws) (fst rt)"
  shows "camera_ok (ws_polls ws) (fst (fst (poll_camera ws t rt)))"
proof -
  let ?p = "ws_polls ws"
  define rt0 where "rt0 = camera_moves (ct_before t) rt"
  define rt1 where "rt1 = camera_moves (ct_before_drain t) (watch_stability ?p (fst rt0), snd rt0)"
  define cam2 where "cam2 = fst (push_queued_frames t (fst rt1))"
  define rt3 where "rt3 = camera_moves (ct_before_lost t) (cam2, snd rt1)"
  define rt4 where "rt4 = fst (handle_loss ?p t rt3)"
  have "camera_ok ?p (fst rt1)" using assms by (simp add: rt0_def rt1_def camera_moves_ok watch_stability_ok)
  then have "camera_ok ?p (fst rt3)" by (simp add: rt3_def cam2_def camera_moves_ok deliver_frames_ok)
  then have "camera_ok ?p (fst rt4)" by (simp add: rt4_def handle_loss_ok)
  then have "camera_ok ?p (fst (fst (retry ws t (camera_moves (ct_before_retry t) rt4))))"
    by (simp add: retry_ok camera_moves_ok)
  moreover have "fst (poll_camera ws t rt) = fst (retry ws t (camera_moves (ct_before_retry t) rt4))"
    by (simp add: poll_camera_def rt0_def rt1_def cam2_def rt3_def rt4_def Let_def split_def)
  ultimately show ?thesis by simp
qed

lemma each_camera_all:
  assumes "list_all (\<lambda>(path, cam). P cam) cams" "\<And>path rt. P (fst rt) \<Longrightarrow> Q (fst (fst (step path rt)))"
  shows "list_all (\<lambda>(path, cam). Q cam) (fst (fst (each_camera step cams pending)))"
  using assms(1)
proof (induction cams arbitrary: pending)
  case (Cons e cams)
  obtain path cam where e: "e = (path, cam)" by fastforce
  obtain cam' pending' calls where st: "step path (cam, pending) = ((cam', pending'), calls)" by (metis prod.collapse)
  obtain cams' pending'' later where ea: "each_camera step cams pending' = ((cams', pending''), later)" by (metis prod.collapse)
  from Cons.prems e have "P cam" "list_all (\<lambda>(path, cam). P cam) cams" by auto
  with assms(2) [of "(cam, pending)" path] st Cons.IH [of pending'] ea e show ?case by simp
qed simp

lemma add_cameras_all:
  "list_all (\<lambda>(path, cam). P cam) m \<Longrightarrow> (\<And>path. P (new_camera prefix path)) \<Longrightarrow>
    list_all (\<lambda>(path, cam). P cam) (add_cameras prefix paths m)"
proof (induction prefix paths m rule: add_cameras.induct)
  case (2 prefix path paths m)
  have put: "P c \<Longrightarrow> list_all (\<lambda>(path, cam). P cam) (om_put k c m)" for k c
    using 2(2) by (induction k c m rule: om_put.induct) auto
  show ?case
  proof (cases "map_of m path")
    case None
    with 2(1) [OF _ 2(3)] put [OF 2(3)] show ?thesis by simp
  next
    case (Some c)
    with 2(1) [OF _ 2(3)] 2(2) show ?thesis by simp
  qed
qed simp

definition cameras_ok :: "webrtc \<Rightarrow> bool" where
  "cameras_ok ws \<longleftrightarrow> list_all (\<lambda>(path, cam). camera_ok (ws_polls ws) cam) (ws_cameras ws)"

lemma start_cameras_ok: "cameras_ok (fst (start_cameras schedules opens paths ws))"
proof -
  let ?fresh = "\<lambda>cam. counters_ok 0 cam \<and> cm_conn cam = None \<and> \<not> cm_lost cam \<and> \<not> cm_terminal cam"
  have "?fresh (new_camera prefix path)" for prefix path
    by (simp add: new_camera_def counters_ok_def min_backoff_ms_def max_backoff_ms_def max_wait_def escalate_after_attempts_def)
  then have "list_all (\<lambda>(path, cam). ?fresh cam) (add_cameras prefix paths [])" for prefix by (intro add_cameras_all) auto
  moreover define ws1 where "ws1 = (webrtc_on_stop schedules ws)\<lparr>ws_polls := 0, ws_cameras := add_cameras (ws_prefix ws) paths []\<rparr>"
  have "camera_ok 0 (fst (fst (connect_camera ws1 (opens path) rt)))" if "?fresh (fst rt)" for path rt
    using connect_camera_ok [of ws1 rt] that by (simp add: ws1_def)
  ultimately have "list_all (\<lambda>(path, cam). camera_ok 0 cam)
      (fst (fst (each_camera (\<lambda>path. connect_camera ws1 (opens path)) (ws_cameras ws1) (ws_pending ws1))))"
    by (intro each_camera_all [where P = ?fresh]) (auto simp: ws1_def)
  then show ?thesis by (simp add: start_cameras_def cameras_ok_def Let_def split_def ws1_def)
qed

lemma on_poll_ok: "cameras_ok ws \<Longrightarrow> cameras_ok (fst (webrtc_on_poll turns ws))"
proof -
  assume ok: "cameras_ok ws"
  let ?ws = "ws\<lparr>ws_polls := ws_polls ws + 1, ws_pending := []\<rparr>"
  have "list_all (\<lambda>(path, cam). camera_ok (ws_polls ?ws) cam) (ws_cameras ws)"
    using ok counters_later by (auto simp: cameras_ok_def camera_ok_def list_all_iff)
  from each_camera_all [where P = "camera_ok (ws_polls ?ws)", OF this, of "camera_ok (ws_polls ?ws)" "\<lambda>path. poll_camera ?ws (turns path)" "[]"]
    poll_camera_ok [of ?ws]
  show ?thesis by (simp add: webrtc_on_poll_def cameras_ok_def split_def Let_def)
qed

lemma on_stop_ok: "cameras_ok (webrtc_on_stop schedules ws)"
  by (simp add: webrtc_on_stop_def cameras_ok_def split_def Let_def)

lemma on_start_ok: "cameras_ok ws \<Longrightarrow> cameras_ok (snd (fst (webrtc_on_start config schedules opens ws)))"
proof -
  assume ok: "cameras_ok ws"
  have same: "cameras_ok (ws\<lparr>ws_server_url := u\<rparr>)" "cameras_ok (ws\<lparr>ws_server_url := u, ws_token := t\<rparr>)"
    "cameras_ok (ws\<lparr>ws_server_url := u, ws_token := t, ws_prefix := p, ws_ice := i\<rparr>)" for u t p i
    using ok by (simp_all add: cameras_ok_def)
  show ?thesis
    using ok same start_cameras_ok
    by (auto simp: webrtc_on_start_def Let_def split_def split: option.splits)
qed

inductive webrtc_reachable :: "webrtc \<Rightarrow> bool" where
  webrtc_new: "ws_cameras ws = [] \<Longrightarrow> webrtc_reachable ws"
| webrtc_start: "webrtc_reachable ws \<Longrightarrow> webrtc_reachable (snd (fst (webrtc_on_start config schedules opens ws)))"
| webrtc_poll: "webrtc_reachable ws \<Longrightarrow> webrtc_reachable (fst (webrtc_on_poll turns ws))"
| webrtc_stop: "webrtc_reachable ws \<Longrightarrow> webrtc_reachable (webrtc_on_stop schedules ws)"

lemma webrtc_reachable_ok: "webrtc_reachable ws \<Longrightarrow> cameras_ok ws"
proof (induction rule: webrtc_reachable.induct)
  case (webrtc_new ws)
  then show ?case by (simp add: cameras_ok_def)
qed (simp_all add: on_start_ok on_poll_ok on_stop_ok)

text \<open>C28. No camera is forgotten: in every state the source can reach, a camera without a connection either was
  refused by the server, and then has no retry, or has one due within 242 polls; its delay stays between 500
  and 8000 ms.\<close>

theorem retries_scheduled:
  assumes "webrtc_reachable ws" "map_of (ws_cameras ws) path = Some cam"
  shows "500 \<le> cm_backoff_ms cam \<and> cm_backoff_ms cam \<le> 8000
    \<and> (cm_conn cam = None \<longrightarrow>
         (if cm_terminal cam then cm_reconnect_at cam = 0
          else 0 < cm_reconnect_at cam \<and> cm_reconnect_at cam \<le> ws_polls ws + 242))"
proof -
  from webrtc_reachable_ok [OF assms(1)] map_of_SomeD [OF assms(2)] have "camera_ok (ws_polls ws) cam"
    by (auto simp: cameras_ok_def list_all_iff)
  then show ?thesis
    by (auto simp: camera_ok_def counters_ok_def idle_ok_def min_backoff_ms_def max_backoff_ms_def max_wait_def)
qed

text \<open>The camera of a source whose peer connection cannot be made.\<close>

definition webrtc_idle :: webrtc where
  "webrtc_idle = \<lparr>ws_server_url = ''http://r'', ws_token = [], ws_prefix = ''webrtc'', ws_ice = [], ws_cameras = [],
     ws_pending = [], ws_polls = 0\<rparr>"

definition no_peer :: "string \<Rightarrow> open_outcome" where
  "no_peer path = \<lparr>oo_peer = Some ''no'', oo_offer = None, oo_worker = None\<rparr>"

theorem retries_scheduled_witness:
  "\<exists>cam. map_of (ws_cameras (snd (fst (webrtc_on_start (Some (JObject [(''selected'', JArray [JString ''cam''])])) (\<lambda>path. []) no_peer
       webrtc_idle)))) ''cam'' = Some cam
     \<and> cm_conn cam = None \<and> \<not> cm_terminal cam \<and> 0 < cm_reconnect_at cam"
proof -
  let ?ws = "snd (fst (webrtc_on_start (Some (JObject [(''selected'', JArray [JString ''cam''])])) (\<lambda>path. []) no_peer webrtc_idle))"
  obtain cam where cam: "map_of (ws_cameras ?ws) ''cam'' = Some cam" "cm_conn cam = None" "\<not> cm_terminal cam"
    by (simp add: webrtc_on_start_def value_string_def json_array_def selected_paths_def start_cameras_def webrtc_on_stop_def Let_def
        webrtc_idle_def new_camera_def connect_camera_def open_connection_def set_callbacks_def new_connection_def no_peer_def
        build_whep_url_def note_failed_attempt_def escalate_after_attempts_def)
  have "webrtc_reachable ?ws" by (intro webrtc_start webrtc_new) (simp add: webrtc_idle_def)
  from retries_scheduled [OF this cam(1)] cam show ?thesis by auto
qed

text \<open>When the retry is due, the poll makes a new connection or counts another failure.\<close>

lemma retry_reconnects:
  assumes "retry_due (ws_polls ws) (fst rt)"
  shows "cm_conn (fst (fst (retry ws t rt))) \<noteq> None
    \<or> cm_failed_attempts (fst (fst (retry ws t rt))) = cm_failed_attempts (fst rt) + 1"
proof -
  have keep: "cm_failed_attempts (fst (fold deliver_notice ns rt)) = cm_failed_attempts (fst rt)" for ns rt
  proof (induction ns arbitrary: rt)
    case (Cons n ns)
    then show ?case by (cases "(n, rt)" rule: deliver_notice.cases) auto
  qed simp
  show ?thesis
    using assms by (auto simp: retry_def connect_camera_def note_failed_attempt_def keep fold_deliver Let_def split_def split: option.splits)
qed

end
