(* ===== verification/PointColor.thy ===== *)
theory PointColor
  imports Prelude
begin

section \<open>Point colours (common/pointcloud_color)\<close>

text \<open>
  Both parsers bring the colour of a point cloud into one field of four bytes in the order red, green, blue,
  alpha: separate channels are merged by rewriting the fields only, a packed colour of PCL by reordering the
  bytes of a copy. A write outside the copy is a value of its own. Facts shown: the colour the host reads from the
  result is that of the source, for every point; the copy is written within its bounds as long as the product
  of the declared sizes fits 64 bits, and outside of them for declared sizes whose product wraps to zero.
\<close>

subsection \<open>Point clouds\<close>

datatype point_type = PtUnknown | PtInt8 | PtUint8 | PtInt16 | PtUint16 | PtInt32 | PtUint32 | PtFloat32 | PtFloat64

record point_field =
  pt_name :: string
  pt_offset :: nat
  pt_type :: point_type
  pt_count :: nat

record point_cloud =
  pc_timestamp :: int
  pc_frame_id :: string
  pc_width :: nat
  pc_height :: nat
  pc_step :: nat
  pc_row_step :: nat
  pc_bigendian :: bool
  pc_dense :: bool
  pc_fields :: "point_field list"
  pc_data :: string

definition canonical_rgba :: string where "canonical_rgba = ''rgba''"
definition canonical_rgb :: string where "canonical_rgb = ''rgb''"

subsection \<open>Separate channels\<close>

text \<open>The loop over the fields keeps the last one of each name.\<close>

definition last_named :: "string \<Rightarrow> point_field list \<Rightarrow> point_field option" where
  "last_named name fs = List.find (\<lambda>f. pt_name f = name) (rev fs)"

definition is_u8 :: "point_field option \<Rightarrow> bool" where
  "is_u8 f = (case f of None \<Rightarrow> False | Some f \<Rightarrow> pt_type f = PtUint8)"

definition u32 :: "nat \<Rightarrow> nat" where "u32 n = n mod 2 ^ 32"

lemma u32_below: "n \<le> m \<Longrightarrow> m < 2 ^ 32 \<Longrightarrow> u32 n = n"
  by (simp add: u32_def)

text \<open>None is a cloud left as it is.\<close>

definition collapse_channels :: "point_cloud \<Rightarrow> point_cloud option" where
  "collapse_channels c =
     (let fs = pc_fields c; red = last_named ''red'' fs; green = last_named ''green'' fs; blue = last_named ''blue'' fs;
          alpha = last_named ''alpha'' fs
      in if \<not> is_u8 red \<or> \<not> is_u8 green \<or> \<not> is_u8 blue then None
         else let base = pt_offset (the red) in
           if pt_offset (the green) \<noteq> u32 (base + 1) \<or> pt_offset (the blue) \<noteq> u32 (base + 2) then None
           else let has_alpha = (is_u8 alpha \<and> pt_offset (the alpha) = u32 (base + 3)) in
             if alpha \<noteq> None \<and> \<not> has_alpha then None
             else if \<not> has_alpha \<and> base + 4 > pc_step c then None
             else let kept = filter (\<lambda>f. \<not> (pt_name f = ''red'' \<or> pt_name f = ''green'' \<or> pt_name f = ''blue''
                                              \<or> has_alpha \<and> pt_name f = ''alpha'')) fs;
                      packed = \<lparr>pt_name = if has_alpha then canonical_rgba else canonical_rgb, pt_offset = base,
                                 pt_type = PtUint32, pt_count = 1\<rparr>
                  in Some (c\<lparr>pc_fields := kept @ [packed]\<rparr>))"

subsection \<open>Packed colours of PCL\<close>

definition is_packed :: "point_field \<Rightarrow> bool" where
  "is_packed f \<longleftrightarrow> (pt_name f = ''rgb'' \<or> pt_name f = ''rgba'') \<and> (pt_type f = PtFloat32 \<or> pt_type f = PtUint32)"

primrec packed_at :: "point_field list \<Rightarrow> nat option" where
  "packed_at [] = None"
| "packed_at (f # fs) = (if is_packed f then Some 0 else map_option Suc (packed_at fs))"

text \<open>The loop over the points from the \<open>i\<close>-th; None is a write outside the buffer.\<close>

fun reorder_points :: "bool \<Rightarrow> nat \<Rightarrow> nat \<Rightarrow> nat \<Rightarrow> nat \<Rightarrow> string \<Rightarrow> string option" where
  "reorder_points has_alpha step offset i 0 bytes = Some bytes"
| "reorder_points has_alpha step offset i (Suc n) bytes =
     (let p = i * step + offset in
      if length bytes < p + 4 then None
      else reorder_points has_alpha step offset (i + 1) n
             (bytes[p := bytes ! (p + 2), p + 1 := bytes ! (p + 1), p + 2 := bytes ! p,
                    p + 3 := (if has_alpha then bytes ! (p + 3) else CHR 0xFF)]))"

datatype colouring = Unchanged | Coloured point_cloud | Overrun

definition u64 :: "nat \<Rightarrow> nat" where "u64 n = n mod 2 ^ 64"

definition repack_packed :: "point_cloud \<Rightarrow> colouring" where
  "repack_packed c =
     (case packed_at (pc_fields c) of
        None \<Rightarrow> Unchanged
      | Some k \<Rightarrow>
          if pc_bigendian c then Unchanged
          else let f = pc_fields c ! k; points = u64 (pc_width c * pc_height c) in
            if pc_step c < pt_offset f + 4 then Unchanged
            else if length (pc_data c) < u64 (points * pc_step c) then Unchanged
            else case reorder_points (pt_name f = ''rgba'') (pc_step c) (pt_offset f) 0 points (pc_data c) of
                None \<Rightarrow> Overrun
              | Some bytes \<Rightarrow>
                  Coloured (c\<lparr>pc_data := bytes,
                    pc_fields := (pc_fields c)[k := f\<lparr>pt_name := canonical_rgba, pt_type := PtUint32, pt_count := 1\<rparr>]\<rparr>))"

definition normalize_color :: "point_cloud \<Rightarrow> colouring" where
  "normalize_color c = (case collapse_channels c of Some c' \<Rightarrow> Coloured c' | None \<Rightarrow> repack_packed c)"

subsection \<open>The colour of a point\<close>

text \<open>As the contract of the canonical field states it for the host: the bytes at the field in increasing
  address, and full opacity for a field without alpha.\<close>

definition host_colour :: "point_field \<Rightarrow> point_cloud \<Rightarrow> nat \<Rightarrow> char list" where
  "host_colour f c i =
     (let p = i * pc_step c + pt_offset f in
      [pc_data c ! p, pc_data c ! (p + 1), pc_data c ! (p + 2), if pt_name f = ''rgba'' then pc_data c ! (p + 3) else CHR 0xFF])"

text \<open>What a source means: separate channels, or the packed order blue, green, red.\<close>

definition channel_byte :: "point_field \<Rightarrow> point_cloud \<Rightarrow> nat \<Rightarrow> char" where
  "channel_byte f c i = pc_data c ! (i * pc_step c + pt_offset f)"

definition channels_colour :: "point_cloud \<Rightarrow> nat \<Rightarrow> char list" where
  "channels_colour c i =
     (let fs = pc_fields c in
      [channel_byte (the (last_named ''red'' fs)) c i, channel_byte (the (last_named ''green'' fs)) c i,
       channel_byte (the (last_named ''blue'' fs)) c i,
       case last_named ''alpha'' fs of None \<Rightarrow> CHR 0xFF | Some a \<Rightarrow> channel_byte a c i])"

definition pcl_colour :: "point_field \<Rightarrow> point_cloud \<Rightarrow> nat \<Rightarrow> char list" where
  "pcl_colour f c i =
     (let p = i * pc_step c + pt_offset f in
      [pc_data c ! (p + 2), pc_data c ! (p + 1), pc_data c ! p, if pt_name f = ''rgba'' then pc_data c ! (p + 3) else CHR 0xFF])"

lemma reorder_points_length: "reorder_points h step off i n bs = Some bs' \<Longrightarrow> length bs' = length bs"
  by (induction h step off i n bs rule: reorder_points.induct) (auto simp: Let_def split: if_splits)

text \<open>The bytes before the point and outside of the colour are left alone.\<close>

lemma reorder_points_below:
  "reorder_points h step off i n bs = Some bs' \<Longrightarrow> j < i * step + off \<Longrightarrow> bs' ! j = bs ! j"
  by (induction h step off i n bs rule: reorder_points.induct) (auto simp: Let_def split: if_splits)

lemma reorder_points_at:
  assumes "reorder_points h step off i n bs = Some bs'" "off + 4 \<le> step" "m < n"
  shows "let p = (i + m) * step + off in
    bs' ! p = bs ! (p + 2) \<and> bs' ! (p + 1) = bs ! (p + 1) \<and> bs' ! (p + 2) = bs ! p
    \<and> bs' ! (p + 3) = (if h then bs ! (p + 3) else CHR 0xFF)"
  using assms
proof (induction h step off i n bs arbitrary: m rule: reorder_points.induct)
  case (2 h step off i n bs)
  let ?p = "i * step + off"
  define new where "new = bs[?p := bs ! (?p + 2), ?p + 1 := bs ! (?p + 1), ?p + 2 := bs ! ?p, ?p + 3 := (if h then bs ! (?p + 3) else CHR 0xFF)]"
  from 2(2) have len: "\<not> length bs < ?p + 4" and rest: "reorder_points h step off (i + 1) n new = Some bs'"
    by (auto simp: Let_def new_def split: if_splits)
  show ?case
  proof (cases m)
    case 0
    have below: "?p + 3 < (i + 1) * step + off" using 2(3) by simp
    have "bs' ! j = new ! j" if "j \<le> ?p + 3" for j
      using reorder_points_below [OF rest] that below by simp
    then show ?thesis using len 0 by (simp add: Let_def new_def)
  next
    case (Suc k)
    have same: "new ! ((i + 1 + k) * step + off + d) = bs ! ((i + 1 + k) * step + off + d)" for d
    proof -
      have "?p + 4 \<le> (i + 1) * step" using 2(3) by simp
      also have "\<dots> \<le> (i + 1 + k) * step" by (simp add: add_mult_distrib)
      finally show ?thesis by (simp add: new_def)
    qed
    have "k < n" using Suc 2(4) by simp
    have "i + m = i + 1 + k" using Suc by simp
    from 2(1) [OF refl len rest [unfolded new_def] 2(3) \<open>k < n\<close>] same [of 0] same [of 1] same [of 2] same [of 3] show ?thesis
      unfolding \<open>i + m = i + 1 + k\<close> new_def [symmetric] Let_def by (simp only: add_0_right)
  qed
qed simp

text \<open>Enough bytes for the points are enough for the loop.\<close>

lemma reorder_points_returns:
  "(i + n) * step \<le> length bs \<Longrightarrow> off + 4 \<le> step \<Longrightarrow> \<exists>bs'. reorder_points h step off i n bs = Some bs'"
proof (induction h step off i n bs rule: reorder_points.induct)
  case (2 h step off i n bs)
  have "i * step + off + 4 \<le> (i + 1) * step" using 2(3) by simp
  also have "\<dots> \<le> (i + Suc n) * step" by (simp add: add_mult_distrib)
  finally have len: "\<not> length bs < i * step + off + 4" using 2(2) by simp
  with 2(1) [OF refl len] 2(2,3) show ?case by (simp add: Let_def)
qed simp

lemma packed_atD: "packed_at fs = Some k \<Longrightarrow> k < length fs \<and> is_packed (fs ! k)"
  by (induction fs arbitrary: k) (auto split: if_splits)

text \<open>The colour the host reads from a normalized cloud is the colour of the source at every point: from its
  separate channels, or from its packed field when the cloud has no such channels.\<close>

definition source_colour :: "point_cloud \<Rightarrow> nat \<Rightarrow> char list" where
  "source_colour c i =
     (if collapse_channels c \<noteq> None then channels_colour c i
      else pcl_colour (pc_fields c ! the (packed_at (pc_fields c))) c i)"

lemma last_named_Some: "last_named name fs = Some f \<Longrightarrow> pt_name f = name"
  by (auto simp: last_named_def find_Some_iff)

lemma collapsed_colour:
  assumes "collapse_channels c = Some c'" "\<forall>f \<in> set (pc_fields c). pt_offset f + 4 < 2 ^ 32"
  shows "\<exists>f \<in> set (pc_fields c'). pt_type f = PtUint32 \<and> pt_name f \<in> {''rgba'', ''rgb''} \<and> (\<forall>i. host_colour f c' i = channels_colour c i)"
proof -
  let ?fs = "pc_fields c"
  from assms(1) obtain r g b where n: "last_named ''red'' ?fs = Some r" "last_named ''green'' ?fs = Some g" "last_named ''blue'' ?fs = Some b"
    by (auto simp: collapse_channels_def Let_def is_u8_def split: if_splits option.splits)
  have "pt_offset r + 4 < 2 ^ 32" using n(1) assms(2) by (auto simp: last_named_def find_Some_iff rev_nth)
  then have small: "u32 (pt_offset r + 1) = pt_offset r + 1" "u32 (pt_offset r + 2) = pt_offset r + 2" "u32 (pt_offset r + 3) = pt_offset r + 3"
    by (simp_all add: u32_def)
  from assms(1) n have gb: "pt_offset g = u32 (pt_offset r + 1)" "pt_offset b = u32 (pt_offset r + 2)"
    by (auto simp: collapse_channels_def Let_def is_u8_def split: if_splits)
  let ?packed = "\<lambda>name. \<lparr>pt_name = name, pt_offset = pt_offset r, pt_type = PtUint32, pt_count = 1\<rparr>"
  show ?thesis
  proof (cases "last_named ''alpha'' ?fs")
    case None
    with assms(1) n obtain kept where "c' = c\<lparr>pc_fields := kept @ [?packed ''rgb'']\<rparr>"
      by (auto simp: collapse_channels_def Let_def is_u8_def canonical_rgb_def split: if_splits)
    with None n gb small show ?thesis
      by (intro bexI [of _ "?packed ''rgb''"]) (simp_all add: host_colour_def channels_colour_def channel_byte_def Let_def add.assoc)
  next
    case (Some a)
    with assms(1) n have a: "pt_offset a = u32 (pt_offset r + 3)"
      by (auto simp: collapse_channels_def Let_def is_u8_def split: if_splits)
    from Some assms(1) n obtain kept where "c' = c\<lparr>pc_fields := kept @ [?packed ''rgba'']\<rparr>"
      by (auto simp: collapse_channels_def Let_def is_u8_def canonical_rgba_def split: if_splits)
    with Some n gb a small show ?thesis
      by (intro bexI [of _ "?packed ''rgba''"]) (simp_all add: host_colour_def channels_colour_def channel_byte_def Let_def add.assoc)
  qed
qed

lemma repacked_colour:
  assumes "repack_packed c = Coloured c'" "packed_at (pc_fields c) = Some k"
  shows "\<exists>f \<in> set (pc_fields c'). pt_type f = PtUint32 \<and> pt_name f \<in> {''rgba'', ''rgb''}
    \<and> (\<forall>i < u64 (pc_width c * pc_height c). host_colour f c' i = pcl_colour (pc_fields c ! k) c i)"
proof -
  let ?f = "pc_fields c ! k" and ?n = "u64 (pc_width c * pc_height c)"
  let ?g = "?f\<lparr>pt_name := canonical_rgba, pt_type := PtUint32, pt_count := 1\<rparr>"
  from assms obtain bytes where b: "reorder_points (pt_name ?f = ''rgba'') (pc_step c) (pt_offset ?f) 0 ?n (pc_data c) = Some bytes"
      "pt_offset ?f + 4 \<le> pc_step c" "c' = c\<lparr>pc_data := bytes, pc_fields := (pc_fields c)[k := ?g]\<rparr>"
    by (auto simp: repack_packed_def Let_def split: if_splits option.splits)
  have "?g \<in> set (pc_fields c')" using packed_atD [OF assms(2)] b(3) by (simp add: set_update_memI)
  moreover have "host_colour ?g c' i = pcl_colour ?f c i" if "i < ?n" for i
    using reorder_points_at [OF b(1,2) that] b(3) by (simp add: host_colour_def pcl_colour_def Let_def canonical_rgba_def)
  ultimately show ?thesis by (intro bexI [of _ ?g]) (simp_all add: canonical_rgba_def)
qed

text \<open>C32. The colour that the host reads from the canonical field of a normalized cloud is, at every point, the colour
  of the source: of its separate channels, or of its packed field with the bytes the other way round; a source
  without alpha is read as opaque.\<close>

theorem normalized_colour:
  assumes "normalize_color c = Coloured c'" "\<forall>f \<in> set (pc_fields c). pt_offset f + 4 < 2 ^ 32"
  shows "\<exists>f \<in> set (pc_fields c'). pt_type f = PtUint32 \<and> pt_name f \<in> {''rgba'', ''rgb''}
    \<and> (\<forall>i < u64 (pc_width c * pc_height c). host_colour f c' i = source_colour c i)"
proof (cases "collapse_channels c")
  case None
  with assms(1) have "repack_packed c = Coloured c'" by (simp add: normalize_color_def)
  moreover from this obtain k where "packed_at (pc_fields c) = Some k" by (auto simp: repack_packed_def split: option.splits)
  ultimately show ?thesis using repacked_colour None by (simp add: source_colour_def)
next
  case (Some c1)
  then have "c1 = c'" using assms(1) by (simp add: normalize_color_def)
  with Some have "collapse_channels c = Some c'" by simp
  from collapsed_colour [OF this assms(2)] Some show ?thesis by (fastforce simp: source_colour_def)
qed

text \<open>A cloud of two points of PCL: the colour after the coordinate, as a float.\<close>

definition pcl_sample :: point_cloud where
  "pcl_sample = \<lparr>pc_timestamp = 0, pc_frame_id = [], pc_width = 2, pc_height = 1, pc_step = 5, pc_row_step = 10, pc_bigendian = False,
     pc_dense = True, pc_fields = [\<lparr>pt_name = ''rgb'', pt_offset = 1, pt_type = PtFloat32, pt_count = 1\<rparr>],
     pc_data = ''xbgr.ybgr.''\<rparr>"

definition repacked_sample :: point_cloud where
  "repacked_sample = pcl_sample\<lparr>pc_fields := [\<lparr>pt_name = ''rgba'', pt_offset = 1, pt_type = PtUint32, pt_count = 1\<rparr>],
     pc_data := [CHR ''x'', CHR ''r'', CHR ''g'', CHR ''b'', CHR 0xFF, CHR ''y'', CHR ''r'', CHR ''g'', CHR ''b'', CHR 0xFF]\<rparr>"

lemma normalize_sample: "normalize_color pcl_sample = Coloured repacked_sample"
proof -
  have "u64 (2 * 1) = 2" "u64 (2 * 5) = 10" by (simp_all add: u64_def)
  moreover have "reorder_points False 5 1 0 2 ''xbgr.ybgr.'' = Some (pc_data repacked_sample)"
    by code_simp
  ultimately show ?thesis
    by (simp add: normalize_color_def collapse_channels_def repack_packed_def pcl_sample_def repacked_sample_def Let_def last_named_def
        is_u8_def is_packed_def canonical_rgba_def)
qed

theorem normalized_colour_witness:
  "\<exists>f \<in> set (pc_fields repacked_sample). \<forall>i < 2. host_colour f repacked_sample i = source_colour pcl_sample i"
proof -
  have "\<forall>f \<in> set (pc_fields pcl_sample). pt_offset f + 4 < 2 ^ 32" by (simp add: pcl_sample_def)
  from normalized_colour [OF normalize_sample this] show ?thesis by (auto simp: pcl_sample_def u64_def)
qed

text \<open>C33. The copy is written within its bounds when the bytes of the declared points, width times height times step,
  can be counted in 64 bits.\<close>

theorem repack_within_bounds:
  assumes "pc_width c * pc_height c * pc_step c < 2 ^ 64"
  shows "normalize_color c \<noteq> Overrun"
proof (cases "packed_at (pc_fields c)")
  case None
  then show ?thesis by (simp add: normalize_color_def repack_packed_def split: option.splits)
next
  case (Some k)
  let ?off = "pt_offset (pc_fields c ! k)"
  show ?thesis
  proof (cases "?off + 4 \<le> pc_step c \<and> pc_width c * pc_height c * pc_step c \<le> length (pc_data c)")
    case True
    then have "pc_width c * pc_height c * 1 \<le> pc_width c * pc_height c * pc_step c" by (intro mult_le_mono2) simp
    with assms have "pc_width c * pc_height c < 2 ^ 64" by linarith
    then have n: "u64 (pc_width c * pc_height c) = pc_width c * pc_height c" by (simp add: u64_def)
    have "(0 + pc_width c * pc_height c) * pc_step c \<le> length (pc_data c)" "?off + 4 \<le> pc_step c" using True by simp_all
    from reorder_points_returns [OF this, of "pt_name (pc_fields c ! k) = ''rgba''"] obtain bs where
      "reorder_points (pt_name (pc_fields c ! k) = ''rgba'') (pc_step c) ?off 0 (pc_width c * pc_height c) (pc_data c) = Some bs"
      by auto
    with Some n show ?thesis by (auto simp: normalize_color_def repack_packed_def Let_def split: option.splits)
  next
    case False
    have "u64 (u64 (pc_width c * pc_height c) * pc_step c) = pc_width c * pc_height c * pc_step c"
      using assms by (simp add: u64_def mod_mult_left_eq)
    with False Some show ?thesis by (auto simp: normalize_color_def repack_packed_def Let_def split: option.splits)
  qed
qed

theorem repack_within_bounds_witness: "normalize_color pcl_sample \<noteq> Overrun"
  by (rule repack_within_bounds) (simp add: pcl_sample_def)

text \<open>A cloud that declares a square of side \<open>2 ^ 31\<close> and has no data: the product of its sizes wraps to zero, the
  check passes and the first point is written outside the empty copy.\<close>

lemma declared_square_overruns:
  "normalize_color (pcl_sample\<lparr>pc_width := 2 ^ 31, pc_height := 2 ^ 31, pc_step := 4,
     pc_fields := [\<lparr>pt_name = ''rgb'', pt_offset = 0, pt_type = PtFloat32, pt_count = 1\<rparr>], pc_data := []\<rparr>) = Overrun"
proof -
  let ?f = "\<lparr>pt_name = ''rgb'', pt_offset = 0, pt_type = PtFloat32, pt_count = 1\<rparr>"
  have u: "u64 (2 ^ 31 * 2 ^ 31) = Suc (2 ^ 62 - 1)" "u64 (Suc (2 ^ 62 - 1) * 4) = 0" by (simp_all add: u64_def)
  have "packed_at [?f] = Some 0" "\<not> is_u8 (last_named ''red'' [?f])" by (simp_all add: is_packed_def last_named_def is_u8_def)
  then show ?thesis
    by (simp only: normalize_color_def collapse_channels_def repack_packed_def Let_def pcl_sample_def point_cloud.simps u
        reorder_points.simps option.simps nth_Cons_0 if_True) simp
qed

end
