(* ===== verification/WireStream.thy ===== *)
theory WireStream
  imports Prelude "HOL-Library.Word"
begin

section \<open>Reading protobuf fields (parser_protobuf/foxglove_object_codecs.cpp, the helpers)\<close>

text \<open>
  The hand-written scanners of the foxglove messages read the wire format through the library's
  \<open>CodedInputStream\<close>, here the operations of a record over an unknown state. The loops over the fields of a
  message take the handler of a field as an argument, as the templates of the code do; whether they end depends
  on the library, so they are partial functions and their end is proved from what the library documents, the
  locale \<open>coded_stream\<close>: a tag that is read takes bytes, a limit is kept, a skip within the limit succeeds.
  Inside it the contract of the nested readers is shown once for every handler: a reader ends, and leaves the
  stream exactly at the end of its submessage whatever the bytes are.
\<close>

subsection \<open>The library's stream\<close>

text \<open>\<open>ReadTag\<close> (0 at the end and on a malformed tag), the reads, \<open>ReadString\<close> with what it leaves in the
  string, \<open>Skip\<close>, the limits, and the bytes that \<open>GetDirectBufferPointer\<close> points at.\<close>

record 's coded =
  cd_tag :: "'s \<Rightarrow> nat \<times> 's"
  cd_varint32 :: "'s \<Rightarrow> nat option \<times> 's"
  cd_varint64 :: "'s \<Rightarrow> nat option \<times> 's"
  cd_fixed32 :: "'s \<Rightarrow> nat option \<times> 's"
  cd_fixed64 :: "'s \<Rightarrow> nat option \<times> 's"
  cd_string :: "int \<Rightarrow> string \<Rightarrow> 's \<Rightarrow> bool \<times> string \<times> 's"
  cd_raw :: "int \<Rightarrow> 's \<Rightarrow> string option \<times> 's"
  cd_skip :: "int \<Rightarrow> 's \<Rightarrow> bool \<times> 's"
  cd_push :: "int \<Rightarrow> 's \<Rightarrow> int \<times> 's"
  cd_pop :: "int \<Rightarrow> 's \<Rightarrow> 's"
  cd_left :: "'s \<Rightarrow> int"
  cd_consumed :: "'s \<Rightarrow> bool"
  cd_direct :: "'s \<Rightarrow> string option \<times> 's"

text \<open>\<open>static_cast<int>\<close> of a 32-bit length.\<close>

definition as_int :: "nat \<Rightarrow> int" where "as_int n = signed_take_bit 31 (int n)"

definition wire_varint :: nat where "wire_varint = 0"
definition wire_i64 :: nat where "wire_i64 = 1"
definition wire_len :: nat where "wire_len = 2"
definition wire_i32 :: nat where "wire_i32 = 5"

definition field_of :: "nat \<Rightarrow> nat" where "field_of tag = tag div 8"
definition wire_of :: "nat \<Rightarrow> nat" where "wire_of tag = tag mod 8"

definition skip_field :: "'s coded \<Rightarrow> nat \<Rightarrow> 's \<Rightarrow> bool \<times> 's" where
  "skip_field cd w s =
     (if w = wire_varint then (case cd_varint64 cd s of (v, s) \<Rightarrow> (v \<noteq> None, s))
      else if w = wire_i64 then (case cd_fixed64 cd s of (v, s) \<Rightarrow> (v \<noteq> None, s))
      else if w = wire_len then
        (case cd_varint32 cd s of (None, s) \<Rightarrow> (False, s) | (Some len, s) \<Rightarrow> cd_skip cd (as_int len) s)
      else if w = wire_i32 then (case cd_fixed32 cd s of (v, s) \<Rightarrow> (v \<noteq> None, s))
      else (False, s))"

definition read_string :: "'s coded \<Rightarrow> string \<Rightarrow> 's \<Rightarrow> bool \<times> string \<times> 's" where
  "read_string cd out s =
     (case cd_varint32 cd s of (None, s) \<Rightarrow> (False, out, s) | (Some len, s) \<Rightarrow> cd_string cd (as_int len) out s)"

definition read_bytes :: "'s coded \<Rightarrow> string \<Rightarrow> 's \<Rightarrow> bool \<times> string \<times> 's" where
  "read_bytes cd out s =
     (case cd_varint32 cd s of
        (None, s) \<Rightarrow> (False, out, s)
      | (Some len, s) \<Rightarrow>
          if cd_left cd s < 0 \<or> cd_left cd s < int len then (False, out, s)
          else if len = 0 then (True, [], s)
          else case cd_raw cd (as_int len) s of (None, s) \<Rightarrow> (False, [], s) | (Some bytes, s) \<Rightarrow> (True, bytes, s))"

subsection \<open>Nested messages\<close>

text \<open>A reader of a submessage of a given length, and a handler of one field: whether it claimed the field, the
  message so far and the stream. None is a loop that does not end.\<close>

type_synonym ('s, 'a) reader = "nat \<Rightarrow> 's \<Rightarrow> ('a \<times> 's) option"

type_synonym ('s, 'a) handler = "nat \<Rightarrow> nat \<Rightarrow> 'a \<Rightarrow> 's \<Rightarrow> (bool \<times> 'a \<times> 's) option"

definition with_sub :: "'s coded \<Rightarrow> ('s \<Rightarrow> ('a \<times> 's) option) \<Rightarrow> ('s, 'a) reader" where
  "with_sub cd body len s =
     (case cd_push cd (as_int len) s of
        (limit, s) \<Rightarrow>
          (case body s of
             None \<Rightarrow> None
           | Some (x, s) \<Rightarrow> Some (x, cd_pop cd limit (if cd_left cd s > 0 then snd (cd_skip cd (cd_left cd s) s) else s))))"

partial_function (option) scan_fields :: "'s coded \<Rightarrow> ('s, 'a) handler \<Rightarrow> 'a \<Rightarrow> 's \<Rightarrow> ('a \<times> 's) option" where
  "scan_fields cd handle acc s =
     (case cd_tag cd s of
        (tag, s) \<Rightarrow>
          if tag = 0 then Some (acc, s)
          else Option.bind (handle (field_of tag) (wire_of tag) acc s)
            (\<lambda>(claimed, acc, s).
               if claimed then scan_fields cd handle acc s
               else case skip_field cd (wire_of tag) s of
                 (skipped, s) \<Rightarrow> if skipped then scan_fields cd handle acc s else Some (acc, s)))"

definition scan_sub :: "'s coded \<Rightarrow> ('s, 'a) handler \<Rightarrow> 'a \<Rightarrow> ('s, 'a) reader" where
  "scan_sub cd handle init = with_sub cd (scan_fields cd handle init)"

text \<open>The helpers that claim one field; \<open>put\<close> stores what was read.\<close>

definition field_message :: "'s coded \<Rightarrow> ('s, 'b) reader \<Rightarrow> ('b \<Rightarrow> 'a \<Rightarrow> 'a) \<Rightarrow> nat \<Rightarrow> 'a \<Rightarrow> 's \<Rightarrow> (bool \<times> 'a \<times> 's) option" where
  "field_message cd reader put w acc s =
     (if w \<noteq> wire_len then Some (False, acc, s)
      else case cd_varint32 cd s of
        (None, s) \<Rightarrow> Some (False, acc, s)
      | (Some len, s) \<Rightarrow> map_option (\<lambda>(x, s). (True, put x acc, s)) (reader len s))"

text \<open>\<open>fieldRepeated\<close> and \<open>fieldPacked\<close> differ in what they store only.\<close>

definition field_repeated :: "'s coded \<Rightarrow> ('s, 'b) reader \<Rightarrow> ('b \<Rightarrow> 'a \<Rightarrow> 'a) \<Rightarrow> nat \<Rightarrow> 'a \<Rightarrow> 's \<Rightarrow> (bool \<times> 'a \<times> 's) option" where
  "field_repeated = field_message"

definition field_packed :: "'s coded \<Rightarrow> ('s, 'b list) reader \<Rightarrow> ('b list \<Rightarrow> 'a \<Rightarrow> 'a) \<Rightarrow> nat \<Rightarrow> 'a \<Rightarrow> 's \<Rightarrow> (bool \<times> 'a \<times> 's) option" where
  "field_packed = field_message"

definition claim :: "('b \<Rightarrow> 'a \<Rightarrow> 'a) \<Rightarrow> 'a \<Rightarrow> 'b option \<times> 's \<Rightarrow> (bool \<times> 'a \<times> 's) option" where
  "claim put acc r = (case r of (None, s) \<Rightarrow> Some (False, acc, s) | (Some v, s) \<Rightarrow> Some (True, put v acc, s))"

definition field_double :: "'s coded \<Rightarrow> (nat \<Rightarrow> 'd) \<Rightarrow> ('d \<Rightarrow> 'a \<Rightarrow> 'a) \<Rightarrow> nat \<Rightarrow> 'a \<Rightarrow> 's \<Rightarrow> (bool \<times> 'a \<times> 's) option" where
  "field_double cd of_bits put w acc s =
     (if w \<noteq> wire_i64 then Some (False, acc, s) else claim (\<lambda>v. put (of_bits v)) acc (cd_fixed64 cd s))"

definition field_varint :: "'s coded \<Rightarrow> (nat \<Rightarrow> 'a \<Rightarrow> 'a) \<Rightarrow> nat \<Rightarrow> 'a \<Rightarrow> 's \<Rightarrow> (bool \<times> 'a \<times> 's) option" where
  "field_varint cd put w acc s =
     (if w \<noteq> wire_varint then Some (False, acc, s) else claim put acc (cd_varint64 cd s))"

text \<open>A string that fails to be read leaves in the message what the library left in it.\<close>

definition field_string ::
  "'s coded \<Rightarrow> ('a \<Rightarrow> string) \<Rightarrow> (string \<Rightarrow> 'a \<Rightarrow> 'a) \<Rightarrow> nat \<Rightarrow> 'a \<Rightarrow> 's \<Rightarrow> (bool \<times> 'a \<times> 's) option" where
  "field_string cd get put w acc s =
     (if w \<noteq> wire_len then Some (False, acc, s)
      else case read_string cd (get acc) s of (claimed, out, s) \<Rightarrow> Some (claimed, put out acc, s))"

definition field_bytes ::
  "'s coded \<Rightarrow> ('a \<Rightarrow> string) \<Rightarrow> (string \<Rightarrow> 'a \<Rightarrow> 'a) \<Rightarrow> nat \<Rightarrow> 'a \<Rightarrow> 's \<Rightarrow> (bool \<times> 'a \<times> 's) option" where
  "field_bytes cd get put w acc s =
     (if w \<noteq> wire_len then Some (False, acc, s)
      else case read_bytes cd (get acc) s of (claimed, out, s) \<Rightarrow> Some (claimed, put out acc, s))"

definition decline :: "'a \<Rightarrow> 's \<Rightarrow> (bool \<times> 'a \<times> 's) option" where
  "decline acc s = Some (False, acc, s)"

text \<open>The elements of a packed block, up to the first read that fails.\<close>

partial_function (option) read_all :: "('s \<Rightarrow> 'b option \<times> 's) \<Rightarrow> 'b list \<Rightarrow> 's \<Rightarrow> ('b list \<times> 's) option" where
  "read_all read acc s =
     (case read s of (None, s) \<Rightarrow> Some (acc, s) | (Some v, s) \<Rightarrow> read_all read (acc @ [v]) s)"

definition read_packed_doubles :: "'s coded \<Rightarrow> (nat \<Rightarrow> 'd) \<Rightarrow> ('s, 'd list) reader" where
  "read_packed_doubles cd of_bits =
     with_sub cd (read_all (\<lambda>s. case cd_fixed64 cd s of (v, s) \<Rightarrow> (map_option of_bits v, s)) [])"

definition read_packed_fixed32 :: "'s coded \<Rightarrow> ('s, nat list) reader" where
  "read_packed_fixed32 cd = with_sub cd (read_all (cd_fixed32 cd) [])"

subsection \<open>Top-level messages\<close>

type_synonym ('s, 'a) strict = "nat \<Rightarrow> nat \<Rightarrow> 'a \<Rightarrow> 's \<Rightarrow> (string + 'a \<times> 's) option"

partial_function (option) strict_fields :: "'s coded \<Rightarrow> ('s, 'a) strict \<Rightarrow> 'a \<Rightarrow> 's \<Rightarrow> (string + 'a \<times> 's) option" where
  "strict_fields cd handle acc s =
     (case cd_tag cd s of
        (tag, s) \<Rightarrow>
          if tag = 0 then Some (Inr (acc, s))
          else Option.bind (handle (field_of tag) (wire_of tag) acc s)
            (\<lambda>r. case r of Inl e \<Rightarrow> Some (Inl e) | Inr (acc, s) \<Rightarrow> strict_fields cd handle acc s))"

definition strict_message :: "'s coded \<Rightarrow> string \<Rightarrow> ('s, 'b) reader \<Rightarrow> ('b \<Rightarrow> 'a \<Rightarrow> 'a) \<Rightarrow> nat \<Rightarrow> 'a \<Rightarrow> 's \<Rightarrow> (string + 'a \<times> 's) option" where
  "strict_message cd e reader put w acc s =
     (if w \<noteq> wire_len then Some (Inl e)
      else case cd_varint32 cd s of
        (None, s) \<Rightarrow> Some (Inl e)
      | (Some len, s) \<Rightarrow> map_option (\<lambda>(x, s). Inr (put x acc, s)) (reader len s))"

definition strict_string :: "'s coded \<Rightarrow> string \<Rightarrow> ('a \<Rightarrow> string) \<Rightarrow> (string \<Rightarrow> 'a \<Rightarrow> 'a) \<Rightarrow> nat \<Rightarrow> 'a \<Rightarrow> 's \<Rightarrow> (string + 'a \<times> 's) option" where
  "strict_string cd e get put w acc s =
     (if w \<noteq> wire_len then Some (Inl e)
      else case read_string cd (get acc) s of (True, out, s) \<Rightarrow> Some (Inr (put out acc, s)) | (False, out, s) \<Rightarrow> Some (Inl e))"

definition strict_fixed32 :: "'s coded \<Rightarrow> string \<Rightarrow> (nat \<Rightarrow> 'a \<Rightarrow> 'a) \<Rightarrow> nat \<Rightarrow> 'a \<Rightarrow> 's \<Rightarrow> (string + 'a \<times> 's) option" where
  "strict_fixed32 cd e put w acc s =
     (if w \<noteq> wire_i32 then Some (Inl e)
      else case cd_fixed32 cd s of (None, s) \<Rightarrow> Some (Inl e) | (Some v, s) \<Rightarrow> Some (Inr (put v acc, s)))"

definition strict_skip :: "'s coded \<Rightarrow> string \<Rightarrow> nat \<Rightarrow> 'a \<Rightarrow> 's \<Rightarrow> (string + 'a \<times> 's) option" where
  "strict_skip cd e w acc s =
     (case skip_field cd w s of (True, s) \<Rightarrow> Some (Inr (acc, s)) | (False, s) \<Rightarrow> Some (Inl e))"

text \<open>The zero-copy payload: a span of the stream's own buffer.\<close>

definition strict_span :: "'s coded \<Rightarrow> string \<Rightarrow> (string \<Rightarrow> 'a \<Rightarrow> 'a) \<Rightarrow> nat \<Rightarrow> 'a \<Rightarrow> 's \<Rightarrow> (string + 'a \<times> 's) option" where
  "strict_span cd what put w acc s =
     (if w \<noteq> wire_len then Some (Inl (what @ '': bad data''))
      else case cd_varint32 cd s of
        (None, s) \<Rightarrow> Some (Inl (what @ '': bad data''))
      | (Some len, s) \<Rightarrow>
          if len = 0 then Some (Inr (acc, s))
          else case cd_direct cd s of
            (None, s) \<Rightarrow> Some (Inl (what @ '': data not contiguous''))
          | (Some bytes, s) \<Rightarrow>
              if int (length bytes) < as_int len then Some (Inl (what @ '': data not contiguous''))
              else case cd_skip cd (as_int len) s of
                (False, s) \<Rightarrow> Some (Inl (what @ '': failed to skip data''))
              | (True, s) \<Rightarrow> Some (Inr (put (take len bytes) acc, s)))"

subsection \<open>What the library documents\<close>

text \<open>A stream seen as the bytes it reads, the position in them and the current limit.\<close>

record 's view =
  vw_whole :: "'s \<Rightarrow> string"
  vw_pos :: "'s \<Rightarrow> nat"
  vw_lim :: "'s \<Rightarrow> nat"

definition placed :: "'s view \<Rightarrow> 's \<Rightarrow> bool" where
  "placed v s \<longleftrightarrow> vw_pos v s \<le> vw_lim v s \<and> vw_lim v s \<le> length (vw_whole v s)"

definition forward :: "'s view \<Rightarrow> 's \<Rightarrow> 's \<Rightarrow> bool" where
  "forward v s s' \<longleftrightarrow> vw_whole v s' = vw_whole v s \<and> vw_lim v s' = vw_lim v s \<and> vw_pos v s \<le> vw_pos v s' \<and> vw_pos v s' \<le> vw_lim v s'"

text \<open>Where a submessage of a declared length ends: a length past the enclosing limit, or one that is negative
  as an \<open>int\<close>, leaves the limit as it is.\<close>

definition sub_end :: "'s view \<Rightarrow> nat \<Rightarrow> 's \<Rightarrow> nat" where
  "sub_end v len s =
     (if 0 \<le> as_int len \<and> as_int len < int (vw_lim v s - vw_pos v s) then vw_pos v s + nat (as_int len) else vw_lim v s)"

lemma forward_refl: "placed v s \<Longrightarrow> forward v s s"
  by (simp add: forward_def placed_def)

lemma forward_trans: "forward v s s' \<Longrightarrow> forward v s' s'' \<Longrightarrow> forward v s s''"
  by (auto simp: forward_def)

lemma forward_placed: "forward v s s' \<Longrightarrow> placed v s \<Longrightarrow> placed v s'"
  by (auto simp: forward_def placed_def)

definition sound_reader :: "'s view \<Rightarrow> ('s, 'a) reader \<Rightarrow> bool" where
  "sound_reader v r \<longleftrightarrow>
     (\<forall>len s. placed v s \<longrightarrow> (\<exists>x s'. r len s = Some (x, s') \<and> forward v s s' \<and> vw_pos v s' = sub_end v len s))"

definition sound_field :: "'s view \<Rightarrow> (nat \<Rightarrow> 'a \<Rightarrow> 's \<Rightarrow> (bool \<times> 'a \<times> 's) option) \<Rightarrow> bool" where
  "sound_field v h \<longleftrightarrow> (\<forall>w acc s. placed v s \<longrightarrow> (\<exists>b acc' s'. h w acc s = Some (b, acc', s') \<and> forward v s s'))"

definition sound_body :: "'s view \<Rightarrow> ('s \<Rightarrow> ('a \<times> 's) option) \<Rightarrow> bool" where
  "sound_body v body \<longleftrightarrow> (\<forall>s. placed v s \<longrightarrow> (\<exists>x s'. body s = Some (x, s') \<and> forward v s s'))"

definition sound_strict :: "'s view \<Rightarrow> (nat \<Rightarrow> 'a \<Rightarrow> 's \<Rightarrow> (string + 'a \<times> 's) option) \<Rightarrow> bool" where
  "sound_strict v h \<longleftrightarrow>
     (\<forall>w acc s. placed v s \<longrightarrow> (\<exists>r. h w acc s = Some r \<and> (case r of Inl e \<Rightarrow> True | Inr (acc', s') \<Rightarrow> forward v s s')))"

named_theorems sound_intros \<open>readers and handlers that end where they should\<close>

locale coded_stream =
  fixes cd :: "'s coded" and v :: "'s view"
  assumes tag_forward: "placed v s \<Longrightarrow> forward v s (snd (cd_tag cd s))"
    and tag_takes: "placed v s \<Longrightarrow> fst (cd_tag cd s) \<noteq> 0 \<Longrightarrow> vw_pos v s < vw_pos v (snd (cd_tag cd s))"
    and varint32_forward: "placed v s \<Longrightarrow> forward v s (snd (cd_varint32 cd s))"
    and varint64_forward: "placed v s \<Longrightarrow> forward v s (snd (cd_varint64 cd s))"
    and fixed32_forward: "placed v s \<Longrightarrow> forward v s (snd (cd_fixed32 cd s))"
    and fixed32_takes: "placed v s \<Longrightarrow> fst (cd_fixed32 cd s) \<noteq> None \<Longrightarrow> vw_pos v s < vw_pos v (snd (cd_fixed32 cd s))"
    and fixed64_forward: "placed v s \<Longrightarrow> forward v s (snd (cd_fixed64 cd s))"
    and fixed64_takes: "placed v s \<Longrightarrow> fst (cd_fixed64 cd s) \<noteq> None \<Longrightarrow> vw_pos v s < vw_pos v (snd (cd_fixed64 cd s))"
    and string_forward: "placed v s \<Longrightarrow> forward v s (snd (snd (cd_string cd n out s)))"
    and raw_forward: "placed v s \<Longrightarrow> forward v s (snd (cd_raw cd n s))"
    and skip_forward: "placed v s \<Longrightarrow> forward v s (snd (cd_skip cd n s))"
    and skip_exact: "placed v s \<Longrightarrow> 0 \<le> n \<Longrightarrow> n \<le> int (vw_lim v s - vw_pos v s) \<Longrightarrow>
          vw_pos v (snd (cd_skip cd n s)) = vw_pos v s + nat n"
    and direct_forward: "placed v s \<Longrightarrow> forward v s (snd (cd_direct cd s))"
    and push_limit: "placed v s \<Longrightarrow> cd_push cd n s = (tok, s') \<Longrightarrow>
          tok = int (vw_lim v s) \<and> vw_whole v s' = vw_whole v s \<and> vw_pos v s' = vw_pos v s
          \<and> vw_lim v s' = (if 0 \<le> n \<and> n < int (vw_lim v s - vw_pos v s) then vw_pos v s + nat n else vw_lim v s)"
    and pop_limit: "vw_pos v s \<le> l \<Longrightarrow> l \<le> length (vw_whole v s) \<Longrightarrow>
          vw_whole v (cd_pop cd (int l) s) = vw_whole v s \<and> vw_pos v (cd_pop cd (int l) s) = vw_pos v s
          \<and> vw_lim v (cd_pop cd (int l) s) = l"
    and left_until_limit: "placed v s \<Longrightarrow> cd_left cd s = int (vw_lim v s - vw_pos v s)"
begin

lemma skip_field_forward: "placed v s \<Longrightarrow> forward v s (snd (skip_field cd w s))"
  using varint64_forward [of s] fixed64_forward [of s] fixed32_forward [of s] varint32_forward [of s]
  by (auto simp: skip_field_def split_def split: option.splits
      intro: forward_trans skip_forward forward_placed forward_refl)

lemma read_string_forward: "placed v s \<Longrightarrow> forward v s (snd (snd (read_string cd out s)))"
  using varint32_forward [of s]
  by (auto simp: read_string_def split_def split: option.splits intro: forward_trans string_forward forward_placed)

lemma read_bytes_forward: "placed v s \<Longrightarrow> forward v s (snd (snd (read_bytes cd out s)))"
  using varint32_forward [of s]
  by (auto simp: read_bytes_def split_def split: option.splits intro: forward_trans raw_forward forward_placed)

text \<open>The destructor of \<open>SubMessage\<close>: whatever the body did, the parent goes on at the end of the submessage.\<close>

lemma with_sub_sound:
  assumes "sound_body v body"
  shows "sound_reader v (with_sub cd body)"
  unfolding sound_reader_def
proof (intro allI impI)
  fix len s
  assume s: "placed v s"
  obtain l s1 where p: "cd_push cd (as_int len) s = (l, s1)" by fastforce
  note s1 = push_limit [OF s p]
  have e: "vw_lim v s1 = sub_end v len s" using s1 by (simp add: sub_end_def)
  have "placed v s1" using s s1 by (auto simp: placed_def)
  with assms obtain x s2 where b: "body s1 = Some (x, s2)" "forward v s1 s2" by (auto simp: sound_body_def)
  then have s2: "placed v s2" "vw_lim v s2 = sub_end v len s" "vw_whole v s2 = vw_whole v s" "vw_pos v s \<le> vw_pos v s2"
    using forward_placed [OF b(2) \<open>placed v s1\<close>] e s1 by (auto simp: forward_def)
  define s3 where "s3 = (if cd_left cd s2 > 0 then snd (cd_skip cd (cd_left cd s2) s2) else s2)"
  have "forward v s2 s3" using skip_forward [OF s2(1)] forward_refl [OF s2(1)] by (simp add: s3_def)
  moreover have "vw_pos v s3 = vw_lim v s2"
    using skip_exact [OF s2(1), of "cd_left cd s2"] left_until_limit [OF s2(1)] s2(1)
    by (auto simp: s3_def placed_def)
  ultimately have s3: "vw_whole v s3 = vw_whole v s" "vw_pos v s3 = sub_end v len s" using s2 by (auto simp: forward_def)
  have le: "sub_end v len s \<le> vw_lim v s" and ge: "vw_pos v s \<le> sub_end v len s"
    using s by (auto simp: sub_end_def placed_def)
  have "with_sub cd body len s = Some (x, cd_pop cd l s3)"
    by (simp add: with_sub_def p b(1) s3_def)
  moreover have "forward v s (cd_pop cd l s3) \<and> vw_pos v (cd_pop cd l s3) = sub_end v len s"
    using pop_limit [of s3 "vw_lim v s"] s3 le ge s s1 s2(4) by (auto simp: forward_def placed_def)
  ultimately show "\<exists>x s'. with_sub cd body len s = Some (x, s') \<and> forward v s s' \<and> vw_pos v s' = sub_end v len s" by blast
qed

text \<open>The loop over the fields ends, since every round reads a tag.\<close>

lemma scan_fields_ends:
  assumes "\<And>f. sound_field v (handle f)" "placed v s"
  shows "\<exists>x s'. scan_fields cd handle acc s = Some (x, s') \<and> forward v s s'"
  using assms(2)
proof (induction "vw_lim v s - vw_pos v s" arbitrary: acc s rule: less_induct)
  case less
  obtain t s1 where t: "cd_tag cd s = (t, s1)" by fastforce
  have s1: "forward v s s1" "placed v s1" using tag_forward [OF less(2)] forward_placed [OF _ less(2)] t by auto
  show ?case
  proof (cases "t = 0")
    case True
    then show ?thesis using t s1 by (subst scan_fields.simps) simp
  next
    case False
    with tag_takes [OF less(2)] t have take: "vw_pos v s < vw_pos v s1" by simp
    from assms(1) s1 obtain b acc' s2 where h: "handle (field_of t) (wire_of t) acc s1 = Some (b, acc', s2)" "forward v s1 s2"
      by (auto simp: sound_field_def) blast
    have s2: "placed v s2" "forward v s s2" using forward_placed [OF h(2) s1(2)] forward_trans [OF s1(1) h(2)] by auto
    have shrink: "vw_lim v s' - vw_pos v s' < vw_lim v s - vw_pos v s" if "forward v s2 s'" for s'
      using that h(2) s1(1) take by (auto simp: forward_def)
    obtain ok s3 where k: "skip_field cd (wire_of t) s2 = (ok, s3)" by fastforce
    have s3: "forward v s2 s3" "placed v s3" using skip_field_forward [OF s2(1)] forward_placed [OF _ s2(1)] k by (metis snd_conv)+
    have eq: "scan_fields cd handle acc s =
        (if b then scan_fields cd handle acc' s2 else if ok then scan_fields cd handle acc' s3 else Some (acc', s3))"
      using t False h(1) k by (subst scan_fields.simps) simp
    from less(1) [OF shrink [OF forward_refl [OF s2(1)]] s2(1), of acc'] less(1) [OF shrink [OF s3(1)] s3(2), of acc']
    show ?thesis using eq s2(2) forward_trans [OF s2(2) s3(1)] by (auto intro: forward_trans)
  qed
qed

lemma scan_sub_sound [sound_intros]:
  "(\<And>f. sound_field v (handle f)) \<Longrightarrow> sound_reader v (scan_sub cd handle init)"
  unfolding scan_sub_def by (intro with_sub_sound) (simp add: sound_body_def scan_fields_ends)

lemma field_message_sound [sound_intros]: "sound_reader v reader \<Longrightarrow> sound_field v (field_message cd reader put)"
proof -
  assume r: "sound_reader v reader"
  show ?thesis
    unfolding sound_field_def
  proof (intro allI impI)
    fix w acc s
    assume s: "placed v s"
    obtain n s1 where n: "cd_varint32 cd s = (n, s1)" by fastforce
    have s1: "forward v s s1" "placed v s1" using varint32_forward [OF s] forward_placed [OF _ s] n by auto
    show "\<exists>b acc' s'. field_message cd reader put w acc s = Some (b, acc', s') \<and> forward v s s'"
    proof (cases n)
      case None
      with n s1 forward_refl [OF s] show ?thesis by (cases "w = wire_len") (auto simp: field_message_def)
    next
      case (Some len)
      from r s1(2) obtain x s2 where "reader len s1 = Some (x, s2)" "forward v s1 s2" by (auto simp: sound_reader_def) blast
      with n Some s1 forward_refl [OF s] show ?thesis by (auto simp: field_message_def intro: forward_trans)
    qed
  qed
qed

lemma field_repeated_sound [sound_intros]: "sound_reader v reader \<Longrightarrow> sound_field v (field_repeated cd reader put)"
  by (simp add: field_repeated_def field_message_sound)

lemma field_packed_sound [sound_intros]: "sound_reader v reader \<Longrightarrow> sound_field v (field_packed cd reader put)"
  by (simp add: field_packed_def field_message_sound)

lemma claim_ends:
  "forward v s (snd r) \<Longrightarrow> \<exists>b acc' s'. claim put acc r = Some (b, acc', s') \<and> forward v s s'"
  by (cases r; cases "fst r") (auto simp: claim_def)

lemma field_double_sound [sound_intros]: "sound_field v (field_double cd of_bits put)"
  unfolding sound_field_def field_double_def
  by (auto intro: claim_ends fixed64_forward forward_refl)

lemma field_varint_sound [sound_intros]: "sound_field v (field_varint cd put)"
  unfolding sound_field_def field_varint_def
  by (auto intro: claim_ends varint64_forward forward_refl)

lemma field_string_sound [sound_intros]: "sound_field v (field_string cd get put)"
  using read_string_forward forward_refl
  by (auto simp: sound_field_def field_string_def split_def)

lemma field_bytes_sound [sound_intros]: "sound_field v (field_bytes cd get put)"
  using read_bytes_forward forward_refl
  by (auto simp: sound_field_def field_bytes_def split_def)

lemma decline_sound [sound_intros]: "sound_field v (\<lambda>w. decline)"
  using forward_refl [of v] by (auto simp: sound_field_def decline_def)

lemma sound_field_if [sound_intros]: "sound_field v h \<Longrightarrow> sound_field v k \<Longrightarrow> sound_field v (if b then h else k)"
  by simp

lemma sound_strict_if [sound_intros]: "sound_strict v h \<Longrightarrow> sound_strict v k \<Longrightarrow> sound_strict v (if b then h else k)"
  by simp

lemma read_all_ends:
  assumes "\<And>s. placed v s \<Longrightarrow> forward v s (snd (read s))" "\<And>s. placed v s \<Longrightarrow> fst (read s) \<noteq> None \<Longrightarrow> vw_pos v s < vw_pos v (snd (read s))"
    and "placed v s"
  shows "\<exists>x s'. read_all read acc s = Some (x, s') \<and> forward v s s'"
  using assms(3)
proof (induction "vw_lim v s - vw_pos v s" arbitrary: acc s rule: less_induct)
  case less
  obtain x s1 where r: "read s = (x, s1)" by fastforce
  have s1: "forward v s s1" "placed v s1" using assms(1) [OF less(2)] forward_placed [OF _ less(2)] r by auto
  show ?case
  proof (cases x)
    case None
    then show ?thesis using r s1 by (subst read_all.simps) simp
  next
    case (Some y)
    then have "vw_lim v s1 - vw_pos v s1 < vw_lim v s - vw_pos v s"
      using assms(2) [OF less(2)] r s1 by (auto simp: forward_def)
    from less(1) [OF this s1(2), of "acc @ [y]"] Some r s1 show ?thesis
      by (subst read_all.simps) (auto intro: forward_trans)
  qed
qed

lemma read_packed_doubles_sound [sound_intros]: "sound_reader v (read_packed_doubles cd of_bits)"
  unfolding read_packed_doubles_def
  by (intro with_sub_sound) (auto simp: sound_body_def split_def intro!: read_all_ends fixed64_forward fixed64_takes)

lemma read_packed_fixed32_sound [sound_intros]: "sound_reader v (read_packed_fixed32 cd)"
  unfolding read_packed_fixed32_def
  by (intro with_sub_sound) (auto simp: sound_body_def intro!: read_all_ends fixed32_forward fixed32_takes)

text \<open>A top-level loop ends too, in a message or in an error.\<close>

lemma strict_fields_ends:
  assumes "\<And>f. sound_strict v (handle f)" "placed v s"
  shows "\<exists>r. strict_fields cd handle acc s = Some r"
  using assms(2)
proof (induction "vw_lim v s - vw_pos v s" arbitrary: acc s rule: less_induct)
  case less
  obtain t s1 where t: "cd_tag cd s = (t, s1)" by fastforce
  have s1: "forward v s s1" "placed v s1" using tag_forward [OF less(2)] forward_placed [OF _ less(2)] t by auto
  show ?case
  proof (cases "t = 0")
    case True
    then show ?thesis using t by (subst strict_fields.simps) simp
  next
    case False
    with tag_takes [OF less(2)] t have take: "vw_pos v s < vw_pos v s1" by simp
    from assms(1) s1 obtain r where h: "handle (field_of t) (wire_of t) acc s1 = Some r"
        "case r of Inl e \<Rightarrow> True | Inr (acc', s') \<Rightarrow> forward v s1 s'"
      by (auto simp: sound_strict_def) blast
    show ?thesis
    proof (cases r)
      case (Inl e)
      then show ?thesis using t False h by (subst strict_fields.simps) simp
    next
      case (Inr p)
      obtain acc' s2 where p: "p = (acc', s2)" by fastforce
      then have s2: "forward v s1 s2" "placed v s2" using h(2) Inr forward_placed [OF _ s1(2)] by auto
      then have "vw_lim v s2 - vw_pos v s2 < vw_lim v s - vw_pos v s" using s1 take by (auto simp: forward_def)
      from less(1) [OF this s2(2), of acc'] show ?thesis
        using t False h(1) Inr p by (subst strict_fields.simps) simp
    qed
  qed
qed

lemma strict_message_sound [sound_intros]: "sound_reader v reader \<Longrightarrow> sound_strict v (strict_message cd e reader put)"
proof -
  assume r: "sound_reader v reader"
  show ?thesis
    unfolding sound_strict_def
  proof (intro allI impI)
    fix w acc s
    assume s: "placed v s"
    obtain n s1 where n: "cd_varint32 cd s = (n, s1)" by fastforce
    have s1: "forward v s s1" "placed v s1" using varint32_forward [OF s] forward_placed [OF _ s] n by auto
    show "\<exists>q. strict_message cd e reader put w acc s = Some q \<and> (case q of Inl e \<Rightarrow> True | Inr (acc', s') \<Rightarrow> forward v s s')"
    proof (cases n)
      case None
      with n show ?thesis by (simp add: strict_message_def)
    next
      case (Some len)
      from r s1(2) obtain x s2 where "reader len s1 = Some (x, s2)" "forward v s1 s2" by (auto simp: sound_reader_def) blast
      with n Some s1 show ?thesis by (auto simp: strict_message_def intro: forward_trans)
    qed
  qed
qed

lemma strict_string_sound [sound_intros]: "sound_strict v (strict_string cd e get put)"
  using read_string_forward by (auto simp: sound_strict_def strict_string_def split_def split: bool.splits)

lemma strict_fixed32_sound [sound_intros]: "sound_strict v (strict_fixed32 cd e put)"
  using fixed32_forward by (auto simp: sound_strict_def strict_fixed32_def split: option.splits prod.splits) (metis snd_conv)+

lemma strict_skip_sound [sound_intros]: "sound_strict v (strict_skip cd e)"
  using skip_field_forward by (auto simp: sound_strict_def strict_skip_def split: bool.splits prod.splits) (metis snd_conv)+

lemma strict_span_sound [sound_intros]: "sound_strict v (strict_span cd what put)"
  unfolding sound_strict_def
proof (intro allI impI)
  fix w acc s
  assume s: "placed v s"
  obtain n s1 where n: "cd_varint32 cd s = (n, s1)" by fastforce
  obtain d s2 where d: "cd_direct cd s1 = (d, s2)" by fastforce
  obtain b s3 where b: "cd_skip cd (as_int (the n)) s2 = (b, s3)" by fastforce
  have s1: "forward v s s1" "placed v s1" using varint32_forward [OF s] forward_placed [OF _ s] n by auto
  have s2: "forward v s1 s2" "placed v s2" using direct_forward [OF s1(2)] forward_placed [OF _ s1(2)] d by auto
  have "forward v s2 s3" using skip_forward [OF s2(2)] b by (metis snd_conv)
  with s1 s2 have "forward v s s3" by (blast intro: forward_trans)
  with n d b s1 show "\<exists>q. strict_span cd what put w acc s = Some q \<and> (case q of Inl e \<Rightarrow> True | Inr (acc', s') \<Rightarrow> forward v s s')"
    by (cases b) (auto simp: strict_span_def split: option.splits)
qed

end

subsection \<open>A stream over bytes\<close>

text \<open>The documented behaviour as functions on bytes: varints of at most ten bytes, little-endian fixed fields.\<close>

record byte_stream =
  bs_whole :: string
  bs_pos :: nat
  bs_lim :: nat
  bs_ended :: bool

definition byte_view :: "byte_stream view" where
  "byte_view = \<lparr>vw_whole = bs_whole, vw_pos = bs_pos, vw_lim = bs_lim\<rparr>"

definition open_bytes :: "string \<Rightarrow> byte_stream" where
  "open_bytes data = \<lparr>bs_whole = data, bs_pos = 0, bs_lim = length data, bs_ended = False\<rparr>"

definition bytes_left :: "byte_stream \<Rightarrow> string" where
  "bytes_left s = Prelude.slice (bs_whole s) (bs_pos s) (bs_lim s)"

definition advance :: "nat \<Rightarrow> byte_stream \<Rightarrow> byte_stream" where
  "advance n s = s\<lparr>bs_pos := min (bs_pos s + n) (max (bs_pos s) (bs_lim s))\<rparr>"

fun varint_of :: "nat \<Rightarrow> string \<Rightarrow> (nat \<times> nat) option" where
  "varint_of 0 cs = None"
| "varint_of (Suc k) [] = None"
| "varint_of (Suc k) (c # cs) =
     (if of_char c < (128 :: nat) then Some (of_char c, 1)
      else map_option (\<lambda>(v, n). (of_char c - 128 + 128 * v, n + 1)) (varint_of k cs))"

fun little_endian :: "string \<Rightarrow> nat" where
  "little_endian [] = 0"
| "little_endian (c # cs) = of_char c + 256 * little_endian cs"

definition read_varint :: "nat \<Rightarrow> byte_stream \<Rightarrow> nat option \<times> byte_stream" where
  "read_varint bits s =
     (case varint_of 10 (bytes_left s) of None \<Rightarrow> (None, s) | Some (v, n) \<Rightarrow> (Some (v mod 2 ^ bits), advance n s))"

definition read_fixed :: "nat \<Rightarrow> byte_stream \<Rightarrow> nat option \<times> byte_stream" where
  "read_fixed n s =
     (if n \<le> length (bytes_left s) then (Some (little_endian (take n (bytes_left s))), advance n s) else (None, s))"

definition read_exact :: "int \<Rightarrow> byte_stream \<Rightarrow> string option \<times> byte_stream" where
  "read_exact n s =
     (if n < 0 then (None, s)
      else if nat n \<le> length (bytes_left s) then (Some (take (nat n) (bytes_left s)), advance (nat n) s)
      else (None, advance (nat n) s))"

definition byte_coded :: "byte_stream coded" where
  "byte_coded =
     \<lparr>cd_tag = (\<lambda>s. if bytes_left s = [] then (0, s\<lparr>bs_ended := True\<rparr>)
                 else case read_varint 32 s of (None, s) \<Rightarrow> (0, s\<lparr>bs_ended := False\<rparr>) | (Some t, s) \<Rightarrow> (t, s\<lparr>bs_ended := False\<rparr>)),
      cd_varint32 = read_varint 32,
      cd_varint64 = read_varint 64,
      cd_fixed32 = read_fixed 4,
      cd_fixed64 = read_fixed 8,
      cd_string = (\<lambda>n out s. case read_exact n s of (None, s) \<Rightarrow> (False, out, s) | (Some b, s) \<Rightarrow> (True, b, s)),
      cd_raw = read_exact,
      cd_skip = (\<lambda>n s. case read_exact n s of (None, s) \<Rightarrow> (False, s) | (Some b, s) \<Rightarrow> (True, s)),
      cd_push = (\<lambda>n s. (int (bs_lim s),
                    if 0 \<le> n \<and> n < int (bs_lim s - bs_pos s) then s\<lparr>bs_lim := bs_pos s + nat n\<rparr> else s)),
      cd_pop = (\<lambda>l s. s\<lparr>bs_lim := nat l, bs_ended := False\<rparr>),
      cd_left = (\<lambda>s. int (bs_lim s - bs_pos s)),
      cd_consumed = bs_ended,
      cd_direct = (\<lambda>s. (if bytes_left s = [] then None else Some (bytes_left s), s))\<rparr>"

lemma bytes_left_length: "placed byte_view s \<Longrightarrow> length (bytes_left s) = bs_lim s - bs_pos s"
  by (auto simp: bytes_left_def Prelude.slice_def placed_def byte_view_def min_def)

lemma advance_forward: "placed byte_view s \<Longrightarrow> forward byte_view s (advance n s)"
  by (auto simp: placed_def byte_view_def forward_def advance_def)

lemma advance_pos: "placed byte_view s \<Longrightarrow> n \<le> bs_lim s - bs_pos s \<Longrightarrow> bs_pos (advance n s) = bs_pos s + n"
  by (auto simp: placed_def byte_view_def advance_def)

lemma forward_ended [simp]: "forward byte_view s (t\<lparr>bs_ended := b\<rparr>) = forward byte_view s t"
  by (simp add: forward_def byte_view_def)

lemma varint_of_bounds: "varint_of k cs = Some (v, n) \<Longrightarrow> 0 < n \<and> n \<le> length cs"
  by (induction k cs arbitrary: v n rule: varint_of.induct) (auto split: if_splits)

lemma read_varint_forward: "placed byte_view s \<Longrightarrow> forward byte_view s (snd (read_varint bits s))"
  by (auto simp: read_varint_def forward_refl advance_forward split: option.splits)

lemma read_varint_takes:
  "placed byte_view s \<Longrightarrow> fst (read_varint bits s) \<noteq> None \<Longrightarrow> bs_pos s < bs_pos (snd (read_varint bits s))"
  using varint_of_bounds [of 10 "bytes_left s"]
  by (auto simp: read_varint_def bytes_left_length advance_pos split: option.splits)

lemma read_fixed_forward: "placed byte_view s \<Longrightarrow> forward byte_view s (snd (read_fixed n s))"
  by (auto simp: read_fixed_def forward_refl advance_forward)

lemma read_fixed_takes:
  "placed byte_view s \<Longrightarrow> 0 < n \<Longrightarrow> fst (read_fixed n s) \<noteq> None \<Longrightarrow> bs_pos s < bs_pos (snd (read_fixed n s))"
  by (auto simp: read_fixed_def bytes_left_length advance_pos split: if_splits)

lemma read_exact_forward: "placed byte_view s \<Longrightarrow> forward byte_view s (snd (read_exact n s))"
  by (auto simp: read_exact_def forward_refl advance_forward)

lemma read_exact_pos:
  "placed byte_view s \<Longrightarrow> 0 \<le> n \<Longrightarrow> n \<le> int (bs_lim s - bs_pos s) \<Longrightarrow> bs_pos (snd (read_exact n s)) = bs_pos s + nat n"
  by (auto simp: read_exact_def bytes_left_length advance_pos)

lemma byte_view_sel [simp]: "vw_whole byte_view = bs_whole" "vw_pos byte_view = bs_pos" "vw_lim byte_view = bs_lim"
  by (simp_all add: byte_view_def)

interpretation byte: coded_stream byte_coded byte_view
proof (unfold_locales, goal_cases)
  case (2 s)
  then show ?case using read_varint_takes [of s 32] by (auto simp: byte_coded_def split: prod.splits option.splits)
qed (auto simp: byte_coded_def forward_refl read_varint_forward read_fixed_forward read_fixed_takes read_exact_forward
      read_exact_pos split_def split: option.splits)

lemma placed_open: "placed byte_view (open_bytes data)"
  by (simp add: placed_def open_bytes_def)

end
