(* ===== verification/FoxObjects.thy ===== *)
theory FoxObjects
  imports WireStream
begin

section \<open>Foxglove objects (parser_protobuf/foxglove_object_codecs.cpp)\<close>

text \<open>
  The decoders of transforms, odometry, images and camera calibrations: the nested geometry readers, the
  field numbers resolved by name from an embedded schema, and the strict loops over the top-level fields.
  A double is an uninterpreted value made from its bits; the default values of the SDK's structures are a
  parameter. Fact shown: every decoder returns for any stream that does what the library documents.
\<close>

subsection \<open>Values\<close>

record 'd fp =
  fp_of_bits :: "nat \<Rightarrow> 'd"
  fp_zero :: 'd
  fp_half :: "'d \<Rightarrow> 'd"
  fp_clamp01 :: "'d \<Rightarrow> 'd"
  fp_times255 :: "'d \<Rightarrow> 'd"
  fp_lround :: "'d \<Rightarrow> int"

definition to_u8 :: "'d fp \<Rightarrow> 'd \<Rightarrow> nat" where
  "to_u8 fp c = nat (fp_lround fp (fp_times255 fp (fp_clamp01 fp c)) mod 256)"

record 'd vec3 =
  v3_x :: 'd
  v3_y :: 'd
  v3_z :: 'd

record 'd quat =
  q_x :: 'd
  q_y :: 'd
  q_z :: 'd
  q_w :: 'd

record 'd pose =
  ps_position :: "'d vec3"
  ps_orientation :: "'d quat"

record 'd point2 =
  p2_x :: 'd
  p2_y :: 'd

record rgba =
  c_r :: nat
  c_g :: nat
  c_b :: nat
  c_a :: nat

record 'd transform =
  tf_timestamp :: int
  tf_parent :: string
  tf_child :: string
  tf_translation :: "'d vec3"
  tf_rotation :: "'d quat"

record 'd poses_in_frame =
  pf_timestamp :: int
  pf_frame_id :: string
  pf_poses :: "'d pose list"

record image =
  im_timestamp :: int
  im_frame_id :: string
  im_width :: nat
  im_height :: nat
  im_encoding :: string
  im_row_step :: nat
  im_data :: string

record 'd camera_info =
  ci_timestamp :: int
  ci_width :: nat
  ci_height :: nat
  ci_model :: string
  ci_D :: "'d list"
  ci_K :: "'d list"
  ci_R :: "'d list"
  ci_P :: "'d list"
  ci_frame_id :: string

text \<open>The SDK's default-constructed structures.\<close>

record 'd sdk =
  sd_vector :: "'d vec3"
  sd_quaternion :: "'d quat"
  sd_pose :: "'d pose"
  sd_point2 :: "'d point2"
  sd_transform :: "'d transform"
  sd_poses :: "'d poses_in_frame"
  sd_image :: image
  sd_camera :: "'d camera_info"

subsection \<open>Geometry\<close>

definition map_reader :: "('a \<Rightarrow> 'b) \<Rightarrow> ('s, 'a) reader \<Rightarrow> ('s, 'b) reader" where
  "map_reader g r len s = map_option (\<lambda>(x, s). (g x, s)) (r len s)"

definition vector3_field :: "'s coded \<Rightarrow> 'd fp \<Rightarrow> ('s, 'd vec3) handler" where
  "vector3_field cd fp f =
     (if f = 1 then field_double cd (fp_of_bits fp) (\<lambda>d v. v\<lparr>v3_x := d\<rparr>)
      else if f = 2 then field_double cd (fp_of_bits fp) (\<lambda>d v. v\<lparr>v3_y := d\<rparr>)
      else if f = 3 then field_double cd (fp_of_bits fp) (\<lambda>d v. v\<lparr>v3_z := d\<rparr>)
      else (\<lambda>w. decline))"

definition read_vector3 :: "'s coded \<Rightarrow> 'd fp \<Rightarrow> 'd sdk \<Rightarrow> ('s, 'd vec3) reader" where
  "read_vector3 cd fp sd = scan_sub cd (vector3_field cd fp) (sd_vector sd)"

definition quaternion_field :: "'s coded \<Rightarrow> 'd fp \<Rightarrow> ('s, 'd quat) handler" where
  "quaternion_field cd fp f =
     (if f = 1 then field_double cd (fp_of_bits fp) (\<lambda>d q. q\<lparr>q_x := d\<rparr>)
      else if f = 2 then field_double cd (fp_of_bits fp) (\<lambda>d q. q\<lparr>q_y := d\<rparr>)
      else if f = 3 then field_double cd (fp_of_bits fp) (\<lambda>d q. q\<lparr>q_z := d\<rparr>)
      else if f = 4 then field_double cd (fp_of_bits fp) (\<lambda>d q. q\<lparr>q_w := d\<rparr>)
      else (\<lambda>w. decline))"

definition read_quaternion :: "'s coded \<Rightarrow> 'd fp \<Rightarrow> 'd sdk \<Rightarrow> ('s, 'd quat) reader" where
  "read_quaternion cd fp sd = scan_sub cd (quaternion_field cd fp) ((sd_quaternion sd)\<lparr>q_w := fp_zero fp\<rparr>)"

definition read_color :: "'s coded \<Rightarrow> 'd fp \<Rightarrow> ('s, rgba) reader" where
  "read_color cd fp =
     map_reader (\<lambda>q. \<lparr>c_r = to_u8 fp (q_x q), c_g = to_u8 fp (q_y q), c_b = to_u8 fp (q_z q), c_a = to_u8 fp (q_w q)\<rparr>)
       (scan_sub cd (quaternion_field cd fp) \<lparr>q_x = fp_zero fp, q_y = fp_zero fp, q_z = fp_zero fp, q_w = fp_zero fp\<rparr>)"

definition pose_field :: "'s coded \<Rightarrow> 'd fp \<Rightarrow> 'd sdk \<Rightarrow> ('s, 'd pose) handler" where
  "pose_field cd fp sd f =
     (if f = 1 then field_message cd (read_vector3 cd fp sd) (\<lambda>v p. p\<lparr>ps_position := v\<rparr>)
      else if f = 2 then field_message cd (read_quaternion cd fp sd) (\<lambda>q p. p\<lparr>ps_orientation := q\<rparr>)
      else (\<lambda>w. decline))"

definition read_pose :: "'s coded \<Rightarrow> 'd fp \<Rightarrow> 'd sdk \<Rightarrow> ('s, 'd pose) reader" where
  "read_pose cd fp sd = scan_sub cd (pose_field cd fp sd) (sd_pose sd)"

definition point2_field :: "'s coded \<Rightarrow> 'd fp \<Rightarrow> ('s, 'd point2) handler" where
  "point2_field cd fp f =
     (if f = 1 then field_double cd (fp_of_bits fp) (\<lambda>d p. p\<lparr>p2_x := d\<rparr>)
      else if f = 2 then field_double cd (fp_of_bits fp) (\<lambda>d p. p\<lparr>p2_y := d\<rparr>)
      else (\<lambda>w. decline))"

definition read_point_xy :: "'s coded \<Rightarrow> 'd fp \<Rightarrow> 'd sdk \<Rightarrow> ('s, 'd point2) reader" where
  "read_point_xy cd fp sd = scan_sub cd (point2_field cd fp) (sd_point2 sd)"

text \<open>Points are kept as vectors.\<close>

definition read_point3 :: "'s coded \<Rightarrow> 'd fp \<Rightarrow> 'd sdk \<Rightarrow> ('s, 'd vec3) reader" where
  "read_point3 cd fp sd = scan_sub cd (vector3_field cd fp) (sd_vector sd)"

text \<open>Seconds and nanoseconds as one 64-bit number. A product or a sum past 64 bits is undefined in C++; here it wraps as the
  machine's two's complement does, and what is proved of a decoded time assumes that neither happens.\<close>

definition stamp_ns :: "int \<Rightarrow> int \<Rightarrow> int" where
  "stamp_ns seconds nanos = signed_take_bit 63 (signed_take_bit 63 (seconds * 1000000000) + nanos)"

definition timestamp_field :: "'s coded \<Rightarrow> ('s, int \<times> int) handler" where
  "timestamp_field cd f =
     (if f = 1 then field_varint cd (\<lambda>v (seconds, nanos). (signed_take_bit 63 (int v), nanos))
      else if f = 2 then field_varint cd (\<lambda>v (seconds, nanos). (seconds, signed_take_bit 31 (int v)))
      else (\<lambda>w. decline))"

definition read_timestamp_ns :: "'s coded \<Rightarrow> ('s, int) reader" where
  "read_timestamp_ns cd =
     map_reader (\<lambda>(seconds, nanos). stamp_ns seconds nanos) (scan_sub cd (timestamp_field cd) (0, 0))"

subsection \<open>Field numbers\<close>

text \<open>A schema embedded in the file: \<open>look\<close> gives a field of a message by name, its number and its own message.\<close>

type_synonym 'm find_field = "'m \<Rightarrow> string \<Rightarrow> (nat \<times> 'm option) option"

definition field_number_or :: "'m find_field \<Rightarrow> 'm option \<Rightarrow> string \<Rightarrow> nat \<Rightarrow> nat" where
  "field_number_or look d name fallback =
     (case d of None \<Rightarrow> fallback | Some m \<Rightarrow> (case look m name of None \<Rightarrow> fallback | Some (n, sub) \<Rightarrow> n))"

definition nested_descriptor :: "'m find_field \<Rightarrow> 'm option \<Rightarrow> string \<Rightarrow> 'm option" where
  "nested_descriptor look d name =
     (case d of None \<Rightarrow> None | Some m \<Rightarrow> (case look m name of None \<Rightarrow> None | Some (n, sub) \<Rightarrow> sub))"

record raw_image_fields =
  ri_timestamp :: nat
  ri_frame_id :: nat
  ri_width :: nat
  ri_height :: nat
  ri_encoding :: nat
  ri_step :: nat
  ri_data :: nat

definition resolve_raw_image :: "'m find_field \<Rightarrow> 'm option \<Rightarrow> raw_image_fields" where
  "resolve_raw_image look d =
     \<lparr>ri_timestamp = field_number_or look d ''timestamp'' 1, ri_frame_id = field_number_or look d ''frame_id'' 2,
      ri_width = field_number_or look d ''width'' 3, ri_height = field_number_or look d ''height'' 4,
      ri_encoding = field_number_or look d ''encoding'' 5, ri_step = field_number_or look d ''step'' 6,
      ri_data = field_number_or look d ''data'' 7\<rparr>"

record compressed_image_fields =
  cf_timestamp :: nat
  cf_data :: nat
  cf_format :: nat
  cf_frame_id :: nat

definition resolve_compressed_image :: "'m find_field \<Rightarrow> 'm option \<Rightarrow> compressed_image_fields" where
  "resolve_compressed_image look d =
     \<lparr>cf_timestamp = field_number_or look d ''timestamp'' 1, cf_data = field_number_or look d ''data'' 2,
      cf_format = field_number_or look d ''format'' 3, cf_frame_id = field_number_or look d ''frame_id'' 4\<rparr>"

record calibration_fields =
  cal_timestamp :: nat
  cal_width :: nat
  cal_height :: nat
  cal_model :: nat
  cal_D :: nat
  cal_K :: nat
  cal_R :: nat
  cal_P :: nat
  cal_frame_id :: nat

definition resolve_calibration :: "'m find_field \<Rightarrow> 'm option \<Rightarrow> calibration_fields" where
  "resolve_calibration look d =
     \<lparr>cal_timestamp = field_number_or look d ''timestamp'' 1, cal_width = field_number_or look d ''width'' 2,
      cal_height = field_number_or look d ''height'' 3, cal_model = field_number_or look d ''distortion_model'' 4,
      cal_D = field_number_or look d ''D'' 5, cal_K = field_number_or look d ''K'' 6,
      cal_R = field_number_or look d ''R'' 7, cal_P = field_number_or look d ''P'' 8,
      cal_frame_id = field_number_or look d ''frame_id'' 9\<rparr>"

record transform_fields =
  tff_timestamp :: nat
  tff_parent :: nat
  tff_child :: nat
  tff_translation :: nat
  tff_rotation :: nat

definition resolve_transform :: "'m find_field \<Rightarrow> 'm option \<Rightarrow> transform_fields" where
  "resolve_transform look d =
     \<lparr>tff_timestamp = field_number_or look d ''timestamp'' 1, tff_parent = field_number_or look d ''parent_frame_id'' 2,
      tff_child = field_number_or look d ''child_frame_id'' 3, tff_translation = field_number_or look d ''translation'' 4,
      tff_rotation = field_number_or look d ''rotation'' 5\<rparr>"

record odometry_fields =
  od_timestamp :: nat
  od_frame_id :: nat
  od_pose :: nat

definition resolve_odometry :: "'m find_field \<Rightarrow> 'm option \<Rightarrow> odometry_fields" where
  "resolve_odometry look d =
     \<lparr>od_timestamp = field_number_or look d ''timestamp'' 1, od_frame_id = field_number_or look d ''frame_id'' 2,
      od_pose = field_number_or look d ''pose'' 4\<rparr>"

subsection \<open>The decoders\<close>

definition int_max :: nat where "int_max = 2147483647"

text \<open>The frame of a decoder: the size check, the stream over the data, the loop; \<open>finish\<close> builds the result.\<close>

definition decode_message ::
  "'s coded \<Rightarrow> (string \<Rightarrow> 's) \<Rightarrow> string \<Rightarrow> ('s, 'a) strict \<Rightarrow> 'a \<Rightarrow> ('a \<Rightarrow> 'b) \<Rightarrow> string \<Rightarrow> (string + 'b) option" where
  "decode_message cd opened what handle init finish data =
     (if length data > int_max then Some (Inl (what @ '': too large''))
      else map_option (map_sum id (\<lambda>(acc, s). finish acc)) (strict_fields cd handle init (opened data)))"

definition transform_name :: string where "transform_name = ''foxglove.FrameTransform''"

definition transform_top :: "'s coded \<Rightarrow> 'd fp \<Rightarrow> 'd sdk \<Rightarrow> transform_fields \<Rightarrow> ('s, 'd transform) strict" where
  "transform_top cd fp sd n f =
     (if f = tff_timestamp n
      then strict_message cd (transform_name @ '': bad timestamp'') (read_timestamp_ns cd) (\<lambda>t a. a\<lparr>tf_timestamp := t\<rparr>)
      else if f = tff_parent n
      then strict_string cd (transform_name @ '': bad parent_frame_id'') tf_parent (\<lambda>x a. a\<lparr>tf_parent := x\<rparr>)
      else if f = tff_child n
      then strict_string cd (transform_name @ '': bad child_frame_id'') tf_child (\<lambda>x a. a\<lparr>tf_child := x\<rparr>)
      else if f = tff_translation n
      then strict_message cd (transform_name @ '': bad translation'') (read_vector3 cd fp sd) (\<lambda>x a. a\<lparr>tf_translation := x\<rparr>)
      else if f = tff_rotation n
      then strict_message cd (transform_name @ '': bad rotation'') (read_quaternion cd fp sd) (\<lambda>x a. a\<lparr>tf_rotation := x\<rparr>)
      else strict_skip cd (transform_name @ '': malformed''))"

definition deserialize_transform ::
  "'s coded \<Rightarrow> (string \<Rightarrow> 's) \<Rightarrow> 'd fp \<Rightarrow> 'd sdk \<Rightarrow> transform_fields \<Rightarrow> string \<Rightarrow> (string + 'd transform list) option" where
  "deserialize_transform cd opened fp sd n =
     decode_message cd opened transform_name (transform_top cd fp sd n) (sd_transform sd) (\<lambda>tf. [tf])"

definition odometry_name :: string where "odometry_name = ''foxglove.Odometry''"

definition odometry_top :: "'s coded \<Rightarrow> 'd fp \<Rightarrow> 'd sdk \<Rightarrow> odometry_fields \<Rightarrow> ('s, 'd poses_in_frame \<times> 'd pose) strict" where
  "odometry_top cd fp sd n f =
     (if f = od_timestamp n
      then strict_message cd (odometry_name @ '': bad timestamp'') (read_timestamp_ns cd) (\<lambda>t (a, p). (a\<lparr>pf_timestamp := t\<rparr>, p))
      else if f = od_frame_id n
      then strict_string cd (odometry_name @ '': bad frame_id'') (\<lambda>(a, p). pf_frame_id a) (\<lambda>x (a, p). (a\<lparr>pf_frame_id := x\<rparr>, p))
      else if f = od_pose n
      then strict_message cd (odometry_name @ '': bad pose'') (read_pose cd fp sd) (\<lambda>x (a, p). (a, x))
      else strict_skip cd (odometry_name @ '': malformed''))"

definition deserialize_odometry ::
  "'s coded \<Rightarrow> (string \<Rightarrow> 's) \<Rightarrow> 'd fp \<Rightarrow> 'd sdk \<Rightarrow> odometry_fields \<Rightarrow> string \<Rightarrow> (string + 'd poses_in_frame) option" where
  "deserialize_odometry cd opened fp sd n =
     decode_message cd opened odometry_name (odometry_top cd fp sd n) (sd_poses sd, sd_pose sd)
       (\<lambda>(a, p). a\<lparr>pf_poses := pf_poses a @ [p]\<rparr>)"

definition compressed_name :: string where "compressed_name = ''foxglove.CompressedImage''"

text \<open>The span of the payload and the image; the span is stored at the end.\<close>

definition compressed_top :: "'s coded \<Rightarrow> compressed_image_fields \<Rightarrow> ('s, image \<times> string) strict" where
  "compressed_top cd n f =
     (if f = cf_timestamp n
      then strict_message cd (compressed_name @ '': bad timestamp'') (read_timestamp_ns cd) (\<lambda>t (a, d). (a\<lparr>im_timestamp := t\<rparr>, d))
      else if f = cf_data n then strict_span cd compressed_name (\<lambda>x (a, d). (a, x))
      else if f = cf_format n
      then strict_string cd (compressed_name @ '': bad format'') (\<lambda>(a, d). im_encoding a) (\<lambda>x (a, d). (a\<lparr>im_encoding := x\<rparr>, d))
      else if f = cf_frame_id n
      then strict_string cd (compressed_name @ '': bad frame_id'') (\<lambda>(a, d). im_frame_id a) (\<lambda>x (a, d). (a\<lparr>im_frame_id := x\<rparr>, d))
      else strict_skip cd (compressed_name @ '': malformed''))"

definition with_span :: "image \<times> string \<Rightarrow> image" where
  "with_span ad = (fst ad)\<lparr>im_data := snd ad\<rparr>"

definition deserialize_compressed_image ::
  "'s coded \<Rightarrow> (string \<Rightarrow> 's) \<Rightarrow> 'd sdk \<Rightarrow> compressed_image_fields \<Rightarrow> string \<Rightarrow> (string + image) option" where
  "deserialize_compressed_image cd opened sd n =
     decode_message cd opened compressed_name (compressed_top cd n) (sd_image sd, []) with_span"

definition raw_name :: string where "raw_name = ''foxglove.RawImage''"

definition raw_top :: "'s coded \<Rightarrow> raw_image_fields \<Rightarrow> ('s, image \<times> string) strict" where
  "raw_top cd n f =
     (if f = ri_timestamp n
      then strict_message cd (raw_name @ '': bad timestamp'') (read_timestamp_ns cd) (\<lambda>t (a, d). (a\<lparr>im_timestamp := t\<rparr>, d))
      else if f = ri_frame_id n
      then strict_string cd (raw_name @ '': bad frame_id'') (\<lambda>(a, d). im_frame_id a) (\<lambda>x (a, d). (a\<lparr>im_frame_id := x\<rparr>, d))
      else if f = ri_width n then strict_fixed32 cd (raw_name @ '': bad width'') (\<lambda>x (a, d). (a\<lparr>im_width := x\<rparr>, d))
      else if f = ri_height n then strict_fixed32 cd (raw_name @ '': bad height'') (\<lambda>x (a, d). (a\<lparr>im_height := x\<rparr>, d))
      else if f = ri_encoding n
      then strict_string cd (raw_name @ '': bad encoding'') (\<lambda>(a, d). im_encoding a) (\<lambda>x (a, d). (a\<lparr>im_encoding := x\<rparr>, d))
      else if f = ri_step n then strict_fixed32 cd (raw_name @ '': bad step'') (\<lambda>x (a, d). (a\<lparr>im_row_step := x\<rparr>, d))
      else if f = ri_data n then strict_span cd raw_name (\<lambda>x (a, d). (a, x))
      else strict_skip cd (raw_name @ '': malformed''))"

definition deserialize_raw_image ::
  "'s coded \<Rightarrow> (string \<Rightarrow> 's) \<Rightarrow> 'd sdk \<Rightarrow> raw_image_fields \<Rightarrow> string \<Rightarrow> (string + image) option" where
  "deserialize_raw_image cd opened sd n = decode_message cd opened raw_name (raw_top cd n) (sd_image sd, []) with_span"

definition calibration_name :: string where "calibration_name = ''foxglove.CameraCalibration''"

text \<open>The camera with the three matrices as they were read.\<close>

record 'd calibration =
  ca_info :: "'d camera_info"
  ca_K :: "'d list"
  ca_R :: "'d list"
  ca_P :: "'d list"

definition on_info :: "('d camera_info \<Rightarrow> 'd camera_info) \<Rightarrow> 'd calibration \<Rightarrow> 'd calibration" where
  "on_info g a = a\<lparr>ca_info := g (ca_info a)\<rparr>"

definition calibration_top :: "'s coded \<Rightarrow> 'd fp \<Rightarrow> calibration_fields \<Rightarrow> ('s, 'd calibration) strict" where
  "calibration_top cd fp n f =
     (let doubles = read_packed_doubles cd (fp_of_bits fp) in
      if f = cal_timestamp n
      then strict_message cd (calibration_name @ '': bad timestamp'') (read_timestamp_ns cd) (\<lambda>t. on_info (\<lambda>i. i\<lparr>ci_timestamp := t\<rparr>))
      else if f = cal_width n then strict_fixed32 cd (calibration_name @ '': bad width'') (\<lambda>x. on_info (\<lambda>i. i\<lparr>ci_width := x\<rparr>))
      else if f = cal_height n then strict_fixed32 cd (calibration_name @ '': bad height'') (\<lambda>x. on_info (\<lambda>i. i\<lparr>ci_height := x\<rparr>))
      else if f = cal_model n
      then strict_string cd (calibration_name @ '': bad distortion_model'') (\<lambda>a. ci_model (ca_info a)) (\<lambda>x. on_info (\<lambda>i. i\<lparr>ci_model := x\<rparr>))
      else if f = cal_D n
      then strict_message cd (calibration_name @ '': bad D'') doubles (\<lambda>xs. on_info (\<lambda>i. i\<lparr>ci_D := ci_D i @ xs\<rparr>))
      else if f = cal_K n
      then strict_message cd (calibration_name @ '': bad K'') doubles (\<lambda>xs a. a\<lparr>ca_K := ca_K a @ xs\<rparr>)
      else if f = cal_R n
      then strict_message cd (calibration_name @ '': bad R'') doubles (\<lambda>xs a. a\<lparr>ca_R := ca_R a @ xs\<rparr>)
      else if f = cal_P n
      then strict_message cd (calibration_name @ '': bad P'') doubles (\<lambda>xs a. a\<lparr>ca_P := ca_P a @ xs\<rparr>)
      else if f = cal_frame_id n
      then strict_string cd (calibration_name @ '': bad frame_id'') (\<lambda>a. ci_frame_id (ca_info a)) (\<lambda>x. on_info (\<lambda>i. i\<lparr>ci_frame_id := x\<rparr>))
      else strict_skip cd (calibration_name @ '': malformed''))"

text \<open>What fits of \<open>xs\<close> over the array.\<close>

definition overlay :: "'a list \<Rightarrow> 'a list \<Rightarrow> 'a list" where
  "overlay xs arr = take (length arr) xs @ drop (length xs) arr"

definition finish_calibration :: "'d calibration \<Rightarrow> 'd camera_info" where
  "finish_calibration a =
     (ca_info a)\<lparr>ci_K := overlay (ca_K a) (ci_K (ca_info a)), ci_R := overlay (ca_R a) (ci_R (ca_info a)),
                 ci_P := overlay (ca_P a) (ci_P (ca_info a))\<rparr>"

definition deserialize_calibration ::
  "'s coded \<Rightarrow> (string \<Rightarrow> 's) \<Rightarrow> 'd fp \<Rightarrow> 'd sdk \<Rightarrow> calibration_fields \<Rightarrow> string \<Rightarrow> (string + 'd camera_info) option" where
  "deserialize_calibration cd opened fp sd n =
     decode_message cd opened calibration_name (calibration_top cd fp n)
       \<lparr>ca_info = sd_camera sd, ca_K = [], ca_R = [], ca_P = []\<rparr> finish_calibration"

subsection \<open>Every decoder returns\<close>

context coded_stream
begin

lemma map_reader_sound [sound_intros]: "sound_reader v r \<Longrightarrow> sound_reader v (map_reader g r)"
  by (fastforce simp: sound_reader_def map_reader_def)

lemma read_vector3_sound [sound_intros]: "sound_reader v (read_vector3 cd fp sd)"
  unfolding read_vector3_def vector3_field_def by (intro sound_intros)

lemma read_quaternion_sound [sound_intros]: "sound_reader v (read_quaternion cd fp sd)"
  unfolding read_quaternion_def quaternion_field_def by (intro sound_intros)

lemma read_color_sound [sound_intros]: "sound_reader v (read_color cd fp)"
  unfolding read_color_def quaternion_field_def by (intro sound_intros)

lemma read_pose_sound [sound_intros]: "sound_reader v (read_pose cd fp sd)"
  unfolding read_pose_def pose_field_def by (intro sound_intros)

lemma read_point_xy_sound [sound_intros]: "sound_reader v (read_point_xy cd fp sd)"
  unfolding read_point_xy_def point2_field_def by (intro sound_intros)

lemma read_point3_sound [sound_intros]: "sound_reader v (read_point3 cd fp sd)"
  unfolding read_point3_def vector3_field_def by (intro sound_intros)

lemma read_timestamp_ns_sound [sound_intros]: "sound_reader v (read_timestamp_ns cd)"
  unfolding read_timestamp_ns_def timestamp_field_def by (intro sound_intros)

lemma decode_message_ends:
  "(\<And>f. sound_strict v (handle f)) \<Longrightarrow> placed v (opened data) \<Longrightarrow>
    \<exists>r. decode_message cd opened what handle init finish data = Some r"
  using strict_fields_ends [of handle "opened data" init] by (auto simp: decode_message_def)

lemma object_decoders_end:
  assumes "placed v (opened data)"
  shows "\<exists>r. deserialize_transform cd opened fp sd tn data = Some r"
    and "\<exists>r. deserialize_odometry cd opened fp sd od data = Some r"
    and "\<exists>r. deserialize_compressed_image cd opened sd cf data = Some r"
    and "\<exists>r. deserialize_raw_image cd opened sd ri data = Some r"
    and "\<exists>r. deserialize_calibration cd opened fp sd cal data = Some r"
  unfolding deserialize_transform_def deserialize_odometry_def deserialize_compressed_image_def
    deserialize_raw_image_def deserialize_calibration_def
  by (intro decode_message_ends assms;
      simp only: transform_top_def odometry_top_def compressed_top_def raw_top_def calibration_top_def Let_def; intro sound_intros)+

end

end
