(* ===== verification/GridMaps.thy ===== *)
theory GridMaps
  imports PointColor FoxObjects
begin

section \<open>Grid maps (common/grid_map)\<close>

text \<open>
  The transcoding of a grid-map message, column-major ring buffers of floats, into row-major records of one float per
  layer, with every check made before an array is read, and the completion of a grid that comes without its row count. The
  SDK's final validation, doubles and floats are parameters. Facts shown: a message that is accepted has each
  record filled from the storage cell that the documentation names, or with NaN where a basic layer is not
  finite, and every storage cell read is inside its layer.
\<close>

record 'd cell2 =
  g2_x :: 'd
  g2_y :: 'd

record 'd grid =
  gm_timestamp :: int
  gm_frame_id :: string
  gm_origin :: "'d pose"
  gm_cell_size :: "'d cell2"
  gm_columns :: nat
  gm_rows :: nat
  gm_row_stride :: nat
  gm_cell_stride :: nat
  gm_fields :: "point_field list"
  gm_data :: string

record dimension =
  md_label :: string
  md_size :: nat
  md_stride :: nat

record 'f layer =
  la_dims :: "dimension list"
  la_offset :: nat
  la_data :: "'f list"

record ('d, 'f) grid_message =
  gg_resolution :: 'd
  gg_length_x :: 'd
  gg_length_y :: 'd
  gg_center_x :: 'd
  gg_center_y :: 'd
  gg_layers :: "string list"
  gg_basic :: "string list"
  gg_data :: "'f layer list"
  gg_outer :: nat
  gg_inner :: nat

text \<open>Finite and positive, the rounded quotient unless it is not finite or too large, the corner at half the
  extent from the centre; the finite floats, NaN and the bytes of a float; the validation of the SDK.\<close>

record ('d, 'f) grid_lib =
  gl_positive :: "'d \<Rightarrow> bool"
  gl_cells :: "'d \<Rightarrow> 'd \<Rightarrow> int option"
  gl_corner :: "'d \<Rightarrow> nat \<Rightarrow> 'd \<Rightarrow> 'd"
  gl_finite :: "'f \<Rightarrow> bool"
  gl_nan :: 'f
  gl_bytes :: "'f \<Rightarrow> string"
  gl_zero :: 'd
  gl_grid :: "'d grid"
  gl_validate :: "'d grid \<Rightarrow> string option"

definition max_cells :: nat where "max_cells = 16777216"
definition max_layers :: nat where "max_layers = 64"
definition float_size :: nat where "float_size = 4"

definition length_matches :: "('d, 'f) grid_lib \<Rightarrow> 'd \<Rightarrow> 'd \<Rightarrow> nat \<Rightarrow> bool" where
  "length_matches gl len resolution n = (gl_cells gl len resolution = Some (int n))"

text \<open>\<open>transcodeGridMap\<close>: the position of a name, and the basic layers.\<close>

primrec position :: "string \<Rightarrow> string list \<Rightarrow> nat option" where
  "position x [] = None"
| "position x (y # ys) = (if y = x then Some 0 else map_option Suc (position x ys))"

fun basic_indices :: "string list \<Rightarrow> string list \<Rightarrow> string + nat list" where
  "basic_indices layers [] = Inr []"
| "basic_indices layers (n # ns) =
     (case position n layers of
        None \<Rightarrow> Inl (''GridMap: basic layer '' @ [CHR 0x27] @ n @ [CHR 0x27] @ '' is not in layers'')
      | Some k \<Rightarrow> (case basic_indices layers ns of Inl e \<Rightarrow> Inl e | Inr ks \<Rightarrow> Inr (k # ks)))"

text \<open>The checks of each layer, in order.\<close>

fun layer_errors :: "dimension list \<Rightarrow> nat \<Rightarrow> (string \<times> 'f layer) list \<Rightarrow> string option" where
  "layer_errors dims cells [] = None"
| "layer_errors dims cells ((name, l) # ls) =
     (if la_dims l \<noteq> dims then Some (''GridMap: layer '' @ [CHR 0x27] @ name @ [CHR 0x27] @ '' has a different layout'')
      else if la_offset l + cells > length (la_data l)
      then Some (''GridMap: layer '' @ [CHR 0x27] @ name @ [CHR 0x27] @ '' array is shorter than its layout'')
      else layer_errors dims cells ls)"

text \<open>The record of one cell, from the storage cell \<open>src\<close> of every layer.\<close>

definition base_at :: "'f layer \<Rightarrow> nat \<Rightarrow> 'f" where
  "base_at l src = la_data l ! (la_offset l + src)"

definition cell_record :: "('d, 'f) grid_lib \<Rightarrow> 'f layer list \<Rightarrow> nat list \<Rightarrow> nat \<Rightarrow> 'f list" where
  "cell_record gl layers basic src =
     (if list_all (\<lambda>b. gl_finite gl (base_at (layers ! b) src)) basic then map (\<lambda>l. base_at l src) layers
      else replicate (length layers) (gl_nan gl))"

fun column_loop :: "('d, 'f) grid_lib \<Rightarrow> 'f layer list \<Rightarrow> nat list \<Rightarrow> nat \<Rightarrow> nat \<Rightarrow> nat \<Rightarrow> nat \<Rightarrow> 'f list" where
  "column_loop gl layers basic size_x row_base bi 0 = []"
| "column_loop gl layers basic size_x row_base bi (Suc n) =
     cell_record gl layers basic (row_base + bi)
     @ column_loop gl layers basic size_x row_base (if bi = 0 then size_x - 1 else bi - 1) n"

definition row_base :: "nat \<Rightarrow> nat \<Rightarrow> nat \<Rightarrow> nat \<Rightarrow> nat" where
  "row_base size_x size_y inner r = u32 (size_y - 1 - r + inner) mod size_y * size_x"

definition first_column :: "nat \<Rightarrow> nat \<Rightarrow> nat" where
  "first_column size_x outer = u32 (size_x - 1 + outer) mod size_x"

fun row_loop :: "('d, 'f) grid_lib \<Rightarrow> 'f layer list \<Rightarrow> nat list \<Rightarrow> nat \<Rightarrow> nat \<Rightarrow> nat \<Rightarrow> nat \<Rightarrow> nat \<Rightarrow> nat \<Rightarrow> 'f list" where
  "row_loop gl layers basic size_x size_y outer inner r 0 = []"
| "row_loop gl layers basic size_x size_y outer inner r (Suc n) =
     column_loop gl layers basic size_x (row_base size_x size_y inner r) (first_column size_x outer) size_x
     @ row_loop gl layers basic size_x size_y outer inner (r + 1) n"

text \<open>The checks up to the layers, and those of the layout; a total of bytes past 64 bits cannot occur within the
  limits.\<close>

definition header_error :: "('d, 'f) grid_lib \<Rightarrow> ('d, 'f) grid_message \<Rightarrow> string option" where
  "header_error gl msg =
     (if gg_layers msg = [] then Some ''GridMap: no layers''
      else if length (gg_layers msg) > max_layers
      then Some (''GridMap: too many layers ('' @ nat_text (length (gg_layers msg)) @ '')'')
      else if length (gg_data msg) \<noteq> length (gg_layers msg) then Some ''GridMap: layer count differs from data array count''
      else if \<not> distinct (gg_layers msg) then Some ''GridMap: duplicate layer name''
      else (case basic_indices (gg_layers msg) (gg_basic msg) of
              Inl e \<Rightarrow> Some e
            | Inr ks \<Rightarrow>
                if \<not> gl_positive gl (gg_resolution msg) \<or> \<not> gl_positive gl (gg_length_x msg) \<or> \<not> gl_positive gl (gg_length_y msg)
                then Some ''GridMap: resolution and lengths must be finite and positive'' else None))"

definition size_y_of :: "('d, 'f) grid_message \<Rightarrow> nat" where "size_y_of msg = md_size (la_dims (hd (gg_data msg)) ! 0)"
definition size_x_of :: "('d, 'f) grid_message \<Rightarrow> nat" where "size_x_of msg = md_size (la_dims (hd (gg_data msg)) ! 1)"

definition layout_error :: "('d, 'f) grid_lib \<Rightarrow> ('d, 'f) grid_message \<Rightarrow> string option" where
  "layout_error gl msg =
     (let dims = la_dims (hd (gg_data msg)); size_y = size_y_of msg; size_x = size_x_of msg; cells = size_x * size_y in
      if length dims \<noteq> 2 \<or> md_label (dims ! 0) \<noteq> ''column_index'' \<or> md_label (dims ! 1) \<noteq> ''row_index''
      then Some ''GridMap: layer layout must be dim[0]=column_index, dim[1]=row_index''
      else if size_x = 0 \<or> size_y = 0 then Some ''GridMap: zero-sized layer''
      else if cells > max_cells then Some (''GridMap: too many cells ('' @ nat_text cells @ '')'')
      else if \<not> (md_stride (dims ! 0) = 0 \<and> md_stride (dims ! 1) = 0)
              \<and> (md_stride (dims ! 0) \<noteq> cells \<or> md_stride (dims ! 1) \<noteq> size_x)
      then Some ''GridMap: layer strides do not match the column-major layout''
      else if float_size * length (gg_layers msg) * size_x > 2 ^ 32 - 1 then Some ''GridMap: row stride not representable''
      else if \<not> length_matches gl (gg_length_x msg) (gg_resolution msg) size_x
              \<or> \<not> length_matches gl (gg_length_y msg) (gg_resolution msg) size_y
      then Some ''GridMap: length_x/length_y do not match the array sizes at this resolution''
      else if gg_outer msg \<ge> size_x \<or> gg_inner msg \<ge> size_y then Some ''GridMap: start index out of range''
      else layer_errors dims cells (zip (gg_layers msg) (gg_data msg)))"

definition layer_field :: "nat \<Rightarrow> string \<Rightarrow> point_field" where
  "layer_field k name = \<lparr>pt_name = name, pt_offset = float_size * k, pt_type = PtFloat32, pt_count = 1\<rparr>"

definition transcoded :: "('d, 'f) grid_lib \<Rightarrow> ('d, 'f) grid_message \<Rightarrow> nat list \<Rightarrow> 'd grid" where
  "transcoded gl msg basic =
     (let size_x = size_x_of msg; size_y = size_y_of msg; cell_stride = float_size * length (gg_layers msg) in
      (gl_grid gl)\<lparr>gm_origin := (gm_origin (gl_grid gl))\<lparr>ps_position :=
                      \<lparr>v3_x = gl_corner gl (gg_center_x msg) size_x (gg_resolution msg),
                       v3_y = gl_corner gl (gg_center_y msg) size_y (gg_resolution msg), v3_z = gl_zero gl\<rparr>\<rparr>,
                   gm_cell_size := \<lparr>g2_x = gg_resolution msg, g2_y = gg_resolution msg\<rparr>,
                   gm_columns := size_x, gm_rows := size_y, gm_cell_stride := cell_stride, gm_row_stride := cell_stride * size_x,
                   gm_fields := map (\<lambda>(k, n). layer_field k n) (zip [0..<length (gg_layers msg)] (gg_layers msg)),
                   gm_data := concat (map (gl_bytes gl)
                     (row_loop gl (gg_data msg) basic size_x size_y (gg_outer msg) (gg_inner msg) 0 size_y))\<rparr>)"

definition transcode_grid_map :: "('d, 'f) grid_lib \<Rightarrow> ('d, 'f) grid_message \<Rightarrow> string + 'd grid" where
  "transcode_grid_map gl msg =
     (case header_error gl msg of
        Some e \<Rightarrow> Inl e
      | None \<Rightarrow> (case layout_error gl msg of
          Some e \<Rightarrow> Inl e
        | None \<Rightarrow> (case basic_indices (gg_layers msg) (gg_basic msg) of
            Inl e \<Rightarrow> Inl e
          | Inr basic \<Rightarrow>
              let grid = transcoded gl msg basic in
              case gl_validate gl grid of Some e \<Rightarrow> Inl (''GridMap: '' @ e) | None \<Rightarrow> Inr grid)))"

text \<open>A Foxglove grid, whose wire carries no row count.\<close>

definition finalize_foxglove_grid :: "('d, 'f) grid_lib \<Rightarrow> 'd grid \<Rightarrow> string + 'd grid" where
  "finalize_foxglove_grid gl g =
     (let checked = (\<lambda>g. case gl_validate gl g of Some e \<Rightarrow> Inl e | None \<Rightarrow> Inr g) in
      if gm_data g = [] then checked (g\<lparr>gm_rows := 0\<rparr>)
      else if gm_row_stride g = 0 then Inl ''row_stride is 0 but data is not empty''
      else if length (gm_data g) mod gm_row_stride g \<noteq> 0 then Inl ''data length is not a whole number of rows''
      else checked (g\<lparr>gm_rows := u32 (length (gm_data g) div gm_row_stride g)\<rparr>))"

definition foxglove_numeric_type :: "nat \<Rightarrow> point_type" where
  "foxglove_numeric_type t =
     (if t = 1 then PtUint8 else if t = 2 then PtInt8 else if t = 3 then PtUint16 else if t = 4 then PtInt16
      else if t = 5 then PtUint32 else if t = 6 then PtInt32 else if t = 7 then PtFloat32 else if t = 8 then PtFloat64 else PtUnknown)"

subsection \<open>The cells of a transcoded map\<close>

text \<open>The storage cell of column \<open>c\<close> and row \<open>r\<close>, as the header of the transcoder states it.\<close>

definition storage_cell :: "('d, 'f) grid_message \<Rightarrow> nat \<Rightarrow> nat \<Rightarrow> nat" where
  "storage_cell msg c r =
     (size_y_of msg - 1 - r + gg_inner msg) mod size_y_of msg * size_x_of msg + (size_x_of msg - 1 - c + gg_outer msg) mod size_x_of msg"

lemma column_loop_spec:
  "c + n \<le> size_x \<Longrightarrow> 0 < size_x \<Longrightarrow> outer < size_x \<Longrightarrow>
    column_loop gl layers basic size_x rb ((size_x - 1 - c + outer) mod size_x) n =
      concat (map (\<lambda>c. cell_record gl layers basic (rb + (size_x - 1 - c + outer) mod size_x)) [c..<c + n])"
proof (induction n arbitrary: c)
  case (Suc n)
  let ?b = "(size_x - 1 - c + outer) mod size_x"
  have step: "(if ?b = 0 then size_x - 1 else ?b - 1) = (size_x - 1 - (c + 1) + outer) mod size_x" if "n \<noteq> 0"
  proof -
    from that Suc.prems have c: "c + 1 < size_x" by simp
    show ?thesis
    proof (cases "outer \<le> c")
      case True
      then have "?b = size_x - 1 - c + outer" "(size_x - 1 - (c + 1) + outer) mod size_x = size_x - 1 - (c + 1) + outer"
        using c by simp_all
      with c show ?thesis by simp
    next
      case False
      have e: "size_x - 1 - c + outer = outer - 1 - c + size_x" using False c by simp
      have b: "?b = outer - 1 - c" unfolding e mod_add_self2 using Suc.prems(3) by simp
      show ?thesis
      proof (cases "outer = c + 1")
        case True
        then show ?thesis unfolding b using c by simp
      next
        case False
        with \<open>\<not> outer \<le> c\<close> c have e': "size_x - 1 - (c + 1) + outer = outer - 2 - c + size_x" by simp
        have "(size_x - 1 - (c + 1) + outer) mod size_x = outer - 2 - c" unfolding e' mod_add_self2 using Suc.prems(3) by simp
        then show ?thesis unfolding b using False \<open>\<not> outer \<le> c\<close> by simp
      qed
    qed
  qed
  have range: "[c..<c + Suc n] = c # [c + 1..<c + 1 + n]" by (simp add: upt_conv_Cons)
  have "c + 1 + n \<le> size_x" using Suc.prems by simp
  note rest = Suc.IH [OF this Suc.prems(2,3)]
  show ?case
  proof (cases "n = 0")
    case True
    then show ?thesis by simp
  next
    case False
    show ?thesis unfolding column_loop.simps(2) step [OF False] rest range by (simp only: list.map concat.simps)
  qed
qed simp

lemma row_loop_concat:
  "row_loop gl layers basic size_x size_y outer inner r n =
    concat (map (\<lambda>r. column_loop gl layers basic size_x (row_base size_x size_y inner r) (first_column size_x outer) size_x) [r..<r + n])"
proof (induction n arbitrary: r)
  case (Suc n)
  have "[r..<r + Suc n] = r # [r + 1..<r + 1 + n]" by (simp add: upt_conv_Cons)
  then show ?case by (simp add: Suc.IH)
qed simp

lemma layer_errorsD:
  "layer_errors dims cells ls = None \<Longrightarrow> (name, l) \<in> set ls \<Longrightarrow> la_offset l + cells \<le> length (la_data l)"
  by (induction dims cells ls rule: layer_errors.induct) (auto split: if_splits)

text \<open>What an accepted message satisfies.\<close>

lemma accepted_message:
  assumes "transcode_grid_map gl msg = Inr g"
  obtains basic where "basic_indices (gg_layers msg) (gg_basic msg) = Inr basic" "g = transcoded gl msg basic"
    "0 < size_x_of msg" "0 < size_y_of msg" "size_x_of msg * size_y_of msg \<le> max_cells" "gg_outer msg < size_x_of msg"
    "gg_inner msg < size_y_of msg" "length (gg_data msg) = length (gg_layers msg)"
    "\<forall>l \<in> set (gg_data msg). la_offset l + size_x_of msg * size_y_of msg \<le> length (la_data l)"
proof -
  from assms obtain basic where b: "header_error gl msg = None" "layout_error gl msg = None"
      "basic_indices (gg_layers msg) (gg_basic msg) = Inr basic" "g = transcoded gl msg basic"
    by (auto simp: transcode_grid_map_def Let_def split: option.splits sum.splits)
  have len: "length (gg_data msg) = length (gg_layers msg)" using b(1) by (auto simp: header_error_def split: if_splits)
  have sizes: "0 < size_x_of msg" "0 < size_y_of msg" "size_x_of msg * size_y_of msg \<le> max_cells" "gg_outer msg < size_x_of msg"
    "gg_inner msg < size_y_of msg"
    using b(2) by (auto simp: layout_error_def Let_def split: if_splits)
  have "layer_errors (la_dims (hd (gg_data msg))) (size_x_of msg * size_y_of msg) (zip (gg_layers msg) (gg_data msg)) = None"
    using b(2) by (auto simp: layout_error_def Let_def split: if_splits)
  note fits = layer_errorsD [OF this]
  have "\<forall>l \<in> set (gg_data msg). la_offset l + size_x_of msg * size_y_of msg \<le> length (la_data l)"
  proof
    fix l
    assume "l \<in> set (gg_data msg)"
    then obtain i where "i < length (gg_data msg)" "l = gg_data msg ! i" by (auto simp: in_set_conv_nth)
    with len have "(gg_layers msg ! i, l) \<in> set (zip (gg_layers msg) (gg_data msg))" by (auto simp: set_zip)
    with fits show "la_offset l + size_x_of msg * size_y_of msg \<le> length (la_data l)" by blast
  qed
  with that b(3,4) sizes len show ?thesis by blast
qed

text \<open>The numbers of the loops do not wrap within the limit on cells.\<close>

lemma loop_numbers:
  assumes "0 < size_x" "0 < size_y" "size_x * size_y \<le> max_cells" "outer < size_x" "inner < size_y"
  shows "row_base size_x size_y inner r = (size_y - 1 - r + inner) mod size_y * size_x"
    and "first_column size_x outer = (size_x - 1 - 0 + outer) mod size_x"
proof -
  have "size_x \<le> size_x * size_y" "size_y \<le> size_x * size_y" using assms(1,2) by simp_all
  with assms(3) have "size_x \<le> max_cells" "size_y \<le> max_cells" by linarith+
  with assms(4,5) show "row_base size_x size_y inner r = (size_y - 1 - r + inner) mod size_y * size_x"
    "first_column size_x outer = (size_x - 1 - 0 + outer) mod size_x"
    by (simp_all add: row_base_def first_column_def u32_def max_cells_def)
qed

lemma storage_cell_bound:
  assumes "0 < size_x_of msg" "0 < size_y_of msg"
  shows "storage_cell msg c r < size_x_of msg * size_y_of msg"
proof -
  let ?j = "(size_y_of msg - 1 - r + gg_inner msg) mod size_y_of msg" and ?i = "(size_x_of msg - 1 - c + gg_outer msg) mod size_x_of msg"
  have "?j < size_y_of msg" "?i < size_x_of msg" using assms by simp_all
  then have "?j * size_x_of msg + ?i < (?j + 1) * size_x_of msg" by simp
  also have "\<dots> \<le> size_y_of msg * size_x_of msg" using \<open>?j < size_y_of msg\<close> by (intro mult_le_mono1) simp
  finally show ?thesis by (simp add: storage_cell_def mult.commute)
qed

lemma nested_records:
  assumes "\<forall>r. \<forall>c. length (f r c) = w" "r < n" "c < m"
  shows "take w (drop (r * (w * m) + c * w) (concat (map (\<lambda>r. concat (map (f r) [0..<m])) [0..<n]))) = f r c"
proof -
  let ?row = "\<lambda>r. concat (map (f r) [0..<m])" and ?all = "concat (map (\<lambda>r. concat (map (f r) [0..<m])) [0..<n])"
  have "\<forall>x \<in> set [0..<m]. length (f r x) = w" for r using assms(1) by simp
  note row = concat_equal_lengths [OF this]
  then have "\<forall>r \<in> set [0..<n]. length (?row r) = w * m" by (simp add: mult.commute)
  from concat_equal_lengths(2) [OF this, of r] assms(2) have r: "take (w * m) (drop (r * (w * m)) ?all) = ?row r" by simp
  have "c * w + w \<le> w * m" using assms(3) by (metis Suc_leI mult.commute mult_Suc mult_le_mono2 add.commute)
  then have "take w (drop (c * w) (?row r)) = take w (drop (c * w + r * (w * m)) ?all)"
    unfolding r [symmetric] by (simp add: drop_take min_def)
  with row(2) [of c r] assms(3) show ?thesis by (simp add: add.commute)
qed

lemma concat_of_concat: "concat (concat xss) = concat (map concat xss)"
  by (induction xss) auto

text \<open>C35. A message that is accepted is transcoded as documented: the record of column \<open>c\<close> and row \<open>r\<close> holds the floats of
  the storage cell the ring buffer gives for it, in the order of the layers, or NaN in all of them where a basic layer is not finite;
  the storage cell is inside the array of every layer.\<close>

theorem grid_cells_transcoded:
  assumes "transcode_grid_map gl msg = Inr g" "\<forall>f. length (gl_bytes gl f) = float_size"
  shows "\<exists>basic. basic_indices (gg_layers msg) (gg_basic msg) = Inr basic \<and> gm_columns g = size_x_of msg \<and> gm_rows g = size_y_of msg
    \<and> (\<forall>r < gm_rows g. \<forall>c < gm_columns g.
         (\<forall>l \<in> set (gg_data msg). la_offset l + storage_cell msg c r < length (la_data l))
         \<and> take (gm_cell_stride g) (drop (r * gm_row_stride g + c * gm_cell_stride g) (gm_data g))
             = concat (map (gl_bytes gl) (cell_record gl (gg_data msg) basic (storage_cell msg c r))))"
proof -
  obtain basic where b: "basic_indices (gg_layers msg) (gg_basic msg) = Inr basic" "g = transcoded gl msg basic"
      "0 < size_x_of msg" "0 < size_y_of msg" "size_x_of msg * size_y_of msg \<le> max_cells" "gg_outer msg < size_x_of msg"
      "gg_inner msg < size_y_of msg" "length (gg_data msg) = length (gg_layers msg)"
      "\<forall>l \<in> set (gg_data msg). la_offset l + size_x_of msg * size_y_of msg \<le> length (la_data l)"
    using accepted_message [OF assms(1)] by blast
  let ?w = "float_size * length (gg_layers msg)"
  let ?f = "\<lambda>r c. concat (map (gl_bytes gl) (cell_record gl (gg_data msg) basic (storage_cell msg c r)))"
  have sizes: "gm_columns g = size_x_of msg" "gm_rows g = size_y_of msg" "gm_cell_stride g = ?w" "gm_row_stride g = ?w * size_x_of msg"
    using b(2) by (simp_all add: transcoded_def Let_def)
  have w: "\<forall>r. \<forall>c. length (?f r c) = ?w"
    using assms(2) b(8) by (simp add: length_concat cell_record_def comp_def sum_list_triv map_replicate_const sum_list_replicate mult.commute)
  have loop: "row_loop gl (gg_data msg) basic (size_x_of msg) (size_y_of msg) (gg_outer msg) (gg_inner msg) 0 (size_y_of msg)
      = concat (map (\<lambda>r. concat (map (\<lambda>c. cell_record gl (gg_data msg) basic (storage_cell msg c r)) [0..<size_x_of msg])) [0..<size_y_of msg])"
    unfolding row_loop_concat loop_numbers [OF b(3-7)] storage_cell_def
    by (simp only: add_0 column_loop_spec [of 0 "size_x_of msg" "size_x_of msg", unfolded add_0, OF order_refl b(3,6)])
  have "gm_data g = concat (map (gl_bytes gl)
      (row_loop gl (gg_data msg) basic (size_x_of msg) (size_y_of msg) (gg_outer msg) (gg_inner msg) 0 (size_y_of msg)))"
    using b(2) by (simp add: transcoded_def Let_def)
  then have data: "gm_data g = concat (map (\<lambda>r. concat (map (?f r) [0..<size_x_of msg])) [0..<size_y_of msg])"
    unfolding loop by (simp add: map_concat comp_def concat_of_concat)
  have "take (gm_cell_stride g) (drop (r * gm_row_stride g + c * gm_cell_stride g) (gm_data g)) = ?f r c"
    if "r < size_y_of msg" "c < size_x_of msg" for r c
    using nested_records [OF w that] sizes data by simp
  moreover have "la_offset l + storage_cell msg c r < length (la_data l)" if "l \<in> set (gg_data msg)" for l c r
    using storage_cell_bound [OF b(3,4), of c r] b(9) that by fastforce
  ultimately show ?thesis using b(1) sizes by simp
qed

text \<open>One layer of three columns and one row whose ring starts at the second one; numbers are their own images.\<close>

definition sample_grid_lib :: "(nat, nat) grid_lib" where
  "sample_grid_lib =
     \<lparr>gl_positive = (\<lambda>x. 0 < x), gl_cells = (\<lambda>l r. Some (int (l div r))), gl_corner = (\<lambda>c n r. c - n * r div 2),
      gl_finite = (\<lambda>f. f < 100), gl_nan = 200, gl_bytes = (\<lambda>f. replicate 4 (char_of f)), gl_zero = 0,
      gl_grid = \<lparr>gm_timestamp = 0, gm_frame_id = [],
        gm_origin = \<lparr>ps_position = \<lparr>v3_x = 0, v3_y = 0, v3_z = 0\<rparr>, ps_orientation = \<lparr>q_x = 0, q_y = 0, q_z = 0, q_w = 1\<rparr>\<rparr>,
        gm_cell_size = \<lparr>g2_x = 0, g2_y = 0\<rparr>, gm_columns = 0, gm_rows = 0, gm_row_stride = 0, gm_cell_stride = 0, gm_fields = [],
        gm_data = []\<rparr>,
      gl_validate = (\<lambda>g. None)\<rparr>"

definition sample_grid :: "(nat, nat) grid_message" where
  "sample_grid =
     \<lparr>gg_resolution = 2, gg_length_x = 6, gg_length_y = 2, gg_center_x = 9, gg_center_y = 9, gg_layers = [''h''], gg_basic = [''h''],
      gg_data = [\<lparr>la_dims = [\<lparr>md_label = ''column_index'', md_size = 1, md_stride = 0\<rparr>, \<lparr>md_label = ''row_index'', md_size = 3, md_stride = 0\<rparr>],
                   la_offset = 1, la_data = [0, 65, 66, 67]\<rparr>],
      gg_outer = 1, gg_inner = 0\<rparr>"

lemma sample_grid_accepted: "transcode_grid_map sample_grid_lib sample_grid = Inr (transcoded sample_grid_lib sample_grid [0])"
  by (simp add: transcode_grid_map_def header_error_def layout_error_def sample_grid_def sample_grid_lib_def Let_def size_x_of_def
      size_y_of_def length_matches_def max_layers_def max_cells_def float_size_def)

theorem grid_cells_transcoded_witness:
  "take 4 (drop 4 (gm_data (transcoded sample_grid_lib sample_grid [0]))) = ''CCCC''"
proof -
  have "\<forall>f. length (gl_bytes sample_grid_lib f) = float_size" by (simp add: sample_grid_lib_def float_size_def)
  from grid_cells_transcoded [OF sample_grid_accepted this] obtain basic where
    b: "basic_indices (gg_layers sample_grid) (gg_basic sample_grid) = Inr basic"
      "\<forall>r < gm_rows (transcoded sample_grid_lib sample_grid [0]). \<forall>c < gm_columns (transcoded sample_grid_lib sample_grid [0]).
         take (gm_cell_stride (transcoded sample_grid_lib sample_grid [0]))
           (drop (r * gm_row_stride (transcoded sample_grid_lib sample_grid [0]) + c * gm_cell_stride (transcoded sample_grid_lib sample_grid [0]))
             (gm_data (transcoded sample_grid_lib sample_grid [0])))
         = concat (map (gl_bytes sample_grid_lib) (cell_record sample_grid_lib (gg_data sample_grid) basic (storage_cell sample_grid c r)))"
    by auto
  have sizes: "gm_rows (transcoded sample_grid_lib sample_grid [0]) = 1" "gm_columns (transcoded sample_grid_lib sample_grid [0]) = 3"
    "gm_cell_stride (transcoded sample_grid_lib sample_grid [0]) = 4"
    by (simp_all add: transcoded_def Let_def sample_grid_def size_x_of_def size_y_of_def float_size_def)
  have "basic = [0]" using b(1) by (simp add: sample_grid_def)
  with b(2) [rule_format, of 0 1] sizes
  have "take 4 (drop 4 (gm_data (transcoded sample_grid_lib sample_grid [0])))
      = concat (map (gl_bytes sample_grid_lib) (cell_record sample_grid_lib (gg_data sample_grid) [0] (storage_cell sample_grid 1 0)))"
    by simp
  also have "\<dots> = ''CCCC''" by code_simp
  finally show ?thesis .
qed

end
