(* ===== verification/LaserScan.thy ===== *)
theory LaserScan
  imports PointColor
begin

section \<open>Laser scans (common/laser_scan)\<close>

text \<open>
  The projection of a planar scan into a cloud of points, with the tables of cosines and sines that the projector
  keeps from one scan to the next. Doubles and floats are uninterpreted values with the operations used, a range is of
  the overload's own type. Facts shown: the cloud has one point for each ray that passes, in order, made of that ray's range
  and intensity and of the tables; the tables always have the length of the scan and are those of angles that
  compare equal to the requested ones; a scan with the angles of the one before recomputes nothing.
\<close>

record ('d, 'f) trig =
  tg_finite :: "'d \<Rightarrow> bool"
  tg_less :: "'d \<Rightarrow> 'd \<Rightarrow> bool"
  tg_eq :: "'d \<Rightarrow> 'd \<Rightarrow> bool"
  tg_add :: "'d \<Rightarrow> 'd \<Rightarrow> 'd"
  tg_mul :: "'d \<Rightarrow> 'd \<Rightarrow> 'd"
  tg_of_nat :: "nat \<Rightarrow> 'd"
  tg_nan :: 'd
  tg_cos :: "'d \<Rightarrow> 'f"
  tg_sin :: "'d \<Rightarrow> 'f"
  tg_fmul :: "'f \<Rightarrow> 'f \<Rightarrow> 'f"
  tg_fzero :: 'f
  tg_fbytes :: "'f \<Rightarrow> string"

text \<open>The two overloads differ in the type of a range: as a double, and as a float.\<close>

record ('r, 'd, 'f) scalar =
  sc_double :: "'r \<Rightarrow> 'd"
  sc_float :: "'r \<Rightarrow> 'f"

record 'd scan_params =
  sp_angle_min :: 'd
  sp_angle_increment :: 'd
  sp_range_min :: "'d option"
  sp_range_max :: "'d option"

record ('d, 'f) projector =
  pj_ray_count :: nat
  pj_angle_min :: 'd
  pj_angle_increment :: 'd
  pj_rebuilds :: nat
  pj_cos :: "'f list"
  pj_sin :: "'f list"

definition new_projector :: "('d, 'f) trig \<Rightarrow> ('d, 'f) projector" where
  "new_projector tg =
     \<lparr>pj_ray_count = 0, pj_angle_min = tg_nan tg, pj_angle_increment = tg_nan tg, pj_rebuilds = 0, pj_cos = [], pj_sin = []\<rparr>"

definition theta :: "('d, 'f) trig \<Rightarrow> 'd \<Rightarrow> 'd \<Rightarrow> nat \<Rightarrow> 'd" where
  "theta tg angle_min increment i = tg_add tg angle_min (tg_mul tg (tg_of_nat tg i) increment)"

definition ensure_lut :: "('d, 'f) trig \<Rightarrow> nat \<Rightarrow> 'd \<Rightarrow> 'd \<Rightarrow> ('d, 'f) projector \<Rightarrow> ('d, 'f) projector" where
  "ensure_lut tg ray_count angle_min increment p =
     (if ray_count = pj_ray_count p \<and> tg_eq tg angle_min (pj_angle_min p) \<and> tg_eq tg increment (pj_angle_increment p) then p
      else \<lparr>pj_ray_count = ray_count, pj_angle_min = angle_min, pj_angle_increment = increment, pj_rebuilds = pj_rebuilds p + 1,
            pj_cos = map (\<lambda>i. tg_cos tg (theta tg angle_min increment i)) [0..<ray_count],
            pj_sin = map (\<lambda>i. tg_sin tg (theta tg angle_min increment i)) [0..<ray_count]\<rparr>)"

definition xyz_step :: nat where "xyz_step = 12"
definition xyzi_step :: nat where "xyzi_step = 16"

definition make_fields :: "bool \<Rightarrow> point_field list" where
  "make_fields with_intensity =
     [\<lparr>pt_name = ''x'', pt_offset = 0, pt_type = PtFloat32, pt_count = 1\<rparr>,
      \<lparr>pt_name = ''y'', pt_offset = 4, pt_type = PtFloat32, pt_count = 1\<rparr>,
      \<lparr>pt_name = ''z'', pt_offset = 8, pt_type = PtFloat32, pt_count = 1\<rparr>]
     @ (if with_intensity then [\<lparr>pt_name = ''intensity'', pt_offset = 12, pt_type = PtFloat32, pt_count = 1\<rparr>] else [])"

definition ray_dropped :: "('d, 'f) trig \<Rightarrow> 'd scan_params \<Rightarrow> 'd \<Rightarrow> bool" where
  "ray_dropped tg params rng \<longleftrightarrow>
     \<not> tg_finite tg rng \<or> (case sp_range_min params of None \<Rightarrow> False | Some m \<Rightarrow> tg_less tg rng m)
     \<or> (case sp_range_max params of None \<Rightarrow> False | Some m \<Rightarrow> tg_less tg m rng)"

text \<open>The bytes of one point: x, y, zero and the intensity, cut at the step.\<close>

definition point_bytes ::
  "('d, 'f) trig \<Rightarrow> ('r, 'd, 'f) scalar \<Rightarrow> ('d, 'f) projector \<Rightarrow> bool \<Rightarrow> 'r list \<Rightarrow> 'r list \<Rightarrow> nat \<Rightarrow> string" where
  "point_bytes tg sc p with_intensity ranges intensities i =
     (let r = sc_float sc (ranges ! i) in
      take (if with_intensity then xyzi_step else xyz_step)
        (concat (map (tg_fbytes tg) [tg_fmul tg r (pj_cos p ! i), tg_fmul tg r (pj_sin p ! i), tg_fzero tg,
           if with_intensity then sc_float sc (intensities ! i) else tg_fzero tg])))"

text \<open>The loop over the rays from the \<open>i\<close>-th with the bytes and the number of points so far.\<close>

fun ray_loop ::
  "('d, 'f) trig \<Rightarrow> ('r, 'd, 'f) scalar \<Rightarrow> 'd scan_params \<Rightarrow> ('d, 'f) projector \<Rightarrow> bool \<Rightarrow> 'r list \<Rightarrow> 'r list \<Rightarrow>
   nat \<Rightarrow> nat \<Rightarrow> string \<times> nat \<Rightarrow> string \<times> nat" where
  "ray_loop tg sc params p wi ranges intensities i 0 (owned, kept) = (owned, kept)"
| "ray_loop tg sc params p wi ranges intensities i (Suc n) (owned, kept) =
     ray_loop tg sc params p wi ranges intensities (i + 1) n
       (if ray_dropped tg params (sc_double sc (ranges ! i)) then (owned, kept)
        else (owned @ point_bytes tg sc p wi ranges intensities i, u32 (kept + 1)))"

definition project_impl ::
  "('d, 'f) trig \<Rightarrow> ('r, 'd, 'f) scalar \<Rightarrow> 'd scan_params \<Rightarrow> 'r list \<Rightarrow> 'r list \<Rightarrow> ('d, 'f) projector \<Rightarrow> point_cloud \<times> ('d, 'f) projector" where
  "project_impl tg sc params ranges intensities p =
     (let p = ensure_lut tg (length ranges) (sp_angle_min params) (sp_angle_increment params) p;
          wi = (intensities \<noteq> [] \<and> length intensities = length ranges);
          step = (if wi then xyzi_step else xyz_step);
          (owned, kept) = ray_loop tg sc params p wi ranges intensities 0 (length ranges) ([], 0)
      in (\<lparr>pc_timestamp = 0, pc_frame_id = [], pc_width = kept, pc_height = 1, pc_step = step, pc_row_step = u32 (kept * step),
            pc_bigendian = False, pc_dense = True, pc_fields = make_fields wi, pc_data = owned\<rparr>, p))"

subsection \<open>The points of a scan\<close>

text \<open>The rays that pass.\<close>

definition kept_rays :: "('d, 'f) trig \<Rightarrow> ('r, 'd, 'f) scalar \<Rightarrow> 'd scan_params \<Rightarrow> 'r list \<Rightarrow> nat list" where
  "kept_rays tg sc params ranges = filter (\<lambda>i. \<not> ray_dropped tg params (sc_double sc (ranges ! i))) [0..<length ranges]"

lemma ray_loop_spec:
  "k < 2 ^ 32 \<Longrightarrow>
    ray_loop tg sc params p wi ranges ints i n (out, k) =
      (out @ concat (map (point_bytes tg sc p wi ranges ints) (filter (\<lambda>j. \<not> ray_dropped tg params (sc_double sc (ranges ! j))) [i..<i + n])),
       u32 (k + length (filter (\<lambda>j. \<not> ray_dropped tg params (sc_double sc (ranges ! j))) [i..<i + n])))"
proof (induction n arbitrary: i out k)
  case 0
  then show ?case by (simp add: u32_def)
next
  case (Suc n)
  have "[i..<i + Suc n] = i # [i + 1..<i + 1 + n]" by (simp add: upt_conv_Cons)
  moreover have "u32 (k + 1) < 2 ^ 32" "u32 (u32 (k + 1) + m) = u32 (k + 1 + m)" for m by (simp_all add: u32_def mod_simps)
  ultimately show ?case using Suc.IH [of k "i + 1"] Suc.IH [of "u32 (k + 1)" "i + 1"] Suc.prems by simp
qed

text \<open>Floats have four bytes.\<close>

definition float_bytes :: "('d, 'f) trig \<Rightarrow> bool" where
  "float_bytes tg \<longleftrightarrow> (\<forall>f. length (tg_fbytes tg f) = 4)"

lemma point_bytes_length: "float_bytes tg \<Longrightarrow> length (point_bytes tg sc p wi ranges ints i) = (if wi then xyzi_step else xyz_step)"
  by (simp add: point_bytes_def float_bytes_def xyzi_step_def xyz_step_def Let_def)

subsection \<open>The tables\<close>

definition tables_of :: "('d, 'f) trig \<Rightarrow> ('d, 'f) projector \<Rightarrow> nat \<Rightarrow> 'd \<Rightarrow> 'd \<Rightarrow> bool" where
  "tables_of tg p n a d \<longleftrightarrow>
     pj_cos p = map (\<lambda>i. tg_cos tg (theta tg a d i)) [0..<n] \<and> pj_sin p = map (\<lambda>i. tg_sin tg (theta tg a d i)) [0..<n]"

definition lut_ok :: "('d, 'f) trig \<Rightarrow> ('d, 'f) projector \<Rightarrow> bool" where
  "lut_ok tg p \<longleftrightarrow> tables_of tg p (pj_ray_count p) (pj_angle_min p) (pj_angle_increment p)"

text \<open>A projector after a sequence of scans.\<close>

definition after_scans ::
  "('d, 'f) trig \<Rightarrow> ('r, 'd, 'f) scalar \<Rightarrow> ('d scan_params \<times> 'r list \<times> 'r list) list \<Rightarrow> ('d, 'f) projector" where
  "after_scans tg sc scans = fold (\<lambda>(params, ranges, ints) p. snd (project_impl tg sc params ranges ints p)) scans (new_projector tg)"

lemma project_impl_projector:
  "snd (project_impl tg sc params ranges ints p) = ensure_lut tg (length ranges) (sp_angle_min params) (sp_angle_increment params) p"
  by (simp add: project_impl_def Let_def split: prod.splits)

lemma new_projector_ok: "lut_ok tg (new_projector tg)"
  by (simp add: lut_ok_def tables_of_def new_projector_def)

lemma ensure_lut_ok: "lut_ok tg p \<Longrightarrow> lut_ok tg (ensure_lut tg n a d p)"
  by (simp add: lut_ok_def tables_of_def ensure_lut_def)

lemma after_scans_ok: "lut_ok tg (after_scans tg sc scans)"
proof -
  have "lut_ok tg p \<Longrightarrow> lut_ok tg (fold (\<lambda>(params, ranges, ints) p. snd (project_impl tg sc params ranges ints p)) scans p)" for p
    by (induction scans arbitrary: p) (auto simp: project_impl_projector ensure_lut_ok)
  then show ?thesis by (simp add: after_scans_def new_projector_ok)
qed

text \<open>Whatever scans a projector has seen, the points of the next one are computed from the tables of that scan:
  as many entries as rays, at angles that are the requested ones or compare equal to them.\<close>

lemma projection_uses_own_tables:
  assumes "project_impl tg sc params ranges ints (after_scans tg sc scans) = (cloud, p')"
  shows "\<exists>a d. tables_of tg p' (length ranges) a d
    \<and> (a = sp_angle_min params \<and> d = sp_angle_increment params \<or> tg_eq tg (sp_angle_min params) a \<and> tg_eq tg (sp_angle_increment params) d)"
proof -
  let ?p = "after_scans tg sc scans"
  have p': "p' = ensure_lut tg (length ranges) (sp_angle_min params) (sp_angle_increment params) ?p"
    using assms project_impl_projector [of tg sc params ranges ints ?p] by simp
  show ?thesis
  proof (cases "length ranges = pj_ray_count ?p \<and> tg_eq tg (sp_angle_min params) (pj_angle_min ?p) \<and> tg_eq tg (sp_angle_increment params) (pj_angle_increment ?p)")
    case True
    with p' after_scans_ok [of tg sc scans] show ?thesis by (auto simp: ensure_lut_def lut_ok_def)
  next
    case False
    then show ?thesis unfolding p' ensure_lut_def if_not_P [OF False] by (auto simp: tables_of_def)
  qed
qed

text \<open>A scan with the number of rays and the angles of the one before computes no table, for numbers that equal
  themselves.\<close>

lemma same_scan_rebuilds_nothing:
  assumes "tg_eq tg a a" "tg_eq tg d d"
  shows "ensure_lut tg n a d (ensure_lut tg n a d p) = ensure_lut tg n a d p"
proof (cases "n = pj_ray_count p \<and> tg_eq tg a (pj_angle_min p) \<and> tg_eq tg d (pj_angle_increment p)")
  case True
  then show ?thesis by (simp add: ensure_lut_def)
next
  case False
  from if_not_P [OF False] assms show ?thesis by (simp add: ensure_lut_def)
qed

subsection \<open>The points of a cloud, read back\<close>

text \<open>The four bytes of a float field in point \<open>k\<close> of a cloud, found as a reader of the cloud does: by the name of
  the field, at its offset in the point.\<close>

definition float_of_point :: "point_cloud \<Rightarrow> string \<Rightarrow> nat \<Rightarrow> string option" where
  "float_of_point cloud name k =
     (case List.find (\<lambda>f. pt_name f = name) (pc_fields cloud) of
        None \<Rightarrow> None
      | Some f \<Rightarrow>
          if pt_type f = PtFloat32 \<and> pt_count f = 1 \<and> pt_offset f + 4 \<le> pc_step cloud
          then Some (take 4 (drop (k * pc_step cloud + pt_offset f) (pc_data cloud))) else None)"

lemma take_inside: "o' + m \<le> n \<Longrightarrow> take m (drop (j + o') xs) = take m (drop o' (take n (drop j xs)))"
  by (simp add: drop_take min_def add.commute)

lemma kept_rays_passing:
  "kept_rays tg sc params ranges =
     filter (\<lambda>i. tg_finite tg (sc_double sc (ranges ! i))
              \<and> (\<forall>m. sp_range_min params = Some m \<longrightarrow> \<not> tg_less tg (sc_double sc (ranges ! i)) m)
              \<and> (\<forall>m. sp_range_max params = Some m \<longrightarrow> \<not> tg_less tg m (sc_double sc (ranges ! i)))) [0..<length ranges]"
  unfolding kept_rays_def by (rule filter_cong [OF refl]) (auto simp: ray_dropped_def split: option.splits)

lemma project_impl_cloud:
  assumes "project_impl tg sc params ranges ints p = (cloud, p')" "float_bytes tg"
  defines "kept \<equiv> kept_rays tg sc params ranges" and "wi \<equiv> ints \<noteq> [] \<and> length ints = length ranges"
  shows "pc_width cloud = u32 (length kept)" "pc_height cloud = 1" "pc_row_step cloud = u32 (pc_width cloud * pc_step cloud)"
    "pc_step cloud = (if wi then 16 else 12)" "pc_fields cloud = make_fields wi"
    "length (pc_data cloud) = length kept * pc_step cloud"
    "k < length kept \<Longrightarrow> take (pc_step cloud) (drop (k * pc_step cloud) (pc_data cloud)) = point_bytes tg sc p' wi ranges ints (kept ! k)"
proof -
  let ?f = "point_bytes tg sc p' wi ranges ints" and ?step = "if wi then xyzi_step else xyz_step"
  have p': "p' = ensure_lut tg (length ranges) (sp_angle_min params) (sp_angle_increment params) p"
    using assms(1) by (auto simp: project_impl_def Let_def split: prod.splits)
  have loop: "ray_loop tg sc params p' wi ranges ints 0 (length ranges) ([], 0) = (concat (map ?f kept), u32 (length kept))"
    using ray_loop_spec [of 0 tg sc params p' wi ranges ints 0 "length ranges" "[]"] unfolding kept_def kept_rays_def by simp
  have cloud: "pc_data cloud = concat (map ?f kept)" "pc_step cloud = ?step"
    using assms(1) loop unfolding project_impl_def Let_def p' [symmetric] wi_def by auto
  show "pc_width cloud = u32 (length kept)" "pc_height cloud = 1" "pc_row_step cloud = u32 (pc_width cloud * pc_step cloud)"
    "pc_step cloud = (if wi then 16 else 12)" "pc_fields cloud = make_fields wi"
    using assms(1) loop unfolding project_impl_def Let_def p' [symmetric] wi_def by (auto simp: xyzi_step_def xyz_step_def)
  have "\<forall>i \<in> set kept. length (?f i) = ?step" using point_bytes_length [OF assms(2)] by blast
  from concat_equal_lengths [OF this] cloud
  show "length (pc_data cloud) = length kept * pc_step cloud"
    and "k < length kept \<Longrightarrow> take (pc_step cloud) (drop (k * pc_step cloud) (pc_data cloud)) = ?f (kept ! k)" by simp_all
qed

text \<open>The floats of a point, at the offsets the fields name.\<close>

lemma point_floats:
  assumes "float_bytes tg"
  shows "take 4 (point_bytes tg sc p wi ranges ints i) = tg_fbytes tg (tg_fmul tg (sc_float sc (ranges ! i)) (pj_cos p ! i))"
    "take 4 (drop 4 (point_bytes tg sc p wi ranges ints i)) = tg_fbytes tg (tg_fmul tg (sc_float sc (ranges ! i)) (pj_sin p ! i))"
    "take 4 (drop 8 (point_bytes tg sc p wi ranges ints i)) = tg_fbytes tg (tg_fzero tg)"
    "wi \<Longrightarrow> take 4 (drop 12 (point_bytes tg sc p wi ranges ints i)) = tg_fbytes tg (sc_float sc (ints ! i))"
proof -
  have l: "length (tg_fbytes tg f) = 4" for f using assms by (simp add: float_bytes_def)
  show "take 4 (point_bytes tg sc p wi ranges ints i) = tg_fbytes tg (tg_fmul tg (sc_float sc (ranges ! i)) (pj_cos p ! i))"
    "take 4 (drop 4 (point_bytes tg sc p wi ranges ints i)) = tg_fbytes tg (tg_fmul tg (sc_float sc (ranges ! i)) (pj_sin p ! i))"
    "take 4 (drop 8 (point_bytes tg sc p wi ranges ints i)) = tg_fbytes tg (tg_fzero tg)"
    "wi \<Longrightarrow> take 4 (drop 12 (point_bytes tg sc p wi ranges ints i)) = tg_fbytes tg (sc_float sc (ints ! i))"
    by (simp_all add: point_bytes_def xyzi_step_def xyz_step_def Let_def l drop_take)
qed

text \<open>C34. Whatever scans a projector has seen, the cloud of the next one has one point for each ray whose range is finite
  and inside the inclusive bounds, in order and nothing else. Read by the names of the fields, point \<open>k\<close> is at the
  range of its own ray times the cosine and the sine of that ray's angle, \<open>angle_min + i * angle_increment\<close>, with a
  zero z, and has the intensity of its own ray when there is one for each ray; otherwise there is no such field.
  The angles are the requested ones or, when the tables of the scan before are used again, ones that compare equal
  (minus zero equals zero). The width is that number in 32 bits.\<close>

theorem projection_has_kept_rays:
  assumes "project_impl tg sc params ranges ints (after_scans tg sc scans) = (cloud, p')" "float_bytes tg"
  shows "\<exists>a d kept.
      (a = sp_angle_min params \<and> d = sp_angle_increment params \<or> tg_eq tg (sp_angle_min params) a \<and> tg_eq tg (sp_angle_increment params) d)
    \<and> kept = filter (\<lambda>i. tg_finite tg (sc_double sc (ranges ! i))
                \<and> (\<forall>m. sp_range_min params = Some m \<longrightarrow> \<not> tg_less tg (sc_double sc (ranges ! i)) m)
                \<and> (\<forall>m. sp_range_max params = Some m \<longrightarrow> \<not> tg_less tg m (sc_double sc (ranges ! i)))) [0..<length ranges]
    \<and> pc_width cloud = length kept mod 2 ^ 32 \<and> pc_height cloud = 1 \<and> length (pc_data cloud) = length kept * pc_step cloud
    \<and> map pt_name (pc_fields cloud)
        = (if ints \<noteq> [] \<and> length ints = length ranges then [''x'', ''y'', ''z'', ''intensity''] else [''x'', ''y'', ''z''])
    \<and> (\<forall>k < length kept.
         let i = kept ! k; r = sc_float sc (ranges ! i); angle = tg_add tg a (tg_mul tg (tg_of_nat tg i) d) in
           float_of_point cloud ''x'' k = Some (tg_fbytes tg (tg_fmul tg r (tg_cos tg angle)))
         \<and> float_of_point cloud ''y'' k = Some (tg_fbytes tg (tg_fmul tg r (tg_sin tg angle)))
         \<and> float_of_point cloud ''z'' k = Some (tg_fbytes tg (tg_fzero tg))
         \<and> (ints \<noteq> [] \<and> length ints = length ranges
              \<longrightarrow> float_of_point cloud ''intensity'' k = Some (tg_fbytes tg (sc_float sc (ints ! i)))))"
proof -
  let ?wi = "ints \<noteq> [] \<and> length ints = length ranges" and ?kept = "kept_rays tg sc params ranges"
  let ?point = "\<lambda>k. point_bytes tg sc p' ?wi ranges ints (?kept ! k)"
  from projection_uses_own_tables [OF assms(1)] obtain a d where t: "tables_of tg p' (length ranges) a d"
    and ad: "a = sp_angle_min params \<and> d = sp_angle_increment params \<or> tg_eq tg (sp_angle_min params) a \<and> tg_eq tg (sp_angle_increment params) d"
    by blast
  note c = project_impl_cloud [OF assms]
  have kept: "?kept ! k < length ranges" if "k < length ?kept" for k
    using nth_mem [OF that] by (auto simp: kept_rays_def)
  have lut: "pj_cos p' ! i = tg_cos tg (tg_add tg a (tg_mul tg (tg_of_nat tg i) d))"
    "pj_sin p' ! i = tg_sin tg (tg_add tg a (tg_mul tg (tg_of_nat tg i) d))" if "i < length ranges" for i
    using t that by (simp_all add: tables_of_def theta_def)
  have at: "take 4 (drop (k * pc_step cloud + off) (pc_data cloud)) = take 4 (drop off (?point k))"
    if "k < length ?kept" "off + 4 \<le> pc_step cloud" for k off
    unfolding take_inside [OF that(2)] c(7) [OF that(1)] ..
  have floats: "float_of_point cloud ''x'' k = Some (take 4 (?point k))" "float_of_point cloud ''y'' k = Some (take 4 (drop 4 (?point k)))"
    "float_of_point cloud ''z'' k = Some (take 4 (drop 8 (?point k)))"
    "?wi \<longrightarrow> float_of_point cloud ''intensity'' k = Some (take 4 (drop 12 (?point k)))" if "k < length ?kept" for k
    using at [OF that, of 0] at [OF that, of 4] at [OF that, of 8] at [OF that, of 12] c(4,5)
    by (auto simp: float_of_point_def make_fields_def)
  have names: "map pt_name (pc_fields cloud) = (if ?wi then [''x'', ''y'', ''z'', ''intensity''] else [''x'', ''y'', ''z''])"
    by (simp add: c(5) make_fields_def)
  have points: "\<forall>k < length ?kept. let i = ?kept ! k; r = sc_float sc (ranges ! i); angle = tg_add tg a (tg_mul tg (tg_of_nat tg i) d) in
           float_of_point cloud ''x'' k = Some (tg_fbytes tg (tg_fmul tg r (tg_cos tg angle)))
         \<and> float_of_point cloud ''y'' k = Some (tg_fbytes tg (tg_fmul tg r (tg_sin tg angle)))
         \<and> float_of_point cloud ''z'' k = Some (tg_fbytes tg (tg_fzero tg))
         \<and> (?wi \<longrightarrow> float_of_point cloud ''intensity'' k = Some (tg_fbytes tg (sc_float sc (ints ! i))))"
    using floats by (simp add: Let_def point_floats [OF assms(2)] lut kept)
  show ?thesis
    by (rule exI [of _ a], rule exI [of _ d], rule exI [of _ ?kept])
      (use ad kept_rays_passing c(1,2,6) names points in \<open>simp add: u32_def\<close>)
qed

text \<open>Numbers are their own images, a hundred stands for infinity; two bytes of four are used.\<close>

definition sample_trig :: "(nat, nat) trig" where
  "sample_trig = \<lparr>tg_finite = (\<lambda>x. x < 100), tg_less = (<), tg_eq = (=), tg_add = (+), tg_mul = (*), tg_of_nat = id, tg_nan = 200,
     tg_cos = id, tg_sin = id, tg_fmul = (*), tg_fzero = 0, tg_fbytes = (\<lambda>f. replicate 4 (char_of f))\<rparr>"

definition sample_scalar :: "(nat, nat, nat) scalar" where
  "sample_scalar = \<lparr>sc_double = id, sc_float = id\<rparr>"

definition sample_params :: "nat scan_params" where
  "sample_params = \<lparr>sp_angle_min = 1, sp_angle_increment = 1, sp_range_min = Some 2, sp_range_max = None\<rparr>"

theorem projection_has_kept_rays_witness:
  "\<exists>cloud. fst (project_impl sample_trig sample_scalar sample_params [5, 100, 1, 7] [] (after_scans sample_trig sample_scalar [])) = cloud
    \<and> length (pc_data cloud) = 24 \<and> map pt_name (pc_fields cloud) = [''x'', ''y'', ''z'']"
proof -
  obtain cloud p' where c: "project_impl sample_trig sample_scalar sample_params [5, 100, 1, 7] [] (after_scans sample_trig sample_scalar []) = (cloud, p')"
    by fastforce
  have "float_bytes sample_trig" by (simp add: float_bytes_def sample_trig_def)
  from projection_has_kept_rays [OF c this] have l: "length (pc_data cloud) = 2 * pc_step cloud" and n: "map pt_name (pc_fields cloud) = [''x'', ''y'', ''z'']"
    by (auto simp: sample_trig_def sample_scalar_def sample_params_def upt_rec)
  have "pc_step cloud = 12" using c by (auto simp: project_impl_def Let_def xyz_step_def split: prod.splits)
  with l n c show ?thesis by simp
qed

end
