(* ===== verification/WireNested.thy ===== *)
theory WireNested
  imports GridMaps LaserScan
begin

section \<open>Strict nested readers (parser_protobuf/foxglove_wire_util.hpp)\<close>

text \<open>
  The readers that the decoders of grids, voxel grids, point clouds and laser scans share. Unlike those of the objects they
  fail on a malformed submessage: the declared length must fit the enclosing message, and the loop over the
  fields must end because the submessage is consumed. A reader returns whether it succeeded; None is a loop
  that does not end. Facts shown: on any stream that does what the library documents every such reader ends,
  and when it succeeds the stream is exactly past the declared length.
\<close>

type_synonym ('s, 'a) strict_reader = "nat \<Rightarrow> 's \<Rightarrow> ('a \<times> 's) option option"

subsection \<open>Fields\<close>

definition skip_checked :: "'s coded \<Rightarrow> nat \<Rightarrow> 's \<Rightarrow> bool \<times> 's" where
  "skip_checked cd w s =
     (if w = wire_varint then (case cd_varint64 cd s of (v, s) \<Rightarrow> (v \<noteq> None, s))
      else if w = wire_i64 then (case cd_fixed64 cd s of (v, s) \<Rightarrow> (v \<noteq> None, s))
      else if w = wire_len then
        (case cd_varint32 cd s of
           (None, s) \<Rightarrow> (False, s)
         | (Some len, s) \<Rightarrow> if len \<le> int_max then cd_skip cd (as_int len) s else (False, s))
      else if w = wire_i32 then (case cd_fixed32 cd s of (v, s) \<Rightarrow> (v \<noteq> None, s))
      else (False, s))"

definition skip_or :: "'s coded \<Rightarrow> string \<Rightarrow> nat \<Rightarrow> 'a \<Rightarrow> 's \<Rightarrow> (string + 'a \<times> 's) option" where
  "skip_or cd e w acc s = (case skip_checked cd w s of (True, s) \<Rightarrow> Some (Inr (acc, s)) | (False, s) \<Rightarrow> Some (Inl e))"

text \<open>A field of the expected wire type whose value is read and stored; another wire type is skipped, a
  failed read fails.\<close>

definition read_or :: "'s coded \<Rightarrow> nat \<Rightarrow> ('s \<Rightarrow> 'b option \<times> 's) \<Rightarrow> ('b \<Rightarrow> 'a \<Rightarrow> 'a) \<Rightarrow> nat \<Rightarrow> 'a \<Rightarrow> 's \<Rightarrow> (string + 'a \<times> 's) option" where
  "read_or cd expected read put w acc s =
     (if w \<noteq> expected then skip_or cd [] w acc s
      else case read s of (None, s) \<Rightarrow> Some (Inl []) | (Some x, s) \<Rightarrow> Some (Inr (put x acc, s)))"

definition double_or :: "'s coded \<Rightarrow> 'd fp \<Rightarrow> ('d \<Rightarrow> 'a \<Rightarrow> 'a) \<Rightarrow> nat \<Rightarrow> 'a \<Rightarrow> 's \<Rightarrow> (string + 'a \<times> 's) option" where
  "double_or cd fp put = read_or cd wire_i64 (cd_fixed64 cd) (\<lambda>bits. put (fp_of_bits fp bits))"

definition varint_or :: "'s coded \<Rightarrow> (nat \<Rightarrow> 'a \<Rightarrow> 'a) \<Rightarrow> nat \<Rightarrow> 'a \<Rightarrow> 's \<Rightarrow> (string + 'a \<times> 's) option" where
  "varint_or cd = read_or cd wire_varint (cd_varint64 cd)"

definition fixed32_or :: "'s coded \<Rightarrow> (nat \<Rightarrow> 'a \<Rightarrow> 'a) \<Rightarrow> nat \<Rightarrow> 'a \<Rightarrow> 's \<Rightarrow> (string + 'a \<times> 's) option" where
  "fixed32_or cd = read_or cd wire_i32 (cd_fixed32 cd)"

definition string_or :: "'s coded \<Rightarrow> ('a \<Rightarrow> string) \<Rightarrow> (string \<Rightarrow> 'a \<Rightarrow> 'a) \<Rightarrow> nat \<Rightarrow> 'a \<Rightarrow> 's \<Rightarrow> (string + 'a \<times> 's) option" where
  "string_or cd get put w acc s =
     (if w \<noteq> wire_len then skip_or cd [] w acc s
      else case read_string cd (get acc) s of (False, out, s) \<Rightarrow> Some (Inl []) | (True, out, s) \<Rightarrow> Some (Inr (put out acc, s)))"

text \<open>A submessage; \<open>reader\<close> starts from what the message holds.\<close>

definition message_or :: "'s coded \<Rightarrow> ('a \<Rightarrow> ('s, 'b) strict_reader) \<Rightarrow> ('b \<Rightarrow> 'a \<Rightarrow> 'a) \<Rightarrow> nat \<Rightarrow> 'a \<Rightarrow> 's \<Rightarrow> (string + 'a \<times> 's) option" where
  "message_or cd reader put w acc s =
     (if w \<noteq> wire_len then skip_or cd [] w acc s
      else case cd_varint32 cd s of
        (None, s) \<Rightarrow> Some (Inl [])
      | (Some len, s) \<Rightarrow>
          map_option (\<lambda>r. case r of None \<Rightarrow> Inl [] | Some (x, s) \<Rightarrow> Inr (put x acc, s)) (reader acc len s))"

subsection \<open>Nested messages\<close>

definition push_nested :: "'s coded \<Rightarrow> nat \<Rightarrow> 's \<Rightarrow> (int \<times> 's) option" where
  "push_nested cd len s = (if len > int_max \<or> as_int len > cd_left cd s then None else Some (cd_push cd (as_int len) s))"

definition pop_nested :: "'s coded \<Rightarrow> int \<Rightarrow> 's \<Rightarrow> 's option" where
  "pop_nested cd limit s = (if \<not> cd_consumed cd s then None else Some (cd_pop cd limit s))"

definition nested :: "'s coded \<Rightarrow> ('s, 'a) strict \<Rightarrow> 'a \<Rightarrow> ('s, 'a) strict_reader" where
  "nested cd handle acc len s =
     (case push_nested cd len s of
        None \<Rightarrow> Some None
      | Some (limit, s) \<Rightarrow>
          map_option (\<lambda>r. case r of Inl e \<Rightarrow> None | Inr (x, s) \<Rightarrow> map_option (\<lambda>s. (x, s)) (pop_nested cd limit s))
            (strict_fields cd handle acc s))"

definition map_strict :: "('a \<Rightarrow> 'b) \<Rightarrow> ('s, 'a) strict_reader \<Rightarrow> ('s, 'b) strict_reader" where
  "map_strict g r len s = map_option (map_option (\<lambda>(x, s). (g x, s))) (r len s)"

definition stamp_field :: "'s coded \<Rightarrow> ('s, int \<times> int) strict" where
  "stamp_field cd f =
     (if f = 1 then varint_or cd (\<lambda>v (seconds, nanos). (signed_take_bit 63 (int v), nanos))
      else if f = 2 then varint_or cd (\<lambda>v (seconds, nanos). (seconds, signed_take_bit 31 (int v)))
      else skip_or cd [])"

definition wire_timestamp :: "'s coded \<Rightarrow> ('s, int) strict_reader" where
  "wire_timestamp cd = map_strict (\<lambda>(seconds, nanos). stamp_ns seconds nanos) (nested cd (stamp_field cd) (0, 0))"

text \<open>Fields 1 to N as doubles into the slots.\<close>

definition slot_field :: "'s coded \<Rightarrow> 'd fp \<Rightarrow> ('d \<Rightarrow> 'a \<Rightarrow> 'a) list \<Rightarrow> ('s, 'a) strict" where
  "slot_field cd fp slots f = (if 1 \<le> f \<and> f \<le> length slots then double_or cd fp (slots ! (f - 1)) else skip_or cd [])"

definition double_fields :: "'s coded \<Rightarrow> 'd fp \<Rightarrow> ('d \<Rightarrow> 'a \<Rightarrow> 'a) list \<Rightarrow> 'a \<Rightarrow> ('s, 'a) strict_reader" where
  "double_fields cd fp slots = nested cd (slot_field cd fp slots)"

definition wire_vector2 :: "'s coded \<Rightarrow> 'd fp \<Rightarrow> 'd cell2 \<Rightarrow> ('s, 'd cell2) strict_reader" where
  "wire_vector2 cd fp = double_fields cd fp [\<lambda>d v. v\<lparr>g2_x := d\<rparr>, \<lambda>d v. v\<lparr>g2_y := d\<rparr>]"

definition vector3_slots :: "('d \<Rightarrow> 'd vec3 \<Rightarrow> 'd vec3) list" where
  "vector3_slots = [\<lambda>d v. v\<lparr>v3_x := d\<rparr>, \<lambda>d v. v\<lparr>v3_y := d\<rparr>, \<lambda>d v. v\<lparr>v3_z := d\<rparr>]"

definition wire_vector3 :: "'s coded \<Rightarrow> 'd fp \<Rightarrow> 'd vec3 \<Rightarrow> ('s, 'd vec3) strict_reader" where
  "wire_vector3 cd fp = double_fields cd fp vector3_slots"

definition quaternion_slots :: "('d \<Rightarrow> 'd quat \<Rightarrow> 'd quat) list" where
  "quaternion_slots = [\<lambda>d q. q\<lparr>q_x := d\<rparr>, \<lambda>d q. q\<lparr>q_y := d\<rparr>, \<lambda>d q. q\<lparr>q_z := d\<rparr>, \<lambda>d q. q\<lparr>q_w := d\<rparr>]"

definition wire_pose_field :: "'s coded \<Rightarrow> 'd fp \<Rightarrow> ('s, 'd pose) strict" where
  "wire_pose_field cd fp f =
     (if f = 1 then message_or cd (\<lambda>p. wire_vector3 cd fp (ps_position p)) (\<lambda>v p. p\<lparr>ps_position := v\<rparr>)
      else if f = 2 then message_or cd (\<lambda>p. double_fields cd fp quaternion_slots (ps_orientation p)) (\<lambda>q p. p\<lparr>ps_orientation := q\<rparr>)
      else skip_or cd [])"

definition identity_pose :: "'d fp \<Rightarrow> 'd \<Rightarrow> 'd pose" where
  "identity_pose fp one =
     \<lparr>ps_position = \<lparr>v3_x = fp_zero fp, v3_y = fp_zero fp, v3_z = fp_zero fp\<rparr>,
      ps_orientation = \<lparr>q_x = fp_zero fp, q_y = fp_zero fp, q_z = fp_zero fp, q_w = one\<rparr>\<rparr>"

definition wire_pose :: "'s coded \<Rightarrow> 'd fp \<Rightarrow> 'd \<Rightarrow> ('s, 'd pose) strict_reader" where
  "wire_pose cd fp one = nested cd (wire_pose_field cd fp) (identity_pose fp one)"

record element_fields =
  pe_name :: nat
  pe_offset :: nat
  pe_type :: nat

definition element_field :: "'s coded \<Rightarrow> element_fields \<Rightarrow> ('s, point_field) strict" where
  "element_field cd n f =
     (\<lambda>w. if f = pe_name n \<and> w = wire_len then string_or cd pt_name (\<lambda>x p. p\<lparr>pt_name := x\<rparr>) w
      else if f = pe_offset n \<and> w = wire_i32 then fixed32_or cd (\<lambda>x p. p\<lparr>pt_offset := x\<rparr>) w
      else if f = pe_type n \<and> w = wire_varint then varint_or cd (\<lambda>x p. p\<lparr>pt_type := foxglove_numeric_type x\<rparr>) w
      else skip_or cd [] w)"

definition packed_element :: "'s coded \<Rightarrow> element_fields \<Rightarrow> point_field \<Rightarrow> ('s, point_field) strict_reader" where
  "packed_element cd n init = map_strict (\<lambda>p. p\<lparr>pt_count := 1\<rparr>) (nested cd (element_field cd n) init)"

subsection \<open>A strict reader is past its submessage\<close>

definition sound_sub :: "'s view \<Rightarrow> ('s, 'a) strict_reader \<Rightarrow> bool" where
  "sound_sub v r \<longleftrightarrow>
     (\<forall>len s. placed v s \<longrightarrow>
        (\<exists>q. r len s = Some q \<and> (\<forall>x s'. q = Some (x, s') \<longrightarrow> forward v s s' \<and> vw_pos v s' = vw_pos v s + len)))"

text \<open>All that the messages around it need.\<close>

definition goes_on :: "'s view \<Rightarrow> ('s, 'a) strict_reader \<Rightarrow> bool" where
  "goes_on v r \<longleftrightarrow>
     (\<forall>len s. placed v s \<longrightarrow> (\<exists>q. r len s = Some q \<and> (\<forall>x s'. q = Some (x, s') \<longrightarrow> forward v s s')))"

lemma sound_sub_goes_on [sound_intros]: "sound_sub v r \<Longrightarrow> goes_on v r"
  unfolding sound_sub_def goes_on_def by blast

text \<open>\<open>ConsumedEntireMessage\<close> tells a tag that is zero at the limit from one that is malformed; a direct buffer is
  part of the data.\<close>

locale consumed_stream = coded_stream cd v for cd :: "'s coded" and v :: "'s view" +
  assumes consumed_at_limit: "placed v s \<Longrightarrow> cd_tag cd s = (0, s') \<Longrightarrow> cd_consumed cd s' \<Longrightarrow> vw_pos v s' = vw_lim v s'"
    and direct_within: "placed v s \<Longrightarrow> cd_direct cd s = (Some bytes, s') \<Longrightarrow> length bytes \<le> length (vw_whole v s)"
begin

lemma skip_checked_forward: "placed v s \<Longrightarrow> forward v s (snd (skip_checked cd w s))"
  using varint64_forward [of s] fixed64_forward [of s] fixed32_forward [of s] varint32_forward [of s]
  by (auto simp: skip_checked_def split_def split: option.splits
      intro: forward_trans skip_forward forward_placed forward_refl)

lemma skip_or_sound [sound_intros]: "sound_strict v (skip_or cd e)"
  using skip_checked_forward by (auto simp: sound_strict_def skip_or_def split: bool.splits prod.splits) (metis snd_conv)+

lemma skip_or_result: "placed v s \<Longrightarrow> \<exists>r. skip_or cd e w acc s = Some r \<and> (case r of Inl e \<Rightarrow> True | Inr (acc', s') \<Rightarrow> forward v s s')"
  by (rule skip_or_sound [unfolded sound_strict_def, rule_format])

lemma read_or_sound:
  assumes "\<And>s. placed v s \<Longrightarrow> forward v s (snd (read s))"
  shows "sound_strict v (read_or cd expected read put)"
  unfolding sound_strict_def
proof (intro allI impI)
  fix w acc s
  assume s: "placed v s"
  obtain x s1 where x: "read s = (x, s1)" by fastforce
  then have "forward v s s1" using assms [OF s] by simp
  with x skip_or_result [OF s, of "[]" w acc] show "\<exists>r. read_or cd expected read put w acc s = Some r
      \<and> (case r of Inl e \<Rightarrow> True | Inr (acc', s') \<Rightarrow> forward v s s')"
    by (cases "w = expected"; cases x) (simp_all add: read_or_def)
qed

lemma double_or_sound [sound_intros]: "sound_strict v (double_or cd fp put)"
  unfolding double_or_def by (intro read_or_sound fixed64_forward)

lemma varint_or_sound [sound_intros]: "sound_strict v (varint_or cd put)"
  unfolding varint_or_def by (intro read_or_sound varint64_forward)

lemma fixed32_or_sound [sound_intros]: "sound_strict v (fixed32_or cd put)"
  unfolding fixed32_or_def by (intro read_or_sound fixed32_forward)

lemma string_or_sound [sound_intros]: "sound_strict v (string_or cd get put)"
  unfolding sound_strict_def
proof (intro allI impI)
  fix w acc s
  assume s: "placed v s"
  obtain ok out s1 where x: "read_string cd (get acc) s = (ok, out, s1)" by (metis prod_cases3)
  then have "forward v s s1" using read_string_forward [OF s, of "get acc"] by simp
  with x skip_or_result [OF s, of "[]" w acc] show "\<exists>r. string_or cd get put w acc s = Some r
      \<and> (case r of Inl e \<Rightarrow> True | Inr (acc', s') \<Rightarrow> forward v s s')"
    by (cases "w = wire_len"; cases ok) (simp_all add: string_or_def)
qed

lemma sound_strict_cond: "sound_strict v h \<Longrightarrow> sound_strict v k \<Longrightarrow> sound_strict v (\<lambda>w. if P w then h w else k w)"
  by (simp add: sound_strict_def)

lemma message_or_sound [sound_intros]:
  assumes "\<And>acc. goes_on v (reader acc)"
  shows "sound_strict v (message_or cd reader put)"
  unfolding sound_strict_def
proof (intro allI impI)
  fix w acc s
  assume s: "placed v s"
  obtain n s1 where n: "cd_varint32 cd s = (n, s1)" by fastforce
  have s1: "forward v s s1" "placed v s1" using varint32_forward [OF s] forward_placed [OF _ s] n by auto
  show "\<exists>q. message_or cd reader put w acc s = Some q \<and> (case q of Inl e \<Rightarrow> True | Inr (acc', s') \<Rightarrow> forward v s s')"
  proof (cases "w = wire_len")
    case True
    show ?thesis
    proof (cases n)
      case None
      with n True show ?thesis by (simp add: message_or_def)
    next
      case (Some len)
      from assms s1(2) obtain q where "reader acc len s1 = Some q" "\<forall>x s'. q = Some (x, s') \<longrightarrow> forward v s1 s'"
        unfolding goes_on_def by blast
      with n Some True s1(1) show ?thesis by (cases q) (auto simp: message_or_def intro: forward_trans)
    qed
  next
    case False
    then show ?thesis using skip_or_result [OF s] by (simp add: message_or_def)
  qed
qed

text \<open>The loop ends with a tag of zero.\<close>

lemma strict_fields_result:
  assumes "\<And>f. sound_strict v (handle f)" "placed v s"
  shows "\<exists>r. strict_fields cd handle acc s = Some r
    \<and> (\<forall>x s'. r = Inr (x, s') \<longrightarrow> forward v s s' \<and> (\<exists>t. placed v t \<and> cd_tag cd t = (0, s')))"
  using assms(2)
proof (induction "vw_lim v s - vw_pos v s" arbitrary: acc s rule: less_induct)
  case less
  obtain t s1 where t: "cd_tag cd s = (t, s1)" by fastforce
  have s1: "forward v s s1" "placed v s1" using tag_forward [OF less(2)] forward_placed [OF _ less(2)] t by auto
  show ?case
  proof (cases "t = 0")
    case True
    then show ?thesis using t s1 less(2) by (subst strict_fields.simps) auto
  next
    case False
    with tag_takes [OF less(2)] t have take: "vw_pos v s < vw_pos v s1" by simp
    from assms(1) s1 obtain r where h: "handle (field_of t) (wire_of t) acc s1 = Some r"
        "case r of Inl e \<Rightarrow> True | Inr (acc', s') \<Rightarrow> forward v s1 s'"
      by (auto simp: sound_strict_def) blast
    show ?thesis
    proof (cases r)
      case (Inl e)
      then show ?thesis using t False h by (subst strict_fields.simps) simp
    next
      case (Inr p)
      obtain acc' s2 where p: "p = (acc', s2)" by fastforce
      then have s2: "forward v s1 s2" "placed v s2" using h(2) Inr forward_placed [OF _ s1(2)] by auto
      then have "vw_lim v s2 - vw_pos v s2 < vw_lim v s - vw_pos v s" using s1 take by (auto simp: forward_def)
      from less(1) [OF this s2(2), of acc'] forward_trans [OF s1(1) s2(1)] show ?thesis
        using t False h(1) Inr p by (subst strict_fields.simps) (auto intro: forward_trans)
    qed
  qed
qed

lemma nested_sound [sound_intros]:
  assumes "\<And>f. sound_strict v (handle f)"
  shows "sound_sub v (nested cd handle acc)"
  unfolding sound_sub_def
proof (intro allI impI)
  fix len s
  assume s: "placed v s"
  show "\<exists>q. nested cd handle acc len s = Some q
    \<and> (\<forall>x s'. q = Some (x, s') \<longrightarrow> forward v s s' \<and> vw_pos v s' = vw_pos v s + len)"
  proof (cases "len > int_max \<or> as_int len > cd_left cd s")
    case True
    then show ?thesis by (simp add: nested_def push_nested_def)
  next
    case False
    obtain l s1 where p: "cd_push cd (as_int len) s = (l, s1)" by fastforce
    note s1 = push_limit [OF s p]
    have len: "as_int len = int len" using False by (simp add: as_int_def int_max_def signed_take_bit_int_eq_self)
    have fits: "len \<le> vw_lim v s - vw_pos v s" using False left_until_limit [OF s] len by simp
    then have lim: "vw_lim v s1 = vw_pos v s + len" using s1 len s by (auto simp: placed_def)
    have "placed v s1" using s s1 lim fits by (auto simp: placed_def)
    from strict_fields_result [where handle = handle, OF assms this, of acc] obtain r where r: "strict_fields cd handle acc s1 = Some r"
        "\<forall>x s'. r = Inr (x, s') \<longrightarrow> forward v s1 s' \<and> (\<exists>t. placed v t \<and> cd_tag cd t = (0, s'))" by blast
    have "forward v s (cd_pop cd l s2) \<and> vw_pos v (cd_pop cd l s2) = vw_pos v s + len"
      if "r = Inr (x, s2)" "cd_consumed cd s2" for x s2
    proof -
      from r(2) that consumed_at_limit have s2: "forward v s1 s2" "vw_pos v s2 = vw_lim v s2" by blast+
      with lim s1 have "vw_pos v s2 = vw_pos v s + len" "vw_whole v s2 = vw_whole v s" by (auto simp: forward_def)
      moreover have "vw_pos v s + len \<le> vw_lim v s" using fits s unfolding placed_def by linarith
      moreover have "vw_lim v s \<le> length (vw_whole v s)" using s by (simp add: placed_def)
      ultimately show ?thesis using pop_limit [of s2 "vw_lim v s"] s1 by (auto simp: forward_def)
    qed
    with r(1) False p show ?thesis
      by (auto simp: nested_def push_nested_def pop_nested_def split: sum.splits prod.splits if_splits)
  qed
qed

lemma map_strict_sound [sound_intros]: "sound_sub v r \<Longrightarrow> sound_sub v (map_strict g r)"
  by (fastforce simp: sound_sub_def map_strict_def)

lemma double_fields_sound [sound_intros]: "sound_sub v (double_fields cd fp slots acc)"
  unfolding double_fields_def slot_field_def by (intro sound_intros)

lemma wire_timestamp_sound [sound_intros]: "sound_sub v (wire_timestamp cd)"
  unfolding wire_timestamp_def stamp_field_def by (intro sound_intros)

lemma wire_vector2_sound [sound_intros]: "sound_sub v (wire_vector2 cd fp acc)"
  unfolding wire_vector2_def by (intro sound_intros)

lemma wire_vector3_sound [sound_intros]: "sound_sub v (wire_vector3 cd fp acc)"
  unfolding wire_vector3_def by (intro sound_intros)

lemma wire_pose_sound [sound_intros]: "sound_sub v (wire_pose cd fp one)"
  unfolding wire_pose_def wire_pose_field_def by (intro sound_intros)

lemma packed_element_sound [sound_intros]: "sound_sub v (packed_element cd n init)"
  unfolding packed_element_def element_field_def by (intro sound_intros sound_strict_cond)

end

interpretation byte_end: consumed_stream byte_coded byte_view
proof (unfold_locales, goal_cases)
  case (1 s s')
  then have "bytes_left s = []" "s' = s\<lparr>bs_ended := True\<rparr>"
    by (auto simp: byte_coded_def split: if_splits prod.splits option.splits)
  with bytes_left_length [OF 1(1)] 1(1) show ?case by (simp add: placed_def)
next
  case (2 s bytes s')
  then have "bytes = bytes_left s" by (auto simp: byte_coded_def split: if_splits)
  with bytes_left_length [OF 2(1)] 2(1) show ?case unfolding placed_def by simp linarith
qed

end
