(* ===== verification/FoxPoints.thy ===== *)
theory FoxPoints
  imports WireNested
begin

section \<open>Grids, voxel grids, point clouds and laser scans (parser_protobuf/foxglove_*_codec.cpp)\<close>

text \<open>
  The decoders of the packed data of foxglove messages over the strict nested readers, with the field numbers resolved
  from an embedded schema. Facts shown: every decoder returns on any stream that does what the library documents;
  what a decoded object declares fits the bytes it holds.
\<close>

subsection \<open>Fields of the top level\<close>

definition top_message ::
  "'s coded \<Rightarrow> string \<Rightarrow> ('a \<Rightarrow> ('s, 'b) strict_reader) \<Rightarrow> ('b \<Rightarrow> 'a \<Rightarrow> 'a) \<Rightarrow> nat \<Rightarrow> 'a \<Rightarrow> 's \<Rightarrow> (string + 'a \<times> 's) option" where
  "top_message cd e reader put w acc s =
     (if w \<noteq> wire_len then Some (Inl e)
      else case cd_varint32 cd s of
        (None, s) \<Rightarrow> Some (Inl e)
      | (Some len, s) \<Rightarrow> map_option (\<lambda>r. case r of None \<Rightarrow> Inl e | Some (x, s) \<Rightarrow> Inr (put x acc, s)) (reader acc len s))"

text \<open>A separate error for the wire type, and for the length.\<close>

definition typed :: "nat \<Rightarrow> string \<Rightarrow> (nat \<Rightarrow> 'a \<Rightarrow> 's \<Rightarrow> (string + 'a \<times> 's) option) \<Rightarrow> nat \<Rightarrow> 'a \<Rightarrow> 's \<Rightarrow> (string + 'a \<times> 's) option" where
  "typed expected e h w acc s = (if w \<noteq> expected then Some (Inl e) else h w acc s)"

definition top_sized ::
  "'s coded \<Rightarrow> string \<Rightarrow> string \<Rightarrow> ('a \<Rightarrow> ('s, 'b) strict_reader) \<Rightarrow> ('b \<Rightarrow> 'a \<Rightarrow> 'a) \<Rightarrow> nat \<Rightarrow> 'a \<Rightarrow> 's \<Rightarrow> (string + 'a \<times> 's) option" where
  "top_sized cd e_length e reader put w acc s =
     (case cd_varint32 cd s of
        (None, s) \<Rightarrow> Some (Inl e_length)
      | (Some len, s) \<Rightarrow> map_option (\<lambda>r. case r of None \<Rightarrow> Inl e | Some (x, s) \<Rightarrow> Inr (put x acc, s)) (reader acc len s))"

definition top_double :: "'s coded \<Rightarrow> 'd fp \<Rightarrow> string \<Rightarrow> ('d \<Rightarrow> 'a \<Rightarrow> 'a) \<Rightarrow> nat \<Rightarrow> 'a \<Rightarrow> 's \<Rightarrow> (string + 'a \<times> 's) option" where
  "top_double cd fp e put w acc s =
     (if w \<noteq> wire_i64 then Some (Inl e)
      else case cd_fixed64 cd s of (None, s) \<Rightarrow> Some (Inl e) | (Some bits, s) \<Rightarrow> Some (Inr (put (fp_of_bits fp bits) acc, s)))"

definition top_span ::
  "'s coded \<Rightarrow> string \<Rightarrow> string \<Rightarrow> string \<Rightarrow> (string \<Rightarrow> 'a \<Rightarrow> 'a) \<Rightarrow> nat \<Rightarrow> 'a \<Rightarrow> 's \<Rightarrow> (string + 'a \<times> 's) option" where
  "top_span cd e_length e_direct e_skip put w acc s =
     (case cd_varint32 cd s of
        (None, s) \<Rightarrow> Some (Inl e_length)
      | (Some len, s) \<Rightarrow>
          if len = 0 then Some (Inr (acc, s))
          else case cd_direct cd s of
            (None, s) \<Rightarrow> Some (Inl e_direct)
          | (Some bytes, s) \<Rightarrow>
              if int (length bytes) < as_int len then Some (Inl e_direct)
              else case cd_skip cd (as_int len) s of
                (False, s) \<Rightarrow> Some (Inl e_skip)
              | (True, s) \<Rightarrow> Some (Inr (put (take len bytes) acc, s)))"

text \<open>The frame of these decoders; \<open>finish\<close> sees the stream after the last tag.\<close>

definition decode_points ::
  "'s coded \<Rightarrow> (string \<Rightarrow> 's) \<Rightarrow> string \<Rightarrow> ('s, 'a) strict \<Rightarrow> 'a \<Rightarrow> ('a \<Rightarrow> 's \<Rightarrow> string + 'b) \<Rightarrow> string \<Rightarrow> (string + 'b) option" where
  "decode_points cd opened what handle init finish data =
     (if length data > int_max then Some (Inl (what @ '': message too large''))
      else map_option (\<lambda>r. case r of Inl e \<Rightarrow> Inl e | Inr (acc, s) \<Rightarrow> finish acc s) (strict_fields cd handle init (opened data)))"

definition resolve_elements :: "'m find_field \<Rightarrow> 'm option \<Rightarrow> element_fields" where
  "resolve_elements look d =
     (let pef = nested_descriptor look d ''fields'' in
      \<lparr>pe_name = field_number_or look pef ''name'' 1, pe_offset = field_number_or look pef ''offset'' 2,
       pe_type = field_number_or look pef ''type'' 3\<rparr>)"

subsection \<open>Grid\<close>

record grid_fields =
  gf_timestamp :: nat
  gf_frame_id :: nat
  gf_pose :: nat
  gf_columns :: nat
  gf_cell_size :: nat
  gf_row_stride :: nat
  gf_cell_stride :: nat
  gf_fields :: nat
  gf_data :: nat
  gf_element :: element_fields

definition resolve_grid :: "'m find_field \<Rightarrow> 'm option \<Rightarrow> grid_fields" where
  "resolve_grid look d =
     \<lparr>gf_timestamp = field_number_or look d ''timestamp'' 1, gf_frame_id = field_number_or look d ''frame_id'' 2,
      gf_pose = field_number_or look d ''pose'' 3, gf_columns = field_number_or look d ''column_count'' 4,
      gf_cell_size = field_number_or look d ''cell_size'' 5, gf_row_stride = field_number_or look d ''row_stride'' 6,
      gf_cell_stride = field_number_or look d ''cell_stride'' 7, gf_fields = field_number_or look d ''fields'' 8,
      gf_data = field_number_or look d ''data'' 9, gf_element = resolve_elements look d\<rparr>"

definition grid_name :: "string \<Rightarrow> string" where "grid_name what = ''foxglove.Grid: '' @ what"

definition grid_top :: "'s coded \<Rightarrow> 'd fp \<Rightarrow> 'd \<Rightarrow> point_field \<Rightarrow> grid_fields \<Rightarrow> ('s, 'd grid) strict" where
  "grid_top cd fp one pf n f =
     (if f = gf_timestamp n
      then top_message cd (grid_name ''failed to read timestamp'') (\<lambda>g. wire_timestamp cd) (\<lambda>t g. g\<lparr>gm_timestamp := t\<rparr>)
      else if f = gf_frame_id n
      then strict_string cd (grid_name ''failed to read frame_id'') gm_frame_id (\<lambda>x g. g\<lparr>gm_frame_id := x\<rparr>)
      else if f = gf_pose n
      then top_message cd (grid_name ''failed to read pose'') (\<lambda>g. wire_pose cd fp one) (\<lambda>p g. g\<lparr>gm_origin := p\<rparr>)
      else if f = gf_cell_size n
      then top_message cd (grid_name ''failed to read cell_size'') (\<lambda>g. wire_vector2 cd fp (gm_cell_size g)) (\<lambda>c g. g\<lparr>gm_cell_size := c\<rparr>)
      else if f = gf_columns n then strict_fixed32 cd (grid_name ''failed to read column_count'') (\<lambda>x g. g\<lparr>gm_columns := x\<rparr>)
      else if f = gf_row_stride n then strict_fixed32 cd (grid_name ''failed to read row_stride'') (\<lambda>x g. g\<lparr>gm_row_stride := x\<rparr>)
      else if f = gf_cell_stride n then strict_fixed32 cd (grid_name ''failed to read cell_stride'') (\<lambda>x g. g\<lparr>gm_cell_stride := x\<rparr>)
      else if f = gf_fields n
      then top_message cd (grid_name ''failed to read PackedElementField'') (\<lambda>g. packed_element cd (gf_element n) pf)
             (\<lambda>p g. g\<lparr>gm_fields := gm_fields g @ [p]\<rparr>)
      else if f = gf_data n
      then typed wire_len (grid_name ''failed to read data length'')
             (top_span cd (grid_name ''failed to read data length'') (grid_name ''data not contiguous (truncated message)'')
               (grid_name ''failed to skip data'') (\<lambda>x g. g\<lparr>gm_data := x\<rparr>))
      else skip_or cd (grid_name ''malformed message''))"

definition finish_grid :: "'s coded \<Rightarrow> ('d, 'f) grid_lib \<Rightarrow> 'd grid \<Rightarrow> 's \<Rightarrow> string + 'd grid" where
  "finish_grid cd gl g s =
     (if \<not> cd_consumed cd s then Inl (grid_name ''malformed message'')
      else case finalize_foxglove_grid gl g of Inl e \<Rightarrow> Inl (grid_name e) | Inr g \<Rightarrow> Inr g)"

definition deserialize_grid ::
  "'s coded \<Rightarrow> (string \<Rightarrow> 's) \<Rightarrow> 'd fp \<Rightarrow> 'd \<Rightarrow> point_field \<Rightarrow> ('d, 'f) grid_lib \<Rightarrow> grid_fields \<Rightarrow> string \<Rightarrow> (string + 'd grid) option" where
  "deserialize_grid cd opened fp one pf gl n =
     decode_points cd opened ''foxglove.Grid'' (grid_top cd fp one pf n) (gl_grid gl) (finish_grid cd gl)"

subsection \<open>VoxelGrid\<close>

record 'd voxel_grid =
  vg_timestamp :: int
  vg_frame_id :: string
  vg_origin :: "'d pose"
  vg_cell_size :: "'d vec3"
  vg_rows :: nat
  vg_columns :: nat
  vg_slices :: nat
  vg_slice_stride :: nat
  vg_row_stride :: nat
  vg_cell_stride :: nat
  vg_fields :: "point_field list"
  vg_data :: string

record voxel_fields =
  vf_timestamp :: nat
  vf_frame_id :: nat
  vf_pose :: nat
  vf_rows :: nat
  vf_columns :: nat
  vf_cell_size :: nat
  vf_slice_stride :: nat
  vf_row_stride :: nat
  vf_cell_stride :: nat
  vf_fields :: nat
  vf_data :: nat
  vf_element :: element_fields

definition resolve_voxel :: "'m find_field \<Rightarrow> 'm option \<Rightarrow> voxel_fields" where
  "resolve_voxel look d =
     \<lparr>vf_timestamp = field_number_or look d ''timestamp'' 1, vf_frame_id = field_number_or look d ''frame_id'' 2,
      vf_pose = field_number_or look d ''pose'' 3, vf_rows = field_number_or look d ''row_count'' 4,
      vf_columns = field_number_or look d ''column_count'' 5, vf_cell_size = field_number_or look d ''cell_size'' 6,
      vf_slice_stride = field_number_or look d ''slice_stride'' 7, vf_row_stride = field_number_or look d ''row_stride'' 8,
      vf_cell_stride = field_number_or look d ''cell_stride'' 9, vf_fields = field_number_or look d ''fields'' 10,
      vf_data = field_number_or look d ''data'' 11, vf_element = resolve_elements look d\<rparr>"

definition voxel_name :: "string \<Rightarrow> string" where "voxel_name what = ''foxglove.VoxelGrid: '' @ what"

definition voxel_top :: "'s coded \<Rightarrow> 'd fp \<Rightarrow> 'd \<Rightarrow> point_field \<Rightarrow> voxel_fields \<Rightarrow> ('s, 'd voxel_grid) strict" where
  "voxel_top cd fp one pf n f =
     (if f = vf_timestamp n
      then typed wire_len (voxel_name ''bad timestamp wire type'')
             (top_message cd (voxel_name ''failed to read timestamp'') (\<lambda>g. wire_timestamp cd) (\<lambda>t g. g\<lparr>vg_timestamp := t\<rparr>))
      else if f = vf_frame_id n
      then typed wire_len (voxel_name ''bad frame_id wire type'')
             (strict_string cd (voxel_name ''failed to read frame_id'') vg_frame_id (\<lambda>x g. g\<lparr>vg_frame_id := x\<rparr>))
      else if f = vf_pose n
      then typed wire_len (voxel_name ''bad pose wire type'')
             (top_message cd (voxel_name ''failed to read pose'') (\<lambda>g. wire_pose cd fp one) (\<lambda>p g. g\<lparr>vg_origin := p\<rparr>))
      else if f = vf_cell_size n
      then typed wire_len (voxel_name ''bad cell_size wire type'')
             (top_message cd (voxel_name ''failed to read cell_size'') (\<lambda>g. wire_vector3 cd fp (vg_cell_size g)) (\<lambda>c g. g\<lparr>vg_cell_size := c\<rparr>))
      else if f = vf_rows n then strict_fixed32 cd (voxel_name ''failed to read row_count'') (\<lambda>x g. g\<lparr>vg_rows := x\<rparr>)
      else if f = vf_columns n then strict_fixed32 cd (voxel_name ''failed to read column_count'') (\<lambda>x g. g\<lparr>vg_columns := x\<rparr>)
      else if f = vf_slice_stride n then strict_fixed32 cd (voxel_name ''failed to read slice_stride'') (\<lambda>x g. g\<lparr>vg_slice_stride := x\<rparr>)
      else if f = vf_row_stride n then strict_fixed32 cd (voxel_name ''failed to read row_stride'') (\<lambda>x g. g\<lparr>vg_row_stride := x\<rparr>)
      else if f = vf_cell_stride n then strict_fixed32 cd (voxel_name ''failed to read cell_stride'') (\<lambda>x g. g\<lparr>vg_cell_stride := x\<rparr>)
      else if f = vf_fields n
      then typed wire_len (voxel_name ''bad fields wire type'')
             (top_sized cd (voxel_name ''failed to read field length'') (voxel_name ''failed to read PackedElementField'')
               (\<lambda>g. packed_element cd (vf_element n) pf) (\<lambda>p g. g\<lparr>vg_fields := vg_fields g @ [p]\<rparr>))
      else if f = vf_data n
      then typed wire_len (voxel_name ''bad data wire type'')
             (top_span cd (voxel_name ''failed to read data length'') (voxel_name ''data not contiguous'')
               (voxel_name ''failed to skip data'') (\<lambda>x g. g\<lparr>vg_data := x\<rparr>))
      else skip_or cd (voxel_name ''malformed message''))"

definition finish_voxel :: "'d voxel_grid \<Rightarrow> 's \<Rightarrow> string + 'd voxel_grid" where
  "finish_voxel g s =
     Inr (g\<lparr>vg_slices := if vg_slice_stride g > 0 then u32 (length (vg_data g) div vg_slice_stride g) else 0\<rparr>)"

definition deserialize_voxel_grid ::
  "'s coded \<Rightarrow> (string \<Rightarrow> 's) \<Rightarrow> 'd fp \<Rightarrow> 'd \<Rightarrow> point_field \<Rightarrow> 'd voxel_grid \<Rightarrow> voxel_fields \<Rightarrow> string \<Rightarrow> (string + 'd voxel_grid) option" where
  "deserialize_voxel_grid cd opened fp one pf vg0 n =
     decode_points cd opened ''foxglove.VoxelGrid'' (voxel_top cd fp one pf n)
       (vg0\<lparr>vg_origin := identity_pose fp one, vg_timestamp := 0, vg_data := []\<rparr>) finish_voxel"

subsection \<open>PointCloud\<close>

text \<open>\<open>readPoseIdentity\<close>: the limits are pushed and popped without a check, and a submessage may end anywhere.\<close>

definition unchecked_nested :: "'s coded \<Rightarrow> ('s, 'a) strict \<Rightarrow> 'a \<Rightarrow> ('s, 'a) strict_reader" where
  "unchecked_nested cd handle acc len s =
     (case cd_push cd (as_int len) s of
        (limit, s) \<Rightarrow>
          map_option (\<lambda>r. case r of Inl e \<Rightarrow> None | Inr (x, s) \<Rightarrow> Some (x, cd_pop cd limit s)) (strict_fields cd handle acc s))"

definition identity_field :: "'s coded \<Rightarrow> 'd fp \<Rightarrow> ('s, 'd pose) strict" where
  "identity_field cd fp f =
     (if f = 1
      then message_or cd (\<lambda>p. unchecked_nested cd (slot_field cd fp vector3_slots) (ps_position p)) (\<lambda>v p. p\<lparr>ps_position := v\<rparr>)
      else if f = 2
      then message_or cd (\<lambda>p. unchecked_nested cd (slot_field cd fp quaternion_slots) (ps_orientation p)) (\<lambda>q p. p\<lparr>ps_orientation := q\<rparr>)
      else skip_or cd [])"

definition is_identity :: "'d fp \<Rightarrow> 'd \<Rightarrow> ('d \<Rightarrow> 'd \<Rightarrow> bool) \<Rightarrow> 'd pose \<Rightarrow> bool" where
  "is_identity fp one eq p \<longleftrightarrow>
     (let v = ps_position p; q = ps_orientation p; z = fp_zero fp in
      eq (v3_x v) z \<and> eq (v3_y v) z \<and> eq (v3_z v) z \<and> eq (q_x q) z \<and> eq (q_y q) z \<and> eq (q_z q) z \<and> eq (q_w q) one)"

definition read_pose_identity :: "'s coded \<Rightarrow> 'd fp \<Rightarrow> 'd \<Rightarrow> ('d \<Rightarrow> 'd \<Rightarrow> bool) \<Rightarrow> ('s, bool) strict_reader" where
  "read_pose_identity cd fp one eq =
     map_strict (is_identity fp one eq) (unchecked_nested cd (identity_field cd fp) (identity_pose fp one))"

record cloud_fields =
  cl_timestamp :: nat
  cl_frame_id :: nat
  cl_pose :: nat
  cl_stride :: nat
  cl_fields :: nat
  cl_data :: nat
  cl_element :: element_fields

definition resolve_cloud :: "'m find_field \<Rightarrow> 'm option \<Rightarrow> cloud_fields" where
  "resolve_cloud look d =
     \<lparr>cl_timestamp = field_number_or look d ''timestamp'' 1, cl_frame_id = field_number_or look d ''frame_id'' 2,
      cl_pose = field_number_or look d ''pose'' 3, cl_stride = field_number_or look d ''point_stride'' 4,
      cl_fields = field_number_or look d ''fields'' 5, cl_data = field_number_or look d ''data'' 6,
      cl_element = resolve_elements look d\<rparr>"

record cloud_decode =
  cd_cloud :: point_cloud
  cd_has_pose :: bool
  cd_identity :: bool

definition cloud_name :: "string \<Rightarrow> string" where "cloud_name what = ''foxglove.PointCloud: '' @ what"

definition on_cloud :: "('b \<Rightarrow> point_cloud \<Rightarrow> point_cloud) \<Rightarrow> 'b \<Rightarrow> cloud_decode \<Rightarrow> cloud_decode" where
  "on_cloud g x r = r\<lparr>cd_cloud := g x (cd_cloud r)\<rparr>"

text \<open>The timestamp, the stride and the span, locals of the code, are kept in the fields of the cloud they end up in;
  \<open>has_pose\<close> is set before the pose is read, which only an error could show.\<close>

definition cloud_top ::
  "'s coded \<Rightarrow> 'd fp \<Rightarrow> 'd \<Rightarrow> ('d \<Rightarrow> 'd \<Rightarrow> bool) \<Rightarrow> point_field \<Rightarrow> cloud_fields \<Rightarrow> ('s, cloud_decode) strict" where
  "cloud_top cd fp one eq pf n f =
     (if f = cl_timestamp n
      then typed wire_len (cloud_name ''bad timestamp wire type'')
             (top_message cd (cloud_name ''failed to read timestamp'') (\<lambda>r. wire_timestamp cd) (on_cloud (\<lambda>t c. c\<lparr>pc_timestamp := t\<rparr>)))
      else if f = cl_frame_id n
      then typed wire_len (cloud_name ''bad frame_id wire type'')
             (strict_string cd (cloud_name ''failed to read frame_id'') (\<lambda>r. pc_frame_id (cd_cloud r)) (on_cloud (\<lambda>x c. c\<lparr>pc_frame_id := x\<rparr>)))
      else if f = cl_pose n
      then typed wire_len (cloud_name ''bad pose wire type'')
             (top_sized cd (cloud_name ''failed to read pose length'') (cloud_name ''failed to read pose'')
               (\<lambda>r. read_pose_identity cd fp one eq) (\<lambda>b r. r\<lparr>cd_has_pose := True, cd_identity := b\<rparr>))
      else if f = cl_stride n
      then typed wire_i32 (cloud_name ''bad point_stride wire type'')
             (strict_fixed32 cd (cloud_name ''failed to read point_stride'') (on_cloud (\<lambda>x c. c\<lparr>pc_step := x\<rparr>)))
      else if f = cl_fields n
      then typed wire_len (cloud_name ''bad fields wire type'')
             (top_sized cd (cloud_name ''failed to read field length'') (cloud_name ''failed to read PackedElementField'')
               (\<lambda>r. packed_element cd (cl_element n) pf) (on_cloud (\<lambda>p c. c\<lparr>pc_fields := pc_fields c @ [p]\<rparr>)))
      else if f = cl_data n
      then typed wire_len (cloud_name ''bad data wire type'')
             (top_span cd (cloud_name ''failed to read data length'') (cloud_name ''data not contiguous'')
               (cloud_name ''failed to skip data'') (on_cloud (\<lambda>x c. c\<lparr>pc_data := x\<rparr>)))
      else skip_or cd (cloud_name ''malformed message''))"

definition shaped_cloud :: "point_cloud \<Rightarrow> point_cloud" where
  "shaped_cloud c =
     (let width = (if pc_step c > 0 then u32 (length (pc_data c) div pc_step c) else 0) in
      c\<lparr>pc_height := 1, pc_width := width, pc_row_step := u32 (width * pc_step c), pc_bigendian := False, pc_dense := True\<rparr>)"

definition finish_cloud :: "cloud_decode \<Rightarrow> 's \<Rightarrow> string + cloud_decode" where
  "finish_cloud r s =
     (let c = shaped_cloud (cd_cloud r) in
      Inr (r\<lparr>cd_cloud := case collapse_channels c of None \<Rightarrow> c | Some c' \<Rightarrow> c'\<rparr>))"

definition deserialize_cloud ::
  "'s coded \<Rightarrow> (string \<Rightarrow> 's) \<Rightarrow> 'd fp \<Rightarrow> 'd \<Rightarrow> ('d \<Rightarrow> 'd \<Rightarrow> bool) \<Rightarrow> point_field \<Rightarrow> point_cloud \<Rightarrow> cloud_fields \<Rightarrow> string \<Rightarrow>
   (string + cloud_decode) option" where
  "deserialize_cloud cd opened fp one eq pf pc0 n =
     decode_points cd opened ''foxglove.PointCloud'' (cloud_top cd fp one eq pf n)
       \<lparr>cd_cloud = pc0\<lparr>pc_timestamp := 0, pc_step := 0, pc_data := []\<rparr>, cd_has_pose = False, cd_identity = True\<rparr> finish_cloud"

subsection \<open>LaserScan\<close>

record laser_fields =
  sn_timestamp :: nat
  sn_frame_id :: nat
  sn_pose :: nat
  sn_start_angle :: nat
  sn_end_angle :: nat
  sn_ranges :: nat
  sn_intensities :: nat

definition resolve_scan :: "'m find_field \<Rightarrow> 'm option \<Rightarrow> laser_fields" where
  "resolve_scan look d =
     \<lparr>sn_timestamp = field_number_or look d ''timestamp'' 1, sn_frame_id = field_number_or look d ''frame_id'' 2,
      sn_pose = field_number_or look d ''pose'' 3, sn_start_angle = field_number_or look d ''start_angle'' 4,
      sn_end_angle = field_number_or look d ''end_angle'' 5, sn_ranges = field_number_or look d ''ranges'' 6,
      sn_intensities = field_number_or look d ''intensities'' 7\<rparr>"

text \<open>\<open>readRepeatedDouble\<close>: a packed block of so many doubles, or a single one.\<close>

fun read_doubles :: "'s coded \<Rightarrow> 'd fp \<Rightarrow> nat \<Rightarrow> 'd list \<Rightarrow> 's \<Rightarrow> ('d list \<times> 's) option" where
  "read_doubles cd fp 0 out s = Some (out, s)"
| "read_doubles cd fp (Suc n) out s =
     (case cd_fixed64 cd s of (None, s) \<Rightarrow> None | (Some bits, s) \<Rightarrow> read_doubles cd fp n (out @ [fp_of_bits fp bits]) s)"

definition repeated_double :: "'s coded \<Rightarrow> 'd fp \<Rightarrow> nat \<Rightarrow> 'd list \<Rightarrow> 's \<Rightarrow> ('d list \<times> 's) option" where
  "repeated_double cd fp w out s =
     (if w = wire_i64 then (case cd_fixed64 cd s of (None, s) \<Rightarrow> None | (Some bits, s) \<Rightarrow> Some (out @ [fp_of_bits fp bits], s))
      else if w \<noteq> wire_len then None
      else case cd_varint32 cd s of
        (None, s) \<Rightarrow> None
      | (Some len, s) \<Rightarrow>
          if len mod 8 \<noteq> 0 then None
          else case cd_push cd (as_int len) s of
            (limit, s) \<Rightarrow> map_option (\<lambda>(out, s). (out, cd_pop cd limit s)) (read_doubles cd fp (len div 8) out s))"

definition top_doubles ::
  "'s coded \<Rightarrow> 'd fp \<Rightarrow> string \<Rightarrow> ('a \<Rightarrow> 'd list) \<Rightarrow> ('d list \<Rightarrow> 'a \<Rightarrow> 'a) \<Rightarrow> nat \<Rightarrow> 'a \<Rightarrow> 's \<Rightarrow> (string + 'a \<times> 's) option" where
  "top_doubles cd fp e get put w acc s =
     Some (case repeated_double cd fp w (get acc) s of None \<Rightarrow> Inl e | Some (xs, s) \<Rightarrow> Inr (put xs acc, s))"

record 'd scan_decode =
  sc_timestamp :: int
  sc_frame_id :: string
  sc_start :: 'd
  sc_end :: 'd
  sc_ranges :: "'d list"
  sc_intensities :: "'d list"
  sc_has_pose :: bool
  sc_identity :: bool

definition scan_name :: "string \<Rightarrow> string" where "scan_name what = ''foxglove.LaserScan: '' @ what"

definition scan_top ::
  "'s coded \<Rightarrow> 'd fp \<Rightarrow> 'd \<Rightarrow> ('d \<Rightarrow> 'd \<Rightarrow> bool) \<Rightarrow> laser_fields \<Rightarrow> ('s, 'd scan_decode) strict" where
  "scan_top cd fp one eq n f =
     (if f = sn_timestamp n
      then typed wire_len (scan_name ''bad timestamp wire type'')
             (top_message cd (scan_name ''failed to read timestamp'') (\<lambda>r. wire_timestamp cd) (\<lambda>t r. r\<lparr>sc_timestamp := t\<rparr>))
      else if f = sn_frame_id n
      then typed wire_len (scan_name ''bad frame_id wire type'')
             (strict_string cd (scan_name ''failed to read frame_id'') sc_frame_id (\<lambda>x r. r\<lparr>sc_frame_id := x\<rparr>))
      else if f = sn_pose n
      then typed wire_len (scan_name ''bad pose wire type'')
             (top_sized cd (scan_name ''failed to read pose length'') (scan_name ''failed to read pose'')
               (\<lambda>r. read_pose_identity cd fp one eq) (\<lambda>b r. r\<lparr>sc_has_pose := True, sc_identity := b\<rparr>))
      else if f = sn_start_angle n then top_double cd fp (scan_name ''failed to read start_angle'') (\<lambda>d r. r\<lparr>sc_start := d\<rparr>)
      else if f = sn_end_angle n then top_double cd fp (scan_name ''failed to read end_angle'') (\<lambda>d r. r\<lparr>sc_end := d\<rparr>)
      else if f = sn_ranges n
      then top_doubles cd fp (scan_name ''failed to read ranges'') sc_ranges (\<lambda>xs r. r\<lparr>sc_ranges := xs\<rparr>)
      else if f = sn_intensities n
      then top_doubles cd fp (scan_name ''failed to read intensities'') sc_intensities (\<lambda>xs r. r\<lparr>sc_intensities := xs\<rparr>)
      else skip_or cd (scan_name ''malformed message''))"

record 'd scan_result =
  sr_cloud :: point_cloud
  sr_start :: 'd
  sr_end :: 'd
  sr_ray_count :: nat
  sr_has_pose :: bool
  sr_identity :: bool

definition new_scan :: "'d fp \<Rightarrow> 'd scan_decode" where
  "new_scan fp = \<lparr>sc_timestamp = 0, sc_frame_id = [], sc_start = fp_zero fp, sc_end = fp_zero fp, sc_ranges = [], sc_intensities = [],
     sc_has_pose = False, sc_identity = True\<rparr>"

text \<open>\<open>step\<close> is the quotient of the difference of the angles and a count; the projector is passed in and out.\<close>

definition finish_scan ::
  "('d, 'f) trig \<Rightarrow> ('d, 'd, 'f) scalar \<Rightarrow> ('d \<Rightarrow> 'd \<Rightarrow> nat \<Rightarrow> 'd) \<Rightarrow> 'd fp \<Rightarrow> ('d, 'f) projector \<Rightarrow> 'd scan_decode \<Rightarrow> 's \<Rightarrow>
   string + 'd scan_result \<times> ('d, 'f) projector" where
  "finish_scan tg sc step fp p r s =
     (let n = length (sc_ranges r);
          params = \<lparr>sp_angle_min = sc_start r, sp_angle_increment = if n > 1 then step (sc_end r) (sc_start r) (n - 1) else fp_zero fp,
                    sp_range_min = None, sp_range_max = None\<rparr>;
          (cloud, p) = project_impl tg sc params (sc_ranges r) (sc_intensities r) p
      in Inr (\<lparr>sr_cloud = cloud\<lparr>pc_frame_id := sc_frame_id r, pc_timestamp := sc_timestamp r\<rparr>, sr_start = sc_start r, sr_end = sc_end r,
                sr_ray_count = n, sr_has_pose = sc_has_pose r, sr_identity = sc_identity r\<rparr>, p))"

definition deserialize_scan ::
  "'s coded \<Rightarrow> (string \<Rightarrow> 's) \<Rightarrow> 'd fp \<Rightarrow> 'd \<Rightarrow> ('d \<Rightarrow> 'd \<Rightarrow> bool) \<Rightarrow> ('d, 'f) trig \<Rightarrow> ('d, 'd, 'f) scalar \<Rightarrow> ('d \<Rightarrow> 'd \<Rightarrow> nat \<Rightarrow> 'd) \<Rightarrow>
   ('d, 'f) projector \<Rightarrow> laser_fields \<Rightarrow> string \<Rightarrow> (string + 'd scan_result \<times> ('d, 'f) projector) option" where
  "deserialize_scan cd opened fp one eq tg sc step p n =
     decode_points cd opened ''foxglove.LaserScan'' (scan_top cd fp one eq n) (new_scan fp) (finish_scan tg sc step fp p)"

text \<open>The summary of a scan: fields of another wire type are skipped, the rays are counted without reading them.\<close>

record 'd scan_info =
  si_timestamp :: int
  si_frame_id :: string
  si_start :: 'd
  si_end :: 'd
  si_num_ranges :: nat

definition skip_ranges :: "'s coded \<Rightarrow> 'd scan_info \<Rightarrow> 's \<Rightarrow> (string + 'd scan_info \<times> 's) option" where
  "skip_ranges cd i s =
     (let e = scan_name ''failed to read ranges'' in
      case cd_varint32 cd s of
        (None, s) \<Rightarrow> Some (Inl e)
      | (Some len, s) \<Rightarrow>
          if len mod 8 \<noteq> 0 then Some (Inl e)
          else case cd_skip cd (as_int len) s of
            (False, s) \<Rightarrow> Some (Inl e)
          | (True, s) \<Rightarrow> Some (Inr (i\<lparr>si_num_ranges := si_num_ranges i + len div 8\<rparr>, s)))"

definition skip_range :: "'s coded \<Rightarrow> nat \<Rightarrow> 'd scan_info \<Rightarrow> 's \<Rightarrow> (string + 'd scan_info \<times> 's) option" where
  "skip_range cd w i s =
     (case skip_checked cd w s of
        (False, s) \<Rightarrow> Some (Inl (scan_name ''failed to read ranges''))
      | (True, s) \<Rightarrow> Some (Inr (i\<lparr>si_num_ranges := si_num_ranges i + 1\<rparr>, s)))"

definition info_top :: "'s coded \<Rightarrow> 'd fp \<Rightarrow> laser_fields \<Rightarrow> ('s, 'd scan_info) strict" where
  "info_top cd fp n f =
     (\<lambda>w. if f = sn_timestamp n \<and> w = wire_len
      then top_message cd (scan_name ''failed to read timestamp'') (\<lambda>i. wire_timestamp cd) (\<lambda>t i. i\<lparr>si_timestamp := t\<rparr>) w
      else if f = sn_frame_id n \<and> w = wire_len
      then strict_string cd (scan_name ''failed to read frame_id'') si_frame_id (\<lambda>x i. i\<lparr>si_frame_id := x\<rparr>) w
      else if f = sn_start_angle n \<and> w = wire_i64 then top_double cd fp (scan_name ''failed to read start_angle'') (\<lambda>d i. i\<lparr>si_start := d\<rparr>) w
      else if f = sn_end_angle n \<and> w = wire_i64 then top_double cd fp (scan_name ''failed to read end_angle'') (\<lambda>d i. i\<lparr>si_end := d\<rparr>) w
      else if f = sn_ranges n \<and> w = wire_i64 then skip_range cd w
      else if f = sn_ranges n \<and> w = wire_len then skip_ranges cd
      else skip_or cd (scan_name ''malformed message'') w)"

definition blank_info :: "'d fp \<Rightarrow> 'd scan_info" where
  "blank_info fp = \<lparr>si_timestamp = 0, si_frame_id = [], si_start = fp_zero fp, si_end = fp_zero fp, si_num_ranges = 0\<rparr>"

definition read_scan_info ::
  "'s coded \<Rightarrow> (string \<Rightarrow> 's) \<Rightarrow> 'd fp \<Rightarrow> laser_fields \<Rightarrow> string \<Rightarrow> (string + 'd scan_info) option" where
  "read_scan_info cd opened fp n =
     decode_points cd opened ''foxglove.LaserScan'' (info_top cd fp n) (blank_info fp) (\<lambda>i s. Inr i)"

subsection \<open>Every decoder returns\<close>

context consumed_stream
begin

lemma typed_sound [sound_intros]: "sound_strict v h \<Longrightarrow> sound_strict v (typed expected e h)"
  by (simp add: sound_strict_def typed_def)

lemma reader_result:
  assumes "\<And>acc. goes_on v (reader acc)" "placed v s" "cd_varint32 cd s = (Some len, s1)"
  shows "\<exists>q. reader acc len s1 = Some q \<and> (\<forall>x s'. q = Some (x, s') \<longrightarrow> forward v s s')"
proof -
  have s1: "forward v s s1" "placed v s1" using varint32_forward [OF assms(2)] forward_placed [OF _ assms(2)] assms(3) by auto
  from assms(1) s1(2) obtain q where "reader acc len s1 = Some q" "\<forall>x s'. q = Some (x, s') \<longrightarrow> forward v s1 s'"
    unfolding goes_on_def by blast
  with s1(1) show ?thesis by (blast intro: forward_trans)
qed

lemma top_sized_sound [sound_intros]:
  assumes "\<And>acc. goes_on v (reader acc)"
  shows "sound_strict v (top_sized cd e1 e2 reader put)"
  unfolding sound_strict_def
proof (intro allI impI)
  fix w acc s
  assume s: "placed v s"
  obtain n s1 where n: "cd_varint32 cd s = (n, s1)" by fastforce
  show "\<exists>q. top_sized cd e1 e2 reader put w acc s = Some q \<and> (case q of Inl e \<Rightarrow> True | Inr (acc', s') \<Rightarrow> forward v s s')"
  proof (cases n)
    case None
    with n show ?thesis by (simp add: top_sized_def)
  next
    case (Some len)
    with reader_result [where reader = reader and acc = acc and len = len, OF assms s] n obtain q where "reader acc len s1 = Some q"
        "\<forall>x s'. q = Some (x, s') \<longrightarrow> forward v s s'" by auto
    with n Some show ?thesis by (cases q) (auto simp: top_sized_def)
  qed
qed

lemma top_message_sound [sound_intros]:
  "(\<And>acc. goes_on v (reader acc)) \<Longrightarrow> sound_strict v (top_message cd e reader put)"
proof -
  assume "\<And>acc. goes_on v (reader acc)"
  then have "sound_strict v (typed wire_len e (top_sized cd e e reader put))" by (rule typed_sound [OF top_sized_sound])
  moreover have "typed wire_len e (top_sized cd e e reader put) = top_message cd e reader put"
    by (intro ext) (simp add: typed_def top_sized_def top_message_def)
  ultimately show ?thesis by simp
qed

lemma top_double_sound [sound_intros]: "sound_strict v (top_double cd fp e put)"
  using fixed64_forward by (auto simp: sound_strict_def top_double_def split: option.splits prod.splits) (metis snd_conv)+

lemma top_span_sound [sound_intros]: "sound_strict v (top_span cd e1 e2 e3 put)"
  unfolding sound_strict_def
proof (intro allI impI)
  fix w acc s
  assume s: "placed v s"
  obtain n s1 where n: "cd_varint32 cd s = (n, s1)" by fastforce
  obtain d s2 where d: "cd_direct cd s1 = (d, s2)" by fastforce
  obtain b s3 where b: "cd_skip cd (as_int (the n)) s2 = (b, s3)" by fastforce
  have s1: "forward v s s1" "placed v s1" using varint32_forward [OF s] forward_placed [OF _ s] n by auto
  have s2: "forward v s1 s2" "placed v s2" using direct_forward [OF s1(2)] forward_placed [OF _ s1(2)] d by auto
  have "forward v s2 s3" using skip_forward [OF s2(2)] b by (metis snd_conv)
  with s1 s2 have "forward v s s3" by (blast intro: forward_trans)
  with n d b s1 show "\<exists>q. top_span cd e1 e2 e3 put w acc s = Some q \<and> (case q of Inl e \<Rightarrow> True | Inr (acc', s') \<Rightarrow> forward v s s')"
    by (cases b) (auto simp: top_span_def split: option.splits)
qed

lemma strict_string_sound' [sound_intros]: "sound_strict v (strict_string cd e get put)"
  by (rule strict_string_sound)

lemma unchecked_nested_goes_on:
  assumes "\<And>f. sound_strict v (handle f)"
  shows "goes_on v (unchecked_nested cd handle acc)"
  unfolding goes_on_def
proof (intro allI impI)
  fix len s
  assume s: "placed v s"
  obtain l s1 where p: "cd_push cd (as_int len) s = (l, s1)" by fastforce
  note s1 = push_limit [OF s p]
  then have "placed v s1" using s by (auto simp: placed_def)
  from strict_fields_result [where handle = handle, OF assms this, of acc] obtain r where
    r: "strict_fields cd handle acc s1 = Some r" "\<forall>x s'. r = Inr (x, s') \<longrightarrow> forward v s1 s'" by blast
  have "forward v s (cd_pop cd l s2)" if "r = Inr (x, s2)" for x s2
  proof -
    from r(2) that have "forward v s1 s2" by blast
    then have "vw_pos v s2 \<le> vw_lim v s" "vw_pos v s \<le> vw_pos v s2" "vw_whole v s2 = vw_whole v s"
      using s1 s by (auto simp: forward_def placed_def split: if_splits)
    with pop_limit [of s2 "vw_lim v s"] s1 s show ?thesis by (auto simp: forward_def placed_def)
  qed
  with r(1) p show "\<exists>q. unchecked_nested cd handle acc len s = Some q \<and> (\<forall>x s'. q = Some (x, s') \<longrightarrow> forward v s s')"
    by (auto simp: unchecked_nested_def split: sum.splits)
qed

lemma read_pose_identity_goes_on: "goes_on v (read_pose_identity cd fp one eq)"
proof -
  have slot: "sound_strict v (slot_field cd fp slots f)" for slots :: "('b \<Rightarrow> 'c \<Rightarrow> 'c) list" and f and fp :: "'b fp"
    unfolding slot_field_def by (intro sound_intros)
  have "goes_on v (unchecked_nested cd (identity_field cd fp) (identity_pose fp one))"
    unfolding identity_field_def
    by (intro unchecked_nested_goes_on sound_strict_if message_or_sound skip_or_sound slot)
  then show ?thesis by (fastforce simp: goes_on_def read_pose_identity_def map_strict_def)
qed

lemma read_doubles_forward: "placed v s \<Longrightarrow> read_doubles cd fp n out s = Some (xs, s') \<Longrightarrow> forward v s s'"
proof (induction n arbitrary: out s)
  case (Suc n)
  obtain d s1 where d: "cd_fixed64 cd s = (d, s1)" by fastforce
  then have s1: "forward v s s1" using fixed64_forward [OF Suc.prems(1)] by simp
  show ?case
  proof (cases d)
    case None
    then show ?thesis using d Suc.prems by simp
  next
    case (Some b)
    with d Suc.prems have "read_doubles cd fp n (out @ [fp_of_bits fp b]) s1 = Some (xs, s')" by simp
    from Suc.IH [OF forward_placed [OF s1 Suc.prems(1)] this] s1 show ?thesis by (blast intro: forward_trans)
  qed
qed (simp add: forward_refl)

lemma top_doubles_sound [sound_intros]: "sound_strict v (top_doubles cd fp e get put)"
  unfolding sound_strict_def
proof (intro allI impI)
  fix w acc s
  assume s: "placed v s"
  obtain d s1 where d: "cd_fixed64 cd s = (d, s1)" by fastforce
  then have d1: "forward v s s1" using fixed64_forward [OF s] by simp
  obtain n s2 where n: "cd_varint32 cd s = (n, s2)" by fastforce
  then have s2: "forward v s s2" "placed v s2" using varint32_forward [OF s] forward_placed [OF _ s] by auto
  have "forward v s s'" if r: "repeated_double cd fp w out s = Some (xs, s')" for out xs s'
  proof (cases "w = wire_i64")
    case True
    with r d d1 show ?thesis by (auto simp: repeated_double_def split: option.splits)
  next
    case False
    with r n obtain len where len: "n = Some len" by (auto simp: repeated_double_def split: option.splits if_splits)
    obtain l s3 where p: "cd_push cd (as_int len) s2 = (l, s3)" by fastforce
    note s3 = push_limit [OF s2(2) p]
    then have "placed v s3" using s2(2) by (auto simp: placed_def)
    from r False n len p obtain s4 where s4: "read_doubles cd fp (len div 8) out s3 = Some (xs, s4)" "s' = cd_pop cd l s4"
      by (auto simp: repeated_double_def split: if_splits)
    from read_doubles_forward [OF \<open>placed v s3\<close> s4(1)] s3 s2(2)
    have "vw_pos v s4 \<le> vw_lim v s2" "vw_pos v s2 \<le> vw_pos v s4" "vw_whole v s4 = vw_whole v s2"
      by (auto simp: forward_def placed_def split: if_splits)
    with pop_limit [of s4 "vw_lim v s2"] s3 s2(2) s4(2) have "forward v s2 s'" by (auto simp: forward_def placed_def)
    with s2(1) show ?thesis by (rule forward_trans)
  qed
  then show "\<exists>r. top_doubles cd fp e get put w acc s = Some r \<and> (case r of Inl e \<Rightarrow> True | Inr (acc', s') \<Rightarrow> forward v s s')"
    by (auto simp: top_doubles_def split: option.splits)
qed

lemma grid_top_sound: "sound_strict v (grid_top cd fp one pf n f)"
  unfolding grid_top_def by (intro sound_intros)

lemma voxel_top_sound: "sound_strict v (voxel_top cd fp one pf n f)"
  unfolding voxel_top_def by (intro sound_intros)

lemma cloud_top_sound: "sound_strict v (cloud_top cd fp one eq pf n f)"
  unfolding cloud_top_def
  by (intro sound_strict_if typed_sound top_message_sound strict_string_sound strict_fixed32_sound top_span_sound top_sized_sound
      skip_or_sound read_pose_identity_goes_on sound_sub_goes_on [OF packed_element_sound] sound_sub_goes_on [OF wire_timestamp_sound])

lemma scan_top_sound: "sound_strict v (scan_top cd fp one eq n f)"
  unfolding scan_top_def
  by (intro sound_strict_if typed_sound top_message_sound strict_string_sound top_double_sound top_doubles_sound top_sized_sound
      skip_or_sound read_pose_identity_goes_on sound_sub_goes_on [OF wire_timestamp_sound])

lemma info_top_sound: "sound_strict v (info_top cd fp n f)"
proof -
  have ranges: "sound_strict v (\<lambda>w. skip_ranges cd :: 'b scan_info \<Rightarrow> _)"
    unfolding sound_strict_def
  proof (intro allI impI)
    fix w :: nat and i :: "'b scan_info" and s
    assume s: "placed v s"
    obtain len s1 where l: "cd_varint32 cd s = (len, s1)" by fastforce
    obtain ok s2 where k: "cd_skip cd (as_int (the len)) s1 = (ok, s2)" by fastforce
    have s1: "forward v s s1" "placed v s1" using varint32_forward [OF s] forward_placed [OF _ s] l by auto
    have "forward v s1 s2" using skip_forward [OF s1(2)] k by (metis snd_conv)
    with s1 have "forward v s s2" by (blast intro: forward_trans)
    with l k show "\<exists>r. skip_ranges cd i s = Some r \<and> (case r of Inl e \<Rightarrow> True | Inr (acc', s') \<Rightarrow> forward v s s')"
      by (cases ok) (auto simp: skip_ranges_def Let_def split: option.splits)
  qed
  have range: "sound_strict v (skip_range cd :: _ \<Rightarrow> 'b scan_info \<Rightarrow> _)"
    using skip_checked_forward by (auto simp: sound_strict_def skip_range_def split: bool.splits prod.splits) (metis snd_conv)+
  show ?thesis
    unfolding info_top_def
    by (intro sound_strict_cond top_message_sound strict_string_sound top_double_sound skip_or_sound range ranges
        sound_sub_goes_on [OF wire_timestamp_sound])
qed

lemma decode_points_ends:
  "(\<And>f. sound_strict v (handle f)) \<Longrightarrow> placed v (opened data) \<Longrightarrow>
    \<exists>r. decode_points cd opened what handle init finish data = Some r"
  using strict_fields_ends [of handle "opened data" init] by (auto simp: decode_points_def)

end

end
