(* ===== verification/FoxScene.thy ===== *)
theory FoxScene
  imports FoxObjects
begin

section \<open>Annotations and scenes (parser_protobuf/foxglove_object_codecs.cpp)\<close>

text \<open>
  The lenient readers of annotations and of the primitives of a scene, and the two messages that hold them.
  An annotation is read together with its own timestamp, of which the message keeps the first that is not
  zero. The type of a line is kept as the number read. Facts shown: every nested reader ends at the end of
  its submessage whatever the bytes are, and the two decoders return.
\<close>

subsection \<open>Annotations\<close>

datatype topology = TopoPoints | TopoLineLoop | TopoLineStrip | TopoLineList

record 'd circle =
  ci_center :: "'d point2"
  ci_radius :: 'd
  ci_thickness :: 'd
  ci_fill :: rgba
  ci_color :: rgba

record 'd points_annotation =
  pa_topology :: topology
  pa_points :: "'d point2 list"
  pa_color :: rgba
  pa_colors :: "rgba list"
  pa_fill :: rgba
  pa_thickness :: 'd

record 'd text_annotation =
  ta_position :: "'d point2"
  ta_text :: string
  ta_font_size :: 'd
  ta_color :: rgba

record 'd annotations =
  an_timestamp :: int
  an_circles :: "'d circle list"
  an_points :: "'d points_annotation list"
  an_texts :: "'d text_annotation list"

subsection \<open>Scenes\<close>

record 'd arrow =
  ar_pose :: "'d pose"
  ar_shaft_length :: 'd
  ar_shaft_diameter :: 'd
  ar_head_length :: 'd
  ar_head_diameter :: 'd
  ar_color :: rgba

record 'd box =
  bx_pose :: "'d pose"
  bx_size :: "'d vec3"
  bx_color :: rgba

record 'd cylinder =
  cy_pose :: "'d pose"
  cy_size :: "'d vec3"
  cy_bottom_scale :: 'd
  cy_top_scale :: 'd
  cy_color :: rgba

record 'd line_primitive =
  ln_type :: nat
  ln_pose :: "'d pose"
  ln_thickness :: 'd
  ln_scale_invariant :: bool
  ln_points :: "'d vec3 list"
  ln_color :: rgba
  ln_colors :: "rgba list"
  ln_indices :: "nat list"

record 'd triangles =
  tr_pose :: "'d pose"
  tr_points :: "'d vec3 list"
  tr_color :: rgba
  tr_colors :: "rgba list"
  tr_indices :: "nat list"

record 'd text_primitive =
  tx_pose :: "'d pose"
  tx_billboard :: bool
  tx_font_size :: 'd
  tx_scale_invariant :: bool
  tx_color :: rgba
  tx_text :: string

record 'd model =
  mo_pose :: "'d pose"
  mo_scale :: "'d vec3"
  mo_color :: rgba
  mo_override_color :: bool
  mo_url :: string
  mo_media_type :: string
  mo_data :: string

record 'd entity =
  en_timestamp :: int
  en_frame_id :: string
  en_id :: string
  en_lifetime_ns :: int
  en_frame_locked :: bool
  en_arrows :: "'d arrow list"
  en_cubes :: "'d box list"
  en_spheres :: "'d box list"
  en_cylinders :: "'d cylinder list"
  en_lines :: "'d line_primitive list"
  en_triangles :: "'d triangles list"
  en_texts :: "'d text_primitive list"
  en_models :: "'d model list"

record 'd scene_sdk = "'d sdk" +
  sd_circle :: "'d circle"
  sd_points_annotation :: "'d points_annotation"
  sd_text_annotation :: "'d text_annotation"
  sd_arrow :: "'d arrow"
  sd_cube :: "'d box"
  sd_sphere :: "'d box"
  sd_cylinder :: "'d cylinder"
  sd_line :: "'d line_primitive"
  sd_triangle :: "'d triangles"
  sd_text :: "'d text_primitive"
  sd_model :: "'d model"
  sd_entity :: "'d entity"

subsection \<open>Reading annotations\<close>

definition sdk_of :: "'d scene_sdk \<Rightarrow> 'd sdk" where "sdk_of = sdk.truncate"

text \<open>The annotation and its timestamp; \<open>on_left\<close> stores into the annotation.\<close>

definition on_left :: "('b \<Rightarrow> 'a \<Rightarrow> 'a) \<Rightarrow> 'b \<Rightarrow> 'a \<times> 't \<Rightarrow> 'a \<times> 't" where
  "on_left put x = (\<lambda>(a, t). (put x a, t))"

definition own_timestamp :: "'s coded \<Rightarrow> nat \<Rightarrow> 'a \<times> int \<Rightarrow> 's \<Rightarrow> (bool \<times> ('a \<times> int) \<times> 's) option" where
  "own_timestamp cd = field_message cd (read_timestamp_ns cd) (\<lambda>t (a, ts). (a, t))"

definition circle_field :: "'s coded \<Rightarrow> 'd fp \<Rightarrow> 'd scene_sdk \<Rightarrow> ('s, 'd circle \<times> int) handler" where
  "circle_field cd fp sd f =
     (if f = 1 then own_timestamp cd
      else if f = 2 then field_message cd (read_point_xy cd fp (sdk_of sd)) (on_left (\<lambda>x c. c\<lparr>ci_center := x\<rparr>))
      else if f = 5 then field_message cd (read_color cd fp) (on_left (\<lambda>x c. c\<lparr>ci_fill := x\<rparr>))
      else if f = 6 then field_message cd (read_color cd fp) (on_left (\<lambda>x c. c\<lparr>ci_color := x\<rparr>))
      else if f = 3 then field_double cd (fp_of_bits fp) (on_left (\<lambda>d c. c\<lparr>ci_radius := fp_half fp d\<rparr>))
      else if f = 4 then field_double cd (fp_of_bits fp) (on_left (\<lambda>d c. c\<lparr>ci_thickness := d\<rparr>))
      else (\<lambda>w. decline))"

definition read_circle :: "'s coded \<Rightarrow> 'd fp \<Rightarrow> 'd scene_sdk \<Rightarrow> int \<Rightarrow> ('s, 'd circle \<times> int) reader" where
  "read_circle cd fp sd ts = scan_sub cd (circle_field cd fp sd) (sd_circle sd, ts)"

definition topology_of :: "nat \<Rightarrow> topology" where
  "topology_of t = (if t = 2 then TopoLineLoop else if t = 3 then TopoLineStrip else if t = 4 then TopoLineList else TopoPoints)"

definition points_field :: "'s coded \<Rightarrow> 'd fp \<Rightarrow> 'd scene_sdk \<Rightarrow> ('s, 'd points_annotation \<times> int) handler" where
  "points_field cd fp sd f =
     (if f = 1 then own_timestamp cd
      else if f = 3 then field_repeated cd (read_point_xy cd fp (sdk_of sd)) (on_left (\<lambda>x a. a\<lparr>pa_points := pa_points a @ [x]\<rparr>))
      else if f = 4 then field_message cd (read_color cd fp) (on_left (\<lambda>x a. a\<lparr>pa_color := x\<rparr>))
      else if f = 5 then field_repeated cd (read_color cd fp) (on_left (\<lambda>x a. a\<lparr>pa_colors := pa_colors a @ [x]\<rparr>))
      else if f = 6 then field_message cd (read_color cd fp) (on_left (\<lambda>x a. a\<lparr>pa_fill := x\<rparr>))
      else if f = 2 then field_varint cd (on_left (\<lambda>t a. a\<lparr>pa_topology := topology_of t\<rparr>))
      else if f = 7 then field_double cd (fp_of_bits fp) (on_left (\<lambda>d a. a\<lparr>pa_thickness := d\<rparr>))
      else (\<lambda>w. decline))"

definition read_points_annotation :: "'s coded \<Rightarrow> 'd fp \<Rightarrow> 'd scene_sdk \<Rightarrow> int \<Rightarrow> ('s, 'd points_annotation \<times> int) reader" where
  "read_points_annotation cd fp sd ts = scan_sub cd (points_field cd fp sd) (sd_points_annotation sd, ts)"

definition text_annotation_field :: "'s coded \<Rightarrow> 'd fp \<Rightarrow> 'd scene_sdk \<Rightarrow> ('s, 'd text_annotation \<times> int) handler" where
  "text_annotation_field cd fp sd f =
     (if f = 1 then own_timestamp cd
      else if f = 2 then field_message cd (read_point_xy cd fp (sdk_of sd)) (on_left (\<lambda>x a. a\<lparr>ta_position := x\<rparr>))
      else if f = 3 then field_string cd (\<lambda>(a, t). ta_text a) (on_left (\<lambda>x a. a\<lparr>ta_text := x\<rparr>))
      else if f = 5 then field_message cd (read_color cd fp) (on_left (\<lambda>x a. a\<lparr>ta_color := x\<rparr>))
      else if f = 4 then field_double cd (fp_of_bits fp) (on_left (\<lambda>d a. a\<lparr>ta_font_size := d\<rparr>))
      else (\<lambda>w. decline))"

definition read_text_annotation :: "'s coded \<Rightarrow> 'd fp \<Rightarrow> 'd scene_sdk \<Rightarrow> int \<Rightarrow> ('s, 'd text_annotation \<times> int) reader" where
  "read_text_annotation cd fp sd ts = scan_sub cd (text_annotation_field cd fp sd) (sd_text_annotation sd, ts)"

record annotation_fields =
  af_circles :: nat
  af_points :: nat
  af_texts :: nat

definition resolve_annotations :: "'m find_field \<Rightarrow> 'm option \<Rightarrow> annotation_fields" where
  "resolve_annotations look d =
     \<lparr>af_circles = field_number_or look d ''circles'' 1, af_points = field_number_or look d ''points'' 2,
      af_texts = field_number_or look d ''texts'' 3\<rparr>"

text \<open>A top-level field of submessages; when it is not one, or its length cannot be read, the next test follows.\<close>

definition lax_message ::
  "'s coded \<Rightarrow> bool \<Rightarrow> ('s, 'b) reader \<Rightarrow> ('b \<Rightarrow> 'a \<Rightarrow> 'a) \<Rightarrow>
   (nat \<Rightarrow> 'a \<Rightarrow> 's \<Rightarrow> (string + 'a \<times> 's) option) \<Rightarrow> nat \<Rightarrow> 'a \<Rightarrow> 's \<Rightarrow> (string + 'a \<times> 's) option" where
  "lax_message cd this reader put next w acc s =
     (if \<not> this \<or> w \<noteq> wire_len then next w acc s
      else case cd_varint32 cd s of
        (None, s) \<Rightarrow> next w acc s
      | (Some len, s) \<Rightarrow> map_option (\<lambda>(x, s). Inr (put x acc, s)) (reader len s))"

definition annotations_name :: string where "annotations_name = ''foxglove.ImageAnnotations''"

text \<open>The first timestamp that is not zero.\<close>

definition adopt :: "int \<Rightarrow> int \<Rightarrow> int" where
  "adopt ts first = (if first = 0 \<and> ts \<noteq> 0 then ts else first)"

definition annotations_top :: "'s coded \<Rightarrow> 'd fp \<Rightarrow> 'd scene_sdk \<Rightarrow> annotation_fields \<Rightarrow> ('s, 'd annotations) strict" where
  "annotations_top cd fp sd n f =
     lax_message cd (f = af_circles n) (read_circle cd fp sd 0)
       (\<lambda>(x, ts) a. a\<lparr>an_circles := an_circles a @ [x], an_timestamp := adopt ts (an_timestamp a)\<rparr>)
       (lax_message cd (f = af_points n) (read_points_annotation cd fp sd 0)
         (\<lambda>(x, ts) a. a\<lparr>an_points := an_points a @ [x], an_timestamp := adopt ts (an_timestamp a)\<rparr>)
         (lax_message cd (f = af_texts n) (read_text_annotation cd fp sd 0)
           (\<lambda>(x, ts) a. a\<lparr>an_texts := an_texts a @ [x], an_timestamp := adopt ts (an_timestamp a)\<rparr>)
           (strict_skip cd (annotations_name @ '': malformed''))))"

definition deserialize_annotations ::
  "'s coded \<Rightarrow> (string \<Rightarrow> 's) \<Rightarrow> 'd fp \<Rightarrow> 'd scene_sdk \<Rightarrow> annotation_fields \<Rightarrow> string \<Rightarrow> (string + 'd annotations) option" where
  "deserialize_annotations cd opened fp sd n =
     decode_message cd opened annotations_name (annotations_top cd fp sd n)
       \<lparr>an_timestamp = 0, an_circles = [], an_points = [], an_texts = []\<rparr> id"

subsection \<open>Reading a scene\<close>

definition arrow_field :: "'s coded \<Rightarrow> 'd fp \<Rightarrow> 'd scene_sdk \<Rightarrow> ('s, 'd arrow) handler" where
  "arrow_field cd fp sd f =
     (if f = 1 then field_message cd (read_pose cd fp (sdk_of sd)) (\<lambda>x a. a\<lparr>ar_pose := x\<rparr>)
      else if f = 6 then field_message cd (read_color cd fp) (\<lambda>x a. a\<lparr>ar_color := x\<rparr>)
      else if f = 2 then field_double cd (fp_of_bits fp) (\<lambda>d a. a\<lparr>ar_shaft_length := d\<rparr>)
      else if f = 3 then field_double cd (fp_of_bits fp) (\<lambda>d a. a\<lparr>ar_shaft_diameter := d\<rparr>)
      else if f = 4 then field_double cd (fp_of_bits fp) (\<lambda>d a. a\<lparr>ar_head_length := d\<rparr>)
      else if f = 5 then field_double cd (fp_of_bits fp) (\<lambda>d a. a\<lparr>ar_head_diameter := d\<rparr>)
      else (\<lambda>w. decline))"

definition read_arrow :: "'s coded \<Rightarrow> 'd fp \<Rightarrow> 'd scene_sdk \<Rightarrow> ('s, 'd arrow) reader" where
  "read_arrow cd fp sd = scan_sub cd (arrow_field cd fp sd) (sd_arrow sd)"

definition box_field :: "'s coded \<Rightarrow> 'd fp \<Rightarrow> 'd scene_sdk \<Rightarrow> ('s, 'd box) handler" where
  "box_field cd fp sd f =
     (if f = 1 then field_message cd (read_pose cd fp (sdk_of sd)) (\<lambda>x a. a\<lparr>bx_pose := x\<rparr>)
      else if f = 2 then field_message cd (read_vector3 cd fp (sdk_of sd)) (\<lambda>x a. a\<lparr>bx_size := x\<rparr>)
      else if f = 3 then field_message cd (read_color cd fp) (\<lambda>x a. a\<lparr>bx_color := x\<rparr>)
      else (\<lambda>w. decline))"

definition read_box_like :: "'s coded \<Rightarrow> 'd fp \<Rightarrow> 'd scene_sdk \<Rightarrow> 'd box \<Rightarrow> ('s, 'd box) reader" where
  "read_box_like cd fp sd prim = scan_sub cd (box_field cd fp sd) prim"

definition cylinder_field :: "'s coded \<Rightarrow> 'd fp \<Rightarrow> 'd scene_sdk \<Rightarrow> ('s, 'd cylinder) handler" where
  "cylinder_field cd fp sd f =
     (if f = 1 then field_message cd (read_pose cd fp (sdk_of sd)) (\<lambda>x a. a\<lparr>cy_pose := x\<rparr>)
      else if f = 2 then field_message cd (read_vector3 cd fp (sdk_of sd)) (\<lambda>x a. a\<lparr>cy_size := x\<rparr>)
      else if f = 5 then field_message cd (read_color cd fp) (\<lambda>x a. a\<lparr>cy_color := x\<rparr>)
      else if f = 3 then field_double cd (fp_of_bits fp) (\<lambda>d a. a\<lparr>cy_bottom_scale := d\<rparr>)
      else if f = 4 then field_double cd (fp_of_bits fp) (\<lambda>d a. a\<lparr>cy_top_scale := d\<rparr>)
      else (\<lambda>w. decline))"

definition read_cylinder :: "'s coded \<Rightarrow> 'd fp \<Rightarrow> 'd scene_sdk \<Rightarrow> ('s, 'd cylinder) reader" where
  "read_cylinder cd fp sd =
     scan_sub cd (cylinder_field cd fp sd) ((sd_cylinder sd)\<lparr>cy_bottom_scale := fp_zero fp, cy_top_scale := fp_zero fp\<rparr>)"

definition line_field :: "'s coded \<Rightarrow> 'd fp \<Rightarrow> 'd scene_sdk \<Rightarrow> ('s, 'd line_primitive) handler" where
  "line_field cd fp sd f =
     (if f = 2 then field_message cd (read_pose cd fp (sdk_of sd)) (\<lambda>x a. a\<lparr>ln_pose := x\<rparr>)
      else if f = 5 then field_repeated cd (read_point3 cd fp (sdk_of sd)) (\<lambda>x a. a\<lparr>ln_points := ln_points a @ [x]\<rparr>)
      else if f = 6 then field_message cd (read_color cd fp) (\<lambda>x a. a\<lparr>ln_color := x\<rparr>)
      else if f = 7 then field_repeated cd (read_color cd fp) (\<lambda>x a. a\<lparr>ln_colors := ln_colors a @ [x]\<rparr>)
      else if f = 8 then field_packed cd (read_packed_fixed32 cd) (\<lambda>xs a. a\<lparr>ln_indices := ln_indices a @ xs\<rparr>)
      else if f = 1 then field_varint cd (\<lambda>t a. a\<lparr>ln_type := t\<rparr>)
      else if f = 3 then field_double cd (fp_of_bits fp) (\<lambda>d a. a\<lparr>ln_thickness := d\<rparr>)
      else if f = 4 then field_varint cd (\<lambda>n a. a\<lparr>ln_scale_invariant := (n \<noteq> 0)\<rparr>)
      else (\<lambda>w. decline))"

definition read_line :: "'s coded \<Rightarrow> 'd fp \<Rightarrow> 'd scene_sdk \<Rightarrow> ('s, 'd line_primitive) reader" where
  "read_line cd fp sd = scan_sub cd (line_field cd fp sd) (sd_line sd)"

definition triangle_field :: "'s coded \<Rightarrow> 'd fp \<Rightarrow> 'd scene_sdk \<Rightarrow> ('s, 'd triangles) handler" where
  "triangle_field cd fp sd f =
     (if f = 1 then field_message cd (read_pose cd fp (sdk_of sd)) (\<lambda>x a. a\<lparr>tr_pose := x\<rparr>)
      else if f = 2 then field_repeated cd (read_point3 cd fp (sdk_of sd)) (\<lambda>x a. a\<lparr>tr_points := tr_points a @ [x]\<rparr>)
      else if f = 3 then field_message cd (read_color cd fp) (\<lambda>x a. a\<lparr>tr_color := x\<rparr>)
      else if f = 4 then field_repeated cd (read_color cd fp) (\<lambda>x a. a\<lparr>tr_colors := tr_colors a @ [x]\<rparr>)
      else if f = 5 then field_packed cd (read_packed_fixed32 cd) (\<lambda>xs a. a\<lparr>tr_indices := tr_indices a @ xs\<rparr>)
      else (\<lambda>w. decline))"

definition read_triangle :: "'s coded \<Rightarrow> 'd fp \<Rightarrow> 'd scene_sdk \<Rightarrow> ('s, 'd triangles) reader" where
  "read_triangle cd fp sd = scan_sub cd (triangle_field cd fp sd) (sd_triangle sd)"

definition text_field :: "'s coded \<Rightarrow> 'd fp \<Rightarrow> 'd scene_sdk \<Rightarrow> ('s, 'd text_primitive) handler" where
  "text_field cd fp sd f =
     (if f = 1 then field_message cd (read_pose cd fp (sdk_of sd)) (\<lambda>x a. a\<lparr>tx_pose := x\<rparr>)
      else if f = 5 then field_message cd (read_color cd fp) (\<lambda>x a. a\<lparr>tx_color := x\<rparr>)
      else if f = 6 then field_string cd tx_text (\<lambda>x a. a\<lparr>tx_text := x\<rparr>)
      else if f = 3 then field_double cd (fp_of_bits fp) (\<lambda>d a. a\<lparr>tx_font_size := d\<rparr>)
      else if f = 2 then field_varint cd (\<lambda>n a. a\<lparr>tx_billboard := (n \<noteq> 0)\<rparr>)
      else if f = 4 then field_varint cd (\<lambda>n a. a\<lparr>tx_scale_invariant := (n \<noteq> 0)\<rparr>)
      else (\<lambda>w. decline))"

definition read_text :: "'s coded \<Rightarrow> 'd fp \<Rightarrow> 'd scene_sdk \<Rightarrow> ('s, 'd text_primitive) reader" where
  "read_text cd fp sd = scan_sub cd (text_field cd fp sd) (sd_text sd)"

definition model_field :: "'s coded \<Rightarrow> 'd fp \<Rightarrow> 'd scene_sdk \<Rightarrow> ('s, 'd model) handler" where
  "model_field cd fp sd f =
     (if f = 1 then field_message cd (read_pose cd fp (sdk_of sd)) (\<lambda>x a. a\<lparr>mo_pose := x\<rparr>)
      else if f = 2 then field_message cd (read_vector3 cd fp (sdk_of sd)) (\<lambda>x a. a\<lparr>mo_scale := x\<rparr>)
      else if f = 3 then field_message cd (read_color cd fp) (\<lambda>x a. a\<lparr>mo_color := x\<rparr>)
      else if f = 5 then field_string cd mo_url (\<lambda>x a. a\<lparr>mo_url := x\<rparr>)
      else if f = 6 then field_string cd mo_media_type (\<lambda>x a. a\<lparr>mo_media_type := x\<rparr>)
      else if f = 7 then field_bytes cd mo_data (\<lambda>x a. a\<lparr>mo_data := x\<rparr>)
      else if f = 4 then field_varint cd (\<lambda>n a. a\<lparr>mo_override_color := (n \<noteq> 0)\<rparr>)
      else (\<lambda>w. decline))"

definition read_model :: "'s coded \<Rightarrow> 'd fp \<Rightarrow> 'd scene_sdk \<Rightarrow> ('s, 'd model) reader" where
  "read_model cd fp sd = scan_sub cd (model_field cd fp sd) (sd_model sd)"

record entity_fields =
  ef_timestamp :: nat
  ef_frame_id :: nat
  ef_id :: nat
  ef_lifetime :: nat
  ef_frame_locked :: nat
  ef_arrows :: nat
  ef_cubes :: nat
  ef_spheres :: nat
  ef_cylinders :: nat
  ef_lines :: nat
  ef_triangles :: nat
  ef_texts :: nat
  ef_models :: nat

record scene_fields =
  sf_entities :: nat
  sf_entity :: entity_fields

definition resolve_entity :: "'m find_field \<Rightarrow> 'm option \<Rightarrow> entity_fields" where
  "resolve_entity look d =
     \<lparr>ef_timestamp = field_number_or look d ''timestamp'' 1, ef_frame_id = field_number_or look d ''frame_id'' 2,
      ef_id = field_number_or look d ''id'' 3, ef_lifetime = field_number_or look d ''lifetime'' 4,
      ef_frame_locked = field_number_or look d ''frame_locked'' 5, ef_arrows = field_number_or look d ''arrows'' 7,
      ef_cubes = field_number_or look d ''cubes'' 8, ef_spheres = field_number_or look d ''spheres'' 9,
      ef_cylinders = field_number_or look d ''cylinders'' 10, ef_lines = field_number_or look d ''lines'' 11,
      ef_triangles = field_number_or look d ''triangles'' 12, ef_texts = field_number_or look d ''texts'' 13,
      ef_models = field_number_or look d ''models'' 14\<rparr>"

definition resolve_scene :: "'m find_field \<Rightarrow> 'm option \<Rightarrow> scene_fields" where
  "resolve_scene look d =
     \<lparr>sf_entities = field_number_or look d ''entities'' 2,
      sf_entity = resolve_entity look (nested_descriptor look d ''entities'')\<rparr>"

definition entity_field :: "'s coded \<Rightarrow> 'd fp \<Rightarrow> 'd scene_sdk \<Rightarrow> entity_fields \<Rightarrow> ('s, 'd entity) handler" where
  "entity_field cd fp sd n f =
     (if f = ef_timestamp n then field_message cd (read_timestamp_ns cd) (\<lambda>x e. e\<lparr>en_timestamp := x\<rparr>)
      else if f = ef_frame_id n then field_string cd en_frame_id (\<lambda>x e. e\<lparr>en_frame_id := x\<rparr>)
      else if f = ef_id n then field_string cd en_id (\<lambda>x e. e\<lparr>en_id := x\<rparr>)
      else if f = ef_lifetime n then field_message cd (read_timestamp_ns cd) (\<lambda>x e. e\<lparr>en_lifetime_ns := x\<rparr>)
      else if f = ef_arrows n then field_repeated cd (read_arrow cd fp sd) (\<lambda>x e. e\<lparr>en_arrows := en_arrows e @ [x]\<rparr>)
      else if f = ef_cubes n then field_repeated cd (read_box_like cd fp sd (sd_cube sd)) (\<lambda>x e. e\<lparr>en_cubes := en_cubes e @ [x]\<rparr>)
      else if f = ef_spheres n then field_repeated cd (read_box_like cd fp sd (sd_sphere sd)) (\<lambda>x e. e\<lparr>en_spheres := en_spheres e @ [x]\<rparr>)
      else if f = ef_cylinders n then field_repeated cd (read_cylinder cd fp sd) (\<lambda>x e. e\<lparr>en_cylinders := en_cylinders e @ [x]\<rparr>)
      else if f = ef_lines n then field_repeated cd (read_line cd fp sd) (\<lambda>x e. e\<lparr>en_lines := en_lines e @ [x]\<rparr>)
      else if f = ef_triangles n then field_repeated cd (read_triangle cd fp sd) (\<lambda>x e. e\<lparr>en_triangles := en_triangles e @ [x]\<rparr>)
      else if f = ef_texts n then field_repeated cd (read_text cd fp sd) (\<lambda>x e. e\<lparr>en_texts := en_texts e @ [x]\<rparr>)
      else if f = ef_models n then field_repeated cd (read_model cd fp sd) (\<lambda>x e. e\<lparr>en_models := en_models e @ [x]\<rparr>)
      else if f = ef_frame_locked n then field_varint cd (\<lambda>k e. e\<lparr>en_frame_locked := (k \<noteq> 0)\<rparr>)
      else (\<lambda>w. decline))"

definition read_scene_entity :: "'s coded \<Rightarrow> 'd fp \<Rightarrow> 'd scene_sdk \<Rightarrow> entity_fields \<Rightarrow> ('s, 'd entity) reader" where
  "read_scene_entity cd fp sd n = scan_sub cd (entity_field cd fp sd n) (sd_entity sd)"

definition scene_name :: string where "scene_name = ''foxglove.SceneUpdate''"

definition scene_top :: "'s coded \<Rightarrow> 'd fp \<Rightarrow> 'd scene_sdk \<Rightarrow> scene_fields \<Rightarrow> ('s, 'd entity list) strict" where
  "scene_top cd fp sd n f =
     lax_message cd (f = sf_entities n) (read_scene_entity cd fp sd (sf_entity n)) (\<lambda>x es. es @ [x])
       (strict_skip cd (scene_name @ '': malformed''))"

definition deserialize_scene ::
  "'s coded \<Rightarrow> (string \<Rightarrow> 's) \<Rightarrow> 'd fp \<Rightarrow> 'd scene_sdk \<Rightarrow> scene_fields \<Rightarrow> string \<Rightarrow> (string + 'd entity list) option" where
  "deserialize_scene cd opened fp sd n = decode_message cd opened scene_name (scene_top cd fp sd n) [] id"

subsection \<open>Every reader resumes its parent at the end of its submessage\<close>

context coded_stream
begin

lemma own_timestamp_sound [sound_intros]: "sound_field v (own_timestamp cd)"
  unfolding own_timestamp_def by (intro sound_intros)

lemma read_circle_sound [sound_intros]: "sound_reader v (read_circle cd fp sd ts)"
  unfolding read_circle_def circle_field_def by (intro sound_intros)

lemma read_points_annotation_sound [sound_intros]: "sound_reader v (read_points_annotation cd fp sd ts)"
  unfolding read_points_annotation_def points_field_def by (intro sound_intros)

lemma read_text_annotation_sound [sound_intros]: "sound_reader v (read_text_annotation cd fp sd ts)"
  unfolding read_text_annotation_def text_annotation_field_def by (intro sound_intros)

lemma read_arrow_sound [sound_intros]: "sound_reader v (read_arrow cd fp sd)"
  unfolding read_arrow_def arrow_field_def by (intro sound_intros)

lemma read_box_like_sound [sound_intros]: "sound_reader v (read_box_like cd fp sd prim)"
  unfolding read_box_like_def box_field_def by (intro sound_intros)

lemma read_cylinder_sound [sound_intros]: "sound_reader v (read_cylinder cd fp sd)"
  unfolding read_cylinder_def cylinder_field_def by (intro sound_intros)

lemma read_line_sound [sound_intros]: "sound_reader v (read_line cd fp sd)"
  unfolding read_line_def line_field_def by (intro sound_intros)

lemma read_triangle_sound [sound_intros]: "sound_reader v (read_triangle cd fp sd)"
  unfolding read_triangle_def triangle_field_def by (intro sound_intros)

lemma read_text_sound [sound_intros]: "sound_reader v (read_text cd fp sd)"
  unfolding read_text_def text_field_def by (intro sound_intros)

lemma read_model_sound [sound_intros]: "sound_reader v (read_model cd fp sd)"
  unfolding read_model_def model_field_def by (intro sound_intros)

lemma read_scene_entity_sound [sound_intros]: "sound_reader v (read_scene_entity cd fp sd n)"
  unfolding read_scene_entity_def entity_field_def by (intro sound_intros)

lemma lax_message_sound [sound_intros]:
  assumes "sound_reader v reader" "sound_strict v next"
  shows "sound_strict v (lax_message cd this reader put next)"
  unfolding sound_strict_def
proof (intro allI impI)
  fix w acc s
  assume s: "placed v s"
  obtain n s1 where n: "cd_varint32 cd s = (n, s1)" by fastforce
  have s1: "forward v s s1" "placed v s1" using varint32_forward [OF s] forward_placed [OF _ s] n by auto
  from assms(2) s obtain r where r: "next w acc s = Some r" "case r of Inl e \<Rightarrow> True | Inr (acc', s') \<Rightarrow> forward v s s'"
    by (auto simp: sound_strict_def) blast
  from assms(2) s1 obtain r1 where r1: "next w acc s1 = Some r1" "case r1 of Inl e \<Rightarrow> True | Inr (acc', s') \<Rightarrow> forward v s1 s'"
    by (auto simp: sound_strict_def) blast
  show "\<exists>q. lax_message cd this reader put next w acc s = Some q \<and> (case q of Inl e \<Rightarrow> True | Inr (acc', s') \<Rightarrow> forward v s s')"
  proof (cases "\<not> this \<or> w \<noteq> wire_len")
    case True
    with r show ?thesis by (simp add: lax_message_def)
  next
    case yes: False
    show ?thesis
    proof (cases n)
      case None
      with yes n r1 s1 show ?thesis
        by (auto simp: lax_message_def split: sum.splits intro: forward_trans)
    next
      case (Some len)
      from assms(1) s1(2) obtain x s2 where "reader len s1 = Some (x, s2)" "forward v s1 s2"
        by (auto simp: sound_reader_def) blast
      with yes n Some s1 show ?thesis by (auto simp: lax_message_def intro: forward_trans)
    qed
  qed
qed

lemma scene_decoders_end:
  assumes "placed v (opened data)"
  shows "\<exists>r. deserialize_annotations cd opened fp sd an data = Some r"
    and "\<exists>r. deserialize_scene cd opened fp sd sn data = Some r"
  unfolding deserialize_annotations_def deserialize_scene_def
  by (intro decode_message_ends assms; simp only: annotations_top_def scene_top_def; intro sound_intros)+

end

end
