(* ===== verification/FoxRoundTrip.thy ===== *)
theory FoxRoundTrip
  imports FoxScene "HOL-Library.Multiset"
begin

section \<open>Foxglove messages read back (parser_protobuf/foxglove_object_codecs.cpp)\<close>

text \<open>
  The wire format as protobuf documents it, written out for a transform with the fields a proto3 writer omits,
  and the decoder of the transform on it, over the stream of bytes. Facts shown: every reader of a nested message resumes
  its parent at the end of the submessage; a transform written with any distinct field numbers, in any order of its fields and with unknown ones, is
  read back, whatever it omits because it is zero; a zero tag ends a message as if it were complete.
\<close>

subsection \<open>The wire format\<close>

function enc_varint :: "nat \<Rightarrow> string" where
  "enc_varint n = (if n < 128 then [char_of n] else char_of (128 + n mod 128) # enc_varint (n div 128))"
  by pat_completeness auto
termination by (relation "measure id") auto

declare enc_varint.simps [simp del]

primrec enc_fixed :: "nat \<Rightarrow> nat \<Rightarrow> string" where
  "enc_fixed 0 n = []"
| "enc_fixed (Suc k) n = char_of (n mod 256) # enc_fixed k (n div 256)"

definition enc_tag :: "nat \<Rightarrow> nat \<Rightarrow> string" where
  "enc_tag f w = enc_varint (8 * f + w)"

definition enc_sub :: "nat \<Rightarrow> string \<Rightarrow> string" where
  "enc_sub f body = enc_tag f wire_len @ enc_varint (length body) @ body"

text \<open>A writer of proto3 omits a double whose bits are zero and an integer that is zero.\<close>

definition enc_double :: "nat \<Rightarrow> nat \<Rightarrow> string" where
  "enc_double f bits = (if bits = 0 then [] else enc_tag f wire_i64 @ enc_fixed 8 bits)"

definition enc_int :: "nat \<Rightarrow> int \<Rightarrow> string" where
  "enc_int f i = (if i = 0 then [] else enc_tag f wire_varint @ enc_varint (nat (i mod 2 ^ 64)))"

lemma of_char_small: "n < 256 \<Longrightarrow> (of_char (char_of n :: char) :: nat) = n"
  by simp

lemma varint_of_enc: "n < 128 ^ Suc k \<Longrightarrow> varint_of (Suc k) (enc_varint n @ r) = Some (n, length (enc_varint n))"
proof (induction k arbitrary: n)
  case 0
  then show ?case by (simp add: enc_varint.simps [of n] of_char_small)
next
  case (Suc k)
  show ?case
  proof (cases "n < 128")
    case True
    then show ?thesis by (simp add: enc_varint.simps [of n] of_char_small)
  next
    case False
    have "n div 128 < 128 ^ Suc k" using Suc.prems by (simp add: less_mult_imp_div_less mult.commute)
    from Suc.IH [OF this] have v: "varint_of (Suc k) (enc_varint (n div 128) @ r) = Some (n div 128, length (enc_varint (n div 128)))" .
    have "128 + n mod 128 < 256" by simp
    then have "(of_char (char_of (128 + n mod 128) :: char) :: nat) = 128 + n mod 128" by (rule of_char_small)
    with False v show ?thesis by (simp add: enc_varint.simps [of n] del: of_char_of)
  qed
qed

lemma enc_fixed_length [simp]: "length (enc_fixed k n) = k"
  by (induction k arbitrary: n) auto

lemma little_endian_enc: "n < 256 ^ k \<Longrightarrow> little_endian (enc_fixed k n) = n"
proof (induction k arbitrary: n)
  case (Suc k)
  then have "n div 256 < 256 ^ k" by (simp add: less_mult_imp_div_less mult.commute)
  from Suc.IH [OF this] show ?case by simp
qed simp

subsection \<open>Streams that hold given bytes\<close>

definition holds :: "byte_stream \<Rightarrow> string \<Rightarrow> bool" where
  "holds s r \<longleftrightarrow> placed byte_view s \<and> \<not> bs_ended s \<and> bytes_left s = r"

definition after :: "nat \<Rightarrow> byte_stream \<Rightarrow> byte_stream" where
  "after n s = s\<lparr>bs_pos := bs_pos s + n\<rparr>"

lemma after_after [simp]: "after m (after n s) = after (n + m) s"
  by (simp add: after_def)

lemma holds_left: "holds s r \<Longrightarrow> bytes_left s = r"
  by (simp add: holds_def)

lemma holds_after: "holds s (e @ r) \<Longrightarrow> holds (after (length e) s) r"
proof -
  assume h: "holds s (e @ r)"
  then have l: "length e \<le> bs_lim s - bs_pos s" using bytes_left_length [of s] by (simp add: holds_def)
  have p: "bs_pos s \<le> bs_lim s" "bs_lim s \<le> length (bs_whole s)" using h by (auto simp: holds_def placed_def)
  have "bytes_left (after (length e) s) = drop (length e) (bytes_left s)"
    by (simp add: bytes_left_def after_def Prelude.slice_def drop_take add.commute)
  with h l p show ?thesis by (auto simp: holds_def placed_def after_def)
qed

lemma advance_after: "holds s (e @ r) \<Longrightarrow> advance (length e) s = after (length e) s"
  using bytes_left_length [of s] by (auto simp: holds_def advance_def after_def placed_def)

lemma read_varint_holds:
  "holds s (enc_varint n @ r) \<Longrightarrow> n < 2 ^ bits \<Longrightarrow> n < 2 ^ 64 \<Longrightarrow>
    read_varint bits s = (Some n, after (length (enc_varint n)) s)"
  using varint_of_enc [of n 9 r] advance_after [of s "enc_varint n" r]
  by (simp add: read_varint_def holds_left)

lemma read_fixed_holds:
  "holds s (enc_fixed k n @ r) \<Longrightarrow> n < 256 ^ k \<Longrightarrow> read_fixed k s = (Some n, after k s)"
  using advance_after [of s "enc_fixed k n" r] by (simp add: read_fixed_def holds_left little_endian_enc)

lemma read_exact_holds:
  "holds s (e @ r) \<Longrightarrow> read_exact (int (length e)) s = (Some e, after (length e) s)"
  using advance_after [of s e r] by (simp add: read_exact_def holds_left)

lemma enc_varint_nonempty [simp]: "enc_varint n \<noteq> []"
  by (subst enc_varint.simps) simp

lemma after_ended [simp]: "holds s r \<Longrightarrow> (after n s)\<lparr>bs_ended := False\<rparr> = after n s"
  by (cases s) (simp add: holds_def after_def)

lemma read_tag_holds:
  assumes "holds s (enc_tag f w @ r)" "0 < f" "f < 2 ^ 29" "w < 8"
  shows "cd_tag byte_coded s = (8 * f + w, after (length (enc_tag f w)) s)"
proof -
  have "8 * f + w < 2 ^ 32" using assms by simp
  with read_varint_holds [of s "8 * f + w" r 32] assms(1) show ?thesis
    by (simp add: byte_coded_def enc_tag_def holds_left)
qed

lemma tag_parts: "w < 8 \<Longrightarrow> field_of (8 * f + w) = f \<and> wire_of (8 * f + w) = w"
  by (simp add: field_of_def wire_of_def)

subsection \<open>Fields and messages\<close>

definition claims :: "(nat \<Rightarrow> 'a \<Rightarrow> byte_stream \<Rightarrow> (bool \<times> 'a \<times> byte_stream) option) \<Rightarrow> nat \<Rightarrow> string \<Rightarrow> 'a \<Rightarrow> 'a \<Rightarrow> bool" where
  "claims h w e acc acc' \<longleftrightarrow> (\<forall>s r. holds s (e @ r) \<longrightarrow> h w acc s = Some (True, acc', after (length e) s))"

definition consumes :: "(byte_stream, 'a) handler \<Rightarrow> string \<Rightarrow> 'a \<Rightarrow> 'a \<Rightarrow> bool" where
  "consumes h e acc acc' \<longleftrightarrow>
     (\<forall>s r. holds s (e @ r) \<longrightarrow> scan_fields byte_coded h acc s = scan_fields byte_coded h acc' (after (length e) s))"

definition reads_as :: "(byte_stream, 'a) reader \<Rightarrow> string \<Rightarrow> 'a \<Rightarrow> bool" where
  "reads_as reader e x \<longleftrightarrow> (\<forall>s r. holds s (e @ r) \<longrightarrow> reader (length e) s = Some (x, after (length e) s))"

lemma consumes_nil: "consumes h [] acc acc"
  by (simp add: consumes_def after_def)

lemma consumes_append: "consumes h e acc acc1 \<Longrightarrow> consumes h e' acc1 acc2 \<Longrightarrow> consumes h (e @ e') acc acc2"
  unfolding consumes_def by (metis after_after append.assoc holds_after length_append)

lemma consumes_field:
  assumes "claims (h f) w e acc acc'" "0 < f" "f < 2 ^ 29" "w < 8"
  shows "consumes h (enc_tag f w @ e) acc acc'"
  unfolding consumes_def
proof (intro allI impI)
  fix s r
  assume s: "holds s ((enc_tag f w @ e) @ r)"
  let ?s1 = "after (length (enc_tag f w)) s"
  have "holds ?s1 (e @ r)" using holds_after [of s "enc_tag f w" "e @ r"] s by simp
  with assms(1) have c: "h f w acc ?s1 = Some (True, acc', after (length e) ?s1)" unfolding claims_def by blast
  have t: "cd_tag byte_coded s = (8 * f + w, ?s1)" using read_tag_holds [of s f w "e @ r"] s assms(2-4) by simp
  show "scan_fields byte_coded h acc s = scan_fields byte_coded h acc' (after (length (enc_tag f w @ e)) s)"
    using t c tag_parts [OF assms(4), of f] assms(2) by (subst scan_fields.simps) simp
qed

lemma as_int_small: "n < 2 ^ 31 \<Longrightarrow> as_int n = int n"
  by (simp add: as_int_def signed_take_bit_int_eq_self)

lemma scan_sub_reads:
  assumes "consumes h e init x" "length e < 2 ^ 31"
  shows "reads_as (scan_sub byte_coded h init) e x"
  unfolding reads_as_def
proof (intro allI impI)
  fix s r
  assume s: "holds s (e @ r)"
  then have p: "bs_pos s \<le> bs_lim s" "bs_lim s \<le> length (bs_whole s)" "\<not> bs_ended s" by (auto simp: holds_def placed_def)
  have l: "length e + length r = bs_lim s - bs_pos s" using s bytes_left_length [of s] by (simp add: holds_def)
  define s1 where "s1 = s\<lparr>bs_lim := bs_pos s + length e\<rparr>"
  have push: "cd_push byte_coded (as_int (length e)) s = (int (bs_lim s), s1)"
    using l p assms(2) by (auto simp: byte_coded_def as_int_small s1_def)
  have "bytes_left s1 = take (length e) (bytes_left s)"
    using l by (simp add: bytes_left_def s1_def Prelude.slice_def min_def)
  then have s1: "holds s1 (e @ [])" using s p l by (auto simp: holds_def placed_def s1_def)
  let ?s2 = "after (length e) s1"
  have s2: "holds ?s2 []" using holds_after [OF s1] by simp
  have fin: "cd_tag byte_coded ?s2 = (0, ?s2\<lparr>bs_ended := True\<rparr>)" using s2 by (simp add: byte_coded_def holds_left)
  have body: "scan_fields byte_coded h init s1 = Some (x, ?s2\<lparr>bs_ended := True\<rparr>)"
  proof -
    from assms(1) s1 have "scan_fields byte_coded h init s1 = scan_fields byte_coded h x ?s2" unfolding consumes_def by blast
    then show ?thesis by (simp add: scan_fields.simps [of byte_coded h x ?s2] fin)
  qed
  have left: "cd_left byte_coded (?s2\<lparr>bs_ended := True\<rparr>) = 0" by (simp add: byte_coded_def after_def s1_def)
  have pop: "cd_pop byte_coded (int (bs_lim s)) (?s2\<lparr>bs_ended := True\<rparr>) = after (length e) s"
    using p(3) by (cases s) (simp add: byte_coded_def after_def s1_def)
  show "scan_sub byte_coded h init (length e) s = Some (x, after (length e) s)"
    by (simp add: scan_sub_def with_sub_def push body left pop)
qed

lemma consumes_double:
  assumes "h f = field_double byte_coded of_bits put" "0 < f" "f < 2 ^ 29" "bits < 2 ^ 64"
    and "bits = 0 \<Longrightarrow> put (of_bits 0) acc = acc"
  shows "consumes h (enc_double f bits) acc (put (of_bits bits) acc)"
proof (cases "bits = 0")
  case True
  with assms(5) show ?thesis by (simp add: enc_double_def consumes_nil)
next
  case False
  have "claims (h f) wire_i64 (enc_fixed 8 bits) acc (put (of_bits bits) acc)"
    using assms(4) read_fixed_holds [of _ 8 bits]
    by (auto simp: claims_def assms(1) field_double_def claim_def byte_coded_def)
  from consumes_field [where h = h, OF this assms(2,3)] False show ?thesis by (simp add: enc_double_def wire_i64_def)
qed

lemma consumes_int:
  assumes "h f = field_varint byte_coded put" "0 < f" "f < 2 ^ 29" "i = 0 \<Longrightarrow> acc' = acc"
    and "i \<noteq> 0 \<Longrightarrow> put (nat (i mod 2 ^ 64)) acc = acc'"
  shows "consumes h (enc_int f i) acc acc'"
proof (cases "i = 0")
  case True
  with assms(4) show ?thesis by (simp add: enc_int_def consumes_nil)
next
  case False
  have "nat (i mod 2 ^ 64) < 2 ^ 64" by (simp add: nat_less_iff)
  then have "claims (h f) wire_varint (enc_varint (nat (i mod 2 ^ 64))) acc acc'"
    using read_varint_holds [of _ "nat (i mod 2 ^ 64)" _ 64] assms(5) [OF False]
    by (auto simp: claims_def assms(1) field_varint_def claim_def byte_coded_def)
  from consumes_field [where h = h, OF this assms(2,3)] False show ?thesis by (simp add: enc_int_def wire_varint_def)
qed

definition claims_top :: "(nat \<Rightarrow> 'a \<Rightarrow> byte_stream \<Rightarrow> (string + 'a \<times> byte_stream) option) \<Rightarrow> nat \<Rightarrow> string \<Rightarrow> 'a \<Rightarrow> 'a \<Rightarrow> bool" where
  "claims_top h w e acc acc' \<longleftrightarrow> (\<forall>s r. holds s (e @ r) \<longrightarrow> h w acc s = Some (Inr (acc', after (length e) s)))"

definition consumes_top :: "(byte_stream, 'a) strict \<Rightarrow> string \<Rightarrow> 'a \<Rightarrow> 'a \<Rightarrow> bool" where
  "consumes_top h e acc acc' \<longleftrightarrow>
     (\<forall>s r. holds s (e @ r) \<longrightarrow> strict_fields byte_coded h acc s = strict_fields byte_coded h acc' (after (length e) s))"

lemma consumes_top_append: "consumes_top h e acc acc1 \<Longrightarrow> consumes_top h e' acc1 acc2 \<Longrightarrow> consumes_top h (e @ e') acc acc2"
  unfolding consumes_top_def by (metis after_after append.assoc holds_after length_append)

lemma consumes_top_field:
  assumes "claims_top (h f) w e acc acc'" "0 < f" "f < 2 ^ 29" "w < 8"
  shows "consumes_top h (enc_tag f w @ e) acc acc'"
  unfolding consumes_top_def
proof (intro allI impI)
  fix s r
  assume s: "holds s ((enc_tag f w @ e) @ r)"
  let ?s1 = "after (length (enc_tag f w)) s"
  have "holds ?s1 (e @ r)" using holds_after [of s "enc_tag f w" "e @ r"] s by simp
  with assms(1) have c: "h f w acc ?s1 = Some (Inr (acc', after (length e) ?s1))" unfolding claims_top_def by blast
  have t: "cd_tag byte_coded s = (8 * f + w, ?s1)" using read_tag_holds [of s f w "e @ r"] s assms(2-4) by simp
  show "strict_fields byte_coded h acc s = strict_fields byte_coded h acc' (after (length (enc_tag f w @ e)) s)"
    using t c tag_parts [OF assms(4), of f] assms(2) by (subst strict_fields.simps) simp
qed

lemma read_length_holds:
  "holds s ((enc_varint (length body) @ body) @ r) \<Longrightarrow> length body < 2 ^ 31 \<Longrightarrow>
    cd_varint32 byte_coded s = (Some (length body), after (length (enc_varint (length body))) s)
    \<and> holds (after (length (enc_varint (length body))) s) (body @ r)"
  using read_varint_holds [of s "length body" "body @ r" 32] holds_after [of s "enc_varint (length body)" "body @ r"]
  by (simp add: byte_coded_def)

lemma consumes_top_message:
  assumes "h f = strict_message byte_coded m reader put" "reads_as reader body x" "length body < 2 ^ 31" "0 < f" "f < 2 ^ 29"
  shows "consumes_top h (enc_sub f body) acc (put x acc)"
proof -
  have "claims_top (h f) wire_len (enc_varint (length body) @ body) acc (put x acc)"
    unfolding claims_top_def assms(1)
    using read_length_holds [OF _ assms(3)] assms(2) by (fastforce simp: strict_message_def reads_as_def)
  from consumes_top_field [where h = h, OF this assms(4,5)] show ?thesis by (simp add: enc_sub_def wire_len_def)
qed

lemma consumes_top_string:
  assumes "h f = strict_string byte_coded m get put" "length x < 2 ^ 31" "0 < f" "f < 2 ^ 29"
  shows "consumes_top h (enc_sub f x) acc (put x acc)"
proof -
  have "claims_top (h f) wire_len (enc_varint (length x) @ x) acc (put x acc)"
    unfolding claims_top_def assms(1)
  proof (intro allI impI)
    fix s r
    assume s: "holds s ((enc_varint (length x) @ x) @ r)"
    note l = read_length_holds [OF s assms(2)]
    let ?s1 = "after (length (enc_varint (length x))) s"
    have "read_exact (int (length x)) ?s1 = (Some x, after (length x) ?s1)" using l read_exact_holds by blast
    with l show "strict_string byte_coded m get put wire_len acc s = Some (Inr (put x acc, after (length (enc_varint (length x) @ x)) s))"
      using assms(2) by (simp add: strict_string_def read_string_def as_int_small byte_coded_def)
  qed
  from consumes_top_field [where h = h, OF this assms(3,4)] show ?thesis by (simp add: enc_sub_def wire_len_def)
qed

lemma decode_message_reads:
  assumes "consumes_top h data init x" "length data \<le> int_max"
  shows "decode_message byte_coded open_bytes what h init finish data = Some (Inr (finish x))"
proof -
  have h: "holds (open_bytes data) (data @ [])"
    using placed_open [of data] by (simp add: holds_def bytes_left_def open_bytes_def Prelude.slice_def)
  let ?s = "after (length data) (open_bytes data)"
  have "holds ?s []" using holds_after [OF h] .
  then have "cd_tag byte_coded ?s = (0, ?s\<lparr>bs_ended := True\<rparr>)" by (simp add: byte_coded_def holds_left)
  moreover have "strict_fields byte_coded h init (open_bytes data) = strict_fields byte_coded h x ?s"
    using assms(1) h unfolding consumes_top_def by blast
  ultimately show ?thesis using assms(2)
    by (simp add: decode_message_def strict_fields.simps [of byte_coded h x ?s])
qed

subsection \<open>Fields in any order\<close>

text \<open>A writer may write the fields of a message in any order.\<close>

definition in_any_order :: "string list \<Rightarrow> string \<Rightarrow> bool" where
  "in_any_order parts body \<longleftrightarrow> (\<exists>es. mset es = mset parts \<and> body = concat es)"

lemma in_any_order_length: "in_any_order parts body \<Longrightarrow> length body = sum_list (map length parts)"
proof -
  assume "in_any_order parts body"
  then obtain es where e: "mset es = mset parts" "body = concat es" by (auto simp: in_any_order_def)
  have l: "sum_list (map length xs) = sum_mset (image_mset length (mset xs))" for xs :: "string list"
    by (simp flip: sum_mset_sum_list)
  have "length body = sum_mset (image_mset length (mset es))" by (simp add: e(2) length_concat l)
  also have "\<dots> = sum_list (map length parts)" by (simp add: e(1) l)
  finally show ?thesis .
qed

lemma mset_map_inverse: "mset es = mset (map f ps) \<Longrightarrow> \<exists>qs. mset qs = mset ps \<and> map f qs = es"
proof (induction es arbitrary: ps)
  case (Cons e es)
  then have "e \<in> set (map f ps)" by (metis list.set_intros(1) set_mset_mset)
  then obtain as p bs where p: "ps = as @ p # bs" "f p = e" by (metis imageE list.set_map split_list)
  with Cons.prems have "mset es = mset (map f (as @ bs))" by simp
  from Cons.IH [OF this] obtain qs where "mset qs = mset (as @ bs)" "map f qs = es" by blast
  with p show ?case by (intro exI [of _ "p # qs"]) simp
qed simp

text \<open>Encoded fields with what each does to the message: the bytes in any order do all of it.\<close>

lemma any_order:
  assumes nil: "\<And>a. C [] a a" and append: "\<And>e e' a b c. C e a b \<Longrightarrow> C e' b c \<Longrightarrow> C (e @ e') a c"
    and each: "list_all (\<lambda>(e, g). \<forall>a. C e a (g a)) ps"
    and commute: "\<And>p q a. p \<in> set ps \<Longrightarrow> q \<in> set ps \<Longrightarrow> snd p (snd q a) = snd q (snd p a)"
    and "in_any_order (map fst ps) body"
  shows "C body a (fold snd ps a)"
proof -
  from assms(5) obtain es where e: "mset es = mset (map fst ps)" "body = concat es" by (auto simp: in_any_order_def)
  from mset_map_inverse [OF e(1)] obtain qs where q: "mset qs = mset ps" "map fst qs = es" by blast
  have "C (concat (map fst rs)) b (fold snd rs b)" if "set rs \<subseteq> set ps" for rs b
    using that
  proof (induction rs arbitrary: b)
    case Nil
    show ?case using nil by simp
  next
    case (Cons r rs)
    have "C (fst r) b (snd r b)" using each Cons.prems by (auto simp: list_all_iff)
    from append [OF this Cons.IH] Cons.prems show ?case by simp
  qed
  moreover have "set qs = set ps" using q(1) mset_eq_setD by blast
  moreover have "fold snd qs = fold snd ps"
    by (rule fold_multiset_equiv [OF _ q(1)]) (use commute \<open>set qs = set ps\<close> in \<open>auto simp: fun_eq_iff\<close>)
  ultimately show ?thesis using e(2) q(2) by (metis order_refl)
qed

lemma consumes_any_order:
  assumes "list_all (\<lambda>(e, g). \<forall>a. consumes h e a (g a)) ps"
    and "\<And>p q a. p \<in> set ps \<Longrightarrow> q \<in> set ps \<Longrightarrow> snd p (snd q a) = snd q (snd p a)"
    and "in_any_order (map fst ps) body"
  shows "consumes h body a (fold snd ps a)"
  by (rule any_order [where C = "consumes h", OF consumes_nil consumes_append assms])

lemma consumes_top_nil: "consumes_top h [] a a"
  by (simp add: consumes_top_def after_def)

lemma consumes_top_any_order:
  assumes "list_all (\<lambda>(e, g). \<forall>a. consumes_top h e a (g a)) ps"
    and "\<And>p q a. p \<in> set ps \<Longrightarrow> q \<in> set ps \<Longrightarrow> snd p (snd q a) = snd q (snd p a)"
    and "in_any_order (map fst ps) body"
  shows "consumes_top h body a (fold snd ps a)"
  by (rule any_order [where C = "consumes_top h", OF consumes_top_nil consumes_top_append assms])

subsection \<open>Geometry\<close>

text \<open>A double with what it does: nothing when it is left out.\<close>

definition double_part :: "'d fp \<Rightarrow> nat \<Rightarrow> nat \<Rightarrow> ('d \<Rightarrow> 'a \<Rightarrow> 'a) \<Rightarrow> string \<times> ('a \<Rightarrow> 'a)" where
  "double_part fp f bits put = (enc_double f bits, if bits = 0 then id else put (fp_of_bits fp bits))"

lemma consumes_double_part:
  assumes "h f = field_double byte_coded (fp_of_bits fp) put" "0 < f" "f < 2 ^ 29" "bits < 2 ^ 64"
  shows "case double_part fp f bits put of (e, g) \<Rightarrow> \<forall>a. consumes h e a (g a)"
proof (cases "bits = 0")
  case True
  then show ?thesis by (simp add: double_part_def enc_double_def consumes_nil)
next
  case False
  with consumes_double [where h = h, OF assms] show ?thesis by (simp add: double_part_def)
qed

text \<open>The SDK's vectors are zero, and zero bits are the number zero.\<close>

definition zero_defaults :: "'d fp \<Rightarrow> 'd sdk \<Rightarrow> bool" where
  "zero_defaults fp sd \<longleftrightarrow>
     fp_of_bits fp 0 = fp_zero fp \<and> sd_vector sd = \<lparr>v3_x = fp_zero fp, v3_y = fp_zero fp, v3_z = fp_zero fp\<rparr>
     \<and> q_x (sd_quaternion sd) = fp_zero fp \<and> q_y (sd_quaternion sd) = fp_zero fp \<and> q_z (sd_quaternion sd) = fp_zero fp"

lemma enc_varint_length: "n < 128 ^ Suc k \<Longrightarrow> length (enc_varint n) \<le> Suc k"
proof (induction k arbitrary: n)
  case (Suc k)
  have "n div 128 < 128 ^ Suc k" using Suc.prems by (simp add: less_mult_imp_div_less mult.commute)
  from Suc.IH [OF this] show ?case by (simp add: enc_varint.simps [of n])
qed (simp add: enc_varint.simps)

lemma enc_double_length: "f < 15 \<Longrightarrow> length (enc_double f b) \<le> 9"
  using enc_varint_length [of "8 * f + wire_i64" 0] by (simp add: enc_double_def enc_tag_def wire_i64_def)

lemma enc_int_length: "f < 15 \<Longrightarrow> length (enc_int f i) \<le> 11"
proof -
  assume f: "f < 15"
  have "nat (i mod 2 ^ 64) < 128 ^ Suc 9" by (simp add: nat_less_iff)
  from enc_varint_length [OF this] enc_varint_length [of "8 * f + wire_varint" 0] f show ?thesis
    by (simp add: enc_int_def enc_tag_def wire_varint_def)
qed

lemma vector3_reads:
  assumes "zero_defaults fp sd" "x < 2 ^ 64" "y < 2 ^ 64" "z < 2 ^ 64"
    and "in_any_order [enc_double 1 x, enc_double 2 y, enc_double 3 z] body"
  shows "reads_as (read_vector3 byte_coded fp sd) body \<lparr>v3_x = fp_of_bits fp x, v3_y = fp_of_bits fp y, v3_z = fp_of_bits fp z\<rparr>"
proof -
  let ?h = "vector3_field byte_coded fp"
  let ?ps = "[double_part fp 1 x (\<lambda>d v. v\<lparr>v3_x := d\<rparr>), double_part fp 2 y (\<lambda>d v. v\<lparr>v3_y := d\<rparr>), double_part fp 3 z (\<lambda>d v. v\<lparr>v3_z := d\<rparr>)]"
  have "list_all (\<lambda>(e, g). \<forall>a. consumes ?h e a (g a)) ?ps"
    unfolding list.pred_inject by (intro conjI TrueI consumes_double_part) (use assms in \<open>simp_all add: vector3_field_def\<close>)
  moreover have "snd p (snd q a) = snd q (snd p a)" if "p \<in> set ?ps" "q \<in> set ?ps" for p q a
    using that by (auto simp: double_part_def)
  moreover have "in_any_order (map fst ?ps) body" using assms(5) by (simp add: double_part_def)
  ultimately have "consumes ?h body (sd_vector sd) (fold snd ?ps (sd_vector sd))" by (rule consumes_any_order)
  moreover have "fold snd ?ps (sd_vector sd) = \<lparr>v3_x = fp_of_bits fp x, v3_y = fp_of_bits fp y, v3_z = fp_of_bits fp z\<rparr>"
    using assms(1) by (cases "sd_vector sd") (auto simp: double_part_def zero_defaults_def)
  moreover have "length body < 2 ^ 31"
    using in_any_order_length [OF assms(5)] enc_double_length [of 1 x] enc_double_length [of 2 y] enc_double_length [of 3 z] by simp
  ultimately show ?thesis unfolding read_vector3_def by (metis scan_sub_reads)
qed

lemma quaternion_reads:
  assumes "zero_defaults fp sd" "x < 2 ^ 64" "y < 2 ^ 64" "z < 2 ^ 64" "w < 2 ^ 64"
    and "in_any_order [enc_double 1 x, enc_double 2 y, enc_double 3 z, enc_double 4 w] body"
  shows "reads_as (read_quaternion byte_coded fp sd) body
    \<lparr>q_x = fp_of_bits fp x, q_y = fp_of_bits fp y, q_z = fp_of_bits fp z, q_w = fp_of_bits fp w\<rparr>"
proof -
  let ?h = "quaternion_field byte_coded fp" and ?i = "(sd_quaternion sd)\<lparr>q_w := fp_zero fp\<rparr>"
  let ?ps = "[double_part fp 1 x (\<lambda>d v. v\<lparr>q_x := d\<rparr>), double_part fp 2 y (\<lambda>d v. v\<lparr>q_y := d\<rparr>),
    double_part fp 3 z (\<lambda>d v. v\<lparr>q_z := d\<rparr>), double_part fp 4 w (\<lambda>d v. v\<lparr>q_w := d\<rparr>)]"
  have "list_all (\<lambda>(e, g). \<forall>a. consumes ?h e a (g a)) ?ps"
    unfolding list.pred_inject by (intro conjI TrueI consumes_double_part) (use assms in \<open>simp_all add: quaternion_field_def\<close>)
  moreover have "snd p (snd q a) = snd q (snd p a)" if "p \<in> set ?ps" "q \<in> set ?ps" for p q a
    using that by (auto simp: double_part_def)
  moreover have "in_any_order (map fst ?ps) body" using assms(6) by (simp add: double_part_def)
  ultimately have "consumes ?h body ?i (fold snd ?ps ?i)" by (rule consumes_any_order)
  moreover have "fold snd ?ps ?i = \<lparr>q_x = fp_of_bits fp x, q_y = fp_of_bits fp y, q_z = fp_of_bits fp z, q_w = fp_of_bits fp w\<rparr>"
    using assms(1) by (cases "sd_quaternion sd") (auto simp: double_part_def zero_defaults_def)
  moreover have "length body < 2 ^ 31"
    using in_any_order_length [OF assms(6)] enc_double_length [of 1 x] enc_double_length [of 2 y] enc_double_length [of 3 z]
      enc_double_length [of 4 w] by simp
  ultimately show ?thesis unfolding read_quaternion_def by (metis scan_sub_reads)
qed

lemma signed_mod: "- (2 ^ n) \<le> i \<Longrightarrow> i < 2 ^ n \<Longrightarrow> n < m \<Longrightarrow> signed_take_bit n (i mod 2 ^ m) = (i :: int)"
  by (simp add: take_bit_eq_mod [symmetric] signed_take_bit_take_bit signed_take_bit_int_eq_self)

text \<open>The times that fit 64 bits as nanoseconds.\<close>

definition stamp_fits :: "int \<Rightarrow> int \<Rightarrow> bool" where
  "stamp_fits seconds nanos \<longleftrightarrow>
     - (2 ^ 63) \<le> seconds * 1000000000 \<and> seconds * 1000000000 < 2 ^ 63
     \<and> - (2 ^ 63) \<le> seconds * 1000000000 + nanos \<and> seconds * 1000000000 + nanos < 2 ^ 63
     \<and> - (2 ^ 31) \<le> nanos \<and> nanos < 2 ^ 31"

lemma stamp_ns_exact: "stamp_fits seconds nanos \<Longrightarrow> stamp_ns seconds nanos = seconds * 1000000000 + nanos"
  by (simp add: stamp_ns_def stamp_fits_def signed_take_bit_int_eq_self)

lemma timestamp_reads:
  assumes "stamp_fits seconds nanos" "in_any_order [enc_int 1 seconds, enc_int 2 nanos] body"
  shows "reads_as (read_timestamp_ns byte_coded) body (seconds * 1000000000 + nanos)"
proof -
  let ?h = "timestamp_field byte_coded"
  let ?ps = "[(enc_int 1 seconds, if seconds = 0 then id else (\<lambda>(s, n). (seconds, n))),
     (enc_int 2 nanos, if nanos = 0 then id else (\<lambda>(s, n). (s, nanos)))] :: (string \<times> (int \<times> int \<Rightarrow> int \<times> int)) list"
  have r: "- (2 ^ 63) \<le> seconds" "seconds < 2 ^ 63" "- (2 ^ 31) \<le> nanos" "nanos < 2 ^ 31"
    using assms(1) by (simp_all add: stamp_fits_def)
  have 1: "consumes ?h (enc_int 1 seconds) a ((if seconds = 0 then id else (\<lambda>(s, n). (seconds, n))) a)" for a
    by (rule consumes_int [where put = "\<lambda>v (s, n). (signed_take_bit 63 (int v), n)"])
      (use r signed_mod [of 63 seconds 64] in \<open>auto simp: timestamp_field_def split: prod.split\<close>)
  have 2: "consumes ?h (enc_int 2 nanos) a ((if nanos = 0 then id else (\<lambda>(s, n). (s, nanos))) a)" for a
    by (rule consumes_int [where put = "\<lambda>v (s, n). (s, signed_take_bit 31 (int v))"])
      (use r signed_mod [of 31 nanos 64] in \<open>auto simp: timestamp_field_def split: prod.split\<close>)
  have "list_all (\<lambda>(e, g). \<forall>a. consumes ?h e a (g a)) ?ps" using 1 2 by simp
  moreover have "snd p (snd q a) = snd q (snd p a)" if "p \<in> set ?ps" "q \<in> set ?ps" for p q a
    using that by (auto split: prod.split)
  moreover have "in_any_order (map fst ?ps) body" using assms(2) by simp
  ultimately have "consumes ?h body (0, 0) (fold snd ?ps (0, 0))" by (rule consumes_any_order)
  moreover have "fold snd ?ps (0, 0) = (seconds, nanos)" by simp
  moreover have "length body < 2 ^ 31"
    using in_any_order_length [OF assms(2)] enc_int_length [of 1 seconds] enc_int_length [of 2 nanos] by simp
  ultimately have "reads_as (scan_sub byte_coded ?h (0, 0)) body (seconds, nanos)" by (metis scan_sub_reads)
  then show ?thesis by (auto simp: reads_as_def read_timestamp_ns_def map_reader_def stamp_ns_exact [OF assms(1)])
qed

subsection \<open>Unknown fields\<close>

datatype unknown = UnkInt nat nat | UnkDouble nat nat | UnkFloat nat nat | UnkBytes nat string

fun enc_unknown :: "unknown \<Rightarrow> string" where
  "enc_unknown (UnkInt f n) = enc_tag f wire_varint @ enc_varint n"
| "enc_unknown (UnkDouble f n) = enc_tag f wire_i64 @ enc_fixed 8 n"
| "enc_unknown (UnkFloat f n) = enc_tag f wire_i32 @ enc_fixed 4 n"
| "enc_unknown (UnkBytes f b) = enc_sub f b"

fun unknown_to :: "nat list \<Rightarrow> unknown \<Rightarrow> bool" where
  "unknown_to known (UnkInt f n) = (0 < f \<and> f < 2 ^ 29 \<and> f \<notin> set known \<and> n < 2 ^ 64)"
| "unknown_to known (UnkDouble f n) = (0 < f \<and> f < 2 ^ 29 \<and> f \<notin> set known \<and> n < 2 ^ 64)"
| "unknown_to known (UnkFloat f n) = (0 < f \<and> f < 2 ^ 29 \<and> f \<notin> set known \<and> n < 2 ^ 32)"
| "unknown_to known (UnkBytes f b) = (0 < f \<and> f < 2 ^ 29 \<and> f \<notin> set known \<and> length b < 2 ^ 31)"

lemma consumes_top_unknown:
  assumes "\<And>f. f \<notin> set known \<Longrightarrow> h f = strict_skip byte_coded m" "unknown_to known u"
  shows "consumes_top h (enc_unknown u) a a"
proof (cases u)
  case (UnkInt f n)
  have "claims_top (h f) wire_varint (enc_varint n) a a"
    using assms UnkInt read_varint_holds [of _ n _ 64]
    by (auto simp: claims_top_def strict_skip_def skip_field_def byte_coded_def)
  from consumes_top_field [where h = h, OF this] assms(2) UnkInt show ?thesis by (simp add: wire_varint_def)
next
  case (UnkDouble f n)
  have "claims_top (h f) wire_i64 (enc_fixed 8 n) a a"
    using assms UnkDouble read_fixed_holds [of _ 8 n]
    by (auto simp: claims_top_def strict_skip_def skip_field_def byte_coded_def wire_i64_def wire_varint_def)
  from consumes_top_field [where h = h, OF this] assms(2) UnkDouble show ?thesis by (simp add: wire_i64_def)
next
  case (UnkFloat f n)
  have "claims_top (h f) wire_i32 (enc_fixed 4 n) a a"
    using assms UnkFloat read_fixed_holds [of _ 4 n]
    by (auto simp: claims_top_def strict_skip_def skip_field_def byte_coded_def wire_i64_def wire_varint_def wire_i32_def wire_len_def)
  from consumes_top_field [where h = h, OF this] assms(2) UnkFloat show ?thesis by (simp add: wire_i32_def)
next
  case (UnkBytes f b)
  have b: "length b < 2 ^ 31" using assms(2) UnkBytes by simp
  have "claims_top (h f) wire_len (enc_varint (length b) @ b) a a"
    unfolding claims_top_def
  proof (intro allI impI)
    fix s r
    assume s: "holds s ((enc_varint (length b) @ b) @ r)"
    note l = read_length_holds [OF s b]
    let ?s1 = "after (length (enc_varint (length b))) s"
    have "read_exact (int (length b)) ?s1 = (Some b, after (length b) ?s1)" using l read_exact_holds by blast
    then have k: "cd_skip byte_coded (as_int (length b)) ?s1 = (True, after (length b) ?s1)"
      using b by (simp add: byte_coded_def as_int_small)
    have "h f = strict_skip byte_coded m" using assms UnkBytes by simp
    with l k show "h f wire_len a s = Some (Inr (a, after (length (enc_varint (length b) @ b)) s))"
      by (simp add: strict_skip_def skip_field_def wire_i64_def wire_varint_def wire_len_def)
  qed
  from consumes_top_field [where h = h, OF this] assms(2) UnkBytes show ?thesis by (simp add: enc_sub_def wire_len_def)
qed

subsection \<open>A transform\<close>

record wire_transform =
  wt_seconds :: int
  wt_nanos :: int
  wt_parent :: string
  wt_child :: string
  wt_x :: nat
  wt_y :: nat
  wt_z :: nat
  wt_qx :: nat
  wt_qy :: nat
  wt_qz :: nat
  wt_qw :: nat

definition in_range :: "wire_transform \<Rightarrow> bool" where
  "in_range m \<longleftrightarrow> stamp_fits (wt_seconds m) (wt_nanos m)
     \<and> list_all (\<lambda>b. b < 2 ^ 64) [wt_x m, wt_y m, wt_z m, wt_qx m, wt_qy m, wt_qz m, wt_qw m]"

text \<open>The bytes of a transform: its fields, those of its submessages, and fields that are not of the schema, in any
  order.\<close>

definition encodes_transform :: "transform_fields \<Rightarrow> wire_transform \<Rightarrow> unknown list \<Rightarrow> string \<Rightarrow> bool" where
  "encodes_transform n m us data \<longleftrightarrow>
     (\<exists>stamp vec rot.
        in_any_order [enc_int 1 (wt_seconds m), enc_int 2 (wt_nanos m)] stamp
      \<and> in_any_order [enc_double 1 (wt_x m), enc_double 2 (wt_y m), enc_double 3 (wt_z m)] vec
      \<and> in_any_order [enc_double 1 (wt_qx m), enc_double 2 (wt_qy m), enc_double 3 (wt_qz m), enc_double 4 (wt_qw m)] rot
      \<and> in_any_order ([enc_sub (tff_timestamp n) stamp, enc_sub (tff_parent n) (wt_parent m), enc_sub (tff_child n) (wt_child m),
            enc_sub (tff_translation n) vec, enc_sub (tff_rotation n) rot] @ map enc_unknown us) data)"

definition transform_of :: "'d fp \<Rightarrow> wire_transform \<Rightarrow> 'd transform" where
  "transform_of fp m =
     \<lparr>tf_timestamp = wt_seconds m * 1000000000 + wt_nanos m, tf_parent = wt_parent m, tf_child = wt_child m,
      tf_translation = \<lparr>v3_x = fp_of_bits fp (wt_x m), v3_y = fp_of_bits fp (wt_y m), v3_z = fp_of_bits fp (wt_z m)\<rparr>,
      tf_rotation = \<lparr>q_x = fp_of_bits fp (wt_qx m), q_y = fp_of_bits fp (wt_qy m), q_z = fp_of_bits fp (wt_qz m),
                     q_w = fp_of_bits fp (wt_qw m)\<rparr>\<rparr>"

definition good_numbers :: "nat list \<Rightarrow> bool" where
  "good_numbers ns \<longleftrightarrow> distinct ns \<and> list_all (\<lambda>f. 0 < f \<and> f < 2 ^ 29) ns"

definition transform_numbers :: "transform_fields \<Rightarrow> nat list" where
  "transform_numbers n = [tff_timestamp n, tff_parent n, tff_child n, tff_translation n, tff_rotation n]"

lemma enc_sub_length: "length body \<le> length (enc_sub f body)"
  by (simp add: enc_sub_def)

text \<open>C29. A transform written in the wire format is decoded to exactly its time in nanoseconds, frames, translation and
  rotation: with any distinct field numbers, official or renumbered by the schema of the file, with the fields of the message
  and of its submessages in any order and unknown fields among them, and with the doubles and integers that are
  zero left out as proto3 does. The time must fit 64 bits as nanoseconds, as those from 1678 to 2261 do.\<close>

theorem transform_reads_back:
  assumes "zero_defaults fp sd" "good_numbers (transform_numbers n)" "in_range m"
    and "list_all (unknown_to (transform_numbers n)) us" "encodes_transform n m us data" "length data \<le> int_max"
  shows "deserialize_transform byte_coded open_bytes fp sd n data = Some (Inr [transform_of fp m])"
proof -
  let ?h = "transform_top byte_coded fp sd n" and ?i = "sd_transform sd"
  let ?t = "wt_seconds m * 1000000000 + wt_nanos m"
  let ?v = "\<lparr>v3_x = fp_of_bits fp (wt_x m), v3_y = fp_of_bits fp (wt_y m), v3_z = fp_of_bits fp (wt_z m)\<rparr>"
  let ?q = "\<lparr>q_x = fp_of_bits fp (wt_qx m), q_y = fp_of_bits fp (wt_qy m), q_z = fp_of_bits fp (wt_qz m), q_w = fp_of_bits fp (wt_qw m)\<rparr>"
  from assms(5) obtain stamp vec rot where e:
      "in_any_order [enc_int 1 (wt_seconds m), enc_int 2 (wt_nanos m)] stamp"
      "in_any_order [enc_double 1 (wt_x m), enc_double 2 (wt_y m), enc_double 3 (wt_z m)] vec"
      "in_any_order [enc_double 1 (wt_qx m), enc_double 2 (wt_qy m), enc_double 3 (wt_qz m), enc_double 4 (wt_qw m)] rot"
    and top: "in_any_order ([enc_sub (tff_timestamp n) stamp, enc_sub (tff_parent n) (wt_parent m), enc_sub (tff_child n) (wt_child m),
            enc_sub (tff_translation n) vec, enc_sub (tff_rotation n) rot] @ map enc_unknown us) data"
    unfolding encodes_transform_def by blast
  have n: "list_all (\<lambda>f. 0 < f \<and> f < 2 ^ 29) (transform_numbers n)" "distinct (transform_numbers n)"
    using assms(2) by (auto simp: good_numbers_def)
  have f: "0 < g \<and> g < 2 ^ 29" if "g \<in> set (transform_numbers n)" for g using n(1) that by (simp add: list_all_iff)
  note f1 = f [of "tff_timestamp n"] and f2 = f [of "tff_parent n"] and f3 = f [of "tff_child n"]
    and f4 = f [of "tff_translation n"] and f5 = f [of "tff_rotation n"]
  have d: "tff_parent n \<noteq> tff_timestamp n" "tff_child n \<noteq> tff_timestamp n" "tff_child n \<noteq> tff_parent n"
    "tff_translation n \<noteq> tff_timestamp n" "tff_translation n \<noteq> tff_parent n" "tff_translation n \<noteq> tff_child n"
    "tff_rotation n \<noteq> tff_timestamp n" "tff_rotation n \<noteq> tff_parent n" "tff_rotation n \<noteq> tff_child n"
    "tff_rotation n \<noteq> tff_translation n"
    using n(2) by (auto simp: transform_numbers_def)
  have len: "length stamp < 2 ^ 31" "length (wt_parent m) < 2 ^ 31" "length (wt_child m) < 2 ^ 31" "length vec < 2 ^ 31" "length rot < 2 ^ 31"
    using in_any_order_length [OF top] assms(6) enc_sub_length [of stamp "tff_timestamp n"] enc_sub_length [of "wt_parent m" "tff_parent n"]
      enc_sub_length [of "wt_child m" "tff_child n"] enc_sub_length [of vec "tff_translation n"] enc_sub_length [of rot "tff_rotation n"]
    by (simp_all add: int_max_def)
  have r: "reads_as (read_timestamp_ns byte_coded) stamp ?t" "reads_as (read_vector3 byte_coded fp sd) vec ?v"
    "reads_as (read_quaternion byte_coded fp sd) rot ?q"
    using assms(3) by (intro timestamp_reads [OF _ e(1)] vector3_reads [OF assms(1) _ _ _ e(2)] quaternion_reads [OF assms(1) _ _ _ _ e(3)];
        simp add: in_range_def)+
  let ?ps = "[(enc_sub (tff_timestamp n) stamp, \<lambda>a. a\<lparr>tf_timestamp := ?t\<rparr>), (enc_sub (tff_parent n) (wt_parent m), \<lambda>a. a\<lparr>tf_parent := wt_parent m\<rparr>),
      (enc_sub (tff_child n) (wt_child m), \<lambda>a. a\<lparr>tf_child := wt_child m\<rparr>), (enc_sub (tff_translation n) vec, \<lambda>a. a\<lparr>tf_translation := ?v\<rparr>),
      (enc_sub (tff_rotation n) rot, \<lambda>a. a\<lparr>tf_rotation := ?q\<rparr>)] @ map (\<lambda>u. (enc_unknown u, id)) us"
  have 1: "consumes_top ?h (enc_sub (tff_timestamp n) stamp) a (a\<lparr>tf_timestamp := ?t\<rparr>)" for a
    by (rule consumes_top_message [where h = ?h, OF _ r(1) len(1)]) (use f1 in \<open>simp_all add: transform_top_def transform_numbers_def\<close>)
  have 2: "consumes_top ?h (enc_sub (tff_parent n) (wt_parent m)) a (a\<lparr>tf_parent := wt_parent m\<rparr>)" for a
    by (rule consumes_top_string [where h = ?h, OF _ len(2)]) (use f2 d in \<open>simp_all add: transform_top_def transform_numbers_def\<close>)
  have 3: "consumes_top ?h (enc_sub (tff_child n) (wt_child m)) a (a\<lparr>tf_child := wt_child m\<rparr>)" for a
    by (rule consumes_top_string [where h = ?h, OF _ len(3)]) (use f3 d in \<open>simp_all add: transform_top_def transform_numbers_def\<close>)
  have 4: "consumes_top ?h (enc_sub (tff_translation n) vec) a (a\<lparr>tf_translation := ?v\<rparr>)" for a
    by (rule consumes_top_message [where h = ?h, OF _ r(2) len(4)]) (use f4 d in \<open>simp_all add: transform_top_def transform_numbers_def\<close>)
  have 5: "consumes_top ?h (enc_sub (tff_rotation n) rot) a (a\<lparr>tf_rotation := ?q\<rparr>)" for a
    by (rule consumes_top_message [where h = ?h, OF _ r(3) len(5)]) (use f5 d in \<open>simp_all add: transform_top_def transform_numbers_def\<close>)
  have skip: "?h g = strict_skip byte_coded (transform_name @ '': malformed'')" if "g \<notin> set (transform_numbers n)" for g
    using that by (simp add: transform_top_def transform_numbers_def)
  have "list_all (\<lambda>(e, g). \<forall>a. consumes_top ?h e a (g a)) ?ps"
    using 1 2 3 4 5 consumes_top_unknown [where h = ?h, OF skip] assms(4) by (simp add: list_all_iff)
  moreover have "snd p (snd q a) = snd q (snd p a)" if "p \<in> set ?ps" "q \<in> set ?ps" for p q a
    using that by auto
  moreover have "in_any_order (map fst ?ps) data" using top by (simp add: comp_def)
  ultimately have "consumes_top ?h data ?i (fold snd ?ps ?i)" by (rule consumes_top_any_order)
  moreover have "fold snd (map (\<lambda>u. (enc_unknown u, id)) us) a = a" for a :: "'a transform"
    by (induction us) simp_all
  then have "fold snd ?ps ?i = transform_of fp m" by (cases ?i) (simp add: transform_of_def)
  ultimately have "consumes_top ?h data ?i (transform_of fp m)" by simp
  from decode_message_reads [OF this assms(6)] show ?thesis by (simp add: deserialize_transform_def)
qed

text \<open>A renumbered schema and a half turn about the third axis, whose last component is zero and not written;
  doubles are kept as their bits.\<close>

definition bits_fp :: "nat fp" where
  "bits_fp = \<lparr>fp_of_bits = id, fp_zero = 0, fp_half = id, fp_clamp01 = id, fp_times255 = id, fp_lround = int\<rparr>"

definition zero_sdk :: "nat sdk" where
  "zero_sdk =
     (let v = \<lparr>v3_x = 0, v3_y = 0, v3_z = 0\<rparr>; q = \<lparr>q_x = 0, q_y = 0, q_z = 0, q_w = 4607182418800017408\<rparr> in
      \<lparr>sd_vector = v, sd_quaternion = q, sd_pose = \<lparr>ps_position = v, ps_orientation = q\<rparr>, sd_point2 = \<lparr>p2_x = 0, p2_y = 0\<rparr>,
       sd_transform = \<lparr>tf_timestamp = 0, tf_parent = [], tf_child = [], tf_translation = v, tf_rotation = q\<rparr>,
       sd_poses = \<lparr>pf_timestamp = 0, pf_frame_id = [], pf_poses = []\<rparr>,
       sd_image = \<lparr>im_timestamp = 0, im_frame_id = [], im_width = 0, im_height = 0, im_encoding = [], im_row_step = 0, im_data = []\<rparr>,
       sd_camera = \<lparr>ci_timestamp = 0, ci_width = 0, ci_height = 0, ci_model = [], ci_D = [], ci_K = replicate 9 0,
                    ci_R = replicate 9 0, ci_P = replicate 12 0, ci_frame_id = []\<rparr>\<rparr>)"

definition renumbered :: transform_fields where
  "renumbered = \<lparr>tff_timestamp = 1, tff_parent = 5, tff_child = 2, tff_translation = 3, tff_rotation = 4\<rparr>"

definition half_turn :: wire_transform where
  "half_turn = \<lparr>wt_seconds = 7, wt_nanos = 5, wt_parent = ''map'', wt_child = ''base'', wt_x = 0, wt_y = 4607182418800017408, wt_z = 0,
     wt_qx = 0, wt_qy = 0, wt_qz = 4607182418800017408, wt_qw = 0\<rparr>"

text \<open>Written with the rotation first, the y of the translation alone, and an unknown number between.\<close>

definition half_turn_bytes :: string where
  "half_turn_bytes =
     enc_sub 4 (enc_double 3 4607182418800017408) @ enc_sub 5 ''map'' @ (enc_tag 9 wire_varint @ enc_varint 300)
     @ enc_sub 1 (enc_int 2 5 @ enc_int 1 7) @ enc_sub 2 ''base'' @ enc_sub 3 (enc_double 2 4607182418800017408)"

theorem transform_reads_back_witness:
  "deserialize_transform byte_coded open_bytes bits_fp zero_sdk renumbered half_turn_bytes = Some (Inr [transform_of bits_fp half_turn])"
proof -
  let ?stamp = "enc_int 2 5 @ enc_int 1 7" and ?y = "enc_double 2 4607182418800017408" and ?z = "enc_double 3 4607182418800017408"
  have zero: "enc_double f 0 = []" for f by (simp add: enc_double_def)
  have "in_any_order [enc_int 1 7, enc_int 2 5] ?stamp"
    unfolding in_any_order_def by (rule exI [of _ "[enc_int 2 5, enc_int 1 7]"]) simp
  moreover have "in_any_order [enc_double 1 0, ?y, enc_double 3 0] ?y"
    unfolding in_any_order_def zero by (rule exI [of _ "[[], ?y, []]"]) simp
  moreover have "in_any_order [enc_double 1 0, enc_double 2 0, ?z, enc_double 4 0] ?z"
    unfolding in_any_order_def zero by (rule exI [of _ "[[], [], ?z, []]"]) simp
  moreover have "in_any_order ([enc_sub 1 ?stamp, enc_sub 5 ''map'', enc_sub 2 ''base'', enc_sub 3 ?y, enc_sub 4 ?z] @ map enc_unknown [UnkInt 9 300])
      half_turn_bytes"
    unfolding in_any_order_def half_turn_bytes_def
    by (rule exI [of _ "[enc_sub 4 ?z, enc_sub 5 ''map'', enc_tag 9 wire_varint @ enc_varint 300, enc_sub 1 ?stamp, enc_sub 2 ''base'', enc_sub 3 ?y]"]) simp
  ultimately have "encodes_transform renumbered half_turn [UnkInt 9 300] half_turn_bytes"
    unfolding encodes_transform_def by (intro exI [of _ ?stamp] exI [of _ ?y] exI [of _ ?z]) (simp add: renumbered_def half_turn_def)
  moreover have "length half_turn_bytes \<le> int_max"
    by (simp add: half_turn_bytes_def enc_sub_def enc_tag_def wire_len_def enc_int_def enc_double_def wire_varint_def wire_i64_def
        enc_varint.simps int_max_def)
  ultimately show ?thesis
    by (intro transform_reads_back [of bits_fp zero_sdk renumbered half_turn "[UnkInt 9 300]"])
      (simp_all add: zero_defaults_def bits_fp_def zero_sdk_def good_numbers_def transform_numbers_def renumbered_def in_range_def
        stamp_fits_def half_turn_def Let_def)
qed

text \<open>Protobuf allows times up to the year 9999; one past 2262 does not fit, and the product overflows.\<close>

lemma late_time_overflows: "stamp_ns 253402300799 0 = - 4852116232933722624 \<and> \<not> stamp_fits 253402300799 0"
  by (simp add: stamp_ns_def stamp_fits_def signed_take_bit_eq_take_bit_shift take_bit_eq_mod)

subsection \<open>Nested readers resume their parent\<close>

text \<open>What a reader of a submessage owes its parent, for every declared length and whatever the bytes are.\<close>

definition resumes :: "'s view \<Rightarrow> ('s, 'a) reader \<Rightarrow> bool" where
  "resumes v reader \<longleftrightarrow>
     (\<forall>len s. placed v s \<longrightarrow>
        (\<exists>x s'. reader len s = Some (x, s') \<and> vw_whole v s' = vw_whole v s \<and> vw_lim v s' = vw_lim v s \<and> vw_pos v s' = sub_end v len s))"

lemma sound_resumes: "sound_reader v reader \<Longrightarrow> resumes v reader"
  by (fastforce simp: sound_reader_def resumes_def forward_def)

text \<open>C30. Every reader of a nested message of foxglove_object_codecs.cpp, from the time to the entity of a scene, never
  desynchronises its parent: for every declared length and whatever the bytes are, it returns a value and leaves the
  stream at the end of the submessage, or of the enclosing message when the declared length goes past it or is
  negative as an int, with the enclosing limit restored. (The readers of the other codecs fail instead.)\<close>

theorem entity_reader_resumes:
  assumes "coded_stream cd v"
  shows "resumes v (read_timestamp_ns cd) \<and> resumes v (read_vector3 cd fp sd) \<and> resumes v (read_quaternion cd fp sd)
    \<and> resumes v (read_color cd fp) \<and> resumes v (read_pose cd fp sd) \<and> resumes v (read_point_xy cd fp sd)
    \<and> resumes v (read_point3 cd fp sd) \<and> resumes v (read_packed_doubles cd (fp_of_bits fp)) \<and> resumes v (read_packed_fixed32 cd)
    \<and> resumes v (read_circle cd fp ssd ts) \<and> resumes v (read_points_annotation cd fp ssd ts)
    \<and> resumes v (read_text_annotation cd fp ssd ts) \<and> resumes v (read_arrow cd fp ssd) \<and> resumes v (read_box_like cd fp ssd prim)
    \<and> resumes v (read_cylinder cd fp ssd) \<and> resumes v (read_line cd fp ssd) \<and> resumes v (read_triangle cd fp ssd)
    \<and> resumes v (read_text cd fp ssd) \<and> resumes v (read_model cd fp ssd) \<and> resumes v (read_scene_entity cd fp ssd n)"
  by (intro conjI sound_resumes coded_stream.read_timestamp_ns_sound [OF assms]
      coded_stream.read_vector3_sound [OF assms]
      coded_stream.read_quaternion_sound [OF assms]
      coded_stream.read_color_sound [OF assms]
      coded_stream.read_pose_sound [OF assms]
      coded_stream.read_point_xy_sound [OF assms]
      coded_stream.read_point3_sound [OF assms]
      coded_stream.read_packed_doubles_sound [OF assms]
      coded_stream.read_packed_fixed32_sound [OF assms]
      coded_stream.read_circle_sound [OF assms]
      coded_stream.read_points_annotation_sound [OF assms]
      coded_stream.read_text_annotation_sound [OF assms]
      coded_stream.read_arrow_sound [OF assms]
      coded_stream.read_box_like_sound [OF assms]
      coded_stream.read_cylinder_sound [OF assms]
      coded_stream.read_line_sound [OF assms]
      coded_stream.read_triangle_sound [OF assms]
      coded_stream.read_text_sound [OF assms]
      coded_stream.read_model_sound [OF assms]
      coded_stream.read_scene_entity_sound [OF assms])

theorem entity_reader_resumes_witness:
  "resumes byte_view (read_pose byte_coded bits_fp zero_sdk)
    \<and> (\<forall>sd n. \<exists>e s'. read_scene_entity byte_coded bits_fp sd n 3 (open_bytes (replicate 8 (CHR 0xFF))) = Some (e, s') \<and> bs_pos s' = 3)"
proof (intro conjI allI)
  show "resumes byte_view (read_pose byte_coded bits_fp zero_sdk)"
    using entity_reader_resumes [OF byte.coded_stream_axioms, of bits_fp zero_sdk] by blast
  fix sd :: "nat scene_sdk" and n
  have "sub_end byte_view 3 (open_bytes (replicate 8 (CHR 0xFF))) = 3" by (simp add: sub_end_def as_int_def open_bytes_def)
  moreover have "resumes byte_view (read_scene_entity byte_coded bits_fp sd n)"
    using entity_reader_resumes [OF byte.coded_stream_axioms, of bits_fp _ sd] by blast
  ultimately show "\<exists>e s'. read_scene_entity byte_coded bits_fp sd n 3 (open_bytes (replicate 8 (CHR 0xFF))) = Some (e, s') \<and> bs_pos s' = 3"
    using placed_open [of "replicate 8 (CHR 0xFF)"] unfolding resumes_def by fastforce
qed

text \<open>A tag of zero, which no message has, ends the loop as the end of the data does: the bytes after it are
  dropped and the partial message is returned.\<close>

lemma zero_tag_ends_message:
  assumes "length data < int_max"
  shows "deserialize_transform byte_coded open_bytes fp sd n (CHR 0x00 # data) = Some (Inr [sd_transform sd])"
proof -
  have "bytes_left (open_bytes (CHR 0x00 # data)) = CHR 0x00 # data"
    by (simp add: bytes_left_def open_bytes_def Prelude.slice_def)
  moreover have "varint_of 10 (CHR 0x00 # data) = Some (0, 1)" by (simp add: numeral_eq_Suc)
  ultimately have "fst (cd_tag byte_coded (open_bytes (CHR 0x00 # data))) = 0" by (simp add: byte_coded_def read_varint_def)
  with assms show ?thesis
    by (auto simp: deserialize_transform_def decode_message_def strict_fields.simps [of _ _ _ "open_bytes (CHR 0x00 # data)"]
        split: prod.splits)
qed

end
