(* ===== verification/FoxPointFacts.thy ===== *)
theory FoxPointFacts
  imports FoxPoints FoxRoundTrip
begin

section \<open>Decoded grids, clouds and scans (parser_protobuf/foxglove_*_codec.cpp)\<close>

text \<open>
  What the decoders of packed data guarantee. Facts shown: all the foxglove decoders return; the geometry that a
  decoded cloud, voxel grid or grid declares fits the bytes it holds; the summary of a scan agrees with its
  decoding; a pose is read with a last component of one where the writer left out a zero.
\<close>

subsection \<open>Every decoder returns\<close>

text \<open>A handler that keeps a property of the message, over the given data.\<close>

definition keeps :: "'s view \<Rightarrow> string \<Rightarrow> ('a \<Rightarrow> bool) \<Rightarrow> (nat \<Rightarrow> 'a \<Rightarrow> 's \<Rightarrow> (string + 'a \<times> 's) option) \<Rightarrow> bool" where
  "keeps v data P h \<longleftrightarrow>
     (\<forall>w acc s acc' s'. placed v s \<longrightarrow> vw_whole v s = data \<longrightarrow> P acc \<longrightarrow> h w acc s = Some (Inr (acc', s')) \<longrightarrow> P acc')"

context consumed_stream
begin

lemma point_decoders_end:
  assumes "placed v (opened data)"
  shows "\<exists>r. deserialize_grid cd opened fp one pf gl gn data = Some r"
    and "\<exists>r. deserialize_voxel_grid cd opened fp one pf vg0 vn data = Some r"
    and "\<exists>r. deserialize_cloud cd opened fp one eq pf pc0 cn data = Some r"
    and "\<exists>r. deserialize_scan cd opened fp one eq tg sc step p ln data = Some r"
    and "\<exists>r. read_scan_info cd opened fp ln data = Some r"
  unfolding deserialize_grid_def deserialize_voxel_grid_def deserialize_cloud_def deserialize_scan_def read_scan_info_def
  by (intro decode_points_ends assms grid_top_sound voxel_top_sound cloud_top_sound scan_top_sound info_top_sound)+

text \<open>What every handler keeps, the loop keeps.\<close>

lemma strict_fields_keeps:
  assumes "\<And>f. sound_strict v (handle f)"
    and "\<And>f. keeps v data P (handle f)"
    and "placed v s" "vw_whole v s = data" "P acc" "strict_fields cd handle acc s = Some (Inr (x, s'))"
  shows "P x"
  using assms(3-6)
proof (induction "vw_lim v s - vw_pos v s" arbitrary: acc s rule: less_induct)
  case less
  obtain t s1 where t: "cd_tag cd s = (t, s1)" by fastforce
  have s1: "forward v s s1" "placed v s1" using tag_forward [OF less(2)] forward_placed [OF _ less(2)] t by auto
  show ?case
  proof (cases "t = 0")
    case True
    then show ?thesis using t less(4,5) by (simp add: strict_fields.simps [of cd handle acc s])
  next
    case False
    with tag_takes [OF less(2)] t have take: "vw_pos v s < vw_pos v s1" by simp
    from assms(1) s1(2) obtain r where h: "handle (field_of t) (wire_of t) acc s1 = Some r"
        "case r of Inl e \<Rightarrow> True | Inr (acc', s') \<Rightarrow> forward v s1 s'"
      by (auto simp: sound_strict_def) blast
    with less(5) t False obtain acc' s2 where r: "r = Inr (acc', s2)" "strict_fields cd handle acc' s2 = Some (Inr (x, s'))"
      by (auto simp: strict_fields.simps [of cd handle acc s] split: sum.splits)
    have s2: "forward v s1 s2" "placed v s2" using h(2) r(1) forward_placed [OF _ s1(2)] by auto
    have whole: "vw_whole v s1 = data" "vw_whole v s2 = data" using s1(1) s2(1) less(3) by (simp_all add: forward_def)
    have "vw_lim v s2 - vw_pos v s2 < vw_lim v s - vw_pos v s" using s1 s2 take by (auto simp: forward_def)
    moreover have "P acc'" using assms(2) s1(2) whole(1) less(4) h(1) r(1) unfolding keeps_def by blast
    ultimately show ?thesis using less(1) s2(2) whole(2) r(2) by blast
  qed
qed

lemma top_span_keeps:
  assumes "top_span cd e1 e2 e3 put w acc s = Some (Inr (acc', s'))" "placed v s" "P acc"
    "\<And>bytes. length bytes \<le> length (vw_whole v s) \<Longrightarrow> P (put bytes acc)"
  shows "P acc'"
proof -
  obtain n s1 where n: "cd_varint32 cd s = (n, s1)" by fastforce
  then have s1: "forward v s s1" "placed v s1" using varint32_forward [OF assms(2)] forward_placed [OF _ assms(2)] by auto
  from assms(1) n obtain len where len: "n = Some len" by (auto simp: top_span_def split: option.splits)
  show ?thesis
  proof (cases "len = 0")
    case True
    then show ?thesis using assms(1,3) n len by (simp add: top_span_def)
  next
    case False
    with assms(1) n len obtain bytes s2 where b: "cd_direct cd s1 = (Some bytes, s2)" "acc' = put (take len bytes) acc"
      by (auto simp: top_span_def split: option.splits prod.splits if_splits bool.splits)
    from direct_within [OF s1(2) b(1)] s1(1) have "length (take len bytes) \<le> length (vw_whole v s)" by (simp add: forward_def)
    with b(2) assms(4) show ?thesis by blast
  qed
qed

end

text \<open>C31. On any stream that behaves as the library documents, every decoder of a foxglove message returns, in an
  object or in an error: no payload makes its loops run for ever.\<close>

theorem foxglove_decoders_return:
  assumes "consumed_stream cd v" "placed v (opened data)"
  shows "deserialize_transform cd opened fp sd tn data \<noteq> None \<and> deserialize_odometry cd opened fp sd od data \<noteq> None
    \<and> deserialize_compressed_image cd opened sd cf data \<noteq> None \<and> deserialize_raw_image cd opened sd ri data \<noteq> None
    \<and> deserialize_calibration cd opened fp sd cal data \<noteq> None
    \<and> deserialize_annotations cd opened fp ss an data \<noteq> None \<and> deserialize_scene cd opened fp ss sn data \<noteq> None
    \<and> deserialize_grid cd opened fp one pf gl gn data \<noteq> None \<and> deserialize_voxel_grid cd opened fp one pf vg0 vn data \<noteq> None
    \<and> deserialize_cloud cd opened fp one eq pf pc0 cn data \<noteq> None
    \<and> deserialize_scan cd opened fp one eq tg sc step p ln data \<noteq> None \<and> read_scan_info cd opened fp ln data \<noteq> None"
  using coded_stream.object_decoders_end [OF consumed_stream.axioms(1) [OF assms(1)], of opened data, OF assms(2)]
    coded_stream.scene_decoders_end [OF consumed_stream.axioms(1) [OF assms(1)], of opened data, OF assms(2)]
    consumed_stream.point_decoders_end [OF assms(1), of opened data, OF assms(2)]
  by (metis option.distinct(1))

theorem foxglove_decoders_return_witness:
  "deserialize_transform byte_coded open_bytes bits_fp zero_sdk renumbered (replicate 40 (CHR 0xFF)) \<noteq> None"
  by (rule foxglove_decoders_return [OF byte_end.consumed_stream_axioms placed_open, THEN conjunct1])

subsection \<open>What is declared fits\<close>

definition cloud_fits :: "point_cloud \<Rightarrow> bool" where
  "cloud_fits c \<longleftrightarrow>
     pc_height c = 1 \<and> pc_row_step c = pc_width c * pc_step c \<and> pc_row_step c \<le> length (pc_data c)
     \<and> (0 < pc_step c \<longrightarrow> length (pc_data c) < (pc_width c + 1) * pc_step c)"

lemma shaped_cloud_fits: "length (pc_data c) < 2 ^ 32 \<Longrightarrow> cloud_fits (shaped_cloud c)"
proof -
  assume small: "length (pc_data c) < 2 ^ 32"
  let ?w = "length (pc_data c) div pc_step c"
  have "u32 ?w = ?w" using div_le_dividend small by (rule u32_below)
  moreover have "?w * pc_step c \<le> length (pc_data c)" by (metis div_times_less_eq_dividend)
  moreover from this small have "u32 (?w * pc_step c) = ?w * pc_step c" by (rule u32_below)
  moreover have "length (pc_data c) < (?w + 1) * pc_step c" if "0 < pc_step c"
    using that dividend_less_div_times [of "pc_step c" "length (pc_data c)"] by (simp add: algebra_simps)
  ultimately show ?thesis by (simp add: shaped_cloud_def cloud_fits_def Let_def u32_def)
qed

lemma collapse_keeps_shape:
  "collapse_channels c = Some c' \<Longrightarrow> pc_data c' = pc_data c \<and> pc_step c' = pc_step c \<and> pc_width c' = pc_width c
    \<and> pc_height c' = pc_height c \<and> pc_row_step c' = pc_row_step c"
  by (auto simp: collapse_channels_def Let_def split: if_splits)

text \<open>Handlers that leave the data alone.\<close>

lemma typed_result: "typed t e h w acc s = Some (Inr r) \<Longrightarrow> h w acc s = Some (Inr r)"
  by (simp add: typed_def split: if_splits)

lemma skip_or_result_same: "skip_or cd e w acc s = Some (Inr (acc', s')) \<Longrightarrow> acc' = acc"
  by (auto simp: skip_or_def split: prod.splits bool.splits)

lemma top_message_put: "top_message cd e r put w acc s = Some (Inr (acc', s')) \<Longrightarrow> \<exists>x. acc' = put x acc"
  by (auto simp: top_message_def split: if_splits option.splits prod.splits)

lemma top_sized_put: "top_sized cd e1 e2 r put w acc s = Some (Inr (acc', s')) \<Longrightarrow> \<exists>x. acc' = put x acc"
  by (auto simp: top_sized_def split: if_splits option.splits prod.splits)

lemma strict_string_put: "strict_string cd e get put w acc s = Some (Inr (acc', s')) \<Longrightarrow> \<exists>x. acc' = put x acc"
  by (auto simp: strict_string_def split: if_splits prod.splits bool.splits)

lemma strict_fixed32_put: "strict_fixed32 cd e put w acc s = Some (Inr (acc', s')) \<Longrightarrow> \<exists>x. acc' = put x acc"
  by (auto simp: strict_fixed32_def split: if_splits option.splits prod.splits)

lemmas handler_results = skip_or_result_same top_message_put top_sized_put strict_string_put strict_fixed32_put

context consumed_stream
begin

lemma cloud_top_small:
  "keeps v data (\<lambda>acc. length (pc_data (cd_cloud acc)) \<le> length data) (cloud_top cd fp one eq pf n f)"
  unfolding keeps_def
proof (intro allI impI)
  fix w acc s acc' s'
  assume assms: "placed v s" "vw_whole v s = data" "length (pc_data (cd_cloud acc)) \<le> length data" "cloud_top cd fp one eq pf n f w acc s = Some (Inr (acc', s'))"
  show "length (pc_data (cd_cloud acc')) \<le> length data"
  proof (cases "f = cl_data n \<and> (\<exists>e1 e2 e3. top_span cd e1 e2 e3 (on_cloud (\<lambda>x c. c\<lparr>pc_data := x\<rparr>)) w acc s = Some (Inr (acc', s')))")
    case True
    then obtain e1 e2 e3 where "top_span cd e1 e2 e3 (on_cloud (\<lambda>x c. c\<lparr>pc_data := x\<rparr>)) w acc s = Some (Inr (acc', s'))" by blast
    then show ?thesis by (rule top_span_keeps [where P = "\<lambda>acc. length (pc_data (cd_cloud acc)) \<le> length data"])
        (use assms in \<open>simp_all add: on_cloud_def\<close>)
  next
    case False
    with assms(3,4) show ?thesis
      by (auto simp: cloud_top_def on_cloud_def dest!: typed_result dest: handler_results split: if_splits)
  qed
qed

lemma voxel_top_small:
  "keeps v data (\<lambda>acc. length (vg_data acc) \<le> length data) (voxel_top cd fp one pf n f)"
  unfolding keeps_def
proof (intro allI impI)
  fix w acc s acc' s'
  assume assms: "placed v s" "vw_whole v s = data" "length (vg_data acc) \<le> length data" "voxel_top cd fp one pf n f w acc s = Some (Inr (acc', s'))"
  show "length (vg_data acc') \<le> length data"
  proof (cases "f = vf_data n \<and> (\<exists>e1 e2 e3. top_span cd e1 e2 e3 (\<lambda>x g. g\<lparr>vg_data := x\<rparr>) w acc s = Some (Inr (acc', s')))")
    case True
    then obtain e1 e2 e3 where "top_span cd e1 e2 e3 (\<lambda>x g. g\<lparr>vg_data := x\<rparr>) w acc s = Some (Inr (acc', s'))" by blast
    then show ?thesis by (rule top_span_keeps [where P = "\<lambda>acc. length (vg_data acc) \<le> length data"])
        (use assms in \<open>simp_all\<close>)
  next
    case False
    with assms(3,4) show ?thesis
      by (auto simp: voxel_top_def dest!: typed_result dest: handler_results split: if_splits)
  qed
qed

lemma grid_top_small:
  "keeps v data (\<lambda>acc. length (gm_data acc) \<le> length data) (grid_top cd fp one pf n f)"
  unfolding keeps_def
proof (intro allI impI)
  fix w acc s acc' s'
  assume assms: "placed v s" "vw_whole v s = data" "length (gm_data acc) \<le> length data" "grid_top cd fp one pf n f w acc s = Some (Inr (acc', s'))"
  show "length (gm_data acc') \<le> length data"
  proof (cases "f = gf_data n \<and> (\<exists>e1 e2 e3. top_span cd e1 e2 e3 (\<lambda>x g. g\<lparr>gm_data := x\<rparr>) w acc s = Some (Inr (acc', s')))")
    case True
    then obtain e1 e2 e3 where "top_span cd e1 e2 e3 (\<lambda>x g. g\<lparr>gm_data := x\<rparr>) w acc s = Some (Inr (acc', s'))" by blast
    then show ?thesis by (rule top_span_keeps [where P = "\<lambda>acc. length (gm_data acc) \<le> length data"])
        (use assms in \<open>simp_all\<close>)
  next
    case False
    with assms(3,4) show ?thesis
      by (auto simp: grid_top_def dest!: typed_result dest: handler_results split: if_splits)
  qed
qed

text \<open>A decoder whose handlers keep a property finishes on a message that has it.\<close>

lemma decode_points_keeps:
  assumes "decode_points cd opened what handle init finish data = Some (Inr r)" "placed v (opened data)" "vw_whole v (opened data) = data"
    and "\<And>f. sound_strict v (handle f)"
    and "\<And>f. keeps v data P (handle f)"
    and "P init"
  shows "length data \<le> int_max \<and> (\<exists>acc s. P acc \<and> finish acc s = Inr r)"
proof -
  from assms(1) obtain z where z: "length data \<le> int_max" "strict_fields cd handle init (opened data) = Some z"
      "(case z of Inl e \<Rightarrow> Inl e | Inr (acc, s) \<Rightarrow> finish acc s) = Inr r"
    by (auto simp: decode_points_def split: if_splits)
  then obtain acc s where r: "length data \<le> int_max" "strict_fields cd handle init (opened data) = Some (Inr (acc, s))" "finish acc s = Inr r"
    by (cases z) auto
  have "P acc" by (rule strict_fields_keeps [where handle = handle and P = P, OF assms(4,5,2,3,6) r(2)])
  with r show ?thesis by blast
qed

lemma cloud_fits_data:
  assumes "placed v (opened data)" "vw_whole v (opened data) = data"
    and "deserialize_cloud cd opened fp one eq pf pc0 n data = Some (Inr r)"
  shows "cloud_fits (cd_cloud r)"
proof -
  have init: "length (pc_data (cd_cloud \<lparr>cd_cloud = pc0\<lparr>pc_timestamp := 0, pc_step := 0, pc_data := []\<rparr>, cd_has_pose = False,
      cd_identity = True\<rparr>)) \<le> length data" by simp
  from decode_points_keeps [OF assms(3) [unfolded deserialize_cloud_def] assms(1,2) cloud_top_sound cloud_top_small init]
  obtain acc and s :: 's where acc: "length data \<le> int_max" "length (pc_data (cd_cloud acc)) \<le> length data" "finish_cloud acc s = Inr r" by blast
  then have "length (pc_data (cd_cloud acc)) < 2 ^ 32" by (simp add: int_max_def)
  from shaped_cloud_fits [OF this] collapse_keeps_shape [of "shaped_cloud (cd_cloud acc)"] acc(3) show ?thesis
    by (auto simp: finish_cloud_def Let_def cloud_fits_def split: option.splits)
qed

text \<open>The slices of a voxel grid, and the rows of a grid, are those its data holds.\<close>

lemma voxel_fits_data:
  assumes "placed v (opened data)" "vw_whole v (opened data) = data"
    and "deserialize_voxel_grid cd opened fp one pf vg0 n data = Some (Inr g)"
  shows "vg_slices g * vg_slice_stride g \<le> length (vg_data g)
    \<and> (0 < vg_slice_stride g \<longrightarrow> length (vg_data g) < (vg_slices g + 1) * vg_slice_stride g)"
proof -
  have init: "length (vg_data (vg0\<lparr>vg_origin := identity_pose fp one, vg_timestamp := 0, vg_data := []\<rparr>)) \<le> length data" by simp
  from decode_points_keeps [OF assms(3) [unfolded deserialize_voxel_grid_def] assms(1,2) voxel_top_sound voxel_top_small init]
  obtain acc and s :: 's where acc: "length data \<le> int_max" "length (vg_data acc) \<le> length data" "finish_voxel acc s = Inr g" by blast
  let ?n = "length (vg_data acc) div vg_slice_stride acc"
  have "length (vg_data acc) < 2 ^ 32" using acc(1,2) by (simp add: int_max_def)
  then have "u32 ?n = ?n" by (rule u32_below [OF div_le_dividend])
  moreover have "?n * vg_slice_stride acc \<le> length (vg_data acc)" by (metis div_times_less_eq_dividend)
  moreover have "length (vg_data acc) < (?n + 1) * vg_slice_stride acc" if "0 < vg_slice_stride acc"
    using that dividend_less_div_times [of "vg_slice_stride acc" "length (vg_data acc)"] by (simp add: algebra_simps)
  ultimately show ?thesis using acc(3) by (auto simp: finish_voxel_def)
qed

lemma grid_fits_data:
  assumes "placed v (opened data)" "vw_whole v (opened data) = data" "gm_data (gl_grid gl) = []"
    and "deserialize_grid cd opened fp one pf gl n data = Some (Inr g)"
  shows "gm_rows g * gm_row_stride g = length (gm_data g)"
proof -
  have init: "length (gm_data (gl_grid gl)) \<le> length data" using assms(3) by simp
  from decode_points_keeps [OF assms(4) [unfolded deserialize_grid_def] assms(1,2) grid_top_sound grid_top_small init]
  obtain acc s where acc: "length data \<le> int_max" "length (gm_data acc) \<le> length data" "finish_grid cd gl acc s = Inr g" by blast
  have "length (gm_data acc) < 2 ^ 32" using acc(1,2) by (simp add: int_max_def)
  then have "u32 (length (gm_data acc) div gm_row_stride acc) = length (gm_data acc) div gm_row_stride acc"
    by (rule u32_below [OF div_le_dividend])
  with acc(3) show ?thesis
    by (auto simp: finish_grid_def finalize_foxglove_grid_def Let_def split: if_splits option.splits)
qed

end

text \<open>C37. A point cloud that is decoded, whatever the bytes are, declares as many points as its data holds: the rows are as long as width
  times step without a wrap, they are within the data, and less than one more point remains.\<close>

theorem cloud_fits_its_data:
  assumes "consumed_stream cd v" "placed v (opened data)" "vw_whole v (opened data) = data"
    and "deserialize_cloud cd opened fp one eq pf pc0 n data = Some (Inr r)"
  shows "cloud_fits (cd_cloud r)"
  using consumed_stream.cloud_fits_data [OF assms] .

text \<open>A message of a stride and three bytes of data holds one point of two bytes.\<close>

lemma enc_varint_pos: "0 < length (enc_varint n)"
  by simp

lemma consumes_top_fixed32:
  assumes "h f = typed wire_i32 e1 (strict_fixed32 byte_coded e2 put)" "n < 2 ^ 32" "0 < f" "f < 2 ^ 29"
  shows "consumes_top h (enc_tag f wire_i32 @ enc_fixed 4 n) acc (put n acc)"
proof -
  have "n < 256 ^ 4" using assms(2) by simp
  then have "claims_top (h f) wire_i32 (enc_fixed 4 n) acc (put n acc)"
    unfolding claims_top_def assms(1) by (auto simp: typed_def strict_fixed32_def byte_coded_def dest: read_fixed_holds)
  from consumes_top_field [where h = h, OF this assms(3,4)] show ?thesis by (simp add: wire_i32_def)
qed

lemma consumes_top_span:
  assumes "h f = typed wire_len e0 (top_span byte_coded e1 e2 e3 put)" "length x < 2 ^ 31" "x \<noteq> []" "0 < f" "f < 2 ^ 29"
  shows "consumes_top h (enc_sub f x) acc (put x acc)"
proof -
  have "claims_top (h f) wire_len (enc_varint (length x) @ x) acc (put x acc)"
    unfolding claims_top_def assms(1)
  proof (intro allI impI)
    fix s r
    assume s: "holds s ((enc_varint (length x) @ x) @ r)"
    note l = read_length_holds [OF s assms(2)]
    let ?s1 = "after (length (enc_varint (length x))) s"
    have "read_exact (int (length x)) ?s1 = (Some x, after (length x) ?s1)" using l read_exact_holds by blast
    moreover have "cd_direct byte_coded ?s1 = (Some (x @ r), ?s1)"
      using holds_left [OF conjunct2 [OF l]] assms(3) by (simp add: byte_coded_def)
    ultimately show "typed wire_len e0 (top_span byte_coded e1 e2 e3 put) wire_len acc s
        = Some (Inr (put x acc, after (length (enc_varint (length x) @ x)) s))"
      using l assms(2,3) by (simp add: typed_def top_span_def as_int_small byte_coded_def)
  qed
  from consumes_top_field [where h = h, OF this assms(4,5)] show ?thesis by (simp add: enc_sub_def wire_len_def)
qed

lemma consumed_message:
  assumes "consumes_top h data init x"
  shows "\<exists>s. strict_fields byte_coded h init (open_bytes data) = Some (Inr (x, s))"
proof -
  have h: "holds (open_bytes data) (data @ [])"
    using placed_open [of data] by (simp add: holds_def bytes_left_def open_bytes_def Prelude.slice_def)
  let ?s = "after (length data) (open_bytes data)"
  have "holds ?s []" using holds_after [OF h] .
  then have "cd_tag byte_coded ?s = (0, ?s\<lparr>bs_ended := True\<rparr>)" by (simp add: byte_coded_def holds_left)
  moreover have "strict_fields byte_coded h init (open_bytes data) = strict_fields byte_coded h x ?s"
    using assms(1) h unfolding consumes_top_def by blast
  ultimately show ?thesis by (simp add: strict_fields.simps [of byte_coded h x ?s])
qed

definition cloud_numbers :: cloud_fields where
  "cloud_numbers = resolve_cloud (\<lambda>m n. None) (None :: unit option)"

definition sample_cloud_bytes :: string where
  "sample_cloud_bytes = (enc_tag 4 wire_i32 @ enc_fixed 4 2) @ enc_sub 6 ''abc''"

definition sample_cloud :: cloud_decode where
  "sample_cloud = \<lparr>cd_cloud = \<lparr>pc_timestamp = 0, pc_frame_id = [], pc_width = 1, pc_height = 1, pc_step = 2, pc_row_step = 2,
     pc_bigendian = False, pc_dense = True, pc_fields = [], pc_data = ''abc''\<rparr>, cd_has_pose = False, cd_identity = True\<rparr>"

definition blank_cloud :: point_cloud where
  "blank_cloud = \<lparr>pc_timestamp = 0, pc_frame_id = [], pc_width = 0, pc_height = 1, pc_step = 0, pc_row_step = 0, pc_bigendian = False,
     pc_dense = True, pc_fields = [], pc_data = []\<rparr>"

lemma sample_cloud_decoded:
  "deserialize_cloud byte_coded open_bytes bits_fp 1 (=) pf blank_cloud cloud_numbers sample_cloud_bytes = Some (Inr sample_cloud)"
proof -
  let ?h = "cloud_top byte_coded bits_fp 1 (=) pf cloud_numbers"
  let ?i = "\<lparr>cd_cloud = blank_cloud\<lparr>pc_timestamp := 0, pc_step := 0, pc_data := []\<rparr>, cd_has_pose = False, cd_identity = True\<rparr>"
  have n: "cl_timestamp cloud_numbers = 1" "cl_frame_id cloud_numbers = 2" "cl_pose cloud_numbers = 3" "cl_stride cloud_numbers = 4"
    "cl_fields cloud_numbers = 5" "cl_data cloud_numbers = 6"
    by (simp_all add: cloud_numbers_def resolve_cloud_def field_number_or_def)
  have "consumes_top ?h (enc_tag 4 wire_i32 @ enc_fixed 4 2) ?i (on_cloud (\<lambda>x c. c\<lparr>pc_step := x\<rparr>) 2 ?i)"
    by (rule consumes_top_fixed32) (simp_all add: cloud_top_def n)
  moreover have "consumes_top ?h (enc_sub 6 ''abc'') acc (on_cloud (\<lambda>x c. c\<lparr>pc_data := x\<rparr>) ''abc'' acc)" for acc
    by (rule consumes_top_span) (simp_all add: cloud_top_def n)
  ultimately have "consumes_top ?h sample_cloud_bytes ?i
      (on_cloud (\<lambda>x c. c\<lparr>pc_data := x\<rparr>) ''abc'' (on_cloud (\<lambda>x c. c\<lparr>pc_step := x\<rparr>) 2 ?i))"
    unfolding sample_cloud_bytes_def by (rule consumes_top_append)
  from consumed_message [OF this] obtain s where
    s: "strict_fields byte_coded ?h ?i (open_bytes sample_cloud_bytes)
      = Some (Inr (on_cloud (\<lambda>x c. c\<lparr>pc_data := x\<rparr>) ''abc'' (on_cloud (\<lambda>x c. c\<lparr>pc_step := x\<rparr>) 2 ?i), s))" by blast
  have "length sample_cloud_bytes \<le> int_max"
    by (simp add: sample_cloud_bytes_def enc_sub_def enc_tag_def wire_len_def wire_i32_def enc_varint.simps int_max_def)
  with s show ?thesis
    by (simp add: deserialize_cloud_def decode_points_def finish_cloud_def shaped_cloud_def Let_def on_cloud_def blank_cloud_def
        sample_cloud_def collapse_channels_def last_named_def is_u8_def u32_def)
qed

theorem cloud_fits_its_data_witness: "cloud_fits (cd_cloud sample_cloud)"
  using cloud_fits_its_data [OF byte_end.consumed_stream_axioms placed_open _ sample_cloud_decoded [of undefined]]
  by (simp add: open_bytes_def)

subsection \<open>Two readers of a pose\<close>

text \<open>A strict reader over a body whose fields are consumed.\<close>

lemma nested_reads:
  assumes "consumes_top h body acc x" "length body < 2 ^ 31" "holds s (body @ r)"
  shows "nested byte_coded h acc (length body) s = Some (Some (x, after (length body) s))"
proof -
  have s: "placed byte_view s" "\<not> bs_ended s" "bytes_left s = body @ r" using assms(3) by (simp_all add: holds_def)
  have len: "length body \<le> bs_lim s - bs_pos s" using bytes_left_length [OF s(1)] s(3) by simp
  have i: "as_int (length body) = int (length body)" using assms(2) by (rule as_int_small)
  have fits: "\<not> (length body > int_max \<or> as_int (length body) > cd_left byte_coded s)"
    using len i assms(2) by (simp add: byte_coded_def int_max_def)
  have lims: "bs_pos s \<le> bs_lim s" "bs_lim s \<le> length (bs_whole s)" using s(1) by (simp_all add: placed_def)
  let ?s1 = "s\<lparr>bs_lim := bs_pos s + length body\<rparr>"
  have push: "cd_push byte_coded (as_int (length body)) s = (int (bs_lim s), ?s1)"
    using i len lims by (cases s) (auto simp: byte_coded_def)
  have "bytes_left ?s1 = take (length body) (bytes_left s)" using len lims by (simp add: bytes_left_def Prelude.slice_def min_def)
  then have h1: "holds ?s1 (body @ [])" using s len lims by (simp add: holds_def placed_def)
  let ?s2 = "after (length body) ?s1"
  have h2: "holds ?s2 []" using holds_after [OF h1] .
  then have tag: "cd_tag byte_coded ?s2 = (0, ?s2\<lparr>bs_ended := True\<rparr>)" by (simp add: byte_coded_def holds_left)
  have "strict_fields byte_coded h acc ?s1 = strict_fields byte_coded h x ?s2"
    using assms(1) h1 unfolding consumes_top_def by blast
  then have loop: "strict_fields byte_coded h acc ?s1 = Some (Inr (x, ?s2\<lparr>bs_ended := True\<rparr>))"
    using tag by (simp add: strict_fields.simps [of byte_coded h x ?s2])
  have "cd_pop byte_coded (int (bs_lim s)) (?s2\<lparr>bs_ended := True\<rparr>) = after (length body) s"
    using s(2) by (cases s) (simp add: byte_coded_def after_def)
  moreover have "cd_consumed byte_coded (?s2\<lparr>bs_ended := True\<rparr>)" by (simp add: byte_coded_def)
  ultimately show ?thesis using fits push loop by (simp add: nested_def push_nested_def pop_nested_def)
qed

lemma consumes_top_double:
  assumes "h f = double_or byte_coded fp put" "bits < 2 ^ 64" "0 < f" "f < 2 ^ 29"
  shows "consumes_top h (enc_double f bits) acc (if bits = 0 then acc else put (fp_of_bits fp bits) acc)"
proof (cases "bits = 0")
  case True
  then show ?thesis by (simp add: enc_double_def consumes_top_def after_def)
next
  case False
  have "bits < 256 ^ 8" using assms(2) by simp
  then have "claims_top (h f) wire_i64 (enc_fixed 8 bits) acc (put (fp_of_bits fp bits) acc)"
    unfolding claims_top_def assms(1) by (auto simp: double_or_def read_or_def byte_coded_def dest: read_fixed_holds)
  from consumes_top_field [where h = h, OF this assms(3,4)] False show ?thesis by (simp add: enc_double_def wire_i64_def)
qed

text \<open>A quaternion as a proto3 writer writes it, in the order of the schema.\<close>

definition enc_quaternion :: "nat \<Rightarrow> nat \<Rightarrow> nat \<Rightarrow> nat \<Rightarrow> string" where
  "enc_quaternion x y z w = enc_double 1 x @ enc_double 2 y @ enc_double 3 z @ enc_double 4 w"

lemma enc_quaternion_length: "length (enc_quaternion x y z w) < 2 ^ 31"
  using enc_double_length [of 1 x] enc_double_length [of 2 y] enc_double_length [of 3 z] enc_double_length [of 4 w]
  by (simp add: enc_quaternion_def)

text \<open>The strict reader keeps a last component of one where the writer left out a zero; the reader of the other messages starts
  from zero, as its comment asks.\<close>

lemma wire_orientation_reads:
  assumes "x < 2 ^ 64" "y < 2 ^ 64" "z < 2 ^ 64" "w < 2 ^ 64" "fp_of_bits fp 0 = fp_zero fp" "holds s (enc_quaternion x y z w @ r)"
  shows "double_fields byte_coded fp quaternion_slots (ps_orientation (identity_pose fp one)) (length (enc_quaternion x y z w)) s
    = Some (Some (\<lparr>q_x = fp_of_bits fp x, q_y = fp_of_bits fp y, q_z = fp_of_bits fp z, q_w = if w = 0 then one else fp_of_bits fp w\<rparr>,
        after (length (enc_quaternion x y z w)) s))"
proof -
  let ?h = "slot_field byte_coded fp quaternion_slots" and ?i = "ps_orientation (identity_pose fp one)"
  note c = consumes_top_double [where h = ?h and fp = fp]
  have slots: "?h 1 = double_or byte_coded fp (\<lambda>d q. q\<lparr>q_x := d\<rparr>)" "?h 2 = double_or byte_coded fp (\<lambda>d q. q\<lparr>q_y := d\<rparr>)"
    "?h 3 = double_or byte_coded fp (\<lambda>d q. q\<lparr>q_z := d\<rparr>)" "?h 4 = double_or byte_coded fp (\<lambda>d q. q\<lparr>q_w := d\<rparr>)"
    by (simp_all add: slot_field_def quaternion_slots_def)
  note consumes_top_append [OF c [OF slots(1) assms(1)] consumes_top_append [OF c [OF slots(2) assms(2)]
    consumes_top_append [OF c [OF slots(3) assms(3)] c [OF slots(4) assms(4)]]], simplified, of ?i]
  then have "consumes_top ?h (enc_quaternion x y z w) ?i
      \<lparr>q_x = fp_of_bits fp x, q_y = fp_of_bits fp y, q_z = fp_of_bits fp z, q_w = if w = 0 then one else fp_of_bits fp w\<rparr>"
    using assms(5) by (cases "x = 0"; cases "y = 0"; cases "z = 0") (simp_all add: enc_quaternion_def identity_pose_def split: if_splits)
  from nested_reads [OF this enc_quaternion_length assms(6)] show ?thesis by (simp add: double_fields_def)
qed

subsection \<open>The summary of a scan\<close>

lemma advance_in: "placed byte_view s \<Longrightarrow> n \<le> bs_lim s - bs_pos s \<Longrightarrow> advance n s = after n s"
  by (auto simp: placed_def advance_def after_def)

lemma fixed64_in:
  "placed byte_view s \<Longrightarrow> cd_fixed64 byte_coded s
    = (if 8 \<le> bs_lim s - bs_pos s then (Some (little_endian (take 8 (bytes_left s))), after 8 s) else (None, s))"
  using bytes_left_length [of s] by (simp add: byte_coded_def read_fixed_def advance_in)

lemma placed_after: "placed byte_view s \<Longrightarrow> n \<le> bs_lim s - bs_pos s \<Longrightarrow> placed byte_view (after n s)"
  by (auto simp: placed_def after_def)

lemma read_doubles_in:
  "placed byte_view s \<Longrightarrow>
    (if 8 * n \<le> bs_lim s - bs_pos s
     then \<exists>xs. read_doubles byte_coded fp n out s = Some (out @ xs, after (8 * n) s) \<and> length xs = n
     else read_doubles byte_coded fp n out s = None)"
proof (induction n arbitrary: out s)
  case 0
  then show ?case by (simp add: after_def)
next
  case (Suc n)
  show ?case
  proof (cases "8 \<le> bs_lim s - bs_pos s")
    case True
    let ?x = "fp_of_bits fp (little_endian (take 8 (bytes_left s)))"
    have "bs_lim (after 8 s) - bs_pos (after 8 s) = bs_lim s - bs_pos s - 8" by (simp add: after_def)
    then have "8 * Suc n \<le> bs_lim s - bs_pos s \<longleftrightarrow> 8 * n \<le> bs_lim (after 8 s) - bs_pos (after 8 s)" using True by auto
    note rest = this Suc.IH [OF placed_after [OF Suc.prems True], of "out @ [?x]"]
    have step: "read_doubles byte_coded fp (Suc n) out s = read_doubles byte_coded fp n (out @ [?x]) (after 8 s)"
      using fixed64_in [OF Suc.prems] True by simp
    show ?thesis
    proof (cases "8 * Suc n \<le> bs_lim s - bs_pos s")
      case True
      with rest obtain xs where "read_doubles byte_coded fp n (out @ [?x]) (after 8 s) = Some ((out @ [?x]) @ xs, after (8 * n) (after 8 s))"
          "length xs = n" by auto
      with True step show ?thesis by (auto intro!: exI [of _ "?x # xs"])
    next
      case False
      with rest step show ?thesis by simp
    qed
  next
    case False
    then show ?thesis using fixed64_in [OF Suc.prems] by simp
  qed
qed

text \<open>A packed block of doubles takes the bytes that a skip takes.\<close>

lemma repeated_double_skips:
  assumes "placed byte_view s" "\<not> bs_ended s" "length (bs_whole s) \<le> int_max" "repeated_double byte_coded fp w out s = Some (xs, s')"
  shows "(w = wire_i64 \<and> skip_checked byte_coded w s = (True, s') \<and> length xs = length out + 1)
    \<or> (w = wire_len \<and> (\<exists>len s1. cd_varint32 byte_coded s = (Some len, s1) \<and> len mod 8 = 0 \<and> len \<le> int_max
        \<and> cd_skip byte_coded (as_int len) s1 = (True, s') \<and> length xs = length out + len div 8))"
proof (cases "w = wire_i64")
  case True
  with assms(1,4) fixed64_in [OF assms(1)] show ?thesis
    by (auto simp: repeated_double_def skip_checked_def wire_i64_def wire_varint_def split: if_splits)
next
  case False
  with assms(4) have w: "w = wire_len" by (auto simp: repeated_double_def split: if_splits)
  obtain n s1 where n: "cd_varint32 byte_coded s = (n, s1)" by fastforce
  with assms(4) False w obtain len where len: "n = Some len" "len mod 8 = 0" by (auto simp: repeated_double_def split: option.splits if_splits)
  have s1: "forward byte_view s s1" "placed byte_view s1"
    using byte.varint32_forward [OF assms(1)] forward_placed [OF _ assms(1)] n by auto
  have e: "\<not> bs_ended s1" using n assms(2) by (auto simp: byte_coded_def read_varint_def advance_def split: option.splits)
  have lims: "bs_pos s1 \<le> bs_lim s1" "bs_lim s1 \<le> length (bs_whole s1)" "bs_whole s1 = bs_whole s"
    using s1 by (simp_all add: placed_def forward_def)
  define left where "left = bs_lim s1 - bs_pos s1"
  obtain l s2 where p: "cd_push byte_coded (as_int len) s1 = (l, s2)" by fastforce
  then have s2: "l = int (bs_lim s1)" "s2 = (if 0 \<le> as_int len \<and> as_int len < int left then s1\<lparr>bs_lim := bs_pos s1 + nat (as_int len)\<rparr> else s1)"
    by (auto simp: byte_coded_def left_def)
  have "placed byte_view s2" using s2(2) s1(2) lims by (auto simp: placed_def left_def)
  from assms(4) False w n len p obtain s3 where s3: "read_doubles byte_coded fp (len div 8) out s2 = Some (xs, s3)" "s' = cd_pop byte_coded l s3"
    by (auto simp: repeated_double_def split: if_splits)
  have eight: "8 * (len div 8) = len" using len(2) by auto
  from read_doubles_in [OF \<open>placed byte_view s2\<close>, of "len div 8" fp out] s3(1) eight
  have fits: "len \<le> bs_lim s2 - bs_pos s2" and r: "s3 = after len s2" "length xs = length out + len div 8"
    by (auto split: if_splits)
  have "len \<le> left" using fits s2(2) by (auto simp: left_def split: if_splits)
  also have "left \<le> int_max" using lims assms(3) by (simp add: left_def)
  finally have max: "len \<le> int_max" .
  then have i: "as_int len = int len" by (simp add: int_max_def as_int_small)
  have "s' = after len s1"
    using s3(2) r(1) s2 e by (cases s1) (auto simp: byte_coded_def after_def)
  moreover have "cd_skip byte_coded (as_int len) s1 = (True, after len s1)"
    using \<open>len \<le> left\<close> bytes_left_length [OF s1(2)] advance_in [OF s1(2)] by (simp add: byte_coded_def i read_exact_def left_def)
  ultimately show ?thesis using w n len r(2) max by auto
qed

definition agrees :: "'d scan_decode \<Rightarrow> 'd scan_info \<Rightarrow> bool" where
  "agrees r i \<longleftrightarrow>
     si_timestamp i = sc_timestamp r \<and> si_frame_id i = sc_frame_id r \<and> si_start i = sc_start r \<and> si_end i = sc_end r
     \<and> si_num_ranges i = length (sc_ranges r)"

lemma top_message_agrees:
  assumes "top_message cd e (\<lambda>r. rd) put w r s = Some (Inr (r', s'))"
  shows "w = wire_len \<and> (\<exists>x. r' = put x r \<and> top_message cd e (\<lambda>i. rd) put' w i s = Some (Inr (put' x i, s')))"
  using assms by (auto simp: top_message_def split: if_splits option.splits prod.splits)

lemma strict_string_agrees:
  assumes "strict_string cd e get put w r s = Some (Inr (r', s'))" "get' i = get r"
  shows "w = wire_len \<and> (\<exists>x. r' = put x r \<and> strict_string cd e get' put' w i s = Some (Inr (put' x i, s')))"
  using assms by (auto simp: strict_string_def split: if_splits prod.splits bool.splits)

lemma top_double_agrees:
  assumes "top_double cd fp e put w r s = Some (Inr (r', s'))"
  shows "w = wire_i64 \<and> (\<exists>x. r' = put x r \<and> top_double cd fp e put' w i s = Some (Inr (put' x i, s')))"
  using assms by (auto simp: top_double_def split: if_splits option.splits prod.splits)

lemma skip_or_agrees:
  "skip_or cd e w r s = Some (Inr (r', s')) \<Longrightarrow> skip_or cd e w i s = Some (Inr (i, s')) \<and> r' = r"
  by (auto simp: skip_or_def split: prod.splits bool.splits)

lemma wires_differ: "wire_len \<noteq> wire_i64" "wire_len \<noteq> wire_varint" "wire_i64 \<noteq> wire_varint"
  by (simp_all add: wire_len_def wire_i64_def wire_varint_def)

text \<open>A field that the decoder takes, the summary takes or skips to the same place.\<close>

lemma ranges_agree:
  assumes "placed byte_view s" "\<not> bs_ended s" "length (bs_whole s) \<le> int_max"
    and "top_doubles byte_coded fp e sc_ranges (\<lambda>xs r. r\<lparr>sc_ranges := xs\<rparr>) w r s = Some (Inr (r', s'))" "agrees r i"
  shows "(w = wire_i64 \<and> (\<exists>i'. skip_range byte_coded w i s = Some (Inr (i', s')) \<and> agrees r' i'))
    \<or> (w = wire_len \<and> (\<exists>i'. skip_ranges byte_coded i s = Some (Inr (i', s')) \<and> agrees r' i'))"
proof -
  from assms(4) obtain xs where xs: "repeated_double byte_coded fp w (sc_ranges r) s = Some (xs, s')" "r' = r\<lparr>sc_ranges := xs\<rparr>"
    by (auto simp: top_doubles_def split: option.splits)
  from repeated_double_skips [OF assms(1-3) xs(1)] show ?thesis
  proof (elim disjE conjE exE)
    assume "w = wire_i64" "skip_checked byte_coded w s = (True, s')" "length xs = length (sc_ranges r) + 1"
    with assms(5) xs(2) show ?thesis by (simp add: skip_range_def agrees_def)
  next
    fix len s1
    assume "w = wire_len" "cd_varint32 byte_coded s = (Some len, s1)" "len mod 8 = 0"
      "cd_skip byte_coded (as_int len) s1 = (True, s')" "length xs = length (sc_ranges r) + len div 8"
    with assms(5) xs(2) show ?thesis by (simp add: skip_ranges_def Let_def agrees_def)
  qed
qed

lemma intensities_agree:
  assumes "placed byte_view s" "\<not> bs_ended s" "length (bs_whole s) \<le> int_max"
    and "top_doubles byte_coded fp e sc_intensities (\<lambda>xs r. r\<lparr>sc_intensities := xs\<rparr>) w r s = Some (Inr (r', s'))" "agrees r i"
  shows "skip_or byte_coded e' w i s = Some (Inr (i, s')) \<and> agrees r' i"
proof -
  from assms(4) obtain xs where xs: "repeated_double byte_coded fp w (sc_intensities r) s = Some (xs, s')" "r' = r\<lparr>sc_intensities := xs\<rparr>"
    by (auto simp: top_doubles_def split: option.splits)
  from repeated_double_skips [OF assms(1-3) xs(1)] show ?thesis
  proof (elim disjE conjE exE)
    assume "w = wire_i64" "skip_checked byte_coded w s = (True, s')"
    with assms(5) xs(2) show ?thesis by (simp add: skip_or_def agrees_def)
  next
    fix len s1
    assume "w = wire_len" "cd_varint32 byte_coded s = (Some len, s1)" "len \<le> int_max" "cd_skip byte_coded (as_int len) s1 = (True, s')"
    with assms(5) xs(2) wires_differ show ?thesis by (simp add: skip_or_def skip_checked_def agrees_def)
  qed
qed

lemma scan_step_agrees:
  assumes s: "placed byte_view s" "\<not> bs_ended s" "length (bs_whole s) \<le> int_max"
    and h: "scan_top byte_coded fp one eq n f w r s = Some (Inr (r', s'))" "\<not> sc_has_pose r'" and i: "agrees r i"
  shows "\<exists>i'. info_top byte_coded fp n f w i s = Some (Inr (i', s')) \<and> agrees r' i'"
proof -
  consider (t) "f = sn_timestamp n" | (d) "f = sn_frame_id n" "f \<noteq> sn_timestamp n"
    | (p) "f = sn_pose n" "f \<notin> {sn_timestamp n, sn_frame_id n}"
    | (a) "f = sn_start_angle n" "f \<notin> {sn_timestamp n, sn_frame_id n, sn_pose n}"
    | (b) "f = sn_end_angle n" "f \<notin> {sn_timestamp n, sn_frame_id n, sn_pose n, sn_start_angle n}"
    | (r) "f = sn_ranges n" "f \<notin> {sn_timestamp n, sn_frame_id n, sn_pose n, sn_start_angle n, sn_end_angle n}"
    | (x) "f = sn_intensities n" "f \<notin> {sn_timestamp n, sn_frame_id n, sn_pose n, sn_start_angle n, sn_end_angle n, sn_ranges n}"
    | (other) "f \<notin> {sn_timestamp n, sn_frame_id n, sn_pose n, sn_start_angle n, sn_end_angle n, sn_ranges n, sn_intensities n}"
    by blast
  then show ?thesis
  proof cases
    case t
    with h(1) have "top_message byte_coded (scan_name ''failed to read timestamp'') (\<lambda>r. wire_timestamp byte_coded)
        (\<lambda>t r. r\<lparr>sc_timestamp := t\<rparr>) w r s = Some (Inr (r', s'))" by (auto simp: scan_top_def dest: typed_result)
    from top_message_agrees [OF this, of "\<lambda>t i. i\<lparr>si_timestamp := t\<rparr>" i] obtain x where "w = wire_len" "r' = r\<lparr>sc_timestamp := x\<rparr>"
        "top_message byte_coded (scan_name ''failed to read timestamp'') (\<lambda>i. wire_timestamp byte_coded) (\<lambda>t i. i\<lparr>si_timestamp := t\<rparr>) w i s
          = Some (Inr (i\<lparr>si_timestamp := x\<rparr>, s'))" by blast
    with t i show ?thesis by (simp add: info_top_def agrees_def)
  next
    case d
    with h(1) have "strict_string byte_coded (scan_name ''failed to read frame_id'') sc_frame_id (\<lambda>x r. r\<lparr>sc_frame_id := x\<rparr>) w r s
        = Some (Inr (r', s'))" by (auto simp: scan_top_def dest: typed_result)
    from strict_string_agrees [OF this, of si_frame_id i "\<lambda>x i. i\<lparr>si_frame_id := x\<rparr>"] i obtain x where "w = wire_len" "r' = r\<lparr>sc_frame_id := x\<rparr>"
        "strict_string byte_coded (scan_name ''failed to read frame_id'') si_frame_id (\<lambda>x i. i\<lparr>si_frame_id := x\<rparr>) w i s
          = Some (Inr (i\<lparr>si_frame_id := x\<rparr>, s'))" by (auto simp: agrees_def)
    with d i show ?thesis by (simp add: info_top_def agrees_def)
  next
    case p
    with h have False by (auto simp: scan_top_def dest!: typed_result top_sized_put)
    then show ?thesis ..
  next
    case a
    with h(1) have "top_double byte_coded fp (scan_name ''failed to read start_angle'') (\<lambda>d r. r\<lparr>sc_start := d\<rparr>) w r s = Some (Inr (r', s'))"
      by (auto simp: scan_top_def)
    from top_double_agrees [OF this, of "\<lambda>d i. i\<lparr>si_start := d\<rparr>" i] obtain x where "w = wire_i64" "r' = r\<lparr>sc_start := x\<rparr>"
        "top_double byte_coded fp (scan_name ''failed to read start_angle'') (\<lambda>d i. i\<lparr>si_start := d\<rparr>) w i s = Some (Inr (i\<lparr>si_start := x\<rparr>, s'))" by blast
    with a i show ?thesis by (simp add: info_top_def agrees_def)
  next
    case b
    with h(1) have "top_double byte_coded fp (scan_name ''failed to read end_angle'') (\<lambda>d r. r\<lparr>sc_end := d\<rparr>) w r s = Some (Inr (r', s'))"
      by (auto simp: scan_top_def)
    from top_double_agrees [OF this, of "\<lambda>d i. i\<lparr>si_end := d\<rparr>" i] obtain x where "w = wire_i64" "r' = r\<lparr>sc_end := x\<rparr>"
        "top_double byte_coded fp (scan_name ''failed to read end_angle'') (\<lambda>d i. i\<lparr>si_end := d\<rparr>) w i s = Some (Inr (i\<lparr>si_end := x\<rparr>, s'))" by blast
    with b i show ?thesis by (simp add: info_top_def agrees_def)
  next
    case r
    with h(1) have "top_doubles byte_coded fp (scan_name ''failed to read ranges'') sc_ranges (\<lambda>xs r. r\<lparr>sc_ranges := xs\<rparr>) w r s
        = Some (Inr (r', s'))" by (auto simp: scan_top_def)
    from ranges_agree [OF s this i] r wires_differ show ?thesis by (elim disjE conjE) (simp_all add: info_top_def)
  next
    case x
    with h(1) have "top_doubles byte_coded fp (scan_name ''failed to read intensities'') sc_intensities (\<lambda>xs r. r\<lparr>sc_intensities := xs\<rparr>) w r s
        = Some (Inr (r', s'))" by (auto simp: scan_top_def)
    from intensities_agree [OF s this i] x show ?thesis by (simp add: info_top_def)
  next
    case other
    with h(1) have "skip_or byte_coded (scan_name ''malformed message'') w r s = Some (Inr (r', s'))" by (auto simp: scan_top_def)
    from skip_or_agrees [OF this, of i] other i show ?thesis by (simp add: info_top_def)
  qed
qed

lemma pose_stays: "keeps v data sc_has_pose (scan_top cd fp one eq n f)"
proof -
  have "sc_has_pose acc'" if "sc_has_pose acc" "scan_top cd fp one eq n f w acc s = Some (Inr (acc', s'))" for w acc s acc' s'
    using that
    by (auto simp: scan_top_def top_doubles_def top_double_def dest!: typed_result dest: handler_results
        split: if_splits option.splits prod.splits)
  then show ?thesis unfolding keeps_def by blast
qed

lemma scan_loop_agrees:
  assumes "placed byte_view s" "length (bs_whole s) \<le> int_max" "agrees r i"
    and "strict_fields byte_coded (scan_top byte_coded fp one eq n) r s = Some (Inr (x, s'))" "\<not> sc_has_pose x"
  shows "\<exists>i'. strict_fields byte_coded (info_top byte_coded fp n) i s = Some (Inr (i', s')) \<and> agrees x i'"
  using assms(1-4)
proof (induction "bs_lim s - bs_pos s" arbitrary: r i s rule: less_induct)
  case less
  let ?h = "scan_top byte_coded fp one eq n" and ?k = "info_top byte_coded fp n"
  obtain t s1 where t: "cd_tag byte_coded s = (t, s1)" by fastforce
  have s1: "forward byte_view s s1" "placed byte_view s1" using byte.tag_forward [OF less(2)] forward_placed [OF _ less(2)] t by auto
  show ?case
  proof (cases "t = 0")
    case True
    then show ?thesis using t less(4,5)
      by (simp add: strict_fields.simps [of byte_coded ?h r s] strict_fields.simps [of byte_coded ?k i s])
  next
    case False
    have take: "bs_pos s < bs_pos s1" using byte.tag_takes [OF less(2)] t False by simp
    have e: "\<not> bs_ended s1" using t False by (auto simp: byte_coded_def split: if_splits prod.splits option.splits)
    from byte_end.scan_top_sound [of fp one eq n "field_of t"] s1(2) obtain q where
      q: "?h (field_of t) (wire_of t) r s1 = Some q" "case q of Inl e \<Rightarrow> True | Inr (acc', s') \<Rightarrow> forward byte_view s1 s'"
      by (auto simp: sound_strict_def) blast
    with less(5) t False obtain r2 s2 where r2: "q = Inr (r2, s2)" "strict_fields byte_coded ?h r2 s2 = Some (Inr (x, s'))"
      by (auto simp: strict_fields.simps [of byte_coded ?h r s] split: sum.splits)
    have s2: "forward byte_view s1 s2" "placed byte_view s2" using q(2) r2(1) forward_placed [OF _ s1(2)] by auto
    have whole: "length (bs_whole s1) \<le> int_max" "length (bs_whole s2) \<le> int_max"
      using s1(1) s2(1) less(3) by (simp_all add: forward_def)
    have "\<not> sc_has_pose r2"
      using byte_end.strict_fields_keeps [where handle = ?h and P = sc_has_pose, OF byte_end.scan_top_sound pose_stays s2(2) refl _ r2(2)]
        assms(5) by blast
    from scan_step_agrees [OF s1(2) e whole(1) _ this less(4)] q(1) r2(1) obtain i2 where
      i2: "?k (field_of t) (wire_of t) i s1 = Some (Inr (i2, s2))" "agrees r2 i2" by blast
    have "bs_lim s2 - bs_pos s2 < bs_lim s - bs_pos s" using s1 s2 take by (auto simp: forward_def placed_def)
    from less(1) [OF this s2(2) whole(2) i2(2) r2(2)] i2(1) t False show ?thesis
      by (simp add: strict_fields.simps [of byte_coded ?k i s])
  qed
qed

text \<open>C38. The summary of a laser scan agrees with its decoding: when a message without a pose is decoded, the summary is read too, with the
  same timestamp, frame and angles, and as many ranges as the scan has rays, packed or not.\<close>

theorem scan_info_agrees:
  assumes "deserialize_scan byte_coded open_bytes fp one eq tg sc step p n data = Some (Inr (r, p'))" "\<not> sr_has_pose r"
  shows "\<exists>i. read_scan_info byte_coded open_bytes fp n data = Some (Inr i)
    \<and> si_timestamp i = pc_timestamp (sr_cloud r) \<and> si_frame_id i = pc_frame_id (sr_cloud r)
    \<and> si_start i = sr_start r \<and> si_end i = sr_end r \<and> si_num_ranges i = sr_ray_count r"
proof -
  let ?h = "scan_top byte_coded fp one eq n"
  from assms(1) obtain z where z: "length data \<le> int_max" "strict_fields byte_coded ?h (new_scan fp) (open_bytes data) = Some z"
      "(case z of Inl e \<Rightarrow> Inl e | Inr (acc, s) \<Rightarrow> finish_scan tg sc step fp p acc s) = Inr (r, p')"
    by (auto simp: deserialize_scan_def decode_points_def split: if_splits)
  then obtain x s where x: "strict_fields byte_coded ?h (new_scan fp) (open_bytes data) = Some (Inr (x, s))"
      "finish_scan tg sc step fp p x s = Inr (r, p')" by (cases z) auto
  then have r: "sr_start r = sc_start x" "sr_end r = sc_end x" "sr_ray_count r = length (sc_ranges x)" "sr_has_pose r = sc_has_pose x"
    "pc_frame_id (sr_cloud r) = sc_frame_id x" "pc_timestamp (sr_cloud r) = sc_timestamp x"
    by (auto simp: finish_scan_def Let_def split: prod.splits)
  have "length (bs_whole (open_bytes data)) \<le> int_max" using z(1) by (simp add: open_bytes_def)
  moreover have "agrees (new_scan fp) (blank_info fp)" by (simp add: agrees_def new_scan_def blank_info_def)
  moreover have "\<not> sc_has_pose x" using assms(2) r(4) by simp
  ultimately obtain i where "strict_fields byte_coded (info_top byte_coded fp n) (blank_info fp) (open_bytes data) = Some (Inr (i, s))" "agrees x i"
    using scan_loop_agrees [OF placed_open _ _ x(1)] by blast
  with z(1) r show ?thesis by (auto simp: read_scan_info_def decode_points_def agrees_def)
qed

text \<open>A message of one range, not packed.\<close>

definition scan_numbers :: laser_fields where
  "scan_numbers = resolve_scan (\<lambda>m n. None) (None :: unit option)"

definition one_range :: string where "one_range = enc_tag 6 wire_i64 @ enc_fixed 8 7"

lemma one_range_decoded:
  "\<exists>r p'. deserialize_scan byte_coded open_bytes bits_fp 1 (=) sample_trig sample_scalar (\<lambda>a b n. 0) (new_projector sample_trig) scan_numbers one_range
    = Some (Inr (r, p')) \<and> \<not> sr_has_pose r \<and> sr_ray_count r = 1"
proof -
  let ?h = "scan_top byte_coded bits_fp 1 (=) scan_numbers"
  have n: "sn_timestamp scan_numbers = 1" "sn_frame_id scan_numbers = 2" "sn_pose scan_numbers = 3" "sn_start_angle scan_numbers = 4"
    "sn_end_angle scan_numbers = 5" "sn_ranges scan_numbers = 6" "sn_intensities scan_numbers = 7"
    by (simp_all add: scan_numbers_def resolve_scan_def field_number_or_def)
  have six: "?h 6 = top_doubles byte_coded bits_fp (scan_name ''failed to read ranges'') sc_ranges (\<lambda>xs r. r\<lparr>sc_ranges := xs\<rparr>)"
    by (simp add: scan_top_def n)
  have "claims_top (?h 6) wire_i64 (enc_fixed 8 7) (new_scan bits_fp) ((new_scan bits_fp)\<lparr>sc_ranges := [7]\<rparr>)"
    unfolding claims_top_def six
    by (auto simp: top_doubles_def repeated_double_def byte_coded_def new_scan_def bits_fp_def dest: read_fixed_holds)
  then have "consumes_top ?h one_range (new_scan bits_fp) ((new_scan bits_fp)\<lparr>sc_ranges := [7]\<rparr>)"
    unfolding one_range_def by (rule consumes_top_field) (simp_all add: wire_i64_def)
  from consumed_message [OF this] obtain s where
    s: "strict_fields byte_coded ?h (new_scan bits_fp) (open_bytes one_range) = Some (Inr ((new_scan bits_fp)\<lparr>sc_ranges := [7]\<rparr>, s))" by blast
  have "length one_range \<le> int_max" by (simp add: one_range_def enc_tag_def wire_i64_def enc_varint.simps int_max_def)
  with s show ?thesis
    by (simp add: deserialize_scan_def decode_points_def finish_scan_def new_scan_def Let_def split: prod.split)
qed

theorem scan_info_agrees_witness:
  "\<exists>i. read_scan_info byte_coded open_bytes bits_fp scan_numbers one_range = Some (Inr i) \<and> si_num_ranges i = 1"
proof -
  obtain r p' where r: "deserialize_scan byte_coded open_bytes bits_fp 1 (=) sample_trig sample_scalar (\<lambda>a b n. 0)
      (new_projector sample_trig) scan_numbers one_range = Some (Inr (r, p'))" "\<not> sr_has_pose r" "sr_ray_count r = 1"
    using one_range_decoded by blast
  from scan_info_agrees [OF r(1,2)] r(3) show ?thesis by auto
qed

end
