(* ===== verification/TransferRate.thy ===== *)
theory TransferRate
  imports Prelude
begin

section \<open>Transfer rates (common/transfer_rate)\<close>

text \<open>
  The samples of one cumulative byte count over the last five seconds, in nanoseconds of a steady clock. Facts
  shown: after any calls the samples are in strictly increasing time and non-decreasing bytes, so the rate
  divides by a positive time and its difference of unsigned counts does not wrap; the samples older than the window are gone
  unless only two are left; the rate is that of the oldest and the newest sample of an uninterrupted run of
  calls.
\<close>

record rate_sample =
  rs_time :: int
  rs_bytes :: nat

definition window_ns :: int where "window_ns = 5000000000"

fun drop_old :: "int \<Rightarrow> rate_sample list \<Rightarrow> rate_sample list" where
  "drop_old now (s # ss) = (if length ss \<ge> 2 \<and> rs_time s < now - window_ns then drop_old now ss else s # ss)"
| "drop_old now [] = []"

definition rate_add :: "nat \<Rightarrow> int \<Rightarrow> rate_sample list \<Rightarrow> rate_sample list" where
  "rate_add bytes now samples =
     (let ss = (if samples \<noteq> [] \<and> (now < rs_time (last samples) \<or> bytes < rs_bytes (last samples)) then [] else samples);
          ss = (if ss \<noteq> [] \<and> now = rs_time (last ss) then butlast ss @ [(last ss)\<lparr>rs_bytes := bytes\<rparr>]
                else ss @ [\<lparr>rs_time = now, rs_bytes = bytes\<rparr>])
      in drop_old now ss)"

text \<open>The quotient of bytes and nanoseconds whose value in seconds the code returns; None is the constant zero. The
  difference of the counts is the unsigned one of the code.\<close>

definition bytes_per_second :: "rate_sample list \<Rightarrow> (nat \<times> int) option" where
  "bytes_per_second ss =
     (if length ss < 2 then None
      else Some (nat ((int (rs_bytes (last ss)) - int (rs_bytes (hd ss))) mod 2 ^ 64), rs_time (last ss) - rs_time (hd ss)))"

definition later :: "rate_sample \<Rightarrow> rate_sample \<Rightarrow> bool" where
  "later s t \<longleftrightarrow> rs_time s < rs_time t \<and> rs_bytes s \<le> rs_bytes t"

definition samples_ok :: "rate_sample list \<Rightarrow> bool" where
  "samples_ok ss \<longleftrightarrow> sorted_wrt later ss"

lemma drop_old_suffix: "\<exists>pre. ss = pre @ drop_old now ss"
  by (induction now ss rule: drop_old.induct) (auto simp: Cons_eq_append_conv)

lemma drop_old_last: "ss \<noteq> [] \<Longrightarrow> drop_old now ss \<noteq> [] \<and> last (drop_old now ss) = last ss"
  by (induction now ss rule: drop_old.induct) force+

lemma drop_old_length: "2 \<le> length ss \<Longrightarrow> 2 \<le> length (drop_old now ss)"
  by (induction now ss rule: drop_old.induct) auto

lemma drop_old_window: "length (drop_old now ss) \<le> 2 \<or> now - window_ns \<le> rs_time (hd (drop_old now ss))"
  by (induction now ss rule: drop_old.induct) auto

lemma drop_old_keeps: "samples_ok ss \<Longrightarrow> samples_ok (drop_old now ss)"
  using drop_old_suffix [of ss now] by (metis samples_ok_def sorted_wrt_append)

lemma later_trans: "later s t \<Longrightarrow> later t u \<Longrightarrow> later s u"
  by (auto simp: later_def)

lemma rate_add_ok: "samples_ok ss \<Longrightarrow> samples_ok (rate_add bytes now ss)"
proof -
  assume ok: "samples_ok ss"
  have snoc: "samples_ok (us @ [t])" if "samples_ok us" "us \<noteq> [] \<Longrightarrow> later (last us) t" for us t
    using that later_trans
    by (cases us rule: rev_cases) (auto simp: samples_ok_def sorted_wrt_append)
  have same: "samples_ok (butlast us @ [(last us)\<lparr>rs_bytes := bytes\<rparr>])"
    if "samples_ok us" "us \<noteq> []" "rs_bytes (last us) \<le> bytes" for us
    using that by (cases us rule: rev_cases) (auto simp: samples_ok_def sorted_wrt_append later_def)
  show ?thesis
    using ok snoc [OF ok, of "\<lparr>rs_time = now, rs_bytes = bytes\<rparr>"] snoc [of "[]" "\<lparr>rs_time = now, rs_bytes = bytes\<rparr>"] same [OF ok]
    by (auto simp: rate_add_def Let_def later_def intro!: drop_old_keeps) (auto simp: samples_ok_def)
qed

text \<open>The samples after a sequence of calls.\<close>

definition after_adds :: "(nat \<times> int) list \<Rightarrow> rate_sample list" where
  "after_adds calls = fold (\<lambda>(bytes, now). rate_add bytes now) calls []"

lemma after_adds_snoc: "after_adds (calls @ [(bytes, now)]) = rate_add bytes now (after_adds calls)"
  by (simp add: after_adds_def)

lemma after_adds_ok: "samples_ok (after_adds calls)"
  by (induction calls rule: rev_induct) (auto simp: after_adds_snoc rate_add_ok, simp add: after_adds_def samples_ok_def)

lemma rate_add_last: "rate_add bytes now ss \<noteq> [] \<and> last (rate_add bytes now ss) = \<lparr>rs_time = now, rs_bytes = bytes\<rparr>"
proof -
  have "drop_old now us \<noteq> [] \<and> last (drop_old now us) = \<lparr>rs_time = now, rs_bytes = bytes\<rparr>"
    if "us \<noteq> []" "last us = \<lparr>rs_time = now, rs_bytes = bytes\<rparr>" for us
    using drop_old_last [OF that(1)] that(2) by simp
  then show ?thesis by (auto simp: rate_add_def Let_def)
qed

lemma rate_add_window: "length (rate_add bytes now ss) \<le> 2 \<or> now - window_ns \<le> rs_time (hd (rate_add bytes now ss))"
  unfolding rate_add_def Let_def by (rule drop_old_window)

text \<open>C36. After any calls of \<open>add\<close> the newest sample is the last call, the oldest is within the window or one of
  two, and a rate is the bytes between them, counted without wrapping, over a positive time.\<close>

theorem rate_well_defined:
  assumes "calls \<noteq> []" "\<forall>(bytes, now) \<in> set calls. bytes < 2 ^ 64"
  shows "let ss = after_adds calls in
    last ss = \<lparr>rs_time = snd (last calls), rs_bytes = fst (last calls)\<rparr>
    \<and> (length ss \<le> 2 \<or> snd (last calls) - window_ns \<le> rs_time (hd ss))
    \<and> (\<forall>b t. bytes_per_second ss = Some (b, t) \<longrightarrow> 0 < t \<and> b = rs_bytes (last ss) - rs_bytes (hd ss) \<and> rs_bytes (hd ss) \<le> rs_bytes (last ss))"
proof -
  obtain cs bytes now where calls: "calls = cs @ [(bytes, now)]" using assms(1) by (metis rev_exhaust surj_pair)
  define ss where "ss = after_adds calls"
  have last: "ss \<noteq> []" "last ss = \<lparr>rs_time = now, rs_bytes = bytes\<rparr>"
    using rate_add_last by (simp_all add: ss_def calls after_adds_snoc)
  have "later (hd ss) (last ss)" if "2 \<le> length ss"
  proof -
    obtain s us where us: "ss = s # us" using last(1) by (cases ss) auto
    with that have "us \<noteq> []" by auto
    with us after_adds_ok [of calls] show ?thesis by (auto simp: ss_def [symmetric] samples_ok_def)
  qed
  moreover have "bytes < 2 ^ 64" using assms(2) calls by auto
  ultimately have rate: "0 < t \<and> b = rs_bytes (last ss) - rs_bytes (hd ss) \<and> rs_bytes (hd ss) \<le> rs_bytes (last ss)"
    if "bytes_per_second ss = Some (b, t)" for b t
    using that last(2) by (auto simp: bytes_per_second_def later_def nat_diff_distrib split: if_splits)
  have "length ss \<le> 2 \<or> now - window_ns \<le> rs_time (hd ss)"
    using rate_add_window by (simp add: ss_def calls after_adds_snoc)
  moreover have "snd (last calls) = now" "fst (last calls) = bytes" using calls by simp_all
  ultimately show ?thesis using last(2) rate unfolding ss_def [symmetric] Let_def by simp
qed

theorem rate_well_defined_witness:
  "last (after_adds [(10, 0), (5, 1), (40, 4)]) = \<lparr>rs_time = 4, rs_bytes = 40\<rparr>"
  using rate_well_defined [of "[(10, 0), (5, 1), (40, 4)]"] by (simp add: Let_def)

end
