(* ===== verification/Spec2Isabelle.thy ===== *)
theory Spec2Isabelle
  imports QueryFilter CandumpImport BridgeSource FoxgloveSource ScriptChunks CsvImport WebrtcSource FoxPointFacts TransferRate
begin

text \<open>
  A verification development for the official PlotJuggler plugins: loaders, streamers, message parsers and
  toolboxes, each a shared library that a host application drives through an SDK. Modelled here is the
  logic the plugins own: a query language, the imports of CAN bus captures and of CSV files, streaming
  sessions over WebSockets and WebRTC, the scripts of derived series, and the decoders of foxglove messages.
  The SDK, the libraries and the host are parameters.

  \<^bold>\<open>Theories, in dependency order.\<close>
  \<^item> \<open>Prelude\<close>: lists, scanning of strings, decimal printing, shared by all components.
  \<^item> \<open>QueryToken\<close>, \<open>QueryParser\<close>, \<open>QueryDoc\<close>, \<open>QueryEdit\<close> (common/query): the lexer, the
    recursive-descent parser with its shorthand state, completeness check and serializer, the document with
    its cursor lookups, and completion and editing. Tokens cover the source; a well-formed tree printed and
    parsed is itself; expansion of a complete query is idempotent; a quoted value is one token; a
    completion changes one item and nothing else.
  \<^item> \<open>QueryFilter\<close> (common/query filter.hpp, toolbox_mosaico query_engine.h): the row filter and the Lua
    engine over a table of globals. The rows shown are those whose own data pass, with the globals
    restored after each row.
  \<^item> \<open>CandumpLine\<close>, \<open>CandumpScan\<close> (data_load_candump candump_parser.cpp): the line grammars, 64-bit
    timestamps with their saturation, the clock, the detection of relative time, the prescan. Printed
    frames read back; a data line satisfies its bounds; every line is counted once.
  \<^item> \<open>CanDecode\<close> (common/can_dbc), \<open>CsvDictionary\<close> (data_load_candump csv_dictionary.cpp): the
    dictionary index and decoding, and the translation of CSV dictionaries to DBC text.
  \<^item> \<open>CandumpImport\<close> (data_load_candump candump_source.cpp): the import loop that runs all of these
    against the host. Its caches do not change the calls the host sees.
  \<^item> \<open>BridgeQueue\<close>, \<open>BridgeFrame\<close> (data_stream_pj_bridge): the bounded queue between the transport's
    thread and the poll thread, and the binary frame format.
  \<^item> \<open>OrdMap\<close>, \<open>Json\<close>: \<open>std::map\<close> and \<open>std::set\<close> in key order, and the JSON values the code inspects.
  \<^item> \<open>TopicControl\<close>: the control planes of the bridge, foxglove and ROS 2 streamers under one contract, the
    locale \<open>reconciler\<close>, interpreted on all three.
  \<^item> \<open>BridgeSource\<close> (pj_bridge_source.cpp): the session as a state machine composed of the theories
    before it, with its step relation, reachable states and invariant.
  \<^item> \<open>Base64\<close> (common/base64), \<open>FoxgloveWire\<close> (foxglove_protocol.hpp), \<open>FoxgloveSource\<close>
    (foxglove_source.cpp): the decoder, the frames and requests, and the foxglove session, whose polls may
    end in an exception. The channels subscribed are at all times those wanted; a lost connection is
    retried; four ways in which the code goes wrong are shown on sample sessions.
  \<^item> \<open>ScriptTokens\<close>, \<open>ScriptNames\<close>, \<open>SeriesPaths\<close>, \<open>ScriptChunks\<close> (toolbox_transform_editor script_text.cpp,
    common/derived_recipes recipes.cpp): the tokenizer and the renaming of identifiers, default names, the
    lookup of inputs in the catalog, and the generated chunks with the way back from their line numbers. A
    lookup meets its specification; a literal stays inside its chunk; an error names the user's own line.
  \<^item> \<open>CsvTimestamps\<close>, \<open>CsvParser\<close>, \<open>CsvImport\<close> (data_load_csv timestamp_parsing.cpp, csv_parser.cpp,
    csv_source.cpp): types and times of cells, the one pass over the lines, the records handed to the host. One
    pass gives what two would; every line is a sample or a counted warning; every point is written.
  \<^item> \<open>VideoEmit\<close>, \<open>WhepClient\<close>, \<open>WhepConnection\<close>, \<open>WebrtcSource\<close> (data_stream_webrtc video_emit.cpp,
    whep_client.cpp, whep_connection.cpp, webrtc_source.cpp): access units, the HTTP side, one connection with its worker and
    closer, and the source over all cameras. Every session granted is hung up; closing ends; a lost camera is
    retried.
  \<^item> \<open>WireStream\<close>, \<open>FoxObjects\<close>, \<open>FoxScene\<close>, \<open>FoxRoundTrip\<close> (parser_protobuf foxglove_object_codecs.cpp): the
    scanners of the protobuf wire format under the locale \<open>coded_stream\<close>, which states what the library
    documents and is interpreted on a stream over bytes, and the decoders of transforms, odometry, images,
    calibrations, annotations and scenes. A nested reader resumes its parent at the right place whatever the
    bytes are; a transform reads back.
  \<^item> \<open>PointColor\<close>, \<open>LaserScan\<close>, \<open>GridMaps\<close>, \<open>TransferRate\<close> (common/pointcloud_color, laser_scan, grid_map,
    transfer_rate): normalized colours, projected scans with their cached tables, transcoded ring buffers, and the
    window of a transfer rate.
  \<^item> \<open>WireNested\<close>, \<open>FoxPoints\<close>, \<open>FoxPointFacts\<close> (parser_protobuf foxglove_wire_util.hpp and the grid, voxel
    grid and point cloud codecs): the strict nested readers under the locale \<open>consumed_stream\<close>, which extends
    \<open>coded_stream\<close>, and the decoders of packed data. Every decoder returns; a cloud fits its data; the summary
    of a scan agrees with its decoding.

  \<^bold>\<open>How the code is represented.\<close> A class is a record of its members and a method a function on it; an
  enumeration is a datatype; an exception, an error status and an empty optional are values. Integers are
  words, or \<open>int\<close> with the wrap-around or saturation written out where the code depends on it; offsets and
  byte counts of data in memory are \<open>nat\<close>. Strings are byte strings. Floating-point values are an
  uninterpreted type with the operations the code uses as parameters. A call of the host, the socket or the
  clock is an entry of a log and its answer a function of the log so far, so a theorem about a session
  holds for every behaviour of the outside. What two threads share is protected by a mutex held for a whole
  operation, so their interleavings are sequences of whole operations; the worker, the closer and the callbacks of
  a WebRTC connection interleave at the finer actions between its critical sections.

  \<^bold>\<open>Termination and bounds.\<close> None of the loops takes fuel. All but those over protobuf fields are total
  functions: the scanning loops end by the remaining text, the mutually recursive parser by the remaining
  tokens, the search for a free label or name by the number of those in use, the fetching of stream lists by the
  code's limit on pages. Whether a loop over protobuf fields ends depends on the library, so these are partial
  functions with None for not ending, and that they return is proved from the documented behaviour. A
  closing connection has at most fourteen actions left.
  The prescan's limit on lines is the code's own. Waiting for the network is bounded by deadlines that the
  session theory states against a clock that never goes back.

  \<^bold>\<open>Not modelled.\<close> Dialogs and widgets; the sockets, the HTTP library and the peer connections; the parsers and
  loaders that consist of calls of format libraries (MCAP, Arrow, Parquet, reflection over protobuf, ROS message
  introspection, MF4, BLF, ULog) and of floating-point conversions; of the toolboxes, the widgets and workers of
  the transform editor, the Arrow Flight client of Mosaico, the assistant agent and the numerical
  toolboxes; the debug formatting of the query editor. Of the ROS 2 streamer only the control plane is
  present. Buffer anchors, which keep memory alive, have no counterpart. The components list of the manifest has
  each part with its reason.
\<close>

end
